(* ===== verification/Ipacm_Prelude.thy ===== *)
theory Ipacm_Prelude
  imports Main "HOL-Library.Word" "HOL-Library.Multiset"
begin

unbundle bit_operations_syntax

text \<open>
  Shared vocabulary of the development: the widths of the C integers, the three loop
  shapes the sources repeat (search an array for the first slot that satisfies a test,
  rewrite every slot of an array while a state is threaded through, run a list of
  commands that may be undefined), and two interfaces. \<open>slot_table\<close> is the contract
  of a fixed array whose all-zero entries are free, the representation every table of
  the IPA connection manager uses; \<open>guarded_steps\<close> is the contract of a component
  whose operations keep an invariant.
\<close>

section \<open>Machine integers and return codes\<close>

type_synonym u8 = "8 word"
type_synonym u16 = "16 word"
type_synonym u32 = "32 word"

text \<open>\<open>IPACM_SUCCESS\<close> and \<open>IPACM_FAILURE\<close> of \<^verbatim>\<open>IPACM_Defs.h\<close>.\<close>

definition IPACM_SUCCESS :: int where "IPACM_SUCCESS = 0"
definition IPACM_FAILURE :: int where "IPACM_FAILURE = -1"

text \<open>
  \<open>htonl\<close>, \<open>ntohl\<close>, \<open>htons\<close> and \<open>ntohs\<close> on the little-endian target: byte reversal.
\<close>

definition htonl :: "u32 \<Rightarrow> u32" where
  "htonl x = push_bit 24 (x AND 0xFF) OR push_bit 8 (x AND 0xFF00)
     OR (drop_bit 8 x AND 0xFF00) OR drop_bit 24 x"

definition htons :: "u16 \<Rightarrow> u16" where
  "htons x = push_bit 8 x OR drop_bit 8 x"

abbreviation ntohl :: "u32 \<Rightarrow> u32" where "ntohl \<equiv> htonl"
abbreviation ntohs :: "u16 \<Rightarrow> u16" where "ntohs \<equiv> htons"

text \<open>Both reversals are their own inverses.\<close>

lemma byte_mask_0: "(0xFF :: 32 word) = mask 8" by (simp add: mask_eq_exp_minus_1)

lemma byte_mask_1: "(0xFF00 :: 32 word) = push_bit 8 (mask 8)" by (simp add: mask_eq_exp_minus_1)

lemma htons_htons [simp]: "htons (htons x) = x"
  by (rule bit_word_eqI) (auto simp: htons_def bit_simps)

lemma byte_cases:
  assumes "(n :: nat) < 32"
  obtains k where "k < 8" "n = k" | k where "k < 8" "n = 8 + k"
    | k where "k < 8" "n = 16 + k" | k where "k < 8" "n = 24 + k"
proof -
  have "n = n mod 8 + 8 * (n div 8)" by simp
  moreover have "n div 8 = 0 \<or> n div 8 = 1 \<or> n div 8 = 2 \<or> n div 8 = 3"
    using assms by linarith
  moreover have "n mod 8 < 8" by simp
  ultimately show thesis by (elim disjE) (use that [of "n mod 8"] in simp_all)
qed

lemma bit_htonl:
  assumes "k < 8"
  shows "bit (htonl x) k = bit x (24 + k)" "bit (htonl x) (8 + k) = bit x (16 + k)"
    "bit (htonl x) (16 + k) = bit x (8 + k)" "bit (htonl x) (24 + k) = bit x k"
proof -
  have z: "\<not> bit x m" if "32 \<le> m" for m using bit_imp_le_length [of x m] that by auto
  show "bit (htonl x) k = bit x (24 + k)" "bit (htonl x) (8 + k) = bit x (16 + k)"
    "bit (htonl x) (16 + k) = bit x (8 + k)" "bit (htonl x) (24 + k) = bit x k"
    using assms by (auto simp add: htonl_def byte_mask_0 byte_mask_1 bit_simps z add.commute)
qed

lemma htonl_htonl [simp]: "htonl (htonl x) = x"
proof (rule bit_word_eqI)
  fix n assume "n < LENGTH(32)"
  then have "n < 32" by simp
  then show "bit (htonl (htonl x)) n = bit x n"
    by (cases rule: byte_cases) (simp_all add: bit_htonl)
qed

text \<open>
  A pointer to one heap object: null, to a live object, or to a freed one. The singleton
  accessors of the program keep such pointers in static members.
\<close>

datatype 'a ptr = Null | Live 'a | Dangling

text \<open>
  The \<open>GetInstance\<close> functions: create the object on first use, run its \<open>Init\<close>, and on
  failure \<open>delete pInstance; return NULL\<close>, which leaves the static pointer as it was. The
  result is the returned pointer, then the static one.
\<close>

definition singleton :: "'a option \<Rightarrow> 'a ptr \<Rightarrow> 'a ptr \<times> 'a ptr" where
  "singleton made p =
     (case p of
        Null \<Rightarrow> (case made of None \<Rightarrow> (Null, Dangling) | Some x \<Rightarrow> (Live x, Live x))
      | _ \<Rightarrow> (p, p))"

section \<open>Theorem collections\<close>

named_theorems slot_simps "effect of writing one slot of a table"
named_theorems keeps "preservation of a component's invariant by one operation"

section \<open>Loops over arrays\<close>

text \<open>
  The loop \<open>for (cnt = 0; cnt < n; cnt++) if (P(a[cnt])) break;\<close>: the value of
  \<open>cnt\<close> after it, which is the array's length when no slot satisfies the test.
\<close>

fun find_idx :: "('a \<Rightarrow> bool) \<Rightarrow> 'a list \<Rightarrow> nat" where
  "find_idx P [] = 0"
| "find_idx P (x # xs) = (if P x then 0 else Suc (find_idx P xs))"

text \<open>
  A loop that visits every slot in order, may rewrite the slot it visits, and threads a
  state (a driver, a counter) through the iterations.
\<close>

fun sweep :: "('a \<Rightarrow> 's \<Rightarrow> 'a \<times> 's) \<Rightarrow> 'a list \<Rightarrow> 's \<Rightarrow> 'a list \<times> 's" where
  "sweep f [] s = ([], s)"
| "sweep f (x # xs) s =
     (let (x', s1) = f x s; (xs', s2) = sweep f xs s1 in (x' # xs', s2))"

text \<open>Commands run one after another; \<open>None\<close> is undefined behaviour, which sticks.\<close>

fun run_steps :: "('e \<Rightarrow> 's \<Rightarrow> 's option) \<Rightarrow> 'e list \<Rightarrow> 's \<Rightarrow> 's option" where
  "run_steps step [] s = Some s"
| "run_steps step (e # es) s =
     (case step e s of None \<Rightarrow> None | Some s' \<Rightarrow> run_steps step es s')"

lemma find_idx_le [simp]: "find_idx P xs \<le> length xs"
  by (induction xs) auto

lemma find_idx_less_iff: "find_idx P xs < length xs \<longleftrightarrow> (\<exists>x \<in> set xs. P x)"
  by (induction xs) auto

lemma find_idx_eq_length_iff: "find_idx P xs = length xs \<longleftrightarrow> (\<forall>x \<in> set xs. \<not> P x)"
  by (induction xs) auto

lemma find_idx_nth: "find_idx P xs < length xs \<Longrightarrow> P (xs ! find_idx P xs)"
  by (induction xs) auto

lemma find_idx_first: "i < find_idx P xs \<Longrightarrow> \<not> P (xs ! i)"
  by (induction xs arbitrary: i) (auto simp: nth_Cons split: nat.splits if_splits)

lemma find_idx_cong: "(\<And>x. x \<in> set xs \<Longrightarrow> P x = Q x) \<Longrightarrow> find_idx P xs = find_idx Q xs"
  by (induction xs) auto

lemma sweep_length [simp]: "length (fst (sweep f xs s)) = length xs"
  by (induction xs arbitrary: s) (simp_all add: Let_def split_beta)

text \<open>An iteration whose effect on the slot does not depend on the state.\<close>

lemma sweep_map:
  "(\<And>x s. x \<in> set xs \<Longrightarrow> fst (f x s) = g x) \<Longrightarrow> fst (sweep f xs s) = map g xs"
proof (induction xs arbitrary: s)
  case Nil
  then show ?case by simp
next
  case (Cons x xs)
  have "fst (f x s) = g x" and "fst (sweep f xs (snd (f x s))) = map g xs"
    using Cons by simp_all
  then show ?case by (simp add: split_beta Let_def)
qed

text \<open>
  Relational rule for \<open>sweep\<close>: if every iteration relates the state before to the slot
  and the state after, the sweep relates them for the whole array.
\<close>

lemma sweep_all:
  assumes step: "\<And>x s x' s'. \<lbrakk>x \<in> set xs; I s; f x s = (x', s')\<rbrakk> \<Longrightarrow> R x x' \<and> I s'"
    and "I s"
  shows "list_all2 R xs (fst (sweep f xs s)) \<and> I (snd (sweep f xs s))"
  using assms
proof (induction xs arbitrary: s)
  case Nil
  then show ?case by simp
next
  case (Cons x xs)
  obtain x' s1 where e: "f x s = (x', s1)" by force
  have r: "R x x'" "I s1" using Cons.prems(1) [of x s] Cons.prems(2) e by auto
  have "list_all2 R xs (fst (sweep f xs s1)) \<and> I (snd (sweep f xs s1))"
    using Cons.prems(1) r(2) by (intro Cons.IH) auto
  with e r show ?case by (auto simp: Let_def split: prod.splits)
qed

section \<open>Tables of slots\<close>

text \<open>
  A table is a fixed array; a slot is free when its identifying fields are zero. Three
  observations of a table: the number of used slots, the list of the keys of the used
  slots, and whether those keys are pairwise distinct.
\<close>

definition used_slots :: "('a \<Rightarrow> bool) \<Rightarrow> 'a list \<Rightarrow> 'a list" where
  "used_slots free xs = filter (\<lambda>x. \<not> free x) xs"

definition used_count :: "('a \<Rightarrow> bool) \<Rightarrow> 'a list \<Rightarrow> nat" where
  "used_count free xs = length (used_slots free xs)"

definition used_keys :: "('a \<Rightarrow> bool) \<Rightarrow> ('a \<Rightarrow> 'k) \<Rightarrow> 'a list \<Rightarrow> 'k list" where
  "used_keys free key xs = map key (used_slots free xs)"

lemma used_slots_Nil [simp]: "used_slots free [] = []"
  by (simp add: used_slots_def)

lemma used_slots_Cons [simp]:
  "used_slots free (x # xs) = (if free x then used_slots free xs else x # used_slots free xs)"
  by (simp add: used_slots_def)

lemma used_slots_append [simp]:
  "used_slots free (xs @ ys) = used_slots free xs @ used_slots free ys"
  by (simp add: used_slots_def)

lemma set_used_slots [simp]: "set (used_slots free xs) = {x \<in> set xs. \<not> free x}"
  by (simp add: used_slots_def)

lemma used_count_le: "used_count free xs \<le> length xs"
  by (simp add: used_count_def used_slots_def)

lemma used_count_full: "(\<forall>x \<in> set xs. \<not> free x) \<Longrightarrow> used_count free xs = length xs"
  by (simp add: used_count_def used_slots_def)

lemma used_count_less: "x \<in> set xs \<Longrightarrow> free x \<Longrightarrow> used_count free xs < length xs"
  by (auto simp: used_count_def used_slots_def intro: length_filter_less)

lemma split_at_slot:
  assumes "i < length xs"
  shows "xs = take i xs @ xs ! i # drop (Suc i) xs"
    and "xs[i := x] = take i xs @ x # drop (Suc i) xs"
  using assms by (simp_all add: id_take_nth_drop [symmetric] upd_conv_take_nth_drop)

lemma used_slots_split:
  assumes "i < length xs"
  shows "used_slots free xs
       = used_slots free (take i xs) @ used_slots free [xs ! i] @ used_slots free (drop (Suc i) xs)"
proof -
  have "used_slots free xs = used_slots free (take i xs @ xs ! i # drop (Suc i) xs)"
    using split_at_slot(1) [OF assms] by simp
  then show ?thesis by simp
qed

lemma used_slots_update:
  assumes "i < length xs"
  shows "used_slots free (xs[i := x])
       = used_slots free (take i xs) @ used_slots free [x] @ used_slots free (drop (Suc i) xs)"
  by (simp add: split_at_slot(2) [OF assms])

locale slot_table =
  fixes free :: "'a \<Rightarrow> bool" and key :: "'a \<Rightarrow> 'k" and blank :: 'a
  assumes blank_free: "free blank"
    and free_by_key: "key x = key y \<Longrightarrow> free x = free y"
begin

lemma count_put [slot_simps]:
  "\<lbrakk>i < length xs; free (xs ! i); \<not> free x\<rbrakk>
    \<Longrightarrow> used_count free (xs[i := x]) = Suc (used_count free xs)"
  by (simp add: used_count_def used_slots_update) (simp add: used_slots_split)

lemma count_clear [slot_simps]:
  "\<lbrakk>i < length xs; \<not> free (xs ! i)\<rbrakk>
    \<Longrightarrow> Suc (used_count free (xs[i := blank])) = used_count free xs"
  by (simp add: used_count_def used_slots_update blank_free) (simp add: used_slots_split)

lemma count_rewrite [slot_simps]:
  "\<lbrakk>i < length xs; free x = free (xs ! i)\<rbrakk>
    \<Longrightarrow> used_count free (xs[i := x]) = used_count free xs"
  by (simp add: used_count_def used_slots_update) (simp add: used_slots_split)

lemma keys_put [slot_simps]:
  "\<lbrakk>i < length xs; free (xs ! i); \<not> free x\<rbrakk>
    \<Longrightarrow> mset (used_keys free key (xs[i := x])) = add_mset (key x) (mset (used_keys free key xs))"
  by (simp add: used_keys_def used_slots_update) (simp add: used_slots_split)

lemma keys_clear [slot_simps]:
  "\<lbrakk>i < length xs; \<not> free (xs ! i)\<rbrakk>
    \<Longrightarrow> mset (used_keys free key xs)
      = add_mset (key (xs ! i)) (mset (used_keys free key (xs[i := blank])))"
  by (simp add: used_keys_def used_slots_update blank_free) (simp add: used_slots_split)

lemma keys_rewrite [slot_simps]:
  assumes "i < length xs" "key x = key (xs ! i)"
  shows "used_keys free key (xs[i := x]) = used_keys free key xs"
  using assms free_by_key [OF assms(2)]
  by (simp add: used_keys_def used_slots_update) (simp add: used_slots_split)

text \<open>Distinctness of the keys of a table is kept by every kind of write.\<close>

lemma distinct_put:
  assumes "i < length xs" "free (xs ! i)" "\<not> free x"
    and "distinct (used_keys free key xs)" "key x \<notin> set (used_keys free key xs)"
  shows "distinct (used_keys free key (xs[i := x]))"
proof -
  have "mset (used_keys free key (xs[i := x])) = mset (key x # used_keys free key xs)"
    using keys_put [OF assms(1,2,3)] by simp
  from mset_eq_imp_distinct_iff [OF this] assms(4,5) show ?thesis by simp
qed

lemma set_keys_put:
  assumes "i < length xs" "free (xs ! i)" "\<not> free x"
  shows "set (used_keys free key (xs[i := x])) = insert (key x) (set (used_keys free key xs))"
proof -
  have "mset (used_keys free key (xs[i := x])) = mset (key x # used_keys free key xs)"
    using keys_put [OF assms] by simp
  from mset_eq_setD [OF this] show ?thesis by simp
qed

lemma clear_free:
  assumes "i < length xs" "free (xs ! i)"
  shows "used_slots free (xs[i := blank]) = used_slots free xs"
  using assms by (simp add: used_slots_update blank_free) (simp add: used_slots_split)

lemma clear_used:
  assumes "i < length xs" "\<not> free (xs ! i)"
  shows "mset (used_keys free key xs) = mset (key (xs ! i) # used_keys free key (xs[i := blank]))"
  using keys_clear [OF assms] by simp

lemma distinct_clear:
  assumes "i < length xs" "distinct (used_keys free key xs)"
  shows "distinct (used_keys free key (xs[i := blank]))"
proof (cases "free (xs ! i)")
  case True
  with assms show ?thesis by (simp add: used_keys_def clear_free)
next
  case False
  from mset_eq_imp_distinct_iff [OF clear_used [OF assms(1) False]] assms(2)
  show ?thesis by simp
qed

lemma set_keys_clear:
  assumes "i < length xs" "\<not> free (xs ! i)" "distinct (used_keys free key xs)"
  shows "set (used_keys free key (xs[i := blank])) = set (used_keys free key xs) - {key (xs ! i)}"
proof -
  note m = clear_used [OF assms(1,2)]
  from mset_eq_imp_distinct_iff [OF m] assms(3)
  have "key (xs ! i) \<notin> set (used_keys free key (xs[i := blank]))" by simp
  with mset_eq_setD [OF m] show ?thesis by auto
qed

text \<open>
  A sweep that keeps the key of every slot or blanks the slot keeps the keys distinct;
  with the counter decremented for every blanked used slot, it keeps the counter exact.
\<close>

lemma sweep_distinct:
  assumes "list_all2 (\<lambda>x x'. key x' = key x \<or> x' = blank) xs xs'"
    and "distinct (used_keys free key xs)"
  shows "distinct (used_keys free key xs')
       \<and> set (used_keys free key xs') \<subseteq> set (used_keys free key xs)"
  using assms
proof (induction rule: list_all2_induct)
  case Nil
  then show ?case by simp
next
  case (Cons x xs y ys)
  have d: "distinct (used_keys free key xs)"
    and nk: "\<not> free x \<Longrightarrow> key x \<notin> set (used_keys free key xs)"
    using Cons.prems by (auto simp: used_keys_def split: if_splits)
  have k: "used_keys free key (z # zs)
         = (if free z then used_keys free key zs else key z # used_keys free key zs)" for z zs
    by (simp add: used_keys_def)
  from Cons.hyps(1) free_by_key [of y x] blank_free Cons.IH [OF d] nk
  show ?case unfolding k by (cases "free x"; cases "free y") auto
qed

text \<open>
  A loop that in each iteration keeps the key of the slot and the counter, or blanks a used
  slot and decrements the counter, keeps the difference of counter and used slots.
\<close>

lemma sweep_slots:
  assumes step: "\<And>x s x' s'. \<lbrakk>x \<in> set xs; f x s = (x', s')\<rbrakk>
      \<Longrightarrow> (key x' = key x \<and> c s' = c s) \<or> (\<not> free x \<and> x' = blank \<and> c s' = c s - (1::int))"
    and run: "sweep f xs s = (xs', s')"
  shows "c s' - int (used_count free xs') = c s - int (used_count free xs)
       \<and> list_all2 (\<lambda>x x'. key x' = key x \<or> x' = blank) xs xs'"
  using assms
proof (induction xs arbitrary: s xs' s')
  case Nil
  then show ?case by simp
next
  case (Cons x xs)
  obtain y s1 where e: "f x s = (y, s1)" by force
  obtain ys s2 where r: "sweep f xs s1 = (ys, s2)" by force
  have xs': "xs' = y # ys" "s' = s2" using Cons.prems(2) e r by (auto simp: Let_def)
  have ih: "c s2 - int (used_count free ys) = c s1 - int (used_count free xs)
       \<and> list_all2 (\<lambda>x x'. key x' = key x \<or> x' = blank) xs ys"
    using Cons.prems(1) r by (intro Cons.IH) auto
  have "(key y = key x \<and> c s1 = c s) \<or> (\<not> free x \<and> y = blank \<and> c s1 = c s - 1)"
    using Cons.prems(1) [OF _ e] by simp
  with ih show ?case
    unfolding xs' using free_by_key [of y x] blank_free by (auto simp: used_count_def)
qed

end

section \<open>Components that keep an invariant\<close>

text \<open>
  The contract of a component: every command that is defined on a good state leads to a
  good state. What the client gets is that any run of commands does.
\<close>

locale guarded_steps =
  fixes step :: "'e \<Rightarrow> 's \<Rightarrow> 's option" and good :: "'s \<Rightarrow> bool"
  assumes step_good: "\<lbrakk>good s; step e s = Some s'\<rbrakk> \<Longrightarrow> good s'"
begin

lemma run_good: "\<lbrakk>good s; run_steps step es s = Some s'\<rbrakk> \<Longrightarrow> good s'"
  by (induction es arbitrary: s) (auto split: option.splits dest: step_good)

end

text \<open>A component none of whose commands is undefined on a good state.\<close>

locale total_steps = guarded_steps +
  assumes step_defined: "good s \<Longrightarrow> \<exists>s'. step e s = Some s'"
begin

lemma run_defined: "good s \<Longrightarrow> \<exists>s'. run_steps step es s = Some s' \<and> good s'"
proof (induction es arbitrary: s)
  case Nil
  then show ?case by simp
next
  case (Cons e es)
  then obtain s1 where "step e s = Some s1" "good s1"
    using step_defined step_good by blast
  with Cons.IH [of s1] show ?case by simp
qed

end

end
