(* ===== verification/Ipacm_Chain.thy ===== *)
theory Ipacm_Chain
  imports Ipacm_Prelude
begin

text \<open>
  Singly linked lists in an explicit store, as the message queue, the event dispatcher
  and the interface manager build them with \<open>malloc\<close>/\<open>new\<close> and \<open>free\<close>/\<open>delete\<close>. A store maps
  the addresses of live nodes to their contents; reading a freed address is undefined
  behaviour, the value \<open>None\<close>. The loops that walk a list are \<open>partial_function\<close>s, since on
  a cyclic list the C loops do not end; the lemmas show that they end, and what they
  compute, on every well-formed list.
\<close>

section \<open>Nodes, stores and list segments\<close>

record 'p lnode =
  next_of :: "nat option"
  payload :: 'p

type_synonym 'p store = "nat \<Rightarrow> 'p lnode option"

text \<open>\<open>seg m p as q\<close>: from pointer \<open>p\<close> the \<open>next\<close> fields lead through the nodes \<open>as\<close> to \<open>q\<close>.\<close>

fun seg :: "'p store \<Rightarrow> nat option \<Rightarrow> nat list \<Rightarrow> nat option \<Rightarrow> bool" where
  "seg m p [] q = (p = q)"
| "seg m p (a # as) q =
     (p = Some a \<and> (case m a of None \<Rightarrow> False | Some n \<Rightarrow> seg m (next_of n) as q))"

abbreviation chain :: "'p store \<Rightarrow> nat option \<Rightarrow> nat list \<Rightarrow> bool" where
  "chain m p as \<equiv> seg m p as None"

text \<open>The payloads stored at a list of addresses.\<close>

definition payloads :: "'p store \<Rightarrow> nat list \<Rightarrow> 'p list" where
  "payloads m as = map (\<lambda>a. payload (the (m a))) as"

lemma payloads_Nil [simp]: "payloads m [] = []"
  by (simp add: payloads_def)

lemma payloads_Cons [simp]: "payloads m (a # as) = payload (the (m a)) # payloads m as"
  by (simp add: payloads_def)

lemma payloads_append [simp]: "payloads m (as @ bs) = payloads m as @ payloads m bs"
  by (simp add: payloads_def)

lemma payloads_upd [simp]: "a \<notin> set as \<Longrightarrow> payloads (m(a := x)) as = payloads m as"
  by (auto simp: payloads_def)

lemma seg_append: "seg m p (as @ bs) q \<longleftrightarrow> (\<exists>r. seg m p as r \<and> seg m r bs q)"
  by (induction as arbitrary: p) (auto split: option.splits)

lemma seg_upd [simp]: "a \<notin> set as \<Longrightarrow> seg (m(a := x)) p as q = seg m p as q"
  by (induction as arbitrary: p) (auto split: option.splits)

lemma seg_cong: "(\<And>a. a \<in> set as \<Longrightarrow> m a = m' a) \<Longrightarrow> seg m p as q = seg m' p as q"
  by (induction as arbitrary: p) (auto split: option.splits)

lemma seg_alloc: "seg m p as q \<Longrightarrow> a \<in> set as \<Longrightarrow> m a \<noteq> None"
  by (induction as arbitrary: p) (auto split: option.splits)

lemma seg_head: "seg m p as q \<Longrightarrow> as \<noteq> [] \<Longrightarrow> p = Some (hd as)"
  by (cases as) auto

lemma chain_None [simp]: "chain m None as \<longleftrightarrow> as = []"
  by (cases as) auto

lemma seg_snoc:
  "seg m p (as @ [a]) q \<longleftrightarrow> seg m p as (Some a) \<and> (\<exists>n. m a = Some n \<and> next_of n = q)"
  by (auto simp: seg_append split: option.splits)

text \<open>Redirecting the last node of a segment.\<close>

lemma seg_relink:
  assumes "seg m p (as @ [a]) q" "a \<notin> set as" "m a = Some n"
  shows "seg (m(a \<mapsto> n\<lparr>next_of := r\<rparr>)) p (as @ [a]) r"
  using assms by (auto simp: seg_snoc)

lemma payloads_relink:
  assumes "m a = Some n"
  shows "payloads (m(a \<mapsto> n\<lparr>next_of := r\<rparr>)) as = payloads m as"
  using assms by (auto simp: payloads_def)

section \<open>Walking to the last node\<close>

text \<open>\<open>while (tmp->next) tmp = tmp->next;\<close>\<close>

partial_function (option) last_node :: "'p store \<Rightarrow> nat \<Rightarrow> nat option" where
  "last_node m a =
     (case m a of None \<Rightarrow> None
      | Some n \<Rightarrow> (case next_of n of None \<Rightarrow> Some a | Some b \<Rightarrow> last_node m b))"

lemma last_node_chain: "chain m (Some a) (a # as) \<Longrightarrow> last_node m a = Some (last (a # as))"
proof (induction as arbitrary: a)
  case Nil
  then show ?case by (subst last_node.simps) (auto split: option.splits)
next
  case (Cons b bs)
  then obtain n where n: "m a = Some n" "next_of n = Some b" "chain m (Some b) (b # bs)"
    by (auto split: option.splits)
  with Cons.IH [of b] show ?case by (subst last_node.simps) simp
qed

section \<open>Appending a node\<close>

text \<open>
  \<open>registr\<close> of the dispatcher and of the interface manager: the new node becomes the
  head of an empty list, and the successor of the last node otherwise.
\<close>

definition append_node :: "nat \<Rightarrow> 'p \<Rightarrow> 'p store \<Rightarrow> nat option \<Rightarrow> ('p store \<times> nat option) option" where
  "append_node nw x m head =
     (let m1 = m(nw \<mapsto> \<lparr>next_of = None, payload = x\<rparr>) in
      case head of
        None \<Rightarrow> Some (m1, Some nw)
      | Some h \<Rightarrow>
          (case last_node m1 h of
             None \<Rightarrow> None
           | Some t \<Rightarrow>
               (case m1 t of None \<Rightarrow> None
                | Some n \<Rightarrow> Some (m1(t \<mapsto> n\<lparr>next_of := Some nw\<rparr>), head))))"

lemma append_node_chain:
  assumes c: "chain m head as" and d: "distinct as" and fresh: "m nw = None"
  shows "\<exists>m' head'. append_node nw x m head = Some (m', head') \<and> chain m' head' (as @ [nw])
    \<and> distinct (as @ [nw]) \<and> payloads m' (as @ [nw]) = payloads m as @ [x]
    \<and> dom m' = insert nw (dom m)"
proof (cases head)
  case None
  with c have "as = []" by simp
  with None show ?thesis by (simp add: append_node_def)
next
  case (Some h)
  have out: "nw \<notin> set as" using seg_alloc [OF c, of nw] fresh by blast
  let ?m1 = "m(nw \<mapsto> \<lparr>next_of = None, payload = x\<rparr>)"
  obtain bs t where as: "as = bs @ [t]"
    using c Some by (cases as rule: rev_cases) auto
  have c1: "chain ?m1 head as" using c out by simp
  have "as = h # tl as" using seg_head [OF c] Some as by (cases as) auto
  with c1 Some have last: "last_node ?m1 h = Some t"
    using last_node_chain [of ?m1 h "tl as"] as by auto
  obtain n where n: "?m1 t = Some n" using seg_alloc [OF c1, of t] as by auto
  let ?m2 = "?m1(t \<mapsto> n\<lparr>next_of := Some nw\<rparr>)"
  have r: "append_node nw x m head = Some (?m2, head)"
    using Some last n by (simp add: append_node_def Let_def)
  have tn: "t \<noteq> nw" "t \<notin> set bs" using out d as by auto
  have "seg ?m2 head as (Some nw)"
    using seg_relink [of ?m1 head bs t None n "Some nw"] c1 n tn as by simp
  with tn have "chain ?m2 head (as @ [nw])" by (auto simp: seg_snoc)
  moreover have "payloads ?m2 (as @ [nw]) = payloads m as @ [x]"
    using payloads_relink [of ?m1 t n "Some nw" "as @ [nw]"] n out by simp
  moreover have "dom ?m2 = insert nw (dom m)" using n tn by (auto split: if_splits)
  ultimately show ?thesis using r out d by auto
qed

section \<open>Unlinking every node that satisfies a test\<close>

text \<open>
  The loop of \<open>deregistr\<close>. \<open>prev\<close> is only written through when the node to unlink is not
  the head; after a head node was freed it dangles until the next node is kept.
\<close>

definition set_next :: "nat option \<Rightarrow> nat option \<Rightarrow> 'p store \<Rightarrow> 'p store option" where
  "set_next p q m =
     (case p of None \<Rightarrow> None
      | Some a \<Rightarrow> (case m a of None \<Rightarrow> None | Some n \<Rightarrow> Some (m(a \<mapsto> n\<lparr>next_of := q\<rparr>))))"

partial_function (option) unlink_loop ::
  "('p \<Rightarrow> bool) \<Rightarrow> 'p store \<Rightarrow> nat option \<Rightarrow> nat option \<Rightarrow> nat option
    \<Rightarrow> ('p store \<times> nat option) option" where
  "unlink_loop P m head prev tmp =
     (case tmp of None \<Rightarrow> Some (m, head)
      | Some t \<Rightarrow>
          (case m t of None \<Rightarrow> None
           | Some n \<Rightarrow>
               (if P (payload n) then
                  (if tmp = head then unlink_loop P (m(t := None)) (next_of n) prev (next_of n)
                   else if next_of n = None then
                     (case set_next prev None m of None \<Rightarrow> None
                      | Some m1 \<Rightarrow> unlink_loop P (m1(t := None)) head prev (next_of n))
                   else
                     (case set_next prev (next_of n) m of None \<Rightarrow> None
                      | Some m1 \<Rightarrow> unlink_loop P (m1(t := None)) head prev (next_of n)))
                else unlink_loop P m head tmp (next_of n))))"

text \<open>
  The invariant of the loop: the nodes kept so far end in \<open>prev\<close> and lead to \<open>tmp\<close>; while
  none is kept, \<open>tmp\<close> is the head.
\<close>

lemma unlink_loop_chain:
  assumes "seg m head ks tmp" "chain m tmp as" "distinct (ks @ as)"
    and "ks \<noteq> [] \<Longrightarrow> prev = Some (last ks)"
  shows "\<exists>m' head'. unlink_loop P m head prev tmp = Some (m', head')
    \<and> (let bs = filter (\<lambda>a. \<not> P (payload (the (m a)))) as in
        chain m' head' (ks @ bs) \<and> payloads m' (ks @ bs) = payloads m (ks @ bs)
        \<and> dom m' = dom m - {a \<in> set as. P (payload (the (m a)))})"
  using assms
proof (induction as arbitrary: m head prev tmp ks)
  case Nil
  then show ?case by (subst unlink_loop.simps) auto
next
  case (Cons t as)
  from Cons.prems(2) obtain n where tmp: "tmp = Some t" and n: "m t = Some n"
    and rest: "chain m (next_of n) as" by (auto split: option.splits)
  from Cons.prems(3) have fresh: "t \<notin> set ks" "t \<notin> set as" "distinct (ks @ as)" by auto
  show ?case
  proof (cases "P (payload n)")
    case False
    have "seg m head (ks @ [t]) (next_of n)"
      using Cons.prems(1) tmp n by (simp add: seg_snoc)
    from Cons.IH [OF this rest, of tmp] fresh tmp
    obtain m' head' where "unlink_loop P m head tmp (next_of n) = Some (m', head')"
      and "let bs = filter (\<lambda>a. \<not> P (payload (the (m a)))) as in
        chain m' head' ((ks @ [t]) @ bs) \<and> payloads m' ((ks @ [t]) @ bs) = payloads m ((ks @ [t]) @ bs)
        \<and> dom m' = dom m - {a \<in> set as. P (payload (the (m a)))}"
      by auto
    with False tmp n show ?thesis
      by (subst unlink_loop.simps) (auto simp: Let_def)
  next
    case True
    obtain m1 head1 where step: "unlink_loop P m head prev tmp
        = unlink_loop P (m1(t := None)) head1 prev (next_of n)"
      and s: "seg m1 head1 ks (next_of n)" and keep: "\<And>a. a \<notin> set ks \<Longrightarrow> m1 a = m a"
      and pay: "\<And>bs. payloads m1 bs = payloads m bs" and dm: "dom m1 = dom m"
    proof (cases "ks = []")
      case True
      then have "tmp = head" using Cons.prems(1) by simp
      with \<open>P (payload n)\<close> tmp n True show ?thesis
        by (intro that [of m "next_of n"]) (subst unlink_loop.simps, auto)
    next
      case False
      then obtain ls l where ks: "ks = ls @ [l]" by (cases ks rule: rev_cases) auto
      with Cons.prems(4) have prev: "prev = Some l" by simp
      obtain k where k: "m l = Some k" using seg_alloc [OF Cons.prems(1), of l] ks by auto
      let ?m1 = "m(l \<mapsto> k\<lparr>next_of := next_of n\<rparr>)"
      have "head = Some (hd ks)" using seg_head [OF Cons.prems(1) False] .
      with fresh(1) False tmp have "tmp \<noteq> head" by (cases ks) auto
      then have "unlink_loop P m head prev tmp
          = unlink_loop P (?m1(t := None)) head prev (next_of n)"
        using \<open>P (payload n)\<close> tmp n prev k
        by (subst unlink_loop.simps) (auto simp: set_next_def)
      moreover have "seg ?m1 head ks (next_of n)"
        using seg_relink [of m head ls l tmp k "next_of n"] Cons.prems(1,3) k ks by simp
      moreover have "\<And>bs. payloads ?m1 bs = payloads m bs"
        by (rule payloads_relink [of m l k, OF k])
      moreover have "dom ?m1 = dom m" using k by auto
      ultimately show ?thesis using ks by (intro that [of ?m1 head]) auto
    qed
    let ?m2 = "m1(t := None)"
    have eq: "\<And>a. a \<in> set as \<Longrightarrow> ?m2 a = m a" using keep fresh by auto
    have "chain m1 (next_of n) as = chain m (next_of n) as"
      using keep fresh(3) by (intro seg_cong) auto
    then have "chain ?m2 (next_of n) as" using rest fresh(2) by simp
    moreover have "seg ?m2 head1 ks (next_of n)" using s fresh(1) by simp
    ultimately obtain m' head' where
      "unlink_loop P ?m2 head1 prev (next_of n) = Some (m', head')"
      and res: "let bs = filter (\<lambda>a. \<not> P (payload (the (?m2 a)))) as in
        chain m' head' (ks @ bs) \<and> payloads m' (ks @ bs) = payloads ?m2 (ks @ bs)
        \<and> dom m' = dom ?m2 - {a \<in> set as. P (payload (the (?m2 a)))}"
      using Cons.IH [of ?m2 head1 ks "next_of n" prev] fresh(3) Cons.prems(4) by blast
    moreover have "filter (\<lambda>a. \<not> P (payload (the (?m2 a)))) as = filter (\<lambda>a. \<not> P (payload (the (m a)))) as"
      using eq by (intro filter_cong) auto
    moreover have "{a \<in> set as. P (payload (the (?m2 a)))} = {a \<in> set as. P (payload (the (m a)))}"
      by (intro Collect_cong conj_cong refl) (simp only: eq)
    ultimately show ?thesis
      using step True n dm pay fresh by (auto simp: Let_def)
  qed
qed

end
