(* ===== verification/Ipacm_Events.thy ===== *)
theory Ipacm_Events
  imports Ipacm_Prelude
begin

text \<open>
  The event identifiers, interface categories and event payloads of
  \<^verbatim>\<open>IPACM_Defs.h\<close> that the modelled components exchange.
\<close>

datatype (plugins only: code) ipa_cm_event_id =
    IPA_CFG_CHANGE_EVENT | IPA_LINK_UP_EVENT | IPA_LINK_DOWN_EVENT | IPA_ADDR_ADD_EVENT
  | IPA_ADDR_DEL_EVENT | IPA_ROUTE_ADD_EVENT | IPA_ROUTE_DEL_EVENT | IPA_FIREWALL_CHANGE_EVENT
  | IPA_WLAN_AP_LINK_UP_EVENT | IPA_WLAN_STA_LINK_UP_EVENT | IPA_WLAN_CLIENT_ADD_EVENT
  | IPA_WLAN_CLIENT_DEL_EVENT | IPA_WLAN_CLIENT_POWER_SAVE_EVENT | IPA_WLAN_CLIENT_RECOVER_EVENT
  | IPA_NEW_NEIGH_EVENT | IPA_DEL_NEIGH_EVENT | IPA_NEIGH_CLIENT_IP_ADDR_ADD_EVENT
  | IPA_NEIGH_CLIENT_IP_ADDR_DEL_EVENT | IPA_SW_ROUTING_ENABLE | IPA_SW_ROUTING_DISABLE
  | IPA_PROCESS_CT_MESSAGE | IPA_HANDLE_WAN_UP | IPA_HANDLE_WAN_DOWN | IPA_HANDLE_WLAN_UP
  | IPA_HANDLE_LAN_UP | IPA_WLAN_CLIENT_ADD_EVENT_EX | IPA_HANDLE_WAN_UP_V6
  | IPA_HANDLE_WAN_DOWN_V6 | IPA_LAN_CLIENT_ACTIVE | IPA_LAN_CLIENT_INACTIVE
  | IPA_LAN_CLIENT_DISCONNECT | IPA_LAN_CLIENT_POWER_SAVE | IPA_LAN_CLIENT_POWER_RECOVER
  | IPA_LAN_TO_LAN_NEW_CONNECTION | IPA_LAN_TO_LAN_DEL_CONNECTION | IPA_LAN_DELETE_SELF
  | IPA_WLAN_LINK_DOWN_EVENT | IPA_USB_LINK_UP_EVENT | IPA_PROCESS_CT_MESSAGE_V6
  | IPA_PRIVATE_SUBNET_CHANGE_EVENT | IPA_WAN_UPSTREAM_ROUTE_ADD_EVENT
  | IPA_WAN_UPSTREAM_ROUTE_DEL_EVENT | IPA_WAN_EMBMS_LINK_UP_EVENT
  | IPA_ETH_BRIDGE_USB_CLIENT_ADD_EVENT | IPA_ETH_BRIDGE_WLAN_CLIENT_ADD_EVENT
  | IPA_ETH_BRIDGE_USB_CLIENT_DEL_EVENT | IPA_ETH_BRIDGE_WLAN_CLIENT_DEL_EVENT
  | IPA_ETH_BRIDGE_HDR_PROC_CTX_SET_EVENT | IPA_ETH_BRIDGE_HDR_PROC_CTX_UNSET_EVENT
  | IPA_WLAN_SWITCH_TO_SCC | IPA_WLAN_SWITCH_TO_MCC | IPA_CRADLE_WAN_MODE_SWITCH
  | IPA_WAN_XLAT_CONNECT_EVENT | IPA_TETHERING_STATS_UPDATE_EVENT
  | IPA_NETWORK_STATS_UPDATE_EVENT | IPA_HANDLE_WAN_UP_TETHER | IPA_HANDLE_WAN_DOWN_TETHER
  | IPA_HANDLE_WAN_UP_V6_TETHER | IPA_HANDLE_WAN_DOWN_V6_TETHER

datatype ipacm_iface_type =
    LAN_IF | WLAN_IF | WAN_IF | VIRTUAL_IF | ETH_IF | EMBMS_IF | ODU_IF | UNKNOWN_IF

text \<open>\<open>enum ipa_ip_type\<close> of the kernel header: the two values the program tests for, and the rest.\<close>

datatype ipa_ip_type = IPA_IP_v4 | IPA_IP_v6 | IPA_IP_MAX

record ipacm_event_data_all =
  iptype :: ipa_ip_type
  if_index :: int
  ipv4_addr :: u32
  ipv6_addr :: "u32 list"
  mac_addr :: "u8 list"

record ipacm_event_iface_up =
  ifname :: string
  up_ipv4_addr :: u32
  addr_mask :: u32
  ipv6_prefix :: "u32 list"
  is_sta :: bool

end
