(* ===== verification/Ipacm_Queue.thy ===== *)
theory Ipacm_Queue
  imports Ipacm_Chain Ipacm_Events
begin

text \<open>
  The command queue (\<^verbatim>\<open>IPACM_CmdQueue.cpp\<close>) and the event dispatcher
  (\<^verbatim>\<open>IPACM_EvtDispatcher.cpp\<close>), over an explicit store of nodes. The message queue is
  shown to be a first-in first-out queue through the interface \<open>fifo\<close>; the dispatcher's
  list of listeners is shown to be kept in registration order by \<open>registr\<close> and
  \<open>deregistr\<close>, and \<open>ProcessEvt\<close> to call exactly the listeners of the event, in that
  order.
\<close>

section \<open>The message queue\<close>

record 'm message_queue =
  q_mem :: "'m store"
  Head :: "nat option"
  Tail :: "nat option"

definition empty_queue :: "'m message_queue" where
  "empty_queue = \<lparr>q_mem = Map.empty, Head = None, Tail = None\<rparr>"

text \<open>\<open>MessageQueue::enqueue\<close>: the item is a live node, given by its address.\<close>

definition enqueue :: "nat \<Rightarrow> 'm message_queue \<Rightarrow> 'm message_queue option" where
  "enqueue item q =
     (case Head q of
        None \<Rightarrow> Some (q\<lparr>Tail := Some item, Head := Some item\<rparr>)
      | Some h \<Rightarrow>
          (case (if Tail q = None then set_next (Some h) (Some item) (q_mem q)
                 else set_next (Tail q) (Some item) (q_mem q)) of
             None \<Rightarrow> None
           | Some m \<Rightarrow> Some (q\<lparr>q_mem := m, Tail := Some item\<rparr>)))"

text \<open>\<open>MessageQueue::dequeue\<close>: \<open>Tail\<close> is left alone, also when the queue becomes empty.\<close>

definition dequeue :: "'m message_queue \<Rightarrow> (nat option \<times> 'm message_queue) option" where
  "dequeue q =
     (case Head q of
        None \<Rightarrow> Some (None, q)
      | Some p \<Rightarrow>
          (case q_mem q p of None \<Rightarrow> None
           | Some n \<Rightarrow> Some (Some p, q\<lparr>Head := next_of n\<rparr>)))"

text \<open>
  \<open>IPACM_EvtDispatcher::PostEvt\<close>. The address is the result of \<open>new Message()\<close>; the three
  flags are the results of the pthread calls.
\<close>

record post_env =
  lock_ok :: bool
  signal_ok :: bool
  unlock_ok :: bool

definition PostEvt :: "post_env \<Rightarrow> nat option \<Rightarrow> 'm \<Rightarrow> 'm message_queue
    \<Rightarrow> (int \<times> 'm message_queue) option" where
  "PostEvt env addr d q =
     (case addr of
        None \<Rightarrow> Some (IPACM_FAILURE, q)
      | Some item \<Rightarrow>
          (let q1 = q\<lparr>q_mem := (q_mem q)(item \<mapsto> \<lparr>next_of = None, payload = d\<rparr>)\<rparr> in
           if \<not> lock_ok env then Some (IPACM_FAILURE, q1)
           else
             (case enqueue item q1 of
                None \<Rightarrow> None
              | Some q2 \<Rightarrow>
                  if \<not> signal_ok env then Some (IPACM_FAILURE, q2)
                  else if \<not> unlock_ok env then Some (IPACM_FAILURE, q2)
                  else Some (IPACM_SUCCESS, q2))))"

text \<open>
  One turn of the loop of \<open>MessageQueue::Process\<close>: the thread stops when a pthread call
  fails, waits when the queue is empty, and otherwise hands the item to its callback and
  deletes it afterwards. The callback may post further messages.
\<close>

record proc_env =
  p_lock_ok :: bool
  p_wait_ok :: bool
  p_unlock_ok :: bool

datatype proc_turn = Stopped | Waited | Handled

definition Process_turn :: "proc_env \<Rightarrow> ('m \<Rightarrow> 'm message_queue \<times> 'w \<Rightarrow> ('m message_queue \<times> 'w) option)
    \<Rightarrow> 'm message_queue \<times> 'w \<Rightarrow> (proc_turn \<times> 'm message_queue \<times> 'w) option" where
  "Process_turn env cb = (\<lambda>(q, w).
     if \<not> p_lock_ok env then Some (Stopped, q, w)
     else
       (case dequeue q of
          None \<Rightarrow> None
        | Some (None, q1) \<Rightarrow>
            if \<not> p_wait_ok env then Some (Stopped, q1, w)
            else if \<not> p_unlock_ok env then Some (Stopped, q1, w)
            else Some (Waited, q1, w)
        | Some (Some item, q1) \<Rightarrow>
            if \<not> p_unlock_ok env then Some (Stopped, q1, w)
            else
              (case q_mem q1 item of
                 None \<Rightarrow> None
               | Some n \<Rightarrow>
                   (case cb (payload n) (q1, w) of
                      None \<Rightarrow> None
                    | Some (q2, w2) \<Rightarrow>
                        Some (Handled, q2\<lparr>q_mem := (q_mem q2)(item := None)\<rparr>, w2)))))"

section \<open>The queue as an interface\<close>

text \<open>
  \<open>holds q ms\<close>: the queue holds the messages \<open>ms\<close>, oldest first, each with the address of
  its node. \<open>vacant a q\<close>: the allocator may hand out \<open>a\<close>.
\<close>

locale fifo =
  fixes put :: "'n \<Rightarrow> 'm \<Rightarrow> 'q \<Rightarrow> 'q option"
    and take_msg :: "'q \<Rightarrow> ('m option \<times> 'q) option"
    and vacant :: "'n \<Rightarrow> 'q \<Rightarrow> bool"
    and holds :: "'q \<Rightarrow> ('n \<times> 'm) list \<Rightarrow> bool"
  assumes vacant_iff: "holds q ms \<Longrightarrow> vacant n q \<longleftrightarrow> n \<notin> fst ` set ms"
    and put_holds: "\<lbrakk>holds q ms; vacant n q\<rbrakk>
          \<Longrightarrow> \<exists>q'. put n x q = Some q' \<and> holds q' (ms @ [(n, x)])"
    and take_empty: "holds q [] \<Longrightarrow> \<exists>q'. take_msg q = Some (None, q') \<and> holds q' []"
    and take_holds: "holds q ((n, m) # ms) \<Longrightarrow> \<exists>q'. take_msg q = Some (Some m, q') \<and> holds q' ms"

datatype ('n, 'm) qcmd = QPut 'n 'm | QTake

text \<open>
  A run of producers and the consumer in some order: the messages delivered and the final
  queue. A \<open>QPut\<close> at an address the allocator cannot return does not happen: \<open>None\<close>.
\<close>

fun q_run :: "('n \<Rightarrow> 'm \<Rightarrow> 'q \<Rightarrow> 'q option) \<Rightarrow> ('q \<Rightarrow> ('m option \<times> 'q) option)
    \<Rightarrow> ('n \<Rightarrow> 'q \<Rightarrow> bool) \<Rightarrow> ('n, 'm) qcmd list \<Rightarrow> 'q \<Rightarrow> ('m list \<times> 'q) option" where
  "q_run put tk vac [] q = Some ([], q)"
| "q_run put tk vac (QPut n x # cs) q =
     (if \<not> vac n q then None
      else case put n x q of None \<Rightarrow> None | Some q' \<Rightarrow> q_run put tk vac cs q')"
| "q_run put tk vac (QTake # cs) q =
     (case tk q of None \<Rightarrow> None
      | Some (None, q') \<Rightarrow> q_run put tk vac cs q'
      | Some (Some m, q') \<Rightarrow> map_option (\<lambda>(out, r). (m # out, r)) (q_run put tk vac cs q'))"

text \<open>The specification: the same run over a list of address-message pairs.\<close>

fun l_run :: "('n, 'm) qcmd list \<Rightarrow> ('n \<times> 'm) list \<Rightarrow> ('m list \<times> ('n \<times> 'm) list) option" where
  "l_run [] ms = Some ([], ms)"
| "l_run (QPut n x # cs) ms = (if n \<in> fst ` set ms then None else l_run cs (ms @ [(n, x)]))"
| "l_run (QTake # cs) [] = l_run cs []"
| "l_run (QTake # cs) ((n, m) # ms) = map_option (\<lambda>(out, r). (m # out, r)) (l_run cs ms)"

context fifo
begin

lemma run_refines:
  "holds q ms \<Longrightarrow>
    (case l_run cs ms of
       None \<Rightarrow> q_run put take_msg vacant cs q = None
     | Some (out, ms') \<Rightarrow> \<exists>q'. q_run put take_msg vacant cs q = Some (out, q') \<and> holds q' ms')"
proof (induction cs ms arbitrary: q rule: l_run.induct)
  case (1 ms)
  then show ?case by simp
next
  case (2 n x cs ms)
  show ?case
  proof (cases "n \<in> fst ` set ms")
    case True
    with 2 vacant_iff [of q ms n] show ?thesis by simp
  next
    case False
    with 2 vacant_iff [of q ms n] obtain q' where
      "vacant n q" "put n x q = Some q'" "holds q' (ms @ [(n, x)])"
      using put_holds [of q ms n x] by blast
    with "2.IH" [OF False, of q'] False show ?thesis by (auto split: option.splits prod.splits)
  qed
next
  case (3 cs)
  then obtain q' where "take_msg q = Some (None, q')" "holds q' []" using take_empty by blast
  with "3.IH" [of q'] show ?case by (auto split: option.splits prod.splits)
next
  case (4 cs n m ms)
  then obtain q' where "take_msg q = Some (Some m, q')" "holds q' ms" using take_holds by blast
  with "4.IH" [of q'] show ?case by (auto split: option.splits)
qed

end

section \<open>The message queue is a FIFO queue\<close>

definition queue_holds :: "'m message_queue \<Rightarrow> (nat \<times> 'm) list \<Rightarrow> bool" where
  "queue_holds q ms \<longleftrightarrow>
     (let as = map fst ms in
      chain (q_mem q) (Head q) as \<and> distinct as \<and> payloads (q_mem q) as = map snd ms
      \<and> dom (q_mem q) = set as \<and> (as \<noteq> [] \<longrightarrow> Tail q = Some (last as)))"

definition pthread_ok :: post_env where
  "pthread_ok = \<lparr>lock_ok = True, signal_ok = True, unlock_ok = True\<rparr>"

definition pthread_ok_p :: proc_env where
  "pthread_ok_p = \<lparr>p_lock_ok = True, p_wait_ok = True, p_unlock_ok = True\<rparr>"

text \<open>The producer's and the consumer's half, with pthread calls that succeed.\<close>

definition mq_put :: "nat \<Rightarrow> 'm \<Rightarrow> 'm message_queue \<Rightarrow> 'm message_queue option" where
  "mq_put a x q = map_option snd (PostEvt pthread_ok (Some a) x q)"

definition mq_take :: "'m message_queue \<Rightarrow> ('m option \<times> 'm message_queue) option" where
  "mq_take q =
     (case Process_turn pthread_ok_p (\<lambda>m (q1, w). Some (q1, Some m)) (q, None) of
        None \<Rightarrow> None | Some (t, q', w) \<Rightarrow> Some (w, q'))"

definition mq_vacant :: "nat \<Rightarrow> 'm message_queue \<Rightarrow> bool" where
  "mq_vacant a q \<longleftrightarrow> q_mem q a = None"

lemma empty_queue_holds: "queue_holds empty_queue []"
  by (simp add: queue_holds_def empty_queue_def)

lemma enqueue_holds:
  assumes h: "queue_holds q ms" and fresh: "q_mem q a = None"
  shows "\<exists>q'. enqueue a (q\<lparr>q_mem := (q_mem q)(a \<mapsto> \<lparr>next_of = None, payload = x\<rparr>)\<rparr>) = Some q'
    \<and> queue_holds q' (ms @ [(a, x)])"
proof -
  let ?m = "(q_mem q)(a \<mapsto> \<lparr>next_of = None, payload = x\<rparr>)"
  let ?as = "map fst ms"
  have c: "chain (q_mem q) (Head q) ?as" and d: "distinct ?as"
    and p: "payloads (q_mem q) ?as = map snd ms" and dm: "dom (q_mem q) = set ?as"
    and t: "?as \<noteq> [] \<Longrightarrow> Tail q = Some (last ?as)"
    using h by (auto simp: queue_holds_def Let_def)
  have out: "a \<notin> set ?as" using dm fresh by (metis domIff)
  show ?thesis
  proof (cases ?as rule: rev_cases)
    case Nil
    with c p dm show ?thesis by (auto simp: enqueue_def queue_holds_def)
  next
    case (snoc bs b)
    have h: "Head q \<noteq> None" using seg_head [OF c] snoc by auto
    have "b \<in> dom (q_mem q)" using dm snoc by simp
    with out snoc obtain n where n: "?m b = Some n" by auto
    let ?m2 = "?m(b \<mapsto> n\<lparr>next_of := Some a\<rparr>)"
    have r: "enqueue a (q\<lparr>q_mem := ?m\<rparr>) = Some (q\<lparr>q_mem := ?m2, Tail := Some a\<rparr>)"
      using h n t snoc by (auto simp: enqueue_def set_next_def)
    have "chain ?m (Head q) (bs @ [b])" using c out snoc by simp
    then have "seg ?m2 (Head q) (bs @ [b]) (Some a)"
      using d snoc n by (intro seg_relink) auto
    then have "chain ?m2 (Head q) (?as @ [a])"
      unfolding snoc [symmetric] seg_snoc using snoc out by auto
    moreover have "payloads ?m2 (?as @ [a]) = map snd ms @ [x]"
      using payloads_relink [of ?m b n "Some a" "?as @ [a]"] n out p by simp
    moreover have "dom ?m2 = set (?as @ [a])" using dm n snoc by auto
    ultimately have "queue_holds (q\<lparr>q_mem := ?m2, Tail := Some a\<rparr>) (ms @ [(a, x)])"
      using d out by (simp add: queue_holds_def)
    with r show ?thesis by blast
  qed
qed

lemma dequeue_holds:
  assumes h: "queue_holds q ((p, m) # ms)"
  shows "\<exists>n q1. dequeue q = Some (Some p, q1) \<and> q_mem q1 p = Some n \<and> payload n = m
    \<and> queue_holds (q1\<lparr>q_mem := (q_mem q1)(p := None)\<rparr>) ms"
proof -
  have c: "chain (q_mem q) (Head q) (p # map fst ms)" and d: "distinct (p # map fst ms)"
    and pl: "payloads (q_mem q) (p # map fst ms) = m # map snd ms"
    and t: "Tail q = Some (last (p # map fst ms))" and dm: "dom (q_mem q) = insert p (fst ` set ms)"
    using h by (auto simp: queue_holds_def Let_def)
  obtain n where n: "q_mem q p = Some n" using seg_alloc [OF c] by auto
  let ?q1 = "q\<lparr>Head := next_of n\<rparr>"
  have "dequeue q = Some (Some p, ?q1)" using c n by (simp add: dequeue_def)
  moreover have "queue_holds (?q1\<lparr>q_mem := (q_mem ?q1)(p := None)\<rparr>) ms"
    using c d pl t n dm by (auto simp: queue_holds_def)
  ultimately show ?thesis using n pl by auto
qed

lemma dequeue_empty: "queue_holds q [] \<Longrightarrow> dequeue q = Some (None, q)"
  by (auto simp: queue_holds_def dequeue_def)

interpretation mq: fifo mq_put mq_take mq_vacant queue_holds
proof
  fix q :: "'m message_queue" and ms n
  assume "queue_holds q ms"
  then have "dom (q_mem q) = fst ` set ms" by (auto simp: queue_holds_def Let_def)
  then show "mq_vacant n q \<longleftrightarrow> n \<notin> fst ` set ms" by (metis domIff mq_vacant_def)
next
  fix q :: "'m message_queue" and ms n x
  assume "queue_holds q ms" "mq_vacant n q"
  then show "\<exists>q'. mq_put n x q = Some q' \<and> queue_holds q' (ms @ [(n, x)])"
    using enqueue_holds [of q ms n x]
    by (auto simp: mq_put_def PostEvt_def pthread_ok_def mq_vacant_def)
next
  fix q :: "'m message_queue"
  assume "queue_holds q []"
  then show "\<exists>q'. mq_take q = Some (None, q') \<and> queue_holds q' []"
    by (auto simp: mq_take_def Process_turn_def pthread_ok_p_def dequeue_empty)
next
  fix q :: "'m message_queue" and n m ms
  assume "queue_holds q ((n, m) # ms)"
  then show "\<exists>q'. mq_take q = Some (Some m, q') \<and> queue_holds q' ms"
    using dequeue_holds [of q n m ms] by (auto simp: mq_take_def Process_turn_def pthread_ok_p_def)
qed

text \<open>
  C1. The message queue, whose \<open>Tail\<close> dangles when the last item is taken and deleted, is
  a FIFO queue: any interleaving of posts and turns of the processing thread, started on
  the empty queue, behaves as the same interleaving over a list; it delivers the same
  messages in the same order, touches no freed node, and leaves a queue that holds what
  the list holds. A run fails only where the list run does, by allocating a live address.
\<close>

theorem message_queue_is_fifo:
  "case l_run cs [] of
     None \<Rightarrow> q_run mq_put mq_take mq_vacant cs empty_queue = None
   | Some (out, ms) \<Rightarrow>
       \<exists>q. q_run mq_put mq_take mq_vacant cs empty_queue = Some (out, q) \<and> queue_holds q ms"
  by (rule mq.run_refines) (rule empty_queue_holds)

section \<open>The event dispatcher\<close>

record 'o cmd_evt =
  ce_event :: ipa_cm_event_id
  ce_obj :: 'o

text \<open>The static list of listeners: a store of nodes and the \<open>head\<close> pointer.\<close>

record 'o dispatcher =
  d_mem :: "'o cmd_evt store"
  d_head :: "nat option"

text \<open>\<open>registr\<close>; the address is the result of \<open>malloc\<close>.\<close>

definition registr :: "nat option \<Rightarrow> ipa_cm_event_id \<Rightarrow> 'o \<Rightarrow> 'o dispatcher
    \<Rightarrow> (int \<times> 'o dispatcher) option" where
  "registr addr event obj d =
     (case addr of
        None \<Rightarrow> Some (IPACM_FAILURE, d)
      | Some nw \<Rightarrow>
          map_option (\<lambda>(m, h). (IPACM_SUCCESS, d\<lparr>d_mem := m, d_head := h\<rparr>))
            (append_node nw \<lparr>ce_event = event, ce_obj = obj\<rparr> (d_mem d) (d_head d)))"

definition deregistr :: "'o \<Rightarrow> 'o dispatcher \<Rightarrow> (int \<times> 'o dispatcher) option" where
  "deregistr param d =
     map_option (\<lambda>(m, h). (IPACM_SUCCESS, d\<lparr>d_mem := m, d_head := h\<rparr>))
       (unlink_loop (\<lambda>c. ce_obj c = param) (d_mem d) (d_head d) (d_head d) (d_head d))"

text \<open>
  \<open>ProcessEvt\<close>: the node is copied before its listener is called, so the listener may
  deregister itself; the walk goes on from the copied \<open>next\<close> pointer. The listener's
  callback may change the dispatcher and the rest of the program's state; the counters of
  \<open>ipacm_event_stats\<close> wrap at 32 bits.
\<close>

type_synonym ('o, 'w) evt_state = "'o dispatcher \<times> (ipa_cm_event_id \<Rightarrow> u32) \<times> 'w"

partial_function (option) process_loop ::
  "('o \<Rightarrow> ('o, 'w) evt_state \<Rightarrow> ('o, 'w) evt_state option) \<Rightarrow> ipa_cm_event_id
    \<Rightarrow> nat option \<Rightarrow> ('o, 'w) evt_state \<Rightarrow> ('o, 'w) evt_state option" where
  "process_loop cb event tmp s =
     (case tmp of
        None \<Rightarrow> Some s
      | Some t \<Rightarrow>
          (case d_mem (fst s) t of
             None \<Rightarrow> None
           | Some tmp1 \<Rightarrow>
               (if ce_event (payload tmp1) = event then
                  (case cb (ce_obj (payload tmp1))
                          (fst s, (fst (snd s))(event := fst (snd s) event + 1), snd (snd s)) of
                     None \<Rightarrow> None
                   | Some s' \<Rightarrow> process_loop cb event (next_of tmp1) s')
                else process_loop cb event (next_of tmp1) s)))"

definition ProcessEvt ::
  "('o \<Rightarrow> ('o, 'w) evt_state \<Rightarrow> ('o, 'w) evt_state option) \<Rightarrow> ipa_cm_event_id
    \<Rightarrow> ('o, 'w) evt_state \<Rightarrow> ('o, 'w) evt_state option" where
  "ProcessEvt cb event s = process_loop cb event (d_head (fst s)) s"

text \<open>The listeners in list order: what the pointer structure stands for.\<close>

definition listeners :: "'o dispatcher \<Rightarrow> 'o cmd_evt list \<Rightarrow> bool" where
  "listeners d ls \<longleftrightarrow>
     (\<exists>as. chain (d_mem d) (d_head d) as \<and> distinct as \<and> payloads (d_mem d) as = ls
        \<and> dom (d_mem d) = set as)"

definition empty_dispatcher :: "'o dispatcher" where
  "empty_dispatcher = \<lparr>d_mem = Map.empty, d_head = None\<rparr>"

lemma empty_dispatcher_listeners: "listeners empty_dispatcher []"
  by (auto simp: listeners_def empty_dispatcher_def intro: exI [of _ "[]"])

lemma registr_listeners:
  assumes "listeners d ls" "d_mem d nw = None"
  shows "\<exists>d'. registr (Some nw) e obj d = Some (IPACM_SUCCESS, d')
    \<and> listeners d' (ls @ [\<lparr>ce_event = e, ce_obj = obj\<rparr>])"
proof -
  obtain as where c: "chain (d_mem d) (d_head d) as" "distinct as"
    and p: "payloads (d_mem d) as = ls" "dom (d_mem d) = set as"
    using assms(1) unfolding listeners_def by blast
  let ?c = "\<lparr>ce_event = e, ce_obj = obj\<rparr>"
  from append_node_chain [OF c assms(2), of ?c] obtain m' h' where
    r: "append_node nw ?c (d_mem d) (d_head d) = Some (m', h')"
    and c': "chain m' h' (as @ [nw])" "distinct (as @ [nw])"
    and p': "payloads m' (as @ [nw]) = payloads (d_mem d) as @ [?c]" "dom m' = insert nw (dom (d_mem d))"
    by blast
  have "listeners (d\<lparr>d_mem := m', d_head := h'\<rparr>) (ls @ [?c])"
    unfolding listeners_def using c' p' p by (intro exI [of _ "as @ [nw]"]) simp
  with r show ?thesis by (simp add: registr_def)
qed

lemma filter_payloads:
  "payloads m (filter (\<lambda>a. P (payload (the (m a)))) as) = filter P (payloads m as)"
  by (induction as) auto

lemma deregistr_listeners:
  assumes "listeners d ls"
  shows "\<exists>d'. deregistr obj d = Some (IPACM_SUCCESS, d')
    \<and> listeners d' (filter (\<lambda>c. ce_obj c \<noteq> obj) ls)"
proof -
  obtain as where c: "chain (d_mem d) (d_head d) as" "distinct as"
    and p: "payloads (d_mem d) as = ls" "dom (d_mem d) = set as"
    using assms unfolding listeners_def by blast
  let ?bs = "filter (\<lambda>a. ce_obj (payload (the (d_mem d a))) \<noteq> obj) as"
  from unlink_loop_chain [of "d_mem d" "d_head d" "[]" "d_head d" as "d_head d"
      "\<lambda>c. ce_obj c = obj"] c
  obtain m' h' where u: "unlink_loop (\<lambda>c. ce_obj c = obj) (d_mem d) (d_head d) (d_head d) (d_head d)
        = Some (m', h')"
    and r: "chain m' h' ?bs" "payloads m' ?bs = payloads (d_mem d) ?bs"
      "dom m' = dom (d_mem d) - {a \<in> set as. ce_obj (payload (the (d_mem d a))) = obj}"
    by (auto simp: Let_def)
  have "payloads m' ?bs = filter (\<lambda>c. ce_obj c \<noteq> obj) ls"
    using r(2) p(1) filter_payloads [of "d_mem d" "\<lambda>c. ce_obj c \<noteq> obj" as] by simp
  moreover have "dom m' = set ?bs" using r(3) p(2) by auto
  ultimately show ?thesis
    using u r(1) c(2) unfolding deregistr_def listeners_def
    by (intro exI [of _ "d\<lparr>d_mem := m', d_head := h'\<rparr>"]) (auto intro!: exI [of _ ?bs])
qed

text \<open>The event's counter after \<open>k\<close> further deliveries.\<close>

definition bump :: "('e \<Rightarrow> u32) \<Rightarrow> 'e \<Rightarrow> nat \<Rightarrow> 'e \<Rightarrow> u32" where
  "bump st e k = st(e := st e + of_nat k)"

lemma bump_0 [simp]: "bump st e 0 = st"
  by (simp add: bump_def)

lemma bump_Suc [simp]: "bump (st(e := st e + 1)) e k = bump st e (Suc k)"
  by (simp add: bump_def algebra_simps)

text \<open>Walking over listeners whose callbacks leave the dispatcher alone.\<close>

lemma process_loop_seg:
  assumes "seg (d_mem d) tmp as q"
    and "\<And>c st w. \<lbrakk>c \<in> set (payloads (d_mem d) as); ce_event c = e\<rbrakk>
          \<Longrightarrow> cb (ce_obj c) (d, st, w) = Some (d, st, f (ce_obj c) w)"
  shows "process_loop cb e tmp (d, st, w)
       = process_loop cb e q
           (let hit = filter (\<lambda>c. ce_event c = e) (payloads (d_mem d) as) in
            (d, bump st e (length hit), fold f (map ce_obj hit) w))"
  using assms
proof (induction as arbitrary: tmp st w)
  case Nil
  then show ?case by simp
next
  case (Cons a as)
  then obtain n where n: "d_mem d a = Some n" "tmp = Some a" "seg (d_mem d) (next_of n) as q"
    by (auto split: option.splits)
  show ?case
  proof (cases "ce_event (payload n) = e")
    case True
    with Cons.prems(2) [of "payload n"] n
    have "process_loop cb e tmp (d, st, w)
        = process_loop cb e (next_of n) (d, st(e := st e + 1), f (ce_obj (payload n)) w)"
      by (subst process_loop.simps) simp
    with True n Cons.IH [OF n(3)] Cons.prems(2) show ?thesis by (simp add: Let_def)
  next
    case False
    with n have "process_loop cb e tmp (d, st, w) = process_loop cb e (next_of n) (d, st, w)"
      by (subst process_loop.simps) simp
    with False n Cons.IH [OF n(3)] Cons.prems(2) show ?thesis by (simp add: Let_def)
  qed
qed

lemma process_loop_end [simp]: "process_loop cb e None s = Some s"
  by (subst process_loop.simps) simp

lemma deregistr_frees:
  assumes "chain (d_mem d) (d_head d) as" "distinct as"
  shows "\<exists>d'. deregistr obj d = Some (IPACM_SUCCESS, d')
    \<and> (\<forall>a \<in> set as. ce_obj (payload (the (d_mem d a))) = obj \<longrightarrow> d_mem d' a = None)"
  using unlink_loop_chain [of "d_mem d" "d_head d" "[]" "d_head d" as "d_head d"
      "\<lambda>c. ce_obj c = obj"] assms
  by (auto simp: deregistr_def Let_def dom_def)

text \<open>
  The callback of an interface object on the event that deletes it
  (\<open>IPA_LAN_DELETE_SELF\<close>): its destructor deregisters it. The other listeners leave the
  dispatcher alone.
\<close>

definition delete_self_callback :: "'o \<Rightarrow> ('o \<Rightarrow> 'w \<Rightarrow> 'w) \<Rightarrow> 'o \<Rightarrow> ('o, 'w) evt_state
    \<Rightarrow> ('o, 'w) evt_state option" where
  "delete_self_callback victim f obj = (\<lambda>(d, st, w).
     if obj = victim then map_option (\<lambda>(_, d'). (d', st, w)) (deregistr obj d)
     else Some (d, st, f obj w))"

text \<open>An object that deregisters itself while its next registration follows in the list.\<close>

lemma self_deregistration:
  assumes "listeners d (pre @ [c1, c2] @ post)"
    and "ce_event c1 = e" "ce_obj c1 = victim" "ce_obj c2 = victim"
    and "\<forall>c \<in> set pre. ce_event c = e \<longrightarrow> ce_obj c \<noteq> victim"
  shows "ProcessEvt (delete_self_callback victim f) e (d, st, w) = None"
proof -
  obtain as where c: "chain (d_mem d) (d_head d) as" "distinct as"
    and p: "payloads (d_mem d) as = pre @ [c1, c2] @ post"
    using assms(1) unfolding listeners_def by blast
  obtain as1 a1 a2 as2 where as: "as = as1 @ a1 # a2 # as2"
    and p1: "payloads (d_mem d) as1 = pre" "payload (the (d_mem d a1)) = c1"
      "payload (the (d_mem d a2)) = c2"
    using p unfolding payloads_def by (auto simp: map_eq_append_conv map_eq_Cons_conv)
  obtain n1 where s: "seg (d_mem d) (d_head d) as1 (Some a1)" and n1: "d_mem d a1 = Some n1"
    "next_of n1 = Some a2"
    using c(1) unfolding as by (auto simp: seg_append split: option.splits)
  obtain d' where dr: "deregistr victim d = Some (IPACM_SUCCESS, d')" and fr: "d_mem d' a2 = None"
    using deregistr_frees [OF c, of victim] as p1(3) assms(4) by auto
  have "process_loop (delete_self_callback victim f) e (d_head d) (d, st, w)
      = process_loop (delete_self_callback victim f) e (Some a1)
          (let hit = filter (\<lambda>c. ce_event c = e) (payloads (d_mem d) as1) in
            (d, bump st e (length hit), fold f (map ce_obj hit) w))"
    using assms(5) p1(1) by (intro process_loop_seg [OF s]) (auto simp: delete_self_callback_def)
  also have "\<dots> = None"
    using n1 p1(2) assms(2,3) dr fr
    by (subst process_loop.simps) (auto simp: Let_def delete_self_callback_def process_loop.simps)
  finally show ?thesis by (simp add: ProcessEvt_def)
qed

text \<open>The same when nothing follows: the walk ends, and the object's registrations are gone.\<close>

lemma self_deregistration_last:
  assumes "listeners d (pre @ [c1])" "ce_event c1 = e" "ce_obj c1 = victim"
    and "\<forall>c \<in> set pre. ce_event c = e \<longrightarrow> ce_obj c \<noteq> victim"
  shows "\<exists>d' st' w'. ProcessEvt (delete_self_callback victim f) e (d, st, w) = Some (d', st', w')
    \<and> listeners d' (filter (\<lambda>c. ce_obj c \<noteq> victim) pre)"
proof -
  obtain as where c: "chain (d_mem d) (d_head d) as" and p: "payloads (d_mem d) as = pre @ [c1]"
    using assms(1) unfolding listeners_def by blast
  obtain as1 a1 where as: "as = as1 @ [a1]"
    and p1: "payloads (d_mem d) as1 = pre" "payload (the (d_mem d a1)) = c1"
    using p unfolding payloads_def by (auto simp: map_eq_append_conv map_eq_Cons_conv)
  obtain n1 where s: "seg (d_mem d) (d_head d) as1 (Some a1)" and n1: "d_mem d a1 = Some n1"
    "next_of n1 = None"
    using c unfolding as by (auto simp: seg_append split: option.splits)
  obtain d' where dr: "deregistr victim d = Some (IPACM_SUCCESS, d')"
    "listeners d' (filter (\<lambda>c. ce_obj c \<noteq> victim) (pre @ [c1]))"
    using deregistr_listeners [OF assms(1), of victim] by blast
  have "process_loop (delete_self_callback victim f) e (d_head d) (d, st, w)
      = process_loop (delete_self_callback victim f) e (Some a1)
          (let hit = filter (\<lambda>c. ce_event c = e) (payloads (d_mem d) as1) in
            (d, bump st e (length hit), fold f (map ce_obj hit) w))"
    using assms(4) p1(1) by (intro process_loop_seg [OF s]) (auto simp: delete_self_callback_def)
  moreover have last: "\<exists>st' w'. process_loop (delete_self_callback victim f) e (Some a1) (d, st1, w1) = Some (d', st', w')"
    for st1 w1
    using n1 p1(2) assms(2,3) dr(1) by (subst process_loop.simps) (simp add: delete_self_callback_def)
  ultimately obtain st' w' where "ProcessEvt (delete_self_callback victim f) e (d, st, w) = Some (d', st', w')"
    unfolding ProcessEvt_def fst_conv Let_def by metis
  moreover have "filter (\<lambda>c. ce_obj c \<noteq> victim) (pre @ [c1]) = filter (\<lambda>c. ce_obj c \<noteq> victim) pre"
    using assms(3) by simp
  ultimately show ?thesis using dr(2) by auto
qed

text \<open>
  Registering appends a listener, deregistering removes every registration of an
  object and no other, whatever its positions in the list (head, middle, last, all), and
  both leave a well-formed list without leaked or dangling nodes.
\<close>

theorem dispatcher_list_operations:
  assumes "listeners d ls"
  shows "(d_mem d nw = None \<longrightarrow> (\<exists>d'. registr (Some nw) e obj d = Some (IPACM_SUCCESS, d')
           \<and> listeners d' (ls @ [\<lparr>ce_event = e, ce_obj = obj\<rparr>])))
       \<and> (\<exists>d'. deregistr obj d = Some (IPACM_SUCCESS, d')
           \<and> listeners d' (filter (\<lambda>c. ce_obj c \<noteq> obj) ls))
       \<and> registr None e obj d = Some (IPACM_FAILURE, d)"
  using registr_listeners [OF assms] deregistr_listeners [OF assms]
  by (auto simp: registr_def)

text \<open>Three listeners, the first and the last of the same object 5.\<close>

definition sample_dispatcher :: "nat dispatcher" where
  "sample_dispatcher =
     \<lparr>d_mem = [1 \<mapsto> \<lparr>next_of = Some 2, payload = \<lparr>ce_event = IPA_LAN_DELETE_SELF, ce_obj = 5\<rparr>\<rparr>,
               2 \<mapsto> \<lparr>next_of = Some 3, payload = \<lparr>ce_event = IPA_LINK_UP_EVENT, ce_obj = 5\<rparr>\<rparr>,
               3 \<mapsto> \<lparr>next_of = None, payload = \<lparr>ce_event = IPA_LINK_UP_EVENT, ce_obj = 6\<rparr>\<rparr>],
      d_head = Some 1\<rparr>"

lemma sample_dispatcher_listeners:
  "listeners sample_dispatcher
     [\<lparr>ce_event = IPA_LAN_DELETE_SELF, ce_obj = 5\<rparr>, \<lparr>ce_event = IPA_LINK_UP_EVENT, ce_obj = 5\<rparr>,
      \<lparr>ce_event = IPA_LINK_UP_EVENT, ce_obj = 6\<rparr>]"
  unfolding listeners_def sample_dispatcher_def by (intro exI [of _ "[1, 2, 3]"]) auto

theorem dispatcher_list_operations_witness:
  "listeners sample_dispatcher
     [\<lparr>ce_event = IPA_LAN_DELETE_SELF, ce_obj = 5\<rparr>, \<lparr>ce_event = IPA_LINK_UP_EVENT, ce_obj = 5\<rparr>,
      \<lparr>ce_event = IPA_LINK_UP_EVENT, ce_obj = 6\<rparr>]
   \<and> (\<exists>d'. deregistr 5 sample_dispatcher = Some (IPACM_SUCCESS, d')
         \<and> listeners d' [\<lparr>ce_event = IPA_LINK_UP_EVENT, ce_obj = 6\<rparr>])"
  using dispatcher_list_operations [OF sample_dispatcher_listeners, of 9 IPA_LINK_UP_EVENT 5]
    sample_dispatcher_listeners
  by simp



text \<open>
  C9. When an object's callback deregisters the object and the next registration in the
  list is also the object's, the walk continues from a freed node: undefined behaviour.
\<close>

theorem ProcessEvt_self_deregistration_use_after_free:
  assumes "listeners d (pre @ [c1, c2] @ post)"
    and "ce_event c1 = e" "ce_obj c1 = victim" "ce_obj c2 = victim"
    and "\<forall>c \<in> set pre. ce_event c = e \<longrightarrow> ce_obj c \<noteq> victim"
  shows "ProcessEvt (delete_self_callback victim f) e (d, st, w) = None"
  by (rule self_deregistration [OF assms])

theorem ProcessEvt_self_deregistration_use_after_free_witness:
  "ProcessEvt (delete_self_callback 5 (\<lambda>_ w. w)) IPA_LAN_DELETE_SELF
     (sample_dispatcher, \<lambda>_. 0, ()) = None"
  using ProcessEvt_self_deregistration_use_after_free
    [of sample_dispatcher "[]" "\<lparr>ce_event = IPA_LAN_DELETE_SELF, ce_obj = 5\<rparr>"
        "\<lparr>ce_event = IPA_LINK_UP_EVENT, ce_obj = 5\<rparr>" "[\<lparr>ce_event = IPA_LINK_UP_EVENT, ce_obj = 6\<rparr>]"
        IPA_LAN_DELETE_SELF 5]
    sample_dispatcher_listeners
  by simp

end
