(* ===== verification/Ipacm_Config.thy ===== *)
theory Ipacm_Config
  imports Ipacm_Events
begin

text \<open>
  The configuration object of the connection manager (\<^verbatim>\<open>IPACM_Config.cpp\<close> and the
  inline methods of \<^verbatim>\<open>IPACM_Config.h\<close>, Android build): private subnets, the list of
  NAT interfaces, the resource manager dependencies and the extended properties. The
  kernel is reached through \<open>ioctl\<close>, whose results the code only logs; the model keeps the
  list of the dependency requests.
\<close>

section \<open>Data\<close>

datatype ipa_rm_resource_name =
    IPA_RM_RESOURCE_Q6_PROD | IPA_RM_RESOURCE_USB_PROD | IPA_RM_RESOURCE_HSIC_PROD
  | IPA_RM_RESOURCE_WLAN_PROD | IPA_RM_RESOURCE_Q6_CONS | IPA_RM_RESOURCE_USB_CONS
  | IPA_RM_RESOURCE_WLAN_CONS

record ipa_rm_client =
  producer_rm1 :: ipa_rm_resource_name
  consumer_rm1 :: ipa_rm_resource_name
  producer_rm2 :: ipa_rm_resource_name
  consumer_rm2 :: ipa_rm_resource_name
  producer1_up :: bool
  consumer1_up :: bool
  rm_set :: bool
  rx_bypass_ipa :: bool

record ipa_private_subnet =
  subnet_addr :: u32
  subnet_mask :: u32

record ipacm_alg =
  alg_protocol :: u8
  alg_port :: u16

record IPACM_conf_t =
  iface_entries :: "(string \<times> ipacm_iface_type) list"
  private_subnet_entries :: "ipa_private_subnet list"
  alg_entries :: "ipacm_alg list"
  nat_max_entries :: int

text \<open>An extended property: its address family and the rest, which is only copied.\<close>

type_synonym 'x ext_intf_prop = "ipa_ip_type \<times> 'x"

text \<open>
  The object. The three tables read from the XML file are heap arrays; \<open>ext_prop_v4\<close> and
  \<open>ext_prop_v6\<close> list the entries below \<open>num_ext_props\<close>. Each count is the C field of that
  name, which the code never makes negative.
\<close>

record 'x ipacm_config =
  ipa_rm_tbl :: "ipa_rm_client list"
  ipa_rm_a2_check :: int
  iface_table :: "(string \<times> ipacm_iface_type) list ptr"
  alg_table :: "ipacm_alg list ptr"
  private_subnet_table :: "ipa_private_subnet list"
  pNatIfaces :: "string list option"
  ipa_num_ipa_interfaces :: nat
  ipa_num_private_subnet :: nat
  ipa_num_alg_ports :: nat
  ipa_nat_max_entries :: int
  ipa_nat_iface_entries :: nat
  ext_prop_v4 :: "'x ext_intf_prop list"
  ext_prop_v6 :: "'x ext_intf_prop list"

definition IPA_MAX_PRIVATE_SUBNET_ENTRIES :: nat where "IPA_MAX_PRIVATE_SUBNET_ENTRIES = 3"
definition MAX_NUM_EXT_PROPS :: nat where "MAX_NUM_EXT_PROPS = 15"

definition no_subnet :: ipa_private_subnet where
  "no_subnet = \<lparr>subnet_addr = 0, subnet_mask = 0\<rparr>"

section \<open>Private subnets\<close>

definition visible_subnets :: "'x ipacm_config \<Rightarrow> ipa_private_subnet list" where
  "visible_subnets c = take (ipa_num_private_subnet c) (private_subnet_table c)"

definition isPrivateSubnet :: "'x ipacm_config \<Rightarrow> u32 \<Rightarrow> bool" where
  "isPrivateSubnet c ip_addr =
     list_ex (\<lambda>p. subnet_addr p = (subnet_mask p AND ip_addr)) (visible_subnets c)"

text \<open>
  \<open>return IPACM_FAILURE\<close> in a function that returns \<open>bool\<close> yields \<open>true\<close>: the conversion
  of \<open>-1\<close>.
\<close>

definition bool_of_int :: "int \<Rightarrow> bool" where "bool_of_int i = (i \<noteq> 0)"

text \<open>
  \<open>AddPrivateSubnet\<close> and \<open>DelPrivateSubnet\<close>: the result, the interface index of the
  \<open>IPA_PRIVATE_SUBNET_CHANGE_EVENT\<close> posted, if one is, and the object. \<open>malloc_ok\<close> is the
  result of allocating the event's data.
\<close>

definition AddPrivateSubnet :: "bool \<Rightarrow> u32 \<Rightarrow> int \<Rightarrow> 'x ipacm_config
    \<Rightarrow> bool \<times> int option \<times> 'x ipacm_config" where
  "AddPrivateSubnet malloc_ok ip_addr ipa_if_index c =
     (if list_ex (\<lambda>p. subnet_addr p = ip_addr) (visible_subnets c) then (True, None, c)
      else if ipa_num_private_subnet c < IPA_MAX_PRIVATE_SUBNET_ENTRIES then
        (let c1 = c\<lparr>private_subnet_table := (private_subnet_table c)[ipa_num_private_subnet c :=
                      \<lparr>subnet_addr = ip_addr, subnet_mask = push_bit 8 (drop_bit 8 (NOT 0))\<rparr>],
                    ipa_num_private_subnet := ipa_num_private_subnet c + 1\<rparr> in
         if \<not> malloc_ok then (bool_of_int IPACM_FAILURE, None, c1)
         else (True, Some ipa_if_index, c1))
      else (False, None, c))"

text \<open>The inner loop of \<open>DelPrivateSubnet\<close>: the addresses move down, the masks do not.\<close>

function shift_addrs :: "nat \<Rightarrow> nat \<Rightarrow> ipa_private_subnet list \<Rightarrow> ipa_private_subnet list" where
  "shift_addrs cnt n tbl =
     (if cnt < n - 1
      then shift_addrs (cnt + 1) n
             (tbl[cnt := (tbl ! cnt)\<lparr>subnet_addr := subnet_addr (tbl ! (cnt + 1))\<rparr>])
      else tbl)"
  by auto
termination by (relation "measure (\<lambda>(cnt, n, _). n - cnt)") auto

declare shift_addrs.simps [simp del]

definition DelPrivateSubnet :: "bool \<Rightarrow> u32 \<Rightarrow> int \<Rightarrow> 'x ipacm_config
    \<Rightarrow> bool \<times> int option \<times> 'x ipacm_config" where
  "DelPrivateSubnet malloc_ok ip_addr ipa_if_index c =
     (let n = ipa_num_private_subnet c;
          cnt = find_idx (\<lambda>p. subnet_addr p = ip_addr) (visible_subnets c) in
      if cnt < n then
        (let c1 = c\<lparr>private_subnet_table := shift_addrs cnt n (private_subnet_table c),
                    ipa_num_private_subnet := n - 1\<rparr> in
         if \<not> malloc_ok then (bool_of_int IPACM_FAILURE, None, c1)
         else (True, Some ipa_if_index, c1))
      else (False, None, c))"

section \<open>NAT interfaces\<close>

text \<open>
  \<open>None\<close> is an access outside the array \<open>pNatIfaces\<close>, or through a null pointer.
\<close>

definition AddNatIfaces :: "string \<Rightarrow> 'x ipacm_config \<Rightarrow> (int \<times> 'x ipacm_config) option" where
  "AddNatIfaces dev_name c =
     (let n = ipa_nat_iface_entries c + 1; c1 = c\<lparr>ipa_nat_iface_entries := n\<rparr> in
      if n < ipa_num_ipa_interfaces c then
        (case pNatIfaces c of
           None \<Rightarrow> None
         | Some t \<Rightarrow>
             if n - 1 < length t then Some (0, c1\<lparr>pNatIfaces := Some (t[n - 1 := dev_name])\<rparr>)
             else None)
      else Some (0, c1))"

text \<open>The search loop of \<open>DelNatIfaces\<close>: the index of the first match below \<open>n\<close>.\<close>

fun nat_iface_search :: "string \<Rightarrow> nat \<Rightarrow> string list \<Rightarrow> nat option option" where
  "nat_iface_search dev 0 t = Some None"
| "nat_iface_search dev (Suc n) [] = None"
| "nat_iface_search dev (Suc n) (x # t) =
     (if dev = x then Some (Some 0)
      else map_option (map_option Suc) (nat_iface_search dev n t))"

text \<open>Its inner loop: move the following names down, blank each name once copied.\<close>

function nat_iface_shift :: "nat \<Rightarrow> nat \<Rightarrow> string list \<Rightarrow> string list option" where
  "nat_iface_shift i n t =
     (if i < n - 1 then
        (if i + 1 < length t then nat_iface_shift (i + 1) n (t[i := t ! (i + 1), i + 1 := []])
         else None)
      else Some t)"
  by auto
termination by (relation "measure (\<lambda>(i, n, _). n - i)") auto

declare nat_iface_shift.simps [simp del]

definition DelNatIfaces :: "string \<Rightarrow> 'x ipacm_config \<Rightarrow> (int \<times> 'x ipacm_config) option" where
  "DelNatIfaces dev_name c =
     (let n = ipa_nat_iface_entries c in
      case pNatIfaces c of
        None \<Rightarrow> (if n = 0 then Some (0, c) else None)
      | Some t \<Rightarrow>
          (case nat_iface_search dev_name n t of
             None \<Rightarrow> None
           | Some None \<Rightarrow> Some (0, c)
           | Some (Some i) \<Rightarrow>
               (case nat_iface_shift i n (t[i := []]) of
                  None \<Rightarrow> None
                | Some t' \<Rightarrow> Some (0, c\<lparr>pNatIfaces := Some t', ipa_nat_iface_entries := n - 1\<rparr>))))"

text \<open>
  \<open>GetNatIfaces\<close> and \<open>GetAlgPorts\<close> copy the first \<open>n\<close> entries into the caller's array,
  whose length is \<open>n\<close> too. \<open>Some (-1, [])\<close> is the refusal of a count that is not positive.
\<close>

definition GetNatIfaces :: "int \<Rightarrow> 'x ipacm_config \<Rightarrow> (int \<times> string list) option" where
  "GetNatIfaces nIfaces c =
     (if nIfaces \<le> 0 then Some (-1, [])
      else (case pNatIfaces c of
              None \<Rightarrow> None
            | Some t \<Rightarrow> if nat nIfaces \<le> length t then Some (0, take (nat nIfaces) t) else None))"

definition GetAlgPorts :: "int \<Rightarrow> 'x ipacm_config \<Rightarrow> (int \<times> ipacm_alg list) option" where
  "GetAlgPorts nPorts c =
     (if nPorts \<le> 0 then Some (-1, [])
      else (case alg_table c of
              Live t \<Rightarrow> if nat nPorts \<le> length t then Some (0, take (nat nPorts) t) else None
            | _ \<Rightarrow> None))"

section \<open>Resource manager dependencies\<close>

datatype rm_request =
    IPA_IOC_RM_ADD_DEPENDENCY ipa_rm_resource_name ipa_rm_resource_name
  | IPA_IOC_RM_DEL_DEPENDENCY ipa_rm_resource_name ipa_rm_resource_name

text \<open>
  Both directions of one entry: the first is skipped when the producer has no Rx
  property (\<open>rx_bypass_ipa\<close>).
\<close>

definition rm_both :: "(ipa_rm_resource_name \<Rightarrow> ipa_rm_resource_name \<Rightarrow> rm_request)
    \<Rightarrow> ipa_rm_client \<Rightarrow> rm_request list" where
  "rm_both req e = (if rx_bypass_ipa e then [] else [req (producer_rm1 e) (consumer_rm1 e)])
     @ [req (producer_rm2 e) (consumer_rm2 e)]"

text \<open>The body of the loop of \<open>AddRmDepend\<close>, for one entry of the table.\<close>

definition AddRmDepend_producer :: "ipa_rm_resource_name \<Rightarrow> bool \<Rightarrow> ipa_rm_client
    \<Rightarrow> ipa_rm_client \<times> rm_request list" where
  "AddRmDepend_producer rm1 bypass e =
     (if rm1 = producer_rm1 e then
        (let e' = e\<lparr>producer1_up := True, rx_bypass_ipa := bypass\<rparr> in
         if consumer1_up e' \<and> \<not> rm_set e'
         then (e'\<lparr>rm_set := True\<rparr>, rm_both IPA_IOC_RM_ADD_DEPENDENCY e')
         else (e', []))
      else (e, []))"

definition AddRmDepend_consumer :: "ipa_rm_resource_name \<Rightarrow> ipa_rm_client
    \<Rightarrow> ipa_rm_client \<times> rm_request list" where
  "AddRmDepend_consumer rm1 e =
     (if rm1 = consumer_rm1 e then
        (let e' = e\<lparr>consumer1_up := True\<rparr> in
         if producer1_up e' \<and> \<not> rm_set e'
         then (e'\<lparr>rm_set := True\<rparr>, rm_both IPA_IOC_RM_ADD_DEPENDENCY e')
         else (e', []))
      else (e, []))"

definition AddRmDepend_entry :: "ipa_rm_resource_name \<Rightarrow> bool \<Rightarrow> ipa_rm_client
    \<Rightarrow> rm_request list \<Rightarrow> ipa_rm_client \<times> rm_request list" where
  "AddRmDepend_entry rm1 bypass e log =
     (let (e1, l1) = AddRmDepend_producer rm1 bypass e; (e2, l2) = AddRmDepend_consumer rm1 e1
      in (e2, log @ l1 @ l2))"

text \<open>
  The loop is bounded by \<open>IPA_MAX_PRIVATE_SUBNET_ENTRIES\<close>, not by the length of the table.
\<close>

definition rm_sweep :: "(ipa_rm_client \<Rightarrow> rm_request list \<Rightarrow> ipa_rm_client \<times> rm_request list)
    \<Rightarrow> 'x ipacm_config \<Rightarrow> rm_request list \<Rightarrow> 'x ipacm_config \<times> rm_request list" where
  "rm_sweep f c log =
     (let k = IPA_MAX_PRIVATE_SUBNET_ENTRIES;
          (es, log') = sweep f (take k (ipa_rm_tbl c)) log in
      (c\<lparr>ipa_rm_tbl := es @ drop k (ipa_rm_tbl c)\<rparr>, log'))"

definition AddRmDepend :: "ipa_rm_resource_name \<Rightarrow> bool \<Rightarrow> 'x ipacm_config \<times> rm_request list
    \<Rightarrow> 'x ipacm_config \<times> rm_request list" where
  "AddRmDepend rm1 bypass = (\<lambda>(c, log).
     let c1 = (if rm1 = IPA_RM_RESOURCE_Q6_CONS
               then c\<lparr>ipa_rm_a2_check := ipa_rm_a2_check c + 1\<rparr> else c) in
     rm_sweep (AddRmDepend_entry rm1 bypass) c1 log)"

text \<open>The body of the loop of \<open>DelRmDepend\<close>; \<open>a2\<close> is \<open>ipa_rm_a2_check\<close> after the decrement.\<close>

definition DelRmDepend_producer :: "ipa_rm_resource_name \<Rightarrow> ipa_rm_client
    \<Rightarrow> ipa_rm_client \<times> rm_request list" where
  "DelRmDepend_producer rm1 e =
     (if rm1 = producer_rm1 e then
        (if rm_set e
         then (e\<lparr>rm_set := False, producer1_up := False, rx_bypass_ipa := False\<rparr>,
               rm_both IPA_IOC_RM_DEL_DEPENDENCY e)
         else (e\<lparr>producer1_up := False, rx_bypass_ipa := False\<rparr>, []))
      else (e, []))"

definition DelRmDepend_consumer :: "ipa_rm_resource_name \<Rightarrow> int \<Rightarrow> ipa_rm_client
    \<Rightarrow> ipa_rm_client \<times> rm_request list" where
  "DelRmDepend_consumer rm1 a2 e =
     (if rm1 = consumer_rm1 e then
        (if consumer_rm1 e = IPA_RM_RESOURCE_Q6_CONS \<and> a2 = 1 then (e, [])
         else if rm_set e
         then (e\<lparr>rm_set := False, consumer1_up := False\<rparr>, rm_both IPA_IOC_RM_DEL_DEPENDENCY e)
         else (e\<lparr>consumer1_up := False\<rparr>, []))
      else (e, []))"

definition DelRmDepend_entry :: "ipa_rm_resource_name \<Rightarrow> int \<Rightarrow> ipa_rm_client
    \<Rightarrow> rm_request list \<Rightarrow> ipa_rm_client \<times> rm_request list" where
  "DelRmDepend_entry rm1 a2 e log =
     (let (e1, l1) = DelRmDepend_producer rm1 e; (e2, l2) = DelRmDepend_consumer rm1 a2 e1
      in (e2, log @ l1 @ l2))"

definition DelRmDepend :: "ipa_rm_resource_name \<Rightarrow> 'x ipacm_config \<times> rm_request list
    \<Rightarrow> 'x ipacm_config \<times> rm_request list" where
  "DelRmDepend rm1 = (\<lambda>(c, log).
     let c1 = (if rm1 = IPA_RM_RESOURCE_Q6_CONS
               then c\<lparr>ipa_rm_a2_check := ipa_rm_a2_check c - 1\<rparr> else c) in
     rm_sweep (DelRmDepend_entry rm1 (ipa_rm_a2_check c1)) c1 log)"

section \<open>Extended properties\<close>

text \<open>
  \<open>SetExtProp\<close>: a full table drops the property, an unexpected address family stops the
  loop with \<open>IPACM_FAILURE\<close> after the properties before it were stored.
\<close>

fun SetExtProp_loop :: "'x ext_intf_prop list \<Rightarrow> 'x ipacm_config \<Rightarrow> int \<times> 'x ipacm_config" where
  "SetExtProp_loop [] c = (IPACM_SUCCESS, c)"
| "SetExtProp_loop (p # ps) c =
     (case fst p of
        IPA_IP_v4 \<Rightarrow>
          if length (ext_prop_v4 c) \<ge> MAX_NUM_EXT_PROPS then SetExtProp_loop ps c
          else SetExtProp_loop ps (c\<lparr>ext_prop_v4 := ext_prop_v4 c @ [p]\<rparr>)
      | IPA_IP_v6 \<Rightarrow>
          if length (ext_prop_v6 c) \<ge> MAX_NUM_EXT_PROPS then SetExtProp_loop ps c
          else SetExtProp_loop ps (c\<lparr>ext_prop_v6 := ext_prop_v6 c @ [p]\<rparr>)
      | IPA_IP_MAX \<Rightarrow> (IPACM_FAILURE, c))"

definition SetExtProp :: "'x ext_intf_prop list option \<Rightarrow> 'x ipacm_config
    \<Rightarrow> int \<times> 'x ipacm_config" where
  "SetExtProp prop c =
     (case prop of
        None \<Rightarrow> (IPACM_FAILURE, c)
      | Some [] \<Rightarrow> (IPACM_FAILURE, c)
      | Some ps \<Rightarrow> SetExtProp_loop ps c)"

definition GetExtProp :: "ipa_ip_type \<Rightarrow> 'x ipacm_config \<Rightarrow> 'x ext_intf_prop list option" where
  "GetExtProp ip_type c =
     (case ip_type of IPA_IP_v4 \<Rightarrow> Some (ext_prop_v4 c) | IPA_IP_v6 \<Rightarrow> Some (ext_prop_v6 c)
      | IPA_IP_MAX \<Rightarrow> None)"

definition DelExtProp :: "ipa_ip_type \<Rightarrow> 'x ipacm_config \<Rightarrow> int \<times> 'x ipacm_config" where
  "DelExtProp ip_type c =
     (let c1 = (if ip_type \<noteq> IPA_IP_v6 then c\<lparr>ext_prop_v4 := []\<rparr> else c) in
      (IPACM_SUCCESS, if ip_type \<noteq> IPA_IP_v4 then c1\<lparr>ext_prop_v6 := []\<rparr> else c1))"

section \<open>Construction\<close>

text \<open>
  What \<open>Init\<close> obtains from outside: the memory for the configuration, the parsed XML
  file (\<open>None\<close> when it cannot be read), and the three tables.
\<close>

record init_env =
  cfg_alloc :: bool
  xml_read :: "IPACM_conf_t option"
  iface_alloc :: bool
  alg_alloc :: bool
  nat_iface_alloc :: bool

text \<open>The constructor: the memory before it supplies the members it leaves alone.\<close>

definition rm_zero :: ipa_rm_client where
  "rm_zero = \<lparr>producer_rm1 = IPA_RM_RESOURCE_Q6_PROD, consumer_rm1 = IPA_RM_RESOURCE_Q6_PROD,
     producer_rm2 = IPA_RM_RESOURCE_Q6_PROD, consumer_rm2 = IPA_RM_RESOURCE_Q6_PROD,
     producer1_up = False, consumer1_up = False, rm_set = False, rx_bypass_ipa = False\<rparr>"

definition IPACM_Config_ctor :: "'x ipacm_config \<Rightarrow> 'x ipacm_config" where
  "IPACM_Config_ctor mem = mem\<lparr>ipa_rm_tbl := replicate 6 rm_zero, ipa_rm_a2_check := 0,
     iface_table := Null, alg_table := Null, ipa_num_ipa_interfaces := 0,
     ipa_num_private_subnet := 0, ipa_num_alg_ports := 0, ipa_nat_max_entries := 0,
     ipa_nat_iface_entries := 0, ext_prop_v4 := [], ext_prop_v6 := []\<rparr>"

text \<open>The entries of the dependency table that \<open>Init\<close> names; their flags are kept.\<close>

definition name_entry :: "ipa_rm_resource_name \<Rightarrow> ipa_rm_resource_name \<Rightarrow> ipa_rm_resource_name
    \<Rightarrow> ipa_rm_resource_name \<Rightarrow> ipa_rm_client \<Rightarrow> ipa_rm_client" where
  "name_entry p1 c1 p2 c2 e =
     e\<lparr>producer_rm1 := p1, consumer_rm1 := c1, producer_rm2 := p2, consumer_rm2 := c2\<rparr>"

definition Init_rm_tbl :: "ipa_rm_client list \<Rightarrow> ipa_rm_client list" where
  "Init_rm_tbl t = t[
     0 := name_entry IPA_RM_RESOURCE_WLAN_PROD IPA_RM_RESOURCE_Q6_CONS
            IPA_RM_RESOURCE_Q6_PROD IPA_RM_RESOURCE_WLAN_CONS (t ! 0),
     1 := name_entry IPA_RM_RESOURCE_USB_PROD IPA_RM_RESOURCE_Q6_CONS
            IPA_RM_RESOURCE_Q6_PROD IPA_RM_RESOURCE_USB_CONS (t ! 1),
     2 := name_entry IPA_RM_RESOURCE_WLAN_PROD IPA_RM_RESOURCE_USB_CONS
            IPA_RM_RESOURCE_USB_PROD IPA_RM_RESOURCE_WLAN_CONS (t ! 2)]"

text \<open>
  \<open>Init\<close>, which \<open>GetInstance\<close> runs once and the interface manager again on every
  \<open>IPA_CFG_CHANGE_EVENT\<close>. \<open>None\<close> is undefined behaviour: the free of a table freed by an
  earlier failure, or a fourth private subnet. The routing table names are not modelled.
\<close>

definition Config_Init :: "init_env \<Rightarrow> 'x ipacm_config \<Rightarrow> (int \<times> 'x ipacm_config) option" where
  "Config_Init env c =
     (if \<not> cfg_alloc env then Some (IPACM_FAILURE, c)
      else case xml_read env of None \<Rightarrow> Some (IPACM_FAILURE, c)
      | Some cfg \<Rightarrow>
        if iface_table c = Dangling then None
        else
        let c1 = c\<lparr>ipa_num_ipa_interfaces := length (iface_entries cfg), iface_table := Null\<rparr> in
        if \<not> iface_alloc env then Some (IPACM_FAILURE, c1)
        else if IPA_MAX_PRIVATE_SUBNET_ENTRIES < length (private_subnet_entries cfg) then None
        else
        let subnets = private_subnet_entries cfg;
            c2 = c1\<lparr>iface_table := Live (iface_entries cfg),
                    private_subnet_table := subnets
                      @ replicate (IPA_MAX_PRIVATE_SUBNET_ENTRIES - length subnets) no_subnet,
                    ipa_num_private_subnet := length subnets,
                    ipa_num_alg_ports := length (alg_entries cfg)\<rparr> in
        if alg_table c2 = Dangling then None
        else if \<not> alg_alloc env
        then Some (IPACM_FAILURE, c2\<lparr>alg_table := Null, iface_table := Dangling\<rparr>)
        else
        let c3 = c2\<lparr>alg_table := Live (alg_entries cfg),
                    ipa_nat_max_entries := nat_max_entries cfg\<rparr> in
        if \<not> nat_iface_alloc env
        then Some (IPACM_FAILURE,
                   c3\<lparr>pNatIfaces := None, iface_table := Dangling, alg_table := Dangling\<rparr>)
        else Some (IPACM_SUCCESS,
                   c3\<lparr>pNatIfaces := Some (replicate (ipa_num_ipa_interfaces c3) []),
                      ipa_rm_tbl := Init_rm_tbl (ipa_rm_tbl c3)\<rparr>))"

text \<open>
  \<open>IPACM_Config::GetInstance\<close>: the returned pointer and the static one. The constructor
  leaves \<open>pNatIfaces\<close> alone, so that \<open>Init\<close> frees whatever the memory held: a null
  pointer in fresh memory, undefined behaviour (\<open>None\<close>) otherwise.
\<close>

definition Config_GetInstance :: "init_env \<Rightarrow> 'x ipacm_config \<Rightarrow> 'x ipacm_config ptr
    \<Rightarrow> ('x ipacm_config ptr \<times> 'x ipacm_config ptr) option" where
  "Config_GetInstance env mem p =
     (if p \<noteq> Null then Some (singleton None p)
      else case Config_Init env (IPACM_Config_ctor mem) of
             None \<Rightarrow> None
           | Some (res, c) \<Rightarrow>
               if pNatIfaces mem \<noteq> None \<and> cfg_alloc env \<and> xml_read env \<noteq> None
                  \<and> iface_alloc env \<and> alg_alloc env
               then None
               else Some (singleton (if res \<noteq> IPACM_SUCCESS then None else Some c) p))"

section \<open>Private subnets: lemmas\<close>

definition subnets_ok :: "'x ipacm_config \<Rightarrow> bool" where
  "subnets_ok c \<longleftrightarrow> length (private_subnet_table c) = IPA_MAX_PRIVATE_SUBNET_ENTRIES
     \<and> ipa_num_private_subnet c \<le> IPA_MAX_PRIVATE_SUBNET_ENTRIES
     \<and> distinct (map subnet_addr (visible_subnets c))"

definition subnet_addrs :: "'x ipacm_config \<Rightarrow> u32 list" where
  "subnet_addrs c = map subnet_addr (visible_subnets c)"

definition subnet_masks :: "'x ipacm_config \<Rightarrow> u32 list" where
  "subnet_masks c = map subnet_mask (visible_subnets c)"

lemma length_visible: "subnets_ok c \<Longrightarrow> length (visible_subnets c) = ipa_num_private_subnet c"
  by (simp add: subnets_ok_def visible_subnets_def)

lemma length_shift_addrs [simp]: "length (shift_addrs i n t) = length t"
  by (induction i n t rule: shift_addrs.induct) (subst shift_addrs.simps, simp)

lemma shift_addrs_mask:
  "n \<le> length t \<Longrightarrow> map subnet_mask (shift_addrs i n t) = map subnet_mask t"
  by (induction i n t rule: shift_addrs.induct)
    (subst shift_addrs.simps, simp add: map_update list_update_same_conv)

lemma shift_addrs_addr:
  "\<lbrakk>n \<le> length t; k < length t\<rbrakk> \<Longrightarrow>
     subnet_addr (shift_addrs i n t ! k)
     = (if i \<le> k \<and> k < n - 1 then subnet_addr (t ! (k + 1)) else subnet_addr (t ! k))"
proof (induction i n t rule: shift_addrs.induct)
  case (1 i n t)
  show ?case
  proof (cases "i < n - 1")
    case True
    let ?t = "t[i := (t ! i)\<lparr>subnet_addr := subnet_addr (t ! (i + 1))\<rparr>]"
    have e: "shift_addrs i n t = shift_addrs (i + 1) n ?t"
      using True by (subst shift_addrs.simps) simp
    have l: "n \<le> length ?t" "k < length ?t" using "1.prems" by simp_all
    show ?thesis
      unfolding e using "1.IH" [OF True l] True "1.prems"
      by (cases "k = i") (auto simp: nth_list_update)
  next
    case False
    then have e: "shift_addrs i n t = t" by (subst shift_addrs.simps) simp
    show ?thesis using False unfolding e by auto
  qed
qed

lemma remove1_at_find:
  "find_idx (\<lambda>y. y = x) xs < length xs
    \<Longrightarrow> remove1 x xs = take (find_idx (\<lambda>y. y = x) xs) xs @ drop (Suc (find_idx (\<lambda>y. y = x) xs)) xs"
  by (induction xs) auto

lemma find_idx_map: "find_idx P (map f xs) = find_idx (\<lambda>x. P (f x)) xs"
  by (induction xs) auto

lemma take_shift_addrs:
  assumes "n \<le> length t" "i < n"
  shows "map subnet_addr (take (n - 1) (shift_addrs i n t))
       = take i (map subnet_addr (take n t)) @ drop (Suc i) (map subnet_addr (take n t))"
  using assms by (intro nth_equalityI) (auto simp: shift_addrs_addr nth_append)

text \<open>
  The addresses of the private subnets behave as a set of at most three:
  \<open>AddPrivateSubnet\<close> appends a new address while there is room and says whether the address
  is now present; \<open>DelPrivateSubnet\<close> removes it and says whether it was present.
\<close>

theorem private_subnet_operations:
  assumes "subnets_ok c"
  shows "(case AddPrivateSubnet True ip i c of (r, ev, c') \<Rightarrow>
            subnets_ok c' \<and> r = (ip \<in> set (subnet_addrs c'))
          \<and> subnet_addrs c' = (if ip \<in> set (subnet_addrs c) \<or> length (subnet_addrs c) = 3
                               then subnet_addrs c else subnet_addrs c @ [ip])
          \<and> ev = (if subnet_addrs c' = subnet_addrs c then None else Some i))
       \<and> (case DelPrivateSubnet True ip i c of (r, ev, c') \<Rightarrow>
            subnets_ok c' \<and> r = (ip \<in> set (subnet_addrs c))
          \<and> subnet_addrs c' = remove1 ip (subnet_addrs c)
          \<and> ev = (if r then Some i else None))"
proof (rule conjI, goal_cases)
  case 1
  have m: "list_ex (\<lambda>p. subnet_addr p = ip) (visible_subnets c) = (ip \<in> set (subnet_addrs c))"
    by (auto simp: list_ex_iff subnet_addrs_def)
  have l: "length (subnet_addrs c) = ipa_num_private_subnet c"
    using assms by (simp add: subnet_addrs_def length_visible)
  show ?case
    using assms l unfolding AddPrivateSubnet_def m
    by (auto simp: subnets_ok_def subnet_addrs_def visible_subnets_def Let_def
        IPA_MAX_PRIVATE_SUBNET_ENTRIES_def take_Suc_conv_app_nth take_update_cancel)
next
  case 2
  let ?k = "find_idx (\<lambda>p. subnet_addr p = ip) (visible_subnets c)"
  have k: "?k = find_idx (\<lambda>a. a = ip) (subnet_addrs c)"
    by (simp add: subnet_addrs_def find_idx_map)
  have l: "length (subnet_addrs c) = ipa_num_private_subnet c"
    using assms by (simp add: subnet_addrs_def length_visible)
  have mem: "?k < ipa_num_private_subnet c \<longleftrightarrow> ip \<in> set (subnet_addrs c)"
    unfolding k l [symmetric] by (auto simp: find_idx_less_iff)
  show ?case
  proof (cases "ip \<in> set (subnet_addrs c)")
    case True
    let ?c = "c\<lparr>private_subnet_table := shift_addrs ?k (ipa_num_private_subnet c)
                  (private_subnet_table c),
                ipa_num_private_subnet := ipa_num_private_subnet c - 1\<rparr>"
    have "subnet_addrs ?c = take ?k (subnet_addrs c) @ drop (Suc ?k) (subnet_addrs c)"
      using assms True mem take_shift_addrs
        [of "ipa_num_private_subnet c" "private_subnet_table c" ?k]
      by (simp add: subnet_addrs_def visible_subnets_def subnets_ok_def)
    also have "\<dots> = remove1 ip (subnet_addrs c)"
      using remove1_at_find [of ip "subnet_addrs c"] True mem l unfolding k by simp
    finally have a: "subnet_addrs ?c = remove1 ip (subnet_addrs c)" .
    then have ok: "subnets_ok ?c"
      using assms by (auto simp: subnets_ok_def subnet_addrs_def [symmetric] distinct_remove1)
    show ?thesis
      using True mem a ok by (simp add: DelPrivateSubnet_def Let_def)
  next
    case False
    then show ?thesis
      using mem assms by (simp add: DelPrivateSubnet_def Let_def remove1_idem)
  qed
qed

definition sample_config :: "unit ipacm_config" where
  "sample_config =
     \<lparr>ipa_rm_tbl = Init_rm_tbl (replicate 6 rm_zero), ipa_rm_a2_check = 0,
      iface_table = Null, alg_table = Live [],
      private_subnet_table = [\<lparr>subnet_addr = 0xAC100000, subnet_mask = 0xFFF00000\<rparr>,
        \<lparr>subnet_addr = 0xC0A80100, subnet_mask = 0xFFFFFF00\<rparr>, no_subnet],
      pNatIfaces = Some [''rmnet0'', [], []],
      ipa_num_ipa_interfaces = 3, ipa_num_private_subnet = 2, ipa_num_alg_ports = 0,
      ipa_nat_max_entries = 4, ipa_nat_iface_entries = 1, ext_prop_v4 = [], ext_prop_v6 = []\<rparr>"

lemma sample_config_subnets: "subnets_ok sample_config"
  by (simp add: subnets_ok_def sample_config_def visible_subnets_def
      IPA_MAX_PRIVATE_SUBNET_ENTRIES_def)

theorem private_subnet_operations_witness:
  "\<exists>c'. DelPrivateSubnet True 0xC0A80100 7 sample_config = (True, Some 7, c')
     \<and> subnet_addrs c' = [0xAC100000]"
  using private_subnet_operations [OF sample_config_subnets, of "0xC0A80100" 7]
  by (simp add: subnet_addrs_def visible_subnets_def sample_config_def split: prod.splits)

text \<open>
  Deleting the first of two private subnets gives the second one the first one's
  mask: an address is then private when it lies in the remaining address under the mask
  of the subnet that is gone.
\<close>

theorem DelPrivateSubnet_leaves_masks_behind:
  assumes "subnets_ok c" and "visible_subnets c = [p, q]"
    and "DelPrivateSubnet malloc_ok (subnet_addr p) i c = (r, ev, c')"
  shows "isPrivateSubnet c' ip = (subnet_addr q = (subnet_mask p AND ip))"
proof -
  let ?t = "private_subnet_table c"
  have n: "ipa_num_private_subnet c = 2" using length_visible [OF assms(1)] assms(2) by simp
  have t: "take 2 ?t = [p, q]" "3 \<le> length ?t"
    using assms(1,2) n by (simp_all add: visible_subnets_def subnets_ok_def
        IPA_MAX_PRIVATE_SUBNET_ENTRIES_def)
  then obtain x xs where "?t = p # q # x # xs"
    by (cases ?t; cases "tl ?t"; cases "tl (tl ?t)") (auto simp: numeral_2_eq_2)
  then show ?thesis
    using assms(2,3) n
    by (auto simp: DelPrivateSubnet_def Let_def shift_addrs.simps isPrivateSubnet_def
        visible_subnets_def split: if_splits)
qed

theorem DelPrivateSubnet_leaves_masks_behind_witness:
  "\<exists>r ev c'. DelPrivateSubnet True 0xAC100000 0 sample_config = (r, ev, c')
     \<and> isPrivateSubnet sample_config 0xC0A80105 \<and> \<not> isPrivateSubnet c' 0xC0A80105"
proof -
  obtain r ev c' where d: "DelPrivateSubnet True 0xAC100000 0 sample_config = (r, ev, c')"
    by (metis prod_cases3)
  show ?thesis
    using DelPrivateSubnet_leaves_masks_behind [OF sample_config_subnets, of
        "\<lparr>subnet_addr = 0xAC100000, subnet_mask = 0xFFF00000\<rparr>"
        "\<lparr>subnet_addr = 0xC0A80100, subnet_mask = 0xFFFFFF00\<rparr>" True 0 r ev c' "0xC0A80105"] d
    by (simp add: sample_config_def visible_subnets_def isPrivateSubnet_def)
qed

section \<open>NAT interfaces: lemmas\<close>

definition nat_ifaces :: "'x ipacm_config \<Rightarrow> string list" where
  "nat_ifaces c = take (ipa_nat_iface_entries c) (the (pNatIfaces c))"

definition nat_ifaces_ok :: "'x ipacm_config \<Rightarrow> bool" where
  "nat_ifaces_ok c \<longleftrightarrow> (\<exists>t. pNatIfaces c = Some t \<and> length t = ipa_num_ipa_interfaces c)
     \<and> ipa_nat_iface_entries c \<le> ipa_num_ipa_interfaces c"

lemma nat_iface_search_find:
  "n \<le> length t \<Longrightarrow> nat_iface_search dev n t
     = Some (let i = find_idx (\<lambda>x. x = dev) (take n t) in if i < n then Some i else None)"
  by (induction dev n t rule: nat_iface_search.induct) (auto simp: Let_def)

lemma nat_iface_shift_take:
  assumes "n \<le> length t" "i < n"
  shows "\<exists>t'. nat_iface_shift i n t = Some t' \<and> length t' = length t
       \<and> take (n - 1) t' = take i t @ drop (Suc i) (take n t)"
  using assms
proof (induction i n t rule: nat_iface_shift.induct)
  case (1 i n t)
  show ?case
  proof (cases "i < n - 1")
    case True
    let ?t = "t[i := t ! (i + 1), i + 1 := []]"
    have e: "nat_iface_shift i n t = nat_iface_shift (i + 1) n ?t"
      using True "1.prems" by (subst nat_iface_shift.simps) auto
    have b: "i + 1 < length t" "n \<le> length ?t" "i + 1 < n" using True "1.prems" by simp_all
    obtain t' where t': "nat_iface_shift (i + 1) n ?t = Some t'" "length t' = length t"
      "take (n - 1) t' = take (i + 1) ?t @ drop (Suc (i + 1)) (take n ?t)"
      using "1.IH" [OF True b] by auto
    have "take (i + 1) ?t @ drop (Suc (i + 1)) (take n ?t) = take i t @ drop (Suc i) (take n t)"
      by (rule nth_equalityI) (use b True "1.prems" in \<open>auto simp: nth_append nth_list_update less_Suc_eq\<close>)
    with t' e show ?thesis by simp
  next
    case False
    then have "i = n - 1" using "1.prems" by simp
    then show ?thesis using "1.prems" by (subst nat_iface_shift.simps) simp
  qed
qed

text \<open>
  While a slot beside the last is free, the NAT interface names behave as a list:
  \<open>AddNatIfaces\<close> appends a name, \<open>DelNatIfaces\<close> removes its first occurrence, and
  \<open>GetNatIfaces\<close> with the current count returns the list.
\<close>

theorem nat_iface_list_operations:
  assumes "nat_ifaces_ok c"
  shows "(\<exists>c'. DelNatIfaces dev c = Some (0, c') \<and> nat_ifaces_ok c'
               \<and> nat_ifaces c' = remove1 dev (nat_ifaces c))
       \<and> (ipa_nat_iface_entries c + 1 < ipa_num_ipa_interfaces c \<longrightarrow>
            (\<exists>c'. AddNatIfaces dev c = Some (0, c') \<and> nat_ifaces_ok c'
               \<and> nat_ifaces c' = nat_ifaces c @ [dev]))
       \<and> (nat_ifaces c \<noteq> [] \<longrightarrow>
            GetNatIfaces (int (ipa_nat_iface_entries c)) c = Some (0, nat_ifaces c))"
proof (intro conjI impI, goal_cases)
  case 1
  obtain t where t: "pNatIfaces c = Some t" "length t = ipa_num_ipa_interfaces c"
    using assms by (auto simp: nat_ifaces_ok_def)
  let ?n = "ipa_nat_iface_entries c" and ?i = "find_idx (\<lambda>x. x = dev) (nat_ifaces c)"
  have n: "?n \<le> length t" using assms t by (auto simp: nat_ifaces_ok_def)
  have na: "nat_ifaces c = take ?n t" using t by (simp add: nat_ifaces_def)
  have s: "nat_iface_search dev ?n t = Some (if ?i < ?n then Some ?i else None)"
    by (simp add: nat_iface_search_find [OF n] na Let_def)
  show ?case
  proof (cases "?i < ?n")
    case True
    obtain t' where t': "nat_iface_shift ?i ?n (t[?i := []]) = Some t'" "length t' = length t"
      "take (?n - 1) t' = take ?i (t[?i := []]) @ drop (Suc ?i) (take ?n (t[?i := []]))"
      using nat_iface_shift_take [of ?n "t[?i := []]" ?i] n True by auto
    have r: "take ?i (t[?i := []]) = take ?i t"
      "drop (Suc ?i) (take ?n (t[?i := []])) = drop (Suc ?i) (take ?n t)"
      by (simp add: take_update_cancel) (simp add: take_update_swap)
    have "take (?n - 1) t' = take ?i (nat_ifaces c) @ drop (Suc ?i) (nat_ifaces c)"
      using t'(3) [unfolded r] True n by (simp add: na min_def)
    also have "\<dots> = remove1 dev (nat_ifaces c)"
      using remove1_at_find [of dev "nat_ifaces c"] True n by (simp add: na)
    finally show ?thesis
      using t t' True s n by (simp add: DelNatIfaces_def Let_def nat_ifaces_ok_def nat_ifaces_def)
  next
    case False
    then have "dev \<notin> set (nat_ifaces c)"
      using find_idx_less_iff [of "\<lambda>x. x = dev" "nat_ifaces c"] n by (auto simp: na)
    then show ?thesis
      using t s False assms by (simp add: DelNatIfaces_def Let_def remove1_idem)
  qed
next
  case 2
  then show ?case
    using assms by (auto simp: AddNatIfaces_def nat_ifaces_ok_def nat_ifaces_def Let_def
        take_Suc_conv_app_nth take_update_cancel)
next
  case 3
  then show ?case
    using assms by (auto simp: GetNatIfaces_def nat_ifaces_ok_def nat_ifaces_def)
qed

theorem nat_iface_list_operations_witness:
  "\<exists>c'. AddNatIfaces ''wlan0'' sample_config = Some (0, c')
     \<and> nat_ifaces c' = [''rmnet0'', ''wlan0'']"
  using nat_iface_list_operations [of sample_config "''wlan0''"]
  by (auto simp: nat_ifaces_ok_def sample_config_def nat_ifaces_def)

text \<open>
  The count grows also when the name is not stored: after one more \<open>AddNatIfaces\<close> on
  a full table, asking for as many names as the object reports reads past the table.
\<close>

theorem AddNatIfaces_overruns_table:
  assumes "nat_ifaces_ok c" and "ipa_nat_iface_entries c = ipa_num_ipa_interfaces c"
  shows "\<exists>c'. AddNatIfaces dev c = Some (0, c')
     \<and> GetNatIfaces (int (ipa_nat_iface_entries c')) c' = None"
  using assms by (auto simp: AddNatIfaces_def GetNatIfaces_def nat_ifaces_ok_def Let_def)

theorem AddNatIfaces_overruns_table_witness:
  "\<exists>c'. AddNatIfaces ''usb0'' (sample_config\<lparr>ipa_nat_iface_entries := 3\<rparr>) = Some (0, c')
     \<and> GetNatIfaces (int (ipa_nat_iface_entries c')) c' = None"
  using AddNatIfaces_overruns_table [of "sample_config\<lparr>ipa_nat_iface_entries := 3\<rparr>"]
  by (simp add: nat_ifaces_ok_def sample_config_def)

section \<open>Dependencies: lemmas\<close>

text \<open>Requests to add a dependency less requests to delete it.\<close>

fun dep_count :: "rm_request list \<Rightarrow> ipa_rm_resource_name \<Rightarrow> ipa_rm_resource_name \<Rightarrow> int" where
  "dep_count [] p q = 0"
| "dep_count (IPA_IOC_RM_ADD_DEPENDENCY a b # rs) p q =
     (if a = p \<and> b = q then 1 else 0) + dep_count rs p q"
| "dep_count (IPA_IOC_RM_DEL_DEPENDENCY a b # rs) p q =
     (if a = p \<and> b = q then - 1 else 0) + dep_count rs p q"

lemma dep_count_append [simp]: "dep_count (xs @ ys) p q = dep_count xs p q + dep_count ys p q"
  by (induction xs p q rule: dep_count.induct) auto

lemma sweep_log:
  assumes "\<And>e log. f e log = (fst (f e []), log @ snd (f e []))"
  shows "sweep f es log = (map (\<lambda>e. fst (f e [])) es, log @ concat (map (\<lambda>e. snd (f e [])) es))"
proof (induction es arbitrary: log)
  case Nil
  then show ?case by simp
next
  case (Cons e es)
  show ?case by (simp add: assms [of e log] Cons.IH Let_def)
qed

lemma AddRmDepend_entry_log:
  "AddRmDepend_entry r b e log
   = (fst (AddRmDepend_entry r b e []), log @ snd (AddRmDepend_entry r b e []))"
  by (simp add: AddRmDepend_entry_def Let_def split: prod.splits)

lemma DelRmDepend_entry_log:
  "DelRmDepend_entry r a e log
   = (fst (DelRmDepend_entry r a e []), log @ snd (DelRmDepend_entry r a e []))"
  by (simp add: DelRmDepend_entry_def Let_def split: prod.splits)

definition rm_names :: "ipa_rm_client \<Rightarrow> ipa_rm_resource_name \<times> ipa_rm_resource_name
    \<times> ipa_rm_resource_name \<times> ipa_rm_resource_name" where
  "rm_names e = (producer_rm1 e, consumer_rm1 e, producer_rm2 e, consumer_rm2 e)"

text \<open>
  One entry's part of the invariant. \<open>b\<close> tells for each producer whether it lacks Rx
  properties; \<open>fwd\<close> and \<open>bwd\<close> are the balances of the entry's two dependencies.
\<close>

definition entry_inv :: "(ipa_rm_resource_name \<Rightarrow> bool) \<Rightarrow> ipa_rm_client \<Rightarrow> int \<Rightarrow> int \<Rightarrow> bool" where
  "entry_inv b e fwd bwd \<longleftrightarrow> rm_set e = (producer1_up e \<and> consumer1_up e)
     \<and> rx_bypass_ipa e = (producer1_up e \<and> b (producer_rm1 e))
     \<and> fwd = of_bool (rm_set e \<and> \<not> b (producer_rm1 e)) \<and> bwd = of_bool (rm_set e)"

definition touches_own :: "ipa_rm_client \<Rightarrow> rm_request list \<Rightarrow> bool" where
  "touches_own e rs \<longleftrightarrow> (\<forall>p q. (p, q) \<noteq> (producer_rm1 e, consumer_rm1 e)
     \<longrightarrow> (p, q) \<noteq> (producer_rm2 e, consumer_rm2 e) \<longrightarrow> dep_count rs p q = 0)"




lemma touches_own_Nil [simp]: "touches_own e []"
  by (simp add: touches_own_def)

lemma touches_own_flags [simp]:
  "touches_own (e\<lparr>producer1_up := x, rx_bypass_ipa := y\<rparr>) = touches_own e"
  "touches_own (e\<lparr>consumer1_up := x\<rparr>) = touches_own e"
  by (simp_all add: touches_own_def fun_eq_iff)









text \<open>The three entries that \<open>Init\<close> names; the six dependencies are pairwise distinct.\<close>

definition rm_layout :: "ipa_rm_client list \<Rightarrow> bool" where
  "rm_layout es \<longleftrightarrow> map rm_names es =
     [(IPA_RM_RESOURCE_WLAN_PROD, IPA_RM_RESOURCE_Q6_CONS,
       IPA_RM_RESOURCE_Q6_PROD, IPA_RM_RESOURCE_WLAN_CONS),
      (IPA_RM_RESOURCE_USB_PROD, IPA_RM_RESOURCE_Q6_CONS,
       IPA_RM_RESOURCE_Q6_PROD, IPA_RM_RESOURCE_USB_CONS),
      (IPA_RM_RESOURCE_WLAN_PROD, IPA_RM_RESOURCE_USB_CONS,
       IPA_RM_RESOURCE_USB_PROD, IPA_RM_RESOURCE_WLAN_CONS)]"

definition rm_entries :: "'x ipacm_config \<Rightarrow> ipa_rm_client list" where
  "rm_entries c = take IPA_MAX_PRIVATE_SUBNET_ENTRIES (ipa_rm_tbl c)"

definition rm_good :: "(ipa_rm_resource_name \<Rightarrow> bool) \<Rightarrow> 'x ipacm_config \<times> rm_request list \<Rightarrow> bool" where
  "rm_good b s = (rm_layout (rm_entries (fst s))
     \<and> (\<forall>e \<in> set (rm_entries (fst s)). entry_inv b e
          (dep_count (snd s) (producer_rm1 e) (consumer_rm1 e))
          (dep_count (snd s) (producer_rm2 e) (consumer_rm2 e))))"


datatype rm_cmd = RmAdd ipa_rm_resource_name | RmDel ipa_rm_resource_name

definition rm_step :: "(ipa_rm_resource_name \<Rightarrow> bool) \<Rightarrow> rm_cmd
    \<Rightarrow> 'x ipacm_config \<times> rm_request list \<Rightarrow> ('x ipacm_config \<times> rm_request list) option" where
  "rm_step b cmd s =
     Some (case cmd of RmAdd r \<Rightarrow> AddRmDepend r (b r) s | RmDel r \<Rightarrow> DelRmDepend r s)"

lemma rm_good_a2 [simp]: "rm_good b (c\<lparr>ipa_rm_a2_check := n\<rparr>, log) = rm_good b (c, log)"
  by (simp add: rm_good_def rm_entries_def)









text \<open>
  The default routes through the modem: \<open>ipa_rm_a2_check\<close> counts the users of the Q6
  consumer, at most two of them (the IPv4 and the IPv6 route).
\<close>

definition q6_inv :: "'x ipacm_config \<Rightarrow> bool" where
  "q6_inv c \<longleftrightarrow> ipa_rm_a2_check c \<in> {0..2} \<and> rm_layout (rm_entries c)
     \<and> (\<forall>e \<in> set (rm_entries c). consumer_rm1 e = IPA_RM_RESOURCE_Q6_CONS
           \<longrightarrow> consumer1_up e = (ipa_rm_a2_check c > 0))"

lemma rm_entries_sweep:
  assumes "\<And>e log. f e log = (fst (f e []), log @ snd (f e []))"
  shows "rm_entries (fst (rm_sweep f c log)) = map (\<lambda>e. fst (f e [])) (rm_entries c)"
    "ipa_rm_a2_check (fst (rm_sweep f c log)) = ipa_rm_a2_check c"
  by (simp_all add: rm_sweep_def sweep_log [OF assms] rm_entries_def Let_def nat_le_linear)

lemma AddRmDepend_entry_facts:
  "rm_names (fst (AddRmDepend_entry r b e [])) = rm_names e"
  "consumer1_up (fst (AddRmDepend_entry r b e [])) = (r = consumer_rm1 e \<or> consumer1_up e)"
  by (simp_all add: AddRmDepend_entry_def AddRmDepend_producer_def AddRmDepend_consumer_def Let_def
      rm_names_def)

lemma DelRmDepend_entry_facts:
  "rm_names (fst (DelRmDepend_entry r a e [])) = rm_names e"
  "consumer1_up (fst (DelRmDepend_entry r a e []))
     = (consumer1_up e \<and> (r = consumer_rm1 e \<longrightarrow> r = IPA_RM_RESOURCE_Q6_CONS \<and> a = 1))"
  by (simp_all add: DelRmDepend_entry_def DelRmDepend_producer_def DelRmDepend_consumer_def Let_def
      rm_names_def)

lemma consumer_of_names: "rm_names e' = rm_names e \<Longrightarrow> consumer_rm1 e' = consumer_rm1 e"
  by (simp add: rm_names_def)

lemma rm_entries_a2 [simp]: "rm_entries (c\<lparr>ipa_rm_a2_check := n\<rparr>) = rm_entries c"
  by (simp add: rm_entries_def)

text \<open>
  As long as the Q6 consumer has at most two users, its dependencies are held exactly
  while it has one: the first of two releases keeps them, the second drops them.
\<close>

theorem q6_consumer_held_while_used:
  assumes "q6_inv c"
    and "case cmd of RmAdd r \<Rightarrow> r = IPA_RM_RESOURCE_Q6_CONS \<longrightarrow> ipa_rm_a2_check c < 2
                   | RmDel r \<Rightarrow> r = IPA_RM_RESOURCE_Q6_CONS \<longrightarrow> 0 < ipa_rm_a2_check c"
    and "rm_step b cmd (c, log) = Some (c', log')"
  shows "q6_inv c'"
proof (cases cmd)
  case (RmAdd r)
  let ?c1 = "if r = IPA_RM_RESOURCE_Q6_CONS
    then c\<lparr>ipa_rm_a2_check := ipa_rm_a2_check c + 1\<rparr> else c"
  have "c' = fst (rm_sweep (AddRmDepend_entry r (b r)) ?c1 log)"
    using assms(3) RmAdd by (simp add: rm_step_def AddRmDepend_def Let_def split: if_splits)
  then have "rm_entries c' = map (\<lambda>e. fst (AddRmDepend_entry r (b r) e [])) (rm_entries ?c1)"
    "ipa_rm_a2_check c' = ipa_rm_a2_check ?c1"
    by (simp_all only: rm_entries_sweep [OF AddRmDepend_entry_log])
  then show ?thesis
    using assms(1,2) RmAdd
    by (auto simp: q6_inv_def rm_layout_def comp_def AddRmDepend_entry_facts
        consumer_of_names [OF AddRmDepend_entry_facts(1)])
next
  case (RmDel r)
  let ?c1 = "if r = IPA_RM_RESOURCE_Q6_CONS
    then c\<lparr>ipa_rm_a2_check := ipa_rm_a2_check c - 1\<rparr> else c"
  have "c' = fst (rm_sweep (DelRmDepend_entry r (ipa_rm_a2_check ?c1)) ?c1 log)"
    using assms(3) RmDel by (simp add: rm_step_def DelRmDepend_def Let_def split: if_splits)
  then have "rm_entries c'
      = map (\<lambda>e. fst (DelRmDepend_entry r (ipa_rm_a2_check ?c1) e [])) (rm_entries ?c1)"
    "ipa_rm_a2_check c' = ipa_rm_a2_check ?c1"
    by (simp_all only: rm_entries_sweep [OF DelRmDepend_entry_log])
  then show ?thesis
    using assms(1,2) RmDel
    by (auto simp: q6_inv_def rm_layout_def comp_def DelRmDepend_entry_facts
        consumer_of_names [OF DelRmDepend_entry_facts(1)])
qed

theorem q6_consumer_held_while_used_witness:
  "\<exists>c' log. rm_step (\<lambda>_. False) (RmAdd IPA_RM_RESOURCE_Q6_CONS) (sample_config, []) = Some (c', log)
     \<and> q6_inv c'"
proof -
  obtain c' log where s: "rm_step (\<lambda>_. False) (RmAdd IPA_RM_RESOURCE_Q6_CONS) (sample_config, [])
      = Some (c', log)"
    by (metis rm_step_def surj_pair)
  have "q6_inv sample_config"
    by (simp add: q6_inv_def sample_config_def rm_layout_def rm_entries_def Init_rm_tbl_def
        rm_names_def name_entry_def rm_zero_def IPA_MAX_PRIVATE_SUBNET_ENTRIES_def eval_nat_numeral)
  from q6_consumer_held_while_used [OF this _ s] s show ?thesis
    by (auto simp: sample_config_def)
qed

section \<open>Extended properties and construction: lemmas\<close>

definition family :: "ipa_ip_type \<Rightarrow> 'x ext_intf_prop list \<Rightarrow> 'x ext_intf_prop list" where
  "family ip ps = filter (\<lambda>p. fst p = ip) ps"

definition known_prefix :: "'x ext_intf_prop list \<Rightarrow> 'x ext_intf_prop list" where
  "known_prefix ps = takeWhile (\<lambda>p. fst p \<noteq> IPA_IP_MAX) ps"

lemma SetExtProp_loop_spec:
  assumes "length (ext_prop_v4 c) \<le> MAX_NUM_EXT_PROPS" "length (ext_prop_v6 c) \<le> MAX_NUM_EXT_PROPS"
  shows "SetExtProp_loop ps c =
     (if known_prefix ps = ps then IPACM_SUCCESS else IPACM_FAILURE,
      c\<lparr>ext_prop_v4 := take MAX_NUM_EXT_PROPS (ext_prop_v4 c @ family IPA_IP_v4 (known_prefix ps)),
        ext_prop_v6 := take MAX_NUM_EXT_PROPS (ext_prop_v6 c @ family IPA_IP_v6 (known_prefix ps))\<rparr>)"
  using assms
proof (induction ps arbitrary: c)
  case Nil
  then show ?case by (simp add: known_prefix_def family_def)
next
  case (Cons p ps)
  show ?case
  proof (cases "fst p")
    case IPA_IP_v4
    show ?thesis
      using IPA_IP_v4 Cons.prems Cons.IH [of c] Cons.IH [of "c\<lparr>ext_prop_v4 := ext_prop_v4 c @ [p]\<rparr>"]
      by (cases "MAX_NUM_EXT_PROPS \<le> length (ext_prop_v4 c)")
        (simp_all add: known_prefix_def family_def)
  next
    case IPA_IP_v6
    show ?thesis
      using IPA_IP_v6 Cons.prems Cons.IH [of c] Cons.IH [of "c\<lparr>ext_prop_v6 := ext_prop_v6 c @ [p]\<rparr>"]
      by (cases "MAX_NUM_EXT_PROPS \<le> length (ext_prop_v6 c)")
        (simp_all add: known_prefix_def family_def)
  next
    case IPA_IP_MAX
    then show ?thesis using Cons.prems by (simp add: known_prefix_def family_def)
  qed
qed

text \<open>
  \<open>SetExtProp\<close> appends the properties of each family, in order, to the family's
  table, which never holds more than 15: the rest is dropped. It fails when an unexpected
  family occurs, and has then stored the properties before it.
\<close>

theorem SetExtProp_stores_by_family:
  assumes "length (ext_prop_v4 c) \<le> 15" "length (ext_prop_v6 c) \<le> 15" "ps \<noteq> []"
    and "SetExtProp (Some ps) c = (r, c')"
  shows "GetExtProp IPA_IP_v4 c'
       = Some (take 15 (ext_prop_v4 c @ family IPA_IP_v4 (known_prefix ps)))
     \<and> GetExtProp IPA_IP_v6 c'
       = Some (take 15 (ext_prop_v6 c @ family IPA_IP_v6 (known_prefix ps)))
     \<and> (r = IPACM_SUCCESS) = (known_prefix ps = ps)"
proof -
  have "SetExtProp (Some ps) c = SetExtProp_loop ps c"
    using assms(3) by (cases ps) (simp_all add: SetExtProp_def)
  then show ?thesis
    using SetExtProp_loop_spec [of c ps] assms
    by (auto simp: MAX_NUM_EXT_PROPS_def GetExtProp_def IPACM_SUCCESS_def IPACM_FAILURE_def)
qed

theorem SetExtProp_stores_by_family_witness:
  "\<exists>c'. SetExtProp (Some [(IPA_IP_v6, ()), (IPA_IP_MAX, ())]) sample_config = (IPACM_FAILURE, c')
     \<and> GetExtProp IPA_IP_v6 c' = Some [(IPA_IP_v6, ())]"
proof -
  obtain r c' where s: "SetExtProp (Some [(IPA_IP_v6, ()), (IPA_IP_MAX, ())]) sample_config = (r, c')"
    by (metis surj_pair)
  then have "r = IPACM_FAILURE" by (auto simp: SetExtProp_def sample_config_def MAX_NUM_EXT_PROPS_def)
  moreover have "length (ext_prop_v4 sample_config) \<le> 15" "length (ext_prop_v6 sample_config) \<le> 15"
    by (simp_all add: sample_config_def)
  ultimately show ?thesis
    using SetExtProp_stores_by_family [OF _ _ _ s] s
    by (simp add: known_prefix_def family_def sample_config_def)
qed

text \<open>
  A later \<open>Init\<close>, on a configuration change, allocates a blank table of NAT
  interfaces but keeps their count: every name registered before is forgotten while the
  count still covers it.
\<close>

theorem reInit_forgets_nat_ifaces:
  assumes "Config_Init env c = Some (IPACM_SUCCESS, c')"
    and "nat_ifaces_ok c"
    and "xml_read env = Some cfg" "ipa_nat_iface_entries c \<le> length (iface_entries cfg)"
  shows "ipa_nat_iface_entries c' = ipa_nat_iface_entries c
     \<and> nat_ifaces c' = replicate (ipa_nat_iface_entries c) []"
  using assms
  by (auto simp: Config_Init_def Let_def nat_ifaces_def IPACM_SUCCESS_def IPACM_FAILURE_def min_def
      split: if_splits)

definition sample_env :: init_env where
  "sample_env = \<lparr>cfg_alloc = True,
     xml_read = Some \<lparr>iface_entries = [(''rmnet0'', WAN_IF), (''wlan0'', WLAN_IF), (''rndis0'', LAN_IF)],
       private_subnet_entries = [], alg_entries = [\<lparr>alg_protocol = 6, alg_port = 21\<rparr>],
       nat_max_entries = 500\<rparr>,
     iface_alloc = True, alg_alloc = True, nat_iface_alloc = True\<rparr>"

theorem reInit_forgets_nat_ifaces_witness:
  "\<exists>c'. Config_Init sample_env sample_config = Some (IPACM_SUCCESS, c')
     \<and> nat_ifaces sample_config = [''rmnet0''] \<and> nat_ifaces c' = [[]]"
proof -
  obtain c' where i: "Config_Init sample_env sample_config = Some (IPACM_SUCCESS, c')"
    by (simp add: Config_Init_def sample_env_def sample_config_def Let_def)
  have "nat_ifaces_ok sample_config" by (auto simp: nat_ifaces_ok_def sample_config_def)
  from reInit_forgets_nat_ifaces [OF i this, of "the (xml_read sample_env)"]
  have "nat_ifaces c' = [[]]" by (simp add: sample_env_def sample_config_def)
  moreover have "nat_ifaces sample_config = [''rmnet0'']"
    by (simp add: sample_config_def nat_ifaces_def)
  ultimately show ?thesis using i by blast
qed

text \<open>
  When the first \<open>GetInstance\<close> fails, it returns null, but the next one returns a
  pointer to the object that the first one deleted.
\<close>

theorem GetInstance_after_failure_dangles:
  assumes "pNatIfaces mem = None"
    and "Config_Init env (IPACM_Config_ctor mem) = Some (IPACM_FAILURE, c)"
  shows "Config_GetInstance env mem Null = Some (Null, Dangling)
     \<and> Config_GetInstance env' mem' Dangling = Some (Dangling, Dangling)"
  using assms
  by (simp add: Config_GetInstance_def singleton_def IPACM_FAILURE_def IPACM_SUCCESS_def)

theorem GetInstance_after_failure_dangles_witness:
  "Config_GetInstance (sample_env\<lparr>xml_read := None\<rparr>) (sample_config\<lparr>pNatIfaces := None\<rparr>) Null
   = Some (Null, Dangling)"
  using GetInstance_after_failure_dangles
    [of "sample_config\<lparr>pNatIfaces := None\<rparr>" "sample_env\<lparr>xml_read := None\<rparr>"
        "IPACM_Config_ctor (sample_config\<lparr>pNatIfaces := None\<rparr>)", THEN conjunct1]
  by (simp add: Config_Init_def)

end
