(* ===== verification/Ipacm_NatApp.thy ===== *)
theory Ipacm_NatApp
  imports Ipacm_Config
begin

text \<open>
  The NAT application (\<^verbatim>\<open>IPACM_Conntrack_NATApp.cpp\<close>, class \<open>NatApp\<close>): the cache of
  connections, the mirror of the hardware NAT table that survives its deletion, the list of
  clients in power save, and the temporary entries of connections whose client is not known
  yet. The NAT driver (\<open>ipa_nat_*\<close>) and \<open>libnetfilter_conntrack\<close> (\<open>nfct_*\<close>) are an argument
  of every operation that calls them; nothing is assumed of them.
\<close>

section \<open>Data\<close>

record nat_table_entry =
  private_ip :: u32
  private_port :: u16
  target_ip :: u32
  target_port :: u16
  public_ip :: u16
  public_port :: u16
  protocol :: u8
  timestamp :: u32
  dst_nat :: bool
  enabled :: bool
  rule_hdl :: u32

record ipa_nat_ipv4_rule =
  r_target_ip :: u32
  r_private_ip :: u32
  r_target_port :: u16
  r_private_port :: u16
  r_public_port :: u16
  r_protocol :: u8

text \<open>The attributes that \<open>UpdateCTUdpTs\<close> sets on its conntrack object.\<close>

record nf_conntrack =
  ATTR_L3PROTO :: u8
  ATTR_L4PROTO :: u8
  ATTR_TIMEOUT :: u32
  ATTR_IPV4_SRC :: u32
  ATTR_PORT_SRC :: u16
  ATTR_IPV4_DST :: u32
  ATTR_PORT_DST :: u16

text \<open>
  The calls into the driver and the conntrack library. A function that writes through a
  pointer takes the old value and returns the new one; every call returns the state of
  the outside world.
\<close>

record 'd nat_env =
  ipa_nat_add_ipv4_tbl :: "u32 \<Rightarrow> u16 \<Rightarrow> u32 \<Rightarrow> 'd \<Rightarrow> int \<times> u32 \<times> 'd"
  ipa_nat_del_ipv4_tbl :: "u32 \<Rightarrow> 'd \<Rightarrow> int \<times> 'd"
  ipa_nat_add_ipv4_rule :: "u32 \<Rightarrow> ipa_nat_ipv4_rule \<Rightarrow> u32 \<Rightarrow> 'd \<Rightarrow> int \<times> u32 \<times> 'd"
  ipa_nat_del_ipv4_rule :: "u32 \<Rightarrow> u32 \<Rightarrow> 'd \<Rightarrow> int \<times> 'd"
  ipa_nat_query_timestamp :: "u32 \<Rightarrow> u32 \<Rightarrow> u32 \<Rightarrow> 'd \<Rightarrow> int \<times> u32 \<times> 'd"
  nfct_open :: "'d \<Rightarrow> bool \<times> 'd"
  nfct_new :: "'d \<Rightarrow> bool \<times> 'd"
  nfct_query_update :: "nf_conntrack \<Rightarrow> 'd \<Rightarrow> int \<times> 'd"

text \<open>
  The object. \<open>cache\<close> and \<open>pALGPorts\<close> are heap arrays of \<open>max_entries\<close> and \<open>nALGPort\<close>
  entries, so that these two members are the lengths. \<open>ct\<close> and \<open>ct_hdl\<close> tell whether the
  conntrack object and handle exist; every attribute is set before each use.
\<close>

record nat_app =
  cache :: "nat_table_entry list"
  temp :: "nat_table_entry list"
  pub_ip_addr :: u32
  pub_ip_addr_pre :: u32
  nat_table_hdl :: u32
  curCnt :: int
  pALGPorts :: "ipacm_alg list"
  tcp_timeout :: u32
  udp_timeout :: u32
  PwrSaveIfs :: "u32 list"
  ct :: bool
  ct_hdl :: bool

definition max_entries :: "nat_app \<Rightarrow> nat" where "max_entries s = length (cache s)"

definition MAX_TEMP_ENTRIES :: nat where "MAX_TEMP_ENTRIES = 25"
definition IPA_MAX_NUM_WIFI_CLIENTS :: nat where "IPA_MAX_NUM_WIFI_CLIENTS = 32"
definition IPPROTO_TCP :: u8 where "IPPROTO_TCP = 6"
definition IPPROTO_UDP :: u8 where "IPPROTO_UDP = 17"
definition AF_INET :: u8 where "AF_INET = 2"

text \<open>\<open>memset(&cache[cnt], 0, sizeof(cache[cnt]))\<close>\<close>

definition no_entry :: nat_table_entry where
  "no_entry = \<lparr>private_ip = 0, private_port = 0, target_ip = 0, target_port = 0, public_ip = 0,
     public_port = 0, protocol = 0, timestamp = 0, dst_nat = False, enabled = False, rule_hdl = 0\<rparr>"

text \<open>The five fields that identify a connection, and the test of a free entry.\<close>

type_synonym nat_key = "u32 \<times> u32 \<times> u16 \<times> u16 \<times> u8"

definition nat_key :: "nat_table_entry \<Rightarrow> nat_key" where
  "nat_key e = (private_ip e, target_ip e, private_port e, target_port e, protocol e)"

definition entry_free :: "nat_table_entry \<Rightarrow> bool" where
  "entry_free e \<longleftrightarrow> private_ip e = 0 \<and> target_ip e = 0 \<and> private_port e = 0 \<and> target_port e = 0
     \<and> protocol e = 0"

text \<open>The test \<open>Invalid Connection\<close> of \<open>AddEntry\<close> and \<open>CacheEntry\<close>.\<close>

definition entry_invalid :: "nat_table_entry \<Rightarrow> bool" where
  "entry_invalid e \<longleftrightarrow> private_ip e = 0 \<or> target_ip e = 0 \<or> private_port e = 0 \<or> target_port e = 0
     \<or> protocol e = 0"

definition rule_of :: "nat_table_entry \<Rightarrow> ipa_nat_ipv4_rule" where
  "rule_of e = \<lparr>r_target_ip = target_ip e, r_private_ip = private_ip e,
     r_target_port = target_port e, r_private_port = private_port e,
     r_public_port = public_port e, r_protocol = protocol e\<rparr>"

section \<open>Look-ups\<close>

definition ChkForDup :: "nat_table_entry \<Rightarrow> nat_app \<Rightarrow> bool" where
  "ChkForDup rule s = list_ex (\<lambda>e. nat_key e = nat_key rule) (cache s)"

definition isAlgPort :: "u8 \<Rightarrow> u16 \<Rightarrow> nat_app \<Rightarrow> bool" where
  "isAlgPort proto port s =
     list_ex (\<lambda>a. proto = alg_protocol a \<and> port = alg_port a) (pALGPorts s)"

definition isPwrSaveIf :: "u32 \<Rightarrow> nat_app \<Rightarrow> bool" where
  "isPwrSaveIf ip_addr s = list_ex (\<lambda>p. 0 \<noteq> p \<and> ip_addr = p) (PwrSaveIfs s)"

definition GetTableHdl :: "u32 \<Rightarrow> nat_app \<Rightarrow> u32" where
  "GetTableHdl in_ip_addr s = (if in_ip_addr = pub_ip_addr s then nat_table_hdl s else - 1)"

section \<open>The hardware table\<close>

text \<open>
  The restoring loop of \<open>AddTable\<close> and, under another test, of \<open>ResetPwrSaveIf\<close>: install
  the cached connection, or drop it from the cache when the driver refuses it. The state
  of the loop is the counter and the outside world.
\<close>

definition restore_entry :: "'d nat_env \<Rightarrow> u32 \<Rightarrow> (nat_table_entry \<Rightarrow> bool)
    \<Rightarrow> nat_table_entry \<Rightarrow> int \<times> 'd \<Rightarrow> nat_table_entry \<times> int \<times> 'd" where
  "restore_entry drv hdl P e = (\<lambda>(cnt, d).
     if P e then
       (case ipa_nat_add_ipv4_rule drv hdl (rule_of e) (rule_hdl e) d of (r, h, d1) \<Rightarrow>
          if r < 0 then (no_entry, cnt - 1, d1)
          else (e\<lparr>rule_hdl := h, enabled := True\<rparr>, cnt, d1))
     else (e, cnt, d))"

definition AddTable :: "'d nat_env \<Rightarrow> u32 \<Rightarrow> nat_app \<Rightarrow> 'd \<Rightarrow> int \<times> nat_app \<times> 'd" where
  "AddTable drv pub_ip s d =
     (case ipa_nat_add_ipv4_tbl drv pub_ip (of_nat (max_entries s)) (nat_table_hdl s) d of (ret, hdl, d1) \<Rightarrow>
        let s1 = s\<lparr>nat_table_hdl := hdl\<rparr> in
        if ret \<noteq> 0 then (ret, s1, d1)
        else
          let (s2, d2) =
            (if pub_ip = pub_ip_addr_pre s1 then
               (case sweep (restore_entry drv hdl (\<lambda>e. private_ip e \<noteq> 0)) (cache s1) (curCnt s1, d1)
                of (es, cnt, d2) \<Rightarrow> (s1\<lparr>cache := es, curCnt := cnt\<rparr>, d2))
             else (s1, d1)) in
          (0, s2\<lparr>pub_ip_addr := pub_ip\<rparr>, d2))"

text \<open>
  \<open>Reset\<close>. The loop over the cache holds the expression \<open>cache[cnt].enabled ==false\<close>, a
  comparison whose value is dropped: the entries are left as they are.
\<close>

definition Reset :: "nat_app \<Rightarrow> nat_app" where
  "Reset s = s\<lparr>nat_table_hdl := 0, pub_ip_addr := 0\<rparr>"

definition DeleteTable :: "'d nat_env \<Rightarrow> u32 \<Rightarrow> nat_app \<Rightarrow> 'd \<Rightarrow> int \<times> nat_app \<times> 'd" where
  "DeleteTable drv pub_ip s d =
     (if nat_table_hdl s = 0 then (-1, s, d)
      else if pub_ip_addr s \<noteq> pub_ip then (-1, s, d)
      else
        (case ipa_nat_del_ipv4_tbl drv (nat_table_hdl s) d of (ret, d1) \<Rightarrow>
           if ret \<noteq> 0 then (ret, s, d1)
           else (0, Reset (s\<lparr>pub_ip_addr_pre := pub_ip_addr s\<rparr>), d1)))"

section \<open>Connections\<close>

definition DeleteEntry :: "'d nat_env \<Rightarrow> nat_table_entry \<Rightarrow> nat_app \<Rightarrow> 'd
    \<Rightarrow> int \<times> nat_app \<times> 'd" where
  "DeleteEntry drv rule s d =
     (let cnt = find_idx (\<lambda>e. nat_key e = nat_key rule) (cache s) in
      if cnt < max_entries s then
        (let e = cache s ! cnt;
             d1 = (if enabled e
                   then snd (ipa_nat_del_ipv4_rule drv (nat_table_hdl s) (rule_hdl e) d) else d) in
         (0, s\<lparr>cache := (cache s)[cnt := no_entry], curCnt := curCnt s - 1\<rparr>, d1))
      else (0, s, d))"

text \<open>The fields that \<open>AddEntry\<close> and \<open>CacheEntry\<close> copy into the free slot.\<close>

definition fill_entry :: "nat_table_entry \<Rightarrow> nat_table_entry \<Rightarrow> nat_table_entry" where
  "fill_entry rule e = e\<lparr>private_ip := private_ip rule, target_ip := target_ip rule,
     target_port := target_port rule, private_port := private_port rule,
     protocol := protocol rule, timestamp := 0, public_port := public_port rule,
     dst_nat := dst_nat rule\<rparr>"

definition AddEntry :: "'d nat_env \<Rightarrow> nat_table_entry \<Rightarrow> nat_app \<Rightarrow> 'd
    \<Rightarrow> int \<times> nat_app \<times> 'd" where
  "AddEntry drv rule s d =
     (if nat_table_hdl s = 0 then (-1, s, d)
      else if isAlgPort (protocol rule) (private_port rule) s
            \<or> isAlgPort (protocol rule) (target_port rule) s then (-1, s, d)
      else if entry_invalid rule then (0, s, d)
      else if ChkForDup rule s then (-1, s, d)
      else
        (let cnt = find_idx entry_free (cache s) in
         if max_entries s = cnt then (-1, s, d)
         else if isPwrSaveIf (private_ip rule) s \<or> isPwrSaveIf (target_ip rule) s then
           (0, s\<lparr>cache := (cache s)[cnt :=
                  fill_entry rule ((cache s ! cnt)\<lparr>enabled := False, rule_hdl := 0\<rparr>)],
                curCnt := curCnt s + 1\<rparr>, d)
         else
           (case ipa_nat_add_ipv4_rule drv (nat_table_hdl s) (rule_of rule)
                   (rule_hdl (cache s ! cnt)) d of (ret, h, d1) \<Rightarrow>
              if ret < 0
              then (-1, s\<lparr>cache := (cache s)[cnt := (cache s ! cnt)\<lparr>rule_hdl := h\<rparr>]\<rparr>, d1)
              else (0, s\<lparr>cache := (cache s)[cnt :=
                       fill_entry rule ((cache s ! cnt)\<lparr>rule_hdl := h, enabled := True\<rparr>)],
                     curCnt := curCnt s + 1\<rparr>, d1))))"

text \<open>
  \<open>CacheEntry\<close> starts its search for a free slot at the value of a local variable that is
  never set: \<open>cnt0\<close>. \<open>None\<close> is an access outside the cache.
\<close>

definition CacheEntry :: "int \<Rightarrow> nat_table_entry \<Rightarrow> nat_app \<Rightarrow> nat_app option" where
  "CacheEntry cnt0 rule s =
     (if entry_invalid rule then Some s
      else if ChkForDup rule s then Some s
      else if cnt0 < 0 then None
      else
        (let k = nat cnt0;
             cnt = (if k < max_entries s then k + find_idx entry_free (drop k (cache s)) else k) in
         if max_entries s = cnt then Some s
         else if max_entries s < cnt then None
         else Some (s\<lparr>cache := (cache s)[cnt :=
                      fill_entry rule ((cache s ! cnt)\<lparr>enabled := False, rule_hdl := 0\<rparr>)],
                    curCnt := curCnt s + 1\<rparr>)))"

section \<open>Time stamps\<close>

text \<open>
  The attributes of the connection in the kernel's table: for a destination NAT entry the
  source is the target and the destination the public address of the current table.
\<close>

definition ct_attrs :: "nat_app \<Rightarrow> nat_table_entry \<Rightarrow> nf_conntrack" where
  "ct_attrs s rule =
     \<lparr>ATTR_L3PROTO = AF_INET, ATTR_L4PROTO = protocol rule,
      ATTR_TIMEOUT = (if protocol rule = IPPROTO_UDP then udp_timeout s else tcp_timeout s),
      ATTR_IPV4_SRC = (if \<not> dst_nat rule then htonl (private_ip rule) else htonl (target_ip rule)),
      ATTR_PORT_SRC = (if \<not> dst_nat rule then htons (private_port rule) else htons (target_port rule)),
      ATTR_IPV4_DST = (if \<not> dst_nat rule then htonl (target_ip rule) else htonl (pub_ip_addr s)),
      ATTR_PORT_DST = (if \<not> dst_nat rule then htons (target_port rule)
                       else htons (public_port rule))\<rparr>"

definition UpdateCTUdpTs :: "'d nat_env \<Rightarrow> nat_table_entry \<Rightarrow> u32 \<Rightarrow> nat_app \<Rightarrow> 'd
    \<Rightarrow> nat_table_entry \<times> nat_app \<times> 'd" where
  "UpdateCTUdpTs drv rule new_ts s d =
     (let (ok1, d1) = (if \<not> ct_hdl s then nfct_open drv d else (True, d)) in
      if \<not> ok1 then (rule, s, d1)
      else
        let s1 = s\<lparr>ct_hdl := True\<rparr>;
            (ok2, d2) = (if \<not> ct s1 then nfct_new drv d1 else (True, d1)) in
        if \<not> ok2 then (rule, s1, d2)
        else
          let s2 = s1\<lparr>ct := True\<rparr>;
              (ret, d3) = nfct_query_update drv (ct_attrs s2 rule) d2 in
          if ret = -1 then (rule, s2, d3) else (rule\<lparr>timestamp := new_ts\<rparr>, s2, d3))"

text \<open>One iteration of \<open>UpdateUDPTimeStamp\<close>, and the loop.\<close>

definition UpdateUDPTimeStamp_entry :: "'d nat_env \<Rightarrow> nat_table_entry \<Rightarrow> nat_app \<times> 'd
    \<Rightarrow> nat_table_entry \<times> nat_app \<times> 'd" where
  "UpdateUDPTimeStamp_entry drv e = (\<lambda>(s, d).
     if enabled e then
       (case ipa_nat_query_timestamp drv (nat_table_hdl s) (rule_hdl e) 0 d of (r, ts, d1) \<Rightarrow>
          if r < 0 then (e, s, d1)
          else if timestamp e = ts then (e, s, d1)
          else UpdateCTUdpTs drv e ts s d1)
     else (e, s, d))"

definition UpdateUDPTimeStamp :: "'d nat_env \<Rightarrow> nat_app \<Rightarrow> 'd \<Rightarrow> nat_app \<times> 'd" where
  "UpdateUDPTimeStamp drv s d =
     (case sweep (UpdateUDPTimeStamp_entry drv) (cache s) (s, d) of (es, s1, d1) \<Rightarrow>
        (s1\<lparr>cache := es\<rparr>, d1))"

definition UpdateTcpUdpTo :: "u32 \<Rightarrow> int \<Rightarrow> nat_app \<Rightarrow> nat_app" where
  "UpdateTcpUdpTo new_value proto s =
     (if proto = uint IPPROTO_TCP then s\<lparr>tcp_timeout := new_value\<rparr>
      else if proto = uint IPPROTO_UDP then s\<lparr>udp_timeout := new_value\<rparr>
      else s)"

section \<open>Power save\<close>

text \<open>Replacing the first slot that satisfies a test, if there is one.\<close>

definition replace_first :: "('a \<Rightarrow> bool) \<Rightarrow> 'a \<Rightarrow> 'a list \<Rightarrow> 'a list" where
  "replace_first P y xs =
     (let i = find_idx P xs in if i < length xs then xs[i := y] else xs)"

definition power_save_entry :: "'d nat_env \<Rightarrow> u32 \<Rightarrow> u32 \<Rightarrow> nat_table_entry \<Rightarrow> 'd
    \<Rightarrow> nat_table_entry \<times> 'd" where
  "power_save_entry drv hdl client_lan_ip e d =
     (if private_ip e = client_lan_ip \<and> enabled e then
        (case ipa_nat_del_ipv4_rule drv hdl (rule_hdl e) d of (r, d1) \<Rightarrow>
           if r < 0 then (e, d1) else (e\<lparr>enabled := False, rule_hdl := 0\<rparr>, d1))
      else (e, d))"

definition UpdatePwrSaveIf :: "'d nat_env \<Rightarrow> u32 \<Rightarrow> nat_app \<Rightarrow> 'd \<Rightarrow> int \<times> nat_app \<times> 'd" where
  "UpdatePwrSaveIf drv client_lan_ip s d =
     (if client_lan_ip = 0 then (-1, s, d)
      else if list_ex (\<lambda>p. p = client_lan_ip) (PwrSaveIfs s) then (0, s, d)
      else
        let s1 = s\<lparr>PwrSaveIfs := replace_first (\<lambda>p. p = 0) client_lan_ip (PwrSaveIfs s)\<rparr> in
        (case sweep (power_save_entry drv (nat_table_hdl s1) client_lan_ip) (cache s1) d of
           (es, d1) \<Rightarrow> (0, s1\<lparr>cache := es\<rparr>, d1)))"

text \<open>\<open>ResetPwrSaveIf\<close> returns \<open>-1\<close> on every path.\<close>

definition ResetPwrSaveIf :: "'d nat_env \<Rightarrow> u32 \<Rightarrow> nat_app \<Rightarrow> 'd \<Rightarrow> int \<times> nat_app \<times> 'd" where
  "ResetPwrSaveIf drv client_lan_ip s d =
     (if client_lan_ip = 0 then (-1, s, d)
      else
        let s1 = s\<lparr>PwrSaveIfs := replace_first (\<lambda>p. p = client_lan_ip) 0 (PwrSaveIfs s)\<rparr> in
        (case sweep (restore_entry drv (nat_table_hdl s1)
                       (\<lambda>e. private_ip e = client_lan_ip \<and> \<not> enabled e))
                (cache s1) (curCnt s1, d) of
           (es, cnt, d1) \<Rightarrow> (-1, s1\<lparr>cache := es, curCnt := cnt\<rparr>, d1)))"

section \<open>Clients that disconnect\<close>

definition clnt_discon_entry :: "'d nat_env \<Rightarrow> u32 \<Rightarrow> u32 \<Rightarrow> nat_table_entry \<Rightarrow> 'd
    \<Rightarrow> nat_table_entry \<times> 'd" where
  "clnt_discon_entry drv hdl ip_addr e d =
     (if private_ip e = ip_addr then
        (if enabled e then
           (case ipa_nat_del_ipv4_rule drv hdl (rule_hdl e) d of (r, d1) \<Rightarrow>
              if r < 0 then (e, d1) else (e\<lparr>enabled := False\<rparr>, d1))
         else (e, d))
      else (e, d))"

definition DelEntriesOnClntDiscon :: "'d nat_env \<Rightarrow> u32 \<Rightarrow> nat_app \<Rightarrow> 'd
    \<Rightarrow> int \<times> nat_app \<times> 'd" where
  "DelEntriesOnClntDiscon drv ip_addr s d =
     (if ip_addr = 0 then (-1, s, d)
      else
        let s1 = s\<lparr>PwrSaveIfs := replace_first (\<lambda>p. p = ip_addr) 0 (PwrSaveIfs s)\<rparr> in
        (case sweep (clnt_discon_entry drv (nat_table_hdl s1) ip_addr) (cache s1) d of
           (es, d1) \<Rightarrow> (0, s1\<lparr>cache := es\<rparr>, d1)))"

definition sta_discon_entry :: "'d nat_env \<Rightarrow> u32 \<Rightarrow> u32 \<Rightarrow> nat_table_entry \<Rightarrow> int \<times> 'd
    \<Rightarrow> nat_table_entry \<times> int \<times> 'd" where
  "sta_discon_entry drv hdl ip_addr e = (\<lambda>(cnt, d).
     if target_ip e = ip_addr then
       (if enabled e then
          (case ipa_nat_del_ipv4_rule drv hdl (rule_hdl e) d of (r, d1) \<Rightarrow>
             if r < 0 then (e, cnt, d1) else (no_entry, cnt - 1, d1))
        else (no_entry, cnt - 1, d))
     else (e, cnt, d))"

definition DelEntriesOnSTAClntDiscon :: "'d nat_env \<Rightarrow> u32 \<Rightarrow> nat_app \<Rightarrow> 'd
    \<Rightarrow> int \<times> nat_app \<times> 'd" where
  "DelEntriesOnSTAClntDiscon drv ip_addr s d =
     (if ip_addr = 0 then (-1, s, d)
      else
        (case sweep (sta_discon_entry drv (nat_table_hdl s) ip_addr) (cache s) (curCnt s, d) of
           (es, cnt, d1) \<Rightarrow> (0, s\<lparr>cache := es, curCnt := cnt\<rparr>, d1)))"

section \<open>Temporary entries\<close>

definition AddTempEntry :: "nat_table_entry \<Rightarrow> nat_app \<Rightarrow> nat_app" where
  "AddTempEntry new_entry s =
     s\<lparr>temp := replace_first (\<lambda>e. private_ip e = 0 \<and> target_ip e = 0) new_entry (temp s)\<rparr>"

definition DeleteTempEntry :: "nat_table_entry \<Rightarrow> nat_app \<Rightarrow> nat_app" where
  "DeleteTempEntry entry s =
     s\<lparr>temp := replace_first (\<lambda>e. nat_key e = nat_key entry) no_entry (temp s)\<rparr>"

text \<open>
  One iteration of \<open>FlushTempEntries\<close>. The entry's \<open>public_ip\<close> has 16 bits: the comparison
  widens it.
\<close>

definition flush_entry :: "'d nat_env \<Rightarrow> u32 \<Rightarrow> bool \<Rightarrow> nat_table_entry \<Rightarrow> nat_app \<times> 'd
    \<Rightarrow> nat_table_entry \<times> nat_app \<times> 'd" where
  "flush_entry drv ip_addr isAdd t = (\<lambda>(s, d).
     if private_ip t = ip_addr \<or> target_ip t = ip_addr then
       (if isAdd \<and> ucast (public_ip t) = pub_ip_addr s then
          (case AddEntry drv t s d of (ret, s1, d1) \<Rightarrow>
             if ret \<noteq> 0 then (t, s1, d1) else (no_entry, s1, d1))
        else (no_entry, s, d))
     else (t, s, d))"

definition FlushTempEntries :: "'d nat_env \<Rightarrow> u32 \<Rightarrow> bool \<Rightarrow> nat_app \<Rightarrow> 'd \<Rightarrow> nat_app \<times> 'd" where
  "FlushTempEntries drv ip_addr isAdd s d =
     (case sweep (flush_entry drv ip_addr isAdd) (temp s) (s, d) of (ts, s1, d1) \<Rightarrow>
        (s1\<lparr>temp := ts\<rparr>, d1))"

section \<open>Construction\<close>

text \<open>
  The constructor. The memory before it supplies the members it leaves alone: the previous
  public address, the two timeouts and the whole of \<open>PwrSaveIfs\<close>.
\<close>

definition NatApp_ctor :: "nat_app \<Rightarrow> nat_app" where
  "NatApp_ctor mem = mem\<lparr>cache := [], nat_table_hdl := 0, pub_ip_addr := 0, curCnt := 0,
     pALGPorts := [], ct := False, ct_hdl := False,
     temp := replicate MAX_TEMP_ENTRIES no_entry\<rparr>"

text \<open>
  \<open>Init\<close>, for a configuration object that exists (\<open>Some\<close>) or not; the two flags are the
  results of \<open>malloc\<close>. \<open>nALGPort\<close> is a 16-bit copy of the count. The outer \<open>None\<close> is an
  access outside the configuration's table.
\<close>

definition NatApp_Init :: "bool \<Rightarrow> bool \<Rightarrow> 'x ipacm_config option \<Rightarrow> nat_app
    \<Rightarrow> (int \<times> nat_app) option" where
  "NatApp_Init cache_ok alg_ok pConfig s =
     (case pConfig of
        None \<Rightarrow> Some (-1, s)
      | Some cfg \<Rightarrow>
          if \<not> cache_ok then Some (-1, s)
          else
            let s1 = s\<lparr>cache := replicate (nat (ipa_nat_max_entries cfg)) no_entry\<rparr>;
                nALGPort = int (ipa_num_alg_ports cfg) mod 2 ^ 16 in
            if \<not> alg_ok then Some (-1, s1)
            else
              (case GetAlgPorts nALGPort cfg of
                 None \<Rightarrow> None
               | Some (r, ports) \<Rightarrow>
                   if r \<noteq> 0 then Some (-1, s1) else Some (0, s1\<lparr>pALGPorts := ports\<rparr>)))"

definition NatApp_GetInstance :: "bool \<Rightarrow> bool \<Rightarrow> 'x ipacm_config option \<Rightarrow> nat_app \<Rightarrow> nat_app ptr
    \<Rightarrow> (nat_app ptr \<times> nat_app ptr) option" where
  "NatApp_GetInstance cache_ok alg_ok pConfig mem p =
     (if p \<noteq> Null then Some (singleton None p)
      else case NatApp_Init cache_ok alg_ok pConfig (NatApp_ctor mem) of
             None \<Rightarrow> None
           | Some (res, s) \<Rightarrow> Some (singleton (if res \<noteq> 0 then None else Some s) p))"

section \<open>The cache as a table of slots\<close>

interpretation nat: slot_table entry_free nat_key no_entry
  by unfold_locales (auto simp: entry_free_def nat_key_def no_entry_def)

definition conns :: "nat_app \<Rightarrow> nat_key set" where
  "conns s = set (used_keys entry_free nat_key (cache s))"

definition entry_ok :: "nat_table_entry \<Rightarrow> bool" where
  "entry_ok e \<longleftrightarrow> (if entry_free e then \<not> enabled e else \<not> entry_invalid e)"

text \<open>
  The invariant. \<open>z\<close> is the drift of the counter \<open>curCnt\<close>, which is zero unless an all-zero
  connection is deleted.
\<close>

definition nat_inv :: "int \<Rightarrow> nat_app \<Rightarrow> bool" where
  "nat_inv z s \<longleftrightarrow> length (temp s) = MAX_TEMP_ENTRIES
     \<and> length (PwrSaveIfs s) = IPA_MAX_NUM_WIFI_CLIENTS
     \<and> (\<forall>e \<in> set (cache s). entry_ok e)
     \<and> distinct (used_keys entry_free nat_key (cache s))
     \<and> curCnt s + z = int (used_count entry_free (cache s))"

lemma free_iff_key: "entry_free e \<longleftrightarrow> nat_key e = (0, 0, 0, 0, 0)"
  by (auto simp: entry_free_def nat_key_def)

lemma no_entry_simps [simp]:
  "entry_free no_entry" "\<not> enabled no_entry" "nat_key no_entry = (0, 0, 0, 0, 0)" "entry_ok no_entry"
  by (simp_all add: entry_free_def no_entry_def nat_key_def entry_ok_def)

lemma entry_fields_simps [simp]:
  "nat_key (e\<lparr>enabled := b\<rparr>) = nat_key e" "nat_key (e\<lparr>rule_hdl := h\<rparr>) = nat_key e"
  "nat_key (e\<lparr>timestamp := t\<rparr>) = nat_key e"
  "entry_free (e\<lparr>enabled := b\<rparr>) = entry_free e" "entry_free (e\<lparr>rule_hdl := h\<rparr>) = entry_free e"
  "entry_free (e\<lparr>timestamp := t\<rparr>) = entry_free e"
  "entry_invalid (e\<lparr>enabled := b\<rparr>) = entry_invalid e"
  "entry_invalid (e\<lparr>rule_hdl := h\<rparr>) = entry_invalid e"
  "entry_invalid (e\<lparr>timestamp := t\<rparr>) = entry_invalid e"
  by (simp_all add: nat_key_def entry_free_def entry_invalid_def)

lemma fill_entry_simps [simp]:
  "nat_key (fill_entry rule e) = nat_key rule" "entry_free (fill_entry rule e) = entry_free rule"
  "entry_invalid (fill_entry rule e) = entry_invalid rule"
  "enabled (fill_entry rule e) = enabled e" "rule_hdl (fill_entry rule e) = rule_hdl e"
  by (simp_all add: nat_key_def entry_free_def entry_invalid_def fill_entry_def)

lemma valid_not_free: "\<not> entry_invalid e \<Longrightarrow> \<not> entry_free e"
  by (auto simp: entry_free_def entry_invalid_def)

lemma ChkForDup_conns: "\<not> entry_free rule \<Longrightarrow> ChkForDup rule s = (nat_key rule \<in> conns s)"
  by (auto simp: ChkForDup_def conns_def used_keys_def list_ex_iff free_iff_key image_iff)

lemma card_conns:
  "nat_inv z s \<Longrightarrow> card (conns s) = used_count entry_free (cache s)"
  by (simp add: conns_def nat_inv_def distinct_card) (simp add: used_keys_def used_count_def)

lemma cache_full_iff:
  assumes "nat_inv z s"
  shows "find_idx entry_free (cache s) = max_entries s \<longleftrightarrow> card (conns s) = max_entries s"
  unfolding max_entries_def card_conns [OF assms] find_idx_eq_length_iff
  using used_count_full used_count_less by (metis less_irrefl)

lemma set_update_ok:
  "\<lbrakk>\<forall>e \<in> set xs. P e; P y\<rbrakk> \<Longrightarrow> \<forall>e \<in> set (xs[i := y]). P e"
  using set_update_subset_insert [of xs i y] by auto

text \<open>Writing a new connection into a free slot, and blanking a used one.\<close>

lemma nat_inv_put:
  assumes "nat_inv z s" "i < length (cache s)" "entry_free (cache s ! i)"
    and "\<not> entry_invalid x" "nat_key x \<notin> conns s"
  shows "nat_inv z (s\<lparr>cache := (cache s)[i := x], curCnt := curCnt s + 1\<rparr>)
       \<and> conns (s\<lparr>cache := (cache s)[i := x], curCnt := curCnt s + 1\<rparr>) = insert (nat_key x) (conns s)"
  using assms valid_not_free [OF assms(4)] nat.set_keys_put [OF assms(2,3), of x]
  by (auto simp: nat_inv_def conns_def slot_simps entry_ok_def intro!: nat.distinct_put
      dest: set_update_subset_insert [THEN subsetD])

lemma nat_inv_clear:
  assumes "nat_inv z s" "i < length (cache s)" "\<not> entry_free (cache s ! i)"
  shows "nat_inv z (s\<lparr>cache := (cache s)[i := no_entry], curCnt := curCnt s - 1\<rparr>)
       \<and> conns (s\<lparr>cache := (cache s)[i := no_entry], curCnt := curCnt s - 1\<rparr>)
         = conns s - {nat_key (cache s ! i)}"
proof -
  have k: "Suc (used_count entry_free ((cache s)[i := no_entry])) = used_count entry_free (cache s)"
    by (rule nat.count_clear [OF assms(2,3)])
  show ?thesis
    using assms k nat.set_keys_clear [OF assms(2,3)]
    by (auto simp: nat_inv_def conns_def intro!: nat.distinct_clear
        dest: set_update_subset_insert [THEN subsetD])
qed

lemma nat_inv_touch:
  assumes "nat_inv z s" "i < length (cache s)" "nat_key x = nat_key (cache s ! i)" "entry_ok x"
  shows "nat_inv z (s\<lparr>cache := (cache s)[i := x]\<rparr>)
       \<and> conns (s\<lparr>cache := (cache s)[i := x]\<rparr>) = conns s"
  using assms nat.keys_rewrite [OF assms(2,3)] nat.free_by_key [OF assms(3)]
  by (auto simp: nat_inv_def conns_def slot_simps dest: set_update_subset_insert [THEN subsetD])

section \<open>Adding and deleting connections\<close>

text \<open>When \<open>AddEntry\<close> takes a connection into the cache.\<close>

definition add_accepts :: "'d nat_env \<Rightarrow> nat_table_entry \<Rightarrow> nat_app \<Rightarrow> 'd \<Rightarrow> bool" where
  "add_accepts drv rule s d \<longleftrightarrow> nat_table_hdl s \<noteq> 0
     \<and> \<not> isAlgPort (protocol rule) (private_port rule) s
     \<and> \<not> isAlgPort (protocol rule) (target_port rule) s
     \<and> \<not> entry_invalid rule \<and> nat_key rule \<notin> conns s \<and> card (conns s) < max_entries s
     \<and> (isPwrSaveIf (private_ip rule) s \<or> isPwrSaveIf (target_ip rule) s
        \<or> 0 \<le> fst (ipa_nat_add_ipv4_rule drv (nat_table_hdl s) (rule_of rule)
                       (rule_hdl (cache s ! find_idx entry_free (cache s))) d))"

lemma free_slot:
  assumes "nat_inv z s" "card (conns s) < max_entries s"
  shows "find_idx entry_free (cache s) < length (cache s)"
    "entry_free (cache s ! find_idx entry_free (cache s))"
proof -
  show l: "find_idx entry_free (cache s) < length (cache s)"
    using cache_full_iff [OF assms(1)] assms(2) find_idx_le [of entry_free "cache s"]
    unfolding max_entries_def by linarith
  then show "entry_free (cache s ! find_idx entry_free (cache s))" by (rule find_idx_nth)
qed

lemma conns_le: "nat_inv z s \<Longrightarrow> card (conns s) \<le> max_entries s"
  by (simp add: card_conns max_entries_def used_count_le)

lemma AddEntry_accepted:
  assumes inv: "nat_inv z s" and acc: "add_accepts drv rule s d"
  shows "\<exists>x d'. AddEntry drv rule s d = (0, s\<lparr>cache := (cache s)[find_idx entry_free (cache s) := x],
              curCnt := curCnt s + 1\<rparr>, d')
       \<and> nat_key x = nat_key rule \<and> \<not> entry_invalid x
       \<and> enabled x = (\<not> isPwrSaveIf (private_ip rule) s \<and> \<not> isPwrSaveIf (target_ip rule) s)
       \<and> (\<not> enabled x \<longrightarrow> d' = d)"
proof -
  let ?i = "find_idx entry_free (cache s)"
  have ne: "max_entries s \<noteq> ?i"
    using cache_full_iff [OF inv] acc by (auto simp: add_accepts_def)
  have nd: "\<not> ChkForDup rule s"
    using acc valid_not_free ChkForDup_conns by (auto simp: add_accepts_def)
  obtain ret h d1 where drv: "ipa_nat_add_ipv4_rule drv (nat_table_hdl s) (rule_of rule)
      (rule_hdl (cache s ! ?i)) d = (ret, h, d1)" by (metis prod_cases3)
  show ?thesis
  proof (cases "isPwrSaveIf (private_ip rule) s \<or> isPwrSaveIf (target_ip rule) s")
    case True
    then show ?thesis
      using acc nd ne
      by (intro exI [of _ "fill_entry rule ((cache s ! ?i)\<lparr>enabled := False, rule_hdl := 0\<rparr>)"]
          exI [of _ d]) (auto simp: AddEntry_def add_accepts_def Let_def)
  next
    case False
    then show ?thesis
      using acc nd ne drv
      by (intro exI [of _ "fill_entry rule ((cache s ! ?i)\<lparr>rule_hdl := h, enabled := True\<rparr>)"]
          exI [of _ d1]) (auto simp: AddEntry_def add_accepts_def Let_def)
  qed
qed

lemma AddEntry_refused:
  assumes inv: "nat_inv z s" and rej: "\<not> add_accepts drv rule s d"
    and run: "AddEntry drv rule s d = (r, s', d')"
  shows "nat_inv z s' \<and> conns s' = conns s \<and> curCnt s' = curCnt s
       \<and> (r = 0) = (nat_table_hdl s \<noteq> 0 \<and> \<not> isAlgPort (protocol rule) (private_port rule) s
            \<and> \<not> isAlgPort (protocol rule) (target_port rule) s \<and> entry_invalid rule)"
proof (cases "s' = s")
  case True
  have nd: "\<not> entry_invalid rule \<Longrightarrow> ChkForDup rule s = (nat_key rule \<in> conns s)"
    using valid_not_free ChkForDup_conns by blast
  show ?thesis
    using inv rej run nd True cache_full_iff [OF inv] conns_le [OF inv]
    by (auto simp: AddEntry_def Let_def add_accepts_def split: if_splits prod.splits)
next
  case False
  let ?i = "find_idx entry_free (cache s)"
  have pre: "\<not> entry_invalid rule" "?i \<noteq> max_entries s" "\<not> ChkForDup rule s" "nat_table_hdl s \<noteq> 0"
    "\<not> isAlgPort (protocol rule) (private_port rule) s"
    "\<not> isAlgPort (protocol rule) (target_port rule) s"
    using run False by (auto simp: AddEntry_def Let_def split: if_splits)
  have lt: "card (conns s) < max_entries s"
    using cache_full_iff [OF inv] conns_le [OF inv] pre(2) by auto
  have nk: "nat_key rule \<notin> conns s" using pre ChkForDup_conns valid_not_free by blast
  obtain ret h d1 where drv: "ipa_nat_add_ipv4_rule drv (nat_table_hdl s) (rule_of rule)
      (rule_hdl (cache s ! ?i)) d = (ret, h, d1)" by (metis prod_cases3)
  have neg: "ret < 0" "\<not> isPwrSaveIf (private_ip rule) s" "\<not> isPwrSaveIf (target_ip rule) s"
    using rej pre lt nk drv by (auto simp: add_accepts_def)
  have s': "s' = s\<lparr>cache := (cache s)[?i := (cache s ! ?i)\<lparr>rule_hdl := h\<rparr>]\<rparr>" "r = -1"
    using run pre neg drv by (auto simp: AddEntry_def Let_def)
  have "entry_ok (cache s ! ?i)"
    using inv free_slot(1) [OF inv lt] by (simp add: nat_inv_def)
  then have "entry_ok ((cache s ! ?i)\<lparr>rule_hdl := h\<rparr>)" by (simp add: entry_ok_def)
  from nat_inv_touch [OF inv free_slot(1) [OF inv lt] _ this] show ?thesis
    using s' pre by simp
qed

lemma AddEntry_inv [keeps]:
  assumes "nat_inv z s"
  shows "nat_inv z (fst (snd (AddEntry drv rule s d)))"
proof (cases "add_accepts drv rule s d")
  case True
  obtain x d' where x: "AddEntry drv rule s d = (0, s\<lparr>cache := (cache s)[find_idx entry_free
        (cache s) := x], curCnt := curCnt s + 1\<rparr>, d')" "nat_key x = nat_key rule" "\<not> entry_invalid x"
    using AddEntry_accepted [OF assms True] by blast
  have acc: "card (conns s) < max_entries s" "nat_key rule \<notin> conns s"
    using True by (simp_all add: add_accepts_def)
  show ?thesis
    using nat_inv_put [OF assms free_slot [OF assms acc(1)] x(3)] x acc(2) by simp
next
  case False
  then show ?thesis using AddEntry_refused [OF assms False] by (metis prod.collapse)
qed

text \<open>
  C21. \<open>AddEntry\<close> takes a connection exactly when the table exists, neither port is an ALG
  port, the five fields are set, the connection is new, a slot is free, and a client in
  power save or the driver's consent allows it; the set of cached connections then grows
  by it, and otherwise stays. It returns 0 also for an incomplete connection.
\<close>

theorem AddEntry_refines_insert:
  assumes "nat_inv z s" and "AddEntry drv rule s d = (r, s', d')"
  shows "conns s' = (if add_accepts drv rule s d then insert (nat_key rule) (conns s) else conns s)
       \<and> curCnt s' = curCnt s + (if add_accepts drv rule s d then 1 else 0)
       \<and> (r = 0) = (add_accepts drv rule s d
            \<or> (nat_table_hdl s \<noteq> 0 \<and> \<not> isAlgPort (protocol rule) (private_port rule) s
               \<and> \<not> isAlgPort (protocol rule) (target_port rule) s \<and> entry_invalid rule))"
proof (cases "add_accepts drv rule s d")
  case True
  obtain x where x: "r = 0" "s' = s\<lparr>cache := (cache s)[find_idx entry_free (cache s) := x],
        curCnt := curCnt s + 1\<rparr>" "nat_key x = nat_key rule" "\<not> entry_invalid x"
    using AddEntry_accepted [OF assms(1) True] assms(2) by auto
  have acc: "card (conns s) < max_entries s" "nat_key rule \<notin> conns s"
    using True by (simp_all add: add_accepts_def)
  show ?thesis
    using nat_inv_put [OF assms(1) free_slot [OF assms(1) acc(1)] x(4)] x True acc(2) by simp
next
  case False
  then show ?thesis using AddEntry_refused [OF assms(1) False assms(2)] by simp
qed

text \<open>A driver that accepts everything and numbers the rules, for the witnesses.\<close>

definition sample_driver :: "nat nat_env" where
  "sample_driver =
     \<lparr>ipa_nat_add_ipv4_tbl = (\<lambda>ip n h d. (0, 1, d)), ipa_nat_del_ipv4_tbl = (\<lambda>h d. (0, d)),
      ipa_nat_add_ipv4_rule = (\<lambda>h r old d. (0, of_nat (d + 1), d + 1)),
      ipa_nat_del_ipv4_rule = (\<lambda>h r d. (0, d)),
      ipa_nat_query_timestamp = (\<lambda>h r t d. (0, 9, d)),
      nfct_open = (\<lambda>d. (True, d)), nfct_new = (\<lambda>d. (True, d)),
      nfct_query_update = (\<lambda>c d. (0, d))\<rparr>"

definition sample_conn :: nat_table_entry where
  "sample_conn = no_entry\<lparr>private_ip := 0xC0A80105, target_ip := 0x08080808,
     private_port := 4000, target_port := 443, public_port := 4000, protocol := 6\<rparr>"

definition sample_nat :: nat_app where
  "sample_nat = \<lparr>cache = replicate 4 no_entry, temp = replicate 25 no_entry,
     pub_ip_addr = 0x0A000001, pub_ip_addr_pre = 0, nat_table_hdl = 1, curCnt = 0,
     pALGPorts = [\<lparr>alg_protocol = 6, alg_port = 21\<rparr>], tcp_timeout = 0, udp_timeout = 0,
     PwrSaveIfs = replicate 32 0, ct = False, ct_hdl = False\<rparr>"

lemma sample_nat_inv: "nat_inv 0 sample_nat"
  by (simp add: nat_inv_def sample_nat_def MAX_TEMP_ENTRIES_def IPA_MAX_NUM_WIFI_CLIENTS_def
      used_keys_def used_count_def used_slots_def)

lemma sample_nat_conns: "conns sample_nat = {}"
  by (auto simp: conns_def used_keys_def sample_nat_def)

theorem AddEntry_refines_insert_witness:
  "\<exists>s' d'. AddEntry sample_driver sample_conn sample_nat 0 = (0, s', d')
     \<and> conns s' = {nat_key sample_conn}"
proof -
  obtain r s' d' where a: "AddEntry sample_driver sample_conn sample_nat 0 = (r, s', d')"
    by (metis prod_cases3)
  have "add_accepts sample_driver sample_conn sample_nat 0"
    by (simp add: add_accepts_def sample_nat_conns)
      (simp add: sample_driver_def sample_conn_def sample_nat_def isAlgPort_def
        entry_invalid_def max_entries_def no_entry_def)
  then show ?thesis using AddEntry_refines_insert [OF sample_nat_inv a] a sample_nat_conns by simp
qed

lemma DeleteEntry_refines_delete':
  assumes "nat_inv z s" and "\<not> entry_free rule" and "DeleteEntry drv rule s d = (r, s', d')"
  shows "r = 0 \<and> nat_inv z s' \<and> conns s' = conns s - {nat_key rule}
       \<and> curCnt s' = curCnt s - (if nat_key rule \<in> conns s then 1 else 0)
       \<and> (d' \<noteq> d \<longrightarrow> (\<exists>e \<in> set (cache s). nat_key e = nat_key rule \<and> enabled e
            \<and> d' = snd (ipa_nat_del_ipv4_rule drv (nat_table_hdl s) (rule_hdl e) d)))"
proof -
  let ?i = "find_idx (\<lambda>e. nat_key e = nat_key rule) (cache s)"
  have mem: "(?i < length (cache s)) = (nat_key rule \<in> conns s)"
    using assms(2) by (auto simp: find_idx_less_iff conns_def used_keys_def free_iff_key image_iff)
  show ?thesis
  proof (cases "nat_key rule \<in> conns s")
    case True
    then have i: "?i < length (cache s)" using mem by simp
    have k: "nat_key (cache s ! ?i) = nat_key rule" using find_idx_nth [OF i] by simp
    have nf: "\<not> entry_free (cache s ! ?i)" using k assms(2) by (simp add: free_iff_key)
    let ?e = "cache s ! ?i"
    have e: "?e \<in> set (cache s)" using i by simp
    have "DeleteEntry drv rule s d = (0, s\<lparr>cache := (cache s)[?i := no_entry],
        curCnt := curCnt s - 1\<rparr>, if enabled ?e
          then snd (ipa_nat_del_ipv4_rule drv (nat_table_hdl s) (rule_hdl ?e) d) else d)"
      using i by (simp add: DeleteEntry_def Let_def max_entries_def)
    then have eq: "r = 0" "s' = s\<lparr>cache := (cache s)[?i := no_entry], curCnt := curCnt s - 1\<rparr>"
      "d' = (if enabled ?e
          then snd (ipa_nat_del_ipv4_rule drv (nat_table_hdl s) (rule_hdl ?e) d) else d)"
      using assms(3) by simp_all
    have "d' \<noteq> d \<longrightarrow> (\<exists>e \<in> set (cache s). nat_key e = nat_key rule \<and> enabled e
            \<and> d' = snd (ipa_nat_del_ipv4_rule drv (nat_table_hdl s) (rule_hdl e) d))"
      using e k eq(3) by metis
    then show ?thesis
      using nat_inv_clear [OF assms(1) i nf] k True unfolding eq(1,2) by simp
  next
    case False
    then show ?thesis using assms mem by (auto simp: DeleteEntry_def Let_def max_entries_def)
  qed
qed

text \<open>
  C22. \<open>DeleteEntry\<close> of a connection removes it from the cached connections, decrements the
  counter exactly when it was present, and asks the driver to delete a rule only when the
  entry was installed.
\<close>

theorem DeleteEntry_refines_delete:
  assumes "nat_inv z s" and "\<not> entry_free rule" and "DeleteEntry drv rule s d = (r, s', d')"
  shows "r = 0 \<and> nat_inv z s' \<and> conns s' = conns s - {nat_key rule}
       \<and> curCnt s' = curCnt s - (if nat_key rule \<in> conns s then 1 else 0)
       \<and> (d' \<noteq> d \<longrightarrow> (\<exists>e \<in> set (cache s). nat_key e = nat_key rule \<and> enabled e
            \<and> d' = snd (ipa_nat_del_ipv4_rule drv (nat_table_hdl s) (rule_hdl e) d)))"
  using DeleteEntry_refines_delete' [OF assms] .

theorem DeleteEntry_refines_delete_witness:
  "\<exists>s' d'. DeleteEntry sample_driver sample_conn sample_nat 0 = (0, s', d') \<and> conns s' = {}"
proof -
  obtain r s' d' where a: "DeleteEntry sample_driver sample_conn sample_nat 0 = (r, s', d')"
    by (metis prod_cases3)
  have "\<not> entry_free sample_conn" by (simp add: entry_free_def sample_conn_def no_entry_def)
  from DeleteEntry_refines_delete [OF sample_nat_inv this a] a show ?thesis
    by (simp add: sample_nat_conns)
qed

section \<open>Loops over the cache\<close>

text \<open>
  The contract of one iteration: it keeps the connection of the slot and the counter, or
  blanks a used slot and decrements the counter; and it leaves an acceptable entry.
\<close>

definition slot_step :: "('s \<Rightarrow> int) \<Rightarrow> (nat_table_entry \<Rightarrow> 's \<Rightarrow> nat_table_entry \<times> 's) \<Rightarrow> bool" where
  "slot_step c f \<longleftrightarrow> (\<forall>e st e' st'. f e st = (e', st') \<longrightarrow> entry_ok e \<longrightarrow> entry_ok e'
     \<and> ((nat_key e' = nat_key e \<and> c st' = c st)
        \<or> (\<not> entry_free e \<and> e' = no_entry \<and> c st' = c st - 1)))"

lemma sweep_ok:
  assumes "slot_step c f" "\<forall>e \<in> set es. entry_ok e" "sweep f es st = (es', st')"
  shows "\<forall>e \<in> set es'. entry_ok e"
proof -
  have "list_all2 (\<lambda>e e'. entry_ok e') es (fst (sweep f es st)) \<and> True"
    using assms(1,2) by (intro sweep_all [where I = "\<lambda>_. True"]) (auto simp: slot_step_def)
  then show ?thesis using assms(3) by (auto simp: list_all2_conv_all_nth in_set_conv_nth)
qed

lemma nat_inv_sweep:
  assumes inv: "nat_inv z s" and f: "slot_step c f"
    and run: "sweep f (cache s) st = (es, st')" and c: "c st = curCnt s"
  shows "nat_inv z (s\<lparr>cache := es, curCnt := c st'\<rparr>)
       \<and> conns (s\<lparr>cache := es, curCnt := c st'\<rparr>) \<subseteq> conns s"
proof -
  have ok: "\<forall>e \<in> set (cache s). entry_ok e" using inv by (simp add: nat_inv_def)
  have a: "c st' - int (used_count entry_free es) = c st - int (used_count entry_free (cache s))
       \<and> list_all2 (\<lambda>x x'. nat_key x' = nat_key x \<or> x' = no_entry) (cache s) es"
    using f ok by (intro nat.sweep_slots [OF _ run]) (auto simp: slot_step_def)
  have l: "length es = length (cache s)" using sweep_length [of f "cache s" st] run by simp
  show ?thesis
    using inv a c nat.sweep_distinct [OF a [THEN conjunct2]] sweep_ok [OF f ok run]
    by (auto simp: nat_inv_def conns_def)
qed

lemma nat_inv_cong:
  assumes "nat_inv z s" "cache s' = cache s" "curCnt s' = curCnt s"
    "length (temp s') = length (temp s)" "length (PwrSaveIfs s') = length (PwrSaveIfs s)"
  shows "nat_inv z s'"
  using assms by (simp add: nat_inv_def)

lemma length_replace_first [simp]: "length (replace_first P y xs) = length xs"
  by (simp add: replace_first_def Let_def)

lemma used_by_ip:
  "private_ip e \<noteq> 0 \<Longrightarrow> \<not> entry_free e" "target_ip e \<noteq> 0 \<Longrightarrow> \<not> entry_free e"
  by (auto simp: entry_free_def)

lemma restore_entry_step:
  "(\<And>e. P e \<Longrightarrow> private_ip e \<noteq> 0) \<Longrightarrow> slot_step fst (restore_entry drv hdl P)"
  by (auto simp: slot_step_def restore_entry_def entry_ok_def split: prod.splits if_splits
      dest: used_by_ip)

lemma power_save_step: "slot_step (\<lambda>_. n) (power_save_entry drv hdl ip)"
  by (auto simp: slot_step_def power_save_entry_def entry_ok_def split: prod.splits if_splits)

lemma clnt_discon_step: "slot_step (\<lambda>_. n) (clnt_discon_entry drv hdl ip)"
  by (auto simp: slot_step_def clnt_discon_entry_def entry_ok_def split: prod.splits if_splits)

lemma sta_discon_step: "ip \<noteq> 0 \<Longrightarrow> slot_step fst (sta_discon_entry drv hdl ip)"
  by (auto simp: slot_step_def sta_discon_entry_def entry_ok_def split: prod.splits if_splits
      dest: used_by_ip)

lemma AddTable_inv [keeps]:
  assumes "nat_inv z s"
  shows "nat_inv z (fst (snd (AddTable drv ip s d)))"
proof -
  obtain ret hdl d1 where t: "ipa_nat_add_ipv4_tbl drv ip (of_nat (max_entries s))
      (nat_table_hdl s) d = (ret, hdl, d1)" by (metis prod_cases3)
  obtain es cnt d2 where w: "sweep (restore_entry drv hdl (\<lambda>e. private_ip e \<noteq> 0)) (cache s)
      (curCnt s, d1) = (es, cnt, d2)" by (metis prod_cases3)
  have "nat_inv z (s\<lparr>cache := es, curCnt := cnt\<rparr>)"
    using nat_inv_sweep [OF assms restore_entry_step w] by simp
  then show ?thesis
    using assms t w by (simp add: AddTable_def Let_def nat_inv_def)
qed

lemma Reset_inv: "nat_inv z s \<Longrightarrow> nat_inv z (Reset s)"
  by (simp add: Reset_def nat_inv_def)

lemma DeleteTable_inv [keeps]: "nat_inv z s \<Longrightarrow> nat_inv z (fst (snd (DeleteTable drv ip s d)))"
  by (simp add: DeleteTable_def Reset_def nat_inv_def split: prod.splits)

lemma DeleteEntry_inv [keeps]:
  assumes "nat_inv z s"
  shows "\<exists>z'. nat_inv z' (fst (snd (DeleteEntry drv rule s d)))"
proof (cases "entry_free rule")
  case False
  obtain r s' d' where "DeleteEntry drv rule s d = (r, s', d')" by (metis prod_cases3)
  with DeleteEntry_refines_delete' [OF assms False this] show ?thesis by auto
next
  case True
  let ?i = "find_idx (\<lambda>e. nat_key e = nat_key rule) (cache s)"
  show ?thesis
  proof (cases "?i < length (cache s)")
    case i: True
    have fr: "entry_free (cache s ! ?i)"
      using find_idx_nth [OF i] True by (simp add: free_iff_key)
    have "nat_inv z (s\<lparr>cache := (cache s)[?i := no_entry]\<rparr>)"
      using nat_inv_touch [OF assms i, of no_entry] fr by (simp add: free_iff_key)
    then have "nat_inv (z + 1) (s\<lparr>cache := (cache s)[?i := no_entry], curCnt := curCnt s - 1\<rparr>)"
      by (simp add: nat_inv_def)
    then show ?thesis using i by (auto simp: DeleteEntry_def Let_def max_entries_def)
  next
    case False
    then show ?thesis using assms by (auto simp: DeleteEntry_def Let_def max_entries_def)
  qed
qed

lemma UpdatePwrSaveIf_inv [keeps]:
  assumes "nat_inv z s"
  shows "nat_inv z (fst (snd (UpdatePwrSaveIf drv ip s d)))"
proof -
  let ?s = "s\<lparr>PwrSaveIfs := replace_first (\<lambda>p. p = 0) ip (PwrSaveIfs s)\<rparr>"
  obtain es d1 where w: "sweep (power_save_entry drv (nat_table_hdl s) ip) (cache s) d = (es, d1)"
    by force
  have "nat_inv z ?s" using assms by (auto elim!: nat_inv_cong)
  from nat_inv_sweep [OF this power_save_step, of drv "nat_table_hdl s" ip d es d1 "curCnt s"]
  have "nat_inv z (?s\<lparr>cache := es, curCnt := curCnt s\<rparr>)" using w by simp
  then have "nat_inv z (?s\<lparr>cache := es\<rparr>)" by (rule nat_inv_cong) simp_all
  with assms w show ?thesis by (simp add: UpdatePwrSaveIf_def Let_def)
qed

lemma ResetPwrSaveIf_inv [keeps]:
  assumes "nat_inv z s"
  shows "nat_inv z (fst (snd (ResetPwrSaveIf drv ip s d)))"
proof (cases "ip = 0")
  case True
  then show ?thesis using assms by (simp add: ResetPwrSaveIf_def)
next
  case False
  let ?s = "s\<lparr>PwrSaveIfs := replace_first (\<lambda>p. p = ip) 0 (PwrSaveIfs s)\<rparr>"
  let ?f = "restore_entry drv (nat_table_hdl s) (\<lambda>e. private_ip e = ip \<and> \<not> enabled e)"
  obtain es cnt d1 where w: "sweep ?f (cache s) (curCnt s, d) = (es, cnt, d1)"
    by (metis prod_cases3)
  have "nat_inv z ?s" using assms by (auto elim!: nat_inv_cong)
  have "slot_step fst ?f" using False by (intro restore_entry_step) simp
  from nat_inv_sweep [OF \<open>nat_inv z ?s\<close> this, of "(curCnt s, d)"]
  have "nat_inv z (?s\<lparr>cache := es, curCnt := cnt\<rparr>)" using w by simp
  with w False show ?thesis by (simp add: ResetPwrSaveIf_def Let_def)
qed

lemma DelEntriesOnClntDiscon_inv [keeps]:
  assumes "nat_inv z s"
  shows "nat_inv z (fst (snd (DelEntriesOnClntDiscon drv ip s d)))"
proof -
  let ?s = "s\<lparr>PwrSaveIfs := replace_first (\<lambda>p. p = ip) 0 (PwrSaveIfs s)\<rparr>"
  obtain es d1 where w: "sweep (clnt_discon_entry drv (nat_table_hdl s) ip) (cache s) d = (es, d1)"
    by force
  have "nat_inv z ?s" using assms by (auto elim!: nat_inv_cong)
  from nat_inv_sweep [OF this clnt_discon_step, of drv "nat_table_hdl s" ip d es d1 "curCnt s"]
  have "nat_inv z (?s\<lparr>cache := es, curCnt := curCnt s\<rparr>)" using w by simp
  then have "nat_inv z (?s\<lparr>cache := es\<rparr>)" by (rule nat_inv_cong) simp_all
  with assms w show ?thesis by (simp add: DelEntriesOnClntDiscon_def Let_def)
qed

lemma DelEntriesOnSTAClntDiscon_inv [keeps]:
  assumes "nat_inv z s"
  shows "nat_inv z (fst (snd (DelEntriesOnSTAClntDiscon drv ip s d)))"
proof (cases "ip = 0")
  case True
  then show ?thesis using assms by (simp add: DelEntriesOnSTAClntDiscon_def)
next
  case False
  obtain es cnt d1 where w: "sweep (sta_discon_entry drv (nat_table_hdl s) ip) (cache s)
      (curCnt s, d) = (es, cnt, d1)" by (metis prod_cases3)
  have "nat_inv z (s\<lparr>cache := es, curCnt := cnt\<rparr>)"
    using nat_inv_sweep [OF assms sta_discon_step [OF False] w] by simp
  with w False show ?thesis by (simp add: DelEntriesOnSTAClntDiscon_def)
qed

lemma CacheEntry_inv [keeps]:
  assumes inv: "nat_inv z s" and run: "CacheEntry cnt0 rule s = Some s'"
  shows "nat_inv z s'"
proof (cases "s' = s")
  case True
  then show ?thesis using inv by simp
next
  case False
  let ?j = "find_idx entry_free (drop (nat cnt0) (cache s))"
  let ?i = "nat cnt0 + ?j"
  let ?x = "fill_entry rule ((cache s ! ?i)\<lparr>enabled := False, rule_hdl := 0\<rparr>)"
  have pre: "\<not> entry_invalid rule" "\<not> ChkForDup rule s" "nat cnt0 < max_entries s"
    "max_entries s \<noteq> ?i"
    and s': "s' = s\<lparr>cache := (cache s)[?i := ?x], curCnt := curCnt s + 1\<rparr>"
    using run False by (auto simp: CacheEntry_def Let_def split: if_splits)
  have j: "?j < length (drop (nat cnt0) (cache s))"
    using pre(3,4) find_idx_le [of entry_free "drop (nat cnt0) (cache s)"]
    by (simp add: max_entries_def)
  have "entry_free (cache s ! ?i)" 
    using find_idx_nth [OF j] pre(3) by (simp add: max_entries_def nth_drop)
  moreover have "nat_key rule \<notin> conns s" using pre ChkForDup_conns valid_not_free by blast
  moreover have "?i < length (cache s)" using j by simp
  ultimately show ?thesis unfolding s' using nat_inv_put [OF inv] pre(1) by simp
qed

lemma AddEntry_temp [simp]: "length (temp (fst (snd (AddEntry drv rule s d)))) = length (temp s)"
  by (simp add: AddEntry_def Let_def split: prod.splits)

lemma FlushTempEntries_inv [keeps]:
  assumes "nat_inv z s"
  shows "nat_inv z (fst (FlushTempEntries drv ip isAdd s d))"
proof -
  obtain ts s1 d1 where w: "sweep (flush_entry drv ip isAdd) (temp s) (s, d) = (ts, s1, d1)"
    by (metis prod_cases3)
  have "list_all2 (\<lambda>_ _. True) (temp s) (fst (sweep (flush_entry drv ip isAdd) (temp s) (s, d)))
      \<and> nat_inv z (fst (snd (sweep (flush_entry drv ip isAdd) (temp s) (s, d))))"
  proof (rule sweep_all [where I = "\<lambda>st. nat_inv z (fst st)"], goal_cases)
    case (1 t st t' st')
    then show ?case using AddEntry_inv [of z "fst st" drv t "snd st"]
      by (cases st) (auto simp: flush_entry_def split: if_splits prod.splits)
  qed (use assms in simp)
  then have "nat_inv z s1" using w by simp
  moreover have "length ts = length (temp s)"
    using sweep_length [of "flush_entry drv ip isAdd" "temp s" "(s, d)"] w by simp
  ultimately show ?thesis
    using assms w by (simp add: FlushTempEntries_def nat_inv_def)
qed

lemma UpdateCTUdpTs_effect:
  assumes "UpdateCTUdpTs drv e ts s d = (e', s', d')"
  shows "(e' = e \<or> e' = e\<lparr>timestamp := ts\<rparr>) \<and> s' = s\<lparr>ct := ct s', ct_hdl := ct_hdl s'\<rparr>"
  using assms by (auto simp: UpdateCTUdpTs_def Let_def split: if_splits prod.splits)

lemma UpdateUDPTimeStamp_effect:
  assumes "sweep (UpdateUDPTimeStamp_entry drv) es (s, d) = (es', s', d')"
  shows "list_all2 (\<lambda>e e'. e' = e\<lparr>timestamp := timestamp e'\<rparr> \<and> (\<not> enabled e \<longrightarrow> e' = e)) es es'
       \<and> s' = s\<lparr>ct := ct s', ct_hdl := ct_hdl s'\<rparr>"
proof -
  have "list_all2 (\<lambda>e e'. e' = e\<lparr>timestamp := timestamp e'\<rparr> \<and> (\<not> enabled e \<longrightarrow> e' = e)) es
          (fst (sweep (UpdateUDPTimeStamp_entry drv) es (s, d)))
      \<and> (\<lambda>st. fst st = s\<lparr>ct := ct (fst st), ct_hdl := ct_hdl (fst st)\<rparr>)
          (snd (sweep (UpdateUDPTimeStamp_entry drv) es (s, d)))"
  proof (rule sweep_all, goal_cases)
    case (1 e st e' st')
    obtain s0 d0 where st: "st = (s0, d0)" by force
    show ?case
    proof (cases "e' = e \<and> fst st' = s0")
      case True
      then show ?thesis using 1(2) st by simp
    next
      case False
      then obtain ts d1 where u: "UpdateCTUdpTs drv e ts s0 d1 = (e', st')" "enabled e"
        using 1(3) unfolding st
        by (auto simp: UpdateUDPTimeStamp_entry_def split: if_splits prod.splits)
      obtain s1 d2 where st': "st' = (s1, d2)" by force
      from UpdateCTUdpTs_effect [OF u(1) [unfolded st']] 1(2) u(2) show ?thesis
        unfolding st st' by (cases s; cases s0; cases s1) auto
    qed
  qed simp
  then show ?thesis using assms by simp
qed

lemma UpdateUDPTimeStamp_inv [keeps]:
  assumes "nat_inv z s"
  shows "nat_inv z (fst (UpdateUDPTimeStamp drv s d))"
proof -
  obtain es s' d' where w: "sweep (UpdateUDPTimeStamp_entry drv) (cache s) (s, d) = (es, s', d')"
    by (metis prod_cases3)
  note eff = UpdateUDPTimeStamp_effect [OF w]
  obtain a b where ab: "s' = s\<lparr>ct := a, ct_hdl := b\<rparr>" using eff by blast
  have s': "temp s' = temp s" "PwrSaveIfs s' = PwrSaveIfs s" "curCnt s' = curCnt s"
    using ab by simp_all
  have rel: "list_all2 (\<lambda>e e'. nat_key e' = nat_key e \<and> entry_ok e' = entry_ok e
      \<and> entry_free e' = entry_free e) (cache s) es"
  proof (rule list_all2_mono [OF eff [THEN conjunct1]])
    fix e e' :: nat_table_entry
    assume "e' = e\<lparr>timestamp := timestamp e'\<rparr> \<and> (\<not> enabled e \<longrightarrow> e' = e)"
    then obtain t where "e' = e\<lparr>timestamp := t\<rparr>" by blast
    then show "nat_key e' = nat_key e \<and> entry_ok e' = entry_ok e \<and> entry_free e' = entry_free e"
      by (simp add: entry_ok_def)
  qed
  have "used_keys entry_free nat_key es = used_keys entry_free nat_key (cache s)
      \<and> used_count entry_free es = used_count entry_free (cache s)"
    using rel by (induction rule: list_all2_induct) (auto simp: used_keys_def used_count_def)
  moreover have "\<forall>e' \<in> set es. entry_ok e'"
    using rel assms by (simp add: nat_inv_def list_all2_conv_all_nth all_set_conv_all_nth)
  ultimately show ?thesis
    using assms s' w by (simp add: UpdateUDPTimeStamp_def nat_inv_def)
qed

section \<open>Runs of the application\<close>

text \<open>Every operation of the object's interface, as a command.\<close>

datatype nat_cmd =
    N_AddTable u32 | N_DeleteTable u32 | N_AddEntry nat_table_entry | N_DeleteEntry nat_table_entry
  | N_CacheEntry int nat_table_entry | N_UpdateUDPTimeStamp | N_UpdatePwrSaveIf u32
  | N_ResetPwrSaveIf u32 | N_ClntDiscon u32 | N_STAClntDiscon u32 | N_UpdateTcpUdpTo u32 int
  | N_AddTempEntry nat_table_entry | N_DeleteTempEntry nat_table_entry | N_FlushTempEntries u32 bool

definition nat_step :: "'d nat_env \<Rightarrow> nat_cmd \<Rightarrow> nat_app \<times> 'd \<Rightarrow> (nat_app \<times> 'd) option" where
  "nat_step drv cmd st = (case st of (s, d) \<Rightarrow>
     (case cmd of
        N_AddTable ip \<Rightarrow> Some (snd (AddTable drv ip s d))
      | N_DeleteTable ip \<Rightarrow> Some (snd (DeleteTable drv ip s d))
      | N_AddEntry e \<Rightarrow> Some (snd (AddEntry drv e s d))
      | N_DeleteEntry e \<Rightarrow> Some (snd (DeleteEntry drv e s d))
      | N_CacheEntry c e \<Rightarrow> map_option (\<lambda>s. (s, d)) (CacheEntry c e s)
      | N_UpdateUDPTimeStamp \<Rightarrow> Some (UpdateUDPTimeStamp drv s d)
      | N_UpdatePwrSaveIf ip \<Rightarrow> Some (snd (UpdatePwrSaveIf drv ip s d))
      | N_ResetPwrSaveIf ip \<Rightarrow> Some (snd (ResetPwrSaveIf drv ip s d))
      | N_ClntDiscon ip \<Rightarrow> Some (snd (DelEntriesOnClntDiscon drv ip s d))
      | N_STAClntDiscon ip \<Rightarrow> Some (snd (DelEntriesOnSTAClntDiscon drv ip s d))
      | N_UpdateTcpUdpTo t p \<Rightarrow> Some (UpdateTcpUdpTo t p s, d)
      | N_AddTempEntry e \<Rightarrow> Some (AddTempEntry e s, d)
      | N_DeleteTempEntry e \<Rightarrow> Some (DeleteTempEntry e s, d)
      | N_FlushTempEntries ip a \<Rightarrow> Some (FlushTempEntries drv ip a s d)))"

lemma nat_inv_small [keeps]:
  "nat_inv z s \<Longrightarrow> nat_inv z (UpdateTcpUdpTo t p s)" "nat_inv z s \<Longrightarrow> nat_inv z (AddTempEntry e s)"
  "nat_inv z s \<Longrightarrow> nat_inv z (DeleteTempEntry e s)"
  by (simp_all add: UpdateTcpUdpTo_def AddTempEntry_def DeleteTempEntry_def nat_inv_def)

lemma nat_step_inv:
  assumes "nat_inv z s" "nat_step drv cmd (s, d) = Some (s', d')"
    and "\<And>e. cmd = N_DeleteEntry e \<Longrightarrow> \<not> entry_free e"
  shows "nat_inv z s'"
proof (cases cmd)
  case (N_DeleteEntry e)
  obtain r s1 d1 where d: "DeleteEntry drv e s d = (r, s1, d1)" by (metis prod_cases3)
  from DeleteEntry_refines_delete' [OF assms(1) assms(3) [OF N_DeleteEntry] d] d assms(2)
  show ?thesis by (simp add: nat_step_def N_DeleteEntry)
next
  case (N_AddTable ip)
  then show ?thesis
    using assms(2) AddTable_inv [OF assms(1), of drv ip d] by (auto simp: nat_step_def)
next
  case (N_DeleteTable ip)
  then show ?thesis
    using assms(2) DeleteTable_inv [OF assms(1), of drv ip d] by (auto simp: nat_step_def)
next
  case (N_AddEntry e)
  then show ?thesis
    using assms(2) AddEntry_inv [OF assms(1), of drv e d] by (auto simp: nat_step_def)
next
  case (N_CacheEntry c e)
  then show ?thesis using assms(2) CacheEntry_inv [OF assms(1)] by (auto simp: nat_step_def)
next
  case N_UpdateUDPTimeStamp
  then show ?thesis
    using assms(2) UpdateUDPTimeStamp_inv [OF assms(1), of drv d] by (auto simp: nat_step_def)
next
  case (N_UpdatePwrSaveIf ip)
  then show ?thesis
    using assms(2) UpdatePwrSaveIf_inv [OF assms(1), of drv ip d] by (auto simp: nat_step_def)
next
  case (N_ResetPwrSaveIf ip)
  then show ?thesis
    using assms(2) ResetPwrSaveIf_inv [OF assms(1), of drv ip d] by (auto simp: nat_step_def)
next
  case (N_ClntDiscon ip)
  then show ?thesis
    using assms(2) DelEntriesOnClntDiscon_inv [OF assms(1), of drv ip d] by (auto simp: nat_step_def)
next
  case (N_STAClntDiscon ip)
  then show ?thesis
    using assms(2) DelEntriesOnSTAClntDiscon_inv [OF assms(1), of drv ip d]
    by (auto simp: nat_step_def)
next
  case (N_FlushTempEntries ip a)
  then show ?thesis
    using assms(2) FlushTempEntries_inv [OF assms(1), of drv ip a d] by (auto simp: nat_step_def)
qed (use assms in \<open>auto simp: nat_step_def intro: nat_inv_small\<close>)

definition nat_good :: "nat_app \<times> 'd \<Rightarrow> bool" where
  "nat_good st \<longleftrightarrow> (\<exists>z. nat_inv z (fst st))"

lemma nat_step_good:
  assumes "nat_good st" "nat_step drv cmd st = Some st'"
  shows "nat_good st'"
proof -
  obtain z where "nat_inv z (fst st)" using assms(1) by (auto simp: nat_good_def)
  moreover obtain s d where "st = (s, d)" by force
  moreover obtain s' d' where "st' = (s', d')" by force
  ultimately have st: "st = (s, d)" "st' = (s', d')" "nat_inv z s" by simp_all
  show ?thesis
  proof (cases "\<exists>e. cmd = N_DeleteEntry e")
    case True
    then obtain e where "cmd = N_DeleteEntry e" by blast
    then show ?thesis
      using assms(2) DeleteEntry_inv [OF st(3), of drv e d]
      by (simp add: st nat_step_def nat_good_def)
  next
    case False
    then show ?thesis
      using nat_step_inv [OF st(3), of drv cmd d s' d'] assms(2)
      by (auto simp: st nat_good_def)
  qed
qed

interpretation nat_run: guarded_steps "nat_step drv" nat_good for drv
  by unfold_locales (rule nat_step_good)

text \<open>Only \<open>CacheEntry\<close> can be undefined.\<close>

lemma nat_run_defined:
  "\<forall>c e. N_CacheEntry c e \<notin> set cmds
    \<Longrightarrow> \<exists>s' d'. run_steps (nat_step drv) cmds (s, d) = Some (s', d')"
proof (induction cmds arbitrary: s d)
  case Nil
  then show ?case by simp
next
  case (Cons c cs)
  have "\<exists>st. nat_step drv c (s, d) = Some st"
    using Cons.prems by (cases c) (auto simp: nat_step_def)
  then obtain s1 d1 where "nat_step drv c (s, d) = Some (s1, d1)" by auto
  with Cons.IH [of s1 d1] Cons.prems show ?case by simp
qed

text \<open>
  C20. Whatever the driver answers and in whatever order the operations are called, the
  cached connections stay pairwise distinct, no free slot is marked as installed, and no
  used slot has an empty field.
\<close>

theorem nat_cache_well_formed:
  assumes "nat_good (s, d)" and "run_steps (nat_step drv) cmds (s, d) = Some (s', d')"
  shows "distinct (used_keys entry_free nat_key (cache s'))
       \<and> (\<forall>e \<in> set (cache s'). if entry_free e then \<not> enabled e else \<not> entry_invalid e)"
  using nat_run.run_good [OF assms] by (auto simp: nat_good_def nat_inv_def entry_ok_def)

theorem nat_cache_well_formed_witness:
  "\<exists>s' d'. run_steps (nat_step sample_driver) [N_AddEntry sample_conn, N_AddEntry sample_conn]
       (sample_nat, 0) = Some (s', d')
     \<and> distinct (used_keys entry_free nat_key (cache s'))"
proof -
  obtain s' d' where r: "run_steps (nat_step sample_driver)
      [N_AddEntry sample_conn, N_AddEntry sample_conn] (sample_nat, 0) = Some (s', d')"
    using nat_run_defined [of "[N_AddEntry sample_conn, N_AddEntry sample_conn]"
        sample_driver sample_nat 0] by (auto simp del: run_steps.simps)
  have "nat_good (sample_nat, 0 :: nat)" using sample_nat_inv by (auto simp: nat_good_def)
  from nat_cache_well_formed [OF this r] r show ?thesis by blast
qed

text \<open>
  The counter \<open>curCnt\<close> equals the number of cached connections after any run of
  operations in which no all-zero connection is deleted.
\<close>

theorem curCnt_counts_connections:
  assumes "nat_inv 0 s" and "\<forall>e. N_DeleteEntry e \<in> set cmds \<longrightarrow> \<not> entry_free e"
    and "run_steps (nat_step drv) cmds (s, d) = Some (s', d')"
  shows "curCnt s' = int (card (conns s')) \<and> card (conns s') \<le> max_entries s'"
proof -
  have "nat_inv 0 s'"
    using assms
  proof (induction cmds arbitrary: s d)
    case Nil
    then show ?case by simp
  next
    case (Cons c cs)
    then obtain s1 d1 where s1: "nat_step drv c (s, d) = Some (s1, d1)"
      "run_steps (nat_step drv) cs (s1, d1) = Some (s', d')"
      by (auto split: option.splits)
    have "nat_inv 0 s1" using nat_step_inv [OF Cons.prems(1) s1(1)] Cons.prems(2) by auto
    from Cons.IH [OF this _ s1(2)] Cons.prems(2) show ?case by simp
  qed
  then show ?thesis using card_conns [of 0 s'] conns_le [of 0 s'] by (simp add: nat_inv_def)
qed

theorem curCnt_counts_connections_witness:
  "\<exists>s' d'. run_steps (nat_step sample_driver) [N_AddEntry sample_conn, N_DeleteEntry sample_conn]
       (sample_nat, 0) = Some (s', d')
     \<and> curCnt s' = int (card (conns s'))"
proof -
  obtain s' d' where r: "run_steps (nat_step sample_driver)
      [N_AddEntry sample_conn, N_DeleteEntry sample_conn] (sample_nat, 0) = Some (s', d')"
    using nat_run_defined [of "[N_AddEntry sample_conn, N_DeleteEntry sample_conn]"
        sample_driver sample_nat 0] by (auto simp del: run_steps.simps)
  have "\<not> entry_free sample_conn" by (simp add: entry_free_def sample_conn_def no_entry_def)
  then have "\<forall>e. N_DeleteEntry e \<in> set [N_AddEntry sample_conn, N_DeleteEntry sample_conn]
      \<longrightarrow> \<not> entry_free e" by auto
  from curCnt_counts_connections [OF sample_nat_inv this r] r show ?thesis by blast
qed

section \<open>Suspending and resuming\<close>

definition driver_deletes :: "'d nat_env \<Rightarrow> bool" where
  "driver_deletes drv \<longleftrightarrow> (\<forall>h r d. 0 \<le> fst (ipa_nat_del_ipv4_rule drv h r d))"

definition driver_adds :: "'d nat_env \<Rightarrow> bool" where
  "driver_adds drv \<longleftrightarrow> (\<forall>h r old d. 0 \<le> fst (ipa_nat_add_ipv4_rule drv h r old d))"

lemma sample_driver_consents: "driver_deletes sample_driver" "driver_adds sample_driver"
  by (simp_all add: driver_deletes_def driver_adds_def sample_driver_def)

lemma conns_same_keys:
  "list_all2 (\<lambda>e e'. nat_key e' = nat_key e) es es'
    \<Longrightarrow> set (used_keys entry_free nat_key es') = set (used_keys entry_free nat_key es)"
  by (induction rule: list_all2_induct) (auto simp: used_keys_def free_iff_key)

lemma all_mapped: "\<lbrakk>ys = map g xs; \<And>x. P (g x)\<rbrakk> \<Longrightarrow> \<forall>y \<in> set ys. P y"
  by simp




lemma driver_deletesD: "\<lbrakk>driver_deletes drv; ipa_nat_del_ipv4_rule drv h r d = (x, d')\<rbrakk> \<Longrightarrow> \<not> x < 0"
  unfolding driver_deletes_def by (metis fst_conv not_le)

text \<open>The loop bodies, when the driver deletes every rule it is asked to delete.\<close>

lemma consenting_entries:
  assumes "driver_deletes drv"
  shows "fst (power_save_entry drv hdl ip e d)
      = (if private_ip e = ip \<and> enabled e then e\<lparr>enabled := False, rule_hdl := 0\<rparr> else e)"
    "fst (clnt_discon_entry drv hdl ip e d)
      = (if private_ip e = ip \<and> enabled e then e\<lparr>enabled := False\<rparr> else e)"
    "fst (sta_discon_entry drv hdl ip e st) = (if target_ip e = ip then no_entry else e)"
  using driver_deletesD [OF assms]
  by (simp_all add: power_save_entry_def clnt_discon_entry_def sta_discon_entry_def
      split: prod.splits)



text \<open>What the restoring loop does to each slot.\<close>

lemma restore_sweep:
  assumes "sweep (restore_entry drv hdl P) es st = (es', st')"
  shows "list_all2 (\<lambda>e e'. if P e then (e' = no_entry \<and> \<not> driver_adds drv)
            \<or> (\<exists>h. e' = e\<lparr>rule_hdl := h, enabled := True\<rparr>) else e' = e) es es'"
proof -
  have "list_all2 (\<lambda>e e'. if P e then (e' = no_entry \<and> \<not> driver_adds drv)
            \<or> (\<exists>h. e' = e\<lparr>rule_hdl := h, enabled := True\<rparr>) else e' = e) es
          (fst (sweep (restore_entry drv hdl P) es st)) \<and> True"
  proof (rule sweep_all [where I = "\<lambda>_. True"], goal_cases)
    case (1 e st e' st')
    then show ?case
      by (auto simp: restore_entry_def driver_adds_def split: prod.splits if_splits)
        (metis fst_conv not_le)
  qed simp
  then show ?thesis using assms by simp
qed

lemma restore_keeps_conns:
  assumes "sweep (restore_entry drv hdl P) es st = (es', st')" "driver_adds drv"
  shows "set (used_keys entry_free nat_key es') = set (used_keys entry_free nat_key es)"
  by (rule conns_same_keys, rule list_all2_mono [OF restore_sweep [OF assms(1)]])
    (use assms(2) in \<open>auto split: if_splits\<close>)



lemma AddTable_restores_cache':
  assumes "nat_inv z s" and "AddTable drv (pub_ip_addr_pre s) s d = (0, s', d')"
  shows "(\<forall>e \<in> set (cache s'). entry_free e \<or> enabled e)
       \<and> conns s' \<subseteq> conns s \<and> (driver_adds drv \<longrightarrow> conns s' = conns s)
       \<and> pub_ip_addr s' = pub_ip_addr_pre s"
proof -
  let ?P = "\<lambda>e. private_ip e \<noteq> 0"
  obtain ret hdl d1 where t: "ipa_nat_add_ipv4_tbl drv (pub_ip_addr_pre s)
      (of_nat (max_entries s)) (nat_table_hdl s) d = (ret, hdl, d1)" by (metis prod_cases3)
  obtain es cnt d2 where w: "sweep (restore_entry drv hdl ?P) (cache s) (curCnt s, d1)
      = (es, cnt, d2)" by (metis prod_cases3)
  have s': "s' = s\<lparr>nat_table_hdl := hdl, cache := es, curCnt := cnt,
      pub_ip_addr := pub_ip_addr_pre s\<rparr>"
    using assms(2) t w by (auto simp: AddTable_def Let_def split: if_splits)
  have sub: "conns s' \<subseteq> conns s"
    using nat_inv_sweep [OF assms(1) restore_entry_step w] by (simp add: s' conns_def)
  have ok: "\<forall>i < length (cache s). entry_ok (cache s ! i)"
    using assms(1) by (simp add: nat_inv_def)
  have "list_all2 (\<lambda>e e'. entry_ok e \<longrightarrow> entry_free e' \<or> enabled e') (cache s) es"
    by (rule list_all2_mono [OF restore_sweep [OF w]])
      (auto simp: entry_ok_def entry_invalid_def split: if_splits)
  then have "\<forall>e \<in> set (cache s'). entry_free e \<or> enabled e"
    using ok by (simp add: s' list_all2_conv_all_nth all_set_conv_all_nth)
  then show ?thesis using sub restore_keeps_conns [OF w] by (simp add: s' conns_def)
qed

text \<open>
  A table created for the same public address as the one deleted last gets the cached
  connections back: every cached connection is then installed, and none is lost when the
  driver accepts them.
\<close>

theorem AddTable_restores_cache:
  assumes "nat_inv z s" and "AddTable drv (pub_ip_addr_pre s) s d = (0, s', d')"
  shows "(\<forall>e \<in> set (cache s'). entry_free e \<or> enabled e)
       \<and> conns s' \<subseteq> conns s \<and> (driver_adds drv \<longrightarrow> conns s' = conns s)
       \<and> pub_ip_addr s' = pub_ip_addr_pre s"
  using AddTable_restores_cache' [OF assms] .

theorem AddTable_restores_cache_witness:
  "\<exists>s' d'. AddTable sample_driver 0 sample_nat 0 = (0, s', d') \<and> pub_ip_addr s' = 0"
proof -
  obtain r s' d' where u: "AddTable sample_driver 0 sample_nat 0 = (r, s', d')"
    by (metis prod_cases3)
  then have "r = 0" by (simp add: AddTable_def sample_driver_def Let_def split: prod.splits)
  with AddTable_restores_cache [OF sample_nat_inv, of sample_driver 0 s' d'] u show ?thesis
    by (simp add: sample_nat_def)
qed

text \<open>
  After \<open>DeleteTable\<close> the cached connections still count as installed: deleting one of
  them asks the driver to delete its old rule from table 0.
\<close>

lemma DeleteTable_leaves_entries_enabled:
  assumes "nat_inv z s" and "DeleteTable drv ip s d = (0, s', d')"
    and "e \<in> set (cache s)" "enabled e"
  shows "nat_table_hdl s' = 0 \<and> e \<in> set (cache s')
       \<and> snd (snd (DeleteEntry drv e s' d2)) = snd (ipa_nat_del_ipv4_rule drv 0 (rule_hdl e) d2)"
proof -
  have s': "nat_table_hdl s' = 0" "cache s' = cache s"
    using assms(2) by (auto simp: DeleteTable_def Reset_def split: if_splits prod.splits)
  let ?i = "find_idx (\<lambda>x. nat_key x = nat_key e) (cache s)"
  have i: "?i < length (cache s)" using assms(3) by (auto simp: find_idx_less_iff)
  have nf: "\<not> entry_free e"
    using assms(1,3,4) by (auto simp: nat_inv_def entry_ok_def)
  have inj: "inj_on nat_key {x \<in> set (cache s). \<not> entry_free x}"
    using assms(1) by (simp add: nat_inv_def used_keys_def distinct_map)
  have k: "nat_key (cache s ! ?i) = nat_key e" using find_idx_nth [OF i] by simp
  then have "\<not> entry_free (cache s ! ?i)" using nf by (simp add: free_iff_key)
  then have "cache s ! ?i = e"
    using inj_onD [OF inj k] assms(3) nf i by simp
  then show ?thesis
    using s' i assms(3,4) by (simp add: DeleteEntry_def Let_def max_entries_def)
qed

lemma sample_nat_used:
  "nat_inv 0 (sample_nat\<lparr>cache := [sample_conn\<lparr>enabled := True, rule_hdl := 7\<rparr>], curCnt := 1\<rparr>)"
  by (simp add: nat_inv_def sample_nat_def MAX_TEMP_ENTRIES_def IPA_MAX_NUM_WIFI_CLIENTS_def
      used_keys_def used_count_def used_slots_def entry_ok_def entry_free_def entry_invalid_def
      sample_conn_def no_entry_def)

theorem DeleteTable_leaves_entries_enabled_witness:
  "\<exists>s' d'. DeleteTable sample_driver 0x0A000001
       (sample_nat\<lparr>cache := [sample_conn\<lparr>enabled := True, rule_hdl := 7\<rparr>], curCnt := 1\<rparr>) 0 = (0, s', d')
     \<and> nat_table_hdl s' = 0 \<and> sample_conn\<lparr>enabled := True, rule_hdl := 7\<rparr> \<in> set (cache s')"
proof -
  let ?s = "sample_nat\<lparr>cache := [sample_conn\<lparr>enabled := True, rule_hdl := 7\<rparr>], curCnt := 1\<rparr>"
  obtain r s' d' where u: "DeleteTable sample_driver 0x0A000001 ?s 0 = (r, s', d')"
    by (metis prod_cases3)
  then have "r = 0" by (simp add: DeleteTable_def sample_driver_def sample_nat_def)
  with DeleteTable_leaves_entries_enabled [OF sample_nat_used, of sample_driver "0x0A000001" 0 s' d'
      "sample_conn\<lparr>enabled := True, rule_hdl := 7\<rparr>"] u
  show ?thesis by simp
qed

text \<open>
  \<open>DelEntriesOnSTAClntDiscon\<close> removes exactly the connections to the address, when the
  driver lets the rules go; \<open>DelEntriesOnClntDiscon\<close> keeps all connections from the address
  cached, none of them installed.
\<close>

theorem client_disconnect:
  assumes "nat_inv z s" "ip \<noteq> 0" "driver_deletes drv"
  shows "(case DelEntriesOnSTAClntDiscon drv ip s d of (r, s', d') \<Rightarrow>
            r = 0 \<and> nat_inv z s' \<and> conns s' = {k \<in> conns s. fst (snd k) \<noteq> ip})
       \<and> (case DelEntriesOnClntDiscon drv ip s d of (r, s', d') \<Rightarrow>
            r = 0 \<and> nat_inv z s' \<and> conns s' = conns s
          \<and> (\<forall>e \<in> set (cache s'). private_ip e = ip \<longrightarrow> \<not> enabled e))"
proof (rule conjI, goal_cases)
  case 1
  let ?g = "\<lambda>e. if target_ip e = ip then no_entry else e"
  obtain es cnt d1 where w: "sweep (sta_discon_entry drv (nat_table_hdl s) ip) (cache s)
      (curCnt s, d) = (es, cnt, d1)" by (metis prod_cases3)
  have "fst (sweep (sta_discon_entry drv (nat_table_hdl s) ip) (cache s) (curCnt s, d))
      = map ?g (cache s)"
    by (rule sweep_map) (rule consenting_entries [OF assms(3)])
  then have es: "es = map ?g (cache s)" using w by simp
  have inv: "nat_inv z (s\<lparr>cache := es, curCnt := cnt\<rparr>)"
    using nat_inv_sweep [OF assms(1) sta_discon_step [OF assms(2)] w] by simp
  have "set (used_keys entry_free nat_key es)
      = {k \<in> set (used_keys entry_free nat_key (cache s)). fst (snd k) \<noteq> ip}"
    unfolding es by (induction "cache s") (auto simp: used_keys_def nat_key_def)
  then show ?case
    using w assms(2) inv by (simp add: DelEntriesOnSTAClntDiscon_def conns_def)
next
  case 2
  let ?g = "\<lambda>e. if private_ip e = ip \<and> enabled e then e\<lparr>enabled := False\<rparr> else e"
  let ?s1 = "s\<lparr>PwrSaveIfs := replace_first (\<lambda>p. p = ip) 0 (PwrSaveIfs s)\<rparr>"
  obtain es d1 where w: "sweep (clnt_discon_entry drv (nat_table_hdl s) ip) (cache s) d = (es, d1)"
    by force
  have "fst (sweep (clnt_discon_entry drv (nat_table_hdl s) ip) (cache s) d) = map ?g (cache s)"
    by (rule sweep_map) (rule consenting_entries [OF assms(3)])
  then have es: "es = map ?g (cache s)" using w by simp
  have "list_all2 (\<lambda>e e'. nat_key e' = nat_key e) (cache s) es"
    by (simp add: es list_all2_conv_all_nth)
  note keys = conns_same_keys [OF this]
  have run: "DelEntriesOnClntDiscon drv ip s d = (0, ?s1\<lparr>cache := es\<rparr>, d1)"
    using w assms(2) by (simp add: DelEntriesOnClntDiscon_def Let_def)
  have "\<forall>e \<in> set es. private_ip e = ip \<longrightarrow> \<not> enabled e"
    by (rule all_mapped [OF es]) simp
  then show ?case
    using DelEntriesOnClntDiscon_inv [OF assms(1), of drv ip d] keys
    unfolding run by (simp add: conns_def)
qed

theorem client_disconnect_witness:
  "\<exists>s' d'. DelEntriesOnSTAClntDiscon sample_driver 0x08080808
       (sample_nat\<lparr>cache := [sample_conn\<lparr>enabled := True, rule_hdl := 7\<rparr>], curCnt := 1\<rparr>) 0
     = (0, s', d') \<and> conns s' = {}"
proof -
  let ?s = "sample_nat\<lparr>cache := [sample_conn\<lparr>enabled := True, rule_hdl := 7\<rparr>], curCnt := 1\<rparr>"
  obtain r s' d' where u: "DelEntriesOnSTAClntDiscon sample_driver 0x08080808 ?s 0 = (r, s', d')"
    by (metis prod_cases3)
  have "\<forall>k \<in> conns ?s. fst (snd k) = 0x08080808"
    by (auto simp: conns_def used_keys_def nat_key_def sample_conn_def)
  then have "{k \<in> conns ?s. fst (snd k) \<noteq> 0x08080808} = {}" by blast
  with client_disconnect [OF sample_nat_used _ sample_driver_consents(1), of "0x08080808" 0,
      THEN conjunct1] u
  show ?thesis by simp
qed

text \<open>
  When the public address needs more than 16 bits, \<open>FlushTempEntries\<close> never adds a
  temporary entry to the cache: each matching entry is dropped, also when \<open>isAdd\<close> is set.
\<close>

theorem FlushTempEntries_drops_entries:
  assumes "2 ^ 16 \<le> uint (pub_ip_addr s)"
  shows "FlushTempEntries drv ip isAdd s d =
     (s\<lparr>temp := map (\<lambda>t. if private_ip t = ip \<or> target_ip t = ip then no_entry else t) (temp s)\<rparr>, d)"
proof -
  have ne: "(ucast (p :: u16) :: u32) \<noteq> pub_ip_addr s" for p
  proof
    assume "ucast p = pub_ip_addr s"
    then have "uint (ucast p :: u32) = uint (pub_ip_addr s)" by simp
    moreover have "uint (ucast p :: u32) < 2 ^ 16" using uint_lt2p [of p] by (simp add: uint_up_ucast is_up)
    ultimately show False using assms by simp
  qed
  have f: "flush_entry drv ip isAdd t (s, d)
      = (if private_ip t = ip \<or> target_ip t = ip then no_entry else t, s, d)" for t
    using ne by (simp add: flush_entry_def)
  have "sweep (flush_entry drv ip isAdd) ts (s, d)
      = (map (\<lambda>t. if private_ip t = ip \<or> target_ip t = ip then no_entry else t) ts, s, d)" for ts
    by (induction ts) (simp_all add: f)
  then show ?thesis by (simp add: FlushTempEntries_def)
qed

theorem FlushTempEntries_drops_entries_witness:
  "temp (fst (FlushTempEntries sample_driver 0xC0A80105 True
     (sample_nat\<lparr>temp := [sample_conn]\<rparr>) 0)) = [no_entry]"
  using FlushTempEntries_drops_entries [of "sample_nat\<lparr>temp := [sample_conn]\<rparr>" sample_driver
      "0xC0A80105" True 0]
  by (simp add: sample_nat_def sample_conn_def)

text \<open>
  A connection on an ALG port, which \<open>AddEntry\<close> refuses, is taken by \<open>CacheEntry\<close> when it
  is new and a slot is free; the next \<open>AddTable\<close> for the previous address then installs it.
\<close>

theorem CacheEntry_takes_ALG_connection:
  assumes "nat_inv z s" "\<not> entry_invalid rule" "nat_key rule \<notin> conns s"
    and "card (conns s) < max_entries s"
    and "isAlgPort (protocol rule) (private_port rule) s"
  shows "fst (AddEntry drv rule s d) = -1
       \<and> (\<exists>s'. CacheEntry 0 rule s = Some s' \<and> conns s' = insert (nat_key rule) (conns s))"
proof -
  let ?i = "find_idx entry_free (cache s)"
  let ?x = "fill_entry rule ((cache s ! ?i)\<lparr>enabled := False, rule_hdl := 0\<rparr>)"
  note fs = free_slot [OF assms(1,4)]
  have nd: "\<not> ChkForDup rule s" using assms(2,3) ChkForDup_conns valid_not_free by blast
  have "CacheEntry 0 rule s = Some (s\<lparr>cache := (cache s)[?i := ?x], curCnt := curCnt s + 1\<rparr>)"
    using assms(2,4) nd fs by (auto simp: CacheEntry_def Let_def max_entries_def)
  moreover have "conns (s\<lparr>cache := (cache s)[?i := ?x], curCnt := curCnt s + 1\<rparr>)
      = insert (nat_key rule) (conns s)"
    using nat_inv_put [OF assms(1) fs, of ?x] assms(2,3) by simp
  ultimately show ?thesis using assms(5) by (simp add: AddEntry_def)
qed

theorem CacheEntry_takes_ALG_connection_witness:
  "\<exists>s'. CacheEntry 0 (sample_conn\<lparr>private_port := 21\<rparr>) sample_nat = Some s'
     \<and> conns s' = {nat_key (sample_conn\<lparr>private_port := 21\<rparr>)}"
proof -
  have "\<not> entry_invalid (sample_conn\<lparr>private_port := 21\<rparr>)"
    "isAlgPort (protocol (sample_conn\<lparr>private_port := 21\<rparr>))
       (private_port (sample_conn\<lparr>private_port := 21\<rparr>)) sample_nat"
    "0 < max_entries sample_nat"
    by (simp_all add: sample_conn_def sample_nat_def entry_invalid_def max_entries_def isAlgPort_def)
  with CacheEntry_takes_ALG_connection [OF sample_nat_inv, of "sample_conn\<lparr>private_port := 21\<rparr>"
      sample_driver 0]
  show ?thesis by (simp add: sample_nat_conns)
qed

text \<open>
  Without ALG ports in the configuration the object cannot be created: \<open>GetAlgPorts\<close>
  refuses a count of zero. The first \<open>GetInstance\<close> returns null and the later ones a pointer
  to the deleted object.
\<close>

theorem NatApp_needs_an_ALG_port:
  assumes "ipa_num_alg_ports cfg = 0"
  shows "NatApp_GetInstance a b (Some cfg) mem Null = Some (Null, Dangling)
     \<and> NatApp_GetInstance a' b' cfg' mem' Dangling = Some (Dangling, Dangling)"
  using assms
  by (simp add: NatApp_GetInstance_def NatApp_Init_def singleton_def GetAlgPorts_def Let_def)

theorem NatApp_needs_an_ALG_port_witness:
  "NatApp_GetInstance True True (Some sample_config) sample_nat Null = Some (Null, Dangling)"
  by (rule NatApp_needs_an_ALG_port [THEN conjunct1]) (simp add: sample_config_def)

end
