(* ===== verification/Ipacm_CtListener.thy ===== *)
theory Ipacm_CtListener
  imports Ipacm_NatApp
begin

text \<open>
  The conntrack listener (\<^verbatim>\<open>IPACM_ConntrackListener.cpp\<close>, built without \<open>CT_OPT\<close>):
  it turns conntrack messages of the kernel into NAT entries, keeps the addresses of the
  NAT and other interfaces and of the STA clients, and creates and deletes the NAT table
  when the WAN interface comes and goes. \<open>None\<close> is undefined behaviour: a null \<open>nat_inst\<close>
  that is used, an access outside an array.
\<close>

section \<open>Data\<close>

datatype nf_conntrack_msg_type = NFCT_T_NEW | NFCT_T_UPDATE | NFCT_T_DESTROY

text \<open>A conntrack message: the attributes the listener reads, in network byte order.\<close>

record ct_msg =
  ATTR_STATUS :: u32
  ATTR_ORIG_L4PROTO :: u8
  ATTR_REPL_L4PROTO :: u8
  ATTR_ORIG_IPV4_SRC :: u32
  ATTR_ORIG_IPV4_DST :: u32
  ATTR_ORIG_PORT_SRC :: u16
  ATTR_ORIG_PORT_DST :: u16
  ATTR_REPL_IPV4_SRC :: u32
  ATTR_REPL_PORT_SRC :: u16
  ATTR_REPL_PORT_DST :: u16
  ATTR_TCP_STATE :: u8
  ct_type :: nf_conntrack_msg_type

text \<open>Constants of the kernel's conntrack headers.\<close>

definition IPS_SRC_NAT :: u32 where "IPS_SRC_NAT = 16"
definition IPS_DST_NAT :: u32 where "IPS_DST_NAT = 32"
definition TCP_CONNTRACK_ESTABLISHED :: u8 where "TCP_CONNTRACK_ESTABLISHED = 3"
definition TCP_CONNTRACK_FIN_WAIT :: u8 where "TCP_CONNTRACK_FIN_WAIT = 4"

definition MAX_NAT_IFACES :: nat where "MAX_NAT_IFACES = 50"
definition MAX_STA_CLNT_IFACES :: nat where "MAX_STA_CLNT_IFACES = 10"

record ct_listener =
  isCTReg :: bool
  isNatThreadStart :: bool
  WanUp :: bool
  NatIfaceCnt :: nat
  StaClntCnt :: int
  l_pNatIfaces :: "string list option"
  nat_iface_ipv4_addr :: "u32 list"
  nonnat_iface_ipv4_addr :: "u32 list"
  sta_clnt_ipv4_addr :: "u32 list"
  wan_ifname :: string
  wan_ipaddr :: u32
  isStaMode :: bool

text \<open>
  The listener with the objects it reaches: the NAT application (\<open>None\<close> is a null
  \<open>nat_inst\<close>), the configuration (\<open>None\<close>: \<open>GetInstance\<close> returns null), the threads created
  so far, the interfaces reported to the conntrack client's filters, and the outside world.
\<close>

datatype ct_thread =
    TCPRegisterWithConnTrack | UDPRegisterWithConnTrack | UDPConnTimeoutUpdate
  | TCPUDP_Timeout_monitor

record ('x, 'd) ct_world =
  ctl :: ct_listener
  nat_inst :: "nat_app option"
  config :: "'x ipacm_config option"
  threads :: "ct_thread list"
  filter_updates :: "ipacm_event_iface_up list"
  outside :: 'd

text \<open>A call of a method of \<open>nat_inst\<close>.\<close>

definition with_nat :: "(nat_app \<Rightarrow> 'd \<Rightarrow> nat_app \<times> 'd) \<Rightarrow> ('x, 'd) ct_world
    \<Rightarrow> ('x, 'd) ct_world option" where
  "with_nat f w =
     (case nat_inst w of
        None \<Rightarrow> None
      | Some s \<Rightarrow> (case f s (outside w) of (s', d') \<Rightarrow>
                    Some (w\<lparr>nat_inst := Some s', outside := d'\<rparr>)))"

text \<open>The constructor: \<open>wan_ipaddr\<close>, \<open>wan_ifname\<close> and \<open>isStaMode\<close> keep the memory's contents.\<close>

definition IPACM_ConntrackListener_ctor :: "ct_listener \<Rightarrow> ct_listener" where
  "IPACM_ConntrackListener_ctor mem = mem\<lparr>isNatThreadStart := False, isCTReg := False,
     WanUp := False, NatIfaceCnt := 0, StaClntCnt := 0, l_pNatIfaces := None,
     nat_iface_ipv4_addr := replicate MAX_NAT_IFACES 0,
     nonnat_iface_ipv4_addr := replicate MAX_NAT_IFACES 0,
     sta_clnt_ipv4_addr := replicate MAX_STA_CLNT_IFACES 0\<rparr>"

section \<open>Neighbours\<close>


definition upd_ctl :: "(ct_listener \<Rightarrow> ct_listener) \<Rightarrow> ('x, 'd) ct_world \<Rightarrow> ('x, 'd) ct_world" where
  "upd_ctl f w = w\<lparr>ctl := f (ctl w)\<rparr>"







section \<open>Threads and the WAN interface\<close>

text \<open>\<open>ok1\<close> and \<open>ok2\<close> are the results of the two calls of \<open>pthread_create\<close>.\<close>

definition CreateConnTrackThreads :: "bool \<Rightarrow> bool \<Rightarrow> ('x, 'd) ct_world
    \<Rightarrow> int \<times> ('x, 'd) ct_world" where
  "CreateConnTrackThreads ok1 ok2 w =
     (if isCTReg (ctl w) then (0, w)
      else if \<not> ok1 then (-1, w)
      else let w1 = w\<lparr>threads := threads w @ [TCPRegisterWithConnTrack]\<rparr> in
        if \<not> ok2 then (-1, w1)
        else (0, upd_ctl (\<lambda>l. l\<lparr>isCTReg := True\<rparr>)
                   (w1\<lparr>threads := threads w1 @ [UDPRegisterWithConnTrack]\<rparr>)))"

definition CreateNatThreads :: "bool \<Rightarrow> bool \<Rightarrow> ('x, 'd) ct_world
    \<Rightarrow> int \<times> ('x, 'd) ct_world" where
  "CreateNatThreads ok1 ok2 w =
     (if isNatThreadStart (ctl w) then (0, w)
      else if \<not> ok1 then (-1, w)
      else let w1 = w\<lparr>threads := threads w @ [UDPConnTimeoutUpdate]\<rparr> in
        if \<not> ok2 then (-1, w1)
        else (0, upd_ctl (\<lambda>l. l\<lparr>isNatThreadStart := True\<rparr>)
                   (w1\<lparr>threads := threads w1 @ [TCPUDP_Timeout_monitor]\<rparr>)))"

text \<open>A call that the code makes only when \<open>nat_inst\<close> is not null.\<close>

definition if_nat :: "(nat_app \<Rightarrow> 'd \<Rightarrow> nat_app \<times> 'd) \<Rightarrow> ('x, 'd) ct_world
    \<Rightarrow> ('x, 'd) ct_world" where
  "if_nat f w = (case with_nat f w of None \<Rightarrow> w | Some w' \<Rightarrow> w')"

definition TriggerWANUp :: "'d nat_env \<Rightarrow> bool \<Rightarrow> bool \<Rightarrow> ipacm_event_iface_up
    \<Rightarrow> ('x, 'd) ct_world \<Rightarrow> ('x, 'd) ct_world" where
  "TriggerWANUp drv ok1 ok2 data w =
     (if up_ipv4_addr data = 0 then w
      else
        let w1 = upd_ctl (\<lambda>l. l\<lparr>WanUp := True, isStaMode := is_sta data,
                   wan_ipaddr := up_ipv4_addr data, wan_ifname := ifname data\<rparr>) w;
            w2 = if_nat (\<lambda>s d. snd (AddTable drv (up_ipv4_addr data) s d)) w1 in
        snd (CreateNatThreads ok1 ok2 w2))"

definition TriggerWANDown :: "'d nat_env \<Rightarrow> u32 \<Rightarrow> ('x, 'd) ct_world \<Rightarrow> ('x, 'd) ct_world" where
  "TriggerWANDown drv wan_addr w =
     if_nat (\<lambda>s d. snd (DeleteTable drv wan_addr s d)) (upd_ctl (\<lambda>l. l\<lparr>WanUp := False\<rparr>) w)"

section \<open>Conntrack messages\<close>

datatype nat_dir = SrcNat | DstNat

text \<open>
  Lines 655 to 730: the direction of the translation and the value put into the rule's
  16-bit \<open>public_ip\<close>. \<open>None\<close>: the message is not about a translated connection.
\<close>

definition ct_direction :: "ct_listener \<Rightarrow> ct_msg \<Rightarrow> (nat_dir \<times> u16) option" where
  "ct_direction l msg =
     (if IPS_DST_NAT AND ATTR_STATUS msg \<noteq> 0 then Some (DstNat, 0)
      else if IPS_SRC_NAT AND ATTR_STATUS msg \<noteq> 0 then Some (SrcNat, 0)
      else
        let orig_src_ip = ntohl (ATTR_ORIG_IPV4_SRC msg); orig_dst_ip = ntohl (ATTR_ORIG_IPV4_DST msg) in
        if orig_src_ip = 0 then None
        else if orig_dst_ip = 0 then None
        else if orig_src_ip = wan_ipaddr l then Some (SrcNat, ucast (wan_ipaddr l))
        else if orig_dst_ip = wan_ipaddr l then Some (DstNat, ucast (wan_ipaddr l))
        else None)"

text \<open>Lines 732 to 817: the rule.\<close>

definition ct_rule :: "nat_dir \<Rightarrow> u16 \<Rightarrow> ct_msg \<Rightarrow> nat_table_entry" where
  "ct_rule dir pub msg =
     (let rule = no_entry\<lparr>protocol := ATTR_REPL_L4PROTO msg, public_ip := pub\<rparr> in
      case dir of
        DstNat \<Rightarrow> rule\<lparr>dst_nat := True,
          target_ip := ntohl (ATTR_ORIG_IPV4_SRC msg), target_port := ntohs (ATTR_ORIG_PORT_SRC msg),
          public_port := ntohs (ATTR_ORIG_PORT_DST msg),
          private_ip := ntohl (ATTR_REPL_IPV4_SRC msg), private_port := ntohs (ATTR_REPL_PORT_SRC msg)\<rparr>
      | SrcNat \<Rightarrow> rule\<lparr>dst_nat := False,
          target_ip := ntohl (ATTR_ORIG_IPV4_DST msg), target_port := ntohs (ATTR_ORIG_PORT_DST msg),
          public_port := ntohs (ATTR_REPL_PORT_DST msg),
          private_ip := ntohl (ATTR_ORIG_IPV4_SRC msg), private_port := ntohs (ATTR_ORIG_PORT_SRC msg)\<rparr>)"

text \<open>
  Lines 819 to 869: whether the connection is of interest, as an entry or as a temporary
  entry. \<open>None\<close> is the jump to \<open>IGNORE\<close>.
\<close>

definition ct_classify :: "ct_listener \<Rightarrow> 'x ipacm_config option \<Rightarrow> nat_table_entry
    \<Rightarrow> (nat_table_entry \<times> bool) option" where
  "ct_classify l cfg rule =
     (if private_ip rule \<noteq> wan_ipaddr l then
        (if list_ex (\<lambda>a. a \<noteq> 0 \<and> (private_ip rule = a \<or> target_ip rule = a)) (nat_iface_ipv4_addr l)
         then Some (rule, False)
         else (case cfg of
                 None \<Rightarrow> None
               | Some c \<Rightarrow>
                   if isPrivateSubnet c (private_ip rule) \<or> isPrivateSubnet c (target_ip rule)
                   then Some (rule, True) else None))
      else if isStaMode l then None
      else Some (rule\<lparr>private_port := public_port rule\<rparr>, False))"

text \<open>Lines 875 to 901: in STA mode only the connections of known clients pass.\<close>

definition sta_passes :: "ct_listener \<Rightarrow> u32 \<Rightarrow> bool" where
  "sta_passes l target =
     (if \<not> isStaMode l \<or> StaClntCnt l = 0 then True
      else if (sta_clnt_ipv4_addr l ! 0) AND 0xFFFFFF00 \<noteq> (target AND 0xFFFFFF00) then True
      else list_ex (\<lambda>a. target = a) (take (nat (StaClntCnt l)) (sta_clnt_ipv4_addr l)))"

text \<open>Lines 904 to 1001: the operation on the NAT application.\<close>

datatype ct_action = Act_new | Act_close | Act_none

definition ct_action :: "nat_table_entry \<Rightarrow> ct_msg \<Rightarrow> ct_action" where
  "ct_action rule msg =
     (if protocol rule = IPPROTO_TCP then
        (if ATTR_TCP_STATE msg = TCP_CONNTRACK_ESTABLISHED then Act_new
         else if ATTR_TCP_STATE msg = TCP_CONNTRACK_FIN_WAIT \<or> ct_type msg = NFCT_T_DESTROY
         then Act_close else Act_none)
      else if protocol rule = IPPROTO_UDP then
        (case ct_type msg of NFCT_T_NEW \<Rightarrow> Act_new | NFCT_T_DESTROY \<Rightarrow> Act_close | _ \<Rightarrow> Act_none)
      else Act_none)"

definition ct_apply :: "'d nat_env \<Rightarrow> int \<Rightarrow> ct_action \<Rightarrow> nat_table_entry \<Rightarrow> bool
    \<Rightarrow> ('x, 'd) ct_world \<Rightarrow> ('x, 'd) ct_world option" where
  "ct_apply drv cnt0 act rule isTempEntry w =
     (case nat_inst w of
        None \<Rightarrow> Some w
      | Some s \<Rightarrow>
          (case act of
             Act_none \<Rightarrow> Some w
           | Act_new \<Rightarrow>
               if \<not> WanUp (ctl w) then
                 map_option (\<lambda>s'. w\<lparr>nat_inst := Some s'\<rparr>) (CacheEntry cnt0 rule s)
               else if isTempEntry then Some (w\<lparr>nat_inst := Some (AddTempEntry rule s)\<rparr>)
               else with_nat (\<lambda>s d. snd (AddEntry drv rule s d)) w
           | Act_close \<Rightarrow>
               if isTempEntry then Some (w\<lparr>nat_inst := Some (DeleteTempEntry rule s)\<rparr>)
               else with_nat (\<lambda>s d. snd (DeleteEntry drv rule s d)) w))"

definition ProcessTCPorUDPMsg :: "'d nat_env \<Rightarrow> int \<Rightarrow> ct_msg \<Rightarrow> ('x, 'd) ct_world
    \<Rightarrow> ('x, 'd) ct_world option" where
  "ProcessTCPorUDPMsg drv cnt0 msg w =
     (case ct_direction (ctl w) msg of
        None \<Rightarrow> Some w
      | Some (dir, pub) \<Rightarrow>
          (case ct_classify (ctl w) (config w) (ct_rule dir pub msg) of
             None \<Rightarrow> Some w
           | Some (rule, isTempEntry) \<Rightarrow>
               if sta_passes (ctl w) (target_ip rule)
               then ct_apply drv cnt0 (ct_action rule msg) rule isTempEntry w
               else Some w))"

definition ProcessCTMessage :: "'d nat_env \<Rightarrow> int \<Rightarrow> ct_msg \<Rightarrow> ('x, 'd) ct_world
    \<Rightarrow> ('x, 'd) ct_world option" where
  "ProcessCTMessage drv cnt0 msg w =
     (if IPPROTO_UDP \<noteq> ATTR_ORIG_L4PROTO msg \<and> IPPROTO_TCP \<noteq> ATTR_ORIG_L4PROTO msg then Some w
      else ProcessTCPorUDPMsg drv cnt0 msg w)"

section \<open>STA clients\<close>

definition HandleSTAClientAddEvt :: "u32 \<Rightarrow> ct_listener \<Rightarrow> ct_listener" where
  "HandleSTAClientAddEvt ip l =
     (if int MAX_STA_CLNT_IFACES \<le> StaClntCnt l then l
      else
        let cnt = find_idx (\<lambda>a. (a \<noteq> 0 \<and> a = ip) \<or> a = 0) (sta_clnt_ipv4_addr l) in
        if cnt < MAX_STA_CLNT_IFACES \<and> sta_clnt_ipv4_addr l ! cnt = 0
        then l\<lparr>sta_clnt_ipv4_addr := (sta_clnt_ipv4_addr l)[cnt := ip],
               StaClntCnt := StaClntCnt l + 1\<rparr>
        else l)"

definition HandleSTAClientDelEvt :: "'d nat_env \<Rightarrow> u32 \<Rightarrow> ('x, 'd) ct_world
    \<Rightarrow> ('x, 'd) ct_world option" where
  "HandleSTAClientDelEvt drv ip w =
     (let cnt = find_idx (\<lambda>a. a \<noteq> 0 \<and> a = ip) (sta_clnt_ipv4_addr (ctl w)) in
      if cnt < MAX_STA_CLNT_IFACES then
        with_nat (\<lambda>s d. snd (DelEntriesOnSTAClntDiscon drv ip s d))
          (upd_ctl (\<lambda>l. l\<lparr>sta_clnt_ipv4_addr := (sta_clnt_ipv4_addr l)[cnt := 0],
                          StaClntCnt := StaClntCnt l - 1\<rparr>) w)
      else Some w)"

section \<open>Events\<close>

text \<open>The data of an event; the other payloads are not looked at.\<close>

datatype ct_evt_data = Data_null | Data_ct ct_msg | Data_iface ipacm_event_iface_up | Data_other



section \<open>What every event keeps\<close>

definition ctl_ok :: "ct_listener \<Rightarrow> bool" where
  "ctl_ok l \<longleftrightarrow> length (nat_iface_ipv4_addr l) = MAX_NAT_IFACES
     \<and> length (nonnat_iface_ipv4_addr l) = MAX_NAT_IFACES
     \<and> length (sta_clnt_ipv4_addr l) = MAX_STA_CLNT_IFACES"

definition nat_ok :: "nat_app option \<Rightarrow> bool" where
  "nat_ok n \<longleftrightarrow> (\<forall>s. n = Some s \<longrightarrow> (\<exists>z. nat_inv z s))"

definition ctw_good :: "('x, 'd) ct_world \<Rightarrow> bool" where
  "ctw_good w \<longleftrightarrow> ctl_ok (ctl w) \<and> nat_ok (nat_inst w)"



lemma nat_ok_None [simp]: "nat_ok None"
  by (simp add: nat_ok_def)





lemma threads_good [simp]:
  "ctw_good (w\<lparr>threads := t\<rparr>) = ctw_good w" "ctw_good (w\<lparr>filter_updates := u\<rparr>) = ctw_good w"
  by (simp_all add: ctw_good_def)













lemma CreateThreads_good [simp]:
  "ctw_good (snd (CreateConnTrackThreads a b w)) = ctw_good w"
  "ctw_good (snd (CreateNatThreads a b w)) = ctw_good w"
  by (simp_all add: CreateConnTrackThreads_def CreateNatThreads_def Let_def ctw_good_def upd_ctl_def
      ctl_ok_def)











section \<open>Properties\<close>

definition sample_listener :: ct_listener where
  "sample_listener =
     (IPACM_ConntrackListener_ctor \<lparr>isCTReg = True, isNatThreadStart = True, WanUp = True,
        NatIfaceCnt = 0, StaClntCnt = 0, l_pNatIfaces = None, nat_iface_ipv4_addr = [],
        nonnat_iface_ipv4_addr = [], sta_clnt_ipv4_addr = [], wan_ifname = [],
        wan_ipaddr = 0x0A000001, isStaMode = False\<rparr>)\<lparr>WanUp := True\<rparr>"

definition sample_world :: "(unit, nat) ct_world" where
  "sample_world = \<lparr>ctl = sample_listener, nat_inst = Some sample_nat, config = Some sample_config,
     threads = [], filter_updates = [], outside = 0\<rparr>"


text \<open>An outgoing connection through the WAN address, source translated.\<close>

definition sample_msg :: ct_msg where
  "sample_msg = \<lparr>ATTR_STATUS = 16, ATTR_ORIG_L4PROTO = 6, ATTR_REPL_L4PROTO = 6,
     ATTR_ORIG_IPV4_SRC = htonl 0xC0A80105, ATTR_ORIG_IPV4_DST = htonl 0x08080808,
     ATTR_ORIG_PORT_SRC = htons 4000, ATTR_ORIG_PORT_DST = htons 443,
     ATTR_REPL_IPV4_SRC = htonl 0x08080808, ATTR_REPL_PORT_SRC = htons 443,
     ATTR_REPL_PORT_DST = htons 4000, ATTR_TCP_STATE = 3, ct_type = NFCT_T_UPDATE\<rparr>"





text \<open>
  A connection neither of whose ends is a known client behind a NAT interface, in a
  private subnet or the WAN address changes nothing.
\<close>

theorem unrelated_connection_ignored:
  assumes "ct_direction (ctl w) msg = Some (dir, pub)" "rule = ct_rule dir pub msg"
    and "private_ip rule \<noteq> wan_ipaddr (ctl w)"
    and "private_ip rule \<notin> set (nat_iface_ipv4_addr (ctl w)) - {0}"
    and "target_ip rule \<notin> set (nat_iface_ipv4_addr (ctl w)) - {0}"
    and "\<And>c. config w = Some c \<Longrightarrow>
           \<not> isPrivateSubnet c (private_ip rule) \<and> \<not> isPrivateSubnet c (target_ip rule)"
  shows "ProcessCTMessage drv cnt0 msg w = Some w"
proof -
  have "\<not> list_ex (\<lambda>a. a \<noteq> 0 \<and> (private_ip rule = a \<or> target_ip rule = a))
      (nat_iface_ipv4_addr (ctl w))"
    using assms(4,5) by (auto simp: list_ex_iff)
  then have "ct_classify (ctl w) (config w) rule = None"
    using assms(3,6) by (auto simp: ct_classify_def split: option.splits)
  then show ?thesis
    using assms(1,2) by (simp add: ProcessCTMessage_def ProcessTCPorUDPMsg_def)
qed

theorem unrelated_connection_ignored_witness:
  "ProcessCTMessage sample_driver 0 (sample_msg\<lparr>ATTR_ORIG_IPV4_SRC := htonl 0x01010101\<rparr>) sample_world
   = Some sample_world"
proof -
  let ?m = "sample_msg\<lparr>ATTR_ORIG_IPV4_SRC := htonl 0x01010101\<rparr>"
  have r: "private_ip (ct_rule SrcNat 0 ?m) = 0x01010101" "target_ip (ct_rule SrcNat 0 ?m) = 0x08080808"
    by (simp_all add: ct_rule_def sample_msg_def Let_def)
  show ?thesis
  proof (rule unrelated_connection_ignored [OF _ refl])
    show "ct_direction (ctl sample_world) ?m = Some (SrcNat, 0)"
      by (simp add: ct_direction_def sample_msg_def IPS_DST_NAT_def IPS_SRC_NAT_def)
  qed (simp_all add: r sample_world_def sample_listener_def IPACM_ConntrackListener_ctor_def
      isPrivateSubnet_def visible_subnets_def sample_config_def)
qed

text \<open>The table of STA clients without holes: its clients, then zeros.\<close>

definition sta_compact :: "u32 list \<Rightarrow> ct_listener \<Rightarrow> bool" where
  "sta_compact clients l \<longleftrightarrow> StaClntCnt l = int (length clients)
     \<and> length clients \<le> MAX_STA_CLNT_IFACES \<and> 0 \<notin> set clients \<and> distinct clients
     \<and> sta_clnt_ipv4_addr l = clients @ replicate (MAX_STA_CLNT_IFACES - length clients) 0"

definition same_subnet :: "u32 \<Rightarrow> u32 \<Rightarrow> bool" where
  "same_subnet a b \<longleftrightarrow> a AND 0xFFFFFF00 = b AND 0xFFFFFF00"

lemma find_idx_append:
  "(\<forall>x \<in> set xs. \<not> P x) \<Longrightarrow> find_idx P (xs @ ys) = length xs + find_idx P ys"
  by (induction xs) auto

lemma find_idx_append_hit:
  "\<lbrakk>x \<in> set xs; P x\<rbrakk> \<Longrightarrow> find_idx P (xs @ ys) = find_idx P xs"
  by (induction xs) auto

text \<open>
  As long as no STA client has left, adding a client appends it to the table unless it
  is there or the table is full, and in STA mode a connection into the clients' subnet
  passes exactly when its target is one of the clients.
\<close>

theorem sta_filter_exact_without_holes:
  assumes "sta_compact clients l" "ip \<noteq> 0"
  shows "sta_compact (if ip \<in> set clients \<or> length clients = MAX_STA_CLNT_IFACES
                      then clients else clients @ [ip]) (HandleSTAClientAddEvt ip l)
       \<and> (isStaMode l \<longrightarrow> clients \<noteq> [] \<longrightarrow> same_subnet (hd clients) target
            \<longrightarrow> sta_passes l target = (target \<in> set clients))"
proof (rule conjI, goal_cases)
  case 1
  let ?P = "\<lambda>a. (a \<noteq> 0 \<and> a = ip) \<or> a = 0" and ?n = "length clients"
  have len: "length (sta_clnt_ipv4_addr l) = MAX_STA_CLNT_IFACES"
    and tab: "sta_clnt_ipv4_addr l = clients @ replicate (MAX_STA_CLNT_IFACES - ?n) 0"
    and cnt: "StaClntCnt l = int ?n" "?n \<le> MAX_STA_CLNT_IFACES" "0 \<notin> set clients" "distinct clients"
    using assms(1) by (auto simp: sta_compact_def)
  show ?case
  proof (cases "ip \<in> set clients \<or> ?n = MAX_STA_CLNT_IFACES")
    case True
    have "HandleSTAClientAddEvt ip l = l"
    proof (cases "?n = MAX_STA_CLNT_IFACES")
      case False
      then have ip: "ip \<in> set clients" using True by simp
      let ?i = "find_idx ?P (sta_clnt_ipv4_addr l)"
      have i: "?i < length clients"
        using find_idx_append_hit [of ip clients ?P] ip cnt(3) find_idx_less_iff [of ?P clients]
        by (auto simp: tab)
      then have "sta_clnt_ipv4_addr l ! ?i \<noteq> 0"
        using cnt(3) by (auto simp: tab nth_append in_set_conv_nth)
      then show ?thesis by (simp add: HandleSTAClientAddEvt_def Let_def)
    qed (simp add: HandleSTAClientAddEvt_def cnt)
    then show ?thesis using assms(1) True by simp
  next
    case False
    then have lt: "?n < MAX_STA_CLNT_IFACES" "ip \<notin> set clients" using cnt(2) by auto
    then obtain k where k: "MAX_STA_CLNT_IFACES - ?n = Suc k" by (cases "MAX_STA_CLNT_IFACES - ?n") auto
    have no: "\<forall>x \<in> set clients. \<not> ?P x" using lt(2) cnt(3) by auto
    have i: "find_idx ?P (sta_clnt_ipv4_addr l) = ?n"
      using find_idx_append [OF no, of "0 # replicate k 0"] by (simp add: tab k)
    have "HandleSTAClientAddEvt ip l
        = l\<lparr>sta_clnt_ipv4_addr := (sta_clnt_ipv4_addr l)[?n := ip], StaClntCnt := StaClntCnt l + 1\<rparr>"
      using lt cnt by (simp add: HandleSTAClientAddEvt_def Let_def i) (simp add: tab k nth_append)
    moreover have "MAX_STA_CLNT_IFACES - Suc ?n = k" using k by simp
    ultimately show ?thesis
      using False lt cnt assms(2) by (simp add: sta_compact_def tab k)
  qed
next
  case 2
  show ?case
  proof (intro impI)
    assume *: "isStaMode l" "clients \<noteq> []" "same_subnet (hd clients) target"
    have "sta_clnt_ipv4_addr l ! 0 = hd clients"
      using assms(1) *(2) by (cases clients) (simp_all add: sta_compact_def)
    then show "sta_passes l target = (target \<in> set clients)"
      using assms(1) * by (auto simp: sta_passes_def sta_compact_def same_subnet_def list_ex_iff)
  qed
qed

theorem sta_filter_exact_without_holes_witness:
  "sta_compact [7] (HandleSTAClientAddEvt 7 sample_listener)"
  using sta_filter_exact_without_holes [of "[]" sample_listener 7 0]
  by (simp add: sta_compact_def sample_listener_def IPACM_ConntrackListener_ctor_def
      MAX_STA_CLNT_IFACES_def)

text \<open>
  Once the first STA client has left while others stay, every connection passes whose
  target is outside the subnet of address 0: the subnet test reads the emptied first slot.
\<close>

lemma sta_filter_open_after_first_leaves:
  assumes "sta_compact (c # cs) (ctl w)" "cs \<noteq> []"
    and "HandleSTAClientDelEvt drv c w = Some w'" and "\<not> same_subnet 0 target"
  shows "sta_passes (ctl w') target \<and> StaClntCnt (ctl w') = int (length cs)"
proof -
  have tab: "sta_clnt_ipv4_addr (ctl w) = c # cs @ replicate (MAX_STA_CLNT_IFACES - Suc (length cs)) 0"
    and "c \<noteq> 0" and cnt: "StaClntCnt (ctl w) = int (Suc (length cs))"
    using assms(1) by (auto simp: sta_compact_def)
  then have i: "find_idx (\<lambda>a. a \<noteq> 0 \<and> a = c) (sta_clnt_ipv4_addr (ctl w)) = 0" by simp
  have "sta_clnt_ipv4_addr (ctl w') ! 0 = 0" "StaClntCnt (ctl w') = int (length cs)"
    using assms(3) cnt unfolding HandleSTAClientDelEvt_def Let_def i
    by (auto simp: MAX_STA_CLNT_IFACES_def with_nat_def upd_ctl_def tab split: option.splits prod.splits)
  then show ?thesis using assms(4) by (auto simp: sta_passes_def same_subnet_def)
qed

theorem sta_filter_open_after_first_leaves_witness:
  "\<exists>w'. HandleSTAClientDelEvt sample_driver 0xC0A82B02
       (upd_ctl (\<lambda>l. l\<lparr>isStaMode := True, StaClntCnt := 2,
          sta_clnt_ipv4_addr := [0xC0A82B02, 0xC0A82B03] @ replicate 8 0\<rparr>) sample_world) = Some w'
     \<and> sta_passes (ctl w') 0xC0A82B63"
proof -
  let ?w = "upd_ctl (\<lambda>l. l\<lparr>isStaMode := True, StaClntCnt := 2,
          sta_clnt_ipv4_addr := [0xC0A82B02, 0xC0A82B03] @ replicate 8 0\<rparr>) sample_world"
  obtain r s d where g: "DelEntriesOnSTAClntDiscon sample_driver 0xC0A82B02 sample_nat 0 = (r, s, d)"
    by (metis prod_cases3)
  obtain w' where h: "HandleSTAClientDelEvt sample_driver 0xC0A82B02 ?w = Some w'"
    by (simp add: HandleSTAClientDelEvt_def with_nat_def upd_ctl_def sample_world_def g
        MAX_STA_CLNT_IFACES_def)
  have "sta_compact [0xC0A82B02, 0xC0A82B03] (ctl ?w)"
    by (simp add: sta_compact_def upd_ctl_def MAX_STA_CLNT_IFACES_def)
  from sta_filter_open_after_first_leaves [OF this _ h, of "0xC0A82B63"] h show ?thesis
    by (simp add: same_subnet_def)
qed

text \<open>
  When the UDP thread cannot be created, the listener forgets that the TCP thread was:
  the next event creates a second TCP thread.
\<close>

theorem tcp_thread_created_twice:
  assumes "\<not> isCTReg (ctl w)"
    and "CreateConnTrackThreads True False w = (r, w1)"
    and "CreateConnTrackThreads True True w1 = (r', w2)"
  shows "r = -1 \<and> r' = 0 \<and> threads w2 = threads w
       @ [TCPRegisterWithConnTrack, TCPRegisterWithConnTrack, UDPRegisterWithConnTrack]"
  using assms by (auto simp: CreateConnTrackThreads_def Let_def upd_ctl_def)

theorem tcp_thread_created_twice_witness:
  "\<exists>w2. snd (CreateConnTrackThreads True True (snd (CreateConnTrackThreads True False
       (upd_ctl (\<lambda>l. l\<lparr>isCTReg := False\<rparr>) sample_world)))) = w2
     \<and> threads w2 = [TCPRegisterWithConnTrack, TCPRegisterWithConnTrack, UDPRegisterWithConnTrack]"
  using tcp_thread_created_twice [of "upd_ctl (\<lambda>l. l\<lparr>isCTReg := False\<rparr>) sample_world",
      OF _ prod.collapse [symmetric] prod.collapse [symmetric]]
  by (simp add: upd_ctl_def sample_world_def)

text \<open>
  The WAN interface going down and up again with the same address, driver willing,
  leaves the same connections cached, all of them installed.
\<close>

theorem wan_cycle_restores_connections:
  assumes "nat_inst w = Some s" "nat_inv z s" "nat_table_hdl s \<noteq> 0"
    and "pub_ip_addr s = up_ipv4_addr data" "up_ipv4_addr data \<noteq> 0"
    and "driver_adds drv" "\<And>h d. fst (ipa_nat_del_ipv4_tbl drv h d) = 0"
    and "\<And>ip n h d. fst (ipa_nat_add_ipv4_tbl drv ip n h d) = 0"
  shows "\<exists>s'. nat_inst (TriggerWANUp drv ok1 ok2 data (TriggerWANDown drv (pub_ip_addr s) w)) = Some s'
       \<and> conns s' = conns s \<and> (\<forall>e \<in> set (cache s'). entry_free e \<or> enabled e)"
proof -
  let ?s1 = "Reset (s\<lparr>pub_ip_addr_pre := pub_ip_addr s\<rparr>)"
  obtain ret d1 where del: "ipa_nat_del_ipv4_tbl drv (nat_table_hdl s) (outside w) = (ret, d1)"
    by force
  then have "ret = 0" using assms(7) [of "nat_table_hdl s" "outside w"] by simp
  with del have d1: "DeleteTable drv (pub_ip_addr s) s (outside w) = (0, ?s1, d1)"
    using assms(3) by (simp add: DeleteTable_def)
  let ?w1 = "TriggerWANDown drv (pub_ip_addr s) w"
  have w1: "nat_inst ?w1 = Some ?s1" "outside ?w1 = d1"
    using assms(1) d1 by (simp_all add: TriggerWANDown_def if_nat_def with_nat_def upd_ctl_def)
  have pre: "pub_ip_addr_pre ?s1 = up_ipv4_addr data" using assms(4) by (simp add: Reset_def)
  obtain r s2 d2 where a: "AddTable drv (up_ipv4_addr data) ?s1 d1 = (r, s2, d2)" by (metis prod_cases3)
  obtain ret hdl d3 where add: "ipa_nat_add_ipv4_tbl drv (up_ipv4_addr data)
      (of_nat (max_entries ?s1)) (nat_table_hdl ?s1) d1 = (ret, hdl, d3)" by (metis prod_cases3)
  then have "ret = 0"
    using assms(8) [of "up_ipv4_addr data" "of_nat (max_entries ?s1)" "nat_table_hdl ?s1" d1] by simp
  then have "r = 0" using a add by (simp add: AddTable_def Let_def split: prod.splits if_splits)
  then have a0: "AddTable drv (pub_ip_addr_pre ?s1) ?s1 d1 = (0, s2, d2)" using a pre by simp
  have inv: "nat_inv z ?s1" using assms(2) by (simp add: Reset_def nat_inv_def)
  have c: "conns ?s1 = conns s" by (simp add: Reset_def conns_def)
  have up: "nat_inst (TriggerWANUp drv ok1 ok2 data ?w1) = Some s2"
    using assms(5) w1 a
    by (simp add: TriggerWANUp_def if_nat_def with_nat_def upd_ctl_def CreateNatThreads_def Let_def)
  show ?thesis
    using AddTable_restores_cache' [OF inv a0] assms(6) c up by (intro exI [of _ s2]) simp
qed

theorem wan_cycle_restores_connections_witness:
  "\<exists>s'. nat_inst (TriggerWANUp sample_driver True True
       \<lparr>ifname = [], up_ipv4_addr = 0x0A000001, addr_mask = 0, ipv6_prefix = [], is_sta = False\<rparr>
       (TriggerWANDown sample_driver 0x0A000001 sample_world)) = Some s'
     \<and> conns s' = {}"
proof -
  let ?d = "\<lparr>ifname = [], up_ipv4_addr = 0x0A000001, addr_mask = 0, ipv6_prefix = [], is_sta = False\<rparr>"
  have "nat_inst sample_world = Some sample_nat" "nat_table_hdl sample_nat \<noteq> 0"
    "pub_ip_addr sample_nat = up_ipv4_addr ?d" "up_ipv4_addr ?d \<noteq> 0"
    "pub_ip_addr sample_nat = 0x0A000001"
    "\<And>h d. fst (ipa_nat_del_ipv4_tbl sample_driver h d) = 0"
    "\<And>ip n h d. fst (ipa_nat_add_ipv4_tbl sample_driver ip n h d) = 0"
    by (simp_all add: sample_world_def sample_nat_def sample_driver_def)
  from wan_cycle_restores_connections [OF this(1) sample_nat_inv this(2-4) sample_driver_consents(2)
      this(6,7), of True True] this(5)
  show ?thesis by (auto simp: sample_nat_conns)
qed

end
