(* ===== verification/Nat_Fields.thy ===== *)
theory Nat_Fields
  imports Ipacm_Prelude
begin

unbundle bit_operations_syntax

text \<open>
  Fields, hashes, checksums and sizes of the NAT driver (\<^verbatim>\<open>ipanat/src/ipa_nat_drvi.c\<close>, the
  utility functions): a rule as the hardware reads it, 32 bytes of packed fields, and as
  the driver fills it in, with the reading of the packed fields; the two hash functions;
  the incremental checksums; the table sizes.
\<close>

section \<open>Halves of a 32-bit field\<close>

definition low16 :: "u32 \<Rightarrow> u16" where "low16 w = ucast w"
definition high16 :: "u32 \<Rightarrow> u16" where "high16 w = ucast (drop_bit 16 w)"
definition pair16 :: "u16 \<Rightarrow> u16 \<Rightarrow> u32" where
  "pair16 hi lo = push_bit 16 (ucast hi) OR ucast lo"

lemma low16_pair16 [simp]: "low16 (pair16 hi lo) = lo"
  unfolding low16_def pair16_def by (rule bit_eqI) (auto simp: bit_simps)

lemma high16_pair16 [simp]: "high16 (pair16 hi lo) = hi"
  unfolding high16_def pair16_def
  by (rule bit_eqI) (auto simp: bit_simps dest: bit_imp_le_length)

lemma pair16_halves [simp]: "pair16 (high16 w) (low16 w) = w"
  unfolding high16_def low16_def pair16_def
  by (rule bit_eqI) (auto simp: bit_simps dest: bit_imp_le_length)

lemma halves_0 [simp]: "low16 0 = 0" "high16 0 = 0"
  by (simp_all add: low16_def high16_def)

section \<open>Rules\<close>

text \<open>\<open>struct ipa_nat_rule\<close>, the layout of the hardware.\<close>

record ipa_nat_rule =
  h_private_ip :: u32
  h_target_ip :: u32
  nxt_indx_pub_port :: u32
  h_private_port :: u16
  h_target_port :: u16
  ip_cksm_enbl :: u32
  ts_proto :: u32
  sw_spec_params :: u32
  h_rsvd2 :: u16
  h_tcp_udp_chksum :: u16

text \<open>\<open>struct ipa_nat_sw_rule\<close>, the same 32 bytes with every field named.\<close>

record ipa_nat_sw_rule =
  s_private_ip :: u32
  s_target_ip :: u32
  next_index :: u16
  s_public_port :: u16
  s_private_port :: u16
  s_target_port :: u16
  ip_chksum :: u16
  rsvd1 :: "14 word"
  redirect :: bool
  enable :: bool
  time_stamp :: "24 word"
  s_protocol :: u8
  prev_index :: u16
  indx_tbl_entry :: u16
  rsvd2 :: u16
  tcp_udp_chksum :: u16

definition zero_sw_rule :: ipa_nat_sw_rule where
  "zero_sw_rule = \<lparr>s_private_ip = 0, s_target_ip = 0, next_index = 0, s_public_port = 0,
     s_private_port = 0, s_target_port = 0, ip_chksum = 0, rsvd1 = 0, redirect = False,
     enable = False, time_stamp = 0, s_protocol = 0, prev_index = 0, indx_tbl_entry = 0, rsvd2 = 0,
     tcp_udp_chksum = 0\<rparr>"

definition zero_rule :: ipa_nat_rule where
  "zero_rule = \<lparr>h_private_ip = 0, h_target_ip = 0, nxt_indx_pub_port = 0, h_private_port = 0,
     h_target_port = 0, ip_cksm_enbl = 0, ts_proto = 0, sw_spec_params = 0, h_rsvd2 = 0,
     h_tcp_udp_chksum = 0\<rparr>"

text \<open>The \<open>memcpy\<close> from the one to the other; bit fields start at the low bits.\<close>

definition flag_bits :: "14 word \<Rightarrow> bool \<Rightarrow> bool \<Rightarrow> u16" where
  "flag_bits r rd en = ucast r OR (if rd then 0x4000 else 0) OR (if en then 0x8000 else 0)"

definition rule_to_hw :: "ipa_nat_sw_rule \<Rightarrow> ipa_nat_rule" where
  "rule_to_hw r = \<lparr>h_private_ip = s_private_ip r, h_target_ip = s_target_ip r,
     nxt_indx_pub_port = pair16 (s_public_port r) (next_index r),
     h_private_port = s_private_port r, h_target_port = s_target_port r,
     ip_cksm_enbl = pair16 (flag_bits (rsvd1 r) (redirect r) (enable r)) (ip_chksum r),
     ts_proto = ucast (time_stamp r) OR push_bit 24 (ucast (s_protocol r)),
     sw_spec_params = pair16 (indx_tbl_entry r) (prev_index r),
     h_rsvd2 = rsvd2 r, h_tcp_udp_chksum = tcp_udp_chksum r\<rparr>"

section \<open>Reading and updating packed fields\<close>

datatype ipa_nat_rule_field_type =
    NEXT_INDEX_FIELD | PUBLIC_PORT_FILED | PRIVATE_PORT_FIELD | TARGET_PORT_FIELD | IP_CHKSUM_FIELD
  | ENABLE_FIELD | TIME_STAMP_FIELD | PROTOCOL_FIELD | TCP_UDP_CHKSUM_FIELD
  | SW_SPEC_PARAM_PREV_INDEX_FIELD | SW_SPEC_PARAM_INDX_TBL_ENTRY_FIELD
  | INDX_TBL_TBL_ENTRY_FIELD | INDX_TBL_NEXT_INDEX_FILED

definition Read8BitFieldValue :: "u32 \<Rightarrow> ipa_nat_rule_field_type \<Rightarrow> u8" where
  "Read8BitFieldValue param fld = (case fld of PROTOCOL_FIELD \<Rightarrow> ucast (drop_bit 24 param) | _ \<Rightarrow> 0)"

definition Read16BitFieldValue :: "u32 \<Rightarrow> ipa_nat_rule_field_type \<Rightarrow> u16" where
  "Read16BitFieldValue param fld =
     (case fld of
        NEXT_INDEX_FIELD \<Rightarrow> low16 param
      | PUBLIC_PORT_FILED \<Rightarrow> high16 param
      | ENABLE_FIELD \<Rightarrow> ucast (drop_bit 31 param)
      | SW_SPEC_PARAM_PREV_INDEX_FIELD \<Rightarrow> low16 param
      | SW_SPEC_PARAM_INDX_TBL_ENTRY_FIELD \<Rightarrow> high16 param
      | INDX_TBL_TBL_ENTRY_FIELD \<Rightarrow> low16 param
      | INDX_TBL_NEXT_INDEX_FILED \<Rightarrow> high16 param
      | IP_CHKSUM_FIELD \<Rightarrow> low16 param
      | _ \<Rightarrow> 0)"

definition Read32BitFieldValue :: "u32 \<Rightarrow> ipa_nat_rule_field_type \<Rightarrow> u32" where
  "Read32BitFieldValue param fld = (case fld of TIME_STAMP_FIELD \<Rightarrow> param AND 0xFFFFFF | _ \<Rightarrow> 0)"

definition IPA_NAT_SW_PARAM_INDX_TBL_ENTRY_BYTE :: u8 where "IPA_NAT_SW_PARAM_INDX_TBL_ENTRY_BYTE = 1"
definition IPA_NAT_SW_PARAM_PREV_INDX_BYTE :: u8 where "IPA_NAT_SW_PARAM_PREV_INDX_BYTE = 0"

definition UpdateSwSpecParams :: "u8 \<Rightarrow> u32 \<Rightarrow> ipa_nat_rule \<Rightarrow> ipa_nat_rule" where
  "UpdateSwSpecParams param_type val rule =
     (let temp = sw_spec_params rule in
      if param_type = IPA_NAT_SW_PARAM_INDX_TBL_ENTRY_BYTE
      then rule\<lparr>sw_spec_params := (temp AND 0x0000FFFF) OR push_bit 16 val\<rparr>
      else rule\<lparr>sw_spec_params := (temp AND 0xFFFF0000) OR val\<rparr>)"

text \<open>The fields by name; the lemmas rewrite every read to one of them.\<close>

definition nxt_of :: "ipa_nat_rule \<Rightarrow> u16" where "nxt_of r = low16 (nxt_indx_pub_port r)"
definition prv_of :: "ipa_nat_rule \<Rightarrow> u16" where "prv_of r = low16 (sw_spec_params r)"
definition ind_of :: "ipa_nat_rule \<Rightarrow> u16" where "ind_of r = high16 (sw_spec_params r)"
definition ena_of :: "ipa_nat_rule \<Rightarrow> bool" where "ena_of r \<longleftrightarrow> bit (ip_cksm_enbl r) 31"
definition prt_of :: "ipa_nat_rule \<Rightarrow> u8" where "prt_of r = ucast (drop_bit 24 (ts_proto r))"

lemma drop_bit_31: "drop_bit 31 (w :: u32) = of_bool (bit w 31)"
proof (rule bit_eqI)
  fix n
  show "bit (drop_bit 31 w) n \<longleftrightarrow> bit (of_bool (bit w 31) :: u32) n"
    using bit_imp_le_length [of w "31 + n"] by (cases n) (auto simp: bit_simps)
qed

lemma enable_read [simp]: "Read16BitFieldValue w ENABLE_FIELD = 0 \<longleftrightarrow> \<not> bit w 31"
  by (simp add: Read16BitFieldValue_def drop_bit_31)

lemma mask_halves:
  "(w AND 0x0000FFFF) OR push_bit 16 (ucast (v :: u16)) = pair16 v (low16 w)"
  "(w AND 0xFFFF0000) OR ucast (v :: u16) = pair16 (high16 w) v" for w :: u32
proof -
  have m: "(0x0000FFFF :: u32) = mask 16" "(0xFFFF0000 :: u32) = NOT (mask 16)"
    by (simp_all add: mask_eq_exp_minus_1)
  show "(w AND 0x0000FFFF) OR push_bit 16 (ucast v) = pair16 v (low16 w)"
    unfolding m pair16_def low16_def by (rule bit_eqI) (auto simp: bit_simps)
  show "(w AND 0xFFFF0000) OR ucast v = pair16 (high16 w) v"
    unfolding m pair16_def high16_def
    by (rule bit_eqI) (auto simp: bit_simps dest: bit_imp_le_length)
qed

lemma UpdateSwSpecParams_pair16:
  "UpdateSwSpecParams IPA_NAT_SW_PARAM_INDX_TBL_ENTRY_BYTE (ucast (v :: u16)) r =
     r\<lparr>sw_spec_params := pair16 v (prv_of r)\<rparr>"
  "UpdateSwSpecParams IPA_NAT_SW_PARAM_PREV_INDX_BYTE (ucast v) r =
     r\<lparr>sw_spec_params := pair16 (ind_of r) v\<rparr>"
  by (simp_all only: UpdateSwSpecParams_def Let_def mask_halves prv_of_def ind_of_def
      IPA_NAT_SW_PARAM_INDX_TBL_ENTRY_BYTE_def IPA_NAT_SW_PARAM_PREV_INDX_BYTE_def if_True if_False
      zero_neq_one simp_thms)

lemma read_fields [simp]:
  "Read16BitFieldValue (nxt_indx_pub_port r) NEXT_INDEX_FIELD = nxt_of r"
  "Read16BitFieldValue (sw_spec_params r) SW_SPEC_PARAM_PREV_INDEX_FIELD = prv_of r"
  "Read16BitFieldValue (sw_spec_params r) SW_SPEC_PARAM_INDX_TBL_ENTRY_FIELD = ind_of r"
  "Read16BitFieldValue w INDX_TBL_TBL_ENTRY_FIELD = low16 w"
  "Read16BitFieldValue w INDX_TBL_NEXT_INDEX_FILED = high16 w"
  "Read8BitFieldValue (ts_proto r) PROTOCOL_FIELD = prt_of r"
  by (simp_all add: Read16BitFieldValue_def Read8BitFieldValue_def nxt_of_def prv_of_def ind_of_def prt_of_def)

lemma bit_high16: "bit w 31 \<longleftrightarrow> bit (high16 w) 15" for w :: u32
  by (simp add: high16_def bit_simps)

lemma prt_high16: "prt_of r = ucast (drop_bit 8 (high16 (ts_proto r)))"
  unfolding prt_of_def high16_def
  by (rule bit_eqI) (auto simp: bit_simps add.commute)

lemma flag_bit_15: "bit (flag_bits r rd en) 15 \<longleftrightarrow> en"
  by (auto simp: flag_bits_def bit_simps dest: bit_imp_le_length)

text \<open>The fields of a rule that was copied to the hardware.\<close>

lemma fields_rule_to_hw [simp]:
  "nxt_of (rule_to_hw r) = next_index r" "prv_of (rule_to_hw r) = prev_index r"
  "ind_of (rule_to_hw r) = indx_tbl_entry r" "ena_of (rule_to_hw r) = enable r"
  "prt_of (rule_to_hw r) = s_protocol r"
proof -
  have "ucast (drop_bit 24 (ucast (time_stamp r) OR push_bit 24 (ucast (s_protocol r)) :: u32)) = s_protocol r"
    by (rule bit_eqI) (auto simp: bit_simps dest: bit_imp_le_length)
  then show "prt_of (rule_to_hw r) = s_protocol r" by (simp add: prt_of_def rule_to_hw_def)
qed (simp_all add: nxt_of_def prv_of_def ind_of_def ena_of_def rule_to_hw_def bit_high16 flag_bit_15)


section \<open>Hashes\<close>

definition dst_hash :: "u32 \<Rightarrow> u16 \<Rightarrow> u16 \<Rightarrow> u8 \<Rightarrow> u16 \<Rightarrow> u16" where
  "dst_hash trgt_ip trgt_port public_port proto tsize =
     (let hash = ucast trgt_ip XOR ucast (drop_bit 16 trgt_ip) XOR trgt_port XOR public_port
                 XOR ucast proto;
          hash = hash AND tsize
      in if hash = 0 then tsize else hash)"

definition src_hash :: "u32 \<Rightarrow> u16 \<Rightarrow> u32 \<Rightarrow> u16 \<Rightarrow> u8 \<Rightarrow> u16 \<Rightarrow> u16" where
  "src_hash priv_ip priv_port trgt_ip trgt_port proto tsize =
     (let hash = ucast priv_ip XOR ucast (drop_bit 16 priv_ip) XOR priv_port XOR ucast trgt_ip
                 XOR ucast (drop_bit 16 trgt_ip) XOR trgt_port XOR ucast proto;
          hash = hash AND tsize
      in if hash = 0 then tsize else hash)"

lemma dst_hash_range: "tsize \<noteq> 0 \<Longrightarrow> dst_hash a b c d tsize \<noteq> 0 \<and> dst_hash a b c d tsize \<le> tsize"
  by (simp add: dst_hash_def Let_def word_and_le1)

lemma src_hash_range: "tsize \<noteq> 0 \<Longrightarrow> src_hash a b c d e tsize \<noteq> 0 \<and> src_hash a b c d e tsize \<le> tsize"
  by (simp add: src_hash_def Let_def word_and_le1)

section \<open>Checksums\<close>

text \<open>The check for a carry that follows each addition.\<close>

definition carry_fwd :: "u32 \<Rightarrow> u32" where
  "carry_fwd cksum = (if drop_bit 16 cksum \<noteq> 0 then (cksum AND 0x0000FFFF) + 1 else cksum)"

definition ipa_nati_calc_ip_cksum :: "u32 \<Rightarrow> u32 \<Rightarrow> u16" where
  "ipa_nati_calc_ip_cksum pub_ip_addr priv_ip_addr =
     (let cksum = pub_ip_addr AND 0xFFFF;
          cksum = carry_fwd (cksum + drop_bit 16 pub_ip_addr);
          priv_ip_addr = NOT priv_ip_addr;
          cksum = carry_fwd (cksum + (priv_ip_addr AND 0xFFFF));
          cksum = carry_fwd (cksum + drop_bit 16 priv_ip_addr)
      in ucast cksum)"

definition ipa_nati_calc_tcp_udp_cksum :: "u32 \<Rightarrow> u16 \<Rightarrow> u32 \<Rightarrow> u16 \<Rightarrow> u16" where
  "ipa_nati_calc_tcp_udp_cksum pub_ip_addr pub_port priv_ip_addr priv_port =
     (let cksum = pub_ip_addr AND 0xFFFF;
          cksum = carry_fwd (cksum + drop_bit 16 pub_ip_addr);
          cksum = carry_fwd (cksum + ucast pub_port);
          priv_ip_addr = NOT priv_ip_addr;
          cksum = carry_fwd (cksum + (priv_ip_addr AND 0xFFFF));
          cksum = carry_fwd (cksum + drop_bit 16 priv_ip_addr);
          priv_port = NOT priv_port;
          cksum = carry_fwd (cksum + ucast priv_port)
      in ucast cksum)"

lemma uint_halves:
  "uint (w AND 0xFFFF) = uint w mod 65536" "uint (drop_bit 16 w) = uint w div 65536" for w :: u32
proof -
  have "w AND 0xFFFF = take_bit 16 w" by (simp add: take_bit_eq_mask mask_eq_exp_minus_1)
  then show "uint (w AND 0xFFFF) = uint w mod 65536" by (simp add: take_bit_eq_mod uint_mod)
  show "uint (drop_bit 16 w) = uint w div 65536" by (simp add: drop_bit_eq_div uint_div)
qed

text \<open>One's complement addition: the sum is right modulo \<open>2\<^sup>1\<^sup>6 - 1\<close>.\<close>

lemma carry_fwd:
  assumes "uint c \<le> 131070"
  shows "uint (carry_fwd c) \<le> 65535 \<and> uint (carry_fwd c) mod 65535 = uint c mod 65535"
proof (cases "drop_bit 16 c = 0")
  case True
  have "uint c div 65536 = 0" using True uint_halves(2) [of c] by simp
  then have "uint c < 65536" by (simp add: div_eq_0_iff) 
  then show ?thesis using True by (simp add: carry_fwd_def)
next
  case False
  have nz: "uint c div 65536 \<noteq> 0" using False uint_halves(2) [of c] uint_0_iff by metis
  then have c: "65536 \<le> uint c" by (cases "uint c < 65536") simp_all
  then have "(uint c - 65536) mod 65536 = uint c - 65536"
    using assms by (intro mod_pos_pos_trivial) simp_all
  then have m: "uint c mod 65536 = uint c - 65536" by simp
  have "uint ((c AND 0xFFFF) + 1) = uint c - 65535"
    using assms c m uint_halves(1) [of c] by (subst uint_add_lem [THEN iffD1]) simp_all
  then show ?thesis using False assms c by (simp add: carry_fwd_def mod_diff_eq [symmetric])
qed

lemma carry_fwd_add:
  assumes "uint c \<le> 65535" "uint x \<le> 65535"
  shows "uint (carry_fwd (c + x)) \<le> 65535"
    and "uint (carry_fwd (c + x)) mod 65535 = (uint c + uint x) mod 65535"
proof -
  have "uint (c + x) = uint c + uint x" using assms by (subst uint_add_lem [THEN iffD1]) simp_all
  then show "uint (carry_fwd (c + x)) \<le> 65535"
    and "uint (carry_fwd (c + x)) mod 65535 = (uint c + uint x) mod 65535"
    using carry_fwd [of "c + x"] assms by simp_all
qed

lemma sum_of_halves:
  "(uint (w AND 0xFFFF) + uint (drop_bit 16 w)) mod 65535 = uint w mod 65535"
  "uint (w AND 0xFFFF) \<le> 65535" "uint (drop_bit 16 w) \<le> 65535" for w :: u32
proof -
  define q r where "q = uint w div 65536" and "r = uint w mod 65536"
  have "uint w = (r + q) + 65535 * q" by (simp add: q_def r_def)
  then have "uint w mod 65535 = (r + q) mod 65535" by (metis mod_mult_self2)
  then show "(uint (w AND 0xFFFF) + uint (drop_bit 16 w)) mod 65535 = uint w mod 65535"
    unfolding uint_halves q_def r_def by simp
  show "uint (w AND 0xFFFF) \<le> 65535" "uint (drop_bit 16 w) \<le> 65535"
    unfolding uint_halves using uint_lt2p [of w] by simp_all
qed

lemma uint_NOT: "uint (NOT w) = 2 ^ LENGTH('a) - 1 - uint (w :: 'a :: len word)"
  by (simp add: unsigned_not_eq take_bit_not_eq_mask_diff mask_eq_exp_minus_1 take_bit_int_eq_self_iff)


lemma ip_cksum_mod:
  "uint (ipa_nati_calc_ip_cksum pub priv) mod 65535 = (uint pub - uint priv) mod 65535"
proof -
  define c1 c2 c3 where "c1 = carry_fwd ((pub AND 0xFFFF) + drop_bit 16 pub)"
    and "c2 = carry_fwd (c1 + (NOT priv AND 0xFFFF))" and "c3 = carry_fwd (c2 + drop_bit 16 (NOT priv))"
  note s = sum_of_halves
  have 1: "uint c1 \<le> 65535" "uint c1 mod 65535 = uint pub mod 65535"
    unfolding c1_def by (rule carry_fwd_add [OF s(2,3)], simp only: carry_fwd_add(2) [OF s(2,3)] s(1))
  have 2: "uint c2 \<le> 65535" "uint c2 mod 65535 = (uint c1 + uint (NOT priv AND 0xFFFF)) mod 65535"
    unfolding c2_def by (rule carry_fwd_add [OF 1(1) s(2)])+
  have 3: "uint c3 \<le> 65535" "uint c3 mod 65535 = (uint c2 + uint (drop_bit 16 (NOT priv))) mod 65535"
    unfolding c3_def by (rule carry_fwd_add [OF 2(1) s(3)])+
  have "uint c3 mod 65535 = (uint c1 + (uint (NOT priv AND 0xFFFF) + uint (drop_bit 16 (NOT priv)))) mod 65535"
    unfolding 3(2) add.assoc [symmetric] by (rule mod_add_cong [OF 2(2) refl])
  also have "\<dots> = (uint pub + uint (NOT priv)) mod 65535"
    by (rule mod_add_cong [OF 1(2) s(1)])
  also have "\<dots> = (uint pub - uint priv + 65535 * 65537) mod 65535"
    by (simp add: uint_NOT algebra_simps)
  also have "\<dots> = (uint pub - uint priv) mod 65535" by (rule mod_mult_self2)
  finally have "uint c3 mod 65535 = (uint pub - uint priv) mod 65535" .
  moreover have "uint (ucast c3 :: u16) = uint c3"
    using 3(1) by (simp add: unsigned_ucast_eq take_bit_int_eq_self_iff)
  ultimately show ?thesis
    by (simp add: ipa_nati_calc_ip_cksum_def Let_def c1_def c2_def c3_def)
qed

lemma tcp_udp_cksum_mod:
  "uint (ipa_nati_calc_tcp_udp_cksum pub pport priv vport) mod 65535 =
     (uint pub + uint pport - uint priv - uint vport) mod 65535"
proof -
  define c1 c2 c3 c4 c5 where "c1 = carry_fwd ((pub AND 0xFFFF) + drop_bit 16 pub)"
    and "c2 = carry_fwd (c1 + ucast pport)"
    and "c3 = carry_fwd (c2 + (NOT priv AND 0xFFFF))" and "c4 = carry_fwd (c3 + drop_bit 16 (NOT priv))"
    and "c5 = carry_fwd (c4 + ucast (NOT vport))"
  note s = sum_of_halves
  have u: "uint (ucast p :: u32) = uint p" for p :: u16
    using uint_lt2p [of p] by (simp add: unsigned_ucast_eq take_bit_int_eq_self_iff)
  have u': "uint (ucast p :: u32) \<le> 65535" for p :: u16
    using uint_lt2p [of p] u [of p] by simp
  have 1: "uint c1 \<le> 65535" "uint c1 mod 65535 = uint pub mod 65535"
    unfolding c1_def by (rule carry_fwd_add [OF s(2,3)], simp only: carry_fwd_add(2) [OF s(2,3)] s(1))
  have 2: "uint c2 \<le> 65535" "uint c2 mod 65535 = (uint c1 + uint pport) mod 65535"
    unfolding c2_def using carry_fwd_add [OF 1(1) u' [of pport]] u [of pport] by simp_all
  have 3: "uint c3 \<le> 65535" "uint c3 mod 65535 = (uint c2 + uint (NOT priv AND 0xFFFF)) mod 65535"
    unfolding c3_def by (rule carry_fwd_add [OF 2(1) s(2)])+
  have 4: "uint c4 \<le> 65535" "uint c4 mod 65535 = (uint c3 + uint (drop_bit 16 (NOT priv))) mod 65535"
    unfolding c4_def by (rule carry_fwd_add [OF 3(1) s(3)])+
  have 5: "uint c5 \<le> 65535" "uint c5 mod 65535 = (uint c4 + uint (NOT vport)) mod 65535"
    unfolding c5_def using carry_fwd_add [OF 4(1) u' [of "NOT vport"]] u [of "NOT vport"] by simp_all
  have "uint c4 mod 65535 = (uint c2 + (uint (NOT priv AND 0xFFFF) + uint (drop_bit 16 (NOT priv)))) mod 65535"
    unfolding 4(2) add.assoc [symmetric] by (rule mod_add_cong [OF 3(2) refl])
  also have "\<dots> = (uint pub + uint pport + uint (NOT priv)) mod 65535"
    by (rule mod_add_cong [OF trans [OF 2(2) mod_add_cong [OF 1(2) refl]] s(1)])
  finally have "uint c5 mod 65535 = (uint pub + uint pport + uint (NOT priv) + uint (NOT vport)) mod 65535"
    unfolding 5(2) by (intro mod_add_cong refl)
  also have "\<dots> = (uint pub + uint pport - uint priv - uint vport + 65535 * 65538) mod 65535"
    by (simp add: uint_NOT algebra_simps)
  also have "\<dots> = (uint pub + uint pport - uint priv - uint vport) mod 65535" by (rule mod_mult_self2)
  finally have "uint c5 mod 65535 = (uint pub + uint pport - uint priv - uint vport) mod 65535" .
  moreover have "uint (ucast c5 :: u16) = uint c5"
    using 5(1) by (simp add: unsigned_ucast_eq take_bit_int_eq_self_iff)
  ultimately show ?thesis
    by (simp add: ipa_nati_calc_tcp_udp_cksum_def Let_def c1_def c2_def c3_def c4_def c5_def)
qed

section \<open>Table sizes\<close>

definition EINVAL :: int where "EINVAL = 22"
definition ENOMEM :: int where "ENOMEM = 12"
definition EIO :: int where "EIO = 5"

text \<open>The loop of \<open>GetNearest2Power\<close>; \<open>None\<close> is a loop that does not end.\<close>

partial_function (option) nearest2_loop :: "u16 \<Rightarrow> u16 \<Rightarrow> u16 \<Rightarrow> u16 option" where
  "nearest2_loop number num tmp =
     (if num = 1 then Some (if number \<noteq> tmp then tmp * 2 else tmp)
      else nearest2_loop number (drop_bit 1 num) (tmp * 2))"

declare nearest2_loop.simps [code]

definition GetNearest2Power :: "u16 \<Rightarrow> (int \<times> u16) option" where
  "GetNearest2Power num =
     (if num = 0 then Some (- EINVAL, 0)
      else if num = 1 then Some (0, 2)
      else map_option (\<lambda>r. (0, r)) (nearest2_loop num num 1))"

partial_function (option) even_loop :: "u16 \<Rightarrow> u16 option" where
  "even_loop num = (if num mod 2 \<noteq> 0 then even_loop (num + 1) else Some num)"

declare even_loop.simps [code]

definition GetNearestEven :: "u16 \<Rightarrow> u16 option" where
  "GetNearestEven num = (if num < 2 then Some 2 else even_loop num)"

lemma nearest2_loop_eq:
  assumes "num \<noteq> 0"
  shows "\<exists>k. 2 ^ k \<le> unat num \<and> unat num < 2 ^ (k + 1)
    \<and> nearest2_loop number num tmp = Some (if number \<noteq> tmp * 2 ^ k then tmp * 2 ^ k * 2 else tmp * 2 ^ k)"
  using assms
proof (induction "unat num" arbitrary: num tmp rule: less_induct)
  case less
  show ?case
  proof (cases "num = 1")
    case True
    then show ?thesis by (intro exI [of _ 0]) (simp add: nearest2_loop.simps)
  next
    case False
    have half: "unat (drop_bit 1 num) = unat num div 2"
      by (simp add: drop_bit_eq_div unat_div)
    have "unat num \<noteq> 1" using False by (simp add: word_unat_eq_iff)
    moreover have "unat num \<noteq> 0" using less.prems by (simp add: unat_eq_0)
    ultimately have n2: "2 \<le> unat num" by simp
    then have "unat (drop_bit 1 num) < unat num" "drop_bit 1 num \<noteq> 0"
      using half by (auto simp flip: unat_eq_0)
    from less.hyps [OF this, of "tmp * 2"] obtain k where
      "2 ^ k \<le> unat num div 2" "unat num div 2 < 2 ^ (k + 1)"
      "nearest2_loop number (drop_bit 1 num) (tmp * 2) =
         Some (if number \<noteq> tmp * 2 * 2 ^ k then tmp * 2 * 2 ^ k * 2 else tmp * 2 * 2 ^ k)"
      unfolding half by blast
    then show ?thesis
      using False by (intro exI [of _ "k + 1"]) (subst nearest2_loop.simps, auto simp: ac_simps)
  qed
qed


lemma GetNearest2Power_small:
  assumes "num \<noteq> 0" "num \<noteq> 1" "unat num \<le> 32768"
  shows "\<exists>k r. GetNearest2Power num = Some (0, r) \<and> unat r = 2 ^ k \<and> 1 \<le> k \<and> k \<le> 15
    \<and> unat num \<le> 2 ^ k \<and> 2 ^ (k - 1) < unat num"
proof -
  obtain k where k: "2 ^ k \<le> unat num" "unat num < 2 ^ (k + 1)"
    "nearest2_loop num num 1 = Some (if num \<noteq> 2 ^ k then 2 ^ k * 2 else 2 ^ k)"
    using nearest2_loop_eq [OF assms(1), of num 1] by auto
  have "unat num \<noteq> 0" "unat num \<noteq> 1" using assms(1,2) by (simp_all add: word_unat_eq_iff)
  then have n2: "2 \<le> unat num" by simp
  have "(2 :: nat) ^ k \<le> 2 ^ 15" using k(1) assms(3) by simp
  then have k15: "k \<le> 15" by (rule power_le_imp_le_exp [rotated]) simp
  have p: "unat (2 ^ j :: u16) = 2 ^ j" if "j \<le> 15" for j
  proof -
    have "(2 :: nat) ^ j < 2 ^ 16" using that by (intro power_strict_increasing) simp_all
    moreover have "(2 ^ j :: u16) = of_nat (2 ^ j)" by simp
    ultimately show ?thesis by (simp only: unat_of_nat) simp
  qed
  show ?thesis
  proof (cases "num = 2 ^ k")
    case True
    then have u: "unat num = 2 ^ k" using p [OF k15] by simp
    then have "1 \<le> k" using n2 by (cases k) auto
    moreover from this have "(2 :: nat) ^ (k - 1) < 2 ^ k" by simp
    ultimately show ?thesis
      using True k(3) assms u k15 p by (intro exI [of _ k]) (simp add: GetNearest2Power_def)
  next
    case False
    have ne: "unat num \<noteq> 2 ^ k" using False p [OF k15] by (simp add: word_unat_eq_iff)
    then have "k \<noteq> 15" using k(1) assms(3) by auto
    then have k14: "k + 1 \<le> 15" using k15 by simp
    have "GetNearest2Power num = Some (0, 2 ^ (k + 1))"
      using False k(3) assms by (simp add: GetNearest2Power_def mult.commute)
    then show ?thesis
      using k ne k14 p [OF k14] by (intro exI [of _ "k + 1"] exI [of _ "2 ^ (k + 1)"]) simp
  qed
qed

lemma GetNearest2Power_large:
  assumes "32768 < unat num"
  shows "GetNearest2Power num = Some (0, 0)"
proof -
  have nz: "num \<noteq> 0" "num \<noteq> 1" using assms by auto
  obtain k where k: "2 ^ k \<le> unat num" "unat num < 2 ^ (k + 1)"
    "nearest2_loop num num 1 = Some (if num \<noteq> 2 ^ k then 2 ^ k * 2 else 2 ^ k)"
    using nearest2_loop_eq [OF nz(1), of num 1] by auto
  have "(2 :: nat) ^ k < 2 ^ 16" using k(1) unsigned_less [of num, where 'a = nat] by simp
  then have "k < 16" by (rule power_less_imp_less_exp [rotated]) simp
  moreover have "(2 :: nat) ^ 15 < 2 ^ (k + 1)" using k(2) assms by simp
  then have "15 < k + 1" by (rule power_less_imp_less_exp [rotated]) simp
  ultimately have "k = 15" by simp
  moreover have "num \<noteq> 32768" using assms by auto
  ultimately show ?thesis using k(3) nz by (simp add: GetNearest2Power_def)
qed

lemma GetNearestEven_small:
  assumes "unat num < 65535"
  shows "\<exists>r. GetNearestEven num = Some r \<and> even (unat r) \<and> 2 \<le> unat r
    \<and> unat r = (if unat num < 2 then 2 else if even (unat num) then unat num else unat num + 1)"
proof (cases "num < 2")
  case True
  then show ?thesis by (simp add: GetNearestEven_def word_less_nat_alt)
next
  case False
  have par: "n mod 2 \<noteq> 0 \<longleftrightarrow> odd (unat n)" for n :: u16
    by (simp add: word_unat_eq_iff unat_mod odd_iff_mod_2_eq_one)
  have n1: "unat (num + 1) = unat num + 1" using assms by (subst unat_add_lem [THEN iffD1]) simp_all
  have n2: "2 \<le> unat num" using False by (simp add: word_less_nat_alt)
  show ?thesis
  proof (cases "even (unat num)")
    case True
    then have "even_loop num = Some num" using par [of num] by (subst even_loop.simps) auto
    then show ?thesis using True False n2 by (simp add: GetNearestEven_def)
  next
    case odd: False
    have "even_loop (num + 1) = Some (num + 1)" using odd par [of "num + 1"] n1 by (subst even_loop.simps) auto
    then have "even_loop num = Some (num + 1)" using odd par [of num] by (subst even_loop.simps) auto
    then show ?thesis using odd False n1 n2 by (simp add: GetNearestEven_def)
  qed
qed

end
