(* ===== verification/Nat_Chains.thy ===== *)
theory Nat_Chains
  imports Ipacm_Prelude
begin

text \<open>
  Chains of table entries, the structure that the NAT table and its index table share: a
  base entry, found by a hash, is the head of a chain that continues in the expansion
  table; each entry holds the number of the next one, 0 at the end, and the software keeps
  the number of the previous one. The interface \<open>chained_table\<close> has the changes that
  insertion and deletion make of such a structure.
\<close>

fun linked :: "(u16 \<Rightarrow> u16) \<Rightarrow> (u16 \<Rightarrow> u16) \<Rightarrow> u16 list \<Rightarrow> bool" where
  "linked nx pv [] = True"
| "linked nx pv [a] = (nx a = 0)"
| "linked nx pv (a # b # r) = (nx a = b \<and> pv b = a \<and> linked nx pv (b # r))"

lemma linked_cong:
  "\<lbrakk>\<forall>a \<in> set xs. nx' a = nx a; \<forall>a \<in> set (tl xs). pv' a = pv a\<rbrakk>
    \<Longrightarrow> linked nx' pv' xs = linked nx pv xs"
  by (induction nx pv xs rule: linked.induct) auto

lemma linked_Cons:
  "linked nx pv (a # r) \<longleftrightarrow>
     (if r = [] then nx a = 0 else nx a = hd r \<and> pv (hd r) = a \<and> linked nx pv r)"
  by (cases r) auto

lemma linked_last: "linked nx pv xs \<Longrightarrow> xs \<noteq> [] \<Longrightarrow> nx (last xs) = 0"
  by (induction nx pv xs rule: linked.induct) auto

lemma linked_prev:
  "\<lbrakk>linked nx pv xs; distinct xs; e \<in> set (tl xs)\<rbrakk> \<Longrightarrow> pv e \<in> set xs \<and> nx (pv e) = e \<and> pv e \<noteq> e"
  by (induction nx pv xs rule: linked.induct) auto

lemma linked_next:
  "\<lbrakk>linked nx pv xs; a \<in> set xs; nx a \<noteq> 0\<rbrakk> \<Longrightarrow> nx a \<in> set (tl xs) \<and> pv (nx a) = a"
  by (induction nx pv xs rule: linked.induct) auto

lemma linked_append:
  "ys \<noteq> [] \<Longrightarrow> zs \<noteq> [] \<Longrightarrow> linked nx pv (ys @ zs) \<longleftrightarrow>
     linked (nx(last ys := 0)) pv ys \<and> nx (last ys) = hd zs \<and> pv (hd zs) = last ys \<and> linked nx pv zs"
  if "distinct ys"
  using that
proof (induction ys)
  case Nil
  then show ?case by simp
next
  case (Cons y ys)
  show ?case
  proof (cases "ys = []")
    case True
    then show ?thesis using Cons.prems by (simp add: linked_Cons)
  next
    case False
    have "last ys \<noteq> y" using Cons.prems False last_in_set by force
    then show ?thesis using Cons False by (simp add: linked_Cons [of _ _ y])
  qed
qed

text \<open>The walk to the last entry of a chain; \<open>Some None\<close> is the error return.\<close>

partial_function (option) last_walk :: "(u16 \<Rightarrow> u16 option) \<Rightarrow> u16 \<Rightarrow> u16 \<Rightarrow> u16 option option" where
  "last_walk next_of prev nxt_indx =
     (if nxt_indx = 0 then Some (Some prev)
      else case next_of nxt_indx of
             None \<Rightarrow> None
           | Some nxt \<Rightarrow> if nxt_indx = nxt then Some None else last_walk next_of nxt_indx nxt)"

declare last_walk.simps [code]

lemma last_walk_linked:
  "\<lbrakk>linked nx pv (x # xs); distinct (x # xs); 0 \<notin> set (x # xs); \<forall>y \<in> set (x # xs). rd y = Some (nx y)\<rbrakk>
    \<Longrightarrow> last_walk rd p x = Some (Some (last (x # xs)))"
proof (induction xs arbitrary: x p)
  case Nil
  then show ?case by (subst last_walk.simps, subst last_walk.simps) auto
next
  case (Cons y ys)
  have "nx x = y" "x \<noteq> y" "x \<noteq> 0" "rd x = Some (nx x)" using Cons.prems by auto
  then have "last_walk rd p x = last_walk rd x y" by (subst last_walk.simps) simp
  also have "\<dots> = Some (Some (last (y # ys)))" using Cons.prems by (intro Cons.IH) auto
  finally show ?case by simp
qed

definition chains :: "u16 set \<Rightarrow> u16 set \<Rightarrow> (u16 \<Rightarrow> u16) \<Rightarrow> (u16 \<Rightarrow> u16) \<Rightarrow> (u16 \<Rightarrow> bool)
    \<Rightarrow> (u16 \<Rightarrow> u16 list) \<Rightarrow> bool" where
  "chains B E nx pv used ch \<longleftrightarrow>
     (\<forall>b. b \<notin> B \<longrightarrow> ch b = [])
     \<and> (\<forall>b \<in> B. ch b \<noteq> [] \<longrightarrow> hd (ch b) = b \<and> set (tl (ch b)) \<subseteq> E)
     \<and> (\<forall>b. distinct (ch b) \<and> linked nx pv (ch b))
     \<and> (\<forall>b b'. b \<noteq> b' \<longrightarrow> set (ch b) \<inter> set (ch b') = {})
     \<and> (\<forall>e. used e \<longleftrightarrow> (\<exists>b. e \<in> set (ch b)))"

text \<open>Where the next entry of the chain of \<open>b\<close> may go, and the entry before it.\<close>

definition free_place :: "u16 set \<Rightarrow> (u16 \<Rightarrow> bool) \<Rightarrow> (u16 \<Rightarrow> u16 list) \<Rightarrow> u16 \<Rightarrow> u16 \<Rightarrow> bool" where
  "free_place E used ch b e \<longleftrightarrow> (if ch b = [] then e = b else e \<in> E \<and> \<not> used e)"

definition chain_last :: "(u16 \<Rightarrow> u16 list) \<Rightarrow> u16 \<Rightarrow> u16" where
  "chain_last ch b = (if ch b = [] then 0 else last (ch b))"

locale chained_table =
  fixes B E :: "u16 set"
  assumes disjoint: "B \<inter> E = {}" and no_zero: "0 \<notin> B" "0 \<notin> E"
begin

lemma chainsD:
  assumes "chains B E nx pv used ch"
  shows "distinct (ch b)" "linked nx pv (ch b)" "set (ch b) \<subseteq> B \<union> E" "0 \<notin> set (ch b)"
    "ch b \<noteq> [] \<Longrightarrow> b \<in> B \<and> hd (ch b) = b \<and> set (tl (ch b)) \<subseteq> E"
    "b \<noteq> b' \<Longrightarrow> set (ch b) \<inter> set (ch b') = {}" "used e \<longleftrightarrow> (\<exists>b. e \<in> set (ch b))"
proof -
  show c: "ch b \<noteq> [] \<Longrightarrow> b \<in> B \<and> hd (ch b) = b \<and> set (tl (ch b)) \<subseteq> E" for b
    using assms unfolding chains_def by blast
  show "set (ch b) \<subseteq> B \<union> E" using c [of b] by (cases "ch b") auto
  then show "0 \<notin> set (ch b)" using no_zero by blast
qed (use assms in \<open>simp_all add: chains_def\<close>)

lemma in_base: "chains B E nx pv used ch \<Longrightarrow> e \<in> set (ch b) \<Longrightarrow> e \<in> B \<Longrightarrow> e = b"
  using chainsD(5) [of nx pv used ch b] disjoint by (cases "ch b") auto

lemma chain_prev:
  assumes c: "chains B E nx pv used ch" and e: "e \<in> E" "used e"
  shows "\<exists>b. e \<in> set (tl (ch b))" "pv e \<in> B \<union> E" "used (pv e)" "nx (pv e) = e" "pv e \<noteq> e"
proof -
  obtain b where b: "e \<in> set (ch b)" using e chainsD(7) [OF c] by blast
  have "ch b \<noteq> []" using b by auto
  note h = chainsD(5) [OF c this]
  have t: "e \<in> set (tl (ch b))" using b h e(1) disjoint by (cases "ch b") auto
  note l = linked_prev [OF chainsD(2,1) [OF c] t]
  show "\<exists>b. e \<in> set (tl (ch b))" using t by blast
  show "pv e \<in> B \<union> E" "used (pv e)" "nx (pv e) = e" "pv e \<noteq> e"
    using l chainsD(3,7) [OF c] by blast+
qed

lemma chain_next:
  assumes c: "chains B E nx pv used ch" and a: "used a" "nx a \<noteq> 0"
  shows "nx a \<in> E" "used (nx a)" "pv (nx a) = a" "nx a \<noteq> a"
    "a \<in> set (ch b) \<Longrightarrow> nx a \<in> set (tl (ch b))"
proof -
  obtain b' where b: "a \<in> set (ch b')" using a chainsD(7) [OF c] by blast
  have ne: "ch b' \<noteq> []" using b by auto
  note h = chainsD(5) [OF c ne]
  have l: "nx a \<in> set (tl (ch b'))" "pv (nx a) = a"
    using linked_next [of nx pv, OF chainsD(2) [OF c] b a(2)] by blast+
  show "nx a \<in> E" using l(1) h by blast
  have m: "nx a \<in> set (ch b')" using l(1) list.set_sel(2) [OF ne] by blast
  then show "used (nx a)" using chainsD(7) [OF c] by blast
  show "pv (nx a) = a" by (rule l(2))
  show "nx a \<noteq> a" using linked_prev [OF chainsD(2,1) [OF c] l(1)] l(2) by metis
  show "nx a \<in> set (tl (ch b))" if "a \<in> set (ch b)"
    using linked_next [of nx pv, OF chainsD(2) [OF c] that a(2)] by blast
qed

text \<open>A base entry is used exactly as the head of its own chain.\<close>

lemma used_base: "chains B E nx pv used ch \<Longrightarrow> b \<in> B \<Longrightarrow> used b \<longleftrightarrow> ch b \<noteq> []"
  using chainsD(5) [of nx pv used ch b] chainsD(7) [of nx pv used ch b] in_base [of nx pv used ch b]
  by (metis empty_iff hd_in_set list.set(1))

lemma chain_single:
  assumes c: "chains B E nx pv used ch" and b: "b \<in> B" "used b" "nx b = 0"
  shows "ch b = [b]"
proof -
  have ne: "ch b \<noteq> []" using used_base [OF c b(1)] b(2) by simp
  note h = chainsD(5) [OF c ne]
  obtain r where r: "ch b = b # r" using h ne by (cases "ch b") auto
  have "0 \<notin> set (b # r)" using chainsD(4) [OF c, of b] r by simp
  moreover have "linked nx pv (b # r)" using chainsD(2) [OF c, of b] r by simp
  ultimately show ?thesis using b(3) r by (cases r) auto
qed

lemma chains_change:
  assumes c: "chains B E nx pv used ch" and b: "b \<in> B"
    and new: "xs \<noteq> [] \<longrightarrow> hd xs = b \<and> set (tl xs) \<subseteq> E" "distinct xs" "linked nx' pv' xs"
    and other: "\<And>b'. b' \<noteq> b \<Longrightarrow> set xs \<inter> set (ch b') = {}"
    and nx': "\<And>a b'. b' \<noteq> b \<Longrightarrow> a \<in> set (ch b') \<Longrightarrow> nx' a = nx a"
    and pv': "\<And>a b'. b' \<noteq> b \<Longrightarrow> a \<in> set (tl (ch b')) \<Longrightarrow> pv' a = pv a"
    and used': "\<And>e. used' e \<longleftrightarrow> e \<in> set xs \<or> (\<exists>b'. b' \<noteq> b \<and> e \<in> set (ch b'))"
  shows "chains B E nx' pv' used' (ch(b := xs))"
proof -
  have l: "linked nx' pv' (ch b')" if "b' \<noteq> b" for b'
    using linked_cong [of "ch b'" nx' nx pv' pv] nx' pv' that chainsD(2) [OF c, of b'] by blast
  show ?thesis
    unfolding chains_def
  proof (intro conjI allI impI ballI)
    fix b1 b2 :: u16 assume "b1 \<noteq> b2"
    then show "set ((ch(b := xs)) b1) \<inter> set ((ch(b := xs)) b2) = {}"
      using other [of b1] other [of b2] chainsD(6) [OF c, of b1 b2] by (auto split: if_splits)
  next
    fix e show "used' e \<longleftrightarrow> (\<exists>b'. e \<in> set ((ch(b := xs)) b'))" unfolding used' by auto
  next
    fix b1 assume "b1 \<in> B" and ne: "(ch(b := xs)) b1 \<noteq> []"
    show "hd ((ch(b := xs)) b1) = b1" "set (tl ((ch(b := xs)) b1)) \<subseteq> E"
      using ne new(1) chainsD(5) [OF c, of b1] by (cases "b1 = b"; simp)+
  next
    fix b1
    show "distinct ((ch(b := xs)) b1)" "linked nx' pv' ((ch(b := xs)) b1)"
      using l [of b1] new(2,3) chainsD(1) [OF c, of b1] by (cases "b1 = b"; simp)+
    show "(ch(b := xs)) b1 = []" if "b1 \<notin> B"
      using that b chainsD(5) [OF c, of b1] by (cases "b1 = b") auto
  qed
qed

lemma chains_new:
  assumes "chains B E nx pv used ch" "b \<in> B" "ch b = []"
    and "nx' b = 0" "\<And>a. a \<noteq> b \<Longrightarrow> nx' a = nx a" "\<And>a. a \<noteq> b \<Longrightarrow> pv' a = pv a"
    and "\<And>e. used' e \<longleftrightarrow> used e \<or> e = b"
  shows "chains B E nx' pv' used' (ch(b := [b]))"
proof (rule chains_change [OF assms(1,2)])
  have no: "b \<notin> set (ch b')" for b' using in_base [OF assms(1) _ assms(2), of b'] assms(3) by auto
  show "set [b] \<inter> set (ch b') = {}" if "b' \<noteq> b" for b' using no by simp
  show "nx' a = nx a" if "b' \<noteq> b" "a \<in> set (ch b')" for a b' using that no assms(5) by metis
  show "pv' a = pv a" if "b' \<noteq> b" "a \<in> set (tl (ch b'))" for a b'
    using that no assms(6) list.set_sel(2) [of "ch b'" a] by (metis list.sel(2))
  show "used' e \<longleftrightarrow> e \<in> set [b] \<or> (\<exists>b'. b' \<noteq> b \<and> e \<in> set (ch b'))" for e
  proof -
    have "used e \<longleftrightarrow> (\<exists>b'. b' \<noteq> b \<and> e \<in> set (ch b'))"
      unfolding chainsD(7) [OF assms(1), of e] using assms(3) by (metis empty_iff list.set(1))
    then show ?thesis using assms(7) [of e] by auto
  qed
qed (use assms in simp_all)

lemma chains_append:
  assumes c: "chains B E nx pv used ch" and b: "b \<in> B" "ch b \<noteq> []" and e: "e \<in> E" "\<not> used e"
    and nx': "nx' (last (ch b)) = e" "nx' e = 0" "\<And>a. a \<noteq> last (ch b) \<Longrightarrow> a \<noteq> e \<Longrightarrow> nx' a = nx a"
    and pv': "pv' e = last (ch b)" "\<And>a. a \<noteq> e \<Longrightarrow> pv' a = pv a"
    and used': "\<And>a. used' a \<longleftrightarrow> used a \<or> a = e"
  shows "chains B E nx' pv' used' (ch(b := ch b @ [e]))"
proof (rule chains_change [OF c b(1)])
  have no: "e \<notin> set (ch b')" for b' using e(2) chainsD(7) [OF c] by blast
  have lb: "last (ch b) \<in> set (ch b)" using b(2) by simp
  note h = chainsD(5) [OF c b(2)]
  show "ch b @ [e] \<noteq> [] \<longrightarrow> hd (ch b @ [e]) = b \<and> set (tl (ch b @ [e])) \<subseteq> E" using h b(2) e(1) by simp
  show "distinct (ch b @ [e])" using chainsD(1) [OF c, of b] no by simp
  have "linked (nx'(last (ch b) := 0)) pv' (ch b) = linked nx pv (ch b)"
  proof (rule linked_cong)
    have "nx (last (ch b)) = 0" using linked_last [OF chainsD(2) [OF c, of b] b(2)] .
    then show "\<forall>a \<in> set (ch b). (nx'(last (ch b) := 0)) a = nx a" using nx'(3) no by auto
    show "\<forall>a \<in> set (tl (ch b)). pv' a = pv a" using pv'(2) no list.set_sel(2) [OF b(2)] by metis
  qed
  then show "linked nx' pv' (ch b @ [e])"
    using chainsD(1,2) [OF c, of b] b(2) nx' pv'(1) by (subst linked_append) simp_all
  show "set (ch b @ [e]) \<inter> set (ch b') = {}" if "b' \<noteq> b" for b'
    using no [of b'] chainsD(6) [OF c that] by auto
  show "nx' a = nx a" if "b' \<noteq> b" "a \<in> set (ch b')" for a b'
    using that no lb chainsD(6) [OF c that(1)] nx'(3) by (metis disjoint_iff)
  show "pv' a = pv a" if "b' \<noteq> b" "a \<in> set (tl (ch b'))" for a b'
    using that no pv'(2) list.set_sel(2) [of "ch b'" a] by (metis list.sel(2))
  show "used' a \<longleftrightarrow> a \<in> set (ch b @ [e]) \<or> (\<exists>b'. b' \<noteq> b \<and> a \<in> set (ch b'))" for a
    using used' [of a] chainsD(7) [OF c, of a] by auto
qed

text \<open>The last rule of a chain goes away with its base entry.\<close>

lemma chains_only:
  assumes c: "chains B E nx pv used ch" and b: "ch b = [b]"
    and nx': "\<And>a. a \<noteq> b \<Longrightarrow> nx' a = nx a" and pv': "\<And>a. a \<noteq> b \<Longrightarrow> pv' a = pv a"
    and used': "\<And>a. used' a \<longleftrightarrow> used a \<and> a \<noteq> b"
  shows "chains B E nx' pv' used' (ch(b := []))"
proof (rule chains_change [OF c])
  show bB: "b \<in> B" using chainsD(5) [OF c, of b] b by simp
  have no: "b \<notin> set (ch b')" if "b' \<noteq> b" for b' using chainsD(6) [OF c that] b by auto
  show "nx' a = nx a" if "b' \<noteq> b" "a \<in> set (ch b')" for a b' using that no nx' by metis
  show "pv' a = pv a" if "b' \<noteq> b" "a \<in> set (tl (ch b'))" for a b'
    using that no pv' list.set_sel(2) [of "ch b'" a] by (metis list.sel(2))
  show "used' e \<longleftrightarrow> e \<in> set [] \<or> (\<exists>b'. b' \<noteq> b \<and> e \<in> set (ch b'))" for e
  proof -
    have "e \<in> set (ch b') \<and> e \<noteq> b \<longleftrightarrow> e \<in> set (ch b') \<and> b' \<noteq> b" for b' using b no [of b'] by auto
    then show ?thesis unfolding used' chainsD(7) [OF c, of e] by auto
  qed
qed simp_all

text \<open>An expansion entry is taken out of its chain: the previous entry gets its next one.\<close>

lemma chains_remove:
  assumes c: "chains B E nx pv used ch" and e: "e \<in> set (tl (ch b))"
    and nx': "nx' (pv e) = nx e" "\<And>a. a \<noteq> pv e \<Longrightarrow> a \<noteq> e \<Longrightarrow> nx' a = nx a"
    and pv': "nx e \<noteq> 0 \<Longrightarrow> pv' (nx e) = pv e" "\<And>a. a \<noteq> nx e \<Longrightarrow> a \<noteq> e \<Longrightarrow> pv' a = pv a"
    and used': "\<And>a. used' a \<longleftrightarrow> used a \<and> a \<noteq> e"
  shows "chains B E nx' pv' used' (ch(b := remove1 e (ch b)))"
proof -
  have ne: "ch b \<noteq> []" using e by auto
  note h = chainsD(5) [OF c ne]
  have "e \<in> set (ch b)" using e by (cases "ch b") auto
  then obtain ys zs where ch: "ch b = ys @ e # zs" "e \<notin> set ys" by (meson split_list_first)
  have d: "distinct (ys @ e # zs)" using chainsD(1) [OF c, of b] ch by simp
  have ys: "ys \<noteq> []"
  proof
    assume "ys = []"
    then have "ch b = e # zs" using ch(1) by simp
    then show False using e d ch by simp
  qed
  have r: "remove1 e (ch b) = ys @ zs" using ch by (simp add: remove1_append)
  have l: "linked (nx(last ys := 0)) pv ys" "nx (last ys) = e" "pv e = last ys" "linked nx pv (e # zs)"
    using chainsD(2) [OF c, of b] d ys unfolding ch(1) by (subst (asm) linked_append, simp_all)+
  have zs: "zs = [] \<longrightarrow> nx e = 0" "zs \<noteq> [] \<longrightarrow> nx e = hd zs \<and> linked nx pv zs"
    using l(4) by (auto simp: linked_Cons)
  have nz: "0 \<notin> set (ch b)" using chainsD(4) [OF c] .
  have nxt: "nx e \<notin> set ys" "nx e \<noteq> e" "nx e \<notin> set (tl zs)"
    using zs d nz ch by (cases zs; auto)+
  have lys: "last ys \<in> set ys" using ys by simp
  have l1: "linked (nx'(last ys := 0)) pv' ys"
  proof (subst linked_cong [of ys _ "nx(last ys := 0)" _ pv])
    show "\<forall>a \<in> set ys. (nx'(last ys := 0)) a = (nx(last ys := 0)) a" using nx'(2) ch(2) l(3) by auto
    show "\<forall>a \<in> set (tl ys). pv' a = pv a" using pv'(2) nxt(1) ch(2) list.set_sel(2) [OF ys] by metis
  qed (fact l(1))
  have l2: "linked nx' pv' zs" if z: "zs \<noteq> []"
  proof (subst linked_cong [of zs _ nx _ pv])
    have "a \<noteq> pv e" "a \<noteq> e" if "a \<in> set zs" for a using l(3) lys d that by auto
    then show "\<forall>a \<in> set zs. nx' a = nx a" using nx'(2) by blast
    show "\<forall>a \<in> set (tl zs). pv' a = pv a" using pv'(2) nxt(3) d list.set_sel(2) [OF z] by (metis distinct.simps(2) distinct_append)
  qed (use zs z in blast)
  have lnk: "linked nx' pv' (ys @ zs)"
  proof (cases "zs = []")
    case True
    have "nx'(last ys := 0) = nx'" using True zs(1) nx'(1) l(3) by auto
    then show ?thesis using l1 True by simp
  next
    case False
    have "pv' (hd zs) = last ys" using zs(2) False pv'(1) l(3) nz ch by (metis Un_iff hd_in_set list.set_intros(2) set_append)
    then show ?thesis
      using linked_append [OF _ ys False, of nx' pv'] d l1 l2 [OF False] nx'(1) l(3) zs(2) False by simp
  qed
  have disj: "set (ch b) \<inter> set (ch b') = {}" if "b' \<noteq> b" for b' using chainsD(6) [OF c] that by metis
  have bB: "b \<in> B" using h by simp
  show ?thesis
    unfolding r
  proof (rule chains_change [OF c bB])
    show "ys @ zs \<noteq> [] \<longrightarrow> hd (ys @ zs) = b \<and> set (tl (ys @ zs)) \<subseteq> E"
      using h ch(1) ys by (cases ys) auto
    show "distinct (ys @ zs)" using d by simp
    show "set (ys @ zs) \<inter> set (ch b') = {}" if "b' \<noteq> b" for b' using disj [OF that] ch(1) by auto
    show "nx' a = nx a" if "b' \<noteq> b" "a \<in> set (ch b')" for a b'
    proof -
      have "a \<notin> set (ch b)" using disj [OF that(1)] that(2) by auto
      then show ?thesis using nx'(2) l(3) lys ch(1) by (metis Un_iff list.set_intros(1) set_append)
    qed
    show "pv' a = pv a" if "b' \<noteq> b" "a \<in> set (tl (ch b'))" for a b'
    proof -
      have "a \<in> set (ch b')" using that(2) by (cases "ch b'") auto
      then have "a \<notin> set (ch b)" "a \<noteq> 0" using disj [OF that(1)] chainsD(4) [OF c, of b'] by auto
      then have "a \<noteq> nx e" "a \<noteq> e" using zs ch(1) by (metis Un_iff hd_in_set list.set_intros set_append)+
      then show ?thesis using pv'(2) by simp
    qed
    show "used' a \<longleftrightarrow> a \<in> set (ys @ zs) \<or> (\<exists>b'. b' \<noteq> b \<and> a \<in> set (ch b'))" for a
    proof -
      have "a \<in> set (ch b) \<and> a \<noteq> e \<longleftrightarrow> a \<in> set (ys @ zs)" using d ch(1) by auto
      moreover have "e \<notin> set (ch b')" if "b' \<noteq> b" for b' using disj [OF that] ch(1) by auto
      ultimately show ?thesis unfolding used' chainsD(7) [OF c, of a] by metis
    qed
  qed (fact lnk)
qed

text \<open>The end of a chain, found by the walk, and an entry added there.\<close>

lemma chain_end:
  assumes c: "chains B E nx pv used ch" and b: "ch b \<noteq> []"
    and rd: "\<And>a. a \<in> E \<Longrightarrow> rdf a = Some (nx a)"
  shows "(if nx b = 0 then Some (Some b) else last_walk rdf 0 (nx b)) = Some (Some (last (ch b)))"
proof -
  note h = chainsD(5) [OF c b]
  obtain r where r: "ch b = b # r" using h b by (cases "ch b") auto
  have l: "linked nx pv (b # r)" "distinct (b # r)" "0 \<notin> set (b # r)"
    using chainsD(1,2,4) [OF c, of b] r by simp_all
  show ?thesis
  proof (cases r)
    case Nil
    then show ?thesis using l(1) r by simp
  next
    case (Cons x xs)
    have "last_walk rdf 0 x = Some (Some (last (x # xs)))"
      using l h r rd by (intro last_walk_linked [of nx pv]) (auto simp: Cons)
    then show ?thesis using l r Cons by auto
  qed
qed

lemma free_place:
  assumes "chains B E nx pv used ch" "b \<in> B" "free_place E used ch b e"
  shows "e \<in> B \<union> E" "\<not> used e" "e \<noteq> 0" "e \<noteq> chain_last ch b" "e \<notin> set (ch b')"
proof -
  show u: "\<not> used e" using assms used_base [OF assms(1,2)] by (auto simp: free_place_def split: if_splits)
  then show "e \<notin> set (ch b')" for b' using chainsD(7) [OF assms(1)] by blast
  then have l: "e \<noteq> last (ch b)" if "ch b \<noteq> []" using that last_in_set by metis
  show "e \<in> B \<union> E" using assms by (auto simp: free_place_def split: if_splits)
  then show "e \<noteq> 0" using no_zero by auto
  then show "e \<noteq> chain_last ch b" using l by (simp add: chain_last_def)
qed

lemma chain_last:
  assumes "chains B E nx pv used ch" "chain_last ch b \<noteq> 0"
  shows "chain_last ch b \<in> B \<union> E" "used (chain_last ch b)" "chain_last ch b \<in> set (ch b)"
proof -
  have "ch b \<noteq> []" using assms(2) by (auto simp: chain_last_def)
  then show "chain_last ch b \<in> set (ch b)" by (simp add: chain_last_def)
  then show "chain_last ch b \<in> B \<union> E" "used (chain_last ch b)"
    using chainsD(3,7) [OF assms(1)] by blast+
qed

text \<open>Both ways of adding an entry at the end of a chain.\<close>

lemma chains_add:
  assumes c: "chains B E nx pv used ch" "b \<in> B" "free_place E used ch b e"
    and "nx' e = 0" "\<And>a. a \<noteq> e \<Longrightarrow> a \<noteq> chain_last ch b \<Longrightarrow> nx' a = nx a"
    and "chain_last ch b \<noteq> 0 \<Longrightarrow> nx' (chain_last ch b) = e" "nx' 0 = nx 0"
    and "chain_last ch b \<noteq> 0 \<Longrightarrow> pv' e = chain_last ch b" "\<And>a. a \<noteq> e \<Longrightarrow> pv' a = pv a"
    and "\<And>a. used' a \<longleftrightarrow> used a \<or> a = e"
  shows "chains B E nx' pv' used' (ch(b := ch b @ [e]))"
proof (cases "ch b = []")
  case True
  have e: "e = b" using c(3) True by (simp add: free_place_def)
  have "nx' a = nx a" if "a \<noteq> b" for a
    using assms(5) [of a] assms(7) True that e by (cases "a = 0") (simp_all add: chain_last_def)
  then show ?thesis
    using chains_new [OF c(1,2) True, of nx' pv' used'] assms(4,9,10) e True by simp
next
  case False
  have z: "chain_last ch b \<noteq> 0" using chainsD(4) [OF c(1), of b] False by (metis chain_last_def last_in_set)
  have l: "chain_last ch b = last (ch b)" using False by (simp add: chain_last_def)
  show ?thesis
    using assms(4-6,8-10) z False c(3) unfolding l
    by (intro chains_append [OF c(1,2)]) (simp_all add: free_place_def)
qed

end

end
