(* ===== verification/Nat_Driver.thy ===== *)
theory Nat_Driver
  imports Nat_Fields Nat_Chains Ipacm_NatApp
begin

text \<open>
  The user space NAT driver (\<^verbatim>\<open>ipanat/src/ipa_nat_drv.c\<close>, \<^verbatim>\<open>ipa_nat_drvi.c\<close>): the NAT table
  and its index table in memory shared with the hardware, each a hash table whose chains
  continue in an expansion area, with the handles given to clients. The device (its memory
  and its \<open>ioctl\<close>s) is the argument \<open>dev\<close> of every operation. Entries are numbered through
  the base table and the expansion table behind it. \<open>None\<close> is an access outside an array or
  a loop that does not end. A null array is the empty list.
\<close>

section \<open>Tables and device\<close>

datatype nat_table_type = IPA_NAT_BASE_TBL | IPA_NAT_EXPN_TBL | IPA_NAT_INDX_TBL | IPA_NAT_INDEX_EXPN_TBL

datatype del_type =
  IPA_NAT_DEL_TYPE_ONLY_ONE | IPA_NAT_DEL_TYPE_HEAD | IPA_NAT_DEL_TYPE_MIDDLE | IPA_NAT_DEL_TYPE_LAST

text \<open>The command of the kernel interface: write a 16-bit value at an offset into a table.\<close>

record nat_dma_one =
  table_index :: u8
  base_addr :: nat_table_type
  dma_data :: u16
  dma_offset :: u32

record ip4_table =
  tbl_valid :: bool
  public_addr :: u32
  tbl_size :: u32
  tbl_addr_offset :: u32
  table_entries :: u16
  expn_table_entries :: u16
  ipv4_rules :: "ipa_nat_rule list"
  ipv4_expn_rules :: "ipa_nat_rule list"
  index_table :: "u32 list"
  index_table_expn :: "u32 list"
  index_expn_table_meta :: "u16 list"
  rule_id_array :: "u16 list"

record nat_cache =
  ip4_tbl :: "ip4_table list"
  ipa_fd :: bool
  table_cnt :: u8

record ipa_ioc_v4_nat_init =
  init_tbl_index :: u8
  ipv4_rules_offset :: u32
  expn_rules_offset :: u32
  index_offset :: u32
  index_expn_offset :: u32
  init_table_entries :: u16
  init_expn_table_entries :: u16
  init_ip_addr :: u32

text \<open>
  What the operations ask of the system: the device file, memory for the table (the offset
  is the kernel's), its mapping with whatever it holds, heap memory, and the commands.
\<close>

record nat_dev =
  dev_open :: bool
  dev_alloc :: "u32 \<Rightarrow> u32 option"
  dev_nat_open :: bool
  dev_mmap :: "(ipa_nat_rule list \<times> ipa_nat_rule list \<times> u32 list \<times> u32 list) option"
  meta_malloc :: bool
  ids_malloc :: bool
  cmd_malloc :: bool
  dev_dma :: "nat_dma_one list \<Rightarrow> ip4_table \<Rightarrow> bool \<times> ip4_table"
  dev_init :: "ipa_ioc_v4_nat_init \<Rightarrow> bool"
  dev_close :: bool
  dev_del :: bool

definition IPA_NAT_INVALID_NAT_ENTRY :: u16 where "IPA_NAT_INVALID_NAT_ENTRY = 0"
definition IPA_NAT_MAX_IP4_TBLS :: u32 where "IPA_NAT_MAX_IP4_TBLS = 1"

definition rd :: "'a list \<Rightarrow> u16 \<Rightarrow> 'a option" where
  "rd xs i = (if unat i < length xs then Some (xs ! unat i) else None)"

definition wr :: "'a list \<Rightarrow> u16 \<Rightarrow> 'a \<Rightarrow> 'a list option" where
  "wr xs i x = (if unat i < length xs then Some (xs[unat i := x]) else None)"

text \<open>A search from \<open>cnt\<close> on for the first entry with the property.\<close>

function scan_from :: "('a \<Rightarrow> bool) \<Rightarrow> 'a list \<Rightarrow> nat \<Rightarrow> nat \<Rightarrow> nat option option" where
  "scan_from P xs n cnt =
     (if cnt < n then
        (if cnt < length xs then (if P (xs ! cnt) then Some (Some cnt) else scan_from P xs n (cnt + 1))
         else None)
      else Some None)"
  by pat_completeness auto
termination by (relation "measure (\<lambda>(_, _, n, cnt). n - cnt)") auto

declare scan_from.simps [simp del]

section \<open>Adding a rule\<close>

record indx_tbl_sw_rule =
  i_tbl_entry :: u16
  i_next_index :: u16
  i_prev_index :: u16

definition rule_enabled :: "ipa_nat_rule \<Rightarrow> bool" where
  "rule_enabled r \<longleftrightarrow> Read16BitFieldValue (ip_cksm_enbl r) ENABLE_FIELD \<noteq> 0"

definition index_used :: "u32 \<Rightarrow> bool" where
  "index_used w \<longleftrightarrow> Read16BitFieldValue w INDX_TBL_TBL_ENTRY_FIELD \<noteq> 0"

definition ipa_nati_expn_tbl_free_entry :: "ipa_nat_rule list \<Rightarrow> u16 \<Rightarrow> u16 option" where
  "ipa_nati_expn_tbl_free_entry expn_tbl tsize =
     map_option (\<lambda>r. case r of Some cnt \<Rightarrow> of_nat cnt | None \<Rightarrow> 0)
       (scan_from (\<lambda>r. \<not> rule_enabled r) expn_tbl (unat tsize) 1)"

definition ipa_nati_index_expn_get_free_entry :: "u32 list \<Rightarrow> u16 \<Rightarrow> u16 option" where
  "ipa_nati_index_expn_get_free_entry indx_tbl tsize =
     map_option (\<lambda>r. case r of Some cnt \<Rightarrow> of_nat cnt | None \<Rightarrow> 0)
       (scan_from (\<lambda>w. \<not> index_used w) indx_tbl (unat tsize) 1)"

text \<open>The fields of the rule that do not depend on where it goes.\<close>

definition sw_rule_of :: "u32 \<Rightarrow> ipa_nat_ipv4_rule \<Rightarrow> ipa_nat_sw_rule" where
  "sw_rule_of pub_ip c = zero_sw_rule
     \<lparr>s_private_ip := r_private_ip c, s_private_port := r_private_port c,
      s_protocol := r_protocol c, s_public_port := r_public_port c,
      s_target_ip := r_target_ip c, s_target_port := r_target_port c,
      ip_chksum := ipa_nati_calc_ip_cksum pub_ip (r_private_ip c),
      tcp_udp_chksum := (if r_protocol c = IPPROTO_TCP \<or> r_protocol c = IPPROTO_UDP
        then ipa_nati_calc_tcp_udp_cksum pub_ip (r_public_port c) (r_private_ip c) (r_private_port c)
        else 0)\<rparr>"

definition ipa_nati_generate_tbl_rule :: "ipa_nat_ipv4_rule \<Rightarrow> ip4_table \<Rightarrow> (u16 \<times> ipa_nat_sw_rule) option" where
  "ipa_nati_generate_tbl_rule c t =
     (let sw = sw_rule_of (public_addr t) c;
          new_entry = dst_hash (r_target_ip c) (r_target_port c) (r_public_port c) (r_protocol c)
                        (table_entries t - 1)
      in Option.bind (rd (ipv4_rules t) new_entry) (\<lambda>r.
        if \<not> rule_enabled r then Some (new_entry, sw)
        else
          let nxt_indx = Read16BitFieldValue (nxt_indx_pub_port r) NEXT_INDEX_FIELD in
          Option.bind
            (if nxt_indx = IPA_NAT_INVALID_NAT_ENTRY then Some (Some new_entry)
             else last_walk (\<lambda>n. map_option (\<lambda>r. Read16BitFieldValue (nxt_indx_pub_port r) NEXT_INDEX_FIELD)
                                   (rd (ipv4_expn_rules t) (n - table_entries t))) 0 nxt_indx)
            (\<lambda>prev. case prev of
               None \<Rightarrow> Some (IPA_NAT_INVALID_NAT_ENTRY, sw)
             | Some prev \<Rightarrow>
                 Option.bind (ipa_nati_expn_tbl_free_entry (ipv4_expn_rules t) (expn_table_entries t))
                   (\<lambda>e. Some (if e = IPA_NAT_INVALID_NAT_ENTRY then IPA_NAT_INVALID_NAT_ENTRY
                              else e + table_entries t, sw\<lparr>prev_index := prev\<rparr>)))))"

definition ipa_nati_generate_index_rule :: "ipa_nat_ipv4_rule \<Rightarrow> u16 \<Rightarrow> ip4_table
    \<Rightarrow> (u16 \<times> indx_tbl_sw_rule) option" where
  "ipa_nati_generate_index_rule c tbl_entry t =
     (let sw = \<lparr>i_tbl_entry = tbl_entry, i_next_index = 0, i_prev_index = 0\<rparr>;
          new_entry = src_hash (r_private_ip c) (r_private_port c) (r_target_ip c) (r_target_port c)
                        (r_protocol c) (table_entries t - 1)
      in Option.bind (rd (index_table t) new_entry) (\<lambda>w.
        if \<not> index_used w then Some (new_entry, sw)
        else
          let nxt_indx = Read16BitFieldValue w INDX_TBL_NEXT_INDEX_FILED in
          Option.bind
            (if nxt_indx = IPA_NAT_INVALID_NAT_ENTRY then Some (Some new_entry)
             else last_walk (\<lambda>n. map_option (\<lambda>w. Read16BitFieldValue w INDX_TBL_NEXT_INDEX_FILED)
                                   (rd (index_table_expn t) (n - table_entries t))) 0 nxt_indx)
            (\<lambda>prev. case prev of
               None \<Rightarrow> Some (IPA_NAT_INVALID_NAT_ENTRY, sw)
             | Some prev \<Rightarrow>
                 Option.bind (ipa_nati_index_expn_get_free_entry (index_table_expn t) (expn_table_entries t))
                   (\<lambda>e. let new_entry = e + table_entries t in
                        Some (if e = IPA_NAT_INVALID_NAT_ENTRY \<or> prev = new_entry
                              then IPA_NAT_INVALID_NAT_ENTRY else new_entry, sw\<lparr>i_prev_index := prev\<rparr>)))))"

text \<open>The rule, its index rule and their entries, or an error; the table's metadata is updated.\<close>

definition ipa_nati_generate_rule :: "ipa_nat_ipv4_rule \<Rightarrow> ip4_table
    \<Rightarrow> (int + ipa_nat_sw_rule \<times> indx_tbl_sw_rule \<times> u16 \<times> u16 \<times> ip4_table) option" where
  "ipa_nati_generate_rule c t =
     Option.bind (ipa_nati_generate_tbl_rule c t) (\<lambda>(tbl_entry, rule).
       if tbl_entry = IPA_NAT_INVALID_NAT_ENTRY then Some (Inl (- EINVAL))
       else Option.bind (ipa_nati_generate_index_rule c tbl_entry t) (\<lambda>(ie, index_sw_rule).
         if ie = IPA_NAT_INVALID_NAT_ENTRY then Some (Inl (- EINVAL))
         else
           let rule = rule\<lparr>indx_tbl_entry := ie\<rparr> in
           if ie \<ge> table_entries t then
             map_option (\<lambda>m. Inr (rule, index_sw_rule, tbl_entry, ie, t\<lparr>index_expn_table_meta := m\<rparr>))
               (wr (index_expn_table_meta t) (ie - table_entries t) (i_prev_index index_sw_rule))
           else Some (Inr (rule, index_sw_rule, tbl_entry, ie, t))))"

definition ipa_nati_get_entry_offset :: "ip4_table \<Rightarrow> u16 \<Rightarrow> u32" where
  "ipa_nati_get_entry_offset t tbl_entry = ucast tbl_entry * 32 + tbl_addr_offset t"

definition ipa_nati_get_index_entry_offset :: "ip4_table \<Rightarrow> u16 \<Rightarrow> u32" where
  "ipa_nati_get_index_entry_offset t ie = ucast ie * 4 + tbl_addr_offset t"

text \<open>A failure of the command is logged and ignored.\<close>

definition ipa_nati_write_next_index :: "nat_dev \<Rightarrow> u8 \<Rightarrow> nat_table_type \<Rightarrow> u16 \<Rightarrow> u32 \<Rightarrow> ip4_table \<Rightarrow> ip4_table" where
  "ipa_nati_write_next_index dev tbl_indx tbl_type val off t =
     (if cmd_malloc dev
      then snd (dev_dma dev [\<lparr>table_index = tbl_indx, base_addr = tbl_type, dma_data = val, dma_offset = off\<rparr>] t)
      else t)"

definition ipa_nati_copy_ipv4_rule_to_hw :: "nat_dev \<Rightarrow> u8 \<Rightarrow> ipa_nat_sw_rule \<Rightarrow> u16 \<Rightarrow> ip4_table \<Rightarrow> ip4_table option" where
  "ipa_nati_copy_ipv4_rule_to_hw dev tbl_indx rule entry t =
     map_option
       (\<lambda>t. if prev_index rule \<noteq> IPA_NAT_INVALID_NAT_ENTRY then
              (if prev_index rule < table_entries t
               then ipa_nati_write_next_index dev tbl_indx IPA_NAT_BASE_TBL entry
                      (ipa_nati_get_entry_offset t (prev_index rule) + 8) t
               else ipa_nati_write_next_index dev tbl_indx IPA_NAT_EXPN_TBL entry
                      (ipa_nati_get_entry_offset t (prev_index rule - table_entries t) + 8) t)
            else t)
       (if entry < table_entries t
        then map_option (\<lambda>l. t\<lparr>ipv4_rules := l\<rparr>) (wr (ipv4_rules t) entry (rule_to_hw rule))
        else map_option (\<lambda>l. t\<lparr>ipv4_expn_rules := l\<rparr>)
               (wr (ipv4_expn_rules t) (entry - table_entries t) (rule_to_hw rule)))"

text \<open>Here the offset is a 16-bit variable.\<close>

definition ipa_nati_copy_ipv4_index_rule_to_hw :: "nat_dev \<Rightarrow> u8 \<Rightarrow> indx_tbl_sw_rule \<Rightarrow> u16 \<Rightarrow> ip4_table
    \<Rightarrow> ip4_table option" where
  "ipa_nati_copy_ipv4_index_rule_to_hw dev tbl_indx rule entry t =
     map_option
       (\<lambda>t. if i_prev_index rule \<noteq> IPA_NAT_INVALID_NAT_ENTRY then
              (if i_prev_index rule < table_entries t
               then ipa_nati_write_next_index dev tbl_indx IPA_NAT_INDX_TBL entry
                      (ucast (ucast (ipa_nati_get_index_entry_offset t (i_prev_index rule)) + 2 :: u16)) t
               else ipa_nati_write_next_index dev tbl_indx IPA_NAT_INDEX_EXPN_TBL entry
                      (ucast (ucast (ipa_nati_get_index_entry_offset t
                         (i_prev_index rule - table_entries t)) + 2 :: u16)) t)
            else t)
       (let w = pair16 (i_next_index rule) (i_tbl_entry rule) in
        if entry < table_entries t
        then map_option (\<lambda>l. t\<lparr>index_table := l\<rparr>) (wr (index_table t) entry w)
        else map_option (\<lambda>l. t\<lparr>index_table_expn := l\<rparr>) (wr (index_table_expn t) (entry - table_entries t) w))"

text \<open>
  The command that enables the new rule. The offset of the table's memory is added for an
  expansion entry only.
\<close>

definition ipa_nati_post_ipv4_dma_cmd :: "nat_dev \<Rightarrow> u8 \<Rightarrow> u16 \<Rightarrow> ip4_table \<Rightarrow> int \<times> ip4_table" where
  "ipa_nati_post_ipv4_dma_cmd dev tbl_indx entry t =
     (if \<not> cmd_malloc dev then (- ENOMEM, t)
      else
        let cmd = (if entry < table_entries t
          then \<lparr>table_index = tbl_indx, base_addr = IPA_NAT_BASE_TBL, dma_data = 0x8000,
                dma_offset = ucast entry * 32 + 18\<rparr>
          else \<lparr>table_index = tbl_indx, base_addr = IPA_NAT_EXPN_TBL, dma_data = 0x8000,
                dma_offset = ucast (entry - table_entries t) * 32 + 18 + tbl_addr_offset t\<rparr>)
        in case dev_dma dev [cmd] t of (ok, t') \<Rightarrow> (if ok then 0 else - EIO, t'))"

definition ipa_nati_make_rule_hdl :: "u16 \<Rightarrow> ip4_table \<Rightarrow> (u16 \<times> ip4_table) option" where
  "ipa_nati_make_rule_hdl tbl_entry t =
     (let hdl = (if tbl_entry \<ge> table_entries t
                 then push_bit 1 (tbl_entry - table_entries t) OR 1 else push_bit 1 tbl_entry)
      in map_option
           (\<lambda>r. case r of
              Some cnt \<Rightarrow> (of_nat (cnt + 1), t\<lparr>rule_id_array := (rule_id_array t)[cnt := hdl]\<rparr>)
            | None \<Rightarrow> (0, t))
           (scan_from (\<lambda>id. id = 0) (rule_id_array t)
             (unat (table_entries t) + unat (expn_table_entries t)) 0))"

text \<open>The result with the handle: 0 and the handle, or an error.\<close>

definition add_rule_to_table :: "nat_dev \<Rightarrow> u8 \<Rightarrow> ipa_nat_ipv4_rule \<Rightarrow> ip4_table \<Rightarrow> (int \<times> u32 option \<times> ip4_table) option" where
  "add_rule_to_table dev tbl_indx c t =
     Option.bind (ipa_nati_generate_rule c t) (\<lambda>r. case r of
       Inl err \<Rightarrow> Some (- EINVAL, None, t)
     | Inr (sw_rule, index_sw_rule, new_entry, new_index_tbl_entry, t1) \<Rightarrow>
         Option.bind (ipa_nati_copy_ipv4_rule_to_hw dev tbl_indx sw_rule new_entry t1) (\<lambda>t2.
         Option.bind (ipa_nati_copy_ipv4_index_rule_to_hw dev tbl_indx index_sw_rule new_index_tbl_entry t2) (\<lambda>t3.
           case ipa_nati_post_ipv4_dma_cmd dev tbl_indx new_entry t3 of
             (err, t4) \<Rightarrow>
               if err \<noteq> 0 then Some (- EIO, None, t4)
               else Option.bind (ipa_nati_make_rule_hdl new_entry t4) (\<lambda>(hdl, t5).
                 if hdl = 0 then Some (- EINVAL, Some 0, t5) else Some (0, Some (ucast hdl), t5)))))"

definition ipa_nati_add_ipv4_rule :: "nat_dev \<Rightarrow> u32 \<Rightarrow> ipa_nat_ipv4_rule \<Rightarrow> nat_cache
    \<Rightarrow> (int \<times> u32 option \<times> nat_cache) option" where
  "ipa_nati_add_ipv4_rule dev tbl_hdl c s =
     (let i = unat (tbl_hdl - 1) in
      if i < length (ip4_tbl s) then
        map_option (\<lambda>(err, hdl, t). (err, hdl, s\<lparr>ip4_tbl := (ip4_tbl s)[i := t]\<rparr>))
          (add_rule_to_table dev (ucast (tbl_hdl - 1)) c (ip4_tbl s ! i))
      else None)"

definition nat_drv_add_ipv4_rule :: "nat_dev \<Rightarrow> u32 \<Rightarrow> ipa_nat_ipv4_rule \<Rightarrow> nat_cache
    \<Rightarrow> (int \<times> u32 option \<times> nat_cache) option" where
  "nat_drv_add_ipv4_rule dev tbl_hdl c s =
     (if tbl_hdl = 0 \<or> tbl_hdl > IPA_NAT_MAX_IP4_TBLS then Some (- EINVAL, None, s)
      else map_option (\<lambda>(err, hdl, s'). (if err \<noteq> 0 then - EINVAL else 0, hdl, s'))
             (ipa_nati_add_ipv4_rule dev tbl_hdl c s))"


section \<open>Deleting a rule\<close>

definition ipa_nati_parse_ipv4_rule_hdl :: "u16 \<Rightarrow> ip4_table \<Rightarrow> (bool \<times> u16) option" where
  "ipa_nati_parse_ipv4_rule_hdl hdl t =
     (if unat hdl \<ge> unat (table_entries t) + unat (expn_table_entries t)
      then Some (False, IPA_NAT_INVALID_NAT_ENTRY)
      else if hdl = 0 then None
      else map_option (\<lambda>rule_id. (rule_id AND 1 \<noteq> 0, drop_bit 1 rule_id)) (rd (rule_id_array t) (hdl - 1)))"

definition nat_tbl :: "bool \<Rightarrow> ip4_table \<Rightarrow> ipa_nat_rule list" where
  "nat_tbl expn_tbl t = (if expn_tbl then ipv4_expn_rules t else ipv4_rules t)"

definition set_nat_tbl :: "bool \<Rightarrow> ipa_nat_rule list \<Rightarrow> ip4_table \<Rightarrow> ip4_table" where
  "set_nat_tbl expn_tbl l t =
     (if expn_tbl then t\<lparr>ipv4_expn_rules := l\<rparr> else t\<lparr>ipv4_rules := l\<rparr>)"

definition ind_tbl :: "bool \<Rightarrow> ip4_table \<Rightarrow> u32 list" where
  "ind_tbl expn_tbl t = (if expn_tbl then index_table_expn t else index_table t)"

definition set_ind_tbl :: "bool \<Rightarrow> u32 list \<Rightarrow> ip4_table \<Rightarrow> ip4_table" where
  "set_ind_tbl expn_tbl l t =
     (if expn_tbl then t\<lparr>index_table_expn := l\<rparr> else t\<lparr>index_table := l\<rparr>)"

definition ipa_nati_find_rule_pos :: "bool \<Rightarrow> u16 \<Rightarrow> ip4_table \<Rightarrow> del_type option" where
  "ipa_nati_find_rule_pos expn_tbl tbl_entry t =
     map_option (\<lambda>r. let nxt = Read16BitFieldValue (nxt_indx_pub_port r) NEXT_INDEX_FIELD in
         if expn_tbl then (if nxt = IPA_NAT_INVALID_NAT_ENTRY then IPA_NAT_DEL_TYPE_LAST else IPA_NAT_DEL_TYPE_MIDDLE)
         else (if nxt = IPA_NAT_INVALID_NAT_ENTRY then IPA_NAT_DEL_TYPE_ONLY_ONE else IPA_NAT_DEL_TYPE_HEAD))
       (rd (nat_tbl expn_tbl t) tbl_entry)"

definition ipa_nati_find_index_rule_pos :: "u16 \<Rightarrow> ip4_table \<Rightarrow> del_type option" where
  "ipa_nati_find_index_rule_pos ie t =
     (if ie \<ge> table_entries t then
        map_option (\<lambda>w. if Read16BitFieldValue w INDX_TBL_NEXT_INDEX_FILED = IPA_NAT_INVALID_NAT_ENTRY
                         then IPA_NAT_DEL_TYPE_LAST else IPA_NAT_DEL_TYPE_MIDDLE)
          (rd (index_table_expn t) (ie - table_entries t))
      else
        map_option (\<lambda>w. if Read16BitFieldValue w INDX_TBL_NEXT_INDEX_FILED = IPA_NAT_INVALID_NAT_ENTRY
                         then IPA_NAT_DEL_TYPE_ONLY_ONE else IPA_NAT_DEL_TYPE_HEAD)
          (rd (index_table t) ie))"

text \<open>A command that writes into the next field of entry \<open>prev\<close>, of the base or expansion table.\<close>

definition next_field_cmd :: "u8 \<Rightarrow> u16 \<Rightarrow> u16 \<Rightarrow> ip4_table \<Rightarrow> nat_dma_one" where
  "next_field_cmd tbl_indx prev val t =
     (if prev \<ge> table_entries t
      then \<lparr>table_index = tbl_indx, base_addr = IPA_NAT_EXPN_TBL, dma_data = val,
            dma_offset = ipa_nati_get_entry_offset t (prev - table_entries t) + 8\<rparr>
      else \<lparr>table_index = tbl_indx, base_addr = IPA_NAT_BASE_TBL, dma_data = val,
            dma_offset = ipa_nati_get_entry_offset t prev + 8\<rparr>)"

definition index_next_field_cmd :: "u8 \<Rightarrow> u16 \<Rightarrow> u16 \<Rightarrow> ip4_table \<Rightarrow> nat_dma_one" where
  "index_next_field_cmd tbl_indx prev val t =
     (if prev \<ge> table_entries t
      then \<lparr>table_index = tbl_indx, base_addr = IPA_NAT_INDEX_EXPN_TBL, dma_data = val,
            dma_offset = ipa_nati_get_index_entry_offset t (prev - table_entries t) + 2\<rparr>
      else \<lparr>table_index = tbl_indx, base_addr = IPA_NAT_INDX_TBL, dma_data = val,
            dma_offset = ipa_nati_get_index_entry_offset t prev + 2\<rparr>)"

text \<open>The command for the rule \<open>r\<close> in entry \<open>e\<close> of its table.\<close>

definition del_rule_cmd :: "u8 \<Rightarrow> u16 \<Rightarrow> ipa_nat_rule \<Rightarrow> del_type \<Rightarrow> ip4_table \<Rightarrow> nat_dma_one" where
  "del_rule_cmd tbl_indx e r rule_pos t =
     (case rule_pos of
        IPA_NAT_DEL_TYPE_ONLY_ONE \<Rightarrow>
          \<lparr>table_index = tbl_indx, base_addr = IPA_NAT_BASE_TBL, dma_data = 0,
           dma_offset = ipa_nati_get_entry_offset t e + 18\<rparr>
      | IPA_NAT_DEL_TYPE_HEAD \<Rightarrow>
          \<lparr>table_index = tbl_indx, base_addr = IPA_NAT_BASE_TBL, dma_data = 0xFF00,
           dma_offset = ipa_nati_get_entry_offset t e + 22\<rparr>
      | IPA_NAT_DEL_TYPE_MIDDLE \<Rightarrow>
          next_field_cmd tbl_indx (Read16BitFieldValue (sw_spec_params r) SW_SPEC_PARAM_PREV_INDEX_FIELD)
            (Read16BitFieldValue (nxt_indx_pub_port r) NEXT_INDEX_FIELD) t
      | IPA_NAT_DEL_TYPE_LAST \<Rightarrow>
          next_field_cmd tbl_indx (Read16BitFieldValue (sw_spec_params r) SW_SPEC_PARAM_PREV_INDEX_FIELD)
            IPA_NAT_INVALID_NAT_ENTRY t)"

text \<open>The commands for the index rule in entry \<open>i\<close> of the base or expansion index table.\<close>

definition del_index_cmds :: "u8 \<Rightarrow> bool \<Rightarrow> u16 \<Rightarrow> del_type \<Rightarrow> ip4_table \<Rightarrow> nat_dma_one list option" where
  "del_index_cmds tbl_indx expn i pos t =
     (case pos of
        IPA_NAT_DEL_TYPE_ONLY_ONE \<Rightarrow>
          Some [\<lparr>table_index = tbl_indx, base_addr = IPA_NAT_INDX_TBL, dma_data = 0,
                 dma_offset = ipa_nati_get_index_entry_offset t i\<rparr>]
      | IPA_NAT_DEL_TYPE_HEAD \<Rightarrow>
          Option.bind (rd (ind_tbl expn t) i) (\<lambda>w.
            map_option (\<lambda>w'.
              [\<lparr>table_index = tbl_indx, base_addr = IPA_NAT_INDX_TBL,
                dma_data = Read16BitFieldValue w' INDX_TBL_TBL_ENTRY_FIELD,
                dma_offset = ipa_nati_get_index_entry_offset t i\<rparr>,
               \<lparr>table_index = tbl_indx, base_addr = IPA_NAT_INDX_TBL,
                dma_data = Read16BitFieldValue w' INDX_TBL_NEXT_INDEX_FILED,
                dma_offset = ipa_nati_get_index_entry_offset t i + 2\<rparr>])
              (rd (index_table_expn t) (Read16BitFieldValue w INDX_TBL_NEXT_INDEX_FILED - table_entries t)))
      | IPA_NAT_DEL_TYPE_MIDDLE \<Rightarrow>
          Option.bind (rd (index_expn_table_meta t) i) (\<lambda>prev.
            map_option (\<lambda>w. [index_next_field_cmd tbl_indx prev
                               (Read16BitFieldValue w INDX_TBL_NEXT_INDEX_FILED) t])
              (rd (ind_tbl expn t) i))
      | IPA_NAT_DEL_TYPE_LAST \<Rightarrow>
          map_option (\<lambda>prev. [index_next_field_cmd tbl_indx prev IPA_NAT_INVALID_NAT_ENTRY t])
            (rd (index_expn_table_meta t) i))"

definition is_index_cmd :: "nat_dma_one \<Rightarrow> bool" where
  "is_index_cmd d \<longleftrightarrow> base_addr d = IPA_NAT_INDX_TBL \<or> base_addr d = IPA_NAT_INDEX_EXPN_TBL"

text \<open>The commands from the first one of an index table on come first.\<close>

definition ReorderCmds :: "bool \<Rightarrow> nat_dma_one list \<Rightarrow> nat_dma_one list" where
  "ReorderCmds malloc_ok cmds =
     (let k = find_idx is_index_cmd cmds;
          indx_tbl_start = (if k < length cmds then k else 0)
      in if indx_tbl_start = 0 \<or> \<not> malloc_ok then cmds
         else drop indx_tbl_start cmds @ take indx_tbl_start cmds)"

text \<open>After the commands: the rule behind gets its new predecessor, the rule is cleared.\<close>

definition del_rule_update :: "bool \<Rightarrow> u16 \<Rightarrow> del_type \<Rightarrow> ip4_table \<Rightarrow> ip4_table option" where
  "del_rule_update expn_tbl e rule_pos t =
     Option.bind
       (if rule_pos = IPA_NAT_DEL_TYPE_MIDDLE then
          Option.bind (rd (nat_tbl expn_tbl t) e) (\<lambda>r.
            let prev = Read16BitFieldValue (sw_spec_params r) SW_SPEC_PARAM_PREV_INDEX_FIELD;
                nxt = Read16BitFieldValue (nxt_indx_pub_port r) NEXT_INDEX_FIELD - table_entries t
            in Option.bind (rd (ipv4_expn_rules t) nxt) (\<lambda>r'.
                 map_option (\<lambda>l. (True, t\<lparr>ipv4_expn_rules := l\<rparr>))
                   (wr (ipv4_expn_rules t) nxt (UpdateSwSpecParams IPA_NAT_SW_PARAM_PREV_INDX_BYTE (ucast prev) r'))))
        else Some (expn_tbl, t))
       (\<lambda>(x, t1). if rule_pos \<noteq> IPA_NAT_DEL_TYPE_HEAD
          then map_option (\<lambda>l. set_nat_tbl x l t1) (wr (nat_tbl x t1) e zero_rule)
          else Some t1)"

text \<open>
  The same for the index rule. At the head of a chain the next rule was moved into the
  head: its old entry \<open>nxt\<close> is cleared, and the NAT rule it stands for is told.
\<close>

definition del_index_update :: "bool \<Rightarrow> u16 \<Rightarrow> u16 \<Rightarrow> del_type \<Rightarrow> ip4_table \<Rightarrow> ip4_table option" where
  "del_index_update expn i nxt pos t =
     (if pos = IPA_NAT_DEL_TYPE_HEAD then
        Option.bind (rd (index_table_expn t) nxt) (\<lambda>w.
        let nn = Read16BitFieldValue w INDX_TBL_NEXT_INDEX_FILED in
        Option.bind
          (if nn \<noteq> 0 \<and> nn \<ge> table_entries t
           then map_option (\<lambda>m. t\<lparr>index_expn_table_meta := m\<rparr>)
                  (wr (index_expn_table_meta t) (nn - table_entries t) i)
           else Some t)
          (\<lambda>t1. Option.bind (wr (index_table_expn t1) nxt 0) (\<lambda>l.
             let t2 = t1\<lparr>index_table_expn := l\<rparr> in
             Option.bind (rd (index_table t2) i) (\<lambda>w.
             let te = Read16BitFieldValue w INDX_TBL_TBL_ENTRY_FIELD;
                 x = (te \<ge> table_entries t2);
                 te' = (if x then te - table_entries t2 else te)
             in Option.bind (rd (nat_tbl x t2) te') (\<lambda>r.
                  map_option (\<lambda>l. set_nat_tbl x l t2)
                    (wr (nat_tbl x t2) te'
                       (UpdateSwSpecParams IPA_NAT_SW_PARAM_INDX_TBL_ENTRY_BYTE (ucast i) r)))))))
      else
        Option.bind
          (if pos = IPA_NAT_DEL_TYPE_MIDDLE then
             Option.bind (rd (ind_tbl expn t) i) (\<lambda>w.
               let n = Read16BitFieldValue w INDX_TBL_NEXT_INDEX_FILED;
                   n' = (if n \<ge> table_entries t then n - table_entries t else n)
               in Option.bind (rd (index_expn_table_meta t) i) (\<lambda>p.
                    Option.bind (wr (index_expn_table_meta t) n' p) (\<lambda>m.
                      map_option (\<lambda>m'. t\<lparr>index_expn_table_meta := m'\<rparr>) (wr m i IPA_NAT_INVALID_NAT_ENTRY))))
           else Some t)
          (\<lambda>t1. map_option (\<lambda>l. set_ind_tbl expn l t1) (wr (ind_tbl expn t1) i 0)))"

definition ipa_nati_post_del_dma_cmd :: "nat_dev \<Rightarrow> u8 \<Rightarrow> u16 \<Rightarrow> bool \<Rightarrow> del_type \<Rightarrow> ip4_table
    \<Rightarrow> (int \<times> ip4_table) option" where
  "ipa_nati_post_del_dma_cmd dev tbl_indx e expn_tbl rule_pos t =
     (if \<not> cmd_malloc dev then Some (- ENOMEM, t)
      else
        Option.bind (rd (nat_tbl expn_tbl t) e) (\<lambda>r.
        if \<not> rule_enabled r then Some (- EINVAL, t)
        else
          let ie = Read16BitFieldValue (sw_spec_params r) SW_SPEC_PARAM_INDX_TBL_ENTRY_FIELD;
              c = del_rule_cmd tbl_indx e r rule_pos t
          in Option.bind (ipa_nati_find_index_rule_pos ie t) (\<lambda>ipos.
          let x = (ie \<ge> table_entries t); i = (if x then ie - table_entries t else ie) in
          Option.bind (rd (ind_tbl x t) i) (\<lambda>w.
          let nxt = Read16BitFieldValue w INDX_TBL_NEXT_INDEX_FILED - table_entries t in
          Option.bind (del_index_cmds tbl_indx x i ipos t) (\<lambda>cs.
          case dev_dma dev (ReorderCmds True (c # cs)) t of (ok, t1) \<Rightarrow>
            if \<not> ok then Some (- EIO, t1)
            else Option.bind (del_rule_update expn_tbl e rule_pos t1) (\<lambda>t2.
                   map_option (\<lambda>t3. (0, t3)) (del_index_update x i nxt ipos t2)))))))"

definition ipa_nati_del_dead_ipv4_head_nodes :: "ip4_table \<Rightarrow> ip4_table option" where
  "ipa_nati_del_dead_ipv4_head_nodes t =
     (let n = unat (table_entries t) in
      if length (ipv4_rules t) < n then None
      else Some (t\<lparr>ipv4_rules :=
             map (\<lambda>r. if Read8BitFieldValue (ts_proto r) PROTOCOL_FIELD = 0xFF
                        \<and> Read16BitFieldValue (nxt_indx_pub_port r) NEXT_INDEX_FIELD = IPA_NAT_INVALID_NAT_ENTRY
                     then zero_rule else r) (take n (ipv4_rules t))
             @ drop n (ipv4_rules t)\<rparr>))"

text \<open>The handle is cut to 16 bits for the parser, but not for the reset of its slot.\<close>

definition del_rule_from_table :: "nat_dev \<Rightarrow> u8 \<Rightarrow> u32 \<Rightarrow> ip4_table \<Rightarrow> (int \<times> ip4_table) option" where
  "del_rule_from_table dev tbl_indx hdl t =
     Option.bind (ipa_nati_parse_ipv4_rule_hdl (ucast hdl) t) (\<lambda>(expn_tbl, tbl_entry).
       if tbl_entry = IPA_NAT_INVALID_NAT_ENTRY then Some (- EINVAL, t)
       else if \<not> tbl_valid t then Some (- EINVAL, t)
       else Option.bind (ipa_nati_find_rule_pos expn_tbl tbl_entry t) (\<lambda>rule_pos.
         Option.bind (ipa_nati_post_del_dma_cmd dev tbl_indx tbl_entry expn_tbl rule_pos t) (\<lambda>(err, t1).
         if err \<noteq> 0 then Some (- EINVAL, t1)
         else Option.bind (ipa_nati_del_dead_ipv4_head_nodes t1) (\<lambda>t2.
           let k = unat (hdl - 1) in
           if k < length (rule_id_array t2)
           then Some (0, t2\<lparr>rule_id_array := (rule_id_array t2)[k := IPA_NAT_INVALID_NAT_ENTRY]\<rparr>)
           else None))))"

definition ipa_nati_del_ipv4_rule :: "nat_dev \<Rightarrow> u32 \<Rightarrow> u32 \<Rightarrow> nat_cache \<Rightarrow> (int \<times> nat_cache) option" where
  "ipa_nati_del_ipv4_rule dev tbl_hdl hdl s =
     (let i = unat (ucast (tbl_hdl - 1) :: u8) in
      if i < length (ip4_tbl s) then
        map_option (\<lambda>(err, t). (err, s\<lparr>ip4_tbl := (ip4_tbl s)[i := t]\<rparr>))
          (del_rule_from_table dev (ucast (tbl_hdl - 1)) hdl (ip4_tbl s ! i))
      else None)"

definition nat_drv_del_ipv4_rule :: "nat_dev \<Rightarrow> u32 \<Rightarrow> u32 \<Rightarrow> nat_cache \<Rightarrow> (int \<times> nat_cache) option" where
  "nat_drv_del_ipv4_rule dev tbl_hdl hdl s =
     (if tbl_hdl = 0 \<or> hdl = 0 then Some (- EINVAL, s) else ipa_nati_del_ipv4_rule dev tbl_hdl hdl s)"

section \<open>Tables\<close>

text \<open>
  The percentages .8 and .2 of a 16-bit number, computed in floating point and truncated,
  are the integer divisions. The result is 0 with the two sizes and the kernel's offset.
\<close>

definition CreateNatDevice :: "nat_dev \<Rightarrow> u32 \<Rightarrow> (int + u32)" where
  "CreateNatDevice dev msize = (case dev_alloc dev msize of None \<Rightarrow> Inl (- EINVAL) | Some off \<Rightarrow> Inr off)"

definition ipa_nati_alloc_table :: "nat_dev \<Rightarrow> u16 \<Rightarrow> nat_cache
    \<Rightarrow> ((int + u16 \<times> u16 \<times> u32 \<times> u32) \<times> nat_cache) option" where
  "ipa_nati_alloc_table dev n s =
     (let base = of_nat (4 * unat n div 5) :: u16; base = (if base = 0 then 1 else base) in
      Option.bind (GetNearest2Power base) (\<lambda>(err, tes).
      if err \<noteq> 0 then Some (Inl (- EINVAL), s)
      else map_option (\<lambda>ees.
        let msize = 32 * ucast (tes + ees) + 4 * ucast (tes + ees) in
        if \<not> ipa_fd s \<and> \<not> dev_open dev then (Inl (- EIO), s)
        else
          let s = s\<lparr>ipa_fd := True\<rparr> in
          case CreateNatDevice dev msize of
            Inl e \<Rightarrow> (Inl e, s)
          | Inr off \<Rightarrow> (Inr (tes, ees, msize, off), s))
        (GetNearestEven (of_nat (unat n div 5)))))"

text \<open>
  Filling in the table's entry of the cache. When heap memory is refused the function
  reports success all the same, with the table not mapped.
\<close>

definition ipa_nati_update_cache :: "nat_dev \<Rightarrow> u32 \<Rightarrow> u16 \<Rightarrow> u16 \<Rightarrow> u32 \<Rightarrow> u32 \<Rightarrow> ip4_table \<Rightarrow> int \<times> ip4_table" where
  "ipa_nati_update_cache dev pub tes ees msize off t =
     (let t = t\<lparr>tbl_valid := True, public_addr := pub, tbl_size := msize, tbl_addr_offset := off,
                table_entries := tes, expn_table_entries := ees\<rparr>;
          no_meta = (index_expn_table_meta t = []) in
      if no_meta \<and> \<not> meta_malloc dev then (0, t)
      else
        let t = (if no_meta then t\<lparr>index_expn_table_meta := replicate (unat ees) 0\<rparr> else t);
            no_ids = (rule_id_array t = []) in
        if no_ids \<and> \<not> ids_malloc dev then (0, t)
        else
          let t = (if no_ids then t\<lparr>rule_id_array := replicate (unat tes + unat ees) 0\<rparr> else t) in
          if \<not> dev_nat_open dev then (- EIO, t)
          else case dev_mmap dev of
                 None \<Rightarrow> (- EINVAL, t)
               | Some (rules, expn, ind, ind_expn) \<Rightarrow>
                   (0, t\<lparr>ipv4_rules := rules, ipv4_expn_rules := expn, index_table := ind,
                         index_table_expn := ind_expn\<rparr>))"

definition memset0 :: "nat \<Rightarrow> 'a \<Rightarrow> 'a list \<Rightarrow> 'a list option" where
  "memset0 n z xs = (if n \<le> length xs then Some (replicate n z @ drop n xs) else None)"

definition ipa_nati_reset_tbl :: "ip4_table \<Rightarrow> ip4_table option" where
  "ipa_nati_reset_tbl t =
     (let n = unat (table_entries t); m = unat (expn_table_entries t) in
      Option.bind (memset0 n zero_rule (ipv4_rules t)) (\<lambda>a.
      Option.bind (memset0 m zero_rule (ipv4_expn_rules t)) (\<lambda>b.
      Option.bind (memset0 n 0 (index_table t)) (\<lambda>c.
      map_option (\<lambda>d. t\<lparr>ipv4_rules := a, ipv4_expn_rules := b, index_table := c, index_table_expn := d\<rparr>)
        (memset0 m 0 (index_table_expn t))))))"

definition ipa_nati_post_ipv4_init_cmd :: "nat_dev \<Rightarrow> u8 \<Rightarrow> ip4_table \<Rightarrow> int" where
  "ipa_nati_post_ipv4_init_cmd dev tbl_indx t =
     (let r = tbl_addr_offset t; e = r + ucast (table_entries t) * 32;
          i = e + ucast (expn_table_entries t) * 32; x = i + ucast (table_entries t) * 4 in
      if dev_init dev \<lparr>init_tbl_index = tbl_indx, ipv4_rules_offset = r, expn_rules_offset = e,
           index_offset = i, index_expn_offset = x, init_table_entries = table_entries t - 1,
           init_expn_table_entries = expn_table_entries t, init_ip_addr = public_addr t\<rparr>
      then 0 else - EINVAL)"

text \<open>The handle of the new table, 0 on errors.\<close>

definition ipa_nati_add_ipv4_tbl :: "nat_dev \<Rightarrow> u32 \<Rightarrow> u16 \<Rightarrow> nat_cache \<Rightarrow> (int \<times> u32 \<times> nat_cache) option" where
  "ipa_nati_add_ipv4_tbl dev pub n s =
     (let i = unat (table_cnt s) in
      Option.bind (ipa_nati_alloc_table dev n s) (\<lambda>(r, s1). case r of
        Inl _ \<Rightarrow> Some (- ENOMEM, 0, s1)
      | Inr (tes, ees, msize, off) \<Rightarrow>
          if i \<ge> length (ip4_tbl s1) then None
          else case ipa_nati_update_cache dev pub tes ees msize off (ip4_tbl s1 ! i) of (err, t1) \<Rightarrow>
            let s2 = s1\<lparr>ip4_tbl := (ip4_tbl s1)[i := t1]\<rparr> in
            if err \<noteq> 0 then Some (- EINVAL, 0, s2)
            else map_option (\<lambda>t2.
              let s3 = s2\<lparr>ip4_tbl := (ip4_tbl s2)[i := t2]\<rparr> in
              if ipa_nati_post_ipv4_init_cmd dev (table_cnt s) t2 \<noteq> 0 then (- EINVAL, 0, s3)
              else (0, ucast (table_cnt s3 + 1), s3\<lparr>table_cnt := table_cnt s3 + 1\<rparr>))
              (ipa_nati_reset_tbl t1)))"

definition nat_drv_add_ipv4_tbl :: "nat_dev \<Rightarrow> u32 \<Rightarrow> u16 \<Rightarrow> nat_cache \<Rightarrow> (int \<times> u32 \<times> nat_cache) option" where
  "nat_drv_add_ipv4_tbl dev pub n s =
     (if n = 0 then Some (- EINVAL, 0, s)
      else map_option (\<lambda>(err, hdl, s'). (if err \<noteq> 0 then - EINVAL else 0, hdl, s'))
             (ipa_nati_add_ipv4_tbl dev pub n s))"

definition no_table :: ip4_table where
  "no_table = \<lparr>tbl_valid = False, public_addr = 0, tbl_size = 0, tbl_addr_offset = 0,
     table_entries = 0, expn_table_entries = 0, ipv4_rules = [], ipv4_expn_rules = [],
     index_table = [], index_table_expn = [], index_expn_table_meta = [], rule_id_array = []\<rparr>"

definition ipa_nati_del_ipv4_table :: "nat_dev \<Rightarrow> u32 \<Rightarrow> nat_cache \<Rightarrow> (int \<times> nat_cache) option" where
  "ipa_nati_del_ipv4_table dev tbl_hdl s =
     (let i = unat (ucast (tbl_hdl - 1) :: u8) in
      if i \<ge> length (ip4_tbl s) then None
      else if \<not> tbl_valid (ip4_tbl s ! i) then Some (- EINVAL, s)
      else
        let t = (ip4_tbl s ! i)\<lparr>ipv4_rules := [], ipv4_expn_rules := [], index_table := [], index_table_expn := []\<rparr>;
            s1 = s\<lparr>ip4_tbl := (ip4_tbl s)[i := t]\<rparr> in
        if \<not> dev_close dev then Some (- EINVAL, s1)
        else if \<not> dev_del dev then Some (- EINVAL, s1)
        else Some (0, s1\<lparr>ip4_tbl := (ip4_tbl s1)[i := no_table], table_cnt := table_cnt s1 - 1\<rparr>))"

definition nat_drv_del_ipv4_tbl :: "nat_dev \<Rightarrow> u32 \<Rightarrow> nat_cache \<Rightarrow> (int \<times> nat_cache) option" where
  "nat_drv_del_ipv4_tbl dev tbl_hdl s =
     (if tbl_hdl = 0 \<or> tbl_hdl > IPA_NAT_MAX_IP4_TBLS then Some (- EINVAL, s)
      else ipa_nati_del_ipv4_table dev tbl_hdl s)"

definition ipa_nati_query_timestamp :: "u32 \<Rightarrow> u32 \<Rightarrow> nat_cache \<Rightarrow> (int \<times> u32 option) option" where
  "ipa_nati_query_timestamp tbl_hdl hdl s =
     (let i = unat (ucast (tbl_hdl - 1) :: u8) in
      if i \<ge> length (ip4_tbl s) then None
      else let t = ip4_tbl s ! i in
        if \<not> tbl_valid t then Some (- EINVAL, None)
        else Option.bind (ipa_nati_parse_ipv4_rule_hdl (ucast hdl) t) (\<lambda>(expn_tbl, tbl_entry).
          map_option (\<lambda>r. (0, Some (Read32BitFieldValue (ts_proto r) TIME_STAMP_FIELD)))
            (rd (nat_tbl expn_tbl t) tbl_entry)))"

definition nat_drv_query_timestamp :: "u32 \<Rightarrow> u32 \<Rightarrow> nat_cache \<Rightarrow> (int \<times> u32 option) option" where
  "nat_drv_query_timestamp tbl_hdl hdl s =
     (if tbl_hdl = 0 \<or> tbl_hdl > IPA_NAT_MAX_IP4_TBLS then Some (- EINVAL, None)
      else ipa_nati_query_timestamp tbl_hdl hdl s)"

text \<open>The number of rules in use in one of the four tables.\<close>

definition ipa_nati_query_nat_rules :: "u32 \<Rightarrow> nat_table_type \<Rightarrow> nat_cache \<Rightarrow> nat" where
  "ipa_nati_query_nat_rules tbl_hdl ty s =
     (if tbl_hdl = 0 \<or> tbl_hdl > IPA_NAT_MAX_IP4_TBLS then 0
      else let t = ip4_tbl s ! unat (tbl_hdl - 1); n = unat (table_entries t); m = unat (expn_table_entries t) in
        (case ty of
           IPA_NAT_BASE_TBL \<Rightarrow> length (filter rule_enabled (take n (ipv4_rules t)))
         | IPA_NAT_EXPN_TBL \<Rightarrow> length (filter rule_enabled (take m (ipv4_expn_rules t)))
         | IPA_NAT_INDX_TBL \<Rightarrow> length (filter index_used (take n (index_table t)))
         | IPA_NAT_INDEX_EXPN_TBL \<Rightarrow> length (filter index_used (take m (index_table_expn t)))))"

end
