(* ===== verification/Nat_Table.thy ===== *)
theory Nat_Table
  imports Nat_Driver
begin

text \<open>
  The correctness of the NAT driver: views of the tables by entry number, the effect of each
  step of an operation on them, the invariant that ties NAT table, index table, metadata
  and handles together, and the refinement of a map from handles to rules.
\<close>

section \<open>Entries and views\<close>

definition base_entries :: "u16 \<Rightarrow> u16 set" where
  "base_entries T = {e. 0 < e \<and> e < T}"

definition expn_entries :: "u16 \<Rightarrow> u16 \<Rightarrow> u16 set" where
  "expn_entries T E = {e. T < e \<and> unat e < unat T + unat E}"

interpretation tab: chained_table "base_entries T" "expn_entries T E" for T E
  by unfold_locales (auto simp: base_entries_def expn_entries_def)

abbreviation bases :: "ip4_table \<Rightarrow> u16 set" where "bases t \<equiv> base_entries (table_entries t)"
abbreviation expns :: "ip4_table \<Rightarrow> u16 set" where
  "expns t \<equiv> expn_entries (table_entries t) (expn_table_entries t)"

definition shape :: "ip4_table \<Rightarrow> bool" where
  "shape t \<longleftrightarrow> tbl_valid t \<and> tbl_addr_offset t = 0
     \<and> 2 \<le> unat (table_entries t) \<and> unat (table_entries t) \<le> 2 ^ 14
     \<and> 2 \<le> unat (expn_table_entries t) \<and> unat (expn_table_entries t) \<le> 2 ^ 14
     \<and> length (ipv4_rules t) = unat (table_entries t) \<and> length (index_table t) = unat (table_entries t)
     \<and> length (ipv4_expn_rules t) = unat (expn_table_entries t)
     \<and> length (index_table_expn t) = unat (expn_table_entries t)
     \<and> length (index_expn_table_meta t) = unat (expn_table_entries t)
     \<and> length (rule_id_array t) = unat (table_entries t) + unat (expn_table_entries t)"

definition rule_at :: "ip4_table \<Rightarrow> u16 \<Rightarrow> ipa_nat_rule" where
  "rule_at t e = (if e < table_entries t then ipv4_rules t ! unat e
                  else ipv4_expn_rules t ! unat (e - table_entries t))"

definition index_at :: "ip4_table \<Rightarrow> u16 \<Rightarrow> u32" where
  "index_at t i = (if i < table_entries t then index_table t ! unat i
                   else index_table_expn t ! unat (i - table_entries t))"

definition upd_rule :: "u16 \<Rightarrow> (ipa_nat_rule \<Rightarrow> ipa_nat_rule) \<Rightarrow> ip4_table \<Rightarrow> ip4_table" where
  "upd_rule e f t =
     (if e < table_entries t then t\<lparr>ipv4_rules := (ipv4_rules t)[unat e := f (rule_at t e)]\<rparr>
      else t\<lparr>ipv4_expn_rules := (ipv4_expn_rules t)[unat (e - table_entries t) := f (rule_at t e)]\<rparr>)"

definition upd_index :: "u16 \<Rightarrow> (u32 \<Rightarrow> u32) \<Rightarrow> ip4_table \<Rightarrow> ip4_table" where
  "upd_index i f t =
     (if i < table_entries t then t\<lparr>index_table := (index_table t)[unat i := f (index_at t i)]\<rparr>
      else t\<lparr>index_table_expn := (index_table_expn t)[unat (i - table_entries t) := f (index_at t i)]\<rparr>)"

definition meta_at :: "ip4_table \<Rightarrow> u16 \<Rightarrow> u16" where
  "meta_at t i = (if i < table_entries t then 0 else index_expn_table_meta t ! unat (i - table_entries t))"

definition upd_meta :: "u16 \<Rightarrow> u16 \<Rightarrow> ip4_table \<Rightarrow> ip4_table" where
  "upd_meta i v t =
     t\<lparr>index_expn_table_meta := (index_expn_table_meta t)[unat (i - table_entries t) := v]\<rparr>"

definition upd_id :: "nat \<Rightarrow> u16 \<Rightarrow> ip4_table \<Rightarrow> ip4_table" where
  "upd_id k v t = t\<lparr>rule_id_array := (rule_id_array t)[k := v]\<rparr>"

abbreviation entries :: "ip4_table \<Rightarrow> u16 set" where "entries t \<equiv> bases t \<union> expns t"

lemma upd_frame [simp]:
  "table_entries (upd_rule e f t) = table_entries t" "expn_table_entries (upd_rule e f t) = expn_table_entries t"
  "table_entries (upd_index i g t) = table_entries t" "expn_table_entries (upd_index i g t) = expn_table_entries t"
  "table_entries (upd_meta i v t) = table_entries t" "expn_table_entries (upd_meta i v t) = expn_table_entries t"
  "table_entries (upd_id k v t) = table_entries t" "expn_table_entries (upd_id k v t) = expn_table_entries t"
  "rule_id_array (upd_rule e f t) = rule_id_array t" "rule_id_array (upd_index i g t) = rule_id_array t"
  "rule_id_array (upd_meta i v t) = rule_id_array t" "rule_id_array (upd_id k v t) = (rule_id_array t)[k := v]"
  "public_addr (upd_rule e f t) = public_addr t" "public_addr (upd_index i g t) = public_addr t"
  "public_addr (upd_meta i v t) = public_addr t" "public_addr (upd_id k v t) = public_addr t"
  "index_at (upd_rule e f t) = index_at t" "rule_at (upd_index i g t) = rule_at t"
  "meta_at (upd_rule e f t) = meta_at t" "meta_at (upd_index i g t) = meta_at t"
  "rule_at (upd_meta i v t) = rule_at t" "index_at (upd_meta i v t) = index_at t"
  "rule_at (upd_id k v t) = rule_at t" "index_at (upd_id k v t) = index_at t" "meta_at (upd_id k v t) = meta_at t"
  by (simp_all add: upd_rule_def upd_index_def upd_meta_def upd_id_def rule_at_def index_at_def meta_at_def fun_eq_iff)

lemma upd_shape [simp]:
  "shape (upd_rule e f t) = shape t" "shape (upd_index i g t) = shape t"
  "shape (upd_meta i v t) = shape t" "shape (upd_id k v t) = shape t"
  by (simp_all add: shape_def upd_rule_def upd_index_def upd_meta_def upd_id_def)

lemma entry_sub:
  assumes "e \<in> expns t" "shape t"
  shows "\<not> e < table_entries t" "unat (e - table_entries t) = unat e - unat (table_entries t)"
    "unat (e - table_entries t) < unat (expn_table_entries t)" "e - table_entries t \<noteq> 0"
    "e - table_entries t + table_entries t = e"
proof -
  have l: "table_entries t < e" using assms by (simp add: expn_entries_def)
  then show "\<not> e < table_entries t" by simp
  show u: "unat (e - table_entries t) = unat e - unat (table_entries t)"
    using l by (simp add: unat_sub order_less_imp_le)
  show "unat (e - table_entries t) < unat (expn_table_entries t)"
    using assms l unfolding u by (auto simp: expn_entries_def word_less_nat_alt)
  show "e - table_entries t \<noteq> 0" using l by auto
  show "e - table_entries t + table_entries t = e" by simp
qed

lemma entry_base:
  assumes "e \<in> bases t" shows "e < table_entries t" "unat e < unat (table_entries t)" "e \<noteq> 0"
  using assms by (auto simp: base_entries_def word_less_nat_alt)

lemma expn_inj:
  "\<lbrakk>e \<in> expns t; e' \<in> expns t; shape t; unat (e - table_entries t) = unat (e' - table_entries t)\<rbrakk> \<Longrightarrow> e = e'"
  by (simp flip: word_unat_eq_iff)

lemma rule_at_upd [simp]:
  assumes "e \<in> entries t" "shape t"
  shows "rule_at (upd_rule e f t) = (rule_at t)(e := f (rule_at t e))"
proof
  fix a
  have len: "length (ipv4_rules t) = unat (table_entries t)"
    "length (ipv4_expn_rules t) = unat (expn_table_entries t)" using assms(2) by (simp_all add: shape_def)
  show "rule_at (upd_rule e f t) a = ((rule_at t)(e := f (rule_at t e))) a"
  proof (cases "e \<in> bases t")
    case True
    then show ?thesis
      using entry_base [OF True] len by (auto simp: rule_at_def upd_rule_def nth_list_update simp flip: word_unat_eq_iff)
  next
    case False
    then have "e \<in> expns t" using assms(1) by blast
    then show ?thesis
      using entry_sub [OF _ assms(2), of e] len
      by (auto simp: rule_at_def upd_rule_def nth_list_update simp flip: word_unat_eq_iff)
  qed
qed

lemma index_at_upd [simp]:
  assumes "i \<in> entries t" "shape t"
  shows "index_at (upd_index i f t) = (index_at t)(i := f (index_at t i))"
proof
  fix a
  have len: "length (index_table t) = unat (table_entries t)"
    "length (index_table_expn t) = unat (expn_table_entries t)" using assms(2) by (simp_all add: shape_def)
  show "index_at (upd_index i f t) a = ((index_at t)(i := f (index_at t i))) a"
  proof (cases "i \<in> bases t")
    case True
    then show ?thesis
      using entry_base [OF True] len by (auto simp: index_at_def upd_index_def nth_list_update simp flip: word_unat_eq_iff)
  next
    case False
    then have "i \<in> expns t" using assms(1) by blast
    then show ?thesis
      using entry_sub [OF _ assms(2), of i] len
      by (auto simp: index_at_def upd_index_def nth_list_update simp flip: word_unat_eq_iff)
  qed
qed

lemma meta_at_upd [simp]:
  assumes "i \<in> expns t" "shape t"
  shows "meta_at (upd_meta i v t) = (meta_at t)(i := v)"
proof
  fix a
  have "length (index_expn_table_meta t) = unat (expn_table_entries t)" using assms(2) by (simp add: shape_def)
  then show "meta_at (upd_meta i v t) a = ((meta_at t)(i := v)) a"
    using entry_sub [OF assms]
    by (auto simp: meta_at_def upd_meta_def nth_list_update simp flip: word_unat_eq_iff)
qed


section \<open>The device\<close>

text \<open>
  The kernel's DMA command: the hardware writes 16 bits at an offset into one of the four
  tables. \<open>dma_works\<close> is what the driver relies on: heap memory for a command, and commands
  that are carried out in order.
\<close>

definition put_rule_field :: "nat \<Rightarrow> u16 \<Rightarrow> ipa_nat_rule \<Rightarrow> ipa_nat_rule" where
  "put_rule_field f v r =
     (if f = 8 then r\<lparr>nxt_indx_pub_port := pair16 (high16 (nxt_indx_pub_port r)) v\<rparr>
      else if f = 18 then r\<lparr>ip_cksm_enbl := pair16 v (low16 (ip_cksm_enbl r))\<rparr>
      else if f = 22 then r\<lparr>ts_proto := pair16 v (low16 (ts_proto r))\<rparr>
      else r)"

definition put_index_field :: "nat \<Rightarrow> u16 \<Rightarrow> u32 \<Rightarrow> u32" where
  "put_index_field f v w = (if f = 0 then pair16 (high16 w) v else pair16 v (low16 w))"

definition dma_write :: "nat_dma_one \<Rightarrow> ip4_table \<Rightarrow> ip4_table" where
  "dma_write d t =
     (let off = unat (dma_offset d); v = dma_data d in
      case base_addr d of
        IPA_NAT_BASE_TBL \<Rightarrow> t\<lparr>ipv4_rules := (ipv4_rules t)
            [off div 32 := put_rule_field (off mod 32) v (ipv4_rules t ! (off div 32))]\<rparr>
      | IPA_NAT_EXPN_TBL \<Rightarrow> t\<lparr>ipv4_expn_rules := (ipv4_expn_rules t)
            [off div 32 := put_rule_field (off mod 32) v (ipv4_expn_rules t ! (off div 32))]\<rparr>
      | IPA_NAT_INDX_TBL \<Rightarrow> t\<lparr>index_table := (index_table t)
            [off div 4 := put_index_field (off mod 4) v (index_table t ! (off div 4))]\<rparr>
      | IPA_NAT_INDEX_EXPN_TBL \<Rightarrow> t\<lparr>index_table_expn := (index_table_expn t)
            [off div 4 := put_index_field (off mod 4) v (index_table_expn t ! (off div 4))]\<rparr>)"

definition dma_works :: "nat_dev \<Rightarrow> bool" where
  "dma_works dev \<longleftrightarrow> cmd_malloc dev \<and> (\<forall>cmds t. dev_dma dev cmds t = (True, fold dma_write cmds t))"

lemma rule_offset:
  "f < 32 \<Longrightarrow> unat (ucast (e :: u16) * 32 + of_nat f :: u32) = 32 * unat e + f"
proof -
  assume f: "f < 32"
  have e: "unat e < 2 ^ 16" using unsigned_less [of e, where 'a = nat] by simp
  have "(ucast e * 32 + of_nat f :: u32) = of_nat (32 * unat e + f)"
    by (simp add: of_nat_unat)
  moreover have "32 * unat e + f < 2 ^ LENGTH(32)" using e f by simp
  ultimately show ?thesis by (simp only: unat_of_nat mod_less)
qed

lemma index_offset:
  "f < 4 \<Longrightarrow> unat (ucast (e :: u16) * 4 + of_nat f :: u32) = 4 * unat e + f"
proof -
  assume f: "f < 4"
  have e: "unat e < 2 ^ 16" using unsigned_less [of e, where 'a = nat] by simp
  have "(ucast e * 4 + of_nat f :: u32) = of_nat (4 * unat e + f)"
    by (simp add: of_nat_unat)
  moreover have "4 * unat e + f < 2 ^ LENGTH(32)" using e f by simp
  ultimately show ?thesis by (simp only: unat_of_nat mod_less)
qed

lemmas rule_offsets = rule_offset [of 8, simplified] rule_offset [of 18, simplified]
  rule_offset [of 22, simplified]
lemma index_offsets:
  "unat (ucast (e :: u16) * 4 :: u32) = 4 * unat e" "unat (ucast e * 4 + 2 :: u32) = 4 * unat e + 2"
  using index_offset [of 0 e] index_offset [of 2 e] by simp_all

text \<open>The commands of the driver, as updates of entries.\<close>

lemma dma_rule:
  assumes "shape t" "e \<in> entries t" "f = 8 \<or> f = 18 \<or> f = 22"
  shows "e < table_entries t \<Longrightarrow>
      dma_write \<lparr>table_index = k, base_addr = IPA_NAT_BASE_TBL, dma_data = v,
        dma_offset = ucast e * 32 + of_nat f\<rparr> t = upd_rule e (put_rule_field f v) t"
    and "\<not> e < table_entries t \<Longrightarrow>
      dma_write \<lparr>table_index = k, base_addr = IPA_NAT_EXPN_TBL, dma_data = v,
        dma_offset = ucast (e - table_entries t) * 32 + of_nat f\<rparr> t = upd_rule e (put_rule_field f v) t"
  using assms(3) by (auto simp: dma_write_def rule_offsets upd_rule_def rule_at_def Let_def)

lemma dma_index:
  assumes "shape t" "e \<in> entries t" "f = 0 \<or> f = 2"
  shows "e < table_entries t \<Longrightarrow>
      dma_write \<lparr>table_index = k, base_addr = IPA_NAT_INDX_TBL, dma_data = v,
        dma_offset = ucast e * 4 + of_nat f\<rparr> t = upd_index e (put_index_field f v) t"
    and "\<not> e < table_entries t \<Longrightarrow>
      dma_write \<lparr>table_index = k, base_addr = IPA_NAT_INDEX_EXPN_TBL, dma_data = v,
        dma_offset = ucast (e - table_entries t) * 4 + of_nat f\<rparr> t = upd_index e (put_index_field f v) t"
  using assms(3) by (auto simp: dma_write_def index_offsets upd_index_def index_at_def Let_def simp del: add_2_eq_Suc')

lemma offsets_shape:
  assumes "shape t"
  shows "ipa_nati_get_entry_offset t e = ucast e * 32" "ipa_nati_get_index_entry_offset t e = ucast e * 4"
  using assms by (simp_all add: shape_def ipa_nati_get_entry_offset_def ipa_nati_get_index_entry_offset_def)

text \<open>With at most \<open>2\<^sup>1\<^sup>4\<close> entries per table the 16-bit offset is the offset.\<close>

lemma narrow_offset:
  assumes "unat (e :: u16) < 2 ^ 14"
  shows "(ucast (ucast (ucast e * 4 :: u32) + 2 :: u16) :: u32) = ucast e * 4 + 2"
proof -
  have "(ucast (ucast e * 4 :: u32) :: u16) = e * 4"
    by (rule bit_eqI) (auto simp: bit_simps simp flip: push_bit_eq_mult [of 2, simplified])
  moreover have "unat (e * 4 + 2) = 4 * unat e + 2"
  proof -
    have "(e * 4 + 2) = of_nat (4 * unat e + 2)" by (simp add: mult.commute)
    then show ?thesis using assms by (simp only: unat_of_nat) simp
  qed
  ultimately have "unat (ucast (ucast (ucast e * 4 :: u32) + 2 :: u16) :: u32) = unat (ucast e * 4 + 2 :: u32)"
    using assms index_offsets(2) [of e] by (simp add: unsigned_ucast_eq take_bit_nat_eq_self_iff)
  then show ?thesis by (simp add: word_unat_eq_iff)
qed


section \<open>The invariant\<close>

definition nx :: "ip4_table \<Rightarrow> u16 \<Rightarrow> u16" where "nx t e = nxt_of (rule_at t e)"
definition pv :: "ip4_table \<Rightarrow> u16 \<Rightarrow> u16" where "pv t e = prv_of (rule_at t e)"
definition ind :: "ip4_table \<Rightarrow> u16 \<Rightarrow> u16" where "ind t e = ind_of (rule_at t e)"
definition us :: "ip4_table \<Rightarrow> u16 \<Rightarrow> bool" where "us t e \<longleftrightarrow> e \<in> entries t \<and> ena_of (rule_at t e)"
definition dead :: "ip4_table \<Rightarrow> u16 \<Rightarrow> bool" where "dead t e \<longleftrightarrow> prt_of (rule_at t e) = 0xFF"
definition inx :: "ip4_table \<Rightarrow> u16 \<Rightarrow> u16" where "inx t i = high16 (index_at t i)"
definition ite :: "ip4_table \<Rightarrow> u16 \<Rightarrow> u16" where "ite t i = low16 (index_at t i)"
definition ius :: "ip4_table \<Rightarrow> u16 \<Rightarrow> bool" where "ius t i \<longleftrightarrow> i \<in> entries t \<and> ite t i \<noteq> 0"

definition live_rule :: "ip4_table \<Rightarrow> u16 \<Rightarrow> bool" where "live_rule t e \<longleftrightarrow> us t e \<and> \<not> dead t e"

text \<open>The rule as the client gave it, the handle of an entry, and where a rule belongs.\<close>

definition client_rule :: "ipa_nat_rule \<Rightarrow> ipa_nat_ipv4_rule" where
  "client_rule r = \<lparr>r_target_ip = h_target_ip r, r_private_ip = h_private_ip r,
     r_target_port = h_target_port r, r_private_port = h_private_port r,
     r_public_port = high16 (nxt_indx_pub_port r), r_protocol = prt_of r\<rparr>"

definition enc :: "ip4_table \<Rightarrow> u16 \<Rightarrow> u16" where
  "enc t e = (if e \<ge> table_entries t then push_bit 1 (e - table_entries t) OR 1 else push_bit 1 e)"

definition dst_bucket :: "ip4_table \<Rightarrow> ipa_nat_ipv4_rule \<Rightarrow> u16" where
  "dst_bucket t c = dst_hash (r_target_ip c) (r_target_port c) (r_public_port c) (r_protocol c) (table_entries t - 1)"

definition src_bucket :: "ip4_table \<Rightarrow> ipa_nat_ipv4_rule \<Rightarrow> u16" where
  "src_bucket t c = src_hash (r_private_ip c) (r_private_port c) (r_target_ip c) (r_target_port c)
     (r_protocol c) (table_entries t - 1)"

abbreviation nat_chains :: "ip4_table \<Rightarrow> (u16 \<Rightarrow> u16 list) \<Rightarrow> bool" where
  "nat_chains t nc \<equiv> chains (bases t) (expns t) (nx t) (pv t) (us t) nc"

abbreviation ind_chains :: "ip4_table \<Rightarrow> (u16 \<Rightarrow> u16 list) \<Rightarrow> bool" where
  "ind_chains t ic \<equiv> chains (bases t) (expns t) (inx t) (meta_at t) (ius t) ic"

text \<open>
  NAT rules and index rules point to each other; a deleted head stays, marked by its
  protocol, as long as rules hang on it. Handles and live rules are in bijection.
\<close>

definition paired :: "ip4_table \<Rightarrow> bool" where
  "paired t \<longleftrightarrow>
     (\<forall>e. us t e \<and> dead t e \<longrightarrow> e \<in> bases t \<and> nx t e \<noteq> 0)
     \<and> (\<forall>e. e < table_entries t \<and> dead t e \<longrightarrow> us t e)
     \<and> (\<forall>e. live_rule t e \<longrightarrow> ius t (ind t e) \<and> ite t (ind t e) = e)
     \<and> (\<forall>i. ius t i \<longrightarrow> live_rule t (ite t i) \<and> ind t (ite t i) = i)"

definition ids_ok :: "ip4_table \<Rightarrow> bool" where
  "ids_ok t \<longleftrightarrow>
     (\<forall>e \<in> entries t. live_rule t e \<longleftrightarrow> enc t e \<in> set (rule_id_array t))
     \<and> (\<forall>x \<in> set (rule_id_array t). x \<noteq> 0 \<longrightarrow> (\<exists>e \<in> entries t. x = enc t e))
     \<and> (\<forall>k k'. k < length (rule_id_array t) \<longrightarrow> k' < length (rule_id_array t) \<longrightarrow> k \<noteq> k'
          \<longrightarrow> rule_id_array t ! k = rule_id_array t ! k' \<longrightarrow> rule_id_array t ! k = 0)"

definition placed :: "ip4_table \<Rightarrow> (u16 \<Rightarrow> u16 list) \<Rightarrow> (u16 \<Rightarrow> u16 list) \<Rightarrow> bool" where
  "placed t nc ic \<longleftrightarrow>
     (\<forall>b. \<forall>e \<in> set (nc b). \<not> dead t e \<longrightarrow> dst_bucket t (client_rule (rule_at t e)) = b)
     \<and> (\<forall>b. \<forall>i \<in> set (ic b). src_bucket t (client_rule (rule_at t (ite t i))) = b)"

definition tbl_inv :: "ip4_table \<Rightarrow> (u16 \<Rightarrow> u16 list) \<Rightarrow> (u16 \<Rightarrow> u16 list) \<Rightarrow> bool" where
  "tbl_inv t nc ic \<longleftrightarrow> shape t \<and> nat_chains t nc \<and> ind_chains t ic \<and> paired t \<and> ids_ok t \<and> placed t nc ic"

lemma put_fields [simp]:
  "nxt_of (put_rule_field 8 v r) = v" "prv_of (put_rule_field f v r) = prv_of r"
  "ind_of (put_rule_field f v r) = ind_of r" "ena_of (put_rule_field 8 v r) = ena_of r"
  "prt_of (put_rule_field 8 v r) = prt_of r" "nxt_of (put_rule_field 18 v r) = nxt_of r"
  "ena_of (put_rule_field 18 v r) = bit v 15" "prt_of (put_rule_field 18 v r) = prt_of r"
  "nxt_of (put_rule_field 22 v r) = nxt_of r" "ena_of (put_rule_field 22 v r) = ena_of r"
  "prt_of (put_rule_field 22 v r) = ucast (drop_bit 8 v)"
  "low16 (put_index_field 0 v w) = v" "high16 (put_index_field 0 v w) = high16 w"
  "low16 (put_index_field 2 v w) = low16 w" "high16 (put_index_field 2 v w) = v"
  by (simp_all add: put_rule_field_def put_index_field_def nxt_of_def prv_of_def ind_of_def ena_of_def
      prt_high16 bit_high16)

lemma put_client_rule [simp]:
  "client_rule (put_rule_field 8 v r) = client_rule r" "client_rule (put_rule_field 18 v r) = client_rule r"
  by (simp_all add: client_rule_def) (simp_all add: put_rule_field_def)

lemma zero_rule_fields [simp]:
  "nxt_of zero_rule = 0" "prv_of zero_rule = 0" "ena_of zero_rule = False" "prt_of zero_rule = 0"
  by (simp_all add: zero_rule_def nxt_of_def prv_of_def ena_of_def prt_of_def)

lemma sw_params_fields [simp]:
  "nxt_of (r\<lparr>sw_spec_params := p\<rparr>) = nxt_of r" "ena_of (r\<lparr>sw_spec_params := p\<rparr>) = ena_of r"
  "prt_of (r\<lparr>sw_spec_params := p\<rparr>) = prt_of r" "client_rule (r\<lparr>sw_spec_params := p\<rparr>) = client_rule r"
  "prv_of (r\<lparr>sw_spec_params := p\<rparr>) = low16 p" "ind_of (r\<lparr>sw_spec_params := p\<rparr>) = high16 p"
  by (simp_all add: nxt_of_def ena_of_def prt_of_def client_rule_def prv_of_def ind_of_def)

lemma rule_enabled_eq: "rule_enabled r = ena_of r"
  by (simp add: rule_enabled_def ena_of_def)

lemma index_used_eq: "index_used w \<longleftrightarrow> low16 w \<noteq> 0"
  by (simp add: index_used_def)

lemma rd_at:
  assumes "shape t" "e \<in> bases t"
  shows "rd (ipv4_rules t) e = Some (rule_at t e)" "rd (index_table t) e = Some (index_at t e)"
  using assms entry_base [OF assms(2)] by (simp_all add: rd_def rule_at_def index_at_def shape_def)

lemma rd_expn_at:
  assumes "shape t" "e \<in> expns t"
  shows "rd (ipv4_expn_rules t) (e - table_entries t) = Some (rule_at t e)"
    "rd (index_table_expn t) (e - table_entries t) = Some (index_at t e)"
    "rd (index_expn_table_meta t) (e - table_entries t) = Some (meta_at t e)"
  using assms entry_sub [OF assms(2,1)] by (simp_all add: rd_def rule_at_def index_at_def meta_at_def shape_def)

lemma scan_from_spec:
  "n \<le> length xs \<Longrightarrow> \<exists>r. scan_from P xs n cnt = Some r
     \<and> (case r of None \<Rightarrow> \<forall>k. cnt \<le> k \<and> k < n \<longrightarrow> \<not> P (xs ! k)
        | Some k \<Rightarrow> cnt \<le> k \<and> k < n \<and> P (xs ! k) \<and> (\<forall>j. cnt \<le> j \<and> j < k \<longrightarrow> \<not> P (xs ! j)))"
proof (induction P xs n cnt rule: scan_from.induct)
  case (1 P xs n cnt)
  show ?case
  proof (cases "cnt < n \<and> \<not> P (xs ! cnt)")
    case True
    then obtain r where r: "scan_from P xs n (cnt + 1) = Some r"
      "case r of None \<Rightarrow> \<forall>k. cnt + 1 \<le> k \<and> k < n \<longrightarrow> \<not> P (xs ! k)
        | Some k \<Rightarrow> cnt + 1 \<le> k \<and> k < n \<and> P (xs ! k) \<and> (\<forall>j. cnt + 1 \<le> j \<and> j < k \<longrightarrow> \<not> P (xs ! j))"
      using 1 by auto
    have "scan_from P xs n cnt = Some r" using True r(1) "1.prems" by (subst scan_from.simps) simp
    moreover have "cnt \<le> k \<longleftrightarrow> k = cnt \<or> cnt + 1 \<le> k" for k by auto
    ultimately show ?thesis using r(2) True by (cases r) auto
  next
    case False
    then show ?thesis using "1.prems" by (subst scan_from.simps) auto
  qed
qed

text \<open>The free entry of an expansion area, for both tables.\<close>

lemma expn_of_nat:
  assumes "shape t" "1 \<le> k" "k < unat (expn_table_entries t)"
  shows "of_nat k + table_entries t \<in> expns t" "(of_nat k :: u16) \<noteq> 0"
    "unat (of_nat k + table_entries t - table_entries t) = k"
proof -
  have k: "k < 2 ^ 14" "unat (table_entries t) \<le> 2 ^ 14" using assms by (simp_all add: shape_def)
  have u: "unat (of_nat k :: u16) = k" using k by (simp add: unat_of_nat)
  then show "unat (of_nat k + table_entries t - table_entries t) = k" by simp
  show "(of_nat k :: u16) \<noteq> 0" using u assms(2) by (metis not_one_le_zero unat_0)
  have "unat (of_nat k + table_entries t) = k + unat (table_entries t)"
    using k u by (subst unat_add_lem [THEN iffD1]) simp_all
  then show "of_nat k + table_entries t \<in> expns t"
    using assms by (simp add: expn_entries_def word_less_nat_alt)
qed

lemma expn_of_nat_ex:
  assumes "shape t" "e \<in> expns t"
  shows "\<exists>k. 1 \<le> k \<and> k < unat (expn_table_entries t) \<and> unat (e - table_entries t) = k"
  using entry_sub [OF assms(2,1)] by (metis One_nat_def Suc_leI unat_eq_0 neq0_conv)

lemma free_rule_entry:
  assumes "shape t"
  shows "\<exists>e. ipa_nati_expn_tbl_free_entry (ipv4_expn_rules t) (expn_table_entries t) = Some e
    \<and> (if e = 0 then \<forall>a \<in> expns t. us t a
       else e + table_entries t \<in> expns t \<and> \<not> us t (e + table_entries t))"
proof -
  have len: "unat (expn_table_entries t) \<le> length (ipv4_expn_rules t)" using assms by (simp add: shape_def)
  obtain r where r: "scan_from (\<lambda>r. \<not> rule_enabled r) (ipv4_expn_rules t) (unat (expn_table_entries t)) 1 = Some r"
    "case r of None \<Rightarrow> \<forall>k. 1 \<le> k \<and> k < unat (expn_table_entries t) \<longrightarrow> rule_enabled (ipv4_expn_rules t ! k)
     | Some k \<Rightarrow> 1 \<le> k \<and> k < unat (expn_table_entries t) \<and> \<not> rule_enabled (ipv4_expn_rules t ! k)"
    using scan_from_spec [OF len, of "\<lambda>r. \<not> rule_enabled r" 1] by (auto split: option.splits)
  show ?thesis
  proof (cases r)
    case None
    have "us t a" if a: "a \<in> expns t" for a
      using expn_of_nat_ex [OF assms a] entry_sub [OF a assms] r(2) a None
      by (auto simp: us_def rule_at_def rule_enabled_eq)
    then show ?thesis using r(1) None by (simp add: ipa_nati_expn_tbl_free_entry_def)
  next
    case (Some k)
    then have k: "1 \<le> k" "k < unat (expn_table_entries t)" "\<not> ena_of (ipv4_expn_rules t ! k)"
      using r(2) by (simp_all add: rule_enabled_eq)
    note e = expn_of_nat [OF assms k(1,2)]
    have "\<not> us t (of_nat k + table_entries t)"
      using e k(3) entry_sub(1) [OF e(1) assms] by (simp add: us_def rule_at_def)
    then show ?thesis using e r(1) Some by (auto simp: ipa_nati_expn_tbl_free_entry_def)
  qed
qed

lemma free_index_entry:
  assumes "shape t"
  shows "\<exists>e. ipa_nati_index_expn_get_free_entry (index_table_expn t) (expn_table_entries t) = Some e
    \<and> (if e = 0 then \<forall>a \<in> expns t. ius t a
       else e + table_entries t \<in> expns t \<and> \<not> ius t (e + table_entries t))"
proof -
  have len: "unat (expn_table_entries t) \<le> length (index_table_expn t)" using assms by (simp add: shape_def)
  obtain r where r: "scan_from (\<lambda>w. \<not> index_used w) (index_table_expn t) (unat (expn_table_entries t)) 1 = Some r"
    "case r of None \<Rightarrow> \<forall>k. 1 \<le> k \<and> k < unat (expn_table_entries t) \<longrightarrow> index_used (index_table_expn t ! k)
     | Some k \<Rightarrow> 1 \<le> k \<and> k < unat (expn_table_entries t) \<and> \<not> index_used (index_table_expn t ! k)"
    using scan_from_spec [OF len, of "\<lambda>w. \<not> index_used w" 1] by (auto split: option.splits)
  show ?thesis
  proof (cases r)
    case None
    have "ius t a" if a: "a \<in> expns t" for a
      using expn_of_nat_ex [OF assms a] entry_sub [OF a assms] r(2) a None
      by (auto simp: ius_def ite_def index_at_def index_used_eq)
    then show ?thesis using r(1) None by (simp add: ipa_nati_index_expn_get_free_entry_def)
  next
    case (Some k)
    then have k: "1 \<le> k" "k < unat (expn_table_entries t)" "low16 (index_table_expn t ! k) = 0"
      using r(2) by (simp_all add: index_used_eq)
    note e = expn_of_nat [OF assms k(1,2)]
    have "\<not> ius t (of_nat k + table_entries t)"
      using e k(3) entry_sub(1) [OF e(1) assms] by (simp add: ius_def ite_def index_at_def)
    then show ?thesis using e r(1) Some by (auto simp: ipa_nati_index_expn_get_free_entry_def)
  qed
qed

end
