(* ===== verification/Nat_Add.thy ===== *)
theory Nat_Add
  imports Nat_Table
begin

text \<open>
  Adding a rule: the effect of each step on the views of the tables, the preservation of
  the invariant, and the handle that is returned.
\<close>

section \<open>Views of an updated table\<close>

lemma views_upd_rule [simp]:
  assumes "e \<in> entries t" "shape t"
  shows "nx (upd_rule e f t) = (nx t)(e := nxt_of (f (rule_at t e)))"
    "pv (upd_rule e f t) = (pv t)(e := prv_of (f (rule_at t e)))"
    "ind (upd_rule e f t) = (ind t)(e := ind_of (f (rule_at t e)))"
    "us (upd_rule e f t) = (us t)(e := ena_of (f (rule_at t e)))"
    "dead (upd_rule e f t) = (dead t)(e := (prt_of (f (rule_at t e)) = 0xFF))"
  using assms by (auto simp: nx_def pv_def ind_def us_def dead_def fun_eq_iff)

lemma views_upd_index [simp]:
  assumes "i \<in> entries t" "shape t"
  shows "inx (upd_index i f t) = (inx t)(i := high16 (f (index_at t i)))"
    "ite (upd_index i f t) = (ite t)(i := low16 (f (index_at t i)))"
    "ius (upd_index i f t) = (ius t)(i := (low16 (f (index_at t i)) \<noteq> 0))"
  using assms by (auto simp: inx_def ite_def ius_def fun_eq_iff)

lemma views_frame [simp]:
  "inx (upd_rule e f t) = inx t" "ite (upd_rule e f t) = ite t" "ius (upd_rule e f t) = ius t"
  "nx (upd_index i g t) = nx t" "pv (upd_index i g t) = pv t" "ind (upd_index i g t) = ind t"
  "us (upd_index i g t) = us t" "dead (upd_index i g t) = dead t"
  "nx (upd_meta i v t) = nx t" "pv (upd_meta i v t) = pv t" "ind (upd_meta i v t) = ind t"
  "us (upd_meta i v t) = us t" "dead (upd_meta i v t) = dead t"
  "inx (upd_meta i v t) = inx t" "ite (upd_meta i v t) = ite t" "ius (upd_meta i v t) = ius t"
  "nx (upd_id k v t) = nx t" "pv (upd_id k v t) = pv t" "ind (upd_id k v t) = ind t"
  "us (upd_id k v t) = us t" "dead (upd_id k v t) = dead t"
  "inx (upd_id k v t) = inx t" "ite (upd_id k v t) = ite t" "ius (upd_id k v t) = ius t"
  by (simp_all add: nx_def pv_def ind_def us_def dead_def inx_def ite_def ius_def fun_eq_iff)

lemma enc_frame [simp]:
  "enc (upd_rule e f t) = enc t" "enc (upd_index i g t) = enc t" "enc (upd_meta i v t) = enc t"
  "enc (upd_id k w t) = enc t"
  "dst_bucket (upd_rule e f t) = dst_bucket t" "dst_bucket (upd_index i g t) = dst_bucket t"
  "dst_bucket (upd_meta i v t) = dst_bucket t" "dst_bucket (upd_id k w t) = dst_bucket t"
  "src_bucket (upd_rule e f t) = src_bucket t" "src_bucket (upd_index i g t) = src_bucket t"
  "src_bucket (upd_meta i v t) = src_bucket t" "src_bucket (upd_id k w t) = src_bucket t"
  by (simp_all add: enc_def dst_bucket_def src_bucket_def fun_eq_iff)

lemma tbl_invD:
  assumes "tbl_inv t nc ic"
  shows "shape t" "nat_chains t nc" "ind_chains t ic" "paired t" "ids_ok t" "placed t nc ic"
  using assms by (simp_all add: tbl_inv_def)


section \<open>Where a new rule goes\<close>

lemma dst_bucket_base:
  assumes "shape t" shows "dst_bucket t c \<in> bases t" "src_bucket t c \<in> bases t"
proof -
  define m where "m = table_entries t - 1"
  have T: "2 \<le> unat (table_entries t)" using assms by (simp add: shape_def)
  then have le: "1 \<le> table_entries t" by (simp add: word_le_nat_alt)
  then have m: "unat m = unat (table_entries t) - 1" unfolding m_def by (simp add: unat_sub)
  then have nz: "m \<noteq> 0" using T by auto
  have lt: "x < table_entries t" if "x \<le> m" for x
    using that m T by (simp add: word_le_nat_alt word_less_nat_alt)
  have ne: "0 < x" if "x \<noteq> 0" for x :: u16 using that by (simp add: word_gt_0)
  show "dst_bucket t c \<in> bases t"
    unfolding dst_bucket_def base_entries_def m_def [symmetric]
    using dst_hash_range [OF nz] ne lt by blast
  show "src_bucket t c \<in> bases t"
    unfolding src_bucket_def base_entries_def m_def [symmetric]
    using src_hash_range [OF nz] ne lt by blast
qed

lemma generate_tbl_rule:
  assumes inv: "tbl_inv t nc ic" and b: "b = dst_bucket t c"
  shows "\<exists>e. ipa_nati_generate_tbl_rule c t =
      Some (e, (sw_rule_of (public_addr t) c)\<lparr>prev_index := chain_last nc b\<rparr>)
    \<and> (if e = 0 then nc b \<noteq> [] \<and> (\<forall>a \<in> expns t. us t a) else free_place (expns t) (us t) nc b e)"
proof -
  note i = tbl_invD [OF inv]
  note bb = dst_bucket_base(1) [OF i(1), of c, folded b]
  have hash: "dst_hash (r_target_ip c) (r_target_port c) (r_public_port c) (r_protocol c) (table_entries t - 1) = b"
    by (simp add: b dst_bucket_def)
  have used: "rule_enabled (rule_at t b) \<longleftrightarrow> nc b \<noteq> []"
    using tab.used_base [OF i(2) bb] bb by (simp add: rule_enabled_eq us_def)
  have sw0: "(sw_rule_of (public_addr t) c)\<lparr>prev_index := 0\<rparr> = sw_rule_of (public_addr t) c"
    by (simp add: sw_rule_of_def zero_sw_rule_def)
  show ?thesis
  proof (cases "nc b = []")
    case True
    have "b \<noteq> 0" using entry_base(3) [OF bb] .
    then show ?thesis
      using True used sw0
      by (simp add: ipa_nati_generate_tbl_rule_def Let_def hash rd_at [OF i(1) bb] chain_last_def free_place_def)
  next
    case False
    have rdx: "map_option (\<lambda>r. Read16BitFieldValue (nxt_indx_pub_port r) NEXT_INDEX_FIELD)
        (rd (ipv4_expn_rules t) (n - table_entries t)) = Some (nx t n)"
      if "n \<in> expns t" for n using rd_expn_at(1) [OF i(1) that] by (simp add: nx_def)
    note w = tab.chain_end [OF i(2) False rdx, unfolded nx_def]
    obtain e where e: "ipa_nati_expn_tbl_free_entry (ipv4_expn_rules t) (expn_table_entries t) = Some e"
      "if e = 0 then \<forall>a \<in> expns t. us t a
       else e + table_entries t \<in> expns t \<and> \<not> us t (e + table_entries t)"
      using free_rule_entry [OF i(1)] by blast
    show ?thesis
    proof (cases "e = 0")
      case True
      then show ?thesis
        using False used e
        by (simp add: ipa_nati_generate_tbl_rule_def Let_def hash rd_at [OF i(1) bb] w
            IPA_NAT_INVALID_NAT_ENTRY_def chain_last_def split del: if_split)
    next
      case nz: False
      have "e + table_entries t \<noteq> 0" using e(2) nz tab.no_zero(2) by metis
      then show ?thesis
        using False used e nz
        by (simp add: ipa_nati_generate_tbl_rule_def Let_def hash rd_at [OF i(1) bb] w
            IPA_NAT_INVALID_NAT_ENTRY_def chain_last_def free_place_def split del: if_split)
    qed
  qed
qed

lemma generate_index_rule:
  assumes inv: "tbl_inv t nc ic" and b: "b = src_bucket t c"
  shows "\<exists>i. ipa_nati_generate_index_rule c e t =
      Some (i, \<lparr>i_tbl_entry = e, i_next_index = 0, i_prev_index = chain_last ic b\<rparr>)
    \<and> (if i = 0 then ic b \<noteq> [] \<and> (\<forall>a \<in> expns t. ius t a) else free_place (expns t) (ius t) ic b i)"
proof -
  note i = tbl_invD [OF inv]
  note bb = dst_bucket_base(2) [OF i(1), of c, folded b]
  have hash: "src_hash (r_private_ip c) (r_private_port c) (r_target_ip c) (r_target_port c) (r_protocol c)
      (table_entries t - 1) = b"
    by (simp add: b src_bucket_def)
  have used: "index_used (index_at t b) \<longleftrightarrow> ic b \<noteq> []"
    using tab.used_base [OF i(3) bb] bb by (simp add: index_used_eq ius_def ite_def)
  show ?thesis
  proof (cases "ic b = []")
    case True
    have "b \<noteq> 0" using entry_base(3) [OF bb] .
    then show ?thesis
      using True used
      by (simp add: ipa_nati_generate_index_rule_def Let_def hash rd_at [OF i(1) bb] chain_last_def free_place_def)
  next
    case False
    have rdx: "map_option (\<lambda>w. Read16BitFieldValue w INDX_TBL_NEXT_INDEX_FILED)
        (rd (index_table_expn t) (n - table_entries t)) = Some (inx t n)"
      if "n \<in> expns t" for n using rd_expn_at(2) [OF i(1) that] by (simp add: inx_def)
    note w = tab.chain_end [OF i(3) False rdx, unfolded inx_def]
    obtain k where k: "ipa_nati_index_expn_get_free_entry (index_table_expn t) (expn_table_entries t) = Some k"
      "if k = 0 then \<forall>a \<in> expns t. ius t a
       else k + table_entries t \<in> expns t \<and> \<not> ius t (k + table_entries t)"
      using free_index_entry [OF i(1)] by blast
    show ?thesis
    proof (cases "k = 0")
      case True
      then show ?thesis
        using False used k
        by (simp add: ipa_nati_generate_index_rule_def Let_def hash rd_at [OF i(1) bb] w
            IPA_NAT_INVALID_NAT_ENTRY_def chain_last_def split del: if_split)
    next
      case nz: False
      have "k + table_entries t \<noteq> 0" using k(2) nz tab.no_zero(2) by metis
      moreover have "last (ic b) \<noteq> k + table_entries t"
        using k(2) nz tab.chainsD(7) [OF i(3), of "last (ic b)"] last_in_set [OF False] by auto
      ultimately show ?thesis
        using False used k nz
        by (simp add: ipa_nati_generate_index_rule_def Let_def hash rd_at [OF i(1) bb] w
            IPA_NAT_INVALID_NAT_ENTRY_def chain_last_def free_place_def split del: if_split)
    qed
  qed
qed


section \<open>The steps of adding a rule\<close>

definition link_next :: "u16 \<Rightarrow> u16 \<Rightarrow> ip4_table \<Rightarrow> ip4_table" where
  "link_next p e t = (if p = 0 then t else upd_rule p (put_rule_field 8 e) t)"

definition link_index :: "u16 \<Rightarrow> u16 \<Rightarrow> ip4_table \<Rightarrow> ip4_table" where
  "link_index p i t = (if p = 0 then t else upd_index p (put_index_field 2 i) t)"

lemma link_frame [simp]:
  "table_entries (link_next p e t) = table_entries t" "expn_table_entries (link_next p e t) = expn_table_entries t"
  "table_entries (link_index p e t) = table_entries t" "expn_table_entries (link_index p e t) = expn_table_entries t"
  "shape (link_next p e t) = shape t" "shape (link_index p e t) = shape t"
  "rule_id_array (link_next p e t) = rule_id_array t" "rule_id_array (link_index p e t) = rule_id_array t"
  "public_addr (link_next p e t) = public_addr t" "public_addr (link_index p e t) = public_addr t"
  by (simp_all add: link_next_def link_index_def)

lemma write_rule:
  assumes "shape t" "e \<in> entries t"
  shows "e < table_entries t \<Longrightarrow> wr (ipv4_rules t) e x = Some ((ipv4_rules t)[unat e := x])"
    "e < table_entries t \<Longrightarrow> t\<lparr>ipv4_rules := (ipv4_rules t)[unat e := x]\<rparr> = upd_rule e (\<lambda>_. x) t"
    "\<not> e < table_entries t \<Longrightarrow> wr (ipv4_expn_rules t) (e - table_entries t) x =
       Some ((ipv4_expn_rules t)[unat (e - table_entries t) := x])"
    "\<not> e < table_entries t \<Longrightarrow>
       t\<lparr>ipv4_expn_rules := (ipv4_expn_rules t)[unat (e - table_entries t) := x]\<rparr> = upd_rule e (\<lambda>_. x) t"
  using assms entry_sub(3) [OF _ assms(1), of e]
  by (auto simp: wr_def shape_def upd_rule_def word_less_nat_alt base_entries_def expn_entries_def)

lemma write_index:
  assumes "shape t" "i \<in> entries t"
  shows "i < table_entries t \<Longrightarrow> wr (index_table t) i x = Some ((index_table t)[unat i := x])"
    "i < table_entries t \<Longrightarrow> t\<lparr>index_table := (index_table t)[unat i := x]\<rparr> = upd_index i (\<lambda>_. x) t"
    "\<not> i < table_entries t \<Longrightarrow> wr (index_table_expn t) (i - table_entries t) x =
       Some ((index_table_expn t)[unat (i - table_entries t) := x])"
    "\<not> i < table_entries t \<Longrightarrow>
       t\<lparr>index_table_expn := (index_table_expn t)[unat (i - table_entries t) := x]\<rparr> = upd_index i (\<lambda>_. x) t"
  using assms entry_sub(3) [OF _ assms(1), of i]
  by (auto simp: wr_def shape_def upd_index_def word_less_nat_alt base_entries_def expn_entries_def)

lemma write_meta:
  assumes "shape t" "i \<in> expns t"
  shows "wr (index_expn_table_meta t) (i - table_entries t) v =
      Some ((index_expn_table_meta t)[unat (i - table_entries t) := v])"
    "t\<lparr>index_expn_table_meta := (index_expn_table_meta t)[unat (i - table_entries t) := v]\<rparr> = upd_meta i v t"
  using assms entry_sub(3) [OF assms(2,1)] by (simp_all add: wr_def shape_def upd_meta_def)

lemma write_next_index:
  "dma_works dev \<Longrightarrow> ipa_nati_write_next_index dev k ty v off t =
     dma_write \<lparr>table_index = k, base_addr = ty, dma_data = v, dma_offset = off\<rparr> t"
  by (simp add: ipa_nati_write_next_index_def dma_works_def)

lemma copy_rule:
  assumes "dma_works dev" "shape t" "e \<in> entries t" "p = prev_index r" "p \<noteq> 0 \<longrightarrow> p \<in> entries t"
  shows "ipa_nati_copy_ipv4_rule_to_hw dev k r e t = Some (link_next p e (upd_rule e (\<lambda>_. rule_to_hw r) t))"
proof -
  define t1 where "t1 = upd_rule e (\<lambda>_. rule_to_hw r) t"
  have s1: "shape t1" using assms(2) by (simp add: t1_def)
  have T: "table_entries t1 = table_entries t" "expn_table_entries t1 = expn_table_entries t"
    by (simp_all add: t1_def)
  have w: "(if e < table_entries t
        then map_option (\<lambda>l. t\<lparr>ipv4_rules := l\<rparr>) (wr (ipv4_rules t) e (rule_to_hw r))
        else map_option (\<lambda>l. t\<lparr>ipv4_expn_rules := l\<rparr>)
               (wr (ipv4_expn_rules t) (e - table_entries t) (rule_to_hw r))) = Some t1"
    using write_rule [OF assms(2,3), of "rule_to_hw r"] by (simp add: t1_def)
  show ?thesis
  proof (cases "p = 0")
    case True
    then show ?thesis
      using assms(4) unfolding ipa_nati_copy_ipv4_rule_to_hw_def w
      by (simp add: link_next_def IPA_NAT_INVALID_NAT_ENTRY_def flip: t1_def)
  next
    case False
    then have "p \<in> entries t1" using assms(5) T by simp
    note d = dma_rule [OF s1 this, of 8 k e, simplified]
    show ?thesis
      using False d unfolding ipa_nati_copy_ipv4_rule_to_hw_def w
      by (auto simp: link_next_def IPA_NAT_INVALID_NAT_ENTRY_def write_next_index [OF assms(1)]
          offsets_shape [OF s1] simp flip: t1_def assms(4))
  qed
qed

lemma copy_index:
  assumes "dma_works dev" "shape t" "i \<in> entries t" "p = i_prev_index r" "p \<noteq> 0 \<longrightarrow> p \<in> entries t"
  shows "ipa_nati_copy_ipv4_index_rule_to_hw dev k r i t =
    Some (link_index p i (upd_index i (\<lambda>_. pair16 (i_next_index r) (i_tbl_entry r)) t))"
proof -
  define v where "v = pair16 (i_next_index r) (i_tbl_entry r)"
  define t1 where "t1 = upd_index i (\<lambda>_. v) t"
  have s1: "shape t1" using assms(2) by (simp add: t1_def)
  have T: "table_entries t1 = table_entries t" "expn_table_entries t1 = expn_table_entries t"
    by (simp_all add: t1_def)
  have w: "(if i < table_entries t
        then map_option (\<lambda>l. t\<lparr>index_table := l\<rparr>) (wr (index_table t) i v)
        else map_option (\<lambda>l. t\<lparr>index_table_expn := l\<rparr>)
               (wr (index_table_expn t) (i - table_entries t) v)) = Some t1"
    using write_index [OF assms(2,3), of v] by (simp add: t1_def)
  show ?thesis
  proof (cases "p = 0")
    case True
    then show ?thesis
      using assms(4) unfolding ipa_nati_copy_ipv4_index_rule_to_hw_def v_def [symmetric] Let_def w
      by (simp add: link_index_def IPA_NAT_INVALID_NAT_ENTRY_def flip: t1_def)
  next
    case False
    then have p: "p \<in> entries t" "p \<in> entries t1" using assms(5) T by simp_all
    have b: "unat (table_entries t) \<le> 2 ^ 14" "unat (expn_table_entries t) \<le> 2 ^ 14"
      using assms(2) by (simp_all add: shape_def)
    note d = dma_index [OF s1 p(2), of 2 k i, simplified]
    have n1: "p < table_entries t \<Longrightarrow>
        (ucast (ucast (ucast p * 4 :: u32) + 2 :: u16) :: u32) = ucast p * 4 + 2"
      using b by (intro narrow_offset) (simp add: word_less_nat_alt)
    have n2: "\<not> p < table_entries t \<Longrightarrow>
        (ucast (ucast (ucast (p - table_entries t) * 4 :: u32) + 2 :: u16) :: u32) =
          ucast (p - table_entries t) * 4 + 2"
      using b p(1) entry_sub(3) [OF _ assms(2), of p]
      by (intro narrow_offset) (auto simp: base_entries_def)
    show ?thesis
      using False d n1 n2 unfolding ipa_nati_copy_ipv4_index_rule_to_hw_def v_def [symmetric] Let_def w
      by (cases "p < table_entries t") (simp_all add: link_index_def IPA_NAT_INVALID_NAT_ENTRY_def
          write_next_index [OF assms(1)] T offsets_shape [OF s1] flip: t1_def assms(4))
  qed
qed

lemma post_dma:
  assumes "dma_works dev" "shape t" "e \<in> entries t"
  shows "ipa_nati_post_ipv4_dma_cmd dev k e t = (0, upd_rule e (put_rule_field 18 0x8000) t)"
proof -
  have "tbl_addr_offset t = 0" using assms(2) by (simp add: shape_def)
  then show ?thesis
    using assms(1) dma_rule [OF assms(2,3), of 18 k "0x8000", simplified]
    by (cases "e < table_entries t") (simp_all add: ipa_nati_post_ipv4_dma_cmd_def dma_works_def Let_def)
qed

section \<open>Handles\<close>

lemma small_bit: "unat (x :: u16) < 2 ^ 15 \<Longrightarrow> \<not> bit x 15"
proof -
  assume "unat x < 2 ^ 15"
  then have "take_bit 15 x = x" by (simp add: word_unat_eq_iff unsigned_take_bit_eq take_bit_nat_eq_self_iff)
  then have "bit x 15 = bit (take_bit 15 x) 15" by simp
  then show ?thesis by (simp add: bit_simps)
qed

lemma halve_double:
  assumes "unat (x :: u16) < 2 ^ 15"
  shows "drop_bit 1 (push_bit 1 x) = x" "drop_bit 1 (push_bit 1 x OR 1) = x"
    "push_bit 1 x AND 1 = 0" "(push_bit 1 x OR 1) AND 1 = 1"
proof -
  note b = small_bit [OF assms]
  have l: "bit x n \<Longrightarrow> n < 15" for n
    using b bit_imp_le_length [of x n] by (cases "n = 15") auto
  define y where "y = push_bit 1 x"
  have y: "bit y n \<longleftrightarrow> 1 \<le> n \<and> n < 16 \<and> bit x (n - 1)" for n
    by (simp only: y_def bit_push_bit_iff possible_bit_word) (simp add: conj_commute)
  show "drop_bit 1 (push_bit 1 x) = x"
    unfolding y_def [symmetric] by (rule bit_eqI) (use l in \<open>auto simp: bit_simps y\<close>)
  show "drop_bit 1 (push_bit 1 x OR 1) = x"
    unfolding y_def [symmetric] by (rule bit_eqI) (use l in \<open>auto simp: bit_simps y\<close>)
  show "push_bit 1 x AND 1 = 0"
    unfolding y_def [symmetric] by (rule bit_eqI) (auto simp: bit_simps y)
  show "(push_bit 1 x OR 1) AND 1 = 1"
    unfolding y_def [symmetric] by (rule bit_eqI) (auto simp: bit_simps y)
qed

definition dec :: "ip4_table \<Rightarrow> u16 \<Rightarrow> u16" where
  "dec t x = (if x AND 1 \<noteq> 0 then drop_bit 1 x + table_entries t else drop_bit 1 x)"

lemma enc_parts:
  assumes "shape t" "e \<in> entries t"
  shows "(enc t e AND 1 \<noteq> 0) = (\<not> e < table_entries t)"
    "drop_bit 1 (enc t e) = (if e < table_entries t then e else e - table_entries t)"
proof -
  have b: "unat (table_entries t) \<le> 2 ^ 14" "unat (expn_table_entries t) \<le> 2 ^ 14"
    using assms(1) by (simp_all add: shape_def)
  have 1: "e < table_entries t \<Longrightarrow> unat e < 2 ^ 15" using b by (simp add: word_less_nat_alt)
  have 2: "\<not> e < table_entries t \<Longrightarrow> unat (e - table_entries t) < 2 ^ 15"
    using assms(2) b entry_sub(3) [OF _ assms(1), of e] by (auto simp: base_entries_def)
  have "(enc t e AND 1 \<noteq> 0) = (\<not> e < table_entries t)
    \<and> drop_bit 1 (enc t e) = (if e < table_entries t then e else e - table_entries t)"
  proof (cases "e < table_entries t")
    case True
    then have enc: "enc t e = push_bit 1 e" unfolding enc_def by (simp only: not_le if_not_P)
    show ?thesis unfolding enc halve_double(1,3) [OF 1 [OF True]] using True by simp
  next
    case False
    then have enc: "enc t e = push_bit 1 (e - table_entries t) OR 1" unfolding enc_def by (simp only: not_less if_P)
    show ?thesis unfolding enc halve_double(2,4) [OF 2 [OF False]] using False by simp
  qed
  then show "(enc t e AND 1 \<noteq> 0) = (\<not> e < table_entries t)"
    "drop_bit 1 (enc t e) = (if e < table_entries t then e else e - table_entries t)" by blast+
qed

lemma dec_enc: "shape t \<Longrightarrow> e \<in> entries t \<Longrightarrow> dec t (enc t e) = e"
  unfolding dec_def enc_parts by simp

lemma enc_eq: "\<lbrakk>shape t; e \<in> entries t; e' \<in> entries t\<rbrakk> \<Longrightarrow> enc t e = enc t e' \<longleftrightarrow> e = e'"
  using dec_enc by metis

lemma enc_nonzero:
  assumes "shape t" "e \<in> entries t" shows "enc t e \<noteq> 0"
proof
  assume z: "enc t e = 0"
  have l: "e < table_entries t" using enc_parts(1) [OF assms] z by simp
  then have "e = 0" using enc_parts(2) [OF assms] z by simp
  then show False using assms(2) tab.no_zero by blast
qed

lemma entries_card:
  assumes "shape t"
  shows "finite (entries t)" "card (entries t) \<le> unat (table_entries t) + unat (expn_table_entries t) - 2"
proof -
  define T E where "T = unat (table_entries t)" and "E = unat (expn_table_entries t)"
  have b: "2 \<le> T" "2 \<le> E" using assms by (simp_all add: shape_def T_def E_def)
  have sub: "unat ` entries t \<subseteq> {1..<T} \<union> {T + 1..<T + E}"
  proof
    fix x assume "x \<in> unat ` entries t"
    then obtain e where e: "x = unat e" "e \<in> bases t \<or> e \<in> expns t" by blast
    have "e \<noteq> 0" using e(2) tab.no_zero by metis
    then have "0 < unat e" by (simp add: unat_gt_0)
    then show "x \<in> {1..<T} \<union> {T + 1..<T + E}"
      using e by (auto simp: base_entries_def expn_entries_def word_less_nat_alt T_def E_def)
  qed
  show "finite (entries t)" by simp
  have "card (entries t) = card (unat ` entries t)"
    by (intro card_image [symmetric] inj_onI) (simp flip: word_unat_eq_iff)
  also have "\<dots> \<le> card ({1..<T} \<union> {T + 1..<T + E})" by (intro card_mono sub) simp
  also have "\<dots> \<le> (T - 1) + (E - 1)" using card_Un_le [of "{1..<T}" "{T + 1..<T + E}"] by simp
  finally show "card (entries t) \<le> unat (table_entries t) + unat (expn_table_entries t) - 2"
    using b by (simp add: T_def E_def)
qed

text \<open>
  There are two handle slots more than entries: the search for a free slot succeeds, and
  the handle it gives is below the number that the parser of handles rejects.
\<close>

lemma free_handle_slot:
  assumes "shape t" "ids_ok t"
  shows "\<exists>k. scan_from (\<lambda>x. x = 0) (rule_id_array t)
      (unat (table_entries t) + unat (expn_table_entries t)) 0 = Some (Some k)
    \<and> k + 1 < unat (table_entries t) + unat (expn_table_entries t) \<and> rule_id_array t ! k = 0"
proof -
  define n where "n = unat (table_entries t) + unat (expn_table_entries t)"
  define ids where "ids = rule_id_array t"
  have len: "length ids = n" and n2: "2 \<le> n" using assms(1) by (simp_all add: shape_def ids_def n_def)
  have bound: "m \<le> n - 2" if m: "m \<le> n" and nz: "\<forall>j<m. ids ! j \<noteq> 0" for m
  proof -
    have "ids ! i \<noteq> ids ! j" if "i < m" "j < m" "i \<noteq> j" for i j
      using assms(2) nz m len that unfolding ids_ok_def ids_def [symmetric] by (meson less_le_trans)
    then have "distinct (take m ids)" using m len by (simp add: distinct_conv_nth)
    moreover have "set (take m ids) \<subseteq> enc t ` entries t"
    proof
      fix x assume x: "x \<in> set (take m ids)"
      then have "x \<noteq> 0" using nz m len by (auto simp: in_set_conv_nth)
      moreover have "x \<in> set ids" using x by (rule in_set_takeD)
      ultimately have "\<exists>e \<in> entries t. x = enc t e"
        using assms(2) unfolding ids_ok_def ids_def [symmetric] by blast
      then show "x \<in> enc t ` entries t" by (simp add: image_iff)
    qed
    moreover have "card (enc t ` entries t) \<le> n - 2"
      using entries_card [OF assms(1)] card_image_le [of "entries t" "enc t"] unfolding n_def by linarith
    ultimately have "card (set (take m ids)) \<le> n - 2"
      using card_mono [of "enc t ` entries t" "set (take m ids)"] by simp
    then show ?thesis using \<open>distinct (take m ids)\<close> m len by (simp add: distinct_card)
  qed
  obtain r where r: "scan_from (\<lambda>x. x = 0) ids n 0 = Some r"
    "case r of None \<Rightarrow> \<forall>k. 0 \<le> k \<and> k < n \<longrightarrow> \<not> ids ! k = 0
     | Some k \<Rightarrow> 0 \<le> k \<and> k < n \<and> ids ! k = 0 \<and> (\<forall>j. 0 \<le> j \<and> j < k \<longrightarrow> \<not> ids ! j = 0)"
    using scan_from_spec [of n ids "\<lambda>x. x = 0" 0] len by blast
  show ?thesis
  proof (cases r)
    case None
    then show ?thesis using r(2) bound [of n] n2 by simp
  next
    case (Some k)
    have "k \<le> n - 2" using bound [of k] r(2) Some by simp
    then show ?thesis using r Some n2 unfolding n_def [symmetric] ids_def [symmetric] by auto
  qed
qed

lemma make_rule_hdl:
  assumes "shape t" "ids_ok t"
  shows "\<exists>k. ipa_nati_make_rule_hdl e t = Some (of_nat (k + 1), upd_id k (enc t e) t)
    \<and> k + 1 < unat (table_entries t) + unat (expn_table_entries t) \<and> rule_id_array t ! k = 0
    \<and> unat (of_nat (k + 1) :: u16) = k + 1"
proof -
  obtain k where k: "scan_from (\<lambda>x. x = 0) (rule_id_array t)
      (unat (table_entries t) + unat (expn_table_entries t)) 0 = Some (Some k)"
    "k + 1 < unat (table_entries t) + unat (expn_table_entries t)" "rule_id_array t ! k = 0"
    using free_handle_slot [OF assms] by blast
  have "k + 1 < 2 ^ 16" using k(2) assms(1) by (simp add: shape_def)
  then have "unat (of_nat (k + 1) :: u16) = k + 1" by (simp only: unat_of_nat) simp
  then show ?thesis
    using k unfolding ipa_nati_make_rule_hdl_def Let_def k(1) upd_id_def enc_def by auto
qed

section \<open>The table with the new rule\<close>

definition added :: "ipa_nat_sw_rule \<Rightarrow> u16 \<Rightarrow> u16 \<Rightarrow> u16 \<Rightarrow> ip4_table \<Rightarrow> ip4_table" where
  "added r e i ip t =
     upd_rule e (put_rule_field 18 0x8000)
       (link_index ip i (upd_index i (\<lambda>_. pair16 0 e)
         (link_next (prev_index r) e (upd_rule e (\<lambda>_. rule_to_hw r)
           (if i < table_entries t then t else upd_meta i ip t)))))"

lemma added_frame [simp]:
  "table_entries (added r e i ip t) = table_entries t" "expn_table_entries (added r e i ip t) = expn_table_entries t"
  "shape (added r e i ip t) = shape t" "rule_id_array (added r e i ip t) = rule_id_array t"
  "public_addr (added r e i ip t) = public_addr t"
  by (simp_all add: added_def)

lemma buckets_eq:
  assumes "table_entries t' = table_entries t"
  shows "enc t' = enc t" "dst_bucket t' = dst_bucket t" "src_bucket t' = src_bucket t" "dec t' = dec t"
  using assms by (simp_all add: enc_def dst_bucket_def src_bucket_def dec_def fun_eq_iff)

lemma us_put: "p \<in> entries t \<Longrightarrow> (us t)(p := ena_of (rule_at t p)) = us t"
  by (auto simp: us_def fun_eq_iff)

lemma views_link:
  assumes "shape t" "p \<noteq> 0 \<longrightarrow> p \<in> entries t"
  shows "nx (link_next p e t) = (if p = 0 then nx t else (nx t)(p := e))"
    "pv (link_next p e t) = pv t" "ind (link_next p e t) = ind t" "us (link_next p e t) = us t"
    "dead (link_next p e t) = dead t" "client_rule (rule_at (link_next p e t) a) = client_rule (rule_at t a)"
    "inx (link_next p e t) = inx t" "ite (link_next p e t) = ite t" "ius (link_next p e t) = ius t"
    "meta_at (link_next p e t) = meta_at t"
    "inx (link_index p e t) = (if p = 0 then inx t else (inx t)(p := e))"
    "ite (link_index p e t) = ite t" "ius (link_index p e t) = ius t" "meta_at (link_index p e t) = meta_at t"
    "rule_at (link_index p e t) = rule_at t"
    "nx (link_index p e t) = nx t" "pv (link_index p e t) = pv t" "ind (link_index p e t) = ind t"
    "us (link_index p e t) = us t" "dead (link_index p e t) = dead t"
  using assms
  by (simp_all add: link_next_def link_index_def us_put fun_eq_iff)
    (auto simp: pv_def ind_def us_def dead_def ite_def ius_def)

lemma views_added:
  assumes "shape t" "e \<in> entries t" "i \<in> entries t" "next_index r = 0" "p = prev_index r"
    and p: "p \<noteq> 0 \<longrightarrow> p \<in> entries t" "p \<noteq> e" and ip: "ip \<noteq> 0 \<longrightarrow> ip \<in> entries t" "ip \<noteq> i"
  shows "nx (added r e i ip t) = (if p = 0 then nx t else (nx t)(p := e))(e := 0)"
    "pv (added r e i ip t) = (pv t)(e := p)"
    "ind (added r e i ip t) = (ind t)(e := indx_tbl_entry r)"
    "us (added r e i ip t) = (us t)(e := True)"
    "dead (added r e i ip t) = (dead t)(e := (s_protocol r = 0xFF))"
    "client_rule (rule_at (added r e i ip t) a) =
       (if a = e then client_rule (rule_to_hw r) else client_rule (rule_at t a))"
    "inx (added r e i ip t) = (if ip = 0 then inx t else (inx t)(ip := i))(i := 0)"
    "ite (added r e i ip t) = (ite t)(i := e)"
    "ius (added r e i ip t) = (ius t)(i := True)"
    "meta_at (added r e i ip t) = (if i < table_entries t then meta_at t else (meta_at t)(i := ip))"
proof -
  define t0 where "t0 = (if i < table_entries t then t else upd_meta i ip t)"
  have i': "i \<in> expns t" if "\<not> i < table_entries t" using that assms(3) by (auto simp: base_entries_def)
  have t0: "shape t0" "table_entries t0 = table_entries t" "expn_table_entries t0 = expn_table_entries t"
    "nx t0 = nx t" "pv t0 = pv t" "ind t0 = ind t" "us t0 = us t" "dead t0 = dead t" "rule_at t0 = rule_at t"
    "inx t0 = inx t" "ite t0 = ite t" "ius t0 = ius t" "index_at t0 = index_at t"
    "meta_at t0 = (if i < table_entries t then meta_at t else (meta_at t)(i := ip))"
    using assms(1) i' by (auto simp: t0_def)
  define t1 where "t1 = upd_rule e (\<lambda>_. rule_to_hw r) t0"
  define t2 where "t2 = link_next p e t1"
  define t3 where "t3 = upd_index i (\<lambda>_. pair16 0 e) t2"
  define t4 where "t4 = link_index ip i t3"
  have ad: "added r e i ip t = upd_rule e (put_rule_field 18 0x8000) t4"
    by (simp add: added_def t4_def t3_def t2_def t1_def t0_def flip: assms(5))
  have e0: "e \<noteq> 0" using assms(2) tab.no_zero by blast
  have t1: "shape t1" "table_entries t1 = table_entries t" "expn_table_entries t1 = expn_table_entries t"
    "nx t1 = (nx t)(e := 0)" "pv t1 = (pv t)(e := p)" "ind t1 = (ind t)(e := indx_tbl_entry r)"
    "rule_at t1 = (rule_at t)(e := rule_to_hw r)"
    "dead t1 = (dead t)(e := (s_protocol r = 0xFF))" "us t1 = (us t)(e := enable r)"
    "inx t1 = inx t" "ite t1 = ite t" "ius t1 = ius t" "index_at t1 = index_at t" "meta_at t1 = meta_at t0"
    using assms(2,4,5) t0 by (simp_all add: t1_def)
  have p1: "p \<noteq> 0 \<longrightarrow> p \<in> entries t1" using p t1 by simp
  note l2 = views_link [OF t1(1) p1, of e, folded t2_def]
  have f2: "shape t2" "table_entries t2 = table_entries t" "expn_table_entries t2 = expn_table_entries t"
    "rule_at t2 e = rule_to_hw r"
    using t1 p p1 by (simp_all add: t2_def link_next_def)
  have f3: "shape t3" "table_entries t3 = table_entries t" "expn_table_entries t3 = expn_table_entries t"
    "rule_at t3 = rule_at t2" using f2 by (simp_all add: t3_def)
  have v3: "inx t3 = (inx t)(i := 0)" "ite t3 = (ite t)(i := e)" "ius t3 = (ius t)(i := True)"
    "nx t3 = nx t2" "pv t3 = pv t2" "ind t3 = ind t2" "us t3 = us t2" "dead t3 = dead t2" "meta_at t3 = meta_at t2"
    using f2 l2 t1 t0 assms(3) e0 by (simp_all add: t3_def)
  have ip3: "ip \<noteq> 0 \<longrightarrow> ip \<in> entries t3" using ip f3 by simp
  note l4 = views_link [OF f3(1) ip3, of i, folded t4_def]
  have f4: "shape t4" "table_entries t4 = table_entries t" "expn_table_entries t4 = expn_table_entries t"
    "rule_at t4 = rule_at t2" "e \<in> entries t4" using f3 l4 assms(2) by (simp_all add: t4_def)
  have b: "bit (0x8000 :: u16) 15" by simp
  show "nx (added r e i ip t) = (if p = 0 then nx t else (nx t)(p := e))(e := 0)"
    "pv (added r e i ip t) = (pv t)(e := p)"
    "ind (added r e i ip t) = (ind t)(e := indx_tbl_entry r)"
    "us (added r e i ip t) = (us t)(e := True)"
    "dead (added r e i ip t) = (dead t)(e := (s_protocol r = 0xFF))"
    unfolding ad using f4 f2(4) l4 v3 l2 t1 t0 p(2) assms(4,5) b by (auto simp: fun_eq_iff)
  show "inx (added r e i ip t) = (if ip = 0 then inx t else (inx t)(ip := i))(i := 0)"
    "ite (added r e i ip t) = (ite t)(i := e)"
    "ius (added r e i ip t) = (ius t)(i := True)"
    "meta_at (added r e i ip t) = (if i < table_entries t then meta_at t else (meta_at t)(i := ip))"
    unfolding ad using f4 l4 v3 l2 t1 t0 ip(2) by (auto simp: fun_eq_iff)
  show "client_rule (rule_at (added r e i ip t) a) =
       (if a = e then client_rule (rule_to_hw r) else client_rule (rule_at t a))"
    unfolding ad using f4 f2(4) l2(6) [of a] t1 by simp
qed

lemma client_rule_hw:
  "client_rule (rule_to_hw ((sw_rule_of pub c)\<lparr>prev_index := p, indx_tbl_entry := i\<rparr>)) = c"
  "next_index (sw_rule_of pub c) = 0" "s_protocol (sw_rule_of pub c) = r_protocol c"
proof -
  have "prt_of (rule_to_hw ((sw_rule_of pub c)\<lparr>prev_index := p, indx_tbl_entry := i\<rparr>)) = r_protocol c"
    unfolding fields_rule_to_hw by (simp add: sw_rule_of_def)
  then show "client_rule (rule_to_hw ((sw_rule_of pub c)\<lparr>prev_index := p, indx_tbl_entry := i\<rparr>)) = c"
    unfolding client_rule_def by (simp add: rule_to_hw_def sw_rule_of_def)
qed (simp_all add: sw_rule_of_def zero_sw_rule_def)

section \<open>The invariant after adding a rule\<close>

lemma paired_added:
  assumes p: "paired t" and e: "e \<in> entries t" "\<not> us t e" and i: "i \<in> entries t" "\<not> ius t i"
    and v: "nx t' = (if p = 0 then nx t else (nx t)(p := e))(e := 0)" "ind t' = (ind t)(e := i)"
      "us t' = (us t)(e := True)" "dead t' = (dead t)(e := False)" "ite t' = (ite t)(i := e)"
      "ius t' = (ius t)(i := True)"
    and T: "table_entries t' = table_entries t" "expn_table_entries t' = expn_table_entries t"
  shows "paired t'"
proof -
  have e0: "e \<noteq> 0" using e tab.no_zero by blast
  have lv: "live_rule t' a \<longleftrightarrow> a = e \<or> (live_rule t a \<and> a \<noteq> e)" for a by (simp add: live_rule_def v)
  have ne: "live_rule t a \<Longrightarrow> a \<noteq> e" for a using e by (auto simp: live_rule_def)
  have ni: "ius t a \<Longrightarrow> a \<noteq> i" for a using i by auto
  have "us t' a \<and> dead t' a \<Longrightarrow> a \<in> bases t' \<and> nx t' a \<noteq> 0" for a
    using p e0 unfolding paired_def T v by (auto split: if_splits)
  moreover have "a < table_entries t' \<and> dead t' a \<Longrightarrow> us t' a" for a
    using p unfolding paired_def T v by auto
  moreover have "ius t' (ind t' a) \<and> ite t' (ind t' a) = a" if "live_rule t' a" for a
    using p that ne ni unfolding paired_def lv v by (cases "a = e") auto
  moreover have "live_rule t' (ite t' a) \<and> ind t' (ite t' a) = a" if "ius t' a" for a
  proof (cases "a = i")
    case True
    then show ?thesis by (simp add: lv v)
  next
    case False
    then have u: "ius t a" "ite t' a = ite t a" using that by (simp_all add: v)
    have "live_rule t (ite t a) \<and> ind t (ite t a) = a" using p u(1) unfolding paired_def by blast
    then show ?thesis using u ne [of "ite t a"] lv v(2) by simp
  qed
  ultimately show ?thesis unfolding paired_def by blast
qed

lemma ids_added:
  assumes o: "ids_ok t" and sh: "shape t" and e: "e \<in> entries t" "\<not> live_rule t e"
    and k: "k < length (rule_id_array t)" "rule_id_array t ! k = 0"
    and lv: "\<And>a. live_rule t' a \<longleftrightarrow> a = e \<or> live_rule t a"
    and T: "table_entries t' = table_entries t" "expn_table_entries t' = expn_table_entries t"
      "rule_id_array t' = (rule_id_array t)[k := enc t e]"
  shows "ids_ok t'"
proof -
  note b = buckets_eq(1) [OF T(1)]
  define ids where "ids = rule_id_array t"
  have kk: "k < length ids" "ids ! k = 0" using k by (simp_all add: ids_def)
  have set: "x \<in> set (ids[k := enc t e]) \<longleftrightarrow> x = enc t e \<or> x \<in> set ids" if "x \<noteq> 0" for x
    using kk that by (auto simp: in_set_conv_nth nth_list_update split: if_splits)
  have "live_rule t' a \<longleftrightarrow> enc t' a \<in> set (rule_id_array t')" if a: "a \<in> entries t'" for a
  proof -
    have a': "a \<in> entries t" using a T by simp
    have "live_rule t a \<longleftrightarrow> enc t a \<in> set ids" using o a' unfolding ids_ok_def ids_def by blast
    then show ?thesis
      using set [OF enc_nonzero [OF sh a']] lv [of a] enc_eq [OF sh a' e(1)] unfolding b T ids_def by auto
  qed
  moreover have "\<exists>a \<in> entries t'. x = enc t' a" if "x \<in> set (rule_id_array t')" "x \<noteq> 0" for x
    using o that(1) set [OF that(2)] e(1) that(2) unfolding b T ids_ok_def ids_def by auto
  moreover have "rule_id_array t' ! j = 0"
    if j: "j < length (rule_id_array t')" "j' < length (rule_id_array t')" "j \<noteq> j'"
      "rule_id_array t' ! j = rule_id_array t' ! j'" for j j'
  proof -
    have no: "enc t e \<notin> set ids" using o e unfolding ids_ok_def ids_def by blast
    have l: "j < length ids" "j' < length ids" using j by (simp_all add: T ids_def)
    have old: "ids ! j = ids ! j' \<Longrightarrow> ids ! j = 0" using o l j(3) unfolding ids_ok_def ids_def by blast
    have "ids ! j \<noteq> enc t e" "ids ! j' \<noteq> enc t e" using l no nth_mem by metis+
    then have "j \<noteq> k" "j' \<noteq> k"
      using j(3,4) l kk(1) unfolding T ids_def [symmetric] by (auto simp: nth_list_update)
    then show ?thesis using j(4) old unfolding T ids_def [symmetric] by simp
  qed
  ultimately show ?thesis unfolding ids_ok_def by blast
qed

lemma placed_added:
  assumes p: "placed t nc ic" and e: "\<forall>b. e \<notin> set (nc b)" and i: "\<forall>b. i \<notin> set (ic b)"
    and ne: "\<forall>b. \<forall>j \<in> set (ic b). ite t j \<noteq> e"
    and v: "dead t' = (dead t)(e := False)" "ite t' = (ite t)(i := e)"
      "\<And>a. client_rule (rule_at t' a) = (if a = e then c else client_rule (rule_at t a))"
    and T: "table_entries t' = table_entries t"
  shows "placed t' (nc(dst_bucket t c := nc (dst_bucket t c) @ [e]))
    (ic(src_bucket t c := ic (src_bucket t c) @ [i]))"
  using p e i ne unfolding placed_def buckets_eq [OF T] v by (auto split: if_splits)

lemma tbl_inv_added:
  assumes inv: "tbl_inv t nc ic" and b: "b = dst_bucket t c" and bi: "bi = src_bucket t c"
    and e: "free_place (expns t) (us t) nc b e" and i: "free_place (expns t) (ius t) ic bi i"
    and r: "r = (sw_rule_of (public_addr t) c)\<lparr>prev_index := chain_last nc b, indx_tbl_entry := i\<rparr>"
    and c: "r_protocol c \<noteq> 0xFF" and k: "k < length (rule_id_array t)" "rule_id_array t ! k = 0"
    and t': "t' = upd_id k (enc t e) (added r e i (chain_last ic bi) t)"
  shows "tbl_inv t' (nc(b := nc b @ [e])) (ic(bi := ic bi @ [i]))"
    and "live_rule t' a \<longleftrightarrow> a = e \<or> live_rule t a" "\<not> live_rule t e"
    and "client_rule (rule_at t' a) = (if a = e then c else client_rule (rule_at t a))"
proof -
  note d = tbl_invD [OF inv]
  have bb: "b \<in> bases t" "bi \<in> bases t" unfolding b bi using dst_bucket_base [OF d(1)] by simp_all
  note fe = tab.free_place [OF d(2) bb(1) e] and fi = tab.free_place [OF d(3) bb(2) i]
  have p: "chain_last nc b \<noteq> 0 \<longrightarrow> chain_last nc b \<in> entries t" "chain_last nc b \<noteq> e"
    using tab.chain_last(1) [OF d(2), of b] fe(4) by blast+
  have ip: "chain_last ic bi \<noteq> 0 \<longrightarrow> chain_last ic bi \<in> entries t" "chain_last ic bi \<noteq> i"
    using tab.chain_last(1) [OF d(3), of bi] fi(4) by blast+
  have rf: "next_index r = 0" "prev_index r = chain_last nc b" "indx_tbl_entry r = i" "s_protocol r \<noteq> 0xFF"
    using c by (simp_all add: r client_rule_hw)
  note w = views_added [OF d(1) fe(1) fi(1) rf(1) rf(2) [symmetric] p ip]
  have T: "table_entries t' = table_entries t" "expn_table_entries t' = expn_table_entries t"
    "rule_id_array t' = (rule_id_array t)[k := enc t e]" "shape t'"
    using d(1) by (simp_all add: t')
  have v: "nx t' = (if chain_last nc b = 0 then nx t else (nx t)(chain_last nc b := e))(e := 0)"
    "pv t' = (pv t)(e := chain_last nc b)" "ind t' = (ind t)(e := i)" "us t' = (us t)(e := True)"
    "dead t' = (dead t)(e := False)"
    "inx t' = (if chain_last ic bi = 0 then inx t else (inx t)(chain_last ic bi := i))(i := 0)"
    "ite t' = (ite t)(i := e)" "ius t' = (ius t)(i := True)"
    "meta_at t' = (if i < table_entries t then meta_at t else (meta_at t)(i := chain_last ic bi))"
    using w rf by (simp_all add: t')
  show cl: "client_rule (rule_at t' a) = (if a = e then c else client_rule (rule_at t a))" for a
    using w(6) [of a] client_rule_hw(1) by (simp add: t' r)
  show lv: "live_rule t' a \<longleftrightarrow> a = e \<or> live_rule t a" for a
    by (auto simp: live_rule_def v)
  show ne: "\<not> live_rule t e" using fe(2) by (simp add: live_rule_def)
  have nch: "nat_chains t' (nc(b := nc b @ [e]))"
    unfolding T using fe(2,3) p(2) by (intro tab.chains_add [OF d(2) bb(1) e]) (auto simp: v)
  have ich: "ind_chains t' (ic(bi := ic bi @ [i]))"
    unfolding T
  proof (intro tab.chains_add [OF d(3) bb(2) i])
    show "meta_at t' i = chain_last ic bi" if nz: "chain_last ic bi \<noteq> 0"
    proof -
      have "ic bi \<noteq> []" using nz by (auto simp: chain_last_def)
      then have "i \<in> expns t" using i by (simp add: free_place_def)
      then show ?thesis using entry_sub(1) [OF _ d(1)] by (simp add: v)
    qed
    show "meta_at t' a = meta_at t a" if "a \<noteq> i" for a using that by (simp add: v)
  qed (use fi(2,3) ip(2) in \<open>auto simp: v\<close>)
  have pr: "paired t'"
    by (rule paired_added [OF d(4) fe(1,2) fi(1,2) v(1,3,4,5,7,8) T(1,2)])
  have ids: "ids_ok t'"
    by (rule ids_added [OF d(5,1) fe(1) ne k lv T(1-3)])
  have "\<forall>b. \<forall>j \<in> set (ic b). ite t j \<noteq> e"
  proof (intro allI ballI)
    fix b j assume "j \<in> set (ic b)"
    then have "ius t j" using tab.chainsD(7) [OF d(3)] by blast
    then have "live_rule t (ite t j)" using d(4) unfolding paired_def by blast
    then show "ite t j \<noteq> e" using ne by auto
  qed
  then have pl: "placed t' (nc(b := nc b @ [e])) (ic(bi := ic bi @ [i]))"
    unfolding b bi using fe(5) fi(5) by (intro placed_added [OF d(6) _ _ _ v(5,7) cl T(1)]) blast+
  show "tbl_inv t' (nc(b := nc b @ [e])) (ic(bi := ic bi @ [i]))"
    unfolding tbl_inv_def using T(4) nch ich pr ids pl by blast
qed

section \<open>The operation\<close>

lemma add_rule_to_table:
  assumes dev: "dma_works dev" and inv: "tbl_inv t nc ic" and c: "r_protocol c \<noteq> 0xFF"
  shows "(\<exists>e i k t'. add_rule_to_table dev m c t = Some (0, Some (ucast (of_nat (k + 1) :: u16)), t')
      \<and> k + 1 < unat (table_entries t) + unat (expn_table_entries t) \<and> rule_id_array t ! k = 0
      \<and> k < length (rule_id_array t)
      \<and> free_place (expns t) (us t) nc (dst_bucket t c) e \<and> free_place (expns t) (ius t) ic (src_bucket t c) i
      \<and> t' = upd_id k (enc t e) (added ((sw_rule_of (public_addr t) c)
           \<lparr>prev_index := chain_last nc (dst_bucket t c), indx_tbl_entry := i\<rparr>) e i
           (chain_last ic (src_bucket t c)) t))
    \<or> (add_rule_to_table dev m c t = Some (- EINVAL, None, t)
      \<and> (nc (dst_bucket t c) \<noteq> [] \<and> (\<forall>a \<in> expns t. us t a)
         \<or> ic (src_bucket t c) \<noteq> [] \<and> (\<forall>a \<in> expns t. ius t a)))"
proof -
  note d = tbl_invD [OF inv]
  define b bi where "b = dst_bucket t c" and "bi = src_bucket t c"
  have bb: "b \<in> bases t" "bi \<in> bases t" unfolding b_def bi_def using dst_bucket_base [OF d(1)] by simp_all
  obtain e where e: "ipa_nati_generate_tbl_rule c t =
      Some (e, (sw_rule_of (public_addr t) c)\<lparr>prev_index := chain_last nc b\<rparr>)"
    "if e = 0 then nc b \<noteq> [] \<and> (\<forall>a \<in> expns t. us t a) else free_place (expns t) (us t) nc b e"
    using generate_tbl_rule [OF inv b_def] by blast
  obtain i where i: "ipa_nati_generate_index_rule c e t =
      Some (i, \<lparr>i_tbl_entry = e, i_next_index = 0, i_prev_index = chain_last ic bi\<rparr>)"
    "if i = 0 then ic bi \<noteq> [] \<and> (\<forall>a \<in> expns t. ius t a) else free_place (expns t) (ius t) ic bi i"
    using generate_index_rule [OF inv bi_def] by blast
  show ?thesis
  proof (cases "e = 0 \<or> i = 0")
    case True
    then have "ipa_nati_generate_rule c t = Some (Inl (- EINVAL))"
      using e(1) i(1) by (auto simp: ipa_nati_generate_rule_def IPA_NAT_INVALID_NAT_ENTRY_def)
    then show ?thesis
      using True e(2) i(2) unfolding b_def bi_def by (auto simp: add_rule_to_table_def)
  next
    case False
    then have pe: "free_place (expns t) (us t) nc b e" and pi: "free_place (expns t) (ius t) ic bi i"
      using e(2) i(2) by simp_all
    note fe = tab.free_place [OF d(2) bb(1) pe] and fi = tab.free_place [OF d(3) bb(2) pi]
    define r where "r = (sw_rule_of (public_addr t) c)\<lparr>prev_index := chain_last nc b, indx_tbl_entry := i\<rparr>"
    define t1 where "t1 = (if i < table_entries t then t else upd_meta i (chain_last ic bi) t)"
    have i': "i \<in> expns t" if "\<not> i < table_entries t" using that fi(1) by (auto simp: base_entries_def)
    have gen: "ipa_nati_generate_rule c t =
        Some (Inr (r, \<lparr>i_tbl_entry = e, i_next_index = 0, i_prev_index = chain_last ic bi\<rparr>, e, i, t1))"
      using False e(1) i(1) write_meta [OF d(1) i', of "chain_last ic bi"]
      by (auto simp: ipa_nati_generate_rule_def IPA_NAT_INVALID_NAT_ENTRY_def r_def t1_def not_less Let_def)
    have s1: "shape t1" "entries t1 = entries t" using d(1) by (simp_all add: t1_def)
    define t2 where "t2 = link_next (chain_last nc b) e (upd_rule e (\<lambda>_. rule_to_hw r) t1)"
    have c1: "ipa_nati_copy_ipv4_rule_to_hw dev m r e t1 = Some t2"
      unfolding t2_def using fe(1) tab.chain_last(1) [OF d(2), of b] s1
      by (intro copy_rule [OF dev]) (simp_all add: r_def)
    have s2: "shape t2" "entries t2 = entries t" using s1 by (simp_all add: t2_def)
    define t3 where "t3 = link_index (chain_last ic bi) i (upd_index i (\<lambda>_. pair16 0 e) t2)"
    have c2: "ipa_nati_copy_ipv4_index_rule_to_hw dev m
        \<lparr>i_tbl_entry = e, i_next_index = 0, i_prev_index = chain_last ic bi\<rparr> i t2 = Some t3"
      using copy_index [OF dev s2(1), of i "chain_last ic bi"
          "\<lparr>i_tbl_entry = e, i_next_index = 0, i_prev_index = chain_last ic bi\<rparr>" m]
        fi(1) tab.chain_last(1) [OF d(3), of bi] s2(2) by (simp add: t3_def)
    have s3: "shape t3" "e \<in> entries t3" using s2 fe(1) by (simp_all add: t3_def)
    define t4 where "t4 = added r e i (chain_last ic bi) t"
    have c3: "ipa_nati_post_ipv4_dma_cmd dev m e t3 = (0, t4)"
      using post_dma [OF dev s3] by (simp add: t4_def added_def t3_def t2_def t1_def r_def)
    have s4: "shape t4" "rule_id_array t4 = rule_id_array t" "table_entries t4 = table_entries t"
      "expn_table_entries t4 = expn_table_entries t" using d(1) by (simp_all add: t4_def)
    have lenk: "length (rule_id_array t) = unat (table_entries t) + unat (expn_table_entries t)"
      using d(1) by (simp add: shape_def)
    obtain k where k: "scan_from (\<lambda>x. x = 0) (rule_id_array t)
        (unat (table_entries t) + unat (expn_table_entries t)) 0 = Some (Some k)"
      "k + 1 < unat (table_entries t) + unat (expn_table_entries t)" "rule_id_array t ! k = 0"
      using free_handle_slot [OF d(1,5)] by blast
    have hdl: "ipa_nati_make_rule_hdl e t4 = Some (of_nat (k + 1), upd_id k (enc t e) t4)"
      using k(1) unfolding ipa_nati_make_rule_hdl_def Let_def s4 upd_id_def enc_def by simp
    have "k + 1 < 2 ^ 16" using k(2) d(1) by (simp add: shape_def)
    then have "unat (of_nat (k + 1) :: u16) = k + 1" by (simp only: unat_of_nat) simp
    then have nz: "(of_nat (k + 1) :: u16) \<noteq> 0" by (metis unat_0 add_is_0 one_neq_zero)
    have "add_rule_to_table dev m c t = Some (0, Some (ucast (of_nat (k + 1) :: u16)), upd_id k (enc t e) t4)"
      unfolding add_rule_to_table_def gen using c1 c2 c3 hdl nz by simp
    moreover have "k < length (rule_id_array t)" using k(2) lenk by simp
    ultimately show ?thesis using k(2,3) pe pi unfolding t4_def r_def b_def bi_def by blast
  qed
qed

end
