(* ===== verification/Nat_Del.thy ===== *)
theory Nat_Del
  imports Nat_Add
begin

text \<open>
  Deleting a rule: the commands and the updates that follow them, on the views of the tables.
\<close>

section \<open>Entries by table and number\<close>

definition loc :: "ip4_table \<Rightarrow> u16 \<Rightarrow> u16" where
  "loc t e = (if e < table_entries t then e else e - table_entries t)"

lemma rd_tbl:
  assumes "shape t" "e \<in> entries t"
  shows "rd (nat_tbl (\<not> e < table_entries t) t) (loc t e) = Some (rule_at t e)"
    "rd (ind_tbl (\<not> e < table_entries t) t) (loc t e) = Some (index_at t e)"
  using assms rd_at [OF assms(1), of e] rd_expn_at [OF assms(1), of e]
  by (auto simp: nat_tbl_def ind_tbl_def loc_def base_entries_def expn_entries_def)

lemma wr_tbl:
  assumes "shape t" "e \<in> entries t"
  shows "map_option (\<lambda>l. set_nat_tbl (\<not> e < table_entries t) l t) (wr (nat_tbl (\<not> e < table_entries t) t) (loc t e) x)
      = Some (upd_rule e (\<lambda>_. x) t)"
    "map_option (\<lambda>l. set_ind_tbl (\<not> e < table_entries t) l t) (wr (ind_tbl (\<not> e < table_entries t) t) (loc t e) w)
      = Some (upd_index e (\<lambda>_. w) t)"
  using write_rule [OF assms, of x] write_index [OF assms, of w]
  by (cases "e < table_entries t"; simp add: nat_tbl_def set_nat_tbl_def ind_tbl_def set_ind_tbl_def loc_def)+

lemma upd_const: "upd_rule e f t = upd_rule e (\<lambda>_. f (rule_at t e)) t"
  by (simp add: upd_rule_def)

definition nat_pos :: "ip4_table \<Rightarrow> u16 \<Rightarrow> del_type" where
  "nat_pos t e =
     (if e < table_entries t
      then (if nx t e = 0 then IPA_NAT_DEL_TYPE_ONLY_ONE else IPA_NAT_DEL_TYPE_HEAD)
      else (if nx t e = 0 then IPA_NAT_DEL_TYPE_LAST else IPA_NAT_DEL_TYPE_MIDDLE))"

definition ind_pos :: "ip4_table \<Rightarrow> u16 \<Rightarrow> del_type" where
  "ind_pos t i =
     (if i < table_entries t
      then (if inx t i = 0 then IPA_NAT_DEL_TYPE_ONLY_ONE else IPA_NAT_DEL_TYPE_HEAD)
      else (if inx t i = 0 then IPA_NAT_DEL_TYPE_LAST else IPA_NAT_DEL_TYPE_MIDDLE))"

lemma find_rule_pos:
  assumes "shape t" "e \<in> entries t"
  shows "ipa_nati_find_rule_pos (\<not> e < table_entries t) (loc t e) t = Some (nat_pos t e)"
    "ipa_nati_find_index_rule_pos e t = Some (ind_pos t e)"
proof -
  show "ipa_nati_find_rule_pos (\<not> e < table_entries t) (loc t e) t = Some (nat_pos t e)"
    by (simp add: ipa_nati_find_rule_pos_def rd_tbl [OF assms] nat_pos_def nx_def IPA_NAT_INVALID_NAT_ENTRY_def)
  show "ipa_nati_find_index_rule_pos e t = Some (ind_pos t e)"
    using rd_tbl(2) [OF assms]
    by (cases "e < table_entries t") (simp_all add: ipa_nati_find_index_rule_pos_def ind_pos_def inx_def
        IPA_NAT_INVALID_NAT_ENTRY_def ind_tbl_def loc_def not_le)
qed

section \<open>The commands\<close>

lemma dma_next_field:
  assumes "shape t" "p \<in> entries t" "shape t0" "table_entries t0 = table_entries t"
  shows "dma_write (next_field_cmd m p v t0) t = upd_rule p (put_rule_field 8 v) t"
    "dma_write (index_next_field_cmd m p v t0) t = upd_index p (put_index_field 2 v) t"
  using dma_rule [OF assms(1,2), of 8 m v, simplified] dma_index [OF assms(1,2), of 2 m v, simplified] assms(4)
  by (cases "p < table_entries t"; simp add: next_field_cmd_def index_next_field_cmd_def offsets_shape [OF assms(3)])+

definition nat_cmd :: "ip4_table \<Rightarrow> u16 \<Rightarrow> ip4_table \<Rightarrow> ip4_table" where
  "nat_cmd t0 e t =
     (if e < table_entries t0
      then upd_rule e (if nx t0 e = 0 then put_rule_field 18 0 else put_rule_field 22 0xFF00) t
      else upd_rule (pv t0 e) (put_rule_field 8 (nx t0 e)) t)"

lemma dma_nat_cmd:
  assumes "shape t" "shape t0" "table_entries t0 = table_entries t" "e \<in> entries t"
    "\<not> e < table_entries t \<longrightarrow> pv t0 e \<in> entries t"
  shows "dma_write (del_rule_cmd m (loc t0 e) (rule_at t0 e) (nat_pos t0 e) t0) t = nat_cmd t0 e t"
proof -
  have p: "prv_of (rule_at t0 e) = pv t0 e" "nxt_of (rule_at t0 e) = nx t0 e" by (simp_all add: pv_def nx_def)
  show ?thesis
    using dma_rule [OF assms(1,4), of 18 m 0, simplified] dma_rule [OF assms(1,4), of 22 m "0xFF00", simplified]
      dma_next_field(1) [OF assms(1) _ assms(2,3), of "pv t0 e"] assms(3,5)
    by (auto simp: del_rule_cmd_def nat_pos_def nat_cmd_def loc_def p offsets_shape [OF assms(2)]
        IPA_NAT_INVALID_NAT_ENTRY_def)
qed

definition ind_cmd :: "ip4_table \<Rightarrow> u16 \<Rightarrow> ip4_table \<Rightarrow> ip4_table" where
  "ind_cmd t0 i t =
     (if i < table_entries t0
      then (if inx t0 i = 0 then upd_index i (put_index_field 0 0) t
            else upd_index i (put_index_field 2 (inx t0 (inx t0 i)))
                   (upd_index i (put_index_field 0 (ite t0 (inx t0 i))) t))
      else upd_index (meta_at t0 i) (put_index_field 2 (inx t0 i)) t)"

lemma rd_meta: "shape t \<Longrightarrow> i \<in> expns t \<Longrightarrow> rd (index_expn_table_meta t) (loc t i) = Some (meta_at t i)"
  using rd_expn_at(3) [of t i] entry_sub(1) [of i t] by (simp add: loc_def)

lemma dma_ind_cmds:
  assumes t: "shape t" "i \<in> entries t" "i < table_entries t \<Longrightarrow> inx t i \<noteq> 0 \<Longrightarrow> inx t i \<in> expns t"
    "\<not> i < table_entries t \<Longrightarrow> meta_at t i \<in> entries t"
  shows "\<exists>cs. del_index_cmds m (\<not> i < table_entries t) (loc t i) (ind_pos t i) t = Some cs
    \<and> cs \<noteq> [] \<and> (\<forall>c \<in> set cs. is_index_cmd c) \<and> fold dma_write cs t = ind_cmd t i t"
proof -
  have x: "high16 (index_at t a) = inx t a" "low16 (index_at t a) = ite t a" for a
    by (simp_all add: inx_def ite_def)
  show ?thesis
  proof (cases "i < table_entries t")
    case True
    have rdi: "rd (ind_tbl False t) i = Some (index_at t i)"
      using rd_tbl(2) [OF t(1,2)] True by (simp add: loc_def)
    have rdn: "inx t i \<noteq> 0 \<Longrightarrow> rd (index_table_expn t) (inx t i - table_entries t) = Some (index_at t (inx t i))"
      using rd_expn_at(2) [OF t(1) t(3)] True by simp
    define t1 where "t1 = upd_index i (put_index_field 0 (ite t (inx t i))) t"
    have t1: "shape t1" "table_entries t1 = table_entries t" "expn_table_entries t1 = expn_table_entries t"
      using t(1) by (simp_all add: t1_def)
    have d: "dma_write \<lparr>table_index = m, base_addr = IPA_NAT_INDX_TBL, dma_data = v,
        dma_offset = ucast i * 4\<rparr> t = upd_index i (put_index_field 0 v) t" for v
      using dma_index [OF t(1,2), of 0 m v, simplified] True by simp
    have d1: "dma_write \<lparr>table_index = m, base_addr = IPA_NAT_INDX_TBL, dma_data = v,
        dma_offset = ucast i * 4 + 2\<rparr> t1 = upd_index i (put_index_field 2 v) t1" for v
      using dma_index [OF t1(1), of i 2 m v, simplified] True t(2) t1 by simp
    show ?thesis
      using True rdi rdn d d1 [unfolded t1_def]
      by (cases "inx t i = 0") (simp_all add: del_index_cmds_def ind_pos_def ind_cmd_def loc_def is_index_cmd_def
          offsets_shape [OF t(1)] x)
  next
    case False
    then have e: "i \<in> expns t" using t(2) by (auto simp: base_entries_def)
    have rdi: "rd (ind_tbl True t) (loc t i) = Some (index_at t i)"
      using rd_tbl(2) [OF t(1,2)] False by simp
    have ix: "is_index_cmd (index_next_field_cmd m p v t)" for p v
      by (simp add: index_next_field_cmd_def is_index_cmd_def)
    show ?thesis
      using False rdi rd_meta [OF t(1) e] dma_next_field(2) [OF t(1) t(4) t(1) refl, of m] ix
      by (cases "inx t i = 0") (simp_all add: del_index_cmds_def ind_pos_def ind_cmd_def x IPA_NAT_INVALID_NAT_ENTRY_def)
  qed
qed

lemma reorder:
  assumes "\<not> is_index_cmd c" "cs \<noteq> []" "\<forall>d \<in> set cs. is_index_cmd d"
  shows "ReorderCmds True (c # cs) = cs @ [c]"
  using assms by (cases cs) (simp_all add: ReorderCmds_def Let_def)

lemma nat_cmd_not_index: "\<not> is_index_cmd (del_rule_cmd m e r pos t)"
  by (cases pos) (simp_all add: del_rule_cmd_def is_index_cmd_def next_field_cmd_def)

section \<open>The updates after the commands\<close>

definition nat_upd :: "del_type \<Rightarrow> u16 \<Rightarrow> ip4_table \<Rightarrow> ip4_table" where
  "nat_upd pos e t =
     (if pos = IPA_NAT_DEL_TYPE_HEAD then t
      else upd_rule e (\<lambda>_. zero_rule)
        (if pos = IPA_NAT_DEL_TYPE_MIDDLE
         then upd_rule (nx t e) (\<lambda>r. r\<lparr>sw_spec_params := pair16 (ind_of r) (pv t e)\<rparr>) t else t))"

lemma del_rule_update:
  assumes "shape t" "e \<in> entries t"
    "pos = IPA_NAT_DEL_TYPE_MIDDLE \<Longrightarrow> nx t e \<in> expns t \<and> \<not> e < table_entries t"
  shows "del_rule_update (\<not> e < table_entries t) (loc t e) pos t = Some (nat_upd pos e t)"
proof (cases "pos = IPA_NAT_DEL_TYPE_MIDDLE")
  case True
  then have n: "nx t e \<in> expns t" "\<not> e < table_entries t" using assms(3) by simp_all
  define f where "f = (\<lambda>r. r\<lparr>sw_spec_params := pair16 (ind_of r) (pv t e)\<rparr>)"
  define t1 where "t1 = upd_rule (nx t e) f t"
  have t1: "shape t1" "table_entries t1 = table_entries t" "expn_table_entries t1 = expn_table_entries t"
    using assms(1) by (simp_all add: t1_def)
  have rdn: "rd (ipv4_expn_rules t) (nx t e - table_entries t) = Some (rule_at t (nx t e))"
    by (rule rd_expn_at(1) [OF assms(1) n(1)])
  have wrn: "map_option (\<lambda>l. t\<lparr>ipv4_expn_rules := l\<rparr>)
      (wr (ipv4_expn_rules t) (nx t e - table_entries t) (f (rule_at t (nx t e)))) = Some t1"
    using write_rule(3,4) [OF assms(1) _ entry_sub(1) [OF n(1) assms(1)]] n(1)
    by (simp add: t1_def upd_const [of "nx t e" f])
  have up: "UpdateSwSpecParams IPA_NAT_SW_PARAM_PREV_INDX_BYTE (ucast (pv t e)) r = f r" for r
    by (simp only: UpdateSwSpecParams_pair16 f_def)
  have x: "prv_of (rule_at t e) = pv t e" "nxt_of (rule_at t e) = nx t e" by (simp_all add: pv_def nx_def)
  have "del_rule_update (\<not> e < table_entries t) (loc t e) pos t =
      map_option (\<lambda>l. set_nat_tbl True l t1) (wr (nat_tbl True t1) (loc t e) zero_rule)"
    using True wrn unfolding del_rule_update_def rd_tbl(1) [OF assms(1,2)] by (auto simp: x rdn up Let_def)
  also have "\<dots> = Some (upd_rule e (\<lambda>_. zero_rule) t1)"
    using wr_tbl(1) [OF t1(1), of e zero_rule] assms(2) n(2) t1 by (simp add: loc_def)
  finally show ?thesis using True by (simp add: nat_upd_def t1_def f_def)
next
  case False
  then show ?thesis
    using wr_tbl(1) [OF assms(1,2), of zero_rule] by (simp add: del_rule_update_def nat_upd_def)
qed

definition ind_upd :: "del_type \<Rightarrow> u16 \<Rightarrow> u16 \<Rightarrow> ip4_table \<Rightarrow> ip4_table" where
  "ind_upd pos i n t =
     (if pos = IPA_NAT_DEL_TYPE_HEAD then
        upd_rule (ite t i) (\<lambda>r. r\<lparr>sw_spec_params := pair16 i (prv_of r)\<rparr>)
          (upd_index n (\<lambda>_. 0) (if inx t n = 0 then t else upd_meta (inx t n) i t))
      else upd_index i (\<lambda>_. 0)
        (if pos = IPA_NAT_DEL_TYPE_MIDDLE then upd_meta i 0 (upd_meta (inx t i) (meta_at t i) t) else t))"

lemma del_index_update:
  assumes s: "shape t" and i: "i \<in> entries t"
    and head: "pos = IPA_NAT_DEL_TYPE_HEAD \<Longrightarrow> i < table_entries t \<and> n \<in> expns t
      \<and> (inx t n \<noteq> 0 \<longrightarrow> inx t n \<in> expns t) \<and> ite t i \<in> entries t"
    and middle: "pos = IPA_NAT_DEL_TYPE_MIDDLE \<Longrightarrow> i \<in> expns t \<and> inx t i \<in> expns t"
  shows "del_index_update (\<not> i < table_entries t) (loc t i) (n - table_entries t) pos t = Some (ind_upd pos i n t)"
proof -
  have x: "high16 (index_at t a) = inx t a" "low16 (index_at t a) = ite t a" for a
    by (simp_all add: inx_def ite_def)
  consider "pos = IPA_NAT_DEL_TYPE_HEAD" | "pos = IPA_NAT_DEL_TYPE_MIDDLE"
    | "pos \<noteq> IPA_NAT_DEL_TYPE_HEAD" "pos \<noteq> IPA_NAT_DEL_TYPE_MIDDLE" by blast
  then show ?thesis
  proof cases
    case 1
    note h = head [OF 1]
    have li: "loc t i = i" using h by (simp add: loc_def)
    define t1 where "t1 = (if inx t n = 0 then t else upd_meta (inx t n) i t)"
    define t2 where "t2 = upd_index n (\<lambda>_. 0) t1"
    have t1: "shape t1" "table_entries t1 = table_entries t" "expn_table_entries t1 = expn_table_entries t"
      "index_at t1 = index_at t" using s by (simp_all add: t1_def)
    have ni: "n \<noteq> i" using h entry_sub(1) [OF _ s, of n] by auto
    have t2: "shape t2" "table_entries t2 = table_entries t" "expn_table_entries t2 = expn_table_entries t"
      "index_at t2 i = index_at t i" "ite t i \<in> entries t2"
      using t1 h ni by (simp_all add: t2_def)
    have rdn: "rd (index_table_expn t) (n - table_entries t) = Some (index_at t n)"
      using h by (intro rd_expn_at(2) [OF s]) simp
    have nn: "inx t n \<noteq> 0 \<Longrightarrow> table_entries t \<le> inx t n"
      using h entry_sub(1) [OF _ s, of "inx t n"] by (simp add: not_less)
    have st1: "(if inx t n \<noteq> 0 \<and> table_entries t \<le> inx t n
        then map_option (\<lambda>m. t\<lparr>index_expn_table_meta := m\<rparr>)
               (wr (index_expn_table_meta t) (inx t n - table_entries t) i)
        else Some t) = Some t1"
      using h write_meta [OF s, of "inx t n" i] nn by (auto simp: t1_def)
    have st2: "wr (index_table_expn t1) (n - table_entries t) 0 =
        Some ((index_table_expn t1)[unat (n - table_entries t) := 0])"
      "t1\<lparr>index_table_expn := (index_table_expn t1)[unat (n - table_entries t) := 0]\<rparr> = t2"
      using write_index(3,4) [OF t1(1), of n 0] h entry_sub(1) [OF _ s, of n] t1 by (simp_all add: t2_def)
    have rdi: "rd (index_table t2) i = Some (index_at t i)"
      using rd_at(2) [OF t2(1), of i] i h t2 by (auto simp: base_entries_def expn_entries_def)
    have "index_table t2 = index_table t1" unfolding st2(2) [symmetric] by simp
    then have rdi1: "rd (index_table t1) i = Some (index_at t i)" using rdi by simp
    have lt: "(if table_entries t2 \<le> ite t i then ite t i - table_entries t2 else ite t i) = loc t2 (ite t i)"
      "(table_entries t2 \<le> ite t i) = (\<not> ite t i < table_entries t2)"
      by (auto simp: loc_def)
    define g where "g = (\<lambda>r. r\<lparr>sw_spec_params := pair16 i (prv_of r)\<rparr>)"
    have up: "UpdateSwSpecParams IPA_NAT_SW_PARAM_INDX_TBL_ENTRY_BYTE (ucast i) r = g r" for r
      by (simp only: UpdateSwSpecParams_pair16 g_def)
    have last: "Option.bind (rd (nat_tbl (table_entries t2 \<le> ite t i) t2)
          (if table_entries t2 \<le> ite t i then ite t i - table_entries t2 else ite t i)) (\<lambda>r.
        map_option (\<lambda>l. set_nat_tbl (table_entries t2 \<le> ite t i) l t2)
          (wr (nat_tbl (table_entries t2 \<le> ite t i) t2)
            (if table_entries t2 \<le> ite t i then ite t i - table_entries t2 else ite t i)
            (UpdateSwSpecParams IPA_NAT_SW_PARAM_INDX_TBL_ENTRY_BYTE (ucast i) r))) =
        Some (upd_rule (ite t i) g t2)"
      unfolding lt(1) unfolding lt(2) rd_tbl(1) [OF t2(1,5)] up bind.bind_lunit
      unfolding wr_tbl(1) [OF t2(1,5)] upd_const [of _ g] by (rule refl)
    have "del_index_update (\<not> i < table_entries t) (loc t i) (n - table_entries t) pos t =
        Some (upd_rule (ite t i) g t2)"
      unfolding del_index_update_def 1 rdn li Let_def read_fields x bind.bind_lunit
        IPA_NAT_INVALID_NAT_ENTRY_def if_True simp_thms
      using st1 st2 rdi1 last [unfolded t2(2)] t1(2) by (simp add: x cong: if_cong split del: if_split)
    then show ?thesis by (simp add: ind_upd_def 1 g_def t2_def t1_def)
  next
    case 2
    note h = middle [OF 2]
    have ix: "\<not> i < table_entries t" "\<not> inx t i < table_entries t"
      using h entry_sub(1) [OF _ s] by blast+
    have ll: "loc t i = i - table_entries t" using ix by (simp add: loc_def)
    define t1 where "t1 = upd_meta (inx t i) (meta_at t i) t"
    define t2 where "t2 = upd_meta i 0 t1"
    have t1: "shape t1" "table_entries t1 = table_entries t" "expn_table_entries t1 = expn_table_entries t"
      using s by (simp_all add: t1_def)
    have t2: "shape t2" "table_entries t2 = table_entries t" "expn_table_entries t2 = expn_table_entries t"
      using t1 by (simp_all add: t2_def)
    have rdm: "rd (index_expn_table_meta t) (loc t i) = Some (meta_at t i)" using h by (intro rd_meta [OF s]) simp
    obtain m where w1: "wr (index_expn_table_meta t) (inx t i - table_entries t) (meta_at t i) = Some m"
      "t\<lparr>index_expn_table_meta := m\<rparr> = t1"
      using write_meta [OF s, of "inx t i" "meta_at t i"] h by (simp add: t1_def)
    have w2: "map_option (\<lambda>m'. t\<lparr>index_expn_table_meta := m'\<rparr>) (wr m (loc t i) 0) = Some t2"
    proof -
      have "index_expn_table_meta t1 = m" using w1(2) by auto
      moreover have "t\<lparr>index_expn_table_meta := m'\<rparr> = t1\<lparr>index_expn_table_meta := m'\<rparr>" for m'
        unfolding w1(2) [symmetric] by simp
      ultimately show ?thesis using write_meta [OF t1(1), of i 0] h t1 by (simp add: t2_def ll)
    qed
    have w3: "map_option (\<lambda>l. set_ind_tbl True l t2) (wr (ind_tbl True t2) (loc t i) 0) = Some (upd_index i (\<lambda>_. 0) t2)"
      using wr_tbl(2) [OF t2(1), of i 0] h t2 ix by (simp add: loc_def)
    have "del_index_update (\<not> i < table_entries t) (loc t i) (n - table_entries t) pos t =
        Some (upd_index i (\<lambda>_. 0) t2)"
      using 2 w1 w2 w3 rdm ix rd_tbl(2) [OF s i]
      by (auto simp: del_index_update_def x IPA_NAT_INVALID_NAT_ENTRY_def not_less Let_def)
    then show ?thesis by (simp add: ind_upd_def 2 t2_def t1_def)
  next
    case 3
    then show ?thesis
      using wr_tbl(2) [OF s i, of 0] by (simp add: del_index_update_def ind_upd_def)
  qed
qed

section \<open>Dead heads\<close>

lemma dead_heads:
  assumes s: "shape t" and h: "\<And>a. a < table_entries t \<Longrightarrow> dead t a \<Longrightarrow> nx t a = 0 \<Longrightarrow> a = b"
    and b: "b \<in> bases t \<or> (\<forall>a. a < table_entries t \<longrightarrow> \<not> (dead t a \<and> nx t a = 0))"
  shows "ipa_nati_del_dead_ipv4_head_nodes t =
    Some (if b \<in> bases t \<and> dead t b \<and> nx t b = 0 then upd_rule b (\<lambda>_. zero_rule) t else t)"
proof -
  define n where "n = unat (table_entries t)"
  have len: "length (ipv4_rules t) = n" using s by (simp add: shape_def n_def)
  define P where "P = (\<lambda>r. prt_of r = 0xFF \<and> nxt_of r = 0)"
  have at: "P (ipv4_rules t ! k) \<longleftrightarrow> dead t (of_nat k) \<and> nx t (of_nat k) = 0" "(of_nat k :: u16) < table_entries t"
    "unat (of_nat k :: u16) = k" if "k < n" for k
  proof -
    have "k < 2 ^ 16" using that unsigned_less [of "table_entries t", where 'a = nat] by (simp add: n_def)
    then show u: "unat (of_nat k :: u16) = k" by (simp add: unat_of_nat)
    then show l: "(of_nat k :: u16) < table_entries t" using that by (simp add: word_less_nat_alt n_def)
    show "P (ipv4_rules t ! k) \<longleftrightarrow> dead t (of_nat k) \<and> nx t (of_nat k) = 0"
      using l u by (simp add: P_def dead_def nx_def rule_at_def)
  qed
  have eq: "ipa_nati_del_dead_ipv4_head_nodes t =
      Some (t\<lparr>ipv4_rules := map (\<lambda>r. if P r then zero_rule else r) (ipv4_rules t)\<rparr>)"
    by (simp add: ipa_nati_del_dead_ipv4_head_nodes_def Let_def len flip: n_def) (simp add: P_def IPA_NAT_INVALID_NAT_ENTRY_def)
  show ?thesis
  proof (cases "b \<in> bases t \<and> dead t b \<and> nx t b = 0")
    case True
    have ub: "unat b < n" using entry_base(2) [of b t] True by (simp add: n_def)
    have "map (\<lambda>r. if P r then zero_rule else r) (ipv4_rules t) = (ipv4_rules t)[unat b := zero_rule]"
    proof (rule nth_equalityI)
      fix k assume "k < length (map (\<lambda>r. if P r then zero_rule else r) (ipv4_rules t))"
      then have k: "k < n" using len by simp
      have "P (ipv4_rules t ! k) \<longleftrightarrow> k = unat b"
        using h [OF at(2) [OF k]] at(1,3) [OF k] True by auto
      then show "map (\<lambda>r. if P r then zero_rule else r) (ipv4_rules t) ! k = (ipv4_rules t)[unat b := zero_rule] ! k"
        using k len by (simp add: nth_list_update)
    qed simp
    then show ?thesis using True eq entry_base(1) [of b t] by (simp add: upd_rule_def)
  next
    case False
    have "\<not> P (ipv4_rules t ! k)" if k: "k < n" for k
      using b False at(1,2) [OF k] h [OF at(2) [OF k]] by auto
    then have "map (\<lambda>r. if P r then zero_rule else r) (ipv4_rules t) = ipv4_rules t"
      using len by (intro nth_equalityI) simp_all
    then show ?thesis using False eq by auto
  qed
qed

section \<open>Views after a deletion\<close>

lemma nat_cmd_frame [simp]:
  "table_entries (nat_cmd t0 e t) = table_entries t" "expn_table_entries (nat_cmd t0 e t) = expn_table_entries t"
  "shape (nat_cmd t0 e t) = shape t" "rule_id_array (nat_cmd t0 e t) = rule_id_array t"
  "public_addr (nat_cmd t0 e t) = public_addr t" "index_at (nat_cmd t0 e t) = index_at t"
  "inx (nat_cmd t0 e t) = inx t" "ite (nat_cmd t0 e t) = ite t" "ius (nat_cmd t0 e t) = ius t"
  "meta_at (nat_cmd t0 e t) = meta_at t"
  by (simp_all add: nat_cmd_def)

lemma nat_upd_frame [simp]:
  "table_entries (nat_upd pos e t) = table_entries t" "expn_table_entries (nat_upd pos e t) = expn_table_entries t"
  "shape (nat_upd pos e t) = shape t" "rule_id_array (nat_upd pos e t) = rule_id_array t"
  "public_addr (nat_upd pos e t) = public_addr t" "index_at (nat_upd pos e t) = index_at t"
  "inx (nat_upd pos e t) = inx t" "ite (nat_upd pos e t) = ite t" "ius (nat_upd pos e t) = ius t"
  "meta_at (nat_upd pos e t) = meta_at t"
  by (simp_all add: nat_upd_def)

lemma ind_cmd_frame [simp]:
  "table_entries (ind_cmd t0 e t) = table_entries t" "expn_table_entries (ind_cmd t0 e t) = expn_table_entries t"
  "shape (ind_cmd t0 e t) = shape t" "rule_id_array (ind_cmd t0 e t) = rule_id_array t"
  "public_addr (ind_cmd t0 e t) = public_addr t" "rule_at (ind_cmd t0 e t) = rule_at t"
  "meta_at (ind_cmd t0 e t) = meta_at t"
  by (simp_all add: ind_cmd_def)

lemma ind_upd_frame [simp]:
  "table_entries (ind_upd pos i n t) = table_entries t" "expn_table_entries (ind_upd pos i n t) = expn_table_entries t"
  "shape (ind_upd pos i n t) = shape t" "rule_id_array (ind_upd pos i n t) = rule_id_array t"
  "public_addr (ind_upd pos i n t) = public_addr t"
  by (simp_all add: ind_upd_def)

lemma us_upd: "e \<in> entries t \<Longrightarrow> us t e = ena_of (rule_at t e)" by (simp add: us_def)

lemma nat_cmd_views:
  assumes s: "shape s" and e: "e \<in> entries s"
    and ra: "rule_at s = rule_at t" "table_entries s = table_entries t" "expn_table_entries s = expn_table_entries t"
    and p: "\<not> e < table_entries t \<longrightarrow> pv t e \<in> entries s \<and> pv t e \<noteq> e"
  shows "nx (nat_cmd t e s) = (if e < table_entries t then nx t else (nx t)(pv t e := nx t e))"
    "pv (nat_cmd t e s) = pv t" "ind (nat_cmd t e s) = ind t"
    "us (nat_cmd t e s) = (if e < table_entries t \<and> nx t e = 0 then (us t)(e := False) else us t)"
    "dead (nat_cmd t e s) = (if e < table_entries t \<and> nx t e \<noteq> 0 then (dead t)(e := True) else dead t)"
    "a \<noteq> e \<Longrightarrow> client_rule (rule_at (nat_cmd t e s) a) = client_rule (rule_at t a)"
    "a \<noteq> e \<Longrightarrow> a \<noteq> pv t e \<Longrightarrow> rule_at (nat_cmd t e s) a = rule_at t a"
proof -
  have v: "nx s = nx t" "pv s = pv t" "ind s = ind t" "us s = us t" "dead s = dead t"
    using ra by (simp_all add: nx_def pv_def ind_def us_def dead_def fun_eq_iff)
  have ff: "ucast (drop_bit 8 (0xFF00 :: u16)) = (0xFF :: u8)" by simp
  show "nx (nat_cmd t e s) = (if e < table_entries t then nx t else (nx t)(pv t e := nx t e))"
    "pv (nat_cmd t e s) = pv t" "ind (nat_cmd t e s) = ind t"
    "us (nat_cmd t e s) = (if e < table_entries t \<and> nx t e = 0 then (us t)(e := False) else us t)"
    "dead (nat_cmd t e s) = (if e < table_entries t \<and> nx t e \<noteq> 0 then (dead t)(e := True) else dead t)"
    using s e p v ff by (auto simp: nat_cmd_def fun_eq_iff us_upd nx_def pv_def ind_def dead_def ra)
  show "a \<noteq> e \<Longrightarrow> client_rule (rule_at (nat_cmd t e s) a) = client_rule (rule_at t a)"
    using s e p by (auto simp: nat_cmd_def ra)
  show "a \<noteq> e \<Longrightarrow> a \<noteq> pv t e \<Longrightarrow> rule_at (nat_cmd t e s) a = rule_at t a"
    using s e p by (auto simp: nat_cmd_def ra)
qed

lemma nat_removed_views:
  assumes s: "shape s" and e: "e \<in> entries s"
    and ra: "rule_at s = rule_at t" "table_entries s = table_entries t" "expn_table_entries s = expn_table_entries t"
    and p: "\<not> e < table_entries t \<longrightarrow> pv t e \<in> entries s \<and> pv t e \<noteq> e"
    and n: "\<not> e < table_entries t \<and> nx t e \<noteq> 0 \<longrightarrow> nx t e \<in> expns s \<and> nx t e \<noteq> e"
    and dead: "\<not> dead t e"
    and t2: "t2 = nat_upd (nat_pos t e) e (nat_cmd t e s)"
  shows "nx t2 = (if e < table_entries t then nx t else (nx t)(pv t e := nx t e, e := 0))"
    "pv t2 = (if e < table_entries t then (if nx t e = 0 then (pv t)(e := 0) else pv t)
       else (if nx t e = 0 then pv t else (pv t)(nx t e := pv t e))(e := 0))"
    "us t2 = (if e < table_entries t \<and> nx t e \<noteq> 0 then us t else (us t)(e := False))"
    "dead t2 = (if e < table_entries t \<and> nx t e \<noteq> 0 then (dead t)(e := True) else dead t)"
    "a \<noteq> e \<Longrightarrow> ind t2 a = ind t a"
    "a \<noteq> e \<Longrightarrow> client_rule (rule_at t2 a) = client_rule (rule_at t a)"
proof -
  define t1 where "t1 = nat_cmd t e s"
  have t1: "shape t1" "entries t1 = entries s" "expns t1 = expns s" "table_entries t1 = table_entries t"
    using s ra by (simp_all add: t1_def)
  note c = nat_cmd_views [OF s e ra p, folded t1_def]
  have nx1: "nx t1 e = nx t e" "pv t1 e = pv t e" using c(1,2) p by auto
  have u: "ena_of (rule_at t1 (nx t e)) = us t (nx t e)" if "\<not> e < table_entries t" "nx t e \<noteq> 0"
  proof -
    have "nx t e \<in> entries t1" using that n t1 by blast
    then show ?thesis using us_upd [of "nx t e" t1] c(4) that by simp
  qed
  note fs = fun_eq_iff
  show "nx t2 = (if e < table_entries t then nx t else (nx t)(pv t e := nx t e, e := 0))"
    using t1 e n c(1) nx1 by (auto simp: t2 nat_upd_def nat_pos_def fs nx_def simp flip: t1_def)
  show "pv t2 = (if e < table_entries t then (if nx t e = 0 then (pv t)(e := 0) else pv t)
       else (if nx t e = 0 then pv t else (pv t)(nx t e := pv t e))(e := 0))"
    using t1 e n c(2) nx1 by (auto simp: t2 nat_upd_def nat_pos_def simp flip: t1_def)
  show "us t2 = (if e < table_entries t \<and> nx t e \<noteq> 0 then us t else (us t)(e := False))"
    using t1 e n c(4) nx1 u by (auto simp: t2 nat_upd_def nat_pos_def fs us_upd simp flip: t1_def)
  show "dead t2 = (if e < table_entries t \<and> nx t e \<noteq> 0 then (dead t)(e := True) else dead t)"
    using t1 e n c(5) nx1 dead by (auto simp: t2 nat_upd_def nat_pos_def fs dead_def simp flip: t1_def)
  show "a \<noteq> e \<Longrightarrow> ind t2 a = ind t a"
    using t1 e n c(3) nx1 by (auto simp: t2 nat_upd_def nat_pos_def fs ind_def simp flip: t1_def)
  show "a \<noteq> e \<Longrightarrow> client_rule (rule_at t2 a) = client_rule (rule_at t a)"
    using t1 e n c(6) [of a] nx1 by (auto simp: t2 nat_upd_def nat_pos_def simp flip: t1_def)
qed

lemma ind_cmd_views:
  assumes s: "shape t" and i: "i \<in> entries t"
    and m: "\<not> i < table_entries t \<longrightarrow> meta_at t i \<in> entries t"
    and n: "n = inx t i"
  shows "inx (ind_cmd t i t) = (if i < table_entries t then (if n = 0 then inx t else (inx t)(i := inx t n))
      else (inx t)(meta_at t i := n))"
    "ite (ind_cmd t i t) = (if i < table_entries t then (ite t)(i := (if n = 0 then 0 else ite t n)) else ite t)"
  using s i m n by (auto simp: ind_cmd_def fun_eq_iff inx_def ite_def)

lemma ind_removed_views:
  assumes s: "shape t" and i: "i \<in> entries t"
    and m: "\<not> i < table_entries t \<longrightarrow> meta_at t i \<in> entries t \<and> meta_at t i \<noteq> i"
    and n: "n = inx t i" "n \<noteq> 0 \<longrightarrow> n \<in> expns t \<and> n \<noteq> i"
    and nn: "i < table_entries t \<and> n \<noteq> 0 \<and> inx t n \<noteq> 0 \<longrightarrow> inx t n \<in> expns t \<and> inx t n \<noteq> n"
    and te: "i < table_entries t \<and> n \<noteq> 0 \<longrightarrow> ite t n \<in> entries t"
    and t2: "shape t2" "table_entries t2 = table_entries t" "expn_table_entries t2 = expn_table_entries t"
      "index_at t2 = index_at (ind_cmd t i t)" "meta_at t2 = meta_at t"
    and t3: "t3 = ind_upd (ind_pos t i) i n t2"
  shows "inx t3 = (if i < table_entries t then (if n = 0 then inx t else (inx t)(i := inx t n, n := 0))
      else (inx t)(meta_at t i := n, i := 0))"
    "ite t3 = (if i < table_entries t \<and> n \<noteq> 0 then (ite t)(i := ite t n, n := 0) else (ite t)(i := 0))"
    "meta_at t3 = (if i < table_entries t
      then (if n = 0 \<or> inx t n = 0 then meta_at t else (meta_at t)(inx t n := i))
      else (if n = 0 then meta_at t else (meta_at t)(n := meta_at t i, i := 0)))"
    "ind t3 = (if i < table_entries t \<and> n \<noteq> 0 then (ind t2)(ite t n := i) else ind t2)"
    "nx t3 = nx t2" "pv t3 = pv t2" "us t3 = us t2" "dead t3 = dead t2"
    "client_rule (rule_at t3 a) = client_rule (rule_at t2 a)"
proof -
  have v2: "inx t2 = inx (ind_cmd t i t)" "ite t2 = ite (ind_cmd t i t)"
    using t2 by (simp_all add: inx_def ite_def fun_eq_iff)
  have m': "\<not> i < table_entries t \<longrightarrow> meta_at t i \<in> entries t" using m by blast
  note c = ind_cmd_views [OF s i m' n(1)]
  have e2: "entries t2 = entries t" "expns t2 = expns t" using t2 by simp_all
  note fs = fun_eq_iff
  have ie: "i \<in> expns t" if "\<not> i < table_entries t" using that i by (auto simp: base_entries_def)
  consider (only) "i < table_entries t" "n = 0" | (head) "i < table_entries t" "n \<noteq> 0"
    | (last) "\<not> i < table_entries t" "n = 0" | (middle) "\<not> i < table_entries t" "n \<noteq> 0" by blast
  then have "inx t3 = (if i < table_entries t then (if n = 0 then inx t else (inx t)(i := inx t n, n := 0))
      else (inx t)(meta_at t i := n, i := 0))
    \<and> ite t3 = (if i < table_entries t \<and> n \<noteq> 0 then (ite t)(i := ite t n, n := 0) else (ite t)(i := 0))
    \<and> meta_at t3 = (if i < table_entries t
      then (if n = 0 \<or> inx t n = 0 then meta_at t else (meta_at t)(inx t n := i))
      else (if n = 0 then meta_at t else (meta_at t)(n := meta_at t i, i := 0)))
    \<and> ind t3 = (if i < table_entries t \<and> n \<noteq> 0 then (ind t2)(ite t n := i) else ind t2)
    \<and> nx t3 = nx t2 \<and> pv t3 = pv t2 \<and> us t3 = us t2 \<and> dead t3 = dead t2
    \<and> client_rule (rule_at t3 a) = client_rule (rule_at t2 a)"
  proof cases
    case only
    then have t3': "t3 = upd_index i (\<lambda>_. 0) t2" by (simp add: t3 ind_upd_def ind_pos_def flip: n(1))
    show ?thesis using only t2(1) i e2 v2 c t2(5) n(1) by (simp add: t3' fs)
  next
    case head
    have x: "inx t2 n = inx t n" "ite t2 i = ite t n" using head c v2 n(2) by simp_all
    have t3': "t3 = upd_rule (ite t n) (\<lambda>r. r\<lparr>sw_spec_params := pair16 i (prv_of r)\<rparr>)
        (upd_index n (\<lambda>_. 0) (if inx t n = 0 then t2 else upd_meta (inx t n) i t2))"
      using head by (simp add: t3 ind_upd_def ind_pos_def x flip: n(1))
    have u: "us t2 (ite t n) = ena_of (rule_at t2 (ite t n))" using te head e2 by (simp add: us_upd)
    show ?thesis using head t2(1) i e2 v2 c t2(5) n te nn u
      by (auto simp: t3' fs nx_def pv_def dead_def)
  next
    case last
    then have t3': "t3 = upd_index i (\<lambda>_. 0) t2" by (simp add: t3 ind_upd_def ind_pos_def flip: n(1))
    show ?thesis using last t2(1) i e2 v2 c t2(5) n(1) by (simp add: t3' fs)
  next
    case middle
    have x: "inx t2 i = n" using middle c v2 m n(1) by auto
    have t3': "t3 = upd_index i (\<lambda>_. 0) (upd_meta i 0 (upd_meta n (meta_at t i) t2))"
      using middle by (simp add: t3 ind_upd_def ind_pos_def x t2(5) flip: n(1))
    show ?thesis using middle t2(1) i e2 v2 c t2(5) n ie by (simp add: t3' fs)
  qed
  then show "inx t3 = (if i < table_entries t then (if n = 0 then inx t else (inx t)(i := inx t n, n := 0))
      else (inx t)(meta_at t i := n, i := 0))"
    "ite t3 = (if i < table_entries t \<and> n \<noteq> 0 then (ite t)(i := ite t n, n := 0) else (ite t)(i := 0))"
    "meta_at t3 = (if i < table_entries t
      then (if n = 0 \<or> inx t n = 0 then meta_at t else (meta_at t)(inx t n := i))
      else (if n = 0 then meta_at t else (meta_at t)(n := meta_at t i, i := 0)))"
    "ind t3 = (if i < table_entries t \<and> n \<noteq> 0 then (ind t2)(ite t n := i) else ind t2)"
    "nx t3 = nx t2" "pv t3 = pv t2" "us t3 = us t2" "dead t3 = dead t2"
    "client_rule (rule_at t3 a) = client_rule (rule_at t2 a)" by blast+
qed

section \<open>The invariant after a deletion\<close>

lemma ids_removed:
  assumes o: "ids_ok t" and sh: "shape t" and e: "e \<in> entries t"
    and k: "k < length (rule_id_array t)" "rule_id_array t ! k = enc t e"
    and lv: "\<And>a. live_rule t' a \<longleftrightarrow> live_rule t a \<and> a \<noteq> e"
    and T: "table_entries t' = table_entries t" "expn_table_entries t' = expn_table_entries t"
      "rule_id_array t' = (rule_id_array t)[k := 0]"
  shows "ids_ok t'"
proof -
  note b = buckets_eq(1) [OF T(1)]
  define ids where "ids = rule_id_array t"
  have kk: "k < length ids" "ids ! k = enc t e" using k by (simp_all add: ids_def)
  have uniq: "j = j'" if "j < length ids" "j' < length ids" "ids ! j = ids ! j'" "ids ! j \<noteq> 0" for j j'
    using o that unfolding ids_ok_def ids_def [symmetric] by blast
  have set: "x \<in> set (ids[k := 0]) \<longleftrightarrow> x \<in> set ids \<and> x \<noteq> enc t e" if x: "x \<noteq> 0" for x
  proof
    assume "x \<in> set (ids[k := 0])"
    then obtain j where j: "j < length ids" "ids[k := 0] ! j = x" by (auto simp: in_set_conv_nth)
    then have "j \<noteq> k" using x kk by auto
    then have "ids ! j = x" using j by simp
    then show "x \<in> set ids \<and> x \<noteq> enc t e"
      using uniq [OF j(1) kk(1)] \<open>j \<noteq> k\<close> j(1) x kk(2) nth_mem [OF j(1)] by auto
  next
    assume h: "x \<in> set ids \<and> x \<noteq> enc t e"
    then obtain j where j: "j < length ids" "ids ! j = x" by (auto simp: in_set_conv_nth)
    then have "j \<noteq> k" using h kk by auto
    then have "ids[k := 0] ! j = x" "j < length (ids[k := 0])" using j by simp_all
    then show "x \<in> set (ids[k := 0])" using nth_mem by metis
  qed
  have "live_rule t' a \<longleftrightarrow> enc t' a \<in> set (rule_id_array t')" if a: "a \<in> entries t'" for a
  proof -
    have a': "a \<in> entries t" using a T by simp
    have "live_rule t a \<longleftrightarrow> enc t a \<in> set ids" using o a' unfolding ids_ok_def ids_def by blast
    then show ?thesis
      using set [OF enc_nonzero [OF sh a']] lv [of a] enc_eq [OF sh a' e] unfolding b T ids_def by auto
  qed
  moreover have "\<exists>a \<in> entries t'. x = enc t' a" if "x \<in> set (rule_id_array t')" "x \<noteq> 0" for x
    using o that(1) set [OF that(2)] that(2) unfolding b T ids_ok_def ids_def by auto
  moreover have "rule_id_array t' ! j = 0"
    if j: "j < length (rule_id_array t')" "j' < length (rule_id_array t')" "j \<noteq> j'"
      "rule_id_array t' ! j = rule_id_array t' ! j'" for j j'
    using j kk(1) uniq [of j j'] unfolding T ids_def [symmetric] by (auto simp: nth_list_update split: if_splits)
  ultimately show ?thesis unfolding ids_ok_def by blast
qed

text \<open>What the invariant says around a live rule \<open>e\<close> and its index rule \<open>i\<close>.\<close>

lemma around:
  assumes inv: "tbl_inv t nc ic" and lv: "live_rule t e" and i: "i = ind t e"
  shows "e \<in> entries t" "us t e" "\<not> dead t e" "i \<in> entries t" "ius t i" "ite t i = e"
    "\<not> e < table_entries t \<longrightarrow> e \<in> expns t \<and> pv t e \<in> entries t \<and> us t (pv t e) \<and> nx t (pv t e) = e \<and> pv t e \<noteq> e"
    "nx t e \<noteq> 0 \<longrightarrow> nx t e \<in> expns t \<and> us t (nx t e) \<and> pv t (nx t e) = e \<and> nx t e \<noteq> e"
    "\<not> i < table_entries t \<longrightarrow> i \<in> expns t \<and> meta_at t i \<in> entries t \<and> ius t (meta_at t i)
       \<and> inx t (meta_at t i) = i \<and> meta_at t i \<noteq> i"
    "inx t i \<noteq> 0 \<longrightarrow> inx t i \<in> expns t \<and> ius t (inx t i) \<and> meta_at t (inx t i) = i \<and> inx t i \<noteq> i
       \<and> live_rule t (ite t (inx t i)) \<and> ind t (ite t (inx t i)) = inx t i \<and> ite t (inx t i) \<noteq> e
       \<and> ite t (inx t i) \<in> entries t"
    "inx t i \<noteq> 0 \<and> inx t (inx t i) \<noteq> 0 \<longrightarrow> inx t (inx t i) \<in> expns t \<and> inx t (inx t i) \<noteq> inx t i"
proof -
  note d = tbl_invD [OF inv]
  show us: "us t e" "\<not> dead t e" using lv by (simp_all add: live_rule_def)
  show e: "e \<in> entries t" using us(1) unfolding us_def by blast
  show iu: "ius t i" "ite t i = e" using d(4) lv unfolding paired_def i by blast+
  show ie: "i \<in> entries t" using iu(1) unfolding ius_def by blast
  have bx: "\<not> a < table_entries t \<Longrightarrow> a \<in> entries t \<Longrightarrow> a \<in> expns t" for a by (auto simp: base_entries_def)
  show "\<not> e < table_entries t \<longrightarrow> e \<in> expns t \<and> pv t e \<in> entries t \<and> us t (pv t e) \<and> nx t (pv t e) = e \<and> pv t e \<noteq> e"
    using bx [OF _ e] tab.chain_prev [OF d(2) _ us(1)] by blast
  show "nx t e \<noteq> 0 \<longrightarrow> nx t e \<in> expns t \<and> us t (nx t e) \<and> pv t (nx t e) = e \<and> nx t e \<noteq> e"
    using tab.chain_next [OF d(2) us(1)] by blast
  show "\<not> i < table_entries t \<longrightarrow> i \<in> expns t \<and> meta_at t i \<in> entries t \<and> ius t (meta_at t i)
       \<and> inx t (meta_at t i) = i \<and> meta_at t i \<noteq> i"
    using bx [OF _ ie] tab.chain_prev [OF d(3) _ iu(1)] by blast
  have n: "inx t i \<noteq> 0 \<Longrightarrow> inx t i \<in> expns t \<and> ius t (inx t i) \<and> meta_at t (inx t i) = i \<and> inx t i \<noteq> i"
    using tab.chain_next [OF d(3) iu(1)] by blast
  have "live_rule t (ite t (inx t i)) \<and> ind t (ite t (inx t i)) = inx t i" if "inx t i \<noteq> 0"
    using n [OF that] d(4) unfolding paired_def by blast
  moreover have "ite t (inx t i) \<noteq> e" if "inx t i \<noteq> 0"
    using n [OF that] d(4) i unfolding paired_def by metis
  moreover have "live_rule t a \<Longrightarrow> a \<in> entries t" for a unfolding live_rule_def us_def by blast
  ultimately show "inx t i \<noteq> 0 \<longrightarrow> inx t i \<in> expns t \<and> ius t (inx t i) \<and> meta_at t (inx t i) = i \<and> inx t i \<noteq> i
       \<and> live_rule t (ite t (inx t i)) \<and> ind t (ite t (inx t i)) = inx t i \<and> ite t (inx t i) \<noteq> e
       \<and> ite t (inx t i) \<in> entries t" using n by blast
  show "inx t i \<noteq> 0 \<and> inx t (inx t i) \<noteq> 0 \<longrightarrow> inx t (inx t i) \<in> expns t \<and> inx t (inx t i) \<noteq> inx t i"
    using n tab.chain_next [OF d(3), of "inx t i"] by blast
qed

text \<open>The chains of the two tables.\<close>

lemma ind_chains_removed:
  assumes inv: "tbl_inv t nc ic" and lv: "live_rule t e" and i: "i = ind t e" and n: "n = inx t i"
    and T: "table_entries t' = table_entries t" "expn_table_entries t' = expn_table_entries t"
    and v: "inx t' = (if i < table_entries t then (if n = 0 then inx t else (inx t)(i := inx t n, n := 0))
      else (inx t)(meta_at t i := n, i := 0))"
    "ite t' = (if i < table_entries t \<and> n \<noteq> 0 then (ite t)(i := ite t n, n := 0) else (ite t)(i := 0))"
    "meta_at t' = (if i < table_entries t
      then (if n = 0 \<or> inx t n = 0 then meta_at t else (meta_at t)(inx t n := i))
      else (if n = 0 then meta_at t else (meta_at t)(n := meta_at t i, i := 0)))"
  shows "\<exists>ic'. ind_chains t' ic' \<and> (\<forall>b. set (ic' b) \<subseteq> set (ic b))"
    and "ius t' j \<longleftrightarrow> ius t j \<and> j \<noteq> (if i < table_entries t \<and> n \<noteq> 0 then n else i)"
proof -
  note d = tbl_invD [OF inv]
  note a = around [OF inv lv i, folded n]
  have T': "entries t' = entries t" using T by simp
  have z: "ite t n \<noteq> 0" if "n \<noteq> 0" using a(10) that tab.no_zero by (metis Un_iff)
  show u: "ius t' j \<longleftrightarrow> ius t j \<and> j \<noteq> (if i < table_entries t \<and> n \<noteq> 0 then n else i)" for j
    using a(4,5,10) z unfolding ius_def v T' by (auto split: if_splits)
  have sub: "set ((ic(b := remove1 x (ic b))) b') \<subseteq> set (ic b')" for b x b'
    using set_remove1_subset [of x "ic b"] by auto
  consider (only) "i < table_entries t" "n = 0" | (head) "i < table_entries t" "n \<noteq> 0"
    | (expn) "\<not> i < table_entries t" by blast
  then show "\<exists>ic'. ind_chains t' ic' \<and> (\<forall>b. set (ic' b) \<subseteq> set (ic b))"
  proof cases
    case only
    have ib: "i \<in> bases t" using a(4) only(1) by (auto simp: expn_entries_def)
    have "ic i = [i]" using tab.chain_single [OF d(3) ib a(5)] only n by simp
    then have "ind_chains t' (ic(i := []))"
      unfolding T using only by (intro tab.chains_only [OF d(3)]) (simp_all add: u v)
    then show ?thesis by (intro exI [of _ "ic(i := [])"]) simp
  next
    case head
    have n': "n \<in> expns t" "meta_at t n = i" "ius t n" "n \<noteq> i" using a(10) head by blast+
    have nn: "inx t n \<noteq> 0 \<longrightarrow> inx t n \<noteq> n" using a(11) head by blast
    obtain b where b: "n \<in> set (tl (ic b))" using tab.chain_prev(1) [OF d(3) n'(1,3)] by blast
    have "ind_chains t' (ic(b := remove1 n (ic b)))"
      unfolding T using head n' nn n by (intro tab.chains_remove [OF d(3) b]) (auto simp: u v)
    then show ?thesis using sub by blast
  next
    case expn
    have e': "i \<in> expns t" "meta_at t i \<noteq> i" using a(9) expn by blast+
    have nn: "n \<noteq> 0 \<longrightarrow> n \<noteq> i" using a(10) by blast
    obtain b where b: "i \<in> set (tl (ic b))" using tab.chain_prev(1) [OF d(3) e'(1) a(5)] by blast
    have "ind_chains t' (ic(b := remove1 i (ic b)))"
      unfolding T using expn e' nn n by (intro tab.chains_remove [OF d(3) b]) (auto simp: u v)
    then show ?thesis using sub by blast
  qed
qed

lemma nat_chains_removed:
  assumes inv: "tbl_inv t nc ic" and lv: "live_rule t e"
    and T: "table_entries t' = table_entries t" "expn_table_entries t' = expn_table_entries t"
    and kill: "kill \<longleftrightarrow> \<not> e < table_entries t \<and> dead t (pv t e) \<and> nx t e = 0"
    and v: "nx t1 = (if e < table_entries t then nx t else (nx t)(pv t e := nx t e, e := 0))"
    "pv t1 = (if e < table_entries t then (if nx t e = 0 then (pv t)(e := 0) else pv t)
       else (if nx t e = 0 then pv t else (pv t)(nx t e := pv t e))(e := 0))"
    "us t1 = (if e < table_entries t \<and> nx t e \<noteq> 0 then us t else (us t)(e := False))"
    and k: "nx t' = (if kill then (nx t1)(pv t e := 0) else nx t1)"
    "pv t' = (if kill then (pv t1)(pv t e := 0) else pv t1)"
    "us t' = (if kill then (us t1)(pv t e := False) else us t1)"
  shows "\<exists>nc'. nat_chains t' nc' \<and> (\<forall>b. set (nc' b) \<subseteq> set (nc b))"
proof -
  note d = tbl_invD [OF inv]
  note a = around [OF inv lv refl]
  consider (only) "e < table_entries t" "nx t e = 0" | (head) "e < table_entries t" "nx t e \<noteq> 0"
    | (expn) "\<not> e < table_entries t" by blast
  then show ?thesis
  proof cases
    case only
    have eb: "e \<in> bases t" using a(1) only(1) by (auto simp: expn_entries_def)
    have "nc e = [e]" using tab.chain_single [OF d(2) eb a(2)] only by simp
    then have "nat_chains t' (nc(e := []))"
      unfolding T using only by (intro tab.chains_only [OF d(2)]) (simp_all add: k v kill)
    then show ?thesis by (intro exI [of _ "nc(e := [])"]) simp
  next
    case head
    then have "nx t' = nx t" "pv t' = pv t" "us t' = us t" by (simp_all add: k v kill)
    then have "nat_chains t' nc" using d(2) T by simp
    then show ?thesis by blast
  next
    case expn
    define p where "p = pv t e"
    have e': "e \<in> expns t" "p \<noteq> e" "us t p" using a(7) expn unfolding p_def by blast+
    have nn: "nx t e \<noteq> 0 \<longrightarrow> nx t e \<noteq> e" using a(8) by blast
    obtain b where b: "e \<in> set (tl (nc b))" using tab.chain_prev(1) [OF d(2) e'(1) a(2)] by blast
    define nc1 where "nc1 = nc(b := remove1 e (nc b))"
    have sub: "set (nc1 b') \<subseteq> set (nc b')" for b'
      using set_remove1_subset [of e "nc b"] by (auto simp: nc1_def)
    have c1: "chains (bases t) (expns t) (nx t1) (pv t1) (us t1) nc1"
      unfolding nc1_def using expn e' nn unfolding p_def by (intro tab.chains_remove [OF d(2) b]) (auto simp: v)
    show ?thesis
    proof (cases kill)
      case False
      then show ?thesis using c1 sub unfolding k T by auto
    next
      case True
      then have z: "dead t p" "nx t e = 0" using kill p_def by simp_all
      have pb: "p \<in> bases t" using d(4) e'(3) z(1) unfolding paired_def by blast
      have "us t1 p" "nx t1 p = 0" using expn e' z by (simp_all add: v flip: p_def)
      then have "nc1 p = [p]" by (intro tab.chain_single [OF c1 pb])
      then have "nat_chains t' (nc1(p := []))"
        unfolding T using True by (intro tab.chains_only [OF c1]) (auto simp: k p_def)
      moreover have "set ((nc1(p := [])) b') \<subseteq> set (nc b')" for b' using sub [of b'] by simp
      ultimately show ?thesis by blast
    qed
  qed
qed

definition removed :: "u16 \<Rightarrow> ip4_table \<Rightarrow> ip4_table" where
  "removed e t =
     (let i = ind t e;
          t3 = ind_upd (ind_pos t i) i (inx t i) (nat_upd (nat_pos t e) e (nat_cmd t e (ind_cmd t i t)))
      in if \<not> e < table_entries t \<and> dead t (pv t e) \<and> nx t e = 0 then upd_rule (pv t e) (\<lambda>_. zero_rule) t3 else t3)"

text \<open>The command and the updates, and the removal of dead heads, make this table.\<close>

lemma removed_views:
  assumes inv: "tbl_inv t nc ic" and lv: "live_rule t e" and i: "i = ind t e" and n: "n = inx t i"
    and kill: "kill \<longleftrightarrow> \<not> e < table_entries t \<and> dead t (pv t e) \<and> nx t e = 0"
    and t3: "t3 = ind_upd (ind_pos t i) i n (nat_upd (nat_pos t e) e (nat_cmd t e (ind_cmd t i t)))"
  shows "shape t3" "table_entries t3 = table_entries t" "expn_table_entries t3 = expn_table_entries t"
    "rule_id_array t3 = rule_id_array t" "public_addr t3 = public_addr t"
    "nx t3 = (if e < table_entries t then nx t else (nx t)(pv t e := nx t e, e := 0))"
    "pv t3 = (if e < table_entries t then (if nx t e = 0 then (pv t)(e := 0) else pv t)
       else (if nx t e = 0 then pv t else (pv t)(nx t e := pv t e))(e := 0))"
    "us t3 = (if e < table_entries t \<and> nx t e \<noteq> 0 then us t else (us t)(e := False))"
    "dead t3 = (if e < table_entries t \<and> nx t e \<noteq> 0 then (dead t)(e := True) else dead t)"
    "inx t3 = (if i < table_entries t then (if n = 0 then inx t else (inx t)(i := inx t n, n := 0))
      else (inx t)(meta_at t i := n, i := 0))"
    "ite t3 = (if i < table_entries t \<and> n \<noteq> 0 then (ite t)(i := ite t n, n := 0) else (ite t)(i := 0))"
    "meta_at t3 = (if i < table_entries t
      then (if n = 0 \<or> inx t n = 0 then meta_at t else (meta_at t)(inx t n := i))
      else (if n = 0 then meta_at t else (meta_at t)(n := meta_at t i, i := 0)))"
    "a \<noteq> e \<Longrightarrow> ind t3 a = (if i < table_entries t \<and> n \<noteq> 0 \<and> a = ite t n then i else ind t a)"
    "a \<noteq> e \<Longrightarrow> client_rule (rule_at t3 a) = client_rule (rule_at t a)"
    "ipa_nati_del_dead_ipv4_head_nodes t3 = Some (removed e t)"
    "removed e t = (if kill then upd_rule (pv t e) (\<lambda>_. zero_rule) t3 else t3)"
proof -
  note d = tbl_invD [OF inv]
  note ar = around [OF inv lv i, folded n]
  define s where "s = ind_cmd t i t"
  define t2 where "t2 = nat_upd (nat_pos t e) e (nat_cmd t e s)"
  have s: "shape s" "rule_at s = rule_at t" "table_entries s = table_entries t"
    "expn_table_entries s = expn_table_entries t" "entries s = entries t" "expns s = expns t" "meta_at s = meta_at t"
    using d(1) by (simp_all add: s_def)
  have "e \<in> entries s" "\<not> e < table_entries t \<longrightarrow> pv t e \<in> entries s \<and> pv t e \<noteq> e"
    "\<not> e < table_entries t \<and> nx t e \<noteq> 0 \<longrightarrow> nx t e \<in> expns s \<and> nx t e \<noteq> e"
    using ar(1,7,8) s by auto
  note v2 = nat_removed_views [OF s(1) this(1) s(2-4) this(2,3) ar(3) t2_def]
  have t2: "shape t2" "table_entries t2 = table_entries t" "expn_table_entries t2 = expn_table_entries t"
    "index_at t2 = index_at (ind_cmd t i t)" "meta_at t2 = meta_at t"
    using s by (simp_all add: t2_def, simp add: s_def)
  have m: "\<not> i < table_entries t \<longrightarrow> meta_at t i \<in> entries t \<and> meta_at t i \<noteq> i"
    "n \<noteq> 0 \<longrightarrow> n \<in> expns t \<and> n \<noteq> i"
    "i < table_entries t \<and> n \<noteq> 0 \<and> inx t n \<noteq> 0 \<longrightarrow> inx t n \<in> expns t \<and> inx t n \<noteq> n"
    "i < table_entries t \<and> n \<noteq> 0 \<longrightarrow> ite t n \<in> entries t"
    using ar(9-11) by blast+
  have t3': "t3 = ind_upd (ind_pos t i) i n t2" by (simp add: t3 t2_def s_def)
  note v3 = ind_removed_views [OF d(1) ar(4) m(1) n m(2,3,4) t2 t3']
  show sh: "shape t3" "table_entries t3 = table_entries t" "expn_table_entries t3 = expn_table_entries t"
    using t2 by (simp_all add: t3')
  show "rule_id_array t3 = rule_id_array t" "public_addr t3 = public_addr t" by (simp_all add: t3)
  show nx3: "nx t3 = (if e < table_entries t then nx t else (nx t)(pv t e := nx t e, e := 0))"
    and "pv t3 = (if e < table_entries t then (if nx t e = 0 then (pv t)(e := 0) else pv t)
       else (if nx t e = 0 then pv t else (pv t)(nx t e := pv t e))(e := 0))"
    and "us t3 = (if e < table_entries t \<and> nx t e \<noteq> 0 then us t else (us t)(e := False))"
    and dd3: "dead t3 = (if e < table_entries t \<and> nx t e \<noteq> 0 then (dead t)(e := True) else dead t)"
    unfolding v3(5-8) by (fact v2)+
  show "inx t3 = (if i < table_entries t then (if n = 0 then inx t else (inx t)(i := inx t n, n := 0))
      else (inx t)(meta_at t i := n, i := 0))"
    "ite t3 = (if i < table_entries t \<and> n \<noteq> 0 then (ite t)(i := ite t n, n := 0) else (ite t)(i := 0))"
    "meta_at t3 = (if i < table_entries t
      then (if n = 0 \<or> inx t n = 0 then meta_at t else (meta_at t)(inx t n := i))
      else (if n = 0 then meta_at t else (meta_at t)(n := meta_at t i, i := 0)))" by (fact v3)+
  show "a \<noteq> e \<Longrightarrow> ind t3 a = (if i < table_entries t \<and> n \<noteq> 0 \<and> a = ite t n then i else ind t a)"
    unfolding v3(4) using v2(5) [of a] by auto
  show "a \<noteq> e \<Longrightarrow> client_rule (rule_at t3 a) = client_rule (rule_at t a)"
    unfolding v3(9) by (rule v2(6))
  show rm: "removed e t = (if kill then upd_rule (pv t e) (\<lambda>_. zero_rule) t3 else t3)"
    by (simp add: removed_def Let_def kill t3 i n)
  have old: "a < table_entries t \<Longrightarrow> dead t a \<Longrightarrow> us t a \<and> a \<in> bases t \<and> nx t a \<noteq> 0" for a
    using d(4) unfolding paired_def by blast
  have cand: "a = pv t e \<and> \<not> e < table_entries t" if "a < table_entries t" "dead t3 a" "nx t3 a = 0" for a
    using that old [of a] unfolding nx3 dd3 by (auto split: if_splits)
  have "pv t e \<in> bases t3 \<or> (\<forall>a. a < table_entries t3 \<longrightarrow> \<not> (dead t3 a \<and> nx t3 a = 0))"
    using cand ar(7) unfolding sh by (auto simp: base_entries_def expn_entries_def)
  then have "ipa_nati_del_dead_ipv4_head_nodes t3 =
      Some (if pv t e \<in> bases t3 \<and> dead t3 (pv t e) \<and> nx t3 (pv t e) = 0
            then upd_rule (pv t e) (\<lambda>_. zero_rule) t3 else t3)"
    using cand unfolding sh(2) by (intro dead_heads [OF sh(1), unfolded sh(2)]) auto
  moreover have "(pv t e \<in> bases t3 \<and> dead t3 (pv t e) \<and> nx t3 (pv t e) = 0) = kill"
  proof
    assume h: "pv t e \<in> bases t3 \<and> dead t3 (pv t e) \<and> nx t3 (pv t e) = 0"
    then have "pv t e < table_entries t" using entry_base(1) [of "pv t e" t3] sh(2) by simp
    then have ne: "\<not> e < table_entries t" using cand [of "pv t e"] h by blast
    have "dead t3 = dead t" "nx t3 (pv t e) = nx t e" using ne ar(7) by (simp_all add: dd3 nx3)
    then show kill using h ne kill by simp
  next
    assume k: kill
    then have "us t (pv t e)" "dead t (pv t e)" "\<not> e < table_entries t" "nx t e = 0"
      using ar(7) kill by simp_all
    moreover from this have "pv t e \<in> bases t" using d(4) unfolding paired_def by blast
    ultimately show "pv t e \<in> bases t3 \<and> dead t3 (pv t e) \<and> nx t3 (pv t e) = 0"
      using ar(7) by (simp add: nx3 dd3 sh(2))
  qed
  ultimately show "ipa_nati_del_dead_ipv4_head_nodes t3 = Some (removed e t)" unfolding rm by simp
qed

lemma tbl_inv_removed:
  assumes inv: "tbl_inv t nc ic" and lv: "live_rule t e"
    and k: "k < length (rule_id_array t)" "rule_id_array t ! k = enc t e"
    and t': "t' = upd_id k 0 (removed e t)"
  shows "\<exists>nc' ic'. tbl_inv t' nc' ic'"
    and "live_rule t' a \<longleftrightarrow> live_rule t a \<and> a \<noteq> e"
    and "live_rule t' a \<Longrightarrow> client_rule (rule_at t' a) = client_rule (rule_at t a)"
proof -
  note d = tbl_invD [OF inv]
  define i n where "i = ind t e" and "n = inx t i"
  define kill where "kill \<longleftrightarrow> \<not> e < table_entries t \<and> dead t (pv t e) \<and> nx t e = 0"
  define t3 where "t3 = ind_upd (ind_pos t i) i n (nat_upd (nat_pos t e) e (nat_cmd t e (ind_cmd t i t)))"
  note v = removed_views [OF inv lv i_def n_def kill_def t3_def]
  note ar = around [OF inv lv i_def, folded n_def]
  have pe: "kill \<Longrightarrow> pv t e \<in> entries t3 \<and> pv t e \<noteq> e" using ar(7) kill_def v(2,3) by simp
  have T: "shape t'" "table_entries t' = table_entries t" "expn_table_entries t' = expn_table_entries t"
    "rule_id_array t' = (rule_id_array t)[k := 0]"
    using v(1-4) by (simp_all add: t' v(16))
  have w: "nx t' = (if kill then (nx t3)(pv t e := 0) else nx t3)"
    "pv t' = (if kill then (pv t3)(pv t e := 0) else pv t3)"
    "us t' = (if kill then (us t3)(pv t e := False) else us t3)"
    "dead t' = (if kill then (dead t3)(pv t e := False) else dead t3)"
    "inx t' = inx t3" "ite t' = ite t3" "meta_at t' = meta_at t3"
    using pe v(1) by (simp_all add: t' v(16))
  have w': "ind t' a = (if i < table_entries t \<and> n \<noteq> 0 \<and> a = ite t n then i else ind t a)"
    "client_rule (rule_at t' a) = client_rule (rule_at t a)" if "a \<noteq> e" "\<not> (kill \<and> a = pv t e)" for a
    using that pe v(1) v(13,14) [OF that(1)] by (auto simp: t' v(16))
  obtain nc' where nc': "nat_chains t' nc'" "\<forall>b. set (nc' b) \<subseteq> set (nc b)"
    using nat_chains_removed [OF inv lv T(2,3) kill_def v(6,7,8) w(1-3)] by blast
  note ix = ind_chains_removed [OF inv lv i_def n_def T(2,3), unfolded w(5-7), OF v(10,11,12)]
  obtain ic' where ic': "ind_chains t' ic'" "\<forall>b. set (ic' b) \<subseteq> set (ic b)" using ix(1) w(5,7) by metis
  note iu = ix(2)
  have pd: "\<not> kill \<or> dead t (pv t e)" by (simp add: kill_def)
  show lv': "live_rule t' a \<longleftrightarrow> live_rule t a \<and> a \<noteq> e" for a
    using pd ar(2,3) pe unfolding live_rule_def w v(8,9) by (auto split: if_splits)
  have nk: "live_rule t a \<Longrightarrow> \<not> (kill \<and> a = pv t e)" for a using pd by (auto simp: live_rule_def)
  show cl: "client_rule (rule_at t' a) = client_rule (rule_at t a)" if "live_rule t' a" for a
    using that lv' [of a] nk [of a] w'(2) [of a] by blast
  have te: "n \<noteq> 0 \<Longrightarrow> live_rule t (ite t n) \<and> ind t (ite t n) = n \<and> ite t n \<noteq> e" using ar(10) by blast
  have p1: "live_rule t a \<Longrightarrow> ius t (ind t a) \<and> ite t (ind t a) = a"
    and p2: "ius t j \<Longrightarrow> live_rule t (ite t j) \<and> ind t (ite t j) = j"
    and p3: "us t a \<Longrightarrow> dead t a \<Longrightarrow> a \<in> bases t \<and> nx t a \<noteq> 0"
    and p4: "a < table_entries t \<Longrightarrow> dead t a \<Longrightarrow> us t a" for a j
    using d(4) unfolding paired_def by blast+
  have it: "ite t' = (if i < table_entries t \<and> n \<noteq> 0 then (ite t)(i := ite t n, n := 0) else (ite t)(i := 0))"
    by (simp only: w(6) v(11))
  have ni: "n \<noteq> 0 \<Longrightarrow> n \<noteq> i" using ar(10) by blast
  have "paired t'"
    unfolding paired_def T(2,3)
  proof (intro conjI allI impI)
    fix a assume "us t' a \<and> dead t' a"
    then have a: "a \<in> bases t \<and> nx t' a \<noteq> 0"
      using p3 [of a] ar(1,2,3) kill_def unfolding w v(6,8,9)
      by (auto simp: expn_entries_def split: if_splits)
    then show "a \<in> bases t" "nx t' a \<noteq> 0" by simp_all
  next
    fix a assume "a < table_entries t \<and> dead t' a"
    then show "us t' a" using p4 [of a] ar(2,3) unfolding w v(8,9) by (auto split: if_splits)
  next
    fix a assume a: "live_rule t' a"
    then have la: "live_rule t a" "a \<noteq> e" using lv' by blast+
    note in_a = w'(1) [OF la(2) nk [OF la(1)]]
    have ne: "ind t a \<noteq> i" using p1 [OF la(1)] ar(6) la(2) by auto
    show "ius t' (ind t' a)" "ite t' (ind t' a) = a"
      using p1 [OF la(1)] ne ni ar(5) te in_a unfolding iu it by (auto split: if_splits)
  next
    fix j assume "ius t' j"
    then have j: "ius t j" "j \<noteq> (if i < table_entries t \<and> n \<noteq> 0 then n else i)" using iu by blast+
    note pj = p2 [OF j(1)]
    have ite_j: "ite t' j = (if j = i then ite t n else ite t j)" "j = i \<longrightarrow> i < table_entries t \<and> n \<noteq> 0"
      using j(2) by (auto simp: it split: if_splits)
    have l: "live_rule t (ite t' j)" "ite t' j \<noteq> e"
      using ite_j te pj i_def by auto
    show "live_rule t' (ite t' j)" using l lv' by blast
    show "ind t' (ite t' j) = j"
      using w'(1) [OF l(2) nk [OF l(1)]] ite_j pj te j(2) by (auto split: if_splits)
  qed
  moreover have "ids_ok t'"
    by (rule ids_removed [OF d(5,1) ar(1) k lv' T(2,3,4)])
  moreover have "placed t' nc' ic'"
    unfolding placed_def buckets_eq [OF T(2)]
  proof (intro conjI allI ballI impI)
    fix b a assume a: "a \<in> set (nc' b)" "\<not> dead t' a"
    then have "us t' a" using tab.chainsD(7) [OF nc'(1)] by blast
    then have l: "live_rule t' a" using a(2) by (simp add: live_rule_def)
    then have "\<not> dead t a" using lv' by (simp add: live_rule_def)
    then show "dst_bucket t (client_rule (rule_at t' a)) = b"
      using d(6) a(1) nc'(2) cl [OF l] unfolding placed_def by auto
  next
    fix b j assume j: "j \<in> set (ic' b)"
    then have iuj: "ius t' j" using tab.chainsD(7) [OF ic'(1)] by blast
    then have j': "ius t j" "j \<noteq> (if i < table_entries t \<and> n \<noteq> 0 then n else i)" "j \<in> set (ic b)"
      using iu ic'(2) j by blast+
    have ite_j: "ite t' j = (if j = i then ite t n else ite t j)" "j = i \<longrightarrow> i < table_entries t \<and> n \<noteq> 0"
      using j'(2) by (auto simp: it split: if_splits)
    have mem: "j = i \<Longrightarrow> n \<in> set (ic b)"
    proof -
      assume ji: "j = i"
      then have "inx t i \<noteq> 0" using ite_j n_def by simp
      then have "n \<in> set (tl (ic b))"
        using tab.chain_next(5) [OF d(3) ar(5)] j'(3) ji n_def by simp
      then show ?thesis by (cases "ic b") auto
    qed
    have "src_bucket t (client_rule (rule_at t (ite t' j))) = b"
      using d(6) mem j'(3) ite_j unfolding placed_def by auto
    moreover have "client_rule (rule_at t' (ite t' j)) = client_rule (rule_at t (ite t' j))"
    proof (rule cl)
      show "live_rule t' (ite t' j)"
        using lv' [of "ite t' j"] ite_j te p2 [OF j'(1)] i_def by auto
    qed
    ultimately show "src_bucket t (client_rule (rule_at t' (ite t' j))) = b" by simp
  qed
  ultimately show "\<exists>nc' ic'. tbl_inv t' nc' ic'"
    using T(1) nc'(1) ic'(1) unfolding tbl_inv_def by blast
qed

section \<open>The operation\<close>

lemma post_del_dma:
  assumes dev: "dma_works dev" and inv: "tbl_inv t nc ic" and lv: "live_rule t e" and i: "i = ind t e"
  shows "ipa_nati_post_del_dma_cmd dev m (loc t e) (\<not> e < table_entries t) (nat_pos t e) t =
    Some (0, ind_upd (ind_pos t i) i (inx t i) (nat_upd (nat_pos t e) e (nat_cmd t e (ind_cmd t i t))))"
proof -
  note d = tbl_invD [OF inv]
  note ar = around [OF inv lv i]
  define s where "s = ind_cmd t i t"
  define t1 where "t1 = nat_cmd t e s"
  define t2 where "t2 = nat_upd (nat_pos t e) e t1"
  have s: "shape s" "rule_at s = rule_at t" "table_entries s = table_entries t"
    "expn_table_entries s = expn_table_entries t"
    using d(1) by (simp_all add: s_def)
  have t1: "shape t1" "table_entries t1 = table_entries t" "expn_table_entries t1 = expn_table_entries t"
    using s by (simp_all add: t1_def)
  have t2: "shape t2" "table_entries t2 = table_entries t" "expn_table_entries t2 = expn_table_entries t"
    "inx t2 = inx s" "ite t2 = ite s" using t1 by (simp_all add: t2_def, simp_all add: t1_def)
  have es: "e \<in> entries s" "\<not> e < table_entries t \<longrightarrow> pv t e \<in> entries s \<and> pv t e \<noteq> e"
    using ar(1,7) s by auto
  have nx1: "nx t1 e = nx t e"
    using nat_cmd_views(1) [OF s(1) es(1) s(2-4) es(2)] es(2) by (auto simp: t1_def)
  have m': "\<not> i < table_entries t \<longrightarrow> meta_at t i \<in> entries t" using ar(9) by blast
  note cv = ind_cmd_views [OF d(1) ar(4) m' refl, folded s_def]
  obtain cs where cs: "del_index_cmds m (\<not> i < table_entries t) (loc t i) (ind_pos t i) t = Some cs"
    "cs \<noteq> []" "\<forall>c \<in> set cs. is_index_cmd c" "fold dma_write cs t = s"
    using dma_ind_cmds [OF d(1) ar(4), of m] ar(9,10) m' unfolding s_def by blast
  define c where "c = del_rule_cmd m (loc t e) (rule_at t e) (nat_pos t e) t"
  have c: "dma_write c s = t1"
    unfolding c_def t1_def using dma_nat_cmd [OF s(1) d(1) s(3) [symmetric] es(1)] es(2) s(3) by simp
  have cmds: "dev_dma dev (ReorderCmds True (c # cs)) t = (True, t1)"
    using dev cs c reorder [OF _ cs(2,3), of c] nat_cmd_not_index by (simp add: dma_works_def c_def)
  have l: "loc t1 e = loc t e" "loc t2 i = loc t i" using t1 t2 by (simp_all add: loc_def)
  have u1: "del_rule_update (\<not> e < table_entries t) (loc t e) (nat_pos t e) t1 = Some t2"
  proof -
    have "nat_pos t e = IPA_NAT_DEL_TYPE_MIDDLE \<Longrightarrow> nx t1 e \<in> expns t1 \<and> \<not> e < table_entries t1"
      using ar(8) t1 nx1 by (auto simp: nat_pos_def split: if_splits)
    then show ?thesis
      using del_rule_update [OF t1(1), of e "nat_pos t e"] ar(1) t1 l(1) by (simp add: t2_def)
  qed
  have u2: "del_index_update (\<not> i < table_entries t) (loc t i) (inx t i - table_entries t) (ind_pos t i) t2 =
      Some (ind_upd (ind_pos t i) i (inx t i) t2)"
  proof -
    have "ind_pos t i = IPA_NAT_DEL_TYPE_HEAD \<Longrightarrow> i < table_entries t2 \<and> inx t i \<in> expns t2
      \<and> (inx t2 (inx t i) \<noteq> 0 \<longrightarrow> inx t2 (inx t i) \<in> expns t2) \<and> ite t2 i \<in> entries t2"
      using ar(10,11) t2 cv by (auto simp: ind_pos_def split: if_splits)
    moreover have "ind_pos t i = IPA_NAT_DEL_TYPE_MIDDLE \<Longrightarrow> i \<in> expns t2 \<and> inx t2 i \<in> expns t2"
      using ar(9,10) t2 cv by (auto simp: ind_pos_def split: if_splits)
    ultimately show ?thesis
      using del_index_update [OF t2(1), of i "ind_pos t i" "inx t i"] ar(4) t2 l(2) by simp
  qed
  have r: "rule_enabled (rule_at t e)" "ind_of (rule_at t e) = i"
    using ar(2) i by (simp_all add: rule_enabled_eq us_def ind_def)
  have lx: "(if table_entries t \<le> i then i - table_entries t else i) = loc t i"
    "(table_entries t \<le> i) = (\<not> i < table_entries t)" by (auto simp: loc_def)
  have dev1: "cmd_malloc dev" using dev by (simp add: dma_works_def)
  have x: "high16 (index_at t i) = inx t i" by (simp add: inx_def)
  show ?thesis
    unfolding ipa_nati_post_del_dma_cmd_def rd_tbl(1) [OF d(1) ar(1)] bind.bind_lunit read_fields r(2) Let_def lx(1)
    unfolding lx(2) find_rule_pos(2) [OF d(1) ar(4)] rd_tbl(2) [OF d(1) ar(4)] bind.bind_lunit read_fields x cs(1)
      c_def [symmetric] cmds
    using dev1 r(1) u1 u2 by (simp add: t2_def t1_def s_def)
qed

section \<open>Handles denote rules\<close>

definition rules_of :: "ip4_table \<Rightarrow> u32 \<Rightarrow> ipa_nat_ipv4_rule option" where
  "rules_of t h =
     (if h \<noteq> 0 \<and> unat h < length (rule_id_array t) \<and> rule_id_array t ! (unat h - 1) \<noteq> 0
      then Some (client_rule (rule_at t (dec t (rule_id_array t ! (unat h - 1))))) else None)"

lemma slot_entry:
  assumes inv: "tbl_inv t nc ic" and k: "k < length (rule_id_array t)" "rule_id_array t ! k \<noteq> 0"
  shows "\<exists>e. live_rule t e \<and> rule_id_array t ! k = enc t e \<and> dec t (rule_id_array t ! k) = e"
proof -
  note d = tbl_invD [OF inv]
  have m: "rule_id_array t ! k \<in> set (rule_id_array t)" using k by simp
  then obtain e where e: "e \<in> entries t" "rule_id_array t ! k = enc t e"
    using d(5) k unfolding ids_ok_def by blast
  then have "live_rule t e" using d(5) m unfolding ids_ok_def by metis
  then show ?thesis using e dec_enc [OF d(1) e(1)] by auto
qed

lemma rules_of_eq:
  assumes inv: "tbl_inv t nc ic" and inv': "tbl_inv t' nc' ic'"
    and T: "table_entries t' = table_entries t" "rule_id_array t' = (rule_id_array t)[k := x]"
    and k: "k + 1 < length (rule_id_array t)" and h: "unat h = k + 1"
    and same: "\<And>e j. live_rule t e \<Longrightarrow> rule_id_array t ! j = enc t e \<Longrightarrow> j < length (rule_id_array t) \<Longrightarrow> j \<noteq> k
       \<Longrightarrow> client_rule (rule_at t' e) = client_rule (rule_at t e)"
  shows "rules_of t' = (rules_of t)(h := (if x = 0 then None else Some (client_rule (rule_at t' (dec t x)))))"
proof
  fix g
  show "rules_of t' g = ((rules_of t)(h := (if x = 0 then None else Some (client_rule (rule_at t' (dec t x)))))) g"
  proof (cases "g = h")
    case True
    have "h \<noteq> 0" using h by auto
    then show ?thesis using True h k by (simp add: rules_of_def T buckets_eq [OF T(1)])
  next
    case False
    show ?thesis
    proof (cases "g \<noteq> 0 \<and> unat g < length (rule_id_array t) \<and> rule_id_array t ! (unat g - 1) \<noteq> 0")
      case gd: True
      then have "unat g \<noteq> 0" by (simp add: unat_eq_0)
      moreover have "unat g \<noteq> unat h" using False by (simp add: word_unat_eq_iff)
      ultimately have j: "unat g - 1 \<noteq> k" "unat g - 1 < length (rule_id_array t)" using h gd by auto
      obtain e where e: "live_rule t e" "rule_id_array t ! (unat g - 1) = enc t e"
        "dec t (rule_id_array t ! (unat g - 1)) = e"
        using slot_entry [OF inv j(2)] gd by blast
      show ?thesis
        using False gd j e same [OF e(1,2) j(2,1)] by (simp add: rules_of_def T buckets_eq [OF T(1)])
    next
      case no: False
      have "unat g \<noteq> unat h" using False by (simp add: word_unat_eq_iff)
      then have "g \<noteq> 0 \<Longrightarrow> unat g - 1 \<noteq> k" using h unat_eq_0 [of g] by auto
      then show ?thesis using no False by (cases "g = 0") (auto simp: rules_of_def T)
    qed
  qed
qed

lemma parse_hdl:
  assumes inv: "tbl_inv t nc ic" and h: "h \<noteq> 0" "unat h < 2 ^ 16"
  shows "rules_of t h = None \<Longrightarrow>
      ipa_nati_parse_ipv4_rule_hdl (ucast h) t = Some (False, 0) \<or>
      ipa_nati_parse_ipv4_rule_hdl (ucast h) t = Some (True, 0)"
    and "rule_id_array t ! (unat h - 1) = enc t e \<Longrightarrow> e \<in> entries t \<Longrightarrow> unat h < length (rule_id_array t) \<Longrightarrow>
      ipa_nati_parse_ipv4_rule_hdl (ucast h) t = Some (\<not> e < table_entries t, loc t e)"
proof -
  note d = tbl_invD [OF inv]
  define g :: u16 where "g = ucast h"
  have g: "unat g = unat h" using h(2) by (simp add: g_def unsigned_ucast_eq take_bit_nat_eq_self_iff)
  have h0: "unat h \<noteq> 0" using h(1) by (simp add: unat_eq_0)
  then have "g \<noteq> 0" using g by auto
  then have g1: "unat (g - 1) = unat h - 1" using g by (simp add: unat_minus_one)
  have len: "length (rule_id_array t) = unat (table_entries t) + unat (expn_table_entries t)"
    using d(1) by (simp add: shape_def)
  have parse: "ipa_nati_parse_ipv4_rule_hdl g t =
      (if unat h < length (rule_id_array t)
       then Some (rule_id_array t ! (unat h - 1) AND 1 \<noteq> 0, drop_bit 1 (rule_id_array t ! (unat h - 1)))
       else Some (False, 0))"
    using g g1 len h0 \<open>g \<noteq> 0\<close>
    by (auto simp: ipa_nati_parse_ipv4_rule_hdl_def rd_def IPA_NAT_INVALID_NAT_ENTRY_def)
  show "rules_of t h = None \<Longrightarrow>
      ipa_nati_parse_ipv4_rule_hdl (ucast h) t = Some (False, 0) \<or>
      ipa_nati_parse_ipv4_rule_hdl (ucast h) t = Some (True, 0)"
    using h(1) unfolding g_def [symmetric] parse by (auto simp: rules_of_def split: if_splits)
  show "rule_id_array t ! (unat h - 1) = enc t e \<Longrightarrow> e \<in> entries t \<Longrightarrow> unat h < length (rule_id_array t) \<Longrightarrow>
      ipa_nati_parse_ipv4_rule_hdl (ucast h) t = Some (\<not> e < table_entries t, loc t e)"
    unfolding g_def [symmetric] parse using enc_parts [OF d(1), of e] by (simp add: loc_def)
qed

lemma del_rule_from_table:
  assumes dev: "dma_works dev" and inv: "tbl_inv t nc ic" and h: "h \<noteq> 0" "unat h < 2 ^ 16"
  shows "rules_of t h = None \<Longrightarrow> del_rule_from_table dev m h t = Some (- EINVAL, t)"
    and "rules_of t h \<noteq> None \<Longrightarrow> \<exists>t' nc' ic'. del_rule_from_table dev m h t = Some (0, t')
      \<and> tbl_inv t' nc' ic' \<and> rules_of t' = (rules_of t)(h := None)"
proof -
  note d = tbl_invD [OF inv]
  show "rules_of t h = None \<Longrightarrow> del_rule_from_table dev m h t = Some (- EINVAL, t)"
    using parse_hdl(1) [OF inv h] by (auto simp: del_rule_from_table_def IPA_NAT_INVALID_NAT_ENTRY_def)
  assume some: "rules_of t h \<noteq> None"
  then have k: "unat h < length (rule_id_array t)" "rule_id_array t ! (unat h - 1) \<noteq> 0"
    by (auto simp: rules_of_def split: if_splits)
  define k where "k = unat h - 1"
  have h0: "unat h \<noteq> 0" using h(1) by (simp add: unat_eq_0)
  have kl: "k < length (rule_id_array t)" "k + 1 < length (rule_id_array t)" "unat h = k + 1"
    using k(1) h0 by (simp_all add: k_def)
  obtain e where e: "live_rule t e" "rule_id_array t ! k = enc t e"
    using slot_entry [OF inv kl(1)] k(2) unfolding k_def by blast
  note ar = around [OF inv e(1) refl]
  define t3 where "t3 = ind_upd (ind_pos t (ind t e)) (ind t e) (inx t (ind t e))
    (nat_upd (nat_pos t e) e (nat_cmd t e (ind_cmd t (ind t e) t)))"
  note v = removed_views [OF inv e(1) refl refl refl t3_def]
  define t4 where "t4 = removed e t"
  define t' where "t' = upd_id k 0 t4"
  have t4: "rule_id_array t4 = rule_id_array t" "table_entries t4 = table_entries t"
    using v(2,4,16) by (simp_all add: t4_def)
  have "e \<noteq> 0" using ar(1) tab.no_zero by blast
  then have le: "loc t e \<noteq> 0" using entry_sub(4) [OF _ d(1), of e] ar(7) by (auto simp: loc_def)
  have hk: "unat (h - 1) = k" using h0 h(1) by (simp add: unat_minus_one k_def)
  have "del_rule_from_table dev m h t = Some (0, t')"
    unfolding del_rule_from_table_def parse_hdl(2) [OF inv h e(2) [unfolded k_def] ar(1) k(1)]
    using d(1) le kl(1) hk t4 v(15)
    by (simp add: find_rule_pos [OF d(1) ar(1)] post_del_dma [OF dev inv e(1) refl] IPA_NAT_INVALID_NAT_ENTRY_def
        shape_def upd_id_def t'_def flip: t3_def t4_def)
  moreover note r = tbl_inv_removed [OF inv e(1) kl(1) e(2), of t', unfolded t'_def, OF t4_def [THEN arg_cong]]
  obtain nc' ic' where inv': "tbl_inv t' nc' ic'" using r(1) unfolding t'_def by blast
  have same: "client_rule (rule_at t' a) = client_rule (rule_at t a)"
    if "live_rule t a" "rule_id_array t ! j = enc t a" "j < length (rule_id_array t)" "j \<noteq> k" for a j
  proof -
    have "rule_id_array t ! j \<noteq> 0"
      using that(1,2) enc_nonzero [OF d(1)] unfolding live_rule_def us_def by auto
    then have "a \<noteq> e" using d(5) that kl(1) e(2) unfolding ids_ok_def by metis
    then show ?thesis using r(2,3) [of a] that(1) unfolding t'_def by blast
  qed
  have "rules_of t' = (rules_of t)(h := None)"
    using rules_of_eq [OF inv inv' _ _ kl(2,3) same, of 0] t4 by (simp add: t'_def)
  ultimately show "\<exists>t' nc' ic'. del_rule_from_table dev m h t = Some (0, t')
      \<and> tbl_inv t' nc' ic' \<and> rules_of t' = (rules_of t)(h := None)" using inv' by blast
qed

end
