(* ===== verification/Nat_Refine.thy ===== *)
theory Nat_Refine
  imports Nat_Del
begin

text \<open>
  The contract of the NAT driver: a finite map from handles to rules, stated as the
  interface \<open>handle_map\<close> and interpreted on the operations of the driver.
\<close>

section \<open>The interface\<close>

datatype 'c nat_op = Add_rule 'c | Del_rule u32

text \<open>
  A step of the specification on a map, given what the operation returned (0 and a handle, or
  an error): an added rule gets a handle that was not in use; a deletion succeeds exactly
  for a handle in use. \<open>None\<close> is a result the specification does not allow.
\<close>

fun spec_step :: "(u32 \<rightharpoonup> 'c) \<Rightarrow> 'c nat_op \<Rightarrow> int \<times> u32 option \<Rightarrow> (u32 \<rightharpoonup> 'c) option" where
  "spec_step m (Add_rule c) (err, Some h) = (if err = 0 \<and> h \<noteq> 0 \<and> m h = None then Some (m(h \<mapsto> c)) else None)"
| "spec_step m (Add_rule c) (err, None) = (if err \<noteq> 0 then Some m else None)"
| "spec_step m (Del_rule h) (err, r) = (if (err = 0) = (m h \<noteq> None) then Some (m(h := None)) else None)"

fun spec_run :: "(u32 \<rightharpoonup> 'c) \<Rightarrow> 'c nat_op list \<Rightarrow> (int \<times> u32 option) list \<Rightarrow> (u32 \<rightharpoonup> 'c) option" where
  "spec_run m [] [] = Some m"
| "spec_run m (x # xs) (r # rs) = Option.bind (spec_step m x r) (\<lambda>m'. spec_run m' xs rs)"
| "spec_run m _ _ = None"

fun run_ops :: "('c nat_op \<Rightarrow> 's \<Rightarrow> ((int \<times> u32 option) \<times> 's) option) \<Rightarrow> 'c nat_op list \<Rightarrow> 's
    \<Rightarrow> ((int \<times> u32 option) list \<times> 's) option" where
  "run_ops f [] s = Some ([], s)"
| "run_ops f (x # xs) s =
     Option.bind (f x s) (\<lambda>(r, s1). map_option (\<lambda>(rs, s2). (r # rs, s2)) (run_ops f xs s1))"

locale handle_map =
  fixes inv :: "'s \<Rightarrow> bool" and rules :: "'s \<Rightarrow> u32 \<rightharpoonup> 'c"
    and add :: "'c \<Rightarrow> 's \<Rightarrow> (int \<times> u32 option \<times> 's) option"
    and del :: "u32 \<Rightarrow> 's \<Rightarrow> (int \<times> 's) option"
    and rule_ok :: "'c \<Rightarrow> bool" and hdl_ok :: "u32 \<Rightarrow> bool"
  assumes add_law: "inv s \<Longrightarrow> rule_ok c \<Longrightarrow>
      (\<exists>h s'. add c s = Some (0, Some h, s') \<and> inv s' \<and> hdl_ok h \<and> h \<noteq> 0 \<and> rules s h = None
         \<and> rules s' = (rules s)(h \<mapsto> c))
      \<or> (\<exists>err s'. add c s = Some (err, None, s') \<and> err \<noteq> 0 \<and> inv s' \<and> rules s' = rules s)"
    and del_law: "inv s \<Longrightarrow> hdl_ok h \<Longrightarrow>
      (\<exists>err s'. del h s = Some (err, s') \<and> inv s' \<and> (err = 0 \<longleftrightarrow> rules s h \<noteq> None)
         \<and> rules s' = (rules s)(h := None))"
begin

fun step :: "'c nat_op \<Rightarrow> 's \<Rightarrow> ((int \<times> u32 option) \<times> 's) option" where
  "step (Add_rule c) s = map_option (\<lambda>(err, h, s'). ((err, h), s')) (add c s)"
| "step (Del_rule h) s = map_option (\<lambda>(err, s'). ((err, None), s')) (del h s)"

fun op_ok :: "'c nat_op \<Rightarrow> bool" where
  "op_ok (Add_rule c) = rule_ok c"
| "op_ok (Del_rule h) = hdl_ok h"

lemma step_refines:
  assumes "inv s" "op_ok x"
  shows "\<exists>r s'. step x s = Some (r, s') \<and> inv s' \<and> spec_step (rules s) x r = Some (rules s')"
proof (cases x)
  case (Add_rule c)
  then show ?thesis using add_law [OF assms(1), of c] assms(2) by auto
next
  case (Del_rule h)
  then show ?thesis using del_law [OF assms(1), of h] assms(2) by auto
qed

lemma run_refines:
  "inv s \<Longrightarrow> list_all op_ok xs \<Longrightarrow>
    \<exists>rs s'. run_ops step xs s = Some (rs, s') \<and> inv s' \<and> spec_run (rules s) xs rs = Some (rules s')"
proof (induction xs arbitrary: s)
  case Nil
  then show ?case by simp
next
  case (Cons x xs)
  obtain r s1 where 1: "step x s = Some (r, s1)" "inv s1" "spec_step (rules s) x r = Some (rules s1)"
    using step_refines [OF Cons.prems(1), of x] Cons.prems(2) by auto
  obtain rs s' where "run_ops step xs s1 = Some (rs, s')" "inv s'" "spec_run (rules s1) xs rs = Some (rules s')"
    using Cons.IH [OF 1(2)] Cons.prems(2) by auto
  then show ?case using 1 by (intro exI [of _ "r # rs"] exI [of _ s']) simp
qed

text \<open>Adding a rule and deleting it again restores the map.\<close>

lemma add_del:
  assumes "inv s" "rule_ok c" "add c s = Some (0, Some h, s1)"
  shows "\<exists>s2. del h s1 = Some (0, s2) \<and> inv s2 \<and> rules s2 = rules s"
proof -
  have 1: "inv s1" "hdl_ok h" "rules s h = None" "rules s1 = (rules s)(h \<mapsto> c)"
    using add_law [OF assms(1,2)] assms(3) by auto
  obtain err s2 where 2: "del h s1 = Some (err, s2)" "inv s2" "err = 0 \<longleftrightarrow> rules s1 h \<noteq> None"
    "rules s2 = (rules s1)(h := None)" using del_law [OF 1(1,2)] by blast
  have "rules s2 = rules s" using 1(3,4) 2(4) by (auto simp: fun_eq_iff)
  then show ?thesis using 1(4) 2 by auto
qed

end

section \<open>The driver\<close>

definition nat_drv_step :: "nat_dev \<Rightarrow> ipa_nat_ipv4_rule nat_op \<Rightarrow> nat_cache
    \<Rightarrow> ((int \<times> u32 option) \<times> nat_cache) option" where
  "nat_drv_step dev x s = (case x of
     Add_rule c \<Rightarrow> map_option (\<lambda>(err, h, s'). ((err, h), s')) (nat_drv_add_ipv4_rule dev 1 c s)
   | Del_rule h \<Rightarrow> map_option (\<lambda>(err, s'). ((err, None), s')) (nat_drv_del_ipv4_rule dev 1 h s))"

definition drv_inv :: "nat_cache \<Rightarrow> bool" where
  "drv_inv s \<longleftrightarrow> (\<exists>t nc ic. ip4_tbl s = [t] \<and> tbl_inv t nc ic)"

definition drv_rules :: "nat_cache \<Rightarrow> u32 \<Rightarrow> ipa_nat_ipv4_rule option" where
  "drv_rules s = rules_of (hd (ip4_tbl s))"

text \<open>The rules and handles that clients pass: no rule with the protocol of dead heads.\<close>

definition plain_rule :: "ipa_nat_ipv4_rule \<Rightarrow> bool" where "plain_rule c \<longleftrightarrow> r_protocol c \<noteq> 0xFF"
definition hdl16 :: "u32 \<Rightarrow> bool" where "hdl16 h \<longleftrightarrow> unat h < 2 ^ 16"

definition client_op :: "ipa_nat_ipv4_rule nat_op \<Rightarrow> bool" where
  "client_op x = (case x of Add_rule c \<Rightarrow> plain_rule c | Del_rule h \<Rightarrow> hdl16 h)"

lemma add_refines:
  assumes dev: "dma_works dev" and inv: "tbl_inv t nc ic" and c: "r_protocol c \<noteq> 0xFF"
  shows "(\<exists>h t' nc' ic'. add_rule_to_table dev m c t = Some (0, Some h, t') \<and> tbl_inv t' nc' ic'
      \<and> unat h < 2 ^ 16 \<and> h \<noteq> 0 \<and> rules_of t h = None \<and> rules_of t' = (rules_of t)(h \<mapsto> c))
    \<or> (add_rule_to_table dev m c t = Some (- EINVAL, None, t) \<and> ((\<forall>a \<in> expns t. us t a) \<or> (\<forall>a \<in> expns t. ius t a)))"
  using add_rule_to_table [OF assms, of m]
proof
  assume "\<exists>e i k t'. add_rule_to_table dev m c t = Some (0, Some (ucast (of_nat (k + 1) :: u16)), t')
      \<and> k + 1 < unat (table_entries t) + unat (expn_table_entries t) \<and> rule_id_array t ! k = 0
      \<and> k < length (rule_id_array t)
      \<and> free_place (expns t) (us t) nc (dst_bucket t c) e \<and> free_place (expns t) (ius t) ic (src_bucket t c) i
      \<and> t' = upd_id k (enc t e) (added ((sw_rule_of (public_addr t) c)
           \<lparr>prev_index := chain_last nc (dst_bucket t c), indx_tbl_entry := i\<rparr>) e i
           (chain_last ic (src_bucket t c)) t)"
  then obtain e i k t' where
    r: "add_rule_to_table dev m c t = Some (0, Some (ucast (of_nat (k + 1) :: u16)), t')"
      "k + 1 < unat (table_entries t) + unat (expn_table_entries t)" "rule_id_array t ! k = 0"
      "k < length (rule_id_array t)"
    and f: "free_place (expns t) (us t) nc (dst_bucket t c) e" "free_place (expns t) (ius t) ic (src_bucket t c) i"
    and t': "t' = upd_id k (enc t e) (added ((sw_rule_of (public_addr t) c)
           \<lparr>prev_index := chain_last nc (dst_bucket t c), indx_tbl_entry := i\<rparr>) e i
           (chain_last ic (src_bucket t c)) t)" by blast
  note d = tbl_invD [OF inv]
  note a = tbl_inv_added [OF inv refl refl f refl c r(4,3) t']
  have len: "length (rule_id_array t) = unat (table_entries t) + unat (expn_table_entries t)"
    and small: "k + 1 < 2 ^ 16" using d(1) r(2) by (simp_all add: shape_def)
  define h :: u32 where "h = ucast (of_nat (k + 1) :: u16)"
  have "unat (of_nat (k + 1) :: u16) = k + 1" using small by (simp only: unat_of_nat) simp
  then have h: "unat h = k + 1"
    unfolding h_def by (simp only: unsigned_ucast_eq) (use small in \<open>simp add: take_bit_nat_eq_self_iff\<close>)
  have e: "e \<in> entries t" using tab.free_place(1) [OF d(2) dst_bucket_base(1) [OF d(1)] f(1)] .
  have hn: "rules_of t h = None" using h r(3) by (simp add: rules_of_def)
  have T: "table_entries t' = table_entries t" "rule_id_array t' = (rule_id_array t)[k := enc t e]"
    by (simp_all add: t')
  have k1: "k + 1 < length (rule_id_array t)" using r(2) len by simp
  have same: "client_rule (rule_at t' x) = client_rule (rule_at t x)" if "live_rule t x" for x
    using a(3) a(4) [of x] that by auto
  have "rules_of t' = (rules_of t)(h \<mapsto> c)"
    using rules_of_eq [OF inv a(1) T k1 h same] enc_nonzero [OF d(1) e] dec_enc [OF d(1) e] a(4) [of e] by simp
  moreover have "h \<noteq> 0" using h by auto
  moreover have "unat h < 2 ^ 16" using h small by simp
  ultimately show ?thesis using r(1) a(1) hn unfolding h_def [symmetric] by blast
qed blast

lemma cache_upd: "ip4_tbl s = [t] \<Longrightarrow> ip4_tbl (s\<lparr>ip4_tbl := (ip4_tbl s)[0 := t']\<rparr>) = [t']"
  by simp

lemma drv_add:
  assumes "dma_works dev" "drv_inv s" "plain_rule c"
  shows "(\<exists>h s'. nat_drv_add_ipv4_rule dev 1 c s = Some (0, Some h, s') \<and> drv_inv s' \<and> hdl16 h \<and> h \<noteq> 0
         \<and> drv_rules s h = None \<and> drv_rules s' = (drv_rules s)(h \<mapsto> c))
      \<or> (\<exists>err s'. nat_drv_add_ipv4_rule dev 1 c s = Some (err, None, s') \<and> err \<noteq> 0 \<and> drv_inv s'
         \<and> drv_rules s' = drv_rules s)"
proof -
  obtain t nc ic where t: "ip4_tbl s = [t]" "tbl_inv t nc ic" using assms(2) by (auto simp: drv_inv_def)
  have r: "nat_drv_add_ipv4_rule dev 1 c s =
      map_option (\<lambda>(err, hdl, t). (if err \<noteq> 0 then - EINVAL else 0, hdl, s\<lparr>ip4_tbl := [t]\<rparr>))
        (add_rule_to_table dev 0 c t)"
    using t(1) by (simp add: nat_drv_add_ipv4_rule_def ipa_nati_add_ipv4_rule_def IPA_NAT_MAX_IP4_TBLS_def
        option.map_comp comp_def split_def)
  show ?thesis
    using add_refines [OF assms(1) t(2) assms(3) [unfolded plain_rule_def], of 0] t
    by (fastforce simp: r drv_inv_def drv_rules_def EINVAL_def hdl16_def)
qed

lemma drv_del:
  assumes "dma_works dev" "drv_inv s" "hdl16 h"
  shows "\<exists>err s'. nat_drv_del_ipv4_rule dev 1 h s = Some (err, s') \<and> drv_inv s'
    \<and> (err = 0 \<longleftrightarrow> drv_rules s h \<noteq> None) \<and> drv_rules s' = (drv_rules s)(h := None)"
proof -
  obtain t nc ic where t: "ip4_tbl s = [t]" "tbl_inv t nc ic" using assms(2) by (auto simp: drv_inv_def)
  show ?thesis
  proof (cases "h = 0")
    case True
    have "rules_of t 0 = None" by (simp add: rules_of_def)
    then show ?thesis
      using True assms(2) t by (auto simp: nat_drv_del_ipv4_rule_def EINVAL_def drv_rules_def)
  next
    case False
    have r: "nat_drv_del_ipv4_rule dev 1 h s =
        map_option (\<lambda>(err, t). (err, s\<lparr>ip4_tbl := [t]\<rparr>)) (del_rule_from_table dev 0 h t)"
      using t(1) False by (simp add: nat_drv_del_ipv4_rule_def ipa_nati_del_ipv4_rule_def)
    note d = del_rule_from_table [OF assms(1) t(2) False assms(3) [unfolded hdl16_def], of 0]
    show ?thesis
    proof (cases "rules_of t h")
      case None
      have "(rules_of t)(h := None) = rules_of t" using None by auto
      then show ?thesis using d(1) None t by (auto simp: r drv_inv_def drv_rules_def EINVAL_def)
    next
      case (Some c)
      then show ?thesis using d(2) t by (fastforce simp: r drv_inv_def drv_rules_def)
    qed
  qed
qed

text \<open>A device whose commands are carried out.\<close>

definition good_dev :: "nat_dev \<Rightarrow> nat_dev" where
  "good_dev dev = dev\<lparr>cmd_malloc := True, dev_dma := \<lambda>cmds t. (True, fold dma_write cmds t)\<rparr>"

lemma good_dev: "dma_works (good_dev dev)"
  by (simp add: dma_works_def good_dev_def)

lemma dma_works_good: "dma_works dev \<Longrightarrow> dev = good_dev dev"
  by (simp add: dma_works_def good_dev_def fun_eq_iff)

interpretation drv: handle_map drv_inv drv_rules
    "nat_drv_add_ipv4_rule (good_dev dev) 1" "nat_drv_del_ipv4_rule (good_dev dev) 1"
    plain_rule hdl16 for dev
proof
  fix s :: nat_cache and c :: ipa_nat_ipv4_rule assume "drv_inv s" "plain_rule c"
  from drv_add [OF good_dev this, of dev] show
    "(\<exists>h s'. nat_drv_add_ipv4_rule (good_dev dev) 1 c s = Some (0, Some h, s') \<and> drv_inv s' \<and> hdl16 h
         \<and> h \<noteq> 0 \<and> drv_rules s h = None \<and> drv_rules s' = (drv_rules s)(h \<mapsto> c))
      \<or> (\<exists>err s'. nat_drv_add_ipv4_rule (good_dev dev) 1 c s = Some (err, None, s') \<and> err \<noteq> 0 \<and> drv_inv s'
         \<and> drv_rules s' = drv_rules s)" .
next
  fix s :: nat_cache and h :: u32 assume "drv_inv s" "hdl16 h"
  from drv_del [OF good_dev this, of dev] show
    "\<exists>err s'. nat_drv_del_ipv4_rule (good_dev dev) 1 h s = Some (err, s') \<and> drv_inv s'
      \<and> (err = 0 \<longleftrightarrow> drv_rules s h \<noteq> None) \<and> drv_rules s' = (drv_rules s)(h := None)" .
qed

lemma drv_step_eq: "drv.step dev = nat_drv_step (good_dev dev)"
proof (rule ext, rule ext)
  fix x :: "ipa_nat_ipv4_rule nat_op" and s
  show "drv.step dev x s = nat_drv_step (good_dev dev) x s"
    by (cases x) (simp_all add: nat_drv_step_def)
qed

lemma client_op_eq: "drv.op_ok = client_op"
proof (rule ext)
  fix x :: "ipa_nat_ipv4_rule nat_op"
  show "drv.op_ok x = client_op x" by (cases x) (simp_all add: client_op_def)
qed

section \<open>A new table\<close>

definition base_size :: "u16 \<Rightarrow> u16" where
  "base_size n =
     (let b = of_nat (4 * unat n div 5) in
      case GetNearest2Power (if b = 0 then 1 else b) of Some (_, r) \<Rightarrow> r | None \<Rightarrow> 0)"

definition expn_size :: "u16 \<Rightarrow> u16" where
  "expn_size n = (case GetNearestEven (of_nat (unat n div 5)) of Some r \<Rightarrow> r | None \<Rightarrow> 0)"

definition maps_table :: "nat_dev \<Rightarrow> u16 \<Rightarrow> bool" where
  "maps_table dev n \<longleftrightarrow> dev_open dev \<and> (\<forall>m. dev_alloc dev m = Some 0) \<and> dev_nat_open dev
     \<and> meta_malloc dev \<and> ids_malloc dev \<and> (\<forall>i. dev_init dev i)
     \<and> (case dev_mmap dev of
          Some (a, b, c, d) \<Rightarrow> length a = unat (base_size n) \<and> length b = unat (expn_size n)
            \<and> length c = unat (base_size n) \<and> length d = unat (expn_size n)
        | None \<Rightarrow> False)"

lemma base_size:
  assumes "0 < unat n" "unat n \<le> 20480"
  shows "GetNearest2Power (if of_nat (4 * unat n div 5) = (0 :: u16) then 1 else of_nat (4 * unat n div 5))
      = Some (0, base_size n)"
    "2 \<le> unat (base_size n)" "unat (base_size n) \<le> 2 ^ 14"
proof -
  define b :: u16 where "b = (if of_nat (4 * unat n div 5) = (0 :: u16) then 1 else of_nat (4 * unat n div 5))"
  have "4 * unat n div 5 \<le> 16384" using assms by simp
  then have ub: "unat b \<le> 16384" "b \<noteq> 0" by (auto simp: b_def unat_of_nat)
  have "\<exists>r. GetNearest2Power b = Some (0, r) \<and> 2 \<le> unat r \<and> unat r \<le> 2 ^ 14"
  proof (cases "b = 1")
    case True
    then show ?thesis by (simp add: GetNearest2Power_def)
  next
    case False
    obtain k r where k: "GetNearest2Power b = Some (0, r)" "unat r = 2 ^ k" "1 \<le> k" "k \<le> 15"
      "unat b \<le> 2 ^ k" "2 ^ (k - 1) < unat b"
      using GetNearest2Power_small [OF ub(2) False] ub(1) by auto
    have "(2 :: nat) ^ (k - 1) < 2 ^ 14" using k(6) ub(1) by simp
    then have "k - 1 < 14" by (rule power_less_imp_less_exp [rotated]) simp
    then have "unat r \<le> 2 ^ 14" unfolding k(2) using k(3) by (intro power_increasing) auto
    moreover have "2 \<le> unat r" unfolding k(2) using power_increasing [of 1 k "2 :: nat"] k(3) by simp
    ultimately show ?thesis using k(1) by blast
  qed
  then obtain r where r: "GetNearest2Power b = Some (0, r)" "2 \<le> unat r" "unat r \<le> 2 ^ 14" by blast
  have "base_size n = r" using r(1) by (simp add: base_size_def Let_def b_def)
  then show "GetNearest2Power (if of_nat (4 * unat n div 5) = (0 :: u16) then 1 else of_nat (4 * unat n div 5))
      = Some (0, base_size n)" "2 \<le> unat (base_size n)" "unat (base_size n) \<le> 2 ^ 14"
    using r unfolding b_def by blast+
qed

lemma expn_size:
  assumes "unat n \<le> 20480"
  shows "GetNearestEven (of_nat (unat n div 5)) = Some (expn_size n)"
    "2 \<le> unat (expn_size n)" "unat (expn_size n) \<le> 2 ^ 14"
proof -
  define b :: u16 where "b = of_nat (unat n div 5)"
  have ub: "unat b \<le> 4096" using assms by (simp add: b_def unat_of_nat)
  obtain r where r: "GetNearestEven b = Some r" "2 \<le> unat r"
    "unat r = (if unat b < 2 then 2 else if even (unat b) then unat b else unat b + 1)"
    using GetNearestEven_small [of b] ub by auto
  have "expn_size n = r" using r(1) by (simp add: expn_size_def b_def)
  then show "GetNearestEven (of_nat (unat n div 5)) = Some (expn_size n)"
    "2 \<le> unat (expn_size n)" "unat (expn_size n) \<le> 2 ^ 14"
    using r ub unfolding b_def by (auto split: if_splits)
qed

lemma empty_table:
  assumes s: "shape t"
    and z: "ipv4_rules t = replicate (unat (table_entries t)) zero_rule"
      "ipv4_expn_rules t = replicate (unat (expn_table_entries t)) zero_rule"
      "index_table t = replicate (unat (table_entries t)) 0"
      "index_table_expn t = replicate (unat (expn_table_entries t)) 0"
      "rule_id_array t = replicate (unat (table_entries t) + unat (expn_table_entries t)) 0"
  shows "tbl_inv t (\<lambda>_. []) (\<lambda>_. [])" "rules_of t = Map.empty"
proof -
  have b: "e < table_entries t \<Longrightarrow> rule_at t e = zero_rule" "e < table_entries t \<Longrightarrow> index_at t e = 0" for e
    by (simp_all add: rule_at_def index_at_def z word_less_nat_alt)
  have x: "e \<in> expns t \<Longrightarrow> rule_at t e = zero_rule" "e \<in> expns t \<Longrightarrow> index_at t e = 0" for e
    using entry_sub(1,3) [OF _ s, of e] by (simp_all add: rule_at_def index_at_def z)
  have us: "\<not> us t e" and iu: "\<not> ius t e" for e
    using b x by (auto simp: us_def ius_def ite_def base_entries_def)
  have dd: "e < table_entries t \<Longrightarrow> \<not> dead t e" for e by (simp add: dead_def b)
  have lv: "\<not> live_rule t e" for e using us by (simp add: live_rule_def)
  have "nat_chains t (\<lambda>_. [])" "ind_chains t (\<lambda>_. [])" using us iu by (simp_all add: chains_def)
  moreover have "paired t" using us iu dd lv by (simp add: paired_def)
  moreover have "ids_ok t"
    using lv enc_nonzero [OF s] by (auto simp: ids_ok_def z)
  moreover have "placed t (\<lambda>_. []) (\<lambda>_. [])" by (simp add: placed_def)
  ultimately show "tbl_inv t (\<lambda>_. []) (\<lambda>_. [])" using s by (simp add: tbl_inv_def)
  show "rules_of t = Map.empty"
  proof
    fix h :: u32
    have "h \<noteq> 0 \<Longrightarrow> unat h \<noteq> 0" by (simp add: unat_eq_0)
    then show "rules_of t h = None" by (auto simp: rules_of_def z)
  qed
qed

lemma new_table:
  assumes n: "0 < unat n" "unat n \<le> 20480" and dev: "maps_table dev n"
    and s: "ip4_tbl s = [no_table]" "table_cnt s = 0"
  shows "\<exists>s'. nat_drv_add_ipv4_tbl dev pub n s = Some (0, 1, s') \<and> drv_inv s' \<and> drv_rules s' = Map.empty"
proof -
  note bs = base_size [OF n] and es = expn_size [OF n(2)]
  obtain a b c d where m: "dev_mmap dev = Some (a, b, c, d)" "length a = unat (base_size n)"
    "length b = unat (expn_size n)" "length c = unat (base_size n)" "length d = unat (expn_size n)"
    using dev by (auto simp: maps_table_def split: option.splits)
  define msize :: u32 where "msize = 32 * ucast (base_size n + expn_size n) + 4 * ucast (base_size n + expn_size n)"
  define s1 where "s1 = s\<lparr>ipa_fd := True\<rparr>"
  have al: "ipa_nati_alloc_table dev n s = Some (Inr (base_size n, expn_size n, msize, 0), s1)"
    using bs(1) es(1) dev unfolding ipa_nati_alloc_table_def Let_def msize_def s1_def
    by (simp add: maps_table_def CreateNatDevice_def)
  define t1 where "t1 = no_table\<lparr>tbl_valid := True, public_addr := pub, tbl_size := msize, tbl_addr_offset := 0,
      table_entries := base_size n, expn_table_entries := expn_size n,
      index_expn_table_meta := replicate (unat (expn_size n)) 0,
      rule_id_array := replicate (unat (base_size n) + unat (expn_size n)) 0,
      ipv4_rules := a, ipv4_expn_rules := b, index_table := c, index_table_expn := d\<rparr>"
  have up: "ipa_nati_update_cache dev pub (base_size n) (expn_size n) msize 0 no_table = (0, t1)"
    using dev m by (simp add: ipa_nati_update_cache_def maps_table_def t1_def no_table_def)
  define t2 where "t2 = t1\<lparr>ipv4_rules := replicate (unat (base_size n)) zero_rule,
      ipv4_expn_rules := replicate (unat (expn_size n)) zero_rule,
      index_table := replicate (unat (base_size n)) 0, index_table_expn := replicate (unat (expn_size n)) 0\<rparr>"
  have rs: "ipa_nati_reset_tbl t1 = Some t2"
    using m by (simp add: ipa_nati_reset_tbl_def t1_def t2_def memset0_def no_table_def Let_def)
  have ini: "ipa_nati_post_ipv4_init_cmd dev x t2 = 0" for x
    using dev by (simp add: ipa_nati_post_ipv4_init_cmd_def maps_table_def Let_def)
  define s' where "s' = s1\<lparr>ip4_tbl := [t2], table_cnt := 1\<rparr>"
  have "ipa_nati_add_ipv4_tbl dev pub n s = Some (0, 1, s')"
    using al up rs ini s by (simp add: ipa_nati_add_ipv4_tbl_def s1_def s'_def)
  then have r: "nat_drv_add_ipv4_tbl dev pub n s = Some (0, 1, s')"
    using n(1) by (auto simp: nat_drv_add_ipv4_tbl_def)
  have t2': "shape t2" "table_entries t2 = base_size n" "expn_table_entries t2 = expn_size n"
    using bs es by (simp_all add: shape_def t2_def t1_def no_table_def)
  have "tbl_inv t2 (\<lambda>_. []) (\<lambda>_. [])" "rules_of t2 = Map.empty"
    using t2' by (intro empty_table; simp add: t2_def t1_def)+
  then show ?thesis using r by (auto simp: drv_inv_def drv_rules_def s'_def)
qed

section \<open>Rules are where the hardware looks\<close>



section \<open>Properties\<close>

lemma size_loop_least:
  assumes "2 ^ (k - 1) < n" "(n :: nat) \<le> 2 ^ k"
  shows "(LEAST j. n \<le> 2 ^ j) = k"
proof (rule Least_equality)
  show "n \<le> 2 ^ k" by (rule assms)
  fix j assume "n \<le> (2 :: nat) ^ j"
  then have "(2 :: nat) ^ (k - 1) < 2 ^ j" using assms(1) by (rule order_less_le_trans [rotated])
  then have "k - 1 < j" by (rule power_less_imp_less_exp [rotated]) simp
  then show "k \<le> j" by simp
qed

definition sim_dev :: nat_dev where
  "sim_dev = \<lparr>dev_open = True, dev_alloc = \<lambda>_. Some 0, dev_nat_open = True,
     dev_mmap = Some (replicate 2 zero_rule, replicate 2 zero_rule, replicate 2 0, replicate 2 0),
     meta_malloc = True, ids_malloc = True, cmd_malloc = True,
     dev_dma = \<lambda>cmds t. (True, fold dma_write cmds t), dev_init = \<lambda>_. True, dev_close = True, dev_del = True\<rparr>"

definition small_table :: ip4_table where
  "small_table = no_table\<lparr>tbl_valid := True, table_entries := 2, expn_table_entries := 2,
     ipv4_rules := replicate 2 zero_rule, ipv4_expn_rules := replicate 2 zero_rule,
     index_table := replicate 2 0, index_table_expn := replicate 2 0,
     index_expn_table_meta := replicate 2 0, rule_id_array := replicate 4 0\<rparr>"

definition small_cache :: nat_cache where
  "small_cache = \<lparr>ip4_tbl = [small_table], ipa_fd = True, table_cnt = 1\<rparr>"

definition dns_rule :: ipa_nat_ipv4_rule where
  "dns_rule = \<lparr>r_target_ip = 0x08080808, r_private_ip = 0xC0A80102, r_target_port = 53,
     r_private_port = 40000, r_public_port = 40001, r_protocol = 17\<rparr>"

definition one_rule_cache :: nat_cache where
  "one_rule_cache = snd (snd (the (nat_drv_add_ipv4_rule sim_dev 1 dns_rule small_cache)))"

lemma sim_dev_works: "dma_works sim_dev"
  by (simp add: dma_works_def sim_dev_def)

lemma small_cache_inv: "drv_inv small_cache" "drv_rules small_cache = Map.empty"
proof -
  have "shape small_table" by (simp add: shape_def small_table_def no_table_def)
  then have "tbl_inv small_table (\<lambda>_. []) (\<lambda>_. [])" "rules_of small_table = Map.empty"
    by (rule empty_table; simp add: small_table_def no_table_def)+
  then show "drv_inv small_cache" "drv_rules small_cache = Map.empty"
    by (auto simp: drv_inv_def drv_rules_def small_cache_def)
qed

lemma one_rule_added:
  "map_option (\<lambda>(err, h, _). (err, h)) (nat_drv_add_ipv4_rule sim_dev 1 dns_rule small_cache) = Some (0, Some 1)"
  "drv_rules one_rule_cache 1 = Some dns_rule"
  by code_simp+


text \<open>C2. The NAT driver refines a finite map from handles to rules: for every sequence of
  additions and deletions by a client, with a device that carries out its commands, no access
  goes outside a table, every addition that succeeds gives a handle that was not in use,
  a deletion succeeds exactly for a handle in use, and the rules that the tables hold are
  those of the map.\<close>

theorem nat_driver_refines_map:
  assumes "dma_works dev" "drv_inv s" "list_all client_op xs"
  shows "\<exists>rs s'. run_ops (nat_drv_step dev) xs s = Some (rs, s') \<and> drv_inv s'
    \<and> spec_run (drv_rules s) xs rs = Some (drv_rules s')"
  using drv.run_refines [OF assms(2), of xs dev] assms(3)
  unfolding drv_step_eq client_op_eq unfolding dma_works_good [OF assms(1), symmetric] by blast

theorem nat_driver_refines_map_witness:
  "\<exists>rs s'. run_ops (nat_drv_step sim_dev) [Add_rule dns_rule, Add_rule dns_rule, Del_rule 1, Del_rule 7] small_cache
      = Some (rs, s') \<and> drv_inv s'
    \<and> spec_run (drv_rules small_cache) [Add_rule dns_rule, Add_rule dns_rule, Del_rule 1, Del_rule 7] rs
      = Some (drv_rules s')"
  by (rule nat_driver_refines_map [OF sim_dev_works small_cache_inv(1)])
    (simp add: client_op_def plain_rule_def hdl16_def dns_rule_def)



text \<open>A new table, of at most 20480 entries, on a device that maps tables of the computed
  sizes, has the handle 1, satisfies the invariant and denotes the empty map.\<close>

theorem new_nat_table_is_empty:
  assumes "0 < unat n" "unat n \<le> 20480" "maps_table dev n" "ip4_tbl s = [no_table]" "table_cnt s = 0"
  shows "\<exists>s'. nat_drv_add_ipv4_tbl dev pub n s = Some (0, 1, s') \<and> drv_inv s' \<and> drv_rules s' = Map.empty"
  using new_table [OF assms] .

theorem new_nat_table_is_empty_witness:
  "\<exists>s'. nat_drv_add_ipv4_tbl sim_dev 0x0A000001 1 \<lparr>ip4_tbl = [no_table], ipa_fd = False, table_cnt = 0\<rparr>
      = Some (0, 1, s') \<and> drv_inv s' \<and> drv_rules s' = Map.empty"
proof (rule new_nat_table_is_empty)
  have "base_size 1 = 2" "expn_size 1 = 2" by (code_simp)+
  then show "maps_table sim_dev 1" by (simp add: maps_table_def sim_dev_def)
qed simp_all

text \<open>C4. A rule that was added and deleted by its handle leaves the rules as they were.\<close>

theorem nat_rule_add_del_roundtrip:
  assumes "dma_works dev" "drv_inv s" "plain_rule c" "nat_drv_add_ipv4_rule dev 1 c s = Some (0, Some h, s1)"
  shows "\<exists>s2. nat_drv_del_ipv4_rule dev 1 h s1 = Some (0, s2) \<and> drv_inv s2 \<and> drv_rules s2 = drv_rules s"
  using drv.add_del [OF assms(2,3), of dev h s1] assms(4)
  unfolding dma_works_good [OF assms(1), symmetric] by blast

theorem nat_rule_add_del_roundtrip_witness:
  "\<exists>s2. nat_drv_del_ipv4_rule sim_dev 1 1 one_rule_cache = Some (0, s2) \<and> drv_inv s2
    \<and> drv_rules s2 = drv_rules small_cache"
proof (rule nat_rule_add_del_roundtrip [OF sim_dev_works small_cache_inv(1)])
  show "plain_rule dns_rule" by (simp add: plain_rule_def dns_rule_def)
  show "nat_drv_add_ipv4_rule sim_dev 1 dns_rule small_cache = Some (0, Some 1, one_rule_cache)"
    using one_rule_added(1) by (auto simp: one_rule_cache_def)
qed

text \<open>C5. The correction that the driver stores for the TCP or UDP checksum is, in one's
  complement arithmetic, what replacing the private address and port by the public ones
  adds to the sum.\<close>

theorem tcp_udp_correction_is_difference:
  "uint (ipa_nati_calc_tcp_udp_cksum pub pport priv vport) mod 65535 =
     (uint pub + uint pport - uint priv - uint vport) mod 65535
   \<and> uint (ipa_nati_calc_ip_cksum pub priv) mod 65535 = (uint pub - uint priv) mod 65535"
  by (simp add: tcp_udp_cksum_mod ip_cksum_mod)

text \<open>C6. The size computation always ends: it returns the least power of two that is not below
  the number asked for, 2 for 1, an error for 0, and above 32768 the size 0 with success.\<close>

theorem GetNearest2Power_total:
  "GetNearest2Power num = Some
     (if num = 0 then (- EINVAL, 0) else if num = 1 then (0, 2)
      else if 32768 < unat num then (0, 0) else (0, of_nat (2 ^ (LEAST k. unat num \<le> 2 ^ k))))"
proof -
  consider "num = 0" | "num = 1" | "32768 < unat num" | "num \<noteq> 0" "num \<noteq> 1" "unat num \<le> 32768" by linarith
  then show ?thesis
  proof cases
    case 3
    then have "num \<noteq> 0" "num \<noteq> 1" by auto
    then show ?thesis using GetNearest2Power_large [OF 3] 3 by simp
  next
    case 4
    obtain k r where k: "GetNearest2Power num = Some (0, r)" "unat r = 2 ^ k"
      "unat num \<le> 2 ^ k" "2 ^ (k - 1) < unat num"
      using GetNearest2Power_small [OF 4] by blast
    have "r = of_nat (2 ^ k)" unfolding k(2) [symmetric] by simp
    then show ?thesis using 4 k(1) size_loop_least [OF k(4,3)] by simp
  qed (simp_all add: GetNearest2Power_def)
qed

text \<open>C7. Every field of a rule can be read back from the packed words that the hardware gets.\<close>

theorem packed_rule_fields_roundtrip:
  "(let r' = rule_to_hw r in
      Read16BitFieldValue (nxt_indx_pub_port r') NEXT_INDEX_FIELD = next_index r
    \<and> Read16BitFieldValue (nxt_indx_pub_port r') PUBLIC_PORT_FILED = s_public_port r
    \<and> Read16BitFieldValue (ip_cksm_enbl r') IP_CHKSUM_FIELD = ip_chksum r
    \<and> (Read16BitFieldValue (ip_cksm_enbl r') ENABLE_FIELD \<noteq> 0) = enable r
    \<and> Read32BitFieldValue (ts_proto r') TIME_STAMP_FIELD = ucast (time_stamp r)
    \<and> Read8BitFieldValue (ts_proto r') PROTOCOL_FIELD = s_protocol r
    \<and> Read16BitFieldValue (sw_spec_params r') SW_SPEC_PARAM_PREV_INDEX_FIELD = prev_index r
    \<and> Read16BitFieldValue (sw_spec_params r') SW_SPEC_PARAM_INDX_TBL_ENTRY_FIELD = indx_tbl_entry r)"
proof -
  have "(ucast (time_stamp r) OR push_bit 24 (ucast (s_protocol r)) :: u32) AND mask 24 = ucast (time_stamp r)"
    by (rule bit_eqI) (auto simp: bit_simps dest: bit_imp_le_length)
  then have ts: "Read32BitFieldValue (ts_proto (rule_to_hw r)) TIME_STAMP_FIELD = ucast (time_stamp r)"
    by (simp add: Read32BitFieldValue_def rule_to_hw_def mask_eq_exp_minus_1)
  have "ena_of (rule_to_hw r) = enable r" by simp
  then have en: "(Read16BitFieldValue (ip_cksm_enbl (rule_to_hw r)) ENABLE_FIELD \<noteq> 0) = enable r"
    unfolding ena_of_def by simp
  have "Read16BitFieldValue (nxt_indx_pub_port (rule_to_hw r)) PUBLIC_PORT_FILED = s_public_port r"
    "Read16BitFieldValue (ip_cksm_enbl (rule_to_hw r)) IP_CHKSUM_FIELD = ip_chksum r"
    by (simp_all add: Read16BitFieldValue_def rule_to_hw_def)
  then show ?thesis using ts en by (simp add: Let_def)
qed

text \<open>The handle 0 is not rejected by the query for a time stamp: it reads before the array.\<close>

theorem query_timestamp_of_handle_0:
  assumes "drv_inv s"
  shows "nat_drv_query_timestamp 1 0 s = None"
proof -
  obtain t nc ic where t: "ip4_tbl s = [t]" "shape t" using assms tbl_invD(1) by (auto simp: drv_inv_def)
  then show ?thesis
    by (simp add: nat_drv_query_timestamp_def ipa_nati_query_timestamp_def IPA_NAT_MAX_IP4_TBLS_def
        shape_def ipa_nati_parse_ipv4_rule_hdl_def Let_def)
qed

end
