(* ===== verification/Ipacm_Ioctl.thy ===== *)
theory Ipacm_Ioctl
  imports Ipacm_Events
begin

text \<open>
  The wrappers of the IPA driver's device: \<^verbatim>\<open>IPACM_Filtering.cpp\<close>, \<^verbatim>\<open>IPACM_Header.cpp\<close>
  and \<^verbatim>\<open>IPACM_Routing.cpp\<close>. The kernel is an argument: a record of the system calls, each a
  function of its request and of the kernel's state, with the return value and what the
  call writes into the request, together with three limits of the kernel's headers. A table that a call takes has one entry for each rule.
\<close>

section \<open>Requests\<close>

datatype flt_flag =
    IPA_FLT_SRC_ADDR | IPA_FLT_DST_ADDR | IPA_FLT_FRAGMENT | IPA_FLT_META_DATA | IPA_FLT_other nat

text \<open>An IPv4 address is a list of one word, an IPv6 address one of four; \<open>attrib_rest\<close> is all else.\<close>

record ipa_rule_attrib =
  attrib_mask :: "flt_flag set"
  src_addr :: "u32 list"
  src_addr_mask :: "u32 list"
  dst_addr :: "u32 list"
  dst_addr_mask :: "u32 list"
  meta_data :: u32
  meta_data_mask :: u32
  attrib_rest :: nat

text \<open>What \<open>memset\<close> to zero leaves.\<close>

definition zero_attrib :: ipa_rule_attrib where
  "zero_attrib = \<lparr>attrib_mask = {}, src_addr = [], src_addr_mask = [], dst_addr = [], dst_addr_mask = [],
    meta_data = 0, meta_data_mask = 0, attrib_rest = 0\<rparr>"

text \<open>
  The equations of a rule: which are present, the protocol, the masked comparisons behind the IP
  header and of the metadata, each an offset, a value and a mask; \<open>eq_rest\<close> is all else.
\<close>

record ipa_ipfltri_rule_eq =
  rule_eq_bitmap :: u16
  protocol_eq :: "u8 option"
  ihl_offset_meq_32 :: "(u8 \<times> u32 \<times> u32) list"
  metadata_meq32 :: "(u8 \<times> u32 \<times> u32) option"
  eq_rest :: nat

definition zero_eq :: ipa_ipfltri_rule_eq where
  "zero_eq = \<lparr>rule_eq_bitmap = 0, protocol_eq = None, ihl_offset_meq_32 = [], metadata_meq32 = None, eq_rest = 0\<rparr>"

datatype ipa_flt_action =
    IPA_PASS_TO_ROUTING | IPA_PASS_TO_SRC_NAT | IPA_PASS_TO_DST_NAT | IPA_PASS_TO_EXCEPTION | other_flt_action

datatype ipa_filter_action_enum_v01 =
    QMI_IPA_FILTER_ACTION_ROUTING_V01 | QMI_IPA_FILTER_ACTION_SRC_NAT_V01 | QMI_IPA_FILTER_ACTION_DST_NAT_V01
  | QMI_IPA_FILTER_ACTION_EXCEPTION_V01 | IPA_FILTER_ACTION_ENUM_MAX_ENUM_VAL_V01

record ipa_flt_rule =
  flt_action :: ipa_flt_action
  rt_tbl_hdl :: u32
  rt_tbl_idx :: u32
  flt_attrib :: ipa_rule_attrib
  eq_attrib :: ipa_ipfltri_rule_eq
  eq_attrib_type :: bool
  retain_hdr :: bool

record ipa_ioc_add_flt_rule =
  add_flt_ip :: ipa_ip_type
  add_flt_ep :: u32
  add_flt_global :: bool
  add_flt_tbl :: "(bool \<times> ipa_flt_rule) list"

record ipa_filter_spec =
  filter_spec_identifier :: nat
  spec_ip_type :: ipa_ip_type
  filter_action :: ipa_filter_action_enum_v01
  route_table_index :: u32
  mux_id :: u8
  spec_filter_rule :: ipa_ipfltri_rule_eq

record ipa_hdr_add =
  hdr_name :: string
  hdr_bytes :: "u8 list"

record ipa_ioc_copy_hdr =
  copied_hdr :: "u8 list"
  is_eth2_ofst_valid :: bool
  eth2_ofst :: nat

record ipa_rt_rule_add =
  rt_add_ip :: ipa_ip_type
  rt_tbl_name :: string
  rt_at_rear :: bool
  rt_hdr_hdl :: u32
  rt_dst :: u32
  rt_attrib :: ipa_rule_attrib

text \<open>Bytes copied into a header at an offset; \<open>None\<close> when they do not fit in.\<close>

definition put_bytes :: "nat \<Rightarrow> u8 list \<Rightarrow> u8 list \<Rightarrow> u8 list option" where
  "put_bytes off bs h =
     (if off + length bs \<le> length h then Some (take off h @ bs @ drop (off + length bs) h) else None)"

section \<open>The kernel\<close>

record 'k ipa_kernel =
  malloc :: "'k \<Rightarrow> bool \<times> 'k"
  open_wwan :: "'k \<Rightarrow> int \<times> 'k"
  QMI_IPA_MAX_FILTERS :: nat
  IPA_HDR_MAX_SIZE :: nat
  IPA_RESOURCE_NAME_MAX :: nat
  IOC_ADD_FLT_RULE :: "ipa_ioc_add_flt_rule \<Rightarrow> 'k \<Rightarrow> (int \<times> (int \<times> u32) list) \<times> 'k"
  IOC_DEL_FLT_RULE :: "ipa_ip_type \<Rightarrow> u32 \<Rightarrow> 'k \<Rightarrow> (int \<times> int) \<times> 'k"
  IOC_MDFY_FLT_RULE :: "ipa_ip_type \<Rightarrow> u32 \<Rightarrow> ipa_flt_rule \<Rightarrow> 'k \<Rightarrow> int \<times> 'k"
  IOC_COMMIT_FLT :: "ipa_ip_type \<Rightarrow> 'k \<Rightarrow> int \<times> 'k"
  IOC_RESET_FLT :: "ipa_ip_type \<Rightarrow> 'k \<Rightarrow> int \<times> 'k"
  WAN_ADD_FLT_RULE :: "ipa_filter_spec list \<Rightarrow> 'k \<Rightarrow> int \<times> 'k"
  WAN_ADD_FLT_RULE_INDEX :: "nat \<Rightarrow> 'k \<Rightarrow> int \<times> 'k"
  IOC_ADD_HDR :: "ipa_hdr_add \<Rightarrow> 'k \<Rightarrow> (int \<times> int \<times> u32) \<times> 'k"
  IOC_DEL_HDR :: "u32 \<Rightarrow> 'k \<Rightarrow> (int \<times> int) \<times> 'k"
  IOC_COMMIT_HDR :: "'k \<Rightarrow> int \<times> 'k"
  IOC_RESET_HDR :: "'k \<Rightarrow> int \<times> 'k"
  IOC_GET_HDR :: "string \<Rightarrow> 'k \<Rightarrow> (int \<times> u32) \<times> 'k"
  IOC_COPY_HDR :: "string \<Rightarrow> 'k \<Rightarrow> (int \<times> ipa_ioc_copy_hdr) \<times> 'k"
  IOC_ADD_HDR_PROC_CTX :: "nat \<Rightarrow> 'k \<Rightarrow> (int \<times> u32) \<times> 'k"
  IOC_DEL_HDR_PROC_CTX :: "u32 \<Rightarrow> 'k \<Rightarrow> int \<times> 'k"
  fcntl_GETFL :: "int \<Rightarrow> 'k \<Rightarrow> int"
  IOC_ADD_RT_RULE :: "ipa_rt_rule_add \<Rightarrow> 'k \<Rightarrow> (int \<times> u32) \<times> 'k"
  IOC_DEL_RT_RULE :: "ipa_ip_type \<Rightarrow> u32 \<Rightarrow> 'k \<Rightarrow> (int \<times> int) \<times> 'k"
  IOC_COMMIT_RT :: "ipa_ip_type \<Rightarrow> 'k \<Rightarrow> int \<times> 'k"
  IOC_RESET_RT :: "ipa_ip_type \<Rightarrow> 'k \<Rightarrow> int \<times> 'k"
  IOC_GET_RT_TBL :: "string \<Rightarrow> 'k \<Rightarrow> (int \<times> u32) \<times> 'k"
  IOC_PUT_RT_TBL :: "u32 \<Rightarrow> 'k \<Rightarrow> int \<times> 'k"

text \<open>A result of a call that succeeds with a value, \<open>None\<close> when it returns \<open>false\<close>.\<close>

definition on_zero :: "(int \<times> 'a) \<times> 'k \<Rightarrow> 'a option \<times> 'k" where
  "on_zero r = (if fst (fst r) = 0 then Some (snd (fst r)) else None, snd r)"

definition is_zero :: "int \<times> 'k \<Rightarrow> bool \<times> 'k" where
  "is_zero r = (fst r = 0, snd r)"

section \<open>Filtering\<close>

text \<open>The file descriptor is converted to a \<open>bool\<close>: a failed \<open>open\<close> counts as opened.\<close>

definition flt_DeviceNodeIsOpened :: "int \<Rightarrow> bool" where
  "flt_DeviceNodeIsOpened fd \<longleftrightarrow> fd \<noteq> 0"

text \<open>The statuses of the single rules are only logged.\<close>

definition AddFilteringRule :: "'k ipa_kernel \<Rightarrow> ipa_ioc_add_flt_rule \<Rightarrow> 'k \<Rightarrow> (int \<times> u32) list option \<times> 'k" where
  "AddFilteringRule K ruleTable k = on_zero (IOC_ADD_FLT_RULE K ruleTable k)"

definition DeleteFilteringRule :: "'k ipa_kernel \<Rightarrow> ipa_ip_type \<Rightarrow> u32 \<Rightarrow> 'k \<Rightarrow> int option \<times> 'k" where
  "DeleteFilteringRule K ip hdl k = on_zero (IOC_DEL_FLT_RULE K ip hdl k)"

definition flt_Commit :: "'k ipa_kernel \<Rightarrow> ipa_ip_type \<Rightarrow> 'k \<Rightarrow> bool \<times> 'k" where
  "flt_Commit K ip k = is_zero (IOC_COMMIT_FLT K ip k)"

definition flt_Reset :: "'k ipa_kernel \<Rightarrow> ipa_ip_type \<Rightarrow> 'k \<Rightarrow> bool \<times> 'k" where
  "flt_Reset K ip k =
     (case IOC_RESET_FLT K ip k of (r, k1) \<Rightarrow>
        case IOC_COMMIT_FLT K ip k1 of (r', k2) \<Rightarrow> (r = 0 \<and> r' = 0, k2))"

fun DeleteFilteringHdls_loop :: "'k ipa_kernel \<Rightarrow> ipa_ip_type \<Rightarrow> u32 list \<Rightarrow> 'k \<Rightarrow> bool \<times> 'k" where
  "DeleteFilteringHdls_loop K ip [] k = (True, k)"
| "DeleteFilteringHdls_loop K ip (h # hs) k =
     (if h = 0 then DeleteFilteringHdls_loop K ip hs k
      else case DeleteFilteringRule K ip h k of
        (None, k1) \<Rightarrow> (False, k1)
      | (Some status, k1) \<Rightarrow> if status \<noteq> 0 then (False, k1) else DeleteFilteringHdls_loop K ip hs k1)"

definition DeleteFilteringHdls :: "'k ipa_kernel \<Rightarrow> u32 list \<Rightarrow> ipa_ip_type \<Rightarrow> 'k \<Rightarrow> bool \<times> 'k" where
  "DeleteFilteringHdls K flt_rule_hdls ip k =
     (case malloc K k of (m, k1) \<Rightarrow>
        if \<not> m then (False, k1) else DeleteFilteringHdls_loop K ip flt_rule_hdls k1)"

fun GetQmiFilterAction :: "ipa_flt_action \<Rightarrow> ipa_filter_action_enum_v01" where
  "GetQmiFilterAction IPA_PASS_TO_ROUTING = QMI_IPA_FILTER_ACTION_ROUTING_V01"
| "GetQmiFilterAction IPA_PASS_TO_SRC_NAT = QMI_IPA_FILTER_ACTION_SRC_NAT_V01"
| "GetQmiFilterAction IPA_PASS_TO_DST_NAT = QMI_IPA_FILTER_ACTION_DST_NAT_V01"
| "GetQmiFilterAction IPA_PASS_TO_EXCEPTION = QMI_IPA_FILTER_ACTION_EXCEPTION_V01"
| "GetQmiFilterAction other_flt_action = IPA_FILTER_ACTION_ENUM_MAX_ENUM_VAL_V01"

text \<open>One pass over a table from its last rule to its first, with the position in the message.\<close>

fun qmi_specs :: "nat \<Rightarrow> ipa_ip_type \<Rightarrow> u8 \<Rightarrow> ipa_flt_rule list \<Rightarrow> ipa_filter_spec list \<Rightarrow> ipa_filter_spec list" where
  "qmi_specs maxf ip mux [] specs = specs"
| "qmi_specs maxf ip mux (r # rs) specs =
     qmi_specs maxf ip mux rs
       (if length specs < maxf then
          specs @ [\<lparr>filter_spec_identifier = length specs, spec_ip_type = ip,
                    filter_action = GetQmiFilterAction (flt_action r), route_table_index = rt_tbl_idx r,
                    mux_id = mux, spec_filter_rule = eq_attrib r\<rparr>]
        else specs)"

definition AddWanDLFilteringRule :: "'k ipa_kernel \<Rightarrow> ipa_flt_rule list option \<Rightarrow> ipa_flt_rule list option \<Rightarrow> u8
    \<Rightarrow> 'k \<Rightarrow> bool \<times> 'k" where
  "AddWanDLFilteringRule K rule_table_v4 rule_table_v6 mux k =
     (case open_wwan K k of (fd, k1) \<Rightarrow>
        if fd < 0 then (False, k1)
        else
          let rules = (\<lambda>t. case t of None \<Rightarrow> [] | Some rs \<Rightarrow> rs);
              num_rules = length (rules rule_table_v4) + length (rules rule_table_v6)
          in if num_rules > QMI_IPA_MAX_FILTERS K then (False, k1)
             else is_zero (WAN_ADD_FLT_RULE K
               (qmi_specs (QMI_IPA_MAX_FILTERS K) IPA_IP_v6 mux (rev (rules rule_table_v6))
                 (qmi_specs (QMI_IPA_MAX_FILTERS K) IPA_IP_v4 mux (rev (rules rule_table_v4)) [])) k1))"

definition SendFilteringRuleIndex :: "'k ipa_kernel \<Rightarrow> nat \<Rightarrow> 'k \<Rightarrow> bool \<times> 'k" where
  "SendFilteringRuleIndex K tbl k =
     (case open_wwan K k of (fd, k1) \<Rightarrow>
        if fd < 0 then (False, k1) else is_zero (WAN_ADD_FLT_RULE_INDEX K tbl k1))"

definition ModifyFilteringRule :: "'k ipa_kernel \<Rightarrow> ipa_ip_type \<Rightarrow> u32 \<Rightarrow> ipa_flt_rule \<Rightarrow> 'k \<Rightarrow> bool \<times> 'k" where
  "ModifyFilteringRule K ip hdl r k = is_zero (IOC_MDFY_FLT_RULE K ip hdl r k)"

section \<open>Headers\<close>

definition hdr_DeviceNodeIsOpened :: "int \<Rightarrow> bool" where
  "hdr_DeviceNodeIsOpened m_fd \<longleftrightarrow> m_fd \<noteq> - 1"

text \<open>The status and the handle of the header, when the call does not return -1.\<close>

definition AddHeader :: "'k ipa_kernel \<Rightarrow> ipa_hdr_add \<Rightarrow> 'k \<Rightarrow> (int \<times> u32) option \<times> 'k" where
  "AddHeader K h k =
     (case IOC_ADD_HDR K h k of ((ret, sh), k1) \<Rightarrow> (if ret \<noteq> - 1 then Some sh else None, k1))"

definition DeleteHeader :: "'k ipa_kernel \<Rightarrow> u32 \<Rightarrow> 'k \<Rightarrow> int option \<times> 'k" where
  "DeleteHeader K hdl k =
     (case IOC_DEL_HDR K hdl k of ((ret, status), k1) \<Rightarrow> (if ret \<noteq> - 1 then Some status else None, k1))"

definition hdr_Commit :: "'k ipa_kernel \<Rightarrow> 'k \<Rightarrow> bool \<times> 'k" where
  "hdr_Commit K k = (True, snd (IOC_COMMIT_HDR K k))"

definition hdr_Reset :: "'k ipa_kernel \<Rightarrow> 'k \<Rightarrow> bool \<times> 'k" where
  "hdr_Reset K k = (True, snd (IOC_COMMIT_HDR K (snd (IOC_RESET_HDR K k))))"

definition GetHeaderHandle :: "'k ipa_kernel \<Rightarrow> int \<Rightarrow> string \<Rightarrow> 'k \<Rightarrow> u32 option \<times> 'k" where
  "GetHeaderHandle K m_fd name k =
     (if \<not> hdr_DeviceNodeIsOpened m_fd then (None, k) else on_zero (IOC_GET_HDR K name k))"

definition CopyHeader :: "'k ipa_kernel \<Rightarrow> int \<Rightarrow> string \<Rightarrow> 'k \<Rightarrow> ipa_ioc_copy_hdr option \<times> 'k" where
  "CopyHeader K m_fd name k =
     (if \<not> hdr_DeviceNodeIsOpened m_fd then (None, k) else on_zero (IOC_COPY_HDR K name k))"

definition DeleteHeaderHdl :: "'k ipa_kernel \<Rightarrow> u32 \<Rightarrow> 'k \<Rightarrow> bool \<times> 'k" where
  "DeleteHeaderHdl K hdr_hdl k =
     (if hdr_hdl = 0 then (False, k)
      else case malloc K k of (m, k1) \<Rightarrow>
        if \<not> m then (False, k1)
        else case DeleteHeader K hdr_hdl k1 of (r, k2) \<Rightarrow> (r = Some 0, k2))"

definition AddHeaderProcCtx :: "'k ipa_kernel \<Rightarrow> nat \<Rightarrow> 'k \<Rightarrow> u32 option \<times> 'k" where
  "AddHeaderProcCtx K h k =
     (case IOC_ADD_HDR_PROC_CTX K h k of ((ret, hdl), k1) \<Rightarrow> (if ret \<noteq> - 1 then Some hdl else None, k1))"

definition DeleteHeaderProcCtx :: "'k ipa_kernel \<Rightarrow> u32 \<Rightarrow> 'k \<Rightarrow> bool \<times> 'k" where
  "DeleteHeaderProcCtx K hdl k =
     (case malloc K k of (m, k1) \<Rightarrow>
        if \<not> m then (False, k1)
        else case IOC_DEL_HDR_PROC_CTX K hdl k1 of (ret, k2) \<Rightarrow> (ret \<noteq> - 1, k2))"

section \<open>Routing\<close>

definition rt_DeviceNodeIsOpened :: "'k ipa_kernel \<Rightarrow> int \<Rightarrow> 'k \<Rightarrow> bool" where
  "rt_DeviceNodeIsOpened K m_fd k \<longleftrightarrow> m_fd > 0 \<and> fcntl_GETFL K m_fd k \<ge> 0"

definition AddRoutingRule :: "'k ipa_kernel \<Rightarrow> int \<Rightarrow> ipa_rt_rule_add \<Rightarrow> 'k \<Rightarrow> u32 option \<times> 'k" where
  "AddRoutingRule K m_fd r k =
     (if \<not> rt_DeviceNodeIsOpened K m_fd k then (None, k) else on_zero (IOC_ADD_RT_RULE K r k))"

definition DeleteRoutingRule :: "'k ipa_kernel \<Rightarrow> int \<Rightarrow> ipa_ip_type \<Rightarrow> u32 \<Rightarrow> 'k \<Rightarrow> int option \<times> 'k" where
  "DeleteRoutingRule K m_fd ip hdl k =
     (if \<not> rt_DeviceNodeIsOpened K m_fd k then (None, k) else on_zero (IOC_DEL_RT_RULE K ip hdl k))"

definition rt_Commit :: "'k ipa_kernel \<Rightarrow> int \<Rightarrow> ipa_ip_type \<Rightarrow> 'k \<Rightarrow> bool \<times> 'k" where
  "rt_Commit K m_fd ip k =
     (if \<not> rt_DeviceNodeIsOpened K m_fd k then (False, k) else is_zero (IOC_COMMIT_RT K ip k))"

definition rt_Reset :: "'k ipa_kernel \<Rightarrow> int \<Rightarrow> ipa_ip_type \<Rightarrow> 'k \<Rightarrow> bool \<times> 'k" where
  "rt_Reset K m_fd ip k =
     (if \<not> rt_DeviceNodeIsOpened K m_fd k then (False, k)
      else case IOC_RESET_RT K ip k of (r, k1) \<Rightarrow>
        case IOC_COMMIT_RT K ip k1 of (r', k2) \<Rightarrow> (r = 0 \<and> r' = 0, k2))"

definition GetRoutingTable :: "'k ipa_kernel \<Rightarrow> int \<Rightarrow> string \<Rightarrow> 'k \<Rightarrow> u32 option \<times> 'k" where
  "GetRoutingTable K m_fd name k =
     (if \<not> rt_DeviceNodeIsOpened K m_fd k then (None, k) else on_zero (IOC_GET_RT_TBL K name k))"

definition PutRoutingTable :: "'k ipa_kernel \<Rightarrow> int \<Rightarrow> u32 \<Rightarrow> 'k \<Rightarrow> bool \<times> 'k" where
  "PutRoutingTable K m_fd hdl k =
     (if \<not> rt_DeviceNodeIsOpened K m_fd k then (False, k) else is_zero (IOC_PUT_RT_TBL K hdl k))"

text \<open>The assignment of \<open>false\<close> comes after the jump to the end: a failure is not reported.\<close>

definition DeleteRoutingHdl :: "'k ipa_kernel \<Rightarrow> int \<Rightarrow> u32 \<Rightarrow> ipa_ip_type \<Rightarrow> 'k \<Rightarrow> bool \<times> 'k" where
  "DeleteRoutingHdl K m_fd rt_rule_hdl ip k =
     (if rt_rule_hdl = 0 then (True, k)
      else case malloc K k of (m, k1) \<Rightarrow>
        if \<not> m then (False, k1) else (True, snd (DeleteRoutingRule K m_fd ip rt_rule_hdl k1)))"

section \<open>Properties\<close>

lemma qmi_specs_eq:
  "length specs + length rs \<le> maxf \<Longrightarrow> qmi_specs maxf ip mux rs specs =
     specs @ map (\<lambda>(i, r). \<lparr>filter_spec_identifier = i, spec_ip_type = ip,
        filter_action = GetQmiFilterAction (flt_action r), route_table_index = rt_tbl_idx r,
        mux_id = mux, spec_filter_rule = eq_attrib r\<rparr>) (enumerate (length specs) rs)"
  by (induction rs arbitrary: specs) auto

text \<open>A routing rule whose deletion fails is reported as deleted.\<close>

lemma failed_routing_deletion_reported:
  "fst (malloc K k) \<Longrightarrow> fst (DeleteRoutingHdl K m_fd hdl ip k)"
  by (simp add: DeleteRoutingHdl_def split_def)

end
