(* ===== verification/Ipacm_Pairs.thy ===== *)
theory Ipacm_Pairs
  imports Ipacm_Ioctl
begin

text \<open>
  The resources an interface keeps for traffic between LAN clients
  (\<^verbatim>\<open>IPACM_Lan.cpp\<close>, the functions \<open>*_lan2lan_*\<close>, and their override in \<^verbatim>\<open>IPACM_Wlan.cpp\<close>): a fixed
  number of filtering rules, installed as dummies and rewritten for a pair of clients, and
  a fixed number of headers. The members that exist once for IPv4 and once for IPv6 are
  functions of the IP type, and so is the code that exists twice. Addresses are lists of
  words, one for IPv4. \<open>None\<close> as the outer result is an access outside an array.
\<close>

definition MAX_OFFLOAD_PAIR :: nat where "MAX_OFFLOAD_PAIR = 3"
definition MAX_NUM_PROP :: nat where "MAX_NUM_PROP = 8"

section \<open>State\<close>

record lan2lan_flt_rule_hdl =
  flt_hdl :: u32
  flt_valid :: bool

record lan2lan_hdr_hdl =
  hdr_hdl :: u32
  hdr_valid :: bool

record tx_props =
  tx_ip :: ipa_ip_type
  tx_hdr_name :: string
  dst_pipe :: u32
  tx_attrib :: ipa_rule_attrib

datatype hdr_attrib = WLAN_HDR_ATTRIB_MAC_ADDR nat | WLAN_HDR_ATTRIB_STA_ID nat "u8 list" | other_hdr_attrib

text \<open>
  \<open>wlan_client\<close> is there for an \<open>IPACM_Wlan\<close>: the MAC addresses of its clients, with the
  attributes of their headers. \<open>rx_prop\<close> is the pipe and the attributes of the first
  receive property.
\<close>

record lan_iface =
  if_cat :: ipacm_iface_type
  wlan_client :: "(u8 list \<times> hdr_attrib list) list option"
  rx_prop :: "(u32 \<times> ipa_rule_attrib) option"
  tx_prop :: "tx_props list option"
  lan2lan_flt :: "ipa_ip_type \<Rightarrow> lan2lan_flt_rule_hdl list"
  num_lan2lan_flt_rule :: "ipa_ip_type \<Rightarrow> u8"
  lan2lan_hdr :: "ipa_ip_type \<Rightarrow> lan2lan_hdr_hdl list"
  flt_rule_count :: "ipa_ip_type \<Rightarrow> nat"
  hdr_fd :: int
  rt_fd :: int

text \<open>The members as the constructor leaves them.\<close>

definition lan2lan_members_init :: "lan_iface \<Rightarrow> lan_iface" where
  "lan2lan_members_init i =
     i\<lparr>lan2lan_flt := \<lambda>_. replicate MAX_OFFLOAD_PAIR \<lparr>flt_hdl = 0, flt_valid = False\<rparr>,
       num_lan2lan_flt_rule := \<lambda>_. 0,
       lan2lan_hdr := \<lambda>_. replicate MAX_OFFLOAD_PAIR \<lparr>hdr_hdl = 0, hdr_valid = False\<rparr>\<rparr>"

definition lan2lan_tbl :: "ipa_ip_type \<Rightarrow> string" where
  "lan2lan_tbl ip = (if ip = IPA_IP_v4 then ''LANTOLANRTBLv4'' else ''LANTOLANRTBLv6'')"

definition words :: "ipa_ip_type \<Rightarrow> nat" where
  "words ip = (if ip = IPA_IP_v4 then 1 else 4)"

text \<open>A match of source and destination, added to the attributes of a property.\<close>

definition match_pair :: "ipa_ip_type \<Rightarrow> u32 list \<Rightarrow> u32 list \<Rightarrow> ipa_rule_attrib \<Rightarrow> ipa_rule_attrib" where
  "match_pair ip src dst a =
     a\<lparr>attrib_mask := insert IPA_FLT_DST_ADDR (insert IPA_FLT_SRC_ADDR (attrib_mask a)),
       src_addr := src, src_addr_mask := replicate (words ip) 0xFFFFFFFF,
       dst_addr := dst, dst_addr_mask := replicate (words ip) 0xFFFFFFFF\<rparr>"

text \<open>A dummy rule matches the address of all ones only.\<close>

definition dummy_attrib :: "ipa_ip_type \<Rightarrow> ipa_rule_attrib \<Rightarrow> ipa_rule_attrib" where
  "dummy_attrib ip a =
     a\<lparr>attrib_mask := {IPA_FLT_SRC_ADDR, IPA_FLT_DST_ADDR},
       src_addr := replicate (words ip) (- 1), src_addr_mask := replicate (words ip) (- 1),
       dst_addr := replicate (words ip) (- 1), dst_addr_mask := replicate (words ip) (- 1)\<rparr>"

section \<open>Filtering rules\<close>

definition pair_rule :: "ipa_ip_type \<Rightarrow> u32 \<Rightarrow> u32 list \<Rightarrow> u32 list \<Rightarrow> ipa_rule_attrib \<Rightarrow> ipa_flt_rule" where
  "pair_rule ip tbl src dst a =
     \<lparr>flt_action = IPA_PASS_TO_ROUTING, rt_tbl_hdl = tbl, rt_tbl_idx = 0, flt_attrib = match_pair ip src dst a,
      eq_attrib = zero_eq, eq_attrib_type = False, retain_hdr = False\<rparr>"

definition add_lan2lan_flt_rule :: "'k ipa_kernel \<Rightarrow> ipa_ip_type \<Rightarrow> u32 list \<Rightarrow> u32 list \<Rightarrow> lan_iface \<Rightarrow> 'k
    \<Rightarrow> u32 option \<times> lan_iface \<times> 'k" where
  "add_lan2lan_flt_rule K ip src dst i k =
     (case rx_prop i of
        None \<Rightarrow> (None, i, k)
      | Some (_, rx) \<Rightarrow>
          (case malloc K k of (m, k1) \<Rightarrow>
             if \<not> m then (None, i, k1)
             else if ip = IPA_IP_MAX then (None, i, k1)
             else if unat (num_lan2lan_flt_rule i ip) \<ge> MAX_OFFLOAD_PAIR then (None, i, k1)
             else
               (case GetRoutingTable K (rt_fd i) (lan2lan_tbl ip) k1 of
                  (None, k2) \<Rightarrow> (None, i, k2)
                | (Some tbl, k2) \<Rightarrow>
                    let j = find_idx (\<lambda>s. \<not> flt_valid s) (lan2lan_flt i ip)
                    in if j \<ge> MAX_OFFLOAD_PAIR then (None, i, k2)
                       else
                         let h = flt_hdl (lan2lan_flt i ip ! j)
                         in case ModifyFilteringRule K ip h (pair_rule ip tbl src dst rx) k2 of
                              (ok, k3) \<Rightarrow>
                                if \<not> ok then (None, i, k3)
                                else (Some h,
                                  i\<lparr>lan2lan_flt := (lan2lan_flt i)(ip := (lan2lan_flt i ip)[j := (lan2lan_flt i ip ! j)\<lparr>flt_valid := True\<rparr>]),
                                    num_lan2lan_flt_rule := (num_lan2lan_flt_rule i)(ip := num_lan2lan_flt_rule i ip + 1)\<rparr>, k3))))"

text \<open>The rules that were added, up to the first with an error.\<close>

fun copy_flt_hdls :: "(int \<times> u32) list \<Rightarrow> lan2lan_flt_rule_hdl list \<Rightarrow> bool \<times> lan2lan_flt_rule_hdl list" where
  "copy_flt_hdls ((status, h) # rs) (s # ss) =
     (if status = 0 then apsnd ((#) (s\<lparr>flt_hdl := h\<rparr>)) (copy_flt_hdls rs ss) else (False, s # ss))"
| "copy_flt_hdls rs ss = (True, ss)"

definition add_dummy_lan2lan_flt_rule :: "'k ipa_kernel \<Rightarrow> ipa_ip_type \<Rightarrow> lan_iface \<Rightarrow> 'k \<Rightarrow> int \<times> lan_iface \<times> 'k" where
  "add_dummy_lan2lan_flt_rule K ip i k =
     (case rx_prop i of
        None \<Rightarrow> (0, i, k)
      | Some (pipe, rx) \<Rightarrow>
          (case malloc K k of (m, k1) \<Rightarrow>
             if \<not> m then (IPACM_FAILURE, i, k1)
             else if ip = IPA_IP_MAX then (IPACM_SUCCESS, i, k1)
             else
               (let r = \<lparr>flt_action = IPA_PASS_TO_EXCEPTION, rt_tbl_hdl = 0, rt_tbl_idx = 0, flt_attrib = dummy_attrib ip rx,
                         eq_attrib = zero_eq, eq_attrib_type = False, retain_hdr = False\<rparr>
                in case AddFilteringRule K \<lparr>add_flt_ip = ip, add_flt_ep = pipe, add_flt_global = False,
                          add_flt_tbl = replicate MAX_OFFLOAD_PAIR (True, r)\<rparr> k1 of
                     (None, k2) \<Rightarrow> (IPACM_FAILURE, i, k2)
                   | (Some replies, k2) \<Rightarrow>
                       (case copy_flt_hdls replies (lan2lan_flt i ip) of (ok, ss) \<Rightarrow>
                          (if ok then IPACM_SUCCESS else IPACM_FAILURE,
                           i\<lparr>flt_rule_count := (flt_rule_count i)(ip := flt_rule_count i ip + MAX_OFFLOAD_PAIR),
                             lan2lan_flt := (lan2lan_flt i)(ip := ss)\<rparr>, k2)))))"

definition reset_to_dummy_flt_rule :: "'k ipa_kernel \<Rightarrow> ipa_ip_type \<Rightarrow> u32 \<Rightarrow> 'k \<Rightarrow> bool \<times> 'k" where
  "reset_to_dummy_flt_rule K ip hdl k =
     (case malloc K k of (m, k1) \<Rightarrow>
        if \<not> m then (False, k1)
        else if ip = IPA_IP_MAX then (False, k1)
        else ModifyFilteringRule K ip hdl
               \<lparr>flt_action = IPA_PASS_TO_EXCEPTION, rt_tbl_hdl = 0, rt_tbl_idx = 0, flt_attrib = dummy_attrib ip zero_attrib,
                eq_attrib = zero_eq, eq_attrib_type = False, retain_hdr = False\<rparr> k1)"

text \<open>The slot is found by its handle, whether it is in use or not.\<close>

definition del_lan2lan_flt_rule :: "'k ipa_kernel \<Rightarrow> ipa_ip_type \<Rightarrow> u32 \<Rightarrow> lan_iface \<Rightarrow> 'k \<Rightarrow> bool \<times> lan_iface \<times> 'k" where
  "del_lan2lan_flt_rule K ip hdl i k =
     (if ip = IPA_IP_MAX then (False, i, k)
      else
        let j = find_idx (\<lambda>s. flt_hdl s = hdl) (lan2lan_flt i ip)
        in if j \<ge> MAX_OFFLOAD_PAIR then (False, i, k)
           else case reset_to_dummy_flt_rule K ip hdl k of
             (ok, k1) \<Rightarrow>
               if \<not> ok then (False, i, k1)
               else (True,
                 i\<lparr>lan2lan_flt := (lan2lan_flt i)(ip := (lan2lan_flt i ip)[j := (lan2lan_flt i ip ! j)\<lparr>flt_valid := False\<rparr>]),
                   num_lan2lan_flt_rule := (num_lan2lan_flt_rule i)(ip := num_lan2lan_flt_rule i ip - 1)\<rparr>, k1))"

section \<open>Headers\<close>

text \<open>The header of an Ethernet client: the copied header with both MAC addresses.\<close>

definition eth_hdr :: "ipa_ioc_copy_hdr \<Rightarrow> u8 list \<Rightarrow> u8 list \<Rightarrow> u8 list \<Rightarrow> u8 list option" where
  "eth_hdr c src_mac dst_mac h =
     (if is_eth2_ofst_valid c
      then Option.bind (put_bytes (eth2_ofst c) dst_mac h) (put_bytes (eth2_ofst c + length dst_mac) src_mac)
      else Some h)"

text \<open>The header of a WLAN client: its attributes say where the addresses and its id go.\<close>

fun wlan_hdr :: "hdr_attrib list \<Rightarrow> u8 list \<Rightarrow> u8 list \<Rightarrow> u8 list \<Rightarrow> u8 list option" where
  "wlan_hdr [] src_mac dst_mac h = Some h"
| "wlan_hdr (a # as) src_mac dst_mac h =
     Option.bind
       (case a of
          WLAN_HDR_ATTRIB_MAC_ADDR off \<Rightarrow>
            Option.bind (put_bytes off dst_mac h) (put_bytes (off + length dst_mac) src_mac)
        | WLAN_HDR_ATTRIB_STA_ID off sta \<Rightarrow> put_bytes off sta h
        | other_hdr_attrib \<Rightarrow> Some h)
       (wlan_hdr as src_mac dst_mac)"

definition lan2lan_hdr_name :: "lan_iface \<Rightarrow> ipa_ip_type \<Rightarrow> nat \<Rightarrow> string" where
  "lan2lan_hdr_name i ip j =
     (case wlan_client i of
        None \<Rightarrow> if ip = IPA_IP_v4 then ''Lan2Lan_USB_v4'' else ''Lan2Lan_USB_v6''
      | Some _ \<Rightarrow> if ip = IPA_IP_v4 then ''Lan2Lan_Wlan_v4'' else ''Lan2Lan_Wlan_v6'') @ [char_of (48 + j)]"

text \<open>Taking a slot, which is marked before the header is added, and adding the header.\<close>

definition install_hdr :: "'k ipa_kernel \<Rightarrow> ipa_ip_type \<Rightarrow> u8 list \<Rightarrow> lan_iface \<Rightarrow> 'k
    \<Rightarrow> (bool \<times> u32 option) \<times> lan_iface \<times> 'k" where
  "install_hdr K ip bytes i k =
     (let j = find_idx (\<lambda>s. \<not> hdr_valid s) (lan2lan_hdr i ip)
      in if j \<ge> MAX_OFFLOAD_PAIR then ((False, None), i, k)
         else
           let put = (\<lambda>s. i\<lparr>lan2lan_hdr := (lan2lan_hdr i)(ip := (lan2lan_hdr i ip)[j := s])\<rparr>);
               taken = (lan2lan_hdr i ip ! j)\<lparr>hdr_valid := True\<rparr>;
               name = lan2lan_hdr_name i ip j
           in if length name > IPA_RESOURCE_NAME_MAX K then ((False, None), put taken, k)
              else case AddHeader K \<lparr>hdr_name = name, hdr_bytes = bytes\<rparr> k of
                     (r, k1) \<Rightarrow>
                       (case r of
                          Some (status, h) \<Rightarrow>
                            if status = 0 then ((True, Some h), put (taken\<lparr>hdr_hdl := h\<rparr>), k1)
                            else ((False, None), put taken, k1)
                        | None \<Rightarrow> ((False, None), put taken, k1)))"

text \<open>The result, and the handle if the function has written one.\<close>

definition add_lan2lan_hdr :: "'k ipa_kernel \<Rightarrow> ipa_ip_type \<Rightarrow> u8 list \<Rightarrow> u8 list \<Rightarrow> lan_iface \<Rightarrow> 'k
    \<Rightarrow> ((bool \<times> u32 option) \<times> lan_iface \<times> 'k) option" where
  "add_lan2lan_hdr K ip src_mac dst_mac i k =
     (case tx_prop i of
        None \<Rightarrow> Some ((False, None), i, k)
      | Some txs \<Rightarrow>
          (case malloc K k of (m, k1) \<Rightarrow>
             if \<not> m then Some ((False, None), i, k1)
             else if ip = IPA_IP_MAX then Some ((True, None), i, k1)
             else
               (case find (\<lambda>t. tx_ip t = ip) txs of
                  None \<Rightarrow> Some ((True, None), i, k1)
                | Some t \<Rightarrow>
                    (case CopyHeader K (hdr_fd i) (tx_hdr_name t) k1 of
                       (None, k2) \<Rightarrow> Some ((False, None), i, k2)
                     | (Some c, k2) \<Rightarrow>
                         if length (copied_hdr c) > IPA_HDR_MAX_SIZE K then Some ((False, None), i, k2)
                         else
                           let buf = copied_hdr c @ replicate (IPA_HDR_MAX_SIZE K - length (copied_hdr c)) 0
                           in case wlan_client i of
                                None \<Rightarrow>
                                  map_option (\<lambda>h. install_hdr K ip (take (length (copied_hdr c)) h) i k2)
                                    (eth_hdr c src_mac dst_mac buf)
                              | Some clients \<Rightarrow>
                                  (case find (\<lambda>cl. fst cl = dst_mac) clients of
                                     None \<Rightarrow> Some ((False, None), i, k2)
                                   | Some cl \<Rightarrow>
                                       map_option (\<lambda>h. install_hdr K ip (take (length (copied_hdr c)) h) i k2)
                                         (wlan_hdr (snd cl) src_mac dst_mac buf))))))"

definition del_lan2lan_hdr :: "'k ipa_kernel \<Rightarrow> ipa_ip_type \<Rightarrow> u32 \<Rightarrow> lan_iface \<Rightarrow> 'k \<Rightarrow> bool \<times> lan_iface \<times> 'k" where
  "del_lan2lan_hdr K ip hdl i k =
     (case DeleteHeaderHdl K hdl k of (ok, k1) \<Rightarrow>
        if \<not> ok then (False, i, k1)
        else if ip = IPA_IP_MAX then (False, i, k1)
        else
          let j = find_idx (\<lambda>s. hdr_hdl s = hdl) (lan2lan_hdr i ip)
          in if j \<ge> MAX_OFFLOAD_PAIR then (False, i, k1)
             else (True,
               i\<lparr>lan2lan_hdr := (lan2lan_hdr i)(ip := (lan2lan_hdr i ip)[j := (lan2lan_hdr i ip ! j)\<lparr>hdr_valid := False\<rparr>])\<rparr>, k1))"

section \<open>Routing rules\<close>

text \<open>
  One rule for each transmit property of the IP type; the handles are written into an
  array of \<open>MAX_NUM_PROP\<close>. A failure leaves the rules before it installed.
\<close>

fun add_rt_loop :: "'k ipa_kernel \<Rightarrow> ipa_ip_type \<Rightarrow> u32 list \<Rightarrow> u32 list \<Rightarrow> u32 \<Rightarrow> int \<Rightarrow> tx_props list \<Rightarrow> u32 list \<Rightarrow> 'k
    \<Rightarrow> ((bool \<times> u32 list) \<times> 'k) option" where
  "add_rt_loop K ip src dst hdl fd [] hdls k = Some ((True, hdls), k)"
| "add_rt_loop K ip src dst hdl fd (t # ts) hdls k =
     (if tx_ip t \<noteq> ip then add_rt_loop K ip src dst hdl fd ts hdls k
      else case AddRoutingRule K fd \<lparr>rt_add_ip = ip, rt_tbl_name = lan2lan_tbl ip, rt_at_rear = False, rt_hdr_hdl = hdl, rt_dst = dst_pipe t,
                 rt_attrib = match_pair ip src dst (tx_attrib t)\<rparr> k of
             (None, k1) \<Rightarrow> Some ((False, hdls), k1)
           | (Some h, k1) \<Rightarrow>
               if length hdls < MAX_NUM_PROP then add_rt_loop K ip src dst hdl fd ts (hdls @ [h]) k1 else None)"

definition add_lan2lan_rt_rule :: "'k ipa_kernel \<Rightarrow> ipa_ip_type \<Rightarrow> u32 list \<Rightarrow> u32 list \<Rightarrow> u32 \<Rightarrow> lan_iface \<Rightarrow> 'k
    \<Rightarrow> ((bool \<times> u32 list) \<times> 'k) option" where
  "add_lan2lan_rt_rule K ip src dst hdl i k =
     (case tx_prop i of
        None \<Rightarrow> Some ((False, []), k)
      | Some txs \<Rightarrow>
          (case malloc K k of (m, k1) \<Rightarrow>
             if \<not> m then Some ((False, []), k1)
             else if ip = IPA_IP_MAX then Some ((True, []), k1)
             else add_rt_loop K ip src dst hdl (rt_fd i) txs [] k1))"

fun del_rt_loop :: "'k ipa_kernel \<Rightarrow> ipa_ip_type \<Rightarrow> int \<Rightarrow> u32 list \<Rightarrow> 'k \<Rightarrow> bool \<times> 'k" where
  "del_rt_loop K ip fd [] k = (True, k)"
| "del_rt_loop K ip fd (h # hs) k =
     (case DeleteRoutingHdl K fd h ip k of (ok, k1) \<Rightarrow>
        case del_rt_loop K ip fd hs k1 of (ok', k2) \<Rightarrow> (ok \<and> ok', k2))"

definition del_lan2lan_rt_rule :: "'k ipa_kernel \<Rightarrow> ipa_ip_type \<Rightarrow> u32 list \<Rightarrow> lan_iface \<Rightarrow> 'k \<Rightarrow> bool \<times> 'k" where
  "del_lan2lan_rt_rule K ip hdls i k =
     (if hdls = [] \<or> length hdls > MAX_NUM_PROP then (False, k) else del_rt_loop K ip (rt_fd i) hdls k)"

end
