(* ===== verification/Ipacm_LanToLan.thy ===== *)
theory Ipacm_LanToLan
  imports Ipacm_Config Ipacm_Pairs "HOL-Library.Monad_Syntax"
begin

text \<open>
  \<^verbatim>\<open>IPACM_LanToLan.cpp\<close>: which LAN clients talk to each other, and the pairs of them whose
  traffic is handed to the hardware. The two hash tables hold the clients of one IP type
  each; a client is found by its IPv4 address or by the last two words of its IPv6 address.
  Clients point to each other, in a list of peers (with the number of connections) and in a
  list of offload links: a pointer is the number of a client, and a client that the table
  has erased has no entry in \<open>nodes\<close>, so that to follow a dangling pointer gives \<open>None\<close>.
  \<open>None\<close> is also an iterator used after its element was erased, the use of a header handle
  that was never set, and an access outside an array.
  The table is in the order of its insertions; C++ leaves the order of a hash table open.
  The counters of connections are integers without bound.
\<close>

section \<open>State\<close>

record peer_info =
  peer_id :: nat
  num_connection :: int

record offload_link_info =
  link_peer :: nat
  link_flt_hdl :: u32
  link_rt_hdls :: "u32 list"
  link_hdr_hdl :: u32

record client_info =
  ip_addr :: "u32 list"
  client_mac :: "u8 list"
  is_active :: bool
  is_powersave :: bool
  p_iface :: nat
  peer_list :: "peer_info list"
  link_list :: "offload_link_info list"

record l2l_connection =
  conn_ip :: ipa_ip_type
  conn_src :: "u32 list"
  conn_dst :: "u32 list"

text \<open>The members that exist once for each IP type.\<close>

record client_table =
  client_tab :: "(u32 list \<times> nat) list"
  nodes :: "nat \<Rightarrow> client_info option"
  next_node :: nat
  num_offload_pair :: u8
  cached_conns :: "l2l_connection list"

text \<open>
  What an operation on one table sees: the interfaces, the kernel and the posted events, too.
  \<open>op_failed\<close> is not a member of the class: it says whether an operation of an interface
  has returned a failure.
\<close>

record 'k lan2lan = client_table +
  ifaces :: "nat \<Rightarrow> lan_iface"
  kern :: 'k
  posted :: "(ipa_cm_event_id \<times> l2l_connection) list"
  op_failed :: bool

definition client_key :: "ipa_ip_type \<Rightarrow> u32 list \<Rightarrow> u32 list" where
  "client_key ip addr = (if ip = IPA_IP_v4 then addr else drop 2 addr)"

definition put :: "nat \<Rightarrow> client_info \<Rightarrow> 'k lan2lan \<Rightarrow> 'k lan2lan" where
  "put a c s = s\<lparr>nodes := (nodes s)(a \<mapsto> c)\<rparr>"

fun erase_first :: "('a \<Rightarrow> bool) \<Rightarrow> 'a list \<Rightarrow> 'a list" where
  "erase_first P [] = []"
| "erase_first P (x # xs) = (if P x then xs else x # erase_first P xs)"

section \<open>The calls of an interface's operations\<close>

definition call_add_hdr :: "'k ipa_kernel \<Rightarrow> ipa_ip_type \<Rightarrow> nat \<Rightarrow> u8 list \<Rightarrow> u8 list \<Rightarrow> 'k lan2lan
    \<Rightarrow> ((bool \<times> u32 option) \<times> 'k lan2lan) option" where
  "call_add_hdr K ip i src dst s = do {
     (r, f, k) \<leftarrow> add_lan2lan_hdr K ip src dst (ifaces s i) (kern s);
     Some (r, s\<lparr>ifaces := (ifaces s)(i := f), kern := k, op_failed := op_failed s \<or> \<not> fst r\<rparr>) }"

definition call_del_hdr :: "'k ipa_kernel \<Rightarrow> ipa_ip_type \<Rightarrow> nat \<Rightarrow> u32 \<Rightarrow> 'k lan2lan \<Rightarrow> bool \<times> 'k lan2lan" where
  "call_del_hdr K ip i hdl s =
     (case del_lan2lan_hdr K ip hdl (ifaces s i) (kern s) of (ok, f, k) \<Rightarrow>
        (ok, s\<lparr>ifaces := (ifaces s)(i := f), kern := k, op_failed := op_failed s \<or> \<not> ok\<rparr>))"

definition call_add_rt :: "'k ipa_kernel \<Rightarrow> ipa_ip_type \<Rightarrow> nat \<Rightarrow> u32 list \<Rightarrow> u32 list \<Rightarrow> u32 \<Rightarrow> 'k lan2lan
    \<Rightarrow> ((bool \<times> u32 list) \<times> 'k lan2lan) option" where
  "call_add_rt K ip i src dst hdr s = do {
     (r, k) \<leftarrow> add_lan2lan_rt_rule K ip src dst hdr (ifaces s i) (kern s);
     Some (r, s\<lparr>kern := k, op_failed := op_failed s \<or> \<not> fst r\<rparr>) }"

definition call_del_rt :: "'k ipa_kernel \<Rightarrow> ipa_ip_type \<Rightarrow> nat \<Rightarrow> u32 list \<Rightarrow> 'k lan2lan \<Rightarrow> bool \<times> 'k lan2lan" where
  "call_del_rt K ip i hdls s =
     (case del_lan2lan_rt_rule K ip hdls (ifaces s i) (kern s) of (ok, k) \<Rightarrow>
        (ok, s\<lparr>kern := k, op_failed := op_failed s \<or> \<not> ok\<rparr>))"

definition call_add_flt :: "'k ipa_kernel \<Rightarrow> ipa_ip_type \<Rightarrow> nat \<Rightarrow> u32 list \<Rightarrow> u32 list \<Rightarrow> 'k lan2lan
    \<Rightarrow> u32 option \<times> 'k lan2lan" where
  "call_add_flt K ip i src dst s =
     (case add_lan2lan_flt_rule K ip src dst (ifaces s i) (kern s) of (r, f, k) \<Rightarrow>
        (r, s\<lparr>ifaces := (ifaces s)(i := f), kern := k, op_failed := op_failed s \<or> r = None\<rparr>))"

definition call_del_flt :: "'k ipa_kernel \<Rightarrow> ipa_ip_type \<Rightarrow> nat \<Rightarrow> u32 \<Rightarrow> 'k lan2lan \<Rightarrow> bool \<times> 'k lan2lan" where
  "call_del_flt K ip i hdl s =
     (case del_lan2lan_flt_rule K ip hdl (ifaces s i) (kern s) of (ok, f, k) \<Rightarrow>
        (ok, s\<lparr>ifaces := (ifaces s)(i := f), kern := k, op_failed := op_failed s \<or> \<not> ok\<rparr>))"

section \<open>Links\<close>

text \<open>
  One direction of a pair: a header and routing rules on the interface of the peer, a
  filtering rule on the client's. What was added is taken back when a later part fails.
\<close>

definition add_offload_link :: "'k ipa_kernel \<Rightarrow> ipa_ip_type \<Rightarrow> nat \<Rightarrow> nat \<Rightarrow> 'k lan2lan \<Rightarrow> (bool \<times> 'k lan2lan) option" where
  "add_offload_link K ip client peer s =
     (if ip \<noteq> IPA_IP_MAX \<and> unat (num_offload_pair s) \<ge> MAX_OFFLOAD_PAIR then Some (False, s)
      else if ip = IPA_IP_MAX then Some (False, s)
      else do {
        c \<leftarrow> nodes s client;
        p \<leftarrow> nodes s peer;
        ((hok, h), s1) \<leftarrow> call_add_hdr K ip (p_iface p) (client_mac c) (client_mac p) s;
        if \<not> hok then Some (False, s1)
        else do {
          hdr \<leftarrow> h;
          ((rok, rts), s2) \<leftarrow> call_add_rt K ip (p_iface p) (ip_addr c) (ip_addr p) hdr s1;
          if \<not> rok then Some (False, snd (call_del_hdr K ip (p_iface p) hdr s2))
          else (case call_add_flt K ip (p_iface c) (ip_addr c) (ip_addr p) s2 of
            (None, s3) \<Rightarrow>
              Some (False, snd (call_del_hdr K ip (p_iface p) hdr (snd (call_del_rt K ip (p_iface p) rts s3))))
          | (Some flt, s3) \<Rightarrow>
              Some (True, put client (c\<lparr>link_list := link_list c @
                [\<lparr>link_peer = peer, link_flt_hdl = flt, link_rt_hdls = rts, link_hdr_hdl = hdr\<rparr>]\<rparr>) s3)) } })"

definition del_offload_link :: "'k ipa_kernel \<Rightarrow> ipa_ip_type \<Rightarrow> nat \<Rightarrow> nat \<Rightarrow> offload_link_info \<Rightarrow> 'k lan2lan
    \<Rightarrow> bool \<times> 'k lan2lan" where
  "del_offload_link K ip client peer l s =
     (case call_del_flt K ip client (link_flt_hdl l) s of (ok1, s1) \<Rightarrow>
      case call_del_rt K ip peer (link_rt_hdls l) s1 of (ok2, s2) \<Rightarrow>
      case call_del_hdr K ip peer (link_hdr_hdl l) s2 of (ok3, s3) \<Rightarrow> (ok1 \<and> ok2 \<and> ok3, s3))"

text \<open>The second of the two results decides, the first is overwritten.\<close>

fun check_potential_loop :: "'k ipa_kernel \<Rightarrow> ipa_ip_type \<Rightarrow> nat \<Rightarrow> peer_info list \<Rightarrow> 'k lan2lan \<Rightarrow> 'k lan2lan option" where
  "check_potential_loop K ip client [] s = Some s"
| "check_potential_loop K ip client (p # ps) s = do {
     pc \<leftarrow> nodes s (peer_id p);
     if is_active pc \<and> num_connection p > 0 then do {
       (ok1, s1) \<leftarrow> add_offload_link K ip client (peer_id p) s;
       (ok2, s2) \<leftarrow> add_offload_link K ip (peer_id p) client s1;
       check_potential_loop K ip client ps
         (if ok2 then s2\<lparr>num_offload_pair := num_offload_pair s2 + 1\<rparr> else s2) }
     else check_potential_loop K ip client ps s }"

definition check_potential_link :: "'k ipa_kernel \<Rightarrow> ipa_ip_type \<Rightarrow> nat \<Rightarrow> 'k lan2lan \<Rightarrow> 'k lan2lan option" where
  "check_potential_link K ip client s = do { c \<leftarrow> nodes s client; check_potential_loop K ip client (peer_list c) s }"

fun turnoff_loop :: "'k ipa_kernel \<Rightarrow> ipa_ip_type \<Rightarrow> nat \<Rightarrow> offload_link_info list \<Rightarrow> 'k lan2lan
    \<Rightarrow> (bool \<times> 'k lan2lan) option" where
  "turnoff_loop K ip client [] s = Some (True, s)"
| "turnoff_loop K ip client (l # ls) s = do {
     c \<leftarrow> nodes s client;
     p \<leftarrow> nodes s (link_peer l);
     let (ok, s1) = del_offload_link K ip (p_iface c) (p_iface p) l s;
     if \<not> ok then Some (False, s1)
     else case find (\<lambda>l'. link_peer l' = client) (link_list p) of
       None \<Rightarrow> Some (False, s1)
     | Some l' \<Rightarrow>
         let (ok', s2) = del_offload_link K ip (p_iface p) (p_iface c) l' s1
         in if \<not> ok' then Some (False, s2)
            else if link_peer l = client then None
            else turnoff_loop K ip client ls
              ((put (link_peer l) (p\<lparr>link_list := erase_first (\<lambda>l'. link_peer l' = client) (link_list p)\<rparr>) s2)
                 \<lparr>num_offload_pair := num_offload_pair s2 - 1\<rparr>) }"

definition turnoff_offload_links :: "'k ipa_kernel \<Rightarrow> ipa_ip_type \<Rightarrow> nat \<Rightarrow> 'k lan2lan \<Rightarrow> (bool \<times> 'k lan2lan) option" where
  "turnoff_offload_links K ip client s = do {
     c \<leftarrow> nodes s client;
     (ok, s1) \<leftarrow> turnoff_loop K ip client (link_list c) s;
     if \<not> ok then Some (False, s1)
     else do { c1 \<leftarrow> nodes s1 client; Some (True, put client (c1\<lparr>link_list := []\<rparr>) s1) } }"

text \<open>One direction of a pair that is taken down: the first link to the peer.\<close>

definition erase_one_link :: "'k ipa_kernel \<Rightarrow> ipa_ip_type \<Rightarrow> nat \<Rightarrow> nat \<Rightarrow> 'k lan2lan \<Rightarrow> (bool \<times> 'k lan2lan) option" where
  "erase_one_link K ip src dst s = do {
     c \<leftarrow> nodes s src;
     p \<leftarrow> nodes s dst;
     case find (\<lambda>l. link_peer l = dst) (link_list c) of
       None \<Rightarrow> Some (False, s)
     | Some l \<Rightarrow>
         let (ok, s1) = del_offload_link K ip (p_iface c) (p_iface p) l s
         in Some (ok, put src (c\<lparr>link_list := erase_first (\<lambda>l. link_peer l = dst) (link_list c)\<rparr>) s1) }"

definition erase_offload_link :: "'k ipa_kernel \<Rightarrow> ipa_ip_type \<Rightarrow> nat \<Rightarrow> nat \<Rightarrow> 'k lan2lan \<Rightarrow> 'k lan2lan option" where
  "erase_offload_link K ip src dst s = do {
     (ok1, s1) \<leftarrow> erase_one_link K ip src dst s;
     (ok2, s2) \<leftarrow> erase_one_link K ip dst src s1;
     Some (if ok1 \<and> ok2 then s2\<lparr>num_offload_pair := num_offload_pair s2 - 1\<rparr> else s2) }"

section \<open>Peers\<close>

fun clear_peer_loop :: "nat \<Rightarrow> peer_info list \<Rightarrow> 'k lan2lan \<Rightarrow> (bool \<times> 'k lan2lan) option" where
  "clear_peer_loop client [] s = Some (True, s)"
| "clear_peer_loop client (p # ps) s = do {
     pc \<leftarrow> nodes s (peer_id p);
     if find (\<lambda>q. peer_id q = client) (peer_list pc) = None then Some (False, s)
     else if peer_id p = client then None
     else clear_peer_loop client ps
            (put (peer_id p) (pc\<lparr>peer_list := erase_first (\<lambda>q. peer_id q = client) (peer_list pc)\<rparr>) s) }"

definition clear_peer_list :: "nat \<Rightarrow> 'k lan2lan \<Rightarrow> (bool \<times> 'k lan2lan) option" where
  "clear_peer_list client s = do {
     c \<leftarrow> nodes s client;
     (ok, s1) \<leftarrow> clear_peer_loop client (peer_list c) s;
     if \<not> ok then Some (False, s1)
     else do { c1 \<leftarrow> nodes s1 client; Some (True, put client (c1\<lparr>peer_list := []\<rparr>) s1) } }"

text \<open>One side of a connection; the result says whether the entry is new.\<close>

definition count_up :: "nat \<Rightarrow> nat \<Rightarrow> 'k lan2lan \<Rightarrow> (bool \<times> 'k lan2lan) option" where
  "count_up src dst s = do {
     c \<leftarrow> nodes s src;
     let j = find_idx (\<lambda>p. peer_id p = dst) (peer_list c);
     if j < length (peer_list c)
     then Some (False, put src (c\<lparr>peer_list := (peer_list c)[j :=
            (peer_list c ! j)\<lparr>num_connection := num_connection (peer_list c ! j) + 1\<rparr>]\<rparr>) s)
     else Some (True, put src (c\<lparr>peer_list := peer_list c @ [\<lparr>peer_id = dst, num_connection = 1\<rparr>]\<rparr>) s) }"

definition add_connection :: "nat \<Rightarrow> nat \<Rightarrow> 'k lan2lan \<Rightarrow> (bool \<times> 'k lan2lan) option" where
  "add_connection src dst s = do {
     (r1, s1) \<leftarrow> count_up src dst s;
     (r2, s2) \<leftarrow> count_up dst src s1;
     Some (r1 \<or> r2, s2) }"

text \<open>One side of a deleted connection; the result says whether the entry was erased.\<close>

definition count_down :: "nat \<Rightarrow> nat \<Rightarrow> 'k lan2lan \<Rightarrow> (bool \<times> 'k lan2lan) option" where
  "count_down src dst s = do {
     c \<leftarrow> nodes s src;
     let j = find_idx (\<lambda>p. peer_id p = dst) (peer_list c);
     if j < length (peer_list c)
     then let n = num_connection (peer_list c ! j) - 1
          in if n = 0 then Some (True, put src (c\<lparr>peer_list := erase_first (\<lambda>p. peer_id p = dst) (peer_list c)\<rparr>) s)
             else Some (False, put src (c\<lparr>peer_list := (peer_list c)[j := (peer_list c ! j)\<lparr>num_connection := n\<rparr>]\<rparr>) s)
     else Some (False, s) }"

definition remove_connection :: "nat \<Rightarrow> nat \<Rightarrow> 'k lan2lan \<Rightarrow> (bool \<times> 'k lan2lan) option" where
  "remove_connection src dst s = do { (_, s1) \<leftarrow> count_down src dst s; count_down dst src s1 }"

section \<open>Posted connections\<close>

fun generate_loop :: "'k ipa_kernel \<Rightarrow> ipa_ip_type \<Rightarrow> u32 list \<Rightarrow> ipacm_iface_type \<Rightarrow> (u32 list \<times> nat) list
    \<Rightarrow> 'k lan2lan \<Rightarrow> 'k lan2lan option" where
  "generate_loop K ip addr cat [] s = Some s"
| "generate_loop K ip addr cat (e # es) s = do {
     n \<leftarrow> nodes s (snd e);
     if if_cat (ifaces s (p_iface n)) \<noteq> cat \<and> is_active n
     then (case malloc K (kern s) of (m, k) \<Rightarrow>
       if \<not> m then Some (s\<lparr>kern := k\<rparr>)
       else generate_loop K ip addr cat es
         (s\<lparr>kern := k, posted := posted s @ [(IPA_LAN_TO_LAN_NEW_CONNECTION, \<lparr>conn_ip = ip, conn_src = addr, conn_dst = ip_addr n\<rparr>)]\<rparr>))
     else generate_loop K ip addr cat es s }"

definition generate_new_connection :: "bool \<Rightarrow> 'k ipa_kernel \<Rightarrow> ipa_ip_type \<Rightarrow> nat \<Rightarrow> 'k lan2lan \<Rightarrow> 'k lan2lan option" where
  "generate_new_connection ct_opt K ip client s =
     (if ct_opt then Some s
      else do {
        c \<leftarrow> nodes s client;
        generate_loop K ip (ip_addr c) (if_cat (ifaces s (p_iface c))) (client_tab s) s })"

definition in_table :: "ipa_ip_type \<Rightarrow> 'k lan2lan \<Rightarrow> u32 list \<Rightarrow> bool" where
  "in_table ip s addr \<longleftrightarrow> map_of (client_tab s) (client_key ip addr) \<noteq> None"

text \<open>The cached connections that stay, after those of the client were posted.\<close>

fun check_cache_loop :: "'k ipa_kernel \<Rightarrow> ipa_ip_type \<Rightarrow> u32 list \<Rightarrow> l2l_connection list \<Rightarrow> 'k lan2lan
    \<Rightarrow> l2l_connection list \<times> 'k lan2lan" where
  "check_cache_loop K ip addr [] s = ([], s)"
| "check_cache_loop K ip addr (x # xs) s =
     (if (conn_src x = addr \<and> in_table ip s (conn_dst x)) \<or> (conn_dst x = addr \<and> in_table ip s (conn_src x))
      then (case malloc K (kern s) of (m, k) \<Rightarrow>
        if \<not> m then (x # xs, s\<lparr>kern := k\<rparr>)
        else check_cache_loop K ip addr xs (s\<lparr>kern := k, posted := posted s @ [(IPA_LAN_TO_LAN_NEW_CONNECTION, x)]\<rparr>))
      else apfst ((#) x) (check_cache_loop K ip addr xs s))"

definition check_cache_connection :: "bool \<Rightarrow> 'k ipa_kernel \<Rightarrow> ipa_ip_type \<Rightarrow> nat \<Rightarrow> 'k lan2lan \<Rightarrow> 'k lan2lan option" where
  "check_cache_connection ct_opt K ip client s =
     (if \<not> ct_opt then Some s
      else do {
        c \<leftarrow> nodes s client;
        Some (case check_cache_loop K ip (ip_addr c) (cached_conns s) s of (xs, s1) \<Rightarrow> s1\<lparr>cached_conns := xs\<rparr>) })"

definition max_cache_connection :: nat where "max_cache_connection = 20"

definition ipv6_multicast_addr :: u32 where "ipv6_multicast_addr = 0xff000000"
definition ipv6_multicast_mask :: u32 where "ipv6_multicast_mask = 0xff000000"

definition is_potential_lan2lan_connection :: "'x ipacm_config \<Rightarrow> l2l_connection \<Rightarrow> bool" where
  "is_potential_lan2lan_connection cfg c =
     (if conn_ip c = IPA_IP_v4
      then (let private = (\<lambda>a. list_ex (\<lambda>n. a AND subnet_mask n = subnet_addr n AND subnet_mask n) (visible_subnets cfg))
            in private (hd (conn_src c)) \<and> private (hd (conn_dst c)))
      else (let unicast = (\<lambda>a. a AND ipv6_multicast_mask \<noteq> ipv6_multicast_addr AND ipv6_multicast_mask)
            in unicast (hd (conn_src c)) \<and> unicast (hd (conn_dst c))))"

definition cache_new_connection :: "'x ipacm_config \<Rightarrow> l2l_connection \<Rightarrow> 'k lan2lan \<Rightarrow> 'k lan2lan" where
  "cache_new_connection cfg c s =
     (if is_potential_lan2lan_connection cfg c
      then s\<lparr>cached_conns := (if length (cached_conns s) = max_cache_connection then [] else cached_conns s) @ [c]\<rparr>
      else s)"

definition remove_cache_connection :: "'x ipacm_config \<Rightarrow> l2l_connection \<Rightarrow> 'k lan2lan \<Rightarrow> 'k lan2lan" where
  "remove_cache_connection cfg c s =
     (if is_potential_lan2lan_connection cfg c
      then s\<lparr>cached_conns := erase_first (\<lambda>x. conn_src x = conn_src c \<and> conn_dst x = conn_dst c) (cached_conns s)\<rparr>
      else s)"

definition is_lan2lan_connection :: "l2l_connection \<Rightarrow> 'k lan2lan \<Rightarrow> bool option" where
  "is_lan2lan_connection c s =
     (case (map_of (client_tab s) (client_key (conn_ip c) (conn_src c)),
            map_of (client_tab s) (client_key (conn_ip c) (conn_dst c))) of
        (Some a, Some b) \<Rightarrow> do {
          ca \<leftarrow> nodes s a;
          cb \<leftarrow> nodes s b;
          Some (if_cat (ifaces s (p_iface ca)) \<noteq> if_cat (ifaces s (p_iface cb))) }
      | _ \<Rightarrow> Some False)"

text \<open>
  What the conntrack thread calls, when the daemon is built with \<open>CT_OPT\<close>: \<open>handle_new_connection\<close>
  and \<open>handle_del_connection\<close>, here with what they post and how they change the cache.
\<close>

definition handle_ct_connection :: "bool \<Rightarrow> 'k ipa_kernel \<Rightarrow> ipa_cm_event_id \<Rightarrow> (l2l_connection \<Rightarrow> 'k lan2lan \<Rightarrow> 'k lan2lan)
    \<Rightarrow> l2l_connection \<Rightarrow> 'k lan2lan \<Rightarrow> 'k lan2lan option" where
  "handle_ct_connection ct_opt K ev cache_op c s =
     (if \<not> ct_opt \<or> conn_ip c = IPA_IP_MAX then Some s
      else do {
        l \<leftarrow> is_lan2lan_connection c s;
        if \<not> l then Some (cache_op c s)
        else Some (case malloc K (kern s) of (m, k) \<Rightarrow>
               if m then s\<lparr>kern := k, posted := posted s @ [(ev, c)]\<rparr> else s\<lparr>kern := k\<rparr>) })"

definition handle_new_connection :: "bool \<Rightarrow> 'x ipacm_config \<Rightarrow> 'k ipa_kernel \<Rightarrow> l2l_connection \<Rightarrow> 'k lan2lan \<Rightarrow> 'k lan2lan option" where
  "handle_new_connection ct_opt cfg K = handle_ct_connection ct_opt K IPA_LAN_TO_LAN_NEW_CONNECTION (cache_new_connection cfg)"

definition handle_del_connection :: "bool \<Rightarrow> 'x ipacm_config \<Rightarrow> 'k ipa_kernel \<Rightarrow> l2l_connection \<Rightarrow> 'k lan2lan \<Rightarrow> 'k lan2lan option" where
  "handle_del_connection ct_opt cfg K = handle_ct_connection ct_opt K IPA_LAN_TO_LAN_DEL_CONNECTION (remove_cache_connection cfg)"

section \<open>Clients\<close>

record lan_client =
  lc_ip :: ipa_ip_type
  lc_addr :: "u32 list"
  lc_mac :: "u8 list"
  lc_iface :: "nat option"

definition new_client :: client_info where
  "new_client = \<lparr>ip_addr = [], client_mac = replicate 6 0, is_active = False, is_powersave = False, p_iface = 0,
     peer_list = [], link_list = []\<rparr>"

definition fill_client :: "nat \<Rightarrow> lan_client \<Rightarrow> nat \<Rightarrow> 'k lan2lan \<Rightarrow> 'k lan2lan option" where
  "fill_client i d client s = do {
     c \<leftarrow> nodes s client;
     Some (put client (c\<lparr>ip_addr := lc_addr d, client_mac := lc_mac d, is_active := True, is_powersave := False, p_iface := i\<rparr>) s) }"

definition new_entry :: "u32 list \<Rightarrow> 'k lan2lan \<Rightarrow> nat \<times> 'k lan2lan" where
  "new_entry key s = (next_node s,
     s\<lparr>client_tab := client_tab s @ [(key, next_node s)], nodes := (nodes s)(next_node s \<mapsto> new_client),
       next_node := next_node s + 1\<rparr>)"

definition erase_client :: "u32 list \<Rightarrow> nat \<Rightarrow> 'k lan2lan \<Rightarrow> 'k lan2lan" where
  "erase_client key a s = s\<lparr>client_tab := filter (\<lambda>e. fst e \<noteq> key) (client_tab s), nodes := (nodes s)(a := None)\<rparr>"

definition handle_client_active :: "bool \<Rightarrow> 'k ipa_kernel \<Rightarrow> nat \<Rightarrow> lan_client \<Rightarrow> 'k lan2lan \<Rightarrow> 'k lan2lan option" where
  "handle_client_active ct_opt K i d s =
     (let ip = lc_ip d; key = client_key ip (lc_addr d);
          post = (\<lambda>a s. do { s1 \<leftarrow> generate_new_connection ct_opt K ip a s; check_cache_connection ct_opt K ip a s1 })
      in case map_of (client_tab s) key of
           None \<Rightarrow> (case new_entry key s of (a, s1) \<Rightarrow> do { s2 \<leftarrow> fill_client i d a s1; post a s2 })
         | Some a \<Rightarrow> do {
             c \<leftarrow> nodes s a;
             if is_active c
             then (if client_mac c = lc_mac d then Some s
                   else do {
                     (_, s1) \<leftarrow> turnoff_offload_links K ip a s;
                     (_, s2) \<leftarrow> clear_peer_list a s1;
                     s3 \<leftarrow> fill_client i d a s2;
                     post a s3 })
             else do {
               s1 \<leftarrow> fill_client i d a s;
               s2 \<leftarrow> check_potential_link K ip a s1;
               post a s2 } })"

definition handle_client_inactive :: "'k ipa_kernel \<Rightarrow> lan_client \<Rightarrow> 'k lan2lan \<Rightarrow> 'k lan2lan option" where
  "handle_client_inactive K d s =
     (let key = client_key (lc_ip d) (lc_addr d)
      in case map_of (client_tab s) key of
           None \<Rightarrow> Some s
         | Some a \<Rightarrow> do {
             (_, s1) \<leftarrow> turnoff_offload_links K (lc_ip d) a s;
             c \<leftarrow> nodes s1 a;
             let s2 = put a (c\<lparr>is_active := False\<rparr>) s1;
             Some (if peer_list c = [] then erase_client key a s2 else s2) })"

definition handle_client_disconnect :: "'k ipa_kernel \<Rightarrow> lan_client \<Rightarrow> 'k lan2lan \<Rightarrow> 'k lan2lan option" where
  "handle_client_disconnect K d s =
     (let key = client_key (lc_ip d) (lc_addr d)
      in case map_of (client_tab s) key of
           None \<Rightarrow> Some s
         | Some a \<Rightarrow> do {
             (_, s1) \<leftarrow> turnoff_offload_links K (lc_ip d) a s;
             (_, s2) \<leftarrow> clear_peer_list a s1;
             Some (erase_client key a s2) })"

text \<open>A deletion that fails is only logged.\<close>

fun remove_flt_loop :: "'k ipa_kernel \<Rightarrow> ipa_ip_type \<Rightarrow> nat \<Rightarrow> offload_link_info list \<Rightarrow> 'k lan2lan
    \<Rightarrow> (bool \<times> 'k lan2lan) option" where
  "remove_flt_loop K ip client [] s = Some (True, s)"
| "remove_flt_loop K ip client (l # ls) s = do {
     c \<leftarrow> nodes s client;
     let s1 = snd (call_del_flt K ip (p_iface c) (link_flt_hdl l) s);
     p \<leftarrow> nodes s1 (link_peer l);
     case find (\<lambda>l'. link_peer l' = client) (link_list p) of
       None \<Rightarrow> Some (False, s1)
     | Some l' \<Rightarrow> remove_flt_loop K ip client ls (snd (call_del_flt K ip (p_iface p) (link_flt_hdl l') s1)) }"

definition remove_flt_rules :: "'k ipa_kernel \<Rightarrow> ipa_ip_type \<Rightarrow> nat \<Rightarrow> 'k lan2lan \<Rightarrow> (bool \<times> 'k lan2lan) option" where
  "remove_flt_rules K ip client s = do { c \<leftarrow> nodes s client; remove_flt_loop K ip client (link_list c) s }"

definition handle_client_power_save :: "'k ipa_kernel \<Rightarrow> lan_client \<Rightarrow> 'k lan2lan \<Rightarrow> 'k lan2lan option" where
  "handle_client_power_save K d s =
     (case map_of (client_tab s) (client_key (lc_ip d) (lc_addr d)) of
        None \<Rightarrow> Some s
      | Some a \<Rightarrow> do {
          (ok, s1) \<leftarrow> remove_flt_rules K (lc_ip d) a s;
          if \<not> ok then Some s1
          else do {
            c \<leftarrow> nodes s1 a;
            Some (put a (c\<lparr>is_active := False, is_powersave := True\<rparr>) s1) } })"

text \<open>The positions of the client's links; each is rewritten where it stands.\<close>

fun add_flt_loop :: "'k ipa_kernel \<Rightarrow> ipa_ip_type \<Rightarrow> nat \<Rightarrow> nat list \<Rightarrow> 'k lan2lan \<Rightarrow> (bool \<times> 'k lan2lan) option" where
  "add_flt_loop K ip client [] s = Some (True, s)"
| "add_flt_loop K ip client (j # js) s = do {
     c \<leftarrow> nodes s client;
     let b = link_peer (link_list c ! j);
     p \<leftarrow> nodes s b;
     case call_add_flt K ip (p_iface c) (ip_addr c) (ip_addr p) s of
       (None, s1) \<Rightarrow> Some (False, s1)
     | (Some h, s1) \<Rightarrow> do {
         let s2 = put client (c\<lparr>link_list := (link_list c)[j := (link_list c ! j)\<lparr>link_flt_hdl := h\<rparr>]\<rparr>) s1;
         q \<leftarrow> nodes s2 b;
         let j' = find_idx (\<lambda>l. link_peer l = client) (link_list q);
         if j' \<ge> length (link_list q) then Some (False, s2)
         else (case call_add_flt K ip (p_iface q) (ip_addr q) (ip_addr c) s2 of
           (None, s3) \<Rightarrow> Some (False, s3)
         | (Some h', s3) \<Rightarrow> add_flt_loop K ip client js
             (put b (q\<lparr>link_list := (link_list q)[j' := (link_list q ! j')\<lparr>link_flt_hdl := h'\<rparr>]\<rparr>) s3)) } }"

definition add_flt_rules :: "'k ipa_kernel \<Rightarrow> ipa_ip_type \<Rightarrow> nat \<Rightarrow> 'k lan2lan \<Rightarrow> (bool \<times> 'k lan2lan) option" where
  "add_flt_rules K ip client s = do { c \<leftarrow> nodes s client; add_flt_loop K ip client [0..<length (link_list c)] s }"

definition handle_client_power_recover :: "bool \<Rightarrow> 'k ipa_kernel \<Rightarrow> lan_client \<Rightarrow> 'k lan2lan \<Rightarrow> 'k lan2lan option" where
  "handle_client_power_recover ct_opt K d s =
     (case map_of (client_tab s) (client_key (lc_ip d) (lc_addr d)) of
        None \<Rightarrow> Some s
      | Some a \<Rightarrow> do {
          c \<leftarrow> nodes s a;
          if is_active c \<or> \<not> is_powersave c then Some s
          else do {
            (ok, s1) \<leftarrow> add_flt_rules K (lc_ip d) a s;
            if \<not> ok then Some s1
            else do {
              c1 \<leftarrow> nodes s1 a;
              s2 \<leftarrow> check_potential_link K (lc_ip d) a (put a (c1\<lparr>is_active := True, is_powersave := False\<rparr>) s1);
              generate_new_connection ct_opt K (lc_ip d) a s2 } } })"

section \<open>Connections\<close>

definition handle_new_lan2lan_connection :: "'k ipa_kernel \<Rightarrow> l2l_connection \<Rightarrow> 'k lan2lan \<Rightarrow> 'k lan2lan option" where
  "handle_new_lan2lan_connection K d s =
     (case (map_of (client_tab s) (client_key (conn_ip d) (conn_src d)),
            map_of (client_tab s) (client_key (conn_ip d) (conn_dst d))) of
        (Some a, Some b) \<Rightarrow> do {
          (first, s1) \<leftarrow> add_connection a b s;
          ca \<leftarrow> nodes s1 a;
          cb \<leftarrow> nodes s1 b;
          if first \<and> is_active ca \<and> is_active cb
          then do {
            (ok1, s2) \<leftarrow> add_offload_link K (conn_ip d) a b s1;
            if \<not> ok1 then Some s2
            else do {
              (ok2, s3) \<leftarrow> add_offload_link K (conn_ip d) b a s2;
              Some (if ok2 then s3\<lparr>num_offload_pair := num_offload_pair s3 + 1\<rparr> else s3) } }
          else Some s1 }
      | _ \<Rightarrow> Some s)"

text \<open>Which links go when the last connection of two clients is gone.\<close>

definition erase_links :: "'k ipa_kernel \<Rightarrow> ipa_ip_type \<Rightarrow> nat \<Rightarrow> nat \<Rightarrow> 'k lan2lan \<Rightarrow> 'k lan2lan option" where
  "erase_links K ip a b s = do {
     ca \<leftarrow> nodes s a;
     cb \<leftarrow> nodes s b;
     if is_active ca \<and> is_active cb then erase_offload_link K ip a b s
     else do {
       s1 \<leftarrow> (if is_powersave ca \<and> (is_active cb \<or> is_powersave cb) then erase_offload_link K ip a b s else Some s);
       if is_powersave cb \<and> (is_active ca \<or> is_powersave ca) then erase_offload_link K ip b a s1 else Some s1 } }"

definition erase_if_idle :: "u32 list \<Rightarrow> nat \<Rightarrow> 'k lan2lan \<Rightarrow> 'k lan2lan option" where
  "erase_if_idle key a s = do {
     c \<leftarrow> nodes s a;
     Some (if \<not> is_active c \<and> \<not> is_powersave c \<and> peer_list c = [] then erase_client key a s else s) }"

definition handle_del_lan2lan_connection :: "'k ipa_kernel \<Rightarrow> l2l_connection \<Rightarrow> 'k lan2lan \<Rightarrow> 'k lan2lan option" where
  "handle_del_lan2lan_connection K d s =
     (let ka = client_key (conn_ip d) (conn_src d); kb = client_key (conn_ip d) (conn_dst d)
      in case (map_of (client_tab s) ka, map_of (client_tab s) kb) of
           (Some a, Some b) \<Rightarrow> do {
             (res, s1) \<leftarrow> remove_connection a b s;
             if \<not> res then Some s1
             else do {
               s2 \<leftarrow> erase_links K (conn_ip d) a b s1;
               s3 \<leftarrow> erase_if_idle ka a s2;
               erase_if_idle kb b s3 } }
         | _ \<Rightarrow> Some s)"

section \<open>The object\<close>

record 'k lan2lan_obj =
  tables :: "ipa_ip_type \<Rightarrow> client_table"
  obj_ifaces :: "nat \<Rightarrow> lan_iface"
  obj_kern :: 'k
  obj_posted :: "(ipa_cm_event_id \<times> l2l_connection) list"
  obj_failed :: bool

definition no_clients :: client_table where
  "no_clients = \<lparr>client_tab = [], nodes = Map.empty, next_node = 0, num_offload_pair = 0, cached_conns = []\<rparr>"

definition LanToLan_ctor :: "(nat \<Rightarrow> lan_iface) \<Rightarrow> 'k \<Rightarrow> 'k lan2lan_obj" where
  "LanToLan_ctor ifs k = \<lparr>tables = \<lambda>_. no_clients, obj_ifaces = ifs, obj_kern = k, obj_posted = [], obj_failed = False\<rparr>"

text \<open>The table of an IP type: that of IPv6 for everything that is not IPv4.\<close>

definition table_of :: "ipa_ip_type \<Rightarrow> ipa_ip_type" where
  "table_of ip = (if ip = IPA_IP_v4 then IPA_IP_v4 else IPA_IP_v6)"

definition side :: "ipa_ip_type \<Rightarrow> 'k lan2lan_obj \<Rightarrow> 'k lan2lan" where
  "side ip ob = client_table.extend (tables ob ip)
     \<lparr>ifaces = obj_ifaces ob, kern = obj_kern ob, posted = obj_posted ob, op_failed = obj_failed ob\<rparr>"

definition set_side :: "ipa_ip_type \<Rightarrow> 'k lan2lan \<Rightarrow> 'k lan2lan_obj \<Rightarrow> 'k lan2lan_obj" where
  "set_side ip s ob = \<lparr>tables = (tables ob)(ip := client_table.truncate s), obj_ifaces = ifaces s, obj_kern = kern s,
     obj_posted = posted s, obj_failed = op_failed s\<rparr>"

definition on_side :: "ipa_ip_type \<Rightarrow> ('k lan2lan \<Rightarrow> 'k lan2lan option) \<Rightarrow> 'k lan2lan_obj \<Rightarrow> 'k lan2lan_obj option" where
  "on_side ip f ob = do { s \<leftarrow> f (side (table_of ip) ob); Some (set_side (table_of ip) s ob) }"

text \<open>A null pointer, a missing interface and an unknown IP type are rejected first.\<close>

definition on_client :: "(nat \<Rightarrow> lan_client \<Rightarrow> 'k lan2lan \<Rightarrow> 'k lan2lan option) \<Rightarrow> lan_client option
    \<Rightarrow> 'k lan2lan_obj \<Rightarrow> 'k lan2lan_obj option" where
  "on_client h d ob =
     (case d of
        None \<Rightarrow> Some ob
      | Some d \<Rightarrow>
          (case lc_iface d of
             None \<Rightarrow> Some ob
           | Some i \<Rightarrow> if lc_ip d = IPA_IP_MAX then Some ob else on_side (lc_ip d) (h i d) ob))"

text \<open>What arrives with an event.\<close>

datatype l2l_param = Lan_client "lan_client option" | Lan_connection l2l_connection | Other_param

definition event_callback :: "bool \<Rightarrow> 'k ipa_kernel \<Rightarrow> ipa_cm_event_id \<Rightarrow> l2l_param \<Rightarrow> 'k lan2lan_obj \<Rightarrow> 'k lan2lan_obj option" where
  "event_callback ct_opt K ev param ob =
     (case param of
        Lan_client d \<Rightarrow>
          (case ev of
             IPA_LAN_CLIENT_ACTIVE \<Rightarrow> on_client (handle_client_active ct_opt K) d ob
           | IPA_LAN_CLIENT_INACTIVE \<Rightarrow> on_client (\<lambda>_. handle_client_inactive K) d ob
           | IPA_LAN_CLIENT_DISCONNECT \<Rightarrow> on_client (\<lambda>_. handle_client_disconnect K) d ob
           | IPA_LAN_CLIENT_POWER_SAVE \<Rightarrow> on_client (\<lambda>_. handle_client_power_save K) d ob
           | IPA_LAN_CLIENT_POWER_RECOVER \<Rightarrow> on_client (\<lambda>_. handle_client_power_recover ct_opt K) d ob
           | _ \<Rightarrow> Some ob)
      | Lan_connection c \<Rightarrow>
          (case ev of
             IPA_LAN_TO_LAN_NEW_CONNECTION \<Rightarrow> on_side (conn_ip c) (handle_new_lan2lan_connection K c) ob
           | IPA_LAN_TO_LAN_DEL_CONNECTION \<Rightarrow> on_side (conn_ip c) (handle_del_lan2lan_connection K c) ob
           | _ \<Rightarrow> Some ob)
      | Other_param \<Rightarrow> Some ob)"

text \<open>The destructor takes all pairs down.\<close>

fun turnoff_all :: "'k ipa_kernel \<Rightarrow> ipa_ip_type \<Rightarrow> nat list \<Rightarrow> 'k lan2lan \<Rightarrow> 'k lan2lan option" where
  "turnoff_all K ip [] s = Some s"
| "turnoff_all K ip (a # as) s = do {
     (_, s1) \<leftarrow> turnoff_offload_links K ip a s;
     (_, s2) \<leftarrow> clear_peer_list a s1;
     turnoff_all K ip as s2 }"

definition clear_table :: "'k lan2lan \<Rightarrow> 'k lan2lan" where
  "clear_table s = s\<lparr>client_tab := [], nodes := Map.empty\<rparr>"

definition LanToLan_dtor :: "'k ipa_kernel \<Rightarrow> 'k lan2lan_obj \<Rightarrow> 'k lan2lan_obj option" where
  "LanToLan_dtor K ob = do {
     ob1 \<leftarrow> on_side IPA_IP_v4 (\<lambda>s. do { s1 \<leftarrow> turnoff_all K IPA_IP_v4 (map snd (client_tab s)) s; Some (clear_table s1) }) ob;
     on_side IPA_IP_v6 (\<lambda>s. do { s1 \<leftarrow> turnoff_all K IPA_IP_v6 (map snd (client_tab s)) s; Some (clear_table s1) }) ob1 }"

end
