(* ===== verification/Ipacm_L2L_Safe.thy ===== *)
theory Ipacm_L2L_Safe
  imports Ipacm_LanToLan "HOL-Library.Multiset"
begin

text \<open>
  What the LAN to LAN offload relies on from the interfaces (\<^verbatim>\<open>IPACM_Lan.cpp\<close>): that their
  operations stay within their arrays when the properties and the header formats have the
  documented sizes, and which members they leave alone.
\<close>

section \<open>What the interfaces must provide\<close>

definition hdr_attrib_fits :: "nat \<Rightarrow> hdr_attrib \<Rightarrow> bool" where
  "hdr_attrib_fits n a =
     (case a of WLAN_HDR_ATTRIB_MAC_ADDR off \<Rightarrow> off + 12 \<le> n
      | WLAN_HDR_ATTRIB_STA_ID off sta \<Rightarrow> off + length sta \<le> n
      | other_hdr_attrib \<Rightarrow> True)"

text \<open>
  The transmit properties of each IP type are at most as many as the array of handles, and
  there is one; the header attributes of a WLAN client stay within a header.
\<close>

definition iface_ok :: "'k ipa_kernel \<Rightarrow> lan_iface \<Rightarrow> bool" where
  "iface_ok K i \<longleftrightarrow>
     (case tx_prop i of None \<Rightarrow> True
      | Some txs \<Rightarrow> list_all (\<lambda>ip. length (filter (\<lambda>t. tx_ip t = ip) txs) \<le> MAX_NUM_PROP
          \<and> list_ex (\<lambda>t. tx_ip t = ip) txs) [IPA_IP_v4, IPA_IP_v6])
     \<and> (case wlan_client i of None \<Rightarrow> True
      | Some cls \<Rightarrow> list_all (\<lambda>cl. list_all (hdr_attrib_fits (IPA_HDR_MAX_SIZE K)) (snd cl)) cls)"

text \<open>The kernel's Ethernet headers have room for the two addresses.\<close>

definition eth_hdrs_fit :: "'k ipa_kernel \<Rightarrow> bool" where
  "eth_hdrs_fit K \<longleftrightarrow> (\<forall>name k. is_eth2_ofst_valid (snd (fst (IOC_COPY_HDR K name k)))
      \<longrightarrow> eth2_ofst (snd (fst (IOC_COPY_HDR K name k))) + 12 \<le> IPA_HDR_MAX_SIZE K)"

lemma put_bytes_defined:
  "off + length bs \<le> length h \<Longrightarrow> \<exists>h'. put_bytes off bs h = Some h' \<and> length h' = length h"
  by (simp add: put_bytes_def)

lemma put_two_defined:
  assumes "off + length bs + length cs \<le> length h"
  shows "\<exists>h'. Option.bind (put_bytes off bs h) (put_bytes (off + length bs) cs) = Some h' \<and> length h' = length h"
  using assms by (simp add: put_bytes_def)

lemma eth_hdr_defined:
  assumes "is_eth2_ofst_valid c \<Longrightarrow> eth2_ofst c + 12 \<le> length h" "length src = 6" "length dst = 6"
  shows "\<exists>h'. eth_hdr c src dst h = Some h' \<and> length h' = length h"
  using assms put_two_defined [of "eth2_ofst c" dst src h] by (auto simp: eth_hdr_def add.commute)

lemma wlan_hdr_defined:
  assumes "list_all (hdr_attrib_fits (length h)) as" "length src = 6" "length dst = 6"
  shows "\<exists>h'. wlan_hdr as src dst h = Some h'"
  using assms
proof (induction as arbitrary: h)
  case Nil
  then show ?case by simp
next
  case (Cons a as)
  have "\<exists>h'. (case a of
          WLAN_HDR_ATTRIB_MAC_ADDR off \<Rightarrow> Option.bind (put_bytes off dst h) (put_bytes (off + length dst) src)
        | WLAN_HDR_ATTRIB_STA_ID off sta \<Rightarrow> put_bytes off sta h
        | other_hdr_attrib \<Rightarrow> Some h) = Some h' \<and> length h' = length h"
    using Cons.prems put_two_defined [of _ dst src h] put_bytes_defined [of _ _ h]
    by (cases a) (auto simp: hdr_attrib_fits_def)
  then obtain h' where h': "(case a of
          WLAN_HDR_ATTRIB_MAC_ADDR off \<Rightarrow> Option.bind (put_bytes off dst h) (put_bytes (off + length dst) src)
        | WLAN_HDR_ATTRIB_STA_ID off sta \<Rightarrow> put_bytes off sta h
        | other_hdr_attrib \<Rightarrow> Some h) = Some h'" "length h' = length h"
    by blast
  then show ?case using Cons.IH [of h'] Cons.prems by simp
qed

text \<open>The members that no operation changes.\<close>

definition same_props :: "lan_iface \<Rightarrow> lan_iface \<Rightarrow> bool" where
  "same_props i j \<longleftrightarrow> tx_prop j = tx_prop i \<and> wlan_client j = wlan_client i \<and> if_cat j = if_cat i"

lemma iface_ok_same: "same_props i j \<Longrightarrow> iface_ok K j = iface_ok K i"
  by (simp add: same_props_def iface_ok_def)

lemma install_hdr_result:
  "install_hdr K ip bs i k = ((b, h), f, k') \<Longrightarrow> (b \<longrightarrow> h \<noteq> None) \<and> same_props i f"
  by (auto simp: install_hdr_def same_props_def Let_def split: if_splits option.splits prod.splits)

lemma CopyHeader_fits:
  "\<lbrakk>eth_hdrs_fit K; CopyHeader K fd name k = (Some c, k'); is_eth2_ofst_valid c\<rbrakk> \<Longrightarrow> eth2_ofst c + 12 \<le> IPA_HDR_MAX_SIZE K"
  by (auto simp: CopyHeader_def on_zero_def eth_hdrs_fit_def split: if_splits)

lemma find_mem: "find P xs = Some x \<Longrightarrow> x \<in> set xs"
  by (auto simp: find_Some_iff)

lemma add_lan2lan_hdr_defined:
  assumes fit: "eth_hdrs_fit K" and i: "iface_ok K i" and m: "length src = 6" "length dst = 6" and ip: "ip \<noteq> IPA_IP_MAX"
  shows "\<exists>b h f k'. add_lan2lan_hdr K ip src dst i k = Some ((b, h), f, k') \<and> (b \<longrightarrow> h \<noteq> None) \<and> same_props i f"
proof (cases "tx_prop i")
  case None
  then show ?thesis by (auto simp: add_lan2lan_hdr_def same_props_def)
next
  case (Some txs)
  then have ex: "find (\<lambda>t. tx_ip t = ip) txs \<noteq> None"
    using i ip by (cases ip) (auto simp: iface_ok_def find_None_iff list_ex_iff)
  obtain mm k1 where mk: "malloc K k = (mm, k1)" by fastforce
  obtain t where t: "find (\<lambda>t. tx_ip t = ip) txs = Some t" using ex by blast
  obtain cp k2 where cp: "CopyHeader K (hdr_fd i) (tx_hdr_name t) k1 = (cp, k2)" by fastforce
  show ?thesis
  proof (cases "mm \<and> cp \<noteq> None \<and> length (copied_hdr (the cp)) \<le> IPA_HDR_MAX_SIZE K")
    case False
    then show ?thesis using Some mk t cp ip by (cases cp) (auto simp: add_lan2lan_hdr_def same_props_def)
  next
    case True
    then obtain c where c: "cp = Some c" and n: "length (copied_hdr c) \<le> IPA_HDR_MAX_SIZE K" and mm by auto
    define buf where "buf = copied_hdr c @ replicate (IPA_HDR_MAX_SIZE K - length (copied_hdr c)) 0"
    have lb: "length buf = IPA_HDR_MAX_SIZE K" using n by (simp add: buf_def)
    have e: "\<exists>h'. eth_hdr c src dst buf = Some h'"
      using eth_hdr_defined [of c buf src dst] CopyHeader_fits [OF fit cp [unfolded c]] m lb by auto
    have w: "\<exists>h'. wlan_hdr (snd cl) src dst buf = Some h'"
      if "wlan_client i = Some cls" "find (\<lambda>cl. fst cl = dst) cls = Some cl" for cls cl
      using wlan_hdr_defined [of buf "snd cl" src dst] that i m lb find_mem [of _ cls cl]
      by (auto simp: iface_ok_def list_all_iff)
    have inst: "\<exists>b h f k'. install_hdr K ip bs i k2 = ((b, h), f, k') \<and> (b \<longrightarrow> h \<noteq> None) \<and> same_props i f" for bs
      using install_hdr_result [of K ip bs i k2] by (metis prod.exhaust)
    show ?thesis
    proof (cases "wlan_client i")
      case None
      with e Some mk t cp c n \<open>mm\<close> ip inst show ?thesis
        by (auto simp: add_lan2lan_hdr_def buf_def)
    next
      case wl: (Some cls)
      show ?thesis
      proof (cases "find (\<lambda>cl. fst cl = dst) cls")
        case None
        with wl Some mk t cp c n \<open>mm\<close> ip show ?thesis by (auto simp: add_lan2lan_hdr_def same_props_def)
      next
        case (Some cl)
        from w [OF wl this] obtain h' where "wlan_hdr (snd cl) src dst buf = Some h'" by blast
        with Some wl \<open>tx_prop i = Some txs\<close> mk t cp c n \<open>mm\<close> ip inst show ?thesis
          by (auto simp: add_lan2lan_hdr_def buf_def)
      qed
    qed
  qed
qed

lemma add_rt_loop_defined:
  "length hdls + length (filter (\<lambda>t. tx_ip t = ip) txs) \<le> MAX_NUM_PROP
   \<Longrightarrow> \<exists>b hs k'. add_rt_loop K ip src dst hdl fd txs hdls k = Some ((b, hs), k')"
  by (induction txs arbitrary: hdls k) (auto split: option.splits prod.splits)

lemma add_lan2lan_rt_rule_defined:
  assumes "iface_ok K i"
  shows "\<exists>b hs k'. add_lan2lan_rt_rule K ip src dst hdl i k = Some ((b, hs), k')"
  using assms add_rt_loop_defined [of "[]" ip]
  by (cases ip) (auto simp: add_lan2lan_rt_rule_def iface_ok_def split: option.splits prod.splits)

lemma same_props_refl [simp]: "same_props i i"
  by (simp add: same_props_def)

lemma del_lan2lan_hdr_props: "del_lan2lan_hdr K ip hdl i k = (b, f, k') \<Longrightarrow> same_props i f"
  by (auto simp: del_lan2lan_hdr_def same_props_def Let_def split: if_splits prod.splits)

lemma add_lan2lan_flt_rule_props: "add_lan2lan_flt_rule K ip src dst i k = (r, f, k') \<Longrightarrow> same_props i f"
  by (auto simp: add_lan2lan_flt_rule_def same_props_def Let_def split: if_splits prod.splits option.splits)

lemma del_lan2lan_flt_rule_props: "del_lan2lan_flt_rule K ip hdl i k = (b, f, k') \<Longrightarrow> same_props i f"
  by (auto simp: del_lan2lan_flt_rule_def same_props_def Let_def split: if_splits prod.splits)

lemmas iface_op_props = del_lan2lan_hdr_props add_lan2lan_flt_rule_props del_lan2lan_flt_rule_props

end
