(* ===== verification/Ipacm_L2L_Inv.thy ===== *)
theory Ipacm_L2L_Inv
  imports Ipacm_L2L_Safe
begin

text \<open>
  The invariant of the LAN to LAN tables, \<open>sound\<close> (which survives failures) and \<open>paired\<close> (which
  does not), on views of the state: the clients without their lists, the links as multisets
  and the peers as maps. The operations on links, with what each leaves alone (\<open>frame\<close>) and
  how it changes the account of links and pairs.
\<close>

section \<open>What the proofs look at\<close>

text \<open>The clients without their lists, the links as multisets of targets, the peers as maps.\<close>

definition skel :: "'k lan2lan \<Rightarrow> nat \<Rightarrow> client_info option" where
  "skel s a = map_option (\<lambda>c. c\<lparr>peer_list := [], link_list := []\<rparr>) (nodes s a)"

definition links :: "'k lan2lan \<Rightarrow> nat \<Rightarrow> nat multiset" where
  "links s a = (case nodes s a of None \<Rightarrow> {#} | Some c \<Rightarrow> mset (map link_peer (link_list c)))"

definition peers :: "'k lan2lan \<Rightarrow> nat \<Rightarrow> nat \<Rightarrow> int option" where
  "peers s a = (case nodes s a of None \<Rightarrow> Map.empty
     | Some c \<Rightarrow> map_of (map (\<lambda>p. (peer_id p, num_connection p)) (peer_list c)))"

definition peers_distinct :: "'k lan2lan \<Rightarrow> nat \<Rightarrow> bool" where
  "peers_distinct s a \<longleftrightarrow> (case nodes s a of None \<Rightarrow> True | Some c \<Rightarrow> distinct (map peer_id (peer_list c)))"

lemma views_put [simp]:
  "skel (put a c s) = (skel s)(a \<mapsto> c\<lparr>peer_list := [], link_list := []\<rparr>)"
  "links (put a c s) = (links s)(a := mset (map link_peer (link_list c)))"
  "peers (put a c s) = (peers s)(a := map_of (map (\<lambda>p. (peer_id p, num_connection p)) (peer_list c)))"
  "peers_distinct (put a c s) = (peers_distinct s)(a := distinct (map peer_id (peer_list c)))"
  by (auto simp: put_def skel_def links_def peers_def peers_distinct_def fun_eq_iff)

lemma put_simps [simp]:
  "nodes (put a c s) = (nodes s)(a \<mapsto> c)" "client_tab (put a c s) = client_tab s" "next_node (put a c s) = next_node s"
  "num_offload_pair (put a c s) = num_offload_pair s" "op_failed (put a c s) = op_failed s" "ifaces (put a c s) = ifaces s"
  "kern (put a c s) = kern s" "cached_conns (put a c s) = cached_conns s" "posted (put a c s) = posted s"
  by (simp_all add: put_def)

lemma views_update [simp]:
  "skel (s\<lparr>num_offload_pair := n\<rparr>) = skel s" "links (s\<lparr>num_offload_pair := n\<rparr>) = links s"
  "peers (s\<lparr>num_offload_pair := n\<rparr>) = peers s" "peers_distinct (s\<lparr>num_offload_pair := n\<rparr>) = peers_distinct s"
  by (auto simp: skel_def links_def peers_def peers_distinct_def fun_eq_iff)

lemma views_cong:
  assumes "nodes s' = nodes s"
  shows "skel s' = skel s" "links s' = links s" "peers s' = peers s" "peers_distinct s' = peers_distinct s"
  using assms by (auto simp: skel_def links_def peers_def peers_distinct_def fun_eq_iff)

lemma node_views:
  assumes "nodes s a = Some c"
  shows "skel s a = Some (c\<lparr>peer_list := [], link_list := []\<rparr>)"
    and "links s a = mset (map link_peer (link_list c))"
    and "peers s a = map_of (map (\<lambda>p. (peer_id p, num_connection p)) (peer_list c))"
    and "peers_distinct s a = distinct (map peer_id (peer_list c))"
  using assms by (auto simp: skel_def links_def peers_def peers_distinct_def)

lemma skel_None [simp]: "skel s a = None \<longleftrightarrow> nodes s a = None"
  by (simp add: skel_def)

lemma skel_eq_nodes: "skel s' = skel s \<Longrightarrow> nodes s' a = None \<longleftrightarrow> nodes s a = None"
  by (metis skel_None)

lemma skel_eq_dom: "skel s' = skel s \<Longrightarrow> dom (nodes s') = dom (nodes s)"
  by (rule set_eqI) (metis domIff skel_eq_nodes)

text \<open>What the operations on links leave alone.\<close>

definition frame :: "'k ipa_kernel \<Rightarrow> 'k lan2lan \<Rightarrow> 'k lan2lan \<Rightarrow> bool" where
  "frame K s s' \<longleftrightarrow> client_tab s' = client_tab s \<and> next_node s' = next_node s \<and> skel s' = skel s
     \<and> peers s' = peers s \<and> peers_distinct s' = peers_distinct s
     \<and> (op_failed s \<longrightarrow> op_failed s') \<and> (\<forall>i. iface_ok K (ifaces s i) \<longrightarrow> iface_ok K (ifaces s' i))"

definition calm :: "'k ipa_kernel \<Rightarrow> 'k lan2lan \<Rightarrow> 'k lan2lan \<Rightarrow> bool" where
  "calm K s s' \<longleftrightarrow> frame K s s' \<and> nodes s' = nodes s \<and> num_offload_pair s' = num_offload_pair s"

lemma frame_refl [simp]: "frame K s s"
  by (simp add: frame_def)

lemma frame_trans: "\<lbrakk>frame K s s1; frame K s1 s2\<rbrakk> \<Longrightarrow> frame K s s2"
  by (auto simp: frame_def)

lemma calm_refl [simp]: "calm K s s"
  by (simp add: calm_def)

lemma calm_trans: "\<lbrakk>calm K s s1; calm K s1 s2\<rbrakk> \<Longrightarrow> calm K s s2"
  by (auto simp: calm_def frame_def)

lemma calmI:
  assumes "client_tab s' = client_tab s" "nodes s' = nodes s" "next_node s' = next_node s"
    "num_offload_pair s' = num_offload_pair s" "op_failed s \<longrightarrow> op_failed s'"
    "\<And>i. same_props (ifaces s i) (ifaces s' i)"
  shows "calm K s s'"
  using assms views_cong [OF assms(2)] by (simp add: calm_def frame_def iface_ok_same [OF assms(6)])

section \<open>The calls of the interfaces\<close>

lemma call_add_hdr_calm:
  assumes "eth_hdrs_fit K" "iface_ok K (ifaces s i)" "length src = 6" "length dst = 6" "ip \<noteq> IPA_IP_MAX"
  shows "\<exists>b h s'. call_add_hdr K ip i src dst s = Some ((b, h), s') \<and> (b \<longrightarrow> h \<noteq> None) \<and> calm K s s' \<and> (\<not> b \<longrightarrow> op_failed s')"
proof -
  obtain b h f k' where r: "add_lan2lan_hdr K ip src dst (ifaces s i) (kern s) = Some ((b, h), f, k')"
    and b: "b \<longrightarrow> h \<noteq> None" and f: "same_props (ifaces s i) f"
    using add_lan2lan_hdr_defined [OF assms, of "kern s"] by blast
  let ?s = "s\<lparr>ifaces := (ifaces s)(i := f), kern := k', op_failed := op_failed s \<or> \<not> b\<rparr>"
  have "calm K s ?s" by (rule calmI) (use f in auto)
  with r b show ?thesis by (auto simp: call_add_hdr_def)
qed

lemma call_add_rt_calm:
  assumes "iface_ok K (ifaces s i)"
  shows "\<exists>b hs s'. call_add_rt K ip i src dst hdr s = Some ((b, hs), s') \<and> calm K s s' \<and> (\<not> b \<longrightarrow> op_failed s')"
proof -
  obtain b hs k' where r: "add_lan2lan_rt_rule K ip src dst hdr (ifaces s i) (kern s) = Some ((b, hs), k')"
    using add_lan2lan_rt_rule_defined [OF assms] by blast
  have "calm K s (s\<lparr>kern := k', op_failed := op_failed s \<or> \<not> b\<rparr>)" by (rule calmI) auto
  with r show ?thesis by (auto simp: call_add_rt_def)
qed

lemma call_calm:
  "call_del_hdr K ip i hdl s = (b, s') \<Longrightarrow> calm K s s' \<and> (\<not> b \<longrightarrow> op_failed s')"
  "call_del_rt K ip i hdls s = (b, s') \<Longrightarrow> calm K s s' \<and> (\<not> b \<longrightarrow> op_failed s')"
  "call_del_flt K ip i hdl s = (b, s') \<Longrightarrow> calm K s s' \<and> (\<not> b \<longrightarrow> op_failed s')"
  "call_add_flt K ip i src dst s = (r, s') \<Longrightarrow> calm K s s' \<and> (r = None \<longrightarrow> op_failed s')"
  by (auto simp: call_del_hdr_def call_del_rt_def call_del_flt_def call_add_flt_def
      intro!: calmI dest: iface_op_props split: prod.splits)

lemma snd_call_calm:
  "calm K s (snd (call_del_hdr K ip i hdl s))" "calm K s (snd (call_del_rt K ip i hdls s))"
  "calm K s (snd (call_del_flt K ip i hdl s))"
  by (metis call_calm prod.collapse)+

lemma del_offload_link_calm:
  "del_offload_link K ip i j l s = (b, s') \<Longrightarrow> calm K s s' \<and> (\<not> b \<longrightarrow> op_failed s')"
  by (auto simp: del_offload_link_def calm_def frame_def split: prod.splits dest!: call_calm)

section \<open>The invariant\<close>

text \<open>
  What holds even after a failure, as long as no client is erased: the table and the clients
  belong together, a link never leads to the client itself or nowhere, and two clients count
  the same number of connections with each other.
\<close>

definition sound :: "'k ipa_kernel \<Rightarrow> 'k lan2lan \<Rightarrow> bool" where
  "sound K s \<longleftrightarrow> distinct (map fst (client_tab s)) \<and> distinct (map snd (client_tab s))
     \<and> dom (nodes s) = snd ` set (client_tab s) \<and> (\<forall>a. nodes s a \<noteq> None \<longrightarrow> a < next_node s)
     \<and> (\<forall>a c. skel s a = Some c \<longrightarrow> length (client_mac c) = 6)
     \<and> (\<forall>a b. b \<in># links s a \<longrightarrow> b \<noteq> a \<and> nodes s b \<noteq> None)
     \<and> (\<forall>a. peers_distinct s a \<and> peers s a a = None)
     \<and> (\<forall>a b. peers s a b = peers s b a) \<and> (\<forall>a b n. peers s a b = Some n \<longrightarrow> n > 0)
     \<and> (\<forall>i. iface_ok K (ifaces s i))"

definition idle :: "client_info \<Rightarrow> bool" where "idle c \<longleftrightarrow> \<not> is_active c \<and> \<not> is_powersave c"

text \<open>What holds as long as no operation of an interface fails.\<close>

definition paired :: "'k lan2lan \<Rightarrow> bool" where
  "paired s \<longleftrightarrow> (\<forall>a b. count (links s a) b = count (links s b) a)
     \<and> (\<forall>a c. skel s a = Some c \<and> idle c \<longrightarrow> links s a = {#})
     \<and> (\<Sum>a<next_node s. size (links s a)) = 2 * unat (num_offload_pair s) \<and> unat (num_offload_pair s) \<le> MAX_OFFLOAD_PAIR"

lemma wf_calm: "\<lbrakk>sound K s; calm K s s'\<rbrakk> \<Longrightarrow> sound K s'"
  using views_cong [of s' s] by (simp add: sound_def calm_def frame_def)

lemma paired_calm: "\<lbrakk>paired s; calm K s s'\<rbrakk> \<Longrightarrow> paired s'"
  using views_cong [of s' s] by (simp add: paired_def calm_def frame_def)

lemma wf_frame:
  assumes "sound K s" "frame K s s'" "\<And>a b. b \<in># links s' a \<Longrightarrow> b \<noteq> a \<and> nodes s b \<noteq> None"
  shows "sound K s'"
  using assms skel_eq_nodes [of s' s] skel_eq_dom [of s' s] by (simp add: sound_def frame_def)

lemma wf_peerD:
  assumes "sound K s" "nodes s a = Some c" "p \<in> set (peer_list c)"
  shows "nodes s (peer_id p) \<noteq> None \<and> peer_id p \<noteq> a \<and> peers s (peer_id p) a = Some (num_connection p)
     \<and> num_connection p > 0"
proof -
  have "peers s a (peer_id p) = Some (num_connection p)"
    using assms by (auto simp: sound_def node_views [OF assms(2)] comp_def
        dest!: spec [where x = a] intro!: map_of_is_SomeI)
  moreover from this assms(1) have "peers s (peer_id p) a = Some (num_connection p)" "peer_id p \<noteq> a" "num_connection p > 0"
    by (auto simp: sound_def)
  ultimately show ?thesis by (auto simp: peers_def split: option.splits)
qed

lemma wf_linkD:
  assumes "sound K s" "nodes s a = Some c" "l \<in> set (link_list c)"
  shows "nodes s (link_peer l) \<noteq> None \<and> link_peer l \<noteq> a"
proof -
  have "link_peer l \<in># links s a" using assms(3) by (simp add: node_views [OF assms(2)])
  with assms(1) show ?thesis unfolding sound_def by metis
qed

lemma sum_update:
  fixes f :: "nat \<Rightarrow> nat"
  shows "a < n \<Longrightarrow> (\<Sum>x<n. (f(a := v)) x) + f a = (\<Sum>x<n. f x) + v"
  by (induction n) (auto simp: less_Suc_eq intro!: sum.cong)

lemma wf_next: "\<lbrakk>sound K s; nodes s a \<noteq> None\<rbrakk> \<Longrightarrow> a < next_node s"
  by (simp add: sound_def)

lemma wf_mac:
  assumes "sound K s" "nodes s a = Some c"
  shows "length (client_mac c) = 6"
proof -
  have "skel s a = Some (c\<lparr>peer_list := [], link_list := []\<rparr>)" by (rule node_views [OF assms(2)])
  with assms(1) have "length (client_mac (c\<lparr>peer_list := [], link_list := []\<rparr>)) = 6" unfolding sound_def by blast
  then show ?thesis by simp
qed

lemma wf_iface: "sound K s \<Longrightarrow> iface_ok K (ifaces s i)"
  by (simp add: sound_def)

section \<open>The operations on links\<close>

lemma put_links_frame:
  assumes "nodes s a = Some c" "frame K s0 s" "peer_list c' = peer_list c"
    "c'\<lparr>link_list := []\<rparr> = c\<lparr>link_list := []\<rparr>"
  shows "frame K s0 (put a c' s)"
proof -
  have "c'\<lparr>peer_list := [], link_list := []\<rparr> = c\<lparr>peer_list := [], link_list := []\<rparr>"
    using assms(4) by (cases c; cases c') auto
  then have "skel (put a c' s) = skel s" "peers (put a c' s) = peers s" "peers_distinct (put a c' s) = peers_distinct s"
    using assms(3) by (simp_all add: node_views [OF assms(1), symmetric])
  with assms(2) show ?thesis by (simp add: frame_def)
qed

lemma frame_num [simp]: "frame K s0 (s\<lparr>num_offload_pair := n\<rparr>) \<longleftrightarrow> frame K s0 s"
  by (simp add: frame_def)

lemma wf_num [simp]: "sound K (s\<lparr>num_offload_pair := n\<rparr>) \<longleftrightarrow> sound K s"
  by (simp add: sound_def)

lemma calm_frame: "calm K s s' \<Longrightarrow> frame K s s'"
  by (simp add: calm_def)

lemma frame_mono: "\<lbrakk>frame K s s'; op_failed s\<rbrakk> \<Longrightarrow> op_failed s'"
  by (simp add: frame_def)

lemma frame_nodes: "frame K s s' \<Longrightarrow> nodes s' a = None \<longleftrightarrow> nodes s a = None"
  by (rule skel_eq_nodes) (simp add: frame_def)

lemma frame_skel: "frame K s s' \<Longrightarrow> skel s' = skel s"
  by (simp add: frame_def)

lemma calm_nodes: "calm K s s' \<Longrightarrow> nodes s' = nodes s"
  by (simp add: calm_def)

lemma calm_num: "calm K s s' \<Longrightarrow> num_offload_pair s' = num_offload_pair s"
  by (simp add: calm_def)

lemma calm_links: "calm K s s' \<Longrightarrow> links s' = links s"
  by (rule views_cong) (simp add: calm_def)

definition link_added :: "'k ipa_kernel \<Rightarrow> ipa_ip_type \<Rightarrow> nat \<Rightarrow> nat \<Rightarrow> 'k lan2lan \<Rightarrow> bool \<Rightarrow> 'k lan2lan \<Rightarrow> bool" where
  "link_added K ip a b s ok s' \<longleftrightarrow> sound K s' \<and> frame K s s' \<and> num_offload_pair s' = num_offload_pair s
     \<and> links s' = (if ok then (links s)(a := add_mset b (links s a)) else links s)
     \<and> (ok \<longrightarrow> ip \<noteq> IPA_IP_MAX \<and> unat (num_offload_pair s) < MAX_OFFLOAD_PAIR)
     \<and> (\<not> ok \<longrightarrow> op_failed s' \<or> ip = IPA_IP_MAX \<or> unat (num_offload_pair s) \<ge> MAX_OFFLOAD_PAIR)"

lemma link_added_calm:
  assumes "sound K s" "calm K s s'" "op_failed s'"
  shows "link_added K ip a b s False s'"
  using assms by (simp add: link_added_def calm_links calm_num calm_frame wf_calm)

lemma add_offload_link_added:
  assumes wf: "sound K s" and fit: "eth_hdrs_fit K" and a: "nodes s a = Some c" and b: "nodes s b = Some p" and ab: "a \<noteq> b"
  shows "\<exists>ok s'. add_offload_link K ip a b s = Some (ok, s') \<and> link_added K ip a b s ok s'"
proof (cases "ip = IPA_IP_MAX \<or> unat (num_offload_pair s) \<ge> MAX_OFFLOAD_PAIR")
  case True
  then show ?thesis using wf by (auto simp: add_offload_link_def link_added_def)
next
  case room: False
  obtain hok h s1 where 1: "call_add_hdr K ip (p_iface p) (client_mac c) (client_mac p) s = Some ((hok, h), s1)"
    and h: "hok \<longrightarrow> h \<noteq> None" and c1: "calm K s s1" and f1: "\<not> hok \<longrightarrow> op_failed s1"
    using call_add_hdr_calm [OF fit wf_iface [OF wf] wf_mac [OF wf a] wf_mac [OF wf b]] room by blast
  show ?thesis
  proof (cases hok)
    case False
    then show ?thesis using room a b 1 f1 link_added_calm [OF wf c1] by (auto simp: add_offload_link_def)
  next
    case True
    then obtain hdr where hdr: "h = Some hdr" using h by blast
    obtain rok rts s2 where 2: "call_add_rt K ip (p_iface p) (ip_addr c) (ip_addr p) hdr s1 = Some ((rok, rts), s2)"
      and c2': "calm K s1 s2" and f2: "\<not> rok \<longrightarrow> op_failed s2"
      using call_add_rt_calm [OF wf_iface [OF wf_calm [OF wf c1]]] by blast
    have c2: "calm K s s2" by (rule calm_trans [OF c1 c2'])
    show ?thesis
    proof (cases rok)
      case False
      let ?s = "snd (call_del_hdr K ip (p_iface p) hdr s2)"
      have "calm K s2 ?s" by (rule snd_call_calm)
      moreover from this have "op_failed ?s" using False f2 by (auto simp: calm_def frame_def)
      ultimately have "link_added K ip a b s False ?s" using link_added_calm [OF wf] calm_trans [OF c2] by blast
      then show ?thesis using room a b 1 2 True hdr False by (auto simp: add_offload_link_def)
    next
      case rok: True
      obtain r s3 where 3: "call_add_flt K ip (p_iface c) (ip_addr c) (ip_addr p) s2 = (r, s3)" by fastforce
      have c3: "calm K s s3" and f3: "r = None \<longrightarrow> op_failed s3"
        using call_calm(4) [OF 3] calm_trans [OF c2] by blast+
      show ?thesis
      proof (cases r)
        case None
        let ?s4 = "snd (call_del_rt K ip (p_iface p) rts s3)"
        let ?s5 = "snd (call_del_hdr K ip (p_iface p) hdr ?s4)"
        have c4: "calm K s3 ?s5" using calm_trans [OF snd_call_calm(2) snd_call_calm(1)] by blast
        moreover from this have "op_failed ?s5" using None f3 by (auto simp: calm_def frame_def)
        ultimately have "link_added K ip a b s False ?s5" using link_added_calm [OF wf] calm_trans [OF c3] by blast
        then show ?thesis using room a b 1 2 3 None True hdr rok by (auto simp: add_offload_link_def)
      next
        case (Some flt)
        let ?c = "c\<lparr>link_list := link_list c @ [\<lparr>link_peer = b, link_flt_hdl = flt, link_rt_hdls = rts, link_hdr_hdl = hdr\<rparr>]\<rparr>"
        let ?s = "put a ?c s3"
        have n: "nodes s3 = nodes s" by (rule calm_nodes [OF c3])
        have fr: "frame K s ?s" using n a calm_frame [OF c3] by (intro put_links_frame) auto
        have l: "links ?s = (links s)(a := add_mset b (links s a))"
          by (simp add: calm_links [OF c3] node_views [OF a])
        have "sound K ?s"
        proof (rule wf_frame [OF wf fr])
          fix x y assume "y \<in># links ?s x"
          then have "y \<in># links s x \<or> x = a \<and> y = b" unfolding l by (auto split: if_splits)
          then show "y \<noteq> x \<and> nodes s y \<noteq> None" using wf b ab unfolding sound_def by fastforce
        qed
        then have "link_added K ip a b s True ?s"
          using fr l room calm_num [OF c3] by (simp add: link_added_def)
        then show ?thesis using room a b 1 2 3 Some True hdr rok by (auto simp: add_offload_link_def)
      qed
    qed
  qed
qed

lemma mset_erase_first:
  "image_mset f (mset (erase_first (\<lambda>x. f x = b) xs)) = image_mset f (mset xs) - {#b#}"
  by (induction xs) (auto simp: multiset_eq_iff)

lemma find_None_count:
  "find (\<lambda>l. link_peer l = b) ls = None \<longleftrightarrow> count (mset (map link_peer ls)) b = 0"
  by (auto simp: find_None_iff count_eq_zero_iff)

lemma replicate_mset_diff_1: "M - {#a#} - replicate_mset n a = M - replicate_mset (Suc n) a"
  by (simp add: multiset_eq_iff)

text \<open>Erasing the first link to a client, on a state that the calls of the interfaces have left.\<close>

lemma link_erased:
  fixes a :: nat
  assumes wf: "sound K s" and b: "nodes s b = Some p" and c: "calm K s s1"
  defines "s2 \<equiv> put b (p\<lparr>link_list := erase_first (\<lambda>l. link_peer l = a) (link_list p)\<rparr>) s1"
  shows "sound K s2" "frame K s s2" "links s2 = (links s)(b := links s b - {#a#})"
proof -
  show l: "links s2 = (links s)(b := links s b - {#a#})"
    by (simp add: s2_def calm_links [OF c] node_views [OF b] mset_erase_first)
  show fr: "frame K s s2" unfolding s2_def
    by (rule put_links_frame [of s1 b p]) (simp_all add: calm_nodes [OF c] b calm_frame [OF c])
  show "sound K s2"
  proof (rule wf_frame [OF wf fr])
    fix x y assume "y \<in># links s2 x"
    then have "y \<in># links s x" unfolding l by (auto dest: in_diffD split: if_splits)
    then show "y \<noteq> x \<and> nodes s y \<noteq> None" using wf unfolding sound_def by blast
  qed
qed

lemma turnoff_loop_frame:
  assumes "sound K s" "nodes s a \<noteq> None" "\<forall>l \<in> set ls. nodes s (link_peer l) \<noteq> None \<and> link_peer l \<noteq> a"
  shows "\<exists>ok s'. turnoff_loop K ip a ls s = Some (ok, s') \<and> sound K s' \<and> frame K s s'
     \<and> (\<not> op_failed s' \<and> (\<forall>x. count (mset (map link_peer ls)) x \<le> count (links s x) a)
        \<longrightarrow> ok \<and> num_offload_pair s' = num_offload_pair s - of_nat (length ls)
            \<and> links s' = (\<lambda>x. links s x - replicate_mset (count (mset (map link_peer ls)) x) a))"
  using assms
proof (induction ls arbitrary: s)
  case Nil
  then show ?case by auto
next
  case (Cons l ls)
  let ?b = "link_peer l"
  from Cons.prems obtain c p where a: "nodes s a = Some c" and b: "nodes s ?b = Some p" and ab: "?b \<noteq> a" by auto
  obtain ok1 s1 where 1: "del_offload_link K ip (p_iface c) (p_iface p) l s = (ok1, s1)" by fastforce
  then have c1: "calm K s s1" and f1: "\<not> ok1 \<longrightarrow> op_failed s1" using del_offload_link_calm by blast+
  show ?case
  proof (cases "ok1 \<and> find (\<lambda>l'. link_peer l' = a) (link_list p) \<noteq> None")
    case False
    have "turnoff_loop K ip a (l # ls) s = Some (False, s1)" using False a b 1 by auto
    moreover have "op_failed s1 \<or> count (links s ?b) a = 0"
      using False f1 by (auto simp: node_views [OF b] find_None_count)
    moreover have "count (links s ?b) a = 0 \<Longrightarrow> \<not> count (mset (map link_peer (l # ls))) ?b \<le> count (links s ?b) a"
      by simp
    ultimately show ?thesis using calm_frame [OF c1] wf_calm [OF Cons.prems(1) c1] by blast
  next
    case True
    then obtain l' where l': "find (\<lambda>l'. link_peer l' = a) (link_list p) = Some l'" by blast
    obtain ok2 s2 where 2: "del_offload_link K ip (p_iface p) (p_iface c) l' s1 = (ok2, s2)" by fastforce
    have c2: "calm K s s2" and f2: "\<not> ok2 \<longrightarrow> op_failed s2"
      using del_offload_link_calm [OF 2] calm_trans [OF c1] by blast+
    show ?thesis
    proof (cases ok2)
      case False
      then have "turnoff_loop K ip a (l # ls) s = Some (False, s2)" using True a b 1 2 l' by simp
      with False f2 show ?thesis using calm_frame [OF c2] wf_calm [OF Cons.prems(1) c2] by auto
    next
      case ok2: True
      define s3 where "s3 = (put ?b (p\<lparr>link_list := erase_first (\<lambda>l'. link_peer l' = a) (link_list p)\<rparr>) s2)
        \<lparr>num_offload_pair := num_offload_pair s2 - 1\<rparr>"
      note e = link_erased [OF Cons.prems(1) b c2, of a]
      have w3: "sound K s3" and fr3: "frame K s s3" and l3: "links s3 = (links s)(?b := links s ?b - {#a#})"
        using e by (simp_all add: s3_def)
      have n3: "num_offload_pair s3 = num_offload_pair s - 1" by (simp add: s3_def calm_num [OF c2])
      have run: "turnoff_loop K ip a (l # ls) s = turnoff_loop K ip a ls s3"
        using a b 1 2 l' True ok2 ab by (simp add: s3_def)
      have "nodes s3 a \<noteq> None" "\<forall>l \<in> set ls. nodes s3 (link_peer l) \<noteq> None \<and> link_peer l \<noteq> a"
        using Cons.prems frame_nodes [OF fr3] by auto
      from Cons.IH [OF w3 this] obtain ok s' where r: "turnoff_loop K ip a ls s3 = Some (ok, s')" "sound K s'" "frame K s3 s'"
        and strong: "\<not> op_failed s' \<and> (\<forall>x. count (mset (map link_peer ls)) x \<le> count (links s3 x) a)
        \<longrightarrow> ok \<and> num_offload_pair s' = num_offload_pair s3 - of_nat (length ls)
            \<and> links s' = (\<lambda>x. links s3 x - replicate_mset (count (mset (map link_peer ls)) x) a)" by blast
      have "ok \<and> num_offload_pair s' = num_offload_pair s - of_nat (length (l # ls))
            \<and> links s' = (\<lambda>x. links s x - replicate_mset (count (mset (map link_peer (l # ls))) x) a)"
        if nf: "\<not> op_failed s'" and le: "\<forall>x. count (mset (map link_peer (l # ls))) x \<le> count (links s x) a"
      proof -
        have "\<forall>x. count (mset (map link_peer ls)) x \<le> count (links s3 x) a"
        proof
          fix x show "count (mset (map link_peer ls)) x \<le> count (links s3 x) a"
            using le [rule_format, of x] by (auto simp: l3)
        qed
        with strong nf have ok and n: "num_offload_pair s' = num_offload_pair s3 - of_nat (length ls)"
          and l: "links s' = (\<lambda>x. links s3 x - replicate_mset (count (mset (map link_peer ls)) x) a)" by blast+
        have "links s' = (\<lambda>x. links s x - replicate_mset (count (mset (map link_peer (l # ls))) x) a)"
          unfolding l l3 by (rule ext) (simp add: multiset_eq_iff)
        with \<open>ok\<close> n n3 show ?thesis by simp
      qed
      with r(1,2) frame_trans [OF fr3 r(3)] show ?thesis
        unfolding run by (intro exI [of _ ok] exI [of _ s']) blast
    qed
  qed
qed

section \<open>Counting links\<close>

lemma sum_count: "set_mset M \<subseteq> {..<n :: nat} \<Longrightarrow> (\<Sum>x<n. count M x) = size M"
  unfolding size_multiset_overloaded_eq by (rule sum.mono_neutral_right) (auto simp: count_eq_zero_iff)

lemma unat_minus_of_nat:
  fixes w :: "'a::len word"
  assumes "k \<le> unat w"
  shows "unat (w - of_nat k) = unat w - k"
proof -
  have "k < 2 ^ LENGTH('a)" using assms unsigned_less by (rule le_less_trans)
  then have "unat (of_nat k :: 'a word) = k" by (simp add: unat_of_nat)
  with assms show ?thesis by (subst unat_sub) (simp_all add: word_le_nat_alt)
qed

lemma total_drop:
  fixes L :: "nat \<Rightarrow> nat multiset"
  assumes sym: "\<And>x. count (L x) a = count (L a) x" and self: "count (L a) a = 0"
    and a: "a < n" and sub: "set_mset (L a) \<subseteq> {..<n}"
  shows "(\<Sum>x<n. size (if x = a then {#} else filter_mset (\<lambda>y. y \<noteq> a) (L x))) + 2 * size (L a) = (\<Sum>x<n. size (L x))"
proof -
  let ?g = "\<lambda>x. size (if x = a then {#} else filter_mset (\<lambda>y. y \<noteq> a) (L x))"
  have part: "size (L x) = ?g x + count (L x) a + (if x = a then size (L a) else 0)" for x
  proof (cases "x = a")
    case True
    then show ?thesis using self by simp
  next
    case False
    have "size (L x) = size (filter_mset (\<lambda>y. y \<noteq> a) (L x)) + size (filter_mset (\<lambda>y. \<not> y \<noteq> a) (L x))"
      using arg_cong [OF multiset_partition [of "L x" "\<lambda>y. y \<noteq> a"], of size] by (simp only: size_union)
    moreover have "filter_mset (\<lambda>y. \<not> y \<noteq> a) (L x) = replicate_mset (count (L x) a) a"
      by (auto simp: multiset_eq_iff)
    ultimately show ?thesis using False by simp
  qed
  have "(\<Sum>x<n. size (L x)) = (\<Sum>x<n. ?g x + count (L x) a + (if x = a then size (L a) else 0))"
    by (intro sum.cong refl) (rule part)
  also have "\<dots> = (\<Sum>x<n. ?g x) + (\<Sum>x<n. count (L x) a) + (\<Sum>x<n. if x = a then size (L a) else 0)"
    by (simp only: sum.distrib)
  also have "(\<Sum>x<n. count (L x) a) = size (L a)" using sum_count [OF sub] by (simp add: sym)
  also have "(\<Sum>x<n. if x = a then size (L a) else 0) = size (L a)" using a by simp
  finally show ?thesis by simp
qed

lemma total_two:
  fixes L :: "nat \<Rightarrow> nat multiset"
  assumes "a < n" "b < n" "a \<noteq> b"
  shows "(\<Sum>x<n. size ((L(a := A, b := B)) x)) + size (L a) + size (L b) = (\<Sum>x<n. size (L x)) + size A + size B"
proof -
  let ?f = "\<lambda>x. size (L x)"
  have eq: "(\<lambda>x. size ((L(a := A, b := B)) x)) = ?f(a := size A, b := size B)" by auto
  have "(\<Sum>x<n. (?f(a := size A, b := size B)) x) + (?f(a := size A)) b = (\<Sum>x<n. (?f(a := size A)) x) + size B"
    by (rule sum_update [OF assms(2)])
  moreover have "(\<Sum>x<n. (?f(a := size A)) x) + ?f a = (\<Sum>x<n. ?f x) + size A" by (rule sum_update [OF assms(1)])
  moreover have "(?f(a := size A)) b = ?f b" using assms(3) by simp
  ultimately show ?thesis unfolding eq by simp
qed

lemma pairedD:
  assumes "paired s"
  shows "\<And>a b. count (links s a) b = count (links s b) a" "\<And>a c. \<lbrakk>skel s a = Some c; idle c\<rbrakk> \<Longrightarrow> links s a = {#}"
    "(\<Sum>a<next_node s. size (links s a)) = 2 * unat (num_offload_pair s)" "unat (num_offload_pair s) \<le> MAX_OFFLOAD_PAIR"
  using assms unfolding paired_def by blast+

lemma soundD:
  assumes "sound K s"
  shows "\<And>a b. b \<in># links s a \<Longrightarrow> b \<noteq> a" "\<And>a b. b \<in># links s a \<Longrightarrow> nodes s b \<noteq> None"
    "\<And>a. count (links s a) a = 0" "\<And>a. set_mset (links s a) \<subseteq> {..<next_node s}"
    "\<And>a. nodes s a \<noteq> None \<Longrightarrow> a < next_node s"
  using assms unfolding sound_def by (auto simp: count_eq_zero_iff)

lemma size_le_total:
  fixes L :: "nat \<Rightarrow> nat multiset"
  shows "a < n \<Longrightarrow> size (L a) \<le> (\<Sum>x<n. size (L x))"
  by (rule member_le_sum) auto

definition drop_links :: "nat \<Rightarrow> (nat \<Rightarrow> nat multiset) \<Rightarrow> nat \<Rightarrow> nat multiset" where
  "drop_links a L = (\<lambda>x. if x = a then {#} else filter_mset (\<lambda>y. y \<noteq> a) (L x))"

lemma count_drop_links: "count (drop_links a L x) y = (if x = a \<or> y = a then 0 else count (L x) y)"
  by (simp add: drop_links_def)

lemma drop_links_le: "L x = {#} \<Longrightarrow> drop_links a L x = {#}"
  by (simp add: drop_links_def)

text \<open>Taking down all links of a client keeps the account.\<close>

lemma paired_dropped:
  assumes s: "sound K s" and p: "paired s" and a: "nodes s a \<noteq> None"
    and fr: "frame K s s'" and l: "links s' = drop_links a (links s)"
    and n: "num_offload_pair s' = num_offload_pair s - of_nat (size (links s a))"
  shows "paired s'"
proof -
  note P = pairedD [OF p] and S = soundD [OF s]
  have an: "a < next_node s" using S(5) a by blast
  have t: "(\<Sum>x<next_node s. size (links s' x)) + 2 * size (links s a) = 2 * unat (num_offload_pair s)"
    using total_drop [of "links s" a, OF P(1) S(3) an S(4)] by (simp add: l drop_links_def P(3))
  then have le: "size (links s a) \<le> unat (num_offload_pair s)" by simp
  then have "unat (num_offload_pair s') = unat (num_offload_pair s) - size (links s a)"
    unfolding n by (rule unat_minus_of_nat)
  then have num: "2 * unat (num_offload_pair s') + 2 * size (links s a) = 2 * unat (num_offload_pair s)"
    "unat (num_offload_pair s') \<le> MAX_OFFLOAD_PAIR"
    using le P(4) by auto
  have "next_node s' = next_node s" "skel s' = skel s" using fr by (simp_all add: frame_def)
  then show ?thesis
    unfolding paired_def using t num P(1,2) by (auto simp: l count_drop_links drop_links_le)
qed

lemma turnoff_sound:
  assumes s: "sound K s" and a: "nodes s a \<noteq> None"
  shows "\<exists>ok s'. turnoff_offload_links K ip a s = Some (ok, s') \<and> sound K s' \<and> frame K s s'
     \<and> (paired s \<and> \<not> op_failed s' \<longrightarrow> paired s' \<and> links s' = drop_links a (links s))"
proof -
  obtain c where c: "nodes s a = Some c" using a by blast
  have "\<forall>l \<in> set (link_list c). nodes s (link_peer l) \<noteq> None \<and> link_peer l \<noteq> a" using wf_linkD [OF s c] by blast
  from turnoff_loop_frame [OF s a this] obtain ok s1
    where 1: "turnoff_loop K ip a (link_list c) s = Some (ok, s1)" "sound K s1" "frame K s s1"
      and strong: "\<not> op_failed s1 \<and> (\<forall>x. count (mset (map link_peer (link_list c))) x \<le> count (links s x) a)
        \<longrightarrow> ok \<and> num_offload_pair s1 = num_offload_pair s - of_nat (length (link_list c))
            \<and> links s1 = (\<lambda>x. links s x - replicate_mset (count (mset (map link_peer (link_list c))) x) a)" by blast
  have m: "mset (map link_peer (link_list c)) = links s a" by (simp add: node_views [OF c])
  have sz: "length (link_list c) = size (links s a)" by (simp add: node_views [OF c])
  have strong': "ok \<and> num_offload_pair s1 = num_offload_pair s - of_nat (size (links s a))
            \<and> links s1 = (\<lambda>x. links s x - replicate_mset (count (links s a) x) a)"
    if "paired s" "\<not> op_failed s1" using strong that pairedD(1) [OF that(1)] unfolding m sz by simp
  show ?thesis
  proof (cases ok)
    case False
    then have "\<not> (paired s \<and> \<not> op_failed s1)" using strong' by blast
    then show ?thesis using 1 c False by (auto simp: turnoff_offload_links_def)
  next
    case True
    obtain c1 where c1: "nodes s1 a = Some c1" using frame_nodes [OF 1(3), of a] a by auto
    let ?s = "put a (c1\<lparr>link_list := []\<rparr>) s1"
    have fr: "frame K s ?s" using c1 1(3) by (intro put_links_frame) auto
    have l: "links ?s = (links s1)(a := {#})" by simp
    have snd: "sound K ?s"
    proof (rule wf_frame [OF s fr])
      fix x y assume "y \<in># links ?s x"
      then have "y \<in># links s1 x" unfolding l by (auto split: if_splits)
      then show "y \<noteq> x \<and> nodes s y \<noteq> None" using soundD(1,2) [OF 1(2)] frame_nodes [OF 1(3)] by metis
    qed
    have "paired ?s \<and> links ?s = drop_links a (links s)" if p: "paired s" and nf: "\<not> op_failed ?s"
    proof -
      have nf1: "\<not> op_failed s1" using nf by simp
      have l1: "links s1 = (\<lambda>x. links s x - replicate_mset (count (links s a) x) a)"
        and n1: "num_offload_pair s1 = num_offload_pair s - of_nat (size (links s a))"
        using strong' [OF p nf1] by blast+
      have ld: "links ?s = drop_links a (links s)"
        unfolding l l1 drop_links_def fun_eq_iff
        by (auto simp: multiset_eq_iff pairedD(1) [OF p, of a])
      moreover have "paired ?s"
        by (rule paired_dropped [OF s p a fr ld]) (use n1 in simp)
      ultimately show ?thesis by blast
    qed
    then show ?thesis using 1 c c1 True snd fr by (auto simp: turnoff_offload_links_def)
  qed
qed

text \<open>Both directions of a pair, added one after the other.\<close>

lemma pair_added:
  assumes s: "sound K s" and p: "paired s" and ab: "a \<noteq> b" and n: "nodes s a \<noteq> None" "nodes s b \<noteq> None"
    and idle: "\<And>c. skel s a = Some c \<Longrightarrow> \<not> idle c" "\<And>c. skel s b = Some c \<Longrightarrow> \<not> idle c"
    and 1: "link_added K ip a b s ok1 s1" and 2: "link_added K ip b a s1 ok2 s2" and nf: "\<not> op_failed s2"
  shows "ok2 = ok1" "paired (if ok2 then s2\<lparr>num_offload_pair := num_offload_pair s2 + 1\<rparr> else s2)"
    "links s2 = (if ok2 then (links s)(a := add_mset b (links s a), b := add_mset a (links s b)) else links s)"
    "ok2 \<longleftrightarrow> ip \<noteq> IPA_IP_MAX \<and> unat (num_offload_pair s) < MAX_OFFLOAD_PAIR"
proof -
  note P = pairedD [OF p] and S = soundD [OF s]
  have nf1: "\<not> op_failed s1" using nf 2 frame_mono by (auto simp: link_added_def)
  have num: "num_offload_pair s1 = num_offload_pair s" "num_offload_pair s2 = num_offload_pair s"
    using 1 2 by (simp_all add: link_added_def)
  show eq: "ok2 = ok1" and room: "ok2 \<longleftrightarrow> ip \<noteq> IPA_IP_MAX \<and> unat (num_offload_pair s) < MAX_OFFLOAD_PAIR"
    using 1 2 nf nf1 num unfolding link_added_def by auto
  show l: "links s2 = (if ok2 then (links s)(a := add_mset b (links s a), b := add_mset a (links s b)) else links s)"
    using 1 2 ab unfolding link_added_def eq by auto
  have fr: "frame K s s2" using 1 2 frame_trans unfolding link_added_def by blast
  show "paired (if ok2 then s2\<lparr>num_offload_pair := num_offload_pair s2 + 1\<rparr> else s2)"
  proof (cases ok2)
    case False
    with fr l p num show ?thesis by (simp add: paired_def frame_def)
  next
    case True
    have "unat (num_offload_pair s + 1) = unat (num_offload_pair s) + 1"
      using room True by (subst unat_word_ariths(1)) (simp add: MAX_OFFLOAD_PAIR_def)
    moreover have "(\<Sum>x<next_node s. size (links s2 x)) + size (links s a) + size (links s b)
        = (\<Sum>x<next_node s. size (links s x)) + (size (links s a) + 1) + (size (links s b) + 1)"
      unfolding l using total_two [of a "next_node s" b "links s"] S(5) n ab True by simp
    ultimately show ?thesis
      using True room num fr P(1,3) idle P(2) unfolding paired_def
      by (auto simp: l frame_def split: if_splits)
  qed
qed

lemma check_potential_loop_sound:
  assumes "sound K s" "eth_hdrs_fit K" "skel s a = Some c" "is_active c"
    "\<forall>p \<in> set ps. nodes s (peer_id p) \<noteq> None \<and> peer_id p \<noteq> a"
  shows "\<exists>s'. check_potential_loop K ip a ps s = Some s' \<and> sound K s' \<and> frame K s s' \<and> (paired s \<and> \<not> op_failed s' \<longrightarrow> paired s')"
  using assms
proof (induction ps arbitrary: s)
  case Nil
  then show ?case by simp
next
  case (Cons p ps)
  let ?b = "peer_id p"
  from Cons.prems obtain pc ca where b: "nodes s ?b = Some pc" and a: "nodes s a = Some ca" and ab: "a \<noteq> ?b"
    by (auto simp: skel_def)
  show ?case
  proof (cases "is_active pc \<and> num_connection p > 0")
    case False
    then have "check_potential_loop K ip a (p # ps) s = check_potential_loop K ip a ps s" using b by auto
    with Cons.IH [of s] Cons.prems show ?thesis by simp
  next
    case True
    obtain ok1 s1 where 1: "add_offload_link K ip a ?b s = Some (ok1, s1)" "link_added K ip a ?b s ok1 s1"
      using add_offload_link_added [OF Cons.prems(1,2) a b ab] by blast
    have w1: "sound K s1" and fr1: "frame K s s1" using 1(2) by (simp_all add: link_added_def)
    obtain ca1 pc1 where n1: "nodes s1 a = Some ca1" "nodes s1 ?b = Some pc1"
      using frame_nodes [OF fr1, of a] frame_nodes [OF fr1, of ?b] a b by auto
    obtain ok2 s2 where 2: "add_offload_link K ip ?b a s1 = Some (ok2, s2)" "link_added K ip ?b a s1 ok2 s2"
      using add_offload_link_added [OF w1 Cons.prems(2) n1(2,1)] ab by metis
    define s3 where "s3 = (if ok2 then s2\<lparr>num_offload_pair := num_offload_pair s2 + 1\<rparr> else s2)"
    have w3: "sound K s3" and fr3: "frame K s s3" and op3: "op_failed s3 = op_failed s2"
      using 2(2) frame_trans [OF fr1] by (simp_all add: s3_def link_added_def)
    have i1: "\<not> idle x" if "skel s a = Some x" for x using that Cons.prems(3,4) by (simp add: idle_def)
    have i2: "\<not> idle x" if "skel s ?b = Some x" for x using that True b by (auto simp: idle_def skel_def)
    have pd: "paired s3" if "paired s" "\<not> op_failed s3"
      unfolding s3_def by (rule pair_added(2) [OF Cons.prems(1) that(1) ab _ _ i1 i2 1(2) 2(2)])
        (use a b that op3 in auto)
    have run: "check_potential_loop K ip a (p # ps) s = check_potential_loop K ip a ps s3"
      using True b 1(1) 2(1) by (simp add: s3_def)
    have "skel s3 a = Some c" "\<forall>p \<in> set ps. nodes s3 (peer_id p) \<noteq> None \<and> peer_id p \<noteq> a"
      using Cons.prems frame_nodes [OF fr3] frame_skel [OF fr3] by auto
    from Cons.IH [OF w3 Cons.prems(2) this(1) Cons.prems(4) this(2)] obtain s'
      where r: "check_potential_loop K ip a ps s3 = Some s'" "sound K s'" "frame K s3 s'" "paired s3 \<and> \<not> op_failed s' \<longrightarrow> paired s'"
      by blast
    have "\<not> op_failed s' \<longrightarrow> \<not> op_failed s3" using frame_mono [OF r(3)] by blast
    with r pd frame_trans [OF fr3 r(3)] show ?thesis unfolding run by blast
  qed
qed

lemma check_potential_sound:
  assumes s: "sound K s" and fit: "eth_hdrs_fit K" and a: "skel s a = Some c" "is_active c"
  shows "\<exists>s'. check_potential_link K ip a s = Some s' \<and> sound K s' \<and> frame K s s' \<and> (paired s \<and> \<not> op_failed s' \<longrightarrow> paired s')"
proof -
  obtain ca where ca: "nodes s a = Some ca" using a(1) by (auto simp: skel_def)
  have "\<forall>p \<in> set (peer_list ca). nodes s (peer_id p) \<noteq> None \<and> peer_id p \<noteq> a" using wf_peerD [OF s ca] by blast
  from check_potential_loop_sound [OF s fit a this, of ip] show ?thesis by (simp add: check_potential_link_def ca)
qed

lemma erase_one_link_sound:
  assumes s: "sound K s" and n: "nodes s a = Some c" "nodes s b = Some p"
  shows "\<exists>ok s'. erase_one_link K ip a b s = Some (ok, s') \<and> sound K s' \<and> frame K s s' \<and> num_offload_pair s' = num_offload_pair s
     \<and> links s' = (links s)(a := links s a - {#b#}) \<and> (ok \<longrightarrow> b \<in># links s a) \<and> (\<not> op_failed s' \<and> b \<in># links s a \<longrightarrow> ok)"
proof (cases "find (\<lambda>l. link_peer l = b) (link_list c)")
  case None
  then have "b \<notin># links s a" by (simp add: find_None_count node_views [OF n(1)] count_eq_zero_iff)
  with None n s show ?thesis by (auto simp: erase_one_link_def diff_single_trivial)
next
  case (Some l)
  then have mem: "b \<in># links s a"
    using find_None_count [of b "link_list c"] by (simp add: node_views [OF n(1)] count_eq_zero_iff)
  obtain ok s1 where 1: "del_offload_link K ip (p_iface c) (p_iface p) l s = (ok, s1)" by fastforce
  then have c1: "calm K s s1" and f1: "\<not> ok \<longrightarrow> op_failed s1" using del_offload_link_calm by blast+
  note e = link_erased [OF s n(1) c1, of b]
  show ?thesis
    using e f1 mem Some n 1 calm_num [OF c1] by (auto simp: erase_one_link_def)
qed

lemma erase_offload_sound:
  assumes s: "sound K s" and n: "nodes s a \<noteq> None" "nodes s b \<noteq> None" and ab: "a \<noteq> b"
  shows "\<exists>s'. erase_offload_link K ip a b s = Some s' \<and> sound K s' \<and> frame K s s'
     \<and> (paired s \<and> \<not> op_failed s' \<longrightarrow> paired s' \<and> links s' = (links s)(a := links s a - {#b#}, b := links s b - {#a#}))"
proof -
  obtain ca cb where n': "nodes s a = Some ca" "nodes s b = Some cb" using n by blast
  obtain ok1 s1 where 1: "erase_one_link K ip a b s = Some (ok1, s1)" "sound K s1" "frame K s s1"
    "num_offload_pair s1 = num_offload_pair s" "links s1 = (links s)(a := links s a - {#b#})"
    "ok1 \<longrightarrow> b \<in># links s a" "\<not> op_failed s1 \<and> b \<in># links s a \<longrightarrow> ok1"
    using erase_one_link_sound [OF s n'] by blast
  obtain ca1 cb1 where n1: "nodes s1 a = Some ca1" "nodes s1 b = Some cb1"
    using frame_nodes [OF 1(3)] n by (meson not_None_eq)
  obtain ok2 s2 where 2: "erase_one_link K ip b a s1 = Some (ok2, s2)" "sound K s2" "frame K s1 s2"
    "num_offload_pair s2 = num_offload_pair s1" "links s2 = (links s1)(b := links s1 b - {#a#})"
    "ok2 \<longrightarrow> a \<in># links s1 b" "\<not> op_failed s2 \<and> a \<in># links s1 b \<longrightarrow> ok2"
    using erase_one_link_sound [OF 1(2) n1(2,1)] by blast
  define s3 where "s3 = (if ok1 \<and> ok2 then s2\<lparr>num_offload_pair := num_offload_pair s2 - 1\<rparr> else s2)"
  have run: "erase_offload_link K ip a b s = Some s3" using 1(1) 2(1) by (simp add: erase_offload_link_def s3_def)
  have w3: "sound K s3" using 2(2) by (simp add: s3_def)
  have fr3: "frame K s s3" using frame_trans [OF 1(3) 2(3)] by (simp add: s3_def)
  have l3: "links s3 = (links s)(a := links s a - {#b#}, b := links s b - {#a#})"
    using ab 2(5) 1(5) by (auto simp: s3_def)
  have "paired s3" if p: "paired s" and nf: "\<not> op_failed s3"
  proof -
    note P = pairedD [OF p] and S = soundD [OF s]
    have nf2: "\<not> op_failed s2" using nf by (simp add: s3_def split: if_splits)
    then have nf1: "\<not> op_failed s1" using frame_mono [OF 2(3)] by blast
    have iff: "b \<in># links s a \<longleftrightarrow> a \<in># links s b" using P(1) [of a b] by (metis count_eq_zero_iff)
    have mem: "a \<in># links s1 b \<longleftrightarrow> a \<in># links s b" using ab by (simp add: 1(5))
    have oks: "ok1 = (b \<in># links s a)" "ok2 = (b \<in># links s a)"
      using 1(6,7) 2(6,7) nf1 nf2 iff mem by blast+
    have sk: "skel s3 = skel s" "next_node s3 = next_node s" using fr3 by (simp_all add: frame_def)
    show ?thesis
    proof (cases "b \<in># links s a")
      case False
      then have "links s3 = links s" using l3 iff by (simp add: diff_single_trivial)
      moreover have "num_offload_pair s3 = num_offload_pair s" using False oks 1(4) 2(4) by (simp add: s3_def)
      ultimately show ?thesis using p sk by (simp add: paired_def)
    next
      case True
      then have sz: "size (links s a - {#b#}) + 1 = size (links s a)" "size (links s b - {#a#}) + 1 = size (links s b)"
        using iff insert_DiffM [of b "links s a"] insert_DiffM [of a "links s b"]
        by (metis Suc_eq_plus1 size_add_mset)+
      have "(\<Sum>x<next_node s. size (links s3 x)) + 2 = (\<Sum>x<next_node s. size (links s x))"
        unfolding l3
        using total_two [OF S(5) [OF n(1)] S(5) [OF n(2)] ab, of "links s" "links s a - {#b#}" "links s b - {#a#}"] sz
        by linarith
      moreover from this P(3) have "unat (num_offload_pair s) \<ge> 1" by simp
      then have "unat (num_offload_pair s - 1) = unat (num_offload_pair s) - 1"
        using unat_minus_of_nat [of 1 "num_offload_pair s"] by simp
      moreover have "num_offload_pair s3 = num_offload_pair s - 1" using True oks 1(4) 2(4) by (simp add: s3_def)
      ultimately show ?thesis
        using P(1,3,4) P(2) ab sk unfolding paired_def l3 by (auto simp: diff_single_trivial)
    qed
  qed
  with run w3 fr3 l3 show ?thesis by blast
qed

end
