(* ===== verification/Ipacm_L2L_Run.thy ===== *)
theory Ipacm_L2L_Run
  imports Ipacm_L2L_Inv
begin

text \<open>
  The peers, the handlers and whole runs of \<^verbatim>\<open>IPACM_LanToLan.cpp\<close>: every event is defined on a
  consistent state and leaves a consistent state unless an operation of an interface fails.
\<close>

section \<open>Lists of peers\<close>

abbreviation kv :: "peer_info \<Rightarrow> nat \<times> int" where "kv \<equiv> \<lambda>p. (peer_id p, num_connection p)"

lemma erase_first_subset: "x \<in> set (erase_first P xs) \<Longrightarrow> x \<in> set xs"
  by (induction xs) (auto split: if_splits)

lemma distinct_erase_first: "distinct (map f xs) \<Longrightarrow> distinct (map f (erase_first P xs))"
  by (induction xs) (auto dest: erase_first_subset)

lemma map_of_erase_first:
  "distinct (map peer_id xs) \<Longrightarrow> map_of (map kv (erase_first (\<lambda>p. peer_id p = b) xs)) = (map_of (map kv xs))(b := None)"
  by (induction xs) (auto simp: fun_eq_iff map_of_eq_None_iff image_iff)

lemma map_of_find_idx:
  "map_of (map kv xs) b = (let j = find_idx (\<lambda>p. peer_id p = b) xs in if j < length xs then Some (num_connection (xs ! j)) else None)"
  by (induction xs) (auto simp: Let_def)

lemma map_of_set_count:
  "find_idx (\<lambda>p. peer_id p = b) xs < length xs \<Longrightarrow>
   map_of (map kv (xs[find_idx (\<lambda>p. peer_id p = b) xs := (xs ! find_idx (\<lambda>p. peer_id p = b) xs)\<lparr>num_connection := n\<rparr>]))
     = (map_of (map kv xs))(b \<mapsto> n)"
  by (induction xs) (auto simp: fun_eq_iff)

lemma ids_set_count: "j < length xs \<Longrightarrow> map peer_id (xs[j := (xs ! j)\<lparr>num_connection := n\<rparr>]) = map peer_id xs"
  by (simp add: map_update list_eq_iff_nth_eq nth_list_update)

lemma map_of_kv_append:
  "map_of (map kv xs) b = None \<Longrightarrow> map_of (map kv (xs @ [\<lparr>peer_id = b, num_connection = n\<rparr>])) = (map_of (map kv xs))(b \<mapsto> n)"
  by (auto simp: fun_eq_iff map_add_def split: option.splits)

lemma find_peer_None: "find (\<lambda>p. peer_id p = b) xs = None \<longleftrightarrow> map_of (map kv xs) b = None"
  by (induction xs) auto

lemma kv_None: "map_of (map kv xs) b = None \<longleftrightarrow> b \<notin> peer_id ` set xs"
  by (induction xs) auto

text \<open>What the operations on peers leave alone.\<close>

definition same_links :: "'k lan2lan \<Rightarrow> 'k lan2lan \<Rightarrow> bool" where
  "same_links s s' \<longleftrightarrow> client_tab s' = client_tab s \<and> next_node s' = next_node s \<and> skel s' = skel s \<and> links s' = links s
     \<and> num_offload_pair s' = num_offload_pair s \<and> ifaces s' = ifaces s \<and> op_failed s' = op_failed s"

lemma same_links_refl [simp]: "same_links s s"
  by (simp add: same_links_def)

lemma same_links_trans: "\<lbrakk>same_links s s1; same_links s1 s2\<rbrakk> \<Longrightarrow> same_links s s2"
  by (simp add: same_links_def)

lemma same_links_nodes: "same_links s s' \<Longrightarrow> nodes s' a = None \<longleftrightarrow> nodes s a = None"
  by (rule skel_eq_nodes) (simp add: same_links_def)

lemma put_peers:
  assumes "nodes s a = Some c"
  shows "same_links s (put a (c\<lparr>peer_list := ps\<rparr>) s)"
proof -
  have "skel (put a (c\<lparr>peer_list := ps\<rparr>) s) = skel s" "links (put a (c\<lparr>peer_list := ps\<rparr>) s) = links s"
    by (simp_all add: node_views [OF assms, symmetric] fun_upd_idem_iff) (simp add: node_views [OF assms])+
  then show ?thesis by (simp add: same_links_def)
qed

lemma put_peers_effect:
  assumes "\<And>x. peers_distinct s x" "nodes s a = Some c" "distinct (map peer_id ps)" "map_of (map kv ps) = P"
  shows "same_links s (put a (c\<lparr>peer_list := ps\<rparr>) s) \<and> (\<forall>x. peers_distinct (put a (c\<lparr>peer_list := ps\<rparr>) s) x)
     \<and> peers (put a (c\<lparr>peer_list := ps\<rparr>) s) = (peers s)(a := P)"
  using assms put_peers [OF assms(2)] by simp

lemma sound_peers:
  assumes "sound K s" "same_links s s'" "\<And>x. peers_distinct s' x" "\<And>x. peers s' x x = None"
    "\<And>x y. peers s' x y = peers s' y x" "\<And>x y n. peers s' x y = Some n \<Longrightarrow> n > 0"
  shows "sound K s'"
  using assms skel_eq_nodes [of s' s] skel_eq_dom [of s' s] by (simp add: sound_def same_links_def)

lemma paired_peers: "same_links s s' \<Longrightarrow> paired s' = paired s"
  by (simp add: paired_def same_links_def)

lemma soundD_peers:
  assumes "sound K s"
  shows "\<And>x. peers_distinct s x" "\<And>x. peers s x x = None" "\<And>x y. peers s x y = peers s y x"
    "\<And>x y n. peers s x y = Some n \<Longrightarrow> n > 0"
  using assms unfolding sound_def by blast+

section \<open>The operations on peers\<close>

lemma count_up_effect:
  assumes d: "\<And>x. peers_distinct s x" and a: "nodes s a = Some c"
  shows "\<exists>s'. count_up a b s = Some (peers s a b = None, s') \<and> same_links s s' \<and> (\<forall>x. peers_distinct s' x)
     \<and> peers s' = (peers s)(a := (peers s a)(b \<mapsto> (case peers s a b of None \<Rightarrow> 1 | Some n \<Rightarrow> n + 1)))"
proof (cases "find_idx (\<lambda>p. peer_id p = b) (peer_list c) < length (peer_list c)")
  case True
  let ?j = "find_idx (\<lambda>p. peer_id p = b) (peer_list c)"
  let ?ps = "(peer_list c)[?j := (peer_list c ! ?j)\<lparr>num_connection := num_connection (peer_list c ! ?j) + 1\<rparr>]"
  have old: "peers s a b = Some (num_connection (peer_list c ! ?j))"
    using True by (simp add: node_views [OF a] map_of_find_idx)
  have "distinct (map peer_id ?ps)" unfolding ids_set_count [OF True] using d [of a] by (simp add: node_views [OF a])
  moreover have "map_of (map kv ?ps) = (peers s a)(b \<mapsto> num_connection (peer_list c ! ?j) + 1)"
    unfolding map_of_set_count [OF True] by (simp add: node_views [OF a])
  ultimately have "same_links s (put a (c\<lparr>peer_list := ?ps\<rparr>) s) \<and> (\<forall>x. peers_distinct (put a (c\<lparr>peer_list := ?ps\<rparr>) s) x)
     \<and> peers (put a (c\<lparr>peer_list := ?ps\<rparr>) s) = (peers s)(a := (peers s a)(b \<mapsto> num_connection (peer_list c ! ?j) + 1))"
    by (rule put_peers_effect [OF d a])
  moreover have "count_up a b s = Some (False, put a (c\<lparr>peer_list := ?ps\<rparr>) s)" using True a by (simp add: count_up_def Let_def)
  ultimately show ?thesis using old by auto
next
  case False
  let ?ps = "peer_list c @ [\<lparr>peer_id = b, num_connection = 1\<rparr>]"
  have new: "map_of (map kv (peer_list c)) b = None" using False by (simp add: map_of_find_idx)
  then have "distinct (map peer_id ?ps)"
    using d [of a] by (auto simp: node_views [OF a] kv_None)
  moreover have "map_of (map kv ?ps) = (peers s a)(b \<mapsto> 1)"
    unfolding map_of_kv_append [OF new] by (simp add: node_views [OF a])
  moreover have "peers s a b = None" using new by (simp add: node_views [OF a])
  moreover have "same_links s (put a (c\<lparr>peer_list := ?ps\<rparr>) s) \<and> (\<forall>x. peers_distinct (put a (c\<lparr>peer_list := ?ps\<rparr>) s) x)
     \<and> peers (put a (c\<lparr>peer_list := ?ps\<rparr>) s) = (peers s)(a := (peers s a)(b \<mapsto> 1))"
    by (rule put_peers_effect [OF d a]) fact+
  moreover have "count_up a b s = Some (True, put a (c\<lparr>peer_list := ?ps\<rparr>) s)" using False a by (simp add: count_up_def Let_def)
  ultimately show ?thesis by auto
qed

lemma count_down_effect:
  assumes d: "\<And>x. peers_distinct s x" and a: "nodes s a = Some c"
  shows "\<exists>s'. count_down a b s = Some (peers s a b = Some 1, s') \<and> same_links s s' \<and> (\<forall>x. peers_distinct s' x)
     \<and> peers s' = (peers s)(a := (peers s a)(b := (case peers s a b of None \<Rightarrow> None
          | Some n \<Rightarrow> if n = 1 then None else Some (n - 1))))"
proof (cases "find_idx (\<lambda>p. peer_id p = b) (peer_list c) < length (peer_list c)")
  case True
  let ?j = "find_idx (\<lambda>p. peer_id p = b) (peer_list c)"
  let ?n = "num_connection (peer_list c ! ?j)"
  have old: "peers s a b = Some ?n" using True by (simp add: node_views [OF a] map_of_find_idx)
  show ?thesis
  proof (cases "?n = 1")
    case one: True
    let ?ps = "erase_first (\<lambda>p. peer_id p = b) (peer_list c)"
    have dc: "distinct (map peer_id (peer_list c))" using d [of a] by (simp add: node_views [OF a])
    have "map_of (map kv ?ps) = (peers s a)(b := None)"
      unfolding map_of_erase_first [OF dc] by (simp add: node_views [OF a])
    then have "same_links s (put a (c\<lparr>peer_list := ?ps\<rparr>) s) \<and> (\<forall>x. peers_distinct (put a (c\<lparr>peer_list := ?ps\<rparr>) s) x)
       \<and> peers (put a (c\<lparr>peer_list := ?ps\<rparr>) s) = (peers s)(a := (peers s a)(b := None))"
      by (rule put_peers_effect [OF d a distinct_erase_first [OF dc]])
    moreover have "count_down a b s = Some (True, put a (c\<lparr>peer_list := ?ps\<rparr>) s)"
      using True one a by (simp add: count_down_def Let_def)
    ultimately show ?thesis using old one by auto
  next
    case False
    let ?ps = "(peer_list c)[?j := (peer_list c ! ?j)\<lparr>num_connection := ?n - 1\<rparr>]"
    have "distinct (map peer_id ?ps)" unfolding ids_set_count [OF True] using d [of a] by (simp add: node_views [OF a])
    moreover have "map_of (map kv ?ps) = (peers s a)(b \<mapsto> ?n - 1)"
      unfolding map_of_set_count [OF True] by (simp add: node_views [OF a])
    ultimately have "same_links s (put a (c\<lparr>peer_list := ?ps\<rparr>) s) \<and> (\<forall>x. peers_distinct (put a (c\<lparr>peer_list := ?ps\<rparr>) s) x)
       \<and> peers (put a (c\<lparr>peer_list := ?ps\<rparr>) s) = (peers s)(a := (peers s a)(b \<mapsto> ?n - 1))"
      by (rule put_peers_effect [OF d a])
    moreover have "count_down a b s = Some (False, put a (c\<lparr>peer_list := ?ps\<rparr>) s)"
      using True False a by (simp add: count_down_def Let_def)
    ultimately show ?thesis using old False by auto
  qed
next
  case False
  then have "peers s a b = None" by (simp add: node_views [OF a] map_of_find_idx)
  then show ?thesis using False a d by (auto simp: count_down_def fun_upd_idem)
qed

lemma add_connection_sound:
  assumes s: "sound K s" and n: "nodes s a = Some ca" "nodes s b = Some cb" and ab: "a \<noteq> b"
  shows "\<exists>s'. add_connection a b s = Some (peers s a b = None, s') \<and> sound K s' \<and> same_links s s'
     \<and> peers s' a b = Some (case peers s a b of None \<Rightarrow> 1 | Some n \<Rightarrow> n + 1)
     \<and> (\<forall>x y. {x, y} \<noteq> {a, b} \<longrightarrow> peers s' x y = peers s x y)"
proof -
  note D = soundD_peers [OF s]
  let ?n = "case peers s a b of None \<Rightarrow> 1 | Some n \<Rightarrow> n + 1"
  obtain s1 where 1: "count_up a b s = Some (peers s a b = None, s1)" "same_links s s1" "\<forall>x. peers_distinct s1 x"
    "peers s1 = (peers s)(a := (peers s a)(b \<mapsto> ?n))"
    using count_up_effect [OF D(1) n(1), of b] by blast
  obtain cb1 where b1: "nodes s1 b = Some cb1" using same_links_nodes [OF 1(2), of b] n(2) by auto
  have b_a: "peers s1 b a = peers s a b" using ab D(3) by (simp add: 1(4))
  obtain s2 where 2: "count_up b a s1 = Some (peers s a b = None, s2)" "same_links s1 s2" "\<forall>x. peers_distinct s2 x"
    "peers s2 = (peers s1)(b := (peers s1 b)(a \<mapsto> ?n))"
    using count_up_effect [OF _ b1, of a] 1(3) unfolding b_a by blast
  have l: "same_links s s2" by (rule same_links_trans [OF 1(2) 2(2)])
  have p: "peers s2 x y = (if {x, y} = {a, b} then Some ?n else peers s x y)" for x y
    using ab by (auto simp: 2(4) 1(4) doubleton_eq_iff)
  have "?n > 0" using D(4) [of a b] by (auto split: option.splits)
  then have "sound K s2"
    using D ab 2(3) by (intro sound_peers [OF s l]) (auto simp: p insert_commute split: if_splits)
  then show ?thesis using 1(1) 2(1) l p by (simp add: add_connection_def)
qed

lemma remove_connection_sound:
  assumes s: "sound K s" and n: "nodes s a = Some ca" "nodes s b = Some cb" and ab: "a \<noteq> b"
  shows "\<exists>s'. remove_connection a b s = Some (peers s a b = Some 1, s') \<and> sound K s' \<and> same_links s s'
     \<and> peers s' a b = (case peers s a b of None \<Rightarrow> None | Some n \<Rightarrow> if n = 1 then None else Some (n - 1))
     \<and> (\<forall>x y. {x, y} \<noteq> {a, b} \<longrightarrow> peers s' x y = peers s x y)"
proof -
  note D = soundD_peers [OF s]
  let ?n = "case peers s a b of None \<Rightarrow> None | Some n \<Rightarrow> if n = 1 then None else Some (n - 1)"
  obtain s1 where 1: "count_down a b s = Some (peers s a b = Some 1, s1)" "same_links s s1" "\<forall>x. peers_distinct s1 x"
    "peers s1 = (peers s)(a := (peers s a)(b := ?n))"
    using count_down_effect [OF D(1) n(1), of b] by blast
  obtain cb1 where b1: "nodes s1 b = Some cb1" using same_links_nodes [OF 1(2), of b] n(2) by auto
  have b_a: "peers s1 b a = peers s a b" using ab D(3) by (simp add: 1(4))
  obtain s2 where 2: "count_down b a s1 = Some (peers s a b = Some 1, s2)" "same_links s1 s2" "\<forall>x. peers_distinct s2 x"
    "peers s2 = (peers s1)(b := (peers s1 b)(a := ?n))"
    using count_down_effect [OF _ b1, of a] 1(3) unfolding b_a by blast
  have l: "same_links s s2" by (rule same_links_trans [OF 1(2) 2(2)])
  have p: "peers s2 x y = (if {x, y} = {a, b} then ?n else peers s x y)" for x y
    using ab by (auto simp: 2(4) 1(4) doubleton_eq_iff)
  have "m > 0" if "?n = Some m" for m using that D(4) [of a b] by (auto split: option.splits if_splits)
  then have "sound K s2"
    using D ab 2(3) by (intro sound_peers [OF s l]) (auto simp: p insert_commute split: if_splits)
  then show ?thesis using 1(1) 2(1) l p by (simp add: remove_connection_def)
qed

lemma clear_peer_loop_effect:
  assumes "\<And>x. peers_distinct s x" "distinct (map peer_id ps)"
    "\<And>p. p \<in> set ps \<Longrightarrow> nodes s (peer_id p) \<noteq> None \<and> peer_id p \<noteq> a \<and> peers s (peer_id p) a \<noteq> None"
  shows "\<exists>s'. clear_peer_loop a ps s = Some (True, s') \<and> same_links s s' \<and> (\<forall>x. peers_distinct s' x)
     \<and> peers s' = (\<lambda>x. if x \<in> peer_id ` set ps then (peers s x)(a := None) else peers s x)"
  using assms
proof (induction ps arbitrary: s)
  case Nil
  then show ?case by auto
next
  case (Cons p ps)
  let ?b = "peer_id p"
  obtain pc where b: "nodes s ?b = Some pc" and ab: "?b \<noteq> a" and pa: "peers s ?b a \<noteq> None"
    using Cons.prems(3) [of p] by auto
  let ?ps = "erase_first (\<lambda>q. peer_id q = a) (peer_list pc)"
  define s1 where "s1 = put ?b (pc\<lparr>peer_list := ?ps\<rparr>) s"
  have dc: "distinct (map peer_id (peer_list pc))" using Cons.prems(1) [of ?b] by (simp add: node_views [OF b])
  have l1: "same_links s s1" unfolding s1_def by (rule put_peers [OF b])
  have p1: "peers s1 = (peers s)(?b := (peers s ?b)(a := None))"
    using map_of_erase_first [OF dc] by (simp add: s1_def node_views [OF b])
  have d1: "peers_distinct s1 x" for x using Cons.prems(1) distinct_erase_first [OF dc] by (simp add: s1_def)
  have fn: "find (\<lambda>q. peer_id q = a) (peer_list pc) \<noteq> None"
    using pa unfolding node_views [OF b] find_peer_None .
  have run: "clear_peer_loop a (p # ps) s = clear_peer_loop a ps s1"
    using b ab fn by (auto simp: s1_def)
  have "nodes s1 (peer_id q) \<noteq> None \<and> peer_id q \<noteq> a \<and> peers s1 (peer_id q) a \<noteq> None" if "q \<in> set ps" for q
  proof -
    have "peer_id q \<noteq> ?b" using Cons.prems(2) that by (metis distinct.simps(2) image_eqI list.simps(9) list.set_map)
    then show ?thesis using Cons.prems(3) [of q] that same_links_nodes [OF l1, of "peer_id q"] by (simp add: p1)
  qed
  from Cons.IH [OF d1 _ this] Cons.prems(2) obtain s2 where 2: "clear_peer_loop a ps s1 = Some (True, s2)" "same_links s1 s2"
    "\<forall>x. peers_distinct s2 x" "peers s2 = (\<lambda>x. if x \<in> peer_id ` set ps then (peers s1 x)(a := None) else peers s1 x)"
    by auto
  have "peers s2 = (\<lambda>x. if x \<in> peer_id ` set (p # ps) then (peers s x)(a := None) else peers s x)"
    by (auto simp: 2(4) p1 fun_eq_iff)
  with 2 same_links_trans [OF l1 2(2)] show ?case unfolding run by blast
qed

lemma clear_peer_sound:
  assumes s: "sound K s" and a: "nodes s a = Some c"
  shows "\<exists>s'. clear_peer_list a s = Some (True, s') \<and> sound K s' \<and> same_links s s'
     \<and> (\<forall>x y. peers s' x y = (if x = a \<or> y = a then None else peers s x y))"
proof -
  note D = soundD_peers [OF s]
  have dc: "distinct (map peer_id (peer_list c))" using D(1) [of a] by (simp add: node_views [OF a])
  have "nodes s (peer_id p) \<noteq> None \<and> peer_id p \<noteq> a \<and> peers s (peer_id p) a \<noteq> None" if "p \<in> set (peer_list c)" for p
    using wf_peerD [OF s a that] by simp
  from clear_peer_loop_effect [OF D(1) dc this] obtain s1
    where 1: "clear_peer_loop a (peer_list c) s = Some (True, s1)" "same_links s s1" "\<forall>x. peers_distinct s1 x"
    "peers s1 = (\<lambda>x. if x \<in> peer_id ` set (peer_list c) then (peers s x)(a := None) else peers s x)" by blast
  obtain c1 where c1: "nodes s1 a = Some c1" using same_links_nodes [OF 1(2), of a] a by auto
  define s2 where "s2 = put a (c1\<lparr>peer_list := []\<rparr>) s1"
  have l: "same_links s s2" unfolding s2_def by (rule same_links_trans [OF 1(2) put_peers [OF c1]])
  have mem: "peers s x a \<noteq> None \<longleftrightarrow> x \<in> peer_id ` set (peer_list c)" for x
    using D(3) [of x a] by (metis kv_None node_views(3) [OF a])
  have p: "peers s2 x y = (if x = a \<or> y = a then None else peers s x y)" for x y
    using mem [of x] by (auto simp: s2_def 1(4))
  have d2: "peers_distinct s2 x" for x using 1(3) by (simp add: s2_def)
  have "sound K s2" using D d2 by (intro sound_peers [OF s l]) (auto simp: p split: if_splits)
  moreover have "clear_peer_list a s = Some (True, s2)" using 1(1) a c1 by (simp add: clear_peer_list_def s2_def)
  ultimately show ?thesis using l p by blast
qed

section \<open>Filtering rules and posted connections\<close>

lemma remove_flt_loop_calm:
  assumes "nodes s a \<noteq> None" "\<forall>l \<in> set ls. nodes s (link_peer l) \<noteq> None"
  shows "\<exists>ok s'. remove_flt_loop K ip a ls s = Some (ok, s') \<and> calm K s s'"
  using assms
proof (induction ls arbitrary: s)
  case Nil
  then show ?case by auto
next
  case (Cons l ls)
  then obtain c p where a: "nodes s a = Some c" and b: "nodes s (link_peer l) = Some p" by auto
  define s1 where "s1 = snd (call_del_flt K ip (p_iface c) (link_flt_hdl l) s)"
  have c1: "calm K s s1" unfolding s1_def by (rule snd_call_calm)
  have b1: "nodes s1 (link_peer l) = Some p" using calm_nodes [OF c1] b by simp
  show ?case
  proof (cases "find (\<lambda>l'. link_peer l' = a) (link_list p)")
    case None
    then show ?thesis using a b1 c1 by (auto simp: s1_def)
  next
    case (Some l')
    define s2 where "s2 = snd (call_del_flt K ip (p_iface p) (link_flt_hdl l') s1)"
    have c2: "calm K s s2" unfolding s2_def by (rule calm_trans [OF c1 snd_call_calm(3)])
    have "remove_flt_loop K ip a (l # ls) s = remove_flt_loop K ip a ls s2"
      using a b1 Some by (simp add: s1_def s2_def)
    moreover obtain ok s' where "remove_flt_loop K ip a ls s2 = Some (ok, s')" "calm K s2 s'"
      using Cons.IH [of s2] Cons.prems calm_nodes [OF c2] by auto
    ultimately show ?thesis using calm_trans [OF c2] by auto
  qed
qed

lemma remove_flt_calm:
  assumes s: "sound K s" and a: "nodes s a \<noteq> None"
  shows "\<exists>ok s'. remove_flt_rules K ip a s = Some (ok, s') \<and> calm K s s'"
proof -
  obtain c where c: "nodes s a = Some c" using a by blast
  have "\<forall>l \<in> set (link_list c). nodes s (link_peer l) \<noteq> None" using wf_linkD [OF s c] by blast
  from remove_flt_loop_calm [OF a this, of K ip] show ?thesis by (simp add: remove_flt_rules_def c)
qed

text \<open>Rewriting the filtering handle of one link.\<close>

definition same_graph :: "'k ipa_kernel \<Rightarrow> 'k lan2lan \<Rightarrow> 'k lan2lan \<Rightarrow> bool" where
  "same_graph K s s' \<longleftrightarrow> frame K s s' \<and> links s' = links s \<and> num_offload_pair s' = num_offload_pair s
     \<and> (\<forall>x. map_option (\<lambda>c. map link_peer (link_list c)) (nodes s' x) = map_option (\<lambda>c. map link_peer (link_list c)) (nodes s x))"

lemma same_graph_trans: "\<lbrakk>same_graph K s s1; same_graph K s1 s2\<rbrakk> \<Longrightarrow> same_graph K s s2"
  unfolding same_graph_def using frame_trans by metis

lemma same_graph_calm: "calm K s s' \<Longrightarrow> same_graph K s s'"
  by (auto simp: same_graph_def calm_frame calm_links calm_num calm_nodes)

lemma sound_same_graph: "\<lbrakk>sound K s; same_graph K s s'\<rbrakk> \<Longrightarrow> sound K s'"
  by (rule wf_frame) (auto simp: same_graph_def dest: soundD(1,2))

lemma paired_same_graph: "same_graph K s s' \<Longrightarrow> paired s' = paired s"
  by (simp add: same_graph_def paired_def frame_def)

lemma put_flt_hdl:
  assumes "nodes s a = Some c" "j < length (link_list c)"
  shows "same_graph K s (put a (c\<lparr>link_list := (link_list c)[j := (link_list c ! j)\<lparr>link_flt_hdl := h\<rparr>]\<rparr>) s)"
proof -
  let ?ls = "(link_list c)[j := (link_list c ! j)\<lparr>link_flt_hdl := h\<rparr>]"
  have m: "map link_peer ?ls = map link_peer (link_list c)"
    using assms(2) by (simp add: map_update list_eq_iff_nth_eq nth_list_update)
  have f: "frame K s (put a (c\<lparr>link_list := ?ls\<rparr>) s)" by (rule put_links_frame [OF assms(1)]) simp_all
  have "links (put a (c\<lparr>link_list := ?ls\<rparr>) s) = (links s)(a := mset (map link_peer ?ls))" by simp
  also have "\<dots> = links s" unfolding m by (simp only: node_views(2) [OF assms(1), symmetric] fun_upd_triv)
  finally show ?thesis using f m assms(1) by (simp add: same_graph_def)
qed

lemma same_graph_node:
  assumes "same_graph K s s'" "nodes s a = Some c"
  shows "\<exists>c'. nodes s' a = Some c' \<and> map link_peer (link_list c') = map link_peer (link_list c)"
  using assms by (auto simp: same_graph_def dest!: spec [where x = a])

lemma add_flt_loop_sound:
  assumes "sound K s" "nodes s a = Some c" "\<forall>j \<in> set js. j < length (link_list c)"
  shows "\<exists>ok s'. add_flt_loop K ip a js s = Some (ok, s') \<and> same_graph K s s'"
  using assms
proof (induction js arbitrary: s c)
  case Nil
  then show ?case by (auto simp: same_graph_calm)
next
  case (Cons j js)
  note a = Cons.prems(2)
  let ?b = "link_peer (link_list c ! j)"
  have j: "j < length (link_list c)" using Cons.prems(3) by simp
  then have "nodes s ?b \<noteq> None" using wf_linkD [OF Cons.prems(1) a, of "link_list c ! j"] by simp
  then obtain p where b: "nodes s ?b = Some p" by blast
  obtain r s1 where 1: "call_add_flt K ip (p_iface c) (ip_addr c) (ip_addr p) s = (r, s1)" by fastforce
  then have c1: "calm K s s1" using call_calm(4) by blast
  show ?case
  proof (cases r)
    case None
    then show ?thesis using a b 1 same_graph_calm [OF c1] by (auto simp: Let_def)
  next
    case (Some h)
    define s2 where "s2 = put a (c\<lparr>link_list := (link_list c)[j := (link_list c ! j)\<lparr>link_flt_hdl := h\<rparr>]\<rparr>) s1"
    have g2: "same_graph K s s2" unfolding s2_def
      by (rule same_graph_trans [OF same_graph_calm [OF c1] put_flt_hdl]) (simp_all add: calm_nodes [OF c1] a j)
    obtain q where q: "nodes s2 ?b = Some q" using same_graph_node [OF g2 b] by blast
    let ?j = "find_idx (\<lambda>l. link_peer l = a) (link_list q)"
    show ?thesis
    proof (cases "?j \<ge> length (link_list q)")
      case True
      then show ?thesis using a b 1 Some q g2 by (auto simp: Let_def s2_def)
    next
      case False
      obtain r' s3 where 3: "call_add_flt K ip (p_iface q) (ip_addr q) (ip_addr c) s2 = (r', s3)" by fastforce
      then have c3: "calm K s2 s3" using call_calm(4) by blast
      show ?thesis
      proof (cases r')
        case None
        then show ?thesis using a b 1 Some q 3 False same_graph_trans [OF g2 same_graph_calm [OF c3]]
          by (auto simp: Let_def s2_def)
      next
        case r': (Some h')
        define s4 where "s4 = put ?b (q\<lparr>link_list := (link_list q)[?j := (link_list q ! ?j)\<lparr>link_flt_hdl := h'\<rparr>]\<rparr>) s3"
        have g4: "same_graph K s s4" unfolding s4_def
          by (rule same_graph_trans [OF g2 same_graph_trans [OF same_graph_calm [OF c3] put_flt_hdl]])
            (use False in \<open>simp_all add: calm_nodes [OF c3] q\<close>)
        have run: "add_flt_loop K ip a (j # js) s = add_flt_loop K ip a js s4"
          using a b 1 Some q 3 False r' by (simp add: Let_def s2_def s4_def)
        obtain c4 where c4: "nodes s4 a = Some c4" "length (link_list c4) = length (link_list c)"
          using same_graph_node [OF g4 a] by (metis length_map)
        have "\<forall>j \<in> set js. j < length (link_list c4)" using Cons.prems(3) c4(2) by simp
        from Cons.IH [OF sound_same_graph [OF Cons.prems(1) g4] c4(1) this] show ?thesis
          unfolding run using same_graph_trans [OF g4] by blast
      qed
    qed
  qed
qed

lemma add_flt_sound:
  assumes s: "sound K s" and a: "nodes s a \<noteq> None"
  shows "\<exists>ok s'. add_flt_rules K ip a s = Some (ok, s') \<and> same_graph K s s'"
proof -
  obtain c where c: "nodes s a = Some c" using a by blast
  from add_flt_loop_sound [OF s c, of "[0..<length (link_list c)]" ip] show ?thesis by (simp add: add_flt_rules_def c)
qed

lemma generate_loop_calm:
  "\<forall>e \<in> set es. nodes s (snd e) \<noteq> None \<Longrightarrow> \<exists>s'. generate_loop K ip addr cat es s = Some s' \<and> calm K s s'"
proof (induction es arbitrary: s)
  case Nil
  then show ?case by simp
next
  case (Cons e es)
  then obtain n where n: "nodes s (snd e) = Some n" by auto
  obtain m k where mk: "malloc K (kern s) = (m, k)" by fastforce
  let ?s = "s\<lparr>kern := k, posted := posted s @ [(IPA_LAN_TO_LAN_NEW_CONNECTION, \<lparr>conn_ip = ip, conn_src = addr, conn_dst = ip_addr n\<rparr>)]\<rparr>"
  have c: "calm K s ?s" "calm K s (s\<lparr>kern := k\<rparr>)" by (rule calmI; simp)+
  obtain s' where "generate_loop K ip addr cat es ?s = Some s'" "calm K ?s s'" using Cons.IH [of ?s] Cons.prems by auto
  moreover obtain s'' where "generate_loop K ip addr cat es s = Some s''" "calm K s s''" using Cons.IH [of s] Cons.prems by auto
  ultimately show ?case using n mk c calm_trans [OF c(1)] by auto
qed

lemma check_cache_loop_calm: "calm K s (snd (check_cache_loop K ip addr xs s))"
proof (induction xs arbitrary: s)
  case Nil
  then show ?case by simp
next
  case (Cons x xs)
  obtain m k where mk: "malloc K (kern s) = (m, k)" by fastforce
  let ?s = "s\<lparr>kern := k, posted := posted s @ [(IPA_LAN_TO_LAN_NEW_CONNECTION, x)]\<rparr>"
  have c: "calm K s ?s" "calm K s (s\<lparr>kern := k\<rparr>)" by (rule calmI; simp)+
  show ?case using Cons.IH [of s] calm_trans [OF c(1) Cons.IH] c(2) mk by simp
qed

lemma post_calm:
  assumes s: "sound K s" and a: "nodes s a \<noteq> None"
  shows "\<exists>s'. generate_new_connection ct K ip a s = Some s' \<and> calm K s s'"
    and "\<exists>s'. check_cache_connection ct K ip a s = Some s' \<and> calm K s s'"
proof -
  obtain c where c: "nodes s a = Some c" using a by blast
  have "\<forall>e \<in> set (client_tab s). nodes s (snd e) \<noteq> None" using s unfolding sound_def by (auto simp: dom_def)
  from generate_loop_calm [OF this] show "\<exists>s'. generate_new_connection ct K ip a s = Some s' \<and> calm K s s'"
    by (auto simp: generate_new_connection_def c)
  show "\<exists>s'. check_cache_connection ct K ip a s = Some s' \<and> calm K s s'"
  proof (cases ct)
    case False
    then show ?thesis by (simp add: check_cache_connection_def)
  next
    case True
    obtain xs s1 where r: "check_cache_loop K ip (ip_addr c) (cached_conns s) s = (xs, s1)" by fastforce
    then have "calm K s s1" using check_cache_loop_calm [of K s ip "ip_addr c" "cached_conns s"] by simp
    moreover have "calm K s1 (s1\<lparr>cached_conns := xs\<rparr>)" by (rule calmI) simp_all
    ultimately show ?thesis using True r c calm_trans by (auto simp: check_cache_connection_def)
  qed
qed

section \<open>The table\<close>

definition good :: "'k ipa_kernel \<Rightarrow> 'k lan2lan \<Rightarrow> bool" where
  "good K s \<longleftrightarrow> sound K s \<and> paired s"

lemma put_client_views:
  assumes a: "nodes s a = Some c" and same: "peer_list c' = peer_list c" "link_list c' = link_list c"
  shows "links (put a c' s) = links s" "peers (put a c' s) = peers s" "peers_distinct (put a c' s) = peers_distinct s"
    "dom (nodes (put a c' s)) = dom (nodes s)"
proof -
  show "links (put a c' s) = links s" "peers (put a c' s) = peers s" "peers_distinct (put a c' s) = peers_distinct s"
    by (simp_all only: views_put same node_views(2-4) [OF a, symmetric] fun_upd_triv)
  show "dom (nodes (put a c' s)) = dom (nodes s)" using a by (auto simp: dom_def)
qed

lemma put_client_good:
  assumes a: "nodes s a = Some c" and same: "peer_list c' = peer_list c" "link_list c' = link_list c"
    and mac: "length (client_mac c') = 6" and s: "sound K s"
  shows "sound K (put a c' s)" and "paired s \<Longrightarrow> \<not> idle c' \<or> links s a = {#} \<Longrightarrow> paired (put a c' s)"
proof -
  note v = put_client_views [OF a same]
  have n: "nodes (put a c' s) x \<noteq> None \<longleftrightarrow> nodes s x \<noteq> None" for x using a by simp
  show "sound K (put a c' s)"
    using s mac unfolding sound_def v n by (auto split: if_splits)
  have "idle (c'\<lparr>peer_list := [], link_list := []\<rparr>) = idle c'" by (simp add: idle_def)
  then show "paired (put a c' s)" if "paired s" "\<not> idle c' \<or> links s a = {#}"
    using that unfolding paired_def v by (auto split: if_splits)
qed

lemma fill_client_good:
  assumes s: "sound K s" and a: "nodes s a = Some c" and mac: "length (lc_mac d) = 6"
  shows "\<exists>s' c'. fill_client i d a s = Some s' \<and> sound K s' \<and> (paired s \<longrightarrow> paired s') \<and> op_failed s' = op_failed s
     \<and> skel s' a = Some c' \<and> is_active c'"
proof -
  let ?c = "c\<lparr>ip_addr := lc_addr d, client_mac := lc_mac d, is_active := True, is_powersave := False, p_iface := i\<rparr>"
  have "sound K (put a ?c s)" by (rule put_client_good [OF a _ _ _ s]) (simp_all add: mac)
  moreover have "paired (put a ?c s)" if "paired s"
    by (rule put_client_good(2) [OF a _ _ _ s that]) (simp_all add: mac idle_def)
  ultimately show ?thesis by (simp add: fill_client_def a)
qed

lemma new_entry_good:
  assumes s: "good K s" and new: "map_of (client_tab s) key = None"
  shows "good K (snd (new_entry key s))" "nodes (snd (new_entry key s)) (fst (new_entry key s)) = Some new_client"
    "op_failed (snd (new_entry key s)) = op_failed s"
proof -
  let ?a = "next_node s" and ?s = "snd (new_entry key s)"
  have snd: "sound K s" and p: "paired s" using s by (simp_all add: good_def)
  have fresh: "nodes s ?a = None" using snd unfolding sound_def by (metis less_irrefl)
  have v: "links ?s = links s" "peers ?s = peers s" "peers_distinct ?s = (peers_distinct s)(?a := True)"
    "skel ?s = (skel s)(?a \<mapsto> new_client)" "nodes ?s = (nodes s)(?a \<mapsto> new_client)"
    using fresh by (auto simp: new_entry_def links_def peers_def peers_distinct_def skel_def new_client_def fun_eq_iff)
  have t: "client_tab ?s = client_tab s @ [(key, ?a)]" "next_node ?s = ?a + 1" "num_offload_pair ?s = num_offload_pair s"
    "ifaces ?s = ifaces s" by (simp_all add: new_entry_def)
  have notin: "?a \<notin> snd ` set (client_tab s)" using snd fresh unfolding sound_def by (metis domIff)
  have key: "key \<notin> fst ` set (client_tab s)" using new by (simp add: map_of_eq_None_iff)
  have l0: "links s ?a = {#}" using fresh by (simp add: links_def)
  have "sound K ?s"
    using snd notin key unfolding sound_def v t
    by (auto simp: less_Suc_eq new_client_def split: if_splits)
  moreover have "paired ?s"
    using p l0 unfolding paired_def v t by (auto split: if_splits)
  ultimately show "good K ?s" by (simp add: good_def)
  show "nodes ?s (fst (new_entry key s)) = Some new_client" by (simp add: v new_entry_def)
  show "op_failed ?s = op_failed s" by (simp add: new_entry_def)
qed

lemma tab_lookup:
  assumes "sound K s" "map_of (client_tab s) key = Some a"
  shows "nodes s a \<noteq> None" and "(key, a) \<in> set (client_tab s)"
proof -
  show m: "(key, a) \<in> set (client_tab s)" by (rule map_of_SomeD [OF assms(2)])
  then have "a \<in> snd ` set (client_tab s)" by force
  then have "a \<in> dom (nodes s)" using assms(1) unfolding sound_def by simp
  then show "nodes s a \<noteq> None" by (simp add: domIff)
qed

lemma snd_filter_key:
  assumes "distinct (map fst xs)" "distinct (map snd xs)" "(key, a) \<in> set xs"
  shows "snd ` set (filter (\<lambda>e. fst e \<noteq> key) xs) = snd ` set xs - {a}"
  using assms by (induction xs) (auto simp: image_iff)

lemma erase_client_good:
  assumes s: "good K s" and m: "map_of (client_tab s) key = Some a"
    and l: "links s a = {#}" and p: "\<And>x. peers s a x = None"
  shows "good K (erase_client key a s)"
proof -
  let ?s = "erase_client key a s"
  have snd: "sound K s" and pr: "paired s" using s by (simp_all add: good_def)
  have v: "links ?s = links s" "peers ?s = (peers s)(a := Map.empty)" "peers_distinct ?s = (peers_distinct s)(a := True)"
    "skel ?s = (skel s)(a := None)" "nodes ?s = (nodes s)(a := None)" "next_node ?s = next_node s"
    "num_offload_pair ?s = num_offload_pair s" "ifaces ?s = ifaces s"
    "client_tab ?s = filter (\<lambda>e. fst e \<noteq> key) (client_tab s)"
    using l by (auto simp: erase_client_def links_def peers_def peers_distinct_def skel_def fun_eq_iff)
  have pe: "(peers s)(a := Map.empty) = peers s" using p by (auto simp: fun_eq_iff)
  have no: "a \<notin># links s x" for x using pairedD(1) [OF pr, of x a] l by (simp add: count_eq_zero_iff)
  have tab: "distinct (map fst (client_tab s))" "distinct (map snd (client_tab s))" using snd unfolding sound_def by blast+
  have d: "dom ((nodes s)(a := None)) = snd ` set (filter (\<lambda>e. fst e \<noteq> key) (client_tab s))"
    using snd_filter_key [OF tab tab_lookup(2) [OF snd m]] snd unfolding sound_def by simp
  have "sound K ?s"
    using snd no unfolding sound_def v pe d
    by (auto simp: distinct_map_filter split: if_splits)
  moreover have "paired ?s" using pr unfolding paired_def v by (auto split: if_splits)
  ultimately show ?thesis by (simp add: good_def)
qed

section \<open>The handlers\<close>

text \<open>What holds inside a handler, and after it.\<close>

definition okay :: "'k ipa_kernel \<Rightarrow> 'k lan2lan \<Rightarrow> bool" where
  "okay K s \<longleftrightarrow> sound K s \<and> (op_failed s \<or> paired s)"

definition settled :: "'k ipa_kernel \<Rightarrow> 'k lan2lan option \<Rightarrow> bool" where
  "settled K r \<longleftrightarrow> (\<exists>s. r = Some s \<and> (op_failed s \<or> good K s))"

lemma good_okay: "good K s \<Longrightarrow> okay K s"
  by (simp add: good_def okay_def)

lemma okay_settled: "okay K s \<Longrightarrow> settled K (Some s)"
  by (auto simp: settled_def good_def okay_def)

lemma okay_calm: "\<lbrakk>okay K s; calm K s s'\<rbrakk> \<Longrightarrow> okay K s'"
  using wf_calm paired_calm frame_mono [OF calm_frame] by (metis okay_def)

lemma okay_frame: "\<lbrakk>okay K s; sound K s'; frame K s s'; paired s \<and> \<not> op_failed s' \<longrightarrow> paired s'\<rbrakk> \<Longrightarrow> okay K s'"
  using frame_mono [of K s s'] unfolding okay_def by blast

lemma okay_same_links: "\<lbrakk>okay K s; sound K s'; same_links s s'\<rbrakk> \<Longrightarrow> okay K s'"
  using paired_peers [of s s'] by (simp add: okay_def same_links_def)

lemma okay_sound: "okay K s \<Longrightarrow> sound K s"
  by (simp add: okay_def)

lemma post_okay:
  assumes s: "okay K s" and a: "nodes s a \<noteq> None"
  shows "\<exists>s'. do { s1 \<leftarrow> generate_new_connection ct K ip a s; check_cache_connection ct K ip a s1 } = Some s' \<and> okay K s'"
proof -
  obtain s1 where 1: "generate_new_connection ct K ip a s = Some s1" "calm K s s1"
    using post_calm(1) [OF okay_sound [OF s] a] by blast
  have k1: "okay K s1" by (rule okay_calm [OF s 1(2)])
  have "nodes s1 a \<noteq> None" using calm_nodes [OF 1(2)] a by simp
  from post_calm(2) [OF okay_sound [OF k1] this] obtain s2
    where 2: "check_cache_connection ct K ip a s1 = Some s2" "calm K s1 s2" by blast
  with 1(1) okay_calm [OF k1 2(2)] show ?thesis by simp
qed

lemma fill_okay:
  assumes s: "okay K s" and a: "nodes s a \<noteq> None" and mac: "length (lc_mac d) = 6"
  shows "\<exists>s' c'. fill_client i d a s = Some s' \<and> okay K s' \<and> skel s' a = Some c' \<and> is_active c'"
proof -
  obtain c where "nodes s a = Some c" using a by blast
  from fill_client_good [OF okay_sound [OF s] this mac, of i] s show ?thesis unfolding okay_def by metis
qed

lemma turnoff_okay:
  assumes s: "okay K s" and a: "nodes s a \<noteq> None"
  shows "\<exists>ok s'. turnoff_offload_links K ip a s = Some (ok, s') \<and> okay K s' \<and> skel s' = skel s
     \<and> client_tab s' = client_tab s \<and> peers s' = peers s \<and> (op_failed s' \<or> links s' a = {#})"
proof -
  obtain ok s' where 1: "turnoff_offload_links K ip a s = Some (ok, s')" "sound K s'" "frame K s s'"
    "paired s \<and> \<not> op_failed s' \<longrightarrow> paired s' \<and> links s' = drop_links a (links s)"
    using turnoff_sound [OF okay_sound [OF s] a] by blast
  have "okay K s'" using 1(4) by (intro okay_frame [OF s 1(2,3)]) blast
  moreover have "op_failed s' \<or> links s' a = {#}"
    using 1(4) s frame_mono [OF 1(3)] by (auto simp: okay_def drop_links_def)
  ultimately show ?thesis using 1(1,3) by (auto simp: frame_def)
qed

lemma clear_okay:
  assumes s: "okay K s" and a: "nodes s a \<noteq> None"
  shows "\<exists>s'. clear_peer_list a s = Some (True, s') \<and> okay K s' \<and> same_links s s' \<and> (\<forall>x. peers s' a x = None)"
proof -
  obtain c where c: "nodes s a = Some c" using a by blast
  from clear_peer_sound [OF okay_sound [OF s] c] okay_same_links [OF s] show ?thesis by fastforce
qed

lemma handle_client_active_settled:
  assumes g: "good K s" and fit: "eth_hdrs_fit K" and mac: "length (lc_mac d) = 6"
  shows "settled K (handle_client_active ct K i d s)"
proof (cases "map_of (client_tab s) (client_key (lc_ip d) (lc_addr d))")
  case None
  note e = new_entry_good [OF g None]
  define a where "a = fst (new_entry (client_key (lc_ip d) (lc_addr d)) s)"
  define s1 where "s1 = snd (new_entry (client_key (lc_ip d) (lc_addr d)) s)"
  have p: "new_entry (client_key (lc_ip d) (lc_addr d)) s = (a, s1)" by (simp add: a_def s1_def)
  have k1: "okay K s1" using e(1) good_okay unfolding s1_def by blast
  have n1: "nodes s1 a \<noteq> None" using e(2) unfolding s1_def a_def by simp
  obtain s2 c2 where 2: "fill_client i d a s1 = Some s2" "okay K s2" "skel s2 a = Some c2"
    using fill_okay [OF k1 n1 mac] by blast
  have n2: "nodes s2 a \<noteq> None" using 2(3) by (metis skel_None option.discI)
  from post_okay [OF 2(2) n2] obtain s3
    where "do { x \<leftarrow> generate_new_connection ct K (lc_ip d) a s2; check_cache_connection ct K (lc_ip d) a x } = Some s3" "okay K s3" by blast
  with None p 2(1) show ?thesis by (simp add: handle_client_active_def Let_def okay_settled)
next
  case (Some a)
  have snd: "sound K s" and k: "okay K s" using g good_okay by (auto simp: good_def)
  have n: "nodes s a \<noteq> None" by (rule tab_lookup(1) [OF snd Some])
  then obtain c where c: "nodes s a = Some c" by blast
  show ?thesis
  proof (cases "is_active c")
    case True
    show ?thesis
    proof (cases "client_mac c = lc_mac d")
      case same: True
      then show ?thesis using Some c True okay_settled [OF k] by (simp add: handle_client_active_def Let_def)
    next
      case False
      obtain ok1 s1 where 1: "turnoff_offload_links K (lc_ip d) a s = Some (ok1, s1)" "okay K s1" "skel s1 = skel s"
        using turnoff_okay [OF k n] by blast
      have n1: "nodes s1 a \<noteq> None" using n skel_eq_nodes [OF 1(3), of a] by simp
      obtain s2 where 2: "clear_peer_list a s1 = Some (True, s2)" "okay K s2" "same_links s1 s2"
        using clear_okay [OF 1(2) n1] by blast
      have n2: "nodes s2 a \<noteq> None" using n1 same_links_nodes [OF 2(3), of a] by simp
      obtain s3 c3 where 3: "fill_client i d a s2 = Some s3" "okay K s3" "skel s3 a = Some c3"
        using fill_okay [OF 2(2) n2 mac] by blast
      have n3: "nodes s3 a \<noteq> None" using 3(3) by (metis skel_None option.discI)
      from post_okay [OF 3(2) n3] obtain s4
        where "do { x \<leftarrow> generate_new_connection ct K (lc_ip d) a s3; check_cache_connection ct K (lc_ip d) a x } = Some s4" "okay K s4" by blast
      with Some c True False 1(1) 2(1) 3(1) show ?thesis by (simp add: handle_client_active_def Let_def okay_settled)
    qed
  next
    case False
    obtain s1 c1 where 1: "fill_client i d a s = Some s1" "okay K s1" "skel s1 a = Some c1" "is_active c1"
      using fill_okay [OF k n mac] by blast
    obtain s2 where 2: "check_potential_link K (lc_ip d) a s1 = Some s2" "sound K s2" "frame K s1 s2"
      "paired s1 \<and> \<not> op_failed s2 \<longrightarrow> paired s2"
      using check_potential_sound [OF okay_sound [OF 1(2)] fit 1(3,4)] by blast
    have k2: "okay K s2" by (rule okay_frame [OF 1(2) 2(2,3,4)])
    have n2: "nodes s2 a \<noteq> None" using frame_skel [OF 2(3)] 1(3) by (metis skel_None option.discI)
    from post_okay [OF k2 n2] obtain s3
      where "do { x \<leftarrow> generate_new_connection ct K (lc_ip d) a s2; check_cache_connection ct K (lc_ip d) a x } = Some s3" "okay K s3" by blast
    with Some c False 1(1) 2(1) show ?thesis by (simp add: handle_client_active_def Let_def okay_settled)
  qed
qed

lemma handle_client_inactive_settled:
  assumes g: "good K s"
  shows "settled K (handle_client_inactive K d s)"
proof (cases "map_of (client_tab s) (client_key (lc_ip d) (lc_addr d))")
  case None
  then show ?thesis using okay_settled [OF good_okay [OF g]] by (simp add: handle_client_inactive_def)
next
  case (Some a)
  let ?key = "client_key (lc_ip d) (lc_addr d)"
  have snd: "sound K s" using g by (simp add: good_def)
  have n: "nodes s a \<noteq> None" by (rule tab_lookup(1) [OF snd Some])
  obtain ok1 s1 where 1: "turnoff_offload_links K (lc_ip d) a s = Some (ok1, s1)" "okay K s1" "skel s1 = skel s"
    "client_tab s1 = client_tab s" "peers s1 = peers s" "op_failed s1 \<or> links s1 a = {#}"
    using turnoff_okay [OF good_okay [OF g] n] by blast
  obtain c where c: "nodes s1 a = Some c" using n skel_eq_nodes [OF 1(3), of a] by auto
  let ?c = "c\<lparr>is_active := False\<rparr>"
  define s2 where "s2 = put a ?c s1"
  have run: "handle_client_inactive K d s = Some (if peer_list c = [] then erase_client ?key a s2 else s2)"
    using Some 1(1) c by (simp add: handle_client_inactive_def Let_def s2_def)
  have op: "op_failed s2 = op_failed s1" "op_failed (erase_client ?key a s2) = op_failed s1"
    by (simp_all add: s2_def erase_client_def)
  show ?thesis
  proof (cases "op_failed s1")
    case True
    then show ?thesis unfolding run settled_def using op by auto
  next
    case False
    then have p1: "paired s1" and l1: "links s1 a = {#}" using 1(2,6) by (auto simp: okay_def)
    have g2: "good K s2" unfolding good_def s2_def
      using put_client_good [of s1 a c ?c K] c wf_mac [OF okay_sound [OF 1(2)] c] okay_sound [OF 1(2)] p1 l1 by simp
    show ?thesis
    proof (cases "peer_list c = []")
      case False
      then show ?thesis unfolding run settled_def using g2 by simp
    next
      case True
      have "links s2 a = {#}" "\<And>x. peers s2 a x = None" "map_of (client_tab s2) ?key = Some a"
        using l1 True Some by (simp_all add: s2_def node_views [OF c] 1(4))
      then have "good K (erase_client ?key a s2)" by (intro erase_client_good [OF g2])
      then show ?thesis unfolding run settled_def using True by simp
    qed
  qed
qed

lemma handle_client_disconnect_settled:
  assumes g: "good K s"
  shows "settled K (handle_client_disconnect K d s)"
proof (cases "map_of (client_tab s) (client_key (lc_ip d) (lc_addr d))")
  case None
  then show ?thesis using okay_settled [OF good_okay [OF g]] by (simp add: handle_client_disconnect_def)
next
  case (Some a)
  let ?key = "client_key (lc_ip d) (lc_addr d)"
  have snd: "sound K s" using g by (simp add: good_def)
  have n: "nodes s a \<noteq> None" by (rule tab_lookup(1) [OF snd Some])
  obtain ok1 s1 where 1: "turnoff_offload_links K (lc_ip d) a s = Some (ok1, s1)" "okay K s1" "skel s1 = skel s"
    "client_tab s1 = client_tab s" "op_failed s1 \<or> links s1 a = {#}"
    using turnoff_okay [OF good_okay [OF g] n] by blast
  have n1: "nodes s1 a \<noteq> None" using n skel_eq_nodes [OF 1(3), of a] by simp
  obtain s2 where 2: "clear_peer_list a s1 = Some (True, s2)" "okay K s2" "same_links s1 s2" "\<forall>x. peers s2 a x = None"
    using clear_okay [OF 1(2) n1] by blast
  have run: "handle_client_disconnect K d s = Some (erase_client ?key a s2)"
    using Some 1(1) 2(1) by (simp add: handle_client_disconnect_def Let_def)
  show ?thesis
  proof (cases "op_failed s2")
    case True
    then have "op_failed (erase_client ?key a s2)" by (simp add: erase_client_def)
    then show ?thesis unfolding run settled_def by simp
  next
    case False
    then have "good K s2" "links s2 a = {#}" "map_of (client_tab s2) ?key = Some a"
      using 2(2,3) 1(4,5) Some by (auto simp: okay_def good_def same_links_def)
    then have "good K (erase_client ?key a s2)" using 2(4) by (intro erase_client_good) auto
    then show ?thesis unfolding run settled_def by simp
  qed
qed

lemma handle_client_power_save_settled:
  assumes g: "good K s"
  shows "settled K (handle_client_power_save K d s)"
proof (cases "map_of (client_tab s) (client_key (lc_ip d) (lc_addr d))")
  case None
  then show ?thesis using okay_settled [OF good_okay [OF g]] by (simp add: handle_client_power_save_def)
next
  case (Some a)
  have snd: "sound K s" using g by (simp add: good_def)
  have n: "nodes s a \<noteq> None" by (rule tab_lookup(1) [OF snd Some])
  obtain ok s1 where 1: "remove_flt_rules K (lc_ip d) a s = Some (ok, s1)" "calm K s s1"
    using remove_flt_calm [OF snd n] by blast
  have k1: "okay K s1" by (rule okay_calm [OF good_okay [OF g] 1(2)])
  obtain c where c: "nodes s1 a = Some c" using n calm_nodes [OF 1(2)] by auto
  let ?c = "c\<lparr>is_active := False, is_powersave := True\<rparr>"
  have mac: "length (client_mac ?c) = 6" using wf_mac [OF okay_sound [OF k1] c] by simp
  have "sound K (put a ?c s1)" by (rule put_client_good(1) [OF c _ _ mac okay_sound [OF k1]]) simp_all
  moreover have "paired s1 \<Longrightarrow> paired (put a ?c s1)"
    by (rule put_client_good(2) [OF c _ _ mac okay_sound [OF k1]]) (simp_all add: idle_def)
  ultimately have "okay K (put a ?c s1)" using k1 by (auto simp: okay_def)
  then show ?thesis using Some 1(1) c okay_settled k1 by (auto simp: handle_client_power_save_def)
qed

lemma handle_client_power_recover_settled:
  assumes g: "good K s" and fit: "eth_hdrs_fit K"
  shows "settled K (handle_client_power_recover ct K d s)"
proof (cases "map_of (client_tab s) (client_key (lc_ip d) (lc_addr d))")
  case None
  then show ?thesis using okay_settled [OF good_okay [OF g]] by (simp add: handle_client_power_recover_def)
next
  case (Some a)
  have snd: "sound K s" using g by (simp add: good_def)
  have n: "nodes s a \<noteq> None" by (rule tab_lookup(1) [OF snd Some])
  then obtain c where c: "nodes s a = Some c" by blast
  show ?thesis
  proof (cases "is_active c \<or> \<not> is_powersave c")
    case True
    then show ?thesis using Some c okay_settled [OF good_okay [OF g]] by (simp add: handle_client_power_recover_def)
  next
    case False
    obtain ok s1 where 1: "add_flt_rules K (lc_ip d) a s = Some (ok, s1)" "same_graph K s s1"
      using add_flt_sound [OF snd n] by blast
    have fr: "frame K s s1" and s1: "sound K s1" using 1(2) sound_same_graph [OF snd 1(2)] by (auto simp: same_graph_def)
    have k1: "okay K s1" by (rule okay_frame [OF good_okay [OF g] s1 fr]) (simp add: paired_same_graph [OF 1(2)])
    show ?thesis
    proof (cases ok)
      case False
      with \<open>\<not> (is_active c \<or> \<not> is_powersave c)\<close> show ?thesis
        using Some c 1(1) okay_settled [OF k1] by (simp add: handle_client_power_recover_def)
    next
      case True
      obtain c1 where c1: "nodes s1 a = Some c1" using n frame_nodes [OF fr, of a] by auto
      let ?c = "c1\<lparr>is_active := True, is_powersave := False\<rparr>"
      define s2 where "s2 = put a ?c s1"
      have mac: "length (client_mac ?c) = 6" using wf_mac [OF s1 c1] by simp
      have "sound K s2" unfolding s2_def by (rule put_client_good(1) [OF c1 _ _ mac s1]) simp_all
      moreover have "paired s1 \<Longrightarrow> paired s2"
        unfolding s2_def by (rule put_client_good(2) [OF c1 _ _ mac s1]) (simp_all add: idle_def)
      moreover have "op_failed s2 = op_failed s1" by (simp add: s2_def)
      ultimately have k2: "okay K s2" using k1 by (auto simp: okay_def)
      have "skel s2 a = Some (?c\<lparr>peer_list := [], link_list := []\<rparr>)" by (simp add: s2_def)
      from check_potential_sound [OF okay_sound [OF k2] fit this]
      obtain s3 where 3: "check_potential_link K (lc_ip d) a s2 = Some s3" "sound K s3" "frame K s2 s3"
        "paired s2 \<and> \<not> op_failed s3 \<longrightarrow> paired s3" by auto
      have k3: "okay K s3" by (rule okay_frame [OF k2 3(2,3,4)])
      have n3: "nodes s3 a \<noteq> None" using frame_nodes [OF 3(3), of a] by (simp add: s2_def)
      obtain s4 where 4: "generate_new_connection ct K (lc_ip d) a s3 = Some s4" "calm K s3 s4"
        using post_calm(1) [OF okay_sound [OF k3] n3] by blast
      have "settled K (Some s4)" by (rule okay_settled [OF okay_calm [OF k3 4(2)]])
      with False Some c 1(1) c1 True 3(1) 4(1) show ?thesis by (simp add: handle_client_power_recover_def s2_def)
    qed
  qed
qed

lemma lookup_neq:
  assumes "sound K s" "map_of (client_tab s) k1 = Some a" "map_of (client_tab s) k2 = Some b" "k1 \<noteq> k2"
  shows "a \<noteq> b"
proof
  assume "a = b"
  then have "(k1, a) \<in> set (client_tab s)" "(k2, a) \<in> set (client_tab s)"
    using tab_lookup(2) [OF assms(1)] assms(2,3) by blast+
  moreover have "distinct (map snd (client_tab s))" using assms(1) unfolding sound_def by blast
  ultimately show False using assms(4) by (metis distinct_map inj_onD prod.inject snd_conv)
qed

text \<open>The pair that the first connection of two active clients brings, if there is room for it.\<close>

definition offload_pair :: "'k ipa_kernel \<Rightarrow> ipa_ip_type \<Rightarrow> nat \<Rightarrow> nat \<Rightarrow> 'k lan2lan \<Rightarrow> 'k lan2lan option" where
  "offload_pair K ip a b s = do {
     (ok1, s2) \<leftarrow> add_offload_link K ip a b s;
     if \<not> ok1 then Some s2
     else do {
       (ok2, s3) \<leftarrow> add_offload_link K ip b a s2;
       Some (if ok2 then s3\<lparr>num_offload_pair := num_offload_pair s3 + 1\<rparr> else s3) } }"

lemma offload_pair_effect:
  assumes s: "okay K s" and fit: "eth_hdrs_fit K" and n: "nodes s a = Some ca" "nodes s b = Some cb"
    and act: "is_active ca" "is_active cb" and ab: "a \<noteq> b"
  shows "\<exists>s'. offload_pair K ip a b s = Some s' \<and> okay K s' \<and> frame K s s' \<and> (paired s \<and> \<not> op_failed s' \<longrightarrow>
     (if ip \<noteq> IPA_IP_MAX \<and> unat (num_offload_pair s) < MAX_OFFLOAD_PAIR
      then num_offload_pair s' = num_offload_pair s + 1 \<and> links s' = (links s)(a := add_mset b (links s a), b := add_mset a (links s b))
      else num_offload_pair s' = num_offload_pair s \<and> links s' = links s))"
proof -
  have snd: "sound K s" by (rule okay_sound [OF s])
  obtain ok1 s2 where 2: "add_offload_link K ip a b s = Some (ok1, s2)" "link_added K ip a b s ok1 s2"
    using add_offload_link_added [OF snd fit n ab] by blast
  have s2: "sound K s2" and fr2: "frame K s s2" using 2(2) by (simp_all add: link_added_def)
  show ?thesis
  proof (cases ok1)
    case False
    have "paired s \<Longrightarrow> paired s2" using 2(2) False by (simp add: link_added_def paired_def frame_def)
    then have "okay K s2" by (intro okay_frame [OF s s2 fr2]) blast
    moreover have "offload_pair K ip a b s = Some s2" using 2(1) False by (simp add: offload_pair_def)
    ultimately show ?thesis using 2(2) False fr2 by (auto simp: link_added_def)
  next
    case ok1: True
    obtain ca2 cb2 where n2: "nodes s2 a = Some ca2" "nodes s2 b = Some cb2"
      using n frame_nodes [OF fr2, of a] frame_nodes [OF fr2, of b] by auto
    obtain ok2 s3 where 3: "add_offload_link K ip b a s2 = Some (ok2, s3)" "link_added K ip b a s2 ok2 s3"
      using add_offload_link_added [OF s2 fit n2(2,1)] ab by metis
    define s4 where "s4 = (if ok2 then s3\<lparr>num_offload_pair := num_offload_pair s3 + 1\<rparr> else s3)"
    have s4: "sound K s4" and fr4: "frame K s s4" and op4: "op_failed s4 = op_failed s3"
      using 3(2) frame_trans [OF fr2] by (simp_all add: s4_def link_added_def)
    have ia: "\<not> idle c" if "skel s a = Some c" for c using that act n by (auto simp: idle_def skel_def)
    have ib: "\<not> idle c" if "skel s b = Some c" for c using that act n by (auto simp: idle_def skel_def)
    have n': "nodes s a \<noteq> None" "nodes s b \<noteq> None" using n by simp_all
    have strong: "paired s4 \<and> ok2 \<and> links s4 = (links s)(a := add_mset b (links s a), b := add_mset a (links s b))
        \<and> num_offload_pair s4 = num_offload_pair s + 1 \<and> ip \<noteq> IPA_IP_MAX \<and> unat (num_offload_pair s) < MAX_OFFLOAD_PAIR"
      if p: "paired s" "\<not> op_failed s4"
    proof -
      note pa = pair_added [OF snd p(1) ab n' ia ib 2(2) 3(2) p(2) [unfolded op4]]
      have ok2: ok2 using pa(1) ok1 by blast
      have "num_offload_pair s3 = num_offload_pair s" using 2(2) 3(2) by (simp add: link_added_def)
      then show ?thesis using pa(2,3,4) ok2 by (simp add: s4_def)
    qed
    then have "okay K s4" by (intro okay_frame [OF s s4 fr4]) blast
    moreover have "offload_pair K ip a b s = Some s4" using 2(1) ok1 3(1) by (simp add: offload_pair_def s4_def)
    ultimately show ?thesis using fr4 strong by auto
  qed
qed

lemma handle_new_lan2lan_connection_eq:
  "handle_new_lan2lan_connection K d s =
     (case (map_of (client_tab s) (client_key (conn_ip d) (conn_src d)),
            map_of (client_tab s) (client_key (conn_ip d) (conn_dst d))) of
        (Some a, Some b) \<Rightarrow> do {
          (first, s1) \<leftarrow> add_connection a b s;
          ca \<leftarrow> nodes s1 a;
          cb \<leftarrow> nodes s1 b;
          if first \<and> is_active ca \<and> is_active cb then offload_pair K (conn_ip d) a b s1 else Some s1 }
      | _ \<Rightarrow> Some s)"
  unfolding handle_new_lan2lan_connection_def offload_pair_def by (rule refl)

lemma handle_new_lan2lan_connection_settled:
  assumes g: "good K s" and fit: "eth_hdrs_fit K"
    and ne: "client_key (conn_ip d) (conn_src d) \<noteq> client_key (conn_ip d) (conn_dst d)"
  shows "settled K (handle_new_lan2lan_connection K d s)"
proof (cases "map_of (client_tab s) (client_key (conn_ip d) (conn_src d)) = None
    \<or> map_of (client_tab s) (client_key (conn_ip d) (conn_dst d)) = None")
  case True
  then show ?thesis using okay_settled [OF good_okay [OF g]]
    by (auto simp: handle_new_lan2lan_connection_def split: option.splits)
next
  case False
  then obtain a b where ka: "map_of (client_tab s) (client_key (conn_ip d) (conn_src d)) = Some a"
    and kb: "map_of (client_tab s) (client_key (conn_ip d) (conn_dst d)) = Some b" by auto
  have snd: "sound K s" using g by (simp add: good_def)
  have ab: "a \<noteq> b" by (rule lookup_neq [OF snd ka kb ne])
  obtain ca0 cb0 where n: "nodes s a = Some ca0" "nodes s b = Some cb0"
    using tab_lookup(1) [OF snd ka] tab_lookup(1) [OF snd kb] by blast
  obtain s1 where 1: "add_connection a b s = Some (peers s a b = None, s1)" "sound K s1" "same_links s s1"
    using add_connection_sound [OF snd n ab] by blast
  have k1: "okay K s1" by (rule okay_same_links [OF good_okay [OF g] 1(2,3)])
  obtain ca cb where n1: "nodes s1 a = Some ca" "nodes s1 b = Some cb"
    using n same_links_nodes [OF 1(3), of a] same_links_nodes [OF 1(3), of b] by auto
  show ?thesis
  proof (cases "peers s a b = None \<and> is_active ca \<and> is_active cb")
    case False
    then show ?thesis using ka kb 1(1) n1 okay_settled [OF k1]
      by (auto simp: handle_new_lan2lan_connection_eq)
  next
    case True
    then obtain s2 where "offload_pair K (conn_ip d) a b s1 = Some s2" "okay K s2"
      using offload_pair_effect [OF k1 fit n1 _ _ ab] by blast
    then show ?thesis using ka kb 1(1) n1 True okay_settled by (simp add: handle_new_lan2lan_connection_eq)
  qed
qed

lemma erase_okay:
  assumes s: "okay K s" and n: "nodes s a \<noteq> None" "nodes s b \<noteq> None" and ab: "a \<noteq> b"
  shows "\<exists>s'. erase_offload_link K ip a b s = Some s' \<and> okay K s' \<and> frame K s s'"
  using erase_offload_sound [OF okay_sound [OF s] n ab, of ip] okay_frame [OF s] by blast

lemma erase_links_okay:
  assumes s: "okay K s" and n: "nodes s a \<noteq> None" "nodes s b \<noteq> None" and ab: "a \<noteq> b"
  shows "\<exists>s'. erase_links K ip a b s = Some s' \<and> okay K s' \<and> frame K s s'"
proof -
  obtain ca cb where c: "nodes s a = Some ca" "nodes s b = Some cb" using n by blast
  have first: "\<exists>s'. (if P then erase_offload_link K ip a b s else Some s) = Some s' \<and> okay K s' \<and> frame K s s'" for P
    using erase_okay [OF s n ab] s by simp
  show ?thesis
  proof (cases "is_active ca \<and> is_active cb")
    case True
    then show ?thesis using c erase_okay [OF s n ab, of ip] by (simp add: erase_links_def)
  next
    case False
    let ?P = "is_powersave ca \<and> (is_active cb \<or> is_powersave cb)"
    let ?Q = "is_powersave cb \<and> (is_active ca \<or> is_powersave ca)"
    obtain s1 where 1: "(if ?P then erase_offload_link K ip a b s else Some s) = Some s1" "okay K s1" "frame K s s1"
      using first by blast
    have n1: "nodes s1 b \<noteq> None" "nodes s1 a \<noteq> None" using n frame_nodes [OF 1(3), of a] frame_nodes [OF 1(3), of b] by simp_all
    have "\<exists>s'. (if ?Q then erase_offload_link K ip b a s1 else Some s1) = Some s' \<and> okay K s' \<and> frame K s s'"
      using erase_okay [OF 1(2) n1, of ip] ab 1(2,3) frame_trans [OF 1(3)] by (metis (full_types))
    moreover have "erase_links K ip a b s = (if ?Q then erase_offload_link K ip b a s1 else Some s1)"
      using c False 1(1) by (auto simp: erase_links_def)
    ultimately show ?thesis by simp
  qed
qed

lemma erase_if_idle_good:
  assumes n: "nodes s a \<noteq> None" and m: "map_of (client_tab s) key = Some a"
  shows "\<exists>s'. erase_if_idle key a s = Some s' \<and> op_failed s' = op_failed s \<and> (good K s \<longrightarrow> good K s')
     \<and> (\<forall>b. b \<noteq> a \<longrightarrow> nodes s' b = nodes s b) \<and> (\<forall>k. k \<noteq> key \<longrightarrow> map_of (client_tab s') k = map_of (client_tab s) k)"
proof -
  obtain c where c: "nodes s a = Some c" using n by blast
  show ?thesis
  proof (cases "\<not> is_active c \<and> \<not> is_powersave c \<and> peer_list c = []")
    case False
    then show ?thesis using c by (auto simp: erase_if_idle_def)
  next
    case True
    let ?s = "erase_client key a s"
    have "good K ?s" if g: "good K s"
    proof (rule erase_client_good [OF g m])
      have "skel s a = Some (c\<lparr>peer_list := [], link_list := []\<rparr>)" "idle (c\<lparr>peer_list := [], link_list := []\<rparr>)"
        using True by (simp_all add: node_views [OF c] idle_def)
      then show "links s a = {#}" using g pairedD(2) unfolding good_def by blast
      show "peers s a x = None" for x using True by (simp add: node_views [OF c])
    qed
    moreover have "map_of (client_tab ?s) k = map_of (client_tab s) k" if "k \<noteq> key" for k
    proof -
      have "map_of (filter (\<lambda>e. fst e \<noteq> key) xs) k = map_of xs k" for xs :: "(u32 list \<times> nat) list"
        using that by (induction xs) auto
      then show ?thesis by (simp add: erase_client_def)
    qed
    ultimately show ?thesis using True c by (simp add: erase_if_idle_def erase_client_def)
  qed
qed

lemma handle_del_lan2lan_connection_settled:
  assumes g: "good K s"
    and ne: "client_key (conn_ip d) (conn_src d) \<noteq> client_key (conn_ip d) (conn_dst d)"
  shows "settled K (handle_del_lan2lan_connection K d s)"
proof (cases "map_of (client_tab s) (client_key (conn_ip d) (conn_src d)) = None
    \<or> map_of (client_tab s) (client_key (conn_ip d) (conn_dst d)) = None")
  case True
  then show ?thesis using okay_settled [OF good_okay [OF g]]
    by (auto simp: handle_del_lan2lan_connection_def Let_def split: option.splits)
next
  case False
  let ?ka = "client_key (conn_ip d) (conn_src d)" and ?kb = "client_key (conn_ip d) (conn_dst d)"
  from False obtain a b where ka: "map_of (client_tab s) ?ka = Some a" and kb: "map_of (client_tab s) ?kb = Some b" by auto
  have snd: "sound K s" using g by (simp add: good_def)
  have ab: "a \<noteq> b" by (rule lookup_neq [OF snd ka kb ne])
  obtain ca0 cb0 where n: "nodes s a = Some ca0" "nodes s b = Some cb0"
    using tab_lookup(1) [OF snd ka] tab_lookup(1) [OF snd kb] by blast
  obtain s1 where 1: "remove_connection a b s = Some (peers s a b = Some 1, s1)" "sound K s1" "same_links s s1"
    using remove_connection_sound [OF snd n ab] by blast
  have k1: "okay K s1" by (rule okay_same_links [OF good_okay [OF g] 1(2,3)])
  have n1: "nodes s1 a \<noteq> None" "nodes s1 b \<noteq> None"
    using n same_links_nodes [OF 1(3), of a] same_links_nodes [OF 1(3), of b] by simp_all
  show ?thesis
  proof (cases "peers s a b = Some 1")
    case False
    then show ?thesis using ka kb 1(1) okay_settled [OF k1] by (simp add: handle_del_lan2lan_connection_def Let_def)
  next
    case True
    obtain s2 where 2: "erase_links K (conn_ip d) a b s1 = Some s2" "okay K s2" "frame K s1 s2"
      using erase_links_okay [OF k1 n1 ab] by blast
    have t2: "client_tab s2 = client_tab s" using 1(3) 2(3) by (simp add: same_links_def frame_def)
    have n2: "nodes s2 a \<noteq> None" "nodes s2 b \<noteq> None" using n1 frame_nodes [OF 2(3), of a] frame_nodes [OF 2(3), of b] by simp_all
    obtain s3 where 3: "erase_if_idle ?ka a s2 = Some s3" "op_failed s3 = op_failed s2" "good K s2 \<longrightarrow> good K s3"
      "nodes s3 b = nodes s2 b" "map_of (client_tab s3) ?kb = map_of (client_tab s2) ?kb"
      using erase_if_idle_good [OF n2(1), of ?ka K] ka ne ab unfolding t2 by metis
    obtain s4 where 4: "erase_if_idle ?kb b s3 = Some s4" "op_failed s4 = op_failed s3" "good K s3 \<longrightarrow> good K s4"
      using erase_if_idle_good [of s3 b ?kb K] n2(2) kb unfolding 3(4,5) t2 by metis
    have "op_failed s4 \<or> good K s4" using 2(2) 3(2,3) 4(2,3) by (auto simp: okay_def good_def)
    moreover have "handle_del_lan2lan_connection K d s = Some s4"
      using ka kb 1(1) True 2(1) 3(1) 4(1) by (simp add: handle_del_lan2lan_connection_def Let_def)
    ultimately show ?thesis by (simp add: settled_def)
  qed
qed

lemma handle_ct_connection_settled:
  assumes g: "good K s" and op: "\<And>s. calm K s (cache_op c s)"
  shows "settled K (handle_ct_connection ct K ev cache_op c s)"
proof -
  have snd: "sound K s" using g by (simp add: good_def)
  have "\<exists>l. is_lan2lan_connection c s = Some l"
  proof (cases "map_of (client_tab s) (client_key (conn_ip c) (conn_src c)) = None
      \<or> map_of (client_tab s) (client_key (conn_ip c) (conn_dst c)) = None")
    case True
    then show ?thesis by (auto simp: is_lan2lan_connection_def split: option.splits)
  next
    case False
    then obtain a b where m: "map_of (client_tab s) (client_key (conn_ip c) (conn_src c)) = Some a"
      "map_of (client_tab s) (client_key (conn_ip c) (conn_dst c)) = Some b" by auto
    obtain ca cb where "nodes s a = Some ca" "nodes s b = Some cb"
      using tab_lookup(1) [OF snd m(1)] tab_lookup(1) [OF snd m(2)] by blast
    with m show ?thesis by (simp add: is_lan2lan_connection_def)
  qed
  then obtain l where l: "is_lan2lan_connection c s = Some l" by blast
  obtain m k where mk: "malloc K (kern s) = (m, k)" by fastforce
  have "calm K s (s\<lparr>kern := k, posted := posted s @ [(ev, c)]\<rparr>)" "calm K s (s\<lparr>kern := k\<rparr>)" by (rule calmI; simp)+
  then show ?thesis
    using okay_settled [OF okay_calm [OF good_okay [OF g]]] okay_settled [OF good_okay [OF g]] op l mk
    by (simp add: handle_ct_connection_def)
qed

lemma cache_calm: "calm K s (cache_new_connection cfg c s)" "calm K s (remove_cache_connection cfg c s)"
  by (rule calmI; simp add: cache_new_connection_def remove_cache_connection_def)+

section \<open>The object\<close>

definition good_obj :: "'k ipa_kernel \<Rightarrow> 'k lan2lan_obj \<Rightarrow> bool" where
  "good_obj K ob \<longleftrightarrow> good K (side IPA_IP_v4 ob) \<and> good K (side IPA_IP_v6 ob)"

text \<open>A table with other interfaces that have the same properties is as good.\<close>

lemma good_transfer:
  assumes "good K s" "client_table.truncate s' = client_table.truncate s" "\<And>i. iface_ok K (ifaces s' i)"
  shows "good K s'"
proof -
  have "nodes s' = nodes s" "client_tab s' = client_tab s" "next_node s' = next_node s" "num_offload_pair s' = num_offload_pair s"
    using assms(2) by (auto simp: client_table.truncate_def)
  moreover from this(1) have "skel s' = skel s" "links s' = links s" "peers s' = peers s" "peers_distinct s' = peers_distinct s"
    by (rule views_cong)+
  ultimately show ?thesis using assms(1,3) by (simp add: good_def sound_def paired_def)
qed

lemma truncate_side: "client_table.truncate (side ip ob) = tables ob ip"
  by (simp add: side_def client_table.truncate_def client_table.extend_def)

lemma side_simps [simp]:
  "ifaces (side ip ob) = obj_ifaces ob" "op_failed (side ip ob) = obj_failed ob"
  by (simp_all add: side_def client_table.extend_def)

lemma truncate_idem [simp]: "client_table.truncate (client_table.truncate s) = client_table.truncate s"
  by (simp add: client_table.truncate_def)

lemma on_side_good:
  assumes g: "good_obj K ob" and f: "settled K (f (side (table_of ip) ob))"
  shows "\<exists>ob'. on_side ip f ob = Some ob' \<and> (obj_failed ob' \<or> good_obj K ob')"
proof -
  let ?t = "table_of ip"
  obtain s where s: "f (side ?t ob) = Some s" "op_failed s \<or> good K s" using f by (auto simp: settled_def)
  let ?ob = "set_side ?t s ob"
  have "good_obj K ?ob" if gs: "good K s"
  proof -
    have ifs: "iface_ok K (ifaces (side x ?ob) i)" for x i
      using gs by (simp add: set_side_def good_def sound_def)
    have "good K (side x ?ob)" if x: "x = IPA_IP_v4 \<or> x = IPA_IP_v6" for x
    proof (cases "x = ?t")
      case True
      then show ?thesis by (intro good_transfer [OF gs _ ifs]) (simp add: truncate_side set_side_def)
    next
      case False
      moreover have "good K (side x ob)" using g x by (auto simp: good_obj_def)
      ultimately show ?thesis by (intro good_transfer [OF _ _ ifs]) (auto simp: truncate_side set_side_def)
    qed
    then show ?thesis by (simp add: good_obj_def)
  qed
  then show ?thesis using s by (auto simp: on_side_def set_side_def)
qed

lemma good_side: "good_obj K ob \<Longrightarrow> good K (side (table_of ip) ob)"
  by (simp add: good_obj_def table_of_def)

section \<open>Runs\<close>

text \<open>
  What drives the object: an event of the dispatcher, or a call from the conntrack thread.
\<close>

datatype l2l_cmd = Dispatched ipa_cm_event_id l2l_param | Ct_new l2l_connection | Ct_del l2l_connection

text \<open>
  MAC addresses have six bytes, and the two ends of a LAN to LAN connection are different clients.
\<close>

fun cmd_ok :: "l2l_cmd \<Rightarrow> bool" where
  "cmd_ok (Dispatched ev (Lan_client (Some d))) \<longleftrightarrow> length (lc_mac d) = 6"
| "cmd_ok (Dispatched ev (Lan_connection c)) \<longleftrightarrow> client_key (conn_ip c) (conn_src c) \<noteq> client_key (conn_ip c) (conn_dst c)"
| "cmd_ok _ \<longleftrightarrow> True"

fun l2l_step :: "bool \<Rightarrow> 'x ipacm_config \<Rightarrow> 'k ipa_kernel \<Rightarrow> l2l_cmd \<Rightarrow> 'k lan2lan_obj \<Rightarrow> 'k lan2lan_obj option" where
  "l2l_step ct cfg K (Dispatched ev param) ob = event_callback ct K ev param ob"
| "l2l_step ct cfg K (Ct_new c) ob = on_side (conn_ip c) (handle_new_connection ct cfg K c) ob"
| "l2l_step ct cfg K (Ct_del c) ob = on_side (conn_ip c) (handle_del_connection ct cfg K c) ob"

lemma on_client_good:
  assumes g: "good_obj K ob" and h: "\<And>i d s. \<lbrakk>data = Some d; good K s\<rbrakk> \<Longrightarrow> settled K (h i d s)"
  shows "\<exists>ob'. on_client h data ob = Some ob' \<and> (obj_failed ob' \<or> good_obj K ob')"
proof (cases "\<exists>d i. data = Some d \<and> lc_iface d = Some i \<and> lc_ip d \<noteq> IPA_IP_MAX")
  case False
  then have "on_client h data ob = Some ob" by (auto simp: on_client_def split: option.splits)
  with g show ?thesis by simp
next
  case True
  then obtain d i where d: "data = Some d" "lc_iface d = Some i" "lc_ip d \<noteq> IPA_IP_MAX" by blast
  have "on_client h data ob = on_side (lc_ip d) (h i d) ob" using d by (simp add: on_client_def)
  moreover have "settled K (h i d (side (table_of (lc_ip d)) ob))" by (rule h [OF d(1) good_side [OF g]])
  ultimately show ?thesis using on_side_good [OF g, where ip = "lc_ip d" and f = "h i d"] by simp
qed

lemma l2l_step_good:
  assumes g: "good_obj K ob" and fit: "eth_hdrs_fit K" and ok: "cmd_ok cmd"
  shows "\<exists>ob'. l2l_step ct cfg K cmd ob = Some ob' \<and> (obj_failed ob' \<or> good_obj K ob')"
proof (cases cmd)
  case (Ct_new c)
  have "settled K (handle_new_connection ct cfg K c (side (table_of (conn_ip c)) ob))"
    unfolding handle_new_connection_def by (rule handle_ct_connection_settled [OF good_side [OF g] cache_calm(1)])
  from on_side_good [OF g, where ip = "conn_ip c" and f = "handle_new_connection ct cfg K c", OF this] show ?thesis
    by (simp add: Ct_new)
next
  case (Ct_del c)
  have "settled K (handle_del_connection ct cfg K c (side (table_of (conn_ip c)) ob))"
    unfolding handle_del_connection_def by (rule handle_ct_connection_settled [OF good_side [OF g] cache_calm(2)])
  from on_side_good [OF g, where ip = "conn_ip c" and f = "handle_del_connection ct cfg K c", OF this] show ?thesis
    by (simp add: Ct_del)
next
  case (Dispatched ev param)
  show ?thesis
  proof (cases param)
    case Other_param
    then show ?thesis using g by (simp add: Dispatched event_callback_def)
  next
    case (Lan_connection c)
    then have ne: "client_key (conn_ip c) (conn_src c) \<noteq> client_key (conn_ip c) (conn_dst c)"
      using ok by (simp add: Dispatched)
    note gs = good_side [OF g, of "conn_ip c"]
    show ?thesis
      using on_side_good [OF g, where ip = "conn_ip c" and f = "handle_new_lan2lan_connection K c",
          OF handle_new_lan2lan_connection_settled [OF gs fit ne]]
        on_side_good [OF g, where ip = "conn_ip c" and f = "handle_del_lan2lan_connection K c",
          OF handle_del_lan2lan_connection_settled [OF gs ne]] g
      by (cases ev) (simp_all add: Dispatched Lan_connection event_callback_def)
  next
    case (Lan_client data)
    have mac: "length (lc_mac d) = 6" if "data = Some d" for d using ok that by (simp add: Dispatched Lan_client)
    note on = on_client_good [OF g, where data = data]
    have "\<exists>ob'. on_client (handle_client_active ct K) data ob = Some ob' \<and> (obj_failed ob' \<or> good_obj K ob')"
      by (rule on) (rule handle_client_active_settled [OF _ fit mac])
    moreover have "\<exists>ob'. on_client (\<lambda>_. handle_client_inactive K) data ob = Some ob' \<and> (obj_failed ob' \<or> good_obj K ob')"
      by (rule on) (rule handle_client_inactive_settled)
    moreover have "\<exists>ob'. on_client (\<lambda>_. handle_client_disconnect K) data ob = Some ob' \<and> (obj_failed ob' \<or> good_obj K ob')"
      by (rule on) (rule handle_client_disconnect_settled)
    moreover have "\<exists>ob'. on_client (\<lambda>_. handle_client_power_save K) data ob = Some ob' \<and> (obj_failed ob' \<or> good_obj K ob')"
      by (rule on) (rule handle_client_power_save_settled)
    moreover have "\<exists>ob'. on_client (\<lambda>_. handle_client_power_recover ct K) data ob = Some ob' \<and> (obj_failed ob' \<or> good_obj K ob')"
      by (rule on) (rule handle_client_power_recover_settled [OF _ fit])
    ultimately show ?thesis using g
      by (cases ev) (simp_all add: Dispatched Lan_client event_callback_def)
  qed
qed

end
