(* ===== verification/Ipacm_L2L_Claims.thy ===== *)
theory Ipacm_L2L_Claims
  imports Ipacm_L2L_Run
begin

text \<open>
  The properties of the LAN to LAN offload, with a small network of two clients for witnesses,
  and the runs that show where the program goes wrong.
\<close>

section \<open>Runs\<close>

text \<open>A run stops when an operation of an interface fails; other commands than those of \<open>cmd_ok\<close> do not occur.\<close>

definition l2l_monitor :: "bool \<Rightarrow> 'x ipacm_config \<Rightarrow> 'k ipa_kernel \<Rightarrow> l2l_cmd \<Rightarrow> 'k lan2lan_obj \<Rightarrow> 'k lan2lan_obj option" where
  "l2l_monitor ct cfg K cmd ob = (if obj_failed ob \<or> \<not> cmd_ok cmd then Some ob else l2l_step ct cfg K cmd ob)"

definition l2l_inv :: "'k ipa_kernel \<Rightarrow> 'k lan2lan_obj \<Rightarrow> bool" where
  "l2l_inv K ob \<longleftrightarrow> eth_hdrs_fit K \<and> (obj_failed ob \<or> good_obj K ob)"

lemma l2l_monitor_inv:
  assumes "l2l_inv K ob"
  shows "\<exists>ob'. l2l_monitor ct cfg K cmd ob = Some ob' \<and> l2l_inv K ob'"
proof (cases "obj_failed ob \<or> \<not> cmd_ok cmd")
  case True
  then show ?thesis using assms by (simp add: l2l_monitor_def)
next
  case False
  then have "good_obj K ob" "eth_hdrs_fit K" "cmd_ok cmd" using assms by (simp_all add: l2l_inv_def)
  from l2l_step_good [OF this, of ct cfg] show ?thesis
    using False assms by (auto simp: l2l_monitor_def l2l_inv_def)
qed

interpretation l2l_run: total_steps "l2l_monitor ct cfg K" "l2l_inv K" for ct cfg K
  by unfold_locales (metis l2l_monitor_inv option.inject, metis l2l_monitor_inv)

lemma ctor_good: "\<forall>i. iface_ok K (ifs i) \<Longrightarrow> good_obj K (LanToLan_ctor ifs k)"
proof -
  assume ifs: "\<forall>i. iface_ok K (ifs i)"
  let ?s = "\<lambda>ip. side ip (LanToLan_ctor ifs k)"
  have n: "nodes (?s ip) = Map.empty" "client_tab (?s ip) = []" "next_node (?s ip) = 0" "num_offload_pair (?s ip) = 0" for ip
    by (simp_all add: side_def LanToLan_ctor_def no_clients_def client_table.extend_def)
  have v: "links (?s ip) a = {#}" "peers (?s ip) a = Map.empty" "peers_distinct (?s ip) a" "skel (?s ip) a = None" for ip a
    by (simp_all add: links_def peers_def peers_distinct_def skel_def n)
  have "ifaces (?s ip) = ifs" for ip by (simp add: LanToLan_ctor_def)
  then show ?thesis using ifs by (simp add: good_obj_def good_def sound_def paired_def n v)
qed

section \<open>A network of two clients\<close>

text \<open>A kernel that grants everything; its state is the next handle.\<close>

definition demo_kernel :: "nat ipa_kernel" where
  "demo_kernel = \<lparr>malloc = \<lambda>k. (True, k), open_wwan = \<lambda>k. (3, k), QMI_IPA_MAX_FILTERS = 64, IPA_HDR_MAX_SIZE = 64,
     IPA_RESOURCE_NAME_MAX = 20,
     IOC_ADD_FLT_RULE = \<lambda>t k. ((0, map (\<lambda>j. (0, of_nat (k + j))) [0..<length (add_flt_tbl t)]), k + length (add_flt_tbl t)),
     IOC_DEL_FLT_RULE = \<lambda>ip h k. ((0, 0), k), IOC_MDFY_FLT_RULE = \<lambda>ip h r k. (0, k),
     IOC_COMMIT_FLT = \<lambda>ip k. (0, k), IOC_RESET_FLT = \<lambda>ip k. (0, k), WAN_ADD_FLT_RULE = \<lambda>t k. (0, k),
     WAN_ADD_FLT_RULE_INDEX = \<lambda>t k. (0, k), IOC_ADD_HDR = \<lambda>h k. ((0, 0, of_nat k), k + 1), IOC_DEL_HDR = \<lambda>h k. ((0, 0), k),
     IOC_COMMIT_HDR = \<lambda>k. (0, k), IOC_RESET_HDR = \<lambda>k. (0, k), IOC_GET_HDR = \<lambda>n k. ((0, 1), k),
     IOC_COPY_HDR = \<lambda>n k. ((0, \<lparr>copied_hdr = replicate 14 0, is_eth2_ofst_valid = True, eth2_ofst = 0\<rparr>), k),
     IOC_ADD_HDR_PROC_CTX = \<lambda>h k. ((0, of_nat k), k + 1), IOC_DEL_HDR_PROC_CTX = \<lambda>h k. (0, k),
     fcntl_GETFL = \<lambda>fd k. 0, IOC_ADD_RT_RULE = \<lambda>r k. ((0, of_nat k), k + 1), IOC_DEL_RT_RULE = \<lambda>ip h k. ((0, 0), k),
     IOC_COMMIT_RT = \<lambda>ip k. (0, k), IOC_RESET_RT = \<lambda>ip k. (0, k), IOC_GET_RT_TBL = \<lambda>n k. ((0, 1), k),
     IOC_PUT_RT_TBL = \<lambda>h k. (0, k)\<rparr>"

definition demo_iface :: "ipacm_iface_type \<Rightarrow> nat \<Rightarrow> lan_iface" where
  "demo_iface t h = \<lparr>if_cat = t, wlan_client = None, rx_prop = Some (1, zero_attrib),
     tx_prop = Some (map (\<lambda>ip. \<lparr>tx_ip = ip, tx_hdr_name = ''hdr'', dst_pipe = 2, tx_attrib = zero_attrib\<rparr>) [IPA_IP_v4, IPA_IP_v6]),
     lan2lan_flt = \<lambda>_. map (\<lambda>j. \<lparr>flt_hdl = of_nat (h + j), flt_valid = False\<rparr>) [1, 2, 3], num_lan2lan_flt_rule = \<lambda>_. 0,
     lan2lan_hdr = \<lambda>_. replicate MAX_OFFLOAD_PAIR \<lparr>hdr_hdl = 0, hdr_valid = False\<rparr>, flt_rule_count = \<lambda>_. 3, hdr_fd = 5, rt_fd = 5\<rparr>"

definition demo_ifaces :: "nat \<Rightarrow> lan_iface" where
  "demo_ifaces i = (if i = 0 then demo_iface LAN_IF 0 else demo_iface WLAN_IF 10)"

definition demo_client :: "nat \<Rightarrow> lan_client" where
  "demo_client i = \<lparr>lc_ip = IPA_IP_v4, lc_addr = [of_nat i], lc_mac = [0, 0, 0, 0, 0, of_nat i], lc_iface = Some i\<rparr>"

definition demo_conn :: l2l_connection where
  "demo_conn = \<lparr>conn_ip = IPA_IP_v4, conn_src = [0], conn_dst = [1]\<rparr>"

abbreviation client_event :: "ipa_cm_event_id \<Rightarrow> nat \<Rightarrow> l2l_cmd" where
  "client_event ev i \<equiv> Dispatched ev (Lan_client (Some (demo_client i)))"

text \<open>Two clients become active and the connection that is posted then is dispatched.\<close>

definition demo_cmds :: "l2l_cmd list" where
  "demo_cmds = [client_event IPA_LAN_CLIENT_ACTIVE 0, client_event IPA_LAN_CLIENT_ACTIVE 1,
     Dispatched IPA_LAN_TO_LAN_NEW_CONNECTION (Lan_connection demo_conn)]"

definition demo_cfg :: "unit ipacm_config" where
  "demo_cfg = \<lparr>ipa_rm_tbl = [], ipa_rm_a2_check = 0, iface_table = Null, alg_table = Null, private_subnet_table = [],
     pNatIfaces = None, ipa_num_ipa_interfaces = 0, ipa_num_private_subnet = 0, ipa_num_alg_ports = 0, ipa_nat_max_entries = 0,
     ipa_nat_iface_entries = 0, ext_prop_v4 = [], ext_prop_v6 = []\<rparr>"

definition demo_run :: "l2l_cmd list \<Rightarrow> nat lan2lan_obj option" where
  "demo_run cmds = run_steps (l2l_monitor False demo_cfg demo_kernel) cmds (LanToLan_ctor demo_ifaces 100)"

definition digest :: "nat lan2lan_obj \<Rightarrow> bool \<times> u8 \<times> (nat list) option list \<times> u8 list" where
  "digest ob = (obj_failed ob, num_offload_pair (tables ob IPA_IP_v4),
     map (\<lambda>a. map_option (\<lambda>c. map link_peer (link_list c)) (nodes (tables ob IPA_IP_v4) a)) [0, 1],
     map (\<lambda>i. num_lan2lan_flt_rule (obj_ifaces ob i) IPA_IP_v4) [0, 1])"

lemma demo_ok: "eth_hdrs_fit demo_kernel" "\<forall>i. iface_ok demo_kernel (demo_ifaces i)"
  by (simp_all add: eth_hdrs_fit_def demo_kernel_def iface_ok_def demo_ifaces_def demo_iface_def MAX_NUM_PROP_def)


lemma l2l_run_good:
  assumes "eth_hdrs_fit K" "\<forall>i. iface_ok K (ifs i)"
  shows "\<exists>ob. run_steps (l2l_monitor ct cfg K) cmds (LanToLan_ctor ifs k) = Some ob \<and> (obj_failed ob \<or> good_obj K ob)"
proof -
  have "l2l_inv K (LanToLan_ctor ifs k)" using assms ctor_good [of K ifs k] by (simp add: l2l_inv_def)
  from l2l_run.run_defined [OF this, of ct cfg cmds] show ?thesis by (auto simp: l2l_inv_def)
qed

text \<open>The two clients before they are connected.\<close>

lemma demo_unconnected:
  "(case demo_run (take 2 demo_cmds) of None \<Rightarrow> False
    | Some ob \<Rightarrow> \<not> obj_failed ob \<and> map (map_of (client_tab (side IPA_IP_v4 ob))) [[0], [1]] = [Some 0, Some 1]
        \<and> map (\<lambda>a. map_option (\<lambda>c. (is_active c, peer_list c)) (nodes (side IPA_IP_v4 ob) a)) [0, 1] = [Some (True, []), Some (True, [])]
        \<and> num_offload_pair (side IPA_IP_v4 ob) = 0)"
  by code_simp

section \<open>Properties\<close>



text \<open>The first connection of two active clients gives them a link in each direction and one pair more,
  if there are fewer than three pairs; with three it is only counted.\<close>

theorem first_connection_offloads:
  assumes g: "good K s" and fit: "eth_hdrs_fit K" and ip: "conn_ip d \<noteq> IPA_IP_MAX"
    and ne: "client_key (conn_ip d) (conn_src d) \<noteq> client_key (conn_ip d) (conn_dst d)"
    and ka: "map_of (client_tab s) (client_key (conn_ip d) (conn_src d)) = Some a"
    and kb: "map_of (client_tab s) (client_key (conn_ip d) (conn_dst d)) = Some b"
    and n: "nodes s a = Some ca" "nodes s b = Some cb" and act: "is_active ca" "is_active cb"
    and new: "peers s a b = None"
  shows "\<exists>s'. handle_new_lan2lan_connection K d s = Some s' \<and> peers s' a b = Some 1 \<and> peers s' b a = Some 1 \<and>
     (op_failed s' \<or>
      (if unat (num_offload_pair s) < MAX_OFFLOAD_PAIR
       then num_offload_pair s' = num_offload_pair s + 1 \<and> links s' = (links s)(a := add_mset b (links s a), b := add_mset a (links s b))
       else num_offload_pair s' = num_offload_pair s \<and> links s' = links s))"
proof -
  have snd: "sound K s" using g by (simp add: good_def)
  have ab: "a \<noteq> b" by (rule lookup_neq [OF snd ka kb ne])
  obtain s1 where 1: "add_connection a b s = Some (True, s1)" "sound K s1" "same_links s s1" "peers s1 a b = Some 1"
    using add_connection_sound [OF snd n ab] new by auto
  have k1: "okay K s1" by (rule okay_same_links [OF good_okay [OF g] 1(2,3)])
  obtain ca1 cb1 where n1: "nodes s1 a = Some ca1" "nodes s1 b = Some cb1"
    using n same_links_nodes [OF 1(3), of a] same_links_nodes [OF 1(3), of b] by auto
  have act1: "is_active ca1" "is_active cb1"
  proof -
    have "map_option is_active (skel s1 x) = map_option is_active (skel s x)" for x using 1(3) by (simp add: same_links_def)
    from this [of a] this [of b] show "is_active ca1" "is_active cb1" using n n1 act by (simp_all add: skel_def)
  qed
  obtain s2 where 2: "offload_pair K (conn_ip d) a b s1 = Some s2" "okay K s2" "frame K s1 s2"
    and strong: "paired s1 \<and> \<not> op_failed s2 \<longrightarrow>
     (if conn_ip d \<noteq> IPA_IP_MAX \<and> unat (num_offload_pair s1) < MAX_OFFLOAD_PAIR
      then num_offload_pair s2 = num_offload_pair s1 + 1 \<and> links s2 = (links s1)(a := add_mset b (links s1 a), b := add_mset a (links s1 b))
      else num_offload_pair s2 = num_offload_pair s1 \<and> links s2 = links s1)"
    using offload_pair_effect [OF k1 fit n1 act1 ab] by blast
  have "handle_new_lan2lan_connection K d s = Some s2"
    using ka kb 1(1) n1 act1 2(1) by (simp add: handle_new_lan2lan_connection_eq)
  moreover have "peers s2 = peers s1" using 2(3) by (simp add: frame_def)
  moreover have "peers s1 b a = Some 1" using 1(4) soundD_peers(3) [OF 1(2), of a b] by simp
  moreover have "paired s1" using g paired_peers [OF 1(3)] by (simp add: good_def)
  ultimately show ?thesis using strong 1(3,4) ip by (auto simp: same_links_def)
qed

lemma first_connection_offloads_witness:
  "\<exists>ob s'. demo_run (take 2 demo_cmds) = Some ob
     \<and> handle_new_lan2lan_connection demo_kernel demo_conn (side IPA_IP_v4 ob) = Some s' \<and> peers s' 0 1 = Some 1
     \<and> (op_failed s' \<or> num_offload_pair s' = 1)"
proof -
  obtain ob where ob: "demo_run (take 2 demo_cmds) = Some ob" using demo_unconnected by (auto split: option.splits)
  let ?s = "side IPA_IP_v4 ob"
  have f: "\<not> obj_failed ob" "map_of (client_tab ?s) [0] = Some 0" "map_of (client_tab ?s) [1] = Some 1"
    "map_option (\<lambda>c. (is_active c, peer_list c)) (nodes ?s 0) = Some (True, [])"
    "map_option (\<lambda>c. (is_active c, peer_list c)) (nodes ?s 1) = Some (True, [])" "num_offload_pair ?s = 0"
    using demo_unconnected by (simp_all add: ob)
  obtain ca cb where n: "nodes ?s 0 = Some ca" "nodes ?s 1 = Some cb" "is_active ca" "is_active cb" "peer_list ca = []"
    using f(4,5) by auto
  have "good_obj demo_kernel ob"
    using l2l_run_good [OF demo_ok, of False demo_cfg "take 2 demo_cmds" 100] ob f(1) by (auto simp: demo_run_def)
  then have g: "good demo_kernel ?s" by (simp add: good_obj_def)
  have d: "client_key (conn_ip demo_conn) (conn_src demo_conn) = [0]" "client_key (conn_ip demo_conn) (conn_dst demo_conn) = [1]"
    "conn_ip demo_conn \<noteq> IPA_IP_MAX" by (simp_all add: demo_conn_def client_key_def)
  have "peers ?s 0 1 = None" by (simp add: peers_def n)
  from first_connection_offloads [OF g demo_ok(1) d(3) _ _ _ n(1,2,3,4) this] show ?thesis
    using ob f d by (auto simp: MAX_OFFLOAD_PAIR_def)
qed

text \<open>The slots of an interface for filtering rules, and the number of them in use.\<close>

definition flt_slots_ok :: "ipa_ip_type \<Rightarrow> lan_iface \<Rightarrow> bool" where
  "flt_slots_ok ip i \<longleftrightarrow> length (lan2lan_flt i ip) = MAX_OFFLOAD_PAIR \<and> distinct (map flt_hdl (lan2lan_flt i ip))
     \<and> unat (num_lan2lan_flt_rule i ip) = used_count (\<lambda>s. \<not> flt_valid s) (lan2lan_flt i ip)"

lemma add_flt_slot:
  assumes "flt_slots_ok ip i" "add_lan2lan_flt_rule K ip src dst i k = (Some h, i1, k1)"
  shows "\<exists>j < MAX_OFFLOAD_PAIR. \<not> flt_valid (lan2lan_flt i ip ! j) \<and> h = flt_hdl (lan2lan_flt i ip ! j)
     \<and> lan2lan_flt i1 = (lan2lan_flt i)(ip := (lan2lan_flt i ip)[j := (lan2lan_flt i ip ! j)\<lparr>flt_valid := True\<rparr>])
     \<and> num_lan2lan_flt_rule i1 = (num_lan2lan_flt_rule i)(ip := num_lan2lan_flt_rule i ip + 1)
     \<and> unat (num_lan2lan_flt_rule i ip) < MAX_OFFLOAD_PAIR \<and> ip \<noteq> IPA_IP_MAX"
proof -
  let ?j = "find_idx (\<lambda>s. \<not> flt_valid s) (lan2lan_flt i ip)"
  have j: "?j < MAX_OFFLOAD_PAIR" and r: "h = flt_hdl (lan2lan_flt i ip ! ?j)"
     "i1 = i\<lparr>lan2lan_flt := (lan2lan_flt i)(ip := (lan2lan_flt i ip)[?j := (lan2lan_flt i ip ! ?j)\<lparr>flt_valid := True\<rparr>]),
        num_lan2lan_flt_rule := (num_lan2lan_flt_rule i)(ip := num_lan2lan_flt_rule i ip + 1)\<rparr>"
    "unat (num_lan2lan_flt_rule i ip) < MAX_OFFLOAD_PAIR" "ip \<noteq> IPA_IP_MAX"
    using assms(2) by (auto simp: add_lan2lan_flt_rule_def Let_def split: option.splits prod.splits if_splits)
  moreover have "\<not> flt_valid (lan2lan_flt i ip ! ?j)"
    using find_idx_nth [of "\<lambda>s. \<not> flt_valid s" "lan2lan_flt i ip"] j assms(1) by (simp add: flt_slots_ok_def)
  ultimately show ?thesis by auto
qed

lemma find_idx_unique:
  assumes "distinct (map f xs)" "j < length xs"
  shows "find_idx (\<lambda>x. f x = f (xs ! j)) xs = j"
proof -
  let ?m = "find_idx (\<lambda>x. f x = f (xs ! j)) xs"
  have m: "?m < length xs" using assms(2) by (auto simp: find_idx_less_iff)
  from find_idx_nth [OF this] have "map f xs ! ?m = map f xs ! j" using assms(2) m by simp
  with assms m show ?thesis using nth_eq_iff_index_eq [OF assms(1), of ?m j] by simp
qed

text \<open>C36. A filtering rule for a pair takes a free slot and counts it; deleting it by its handle
  gives back the very table of slots and the very number there was before.\<close>

theorem filter_slot_roundtrip:
  assumes ok: "flt_slots_ok ip i" and add: "add_lan2lan_flt_rule K ip src dst i k = (Some h, i1, k1)"
    and del: "del_lan2lan_flt_rule K ip h i1 k2 = (True, i2, k3)"
  shows "flt_slots_ok ip i1 \<and> lan2lan_flt i2 = lan2lan_flt i \<and> num_lan2lan_flt_rule i2 = num_lan2lan_flt_rule i"
proof -
  obtain j where j: "j < MAX_OFFLOAD_PAIR" "\<not> flt_valid (lan2lan_flt i ip ! j)" "h = flt_hdl (lan2lan_flt i ip ! j)"
    and l1: "lan2lan_flt i1 = (lan2lan_flt i)(ip := (lan2lan_flt i ip)[j := (lan2lan_flt i ip ! j)\<lparr>flt_valid := True\<rparr>])"
    and n1: "num_lan2lan_flt_rule i1 = (num_lan2lan_flt_rule i)(ip := num_lan2lan_flt_rule i ip + 1)"
    and room: "unat (num_lan2lan_flt_rule i ip) < MAX_OFFLOAD_PAIR" and ip: "ip \<noteq> IPA_IP_MAX"
    using add_flt_slot [OF ok add] by blast
  let ?xs = "lan2lan_flt i ip"
  have len: "length ?xs = MAX_OFFLOAD_PAIR" and dist: "distinct (map flt_hdl ?xs)"
    and num: "unat (num_lan2lan_flt_rule i ip) = used_count (\<lambda>s. \<not> flt_valid s) ?xs"
    using ok by (simp_all add: flt_slots_ok_def)
  have hdls: "map flt_hdl (lan2lan_flt i1 ip) = map flt_hdl ?xs"
    using j len by (simp add: l1 map_update list_eq_iff_nth_eq nth_list_update)
  have "unat (num_lan2lan_flt_rule i ip + 1) = Suc (unat (num_lan2lan_flt_rule i ip))"
    using room by (subst unat_word_ariths(1)) (simp add: MAX_OFFLOAD_PAIR_def)
  moreover have "used_count (\<lambda>s. \<not> flt_valid s) (?xs[j := (?xs ! j)\<lparr>flt_valid := True\<rparr>]) = Suc (used_count (\<lambda>s. \<not> flt_valid s) ?xs)"
    using j len by (simp add: used_count_def used_slots_update) (simp add: used_slots_split [of j ?xs])
  ultimately have ok1: "flt_slots_ok ip i1"
    using len dist num hdls unfolding flt_slots_ok_def by (simp add: l1 n1)
  have "find_idx (\<lambda>s. flt_hdl s = h) (lan2lan_flt i1 ip) = find_idx (\<lambda>s. flt_hdl s = flt_hdl (lan2lan_flt i1 ip ! j)) (lan2lan_flt i1 ip)"
    using j len by (simp add: l1)
  also have "\<dots> = j" by (rule find_idx_unique) (use dist hdls j len in \<open>simp_all add: l1\<close>)
  finally have f: "find_idx (\<lambda>s. flt_hdl s = h) (lan2lan_flt i1 ip) = j" .
  have "lan2lan_flt i2 = (lan2lan_flt i1)(ip := (lan2lan_flt i1 ip)[j := (lan2lan_flt i1 ip ! j)\<lparr>flt_valid := False\<rparr>])"
    "num_lan2lan_flt_rule i2 = (num_lan2lan_flt_rule i1)(ip := num_lan2lan_flt_rule i1 ip - 1)"
    using del ip j f by (auto simp: del_lan2lan_flt_rule_def split: prod.splits if_splits)
  moreover have "(?xs ! j)\<lparr>flt_valid := False\<rparr> = ?xs ! j" using j by (cases "?xs ! j") simp
  ultimately show ?thesis using ok1 j len by (simp add: l1 n1)
qed

lemma filter_slot_roundtrip_witness:
  "\<exists>h i1 k1 i2. add_lan2lan_flt_rule demo_kernel IPA_IP_v4 [1] [2] (demo_iface LAN_IF 0) 100 = (Some h, i1, k1)
     \<and> fst (snd (del_lan2lan_flt_rule demo_kernel IPA_IP_v4 h i1 k1)) = i2 \<and> num_lan2lan_flt_rule i1 IPA_IP_v4 = 1
     \<and> lan2lan_flt i2 = lan2lan_flt (demo_iface LAN_IF 0)"
proof -
  let ?i = "demo_iface LAN_IF 0"
  have "flt_slots_ok IPA_IP_v4 ?i" by code_simp
  moreover obtain h i1 k1 where a: "add_lan2lan_flt_rule demo_kernel IPA_IP_v4 [1] [2] ?i 100 = (Some h, i1, k1)"
    and n: "num_lan2lan_flt_rule i1 IPA_IP_v4 = 1" and d: "fst (del_lan2lan_flt_rule demo_kernel IPA_IP_v4 h i1 k1)"
  proof -
    have "(case add_lan2lan_flt_rule demo_kernel IPA_IP_v4 [1] [2] ?i 100 of
             (Some h, i1, k1) \<Rightarrow> num_lan2lan_flt_rule i1 IPA_IP_v4 = 1 \<and> fst (del_lan2lan_flt_rule demo_kernel IPA_IP_v4 h i1 k1)
           | (None, _, _) \<Rightarrow> False)" by code_simp
    then show ?thesis using that by (auto split: prod.splits option.splits)
  qed
  ultimately show ?thesis
    using filter_slot_roundtrip [of IPA_IP_v4 ?i demo_kernel "[1]" "[2]" 100 h i1 k1 k1] by (metis prod.collapse)
qed

section \<open>Where the program goes wrong\<close>

text \<open>
  \<open>handle_client_power_save\<close> deletes the filtering rules and keeps the links, so that the rules are deleted
  again when the client goes: the counter of both interfaces wraps, and they never offload again.
\<close>

lemma power_save_deletes_rules_twice:
  "map_option digest (demo_run (demo_cmds @ [client_event IPA_LAN_CLIENT_POWER_SAVE 0, client_event IPA_LAN_CLIENT_INACTIVE 0]))
     = Some (False, 0, [Some [], Some []], [255, 255])"
  by code_simp

text \<open>
  \<open>handle_client_power_recover\<close> adds the filtering rules of the links that were kept and then, by
  \<open>check_potential_link\<close>, the links once more.
\<close>

lemma power_recover_duplicates_links:
  "map_option digest (demo_run (demo_cmds @ [client_event IPA_LAN_CLIENT_POWER_SAVE 0, client_event IPA_LAN_CLIENT_POWER_RECOVER 0]))
     = Some (False, 2, [Some [1, 1], Some [0, 0]], [2, 2])"
  by code_simp

text \<open>
  When the second direction of a pair cannot be added, the first stays: the peer disconnects and is erased, and
  the link of the client still leads to it.
\<close>

definition failing_kernel :: "nat ipa_kernel" where
  "failing_kernel = demo_kernel\<lparr>IOC_ADD_HDR := \<lambda>h k. ((if k = 102 then - 1 else 0, 0, of_nat k), k + 1)\<rparr>"

lemma half_added_pair_dangles:
  "run_steps (l2l_step False demo_cfg failing_kernel)
     (demo_cmds @ [client_event IPA_LAN_CLIENT_DISCONNECT 1, client_event IPA_LAN_CLIENT_INACTIVE 0])
     (LanToLan_ctor demo_ifaces 100) = None"
  by code_simp

text \<open>A slot for a header is marked before the header is added, and stays marked when that fails.\<close>

lemma failed_header_keeps_slot:
  "fst (snd (install_hdr failing_kernel IPA_IP_v4 [] (demo_iface LAN_IF 0) 102)) = i \<Longrightarrow> hdr_valid (lan2lan_hdr i IPA_IP_v4 ! 0)"
  by (simp add: install_hdr_def failing_kernel_def demo_kernel_def demo_iface_def MAX_OFFLOAD_PAIR_def AddHeader_def
      lan2lan_hdr_name_def numeral_3_eq_3 Let_def) (auto simp: numeral_3_eq_3)

end
