(* ===== verification/Ipacm_Iface.thy ===== *)
theory Ipacm_Iface
  imports Ipacm_Config Ipacm_Ioctl
begin

text \<open>
  The base class of the interfaces (\<^verbatim>\<open>IPACM_Iface.cpp\<close>): the table that joins interface names,
  categories and the kernel's interface indices, the query of the driver for the properties of an
  interface, its address family, its default filtering rules and its software routing rules.

  The operating system is an argument (\<open>os_env\<close>: sockets and the interface name and index requests),
  so are the interface queries of the driver (\<open>intf_driver\<close>) and its rule requests (\<open>ipa_kernel\<close>).
  \<open>None\<close> in the place of a result is a read outside of an array.
\<close>

section \<open>The interface table\<close>

record ipa_ifi_dev_name =
  iface_name :: string
  if_cat :: ipacm_iface_type
  netlink_interface_index :: int

type_synonym if_table = "ipa_ifi_dev_name list option"

record os_env =
  socket_ok :: bool
  SIOCGIFNAME :: "int \<Rightarrow> string option"
  SIOCGIFINDEX :: "string \<Rightarrow> int option"

definition INVALID_IFACE :: int where "INVALID_IFACE = -1"
definition IPA_IFACE_NAME_LEN :: nat where "IPA_IFACE_NAME_LEN = 16"

text \<open>\<open>strncmp\<close> of two names, up to the length of the table's field.\<close>

definition same_name :: "string \<Rightarrow> string \<Rightarrow> bool" where
  "same_name a b \<longleftrightarrow> take IPA_IFACE_NAME_LEN a = take IPA_IFACE_NAME_LEN b"

definition iface_ipa_index_query :: "os_env \<Rightarrow> int \<Rightarrow> if_table \<Rightarrow> int \<times> if_table" where
  "iface_ipa_index_query os interface_index tbl =
     (case tbl of
        None \<Rightarrow> (INVALID_IFACE, tbl)
      | Some t \<Rightarrow>
          (let i = find_idx (\<lambda>r. interface_index = netlink_interface_index r) t in
           if i < length t then (int i, tbl)
           else if \<not> socket_ok os then (IPACM_FAILURE, tbl)
           else (case SIOCGIFNAME os interface_index of
                   None \<Rightarrow> (IPACM_FAILURE, tbl)
                 | Some nm \<Rightarrow>
                     (let j = find_idx (\<lambda>r. same_name nm (iface_name r)) t in
                      if j < length t
                      then (int j, Some (t[j := (t ! j)\<lparr>netlink_interface_index := interface_index\<rparr>]))
                      else (INVALID_IFACE, tbl)))))"

text \<open>The row that \<open>iface_table[i]\<close> denotes.\<close>

definition iface_row :: "if_table \<Rightarrow> int \<Rightarrow> ipa_ifi_dev_name option" where
  "iface_row tbl i = (case tbl of None \<Rightarrow> None
     | Some t \<Rightarrow> if 0 \<le> i \<and> nat i < length t then Some (t ! nat i) else None)"

definition set_cat :: "int \<Rightarrow> ipacm_iface_type \<Rightarrow> if_table \<Rightarrow> if_table" where
  "set_cat i c tbl = map_option (\<lambda>t. t[nat i := (t ! nat i)\<lparr>if_cat := c\<rparr>]) tbl"

definition ipa_get_if_index :: "os_env \<Rightarrow> string \<Rightarrow> int \<Rightarrow> int \<times> int" where
  "ipa_get_if_index os if_name old =
     (if \<not> socket_ok os then (IPACM_FAILURE, old)
      else (case SIOCGIFINDEX os (take IPA_IFACE_NAME_LEN if_name) of
              None \<Rightarrow> (IPACM_FAILURE, old)
            | Some i \<Rightarrow> (IPACM_SUCCESS, i)))"

section \<open>Addresses that came before the interface\<close>

datatype ifa_addr = AF_INET u32 | AF_INET6 "u32 list" | AF_other

record ifaddr =
  ifa_name :: string
  ifa_up :: bool
  ifa_address :: "ifa_addr option"

text \<open>The fields of the posted \<open>ipacm_event_data_addr\<close> that are written; the rest is uninitialised.\<close>

datatype addr_event = Addr_v4 int u32 | Addr_v6 int "u32 list"

fun iface_addr_loop :: "'k ipa_kernel \<Rightarrow> string \<Rightarrow> int \<Rightarrow> ifaddr list \<Rightarrow> 'k \<Rightarrow> addr_event list \<times> 'k" where
  "iface_addr_loop K nm idx [] k = ([], k)"
| "iface_addr_loop K nm idx (ifa # rest) k =
     (case ifa_address ifa of
        None \<Rightarrow> iface_addr_loop K nm idx rest k
      | Some a \<Rightarrow>
          if \<not> ifa_up ifa \<or> nm \<noteq> ifa_name ifa then iface_addr_loop K nm idx rest k
          else (case a of
                  AF_other \<Rightarrow> iface_addr_loop K nm idx rest k
                | AF_INET s \<Rightarrow>
                    (case malloc K k of (m, k1) \<Rightarrow>
                       if \<not> m then ([], k1)
                       else case iface_addr_loop K nm idx rest k1 of (es, k2) \<Rightarrow> (Addr_v4 idx (ntohl s) # es, k2))
                | AF_INET6 ws \<Rightarrow>
                    (case malloc K k of (m, k1) \<Rightarrow>
                       if \<not> m then ([], k1)
                       else case iface_addr_loop K nm idx rest k1 of (es, k2) \<Rightarrow>
                         (Addr_v6 idx (map ntohl ws) # es, k2))))"

definition iface_addr_query :: "'k ipa_kernel \<Rightarrow> os_env \<Rightarrow> ifaddr list option \<Rightarrow> int \<Rightarrow> 'k
    \<Rightarrow> addr_event list \<times> 'k" where
  "iface_addr_query K os getifaddrs interface_index k =
     (if \<not> socket_ok os then ([], k)
      else (case SIOCGIFNAME os interface_index of
              None \<Rightarrow> ([], k)
            | Some nm \<Rightarrow> (case getifaddrs of
                            None \<Rightarrow> ([], k)
                          | Some ifas \<Rightarrow> iface_addr_loop K nm interface_index ifas k)))"

section \<open>The object\<close>

record tx_intf_prop =
  tx_ip :: ipa_ip_type
  dst_pipe :: u32
  tx_attrib :: ipa_rule_attrib
  tx_hdr_name :: string

record rx_intf_prop =
  rx_ip :: ipa_ip_type
  src_pipe :: u32
  rx_attrib :: ipa_rule_attrib

text \<open>
  The device's queries; \<open>QUERY_INTF\<close> gives the result and the two numbers it writes, the others the
  result and the properties they write. An allocation that fails is \<open>False\<close>.
\<close>

record intf_driver =
  open_dev :: int
  calloc_query :: bool
  calloc_tx :: bool
  calloc_rx :: bool
  QUERY_INTF :: "string \<Rightarrow> int \<times> nat \<times> nat"
  QUERY_INTF_TX_PROPS :: "string \<Rightarrow> nat \<Rightarrow> int \<times> tx_intf_prop list"
  QUERY_INTF_RX_PROPS :: "string \<Rightarrow> nat \<Rightarrow> int \<times> rx_intf_prop list"

text \<open>\<open>ip_type\<close> is \<open>None\<close> for \<open>IPACM_IP_NULL\<close>; \<open>IPA_IP_MAX\<close> stands for both families.\<close>

record ipacm_iface =
  ipa_if_num :: int
  ipa_if_cate :: ipacm_iface_type
  dev_name :: string
  ip_type :: "ipa_ip_type option"
  softwarerouting_act :: bool
  software_routing_fl_rule_hdl :: "u32 list"
  dft_v4fl_rule_hdl :: "u32 list"
  dft_v6fl_rule_hdl :: "u32 list"
  dft_rt_rule_hdl :: "u32 list"
  num_dft_rt_v6 :: int
  iface_query :: "(nat \<times> nat) option"
  tx_prop :: "tx_intf_prop list option"
  rx_prop :: "rx_intf_prop list option"
  flt_rule_count_v4 :: int
  flt_rule_count_v6 :: int

definition query_iface_property :: "intf_driver \<Rightarrow> ipacm_iface \<times> 'x ipacm_config
    \<Rightarrow> (int \<times> ipacm_iface \<times> 'x ipacm_config) option" where
  "query_iface_property D s = (case s of (f, c) \<Rightarrow>
     if open_dev D = 0 then Some (IPACM_FAILURE, f, c)
     else if \<not> calloc_query D then Some (IPACM_FAILURE, f\<lparr>iface_query := None\<rparr>, c)
     else
       (case QUERY_INTF D (dev_name f) of (r, ntx, nrx) \<Rightarrow>
        let f1 = f\<lparr>iface_query := Some (ntx, nrx)\<rparr>;
            res = (if r < 0 then IPACM_FAILURE else IPACM_SUCCESS);
            (tx, res) = (if ntx > 0 \<and> calloc_tx D
                         then (case QUERY_INTF_TX_PROPS D (dev_name f) ntx of (r2, ps) \<Rightarrow>
                                 (Some ps, if r2 < 0 then IPACM_FAILURE else res))
                         else (tx_prop f1, res))
        in if ntx > 0 \<and> \<not> calloc_tx D then Some (IPACM_FAILURE, f1\<lparr>tx_prop := None\<rparr>, c)
        else let f2 = f1\<lparr>tx_prop := tx\<rparr>;
                 (rx, res) = (if nrx > 0 \<and> calloc_rx D
                              then (case QUERY_INTF_RX_PROPS D (dev_name f) nrx of (r3, ps) \<Rightarrow>
                                      (Some ps, if r3 < 0 then IPACM_FAILURE else res))
                              else (rx_prop f2, res))
        in if nrx > 0 \<and> \<not> calloc_rx D then Some (IPACM_FAILURE, f2\<lparr>rx_prop := None\<rparr>, c)
        else let f3 = f2\<lparr>rx_prop := rx\<rparr>
        in if rx_prop f3 \<noteq> None \<or> tx_prop f3 \<noteq> None
           then map_option (\<lambda>(_, c'). (res, f3, c')) (AddNatIfaces (dev_name f3) c)
           else Some (res, f3, c)))"

definition IPACM_Iface_ctor :: "intf_driver \<Rightarrow> if_table \<Rightarrow> int \<Rightarrow> 'x ipacm_config
    \<Rightarrow> (ipacm_iface \<times> 'x ipacm_config) option" where
  "IPACM_Iface_ctor D tbl iface_index c =
     (case iface_row tbl iface_index of None \<Rightarrow> None
      | Some r \<Rightarrow>
          map_option snd (query_iface_property D
            (\<lparr>ipa_if_num = iface_index, ipa_if_cate = if_cat r, dev_name = iface_name r, ip_type = None,
              softwarerouting_act = False, software_routing_fl_rule_hdl = replicate 2 0,
              dft_v4fl_rule_hdl = replicate 3 0, dft_v6fl_rule_hdl = replicate 7 0,
              dft_rt_rule_hdl = replicate 5 0, num_dft_rt_v6 = 0, iface_query = None,
              tx_prop = None, rx_prop = None, flt_rule_count_v4 = 0, flt_rule_count_v6 = 0\<rparr>, c)))"

section \<open>Default filtering rules\<close>

definition exception_rule :: "ipa_rule_attrib \<Rightarrow> ipa_flt_rule" where
  "exception_rule a =
     \<lparr>flt_action = IPA_PASS_TO_EXCEPTION, rt_tbl_hdl = 0, rt_tbl_idx = 0, flt_attrib = a,
      eq_attrib = zero_eq, eq_attrib_type = False, retain_hdr = True\<rparr>"

definition match_dst :: "u32 list \<Rightarrow> u32 list \<Rightarrow> ipa_rule_attrib \<Rightarrow> ipa_rule_attrib" where
  "match_dst addr msk a =
     a\<lparr>attrib_mask := insert IPA_FLT_DST_ADDR (attrib_mask a), dst_addr := addr, dst_addr_mask := msk\<rparr>"

text \<open>Fragments, multicast and broadcast.\<close>

definition v4_default_rules :: "ipa_rule_attrib \<Rightarrow> (bool \<times> ipa_flt_rule) list" where
  "v4_default_rules rx =
     [(True, exception_rule (rx\<lparr>attrib_mask := insert IPA_FLT_FRAGMENT (attrib_mask rx)\<rparr>)),
      (True, exception_rule (match_dst [0xE0000000] [0xF0000000] rx)),
      (True, exception_rule (match_dst [0xFFFFFFFF] [0xFFFFFFFF] rx))]"

definition IPACM_FIREWALL_IPPROTO_TCP :: u8 where "IPACM_FIREWALL_IPPROTO_TCP = 6"

text \<open>A rule on one control bit of the TCP header, stated as equations.\<close>

definition tcp_ctrl_rule :: "ipa_rule_attrib \<Rightarrow> nat \<Rightarrow> ipa_flt_rule" where
  "tcp_ctrl_rule rx n =
     (let has_meta = IPA_FLT_META_DATA \<in> attrib_mask rx in
      (exception_rule zero_attrib)
        \<lparr>eq_attrib_type := True,
         eq_attrib := zero_eq
           \<lparr>rule_eq_bitmap := (if has_meta then push_bit 14 1 else 0) OR push_bit 1 1 OR push_bit 8 1,
            metadata_meq32 := (if has_meta then Some (0, meta_data rx, meta_data_mask rx) else None),
            protocol_eq := Some IPACM_FIREWALL_IPPROTO_TCP,
            ihl_offset_meq_32 := [(12, push_bit n 1, push_bit n 1)]\<rparr>\<rparr>)"

text \<open>Multicast, link local and site local addresses, and TCP FIN, SYN and RST.\<close>

definition v6_default_rules :: "ipa_rule_attrib \<Rightarrow> (bool \<times> ipa_flt_rule) list" where
  "v6_default_rules rx =
     [(True, exception_rule (match_dst [0xFF000000, 0, 0, 0] [0xFF000000, 0, 0, 0] rx)),
      (True, exception_rule (match_dst [0xFE800000, 0, 0, 0] [0xFFC00000, 0, 0, 0] rx)),
      (True, exception_rule (match_dst [0xFEC00000, 0, 0, 0] [0xFFC00000, 0, 0, 0] rx)),
      (True, tcp_ctrl_rule rx 16), (True, tcp_ctrl_rule rx 17), (True, tcp_ctrl_rule rx 18)]"

text \<open>The handles of the rules whose status is zero; the others keep what was there.\<close>

fun store_hdls :: "(int \<times> u32) list \<Rightarrow> u32 list \<Rightarrow> u32 list" where
  "store_hdls ((status, hdl) # rs) (x # xs) = (if status = 0 then hdl else x) # store_hdls rs xs"
| "store_hdls rs xs = xs"

text \<open>The new address family, \<open>None\<close> when the interface has the family already.\<close>

definition join_ip_type :: "ipa_ip_type \<Rightarrow> ipa_ip_type option \<Rightarrow> ipa_ip_type option" where
  "join_ip_type ipt old =
     (if ipt = IPA_IP_v4
      then (if old = Some IPA_IP_v4 \<or> old = Some IPA_IP_MAX then None
            else if old = Some IPA_IP_v6 then Some IPA_IP_MAX else Some IPA_IP_v4)
      else (if old = Some IPA_IP_v6 \<or> old = Some IPA_IP_MAX then None
            else if old = Some IPA_IP_v4 then Some IPA_IP_MAX else Some IPA_IP_v6))"

text \<open>The dependency of the receiving pipe, requested before the rules are added.\<close>

definition depend_on_rx :: "(u32 \<Rightarrow> ipa_rm_resource_name) \<Rightarrow> ipacm_iface_type \<Rightarrow> ipacm_iface
    \<Rightarrow> 'x ipacm_config \<times> rm_request list \<Rightarrow> ('x ipacm_config \<times> rm_request list) option" where
  "depend_on_rx ipa_client_rm_map_tbl cat f c =
     (if cat = WAN_IF \<or> cat = EMBMS_IF then Some c
      else (case rx_prop f of
              Some [] \<Rightarrow> None
            | Some (p # _) \<Rightarrow> Some (AddRmDepend (ipa_client_rm_map_tbl (src_pipe p)) False c)
            | None \<Rightarrow>
                (let c1 = (if dev_name f = ''wlan0'' \<or> dev_name f = ''wlan1''
                           then AddRmDepend IPA_RM_RESOURCE_HSIC_PROD True c else c)
                 in Some (if dev_name f = ''ecm0'' then AddRmDepend IPA_RM_RESOURCE_USB_PROD True c1 else c1))))"

definition add_default_rules :: "'k ipa_kernel \<Rightarrow> ipa_ip_type \<Rightarrow> rx_intf_prop \<Rightarrow> ipacm_iface \<Rightarrow> 'k
    \<Rightarrow> int \<times> ipacm_iface \<times> 'k" where
  "add_default_rules K ipt p f k =
     (case malloc K k of (m, k1) \<Rightarrow>
      if \<not> m then (IPACM_FAILURE, f, k1)
      else if ipt = IPA_IP_v4 then
        (case AddFilteringRule K \<lparr>add_flt_ip = ipt, add_flt_ep = src_pipe p, add_flt_global = False,
                                  add_flt_tbl = v4_default_rules (rx_attrib p)\<rparr> k1 of
           (None, k2) \<Rightarrow> (IPACM_FAILURE, f, k2)
         | (Some rs, k2) \<Rightarrow>
             (IPACM_SUCCESS, f\<lparr>flt_rule_count_v4 := flt_rule_count_v4 f + 3,
                               dft_v4fl_rule_hdl := store_hdls (take 3 rs) (dft_v4fl_rule_hdl f)\<rparr>, k2))
      else
        (case AddFilteringRule K \<lparr>add_flt_ip = ipt, add_flt_ep = src_pipe p, add_flt_global = False,
                                  add_flt_tbl = v6_default_rules (rx_attrib p)\<rparr> k1 of
           (None, k2) \<Rightarrow> (IPACM_FAILURE, f, k2)
         | (Some rs, k2) \<Rightarrow>
             (IPACM_SUCCESS, f\<lparr>flt_rule_count_v6 := flt_rule_count_v6 f + 6,
                               dft_v6fl_rule_hdl := store_hdls (take 6 rs) (dft_v6fl_rule_hdl f)\<rparr>, k2)))"

type_synonym ('x, 'k) iface_world = "ipacm_iface \<times> ('x ipacm_config \<times> rm_request list) \<times> 'k"

definition init_fl_rule :: "'k ipa_kernel \<Rightarrow> (u32 \<Rightarrow> ipa_rm_resource_name) \<Rightarrow> if_table \<Rightarrow> ipa_ip_type
    \<Rightarrow> ('x, 'k) iface_world \<Rightarrow> (int \<times> ('x, 'k) iface_world) option" where
  "init_fl_rule K ipa_client_rm_map_tbl tbl ipt s = (case s of (f, c, k) \<Rightarrow>
     case join_ip_type ipt (ip_type f) of
       None \<Rightarrow> Some (IPACM_SUCCESS, s)
     | Some ip \<Rightarrow>
         (let f1 = f\<lparr>ip_type := Some ip\<rparr> in
          case iface_row tbl (ipa_if_num f1) of
            None \<Rightarrow> None
          | Some r \<Rightarrow>
              (case depend_on_rx ipa_client_rm_map_tbl (if_cat r) f1 c of
                 None \<Rightarrow> None
               | Some c1 \<Rightarrow>
                   (case rx_prop f1 of
                      None \<Rightarrow> Some (IPACM_SUCCESS, f1, c1, k)
                    | Some [] \<Rightarrow> None
                    | Some (p # _) \<Rightarrow>
                        (case add_default_rules K ipt p f1 k of (res, f2, k2) \<Rightarrow> Some (res, f2, c1, k2))))))"

section \<open>Software routing\<close>

definition sw_rule :: "rx_intf_prop \<Rightarrow> ipa_ip_type \<Rightarrow> ipa_ioc_add_flt_rule" where
  "sw_rule p ip =
     \<lparr>add_flt_ip = ip, add_flt_ep = src_pipe p, add_flt_global = False,
      add_flt_tbl = [(False, (exception_rule (rx_attrib p))\<lparr>retain_hdr := False\<rparr>)]\<rparr>"

text \<open>One of the two requests: \<open>None\<close> when the call or its rule fails.\<close>

definition add_sw_rule :: "'k ipa_kernel \<Rightarrow> rx_intf_prop \<Rightarrow> ipa_ip_type \<Rightarrow> 'k \<Rightarrow> u32 option \<times> 'k" where
  "add_sw_rule K p ip k =
     (case AddFilteringRule K (sw_rule p ip) k of
        (Some ((status, hdl) # _), k1) \<Rightarrow> (if status \<noteq> 0 then None else Some hdl, k1)
      | (_, k1) \<Rightarrow> (None, k1))"

definition handle_software_routing_enable :: "'k ipa_kernel \<Rightarrow> ipacm_iface \<times> 'k
    \<Rightarrow> (int \<times> ipacm_iface \<times> 'k) option" where
  "handle_software_routing_enable K s = (case s of (f, k) \<Rightarrow>
     if softwarerouting_act f then Some (IPACM_SUCCESS, f, k)
     else (case rx_prop f of
             None \<Rightarrow> Some (IPACM_SUCCESS, f, k)
           | Some [] \<Rightarrow> None
           | Some (p # _) \<Rightarrow>
               (case malloc K k of (m, k0) \<Rightarrow>
                if \<not> m then Some (IPACM_FAILURE, f, k0)
                else (case add_sw_rule K p IPA_IP_v4 k0 of
                   (None, k1) \<Rightarrow> Some (IPACM_FAILURE, f, k1)
                 | (Some h4, k1) \<Rightarrow>
                     (let f1 = f\<lparr>software_routing_fl_rule_hdl := (software_routing_fl_rule_hdl f)[0 := h4]\<rparr> in
                      case add_sw_rule K p IPA_IP_v6 k1 of
                        (None, k2) \<Rightarrow> Some (IPACM_FAILURE, f1, k2)
                      | (Some h6, k2) \<Rightarrow>
                          Some (IPACM_SUCCESS,
                                f1\<lparr>software_routing_fl_rule_hdl := (software_routing_fl_rule_hdl f1)[1 := h6],
                                   softwarerouting_act := True\<rparr>, k2))))))"

definition handle_software_routing_disable :: "'k ipa_kernel \<Rightarrow> ipacm_iface \<times> 'k \<Rightarrow> int \<times> ipacm_iface \<times> 'k" where
  "handle_software_routing_disable K s = (case s of (f, k) \<Rightarrow>
     if rx_prop f = None \<or> \<not> softwarerouting_act f then (IPACM_SUCCESS, f, k)
     else (case DeleteFilteringHdls K [software_routing_fl_rule_hdl f ! 0] IPA_IP_v4 k of
        (False, k1) \<Rightarrow> (IPACM_FAILURE, f, k1)
      | (True, k1) \<Rightarrow>
          (case DeleteFilteringHdls K [software_routing_fl_rule_hdl f ! 1] IPA_IP_v6 k1 of
             (False, k2) \<Rightarrow> (IPACM_FAILURE, f, k2)
           | (True, k2) \<Rightarrow> (IPACM_SUCCESS, f\<lparr>softwarerouting_act := False\<rparr>, k2))))"

section \<open>String helpers\<close>

text \<open>
  \<open>strlcpy\<close> and \<open>strlcat\<close> on a destination of known size; the source is a string without its
  terminator. \<open>None\<close> is a write outside of the destination, or a search for its end that leaves it.
\<close>

definition NUL :: char where "NUL = CHR 0x00"

definition write_str :: "string \<Rightarrow> nat \<Rightarrow> string \<Rightarrow> nat \<Rightarrow> string option" where
  "write_str dest off src len =
     (if off + len < length dest
      then Some (take off dest @ take len src @ NUL # drop (Suc (off + len)) dest)
      else None)"

definition strlcpy :: "string \<Rightarrow> string \<Rightarrow> nat \<Rightarrow> (nat \<times> string) option" where
  "strlcpy dest src n =
     (let ret = length src in
      if n > 0 then map_option (\<lambda>d. (ret, d)) (write_str dest 0 src (if ret \<ge> n then n - 1 else ret))
      else Some (ret, dest))"

definition strlcat :: "string \<Rightarrow> string \<Rightarrow> nat \<Rightarrow> (nat \<times> string) option" where
  "strlcat dest src n =
     (let dsize = find_idx (\<lambda>c. c = NUL) dest; len = length src; ret = dsize + len in
      if dsize = length dest then None
      else if dsize < n
      then map_option (\<lambda>d. (ret, d)) (write_str dest dsize src (if len \<ge> n - dsize then n - dsize - 1 else len))
      else Some (ret, dest))"

text \<open>The string in a buffer.\<close>

definition c_string :: "string \<Rightarrow> string" where
  "c_string d = takeWhile (\<lambda>c. c \<noteq> NUL) d"

section \<open>The interface table: lemmas\<close>

lemma same_name_refl [simp]: "same_name a a"
  by (simp add: same_name_def)

lemma find_idx_update_other:
  "i < length xs \<Longrightarrow> \<forall>x \<in> set xs. \<not> P x \<Longrightarrow> P x' \<Longrightarrow> find_idx P (xs[i := x']) = i"
proof (induction xs arbitrary: i)
  case (Cons x xs)
  then show ?case by (cases i) auto
qed simp

lemma iface_query_cases:
  assumes "iface_ipa_index_query os idx (Some t) = (i, tbl)"
  shows "(i = -1 \<and> tbl = Some t)
    \<or> (\<exists>t'. tbl = Some t' \<and> 0 \<le> i \<and> nat i < length t \<and> netlink_interface_index (t' ! nat i) = idx
        \<and> map iface_name t' = map iface_name t \<and> map if_cat t' = map if_cat t
        \<and> (\<forall>os'. iface_ipa_index_query os' idx (Some t') = (i, Some t')))"
proof (cases "find_idx (\<lambda>r. idx = netlink_interface_index r) t < length t")
  case True
  with find_idx_nth [OF True] assms show ?thesis
    by (auto simp: iface_ipa_index_query_def Let_def)
next
  case False
  then have none: "\<forall>r \<in> set t. idx \<noteq> netlink_interface_index r"
    using find_idx_less_iff [of "\<lambda>r. idx = netlink_interface_index r" t] by auto
  show ?thesis
  proof (cases "\<exists>nm. socket_ok os \<and> SIOCGIFNAME os idx = Some nm
      \<and> find_idx (\<lambda>r. same_name nm (iface_name r)) t < length t")
    case found: True
    then obtain nm where nm: "socket_ok os" "SIOCGIFNAME os idx = Some nm"
      and j: "find_idx (\<lambda>r. same_name nm (iface_name r)) t < length t" by blast
    let ?j = "find_idx (\<lambda>r. same_name nm (iface_name r)) t"
    let ?t = "t[?j := (t ! ?j)\<lparr>netlink_interface_index := idx\<rparr>]"
    have r: "i = int ?j" "tbl = Some ?t"
      using assms False nm j by (simp_all add: iface_ipa_index_query_def Let_def)
    have "find_idx (\<lambda>r. idx = netlink_interface_index r) ?t = ?j"
      by (rule find_idx_update_other) (use j none in auto)
    then have "iface_ipa_index_query os' idx (Some ?t) = (int ?j, Some ?t)" for os'
      using j by (simp add: iface_ipa_index_query_def Let_def)
    moreover have "map iface_name ?t = map iface_name t" "map if_cat ?t = map if_cat t"
      using j by (auto simp: map_update list_update_id [of "map f t" for f, symmetric] nth_map intro!: nth_equalityI simp: nth_list_update)
    ultimately show ?thesis using r j by auto
  next
    case False': False
    with assms False show ?thesis
      by (auto simp: iface_ipa_index_query_def Let_def INVALID_IFACE_def IPACM_FAILURE_def split: if_splits option.splits)
  qed
qed

text \<open>The query for an interface: it fails and leaves the table, or it gives a row of the table that
  then holds the kernel's index, with every name and category as before; and from then on the same
  query gives the same row, without asking the kernel.\<close>

theorem iface_ipa_index_query_caches:
  assumes "iface_ipa_index_query os idx (Some t) = (i, tbl)"
  shows "(i = -1 \<and> tbl = Some t)
    \<or> (\<exists>t'. tbl = Some t' \<and> 0 \<le> i \<and> nat i < length t \<and> netlink_interface_index (t' ! nat i) = idx
        \<and> map iface_name t' = map iface_name t \<and> map if_cat t' = map if_cat t
        \<and> (\<forall>os'. iface_ipa_index_query os' idx (Some t') = (i, Some t')))"
  by (rule iface_query_cases [OF assms])

text \<open>An index that the kernel has given to another interface still leads to the old row.\<close>

lemma reused_index_is_stale:
  "iface_ipa_index_query \<lparr>socket_ok = True, SIOCGIFNAME = (\<lambda>_. Some ''rndis0''), SIOCGIFINDEX = (\<lambda>_. Some 7)\<rparr> 7
     (Some [\<lparr>iface_name = ''wlan0'', if_cat = WLAN_IF, netlink_interface_index = 7\<rparr>,
            \<lparr>iface_name = ''rndis0'', if_cat = LAN_IF, netlink_interface_index = 0\<rparr>])
   = (0, Some [\<lparr>iface_name = ''wlan0'', if_cat = WLAN_IF, netlink_interface_index = 7\<rparr>,
            \<lparr>iface_name = ''rndis0'', if_cat = LAN_IF, netlink_interface_index = 0\<rparr>])"
  by (simp add: iface_ipa_index_query_def)

section \<open>Default rules: lemmas\<close>

lemma add_default_rules_ip_type:
  "add_default_rules K ipt p f k = (res, f', k') \<Longrightarrow> ip_type f' = ip_type f"
  by (auto simp: add_default_rules_def split: prod.splits option.splits if_splits)

lemma init_fl_rule_ip_type:
  assumes "init_fl_rule K mp tbl ipt (f, c, k) = Some (res, f', c', k')"
  shows "ip_type f' = (case join_ip_type ipt (ip_type f) of None \<Rightarrow> ip_type f | Some ip \<Rightarrow> Some ip)"
proof (cases "join_ip_type ipt (ip_type f)")
  case None
  then show ?thesis using assms by (simp add: init_fl_rule_def)
next
  case (Some ip)
  then show ?thesis using assms
    by (auto simp: init_fl_rule_def Let_def dest!: add_default_rules_ip_type
        split: option.splits list.splits prod.splits)
qed

lemma join_ip_type_idem:
  "join_ip_type ipt (case join_ip_type ipt old of None \<Rightarrow> old | Some ip \<Rightarrow> Some ip) = None"
  by (auto simp: join_ip_type_def)

text \<open>The default rules of a family are asked for once: when \<^verbatim>\<open>init_fl_rule\<close> has run for a family,
  whatever its result, every later call for that family succeeds, asks the driver for nothing and
  changes nothing, so rules that could not be added the first time are never added.\<close>

theorem init_fl_rule_tried_once:
  assumes "init_fl_rule K mp tbl ipt (f, c, k) = Some (res, f', c', k')"
  shows "init_fl_rule K' mp' tbl' ipt (f', c2, k2) = Some (IPACM_SUCCESS, f', c2, k2)"
  using join_ip_type_idem [of ipt "ip_type f"] init_fl_rule_ip_type [OF assms]
  by (simp add: init_fl_rule_def)

section \<open>Software routing: lemmas\<close>

text \<open>
  What the driver documents of its filtering table, for a reading \<open>rules\<close> of its state as a
  multiset of families and handles.
\<close>

definition keeps_rules :: "'k ipa_kernel \<Rightarrow> ('k \<Rightarrow> (ipa_ip_type \<times> u32) multiset) \<Rightarrow> bool" where
  "keeps_rules K rules \<longleftrightarrow>
     (\<forall>k. rules (snd (malloc K k)) = rules k)
   \<and> (\<forall>t k ret rs k'. IOC_ADD_FLT_RULE K t k = ((ret, rs), k') \<longrightarrow>
        rules k' = rules k + (if ret = 0
          then mset (map (\<lambda>(s, h). (add_flt_ip t, h)) (filter (\<lambda>(s, h). s = 0) rs)) else {#})
        \<and> (ret = 0 \<longrightarrow> length rs = length (add_flt_tbl t)) \<and> (\<forall>h. (0, h) \<in> set rs \<longrightarrow> h \<noteq> 0))
   \<and> (\<forall>ip h k k'. IOC_DEL_FLT_RULE K ip h k = ((0, 0), k') \<longrightarrow> rules k' = rules k - {#(ip, h)#})"

lemma add_sw_rule_rules:
  assumes "keeps_rules K rules" "add_sw_rule K p ip k = (r, k')"
  shows "case r of None \<Rightarrow> rules k' = rules k
    | Some h \<Rightarrow> rules k' = add_mset (ip, h) (rules k) \<and> h \<noteq> 0"
proof -
  obtain ret rs k1 where a: "IOC_ADD_FLT_RULE K (sw_rule p ip) k = ((ret, rs), k1)" by (metis prod.exhaust)
  then have l: "rules k1 = rules k + (if ret = 0
          then mset (map (\<lambda>(s, h). (ip, h)) (filter (\<lambda>(s, h). s = 0) rs)) else {#})"
    "ret = 0 \<Longrightarrow> length rs = 1" "\<And>h. (0, h) \<in> set rs \<Longrightarrow> h \<noteq> 0"
    using assms(1) by (auto simp: keeps_rules_def sw_rule_def)
  show ?thesis
  proof (cases "ret = 0")
    case True
    with l(2) obtain s h where "rs = [(s, h)]" by (cases rs) auto
    then show ?thesis using assms(2) a l True
      by (auto simp: add_sw_rule_def AddFilteringRule_def on_zero_def split: if_splits)
  next
    case False
    then show ?thesis using assms(2) a l
      by (auto simp: add_sw_rule_def AddFilteringRule_def on_zero_def)
  qed
qed

lemma DeleteFilteringHdls_one:
  assumes "keeps_rules K rules" "DeleteFilteringHdls K [h] ip k = (True, k')" "h \<noteq> 0"
  shows "rules k' = rules k - {#(ip, h)#}"
proof -
  obtain ok k1 where m: "malloc K k = (ok, k1)" by force
  obtain ret st k2 where d: "IOC_DEL_FLT_RULE K ip h k1 = ((ret, st), k2)" by (metis prod.exhaust)
  have "rules k1 = rules k" using assms(1) m by (metis keeps_rules_def snd_conv)
  moreover have "ret = 0 \<and> st = 0 \<and> k' = k2"
    using assms(2,3) m d by (auto simp: DeleteFilteringHdls_def DeleteFilteringRule_def on_zero_def split: if_splits)
  moreover have "IOC_DEL_FLT_RULE K ip h k1 = ((0, 0), k2) \<Longrightarrow> rules k2 = rules k1 - {#(ip, h)#}"
    using assms(1) by (auto simp: keeps_rules_def)
  ultimately show ?thesis using d by simp
qed

text \<open>C18. Software routing on and off: when both calls succeed the driver's rules are those from
  before; when switching on fails, switching off reports success and deletes nothing, so that an
  IPv4 rule which was added before the IPv6 rule failed stays in the driver.\<close>

theorem software_routing_cycle:
  assumes K: "keeps_rules K rules"
    and f: "\<not> softwarerouting_act f" "rx_prop f = Some (p # ps)" "length (software_routing_fl_rule_hdl f) = 2"
    and on: "handle_software_routing_enable K (f, k) = Some (r1, f1, k1)"
    and off: "handle_software_routing_disable K (f1, k1) = (r2, f2, k2)"
  shows "(r1 = IPACM_SUCCESS \<and> r2 = IPACM_SUCCESS \<longrightarrow> \<not> softwarerouting_act f2 \<and> rules k2 = rules k)
    \<and> (r1 \<noteq> IPACM_SUCCESS \<longrightarrow> r2 = IPACM_SUCCESS \<and> f2 = f1 \<and> k2 = k1 \<and> \<not> softwarerouting_act f2
        \<and> (rules k2 = rules k \<or> (\<exists>h. rules k2 = add_mset (IPA_IP_v4, h) (rules k))))"
proof -
  obtain m k0 where m: "malloc K k = (m, k0)" by force
  then have k0: "rules k0 = rules k" using K by (metis keeps_rules_def snd_conv)
  obtain a4 k4 where a4: "add_sw_rule K p IPA_IP_v4 k0 = (a4, k4)" by force
  note r4 = add_sw_rule_rules [OF K a4]
  obtain a6 k6 where a6: "add_sw_rule K p IPA_IP_v6 k4 = (a6, k6)" by force
  note r6 = add_sw_rule_rules [OF K a6]
  show ?thesis
  proof (cases "m \<and> a4 \<noteq> None \<and> a6 \<noteq> None")
    case False
    then have "r1 \<noteq> IPACM_SUCCESS" "\<not> softwarerouting_act f1"
      "rules k1 = rules k \<or> (\<exists>h. rules k1 = add_mset (IPA_IP_v4, h) (rules k))"
      using on f m a4 a6 r4 r6 k0
      by (auto simp: handle_software_routing_enable_def Let_def IPACM_SUCCESS_def IPACM_FAILURE_def
          split: if_splits option.splits)
    then show ?thesis using off by (auto simp: handle_software_routing_disable_def)
  next
    case True
    then obtain h4 h6 where h: "a4 = Some h4" "a6 = Some h6" by auto
    then have f1: "r1 = IPACM_SUCCESS" "k1 = k6" "softwarerouting_act f1" "rx_prop f1 = Some (p # ps)"
      "software_routing_fl_rule_hdl f1 = [h4, h6]"
      using on f m a4 a6 True
      by (auto simp: handle_software_routing_enable_def Let_def numeral_2_eq_2 length_Suc_conv)
    obtain b1 q1 where d1: "DeleteFilteringHdls K [h4] IPA_IP_v4 k1 = (b1, q1)" by force
    obtain b2 q2 where d2: "DeleteFilteringHdls K [h6] IPA_IP_v6 q1 = (b2, q2)" by force
    have "rules k1 = add_mset (IPA_IP_v6, h6) (add_mset (IPA_IP_v4, h4) (rules k))" "h4 \<noteq> 0" "h6 \<noteq> 0"
      using r4 r6 h k0 f1(2) by auto
    moreover have "b1 \<and> b2 \<and> k2 = q2 \<and> \<not> softwarerouting_act f2" if "r2 = IPACM_SUCCESS"
      using off that f1 d1 d2
      by (auto simp: handle_software_routing_disable_def IPACM_SUCCESS_def IPACM_FAILURE_def split: bool.splits)
    ultimately show ?thesis
      using DeleteFilteringHdls_one [OF K, of h4 IPA_IP_v4 k1 q1] d1
        DeleteFilteringHdls_one [OF K, of h6 IPA_IP_v6 q1 q2] d2 f1(1) by auto
  qed
qed

section \<open>Witnesses\<close>

text \<open>A driver that keeps a list of its rules and may refuse IPv6 rules.\<close>

definition list_kernel :: "bool \<Rightarrow> (ipa_ip_type \<times> u32) list ipa_kernel" where
  "list_kernel refuse6 =
     \<lparr>malloc = (\<lambda>k. (True, k)), open_wwan = (\<lambda>k. (3, k)), QMI_IPA_MAX_FILTERS = 64, IPA_HDR_MAX_SIZE = 64,
      IPA_RESOURCE_NAME_MAX = 20,
      IOC_ADD_FLT_RULE = (\<lambda>t k. if refuse6 \<and> add_flt_ip t = IPA_IP_v6 then ((-1, []), k)
        else ((0, map (\<lambda>_. (0, 5)) (add_flt_tbl t)), map (\<lambda>_. (add_flt_ip t, 5)) (add_flt_tbl t) @ k)),
      IOC_DEL_FLT_RULE = (\<lambda>ip h k. ((0, 0), remove1 (ip, h) k)), IOC_MDFY_FLT_RULE = (\<lambda>_ _ _ k. (0, k)),
      IOC_COMMIT_FLT = (\<lambda>_ k. (0, k)), IOC_RESET_FLT = (\<lambda>_ k. (0, k)), WAN_ADD_FLT_RULE = (\<lambda>_ k. (0, k)),
      WAN_ADD_FLT_RULE_INDEX = (\<lambda>_ k. (0, k)), IOC_ADD_HDR = (\<lambda>_ k. ((0, 0, 0), k)), IOC_DEL_HDR = (\<lambda>_ k. ((0, 0), k)),
      IOC_COMMIT_HDR = (\<lambda>k. (0, k)), IOC_RESET_HDR = (\<lambda>k. (0, k)), IOC_GET_HDR = (\<lambda>_ k. ((0, 0), k)),
      IOC_COPY_HDR = (\<lambda>_ k. ((0, \<lparr>copied_hdr = [], is_eth2_ofst_valid = False, eth2_ofst = 0\<rparr>), k)),
      IOC_ADD_HDR_PROC_CTX = (\<lambda>_ k. ((0, 0), k)), IOC_DEL_HDR_PROC_CTX = (\<lambda>_ k. (0, k)), fcntl_GETFL = (\<lambda>_ _. 0),
      IOC_ADD_RT_RULE = (\<lambda>_ k. ((0, 0), k)), IOC_DEL_RT_RULE = (\<lambda>_ _ k. ((0, 0), k)), IOC_COMMIT_RT = (\<lambda>_ k. (0, k)),
      IOC_RESET_RT = (\<lambda>_ k. (0, k)), IOC_GET_RT_TBL = (\<lambda>_ k. ((0, 0), k)), IOC_PUT_RT_TBL = (\<lambda>_ k. (0, k))\<rparr>"

definition sample_iface :: ipacm_iface where
  "sample_iface =
     \<lparr>ipa_if_num = 0, ipa_if_cate = LAN_IF, dev_name = ''rndis0'', ip_type = None, softwarerouting_act = False,
      software_routing_fl_rule_hdl = [0, 0], dft_v4fl_rule_hdl = replicate 3 0, dft_v6fl_rule_hdl = replicate 7 0,
      dft_rt_rule_hdl = replicate 5 0, num_dft_rt_v6 = 0, iface_query = Some (0, 1), tx_prop = None,
      rx_prop = Some [\<lparr>rx_ip = IPA_IP_v4, src_pipe = 3, rx_attrib = zero_attrib\<rparr>],
      flt_rule_count_v4 = 0, flt_rule_count_v6 = 0\<rparr>"

lemma map_filter_const: "P c \<Longrightarrow> map f (filter P (map (\<lambda>_. c) xs)) = map (\<lambda>_. f c) xs"
  by (induction xs) auto

lemma list_kernel_keeps_rules: "keeps_rules (list_kernel b) mset"
proof -
  have "mset (map (\<lambda>_. (ip, 5)) xs) = mset (map (\<lambda>(s, h). (ip, h)) (filter (\<lambda>(s, h). s = 0) (map (\<lambda>_. (0 :: int, 5 :: u32)) xs)))"
    for ip :: ipa_ip_type and xs :: "(bool \<times> ipa_flt_rule) list"
    by (subst map_filter_const) simp_all
  then show ?thesis
    by (auto simp: keeps_rules_def list_kernel_def simp del: mset_map mset_filter split: if_splits)
qed

text \<open>The second of the two driver states is what switching off leaves after a failed switching on.\<close>

theorem software_routing_cycle_witness:
  "(let (f1, k1) = (case handle_software_routing_enable (list_kernel False) (sample_iface, []) of Some (_, s) \<Rightarrow> s)
    in mset (snd (snd (handle_software_routing_disable (list_kernel False) (f1, k1)))) = {#})
   \<and> handle_software_routing_enable (list_kernel True) (sample_iface, []) =
       Some (IPACM_FAILURE, sample_iface\<lparr>software_routing_fl_rule_hdl := [5, 0]\<rparr>, [(IPA_IP_v4, 5)])"
proof -
  let ?f = "sample_iface\<lparr>software_routing_fl_rule_hdl := [5, 5], softwarerouting_act := True\<rparr>"
  let ?k = "[(IPA_IP_v6, 5), (IPA_IP_v4, 5)]"
  have on: "handle_software_routing_enable (list_kernel False) (sample_iface, []) = Some (IPACM_SUCCESS, ?f, ?k)"
    by (simp add: handle_software_routing_enable_def sample_iface_def list_kernel_def add_sw_rule_def
        AddFilteringRule_def on_zero_def sw_rule_def)
  have off: "handle_software_routing_disable (list_kernel False) (?f, ?k) =
      (IPACM_SUCCESS, ?f\<lparr>softwarerouting_act := False\<rparr>, [])"
    by (simp add: handle_software_routing_disable_def sample_iface_def list_kernel_def
        DeleteFilteringHdls_def DeleteFilteringRule_def on_zero_def)
  have "mset ([] :: (ipa_ip_type \<times> u32) list) = mset []"
    using software_routing_cycle [OF list_kernel_keeps_rules _ _ _ on off] by (simp add: sample_iface_def)
  then show ?thesis using off
    by (simp add: on) (simp add: handle_software_routing_enable_def sample_iface_def list_kernel_def add_sw_rule_def
        AddFilteringRule_def on_zero_def sw_rule_def)
qed

theorem iface_ipa_index_query_caches_witness:
  "\<exists>t'. iface_ipa_index_query \<lparr>socket_ok = True, SIOCGIFNAME = (\<lambda>_. Some ''rndis0''), SIOCGIFINDEX = (\<lambda>_. None)\<rparr> 7
      (Some [\<lparr>iface_name = ''wlan0'', if_cat = WLAN_IF, netlink_interface_index = 4\<rparr>,
             \<lparr>iface_name = ''rndis0'', if_cat = LAN_IF, netlink_interface_index = 0\<rparr>]) = (1, Some t')
    \<and> iface_ipa_index_query \<lparr>socket_ok = False, SIOCGIFNAME = (\<lambda>_. None), SIOCGIFINDEX = (\<lambda>_. None)\<rparr> 7 (Some t')
      = (1, Some t')"
proof -
  let ?q = "iface_ipa_index_query \<lparr>socket_ok = True, SIOCGIFNAME = (\<lambda>_. Some ''rndis0''), SIOCGIFINDEX = (\<lambda>_. None)\<rparr> 7
      (Some [\<lparr>iface_name = ''wlan0'', if_cat = WLAN_IF, netlink_interface_index = 4\<rparr>,
             \<lparr>iface_name = ''rndis0'', if_cat = LAN_IF, netlink_interface_index = 0\<rparr>])"
  have q: "?q = (1, Some [\<lparr>iface_name = ''wlan0'', if_cat = WLAN_IF, netlink_interface_index = 4\<rparr>,
             \<lparr>iface_name = ''rndis0'', if_cat = LAN_IF, netlink_interface_index = 7\<rparr>])"
    by (simp add: iface_ipa_index_query_def same_name_def IPA_IFACE_NAME_LEN_def Let_def)
  from iface_ipa_index_query_caches [OF q] show ?thesis unfolding q by auto
qed

theorem init_fl_rule_tried_once_witness:
  "(case init_fl_rule (list_kernel True) (\<lambda>_. IPA_RM_RESOURCE_USB_PROD)
          (Some [\<lparr>iface_name = ''rndis0'', if_cat = WAN_IF, netlink_interface_index = 7\<rparr>]) IPA_IP_v6
          (sample_iface, (sample_config, []), []) of
      Some (res, f', c', k') \<Rightarrow> res = IPACM_FAILURE \<and> k' = []
        \<and> init_fl_rule (list_kernel False) (\<lambda>_. IPA_RM_RESOURCE_USB_PROD) None IPA_IP_v6 (f', c', k')
            = Some (IPACM_SUCCESS, f', c', k')
    | None \<Rightarrow> False)"
proof -
  let ?f = "sample_iface\<lparr>ip_type := Some IPA_IP_v6\<rparr>"
  have r: "init_fl_rule (list_kernel True) (\<lambda>_. IPA_RM_RESOURCE_USB_PROD)
          (Some [\<lparr>iface_name = ''rndis0'', if_cat = WAN_IF, netlink_interface_index = 7\<rparr>]) IPA_IP_v6
          (sample_iface, (sample_config, []), []) = Some (IPACM_FAILURE, ?f, (sample_config, []), [])"
    by (simp add: init_fl_rule_def join_ip_type_def sample_iface_def iface_row_def depend_on_rx_def
        add_default_rules_def list_kernel_def AddFilteringRule_def on_zero_def)
  show ?thesis unfolding r using init_fl_rule_tried_once [OF r] by simp
qed

section \<open>String helpers: lemmas\<close>

lemma end_of_string: "find_idx (\<lambda>c. c = NUL) d = length (c_string d)"
  by (induction d) (auto simp: c_string_def)

lemma c_string_take: "take (length (c_string d)) d = c_string d" "NUL \<notin> set (c_string d)"
  by (simp_all add: c_string_def takeWhile_eq_take [symmetric]) (auto dest: set_takeWhileD)

lemma c_string_length: "length (c_string d) \<le> length d"
  by (simp add: c_string_def length_takeWhile_le)

lemma c_string_write:
  assumes "NUL \<notin> set xs" "NUL \<notin> set ys"
  shows "c_string (xs @ ys @ NUL # zs) = xs @ ys"
  using assms by (simp add: c_string_def takeWhile_append takeWhile_tail)

text \<open>The bounded copies: with a size that does not exceed the destination, \<^verbatim>\<open>strlcpy\<close> and
  \<^verbatim>\<open>strlcat\<close> never write outside of it, leave a terminated string, cut off to the size, and return the
  length they tried to make, so that a result below the size means that nothing was cut.\<close>

theorem strlcpy_strlcat_bounded:
  assumes "NUL \<notin> set src" "0 < n" "n \<le> length dest" "length (c_string dest) < n"
  shows "(\<exists>d. strlcpy dest src n = Some (length src, d) \<and> length d = length dest
            \<and> c_string d = take (n - 1) src)
       \<and> (\<exists>d. strlcat dest src n = Some (length (c_string dest) + length src, d) \<and> length d = length dest
            \<and> c_string d = take (n - 1) (c_string dest @ src))"
proof
  have tk: "NUL \<notin> set (take m src)" for m using assms(1) by (meson in_set_takeD)
  let ?len = "if n \<le> length src then n - 1 else length src"
  have l: "?len < length dest" "?len \<le> length src" "take ?len src = take (n - 1) src" using assms(2,3) by auto
  then have "strlcpy dest src n = Some (length src, take ?len src @ NUL # drop (Suc ?len) dest)"
    using assms(2) by (simp add: strlcpy_def write_str_def Let_def)
  then show "\<exists>d. strlcpy dest src n = Some (length src, d) \<and> length d = length dest
            \<and> c_string d = take (n - 1) src"
    using l c_string_write [of "[]" "take ?len src"] tk by auto
  let ?s = "c_string dest"
  let ?m = "if n - length ?s \<le> length src then n - length ?s - 1 else length src"
  have m: "length ?s + ?m < length dest" "?m \<le> length src"
    "?s @ take ?m src = take (n - 1) (?s @ src)" using assms(2-4) by auto
  have "strlcat dest src n = Some (length ?s + length src, ?s @ take ?m src @ NUL # drop (Suc (length ?s + ?m)) dest)"
    using assms(3,4) m(1) by (simp add: strlcat_def write_str_def Let_def end_of_string c_string_take)
  then show "\<exists>d. strlcat dest src n = Some (length ?s + length src, d) \<and> length d = length dest
            \<and> c_string d = take (n - 1) (?s @ src)"
    using m c_string_write [OF c_string_take(2) tk, of dest ?m] by auto
qed

theorem strlcpy_strlcat_bounded_witness:
  "\<exists>d. strlcat (''ipa'' @ replicate 5 NUL) ''_lan0'' 8 = Some (8, d) \<and> length d = 8 \<and> c_string d = ''ipa_lan''"
proof -
  define d0 where "d0 = ''ipa'' @ replicate 5 NUL"
  have c: "c_string d0 = ''ipa''" "length d0 = 8" "NUL \<notin> set ''_lan0''"
    by (simp_all add: d0_def c_string_def NUL_def)
  have "\<exists>d. strlcat d0 ''_lan0'' 8 = Some (8, d) \<and> length d = 8 \<and> c_string d = ''ipa_lan''"
    using strlcpy_strlcat_bounded [OF c(3), of 8 d0] by (simp add: c eval_nat_numeral)
  then show ?thesis unfolding d0_def .
qed

end
