(* ===== verification/Ipacm_Neighbor.thy ===== *)
theory Ipacm_Neighbor
  imports Ipacm_Iface
begin

text \<open>
  The neighbor cache (\<^verbatim>\<open>IPACM_Neighbor.cpp\<close>): it joins the MAC address of a client with the IPv4
  address and the interface it was last seen on, passes the kernel's neighbor events on as client
  events, and repeats a client's known address when the client comes back.

  The object is the list of its clients, of which the code uses the first \<^verbatim>\<open>num_neighbor_client\<close>
  entries of a fixed array. Every operation gives the new object, the table of the interfaces, the
  events it posts and the driver's state (of which it uses the allocator only), or \<open>None\<close> when it reads
  what was never written or a row that the interface table does not have.
\<close>

definition IPA_MAX_NUM_NEIGHBOR_CLIENTS :: nat where "IPA_MAX_NUM_NEIGHBOR_CLIENTS = 17"

record neighbor_client =
  nc_mac :: "u8 list"
  nc_iface :: int
  nc_v4 :: u32
  nc_if_num :: int

text \<open>The posted events: a copy of the event handled, or one made up from the cache.\<close>

datatype neigh_post =
    Post_copy ipa_cm_event_id ipacm_event_data_all
  | Post_cached int u32 "u8 list"

datatype wlan_attrib = WLAN_HDR_ATTRIB_MAC_ADDR "u8 list" | WLAN_HDR_ATTRIB_other

record ipacm_event_data_wlan_ex =
  ex_if_index :: int
  ex_attribs :: "wlan_attrib list"

record 'k neigh_state =
  n_clients :: "neighbor_client list"
  n_table :: if_table
  n_posts :: "neigh_post list"
  n_kernel :: 'k

definition find_client :: "u8 list \<Rightarrow> neighbor_client list \<Rightarrow> nat" where
  "find_client mac cs = find_idx (\<lambda>c. nc_mac c = mac) cs"

text \<open>\<open>iface_ipa_index_query\<close>, whose side effect is on the table.\<close>

definition query_index :: "os_env \<Rightarrow> int \<Rightarrow> 'k neigh_state \<Rightarrow> int \<times> 'k neigh_state" where
  "query_index os idx s = (case iface_ipa_index_query os idx (n_table s) of (i, t) \<Rightarrow> (i, s\<lparr>n_table := t\<rparr>))"

text \<open>Allocate the event, post it, and look up the interface's name for the log.\<close>

definition post_and_log :: "'k ipa_kernel \<Rightarrow> os_env \<Rightarrow> int \<Rightarrow> neigh_post \<Rightarrow> 'k neigh_state \<Rightarrow> 'k neigh_state option" where
  "post_and_log K os idx p s =
     (case malloc K (n_kernel s) of (m, k) \<Rightarrow>
      let s1 = s\<lparr>n_kernel := k\<rparr> in
      if \<not> m then Some s1
      else (case query_index os idx (s1\<lparr>n_posts := n_posts s1 @ [p]\<rparr>) of (i, s2) \<Rightarrow>
              map_option (\<lambda>_. s2) (iface_row (n_table s2) i)))"

definition NEIGH_EVENT :: "ipa_cm_event_id \<Rightarrow> ipa_cm_event_id" where
  "NEIGH_EVENT event = (case event of IPA_NEW_NEIGH_EVENT \<Rightarrow> IPA_NEIGH_CLIENT_IP_ADDR_ADD_EVENT
                        | _ \<Rightarrow> IPA_NEIGH_CLIENT_IP_ADDR_DEL_EVENT)"

text \<open>A client that is already known comes up again on the interface \<open>if_idx\<close>, number \<open>num\<close>.\<close>

definition client_again :: "'k ipa_kernel \<Rightarrow> os_env \<Rightarrow> int \<Rightarrow> int \<Rightarrow> nat \<Rightarrow> 'k neigh_state \<Rightarrow> 'k neigh_state option" where
  "client_again K os if_idx num i s =
     (let c = n_clients s ! i;
          c1 = (if if_idx \<noteq> nc_iface c then c\<lparr>nc_iface := if_idx\<rparr> else c);
          s1 = s\<lparr>n_clients := (n_clients s)[i := c1]\<rparr>
      in if num \<noteq> nc_if_num c1 then Some s1
         else if nc_v4 c1 \<noteq> 0 then post_and_log K os (nc_iface c1) (Post_cached (nc_iface c1) (nc_v4 c1) (nc_mac c1)) s1
         else Some s1)"

text \<open>\<open>strcmp(ipa_virtual_iface_name, iface_table[i].iface_name) == 0\<close>.\<close>

definition is_bridge :: "string \<Rightarrow> if_table \<Rightarrow> int \<Rightarrow> bool option" where
  "is_bridge bridge tbl i = map_option (\<lambda>r. bridge = iface_name r) (iface_row tbl i)"

text \<open>The last MAC address among the attributes; \<open>None\<close> leaves the array uninitialised.\<close>

fun mac_attrib :: "wlan_attrib list \<Rightarrow> u8 list option" where
  "mac_attrib [] = None"
| "mac_attrib (a # as) =
     (case mac_attrib as of Some m \<Rightarrow> Some m
      | None \<Rightarrow> (case a of WLAN_HDR_ATTRIB_MAC_ADDR m \<Rightarrow> Some m | WLAN_HDR_ATTRIB_other \<Rightarrow> None))"

text \<open>Without a client in the cache the uninitialised address is not read.\<close>

definition wlan_client_add_ex :: "'k ipa_kernel \<Rightarrow> os_env \<Rightarrow> string \<Rightarrow> ipacm_event_data_wlan_ex
    \<Rightarrow> 'k neigh_state \<Rightarrow> 'k neigh_state option" where
  "wlan_client_add_ex K os bridge d s =
     (case query_index os (ex_if_index d) s of (num, s1) \<Rightarrow>
      if n_clients s1 = [] then Some s1
      else (case mac_attrib (ex_attribs d) of
              None \<Rightarrow> None
            | Some mac \<Rightarrow>
                (let i = find_client mac (n_clients s1) in
                 if i = length (n_clients s1) then Some s1
                 else (case is_bridge bridge (n_table s1) num of
                         None \<Rightarrow> None
                       | Some True \<Rightarrow> Some s1
                       | Some False \<Rightarrow> client_again K os (ex_if_index d) num i s1))))"

text \<open>A neighbor seen through the bridge: the event is passed on for the interface of the client.\<close>

definition neigh_on_bridge :: "'k ipa_kernel \<Rightarrow> os_env \<Rightarrow> ipa_cm_event_id \<Rightarrow> bool \<Rightarrow> ipacm_event_data_all
    \<Rightarrow> 'k neigh_state \<Rightarrow> 'k neigh_state option" where
  "neigh_on_bridge K os event v4 d s =
     (let i = find_client (mac_addr d) (n_clients s) in
      if i = length (n_clients s) then Some s
      else let d1 = d\<lparr>if_index := nc_iface (n_clients s ! i)\<rparr>;
               s1 = (if v4 then s\<lparr>n_clients := (n_clients s)[i := (n_clients s ! i)\<lparr>nc_v4 := ipv4_addr d\<rparr>]\<rparr> else s)
           in post_and_log K os (if_index d1) (Post_copy (NEIGH_EVENT event) d1) s1)"

definition neigh_forward :: "'k ipa_kernel \<Rightarrow> ipa_cm_event_id \<Rightarrow> ipacm_event_data_all
    \<Rightarrow> 'k neigh_state \<Rightarrow> bool \<times> 'k neigh_state" where
  "neigh_forward K event d s =
     (case malloc K (n_kernel s) of (m, k) \<Rightarrow>
        (m, s\<lparr>n_kernel := k, n_posts := (if m then n_posts s @ [Post_copy (NEIGH_EVENT event) d] else n_posts s)\<rparr>))"

definition cache_client :: "int \<Rightarrow> u32 \<Rightarrow> ipacm_event_data_all \<Rightarrow> 'k neigh_state \<Rightarrow> 'k neigh_state" where
  "cache_client num v4 d s =
     (if length (n_clients s) < IPA_MAX_NUM_NEIGHBOR_CLIENTS
      then s\<lparr>n_clients := n_clients s @ [\<lparr>nc_mac = mac_addr d, nc_iface = if_index d, nc_v4 = v4, nc_if_num = num\<rparr>]\<rparr>
      else s)"

definition neigh_v4 :: "'k ipa_kernel \<Rightarrow> os_env \<Rightarrow> string \<Rightarrow> ipa_cm_event_id \<Rightarrow> int \<Rightarrow> ipacm_event_data_all
    \<Rightarrow> 'k neigh_state \<Rightarrow> 'k neigh_state option" where
  "neigh_v4 K os bridge event num d s =
     (if ipv4_addr d = 0 then Some s
      else (case is_bridge bridge (n_table s) num of
              None \<Rightarrow> None
            | Some True \<Rightarrow> neigh_on_bridge K os event True d s
            | Some False \<Rightarrow>
                (case neigh_forward K event d s of
                   (False, s1) \<Rightarrow> Some s1
                 | (True, s1) \<Rightarrow>
                     (let i = find_client (mac_addr d) (n_clients s1) in
                      if i < length (n_clients s1)
                      then Some (s1\<lparr>n_clients := (n_clients s1)[i :=
                             (n_clients s1 ! i)\<lparr>nc_iface := if_index d, nc_if_num := num, nc_v4 := ipv4_addr d\<rparr>]\<rparr>)
                      else Some (cache_client num (ipv4_addr d) d s1)))))"

definition neigh_v6 :: "'k ipa_kernel \<Rightarrow> os_env \<Rightarrow> string \<Rightarrow> ipa_cm_event_id \<Rightarrow> int \<Rightarrow> ipacm_event_data_all
    \<Rightarrow> 'k neigh_state \<Rightarrow> 'k neigh_state option" where
  "neigh_v6 K os bridge event num d s =
     (if list_ex (\<lambda>w. w \<noteq> 0) (ipv6_addr d) then
        (case is_bridge bridge (n_table s) num of
           None \<Rightarrow> None
         | Some True \<Rightarrow> neigh_on_bridge K os event False d s
         | Some False \<Rightarrow> Some (snd (neigh_forward K event d s)))
      else
        (let i = find_client (mac_addr d) (n_clients s) in
         case is_bridge bridge (n_table s) num of
           None \<Rightarrow> None
         | Some True \<Rightarrow> Some s
         | Some False \<Rightarrow>
             if i < length (n_clients s) then client_again K os (if_index d) num i s
             else Some (cache_client num 0 d s)))"

datatype neigh_param = Wlan_ex ipacm_event_data_wlan_ex | Neigh_all ipacm_event_data_all

text \<open>The parameter's type is the one that the event carries; the others are not cast by the code.\<close>

definition neighbor_event_callback :: "'k ipa_kernel \<Rightarrow> os_env \<Rightarrow> string \<Rightarrow> ipa_cm_event_id \<Rightarrow> neigh_param
    \<Rightarrow> 'k neigh_state \<Rightarrow> 'k neigh_state option" where
  "neighbor_event_callback K os bridge event param s =
     (case (event, param) of
        (IPA_WLAN_CLIENT_ADD_EVENT_EX, Wlan_ex d) \<Rightarrow> wlan_client_add_ex K os bridge d s
      | (IPA_WLAN_CLIENT_ADD_EVENT_EX, Neigh_all d) \<Rightarrow> None
      | (_, Wlan_ex d) \<Rightarrow> None
      | (_, Neigh_all d) \<Rightarrow>
          (case query_index os (if_index d) s of (num, s1) \<Rightarrow>
             if iptype d = IPA_IP_v4 then neigh_v4 K os bridge event num d s1
             else neigh_v6 K os bridge event num d s1))"

definition IPACM_Neighbor_ctor :: "if_table \<Rightarrow> 'k \<Rightarrow> 'k neigh_state" where
  "IPACM_Neighbor_ctor tbl k = \<lparr>n_clients = [], n_table = tbl, n_posts = [], n_kernel = k\<rparr>"

section \<open>Invariant\<close>

lemma find_client_le: "find_client mac cs \<le> length cs"
  by (simp add: find_client_def)


lemma find_client_absent: "find_client mac cs = length cs \<longleftrightarrow> mac \<notin> nc_mac ` set cs"
  by (auto simp: find_client_def find_idx_eq_length_iff)

lemma map_update_same: "i < length xs \<Longrightarrow> f x = f (xs ! i) \<Longrightarrow> map f (xs[i := x]) = map f xs"
  by (metis list_update_id map_update)

text \<open>The system can name the interfaces \<open>I\<close>, and the table has their names.\<close>

definition os_knows :: "os_env \<Rightarrow> int set \<Rightarrow> if_table \<Rightarrow> bool" where
  "os_knows os I tbl \<longleftrightarrow> socket_ok os \<and> (\<exists>t. tbl = Some t \<and>
     (\<forall>idx \<in> I. \<exists>nm. SIOCGIFNAME os idx = Some nm \<and> (\<exists>a \<in> set (map iface_name t). same_name nm a)))"

definition neigh_ok :: "os_env \<Rightarrow> int set \<Rightarrow> 'k neigh_state \<Rightarrow> bool" where
  "neigh_ok os I s \<longleftrightarrow> os_knows os I (n_table s) \<and> distinct (map nc_mac (n_clients s))
     \<and> length (n_clients s) \<le> IPA_MAX_NUM_NEIGHBOR_CLIENTS \<and> nc_iface ` set (n_clients s) \<subseteq> I"

lemma os_knows_names:
  "map iface_name t' = map iface_name t \<Longrightarrow> os_knows os I (Some t') = os_knows os I (Some t)"
  by (simp add: os_knows_def del: set_map)

lemma query_known:
  assumes "os_knows os I tbl" "idx \<in> I" "iface_ipa_index_query os idx tbl = (i, tbl')"
  shows "os_knows os I tbl' \<and> iface_row tbl' i \<noteq> None"
proof -
  obtain t where tt: "tbl = Some t" "socket_ok os"
    "\<exists>nm. SIOCGIFNAME os idx = Some nm \<and> (\<exists>a \<in> set (map iface_name t). same_name nm a)"
    using assms(1,2) unfolding os_knows_def by blast
  then obtain nm a where t: "tbl = Some t" "socket_ok os" "SIOCGIFNAME os idx = Some nm"
    "a \<in> set (map iface_name t)" "same_name nm a" by blast
  then have "find_idx (\<lambda>r. same_name nm (iface_name r)) t < length t"
    by (auto simp: find_idx_less_iff)
  then have "i \<noteq> -1" using assms(3) t by (auto simp: iface_ipa_index_query_def Let_def split: if_splits)
  with iface_query_cases [of os idx t i tbl'] assms(3) t(1)
  obtain t' where t': "tbl' = Some t'" "0 \<le> i" "nat i < length t" "map iface_name t' = map iface_name t" by auto
  then have "length t' = length t" by (metis length_map)
  then show ?thesis using assms(1) t(1) t' os_knows_names [OF t'(4), of os I] by (simp add: iface_row_def)
qed

lemma query_index_ok:
  assumes "neigh_ok os I s" "idx \<in> I" "query_index os idx s = (i, s')"
  shows "neigh_ok os I s' \<and> iface_row (n_table s') i \<noteq> None \<and> n_clients s' = n_clients s
    \<and> n_posts s' = n_posts s \<and> n_kernel s' = n_kernel s"
  using assms query_known [of os I "n_table s" idx]
  by (auto simp: query_index_def neigh_ok_def split: prod.splits)

lemma neigh_ok_frame [simp]:
  "neigh_ok os I (s\<lparr>n_posts := ps\<rparr>) = neigh_ok os I s" "neigh_ok os I (s\<lparr>n_kernel := k\<rparr>) = neigh_ok os I s"
  by (simp_all add: neigh_ok_def)

lemma neigh_ok_update:
  assumes "neigh_ok os I s" "i < length (n_clients s)" "nc_mac c = nc_mac (n_clients s ! i)" "nc_iface c \<in> I"
  shows "neigh_ok os I (s\<lparr>n_clients := (n_clients s)[i := c]\<rparr>)"
  using assms map_update_same [of i "n_clients s" nc_mac c] set_update_subset_insert [of "n_clients s" i c]
  by (auto simp: neigh_ok_def)

lemma post_and_log_ok:
  assumes "neigh_ok os I s" "idx \<in> I"
  shows "\<exists>s'. post_and_log K os idx p s = Some s' \<and> neigh_ok os I s'"
proof -
  obtain m k where m: "malloc K (n_kernel s) = (m, k)" by force
  obtain i s2 where q: "query_index os idx (s\<lparr>n_kernel := k, n_posts := n_posts s @ [p]\<rparr>) = (i, s2)" by force
  from query_index_ok [OF _ assms(2) q] assms(1) have "neigh_ok os I s2" "iface_row (n_table s2) i \<noteq> None" by simp_all
  then show ?thesis using assms(1) m q by (auto simp: post_and_log_def Let_def)
qed

lemma client_again_ok:
  assumes "neigh_ok os I s" "idx \<in> I" "i < length (n_clients s)"
  shows "\<exists>s'. client_again K os idx num i s = Some s' \<and> neigh_ok os I s'"
proof -
  define c where "c = n_clients s ! i"
  define c1 where "c1 = (if idx \<noteq> nc_iface c then c\<lparr>nc_iface := idx\<rparr> else c)"
  define s1 where "s1 = s\<lparr>n_clients := (n_clients s)[i := c1]\<rparr>"
  have "nc_iface c \<in> I" using assms by (auto simp: c_def neigh_ok_def)
  then have c1: "nc_iface c1 \<in> I" "nc_mac c1 = nc_mac c" using assms(2) by (simp_all add: c1_def)
  then have s1: "neigh_ok os I s1" unfolding s1_def using assms c_def by (intro neigh_ok_update) auto
  have "client_again K os idx num i s = (if num \<noteq> nc_if_num c1 then Some s1
      else if nc_v4 c1 \<noteq> 0 then post_and_log K os (nc_iface c1) (Post_cached (nc_iface c1) (nc_v4 c1) (nc_mac c1)) s1
      else Some s1)"
    by (simp only: client_again_def Let_def c_def c1_def s1_def)
  then show ?thesis using s1 post_and_log_ok [OF s1 c1(1)] by auto
qed

lemma cache_client_ok:
  assumes "neigh_ok os I s" "if_index d \<in> I" "find_client (mac_addr d) (n_clients s) = length (n_clients s)"
  shows "neigh_ok os I (cache_client num v4 d s)"
  using assms by (auto simp: neigh_ok_def cache_client_def find_client_absent)

lemma neigh_forward_ok:
  "neigh_ok os I s \<Longrightarrow> neigh_ok os I (snd (neigh_forward K event d s))"
  "n_clients (snd (neigh_forward K event d s)) = n_clients s"
  by (simp_all add: neigh_forward_def split: prod.splits)

lemma neigh_on_bridge_ok:
  assumes "neigh_ok os I s"
  shows "\<exists>s'. neigh_on_bridge K os event v4 d s = Some s' \<and> neigh_ok os I s'"
proof (cases "find_client (mac_addr d) (n_clients s) = length (n_clients s)")
  case False
  let ?i = "find_client (mac_addr d) (n_clients s)"
  have i: "?i < length (n_clients s)" using False find_client_le [of "mac_addr d" "n_clients s"] by simp
  then have I: "nc_iface (n_clients s ! ?i) \<in> I" using assms by (auto simp: neigh_ok_def)
  let ?s1 = "if v4 then s\<lparr>n_clients := (n_clients s)[?i := (n_clients s ! ?i)\<lparr>nc_v4 := ipv4_addr d\<rparr>]\<rparr> else s"
  have "neigh_ok os I ?s1" using assms i I by (auto intro: neigh_ok_update)
  from post_and_log_ok [OF this I] show ?thesis using False by (simp add: neigh_on_bridge_def Let_def)
qed (use assms in \<open>simp add: neigh_on_bridge_def\<close>)

lemma row_known: "neigh_ok os I s \<Longrightarrow> iface_row (n_table s) num \<noteq> None
    \<Longrightarrow> \<exists>b. is_bridge bridge (n_table s) num = Some b"
  by (auto simp: is_bridge_def)

lemma wlan_client_add_ex_ok:
  assumes "neigh_ok os I s" "ex_if_index d \<in> I" "mac_attrib (ex_attribs d) \<noteq> None"
  shows "\<exists>s'. wlan_client_add_ex K os bridge d s = Some s' \<and> neigh_ok os I s'"
proof -
  obtain num s1 where q: "query_index os (ex_if_index d) s = (num, s1)" by force
  note s1 = query_index_ok [OF assms(1,2) q]
  obtain mac where mac: "mac_attrib (ex_attribs d) = Some mac" using assms(3) by blast
  obtain b where b: "is_bridge bridge (n_table s1) num = Some b" using row_known s1 by blast
  show ?thesis
  proof (cases "find_client mac (n_clients s1) < length (n_clients s1) \<and> \<not> b")
    case True
    from client_again_ok [of os I s1 "ex_if_index d" _ K num] s1 assms(2) True
    show ?thesis using q mac b by (auto simp: wlan_client_add_ex_def Let_def)
  next
    case False
    then show ?thesis using q mac b s1 find_client_le [of mac "n_clients s1"]
      by (auto simp: wlan_client_add_ex_def Let_def split: bool.splits)
  qed
qed

lemma neigh_v4_ok:
  assumes "neigh_ok os I s" "if_index d \<in> I" "iface_row (n_table s) num \<noteq> None"
  shows "\<exists>s'. neigh_v4 K os bridge event num d s = Some s' \<and> neigh_ok os I s'"
proof -
  obtain b where b: "is_bridge bridge (n_table s) num = Some b" using row_known assms(1,3) by blast
  obtain m s1 where m: "neigh_forward K event d s = (m, s1)" by force
  have s1: "neigh_ok os I s1" "n_clients s1 = n_clients s"
    using neigh_forward_ok(1) [of os I s K event d] assms(1) neigh_forward_ok(2) [of K event d s] m by simp_all
  let ?i = "find_client (mac_addr d) (n_clients s1)"
  have "neigh_ok os I (if ?i < length (n_clients s1)
      then s1\<lparr>n_clients := (n_clients s1)[?i := (n_clients s1 ! ?i)\<lparr>nc_iface := if_index d, nc_if_num := num, nc_v4 := ipv4_addr d\<rparr>]\<rparr>
      else cache_client num (ipv4_addr d) d s1)"
    using s1(1) assms(2) find_client_le [of "mac_addr d" "n_clients s1"]
    by (auto intro!: neigh_ok_update cache_client_ok)
  then show ?thesis using b m s1 assms(1) neigh_on_bridge_ok [OF assms(1), of K event True d]
    by (auto simp: neigh_v4_def Let_def split: bool.splits if_splits)
qed

lemma neigh_v6_ok:
  assumes "neigh_ok os I s" "if_index d \<in> I" "iface_row (n_table s) num \<noteq> None"
  shows "\<exists>s'. neigh_v6 K os bridge event num d s = Some s' \<and> neigh_ok os I s'"
proof -
  obtain b where b: "is_bridge bridge (n_table s) num = Some b" using row_known assms(1,3) by blast
  let ?i = "find_client (mac_addr d) (n_clients s)"
  have "neigh_ok os I (cache_client num 0 d s)" if "\<not> ?i < length (n_clients s)"
    using assms that find_client_le [of "mac_addr d" "n_clients s"] by (intro cache_client_ok) auto
  then show ?thesis
    using b assms(1) neigh_on_bridge_ok [OF assms(1), of K event False d] neigh_forward_ok(1) [OF assms(1), of K event d]
      client_again_ok [OF assms(1,2), of ?i K num]
    by (auto simp: neigh_v6_def Let_def split: bool.splits)
qed

text \<open>An event for a known interface, of the right type, and with a MAC address where one is read.\<close>

definition good_event :: "int set \<Rightarrow> ipa_cm_event_id \<times> neigh_param \<Rightarrow> bool" where
  "good_event I e = (case e of
     (IPA_WLAN_CLIENT_ADD_EVENT_EX, Wlan_ex d) \<Rightarrow> ex_if_index d \<in> I \<and> mac_attrib (ex_attribs d) \<noteq> None
   | (IPA_WLAN_CLIENT_ADD_EVENT_EX, Neigh_all d) \<Rightarrow> False
   | (_, Wlan_ex d) \<Rightarrow> False
   | (_, Neigh_all d) \<Rightarrow> if_index d \<in> I)"

lemma neighbor_event_ok [keeps]:
  assumes "neigh_ok os I s" "good_event I e"
  shows "\<exists>s'. neighbor_event_callback K os bridge (fst e) (snd e) s = Some s' \<and> neigh_ok os I s'"
proof (cases "snd e")
  case (Wlan_ex d)
  then have "fst e = IPA_WLAN_CLIENT_ADD_EVENT_EX" "ex_if_index d \<in> I" "mac_attrib (ex_attribs d) \<noteq> None"
    using assms(2) by (cases e; cases "fst e"; simp add: good_event_def)+
  then show ?thesis using wlan_client_add_ex_ok [OF assms(1), of d K bridge] Wlan_ex
    by (simp add: neighbor_event_callback_def)
next
  case (Neigh_all d)
  then have d: "if_index d \<in> I" "fst e \<noteq> IPA_WLAN_CLIENT_ADD_EVENT_EX"
    using assms(2) by (cases e; cases "fst e"; simp add: good_event_def)+
  obtain num s1 where q: "query_index os (if_index d) s = (num, s1)" by force
  note s1 = query_index_ok [OF assms(1) d(1) q]
  have "neighbor_event_callback K os bridge (fst e) (Neigh_all d) s =
      (if iptype d = IPA_IP_v4 then neigh_v4 K os bridge (fst e) num d s1
       else neigh_v6 K os bridge (fst e) num d s1)"
    using d(2) q by (cases "fst e") (simp_all add: neighbor_event_callback_def)
  then show ?thesis
    using neigh_v4_ok [of os I s1 d num K bridge "fst e"] neigh_v6_ok [of os I s1 d num K bridge "fst e"] s1 d(1) Neigh_all
    by simp
qed

text \<open>C12. The neighbor cache over every sequence of events for interfaces that the system and the interface
  table know: no row outside of the table and no uninitialised address is read, the cache holds at
  most one entry for a MAC address and at most 17 in all, and every entry is on a known interface.\<close>

theorem neighbor_cache_runs:
  assumes "os_knows os I tbl" "list_all (good_event I) es"
  shows "\<exists>s. run_steps (\<lambda>e. neighbor_event_callback K os bridge (fst e) (snd e)) es (IPACM_Neighbor_ctor tbl k) = Some s
    \<and> distinct (map nc_mac (n_clients s)) \<and> length (n_clients s) \<le> 17
    \<and> nc_iface ` set (n_clients s) \<subseteq> I"
proof -
  have "\<exists>s'. run_steps (\<lambda>e. neighbor_event_callback K os bridge (fst e) (snd e)) es s = Some s' \<and> neigh_ok os I s'"
    if "neigh_ok os I s" for s
    using assms(2) that
  proof (induction es arbitrary: s)
    case (Cons e es)
    then obtain s1 where "neighbor_event_callback K os bridge (fst e) (snd e) s = Some s1" "neigh_ok os I s1"
      using neighbor_event_ok [of os I s e K bridge] by auto
    then show ?case using Cons by auto
  qed simp
  moreover have "neigh_ok os I (IPACM_Neighbor_ctor tbl k)"
    using assms(1) by (simp add: neigh_ok_def IPACM_Neighbor_ctor_def)
  ultimately obtain s where "run_steps (\<lambda>e. neighbor_event_callback K os bridge (fst e) (snd e)) es
      (IPACM_Neighbor_ctor tbl k) = Some s" "neigh_ok os I s" by blast
  then show ?thesis by (auto simp: neigh_ok_def IPA_MAX_NUM_NEIGHBOR_CLIENTS_def)
qed

section \<open>A client that comes back\<close>








text \<open>
  An event for an interface that is not in the table makes the code read the row -1: every netlink
  neighbor of such an interface, of which the kernel reports many.
\<close>

lemma neighbor_of_unknown_interface:
  assumes "iface_ipa_index_query os (if_index d) (n_table s) = (-1, n_table s)"
    and "iptype d = IPA_IP_v4" "ipv4_addr d \<noteq> 0"
  shows "neighbor_event_callback K os bridge IPA_NEW_NEIGH_EVENT (Neigh_all d) s = None"
  using assms by (simp add: neighbor_event_callback_def query_index_def neigh_v4_def is_bridge_def iface_row_def
      split: option.splits)

section \<open>Witnesses\<close>

definition demo_os :: os_env where
  "demo_os = \<lparr>socket_ok = True, SIOCGIFNAME = (\<lambda>i. if i = 7 then Some ''wlan0'' else None), SIOCGIFINDEX = (\<lambda>_. None)\<rparr>"

definition demo_table :: if_table where
  "demo_table = Some [\<lparr>iface_name = ''rmnet0'', if_cat = WAN_IF, netlink_interface_index = 0\<rparr>,
                      \<lparr>iface_name = ''wlan0'', if_cat = WLAN_IF, netlink_interface_index = 0\<rparr>]"

definition demo_neigh :: ipacm_event_data_all where
  "demo_neigh = \<lparr>iptype = IPA_IP_v4, if_index = 7, ipv4_addr = 0xC0A80002, ipv6_addr = [0, 0, 0, 0],
                 mac_addr = [0, 1, 2, 3, 4, 5]\<rparr>"

lemma demo_os_knows: "os_knows demo_os {7} demo_table"
  by (simp add: os_knows_def demo_os_def demo_table_def)

theorem neighbor_cache_runs_witness:
  "\<exists>s. run_steps (\<lambda>e. neighbor_event_callback (list_kernel False) demo_os ''bridge0'' (fst e) (snd e))
        [(IPA_NEW_NEIGH_EVENT, Neigh_all demo_neigh), (IPA_DEL_NEIGH_EVENT, Neigh_all demo_neigh)]
        (IPACM_Neighbor_ctor demo_table []) = Some s
    \<and> distinct (map nc_mac (n_clients s)) \<and> length (n_clients s) \<le> 17 \<and> nc_iface ` set (n_clients s) \<subseteq> {7}"
  by (rule neighbor_cache_runs [OF demo_os_knows]) (simp add: good_event_def demo_neigh_def)


end
