(* ===== verification/Ipacm_IfaceManager.thy ===== *)
theory Ipacm_IfaceManager
  imports Ipacm_Queue Ipacm_Iface
begin

text \<open>
  The interface manager (\<^verbatim>\<open>IPACM_IfaceManager.cpp\<close>): on a link event it makes the object of the
  interface, registers it with the event dispatcher for the events of its category, and keeps it
  in a list so that an interface has one object. The list and the dispatcher's list of listeners are
  linked lists in a store (\<open>Ipacm_Chain\<close>); the Android build is modelled.

  The constructors of the LAN, WLAN and WAN classes are not part of this model: \<open>new_obj\<close> gives the
  address of the new object. \<open>new_listener\<close> and \<open>new_instance\<close> are the allocator: an address that is
  not in use, or \<open>None\<close>. \<open>None\<close> in the place of a result is an invalid access to memory.
\<close>

datatype ipacm_wan_iface_type = Q6_WAN | WLAN_WAN | ECM_WAN

record ipacm_ifacemgr_data =
  ifm_if_index :: int
  ifm_if_type :: ipacm_wan_iface_type
  ifm_mac_addr :: "u8 list"

record 'o iface_instance =
  ii_if_index :: int
  ii_obj :: 'o

datatype iface_object =
    IPACM_Lan int | IPACM_Wlan int | IPACM_Wan int ipacm_wan_iface_type "u8 list option"

record 'o ifm_env =
  ie_os :: os_env
  odu_enable :: bool
  odu_router_mode :: bool
  new_listener :: "'o cmd_evt store \<Rightarrow> nat option"
  new_instance :: "'o iface_instance store \<Rightarrow> nat option"
  new_obj :: "(iface_object \<times> 'o) list \<Rightarrow> 'o"
  conf_init :: "if_table \<Rightarrow> if_table"

text \<open>
  The state: the interface table, the dispatcher, the list of instances, the objects made so far and
  the interfaces whose addresses were queried.
\<close>

record 'o ifm_state =
  ifm_table :: if_table
  ifm_disp :: "'o dispatcher"
  ifm_mem :: "'o iface_instance store"
  ifm_head :: "nat option"
  ifm_made :: "(iface_object \<times> 'o) list"
  ifm_addr_queries :: "int list"

section \<open>The list of instances\<close>

definition ifm_registr :: "'o ifm_env \<Rightarrow> int \<Rightarrow> 'o \<Rightarrow> 'o ifm_state \<Rightarrow> (int \<times> 'o ifm_state) option" where
  "ifm_registr E ipa_if_index obj s =
     (case new_instance E (ifm_mem s) of
        None \<Rightarrow> Some (IPACM_FAILURE, s)
      | Some nw \<Rightarrow>
          map_option (\<lambda>(m, h). (IPACM_SUCCESS, s\<lparr>ifm_mem := m, ifm_head := h\<rparr>))
            (append_node nw \<lparr>ii_if_index = ipa_if_index, ii_obj = obj\<rparr> (ifm_mem s) (ifm_head s)))"

definition ifm_deregistr :: "'o \<Rightarrow> 'o ifm_state \<Rightarrow> (int \<times> 'o ifm_state) option" where
  "ifm_deregistr param s =
     map_option (\<lambda>(m, h). (IPACM_SUCCESS, s\<lparr>ifm_mem := m, ifm_head := h\<rparr>))
       (unlink_loop (\<lambda>c. ii_obj c = param) (ifm_mem s) (ifm_head s) (ifm_head s) (ifm_head s))"

text \<open>\<open>SearchInstance\<close>: \<open>True\<close> for \<open>IPA_INSTANCE_FOUND\<close>.\<close>

partial_function (option) search_loop :: "'o iface_instance store \<Rightarrow> int \<Rightarrow> nat option \<Rightarrow> bool option" where
  "search_loop m ipa_if_index tmp =
     (case tmp of None \<Rightarrow> Some False
      | Some t \<Rightarrow> (case m t of None \<Rightarrow> None
                   | Some n \<Rightarrow> if ipa_if_index = ii_if_index (payload n) then Some True
                              else search_loop m ipa_if_index (next_of n)))"

definition SearchInstance :: "int \<Rightarrow> 'o ifm_state \<Rightarrow> bool option" where
  "SearchInstance ipa_if_index s = search_loop (ifm_mem s) ipa_if_index (ifm_head s)"

section \<open>The events of a category\<close>

definition lan_events :: "ipa_cm_event_id list" where
  "lan_events = [IPA_ADDR_ADD_EVENT, IPA_NEIGH_CLIENT_IP_ADDR_ADD_EVENT, IPA_SW_ROUTING_ENABLE, IPA_SW_ROUTING_DISABLE,
     IPA_HANDLE_WAN_UP_TETHER, IPA_HANDLE_WAN_UP_V6_TETHER, IPA_HANDLE_WAN_DOWN_TETHER, IPA_HANDLE_WAN_DOWN_V6_TETHER,
     IPA_CFG_CHANGE_EVENT, IPA_PRIVATE_SUBNET_CHANGE_EVENT, IPA_TETHERING_STATS_UPDATE_EVENT,
     IPA_LINK_DOWN_EVENT, IPA_LAN_DELETE_SELF]"

definition eth_events :: "ipa_cm_event_id list" where
  "eth_events = [IPA_ADDR_ADD_EVENT, IPA_NEIGH_CLIENT_IP_ADDR_ADD_EVENT, IPA_SW_ROUTING_ENABLE, IPA_SW_ROUTING_DISABLE,
     IPA_HANDLE_WAN_UP, IPA_HANDLE_WAN_UP_V6, IPA_HANDLE_WAN_DOWN, IPA_HANDLE_WAN_DOWN_V6,
     IPA_LINK_DOWN_EVENT, IPA_LAN_DELETE_SELF]"

definition odu_bridge_events :: "ipa_cm_event_id list" where
  "odu_bridge_events = [IPA_ADDR_ADD_EVENT, IPA_NEIGH_CLIENT_IP_ADDR_ADD_EVENT, IPA_SW_ROUTING_ENABLE,
     IPA_SW_ROUTING_DISABLE, IPA_LINK_DOWN_EVENT, IPA_LAN_DELETE_SELF]"

definition wlan_events :: "ipa_cm_event_id list" where
  "wlan_events = [IPA_ADDR_ADD_EVENT, IPA_ROUTE_DEL_EVENT, IPA_WLAN_CLIENT_ADD_EVENT, IPA_WLAN_CLIENT_ADD_EVENT_EX,
     IPA_WLAN_CLIENT_DEL_EVENT, IPA_WLAN_CLIENT_POWER_SAVE_EVENT, IPA_WLAN_CLIENT_RECOVER_EVENT,
     IPA_NEIGH_CLIENT_IP_ADDR_ADD_EVENT, IPA_SW_ROUTING_ENABLE, IPA_SW_ROUTING_DISABLE,
     IPA_HANDLE_WAN_UP_TETHER, IPA_HANDLE_WAN_UP_V6_TETHER, IPA_HANDLE_WAN_DOWN_TETHER, IPA_HANDLE_WAN_DOWN_V6_TETHER,
     IPA_PRIVATE_SUBNET_CHANGE_EVENT, IPA_WLAN_LINK_DOWN_EVENT, IPA_LAN_DELETE_SELF, IPA_TETHERING_STATS_UPDATE_EVENT]"

definition wan_events :: "ipacm_wan_iface_type \<Rightarrow> ipa_cm_event_id list" where
  "wan_events t = [IPA_ADDR_ADD_EVENT, IPA_WAN_UPSTREAM_ROUTE_ADD_EVENT, IPA_WAN_UPSTREAM_ROUTE_DEL_EVENT]
     @ (if t = Q6_WAN then [IPA_NETWORK_STATS_UPDATE_EVENT] else [])
     @ [IPA_FIREWALL_CHANGE_EVENT, IPA_NEIGH_CLIENT_IP_ADDR_ADD_EVENT, IPA_SW_ROUTING_ENABLE, IPA_SW_ROUTING_DISABLE,
        IPA_CFG_CHANGE_EVENT, if t = WLAN_WAN then IPA_WLAN_LINK_DOWN_EVENT else IPA_LINK_DOWN_EVENT]"

text \<open>
  What the category asks for: the object, its events, and whether its addresses are queried.
  \<open>None\<close> when nothing is made.
\<close>

definition instance_plan :: "'o ifm_env \<Rightarrow> ipacm_ifacemgr_data \<Rightarrow> int \<Rightarrow> ipacm_iface_type
    \<Rightarrow> (iface_object \<times> ipa_cm_event_id list \<times> bool) option" where
  "instance_plan E d i cat = (case cat of
     LAN_IF \<Rightarrow> Some (IPACM_Lan i, lan_events, True)
   | ETH_IF \<Rightarrow> Some (IPACM_Lan i, eth_events, True)
   | ODU_IF \<Rightarrow> Some (IPACM_Lan i, if odu_router_mode E then eth_events else odu_bridge_events, True)
   | WLAN_IF \<Rightarrow> Some (IPACM_Wlan i, wlan_events, True)
   | WAN_IF \<Rightarrow> if \<not> odu_enable E \<or> odu_router_mode E
               then Some (IPACM_Wan i (ifm_if_type d) (if ifm_if_type d = WLAN_WAN then Some (ifm_mac_addr d) else None),
                          wan_events (ifm_if_type d), True)
               else None
   | EMBMS_IF \<Rightarrow> Some (IPACM_Wan i (ifm_if_type d) None, [IPA_LINK_DOWN_EVENT], False)
   | _ \<Rightarrow> None)"

text \<open>The registrations with the dispatcher; a failed one is ignored.\<close>

fun registr_all :: "'o ifm_env \<Rightarrow> 'o \<Rightarrow> ipa_cm_event_id list \<Rightarrow> 'o dispatcher \<Rightarrow> 'o dispatcher option" where
  "registr_all E obj [] d = Some d"
| "registr_all E obj (e # es) d =
     (case registr (new_listener E (d_mem d)) e obj d of None \<Rightarrow> None
      | Some (_, d1) \<Rightarrow> registr_all E obj es d1)"

definition create_iface_instance :: "'o ifm_env \<Rightarrow> ipacm_ifacemgr_data \<Rightarrow> 'o ifm_state
    \<Rightarrow> (int \<times> 'o ifm_state) option" where
  "create_iface_instance E d s =
     (case iface_ipa_index_query (ie_os E) (ifm_if_index d) (ifm_table s) of (i, t) \<Rightarrow>
      let s1 = s\<lparr>ifm_table := t\<rparr> in
      if i = INVALID_IFACE then Some (IPACM_SUCCESS, s1)
      else (case SearchInstance i s1 of
         None \<Rightarrow> None
       | Some True \<Rightarrow> Some (IPACM_SUCCESS, s1)
       | Some False \<Rightarrow>
           (case iface_row t i of None \<Rightarrow> None
            | Some r \<Rightarrow>
                (case instance_plan E d i (if_cat r) of
                   None \<Rightarrow> Some (IPACM_SUCCESS, s1)
                 | Some (ob, es, q) \<Rightarrow>
                     (let obj = new_obj E (ifm_made s1);
                          s2 = s1\<lparr>ifm_made := ifm_made s1 @ [(ob, obj)]\<rparr>
                      in case registr_all E obj es (ifm_disp s2) of
                           None \<Rightarrow> None
                         | Some disp \<Rightarrow>
                             map_option (\<lambda>(_, s3). (IPACM_SUCCESS,
                                 if q then s3\<lparr>ifm_addr_queries := ifm_addr_queries s3 @ [ifm_if_index d]\<rparr> else s3))
                               (ifm_registr E i obj (s2\<lparr>ifm_disp := disp\<rparr>)))))))"

section \<open>Link events\<close>

datatype link_param = Fid int | Sta int "u8 list" | No_param

fun param_index :: "link_param \<Rightarrow> int option" where
  "param_index (Fid i) = Some i"
| "param_index (Sta i m) = Some i"
| "param_index No_param = None"

text \<open>
  Look up the interface, apply the test and the change of its category, and create the object;
  the kind of a WAN interface may depend on the category found.
\<close>

definition link_up :: "'o ifm_env \<Rightarrow> (ipacm_iface_type \<Rightarrow> ipacm_wan_iface_type) \<Rightarrow> u8 list \<Rightarrow> int
    \<Rightarrow> (ipacm_iface_type \<Rightarrow> bool) \<Rightarrow> ipacm_iface_type option \<Rightarrow> 'o ifm_state \<Rightarrow> 'o ifm_state option" where
  "link_up E ty mac idx test newcat s =
     (case iface_ipa_index_query (ie_os E) idx (ifm_table s) of (i, t) \<Rightarrow>
      case iface_row t i of
        None \<Rightarrow> None
      | Some r \<Rightarrow>
          if test (if_cat r)
          then map_option snd (create_iface_instance E \<lparr>ifm_if_index = idx, ifm_if_type = ty (if_cat r), ifm_mac_addr = mac\<rparr>
                 (s\<lparr>ifm_table := (case newcat of None \<Rightarrow> t | Some c \<Rightarrow> set_cat i c t)\<rparr>))
          else Some (s\<lparr>ifm_table := t\<rparr>))"

definition ifm_event_callback :: "'o ifm_env \<Rightarrow> ipa_cm_event_id \<Rightarrow> link_param \<Rightarrow> 'o ifm_state \<Rightarrow> 'o ifm_state option" where
  "ifm_event_callback E event param s =
     (let no_mac = replicate 6 0 in
      case event of
        IPA_CFG_CHANGE_EVENT \<Rightarrow> Some (s\<lparr>ifm_table := conf_init E (ifm_table s)\<rparr>)
      | IPA_LINK_UP_EVENT \<Rightarrow>
          (case param_index param of None \<Rightarrow> None
           | Some idx \<Rightarrow> link_up E (\<lambda>_. Q6_WAN) no_mac idx (\<lambda>c. c = WAN_IF) None s)
      | IPA_USB_LINK_UP_EVENT \<Rightarrow>
          (case param_index param of None \<Rightarrow> None
           | Some idx \<Rightarrow> link_up E (\<lambda>c. if c = WAN_IF then ECM_WAN else Q6_WAN) no_mac idx (\<lambda>c. True) None s)
      | IPA_WLAN_AP_LINK_UP_EVENT \<Rightarrow>
          (case param_index param of None \<Rightarrow> None
           | Some idx \<Rightarrow> link_up E (\<lambda>_. Q6_WAN) no_mac idx (\<lambda>c. c = UNKNOWN_IF) (Some WLAN_IF) s)
      | IPA_WLAN_STA_LINK_UP_EVENT \<Rightarrow>
          (case param of Sta idx mac \<Rightarrow> link_up E (\<lambda>_. WLAN_WAN) mac idx (\<lambda>c. c = UNKNOWN_IF) (Some WAN_IF) s
           | _ \<Rightarrow> None)
      | IPA_WAN_EMBMS_LINK_UP_EVENT \<Rightarrow>
          (case param_index param of None \<Rightarrow> None
           | Some idx \<Rightarrow>
               if odu_enable E then link_up E (\<lambda>_. Q6_WAN) no_mac idx (\<lambda>c. c = WAN_IF) (Some EMBMS_IF) s
               else (case iface_ipa_index_query (ie_os E) idx (ifm_table s) of (i, t) \<Rightarrow> Some (s\<lparr>ifm_table := t\<rparr>)))
      | _ \<Rightarrow> Some s)"

text \<open>
  The constructor's registrations. On Android the manager does not register for
  \<open>IPA_WLAN_STA_LINK_UP_EVENT\<close>.
\<close>

definition ifm_events :: "ipa_cm_event_id list" where
  "ifm_events = [IPA_CFG_CHANGE_EVENT, IPA_LINK_UP_EVENT, IPA_WLAN_AP_LINK_UP_EVENT, IPA_USB_LINK_UP_EVENT,
     IPA_WAN_EMBMS_LINK_UP_EVENT]"

definition IPACM_IfaceManager_ctor :: "'o ifm_env \<Rightarrow> 'o \<Rightarrow> 'o ifm_state \<Rightarrow> 'o ifm_state option" where
  "IPACM_IfaceManager_ctor E me s = map_option (\<lambda>d. s\<lparr>ifm_disp := d\<rparr>) (registr_all E me ifm_events (ifm_disp s))"

text \<open>
  The end of an object: the destructors of the interface classes deregister it from the dispatcher
  and from the manager, and \<open>delete this\<close> frees it.
\<close>

definition iface_gone :: "'o \<Rightarrow> 'o ifm_state \<Rightarrow> 'o ifm_state option" where
  "iface_gone obj s =
     (case deregistr obj (ifm_disp s) of None \<Rightarrow> None
      | Some (_, d) \<Rightarrow>
          map_option (\<lambda>(_, s1). s1\<lparr>ifm_made := filter (\<lambda>p. snd p \<noteq> obj) (ifm_made s1)\<rparr>)
            (ifm_deregistr obj (s\<lparr>ifm_disp := d\<rparr>)))"

datatype 'o ifm_input = Link ipa_cm_event_id link_param | Gone 'o

fun ifm_step :: "'o ifm_env \<Rightarrow> 'o ifm_input \<Rightarrow> 'o ifm_state \<Rightarrow> 'o ifm_state option" where
  "ifm_step E (Link e p) s = ifm_event_callback E e p s"
| "ifm_step E (Gone obj) s = iface_gone obj s"

abbreviation ifm_run :: "'o ifm_env \<Rightarrow> 'o ifm_input list \<Rightarrow> 'o ifm_state \<Rightarrow> 'o ifm_state option" where
  "ifm_run E \<equiv> run_steps (ifm_step E)"

section \<open>What the lists stand for\<close>

definition instances :: "'o ifm_state \<Rightarrow> 'o iface_instance list \<Rightarrow> bool" where
  "instances s ls \<longleftrightarrow>
     (\<exists>as. chain (ifm_mem s) (ifm_head s) as \<and> distinct as \<and> payloads (ifm_mem s) as = ls
        \<and> dom (ifm_mem s) = set as)"

text \<open>The allocator: an address it gives is free; it may fail, unless it is said not to.\<close>

definition gives_free :: "('p store \<Rightarrow> nat option) \<Rightarrow> bool" where
  "gives_free f \<longleftrightarrow> (\<forall>m a. f m = Some a \<longrightarrow> m a = None)"

definition never_fails :: "('p store \<Rightarrow> nat option) \<Rightarrow> bool" where
  "never_fails f \<longleftrightarrow> (\<forall>m. finite (dom m) \<longrightarrow> f m \<noteq> None)"

lemma instances_cong:
  "\<lbrakk>ifm_mem s = ifm_mem s'; ifm_head s = ifm_head s'\<rbrakk> \<Longrightarrow> instances s ls = instances s' ls"
  by (simp add: instances_def)

lemma instances_finite: "instances s ls \<Longrightarrow> finite (dom (ifm_mem s))"
  by (auto simp: instances_def)

lemma listeners_finite: "listeners d ls \<Longrightarrow> finite (dom (d_mem d))"
  by (auto simp: listeners_def)

lemma ifm_registr_instances:
  assumes "instances s ls" "gives_free (new_instance E)"
  shows "\<exists>r s'. ifm_registr E i obj s = Some (r, s')
    \<and> instances s' (if r = IPACM_SUCCESS then ls @ [\<lparr>ii_if_index = i, ii_obj = obj\<rparr>] else ls)
    \<and> (\<exists>m h. s' = s\<lparr>ifm_mem := m, ifm_head := h\<rparr>)
    \<and> (never_fails (new_instance E) \<longrightarrow> r = IPACM_SUCCESS)"
proof (cases "new_instance E (ifm_mem s)")
  case None
  have "s = s\<lparr>ifm_mem := ifm_mem s, ifm_head := ifm_head s\<rparr>" by simp
  then have "\<exists>m h. s = s\<lparr>ifm_mem := m, ifm_head := h\<rparr>" by blast
  with None assms(1) instances_finite [OF assms(1)] show ?thesis
    unfolding ifm_registr_def never_fails_def
    by (intro exI [of _ IPACM_FAILURE] exI [of _ s] conjI impI)
      (simp_all add: IPACM_SUCCESS_def IPACM_FAILURE_def)
next
  case (Some nw)
  with assms(2) have f: "ifm_mem s nw = None" by (auto simp: gives_free_def)
  obtain as where c: "chain (ifm_mem s) (ifm_head s) as" "distinct as"
    and p: "payloads (ifm_mem s) as = ls" "dom (ifm_mem s) = set as"
    using assms(1) unfolding instances_def by blast
  let ?x = "\<lparr>ii_if_index = i, ii_obj = obj\<rparr>"
  from append_node_chain [OF c f, of ?x] obtain m' h' where
    r: "append_node nw ?x (ifm_mem s) (ifm_head s) = Some (m', h')"
    and c': "chain m' h' (as @ [nw])" "distinct (as @ [nw])"
    and p': "payloads m' (as @ [nw]) = payloads (ifm_mem s) as @ [?x]" "dom m' = insert nw (dom (ifm_mem s))"
    by blast
  have "instances (s\<lparr>ifm_mem := m', ifm_head := h'\<rparr>) (ls @ [?x])"
    unfolding instances_def using c' p' p by (intro exI [of _ "as @ [nw]"]) simp
  with r Some show ?thesis
    by (intro exI [of _ IPACM_SUCCESS] exI [of _ "s\<lparr>ifm_mem := m', ifm_head := h'\<rparr>"])
      (auto simp: ifm_registr_def)
qed

lemma ifm_deregistr_instances:
  assumes "instances s ls"
  shows "\<exists>m h. ifm_deregistr obj s = Some (IPACM_SUCCESS, s\<lparr>ifm_mem := m, ifm_head := h\<rparr>)
    \<and> instances (s\<lparr>ifm_mem := m, ifm_head := h\<rparr>) (filter (\<lambda>c. ii_obj c \<noteq> obj) ls)"
proof -
  obtain as where c: "chain (ifm_mem s) (ifm_head s) as" "distinct as"
    and p: "payloads (ifm_mem s) as = ls" "dom (ifm_mem s) = set as"
    using assms unfolding instances_def by blast
  let ?bs = "filter (\<lambda>a. ii_obj (payload (the (ifm_mem s a))) \<noteq> obj) as"
  from unlink_loop_chain [of "ifm_mem s" "ifm_head s" "[]" "ifm_head s" as "ifm_head s"
      "\<lambda>c. ii_obj c = obj"] c
  obtain m' h' where u: "unlink_loop (\<lambda>c. ii_obj c = obj) (ifm_mem s) (ifm_head s) (ifm_head s) (ifm_head s)
        = Some (m', h')"
    and r: "chain m' h' ?bs" "payloads m' ?bs = payloads (ifm_mem s) ?bs"
      "dom m' = dom (ifm_mem s) - {a \<in> set as. ii_obj (payload (the (ifm_mem s a))) = obj}"
    by (auto simp: Let_def)
  have "payloads m' ?bs = filter (\<lambda>c. ii_obj c \<noteq> obj) ls"
    using r(2) p(1) filter_payloads [of "ifm_mem s" "\<lambda>c. ii_obj c \<noteq> obj" as] by simp
  moreover have "dom m' = set ?bs" using r(3) p(2) by auto
  ultimately show ?thesis
    using u r(1) c(2) unfolding ifm_deregistr_def instances_def
    by (intro exI [of _ m'] exI [of _ h']) (auto intro!: exI [of _ ?bs])
qed

lemma search_loop_chain:
  "chain m tmp as \<Longrightarrow> search_loop m i tmp = Some (\<exists>c \<in> set (payloads m as). ii_if_index c = i)"
proof (induction as arbitrary: tmp)
  case Nil
  then show ?case by (subst search_loop.simps) simp
next
  case (Cons a as)
  then obtain n where n: "m a = Some n" "tmp = Some a" "chain m (next_of n) as"
    by (auto split: option.splits)
  with Cons.IH [OF n(3)] show ?case by (subst search_loop.simps) auto
qed

lemma SearchInstance_instances:
  "instances s ls \<Longrightarrow> SearchInstance i s = Some (\<exists>c \<in> set ls. ii_if_index c = i)"
  unfolding instances_def SearchInstance_def using search_loop_chain by blast

lemma registr_all_listeners:
  assumes "listeners d ls" "gives_free (new_listener E)"
  shows "\<exists>d' rs. registr_all E obj es d = Some d' \<and> listeners d' (ls @ rs)
    \<and> (\<forall>c \<in> set rs. ce_obj c = obj)
    \<and> (never_fails (new_listener E) \<longrightarrow> rs = map (\<lambda>e. \<lparr>ce_event = e, ce_obj = obj\<rparr>) es)"
  using assms(1)
proof (induction es arbitrary: d ls)
  case Nil
  then show ?case by (auto intro: exI [of _ "[]"])
next
  case (Cons e es)
  show ?case
  proof (cases "new_listener E (d_mem d)")
    case None
    then have "\<not> never_fails (new_listener E)"
      using listeners_finite [OF Cons.prems] by (auto simp: never_fails_def)
    with None Cons.IH [OF Cons.prems] show ?thesis by (auto simp: registr_def)
  next
    case (Some nw)
    with assms(2) have "d_mem d nw = None" by (auto simp: gives_free_def)
    from registr_listeners [OF Cons.prems this, of e obj] obtain d1 where
      r: "registr (Some nw) e obj d = Some (IPACM_SUCCESS, d1)"
      and l1: "listeners d1 (ls @ [\<lparr>ce_event = e, ce_obj = obj\<rparr>])" by blast
    from Cons.IH [OF l1] obtain d' rs where "registr_all E obj es d1 = Some d'"
      "listeners d' (ls @ \<lparr>ce_event = e, ce_obj = obj\<rparr> # rs)" "\<forall>c \<in> set rs. ce_obj c = obj"
      "never_fails (new_listener E) \<longrightarrow> rs = map (\<lambda>e. \<lparr>ce_event = e, ce_obj = obj\<rparr>) es" by auto
    with r Some show ?thesis
      by (intro exI [of _ d'] exI [of _ "\<lparr>ce_event = e, ce_obj = obj\<rparr> # rs"]) auto
  qed
qed

section \<open>One object per interface\<close>

fun object_index :: "iface_object \<Rightarrow> int" where
  "object_index (IPACM_Lan i) = i"
| "object_index (IPACM_Wlan i) = i"
| "object_index (IPACM_Wan i t m) = i"

text \<open>
  \<open>others\<close> are the listeners that are not interface objects. When the manager's node allocation
  may fail, an object can miss in its list; when it does not, list and objects agree.
\<close>

definition ifm_inv :: "'o ifm_env \<Rightarrow> 'o set \<Rightarrow> 'o ifm_state \<Rightarrow> bool" where
  "ifm_inv E others s \<longleftrightarrow>
     (\<exists>ins ls. instances s ins \<and> listeners (ifm_disp s) ls
        \<and> distinct (map ii_if_index ins)
        \<and> distinct (map snd (ifm_made s)) \<and> snd ` set (ifm_made s) \<inter> others = {}
        \<and> (\<forall>c \<in> set ins. \<exists>ob. (ob, ii_obj c) \<in> set (ifm_made s) \<and> object_index ob = ii_if_index c)
        \<and> (\<forall>c \<in> set ls. ce_obj c \<in> others \<union> snd ` set (ifm_made s))
        \<and> (never_fails (new_instance E) \<longrightarrow>
             map (\<lambda>p. \<lparr>ii_if_index = object_index (fst p), ii_obj = snd p\<rparr>) (ifm_made s) = ins))"

lemma ifm_inv_table [simp]: "ifm_inv E others (s\<lparr>ifm_table := t\<rparr>) = ifm_inv E others s"
  by (simp add: ifm_inv_def instances_def)

lemma ifm_inv_queries [simp]: "ifm_inv E others (s\<lparr>ifm_addr_queries := q\<rparr>) = ifm_inv E others s"
  by (simp add: ifm_inv_def instances_def)

lemma query_row:
  assumes "iface_ipa_index_query os idx tbl = (i, t)" "i \<noteq> INVALID_IFACE"
  shows "\<exists>r. iface_row t i = Some r"
proof (cases tbl)
  case None
  with assms show ?thesis by (auto simp: iface_ipa_index_query_def)
next
  case (Some l)
  with assms(1) have q: "iface_ipa_index_query os idx (Some l) = (i, t)" by simp
  from iface_query_cases [OF q] assms(2) obtain t' where "t = Some t'" "0 \<le> i" "nat i < length l"
    "map iface_name t' = map iface_name l" by (auto simp: INVALID_IFACE_def)
  moreover from this have "nat i < length t'" by (metis length_map)
  ultimately show ?thesis by (auto simp: iface_row_def)
qed

lemma instance_plan_index: "instance_plan E d i cat = Some (ob, es, q) \<Longrightarrow> object_index ob = i"
  by (auto simp: instance_plan_def split: ipacm_iface_type.splits if_splits)

text \<open>The last part of \<open>create_iface_instance\<close>: make the object, register it, list it.\<close>

definition make_object :: "'o ifm_env \<Rightarrow> int \<Rightarrow> iface_object \<Rightarrow> ipa_cm_event_id list \<Rightarrow> 'o ifm_state
    \<Rightarrow> (int \<times> 'o ifm_state) option" where
  "make_object E i ob es s =
     (let obj = new_obj E (ifm_made s); s2 = s\<lparr>ifm_made := ifm_made s @ [(ob, obj)]\<rparr> in
      case registr_all E obj es (ifm_disp s2) of None \<Rightarrow> None
      | Some disp \<Rightarrow> ifm_registr E i obj (s2\<lparr>ifm_disp := disp\<rparr>))"

lemma create_unfold:
  "create_iface_instance E d s =
     (case iface_ipa_index_query (ie_os E) (ifm_if_index d) (ifm_table s) of (i, t) \<Rightarrow>
      let s1 = s\<lparr>ifm_table := t\<rparr> in
      if i = INVALID_IFACE then Some (IPACM_SUCCESS, s1)
      else (case SearchInstance i s1 of
         None \<Rightarrow> None
       | Some True \<Rightarrow> Some (IPACM_SUCCESS, s1)
       | Some False \<Rightarrow>
           (case iface_row t i of None \<Rightarrow> None
            | Some r \<Rightarrow>
                (case instance_plan E d i (if_cat r) of
                   None \<Rightarrow> Some (IPACM_SUCCESS, s1)
                 | Some (ob, es, q) \<Rightarrow>
                     map_option (\<lambda>(_, s3). (IPACM_SUCCESS,
                         if q then s3\<lparr>ifm_addr_queries := ifm_addr_queries s3 @ [ifm_if_index d]\<rparr> else s3))
                       (make_object E i ob es s1)))))"
  unfolding create_iface_instance_def make_object_def Let_def
  by (auto split: prod.split option.split bool.split)

lemma make_object_result:
  assumes "instances s ins" "listeners (ifm_disp s) ls"
    and "gives_free (new_listener E)" "gives_free (new_instance E)"
  shows "\<exists>r s' rs. make_object E i ob es s = Some (r, s')
    \<and> instances s' (if r = IPACM_SUCCESS then ins @ [\<lparr>ii_if_index = i, ii_obj = new_obj E (ifm_made s)\<rparr>] else ins)
    \<and> listeners (ifm_disp s') (ls @ rs) \<and> (\<forall>c \<in> set rs. ce_obj c = new_obj E (ifm_made s))
    \<and> (never_fails (new_listener E) \<longrightarrow>
         rs = map (\<lambda>e. \<lparr>ce_event = e, ce_obj = new_obj E (ifm_made s)\<rparr>) es)
    \<and> (never_fails (new_instance E) \<longrightarrow> r = IPACM_SUCCESS)
    \<and> ifm_made s' = ifm_made s @ [(ob, new_obj E (ifm_made s))]
    \<and> ifm_table s' = ifm_table s \<and> ifm_addr_queries s' = ifm_addr_queries s"
proof -
  define obj where "obj = new_obj E (ifm_made s)"
  let ?s2 = "s\<lparr>ifm_made := ifm_made s @ [(ob, obj)]\<rparr>"
  from registr_all_listeners [OF assms(2,3), of obj es] obtain d' rs where
    d: "registr_all E obj es (ifm_disp s) = Some d'" "listeners d' (ls @ rs)" "\<forall>c \<in> set rs. ce_obj c = obj"
      "never_fails (new_listener E) \<longrightarrow> rs = map (\<lambda>e. \<lparr>ce_event = e, ce_obj = obj\<rparr>) es" by blast
  have "instances (?s2\<lparr>ifm_disp := d'\<rparr>) ins" using assms(1) by (simp add: instances_def)
  from ifm_registr_instances [OF this assms(4), of i obj] obtain r m h where
    r: "ifm_registr E i obj (?s2\<lparr>ifm_disp := d'\<rparr>) = Some (r, ?s2\<lparr>ifm_disp := d', ifm_mem := m, ifm_head := h\<rparr>)"
      "instances (?s2\<lparr>ifm_disp := d', ifm_mem := m, ifm_head := h\<rparr>)
         (if r = IPACM_SUCCESS then ins @ [\<lparr>ii_if_index = i, ii_obj = obj\<rparr>] else ins)"
      "never_fails (new_instance E) \<longrightarrow> r = IPACM_SUCCESS" by auto
  show ?thesis
    unfolding make_object_def Let_def obj_def [symmetric]
    using d r by (intro exI [of _ r] exI [of _ "?s2\<lparr>ifm_disp := d', ifm_mem := m, ifm_head := h\<rparr>"] exI [of _ rs]) simp
qed

text \<open>The documented behaviour of the allocators, for a program that holds the objects \<open>others\<close>.\<close>

definition sound_alloc :: "'o ifm_env \<Rightarrow> 'o set \<Rightarrow> bool" where
  "sound_alloc E others \<longleftrightarrow> gives_free (new_listener E) \<and> gives_free (new_instance E)
     \<and> (\<forall>made. new_obj E made \<notin> others \<union> snd ` set made)"

lemma make_object_inv:
  assumes al: "sound_alloc E others" and inv: "ifm_inv E others s"
    and new: "SearchInstance i s = Some False" and ob: "object_index ob = i"
  shows "\<exists>r s'. make_object E i ob es s = Some (r, s') \<and> ifm_inv E others s'"
proof -
  define obj where "obj = new_obj E (ifm_made s)"
  have fresh: "obj \<notin> others" "obj \<notin> snd ` set (ifm_made s)"
    using al by (auto simp: sound_alloc_def obj_def)
  obtain ins ls where i: "instances s ins" and l: "listeners (ifm_disp s) ls"
    and d: "distinct (map ii_if_index ins)" "distinct (map snd (ifm_made s))"
      "snd ` set (ifm_made s) \<inter> others = {}"
    and m: "\<forall>c \<in> set ins. \<exists>ob. (ob, ii_obj c) \<in> set (ifm_made s) \<and> object_index ob = ii_if_index c"
    and o: "\<forall>c \<in> set ls. ce_obj c \<in> others \<union> snd ` set (ifm_made s)"
    and nf: "never_fails (new_instance E) \<longrightarrow>
             map (\<lambda>p. \<lparr>ii_if_index = object_index (fst p), ii_obj = snd p\<rparr>) (ifm_made s) = ins"
    using inv unfolding ifm_inv_def by blast
  have ni: "i \<notin> ii_if_index ` set ins" using SearchInstance_instances [OF i, of i] new by auto
  have al': "gives_free (new_listener E)" "gives_free (new_instance E)"
    using al by (simp_all add: sound_alloc_def)
  obtain r s' rs where mk: "make_object E i ob es s = Some (r, s')"
    and i': "instances s' (if r = IPACM_SUCCESS then ins @ [\<lparr>ii_if_index = i, ii_obj = obj\<rparr>] else ins)"
    and l': "listeners (ifm_disp s') (ls @ rs)" "\<forall>c \<in> set rs. ce_obj c = obj"
    and r: "never_fails (new_instance E) \<longrightarrow> r = IPACM_SUCCESS"
    and md: "ifm_made s' = ifm_made s @ [(ob, obj)]"
    using make_object_result [OF i l al', of i ob es] unfolding obj_def by blast
  let ?ins = "if r = IPACM_SUCCESS then ins @ [\<lparr>ii_if_index = i, ii_obj = obj\<rparr>] else ins"
  have "distinct (map ii_if_index ?ins)" using d(1) ni by auto
  moreover have "distinct (map snd (ifm_made s'))" "snd ` set (ifm_made s') \<inter> others = {}"
    using d fresh md by auto
  moreover have "\<forall>c \<in> set ?ins. \<exists>ob. (ob, ii_obj c) \<in> set (ifm_made s') \<and> object_index ob = ii_if_index c"
  proof
    fix c assume "c \<in> set ?ins"
    then have "c \<in> set ins \<or> c = \<lparr>ii_if_index = i, ii_obj = obj\<rparr>" by (auto split: if_splits)
    then show "\<exists>ob. (ob, ii_obj c) \<in> set (ifm_made s') \<and> object_index ob = ii_if_index c"
    proof
      assume "c \<in> set ins"
      with m obtain ob' where "(ob', ii_obj c) \<in> set (ifm_made s)" "object_index ob' = ii_if_index c" by blast
      with md show ?thesis by auto
    next
      assume "c = \<lparr>ii_if_index = i, ii_obj = obj\<rparr>"
      with md ob show ?thesis by auto
    qed
  qed
  moreover have "\<forall>c \<in> set (ls @ rs). ce_obj c \<in> others \<union> snd ` set (ifm_made s')"
    using o l'(2) md by auto
  moreover have "never_fails (new_instance E) \<longrightarrow>
      map (\<lambda>p. \<lparr>ii_if_index = object_index (fst p), ii_obj = snd p\<rparr>) (ifm_made s') = ?ins"
    using nf r md ob by auto
  ultimately have "ifm_inv E others s'" unfolding ifm_inv_def using i' l'(1) by blast
  with mk show ?thesis by blast
qed

lemma create_inv:
  assumes "sound_alloc E others" "ifm_inv E others s"
  shows "\<exists>s'. create_iface_instance E d s = Some (IPACM_SUCCESS, s') \<and> ifm_inv E others s'"
proof -
  obtain i t where q: "iface_ipa_index_query (ie_os E) (ifm_if_index d) (ifm_table s) = (i, t)"
    by fastforce
  let ?s1 = "s\<lparr>ifm_table := t\<rparr>"
  have inv: "ifm_inv E others ?s1" using assms(2) by simp
  then obtain ins where "instances ?s1 ins" unfolding ifm_inv_def by blast
  from SearchInstance_instances [OF this, of i] obtain b where b: "SearchInstance i ?s1 = Some b" by blast
  show ?thesis
  proof (cases "i = INVALID_IFACE \<or> b")
    case True
    with q b inv show ?thesis by (auto simp: create_unfold Let_def)
  next
    case False
    with query_row [OF q] obtain r where r: "iface_row t i = Some r" by blast
    show ?thesis
    proof (cases "instance_plan E d i (if_cat r)")
      case None
      with q b r False inv show ?thesis by (simp add: create_unfold Let_def)
    next
      case (Some p)
      obtain ob es a where p: "p = (ob, es, a)" by (cases p)
      have "object_index ob = i" using instance_plan_index Some p by blast
      from make_object_inv [OF assms(1) inv _ this, of es] b False
      obtain x s' where "make_object E i ob es ?s1 = Some (x, s')" "ifm_inv E others s'" by auto
      with q b r False Some p show ?thesis by (auto simp: create_unfold Let_def)
    qed
  qed
qed

lemma iface_gone_inv:
  assumes "ifm_inv E others s" "obj \<notin> others"
  shows "\<exists>s'. iface_gone obj s = Some s' \<and> ifm_inv E others s'
    \<and> obj \<notin> snd ` set (ifm_made s')"
proof -
  obtain ins ls where i: "instances s ins" and l: "listeners (ifm_disp s) ls"
    and d: "distinct (map ii_if_index ins)" "distinct (map snd (ifm_made s))"
      "snd ` set (ifm_made s) \<inter> others = {}"
    and m: "\<forall>c \<in> set ins. \<exists>ob. (ob, ii_obj c) \<in> set (ifm_made s) \<and> object_index ob = ii_if_index c"
    and o: "\<forall>c \<in> set ls. ce_obj c \<in> others \<union> snd ` set (ifm_made s)"
    and nf: "never_fails (new_instance E) \<longrightarrow>
             map (\<lambda>p. \<lparr>ii_if_index = object_index (fst p), ii_obj = snd p\<rparr>) (ifm_made s) = ins"
    using assms(1) unfolding ifm_inv_def by blast
  obtain d' where d': "deregistr obj (ifm_disp s) = Some (IPACM_SUCCESS, d')"
    "listeners d' (filter (\<lambda>c. ce_obj c \<noteq> obj) ls)" using deregistr_listeners [OF l] by blast
  have "instances (s\<lparr>ifm_disp := d'\<rparr>) ins" using i by (simp add: instances_def)
  from ifm_deregistr_instances [OF this, of obj] obtain mm h where
    g: "ifm_deregistr obj (s\<lparr>ifm_disp := d'\<rparr>) = Some (IPACM_SUCCESS, s\<lparr>ifm_disp := d', ifm_mem := mm, ifm_head := h\<rparr>)"
      "instances (s\<lparr>ifm_disp := d', ifm_mem := mm, ifm_head := h\<rparr>) (filter (\<lambda>c. ii_obj c \<noteq> obj) ins)" by auto
  let ?made = "filter (\<lambda>p. snd p \<noteq> obj) (ifm_made s)"
  let ?s' = "s\<lparr>ifm_disp := d', ifm_mem := mm, ifm_head := h, ifm_made := ?made\<rparr>"
  have "instances ?s' (filter (\<lambda>c. ii_obj c \<noteq> obj) ins)" using g(2) by (simp add: instances_def)
  moreover have "distinct (map ii_if_index (filter (\<lambda>c. ii_obj c \<noteq> obj) ins))" "distinct (map snd ?made)"
    using d by (auto simp: distinct_map_filter)
  moreover have "\<forall>c \<in> set (filter (\<lambda>c. ii_obj c \<noteq> obj) ins).
      \<exists>ob. (ob, ii_obj c) \<in> set ?made \<and> object_index ob = ii_if_index c" using m by auto
  moreover have "\<forall>c \<in> set (filter (\<lambda>c. ce_obj c \<noteq> obj) ls). ce_obj c \<in> others \<union> snd ` set ?made"
    using o by force
  moreover have "never_fails (new_instance E) \<longrightarrow>
      map (\<lambda>p. \<lparr>ii_if_index = object_index (fst p), ii_obj = snd p\<rparr>) ?made = filter (\<lambda>c. ii_obj c \<noteq> obj) ins"
    using nf by (auto simp: filter_map comp_def)
  moreover have "snd ` set ?made \<inter> others = {}" using d(3) by auto
  ultimately have "ifm_inv E others ?s'"
    unfolding ifm_inv_def using d'(2)
    by (intro exI [of _ "filter (\<lambda>c. ii_obj c \<noteq> obj) ins"] exI [of _ "filter (\<lambda>c. ce_obj c \<noteq> obj) ls"]) simp
  moreover have "iface_gone obj s = Some ?s'" using d' g by (simp add: iface_gone_def)
  ultimately show ?thesis by (intro exI [of _ ?s']) auto
qed

text \<open>The event names no row of the interface table: the callback reads outside of it.\<close>

definition no_row :: "'o ifm_env \<Rightarrow> link_param \<Rightarrow> 'o ifm_state \<Rightarrow> bool" where
  "no_row E p s \<longleftrightarrow>
     (case param_index p of None \<Rightarrow> True
      | Some idx \<Rightarrow> (case iface_ipa_index_query (ie_os E) idx (ifm_table s) of (i, t) \<Rightarrow> iface_row t i = None))"

lemma link_up_inv:
  assumes "sound_alloc E others" "ifm_inv E others s" "param_index p = Some idx"
  shows "case link_up E ty mac idx test newcat s of
           Some s' \<Rightarrow> ifm_inv E others s' | None \<Rightarrow> no_row E p s"
proof -
  obtain i t where q: "iface_ipa_index_query (ie_os E) idx (ifm_table s) = (i, t)" by fastforce
  show ?thesis
  proof (cases "iface_row t i")
    case None
    with q assms(3) show ?thesis by (simp add: link_up_def no_row_def)
  next
    case (Some r)
    have "ifm_inv E others (s\<lparr>ifm_table := u\<rparr>)" for u using assms(2) by simp
    from create_inv [OF assms(1) this] q Some assms(2) show ?thesis
      by (cases "test (if_cat r)") (auto simp: link_up_def split: option.splits; metis option.inject option.simps(3) snd_conv)+
  qed
qed

definition bad_link :: "'o ifm_env \<Rightarrow> 'o ifm_input \<Rightarrow> 'o ifm_state \<Rightarrow> bool" where
  "bad_link E x s \<longleftrightarrow>
     (case x of Gone obj \<Rightarrow> False
      | Link e p \<Rightarrow> no_row E p s
          \<or> e = IPA_WLAN_STA_LINK_UP_EVENT \<and> (case p of Sta i mac \<Rightarrow> False | _ \<Rightarrow> True))"

lemma event_callback_inv:
  assumes "sound_alloc E others" "ifm_inv E others s"
  shows "case ifm_event_callback E e p s of
           Some s' \<Rightarrow> ifm_inv E others s' | None \<Rightarrow> bad_link E (Link e p) s"
proof (cases "param_index p")
  case None
  then have p: "p = No_param" by (cases p) auto
  show ?thesis using assms(2) p
    by (cases e) (auto simp: ifm_event_callback_def Let_def bad_link_def no_row_def)
next
  case (Some idx)
  note up = link_up_inv [OF assms Some]
  have row: "no_row E p s \<Longrightarrow> bad_link E (Link e p) s" by (simp add: bad_link_def)
  have embms: "\<not> odu_enable E \<Longrightarrow> ifm_event_callback E IPA_WAN_EMBMS_LINK_UP_EVENT p s
      = Some (s\<lparr>ifm_table := snd (iface_ipa_index_query (ie_os E) idx (ifm_table s))\<rparr>)"
    using Some by (simp add: ifm_event_callback_def Let_def split: prod.split)
  show ?thesis
  proof (cases "e = IPA_WLAN_STA_LINK_UP_EVENT")
    case True
    show ?thesis
    proof (cases p)
      case (Sta j mac)
      with Some have j: "j = idx" by simp
      from up [of "\<lambda>_. WLAN_WAN" mac "\<lambda>c. c = UNKNOWN_IF" "Some WAN_IF"] row True Sta j show ?thesis
        by (auto simp: ifm_event_callback_def Let_def split: option.splits)
    qed (use True in \<open>auto simp: ifm_event_callback_def Let_def bad_link_def\<close>)
  next
    case False
    have gen: "case link_up E ty m idx test nc s of None \<Rightarrow> bad_link E (Link e p) s
        | Some s' \<Rightarrow> ifm_inv E others s'" for ty m test nc
      using up [of ty m test nc] row by (auto split: option.splits)
    show ?thesis
    proof (cases "e = IPA_WAN_EMBMS_LINK_UP_EVENT \<and> \<not> odu_enable E")
      case True
      with embms assms(2) show ?thesis by simp
    next
      case no: False
      with False gen Some assms(2) show ?thesis
        by (cases e) (simp_all add: ifm_event_callback_def Let_def)
    qed
  qed
qed

definition ifm_init :: "if_table \<Rightarrow> 'o dispatcher \<Rightarrow> 'o ifm_state" where
  "ifm_init t d = \<lparr>ifm_table = t, ifm_disp = d, ifm_mem = Map.empty, ifm_head = None, ifm_made = [],
     ifm_addr_queries = []\<rparr>"

lemma ifm_ctor_inv:
  assumes al: "sound_alloc E others" and l: "listeners d ls" "ce_obj ` set ls \<subseteq> others" and me: "me \<in> others"
  shows "\<exists>s. IPACM_IfaceManager_ctor E me (ifm_init t d) = Some s \<and> ifm_inv E others s"
proof -
  have "gives_free (new_listener E)" using al by (simp add: sound_alloc_def)
  from registr_all_listeners [OF l(1) this, of me ifm_events] obtain d' rs where
    d': "registr_all E me ifm_events d = Some d'" "listeners d' (ls @ rs)" "\<forall>c \<in> set rs. ce_obj c = me" by blast
  have "instances ((ifm_init t d)\<lparr>ifm_disp := d'\<rparr>) []"
    by (simp add: instances_def ifm_init_def)
  moreover have "\<forall>c \<in> set (ls @ rs). ce_obj c \<in> others" using l(2) d'(3) me by auto
  ultimately have "ifm_inv E others ((ifm_init t d)\<lparr>ifm_disp := d'\<rparr>)"
    using d'(2) unfolding ifm_inv_def
    by (intro exI [of _ "[]"] exI [of _ "ls @ rs"]) (simp add: ifm_init_def)
  with d'(1) show ?thesis by (simp add: IPACM_IfaceManager_ctor_def ifm_init_def)
qed

lemma ifm_run_inv:
  assumes "sound_alloc E others" "ifm_inv E others s" "\<forall>obj. Gone obj \<in> set xs \<longrightarrow> obj \<notin> others"
  shows "case ifm_run E xs s of
           Some s' \<Rightarrow> ifm_inv E others s'
         | None \<Rightarrow> \<exists>ys x zs s1. xs = ys @ x # zs \<and> ifm_run E ys s = Some s1
                    \<and> ifm_inv E others s1 \<and> bad_link E x s1"
  using assms(2,3)
proof (induction xs arbitrary: s)
  case Nil
  then show ?case by simp
next
  case (Cons x xs)
  have st: "case ifm_step E x s of Some s' \<Rightarrow> ifm_inv E others s' | None \<Rightarrow> bad_link E x s"
  proof (cases x)
    case (Link e p)
    with event_callback_inv [OF assms(1) Cons.prems(1), of e p] show ?thesis unfolding Link by simp
  next
    case (Gone obj)
    with iface_gone_inv [OF Cons.prems(1), of obj] Cons.prems(2) show ?thesis by auto
  qed
  show ?case
  proof (cases "ifm_step E x s")
    case None
    with st have "bad_link E x s" by simp
    moreover have "x # xs = [] @ x # xs \<and> ifm_run E [] s = Some s" by simp
    ultimately have "\<exists>ys y zs s1. x # xs = ys @ y # zs \<and> ifm_run E ys s = Some s1
        \<and> ifm_inv E others s1 \<and> bad_link E y s1" using Cons.prems(1) by blast
    with None show ?thesis by simp
  next
    case (Some s1)
    with st have i1: "ifm_inv E others s1" by simp
    show ?thesis
    proof (cases "ifm_run E xs s1")
      case None
      with Cons.IH [OF i1] Cons.prems(2) obtain ys z zs s2 where
        "xs = ys @ z # zs" "ifm_run E ys s1 = Some s2" "ifm_inv E others s2" "bad_link E z s2" by auto
      then have "x # xs = (x # ys) @ z # zs \<and> ifm_run E (x # ys) s = Some s2" using Some by simp
      with \<open>ifm_inv E others s2\<close> \<open>bad_link E z s2\<close> have "\<exists>ys y zs s1. x # xs = ys @ y # zs
          \<and> ifm_run E ys s = Some s1 \<and> ifm_inv E others s1 \<and> bad_link E y s1" by blast
      with Some None show ?thesis by simp
    next
      case (Some s2)
      with Cons.IH [OF i1] Cons.prems(2) \<open>ifm_step E x s = Some s1\<close> show ?thesis by simp
    qed
  qed
qed

text \<open>An allocator: the first free address. A table with an access point and a USB interface.\<close>

partial_function (option) first_free :: "'p store \<Rightarrow> nat \<Rightarrow> nat option" where
  "first_free m a = (if m a = None then Some a else first_free m (a + 1))"

lemma first_free_gives_free: "gives_free (\<lambda>m. first_free m 0)"
proof -
  have "first_free m a = Some b \<Longrightarrow> m b = None" for m :: "'p store" and a b
    by (induction rule: first_free.raw_induct [rotated, consumes 1]) (auto split: if_splits)
  then show ?thesis by (auto simp: gives_free_def)
qed

lemma first_free_finds: "m (a + k) = None \<Longrightarrow> first_free m a \<noteq> None"
proof (induction k arbitrary: a)
  case 0
  then show ?case by (subst first_free.simps) simp
next
  case (Suc k)
  then have "first_free m (a + 1) \<noteq> None" by simp
  then show ?case by (subst first_free.simps) simp
qed

lemma first_free_never_fails: "never_fails (\<lambda>m. first_free m 0)"
  unfolding never_fails_def
proof (intro allI impI)
  fix m :: "'p store" assume "finite (dom m)"
  then obtain k where "k \<notin> dom m" using ex_new_if_finite infinite_UNIV_nat by blast
  then have "m (0 + k) = None" by (simp add: domIff)
  then show "first_free m 0 \<noteq> None" by (rule first_free_finds)
qed

definition sample_ifm_env :: "nat ifm_env" where
  "sample_ifm_env = \<lparr>ie_os = \<lparr>socket_ok = True, SIOCGIFNAME = (\<lambda>_. None), SIOCGIFINDEX = (\<lambda>_. None)\<rparr>,
     odu_enable = False, odu_router_mode = False,
     new_listener = (\<lambda>m. first_free m 0), new_instance = (\<lambda>m. first_free m 0),
     new_obj = (\<lambda>made. Suc (sum_list (map snd made))), conf_init = (\<lambda>t. t)\<rparr>"

definition sample_ifm :: "nat ifm_state" where
  "sample_ifm = ifm_init (Some [\<lparr>iface_name = ''wlan0'', if_cat = WLAN_IF, netlink_interface_index = 3\<rparr>,
     \<lparr>iface_name = ''rndis0'', if_cat = LAN_IF, netlink_interface_index = 4\<rparr>]) empty_dispatcher"

lemma sample_sound: "sound_alloc sample_ifm_env {0}"
proof -
  have "Suc (sum_list (map snd made)) \<notin> snd ` set made" for made :: "(iface_object \<times> nat) list"
  proof
    assume "Suc (sum_list (map snd made)) \<in> snd ` set made"
    then have "Suc (sum_list (map snd made)) \<in> set (map snd made)" by simp
    from member_le_sum_list [OF this] show False by simp
  qed
  then show ?thesis by (simp add: sound_alloc_def sample_ifm_env_def first_free_gives_free)
qed

lemma sample_never_fails:
  "never_fails (new_listener sample_ifm_env)" "never_fails (new_instance sample_ifm_env)"
  by (simp_all add: sample_ifm_env_def first_free_never_fails)

lemma sample_ifm_lists: "instances sample_ifm []" "listeners (ifm_disp sample_ifm) []" "ifm_made sample_ifm = []"
  "ifm_addr_queries sample_ifm = []"
  by (simp_all add: sample_ifm_def ifm_init_def instances_def empty_dispatcher_listeners)

text \<open>
  C10. The interface manager keeps one object per interface: from its constructor on, in every
  sequence of link events and of objects that end, its list is a well-formed list of live objects
  with different interfaces, the dispatcher lists live objects only, and, when the list's
  allocation does not fail, the list holds every live object once. The only undefined behaviour is
  an event for an interface that the table does not have.
\<close>

theorem one_object_per_interface:
  assumes "sound_alloc E others" "listeners d ls" "ce_obj ` set ls \<subseteq> others" "me \<in> others"
    and "\<forall>obj. Gone obj \<in> set xs \<longrightarrow> obj \<notin> others"
  shows "\<exists>s. IPACM_IfaceManager_ctor E me (ifm_init t d) = Some s
    \<and> (case ifm_run E xs s of
         Some s' \<Rightarrow> ifm_inv E others s'
       | None \<Rightarrow> \<exists>ys x zs s1. xs = ys @ x # zs \<and> ifm_run E ys s = Some s1
                  \<and> ifm_inv E others s1 \<and> bad_link E x s1)"
proof -
  from ifm_ctor_inv [OF assms(1-4)] obtain s where
    s: "IPACM_IfaceManager_ctor E me (ifm_init t d) = Some s" "ifm_inv E others s" by blast
  with ifm_run_inv [OF assms(1) s(2) assms(5)] show ?thesis by blast
qed

theorem one_object_per_interface_witness:
  "\<exists>s. IPACM_IfaceManager_ctor sample_ifm_env 0 (ifm_init (ifm_table sample_ifm) empty_dispatcher) = Some s
    \<and> (let xs = [Link IPA_USB_LINK_UP_EVENT (Fid 4), Gone 1, Link IPA_USB_LINK_UP_EVENT (Fid 4)] in
       case ifm_run sample_ifm_env xs s of
         Some s' \<Rightarrow> ifm_inv sample_ifm_env {0} s'
       | None \<Rightarrow> \<exists>ys x zs s1. xs = ys @ x # zs \<and> ifm_run sample_ifm_env ys s = Some s1
                  \<and> ifm_inv sample_ifm_env {0} s1 \<and> bad_link sample_ifm_env x s1)"
  unfolding Let_def
  by (rule one_object_per_interface [OF sample_sound empty_dispatcher_listeners]) auto

lemma create_registers:
  assumes al: "sound_alloc E others" "never_fails (new_listener E)" "never_fails (new_instance E)"
    and l: "instances s ins" "listeners (ifm_disp s) ls"
    and q: "iface_ipa_index_query (ie_os E) (ifm_if_index d) (ifm_table s) = (i, t)"
    and r: "iface_row t i = Some r" "i \<noteq> INVALID_IFACE" "i \<notin> ii_if_index ` set ins"
    and p: "instance_plan E d i (if_cat r) = Some (ob, es, a)"
  shows "\<exists>s'. create_iface_instance E d s = Some (IPACM_SUCCESS, s')
    \<and> instances s' (ins @ [\<lparr>ii_if_index = i, ii_obj = new_obj E (ifm_made s)\<rparr>])
    \<and> listeners (ifm_disp s') (ls @ map (\<lambda>e. \<lparr>ce_event = e, ce_obj = new_obj E (ifm_made s)\<rparr>) es)
    \<and> ifm_made s' = ifm_made s @ [(ob, new_obj E (ifm_made s))]
    \<and> ifm_addr_queries s' = ifm_addr_queries s @ (if a then [ifm_if_index d] else [])"
proof -
  let ?s1 = "s\<lparr>ifm_table := t\<rparr>"
  have l1: "instances ?s1 ins" using l(1) by (simp add: instances_def)
  from SearchInstance_instances [OF l1, of i] r(3) have se: "SearchInstance i ?s1 = Some False" by auto
  have "listeners (ifm_disp ?s1) ls" using l(2) by simp
  from make_object_result [OF l1 this, of E i ob es] al obtain s' where
    mk: "make_object E i ob es ?s1 = Some (IPACM_SUCCESS, s')"
    and s': "instances s' (ins @ [\<lparr>ii_if_index = i, ii_obj = new_obj E (ifm_made s)\<rparr>])"
      "listeners (ifm_disp s') (ls @ map (\<lambda>e. \<lparr>ce_event = e, ce_obj = new_obj E (ifm_made s)\<rparr>) es)"
      "ifm_made s' = ifm_made s @ [(ob, new_obj E (ifm_made s))]" "ifm_addr_queries s' = ifm_addr_queries s"
    by (auto simp: sound_alloc_def)
  let ?s2 = "if a then s'\<lparr>ifm_addr_queries := ifm_addr_queries s' @ [ifm_if_index d]\<rparr> else s'"
  have "create_iface_instance E d s = Some (IPACM_SUCCESS, ?s2)"
    using q se r(1,2) p mk by (simp add: create_unfold Let_def)
  moreover have "instances ?s2 (ins @ [\<lparr>ii_if_index = i, ii_obj = new_obj E (ifm_made s)\<rparr>])"
    using s'(1) by (simp add: instances_def)
  ultimately show ?thesis using s' by (intro exI [of _ ?s2]) auto
qed

text \<open>
  A link-up for an interface without an object makes one object and lists it, and appends
  exactly the registrations of its category to the dispatcher's list; everything that was listed
  stays.
\<close>

theorem create_iface_instance_registers:
  assumes "sound_alloc E others" "never_fails (new_listener E)" "never_fails (new_instance E)"
    and "instances s ins" "listeners (ifm_disp s) ls"
    and "iface_ipa_index_query (ie_os E) (ifm_if_index d) (ifm_table s) = (i, t)"
    and "iface_row t i = Some r" "i \<noteq> INVALID_IFACE" "i \<notin> ii_if_index ` set ins"
    and "instance_plan E d i (if_cat r) = Some (ob, es, a)"
  shows "\<exists>s'. create_iface_instance E d s = Some (IPACM_SUCCESS, s')
    \<and> instances s' (ins @ [\<lparr>ii_if_index = i, ii_obj = new_obj E (ifm_made s)\<rparr>])
    \<and> listeners (ifm_disp s') (ls @ map (\<lambda>e. \<lparr>ce_event = e, ce_obj = new_obj E (ifm_made s)\<rparr>) es)
    \<and> ifm_made s' = ifm_made s @ [(ob, new_obj E (ifm_made s))]
    \<and> ifm_addr_queries s' = ifm_addr_queries s @ (if a then [ifm_if_index d] else [])"
  by (rule create_registers [OF assms])

theorem create_iface_instance_registers_witness:
  "\<exists>s'. create_iface_instance sample_ifm_env \<lparr>ifm_if_index = 4, ifm_if_type = Q6_WAN, ifm_mac_addr = []\<rparr> sample_ifm
      = Some (IPACM_SUCCESS, s')
    \<and> instances s' [\<lparr>ii_if_index = 1, ii_obj = 1\<rparr>]
    \<and> listeners (ifm_disp s') (map (\<lambda>e. \<lparr>ce_event = e, ce_obj = 1\<rparr>) lan_events)
    \<and> ifm_made s' = [(IPACM_Lan 1, 1)] \<and> ifm_addr_queries s' = [4]"
proof -
  have q: "iface_ipa_index_query (ie_os sample_ifm_env) 4 (ifm_table sample_ifm) = (1, ifm_table sample_ifm)"
    by (simp add: sample_ifm_def ifm_init_def iface_ipa_index_query_def)
  have r: "iface_row (ifm_table sample_ifm) 1
      = Some \<lparr>iface_name = ''rndis0'', if_cat = LAN_IF, netlink_interface_index = 4\<rparr>"
    by (simp add: sample_ifm_def ifm_init_def iface_row_def)
  have p: "instance_plan sample_ifm_env d 1 LAN_IF = Some (IPACM_Lan 1, lan_events, True)" for d
    by (simp add: instance_plan_def)
  have n: "new_obj sample_ifm_env [] = 1" by (simp add: sample_ifm_env_def)
  show ?thesis
    using create_iface_instance_registers
      [OF sample_sound sample_never_fails sample_ifm_lists(1,2),
       of "\<lparr>ifm_if_index = 4, ifm_if_type = Q6_WAN, ifm_mac_addr = []\<rparr>" 1 "ifm_table sample_ifm" _ "IPACM_Lan 1" lan_events True]
    using q r p n sample_ifm_lists(3,4) by (simp add: INVALID_IFACE_def)
qed

text \<open>
  C11. A WLAN access point is registered for another event right after \<open>IPA_LAN_DELETE_SELF\<close>, so the
  walk that delivers \<open>IPA_LAN_DELETE_SELF\<close> to it goes on from a freed node: undefined behaviour. For
  a LAN interface, whose last registration it is, the delivery ends and leaves the listeners there
  were before.
\<close>

theorem wlan_close_use_after_free:
  assumes "sound_alloc E others" "never_fails (new_listener E)" "never_fails (new_instance E)"
    and "instances s ins" "listeners (ifm_disp s) ls" "ce_obj ` set ls \<subseteq> others \<union> snd ` set (ifm_made s)"
    and "iface_ipa_index_query (ie_os E) (ifm_if_index d) (ifm_table s) = (i, t)"
    and "iface_row t i = Some r" "i \<noteq> INVALID_IFACE" "i \<notin> ii_if_index ` set ins"
  shows "(if_cat r = WLAN_IF \<longrightarrow>
      (\<exists>s'. create_iface_instance E d s = Some (IPACM_SUCCESS, s')
        \<and> ProcessEvt (delete_self_callback (new_obj E (ifm_made s)) f) IPA_LAN_DELETE_SELF (ifm_disp s', st, w) = None))
    \<and> (if_cat r = LAN_IF \<longrightarrow>
      (\<exists>s' d' st' w'. create_iface_instance E d s = Some (IPACM_SUCCESS, s')
        \<and> ProcessEvt (delete_self_callback (new_obj E (ifm_made s)) f) IPA_LAN_DELETE_SELF (ifm_disp s', st, w)
            = Some (d', st', w') \<and> listeners d' ls))"
proof (intro conjI impI)
  define obj where "obj = new_obj E (ifm_made s)"
  have "obj \<notin> others \<union> snd ` set (ifm_made s)" using assms(1) by (simp add: sound_alloc_def obj_def)
  with assms(6) have fresh: "\<forall>c \<in> set ls. ce_obj c \<noteq> obj" by blast
  let ?reg = "map (\<lambda>e. \<lparr>ce_event = e, ce_obj = obj\<rparr>)"
  {
    assume "if_cat r = WLAN_IF"
    then have "instance_plan E d i (if_cat r) = Some (IPACM_Wlan i, wlan_events, True)"
      by (simp add: instance_plan_def)
    from create_registers [OF assms(1-5,7-10) this] obtain s' where
      s': "create_iface_instance E d s = Some (IPACM_SUCCESS, s')" "listeners (ifm_disp s') (ls @ ?reg wlan_events)"
      unfolding obj_def by blast
    have w: "ls @ ?reg wlan_events = (ls @ ?reg (take 16 wlan_events))
        @ [\<lparr>ce_event = IPA_LAN_DELETE_SELF, ce_obj = obj\<rparr>,
           \<lparr>ce_event = IPA_TETHERING_STATS_UPDATE_EVENT, ce_obj = obj\<rparr>] @ []"
      by (simp add: wlan_events_def)
    have "ProcessEvt (delete_self_callback obj f) IPA_LAN_DELETE_SELF (ifm_disp s', st, w) = None"
      by (rule self_deregistration [OF s'(2) [unfolded w]]) (use fresh in \<open>auto simp: wlan_events_def\<close>)
    with s'(1) show "\<exists>s'. create_iface_instance E d s = Some (IPACM_SUCCESS, s')
        \<and> ProcessEvt (delete_self_callback (new_obj E (ifm_made s)) f) IPA_LAN_DELETE_SELF (ifm_disp s', st, w) = None"
      unfolding obj_def by blast
  }
  {
    assume "if_cat r = LAN_IF"
    then have "instance_plan E d i (if_cat r) = Some (IPACM_Lan i, lan_events, True)"
      by (simp add: instance_plan_def)
    from create_registers [OF assms(1-5,7-10) this] obtain s' where
      s': "create_iface_instance E d s = Some (IPACM_SUCCESS, s')" "listeners (ifm_disp s') (ls @ ?reg lan_events)"
      unfolding obj_def by blast
    have w: "ls @ ?reg lan_events = (ls @ ?reg (butlast lan_events))
        @ [\<lparr>ce_event = IPA_LAN_DELETE_SELF, ce_obj = obj\<rparr>]"
      by (simp add: lan_events_def)
    have "\<exists>d' st' w'. ProcessEvt (delete_self_callback obj f) IPA_LAN_DELETE_SELF (ifm_disp s', st, w)
        = Some (d', st', w') \<and> listeners d' (filter (\<lambda>c. ce_obj c \<noteq> obj) (ls @ ?reg (butlast lan_events)))"
      by (rule self_deregistration_last [OF s'(2) [unfolded w]]) (use fresh in \<open>auto simp: lan_events_def\<close>)
    moreover have "filter (\<lambda>c. ce_obj c \<noteq> obj) (ls @ ?reg (butlast lan_events)) = ls"
      using fresh by (auto simp: filter_id_conv)
    ultimately show "\<exists>s' d' st' w'. create_iface_instance E d s = Some (IPACM_SUCCESS, s')
        \<and> ProcessEvt (delete_self_callback (new_obj E (ifm_made s)) f) IPA_LAN_DELETE_SELF (ifm_disp s', st, w)
            = Some (d', st', w') \<and> listeners d' ls"
      using s'(1) unfolding obj_def by auto
  }
qed

theorem wlan_close_use_after_free_witness:
  "\<exists>s'. create_iface_instance sample_ifm_env \<lparr>ifm_if_index = 3, ifm_if_type = Q6_WAN, ifm_mac_addr = []\<rparr> sample_ifm
      = Some (IPACM_SUCCESS, s')
    \<and> ProcessEvt (delete_self_callback 1 (\<lambda>_ w. w)) IPA_LAN_DELETE_SELF (ifm_disp s', \<lambda>_. 0, ()) = None"
proof -
  have q: "iface_ipa_index_query (ie_os sample_ifm_env) 3 (ifm_table sample_ifm) = (0, ifm_table sample_ifm)"
    by (simp add: sample_ifm_def ifm_init_def iface_ipa_index_query_def)
  have r: "iface_row (ifm_table sample_ifm) 0
      = Some \<lparr>iface_name = ''wlan0'', if_cat = WLAN_IF, netlink_interface_index = 3\<rparr>"
    by (simp add: sample_ifm_def ifm_init_def iface_row_def)
  have n: "new_obj sample_ifm_env [] = 1" by (simp add: sample_ifm_env_def)
  show ?thesis
    using wlan_close_use_after_free
      [OF sample_sound sample_never_fails sample_ifm_lists(1,2),
       of "\<lparr>ifm_if_index = 3, ifm_if_type = Q6_WAN, ifm_mac_addr = []\<rparr>" 0 "ifm_table sample_ifm" _
         "\<lambda>_ w. w" "\<lambda>_. 0" "()"]
    using q r n sample_ifm_lists(3) by (simp add: INVALID_IFACE_def)
qed

end
