(* ===== verification/Ipacm_Clients.thy ===== *)
theory Ipacm_Clients
  imports Ipacm_Iface
begin

text \<open>
  The tables of clients of \<^verbatim>\<open>IPACM_Lan.cpp\<close> and \<^verbatim>\<open>IPACM_Wlan.cpp\<close>: what both have in common. A client
  has a header of each address family, up to one IPv4 and three IPv6 addresses, and for each
  transmit property of the interface a routing rule per address (two for IPv6). The table is an array of
  which the first \<open>cl_num\<close> entries are in use. \<open>None\<close> is an access outside of an array or through a
  null pointer.
\<close>

definition IPV6_NUM_ADDR :: nat where "IPV6_NUM_ADDR = 3"

record client_rt_hdl =
  rt_rule_hdl_v4 :: u32
  rt_rule_hdl_v6 :: "u32 list"
  rt_rule_hdl_v6_wan :: "u32 list"

record ipa_client =
  cl_mac :: "u8 list"
  cl_v4_addr :: u32
  cl_v6_addr :: "u32 list list"
  hdr_hdl_v4 :: u32
  hdr_hdl_v6 :: u32
  route_rule_set_v4 :: bool
  route_rule_set_v6 :: nat
  ipv4_set :: bool
  ipv6_set :: nat
  ipv4_header_set :: bool
  ipv6_header_set :: bool
  cl_rt_hdl :: "client_rt_hdl list"

text \<open>
  The calls into the conntrack listener and the NAT application, and the posted LAN to LAN
  events: an event, the family, the addresses and the MAC address.
\<close>

datatype client_call =
    Ct_del u32
  | Ct_add ipacm_event_data_all
  | Nat_pwr_save u32
  | Nat_pwr_reset u32
  | Rm_add ipa_rm_resource_name
  | Rm_del ipa_rm_resource_name
  | L2l_post ipa_cm_event_id ipa_ip_type u32 "u32 list" "u8 list"

record ('c, 'k) clients =
  cl_tab :: "'c list"
  cl_num :: nat
  header_name_count :: nat
  cl_calls :: "client_call list"
  cl_kernel :: 'k

text \<open>
  The object the tables belong to: its properties, its entry of the configuration, the device
  wrappers and the pipe of the local applications, a constant of the driver.
\<close>

record 'k client_env =
  ce_K :: "'k ipa_kernel"
  ce_hdr_fd :: int
  ce_rt_fd :: int
  ce_iface :: ipacm_iface
  ce_cat :: ipacm_iface_type
  ce_odu_router_mode :: bool
  ipa_client_rm_map_tbl :: "u32 \<Rightarrow> ipa_rm_resource_name"
  IPA_CLIENT_APPS_LAN_CONS :: u32

text \<open>The transmit properties that a loop up to \<open>iface_query->num_tx_props\<close> reads.\<close>

definition tx_view :: "ipacm_iface \<Rightarrow> tx_intf_prop list option" where
  "tx_view f =
     (case iface_query f of None \<Rightarrow> None
      | Some (n, _) \<Rightarrow>
          (case tx_prop f of None \<Rightarrow> if n = 0 then Some [] else None
           | Some ps \<Rightarrow> if n \<le> length ps then Some (take n ps) else None))"

definition live :: "('c, 'k, 'm) clients_scheme \<Rightarrow> 'c list" where
  "live s = take (cl_num s) (cl_tab s)"

definition client_index :: "u8 list \<Rightarrow> ('a ipa_client_scheme, 'k, 'm) clients_scheme \<Rightarrow> nat option" where
  "client_index mac s =
     (let i = find_idx (\<lambda>c. cl_mac c = mac) (live s) in if i < length (live s) then Some i else None)"

definition put_client :: "nat \<Rightarrow> 'c \<Rightarrow> ('c, 'k, 'm) clients_scheme \<Rightarrow> ('c, 'k, 'm) clients_scheme" where
  "put_client i c s = s\<lparr>cl_tab := (cl_tab s)[i := c]\<rparr>"

definition log_call :: "client_call \<Rightarrow> ('c, 'k, 'm) clients_scheme \<Rightarrow> ('c, 'k, 'm) clients_scheme" where
  "log_call x s = s\<lparr>cl_calls := cl_calls s @ [x]\<rparr>"

section \<open>Headers\<close>

text \<open>\<open>snprintf(index, 2, "%d", n)\<close> leaves room for one digit, the first.\<close>

fun first_digit :: "nat \<Rightarrow> nat" where
  "first_digit n = (if n < 10 then n else first_digit (n div 10))"

declare first_digit.simps [simp del]

definition index_str :: "nat \<Rightarrow> string" where
  "index_str n = [char_of (48 + first_digit n)]"

definition header_name :: "ipacm_iface \<Rightarrow> string \<Rightarrow> nat \<Rightarrow> string" where
  "header_name f base cnt = index_str (nat (ipa_if_num f)) @ base @ index_str cnt"

text \<open>The partial header of a property, with the buffer it is copied to.\<close>

definition copy_partial :: "'k client_env \<Rightarrow> tx_intf_prop \<Rightarrow> 'k \<Rightarrow> (ipa_ioc_copy_hdr \<times> u8 list) option \<times> 'k" where
  "copy_partial E t k =
     (case CopyHeader (ce_K E) (ce_hdr_fd E) (tx_hdr_name t) k of
        (None, k1) \<Rightarrow> (None, k1)
      | (Some c, k1) \<Rightarrow>
          if length (copied_hdr c) > IPA_HDR_MAX_SIZE (ce_K E) then (None, k1)
          else (Some (c, copied_hdr c @ replicate (IPA_HDR_MAX_SIZE (ce_K E) - length (copied_hdr c)) 0), k1))"

definition add_full_header :: "'k client_env \<Rightarrow> string \<Rightarrow> u8 list \<Rightarrow> 'k \<Rightarrow> u32 option \<times> 'k" where
  "add_full_header E name bytes k =
     (if length name > IPA_RESOURCE_NAME_MAX (ce_K E) then (None, k)
      else case AddHeader (ce_K E) \<lparr>hdr_name = take (IPA_RESOURCE_NAME_MAX (ce_K E) - 1) name, hdr_bytes = bytes\<rparr> k of
             (Some (status, h), k1) \<Rightarrow> (if status = 0 then Some h else None, k1)
           | (None, k1) \<Rightarrow> (None, k1))"

definition set_header :: "ipa_ip_type \<Rightarrow> u32 \<Rightarrow> 'a ipa_client_scheme \<Rightarrow> 'a ipa_client_scheme" where
  "set_header ip h c =
     (if ip = IPA_IP_v4 then c\<lparr>hdr_hdl_v4 := h, ipv4_header_set := True\<rparr>
      else c\<lparr>hdr_hdl_v6 := h, ipv6_header_set := True\<rparr>)"

text \<open>
  The header of one family for a new entry: the first property of the family gives the partial
  header, \<open>fill\<close> completes it, and \<open>touch\<close> is what the completion writes into the entry.
\<close>

definition new_header :: "'k client_env \<Rightarrow> ipa_ip_type \<Rightarrow> string
    \<Rightarrow> (ipa_ioc_copy_hdr \<Rightarrow> u8 list \<Rightarrow> u8 list option) \<Rightarrow> ('a ipa_client_scheme \<Rightarrow> 'a ipa_client_scheme)
    \<Rightarrow> tx_intf_prop list \<Rightarrow> 'a ipa_client_scheme \<Rightarrow> 'k \<Rightarrow> (bool \<times> 'a ipa_client_scheme \<times> 'k) option" where
  "new_header E ip name fill touch txs c k =
     (case find (\<lambda>t. tx_ip t = ip) txs of None \<Rightarrow> Some (True, c, k)
      | Some t \<Rightarrow>
          (case copy_partial E t k of
             (None, k1) \<Rightarrow> Some (False, c, k1)
           | (Some (h, buf), k1) \<Rightarrow>
               (case fill h buf of None \<Rightarrow> None
                | Some bytes \<Rightarrow>
                    (case add_full_header E name (take (length (copied_hdr h)) bytes) k1 of
                       (None, k2) \<Rightarrow> Some (False, touch c, k2)
                     | (Some hdl, k2) \<Rightarrow> Some (True, set_header ip hdl (touch c), k2)))))"

text \<open>Both headers of a new entry, IPv4 first.\<close>

definition new_headers :: "'k client_env \<Rightarrow> string \<Rightarrow> string
    \<Rightarrow> (ipa_ioc_copy_hdr \<Rightarrow> u8 list \<Rightarrow> u8 list option) \<Rightarrow> ('a ipa_client_scheme \<Rightarrow> 'a ipa_client_scheme)
    \<Rightarrow> tx_intf_prop list \<Rightarrow> 'a ipa_client_scheme \<Rightarrow> 'k \<Rightarrow> (bool \<times> 'a ipa_client_scheme \<times> 'k) option" where
  "new_headers E name4 name6 fill touch txs c k =
     (case new_header E IPA_IP_v4 name4 fill touch txs c k of
        None \<Rightarrow> None
      | Some (False, c1, k1) \<Rightarrow> Some (False, c1, k1)
      | Some (True, c1, k1) \<Rightarrow> new_header E IPA_IP_v6 name6 fill touch txs c1 k1)"

definition fresh_client :: "'a ipa_client_scheme \<Rightarrow> 'a ipa_client_scheme" where
  "fresh_client c = c\<lparr>route_rule_set_v4 := False, route_rule_set_v6 := 0, ipv4_set := False, ipv6_set := 0\<rparr>"

section \<open>Routing rules\<close>

definition del_rt_hdl :: "'k client_env \<Rightarrow> ipa_ip_type \<Rightarrow> u32 \<Rightarrow> 'k \<Rightarrow> bool \<times> 'k" where
  "del_rt_hdl E ip h k = DeleteRoutingHdl (ce_K E) (ce_rt_fd E) h ip k"

fun delete_rt_v4 :: "'k client_env \<Rightarrow> tx_intf_prop list \<Rightarrow> client_rt_hdl list \<Rightarrow> 'k \<Rightarrow> (bool \<times> 'k) option" where
  "delete_rt_v4 E [] rs k = Some (True, k)"
| "delete_rt_v4 E (t # ts) [] k = None"
| "delete_rt_v4 E (t # ts) (r # rs) k =
     (if tx_ip t = IPA_IP_v4
      then case del_rt_hdl E IPA_IP_v4 (rt_rule_hdl_v4 r) k of
             (False, k1) \<Rightarrow> Some (False, k1) | (True, k1) \<Rightarrow> delete_rt_v4 E ts rs k1
      else delete_rt_v4 E ts rs k)"

fun delete_pairs :: "'k client_env \<Rightarrow> (u32 \<times> u32) list \<Rightarrow> 'k \<Rightarrow> bool \<times> 'k" where
  "delete_pairs E [] k = (True, k)"
| "delete_pairs E ((h, h') # ps) k =
     (case del_rt_hdl E IPA_IP_v6 h k of
        (False, k1) \<Rightarrow> (False, k1)
      | (True, k1) \<Rightarrow> (case del_rt_hdl E IPA_IP_v6 h' k1 of
                         (False, k2) \<Rightarrow> (False, k2) | (True, k2) \<Rightarrow> delete_pairs E ps k2))"

fun delete_rt_v6 :: "'k client_env \<Rightarrow> nat \<Rightarrow> tx_intf_prop list \<Rightarrow> client_rt_hdl list \<Rightarrow> 'k \<Rightarrow> (bool \<times> 'k) option" where
  "delete_rt_v6 E n [] rs k = Some (True, k)"
| "delete_rt_v6 E n (t # ts) [] k = None"
| "delete_rt_v6 E n (t # ts) (r # rs) k =
     (if tx_ip t = IPA_IP_v6
      then if n > length (rt_rule_hdl_v6 r) \<or> n > length (rt_rule_hdl_v6_wan r) then None
           else (case delete_pairs E (take n (zip (rt_rule_hdl_v6 r) (rt_rule_hdl_v6_wan r))) k of
                   (False, k1) \<Rightarrow> Some (False, k1) | (True, k1) \<Rightarrow> delete_rt_v6 E n ts rs k1)
      else delete_rt_v6 E n ts rs k)"

text \<open>\<open>delete_eth_rtrules\<close> and \<open>delete_default_qos_rtrules\<close>, for one client.\<close>

definition delete_rtrules :: "'k client_env \<Rightarrow> ipa_ip_type \<Rightarrow> 'a ipa_client_scheme \<Rightarrow> 'k
    \<Rightarrow> (int \<times> 'a ipa_client_scheme \<times> 'k) option" where
  "delete_rtrules E ip c k =
     (if ip = IPA_IP_MAX then Some (IPACM_SUCCESS, c, k)
      else (case tx_view (ce_iface E) of None \<Rightarrow> None
       | Some txs \<Rightarrow>
           if ip = IPA_IP_v4 then
             (case (if route_rule_set_v4 c then delete_rt_v4 E txs (cl_rt_hdl c) k else Some (True, k)) of
                None \<Rightarrow> None
              | Some (False, k1) \<Rightarrow> Some (IPACM_FAILURE, c, k1)
              | Some (True, k1) \<Rightarrow> Some (IPACM_SUCCESS, c\<lparr>route_rule_set_v4 := False\<rparr>, k1))
           else
             (case (if route_rule_set_v6 c \<noteq> 0 then delete_rt_v6 E (route_rule_set_v6 c) txs (cl_rt_hdl c) k
                    else Some (True, k)) of
                None \<Rightarrow> None
              | Some (False, k1) \<Rightarrow> Some (IPACM_FAILURE, c, k1)
              | Some (True, k1) \<Rightarrow> Some (IPACM_SUCCESS, c\<lparr>route_rule_set_v6 := 0\<rparr>, k1))))"

text \<open>
  The rules of an address: IPv4 traffic and traffic from the backhaul go to the client's pipe
  with its header, other IPv6 traffic goes to the applications processor.
\<close>

definition lan_rule_v4 :: "u32 \<Rightarrow> u32 \<Rightarrow> tx_intf_prop \<Rightarrow> ipa_rt_rule_add" where
  "lan_rule_v4 hdr addr t =
     \<lparr>rt_add_ip = IPA_IP_v4, rt_tbl_name = ''COMRTBLLANv4'', rt_at_rear = False, rt_hdr_hdl = hdr, rt_dst = dst_pipe t,
      rt_attrib = match_dst [addr] [0xFFFFFFFF] (tx_attrib t)\<rparr>"

definition lan_rule_v6 :: "'k client_env \<Rightarrow> u32 list \<Rightarrow> ipa_rt_rule_add" where
  "lan_rule_v6 E addr =
     \<lparr>rt_add_ip = IPA_IP_v6, rt_tbl_name = ''COMRTBLv6'', rt_at_rear = False, rt_hdr_hdl = 0,
      rt_dst = IPA_CLIENT_APPS_LAN_CONS E, rt_attrib = match_dst addr (replicate 4 0xFFFFFFFF) zero_attrib\<rparr>"

definition wan_rule_v6 :: "u32 \<Rightarrow> u32 list \<Rightarrow> tx_intf_prop \<Rightarrow> ipa_rt_rule_add" where
  "wan_rule_v6 hdr addr t =
     \<lparr>rt_add_ip = IPA_IP_v6, rt_tbl_name = ''WANRTBLv6'', rt_at_rear = False, rt_hdr_hdl = hdr, rt_dst = dst_pipe t,
      rt_attrib = match_dst addr (replicate 4 0xFFFFFFFF) (tx_attrib t)\<rparr>"

fun add_rt_v4 :: "'k client_env \<Rightarrow> u32 \<Rightarrow> u32 \<Rightarrow> tx_intf_prop list \<Rightarrow> client_rt_hdl list \<Rightarrow> 'k
    \<Rightarrow> (bool \<times> client_rt_hdl list \<times> 'k) option" where
  "add_rt_v4 E hdr addr [] rs k = Some (True, rs, k)"
| "add_rt_v4 E hdr addr (t # ts) [] k = None"
| "add_rt_v4 E hdr addr (t # ts) (r # rs) k =
     (if tx_ip t \<noteq> IPA_IP_v4 then map_option (\<lambda>(b, rs', k'). (b, r # rs', k')) (add_rt_v4 E hdr addr ts rs k)
      else (case AddRoutingRule (ce_K E) (ce_rt_fd E) (lan_rule_v4 hdr addr t) k of
              (None, k1) \<Rightarrow> Some (False, r # rs, k1)
            | (Some h, k1) \<Rightarrow>
                map_option (\<lambda>(b, rs', k'). (b, r\<lparr>rt_rule_hdl_v4 := h\<rparr> # rs', k')) (add_rt_v4 E hdr addr ts rs k1)))"

text \<open>The two rules of each of some addresses, for one property.\<close>

fun add_v6_nums :: "'k client_env \<Rightarrow> u32 \<Rightarrow> u32 list list \<Rightarrow> tx_intf_prop \<Rightarrow> nat list \<Rightarrow> client_rt_hdl \<Rightarrow> 'k
    \<Rightarrow> (bool \<times> client_rt_hdl \<times> 'k) option" where
  "add_v6_nums E hdr addrs t [] r k = Some (True, r, k)"
| "add_v6_nums E hdr addrs t (n # ns) r k =
     (if n \<ge> length addrs \<or> n \<ge> length (rt_rule_hdl_v6 r) \<or> n \<ge> length (rt_rule_hdl_v6_wan r) then None
      else (case AddRoutingRule (ce_K E) (ce_rt_fd E) (lan_rule_v6 E (addrs ! n)) k of
              (None, k1) \<Rightarrow> Some (False, r, k1)
            | (Some h, k1) \<Rightarrow>
                (let r1 = r\<lparr>rt_rule_hdl_v6 := (rt_rule_hdl_v6 r)[n := h]\<rparr> in
                 case AddRoutingRule (ce_K E) (ce_rt_fd E) (wan_rule_v6 hdr (addrs ! n) t) k1 of
                   (None, k2) \<Rightarrow> Some (False, r1, k2)
                 | (Some h', k2) \<Rightarrow>
                     add_v6_nums E hdr addrs t ns (r1\<lparr>rt_rule_hdl_v6_wan := (rt_rule_hdl_v6_wan r1)[n := h']\<rparr>) k2)))"

fun add_rt_v6 :: "'k client_env \<Rightarrow> u32 \<Rightarrow> u32 list list \<Rightarrow> nat list \<Rightarrow> tx_intf_prop list \<Rightarrow> client_rt_hdl list \<Rightarrow> 'k
    \<Rightarrow> (bool \<times> client_rt_hdl list \<times> 'k) option" where
  "add_rt_v6 E hdr addrs ns [] rs k = Some (True, rs, k)"
| "add_rt_v6 E hdr addrs ns (t # ts) [] k = None"
| "add_rt_v6 E hdr addrs ns (t # ts) (r # rs) k =
     (if tx_ip t \<noteq> IPA_IP_v6 then map_option (\<lambda>(b, rs', k'). (b, r # rs', k')) (add_rt_v6 E hdr addrs ns ts rs k)
      else (case add_v6_nums E hdr addrs t ns r k of
              None \<Rightarrow> None
            | Some (False, r1, k1) \<Rightarrow> Some (False, r1 # rs, k1)
            | Some (True, r1, k1) \<Rightarrow>
                map_option (\<lambda>(b, rs', k'). (b, r1 # rs', k')) (add_rt_v6 E hdr addrs ns ts rs k1)))"

definition needs_routes :: "ipa_ip_type \<Rightarrow> 'a ipa_client_scheme \<Rightarrow> bool" where
  "needs_routes ip c \<longleftrightarrow>
     (ip = IPA_IP_v4 \<and> \<not> route_rule_set_v4 c \<and> ipv4_set c) \<or> (ip = IPA_IP_v6 \<and> route_rule_set_v6 c < ipv6_set c)"

text \<open>The rules of one family for a client that lacks some; \<open>hdr4\<close> is the IPv4 header.\<close>

definition add_rtrules :: "'k client_env \<Rightarrow> ipa_ip_type \<Rightarrow> u32 \<Rightarrow> 'a ipa_client_scheme \<Rightarrow> 'k
    \<Rightarrow> (bool \<times> 'a ipa_client_scheme \<times> 'k) option" where
  "add_rtrules E ip hdr4 c k =
     (case tx_view (ce_iface E) of None \<Rightarrow> None
      | Some txs \<Rightarrow>
          if ip = IPA_IP_v4
          then map_option (\<lambda>(b, rs, k'). (b, c\<lparr>cl_rt_hdl := rs, route_rule_set_v4 := b \<or> route_rule_set_v4 c\<rparr>, k'))
                 (add_rt_v4 E hdr4 (cl_v4_addr c) txs (cl_rt_hdl c) k)
          else map_option (\<lambda>(b, rs, k'). (b, c\<lparr>cl_rt_hdl := rs,
                                              route_rule_set_v6 := (if b then ipv6_set c else route_rule_set_v6 c)\<rparr>, k'))
                 (add_rt_v6 E (hdr_hdl_v6 c) (cl_v6_addr c) [route_rule_set_v6 c..<ipv6_set c] txs (cl_rt_hdl c) k))"

section \<open>Addresses\<close>

text \<open>\<open>handle_eth_client_ipaddr\<close> and \<open>handle_wlan_client_ipaddr\<close>.\<close>

definition handle_client_ipaddr :: "'k client_env \<Rightarrow> ipacm_event_data_all \<Rightarrow> ('a ipa_client_scheme, 'k, 'm) clients_scheme
    \<Rightarrow> (int \<times> ('a ipa_client_scheme, 'k, 'm) clients_scheme) option" where
  "handle_client_ipaddr E data s =
     (case client_index (mac_addr data) s of
        None \<Rightarrow> Some (IPACM_FAILURE, s)
      | Some i \<Rightarrow>
          (let c = cl_tab s ! i in
           if iptype data = IPA_IP_v4 then
             if ipv4_addr data = 0 then Some (IPACM_FAILURE, s)
             else if \<not> ipv4_set c
             then Some (IPACM_SUCCESS, put_client i (c\<lparr>cl_v4_addr := ipv4_addr data, ipv4_set := True\<rparr>) s)
             else if ipv4_addr data = cl_v4_addr c then Some (IPACM_FAILURE, s)
             else (case delete_rtrules E IPA_IP_v4 c (cl_kernel s) of
                     None \<Rightarrow> None
                   | Some (_, c1, k1) \<Rightarrow>
                       Some (IPACM_SUCCESS,
                         put_client i (c1\<lparr>route_rule_set_v4 := False, cl_v4_addr := ipv4_addr data\<rparr>)
                           ((log_call (Ct_del (cl_v4_addr c)) s)\<lparr>cl_kernel := k1\<rparr>)))
           else if \<forall>w \<in> set (ipv6_addr data). w = 0 then Some (IPACM_SUCCESS, s)
           else if ipv6_set c < IPV6_NUM_ADDR then
             if ipv6_addr data \<in> set (take (ipv6_set c) (cl_v6_addr c)) then Some (IPACM_FAILURE, s)
             else Some (IPACM_SUCCESS,
                    put_client i (c\<lparr>cl_v6_addr := (cl_v6_addr c)[ipv6_set c := ipv6_addr data],
                                    ipv6_set := ipv6_set c + 1\<rparr>) s)
           else Some (IPACM_FAILURE, s)))"

section \<open>Removal\<close>

text \<open>
  What the removal of a client does to its entry and the driver: rules, then headers; a step that
  fails ends it.
\<close>

definition delete_header :: "'k client_env \<Rightarrow> ipa_ip_type \<Rightarrow> 'a ipa_client_scheme \<Rightarrow> 'k
    \<Rightarrow> bool \<times> 'a ipa_client_scheme \<times> 'k" where
  "delete_header E ip c k =
     (if ip = IPA_IP_v4
      then if \<not> ipv4_header_set c then (True, c, k)
           else (case DeleteHeaderHdl (ce_K E) (hdr_hdl_v4 c) k of
                   (b, k1) \<Rightarrow> (b, (if b then c\<lparr>ipv4_header_set := False\<rparr> else c), k1))
      else if \<not> ipv6_header_set c then (True, c, k)
           else (case DeleteHeaderHdl (ce_K E) (hdr_hdl_v6 c) k of
                   (b, k1) \<Rightarrow> (b, (if b then c\<lparr>ipv6_header_set := False\<rparr> else c), k1)))"

definition release_client :: "'k client_env \<Rightarrow> 'a ipa_client_scheme \<Rightarrow> 'k
    \<Rightarrow> (bool \<times> 'a ipa_client_scheme \<times> 'k) option" where
  "release_client E c k =
     (case delete_rtrules E IPA_IP_v4 c k of None \<Rightarrow> None
      | Some (r, c1, k1) \<Rightarrow>
          if r \<noteq> IPACM_SUCCESS then Some (False, c1, k1)
          else (case delete_rtrules E IPA_IP_v6 c1 k1 of None \<Rightarrow> None
           | Some (r', c2, k2) \<Rightarrow>
               if r' \<noteq> IPACM_SUCCESS then Some (False, c2, k2)
               else (case delete_header E IPA_IP_v4 c2 k2 of
                  (False, c3, k3) \<Rightarrow> Some (False, c3, k3)
                | (True, c3, k3) \<Rightarrow>
                    (case delete_header E IPA_IP_v6 c3 k3 of
                       (False, c4, k4) \<Rightarrow> Some (False, c4, k4)
                     | (True, c4, k4) \<Rightarrow>
                         Some (True, (fresh_client c4)\<lparr>ipv4_header_set := False, ipv6_header_set := False\<rparr>, k4)))))"

text \<open>The first \<open>n\<close> elements of one array copied over another.\<close>

definition copy_prefix :: "nat \<Rightarrow> 'b list \<Rightarrow> 'b list \<Rightarrow> 'b list" where
  "copy_prefix n src dst = take n src @ drop n dst"

definition copy_hdls :: "nat \<Rightarrow> client_rt_hdl \<Rightarrow> client_rt_hdl \<Rightarrow> client_rt_hdl" where
  "copy_hdls n src dst =
     dst\<lparr>rt_rule_hdl_v4 := rt_rule_hdl_v4 src,
         rt_rule_hdl_v6 := copy_prefix n (rt_rule_hdl_v6 src) (rt_rule_hdl_v6 dst),
         rt_rule_hdl_v6_wan := copy_prefix n (rt_rule_hdl_v6_wan src) (rt_rule_hdl_v6_wan dst)\<rparr>"

text \<open>The entry after the removed one copied over it, for \<open>n\<close> properties.\<close>

definition shift_client :: "nat \<Rightarrow> 'a ipa_client_scheme \<Rightarrow> 'a ipa_client_scheme \<Rightarrow> 'a ipa_client_scheme" where
  "shift_client n src dst =
     dst\<lparr>cl_mac := cl_mac src, hdr_hdl_v4 := hdr_hdl_v4 src, hdr_hdl_v6 := hdr_hdl_v6 src, cl_v4_addr := cl_v4_addr src,
         ipv4_set := ipv4_set src, ipv6_set := ipv6_set src,
         ipv4_header_set := ipv4_header_set src, ipv6_header_set := ipv6_header_set src,
         route_rule_set_v4 := route_rule_set_v4 src, route_rule_set_v6 := route_rule_set_v6 src,
         cl_v6_addr := copy_prefix (ipv6_set src) (cl_v6_addr src) (cl_v6_addr dst),
         cl_rt_hdl := map2 (copy_hdls (route_rule_set_v6 src)) (take n (cl_rt_hdl src)) (take n (cl_rt_hdl dst))
                        @ drop n (cl_rt_hdl dst)\<rparr>"

fun shift_all :: "('c \<Rightarrow> 'c \<Rightarrow> 'c) \<Rightarrow> 'c list \<Rightarrow> 'c list" where
  "shift_all mv (d # c # cs) = mv c d # shift_all mv (c # cs)"
| "shift_all mv cs = cs"

definition remove_entry :: "('c \<Rightarrow> 'c \<Rightarrow> 'c) \<Rightarrow> nat \<Rightarrow> ('c, 'k, 'm) clients_scheme \<Rightarrow> ('c, 'k, 'm) clients_scheme" where
  "remove_entry mv i s =
     s\<lparr>cl_tab := take i (cl_tab s) @ shift_all mv (drop i (live s)) @ drop (cl_num s) (cl_tab s),
       cl_num := cl_num s - 1\<rparr>"

text \<open>
  \<open>handle_eth_client_down_evt\<close> and \<open>handle_wlan_client_down_evt\<close> up to the end of the loop that moves
  the entries; the result is that the client was removed.
\<close>

definition client_down :: "'k client_env \<Rightarrow> ('a ipa_client_scheme \<Rightarrow> 'a ipa_client_scheme \<Rightarrow> 'a ipa_client_scheme)
    \<Rightarrow> nat \<Rightarrow> ('a ipa_client_scheme, 'k, 'm) clients_scheme \<Rightarrow> (bool \<times> ('a ipa_client_scheme, 'k, 'm) clients_scheme) option" where
  "client_down E mv i s =
     (let c = cl_tab s ! i;
          s1 = (if ipv4_set c then log_call (Ct_del (cl_v4_addr c)) s else s)
      in case release_client E c (cl_kernel s1) of
           None \<Rightarrow> None
         | Some (b, c', k') \<Rightarrow>
             (let s2 = put_client i c' (s1\<lparr>cl_kernel := k'\<rparr>)
              in Some (b, if b then remove_entry mv i s2 else s2)))"

section \<open>Messages\<close>

text \<open>Each event is allocated and posted; a failed allocation ends the posting.\<close>

fun post_msgs :: "'k client_env \<Rightarrow> client_call list \<Rightarrow> ('c, 'k, 'm) clients_scheme
    \<Rightarrow> bool \<times> ('c, 'k, 'm) clients_scheme" where
  "post_msgs E [] s = (True, s)"
| "post_msgs E (m # ms) s =
     (case malloc (ce_K E) (cl_kernel s) of
        (False, k1) \<Rightarrow> (False, s\<lparr>cl_kernel := k1\<rparr>)
      | (True, k1) \<Rightarrow> post_msgs E ms (log_call m (s\<lparr>cl_kernel := k1\<rparr>)))"

text \<open>\<open>handle_lan2lan_client_active\<close>: the family must be up on the interface.\<close>

definition family_up :: "ipa_ip_type \<Rightarrow> ipacm_iface \<Rightarrow> bool" where
  "family_up ip f \<longleftrightarrow> ip_type f = Some ip \<or> ip_type f = Some IPA_IP_MAX"

definition handle_lan2lan_client_active :: "'k client_env \<Rightarrow> ipacm_event_data_all \<Rightarrow> ipa_cm_event_id
    \<Rightarrow> ('c, 'k, 'm) clients_scheme \<Rightarrow> int \<times> ('c, 'k, 'm) clients_scheme" where
  "handle_lan2lan_client_active E data event s =
     (if iptype data \<noteq> IPA_IP_MAX \<and> \<not> family_up (iptype data) (ce_iface E) then (IPACM_FAILURE, s)
      else (case post_msgs E [L2l_post event (iptype data) (ipv4_addr data) (ipv6_addr data) (mac_addr data)] s of
              (b, s1) \<Rightarrow> (if b then IPACM_SUCCESS else IPACM_FAILURE, s1)))"

end
