(* ===== verification/Ipacm_EthClient.thy ===== *)
theory Ipacm_EthClient
  imports Ipacm_Clients
begin

text \<open>
  The Ethernet clients of \<^verbatim>\<open>IPACM_Lan.cpp\<close>: attaching a client when its first address is seen, its
  addresses and routing rules, its removal, the reset of a family, and the header and default
  route of an ODU interface.
\<close>

definition IPA_MAX_NUM_ETH_CLIENTS :: nat where "IPA_MAX_NUM_ETH_CLIENTS = 15"

record ('c, 'k) lan_clients = "('c, 'k) clients" +
  ODU_hdr_hdl_v4 :: u32
  ODU_hdr_hdl_v6 :: u32
  odu_ipv4_header_set :: bool
  odu_ipv6_header_set :: bool
  odu_route_rule_v4_hdl :: "u32 list"
  odu_route_rule_v6_hdl :: "u32 list"

type_synonym 'k eth_clients = "(ipa_client, 'k) lan_clients"

text \<open>The MAC address goes into the partial header, when that has a place for it.\<close>

definition eth_fill :: "u8 list \<Rightarrow> ipa_ioc_copy_hdr \<Rightarrow> u8 list \<Rightarrow> u8 list option" where
  "eth_fill mac h buf = (if is_eth2_ofst_valid h then put_bytes (eth2_ofst h) mac buf else Some buf)"

definition handle_eth_hdr_init :: "'k client_env \<Rightarrow> u8 list \<Rightarrow> 'k eth_clients \<Rightarrow> (int \<times> 'k eth_clients) option" where
  "handle_eth_hdr_init E mac s =
     (if client_index mac s \<noteq> None \<or> cl_num s \<ge> IPA_MAX_NUM_ETH_CLIENTS then Some (IPACM_FAILURE, s)
      else (let n = cl_num s; c = (cl_tab s ! n)\<lparr>cl_mac := mac\<rparr>; f = ce_iface E in
        case tx_prop f of
          None \<Rightarrow> Some (IPACM_SUCCESS, put_client n c s)
        | Some txs \<Rightarrow>
            (case malloc (ce_K E) (cl_kernel s) of
               (False, k1) \<Rightarrow> Some (IPACM_FAILURE, put_client n c (s\<lparr>cl_kernel := k1\<rparr>))
             | (True, k1) \<Rightarrow>
                 (case new_headers E (header_name f ''IPACM_ETH_v4'' (header_name_count s))
                         (header_name f ''IPACM_ETH_v6'' (header_name_count s)) (eth_fill mac) id txs c k1 of
                    None \<Rightarrow> None
                  | Some (False, c1, k2) \<Rightarrow> Some (IPACM_FAILURE, put_client n c1 (s\<lparr>cl_kernel := k2\<rparr>))
                  | Some (True, c1, k2) \<Rightarrow>
                      Some (IPACM_SUCCESS, put_client n (fresh_client c1)
                        (s\<lparr>cl_kernel := k2, cl_num := n + 1, header_name_count := header_name_count s + 1\<rparr>))))))"

text \<open>The IPv4 header of a client's rule: on an ODU interface, that of the interface.\<close>

definition v4_header :: "'k client_env \<Rightarrow> 'k eth_clients \<Rightarrow> ipa_client \<Rightarrow> u32" where
  "v4_header E s c = (if ce_cat E = ODU_IF then ODU_hdr_hdl_v4 s else hdr_hdl_v4 c)"

definition handle_eth_client_route_rule :: "'k client_env \<Rightarrow> u8 list \<Rightarrow> ipa_ip_type \<Rightarrow> 'k eth_clients
    \<Rightarrow> (int \<times> 'k eth_clients) option" where
  "handle_eth_client_route_rule E mac ip s =
     (case tx_prop (ce_iface E) of
        None \<Rightarrow> Some (IPACM_SUCCESS, s)
      | Some txs \<Rightarrow>
          (case client_index mac s of
             None \<Rightarrow> Some (IPACM_SUCCESS, s)
           | Some i \<Rightarrow>
               (let c = cl_tab s ! i in
                if \<not> needs_routes ip c then Some (IPACM_SUCCESS, s)
                else (case txs of [] \<Rightarrow> None
                  | t # _ \<Rightarrow>
                      (let s1 = log_call (Rm_add (ipa_client_rm_map_tbl E (dst_pipe t))) s in
                       case malloc (ce_K E) (cl_kernel s1) of
                         (False, k1) \<Rightarrow> Some (IPACM_FAILURE, s1\<lparr>cl_kernel := k1\<rparr>)
                       | (True, k1) \<Rightarrow>
                           (case add_rtrules E ip (v4_header E s c) c k1 of
                              None \<Rightarrow> None
                            | Some (b, c1, k2) \<Rightarrow>
                                Some (if b then IPACM_SUCCESS else IPACM_FAILURE,
                                      put_client i c1 (s1\<lparr>cl_kernel := k2\<rparr>))))))))"

definition eth_shift :: "'k client_env \<Rightarrow> ipa_client \<Rightarrow> ipa_client \<Rightarrow> ipa_client" where
  "eth_shift E = shift_client (case iface_query (ce_iface E) of None \<Rightarrow> 0 | Some (n, _) \<Rightarrow> n)"

definition handle_eth_client_down_evt :: "'k client_env \<Rightarrow> u8 list \<Rightarrow> 'k eth_clients \<Rightarrow> (int \<times> 'k eth_clients) option" where
  "handle_eth_client_down_evt E mac s =
     (case client_index mac s of
        None \<Rightarrow> Some (IPACM_SUCCESS, s)
      | Some i \<Rightarrow>
          (case client_down E (eth_shift E) i s of
             None \<Rightarrow> None
           | Some (False, s1) \<Rightarrow> Some (IPACM_FAILURE, s1)
           | Some (True, s1) \<Rightarrow>
               if cl_num s1 \<noteq> 0 then Some (IPACM_SUCCESS, s1)
               else (case tx_prop (ce_iface E) of
                       None \<Rightarrow> Some (IPACM_SUCCESS, s1)
                     | Some [] \<Rightarrow> None
                     | Some (t # _) \<Rightarrow>
                         Some (IPACM_SUCCESS, log_call (Rm_del (ipa_client_rm_map_tbl E (dst_pipe t))) s1))))"

section \<open>Reset of a family\<close>

fun delete_all_rtrules :: "'k client_env \<Rightarrow> ipa_ip_type \<Rightarrow> nat list \<Rightarrow> 'k eth_clients
    \<Rightarrow> (int \<times> 'k eth_clients) option" where
  "delete_all_rtrules E ip [] s = Some (IPACM_SUCCESS, s)"
| "delete_all_rtrules E ip (i # is) s =
     (case delete_rtrules E ip (cl_tab s ! i) (cl_kernel s) of
        None \<Rightarrow> None
      | Some (r, c, k) \<Rightarrow>
          (let s1 = put_client i c (s\<lparr>cl_kernel := k\<rparr>) in
           if r \<noteq> IPACM_SUCCESS then Some (r, s1) else delete_all_rtrules E ip is s1))"

text \<open>
  The messages of \<open>post_lan2lan_client_disconnect_msg\<close>. For IPv6 the code assigns four times to the
  first word of the address; the other words stay zero.
\<close>

definition disconnect_msgs :: "ipa_ip_type \<Rightarrow> ipa_client \<Rightarrow> client_call list" where
  "disconnect_msgs ip c =
     (if ip = IPA_IP_v4
      then if ipv4_set c
           then [L2l_post IPA_LAN_CLIENT_DISCONNECT IPA_IP_v4 (cl_v4_addr c) (replicate 4 0) (replicate 6 0)] else []
      else if ip = IPA_IP_v6
      then map (\<lambda>a. L2l_post IPA_LAN_CLIENT_DISCONNECT IPA_IP_v6 0 [a ! 0, 0, 0, 0] (replicate 6 0))
             (take (ipv6_set c) (cl_v6_addr c))
      else [])"

definition post_lan2lan_client_disconnect_msg :: "'k client_env \<Rightarrow> ipa_ip_type \<Rightarrow> 'k eth_clients \<Rightarrow> int \<times> 'k eth_clients" where
  "post_lan2lan_client_disconnect_msg E ip s =
     (case post_msgs E (concat (map (disconnect_msgs ip) (live s))) s of
        (b, s1) \<Rightarrow> (if b then IPACM_SUCCESS else IPACM_FAILURE, s1))"

definition clear_addr :: "ipa_ip_type \<Rightarrow> 'a ipa_client_scheme \<Rightarrow> 'a ipa_client_scheme" where
  "clear_addr ip c = (if ip = IPA_IP_v4 then c\<lparr>ipv4_set := False\<rparr> else c\<lparr>ipv6_set := 0\<rparr>)"

definition handle_lan_client_reset_rt :: "'k client_env \<Rightarrow> ipa_ip_type \<Rightarrow> 'k eth_clients \<Rightarrow> (int \<times> 'k eth_clients) option" where
  "handle_lan_client_reset_rt E ip s =
     (case delete_all_rtrules E ip [0..<cl_num s] s of
        None \<Rightarrow> None
      | Some (r, s1) \<Rightarrow>
          if r \<noteq> IPACM_SUCCESS then Some (r, s1)
          else (case post_lan2lan_client_disconnect_msg E ip s1 of
                  (r', s2) \<Rightarrow>
                    if r' \<noteq> IPACM_SUCCESS then Some (r', s2)
                    else Some (r', s2\<lparr>cl_tab := map (clear_addr ip) (live s2) @ drop (cl_num s2) (cl_tab s2)\<rparr>)))"

section \<open>ODU interfaces\<close>

text \<open>The header of one family, under a fixed name.\<close>

definition odu_header :: "'k client_env \<Rightarrow> ipa_ip_type \<Rightarrow> string \<Rightarrow> u8 list \<Rightarrow> tx_intf_prop list \<Rightarrow> 'k
    \<Rightarrow> (bool \<times> u32 option \<times> 'k) option" where
  "odu_header E ip name mac txs k =
     (case find (\<lambda>t. tx_ip t = ip) txs of None \<Rightarrow> Some (True, None, k)
      | Some t \<Rightarrow>
          (case copy_partial E t k of
             (None, k1) \<Rightarrow> Some (False, None, k1)
           | (Some (h, buf), k1) \<Rightarrow>
               (case eth_fill mac h buf of None \<Rightarrow> None
                | Some bytes \<Rightarrow>
                    (case AddHeader (ce_K E) \<lparr>hdr_name = name, hdr_bytes = take (length (copied_hdr h)) bytes\<rparr> k1 of
                       (Some (status, hdl), k2) \<Rightarrow>
                         if status = 0 then Some (True, Some hdl, k2) else Some (False, None, k2)
                     | (None, k2) \<Rightarrow> Some (False, None, k2)))))"

definition handle_odu_hdr_init :: "'k client_env \<Rightarrow> u8 list \<Rightarrow> 'k eth_clients \<Rightarrow> (int \<times> 'k eth_clients) option" where
  "handle_odu_hdr_init E mac s =
     (case tx_prop (ce_iface E) of
        None \<Rightarrow> Some (IPACM_SUCCESS, s)
      | Some txs \<Rightarrow>
          (case malloc (ce_K E) (cl_kernel s) of
             (False, k1) \<Rightarrow> Some (IPACM_FAILURE, s\<lparr>cl_kernel := k1\<rparr>)
           | (True, k1) \<Rightarrow>
               (case odu_header E IPA_IP_v4 ''IPACM_ODU_v4'' mac txs k1 of
                  None \<Rightarrow> None
                | Some (b, h4, k2) \<Rightarrow>
                    (let s1 = (case h4 of None \<Rightarrow> s | Some h \<Rightarrow> s\<lparr>ODU_hdr_hdl_v4 := h, odu_ipv4_header_set := True\<rparr>) in
                     if \<not> b then Some (IPACM_FAILURE, s1\<lparr>cl_kernel := k2\<rparr>)
                     else (case odu_header E IPA_IP_v6 ''IPACM_ODU_v6'' mac txs k2 of
                        None \<Rightarrow> None
                      | Some (b', h6, k3) \<Rightarrow>
                          Some (if b' then IPACM_SUCCESS else IPACM_FAILURE,
                            (case h6 of None \<Rightarrow> s1 | Some h \<Rightarrow> s1\<lparr>ODU_hdr_hdl_v6 := h, odu_ipv6_header_set := True\<rparr>)
                              \<lparr>cl_kernel := k3\<rparr>))))))"

definition odu_rule :: "'k eth_clients \<Rightarrow> tx_intf_prop \<Rightarrow> ipa_rt_rule_add" where
  "odu_rule s t =
     (if tx_ip t = IPA_IP_v4
      then \<lparr>rt_add_ip = IPA_IP_v4, rt_tbl_name = ''ODURTBLv4'', rt_at_rear = True, rt_hdr_hdl = ODU_hdr_hdl_v4 s,
            rt_dst = dst_pipe t, rt_attrib = match_dst [0] [0] (tx_attrib t)\<rparr>
      else \<lparr>rt_add_ip = IPA_IP_v6, rt_tbl_name = ''ODURTBLv6'', rt_at_rear = True, rt_hdr_hdl = ODU_hdr_hdl_v6 s,
            rt_dst = dst_pipe t, rt_attrib = match_dst (replicate 4 0) (replicate 4 0) (tx_attrib t)\<rparr>)"

text \<open>The loop over the properties, from the index of the first.\<close>

fun odu_add_loop :: "'k client_env \<Rightarrow> nat \<Rightarrow> tx_intf_prop list \<Rightarrow> 'k eth_clients \<Rightarrow> (int \<times> 'k eth_clients) option" where
  "odu_add_loop E j [] s = Some (IPACM_SUCCESS, s)"
| "odu_add_loop E j (t # ts) s =
     (case AddRoutingRule (ce_K E) (ce_rt_fd E) (odu_rule s t) (cl_kernel s) of
        (None, k1) \<Rightarrow> Some (IPACM_FAILURE, s\<lparr>cl_kernel := k1\<rparr>)
      | (Some h, k1) \<Rightarrow>
          if tx_ip t = IPA_IP_v4
          then if j < length (odu_route_rule_v4_hdl s)
               then odu_add_loop E (j + 1) ts
                      (s\<lparr>odu_route_rule_v4_hdl := (odu_route_rule_v4_hdl s)[j := h], cl_kernel := k1\<rparr>)
               else None
          else if j < length (odu_route_rule_v6_hdl s)
               then odu_add_loop E (j + 1) ts
                      (s\<lparr>odu_route_rule_v6_hdl := (odu_route_rule_v6_hdl s)[j := h], cl_kernel := k1\<rparr>)
               else None)"

definition handle_odu_route_add :: "'k client_env \<Rightarrow> 'k eth_clients \<Rightarrow> (int \<times> 'k eth_clients) option" where
  "handle_odu_route_add E s =
     (if tx_prop (ce_iface E) = None then Some (IPACM_SUCCESS, s)
      else (case malloc (ce_K E) (cl_kernel s) of
              (False, k1) \<Rightarrow> Some (IPACM_FAILURE, s\<lparr>cl_kernel := k1\<rparr>)
            | (True, k1) \<Rightarrow>
                (case tx_view (ce_iface E) of None \<Rightarrow> None
                 | Some txs \<Rightarrow> odu_add_loop E 0 txs (s\<lparr>cl_kernel := k1\<rparr>))))"

fun odu_del_loop :: "'k client_env \<Rightarrow> nat \<Rightarrow> tx_intf_prop list \<Rightarrow> 'k eth_clients \<Rightarrow> (int \<times> 'k eth_clients) option" where
  "odu_del_loop E j [] s = Some (IPACM_SUCCESS, s)"
| "odu_del_loop E j (t # ts) s =
     (let (ip, hs) = (if tx_ip t = IPA_IP_v4 then (IPA_IP_v4, odu_route_rule_v4_hdl s)
                      else (IPA_IP_v6, odu_route_rule_v6_hdl s))
      in if j \<ge> length hs then None
         else (case del_rt_hdl E ip (hs ! j) (cl_kernel s) of
                 (False, k1) \<Rightarrow> Some (IPACM_FAILURE, s\<lparr>cl_kernel := k1\<rparr>)
               | (True, k1) \<Rightarrow> odu_del_loop E (j + 1) ts (s\<lparr>cl_kernel := k1\<rparr>)))"

definition handle_odu_route_del :: "'k client_env \<Rightarrow> 'k eth_clients \<Rightarrow> (int \<times> 'k eth_clients) option" where
  "handle_odu_route_del E s =
     (if tx_prop (ce_iface E) = None then Some (IPACM_SUCCESS, s)
      else (case tx_view (ce_iface E) of None \<Rightarrow> None | Some txs \<Rightarrow> odu_del_loop E 0 txs s))"

section \<open>Events\<close>

text \<open>An event of a neighbor of this interface got an address, for the interface as a LAN.\<close>

definition eth_client_add :: "'k client_env \<Rightarrow> ipacm_event_data_all \<Rightarrow> 'k eth_clients \<Rightarrow> 'k eth_clients option" where
  "eth_client_add E data s =
     (case handle_eth_hdr_init E (mac_addr data) s of None \<Rightarrow> None
      | Some (_, s1) \<Rightarrow>
          (case handle_client_ipaddr E data (snd (handle_lan2lan_client_active E data IPA_LAN_CLIENT_ACTIVE s1)) of
             None \<Rightarrow> None
           | Some (r, s2) \<Rightarrow>
               if r = IPACM_FAILURE then Some s2
               else (case handle_eth_client_route_rule E (mac_addr data) (iptype data) s2 of None \<Rightarrow> None
                 | Some (_, s3) \<Rightarrow>
                     Some (if iptype data = IPA_IP_v4 then log_call (Ct_add data) s3 else s3))))"

definition eth_neigh_add :: "'k client_env \<Rightarrow> ipacm_event_data_all \<Rightarrow> 'k eth_clients \<Rightarrow> 'k eth_clients option" where
  "eth_neigh_add E data s =
     (if ce_cat E = ODU_IF
      then (case (if \<not> odu_ipv4_header_set s \<and> \<not> odu_ipv6_header_set s
                  then (case handle_odu_hdr_init E (mac_addr data) s of None \<Rightarrow> None
                        | Some (_, s1) \<Rightarrow> map_option snd (handle_odu_route_add E s1))
                  else Some s) of
              None \<Rightarrow> None
            | Some s2 \<Rightarrow> if ce_odu_router_mode E then eth_client_add E data s2 else Some s2)
      else eth_client_add E data s)"

definition eth_neigh_del :: "'k client_env \<Rightarrow> ipacm_event_data_all \<Rightarrow> 'k eth_clients \<Rightarrow> 'k eth_clients option" where
  "eth_neigh_del E data s =
     map_option (\<lambda>(_, s1). snd (handle_lan2lan_client_active E data IPA_LAN_CLIENT_INACTIVE s1))
       (handle_eth_client_down_evt E (mac_addr data) s)"

text \<open>The two events as \<open>event_callback\<close> gets them: the interface table says whether they are for this interface.\<close>

definition lan_neigh_event :: "os_env \<Rightarrow> 'k client_env \<Rightarrow> bool \<Rightarrow> ipacm_event_data_all \<Rightarrow> if_table \<times> 'k eth_clients
    \<Rightarrow> (if_table \<times> 'k eth_clients) option" where
  "lan_neigh_event os E add data s = (case s of (tbl, s1) \<Rightarrow>
     case iface_ipa_index_query os (if_index data) tbl of (i, tbl1) \<Rightarrow>
       if i \<noteq> ipa_if_num (ce_iface E) then Some (tbl1, s1)
       else map_option (Pair tbl1) (if add then eth_neigh_add E data s1 else eth_neigh_del E data s1))"

datatype eth_op = Neigh_add ipacm_event_data_all | Neigh_del ipacm_event_data_all | Reset_rt ipa_ip_type

fun eth_step :: "'k client_env \<Rightarrow> eth_op \<Rightarrow> 'k eth_clients \<Rightarrow> 'k eth_clients option" where
  "eth_step E (Neigh_add data) s = eth_neigh_add E data s"
| "eth_step E (Neigh_del data) s = eth_neigh_del E data s"
| "eth_step E (Reset_rt ip) s = map_option snd (handle_lan_client_reset_rt E ip s)"

text \<open>The members after the constructor, for \<open>n\<close> properties.\<close>

definition empty_entry :: "nat \<Rightarrow> ipa_client" where
  "empty_entry n =
     \<lparr>cl_mac = replicate 6 0, cl_v4_addr = 0, cl_v6_addr = replicate IPV6_NUM_ADDR (replicate 4 0), hdr_hdl_v4 = 0,
      hdr_hdl_v6 = 0, route_rule_set_v4 = False, route_rule_set_v6 = 0, ipv4_set = False, ipv6_set = 0,
      ipv4_header_set = False, ipv6_header_set = False,
      cl_rt_hdl = replicate n \<lparr>rt_rule_hdl_v4 = 0, rt_rule_hdl_v6 = replicate IPV6_NUM_ADDR 0,
                               rt_rule_hdl_v6_wan = replicate IPV6_NUM_ADDR 0\<rparr>\<rparr>"

definition eth_clients_init :: "nat \<Rightarrow> 'k \<Rightarrow> 'k eth_clients" where
  "eth_clients_init n k =
     \<lparr>cl_tab = replicate IPA_MAX_NUM_ETH_CLIENTS (empty_entry n), cl_num = 0, header_name_count = 0, cl_calls = [],
      cl_kernel = k, ODU_hdr_hdl_v4 = 0, ODU_hdr_hdl_v6 = 0, odu_ipv4_header_set = False, odu_ipv6_header_set = False,
      odu_route_rule_v4_hdl = replicate n 0, odu_route_rule_v6_hdl = replicate n 0\<rparr>"

end
