(* ===== verification/Ipacm_WlanClient.thy ===== *)
theory Ipacm_WlanClient
  imports Ipacm_EthClient
begin

text \<open>
  The clients of an access point in \<^verbatim>\<open>IPACM_Wlan.cpp\<close>: attaching a client with the attributes of its
  header, its addresses and routing rules, power save and its end, messages to the LAN to LAN module,
  the reset of a family, and the removal of a client. \<^verbatim>\<open>handle_wlan_client_ipaddr\<close> and
  \<^verbatim>\<open>delete_default_qos_rtrules\<close> are the functions of \<^verbatim>\<open>IPACM_Lan\<close> over another entry type, so \<open>handle_client_ipaddr\<close>
  and \<open>delete_rtrules\<close> stand for both.
\<close>

definition WIFI_CLIENTS :: nat where "WIFI_CLIENTS = 32"

text \<open>An attribute of a header: bytes and their place.\<close>

datatype header_attrib = Attrib_mac nat "u8 list" | Attrib_sta nat "u8 list" | Attrib_other

text \<open>\<open>p_hdr_info\<close> is the copy of the event's attributes; \<open>None\<close> is a null pointer.\<close>

record ipa_wlan_client = ipa_client +
  p_hdr_info :: "header_attrib list option"
  power_save_set :: bool

record ('c, 'k) wifi_clients = "('c, 'k) clients" +
  total_num_wifi_clients :: int

type_synonym 'k wlan_clients = "(ipa_wlan_client, 'k) wifi_clients"

section \<open>A new client\<close>

fun wlan_fill :: "header_attrib list \<Rightarrow> u8 list \<Rightarrow> u8 list option" where
  "wlan_fill [] buf = Some buf"
| "wlan_fill (a # as) buf =
     (case (case a of Attrib_mac off m \<Rightarrow> put_bytes off m buf | Attrib_sta off m \<Rightarrow> put_bytes off m buf
            | Attrib_other \<Rightarrow> Some buf) of
        None \<Rightarrow> None | Some buf' \<Rightarrow> wlan_fill as buf')"

fun attrib_mac :: "header_attrib list \<Rightarrow> u8 list \<Rightarrow> u8 list" where
  "attrib_mac [] m = m"
| "attrib_mac (Attrib_mac off m' # as) m = attrib_mac as m'"
| "attrib_mac (_ # as) m = attrib_mac as m"

definition set_mac :: "header_attrib list \<Rightarrow> 'a ipa_client_scheme \<Rightarrow> 'a ipa_client_scheme" where
  "set_mac as c = c\<lparr>cl_mac := attrib_mac as (cl_mac c)\<rparr>"

text \<open>Nothing looks for a client with the same address. The copy is written to without a test of \<open>malloc\<close>.\<close>

definition handle_wlan_client_init_ex :: "'k client_env \<Rightarrow> header_attrib list \<Rightarrow> 'k wlan_clients
    \<Rightarrow> (int \<times> 'k wlan_clients) option" where
  "handle_wlan_client_init_ex E as s =
     (if cl_num s \<ge> WIFI_CLIENTS \<or> total_num_wifi_clients s \<ge> int WIFI_CLIENTS then Some (IPACM_FAILURE, s)
      else (let n = cl_num s; f = ce_iface E in
        case tx_prop f of
          None \<Rightarrow> Some (IPACM_SUCCESS, s)
        | Some txs \<Rightarrow>
            (case malloc (ce_K E) (cl_kernel s) of
               (False, k1) \<Rightarrow> Some (IPACM_FAILURE, s\<lparr>cl_kernel := k1\<rparr>)
             | (True, k1) \<Rightarrow>
                 (case malloc (ce_K E) k1 of
                    (False, k2) \<Rightarrow> None
                  | (True, k2) \<Rightarrow>
                      (case new_headers E (header_name f ''IEEE802_3_v4'' (header_name_count s))
                              (header_name f ''IEEE802_3_v6'' (header_name_count s)) (\<lambda>h. wlan_fill as) (set_mac as) txs
                              ((cl_tab s ! n)\<lparr>p_hdr_info := Some as\<rparr>) k2 of
                         None \<Rightarrow> None
                       | Some (False, c1, k3) \<Rightarrow> Some (IPACM_FAILURE, put_client n c1 (s\<lparr>cl_kernel := k3\<rparr>))
                       | Some (True, c1, k3) \<Rightarrow>
                           Some (IPACM_SUCCESS, put_client n ((fresh_client c1)\<lparr>power_save_set := False\<rparr>)
                             (s\<lparr>cl_kernel := k3, cl_num := n + 1, header_name_count := header_name_count s + 1,
                                total_num_wifi_clients := total_num_wifi_clients s + 1\<rparr>)))))))"

section \<open>Routing rules and power save\<close>

definition handle_wlan_client_route_rule :: "'k client_env \<Rightarrow> u8 list \<Rightarrow> ipa_ip_type \<Rightarrow> 'k wlan_clients
    \<Rightarrow> (int \<times> 'k wlan_clients) option" where
  "handle_wlan_client_route_rule E mac ip s =
     (case tx_prop (ce_iface E) of
        None \<Rightarrow> Some (IPACM_SUCCESS, s)
      | Some txs \<Rightarrow>
          (case client_index mac s of
             None \<Rightarrow> Some (IPACM_SUCCESS, s)
           | Some i \<Rightarrow>
               (let c = cl_tab s ! i in
                if power_save_set c \<or> \<not> needs_routes ip c then Some (IPACM_SUCCESS, s)
                else (case malloc (ce_K E) (cl_kernel s) of
                        (False, k1) \<Rightarrow> Some (IPACM_FAILURE, s\<lparr>cl_kernel := k1\<rparr>)
                      | (True, k1) \<Rightarrow>
                          (case add_rtrules E ip (hdr_hdl_v4 c) c k1 of
                             None \<Rightarrow> None
                           | Some (b, c1, k2) \<Rightarrow>
                               Some (if b then IPACM_SUCCESS else IPACM_FAILURE, put_client i c1 (s\<lparr>cl_kernel := k2\<rparr>)))))))"

text \<open>The results of the two deletions are not looked at.\<close>

definition handle_wlan_client_pwrsave :: "'k client_env \<Rightarrow> u8 list \<Rightarrow> 'k wlan_clients \<Rightarrow> (int \<times> 'k wlan_clients) option" where
  "handle_wlan_client_pwrsave E mac s =
     (case client_index mac s of
        None \<Rightarrow> Some (IPACM_SUCCESS, s)
      | Some i \<Rightarrow>
          (let c = cl_tab s ! i;
               s1 = (if ipv4_set c then log_call (Nat_pwr_save (cl_v4_addr c)) s else s) in
           if power_save_set c then Some (IPACM_SUCCESS, s)
           else (case delete_rtrules E IPA_IP_v4 c (cl_kernel s) of
                   None \<Rightarrow> None
                 | Some (_, c1, k1) \<Rightarrow>
                     (case delete_rtrules E IPA_IP_v6 c1 k1 of
                        None \<Rightarrow> None
                      | Some (_, c2, k2) \<Rightarrow>
                          Some (IPACM_SUCCESS, put_client i (c2\<lparr>power_save_set := True\<rparr>) (s1\<lparr>cl_kernel := k2\<rparr>))))))"

section \<open>Messages\<close>

definition client_msgs :: "ipa_cm_event_id \<Rightarrow> ipa_ip_type \<Rightarrow> 'a ipa_client_scheme \<Rightarrow> client_call list" where
  "client_msgs event ip c =
     (if ip = IPA_IP_v4
      then if ipv4_set c then [L2l_post event IPA_IP_v4 (cl_v4_addr c) (replicate 4 0) (replicate 6 0)] else []
      else if ip = IPA_IP_v6
      then map (\<lambda>a. L2l_post event IPA_IP_v6 0 a (replicate 6 0)) (take (ipv6_set c) (cl_v6_addr c))
      else [])"

definition handle_lan2lan_msg_post :: "'k client_env \<Rightarrow> u8 list \<Rightarrow> ipa_cm_event_id \<Rightarrow> ipa_ip_type \<Rightarrow> 'k wlan_clients
    \<Rightarrow> int \<times> 'k wlan_clients" where
  "handle_lan2lan_msg_post E mac event ip s =
     (case client_index mac s of
        None \<Rightarrow> (IPACM_SUCCESS, s)
      | Some i \<Rightarrow>
          (let ms = client_msgs event ip (cl_tab s ! i) in
           if ms \<noteq> [] \<and> \<not> family_up ip (ce_iface E) then (IPACM_FAILURE, s)
           else (case post_msgs E ms s of (b, s1) \<Rightarrow> (if b then IPACM_SUCCESS else IPACM_FAILURE, s1))))"

definition both_msgs :: "'k client_env \<Rightarrow> u8 list \<Rightarrow> ipa_cm_event_id \<Rightarrow> 'k wlan_clients \<Rightarrow> 'k wlan_clients" where
  "both_msgs E mac event s =
     snd (handle_lan2lan_msg_post E mac event IPA_IP_v6 (snd (handle_lan2lan_msg_post E mac event IPA_IP_v4 s)))"

section \<open>Removal and reset\<close>

text \<open>What the loop copies over an entry; \<open>power_save_set\<close> is not among it.\<close>

definition wlan_shift :: "'k client_env \<Rightarrow> ipa_wlan_client \<Rightarrow> ipa_wlan_client \<Rightarrow> ipa_wlan_client" where
  "wlan_shift E src dst =
     (shift_client (case iface_query (ce_iface E) of None \<Rightarrow> 0 | Some (n, _) \<Rightarrow> n) src dst)\<lparr>p_hdr_info := p_hdr_info src\<rparr>"

definition handle_wlan_client_down_evt :: "'k client_env \<Rightarrow> u8 list \<Rightarrow> 'k wlan_clients \<Rightarrow> (int \<times> 'k wlan_clients) option" where
  "handle_wlan_client_down_evt E mac s =
     (case client_index mac s of
        None \<Rightarrow> Some (IPACM_SUCCESS, s)
      | Some i \<Rightarrow>
          (case client_down E (wlan_shift E) i s of
             None \<Rightarrow> None
           | Some (b, s1) \<Rightarrow>
               Some (if b then (IPACM_SUCCESS, s1\<lparr>total_num_wifi_clients := total_num_wifi_clients s1 - 1\<rparr>)
                     else (IPACM_FAILURE, s1))))"

fun wlan_reset_loop :: "'k client_env \<Rightarrow> ipa_ip_type \<Rightarrow> nat list \<Rightarrow> 'k wlan_clients \<Rightarrow> (int \<times> 'k wlan_clients) option" where
  "wlan_reset_loop E ip [] s = Some (IPACM_SUCCESS, s)"
| "wlan_reset_loop E ip (i # is) s =
     (case delete_rtrules E ip (cl_tab s ! i) (cl_kernel s) of
        None \<Rightarrow> None
      | Some (r, c, k) \<Rightarrow>
          (let s1 = put_client i c (s\<lparr>cl_kernel := k\<rparr>) in
           if r \<noteq> IPACM_SUCCESS then Some (r, s1)
           else (case handle_lan2lan_msg_post E (cl_mac c) IPA_LAN_CLIENT_DISCONNECT ip s1 of
                   (r', s2) \<Rightarrow>
                     if r' \<noteq> IPACM_SUCCESS then Some (r', s2)
                     else wlan_reset_loop E ip is (put_client i (clear_addr ip (cl_tab s2 ! i)) s2))))"

definition handle_wlan_client_reset_rt :: "'k client_env \<Rightarrow> ipa_ip_type \<Rightarrow> 'k wlan_clients \<Rightarrow> (int \<times> 'k wlan_clients) option" where
  "handle_wlan_client_reset_rt E ip s = wlan_reset_loop E ip [0..<cl_num s] s"

section \<open>Events\<close>

text \<open>The end of power save: the rules first, then the connections.\<close>

definition wlan_recover :: "'k client_env \<Rightarrow> u8 list \<Rightarrow> 'k wlan_clients \<Rightarrow> 'k wlan_clients option" where
  "wlan_recover E mac s =
     (case client_index mac s of
        None \<Rightarrow> Some s
      | Some i \<Rightarrow>
          if \<not> power_save_set (cl_tab s ! i) then Some s
          else (let s1 = put_client i ((cl_tab s ! i)\<lparr>power_save_set := False\<rparr>) s in
            case (if ipv4_set (cl_tab s1 ! i)
                  then map_option (\<lambda>(_, s2). log_call (Nat_pwr_reset (cl_v4_addr (cl_tab s2 ! i))) s2)
                         (handle_wlan_client_route_rule E mac IPA_IP_v4 s1)
                  else Some s1) of
              None \<Rightarrow> None
            | Some s2 \<Rightarrow>
                if ipv6_set (cl_tab s2 ! i) \<noteq> 0 then map_option snd (handle_wlan_client_route_rule E mac IPA_IP_v6 s2)
                else Some s2))"

definition wlan_addr_add :: "'k client_env \<Rightarrow> ipacm_event_data_all \<Rightarrow> 'k wlan_clients \<Rightarrow> 'k wlan_clients option" where
  "wlan_addr_add E data s =
     (case handle_client_ipaddr E data s of None \<Rightarrow> None
      | Some (r, s1) \<Rightarrow>
          if r = IPACM_FAILURE then Some s1
          else (case handle_wlan_client_route_rule E (mac_addr data) (iptype data)
                       (snd (handle_lan2lan_client_active E data IPA_LAN_CLIENT_ACTIVE s1)) of
                  None \<Rightarrow> None
                | Some (_, s2) \<Rightarrow> Some (if iptype data = IPA_IP_v4 then log_call (Ct_add data) s2 else s2)))"

datatype wlan_op =
    Client_add "header_attrib list"
  | Client_del "u8 list"
  | Power_save "u8 list"
  | Power_recover "u8 list"
  | Addr_add ipacm_event_data_all
  | Wlan_reset ipa_ip_type

fun wlan_step :: "'k client_env \<Rightarrow> wlan_op \<Rightarrow> 'k wlan_clients \<Rightarrow> 'k wlan_clients option" where
  "wlan_step E (Client_add as) s = map_option snd (handle_wlan_client_init_ex E as s)"
| "wlan_step E (Client_del mac) s =
     map_option snd (handle_wlan_client_down_evt E mac (both_msgs E mac IPA_LAN_CLIENT_DISCONNECT s))"
| "wlan_step E (Power_save mac) s =
     map_option snd (handle_wlan_client_pwrsave E mac (both_msgs E mac IPA_LAN_CLIENT_POWER_SAVE s))"
| "wlan_step E (Power_recover mac) s = wlan_recover E mac (both_msgs E mac IPA_LAN_CLIENT_POWER_RECOVER s)"
| "wlan_step E (Addr_add data) s = wlan_addr_add E data s"
| "wlan_step E (Wlan_reset ip) s = map_option snd (handle_wlan_client_reset_rt E ip s)"

text \<open>The members after the constructor, for \<open>n\<close> properties.\<close>

definition wlan_entry :: "nat \<Rightarrow> ipa_wlan_client" where
  "wlan_entry n =
     \<lparr>cl_mac = replicate 6 0, cl_v4_addr = 0, cl_v6_addr = replicate IPV6_NUM_ADDR (replicate 4 0), hdr_hdl_v4 = 0,
      hdr_hdl_v6 = 0, route_rule_set_v4 = False, route_rule_set_v6 = 0, ipv4_set = False, ipv6_set = 0,
      ipv4_header_set = False, ipv6_header_set = False,
      cl_rt_hdl = replicate n \<lparr>rt_rule_hdl_v4 = 0, rt_rule_hdl_v6 = replicate IPV6_NUM_ADDR 0,
                               rt_rule_hdl_v6_wan = replicate IPV6_NUM_ADDR 0\<rparr>,
      p_hdr_info = None, power_save_set = False\<rparr>"

definition wlan_clients_init :: "nat \<Rightarrow> int \<Rightarrow> 'k \<Rightarrow> 'k wlan_clients" where
  "wlan_clients_init n tot k =
     \<lparr>cl_tab = replicate WIFI_CLIENTS (wlan_entry n), cl_num = 0, header_name_count = 0, cl_calls = [], cl_kernel = k,
      total_num_wifi_clients = tot\<rparr>"

end
