(* ===== verification/Ipacm_ClientLaws.thy ===== *)
theory Ipacm_ClientLaws
  imports Ipacm_Clients
begin

text \<open>
  What the driver is assumed to do when a request succeeds, and what the operations on one client do
  to its routing rules and headers under that assumption. A reading of the kernel's state
  gives the routing rules, by family and handle, the headers, by handle, whether every request up to
  that state succeeded, and the partial headers by name.
\<close>

section \<open>The driver\<close>

type_synonym rt_entry = "(ipa_ip_type \<times> u32) \<times> ipa_rt_rule_add"

record 'k reading =
  rd_rts :: "'k \<Rightarrow> rt_entry multiset"
  rd_hdrs :: "'k \<Rightarrow> (u32 \<times> u8 list) multiset"
  rd_ok :: "'k \<Rightarrow> bool"
  rd_part :: "string \<Rightarrow> ipa_ioc_copy_hdr"

text \<open>
  The laws. Devices stay open, no handle is zero, a request that succeeds does what it says,
  and a state in which no request has failed comes from such a state by a request that succeeds.
\<close>

definition handles_law :: "'k client_env \<Rightarrow> 'k reading \<Rightarrow> bool" where
  "handles_law E R \<longleftrightarrow> (\<forall>k. rd_ok R k \<longrightarrow> (\<forall>e \<in># rd_rts R k. snd (fst e) \<noteq> 0) \<and> (\<forall>e \<in># rd_hdrs R k. fst e \<noteq> 0))"

definition malloc_law :: "'k client_env \<Rightarrow> 'k reading \<Rightarrow> bool" where
  "malloc_law E R \<longleftrightarrow> (\<forall>k b k'. malloc (ce_K E) k = (b, k') \<and> rd_ok R k' \<longrightarrow>
     b \<and> rd_ok R k \<and> rd_rts R k' = rd_rts R k \<and> rd_hdrs R k' = rd_hdrs R k)"

definition add_rt_law :: "'k client_env \<Rightarrow> 'k reading \<Rightarrow> bool" where
  "add_rt_law E R \<longleftrightarrow> (\<forall>k r ret h k'. IOC_ADD_RT_RULE (ce_K E) r k = ((ret, h), k') \<and> rd_ok R k' \<longrightarrow>
     ret = 0 \<and> rd_ok R k \<and> rd_rts R k' = add_mset ((rt_add_ip r, h), r) (rd_rts R k) \<and> rd_hdrs R k' = rd_hdrs R k)"

definition del_rt_law :: "'k client_env \<Rightarrow> 'k reading \<Rightarrow> bool" where
  "del_rt_law E R \<longleftrightarrow> (\<forall>k ip h ret st k'. IOC_DEL_RT_RULE (ce_K E) ip h k = ((ret, st), k') \<and> rd_ok R k' \<longrightarrow>
     rd_ok R k \<and> rd_hdrs R k' = rd_hdrs R k
     \<and> (\<forall>r. ((ip, h), r) \<in># rd_rts R k \<longrightarrow> rd_rts R k' = rd_rts R k - {#((ip, h), r)#}))"

definition add_hdr_law :: "'k client_env \<Rightarrow> 'k reading \<Rightarrow> bool" where
  "add_hdr_law E R \<longleftrightarrow> (\<forall>k d ret st h k'. IOC_ADD_HDR (ce_K E) d k = ((ret, st, h), k') \<and> rd_ok R k' \<longrightarrow>
     ret \<noteq> - 1 \<and> st = 0 \<and> rd_ok R k \<and> rd_rts R k' = rd_rts R k
     \<and> rd_hdrs R k' = add_mset (h, hdr_bytes d) (rd_hdrs R k))"

definition del_hdr_law :: "'k client_env \<Rightarrow> 'k reading \<Rightarrow> bool" where
  "del_hdr_law E R \<longleftrightarrow> (\<forall>k h ret st k'. IOC_DEL_HDR (ce_K E) h k = ((ret, st), k') \<and> rd_ok R k' \<longrightarrow>
     ret \<noteq> - 1 \<and> st = 0 \<and> rd_ok R k \<and> rd_rts R k' = rd_rts R k
     \<and> (\<forall>b. (h, b) \<in># rd_hdrs R k \<longrightarrow> rd_hdrs R k' = rd_hdrs R k - {#(h, b)#}))"

definition copy_law :: "'k client_env \<Rightarrow> 'k reading \<Rightarrow> bool" where
  "copy_law E R \<longleftrightarrow> (\<forall>k nm ret c k'. IOC_COPY_HDR (ce_K E) nm k = ((ret, c), k') \<and> rd_ok R k' \<longrightarrow>
     ret = 0 \<and> rd_ok R k \<and> c = rd_part R nm \<and> rd_rts R k' = rd_rts R k \<and> rd_hdrs R k' = rd_hdrs R k)"

definition reads_driver :: "'k client_env \<Rightarrow> 'k reading \<Rightarrow> bool" where
  "reads_driver E R \<longleftrightarrow>
     hdr_DeviceNodeIsOpened (ce_hdr_fd E) \<and> (\<forall>k. rt_DeviceNodeIsOpened (ce_K E) (ce_rt_fd E) k)
   \<and> handles_law E R \<and> malloc_law E R \<and> add_rt_law E R \<and> del_rt_law E R \<and> add_hdr_law E R \<and> del_hdr_law E R
   \<and> copy_law E R"

lemma reads_driverD:
  assumes "reads_driver E R"
  shows "hdr_DeviceNodeIsOpened (ce_hdr_fd E)" "rt_DeviceNodeIsOpened (ce_K E) (ce_rt_fd E) k"
    "handles_law E R" "malloc_law E R" "add_rt_law E R" "del_rt_law E R" "add_hdr_law E R" "del_hdr_law E R" "copy_law E R"
  using assms by (simp_all add: reads_driver_def)

text \<open>
  What a sequence of requests did: no request had failed before it, and of the rules \<open>A\<close> and the headers
  \<open>C\<close> it made \<open>B\<close> and \<open>D\<close>, whatever else there was.
\<close>

definition eff :: "'k reading \<Rightarrow> 'k \<Rightarrow> 'k \<Rightarrow> rt_entry multiset \<Rightarrow> rt_entry multiset
    \<Rightarrow> (u32 \<times> u8 list) multiset \<Rightarrow> (u32 \<times> u8 list) multiset \<Rightarrow> bool" where
  "eff R k k' A B C D \<longleftrightarrow> rd_ok R k
     \<and> (\<forall>F. rd_rts R k = F + A \<longrightarrow> rd_rts R k' = F + B) \<and> (\<forall>G. rd_hdrs R k = G + C \<longrightarrow> rd_hdrs R k' = G + D)"

lemma eff_refl: "rd_ok R k \<Longrightarrow> eff R k k {#} {#} {#} {#}"
  by (simp add: eff_def)

lemma eff_same: "rd_ok R k \<Longrightarrow> eff R k k A A C C"
  by (simp add: eff_def)

lemma eff_rts: "\<lbrakk>eff R k k' A B C D; rd_rts R k = F + A\<rbrakk> \<Longrightarrow> rd_rts R k' = F + B"
  by (simp add: eff_def)

lemma eff_hdrs: "\<lbrakk>eff R k k' A B C D; rd_hdrs R k = G + C\<rbrakk> \<Longrightarrow> rd_hdrs R k' = G + D"
  by (simp add: eff_def)

lemma eff_trans:
  assumes "eff R k k1 A B C D" "eff R k1 k2 A' B' C' D'"
  shows "eff R k k2 (A + A') (B + B') (C + C') (D + D')"
proof -
  have "rd_rts R k2 = F + (B + B')" if "rd_rts R k = F + (A + A')" for F
    using eff_rts [OF assms(2), of "F + B"] eff_rts [OF assms(1), of "F + A'"] that by (simp add: ac_simps)
  moreover have "rd_hdrs R k2 = G + (D + D')" if "rd_hdrs R k = G + (C + C')" for G
    using eff_hdrs [OF assms(2), of "G + D"] eff_hdrs [OF assms(1), of "G + C'"] that by (simp add: ac_simps)
  ultimately show ?thesis using assms(1) by (simp add: eff_def)
qed

lemma eff_frame:
  assumes "eff R k k' A B C D"
  shows "eff R k k' (A + X) (B + X) C D"
proof -
  have "rd_rts R k' = F + (B + X)" if "rd_rts R k = F + (A + X)" for F
    using eff_rts [OF assms, of "F + X"] that by (simp add: ac_simps)
  then show ?thesis using assms by (simp add: eff_def)
qed

lemma eff_then:
  "\<lbrakk>eff R k k1 A B C D; eff R k1 k2 B B' D D'\<rbrakk> \<Longrightarrow> eff R k k2 A B' C D'"
  by (simp add: eff_def)

lemma eff_ok: "eff R k k' A B C D \<Longrightarrow> rd_ok R k"
  by (simp add: eff_def)

lemma driver_malloc:
  assumes "reads_driver E R" "malloc (ce_K E) k = (b, k')" "rd_ok R k'"
  shows "b \<and> eff R k k' A A C C"
proof -
  have "b \<and> rd_ok R k \<and> rd_rts R k' = rd_rts R k \<and> rd_hdrs R k' = rd_hdrs R k"
    using reads_driverD(4) [OF assms(1), unfolded malloc_law_def, rule_format, of k b k'] assms(2,3) by simp
  then show ?thesis by (simp add: eff_def)
qed

lemma driver_add_rt:
  assumes "reads_driver E R" "AddRoutingRule (ce_K E) (ce_rt_fd E) r k = (res, k')" "rd_ok R k'"
  shows "\<exists>h. res = Some h \<and> eff R k k' {#} {#((rt_add_ip r, h), r)#} {#} {#}"
proof -
  obtain ret h k1 where a: "IOC_ADD_RT_RULE (ce_K E) r k = ((ret, h), k1)" by (metis prod.exhaust)
  have "rt_DeviceNodeIsOpened (ce_K E) (ce_rt_fd E) k" by (rule reads_driverD(2) [OF assms(1)])
  then have "k' = k1" "res = (if ret = 0 then Some h else None)"
    using assms(2) a by (auto simp: AddRoutingRule_def on_zero_def)
  moreover from this a assms(3) have "ret = 0 \<and> rd_ok R k \<and> rd_rts R k' = add_mset ((rt_add_ip r, h), r) (rd_rts R k)
      \<and> rd_hdrs R k' = rd_hdrs R k"
    using reads_driverD(5) [OF assms(1), unfolded add_rt_law_def, rule_format, of r k ret h k'] by simp
  ultimately show ?thesis by (simp add: eff_def)
qed

lemma driver_del_rt:
  assumes "reads_driver E R" "del_rt_hdl E ip h k = (b, k')" "rd_ok R k'"
  shows "b \<and> eff R k k' {#((ip, h), r)#} {#} {#} {#}"
proof (cases "h = 0")
  case True
  then have k: "k' = k" "b" using assms(2) by (simp_all add: del_rt_hdl_def DeleteRoutingHdl_def)
  have "rd_rts R k \<noteq> F + {#((ip, h), r)#}" for F
    using reads_driverD(3) [OF assms(1)] assms(3) True unfolding handles_law_def k by fastforce
  then show ?thesis using k assms(3) by (simp add: eff_def)
next
  case False
  obtain m k1 where m: "malloc (ce_K E) k = (m, k1)" by force
  obtain ret st k2 where d: "IOC_DEL_RT_RULE (ce_K E) ip h k1 = ((ret, st), k2)" by (metis prod.exhaust)
  have "rt_DeviceNodeIsOpened (ce_K E) (ce_rt_fd E) k1" by (rule reads_driverD(2) [OF assms(1)])
  then have e: "(b, k') = (if \<not> m then (False, k1) else (True, k2))"
    using assms(2) m d False
    by (simp add: del_rt_hdl_def DeleteRoutingHdl_def DeleteRoutingRule_def on_zero_def split: if_splits)
  have "m"
  proof (rule ccontr)
    assume "\<not> m"
    then show False using driver_malloc [OF assms(1) m] assms(3) e by simp
  qed
  then have k': "k' = k2" "b" using e by simp_all
  then have k1: "rd_ok R k1" "rd_hdrs R k' = rd_hdrs R k1"
    "((ip, h), r) \<in># rd_rts R k1 \<Longrightarrow> rd_rts R k' = rd_rts R k1 - {#((ip, h), r)#}"
    using reads_driverD(6) [OF assms(1), unfolded del_rt_law_def, rule_format, of ip h k1 ret st k'] assms(3) d by simp_all
  have "eff R k k1 {#((ip, h), r)#} {#((ip, h), r)#} {#} {#}" using driver_malloc [OF assms(1) m k1(1)] by simp
  moreover have "eff R k1 k' {#((ip, h), r)#} {#} {#} {#}" using k1 by (auto simp: eff_def)
  ultimately have "eff R k k' {#((ip, h), r)#} {#} {#} {#}" by (rule eff_then)
  then show ?thesis using k'(2) by simp
qed

lemma driver_add_hdr:
  assumes "reads_driver E R" "add_full_header E name bytes k = (res, k')" "rd_ok R k'"
    and "length name \<le> IPA_RESOURCE_NAME_MAX (ce_K E)"
  shows "\<exists>h. res = Some h \<and> eff R k k' {#} {#} {#} {#(h, bytes)#}"
proof -
  let ?d = "\<lparr>hdr_name = take (IPA_RESOURCE_NAME_MAX (ce_K E) - 1) name, hdr_bytes = bytes\<rparr>"
  obtain ret st h k1 where a: "IOC_ADD_HDR (ce_K E) ?d k = ((ret, st, h), k1)" by (metis prod.exhaust)
  have k: "k' = k1" using assms(2,4) a
    by (auto simp: add_full_header_def AddHeader_def split: if_splits)
  then have "ret \<noteq> - 1 \<and> st = 0 \<and> rd_ok R k \<and> rd_rts R k' = rd_rts R k
        \<and> rd_hdrs R k' = add_mset (h, hdr_bytes ?d) (rd_hdrs R k)"
    using reads_driverD(7) [OF assms(1), unfolded add_hdr_law_def, rule_format, of ?d k ret st h k'] assms(3) a by simp
  then show ?thesis using assms(2,4) a by (simp add: add_full_header_def AddHeader_def eff_def)
qed

lemma driver_del_hdr:
  assumes "reads_driver E R" "DeleteHeaderHdl (ce_K E) h k = (b, k')" "rd_ok R k'"
  shows "eff R k k' {#} {#} {#(h, bs)#} {#} \<and> ((h, bs) \<in># rd_hdrs R k \<longrightarrow> b)"
proof (cases "h = 0")
  case True
  then have k: "k' = k" using assms(2) by (simp add: DeleteHeaderHdl_def)
  have "(h, bs) \<notin># rd_hdrs R k"
    using reads_driverD(3) [OF assms(1)] assms(3) True unfolding handles_law_def k by fastforce
  then show ?thesis using k assms(3) by (auto simp: eff_def)
next
  case False
  obtain m k1 where m: "malloc (ce_K E) k = (m, k1)" by force
  obtain ret st k2 where d: "IOC_DEL_HDR (ce_K E) h k1 = ((ret, st), k2)" by (metis prod.exhaust)
  have e: "(b, k') = (if \<not> m then (False, k1) else (ret \<noteq> - 1 \<and> st = 0, k2))"
    using assms(2) m d False by (simp add: DeleteHeaderHdl_def DeleteHeader_def split: if_splits)
  have "m"
  proof (rule ccontr)
    assume "\<not> m"
    then show False using driver_malloc [OF assms(1) m] assms(3) e by simp
  qed
  then have k': "k' = k2" "b = (ret \<noteq> - 1 \<and> st = 0)" using e by simp_all
  then have k1: "ret \<noteq> - 1" "st = 0" "rd_ok R k1" "rd_rts R k' = rd_rts R k1"
    "(h, bs) \<in># rd_hdrs R k1 \<Longrightarrow> rd_hdrs R k' = rd_hdrs R k1 - {#(h, bs)#}"
    using reads_driverD(8) [OF assms(1), unfolded del_hdr_law_def, rule_format, of h k1 ret st k'] assms(3) d by simp_all
  have "eff R k k1 {#} {#} {#(h, bs)#} {#(h, bs)#}" using driver_malloc [OF assms(1) m k1(3)] by simp
  moreover have "eff R k1 k' {#} {#} {#(h, bs)#} {#}" using k1 by (auto simp: eff_def)
  ultimately have "eff R k k' {#} {#} {#(h, bs)#} {#}" by (rule eff_then)
  then show ?thesis using k'(2) k1(1,2) by simp
qed

text \<open>The buffer with the partial header of a property.\<close>

definition part_buf :: "'k client_env \<Rightarrow> ipa_ioc_copy_hdr \<Rightarrow> u8 list" where
  "part_buf E c = copied_hdr c @ replicate (IPA_HDR_MAX_SIZE (ce_K E) - length (copied_hdr c)) 0"

lemma driver_copy:
  assumes "reads_driver E R" "copy_partial E t k = (res, k')" "rd_ok R k'"
    and "length (copied_hdr (rd_part R (tx_hdr_name t))) \<le> IPA_HDR_MAX_SIZE (ce_K E)"
  shows "eff R k k' {#} {#} {#} {#}
    \<and> res = Some (rd_part R (tx_hdr_name t), part_buf E (rd_part R (tx_hdr_name t)))"
proof -
  obtain ret c k1 where a: "IOC_COPY_HDR (ce_K E) (tx_hdr_name t) k = ((ret, c), k1)" by (metis prod.exhaust)
  have o: "hdr_DeviceNodeIsOpened (ce_hdr_fd E)" by (rule reads_driverD(1) [OF assms(1)])
  then have k: "k' = k1" using assms(2) a
    by (auto simp: copy_partial_def CopyHeader_def on_zero_def split: if_splits)
  then have "ret = 0 \<and> rd_ok R k \<and> c = rd_part R (tx_hdr_name t) \<and> rd_rts R k' = rd_rts R k \<and> rd_hdrs R k' = rd_hdrs R k"
    using reads_driverD(9) [OF assms(1), unfolded copy_law_def, rule_format, of "tx_hdr_name t" k ret c k'] assms(3) a by simp
  then show ?thesis using assms(2,4) a o
    by (simp add: copy_partial_def CopyHeader_def on_zero_def part_buf_def eff_def)
qed

section \<open>The rules and headers of a client\<close>

fun v4_entries :: "u32 \<Rightarrow> u32 \<Rightarrow> tx_intf_prop list \<Rightarrow> client_rt_hdl list \<Rightarrow> rt_entry list" where
  "v4_entries hdr addr (t # ts) (r # rs) =
     (if tx_ip t = IPA_IP_v4 then [((IPA_IP_v4, rt_rule_hdl_v4 r), lan_rule_v4 hdr addr t)] else [])
     @ v4_entries hdr addr ts rs"
| "v4_entries hdr addr ts rs = []"

definition num_entries :: "'k client_env \<Rightarrow> u32 \<Rightarrow> u32 list list \<Rightarrow> tx_intf_prop \<Rightarrow> client_rt_hdl \<Rightarrow> nat list \<Rightarrow> rt_entry list" where
  "num_entries E hdr addrs t r ns =
     concat (map (\<lambda>j. [((IPA_IP_v6, rt_rule_hdl_v6 r ! j), lan_rule_v6 E (addrs ! j)),
                       ((IPA_IP_v6, rt_rule_hdl_v6_wan r ! j), wan_rule_v6 hdr (addrs ! j) t)]) ns)"

fun v6_entries :: "'k client_env \<Rightarrow> u32 \<Rightarrow> u32 list list \<Rightarrow> nat \<Rightarrow> tx_intf_prop list \<Rightarrow> client_rt_hdl list \<Rightarrow> rt_entry list" where
  "v6_entries E hdr addrs n (t # ts) (r # rs) =
     (if tx_ip t = IPA_IP_v6 then num_entries E hdr addrs t r [0..<n] else []) @ v6_entries E hdr addrs n ts rs"
| "v6_entries E hdr addrs n ts rs = []"

definition client_entries :: "'k client_env \<Rightarrow> tx_intf_prop list \<Rightarrow> 'a ipa_client_scheme \<Rightarrow> rt_entry list" where
  "client_entries E txs c =
     (if route_rule_set_v4 c then v4_entries (hdr_hdl_v4 c) (cl_v4_addr c) txs (cl_rt_hdl c) else [])
     @ v6_entries E (hdr_hdl_v6 c) (cl_v6_addr c) (route_rule_set_v6 c) txs (cl_rt_hdl c)"

definition client_hdrs :: "(ipa_ip_type \<Rightarrow> 'a ipa_client_scheme \<Rightarrow> u8 list) \<Rightarrow> 'a ipa_client_scheme \<Rightarrow> (u32 \<times> u8 list) list" where
  "client_hdrs hb c =
     (if ipv4_header_set c then [(hdr_hdl_v4 c, hb IPA_IP_v4 c)] else [])
     @ (if ipv6_header_set c then [(hdr_hdl_v6 c, hb IPA_IP_v6 c)] else [])"

definition wf_hdl :: "client_rt_hdl \<Rightarrow> bool" where
  "wf_hdl r \<longleftrightarrow> length (rt_rule_hdl_v6 r) = IPV6_NUM_ADDR \<and> length (rt_rule_hdl_v6_wan r) = IPV6_NUM_ADDR"

definition wf_client :: "nat \<Rightarrow> 'a ipa_client_scheme \<Rightarrow> bool" where
  "wf_client n c \<longleftrightarrow> length (cl_rt_hdl c) = n \<and> (\<forall>r \<in> set (cl_rt_hdl c). wf_hdl r)
     \<and> length (cl_v6_addr c) = IPV6_NUM_ADDR \<and> ipv6_set c \<le> IPV6_NUM_ADDR \<and> route_rule_set_v6 c \<le> ipv6_set c"

lemma num_entries_simps [simp]:
  "num_entries E hdr addrs t r [] = []"
  "num_entries E hdr addrs t r (j # ns) =
     ((IPA_IP_v6, rt_rule_hdl_v6 r ! j), lan_rule_v6 E (addrs ! j))
     # ((IPA_IP_v6, rt_rule_hdl_v6_wan r ! j), wan_rule_v6 hdr (addrs ! j) t) # num_entries E hdr addrs t r ns"
  "num_entries E hdr addrs t r (ns @ ms) = num_entries E hdr addrs t r ns @ num_entries E hdr addrs t r ms"
  by (simp_all add: num_entries_def)

lemma num_entries_cong:
  "(\<And>j. j \<in> set ns \<Longrightarrow> rt_rule_hdl_v6 r ! j = rt_rule_hdl_v6 r' ! j \<and> rt_rule_hdl_v6_wan r ! j = rt_rule_hdl_v6_wan r' ! j
      \<and> addrs ! j = addrs' ! j)
   \<Longrightarrow> num_entries E hdr addrs t r ns = num_entries E hdr addrs' t r' ns"
  by (induction ns) auto

lemma v6_entries_0 [simp]: "v6_entries E hdr addrs 0 ts rs = []"
  by (induction E hdr addrs "0::nat" ts rs rule: v6_entries.induct) auto

section \<open>Removal of the rules of a client\<close>

lemma delete_rt_v4_effect:
  "\<lbrakk>reads_driver E R; delete_rt_v4 E ts rs k = Some (b, k'); rd_ok R k'\<rbrakk>
   \<Longrightarrow> b \<and> eff R k k' (mset (v4_entries hdr addr ts rs)) {#} {#} {#}"
proof (induction E ts rs k rule: delete_rt_v4.induct)
  case (3 E t ts r rs k)
  show ?case
  proof (cases "tx_ip t = IPA_IP_v4")
    case True
    obtain b1 k1 where d: "del_rt_hdl E IPA_IP_v4 (rt_rule_hdl_v4 r) k = (b1, k1)" by force
    note del = driver_del_rt [OF "3.prems"(1) d, of "lan_rule_v4 hdr addr t"]
    show ?thesis
    proof (cases b1)
      case True': True
      with "3.prems" True d have r: "delete_rt_v4 E ts rs k1 = Some (b, k')" by simp
      with "3.IH"(1) [OF True d [symmetric]] True' "3.prems"
      have rest: "b" "eff R k1 k' (mset (v4_entries hdr addr ts rs)) {#} {#} {#}" by simp_all
      with del eff_ok show ?thesis
        using eff_trans [OF _ rest(2)] True by fastforce
    next
      case False
      with "3.prems" True d have "k1 = k'" by simp
      with del "3.prems"(3) False show ?thesis by simp
    qed
  qed (use 3 in simp)
qed (auto simp: eff_refl)

lemma delete_pairs_effect:
  "\<lbrakk>reads_driver E R; delete_pairs E (map (\<lambda>j. (rt_rule_hdl_v6 r ! j, rt_rule_hdl_v6_wan r ! j)) ns) k = (b, k'); rd_ok R k'\<rbrakk>
   \<Longrightarrow> b \<and> eff R k k' (mset (num_entries E hdr addrs t r ns)) {#} {#} {#}"
proof (induction ns arbitrary: k)
  case Nil
  then show ?case by (simp add: eff_refl)
next
  case (Cons n ns)
  obtain b1 k1 where d1: "del_rt_hdl E IPA_IP_v6 (rt_rule_hdl_v6 r ! n) k = (b1, k1)" by force
  obtain b2 k2 where d2: "del_rt_hdl E IPA_IP_v6 (rt_rule_hdl_v6_wan r ! n) k1 = (b2, k2)" by force
  note del1 = driver_del_rt [OF Cons.prems(1) d1, of "lan_rule_v6 E (addrs ! n)"]
  note del2 = driver_del_rt [OF Cons.prems(1) d2, of "wan_rule_v6 hdr (addrs ! n) t"]
  have b1 using del1 Cons.prems(2,3) d1 by (cases b1) simp_all
  have b2 using del2 Cons.prems(2,3) d1 d2 \<open>b1\<close> by (cases b2) simp_all
  have "delete_pairs E (map (\<lambda>j. (rt_rule_hdl_v6 r ! j, rt_rule_hdl_v6_wan r ! j)) ns) k2 = (b, k')"
    using Cons.prems(2) d1 d2 \<open>b1\<close> \<open>b2\<close> by simp
  note rest = Cons.IH [OF Cons.prems(1) this Cons.prems(3)]
  then have e2: "eff R k1 k2 {#((IPA_IP_v6, rt_rule_hdl_v6_wan r ! n), wan_rule_v6 hdr (addrs ! n) t)#} {#} {#} {#}"
    using del2 eff_ok [OF conjunct2 [OF rest]] by simp
  then have "eff R k k1 {#((IPA_IP_v6, rt_rule_hdl_v6 r ! n), lan_rule_v6 E (addrs ! n))#} {#} {#} {#}"
    using del1 eff_ok [OF e2] by simp
  from eff_trans [OF this eff_trans [OF e2 conjunct2 [OF rest]]] rest show ?case
    by (simp add: add_mset_commute)
qed

lemma take_zip_hdls:
  "\<lbrakk>n \<le> length xs; n \<le> length ys\<rbrakk> \<Longrightarrow> take n (zip xs ys) = map (\<lambda>j. (xs ! j, ys ! j)) [0..<n]"
  by (rule nth_equalityI) auto

lemma delete_rt_v6_effect:
  "\<lbrakk>reads_driver E R; delete_rt_v6 E n ts rs k = Some (b, k'); rd_ok R k'\<rbrakk>
   \<Longrightarrow> b \<and> eff R k k' (mset (v6_entries E hdr addrs n ts rs)) {#} {#} {#}"
proof (induction E n ts rs k rule: delete_rt_v6.induct)
  case (3 E n t ts r rs k)
  show ?case
  proof (cases "tx_ip t = IPA_IP_v6")
    case True
    with "3.prems"(2) have l: "n \<le> length (rt_rule_hdl_v6 r)" "n \<le> length (rt_rule_hdl_v6_wan r)"
      by (auto split: if_splits)
    obtain b1 k1 where d: "delete_pairs E (take n (zip (rt_rule_hdl_v6 r) (rt_rule_hdl_v6_wan r))) k = (b1, k1)" by force
    note del = delete_pairs_effect [OF "3.prems"(1) d [unfolded take_zip_hdls [OF l]], of hdr addrs t]
    show ?thesis
    proof (cases b1)
      case True': True
      with "3.prems" True d l have r: "delete_rt_v6 E n ts rs k1 = Some (b, k')" by simp
      with "3.IH"(1) [OF True _ d [symmetric]] True' "3.prems" l
      have rest: "b" "eff R k1 k' (mset (v6_entries E hdr addrs n ts rs)) {#} {#} {#}" by simp_all
      then have "eff R k k1 (mset (num_entries E hdr addrs t r [0..<n])) {#} {#} {#}"
        using del eff_ok [OF rest(2)] by simp
      from eff_trans [OF this rest(2)] rest(1) True show ?thesis by simp
    next
      case False
      with "3.prems" True d l have "k1 = k'" by simp
      with del "3.prems"(3) False show ?thesis by simp
    qed
  qed (use 3 in simp)
qed (auto simp: eff_refl)

text \<open>The entry without the rules of a family.\<close>

definition no_routes :: "ipa_ip_type \<Rightarrow> 'a ipa_client_scheme \<Rightarrow> 'a ipa_client_scheme" where
  "no_routes ip c = (if ip = IPA_IP_v4 then c\<lparr>route_rule_set_v4 := False\<rparr>
     else if ip = IPA_IP_v6 then c\<lparr>route_rule_set_v6 := 0\<rparr> else c)"

lemma delete_rtrules_simps:
  assumes "tx_view (ce_iface E) = Some txs"
  shows "delete_rtrules E IPA_IP_v4 c k =
      map_option (\<lambda>(b, k1). (if b then IPACM_SUCCESS else IPACM_FAILURE, if b then no_routes IPA_IP_v4 c else c, k1))
        (if route_rule_set_v4 c then delete_rt_v4 E txs (cl_rt_hdl c) k else Some (True, k))"
    "delete_rtrules E IPA_IP_v6 c k =
      map_option (\<lambda>(b, k1). (if b then IPACM_SUCCESS else IPACM_FAILURE, if b then no_routes IPA_IP_v6 c else c, k1))
        (if route_rule_set_v6 c \<noteq> 0 then delete_rt_v6 E (route_rule_set_v6 c) txs (cl_rt_hdl c) k else Some (True, k))"
    "delete_rtrules E IPA_IP_MAX c k = Some (IPACM_SUCCESS, c, k)"
  using assms by (simp_all add: delete_rtrules_def no_routes_def split: option.split bool.split)

lemma delete_rtrules_effect:
  assumes "reads_driver E R" and tx: "tx_view (ce_iface E) = Some txs"
    and d: "delete_rtrules E ip c k = Some (r, c', k')" and ok: "rd_ok R k'"
  shows "r = IPACM_SUCCESS \<and> c' = no_routes ip c
    \<and> eff R k k' (mset (client_entries E txs c)) (mset (client_entries E txs c')) {#} {#}"
proof (cases ip)
  case IPA_IP_v4
  show ?thesis
  proof (cases "route_rule_set_v4 c")
    case True
    with d IPA_IP_v4 obtain b where b: "delete_rt_v4 E txs (cl_rt_hdl c) k = Some (b, k')"
      "r = (if b then IPACM_SUCCESS else IPACM_FAILURE)" "c' = (if b then no_routes IPA_IP_v4 c else c)"
      by (auto simp: delete_rtrules_simps [OF tx])
    note e = delete_rt_v4_effect [OF assms(1) b(1) ok, of "hdr_hdl_v4 c" "cl_v4_addr c"]
    from eff_frame [OF conjunct2 [OF e], of "mset (v6_entries E (hdr_hdl_v6 c) (cl_v6_addr c) (route_rule_set_v6 c) txs (cl_rt_hdl c))"]
    show ?thesis using e b True IPA_IP_v4 by (simp add: client_entries_def no_routes_def)
  next
    case False
    with d IPA_IP_v4 ok show ?thesis
      by (auto simp: delete_rtrules_simps [OF tx] no_routes_def client_entries_def eff_same)
  qed
next
  case IPA_IP_v6
  show ?thesis
  proof (cases "route_rule_set_v6 c = 0")
    case False
    with d IPA_IP_v6 obtain b where b: "delete_rt_v6 E (route_rule_set_v6 c) txs (cl_rt_hdl c) k = Some (b, k')"
      "r = (if b then IPACM_SUCCESS else IPACM_FAILURE)" "c' = (if b then no_routes IPA_IP_v6 c else c)"
      by (auto simp: delete_rtrules_simps [OF tx])
    note e = delete_rt_v6_effect [OF assms(1) b(1) ok, of "hdr_hdl_v6 c" "cl_v6_addr c"]
    from eff_frame [OF conjunct2 [OF e], of "mset (if route_rule_set_v4 c
          then v4_entries (hdr_hdl_v4 c) (cl_v4_addr c) txs (cl_rt_hdl c) else [])"]
    show ?thesis using e b IPA_IP_v6 by (simp add: client_entries_def no_routes_def union_commute split: if_splits)
  next
    case True
    with d IPA_IP_v6 ok show ?thesis
      by (auto simp: delete_rtrules_simps [OF tx] no_routes_def client_entries_def eff_same)
  qed
next
  case IPA_IP_MAX
  with d ok show ?thesis by (auto simp: delete_rtrules_simps [OF tx] no_routes_def eff_same)
qed

section \<open>Addition of the rules of a client\<close>

lemma add_rt_v4_effect:
  "\<lbrakk>reads_driver E R; add_rt_v4 E hdr addr ts rs k = Some (b, rs', k'); rd_ok R k'\<rbrakk>
   \<Longrightarrow> b \<and> eff R k k' {#} (mset (v4_entries hdr addr ts rs')) {#} {#}"
proof (induction E hdr addr ts rs k arbitrary: rs' rule: add_rt_v4.induct)
  case (3 E hdr addr t ts r rs k)
  show ?case
  proof (cases "tx_ip t = IPA_IP_v4")
    case True
    obtain res k1 where a: "AddRoutingRule (ce_K E) (ce_rt_fd E) (lan_rule_v4 hdr addr t) k = (res, k1)" by force
    note add = driver_add_rt [OF "3.prems"(1) a]
    obtain h where h: "res = Some h" using add "3.prems"(2,3) True a by (cases res) auto
    with "3.prems"(2) True a obtain rs1 where
      r: "add_rt_v4 E hdr addr ts rs k1 = Some (b, rs1, k')" "rs' = r\<lparr>rt_rule_hdl_v4 := h\<rparr> # rs1" by auto
    note rest = "3.IH"(2) [OF _ a [symmetric] h "3.prems"(1) r(1) "3.prems"(3)]
    with True have "eff R k1 k' {#} (mset (v4_entries hdr addr ts rs1)) {#} {#}" by simp
    moreover from this have "eff R k k1 {#} {#((IPA_IP_v4, h), lan_rule_v4 hdr addr t)#} {#} {#}"
      using add h eff_ok by (fastforce simp: lan_rule_v4_def)
    ultimately show ?thesis using eff_trans r(2) True rest by fastforce
  next
    case False
    with "3.prems"(2) obtain rs1 where
      r: "add_rt_v4 E hdr addr ts rs k = Some (b, rs1, k')" "rs' = r # rs1" by auto
    with "3.IH"(1) [OF False "3.prems"(1) r(1) "3.prems"(3)] False show ?thesis by simp
  qed
qed (auto simp: eff_refl)

text \<open>What the addition leaves of the handles: the addresses before the new ones keep theirs.\<close>

definition keeps_hdls :: "nat \<Rightarrow> client_rt_hdl \<Rightarrow> client_rt_hdl \<Rightarrow> bool" where
  "keeps_hdls n r r' \<longleftrightarrow> (wf_hdl r \<longrightarrow> wf_hdl r') \<and> rt_rule_hdl_v4 r' = rt_rule_hdl_v4 r
     \<and> (\<forall>j < n. rt_rule_hdl_v6 r' ! j = rt_rule_hdl_v6 r ! j \<and> rt_rule_hdl_v6_wan r' ! j = rt_rule_hdl_v6_wan r ! j)"

lemma add_v6_nums_keeps:
  "\<lbrakk>add_v6_nums E hdr addrs t ns r k = Some (b, r', k'); \<forall>j \<in> set ns. a \<le> j\<rbrakk> \<Longrightarrow> keeps_hdls a r r'"
proof (induction E hdr addrs t ns r k rule: add_v6_nums.induct)
  case (2 E hdr addrs t n ns r k)
  obtain res k1 where a1: "AddRoutingRule (ce_K E) (ce_rt_fd E) (lan_rule_v6 E (addrs ! n)) k = (res, k1)" by force
  obtain res2 k2 where a2: "AddRoutingRule (ce_K E) (ce_rt_fd E) (wan_rule_v6 hdr (addrs ! n) t) k1 = (res2, k2)" by force
  have bnd: "\<not> (n \<ge> length addrs \<or> n \<ge> length (rt_rule_hdl_v6 r) \<or> n \<ge> length (rt_rule_hdl_v6_wan r))"
    using "2.prems"(1) by (auto split: if_splits)
  show ?case
  proof (cases "\<exists>h h'. res = Some h \<and> res2 = Some h'")
    case True
    then obtain h h' where h: "res = Some h" "res2 = Some h'" by blast
    let ?r = "r\<lparr>rt_rule_hdl_v6 := (rt_rule_hdl_v6 r)[n := h], rt_rule_hdl_v6_wan := (rt_rule_hdl_v6_wan r)[n := h']\<rparr>"
    have "add_v6_nums E hdr addrs t ns ?r k2 = Some (b, r', k')"
      using "2.prems"(1) bnd a1 a2 h by (simp add: Let_def)
    then have "keeps_hdls a ?r r'"
      using "2.IH" [OF bnd a1 [symmetric] h(1) refl, of res2 k2 h'] a2 h "2.prems"(2) by simp
    then show ?thesis using "2.prems"(2) by (auto simp: keeps_hdls_def wf_hdl_def)
  next
    case False
    then show ?thesis using "2.prems" bnd a1 a2
      by (cases res; cases res2) (auto simp: Let_def keeps_hdls_def wf_hdl_def)
  qed
qed (simp add: keeps_hdls_def)

lemma add_v6_nums_effect:
  "\<lbrakk>reads_driver E R; add_v6_nums E hdr addrs t ns r k = Some (b, r', k'); rd_ok R k'; sorted_wrt (<) ns\<rbrakk>
   \<Longrightarrow> b \<and> eff R k k' {#} (mset (num_entries E hdr addrs t r' ns)) {#} {#}"
proof (induction E hdr addrs t ns r k rule: add_v6_nums.induct)
  case (2 E hdr addrs t n ns r k)
  obtain res k1 where a1: "AddRoutingRule (ce_K E) (ce_rt_fd E) (lan_rule_v6 E (addrs ! n)) k = (res, k1)" by force
  obtain res2 k2 where a2: "AddRoutingRule (ce_K E) (ce_rt_fd E) (wan_rule_v6 hdr (addrs ! n) t) k1 = (res2, k2)" by force
  have bnd: "\<not> (n \<ge> length addrs \<or> n \<ge> length (rt_rule_hdl_v6 r) \<or> n \<ge> length (rt_rule_hdl_v6_wan r))"
    using "2.prems"(2) by (auto split: if_splits)
  obtain h where h: "res = Some h"
    using driver_add_rt [OF "2.prems"(1) a1] "2.prems"(2,3) bnd a1 by (cases res) auto
  obtain h' where h': "res2 = Some h'"
    using driver_add_rt [OF "2.prems"(1) a2] "2.prems"(2,3) bnd a1 a2 h by (cases res2) (auto simp: Let_def)
  let ?r = "r\<lparr>rt_rule_hdl_v6 := (rt_rule_hdl_v6 r)[n := h], rt_rule_hdl_v6_wan := (rt_rule_hdl_v6_wan r)[n := h']\<rparr>"
  have r: "add_v6_nums E hdr addrs t ns ?r k2 = Some (b, r', k')"
    using "2.prems"(2) bnd a1 a2 h h' by (simp add: Let_def)
  have srt: "sorted_wrt (<) ns" "\<forall>j \<in> set ns. Suc n \<le> j" using "2.prems"(4) by auto
  have rest: "b" "eff R k2 k' {#} (mset (num_entries E hdr addrs t r' ns)) {#} {#}"
    using "2.IH" [OF bnd a1 [symmetric] h refl, of res2 k2 h'] a2 h' r "2.prems"(1,3) srt by simp_all
  have e2: "eff R k1 k2 {#} {#((IPA_IP_v6, h'), wan_rule_v6 hdr (addrs ! n) t)#} {#} {#}"
    using driver_add_rt [OF "2.prems"(1) a2 eff_ok [OF rest(2)]] h' by (simp add: wan_rule_v6_def)
  have e1: "eff R k k1 {#} {#((IPA_IP_v6, h), lan_rule_v6 E (addrs ! n))#} {#} {#}"
    using driver_add_rt [OF "2.prems"(1) a1 eff_ok [OF e2]] h by (simp add: lan_rule_v6_def)
  have "rt_rule_hdl_v6 r' ! n = h" "rt_rule_hdl_v6_wan r' ! n = h'"
    using add_v6_nums_keeps [OF r srt(2)] bnd by (simp_all add: keeps_hdls_def)
  with eff_trans [OF e1 eff_trans [OF e2 rest(2)]] rest(1) show ?case by (simp add: add_mset_commute)
qed (simp add: eff_refl)

lemma keeps_num_entries:
  "keeps_hdls a r r' \<Longrightarrow> num_entries E hdr addrs t r' [0..<a] = num_entries E hdr addrs t r [0..<a]"
  by (rule num_entries_cong) (simp add: keeps_hdls_def)

lemma keeps_hdls_refl [simp]: "keeps_hdls a r r"
  by (simp add: keeps_hdls_def)

lemma add_rt_v6_keeps:
  "\<lbrakk>add_rt_v6 E hdr addrs ns ts rs k = Some (b, rs', k'); \<forall>j \<in> set ns. a \<le> j\<rbrakk> \<Longrightarrow> list_all2 (keeps_hdls a) rs rs'"
proof (induction E hdr addrs ns ts rs k arbitrary: rs' rule: add_rt_v6.induct)
  case (3 E hdr addrs ns t ts r rs k)
  then show ?case
    by (auto simp: list_all2_refl split: if_splits option.splits bool.splits intro: add_v6_nums_keeps)
qed (auto simp: list_all2_refl)

lemma add_rt_v6_effect:
  "\<lbrakk>reads_driver E R; add_rt_v6 E hdr addrs [a..<m] ts rs k = Some (b, rs', k'); rd_ok R k'; a \<le> m\<rbrakk>
   \<Longrightarrow> b \<and> eff R k k' (mset (v6_entries E hdr addrs a ts rs)) (mset (v6_entries E hdr addrs m ts rs')) {#} {#}"
proof (induction E hdr addrs "[a..<m]" ts rs k arbitrary: rs' rule: add_rt_v6.induct)
  case (3 E hdr addrs t ts r rs k)
  show ?case
  proof (cases "tx_ip t = IPA_IP_v6")
    case True
    obtain b1 r1 k1 where a1: "add_v6_nums E hdr addrs t [a..<m] r k = Some (b1, r1, k1)"
      using "3.prems"(2) True by (auto split: option.splits bool.splits)
    have add: "rd_ok R k1 \<Longrightarrow> b1 \<and> eff R k k1 {#} (mset (num_entries E hdr addrs t r1 [a..<m])) {#} {#}"
      using add_v6_nums_effect [OF "3.prems"(1) a1] by simp
    then have b1 using "3.prems"(2,3) True a1 by (cases b1) auto
    with "3.prems"(2) True a1 obtain rs1 where
      r: "add_rt_v6 E hdr addrs [a..<m] ts rs k1 = Some (b, rs1, k')" "rs' = r1 # rs1" by auto
    have rest: "b" "eff R k1 k' (mset (v6_entries E hdr addrs a ts rs)) (mset (v6_entries E hdr addrs m ts rs1)) {#} {#}"
      using "3.hyps"(2) [OF _ a1, of b1 "(r1, k1)" r1 k1 rs1] r(1) \<open>b1\<close> "3.prems"(1,3,4) True by simp_all
    let ?old = "mset (num_entries E hdr addrs t r [0..<a])"
    have "[0..<m] = [0..<a] @ [a..<m]" using upt_add_eq_append [of 0 a "m - a"] "3.prems"(4) by simp
    then have split: "mset (num_entries E hdr addrs t r1 [0..<m]) = mset (num_entries E hdr addrs t r1 [a..<m]) + ?old"
      using keeps_num_entries [OF add_v6_nums_keeps [OF a1, of a], of E hdr addrs t] by simp
    have "eff R k k1 {#} (mset (num_entries E hdr addrs t r1 [a..<m])) {#} {#}"
      using add eff_ok [OF rest(2)] by simp
    from eff_frame [OF this, of ?old]
    have "eff R k k1 ?old (mset (num_entries E hdr addrs t r1 [0..<m])) {#} {#}" by (simp add: split)
    from eff_trans [OF this rest(2)] r(2) rest(1) True show ?thesis by simp
  next
    case False
    with "3.prems"(2) obtain rs1 where
      r: "add_rt_v6 E hdr addrs [a..<m] ts rs k = Some (b, rs1, k')" "rs' = r # rs1" by auto
    with "3.hyps"(1) [OF False "3.prems"(1) r(1) "3.prems"(3,4)] False show ?thesis by simp
  qed
qed (auto simp: eff_refl)

text \<open>Rules of one family leave the handles of the other.\<close>

definition keeps_v6_hdls :: "client_rt_hdl \<Rightarrow> client_rt_hdl \<Rightarrow> bool" where
  "keeps_v6_hdls r r' \<longleftrightarrow> rt_rule_hdl_v6 r' = rt_rule_hdl_v6 r \<and> rt_rule_hdl_v6_wan r' = rt_rule_hdl_v6_wan r"

lemma add_rt_v4_keeps:
  "add_rt_v4 E hdr addr ts rs k = Some (b, rs', k') \<Longrightarrow> list_all2 keeps_v6_hdls rs rs'"
proof (induction E hdr addr ts rs k arbitrary: rs' rule: add_rt_v4.induct)
  case (3 E hdr addr t ts r rs k)
  then show ?case
    by (auto simp: list_all2_refl keeps_v6_hdls_def split: if_splits option.splits prod.splits)
qed (auto simp: list_all2_refl keeps_v6_hdls_def)

lemma v6_entries_keeps:
  "list_all2 keeps_v6_hdls rs rs' \<Longrightarrow> v6_entries E hdr addrs n ts rs' = v6_entries E hdr addrs n ts rs"
proof (induction rs rs' arbitrary: ts rule: list_all2_induct)
  case (Cons r rs r' rs')
  then have "num_entries E hdr addrs t r' ns = num_entries E hdr addrs t r ns" for t ns
    by (simp add: num_entries_def keeps_v6_hdls_def)
  with Cons show ?case by (cases ts) simp_all
qed simp

lemma v4_entries_keeps:
  "list_all2 (keeps_hdls n) rs rs' \<Longrightarrow> v4_entries hdr addr ts rs' = v4_entries hdr addr ts rs"
proof (induction rs rs' arbitrary: ts rule: list_all2_induct)
  case (Cons r rs r' rs')
  then show ?case by (cases ts) (simp_all add: keeps_hdls_def)
qed simp

lemma keeps_wf:
  "list_all2 (keeps_hdls n) rs rs' \<Longrightarrow> \<forall>r \<in> set rs. wf_hdl r \<Longrightarrow> \<forall>r \<in> set rs'. wf_hdl r"
  by (induction rs rs' rule: list_all2_induct) (auto simp: keeps_hdls_def)

lemma keeps_v6_one: "keeps_v6_hdls r r' \<Longrightarrow> wf_hdl r' = wf_hdl r"
  by (simp add: keeps_v6_hdls_def wf_hdl_def)

lemma keeps_v6_wf:
  "list_all2 keeps_v6_hdls rs rs' \<Longrightarrow> \<forall>r \<in> set rs. wf_hdl r \<Longrightarrow> \<forall>r \<in> set rs'. wf_hdl r"
  by (induction rs rs' rule: list_all2_induct) (simp_all add: keeps_v6_one)

lemma add_rtrules_cases:
  assumes "tx_view (ce_iface E) = Some txs" "add_rtrules E ip hdr4 c k = Some (b, c', k')"
  obtains (v4) rs' where "ip = IPA_IP_v4"
      "add_rt_v4 E hdr4 (cl_v4_addr c) txs (cl_rt_hdl c) k = Some (b, rs', k')"
      "c' = c\<lparr>cl_rt_hdl := rs', route_rule_set_v4 := b \<or> route_rule_set_v4 c\<rparr>"
  | (v6) rs' where "ip \<noteq> IPA_IP_v4"
      "add_rt_v6 E (hdr_hdl_v6 c) (cl_v6_addr c) [route_rule_set_v6 c..<ipv6_set c] txs (cl_rt_hdl c) k = Some (b, rs', k')"
      "c' = c\<lparr>cl_rt_hdl := rs', route_rule_set_v6 := (if b then ipv6_set c else route_rule_set_v6 c)\<rparr>"
proof (cases "ip = IPA_IP_v4")
  case True
  then obtain rs' where "add_rt_v4 E hdr4 (cl_v4_addr c) txs (cl_rt_hdl c) k = Some (b, rs', k')"
      "c' = c\<lparr>cl_rt_hdl := rs', route_rule_set_v4 := b \<or> route_rule_set_v4 c\<rparr>"
    using assms(2) by (auto simp: add_rtrules_def assms(1))
  with True show ?thesis by (rule v4)
next
  case False
  then obtain rs' where
      "add_rt_v6 E (hdr_hdl_v6 c) (cl_v6_addr c) [route_rule_set_v6 c..<ipv6_set c] txs (cl_rt_hdl c) k = Some (b, rs', k')"
      "c' = c\<lparr>cl_rt_hdl := rs', route_rule_set_v6 := (if b then ipv6_set c else route_rule_set_v6 c)\<rparr>"
    using assms(2) by (auto simp: add_rtrules_def assms(1))
  with False show ?thesis by (rule v6)
qed

lemma add_rtrules_effect:
  assumes R: "reads_driver E R" and tx: "tx_view (ce_iface E) = Some txs"
    and a: "add_rtrules E ip (hdr_hdl_v4 c) c k = Some (b, c', k')" and ok: "rd_ok R k'"
    and need: "needs_routes ip c"
  shows "b \<and> eff R k k' (mset (client_entries E txs c)) (mset (client_entries E txs c')) {#} {#}"
  using tx a
proof (cases rule: add_rtrules_cases)
  case (v4 rs')
  note e = add_rt_v4_effect [OF R v4(2) ok]
  from eff_frame [OF conjunct2 [OF e], of "mset (v6_entries E (hdr_hdl_v6 c) (cl_v6_addr c) (route_rule_set_v6 c) txs (cl_rt_hdl c))"]
  show ?thesis using e v4(1,3) need
    by (simp add: client_entries_def needs_routes_def v6_entries_keeps [OF add_rt_v4_keeps [OF v4(2)]])
next
  case (v6 rs')
  have le: "route_rule_set_v6 c \<le> ipv6_set c" using need v6(1) by (simp add: needs_routes_def)
  note e = add_rt_v6_effect [OF R v6(2) ok le]
  have "\<forall>j \<in> set [route_rule_set_v6 c..<ipv6_set c]. route_rule_set_v6 c \<le> j" by simp
  note v4 = v4_entries_keeps [OF add_rt_v6_keeps [OF v6(2) this]]
  from eff_frame [OF conjunct2 [OF e], of "mset (if route_rule_set_v4 c
        then v4_entries (hdr_hdl_v4 c) (cl_v4_addr c) txs (cl_rt_hdl c) else [])"]
  show ?thesis using e v6(3) by (simp add: client_entries_def v4 union_commute split: if_splits)
qed

section \<open>What every call leaves well formed\<close>

lemma delete_rt_v4_defined:
  "length ts \<le> length rs \<Longrightarrow> \<exists>b k'. delete_rt_v4 E ts rs k = Some (b, k')"
  by (induction E ts rs k rule: delete_rt_v4.induct) (auto split: prod.splits bool.splits)

lemma delete_rt_v6_defined:
  "\<lbrakk>length ts \<le> length rs; \<forall>r \<in> set rs. wf_hdl r; n \<le> IPV6_NUM_ADDR\<rbrakk>
   \<Longrightarrow> \<exists>b k'. delete_rt_v6 E n ts rs k = Some (b, k')"
  by (induction E n ts rs k rule: delete_rt_v6.induct) (auto simp: wf_hdl_def split: prod.splits bool.splits)

lemma delete_rtrules_defined:
  assumes "wf_client (length txs) c" "tx_view (ce_iface E) = Some txs"
  shows "\<exists>b k'. delete_rtrules E ip c k =
    Some (if b then IPACM_SUCCESS else IPACM_FAILURE, if b then no_routes ip c else c, k')"
proof (cases ip)
  case IPA_IP_v4
  obtain b k' where "(if route_rule_set_v4 c then delete_rt_v4 E txs (cl_rt_hdl c) k else Some (True, k)) = Some (b, k')"
    using assms(1) delete_rt_v4_defined [of txs "cl_rt_hdl c" E k] by (cases "route_rule_set_v4 c") (auto simp: wf_client_def)
  then show ?thesis using IPA_IP_v4 by (intro exI [of _ b] exI [of _ k']) (simp add: delete_rtrules_simps [OF assms(2)])
next
  case IPA_IP_v6
  obtain b k' where "(if route_rule_set_v6 c \<noteq> 0 then delete_rt_v6 E (route_rule_set_v6 c) txs (cl_rt_hdl c) k
      else Some (True, k)) = Some (b, k')"
    using assms(1) delete_rt_v6_defined [of txs "cl_rt_hdl c" "route_rule_set_v6 c" E k]
    by (cases "route_rule_set_v6 c = 0") (auto simp: wf_client_def)
  then show ?thesis using IPA_IP_v6 by (intro exI [of _ b] exI [of _ k']) (simp add: delete_rtrules_simps [OF assms(2)])
next
  case IPA_IP_MAX
  then show ?thesis
    by (intro exI [of _ True] exI [of _ k]) (simp add: delete_rtrules_simps [OF assms(2)] no_routes_def)
qed

lemma add_rt_v4_defined:
  "length ts \<le> length rs \<Longrightarrow> \<exists>b rs' k'. add_rt_v4 E hdr addr ts rs k = Some (b, rs', k')"
  by (induction E hdr addr ts rs k rule: add_rt_v4.induct) (auto split: prod.splits option.splits)

lemma add_v6_nums_defined:
  "\<lbrakk>wf_hdl r; length addrs = IPV6_NUM_ADDR; \<forall>j \<in> set ns. j < IPV6_NUM_ADDR\<rbrakk>
   \<Longrightarrow> \<exists>b r' k'. add_v6_nums E hdr addrs t ns r k = Some (b, r', k')"
  by (induction E hdr addrs t ns r k rule: add_v6_nums.induct)
    (auto simp: wf_hdl_def Let_def split: prod.splits option.splits)

lemma add_rt_v6_defined:
  "\<lbrakk>length ts \<le> length rs; \<forall>r \<in> set rs. wf_hdl r; length addrs = IPV6_NUM_ADDR; \<forall>j \<in> set ns. j < IPV6_NUM_ADDR\<rbrakk>
   \<Longrightarrow> \<exists>b rs' k'. add_rt_v6 E hdr addrs ns ts rs k = Some (b, rs', k')"
proof (induction E hdr addrs ns ts rs k rule: add_rt_v6.induct)
  case (3 E hdr addrs ns t ts r rs k)
  obtain b1 r1 k1 where "add_v6_nums E hdr addrs t ns r k = Some (b1, r1, k1)"
    using add_v6_nums_defined [of r addrs ns E hdr t k] "3.prems" by auto
  with 3 show ?case by (cases b1) (fastforce)+
qed auto

lemma add_rtrules_defined:
  assumes wf: "wf_client (length txs) c" and tx: "tx_view (ce_iface E) = Some txs"
  shows "\<exists>b c' k'. add_rtrules E ip hdr4 c k = Some (b, c', k')"
  using add_rt_v4_defined [of txs "cl_rt_hdl c" E hdr4 "cl_v4_addr c" k]
    add_rt_v6_defined [of txs "cl_rt_hdl c" "cl_v6_addr c" "[route_rule_set_v6 c..<ipv6_set c]" E "hdr_hdl_v6 c" k] wf
  by (auto simp: add_rtrules_def tx wf_client_def)

lemma add_rtrules_wf:
  assumes "wf_client n c" "tx_view (ce_iface E) = Some txs" "add_rtrules E ip hdr4 c k = Some (b, c', k')"
  shows "wf_client n c'"
  using assms(2,3)
proof (cases rule: add_rtrules_cases)
  case (v4 rs')
  then show ?thesis using assms(1) add_rt_v4_keeps [OF v4(2)] keeps_v6_wf
    by (auto simp: wf_client_def dest: list_all2_lengthD)
next
  case (v6 rs')
  have "\<forall>j \<in> set [route_rule_set_v6 c..<ipv6_set c]. route_rule_set_v6 c \<le> j" by simp
  note k = add_rt_v6_keeps [OF v6(2) this]
  show ?thesis using assms(1) k keeps_wf [OF k] v6(3)
    by (auto simp: wf_client_def dest: list_all2_lengthD)
qed

end
