(* ===== verification/Ipacm_ClientTable.thy ===== *)
theory Ipacm_ClientTable
  imports Ipacm_ClientLaws
begin

text \<open>
  Tables of clients: headers of a new entry, release and move of entries, and the account of a
  table, which says that the driver holds the rules and headers of the live entries and what it held
  at the start.
\<close>

section \<open>Headers of a new entry\<close>

definition has_family :: "ipa_ip_type \<Rightarrow> tx_intf_prop list \<Rightarrow> bool" where
  "has_family ip txs \<longleftrightarrow> find (\<lambda>t. tx_ip t = ip) txs \<noteq> None"

text \<open>The bytes of the header of a family.\<close>

definition full_bytes :: "'k client_env \<Rightarrow> 'k reading \<Rightarrow> (ipa_ioc_copy_hdr \<Rightarrow> u8 list \<Rightarrow> u8 list option)
    \<Rightarrow> tx_intf_prop list \<Rightarrow> ipa_ip_type \<Rightarrow> u8 list" where
  "full_bytes E R fill txs ip =
     (let p = rd_part R (tx_hdr_name (the (find (\<lambda>t. tx_ip t = ip) txs)))
      in take (length (copied_hdr p)) (the (fill p (part_buf E p))))"

text \<open>Headers fit in: no partial header of the properties is longer than the buffer.\<close>

definition hdrs_fit :: "'k client_env \<Rightarrow> 'k reading \<Rightarrow> tx_intf_prop list \<Rightarrow> bool" where
  "hdrs_fit E R txs \<longleftrightarrow>
     (\<forall>t \<in> set txs. length (copied_hdr (rd_part R (tx_hdr_name t))) \<le> IPA_HDR_MAX_SIZE (ce_K E))"

definition with_header :: "tx_intf_prop list \<Rightarrow> ipa_ip_type \<Rightarrow> u32 \<Rightarrow> 'a ipa_client_scheme \<Rightarrow> 'a ipa_client_scheme" where
  "with_header txs ip h c = (if has_family ip txs then set_header ip h c else c)"

lemma new_header_effect:
  assumes R: "reads_driver E R" and n: "new_header E ip name fill touch txs c k = Some (b, c', k')" and ok: "rd_ok R k'"
    and fit: "hdrs_fit E R txs" "length name \<le> IPA_RESOURCE_NAME_MAX (ce_K E)"
  shows "b \<and> (if has_family ip txs
    then \<exists>h. c' = set_header ip h (touch c) \<and> eff R k k' {#} {#} {#} {#(h, full_bytes E R fill txs ip)#}
    else c' = c \<and> eff R k k' {#} {#} {#} {#})"
proof (cases "find (\<lambda>t. tx_ip t = ip) txs")
  case None
  then show ?thesis using n ok by (auto simp: new_header_def has_family_def eff_refl)
next
  case (Some t)
  then have t: "t \<in> set txs" by (auto simp: find_Some_iff)
  let ?p = "rd_part R (tx_hdr_name t)"
  have len: "length (copied_hdr ?p) \<le> IPA_HDR_MAX_SIZE (ce_K E)" using fit(1) t by (simp add: hdrs_fit_def)
  obtain res k1 where c: "copy_partial E t k = (res, k1)" by force
  note cp = driver_copy [OF R c _ len]
  have res: "res = Some (?p, part_buf E ?p)"
  proof (rule ccontr)
    assume no: "res \<noteq> Some (?p, part_buf E ?p)"
    then have "\<not> rd_ok R k1" using cp by blast
    moreover have "rd_ok R k1"
    proof (cases res)
      case None
      then have "k1 = k'" using n Some c by (simp add: new_header_def)
      then show ?thesis using ok by simp
    next
      case (Some hb)
      obtain h buf where hb: "hb = (h, buf)" by force
      from n \<open>find _ _ = Some t\<close> c Some hb obtain bytes where f: "fill h buf = Some bytes"
        by (auto simp: new_header_def split: option.splits)
      obtain r k2 where a: "add_full_header E name (take (length (copied_hdr h)) bytes) k1 = (r, k2)" by force
      have "k2 = k'" using n \<open>find _ _ = Some t\<close> c Some hb f a by (auto simp: new_header_def split: option.splits)
      with driver_add_hdr [OF R a _ fit(2)] ok show ?thesis by (auto dest: eff_ok)
    qed
    ultimately show False by simp
  qed
  from n Some c res obtain bytes where f: "fill ?p (part_buf E ?p) = Some bytes"
    by (auto simp: new_header_def split: option.splits)
  obtain r k2 where a: "add_full_header E name (take (length (copied_hdr ?p)) bytes) k1 = (r, k2)" by force
  have k2: "k2 = k'" using n Some c res f a by (auto simp: new_header_def split: option.splits)
  from driver_add_hdr [OF R a _ fit(2)] k2 ok obtain h where
    h: "r = Some h" "eff R k1 k' {#} {#} {#} {#(h, take (length (copied_hdr ?p)) bytes)#}" by blast
  have "eff R k k1 {#} {#} {#} {#}" using cp eff_ok [OF h(2)] by simp
  from eff_trans [OF this h(2)]
  have "eff R k k' {#} {#} {#} {#(h, full_bytes E R fill txs ip)#}" by (simp add: full_bytes_def Some f)
  moreover have "b" "c' = set_header ip h (touch c)"
    using n Some c res f a h by (simp_all add: new_header_def)
  ultimately show ?thesis using Some by (auto simp: has_family_def)
qed

definition touch_mac :: "(u8 list \<Rightarrow> u8 list) \<Rightarrow> 'a ipa_client_scheme \<Rightarrow> 'a ipa_client_scheme" where
  "touch_mac tm c = c\<lparr>cl_mac := tm (cl_mac c)\<rparr>"

lemma new_headers_effect:
  assumes R: "reads_driver E R" and n: "new_headers E name4 name6 fill (touch_mac tm) txs c k = Some (b, c', k')"
    and ok: "rd_ok R k'" and fit: "hdrs_fit E R txs" "length name4 \<le> IPA_RESOURCE_NAME_MAX (ce_K E)"
      "length name6 \<le> IPA_RESOURCE_NAME_MAX (ce_K E)" and tm: "\<And>m. tm (tm m) = tm m"
  shows "b \<and> (\<exists>h4 h6. c' = with_header txs IPA_IP_v6 h6 (with_header txs IPA_IP_v4 h4
        (if has_family IPA_IP_v4 txs \<or> has_family IPA_IP_v6 txs then touch_mac tm c else c))
    \<and> eff R k k' {#} {#} {#}
        (mset ((if has_family IPA_IP_v4 txs then [(h4, full_bytes E R fill txs IPA_IP_v4)] else [])
             @ (if has_family IPA_IP_v6 txs then [(h6, full_bytes E R fill txs IPA_IP_v6)] else []))))"
proof -
  obtain b1 c1 k1 where n1: "new_header E IPA_IP_v4 name4 fill (touch_mac tm) txs c k = Some (b1, c1, k1)"
    using n by (auto simp: new_headers_def split: option.splits)
  note e1 = new_header_effect [OF R n1 _ fit(1,2)]
  have "b1" using e1 n n1 ok by (cases b1) (simp_all add: new_headers_def)
  then have n2: "new_header E IPA_IP_v6 name6 fill (touch_mac tm) txs c1 k1 = Some (b, c', k')"
    using n n1 by (simp add: new_headers_def)
  note e2 = new_header_effect [OF R n2 ok fit(1,3)]
  then have "rd_ok R k1" using eff_ok by (metis (full_types))
  note e1 = e1 [OF this]
  obtain h4 where h4: "c1 = with_header txs IPA_IP_v4 h4 (if has_family IPA_IP_v4 txs then touch_mac tm c else c)"
    "eff R k k1 {#} {#} {#} (mset (if has_family IPA_IP_v4 txs then [(h4, full_bytes E R fill txs IPA_IP_v4)] else []))"
    using e1 by (cases "has_family IPA_IP_v4 txs") (auto simp: with_header_def)
  obtain h6 where h6: "c' = with_header txs IPA_IP_v6 h6 (if has_family IPA_IP_v6 txs then touch_mac tm c1 else c1)"
    "eff R k1 k' {#} {#} {#} (mset (if has_family IPA_IP_v6 txs then [(h6, full_bytes E R fill txs IPA_IP_v6)] else []))"
    using e2 by (cases "has_family IPA_IP_v6 txs") (auto simp: with_header_def)
  have "c' = with_header txs IPA_IP_v6 h6 (with_header txs IPA_IP_v4 h4
        (if has_family IPA_IP_v4 txs \<or> has_family IPA_IP_v6 txs then touch_mac tm c else c))"
    using h4(1) h6(1) by (simp add: with_header_def set_header_def touch_mac_def tm)
  with eff_trans [OF h4(2) h6(2)] e2 show ?thesis by (intro conjI exI [of _ h4] exI [of _ h6]) simp_all
qed

section \<open>Release of an entry\<close>

definition hdrs_of :: "(ipa_ip_type \<Rightarrow> 'a ipa_client_scheme \<Rightarrow> u8 list) \<Rightarrow> ipa_ip_type \<Rightarrow> 'a ipa_client_scheme
    \<Rightarrow> (u32 \<times> u8 list) list" where
  "hdrs_of hb ip c =
     (if ip = IPA_IP_v4 then if ipv4_header_set c then [(hdr_hdl_v4 c, hb IPA_IP_v4 c)] else []
      else if ipv6_header_set c then [(hdr_hdl_v6 c, hb IPA_IP_v6 c)] else [])"

lemma client_hdrs_split: "client_hdrs hb c = hdrs_of hb IPA_IP_v4 c @ hdrs_of hb IPA_IP_v6 c"
  by (simp add: client_hdrs_def hdrs_of_def)

definition no_header :: "ipa_ip_type \<Rightarrow> 'a ipa_client_scheme \<Rightarrow> 'a ipa_client_scheme" where
  "no_header ip c = (if ip = IPA_IP_v4 then c\<lparr>ipv4_header_set := False\<rparr> else c\<lparr>ipv6_header_set := False\<rparr>)"

lemma delete_header_effect:
  assumes "reads_driver E R" "delete_header E ip c k = (b, c', k')" "rd_ok R k'"
    and "rd_hdrs R k = G + mset (hdrs_of hb ip c)"
  shows "b \<and> c' = no_header ip c \<and> eff R k k' {#} {#} (mset (hdrs_of hb ip c)) {#}"
proof -
  define hdl where "hdl = (if ip = IPA_IP_v4 then hdr_hdl_v4 c else hdr_hdl_v6 c)"
  show ?thesis
  proof (cases "if ip = IPA_IP_v4 then ipv4_header_set c else ipv6_header_set c")
    case True
    then obtain bs where h: "hdrs_of hb ip c = [(hdl, bs)]"
      by (auto simp: hdrs_of_def hdl_def split: if_splits)
    obtain d k1 where d: "DeleteHeaderHdl (ce_K E) hdl k = (d, k1)" by force
    have e: "b = d" "k' = k1" "d \<Longrightarrow> c' = no_header ip c"
      using assms(2) True d by (auto simp: delete_header_def hdl_def no_header_def split: if_splits)
    then have "eff R k k' {#} {#} {#(hdl, bs)#} {#} \<and> ((hdl, bs) \<in># rd_hdrs R k \<longrightarrow> d)"
      using driver_del_hdr [OF assms(1) d] assms(3) by simp
    then show ?thesis using e assms(4) h by simp
  next
    case False
    then show ?thesis using assms(2,3)
      by (auto simp: delete_header_def hdrs_of_def no_header_def eff_refl split: if_splits)
  qed
qed

definition released :: "'a ipa_client_scheme \<Rightarrow> 'a ipa_client_scheme" where
  "released c = (fresh_client c)\<lparr>ipv4_header_set := False, ipv6_header_set := False\<rparr>"

lemma delete_header_cases:
  "delete_header E ip c k = (b, c', k') \<Longrightarrow> c' = c \<or> c' = no_header ip c"
  by (auto simp: delete_header_def no_header_def split: if_splits prod.splits)

text \<open>A function of a client that its flags and rules do not change.\<close>

definition flag_free :: "(ipa_ip_type \<Rightarrow> 'a ipa_client_scheme \<Rightarrow> 'b) \<Rightarrow> bool" where
  "flag_free hb \<longleftrightarrow> (\<forall>i c b n rs a v. hb i (c\<lparr>route_rule_set_v4 := b\<rparr>) = hb i c
     \<and> hb i (c\<lparr>route_rule_set_v6 := n\<rparr>) = hb i c \<and> hb i (c\<lparr>ipv4_set := b\<rparr>) = hb i c \<and> hb i (c\<lparr>ipv6_set := n\<rparr>) = hb i c
     \<and> hb i (c\<lparr>ipv4_header_set := b\<rparr>) = hb i c \<and> hb i (c\<lparr>ipv6_header_set := b\<rparr>) = hb i c
     \<and> hb i (c\<lparr>cl_rt_hdl := rs\<rparr>) = hb i c \<and> hb i (c\<lparr>cl_v4_addr := a\<rparr>) = hb i c \<and> hb i (c\<lparr>cl_v6_addr := v\<rparr>) = hb i c
     \<and> hb i (c\<lparr>hdr_hdl_v4 := a\<rparr>) = hb i c \<and> hb i (c\<lparr>hdr_hdl_v6 := a\<rparr>) = hb i c)"

lemma flag_freeD:
  assumes "flag_free hb"
  shows "hb i (c\<lparr>route_rule_set_v4 := b\<rparr>) = hb i c" "hb i (c\<lparr>route_rule_set_v6 := n\<rparr>) = hb i c"
    "hb i (c\<lparr>ipv4_set := b\<rparr>) = hb i c" "hb i (c\<lparr>ipv6_set := n\<rparr>) = hb i c"
    "hb i (c\<lparr>ipv4_header_set := b\<rparr>) = hb i c" "hb i (c\<lparr>ipv6_header_set := b\<rparr>) = hb i c"
    "hb i (c\<lparr>cl_rt_hdl := rs\<rparr>) = hb i c" "hb i (c\<lparr>cl_v4_addr := a\<rparr>) = hb i c" "hb i (c\<lparr>cl_v6_addr := v\<rparr>) = hb i c"
    "hb i (c\<lparr>hdr_hdl_v4 := a\<rparr>) = hb i c" "hb i (c\<lparr>hdr_hdl_v6 := a\<rparr>) = hb i c"
  using assms unfolding flag_free_def by blast+

lemma delete_header_back:
  "\<lbrakk>reads_driver E R; delete_header E ip c k = (b, c', k'); rd_ok R k'\<rbrakk> \<Longrightarrow> rd_ok R k"
  using driver_del_hdr [of E R _ k _ k'] eff_ok
  by (fastforce simp: delete_header_def split: if_splits prod.splits)

lemma release_client_back:
  assumes R: "reads_driver E R" and tx: "tx_view (ce_iface E) = Some txs"
    and r: "release_client E c k = Some (b, c', k')" and ok: "rd_ok R k'"
  shows "rd_ok R k"
proof -
  obtain r1 c1 k1 where d1: "delete_rtrules E IPA_IP_v4 c k = Some (r1, c1, k1)"
    using r by (auto simp: release_client_def split: option.splits)
  note b1 = eff_ok [OF conjunct2 [OF conjunct2 [OF delete_rtrules_effect [OF R tx d1]]]]
  show ?thesis
  proof (cases "r1 = IPACM_SUCCESS")
    case False
    then show ?thesis using b1 r d1 ok by (simp add: release_client_def)
  next
    case True
    then obtain r2 c2 k2 where d2: "delete_rtrules E IPA_IP_v6 c1 k1 = Some (r2, c2, k2)"
      using r d1 by (auto simp: release_client_def split: option.splits)
    note b2 = eff_ok [OF conjunct2 [OF conjunct2 [OF delete_rtrules_effect [OF R tx d2]]]]
    obtain b3 c3 k3 where d3: "delete_header E IPA_IP_v4 c2 k2 = (b3, c3, k3)" by (metis prod.exhaust)
    obtain b4 c4 k4 where d4: "delete_header E IPA_IP_v6 c3 k3 = (b4, c4, k4)" by (metis prod.exhaust)
    have "k' = k2 \<or> k' = k3 \<or> k' = k4"
      using r d1 d2 d3 d4 True by (auto simp: release_client_def split: if_splits bool.splits)
    then show ?thesis using ok b1 b2 delete_header_back [OF R d3] delete_header_back [OF R d4] by blast
  qed
qed

lemma release_client_effect:
  assumes R: "reads_driver E R" and tx: "tx_view (ce_iface E) = Some txs" and hb: "flag_free hb"
    and r: "release_client E c k = Some (b, c', k')" and ok: "rd_ok R k'"
    and h: "rd_hdrs R k = G + mset (client_hdrs hb c)"
  shows "b \<and> c' = released c \<and> eff R k k' (mset (client_entries E txs c)) {#} (mset (client_hdrs hb c)) {#}"
proof -
  note ff = flag_freeD [OF hb]
  obtain r1 c1 k1 where d1: "delete_rtrules E IPA_IP_v4 c k = Some (r1, c1, k1)"
    using r by (auto simp: release_client_def split: option.splits)
  note e1 = delete_rtrules_effect [OF R tx d1]
  show ?thesis
  proof (cases "r1 = IPACM_SUCCESS")
    case False
    then have "k' = k1" using r d1 by (simp add: release_client_def)
    then show ?thesis using e1 ok False by simp
  next
    case True
    then obtain r2 c2 k2 where d2: "delete_rtrules E IPA_IP_v6 c1 k1 = Some (r2, c2, k2)"
      using r d1 by (auto simp: release_client_def split: option.splits)
    note e2 = delete_rtrules_effect [OF R tx d2]
    have r2: "r2 = IPACM_SUCCESS"
    proof (rule ccontr)
      assume n: "r2 \<noteq> IPACM_SUCCESS"
      then have "k' = k2" using r d1 d2 True by (simp add: release_client_def)
      then show False using e2 ok n by simp
    qed
    obtain b3 c3 k3 where d3: "delete_header E IPA_IP_v4 c2 k2 = (b3, c3, k3)" by (metis prod.exhaust)
    obtain b4 c4 k4 where d4: "delete_header E IPA_IP_v6 c3 k3 = (b4, c4, k4)" by (metis prod.exhaust)
    have stp: "release_client E c k = (if \<not> b3 then Some (False, c3, k3) else if \<not> b4 then Some (False, c4, k4)
        else Some (True, released c4, k4))"
      using d1 d2 d3 d4 True r2 by (simp add: release_client_def released_def)
    have "k' = k3 \<or> k' = k4" using stp r by (auto split: if_splits)
    then have ok2: "rd_ok R k2"
      using ok delete_header_back [OF R d3] delete_header_back [OF R d4] by blast
    have c2: "c2 = no_routes IPA_IP_v6 (no_routes IPA_IP_v4 c)"
      and e12: "eff R k k2 (mset (client_entries E txs c)) {#} {#} {#}"
    proof -
      note a = conjunct1 [OF conjunct2 [OF e2 [OF ok2]]] conjunct2 [OF conjunct2 [OF e2 [OF ok2]]]
      note b = conjunct1 [OF conjunct2 [OF e1 [OF eff_ok [OF a(2)]]]] conjunct2 [OF conjunct2 [OF e1 [OF eff_ok [OF a(2)]]]]
      have "client_entries E txs c2 = []"
        by (simp add: a(1) b(1) client_entries_def no_routes_def)
      with eff_then [OF b(2) a(2)] show "eff R k k2 (mset (client_entries E txs c)) {#} {#} {#}" by simp
      show "c2 = no_routes IPA_IP_v6 (no_routes IPA_IP_v4 c)" by (simp only: a(1) b(1))
    qed
    have hc2: "hdrs_of hb ip c2 = hdrs_of hb ip c" for ip
      by (simp add: c2 hdrs_of_def no_routes_def ff)
    have g2: "rd_hdrs R k2 = (G + mset (hdrs_of hb IPA_IP_v6 c)) + mset (hdrs_of hb IPA_IP_v4 c2)"
      using eff_hdrs [OF e12, of "rd_hdrs R k"] h by (simp add: client_hdrs_split hc2 ac_simps)
    have ok3: "rd_ok R k3"
      using \<open>k' = k3 \<or> k' = k4\<close> ok delete_header_back [OF R d4] by blast
    note e3 = delete_header_effect [OF R d3 ok3 g2]
    have hc3: "hdrs_of hb IPA_IP_v6 c3 = hdrs_of hb IPA_IP_v6 c"
    proof -
      have "hdrs_of hb IPA_IP_v6 (no_header IPA_IP_v4 c2) = hdrs_of hb IPA_IP_v6 c2"
        by (simp add: hdrs_of_def no_header_def ff)
      then show ?thesis using e3 hc2 by simp
    qed
    have g3: "rd_hdrs R k3 = G + mset (hdrs_of hb IPA_IP_v6 c3)"
      using e3 eff_hdrs [of R k2 k3 "{#}" "{#}" _ "{#}"] g2 hc3 by auto
    have ok4: "rd_ok R k4" using stp r ok e3 by (auto split: if_splits)
    note e4 = delete_header_effect [OF R d4 ok4 g3]
    have "eff R k k4 (mset (client_entries E txs c)) {#} (mset (client_hdrs hb c)) {#}"
      using eff_trans [OF e12 eff_trans [OF conjunct2 [OF conjunct2 [OF e3]] conjunct2 [OF conjunct2 [OF e4]]]]
      by (simp add: client_hdrs_split hc2 hc3)
    moreover have "released c4 = released c"
      using e3 e4 c2 by (simp add: released_def fresh_client_def no_header_def no_routes_def)
    ultimately show ?thesis using stp r e3 e4 by simp
  qed
qed

section \<open>Moving entries\<close>

lemma copy_prefix_nth [simp]: "\<lbrakk>j < n; n \<le> length src\<rbrakk> \<Longrightarrow> copy_prefix n src dst ! j = src ! j"
  by (simp add: copy_prefix_def nth_append)

lemma copy_prefix_length [simp]: "\<lbrakk>n \<le> length src; length src = length dst\<rbrakk> \<Longrightarrow> length (copy_prefix n src dst) = length dst"
  by (simp add: copy_prefix_def)

lemma copy_hdls_v4 [simp]: "rt_rule_hdl_v4 (copy_hdls n r d) = rt_rule_hdl_v4 r"
  by (simp add: copy_hdls_def)

lemma copy_hdls_wf: "\<lbrakk>wf_hdl r; wf_hdl d; n \<le> IPV6_NUM_ADDR\<rbrakk> \<Longrightarrow> wf_hdl (copy_hdls n r d)"
  by (simp add: wf_hdl_def copy_hdls_def)

lemma copy_v4_entries:
  "length rs = length ds \<Longrightarrow> v4_entries hdr addr ts (map2 (copy_hdls n) rs ds) = v4_entries hdr addr ts rs"
proof (induction rs ds arbitrary: ts rule: list_induct2)
  case (Cons r rs d ds)
  then show ?case by (cases ts) simp_all
qed simp

lemma copy_v6_entries:
  "\<lbrakk>length rs = length ds; \<forall>r \<in> set rs. wf_hdl r; n \<le> IPV6_NUM_ADDR; n \<le> m; m \<le> length addrs\<rbrakk>
   \<Longrightarrow> v6_entries E hdr (copy_prefix m addrs addrs') n ts (map2 (copy_hdls n) rs ds) = v6_entries E hdr addrs n ts rs"
proof (induction rs ds arbitrary: ts rule: list_induct2)
  case (Cons r rs d ds)
  have "num_entries E hdr (copy_prefix m addrs addrs') t (copy_hdls n r d) [0..<n] = num_entries E hdr addrs t r [0..<n]" for t
    using Cons.prems by (intro num_entries_cong) (simp_all add: copy_hdls_def wf_hdl_def)
  with Cons show ?case by (cases ts) simp_all
qed simp

lemma shift_client_entries:
  assumes "wf_client n src" "wf_client n dst"
  shows "client_entries E txs (shift_client n src dst) = client_entries E txs src"
  using assms
  by (simp add: client_entries_def shift_client_def wf_client_def copy_v4_entries copy_v6_entries)

lemma set_map2D: "z \<in> set (map2 f xs ys) \<Longrightarrow> \<exists>x \<in> set xs. \<exists>y \<in> set ys. z = f x y"
  by (auto dest: set_zip_leftD set_zip_rightD)

lemma shift_client_wf:
  assumes "wf_client n src" "wf_client n dst"
  shows "wf_client n (shift_client n src dst)"
proof -
  have "wf_hdl r" if "r \<in> set (map2 (copy_hdls (route_rule_set_v6 src)) (cl_rt_hdl src) (cl_rt_hdl dst))" for r
    using set_map2D [OF that] assms copy_hdls_wf by (fastforce simp: wf_client_def)
  then show ?thesis using assms by (simp add: shift_client_def wf_client_def)
qed

lemma shift_all_length [simp]: "length (shift_all mv xs) = length xs"
  by (induction mv xs rule: shift_all.induct) auto

text \<open>Removing an entry moves the entries after it: a function that the move keeps loses just the value of the entry.\<close>

lemma shift_all_map:
  "\<lbrakk>\<forall>c \<in> set xs. \<forall>d \<in> set xs. f (mv c d) = f c; xs \<noteq> []\<rbrakk>
   \<Longrightarrow> map f (take (length xs - 1) (shift_all mv xs)) = map f (tl xs)"
  by (induction mv xs rule: shift_all.induct) auto

lemma shift_all_set:
  "x \<in> set (shift_all mv xs) \<Longrightarrow> x \<in> set xs \<or> (\<exists>c \<in> set xs. \<exists>d \<in> set xs. x = mv c d)"
  by (induction mv xs rule: shift_all.induct) auto

lemma remove_entry_map:
  assumes "i < cl_num s" "cl_num s \<le> length (cl_tab s)" "\<forall>c \<in> set (live s). \<forall>d \<in> set (live s). f (mv c d) = f c"
  shows "map f (live (remove_entry mv i s)) = map f (take i (live s)) @ map f (drop (Suc i) (live s))"
proof -
  have len: "length (live s) = cl_num s" using assms(2) by (simp add: live_def)
  have ne: "drop i (live s) \<noteq> []" using assms(1) len by simp
  have i: "length (take i (cl_tab s)) = i" using assms(1,2) by simp
  have "live (remove_entry mv i s)
      = take (cl_num s - 1) (take i (cl_tab s) @ shift_all mv (drop i (live s)) @ drop (cl_num s) (cl_tab s))"
    by (simp add: live_def remove_entry_def)
  also have "\<dots> = take i (live s) @ take (length (drop i (live s)) - 1) (shift_all mv (drop i (live s)))"
  proof -
    obtain m where "cl_num s = Suc (i + m)" using less_imp_Suc_add [OF assms(1)] by auto
    then show ?thesis using len i by (simp add: live_def min_def)
  qed
  finally have "map f (live (remove_entry mv i s))
      = map f (take i (live s)) @ map f (take (length (drop i (live s)) - 1) (shift_all mv (drop i (live s))))" by simp
  moreover have "\<forall>c \<in> set (drop i (live s)). \<forall>d \<in> set (drop i (live s)). f (mv c d) = f c"
    using assms(3) by (auto dest: in_set_dropD)
  ultimately show ?thesis using shift_all_map [OF _ ne] by (simp add: drop_Suc tl_drop)
qed

lemma remove_entry_set:
  "x \<in> set (cl_tab (remove_entry mv i s)) \<Longrightarrow> x \<in> set (cl_tab s) \<or> (\<exists>c \<in> set (cl_tab s). \<exists>d \<in> set (cl_tab s). x = mv c d)"
  unfolding remove_entry_def live_def
  by (auto dest!: shift_all_set dest: in_set_takeD in_set_dropD)

section \<open>The account of a table\<close>

definition account :: "'k client_env \<Rightarrow> tx_intf_prop list \<Rightarrow> 'k reading \<Rightarrow> (ipa_ip_type \<Rightarrow> 'a ipa_client_scheme \<Rightarrow> u8 list)
    \<Rightarrow> rt_entry multiset \<Rightarrow> (u32 \<times> u8 list) multiset \<Rightarrow> ('a ipa_client_scheme, 'k, 'm) clients_scheme \<Rightarrow> bool" where
  "account E txs R hb R0 H0 s \<longleftrightarrow>
     rd_rts R (cl_kernel s) = R0 + (\<Sum>c\<leftarrow>live s. mset (client_entries E txs c))
   \<and> rd_hdrs R (cl_kernel s) = H0 + (\<Sum>c\<leftarrow>live s. mset (client_hdrs hb c))"

lemma sum_list_update_split:
  fixes f :: "'c \<Rightarrow> 'b :: comm_monoid_add"
  assumes "i < length xs"
  shows "sum_list (map f (xs[i := x])) = sum_list (map f (take i xs)) + sum_list (map f (drop (Suc i) xs)) + f x"
    "sum_list (map f xs) = sum_list (map f (take i xs)) + sum_list (map f (drop (Suc i) xs)) + f (xs ! i)"
proof -
  show "sum_list (map f (xs[i := x])) = sum_list (map f (take i xs)) + sum_list (map f (drop (Suc i) xs)) + f x"
    using assms by (simp add: upd_conv_take_nth_drop ac_simps)
  have "sum_list (map f xs) = sum_list (map f (take i xs @ xs ! i # drop (Suc i) xs))"
    using id_take_nth_drop [OF assms] by simp
  then show "sum_list (map f xs) = sum_list (map f (take i xs)) + sum_list (map f (drop (Suc i) xs)) + f (xs ! i)"
    by (simp add: ac_simps)
qed

lemma live_put: "live (put_client i c s) = (if i < cl_num s then (live s)[i := c] else live s)"
  by (simp add: live_def put_client_def take_update_swap list_update_beyond)

lemma live_simps [simp]:
  "live (s\<lparr>cl_kernel := k\<rparr>) = live s" "live (log_call x s) = live s" "cl_kernel (log_call x s) = cl_kernel s"
  "cl_tab (log_call x s) = cl_tab s" "cl_num (log_call x s) = cl_num s"
  "header_name_count (log_call x s) = header_name_count s"
  "cl_kernel (put_client i c s) = cl_kernel s" "cl_num (put_client i c s) = cl_num s"
  "header_name_count (put_client i c s) = header_name_count s"
  by (simp_all add: live_def log_call_def put_client_def)

lemma live_length: "cl_num s \<le> length (cl_tab s) \<Longrightarrow> length (live s) = cl_num s"
  by (simp add: live_def)

lemma live_nth: "i < cl_num s \<Longrightarrow> live s ! i = cl_tab s ! i"
  by (simp add: live_def)

lemma account_kernel:
  "\<lbrakk>account E txs R hb R0 H0 s; eff R (cl_kernel s) k' {#} {#} {#} {#}; live s' = live s; cl_kernel s' = k'\<rbrakk>
   \<Longrightarrow> account E txs R hb R0 H0 s'"
  using eff_rts [of R "cl_kernel s" k' "{#}" "{#}" "{#}" "{#}"] eff_hdrs [of R "cl_kernel s" k' "{#}" "{#}" "{#}" "{#}"]
  by (simp add: account_def)

lemma account_put:
  assumes a: "account E txs R hb R0 H0 s" and i: "i < cl_num s" "cl_num s \<le> length (cl_tab s)"
    and e: "eff R (cl_kernel s) k' (mset (client_entries E txs (cl_tab s ! i))) (mset (client_entries E txs c))
        (mset (client_hdrs hb (cl_tab s ! i))) (mset (client_hdrs hb c))"
    and s': "live s' = (live s)[i := c]" "cl_kernel s' = k'"
  shows "account E txs R hb R0 H0 s'"
proof -
  have l: "i < length (live s)" using i by (simp add: live_length)
  note r = sum_list_update_split(1) [OF l, of "\<lambda>c. mset (client_entries E txs c)" c]
    sum_list_update_split(2) [OF l, of "\<lambda>c. mset (client_entries E txs c)"]
  note h = sum_list_update_split(1) [OF l, of "\<lambda>c. mset (client_hdrs hb c)" c]
    sum_list_update_split(2) [OF l, of "\<lambda>c. mset (client_hdrs hb c)"]
  let ?f = "\<lambda>c. mset (client_entries E txs c)" and ?g = "\<lambda>c. mset (client_hdrs hb c)"
  have "rd_rts R k' = (R0 + (sum_list (map ?f (take i (live s))) + sum_list (map ?f (drop (Suc i) (live s))))) + ?f c"
    by (rule eff_rts [OF e]) (use a r(2) i(1) in \<open>simp add: account_def live_nth ac_simps\<close>)
  moreover have "rd_hdrs R k' = (H0 + (sum_list (map ?g (take i (live s))) + sum_list (map ?g (drop (Suc i) (live s))))) + ?g c"
    by (rule eff_hdrs [OF e]) (use a h(2) i(1) in \<open>simp add: account_def live_nth ac_simps\<close>)
  ultimately show ?thesis using r(1) h(1) s' by (simp add: account_def ac_simps)
qed

text \<open>Removal of an entry that has neither rules nor headers.\<close>

lemma account_remove:
  assumes a: "account E txs R hb R0 H0 s" and i: "i < cl_num s" "cl_num s \<le> length (cl_tab s)"
    and z: "client_entries E txs (cl_tab s ! i) = []" "client_hdrs hb (cl_tab s ! i) = []"
    and mv: "\<forall>c \<in> set (live s). \<forall>d \<in> set (live s). client_entries E txs (mv c d) = client_entries E txs c
        \<and> client_hdrs hb (mv c d) = client_hdrs hb c"
  shows "account E txs R hb R0 H0 (remove_entry mv i s)"
proof -
  have l: "i < length (live s)" using i by (simp add: live_length)
  note r = sum_list_update_split(2) [OF l, of "\<lambda>c. mset (client_entries E txs c)"]
  note h = sum_list_update_split(2) [OF l, of "\<lambda>c. mset (client_hdrs hb c)"]
  have "map (\<lambda>c. mset (client_entries E txs c)) (live (remove_entry mv i s))
      = map (\<lambda>c. mset (client_entries E txs c)) (take i (live s)) @ map (\<lambda>c. mset (client_entries E txs c)) (drop (Suc i) (live s))"
    "map (\<lambda>c. mset (client_hdrs hb c)) (live (remove_entry mv i s))
      = map (\<lambda>c. mset (client_hdrs hb c)) (take i (live s)) @ map (\<lambda>c. mset (client_hdrs hb c)) (drop (Suc i) (live s))"
    using mv by (intro remove_entry_map i; simp)+
  moreover have "cl_kernel (remove_entry mv i s) = cl_kernel s" by (simp add: remove_entry_def)
  ultimately show ?thesis using a z r h live_nth [OF i(1)] by (simp add: account_def)
qed

section \<open>What every call leaves well formed\<close>

text \<open>An entry with the arrays of the table, and headers only of families that the interface has.\<close>

definition st_client :: "tx_intf_prop list \<Rightarrow> 'a ipa_client_scheme \<Rightarrow> bool" where
  "st_client txs c \<longleftrightarrow> wf_client (length txs) c
     \<and> (ipv4_header_set c \<longrightarrow> has_family IPA_IP_v4 txs) \<and> (ipv6_header_set c \<longrightarrow> has_family IPA_IP_v6 txs)"

lemma st_no_routes [simp]: "st_client txs c \<Longrightarrow> st_client txs (no_routes ip c)"
  by (auto simp: st_client_def wf_client_def no_routes_def)

lemma st_no_header [simp]: "st_client txs c \<Longrightarrow> st_client txs (no_header ip c)"
  by (auto simp: st_client_def wf_client_def no_header_def)

lemma st_fresh [simp]: "st_client txs c \<Longrightarrow> st_client txs (fresh_client c)"
  by (auto simp: st_client_def wf_client_def fresh_client_def)

lemma st_released [simp]: "st_client txs c \<Longrightarrow> st_client txs (released c)"
  by (auto simp: st_client_def wf_client_def fresh_client_def released_def)

lemma st_shift: "\<lbrakk>st_client txs c; st_client txs d\<rbrakk> \<Longrightarrow> st_client txs (shift_client (length txs) c d)"
  by (simp add: st_client_def shift_client_wf) (simp add: shift_client_def)

lemma mac_simps [simp]:
  "cl_mac (no_routes ip c) = cl_mac c" "cl_mac (no_header ip c) = cl_mac c" "cl_mac (released c) = cl_mac c"
  "cl_mac (fresh_client c) = cl_mac c" "cl_mac (shift_client n c d) = cl_mac c"
  by (simp_all add: no_routes_def no_header_def released_def fresh_client_def shift_client_def)

lemma release_client_st:
  assumes "st_client txs c" "tx_view (ce_iface E) = Some txs"
  shows "\<exists>b c' k'. release_client E c k = Some (b, c', k') \<and> st_client txs c' \<and> cl_mac c' = cl_mac c
    \<and> (b \<longrightarrow> \<not> route_rule_set_v4 c' \<and> route_rule_set_v6 c' = 0 \<and> \<not> ipv4_header_set c' \<and> \<not> ipv6_header_set c')"
proof -
  obtain b1 k1 where d1: "delete_rtrules E IPA_IP_v4 c k =
      Some (if b1 then IPACM_SUCCESS else IPACM_FAILURE, if b1 then no_routes IPA_IP_v4 c else c, k1)"
    using delete_rtrules_defined assms unfolding st_client_def by metis
  define c1 where "c1 = (if b1 then no_routes IPA_IP_v4 c else c)"
  have c1: "st_client txs c1" "cl_mac c1 = cl_mac c" using assms(1) by (simp_all add: c1_def)
  obtain b2 k2 where d2: "delete_rtrules E IPA_IP_v6 c1 k1 =
      Some (if b2 then IPACM_SUCCESS else IPACM_FAILURE, if b2 then no_routes IPA_IP_v6 c1 else c1, k2)"
    using delete_rtrules_defined [OF _ assms(2), of c1] c1(1) unfolding st_client_def by metis
  define c2 where "c2 = (if b2 then no_routes IPA_IP_v6 c1 else c1)"
  have c2: "st_client txs c2" "cl_mac c2 = cl_mac c" using c1 by (simp_all add: c2_def)
  obtain b3 c3 k3 where d3: "delete_header E IPA_IP_v4 c2 k2 = (b3, c3, k3)" by (metis prod.exhaust)
  have c3: "st_client txs c3" "cl_mac c3 = cl_mac c" using delete_header_cases [OF d3] c2 by auto
  obtain b4 c4 k4 where d4: "delete_header E IPA_IP_v6 c3 k3 = (b4, c4, k4)" by (metis prod.exhaust)
  have c4: "st_client txs c4" "cl_mac c4 = cl_mac c" using delete_header_cases [OF d4] c3 by auto
  have rel: "st_client txs ((fresh_client c4)\<lparr>ipv4_header_set := False, ipv6_header_set := False\<rparr>)"
    using st_released [OF c4(1)] by (simp add: released_def)
  have "release_client E c k = (if \<not> b1 then Some (False, c1, k1) else if \<not> b2 then Some (False, c2, k2)
      else if \<not> b3 then Some (False, c3, k3) else if \<not> b4 then Some (False, c4, k4)
      else Some (True, (fresh_client c4)\<lparr>ipv4_header_set := False, ipv6_header_set := False\<rparr>, k4))"
    using d1 [folded c1_def] d2 [folded c2_def] d3 d4
    by (simp add: release_client_def IPACM_SUCCESS_def IPACM_FAILURE_def)
  then show ?thesis using c1 c2 c3 c4 rel by (auto simp: fresh_client_def)
qed

text \<open>The place of the MAC address lies in the buffer.\<close>

definition hdr_place :: "'k client_env \<Rightarrow> bool" where
  "hdr_place E \<longleftrightarrow> (\<forall>k nm c k'. IOC_COPY_HDR (ce_K E) nm k = ((0, c), k') \<and> is_eth2_ofst_valid c
     \<longrightarrow> eth2_ofst c + 6 \<le> IPA_HDR_MAX_SIZE (ce_K E))"

lemma copy_partial_place:
  assumes "copy_partial E t k = (Some (c, buf), k')" "hdr_place E"
  shows "length buf = IPA_HDR_MAX_SIZE (ce_K E) \<and> (is_eth2_ofst_valid c \<longrightarrow> eth2_ofst c + 6 \<le> IPA_HDR_MAX_SIZE (ce_K E))"
proof -
  obtain ret c' k1 where a: "IOC_COPY_HDR (ce_K E) (tx_hdr_name t) k = ((ret, c'), k1)" by (metis prod.exhaust)
  then have "ret = 0" "c' = c" "length buf = IPA_HDR_MAX_SIZE (ce_K E)" 
    using assms(1) by (auto simp: copy_partial_def CopyHeader_def on_zero_def split: if_splits)
  then show ?thesis using a assms(2) unfolding hdr_place_def by blast
qed

end
