(* ===== verification/Ipacm_EthRun.thy ===== *)
theory Ipacm_EthRun
  imports Ipacm_EthClient Ipacm_ClientTable
begin

text \<open>
  Runs of the Ethernet client table against a specification: a list of clients, each with its MAC address,
  its IPv4 address and its IPv6 addresses. As long as no request of the driver fails, the table
  is that list, and the driver holds exactly the rules and headers of its clients.
\<close>

section \<open>The specification\<close>

type_synonym abs_client = "u8 list \<times> u32 option \<times> u32 list list"

definition spec_attach :: "u8 list \<Rightarrow> abs_client list \<Rightarrow> abs_client list" where
  "spec_attach mac cs =
     (if mac \<in> fst ` set cs \<or> length cs \<ge> IPA_MAX_NUM_ETH_CLIENTS then cs else cs @ [(mac, None, [])])"

definition spec_addr :: "ipacm_event_data_all \<Rightarrow> abs_client \<Rightarrow> abs_client" where
  "spec_addr d c = (case c of (mac, a4, as6) \<Rightarrow>
     if mac \<noteq> mac_addr d then c
     else if iptype d = IPA_IP_v4 then (mac, if ipv4_addr d = 0 then a4 else Some (ipv4_addr d), as6)
     else (mac, a4, if (\<forall>w \<in> set (ipv6_addr d). w = 0) \<or> length as6 \<ge> IPV6_NUM_ADDR \<or> ipv6_addr d \<in> set as6 then as6
                    else as6 @ [ipv6_addr d]))"

definition spec_clear :: "ipa_ip_type \<Rightarrow> abs_client \<Rightarrow> abs_client" where
  "spec_clear ip c = (case c of (mac, a4, as6) \<Rightarrow> if ip = IPA_IP_v4 then (mac, None, as6) else (mac, a4, []))"

fun spec_step :: "eth_op \<Rightarrow> abs_client list \<Rightarrow> abs_client list" where
  "spec_step (Neigh_add d) cs = map (spec_addr d) (spec_attach (mac_addr d) cs)"
| "spec_step (Neigh_del d) cs = filter (\<lambda>c. fst c \<noteq> mac_addr d) cs"
| "spec_step (Reset_rt ip) cs = map (spec_clear ip) cs"

definition abs_client :: "'a ipa_client_scheme \<Rightarrow> abs_client" where
  "abs_client c = (cl_mac c, if ipv4_set c then Some (cl_v4_addr c) else None, take (ipv6_set c) (cl_v6_addr c))"

definition absv :: "'k eth_clients \<Rightarrow> abs_client list" where
  "absv s = map abs_client (live s)"

section \<open>Interface, events and invariant\<close>

text \<open>An interface that is no ODU, with properties, names that fit and headers that fit.\<close>

definition eth_env :: "'k client_env \<Rightarrow> tx_intf_prop list \<Rightarrow> bool" where
  "eth_env E txs \<longleftrightarrow> tx_prop (ce_iface E) = Some txs \<and> txs \<noteq> [] \<and> map_option fst (iface_query (ce_iface E)) = Some (length txs)
     \<and> ce_cat E \<noteq> ODU_IF \<and> hdr_place E"

definition eth_names :: "'k client_env \<Rightarrow> 'k reading \<Rightarrow> tx_intf_prop list \<Rightarrow> bool" where
  "eth_names E R txs \<longleftrightarrow> reads_driver E R \<and> hdrs_fit E R txs \<and> 14 \<le> IPA_RESOURCE_NAME_MAX (ce_K E)"

fun legal :: "eth_op \<Rightarrow> bool" where
  "legal (Neigh_add d) \<longleftrightarrow> iptype d \<noteq> IPA_IP_MAX \<and> length (mac_addr d) = 6"
| "legal (Neigh_del d) \<longleftrightarrow> True"
| "legal (Reset_rt ip) \<longleftrightarrow> ip \<noteq> IPA_IP_MAX"

definition eth_wf :: "tx_intf_prop list \<Rightarrow> 'k eth_clients \<Rightarrow> bool" where
  "eth_wf txs s \<longleftrightarrow> length (cl_tab s) = IPA_MAX_NUM_ETH_CLIENTS \<and> cl_num s \<le> IPA_MAX_NUM_ETH_CLIENTS
     \<and> (\<forall>c \<in> set (cl_tab s). st_client txs c) \<and> distinct (map cl_mac (live s))"

text \<open>The bytes of a client's header depend on its MAC address only.\<close>

definition eth_hb :: "'k client_env \<Rightarrow> 'k reading \<Rightarrow> tx_intf_prop list \<Rightarrow> ipa_ip_type \<Rightarrow> ipa_client \<Rightarrow> u8 list" where
  "eth_hb E R txs ip c = full_bytes E R (eth_fill (cl_mac c)) txs ip"

text \<open>A client has the rules of all its addresses.\<close>

definition synced :: "ipa_ip_type \<Rightarrow> 'a ipa_client_scheme \<Rightarrow> bool" where
  "synced ip c \<longleftrightarrow> (if ip = IPA_IP_v4 then route_rule_set_v4 c = ipv4_set c else route_rule_set_v6 c = ipv6_set c)"

definition all_synced :: "'k eth_clients \<Rightarrow> bool" where
  "all_synced s \<longleftrightarrow> (\<forall>c \<in> set (live s). synced IPA_IP_v4 c \<and> synced IPA_IP_v6 c)"

definition eth_inv :: "'k client_env \<Rightarrow> 'k reading \<Rightarrow> tx_intf_prop list \<Rightarrow> rt_entry multiset
    \<Rightarrow> (u32 \<times> u8 list) multiset \<Rightarrow> 'k eth_clients \<Rightarrow> bool" where
  "eth_inv E R txs R0 H0 s \<longleftrightarrow> account E txs R (eth_hb E R txs) R0 H0 s
     \<and> (\<forall>c \<in> set (live s). route_rule_set_v4 c \<longrightarrow> ipv4_set c)"

text \<open>
  What a part of a handler does: if no request has failed after it, none had failed before
  it, the invariant is kept and the clients change as \<open>f\<close> says.
\<close>

definition does :: "'k client_env \<Rightarrow> 'k reading \<Rightarrow> tx_intf_prop list \<Rightarrow> (abs_client list \<Rightarrow> abs_client list)
    \<Rightarrow> 'k eth_clients \<Rightarrow> 'k eth_clients \<Rightarrow> bool" where
  "does E R txs f s s' \<longleftrightarrow> (rd_ok R (cl_kernel s') \<longrightarrow> rd_ok R (cl_kernel s)
     \<and> (\<forall>R0 H0. eth_inv E R txs R0 H0 s \<longrightarrow> eth_inv E R txs R0 H0 s' \<and> absv s' = f (absv s)))"

lemma does_trans: "\<lbrakk>does E R txs f s s1; does E R txs g s1 s2\<rbrakk> \<Longrightarrow> does E R txs (g \<circ> f) s s2"
  unfolding does_def by (metis comp_apply)

lemma does_same: "\<lbrakk>live s' = live s; cl_kernel s' = cl_kernel s; f (absv s) = absv s\<rbrakk> \<Longrightarrow> does E R txs f s s'"
  by (simp add: does_def eth_inv_def account_def absv_def)

lemma does_after:
  "\<lbrakk>does E R txs f s s'; rd_ok R (cl_kernel s'); eth_inv E R txs R0 H0 s\<rbrakk> \<Longrightarrow> eth_inv E R txs R0 H0 s' \<and> absv s' = f (absv s)"
  by (simp add: does_def)

lemma does_fails: "\<not> rd_ok R (cl_kernel s') \<Longrightarrow> does E R txs f s s'"
  by (simp add: does_def)

lemma does_kernel:
  assumes "rd_ok R (cl_kernel s') \<Longrightarrow> eff R (cl_kernel s) (cl_kernel s') {#} {#} {#} {#}" "live s' = live s" "f (absv s) = absv s"
  shows "does E R txs f s s'"
  using assms account_kernel [of E txs R "eth_hb E R txs" _ _ s "cl_kernel s'" s'] eff_ok
  by (fastforce simp: does_def eth_inv_def absv_def)

lemma tx_view_env: "eth_env E txs \<Longrightarrow> tx_view (ce_iface E) = Some txs"
  by (auto simp: eth_env_def tx_view_def split: option.splits)

lemma eth_hb_flag_free [simp]: "flag_free (eth_hb E R txs)"
  by (simp add: flag_free_def eth_hb_def)

lemma eth_wf_length: "eth_wf txs s \<Longrightarrow> cl_num s \<le> length (cl_tab s)"
  by (simp add: eth_wf_def)

lemma eth_wf_nth: "\<lbrakk>eth_wf txs s; i < length (cl_tab s)\<rbrakk> \<Longrightarrow> st_client txs (cl_tab s ! i)"
  by (simp add: eth_wf_def)

lemma client_indexD:
  assumes "client_index mac s = Some i" "eth_wf txs s"
  shows "i < cl_num s" "i < length (cl_tab s)" "cl_mac (cl_tab s ! i) = mac" "st_client txs (cl_tab s ! i)"
proof -
  have i: "i < length (live s)" "cl_mac (live s ! i) = mac"
    using assms(1) find_idx_nth [of "\<lambda>c. cl_mac c = mac" "live s"]
    by (auto simp: client_index_def Let_def split: if_splits)
  then show "i < cl_num s" using eth_wf_length [OF assms(2)] by (simp add: live_length)
  then show "i < length (cl_tab s)" "cl_mac (cl_tab s ! i) = mac"
    using i eth_wf_length [OF assms(2)] by (simp_all add: live_nth)
  then show "st_client txs (cl_tab s ! i)" using eth_wf_nth assms(2) by blast
qed

lemma client_index_None: "client_index mac s = None \<longleftrightarrow> mac \<notin> cl_mac ` set (live s)"
  using find_idx_less_iff [of "\<lambda>c. cl_mac c = mac" "live s"]
  by (auto simp: client_index_def Let_def)

lemma absv_macs: "fst ` set (absv s) = cl_mac ` set (live s)"
  by (force simp: absv_def abs_client_def)

lemma eth_wf_put:
  assumes "eth_wf txs s" "st_client txs c" "i < cl_num s \<Longrightarrow> cl_mac c = cl_mac (cl_tab s ! i)"
  shows "eth_wf txs (put_client i c s)"
proof -
  have "map cl_mac (live (put_client i c s)) = map cl_mac (live s)"
  proof (cases "i < cl_num s")
    case True
    then have "(map cl_mac (live s))[i := cl_mac c] = map cl_mac (live s)"
      using assms(3) live_nth [OF True] eth_wf_length [OF assms(1)] by (simp add: list_update_same_conv live_length)
    then show ?thesis by (simp add: live_put map_update)
  qed (simp add: live_put)
  moreover have "\<forall>c \<in> set (cl_tab (put_client i c s)). st_client txs c"
    using assms(1,2) set_update_subset_insert [of "cl_tab s" i c] by (auto simp: eth_wf_def put_client_def)
  moreover have "length (cl_tab (put_client i c s)) = length (cl_tab s)" by (simp add: put_client_def)
  ultimately show ?thesis using assms(1) by (simp add: eth_wf_def)
qed

lemma eth_wf_kernel [simp]: "eth_wf txs (s\<lparr>cl_kernel := k\<rparr>) = eth_wf txs s"
  "eth_wf txs (log_call x s) = eth_wf txs s"
  by (simp_all add: eth_wf_def)

lemma does_put:
  assumes wf: "eth_wf txs s" and i: "i < cl_num s" and s': "live s' = (live s)[i := c']"
    and bk: "rd_ok R (cl_kernel s') \<Longrightarrow> rd_ok R (cl_kernel s)"
    and e: "\<lbrakk>rd_ok R (cl_kernel s'); route_rule_set_v4 (cl_tab s ! i) \<longrightarrow> ipv4_set (cl_tab s ! i)\<rbrakk> \<Longrightarrow>
      eff R (cl_kernel s) (cl_kernel s') (mset (client_entries E txs (cl_tab s ! i))) (mset (client_entries E txs c'))
        (mset (client_hdrs (eth_hb E R txs) (cl_tab s ! i))) (mset (client_hdrs (eth_hb E R txs) c'))
      \<and> (route_rule_set_v4 c' \<longrightarrow> ipv4_set c') \<and> f (absv s) = (absv s)[i := abs_client c']"
  shows "does E R txs f s s'"
  unfolding does_def
proof (intro impI conjI allI)
  assume ok: "rd_ok R (cl_kernel s')"
  then show "rd_ok R (cl_kernel s)" by (rule bk)
  fix R0 H0
  assume inv: "eth_inv E R txs R0 H0 s"
  have "cl_tab s ! i \<in> set (live s)"
    using i eth_wf_length [OF wf] by (metis live_length live_nth nth_mem)
  then have h: "route_rule_set_v4 (cl_tab s ! i) \<longrightarrow> ipv4_set (cl_tab s ! i)" using inv by (simp add: eth_inv_def)
  note e = e [OF ok h]
  have "account E txs R (eth_hb E R txs) R0 H0 s'"
    using account_put [OF _ i eth_wf_length [OF wf] conjunct1 [OF e] s' refl] inv by (simp add: eth_inv_def)
  moreover have "route_rule_set_v4 c \<longrightarrow> ipv4_set c" if "c \<in> set (live s')" for c
    using that inv e set_update_subset_insert [of "live s" i c'] unfolding s' eth_inv_def by blast
  ultimately show "eth_inv E R txs R0 H0 s'" by (simp add: eth_inv_def)
  show "absv s' = f (absv s)" using e by (simp add: absv_def s' map_update)
qed

section \<open>Messages\<close>

lemma post_msgs_effect:
  "\<lbrakk>reads_driver E R; post_msgs E ms s = (b, s')\<rbrakk> \<Longrightarrow>
   live s' = live s \<and> cl_tab s' = cl_tab s \<and> cl_num s' = cl_num s \<and> header_name_count s' = header_name_count s
   \<and> (rd_ok R (cl_kernel s') \<longrightarrow> b \<and> eff R (cl_kernel s) (cl_kernel s') {#} {#} {#} {#})"
proof (induction ms arbitrary: s)
  case Nil
  then show ?case by (auto simp: eff_refl)
next
  case (Cons m ms)
  obtain a k1 where m: "malloc (ce_K E) (cl_kernel s) = (a, k1)" by force
  note em = driver_malloc [OF Cons.prems(1) m]
  show ?case
  proof (cases a)
    case True
    then have p: "post_msgs E ms (log_call m (s\<lparr>cl_kernel := k1\<rparr>)) = (b, s')" using Cons.prems(2) m by simp
    note rest = Cons.IH [OF Cons.prems(1) p]
    show ?thesis
    proof (cases "rd_ok R (cl_kernel s')")
      case ok: True
      then have r: "eff R k1 (cl_kernel s') {#} {#} {#} {#}" using rest by simp
      have "eff R (cl_kernel s) k1 {#} {#} {#} {#}" using em [OF eff_ok [OF r]] by simp
      from eff_trans [OF this r] rest ok show ?thesis by simp
    qed (use rest in simp)
  next
    case False
    then have "s' = s\<lparr>cl_kernel := k1\<rparr>" "\<not> b" using Cons.prems(2) m by simp_all
    then show ?thesis using em False by auto
  qed
qed

lemma eth_wf_live:
  "\<lbrakk>live s' = live s; cl_tab s' = cl_tab s; cl_num s' = cl_num s\<rbrakk> \<Longrightarrow> eth_wf txs s' = eth_wf txs s"
  by (simp add: eth_wf_def)

lemma lan2lan_active_step:
  assumes "reads_driver E R" "eth_wf txs s" and s': "s' = snd (handle_lan2lan_client_active E data ev s)"
  shows "eth_wf txs s' \<and> does E R txs id s s' \<and> live s' = live s"
proof (cases "iptype data \<noteq> IPA_IP_MAX \<and> \<not> family_up (iptype data) (ce_iface E)")
  case True
  then show ?thesis using assms(2) by (simp add: s' handle_lan2lan_client_active_def does_same)
next
  case False
  obtain b s1 where p: "post_msgs E [L2l_post ev (iptype data) (ipv4_addr data) (ipv6_addr data) (mac_addr data)] s = (b, s1)"
    by force
  have "s' = s1" unfolding s' handle_lan2lan_client_active_def if_not_P [OF False] p by simp
  then show ?thesis
    using post_msgs_effect [OF assms(1) p] eth_wf_live [of s1 s txs] assms(2) does_kernel [of R s1 s id] by simp
qed

section \<open>Addresses\<close>

lemma abs_update:
  assumes wf: "eth_wf txs s" and i: "client_index mac s = Some i"
    and f: "\<And>c. fst c \<noteq> mac \<Longrightarrow> f c = c"
  shows "map f (absv s) = (absv s)[i := f (abs_client (cl_tab s ! i))]"
proof (rule nth_equalityI)
  note ci = client_indexD [OF i wf]
  have len: "length (absv s) = cl_num s" using eth_wf_length [OF wf] by (simp add: absv_def live_length)
  have dist: "distinct (map fst (absv s))"
    using wf by (simp add: eth_wf_def absv_def comp_def abs_client_def)
  show "length (map f (absv s)) = length ((absv s)[i := f (abs_client (cl_tab s ! i))])" by simp
  fix j assume j: "j < length (map f (absv s))"
  have ai: "absv s ! i = abs_client (cl_tab s ! i)"
    using ci(1) len eth_wf_length [OF wf] by (simp add: absv_def live_nth live_length)
  show "map f (absv s) ! j = (absv s)[i := f (abs_client (cl_tab s ! i))] ! j"
  proof (cases "j = i")
    case True
    then show ?thesis using ai j by simp
  next
    case False
    have "fst (absv s ! i) = mac" using ai ci(3) by (simp add: abs_client_def)
    then have "fst (absv s ! j) \<noteq> mac"
      using dist False j ci(1) len nth_eq_iff_index_eq [of "map fst (absv s)" j i] by auto
    then show ?thesis using False j f by simp
  qed
qed

lemma index_None_abs: "client_index mac s = None \<Longrightarrow> c \<in> set (absv s) \<Longrightarrow> fst c \<noteq> mac"
  unfolding client_index_None using absv_macs [of s] by force

lemma map_spec_addr_None:
  assumes "client_index (mac_addr d) s = None"
  shows "map (spec_addr d) (absv s) = absv s"
proof (rule map_idI)
  fix c assume "c \<in> set (absv s)"
  from index_None_abs [OF assms this] show "spec_addr d c = c" by (auto simp: spec_addr_def split: prod.splits)
qed

text \<open>The clients of a family are synced but for one.\<close>

definition synced_but :: "ipa_ip_type \<Rightarrow> u8 list \<Rightarrow> 'k eth_clients \<Rightarrow> bool" where
  "synced_but ip mac s \<longleftrightarrow> (\<forall>c \<in> set (live s). \<forall>ip' \<in> {IPA_IP_v4, IPA_IP_v6}.
     cl_mac c \<noteq> mac \<or> ip' \<noteq> ip \<longrightarrow> synced ip' c)"

lemma live_update_set:
  assumes "c \<in> set ((live s)[i := c'])" "i < length (live s)"
  shows "c = c' \<or> c \<in> set (live s)"
  using set_update_subset_insert [of "live s" i c'] assms(1) by auto

lemma synced_but_update:
  assumes "all_synced s" "live s' = (live s)[i := c']" "cl_mac c' = mac" "i < length (live s)"
    and "\<And>ip'. ip' \<in> {IPA_IP_v4, IPA_IP_v6} \<Longrightarrow> ip' \<noteq> ip \<Longrightarrow> synced ip' c'"
  shows "synced_but ip mac s'"
  unfolding synced_but_def
proof (intro ballI impI)
  fix c ip' assume c: "c \<in> set (live s')" and ip': "ip' \<in> {IPA_IP_v4, IPA_IP_v6}" and ne: "cl_mac c \<noteq> mac \<or> ip' \<noteq> ip"
  from live_update_set [OF c [unfolded assms(2)] assms(4)] show "synced ip' c"
    using assms(1,3,5) ip' ne by (auto simp: all_synced_def)
qed

lemma num_entries_update:
  "n \<le> m \<Longrightarrow> num_entries E hdr (addrs[m := a]) t r [0..<n] = num_entries E hdr addrs t r [0..<n]"
  by (rule num_entries_cong) auto

lemma v6_entries_update:
  "n \<le> m \<Longrightarrow> v6_entries E hdr (addrs[m := a]) n ts rs = v6_entries E hdr addrs n ts rs"
  by (induction E hdr addrs n ts rs rule: v6_entries.induct) (simp_all add: num_entries_update)

lemma eff_keep_hdrs: "eff R k k' A B {#} {#} \<Longrightarrow> eff R k k' A B C C"
  by (simp add: eff_def)

text \<open>An address entered into the entry of the event's client.\<close>

lemma addr_put:
  assumes wf: "eth_wf txs s" and i: "client_index (mac_addr d) s = Some i"
    and s1: "cl_tab s1 = cl_tab s" "cl_num s1 = cl_num s" and c': "st_client txs c'" "cl_mac c' = mac_addr d"
    and bk: "rd_ok R (cl_kernel s1) \<Longrightarrow> rd_ok R (cl_kernel s)"
    and e: "\<lbrakk>rd_ok R (cl_kernel s1); route_rule_set_v4 (cl_tab s ! i) \<longrightarrow> ipv4_set (cl_tab s ! i)\<rbrakk> \<Longrightarrow>
      eff R (cl_kernel s) (cl_kernel s1) (mset (client_entries E txs (cl_tab s ! i))) (mset (client_entries E txs c')) {#} {#}
      \<and> (route_rule_set_v4 c' \<longrightarrow> ipv4_set c')"
    and h: "client_hdrs (eth_hb E R txs) c' = client_hdrs (eth_hb E R txs) (cl_tab s ! i)"
    and sp: "spec_addr d (abs_client (cl_tab s ! i)) = abs_client c'"
    and sy: "\<And>ip. ip \<noteq> iptype d \<Longrightarrow> ip \<in> {IPA_IP_v4, IPA_IP_v6} \<Longrightarrow> synced ip (cl_tab s ! i) \<Longrightarrow> synced ip c'"
  defines "s' \<equiv> put_client i c' s1"
  shows "eth_wf txs s' \<and> does E R txs (map (spec_addr d)) s s' \<and> (all_synced s \<longrightarrow> synced_but (iptype d) (mac_addr d) s')"
proof (intro conjI impI)
  note ci = client_indexD [OF i wf]
  have ls: "live s1 = live s" using s1 by (simp add: live_def)
  have il: "i < length (live s)" using ci(1) eth_wf_length [OF wf] by (simp add: live_length)
  have l: "live s' = (live s)[i := c']" using ci(1) s1 ls by (simp add: s'_def live_put)
  have k: "cl_kernel s' = cl_kernel s1" by (simp add: s'_def)
  have "eth_wf txs s1" using wf eth_wf_live [OF ls s1] by simp
  then show "eth_wf txs s'" unfolding s'_def by (rule eth_wf_put) (use c' ci(3) s1 in simp_all)
  have "fst c \<noteq> mac_addr d \<Longrightarrow> spec_addr d c = c" for c by (auto simp: spec_addr_def split: prod.splits)
  note abs = abs_update [OF wf i, of "spec_addr d", OF this]
  show "does E R txs (map (spec_addr d)) s s'"
  proof (rule does_put [OF wf ci(1) l])
    show "rd_ok R (cl_kernel s') \<Longrightarrow> rd_ok R (cl_kernel s)" using bk k by simp
    assume "rd_ok R (cl_kernel s')" and v4: "route_rule_set_v4 (cl_tab s ! i) \<longrightarrow> ipv4_set (cl_tab s ! i)"
    then have "rd_ok R (cl_kernel s1)" using k by simp
    from e [OF this v4] show "eff R (cl_kernel s) (cl_kernel s') (mset (client_entries E txs (cl_tab s ! i))) (mset (client_entries E txs c'))
        (mset (client_hdrs (eth_hb E R txs) (cl_tab s ! i))) (mset (client_hdrs (eth_hb E R txs) c'))
      \<and> (route_rule_set_v4 c' \<longrightarrow> ipv4_set c') \<and> map (spec_addr d) (absv s) = (absv s)[i := abs_client c']"
      using abs sp h k by (simp add: eff_keep_hdrs)
  qed
  assume sync: "all_synced s"
  show "synced_but (iptype d) (mac_addr d) s'"
  proof (rule synced_but_update [OF sync l c'(2) il])
    fix ip assume ip: "ip \<in> {IPA_IP_v4, IPA_IP_v6}" "ip \<noteq> iptype d"
    have "live s ! i \<in> set (live s)" using il by simp
    then have "synced ip (cl_tab s ! i)" using sync ip(1) live_nth [OF ci(1)] by (auto simp: all_synced_def)
    with sy [OF ip(2,1)] show "synced ip c'" by simp
  qed
qed

lemma addr_same:
  assumes wf: "eth_wf txs s" and i: "client_index (mac_addr d) s = Some i"
    and sp: "spec_addr d (abs_client (cl_tab s ! i)) = abs_client (cl_tab s ! i)"
  shows "does E R txs (map (spec_addr d)) s s \<and> (all_synced s \<longrightarrow> synced_but (iptype d) (mac_addr d) s)"
proof -
  note ci = client_indexD [OF i wf]
  have "fst c \<noteq> mac_addr d \<Longrightarrow> spec_addr d c = c" for c by (auto simp: spec_addr_def split: prod.splits)
  note abs = abs_update [OF wf i, of "spec_addr d", OF this]
  have "i < length (live s)" using ci(1) eth_wf_length [OF wf] by (simp add: live_length)
  then have "absv s ! i = abs_client (cl_tab s ! i)" using ci(1) by (simp add: absv_def live_nth)
  then have "map (spec_addr d) (absv s) = absv s" using abs sp by (metis list_update_id)
  then show ?thesis using does_same [of s s] by (auto simp: all_synced_def synced_but_def)
qed

text \<open>What \<open>handle_client_ipaddr\<close> does for a client of the table.\<close>

definition addr_done :: "'k client_env \<Rightarrow> 'k reading \<Rightarrow> tx_intf_prop list \<Rightarrow> ipacm_event_data_all
    \<Rightarrow> 'k eth_clients \<Rightarrow> int \<Rightarrow> 'k eth_clients \<Rightarrow> bool" where
  "addr_done E R txs d s r s' \<longleftrightarrow> eth_wf txs s' \<and> does E R txs (map (spec_addr d)) s s'
     \<and> (all_synced s \<longrightarrow> (r = IPACM_FAILURE \<longrightarrow> all_synced s') \<and> synced_but (iptype d) (mac_addr d) s')"

lemma addr_done_put:
  "eth_wf txs s' \<and> does E R txs (map (spec_addr d)) s s' \<and> (all_synced s \<longrightarrow> synced_but (iptype d) (mac_addr d) s')
   \<Longrightarrow> addr_done E R txs d s IPACM_SUCCESS s'"
  by (simp add: addr_done_def IPACM_SUCCESS_def IPACM_FAILURE_def)

lemma addr_done_same:
  "\<lbrakk>eth_wf txs s; client_index (mac_addr d) s = Some i;
    spec_addr d (abs_client (cl_tab s ! i)) = abs_client (cl_tab s ! i)\<rbrakk> \<Longrightarrow> addr_done E R txs d s r s"
  using addr_same by (simp add: addr_done_def)

lemma ipaddr_v4_step:
  assumes env: "eth_env E txs" and R: "reads_driver E R" and wf: "eth_wf txs s"
    and v4: "iptype d = IPA_IP_v4" and i: "client_index (mac_addr d) s = Some i"
  shows "\<exists>r s'. handle_client_ipaddr E d s = Some (r, s') \<and> addr_done E R txs d s r s'"
proof -
  note ci = client_indexD [OF i wf]
  let ?c = "cl_tab s ! i"
  have ha: "handle_client_ipaddr E d s = (if ipv4_addr d = 0 then Some (IPACM_FAILURE, s)
      else if \<not> ipv4_set ?c then Some (IPACM_SUCCESS, put_client i (?c\<lparr>cl_v4_addr := ipv4_addr d, ipv4_set := True\<rparr>) s)
      else if ipv4_addr d = cl_v4_addr ?c then Some (IPACM_FAILURE, s)
      else (case delete_rtrules E IPA_IP_v4 ?c (cl_kernel s) of None \<Rightarrow> None
        | Some (_, c1, k1) \<Rightarrow> Some (IPACM_SUCCESS, put_client i (c1\<lparr>route_rule_set_v4 := False, cl_v4_addr := ipv4_addr d\<rparr>)
            ((log_call (Ct_del (cl_v4_addr ?c)) s)\<lparr>cl_kernel := k1\<rparr>))))"
    by (simp add: handle_client_ipaddr_def i v4 Let_def)
  consider (none) "ipv4_addr d = 0 \<or> ipv4_set ?c \<and> ipv4_addr d = cl_v4_addr ?c"
    | (first) "ipv4_addr d \<noteq> 0" "\<not> ipv4_set ?c"
    | (change) "ipv4_addr d \<noteq> 0" "ipv4_set ?c" "ipv4_addr d \<noteq> cl_v4_addr ?c" by blast
  then show ?thesis
  proof cases
    case none
    then have "spec_addr d (abs_client ?c) = abs_client ?c" using v4 ci(3) by (auto simp: spec_addr_def abs_client_def)
    with none show ?thesis using addr_done_same [OF wf i] by (auto simp: ha)
  next
    case first
    let ?n = "?c\<lparr>cl_v4_addr := ipv4_addr d, ipv4_set := True\<rparr>"
    have "addr_done E R txs d s IPACM_SUCCESS (put_client i ?n s)"
    proof (intro addr_done_put addr_put [OF wf i])
      show "st_client txs ?n" using ci(4) by (simp add: st_client_def wf_client_def)
      show "spec_addr d (abs_client ?c) = abs_client ?n" using first v4 ci(3) by (simp add: spec_addr_def abs_client_def)
      show "rd_ok R (cl_kernel s) \<Longrightarrow> route_rule_set_v4 ?c \<longrightarrow> ipv4_set ?c \<Longrightarrow>
        eff R (cl_kernel s) (cl_kernel s) (mset (client_entries E txs ?c)) (mset (client_entries E txs ?n)) {#} {#}
        \<and> (route_rule_set_v4 ?n \<longrightarrow> ipv4_set ?n)"
        using first(2) by (simp add: client_entries_def eff_same)
    qed (use ci(3) v4 in \<open>auto simp: client_hdrs_def eth_hb_def synced_def\<close>)
    then show ?thesis using first by (simp add: ha)
  next
    case change
    obtain b k1 where d1: "delete_rtrules E IPA_IP_v4 ?c (cl_kernel s) =
        Some (if b then IPACM_SUCCESS else IPACM_FAILURE, if b then no_routes IPA_IP_v4 ?c else ?c, k1)"
      using delete_rtrules_defined [OF _ tx_view_env [OF env], of ?c IPA_IP_v4 "cl_kernel s"] ci(4)
      unfolding st_client_def by blast
    let ?n = "(no_routes IPA_IP_v4 ?c)\<lparr>cl_v4_addr := ipv4_addr d\<rparr>"
    let ?s = "(log_call (Ct_del (cl_v4_addr ?c)) s)\<lparr>cl_kernel := k1\<rparr>"
    note e0 = delete_rtrules_effect [OF R tx_view_env [OF env] d1]
    then have "rd_ok R k1 \<Longrightarrow> b" by (cases b) (simp_all add: IPACM_SUCCESS_def IPACM_FAILURE_def)
    with e0 have e: "rd_ok R k1 \<Longrightarrow> eff R (cl_kernel s) k1 (mset (client_entries E txs ?c))
        (mset (client_entries E txs (no_routes IPA_IP_v4 ?c))) {#} {#}" by simp
    have "addr_done E R txs d s IPACM_SUCCESS (put_client i ?n ?s)"
    proof (intro addr_done_put addr_put [OF wf i])
      show "st_client txs ?n" using ci(4) by (auto simp: st_client_def wf_client_def no_routes_def)
      show "spec_addr d (abs_client ?c) = abs_client ?n"
        using change v4 ci(3) by (simp add: spec_addr_def abs_client_def no_routes_def)
      show "rd_ok R (cl_kernel ?s) \<Longrightarrow> rd_ok R (cl_kernel s)" using e eff_ok by auto
      have "client_entries E txs ?n = client_entries E txs (no_routes IPA_IP_v4 ?c)"
        by (simp add: client_entries_def no_routes_def)
      then show "rd_ok R (cl_kernel ?s) \<Longrightarrow> route_rule_set_v4 ?c \<longrightarrow> ipv4_set ?c \<Longrightarrow>
        eff R (cl_kernel s) (cl_kernel ?s) (mset (client_entries E txs ?c)) (mset (client_entries E txs ?n)) {#} {#}
        \<and> (route_rule_set_v4 ?n \<longrightarrow> ipv4_set ?n)"
        using e by (simp add: no_routes_def)
    qed (use ci(3) v4 in \<open>auto simp: client_hdrs_def eth_hb_def synced_def no_routes_def\<close>)
    then show ?thesis using change d1 by (auto simp: ha no_routes_def)
  qed
qed

lemma ipaddr_v6_step:
  assumes wf: "eth_wf txs s" and v6: "iptype d \<noteq> IPA_IP_v4" "iptype d = IPA_IP_v6" and i: "client_index (mac_addr d) s = Some i"
  shows "\<exists>r s'. handle_client_ipaddr E d s = Some (r, s') \<and> addr_done E R txs d s r s'"
proof -
  note ci = client_indexD [OF i wf]
  let ?c = "cl_tab s ! i"
  let ?n = "?c\<lparr>cl_v6_addr := (cl_v6_addr ?c)[ipv6_set ?c := ipv6_addr d], ipv6_set := ipv6_set ?c + 1\<rparr>"
  have wc: "wf_client (length txs) ?c" using ci(4) by (simp add: st_client_def)
  have len: "length (take (ipv6_set ?c) (cl_v6_addr ?c)) = ipv6_set ?c" using wc by (simp add: wf_client_def)
  have ha: "handle_client_ipaddr E d s = (if \<forall>w \<in> set (ipv6_addr d). w = 0 then Some (IPACM_SUCCESS, s)
      else if ipv6_set ?c < IPV6_NUM_ADDR \<and> ipv6_addr d \<notin> set (take (ipv6_set ?c) (cl_v6_addr ?c))
      then Some (IPACM_SUCCESS, put_client i ?n s) else Some (IPACM_FAILURE, s))"
    by (simp add: handle_client_ipaddr_def i v6 Let_def)
  show ?thesis
  proof (cases "(\<forall>w \<in> set (ipv6_addr d). w = 0)
      \<or> \<not> (ipv6_set ?c < IPV6_NUM_ADDR \<and> ipv6_addr d \<notin> set (take (ipv6_set ?c) (cl_v6_addr ?c)))")
    case True
    then have "spec_addr d (abs_client ?c) = abs_client ?c"
      using v6 ci(3) len by (auto simp: spec_addr_def abs_client_def)
    with True show ?thesis using addr_done_same [OF wf i] by (auto simp: ha)
  next
    case False
    have "addr_done E R txs d s IPACM_SUCCESS (put_client i ?n s)"
    proof (intro addr_done_put addr_put [OF wf i])
      show "st_client txs ?n" using ci(4) False by (simp add: st_client_def wf_client_def)
      show "spec_addr d (abs_client ?c) = abs_client ?n"
        using False v6 ci(3) len wc by (simp add: spec_addr_def abs_client_def wf_client_def take_Suc_conv_app_nth)
      have "client_entries E txs ?n = client_entries E txs ?c"
        using wc by (simp add: client_entries_def v6_entries_update wf_client_def)
      then show "rd_ok R (cl_kernel s) \<Longrightarrow> route_rule_set_v4 ?c \<longrightarrow> ipv4_set ?c \<Longrightarrow>
        eff R (cl_kernel s) (cl_kernel s) (mset (client_entries E txs ?c)) (mset (client_entries E txs ?n)) {#} {#}
        \<and> (route_rule_set_v4 ?n \<longrightarrow> ipv4_set ?n)"
        by (simp add: eff_same)
    qed (use ci(3) v6 in \<open>auto simp: client_hdrs_def eth_hb_def synced_def\<close>)
    then show ?thesis using False by (auto simp: ha)
  qed
qed

lemma ipaddr_step:
  assumes "eth_env E txs" "reads_driver E R" "eth_wf txs s" "iptype d \<noteq> IPA_IP_MAX"
  shows "\<exists>r s'. handle_client_ipaddr E d s = Some (r, s') \<and> addr_done E R txs d s r s'"
proof (cases "client_index (mac_addr d) s")
  case None
  then have "handle_client_ipaddr E d s = Some (IPACM_FAILURE, s)" by (simp add: handle_client_ipaddr_def)
  moreover have "addr_done E R txs d s IPACM_FAILURE s"
    using assms(3) does_same [of s s "map (spec_addr d)"] map_spec_addr_None [OF None]
    by (auto simp: addr_done_def all_synced_def synced_but_def)
  ultimately show ?thesis by blast
next
  case (Some i)
  show ?thesis
  proof (cases "iptype d")
    case IPA_IP_v4
    show ?thesis by (rule ipaddr_v4_step [OF assms(1-3) IPA_IP_v4 Some])
  next
    case IPA_IP_v6
    show ?thesis by (rule ipaddr_v6_step [OF assms(3) _ IPA_IP_v6 Some]) (simp add: IPA_IP_v6)
  qed (use assms(4) in simp)
qed

section \<open>Routing rules\<close>

lemma add_rtrules_abs:
  assumes "tx_view (ce_iface E) = Some txs" "add_rtrules E ip hdr4 c k = Some (b, c', k')"
  shows "abs_client c' = abs_client c \<and> client_hdrs (eth_hb E R txs) c' = client_hdrs (eth_hb E R txs) c
    \<and> cl_mac c' = cl_mac c \<and> ipv4_header_set c' = ipv4_header_set c \<and> ipv6_header_set c' = ipv6_header_set c
    \<and> (needs_routes ip c \<and> route_rule_set_v4 c' \<longrightarrow> route_rule_set_v4 c \<or> ipv4_set c')
    \<and> (\<forall>ip' \<in> {IPA_IP_v4, IPA_IP_v6}. ip \<in> {IPA_IP_v4, IPA_IP_v6} \<and> needs_routes ip c \<and> (ip' \<noteq> ip \<longrightarrow> synced ip' c) \<and> b
        \<longrightarrow> synced ip' c')"
  using assms
  by (cases rule: add_rtrules_cases)
    (auto simp: abs_client_def client_hdrs_def eth_hb_def synced_def needs_routes_def)

lemma update_other:
  assumes "distinct (map g xs)" "i < length xs" "c \<in> set (xs[i := c'])"
  shows "c = c' \<or> (c \<in> set xs \<and> g c \<noteq> g (xs ! i))"
proof -
  obtain j where j: "j < length xs" "c = xs[i := c'] ! j" using assms(3) by (auto simp: in_set_conv_nth)
  show ?thesis
  proof (cases "j = i")
    case False
    then have "c = xs ! j" using j by simp
    moreover from this have "g c \<noteq> g (xs ! i)"
      using nth_eq_iff_index_eq [OF assms(1), of j i] j(1) assms(2) False by simp
    ultimately show ?thesis using j(1) by simp
  qed (use j in simp)
qed

lemma synced_but_put:
  assumes wf: "eth_wf txs s" and i: "client_index mac s = Some i" and s': "live s' = (live s)[i := c']"
    and sb: "synced_but ip mac s" and c': "synced IPA_IP_v4 c'" "synced IPA_IP_v6 c'"
  shows "all_synced s'"
  unfolding all_synced_def
proof (intro ballI)
  note ci = client_indexD [OF i wf]
  fix c assume "c \<in> set (live s')"
  moreover have "i < length (live s)" using ci(1) eth_wf_length [OF wf] by (simp add: live_length)
  ultimately have "c = c' \<or> (c \<in> set (live s) \<and> cl_mac c \<noteq> mac)"
    using update_other [of cl_mac "live s" i c c'] wf ci(3) live_nth [OF ci(1)] unfolding s' eth_wf_def by simp
  then show "synced IPA_IP_v4 c \<and> synced IPA_IP_v6 c" using sb c' by (auto simp: synced_but_def)
qed

lemma synced_but_done:
  assumes wf: "eth_wf txs s" and i: "client_index mac s = Some i" and ip: "ip \<noteq> IPA_IP_MAX"
    and sb: "synced_but ip mac s" and hs: "\<forall>c \<in> set (live s). route_rule_set_v4 c \<longrightarrow> ipv4_set c"
    and no: "\<not> needs_routes ip (cl_tab s ! i)"
  shows "all_synced s"
proof -
  note ci = client_indexD [OF i wf]
  let ?c = "cl_tab s ! i"
  have il: "i < length (live s)" using ci(1) eth_wf_length [OF wf] by (simp add: live_length)
  then have c: "?c \<in> set (live s)" using live_nth [OF ci(1)] nth_mem by metis
  moreover have "route_rule_set_v6 ?c \<le> ipv6_set ?c" using ci(4) by (simp add: st_client_def wf_client_def)
  ultimately have "synced ip ?c" using no hs ip by (cases ip) (auto simp: needs_routes_def synced_def)
  then have "synced IPA_IP_v4 ?c \<and> synced IPA_IP_v6 ?c"
    using sb c ip by (cases ip) (auto simp: synced_but_def)
  moreover have "live s = (live s)[i := ?c]" using live_nth [OF ci(1)] by (metis list_update_id)
  ultimately show ?thesis using synced_but_put [OF wf i _ sb] by blast
qed

lemma add_rtrules_step:
  assumes env: "eth_env E txs" and R: "reads_driver E R" and wf: "eth_wf txs s" and i: "client_index mac s = Some i"
    and need: "needs_routes ip (cl_tab s ! i)" and k1: "rd_ok R k1 \<Longrightarrow> eff R (cl_kernel s) k1 {#} {#} {#} {#}"
    and a: "add_rtrules E ip (hdr_hdl_v4 (cl_tab s ! i)) (cl_tab s ! i) k1 = Some (b, c', k2)"
    and s': "live s' = (live s)[i := c']" "cl_kernel s' = k2" and ip: "ip \<noteq> IPA_IP_MAX"
  shows "does E R txs id s s' \<and> (synced_but ip mac s \<and> rd_ok R (cl_kernel s') \<longrightarrow> all_synced s')"
proof -
  note ci = client_indexD [OF i wf]
  let ?c = "cl_tab s ! i"
  note ab = add_rtrules_abs [OF tx_view_env [OF env] a, of R]
  have il: "i < length (live s)" using ci(1) eth_wf_length [OF wf] by (simp add: live_length)
  have e: "b \<and> eff R (cl_kernel s) k2 (mset (client_entries E txs ?c)) (mset (client_entries E txs c')) {#} {#}" if "rd_ok R k2"
  proof -
    note e2 = add_rtrules_effect [OF R tx_view_env [OF env] a that need]
    have "eff R (cl_kernel s) k1 {#} {#} {#} {#}" using k1 [OF eff_ok [OF conjunct2 [OF e2]]] .
    from eff_trans [OF this conjunct2 [OF e2]] e2 show ?thesis by simp
  qed
  have "does E R txs id s s'"
  proof (rule does_put [OF wf ci(1) s'(1)])
    show "rd_ok R (cl_kernel s') \<Longrightarrow> rd_ok R (cl_kernel s)" using e eff_ok s'(2) by auto
    have "absv s ! i = abs_client ?c" using ci(1) il by (simp add: absv_def live_nth)
    then have "id (absv s) = (absv s)[i := abs_client c']" using ab by (metis id_apply list_update_id)
    then show "rd_ok R (cl_kernel s') \<Longrightarrow> route_rule_set_v4 ?c \<longrightarrow> ipv4_set ?c \<Longrightarrow>
      eff R (cl_kernel s) (cl_kernel s') (mset (client_entries E txs ?c)) (mset (client_entries E txs c'))
        (mset (client_hdrs (eth_hb E R txs) ?c)) (mset (client_hdrs (eth_hb E R txs) c'))
      \<and> (route_rule_set_v4 c' \<longrightarrow> ipv4_set c') \<and> id (absv s) = (absv s)[i := abs_client c']"
      using e ab need s'(2) by (auto simp: eff_keep_hdrs abs_client_def split: if_splits)
  qed
  moreover have "all_synced s'" if sb: "synced_but ip mac s" and ok: "rd_ok R (cl_kernel s')"
  proof (rule synced_but_put [OF wf i s'(1) sb])
    have "?c \<in> set (live s)" using il live_nth [OF ci(1)] nth_mem by metis
    then have "\<forall>ip' \<in> {IPA_IP_v4, IPA_IP_v6}. ip' \<noteq> ip \<longrightarrow> synced ip' ?c" using sb by (auto simp: synced_but_def)
    then show "synced IPA_IP_v4 c'" "synced IPA_IP_v6 c'"
      using ab need e ok s'(2) ip by (cases ip; simp)+
  qed
  ultimately show ?thesis by blast
qed

lemma route_rule_step:
  assumes env: "eth_env E txs" and R: "reads_driver E R" and wf: "eth_wf txs s" and ip: "ip \<noteq> IPA_IP_MAX"
  shows "\<exists>r s'. handle_eth_client_route_rule E mac ip s = Some (r, s') \<and> eth_wf txs s' \<and> does E R txs id s s'
    \<and> (synced_but ip mac s \<and> (\<forall>c \<in> set (live s). route_rule_set_v4 c \<longrightarrow> ipv4_set c) \<and> rd_ok R (cl_kernel s') \<longrightarrow> all_synced s')"
proof (cases "client_index mac s")
  case None
  then have "handle_eth_client_route_rule E mac ip s = Some (IPACM_SUCCESS, s)"
    using env by (simp add: handle_eth_client_route_rule_def eth_env_def)
  moreover have "synced_but ip mac s \<Longrightarrow> all_synced s"
    using None unfolding client_index_None synced_but_def all_synced_def by auto
  ultimately show ?thesis using wf does_same [of s s id] by auto
next
  case (Some i)
  note ci = client_indexD [OF Some wf]
  let ?c = "cl_tab s ! i"
  obtain t ts where txs: "txs = t # ts" using env by (cases txs) (auto simp: eth_env_def)
  have v4h: "v4_header E s ?c = hdr_hdl_v4 ?c" using env by (simp add: v4_header_def eth_env_def)
  let ?s1 = "log_call (Rm_add (ipa_client_rm_map_tbl E (dst_pipe t))) s"
  show ?thesis
  proof (cases "needs_routes ip ?c")
    case False
    then have "handle_eth_client_route_rule E mac ip s = Some (IPACM_SUCCESS, s)"
      using env Some by (simp add: handle_eth_client_route_rule_def eth_env_def Let_def)
    then show ?thesis using wf does_same [of s s id] synced_but_done [OF wf Some ip _ _ False] by auto
  next
    case True
    obtain m k1 where m: "malloc (ce_K E) (cl_kernel s) = (m, k1)" by force
    note em = driver_malloc [OF R m]
    show ?thesis
    proof (cases m)
      case False
      then have "handle_eth_client_route_rule E mac ip s = Some (IPACM_FAILURE, ?s1\<lparr>cl_kernel := k1\<rparr>)"
        using env Some txs True m by (simp add: handle_eth_client_route_rule_def eth_env_def Let_def)
      moreover have "\<not> rd_ok R k1" using em False by blast
      ultimately show ?thesis using wf does_fails [of R "?s1\<lparr>cl_kernel := k1\<rparr>"] by simp
    next
      case mT: True
      obtain b c' k2 where a: "add_rtrules E ip (hdr_hdl_v4 ?c) ?c k1 = Some (b, c', k2)"
        using add_rtrules_defined [OF _ tx_view_env [OF env]] ci(4) unfolding st_client_def by blast
      let ?s' = "put_client i c' (?s1\<lparr>cl_kernel := k2\<rparr>)"
      have res: "handle_eth_client_route_rule E mac ip s = Some (if b then IPACM_SUCCESS else IPACM_FAILURE, ?s')"
        using env Some txs True m mT a v4h by (simp add: handle_eth_client_route_rule_def eth_env_def Let_def)
      note ab = add_rtrules_abs [OF tx_view_env [OF env] a, of R]
      have "st_client txs c'" using ci(4) ab add_rtrules_wf [OF _ tx_view_env [OF env] a]
        by (simp add: st_client_def)
      then have "eth_wf txs ?s'" using wf ab ci(3) by (intro eth_wf_put) simp_all
      moreover have "live ?s' = (live s)[i := c']" "cl_kernel ?s' = k2" using ci(1) by (simp_all add: live_put)
      ultimately show ?thesis
        using res add_rtrules_step [OF env R wf Some True _ a _ _ ip] em by auto
    qed
  qed
qed

section \<open>A new client\<close>

lemma touch_mac_id: "touch_mac id = id"
  by (rule ext) (simp add: touch_mac_def)

lemma new_header_cases:
  "new_header E ip name fill id txs c k = Some (b, c', k') \<Longrightarrow> c' = c \<or> (has_family ip txs \<and> (\<exists>h. c' = set_header ip h c))"
  by (auto simp: new_header_def has_family_def split: option.splits prod.splits)

lemma new_header_defined:
  assumes "hdr_place E" "length mac = 6"
  shows "\<exists>b c' k'. new_header E ip name (eth_fill mac) id txs c k = Some (b, c', k')"
proof (cases "find (\<lambda>t. tx_ip t = ip) txs")
  case (Some t)
  obtain res k1 where c: "copy_partial E t k = (res, k1)" by force
  show ?thesis
  proof (cases res)
    case None
    then show ?thesis using Some c by (auto simp: new_header_def)
  next
    case hb: (Some x)
    obtain h buf where x: "x = (h, buf)" by force
    then have "\<exists>bytes. eth_fill mac h buf = Some bytes"
      using copy_partial_place [of E t k h buf k1] assms c hb by (simp add: eth_fill_def put_bytes_def)
    then obtain bytes where "eth_fill mac h buf = Some bytes" by blast
    then show ?thesis using Some c hb x by (auto simp: new_header_def split: prod.splits option.splits)
  qed
qed (auto simp: new_header_def)

lemma st_set_header: "\<lbrakk>st_client txs c; has_family ip txs; ip \<in> {IPA_IP_v4, IPA_IP_v6}\<rbrakk> \<Longrightarrow> st_client txs (set_header ip h c)"
  by (auto simp: st_client_def set_header_def wf_client_def)

lemma mac_set_header [simp]: "cl_mac (set_header ip h c) = cl_mac c"
  by (simp add: set_header_def)

lemma new_headers_st:
  assumes "hdr_place E" "length mac = 6" "st_client txs c"
  shows "\<exists>b c' k'. new_headers E name4 name6 (eth_fill mac) id txs c k = Some (b, c', k')
    \<and> st_client txs c' \<and> cl_mac c' = cl_mac c"
proof -
  obtain b1 c1 k1 where n1: "new_header E IPA_IP_v4 name4 (eth_fill mac) id txs c k = Some (b1, c1, k1)"
    using new_header_defined [OF assms(1,2)] by blast
  have c1: "st_client txs c1 \<and> cl_mac c1 = cl_mac c"
    using new_header_cases [OF n1] st_set_header [OF assms(3)] assms(3) by auto
  obtain b2 c2 k2 where n2: "new_header E IPA_IP_v6 name6 (eth_fill mac) id txs c1 k1 = Some (b2, c2, k2)"
    using new_header_defined [OF assms(1,2)] by blast
  have "st_client txs c2 \<and> cl_mac c2 = cl_mac c"
    using new_header_cases [OF n2] st_set_header [of txs c1] c1 by auto
  then show ?thesis using n1 n2 c1 by (cases b1) (auto simp: new_headers_def)
qed

lemma account_append:
  assumes "account E txs R hb R0 H0 s" "live s' = live s @ [c]" "client_entries E txs c = []"
    and "eff R (cl_kernel s) (cl_kernel s') {#} {#} {#} (mset (client_hdrs hb c))"
  shows "account E txs R hb R0 H0 s'"
  using assms eff_rts [OF assms(4), of "rd_rts R (cl_kernel s)"] eff_hdrs [OF assms(4), of "rd_hdrs R (cl_kernel s)"]
  by (simp add: account_def)

lemma with_header_hdrs:
  assumes "st_client txs c" "c' = with_header txs IPA_IP_v6 h6 (with_header txs IPA_IP_v4 h4 c)" "cl_mac c = mac"
  shows "client_hdrs (eth_hb E R txs) (fresh_client c') =
    (if has_family IPA_IP_v4 txs then [(h4, full_bytes E R (eth_fill mac) txs IPA_IP_v4)] else [])
    @ (if has_family IPA_IP_v6 txs then [(h6, full_bytes E R (eth_fill mac) txs IPA_IP_v6)] else [])"
  using assms by (auto simp: client_hdrs_def with_header_def set_header_def fresh_client_def eth_hb_def st_client_def)

lemma header_name_length: "length (header_name f base n) = length base + 2"
  by (simp add: header_name_def index_str_def)

lemma attach_step:
  assumes N: "eth_names E R txs" and wf: "eth_wf txs s" and new: "client_index mac s = None"
    and n: "new_headers E (header_name f ''IPACM_ETH_v4'' j) (header_name f ''IPACM_ETH_v6'' j) (eth_fill mac) id txs
        ((cl_tab s ! cl_num s)\<lparr>cl_mac := mac\<rparr>) k1 = Some (b, c1, k2)"
    and k1: "rd_ok R k1 \<Longrightarrow> eff R (cl_kernel s) k1 {#} {#} {#} {#}" and room: "cl_num s < IPA_MAX_NUM_ETH_CLIENTS"
  shows "rd_ok R k2 \<Longrightarrow> b \<and> eff R (cl_kernel s) k2 {#} {#} {#} (mset (client_hdrs (eth_hb E R txs) (fresh_client c1)))"
proof -
  let ?c = "(cl_tab s ! cl_num s)\<lparr>cl_mac := mac\<rparr>"
  assume ok: "rd_ok R k2"
  have R: "reads_driver E R" and fit: "hdrs_fit E R txs" using N by (simp_all add: eth_names_def)
  have st: "st_client txs ?c" using eth_wf_nth [OF wf, of "cl_num s"] room wf
    by (simp add: eth_wf_def st_client_def wf_client_def)
  have nm: "length (header_name f base j) \<le> IPA_RESOURCE_NAME_MAX (ce_K E)" if "length base = 12" for base
    using N that by (simp add: header_name_length eth_names_def)
  have n4: "length (header_name f ''IPACM_ETH_v4'' j) \<le> IPA_RESOURCE_NAME_MAX (ce_K E)"
    "length (header_name f ''IPACM_ETH_v6'' j) \<le> IPA_RESOURCE_NAME_MAX (ce_K E)" by (rule nm; simp)+
  from new_headers_effect [OF R n [folded touch_mac_id] ok fit n4] obtain h4 h6 where
    b: b and c1: "c1 = with_header txs IPA_IP_v6 h6 (with_header txs IPA_IP_v4 h4
        (if has_family IPA_IP_v4 txs \<or> has_family IPA_IP_v6 txs then touch_mac id ?c else ?c))"
    and e: "eff R k1 k2 {#} {#} {#}
        (mset ((if has_family IPA_IP_v4 txs then [(h4, full_bytes E R (eth_fill mac) txs IPA_IP_v4)] else [])
             @ (if has_family IPA_IP_v6 txs then [(h6, full_bytes E R (eth_fill mac) txs IPA_IP_v6)] else [])))"
    by auto
  have "c1 = with_header txs IPA_IP_v6 h6 (with_header txs IPA_IP_v4 h4 ?c)" using c1 by (simp add: touch_mac_id)
  from with_header_hdrs [OF st this, of mac E R] eff_trans [OF k1 [OF eff_ok [OF e]] e] b
  show "b \<and> eff R (cl_kernel s) k2 {#} {#} {#} (mset (client_hdrs (eth_hb E R txs) (fresh_client c1)))" by simp
qed

lemma does_attach:
  assumes new: "client_index mac s = None" and room: "cl_num s < IPA_MAX_NUM_ETH_CLIENTS" and wf: "eth_wf txs s"
    and e: "rd_ok R (cl_kernel s') \<Longrightarrow>
      eff R (cl_kernel s) (cl_kernel s') {#} {#} {#} (mset (client_hdrs (eth_hb E R txs) (fresh_client c1)))"
    and s': "live s' = live s @ [fresh_client c1]" and mac: "cl_mac c1 = mac"
  shows "does E R txs (spec_attach mac) s s'"
  unfolding does_def
proof (intro impI conjI allI)
  assume ok: "rd_ok R (cl_kernel s')"
  show "rd_ok R (cl_kernel s)" by (rule eff_ok [OF e [OF ok]])
  fix R0 H0 assume inv: "eth_inv E R txs R0 H0 s"
  have "client_entries E txs (fresh_client c1) = []" by (simp add: client_entries_def fresh_client_def)
  from account_append [OF _ s' this e [OF ok]] inv s'
  show "eth_inv E R txs R0 H0 s'" by (auto simp: eth_inv_def fresh_client_def)
  have "mac \<notin> fst ` set (absv s)" using new by (simp add: client_index_None absv_macs)
  moreover have "length (absv s) = cl_num s" using eth_wf_length [OF wf] by (simp add: absv_def live_length)
  ultimately show "absv s' = spec_attach mac (absv s)"
    using room s' mac by (simp add: absv_def spec_attach_def abs_client_def fresh_client_def)
qed

lemma hdr_init_step:
  assumes env: "eth_env E txs" and N: "eth_names E R txs" and wf: "eth_wf txs s" and mac: "length mac = 6"
  shows "\<exists>r s'. handle_eth_hdr_init E mac s = Some (r, s') \<and> eth_wf txs s' \<and> does E R txs (spec_attach mac) s s'
    \<and> (rd_ok R (cl_kernel s') \<and> all_synced s \<longrightarrow> all_synced s')"
proof (cases "client_index mac s \<noteq> None \<or> cl_num s \<ge> IPA_MAX_NUM_ETH_CLIENTS")
  case True
  then have "handle_eth_hdr_init E mac s = Some (IPACM_FAILURE, s)" by (simp add: handle_eth_hdr_init_def)
  moreover have "spec_attach mac (absv s) = absv s"
    using True client_index_None [of mac s] absv_macs [of s] eth_wf_length [OF wf]
    by (auto simp: spec_attach_def absv_def live_length)
  ultimately show ?thesis using wf does_same [of s s] by blast
next
  case False
  then have new: "client_index mac s = None" and room: "cl_num s < IPA_MAX_NUM_ETH_CLIENTS" by simp_all
  have R: "reads_driver E R" using N by (simp add: eth_names_def)
  let ?n = "cl_num s" and ?f = "ce_iface E"
  let ?c = "(cl_tab s ! ?n)\<lparr>cl_mac := mac\<rparr>"
  have st: "st_client txs ?c" using eth_wf_nth [OF wf, of ?n] room wf
    by (simp add: eth_wf_def st_client_def wf_client_def)
  obtain m k1 where m: "malloc (ce_K E) (cl_kernel s) = (m, k1)" by force
  note em = driver_malloc [OF R m]
  obtain b c1 k2 where n: "new_headers E (header_name ?f ''IPACM_ETH_v4'' (header_name_count s))
      (header_name ?f ''IPACM_ETH_v6'' (header_name_count s)) (eth_fill mac) id txs ?c k1 = Some (b, c1, k2)"
    and c1: "st_client txs c1" "cl_mac c1 = mac"
    using new_headers_st [OF _ mac st, of E] env unfolding eth_env_def by fastforce
  note e = attach_step [OF N wf new n _ room]
  have out: "eth_wf txs (put_client ?n c (s\<lparr>cl_kernel := k\<rparr>))" if "st_client txs c" for c k
    using wf that by (intro eth_wf_put) simp_all
  let ?s' = "put_client ?n (fresh_client c1) (s\<lparr>cl_kernel := k2, cl_num := ?n + 1, header_name_count := header_name_count s + 1\<rparr>)"
  have res: "handle_eth_hdr_init E mac s = (if \<not> m then Some (IPACM_FAILURE, put_client ?n ?c (s\<lparr>cl_kernel := k1\<rparr>))
      else if \<not> b then Some (IPACM_FAILURE, put_client ?n c1 (s\<lparr>cl_kernel := k2\<rparr>)) else Some (IPACM_SUCCESS, ?s'))"
    using env new room m n by (simp add: handle_eth_hdr_init_def eth_env_def Let_def)
  consider "\<not> m" | "m" "\<not> b" | "m" "b" by blast
  then show ?thesis
  proof cases
    case 1
    then have "\<not> rd_ok R k1" using em by blast
    then show ?thesis using 1 res out [OF st, of k1] by (auto intro: does_fails)
  next
    case 2
    then have "\<not> rd_ok R k2" using e em by blast
    then show ?thesis using 2 res out [OF c1(1), of k2] by (auto intro: does_fails)
  next
    case 3
    have l: "live ?s' = live s @ [fresh_client c1]"
      using room wf by (simp add: live_def put_client_def eth_wf_def take_Suc_conv_app_nth)
    have "mac \<notin> cl_mac ` set (live s)" using new by (simp add: client_index_None)
    then have "eth_wf txs ?s'"
      using wf room c1 l set_update_subset_insert [of "cl_tab s" ?n "fresh_client c1"]
      by (auto simp: eth_wf_def put_client_def)
    moreover have "does E R txs (spec_attach mac) s ?s'"
      by (rule does_attach [OF new room wf _ l c1(2)]) (use e em in simp)
    moreover have "all_synced s \<Longrightarrow> all_synced ?s'"
      using l by (auto simp: all_synced_def synced_def fresh_client_def)
    ultimately show ?thesis using 3 res by auto
  qed
qed

section \<open>Removal\<close>

lemma distinct_without:
  assumes "distinct xs" shows "distinct (take i xs @ drop (Suc i) xs)"
proof (cases "i < length xs")
  case True
  then have "distinct (take i xs @ xs ! i # drop (Suc i) xs)" using assms id_take_nth_drop by metis
  then show ?thesis by auto
qed (use assms in simp)

lemma filter_key_take_drop:
  assumes "distinct (map g xs)" "i < length xs" "g (xs ! i) = m"
  shows "filter (\<lambda>c. g c \<noteq> m) xs = take i xs @ drop (Suc i) xs"
proof -
  have xs: "xs = take i xs @ xs ! i # drop (Suc i) xs" by (rule id_take_nth_drop [OF assms(2)])
  with assms(1) have "distinct (map g (take i xs @ xs ! i # drop (Suc i) xs))" by simp
  then have "\<forall>c \<in> set (take i xs). g c \<noteq> m" "\<forall>c \<in> set (drop (Suc i) xs). g c \<noteq> m"
    using assms(3) by (auto simp: image_iff)
  then have "filter (\<lambda>c. g c \<noteq> m) (take i xs @ xs ! i # drop (Suc i) xs) = take i xs @ drop (Suc i) xs"
    using assms(3) by simp
  then show ?thesis using xs by metis
qed

lemma eth_shift_env: "eth_env E txs \<Longrightarrow> eth_shift E = shift_client (length txs)"
  by (auto simp: eth_env_def eth_shift_def split: option.splits prod.splits)

text \<open>What a move keeps of the entry that it moves.\<close>

lemma shift_keeps:
  assumes "st_client txs c" "st_client txs d"
  shows "client_entries E txs (shift_client (length txs) c d) = client_entries E txs c"
    "client_hdrs (eth_hb E R txs) (shift_client (length txs) c d) = client_hdrs (eth_hb E R txs) c"
    "abs_client (shift_client (length txs) c d) = abs_client c"
    "synced ip (shift_client (length txs) c d) = synced ip c"
    "(route_rule_set_v4 (shift_client (length txs) c d) \<longrightarrow> ipv4_set (shift_client (length txs) c d))
       = (route_rule_set_v4 c \<longrightarrow> ipv4_set c)"
proof -
  show "client_entries E txs (shift_client (length txs) c d) = client_entries E txs c"
    using assms by (simp add: st_client_def shift_client_entries)
  show "abs_client (shift_client (length txs) c d) = abs_client c"
    using assms by (simp add: st_client_def wf_client_def abs_client_def shift_client_def copy_prefix_def)
qed (simp_all add: client_hdrs_def eth_hb_def shift_client_def synced_def)

lemma eth_wf_live_st: "\<lbrakk>eth_wf txs s; c \<in> set (live s)\<rbrakk> \<Longrightarrow> st_client txs c"
  by (auto simp: eth_wf_def live_def dest: in_set_takeD)

lemma remove_live_map:
  assumes "eth_wf txs s" "i < cl_num s" "\<And>c d. st_client txs c \<Longrightarrow> st_client txs d \<Longrightarrow> f (shift_client (length txs) c d) = f c"
  shows "map f (live (remove_entry (shift_client (length txs)) i s)) = map f (take i (live s)) @ map f (drop (Suc i) (live s))"
  using assms eth_wf_live_st [OF assms(1)] by (intro remove_entry_map eth_wf_length) auto

lemma remove_wf:
  assumes wf: "eth_wf txs s" and i: "i < cl_num s"
  shows "eth_wf txs (remove_entry (shift_client (length txs)) i s)"
proof -
  let ?s = "remove_entry (shift_client (length txs)) i s"
  have "\<forall>c \<in> set (cl_tab ?s). st_client txs c"
    using wf by (auto simp: eth_wf_def dest!: remove_entry_set intro: st_shift)
  moreover have "map cl_mac (live ?s) = map cl_mac (take i (live s)) @ map cl_mac (drop (Suc i) (live s))"
    by (rule remove_live_map [OF wf i]) simp
  then have "distinct (map cl_mac (live ?s))"
    using wf distinct_without [of "map cl_mac (live s)" i] by (simp add: eth_wf_def take_map drop_map)
  moreover have "length (cl_tab ?s) = IPA_MAX_NUM_ETH_CLIENTS" "cl_num ?s \<le> IPA_MAX_NUM_ETH_CLIENTS"
    using wf i eth_wf_length [OF wf] by (auto simp: remove_entry_def eth_wf_def live_length)
  ultimately show ?thesis by (simp add: eth_wf_def)
qed

lemma remove_live_all:
  assumes "eth_wf txs s" "client_index mac s = Some i"
    and P: "\<And>c d. st_client txs c \<Longrightarrow> st_client txs d \<Longrightarrow> P (shift_client (length txs) c d) = P c"
  shows "(\<forall>c \<in> set (live (remove_entry (shift_client (length txs)) i s)). P c)
    \<longleftrightarrow> (\<forall>c \<in> set (live s). cl_mac c \<noteq> mac \<longrightarrow> P c)"
proof -
  note ci = client_indexD [OF assms(2,1)]
  have il: "i < length (live s)" using ci(1) eth_wf_length [OF assms(1)] by (simp add: live_length)
  have ball: "(\<forall>c \<in> set xs. P c) \<longleftrightarrow> False \<notin> set (map P xs)" for xs by auto
  have d: "distinct (map cl_mac (live s))" using assms(1) by (simp add: eth_wf_def)
  have "(\<forall>c \<in> set (live (remove_entry (shift_client (length txs)) i s)). P c)
      \<longleftrightarrow> (\<forall>c \<in> set (take i (live s) @ drop (Suc i) (live s)). P c)"
    unfolding ball using remove_live_map [OF assms(1) ci(1), of P, OF P] by simp
  also have "\<dots> \<longleftrightarrow> (\<forall>c \<in> set (filter (\<lambda>c. cl_mac c \<noteq> mac) (live s)). P c)"
    using filter_key_take_drop [OF d il] ci(3) live_nth [OF ci(1)] by metis
  finally show ?thesis by auto
qed

lemma does_remove:
  assumes wf: "eth_wf txs s" and i: "client_index mac s = Some i"
    and z: "client_entries E txs (cl_tab s ! i) = []" "client_hdrs (eth_hb E R txs) (cl_tab s ! i) = []"
  shows "does E R txs (filter (\<lambda>c. fst c \<noteq> mac)) s (remove_entry (shift_client (length txs)) i s)"
proof -
  let ?s = "remove_entry (shift_client (length txs)) i s"
  note ci = client_indexD [OF i wf]
  note rm = remove_live_map [OF wf ci(1)]
  have k: "cl_kernel ?s = cl_kernel s" by (simp add: remove_entry_def)
  have il: "i < length (live s)" using ci(1) eth_wf_length [OF wf] by (simp add: live_length)
  have "eth_inv E R txs R0 H0 ?s" if inv: "eth_inv E R txs R0 H0 s" for R0 H0
  proof -
    have "account E txs R (eth_hb E R txs) R0 H0 ?s"
      using inv by (intro account_remove [OF _ ci(1) eth_wf_length [OF wf] z])
        (simp_all add: eth_inv_def shift_keeps eth_wf_live_st [OF wf])
    moreover have "\<forall>c \<in> set (live ?s). route_rule_set_v4 c \<longrightarrow> ipv4_set c"
      using inv remove_live_all [OF wf i, of "\<lambda>c. route_rule_set_v4 c \<longrightarrow> ipv4_set c", OF shift_keeps(5)]
      by (simp add: eth_inv_def)
    ultimately show ?thesis by (simp add: eth_inv_def)
  qed
  moreover have "absv ?s = filter (\<lambda>c. fst c \<noteq> mac) (absv s)"
  proof -
    have d: "distinct (map fst (absv s))" using wf by (simp add: eth_wf_def absv_def comp_def abs_client_def)
    have f: "fst (absv s ! i) = mac" using il ci live_nth [OF ci(1)] by (simp add: absv_def abs_client_def)
    have "absv ?s = take i (absv s) @ drop (Suc i) (absv s)"
      using rm [of abs_client, OF shift_keeps(3)] by (simp add: absv_def take_map drop_map)
    then show ?thesis using filter_key_take_drop [OF d _ f] il by (simp add: absv_def)
  qed
  ultimately show ?thesis using k by (simp add: does_def)
qed

lemma account_hdrs_frame:
  assumes "account E txs R hb R0 H0 s" "i < cl_num s" "cl_num s \<le> length (cl_tab s)"
  shows "\<exists>G. rd_hdrs R (cl_kernel s) = G + mset (client_hdrs hb (cl_tab s ! i))"
proof -
  have l: "i < length (live s)" using assms(2,3) by (simp add: live_length)
  from sum_list_update_split(2) [OF l, of "\<lambda>c. mset (client_hdrs hb c)"] assms(1)
  have "rd_hdrs R (cl_kernel s) = (H0 + (sum_list (map (\<lambda>c. mset (client_hdrs hb c)) (take i (live s)))
      + sum_list (map (\<lambda>c. mset (client_hdrs hb c)) (drop (Suc i) (live s))))) + mset (client_hdrs hb (cl_tab s ! i))"
    by (simp add: account_def live_nth [OF assms(2)] ac_simps)
  then show ?thesis by blast
qed

lemma released_empty: "client_entries E txs (released c) = []" "client_hdrs hb (released c) = []"
  by (simp_all add: released_def fresh_client_def client_entries_def client_hdrs_def)

lemma client_index_cong:
  assumes "map cl_mac (live s') = map cl_mac (live s)" shows "client_index mac s' = client_index mac s"
proof -
  have "find_idx (\<lambda>c. cl_mac c = mac) (live s') = find_idx (\<lambda>c. cl_mac c = mac) (live s)"
    using arg_cong [OF assms, of "find_idx (\<lambda>m. m = mac)"] by (simp add: find_idx_map)
  moreover have "length (live s') = length (live s)" using arg_cong [OF assms, of length] by simp
  ultimately show ?thesis by (simp add: client_index_def Let_def)
qed

lemma filter_update_out:
  assumes "\<not> P x" "\<not> P (xs ! i)" shows "filter P (xs[i := x]) = filter P xs"
proof (cases "i < length xs")
  case True
  have "filter P xs = filter P (take i xs @ xs ! i # drop (Suc i) xs)" using id_take_nth_drop [OF True] by simp
  then show ?thesis using assms True by (simp add: upd_conv_take_nth_drop)
qed (simp add: list_update_beyond)

lemma does_release:
  assumes wf: "eth_wf txs s" and i: "client_index mac s = Some i" and c': "cl_mac c' = mac"
    and s': "live s' = (live s)[i := c']"
    and bk: "rd_ok R (cl_kernel s') \<Longrightarrow> rd_ok R (cl_kernel s)"
    and e: "\<And>R0 H0. \<lbrakk>rd_ok R (cl_kernel s'); eth_inv E R txs R0 H0 s\<rbrakk> \<Longrightarrow> c' = released (cl_tab s ! i)
      \<and> eff R (cl_kernel s) (cl_kernel s') (mset (client_entries E txs (cl_tab s ! i))) {#}
          (mset (client_hdrs (eth_hb E R txs) (cl_tab s ! i))) {#}"
    and ok: "rd_ok R (cl_kernel s')" and inv: "eth_inv E R txs R0 H0 s"
  shows "eth_inv E R txs R0 H0 s' \<and> filter (\<lambda>c. fst c \<noteq> mac) (absv s') = filter (\<lambda>c. fst c \<noteq> mac) (absv s)"
proof -
  note ci = client_indexD [OF i wf]
  note e = e [OF ok inv]
  have il: "i < length (live s)" using ci(1) eth_wf_length [OF wf] by (simp add: live_length)
  have "account E txs R (eth_hb E R txs) R0 H0 s'"
    using inv e by (intro account_put [OF _ ci(1) eth_wf_length [OF wf] _ s' refl]) (simp_all add: eth_inv_def released_empty)
  moreover have "route_rule_set_v4 c \<longrightarrow> ipv4_set c" if "c \<in> set (live s')" for c
    using live_update_set [OF that [unfolded s'] il] inv e by (auto simp: eth_inv_def released_def fresh_client_def)
  moreover have "filter (\<lambda>c. fst c \<noteq> mac) (absv s') = filter (\<lambda>c. fst c \<noteq> mac) (absv s)"
    unfolding absv_def s' map_update
    by (rule filter_update_out) (use c' ci il live_nth [OF ci(1)] in \<open>simp_all add: abs_client_def\<close>)
  ultimately show ?thesis by (simp add: eth_inv_def)
qed

lemma client_down_step:
  assumes env: "eth_env E txs" and R: "reads_driver E R" and wf: "eth_wf txs s" and i: "client_index mac s = Some i"
  shows "\<exists>b s'. client_down E (eth_shift E) i s = Some (b, s') \<and> eth_wf txs s'
    \<and> does E R txs (filter (\<lambda>c. fst c \<noteq> mac)) s s'
    \<and> (\<forall>R0 H0. rd_ok R (cl_kernel s') \<and> eth_inv E R txs R0 H0 s \<and> all_synced s \<longrightarrow> all_synced s')"
proof -
  note ci = client_indexD [OF i wf]
  let ?c = "cl_tab s ! i"
  let ?s1 = "if ipv4_set ?c then log_call (Ct_del (cl_v4_addr ?c)) s else s"
  obtain b c' k' where r: "release_client E ?c (cl_kernel s) = Some (b, c', k')"
    and c': "st_client txs c'" "cl_mac c' = cl_mac ?c"
    and z: "b \<Longrightarrow> client_entries E txs c' = [] \<and> client_hdrs (eth_hb E R txs) c' = []"
    using release_client_st [OF ci(4) tx_view_env [OF env], of "cl_kernel s"]
    by (fastforce simp: client_entries_def client_hdrs_def)
  let ?s2 = "put_client i c' (?s1\<lparr>cl_kernel := k'\<rparr>)"
  let ?s' = "if b then remove_entry (shift_client (length txs)) i ?s2 else ?s2"
  have res: "client_down E (eth_shift E) i s = Some (b, ?s')"
    using r by (simp add: client_down_def Let_def eth_shift_env [OF env])
  have tab: "cl_tab ?s1 = cl_tab s" "cl_num ?s1 = cl_num s" "live ?s1 = live s" "cl_kernel ?s1 = cl_kernel s" by simp_all
  have wf2: "eth_wf txs ?s2" using wf c' tab by (intro eth_wf_put) simp_all
  have l2: "live ?s2 = (live s)[i := c']" using ci(1) tab by (simp add: live_put)
  have il: "i < length (live s)" using ci(1) eth_wf_length [OF wf] by (simp add: live_length)
  have e: "b \<and> c' = released ?c \<and> eff R (cl_kernel s) k' (mset (client_entries E txs ?c)) {#}
      (mset (client_hdrs (eth_hb E R txs) ?c)) {#}" if "rd_ok R k'" "eth_inv E R txs R0 H0 s" for R0 H0
    using that account_hdrs_frame [OF _ ci(1) eth_wf_length [OF wf], of E txs R "eth_hb E R txs" R0 H0]
      release_client_effect [OF R tx_view_env [OF env] eth_hb_flag_free r that(1)] by (auto simp: eth_inv_def)
  have bk: "rd_ok R k' \<Longrightarrow> rd_ok R (cl_kernel s)" by (rule release_client_back [OF R tx_view_env [OF env] r])
  have k2: "cl_kernel ?s2 = k'" by simp
  have rel: "eth_inv E R txs R0 H0 ?s2 \<and> filter (\<lambda>c. fst c \<noteq> mac) (absv ?s2) = filter (\<lambda>c. fst c \<noteq> mac) (absv s)"
    if "rd_ok R k'" "eth_inv E R txs R0 H0 s" for R0 H0
  proof (rule does_release [OF wf i _ l2])
    show "cl_mac c' = mac" using c'(2) ci(3) by simp
    show "rd_ok R (cl_kernel ?s2) \<Longrightarrow> rd_ok R (cl_kernel s)" unfolding k2 by (rule bk)
    show "c' = released ?c \<and> eff R (cl_kernel s) (cl_kernel ?s2) (mset (client_entries E txs ?c)) {#}
        (mset (client_hdrs (eth_hb E R txs) ?c)) {#}"
      if "rd_ok R (cl_kernel ?s2)" "eth_inv E R txs R0 H0 s" for R0 H0
      using conjunct2 [OF e [OF that [unfolded k2]]] unfolding k2 .
  qed (use that k2 in simp_all)
  have i2: "client_index mac ?s2 = Some i"
  proof -
    have "map cl_mac (live ?s2) = map cl_mac (live s)"
      unfolding l2 map_update using c'(2) il live_nth [OF ci(1)] by (simp add: list_update_same_conv)
    then show ?thesis using client_index_cong i by metis
  qed
  have n2: "i < cl_num ?s2" "cl_tab ?s2 ! i = c'" using ci(1,2) tab by (simp_all add: put_client_def)
  have dr: "b \<Longrightarrow> does E R txs (filter (\<lambda>c. fst c \<noteq> mac)) ?s2 (remove_entry (shift_client (length txs)) i ?s2)"
    using z n2(2) by (intro does_remove [OF wf2 i2]) simp_all
  have k': "cl_kernel ?s' = k'" by (simp add: remove_entry_def)
  have "does E R txs (filter (\<lambda>c. fst c \<noteq> mac)) s ?s'"
    unfolding does_def k'
  proof (intro impI conjI allI)
    fix R0 H0 assume ok: "rd_ok R k'" and inv: "eth_inv E R txs R0 H0 s"
    have b: b using e [OF ok inv] by simp
    have d: "does E R txs (filter (\<lambda>c. fst c \<noteq> mac)) ?s2 ?s'" unfolding if_P [OF b] by (rule dr [OF b])
    have "rd_ok R (cl_kernel ?s')" unfolding k' by (rule ok)
    note D = does_after [OF d this conjunct1 [OF rel [OF ok inv]]]
    show "eth_inv E R txs R0 H0 ?s'" by (rule conjunct1 [OF D])
    show "absv ?s' = filter (\<lambda>c. fst c \<noteq> mac) (absv s)"
      using conjunct2 [OF D] conjunct2 [OF rel [OF ok inv]] by (rule trans)
  qed (use bk in simp)
  moreover have "eth_wf txs ?s'" using wf2 remove_wf [OF wf2 n2(1)] by simp
  moreover have "all_synced ?s'" if "rd_ok R (cl_kernel ?s')" "eth_inv E R txs R0 H0 s" "all_synced s" for R0 H0
  proof -
    have b: b using e that k' by simp
    have "synced IPA_IP_v4 c \<and> synced IPA_IP_v6 c" if "c \<in> set (live ?s2)" "cl_mac c \<noteq> mac" for c
      using live_update_set [OF that(1) [unfolded l2] il] that(2) c'(2) ci(3) \<open>all_synced s\<close> by (auto simp: all_synced_def)
    then show ?thesis using b remove_live_all [OF wf2 i2, of "\<lambda>c. synced IPA_IP_v4 c \<and> synced IPA_IP_v6 c"] shift_keeps(4)
      by (simp add: all_synced_def)
  qed
  ultimately show ?thesis using res by blast
qed

end
