(* ===== verification/Ipacm_EthRefine.thy ===== *)
theory Ipacm_EthRefine
  imports Ipacm_EthRun
begin

text \<open>
  The events of the Ethernet clients as steps of their specification, and runs of events: what
  \<^verbatim>\<open>IPACM_Lan.cpp\<close> does to its client table and to the driver for any sequence of neighbors that come,
  neighbors that go and resets of a family.
\<close>

section \<open>Handlers\<close>

text \<open>A handler that keeps the table well formed, does \<open>f\<close>, and leaves the clients with the rules of all addresses.\<close>

definition handled :: "'k client_env \<Rightarrow> 'k reading \<Rightarrow> tx_intf_prop list \<Rightarrow> (abs_client list \<Rightarrow> abs_client list)
    \<Rightarrow> 'k eth_clients \<Rightarrow> 'k eth_clients \<Rightarrow> bool" where
  "handled E R txs f s s' \<longleftrightarrow> eth_wf txs s' \<and> does E R txs f s s'
     \<and> (\<forall>R0 H0. rd_ok R (cl_kernel s') \<and> eth_inv E R txs R0 H0 s \<and> all_synced s \<longrightarrow> all_synced s')"

lemma handledD:
  assumes "handled E R txs f s s'"
  shows "eth_wf txs s'" "does E R txs f s s'"
    "\<lbrakk>rd_ok R (cl_kernel s'); eth_inv E R txs R0 H0 s; all_synced s\<rbrakk> \<Longrightarrow> all_synced s'"
  using assms unfolding handled_def by blast+

lemma does_ok: "\<lbrakk>does E R txs f s s'; rd_ok R (cl_kernel s')\<rbrakk> \<Longrightarrow> rd_ok R (cl_kernel s)"
  by (simp add: does_def)

lemma handled_trans:
  assumes "handled E R txs f s s1" "handled E R txs g s1 s2"
  shows "handled E R txs (\<lambda>cs. g (f cs)) s s2"
proof -
  note d1 = handledD(2) [OF assms(1)] and d2 = handledD(2) [OF assms(2)]
  have "all_synced s2" if "rd_ok R (cl_kernel s2)" "eth_inv E R txs R0 H0 s" "all_synced s" for R0 H0
  proof -
    note ok1 = does_ok [OF d2 that(1)]
    note i1 = conjunct1 [OF does_after [OF d1 ok1 that(2)]]
    show ?thesis by (rule handledD(3) [OF assms(2) that(1) i1 handledD(3) [OF assms(1) ok1 that(2,3)]])
  qed
  then show ?thesis
    using does_trans [OF d1 d2] handledD(1) [OF assms(2)] by (auto simp: handled_def comp_def)
qed

lemma handled_log: "eth_wf txs s \<Longrightarrow> handled E R txs id s (log_call x s)"
  by (simp add: handled_def does_same all_synced_def)

lemma handled_refl: "eth_wf txs s \<Longrightarrow> f (absv s) = absv s \<Longrightarrow> handled E R txs f s s"
  by (simp add: handled_def does_same)

lemma handled_lan2lan:
  assumes "reads_driver E R" "eth_wf txs s"
  shows "handled E R txs id s (snd (handle_lan2lan_client_active E data ev s))"
  using lan2lan_active_step [OF assms refl, of data ev] by (simp add: handled_def all_synced_def)

section \<open>A neighbor goes\<close>

lemma down_step:
  assumes env: "eth_env E txs" and R: "reads_driver E R" and wf: "eth_wf txs s"
  shows "\<exists>r s'. handle_eth_client_down_evt E mac s = Some (r, s') \<and> handled E R txs (filter (\<lambda>c. fst c \<noteq> mac)) s s'"
proof (cases "client_index mac s")
  case None
  then have "filter (\<lambda>c. fst c \<noteq> mac) (absv s) = absv s"
    using index_None_abs [OF None] by (simp add: filter_id_conv)
  then show ?thesis using None handled_refl [OF wf] by (simp add: handle_eth_client_down_evt_def)
next
  case (Some i)
  obtain b s1 where d: "client_down E (eth_shift E) i s = Some (b, s1)" and h: "handled E R txs (filter (\<lambda>c. fst c \<noteq> mac)) s s1"
    using client_down_step [OF env R wf Some] unfolding handled_def by blast
  obtain t ts where txs: "tx_prop (ce_iface E) = Some txs" "txs = t # ts" using env by (cases txs) (auto simp: eth_env_def)
  let ?s2 = "log_call (Rm_del (ipa_client_rm_map_tbl E (dst_pipe t))) s1"
  have "handle_eth_client_down_evt E mac s = Some (if b then IPACM_SUCCESS else IPACM_FAILURE,
      if b \<and> cl_num s1 = 0 then ?s2 else s1)"
    using Some d txs by (simp add: handle_eth_client_down_evt_def split: bool.split)
  moreover have "handled E R txs (filter (\<lambda>c. fst c \<noteq> mac)) s ?s2"
    using handled_trans [OF h handled_log [OF handledD(1) [OF h]]] by simp
  ultimately show ?thesis using h by simp
qed

lemma neigh_del_step:
  assumes "eth_env E txs" "reads_driver E R" "eth_wf txs s"
  shows "\<exists>s'. eth_neigh_del E d s = Some s' \<and> handled E R txs (filter (\<lambda>c. fst c \<noteq> mac_addr d)) s s'"
proof -
  obtain r s1 where s1: "handle_eth_client_down_evt E (mac_addr d) s = Some (r, s1)"
      "handled E R txs (filter (\<lambda>c. fst c \<noteq> mac_addr d)) s s1"
    using down_step [OF assms] by blast
  then show ?thesis
    using handled_trans [OF s1(2) handled_lan2lan [OF assms(2) handledD(1) [OF s1(2)]]] by (simp add: eth_neigh_del_def)
qed

section \<open>A neighbor gets an address\<close>

lemma client_add_step:
  assumes env: "eth_env E txs" and N: "eth_names E R txs" and wf: "eth_wf txs s" and d: "legal (Neigh_add d)"
  shows "\<exists>s'. eth_client_add E d s = Some s' \<and> handled E R txs (\<lambda>cs. map (spec_addr d) (spec_attach (mac_addr d) cs)) s s'"
proof -
  have R: "reads_driver E R" using N by (simp add: eth_names_def)
  have d1: "length (mac_addr d) = 6" and d2: "iptype d \<noteq> IPA_IP_MAX" using d by simp_all
  obtain r1 s1 where e1: "handle_eth_hdr_init E (mac_addr d) s = Some (r1, s1)" and h1: "handled E R txs (spec_attach (mac_addr d)) s s1"
    using hdr_init_step [OF env N wf d1] unfolding handled_def by blast
  define sa where "sa = snd (handle_lan2lan_client_active E d IPA_LAN_CLIENT_ACTIVE s1)"
  have ha: "handled E R txs id s1 sa" unfolding sa_def by (rule handled_lan2lan [OF R handledD(1) [OF h1]])
  obtain r s2 where e2: "handle_client_ipaddr E d sa = Some (r, s2)" and a2: "addr_done E R txs d sa r s2"
    using ipaddr_step [OF env R handledD(1) [OF ha] d2] by blast
  have w2: "eth_wf txs s2" and d2': "does E R txs (map (spec_addr d)) sa s2"
    and sy: "all_synced sa \<Longrightarrow> r = IPACM_FAILURE \<Longrightarrow> all_synced s2"
    and sb: "all_synced sa \<Longrightarrow> synced_but (iptype d) (mac_addr d) s2" using a2 by (simp_all add: addr_done_def)
  have h: "handled E R txs (\<lambda>cs. map (spec_addr d) (spec_attach (mac_addr d) cs)) s s'" if "handled E R txs (map (spec_addr d)) sa s'" for s'
    using handled_trans [OF handled_trans [OF h1 ha] that] by simp
  show ?thesis
  proof (cases "r = IPACM_FAILURE")
    case True
    then have "handled E R txs (map (spec_addr d)) sa s2" using w2 d2' sy by (simp add: handled_def)
    from h [OF this] show ?thesis using e1 e2 True by (simp add: eth_client_add_def sa_def)
  next
    case False
    obtain r3 s3 where e3: "handle_eth_client_route_rule E (mac_addr d) (iptype d) s2 = Some (r3, s3)"
      and w3: "eth_wf txs s3" and d3: "does E R txs id s2 s3"
      and sy3: "\<lbrakk>synced_but (iptype d) (mac_addr d) s2; \<forall>c \<in> set (live s2). route_rule_set_v4 c \<longrightarrow> ipv4_set c;
        rd_ok R (cl_kernel s3)\<rbrakk> \<Longrightarrow> all_synced s3"
      using route_rule_step [OF env R w2 d2, of "mac_addr d"] by blast
    have "all_synced s3" if "rd_ok R (cl_kernel s3)" "eth_inv E R txs R0 H0 sa" "all_synced sa" for R0 H0
    proof -
      have "eth_inv E R txs R0 H0 s2" by (rule conjunct1 [OF does_after [OF d2' does_ok [OF d3 that(1)] that(2)]])
      then show ?thesis using sy3 sb that by (simp add: eth_inv_def)
    qed
    then have h3: "handled E R txs (map (spec_addr d)) sa s3"
      using w3 does_trans [OF d2' d3] by (auto simp: handled_def)
    let ?s4 = "if iptype d = IPA_IP_v4 then log_call (Ct_add d) s3 else s3"
    have "handled E R txs (map (spec_addr d)) sa ?s4"
      using h3 handled_trans [OF h3 handled_log [OF w3]] by simp
    from h [OF this] show ?thesis using e1 e2 e3 False by (simp add: eth_client_add_def sa_def)
  qed
qed

section \<open>A family is reset\<close>

lemma no_routes_simps [simp]:
  "no_routes ip (no_routes ip c) = no_routes ip c" "abs_client (no_routes ip c) = abs_client c"
  "client_hdrs (eth_hb E R txs) (no_routes ip c) = client_hdrs (eth_hb E R txs) c"
  by (simp_all add: no_routes_def abs_client_def client_hdrs_def eth_hb_def)

lemma delete_one_step:
  assumes env: "eth_env E txs" and R: "reads_driver E R" and wf: "eth_wf txs s" and i: "i < cl_num s"
    and d: "delete_rtrules E ip (cl_tab s ! i) (cl_kernel s) = Some (r, c, k)" and c: "c = cl_tab s ! i \<or> c = no_routes ip (cl_tab s ! i)"
  shows "eth_wf txs (put_client i c (s\<lparr>cl_kernel := k\<rparr>)) \<and> does E R txs id s (put_client i c (s\<lparr>cl_kernel := k\<rparr>))"
proof -
  note e = delete_rtrules_effect [OF R tx_view_env [OF env] d]
  have il: "i < length (cl_tab s)" "i < length (live s)" using i eth_wf_length [OF wf] by (simp_all add: live_length)
  have st: "st_client txs c" "cl_mac c = cl_mac (cl_tab s ! i)" "abs_client c = abs_client (cl_tab s ! i)"
    using c eth_wf_nth [OF wf il(1)] by auto
  have a: "absv s ! i = abs_client (cl_tab s ! i)" using il live_nth [OF i] by (simp add: absv_def)
  have "does E R txs id s (put_client i c (s\<lparr>cl_kernel := k\<rparr>))"
  proof (rule does_put [OF wf i])
    show "live (put_client i c (s\<lparr>cl_kernel := k\<rparr>)) = (live s)[i := c]" using i by (simp add: live_put)
    show "rd_ok R (cl_kernel (put_client i c (s\<lparr>cl_kernel := k\<rparr>))) \<Longrightarrow> rd_ok R (cl_kernel s)"
      using e eff_ok by auto
    assume h: "route_rule_set_v4 (cl_tab s ! i) \<longrightarrow> ipv4_set (cl_tab s ! i)" and "rd_ok R (cl_kernel (put_client i c (s\<lparr>cl_kernel := k\<rparr>)))"
    then have k: "rd_ok R k" by simp
    note e = e [OF k]
    have hc: "client_hdrs (eth_hb E R txs) c = client_hdrs (eth_hb E R txs) (cl_tab s ! i)" using e by simp
    have "eff R (cl_kernel s) k (mset (client_entries E txs (cl_tab s ! i))) (mset (client_entries E txs c))
        (mset (client_hdrs (eth_hb E R txs) (cl_tab s ! i))) (mset (client_hdrs (eth_hb E R txs) c))"
      unfolding hc by (rule eff_keep_hdrs [OF conjunct2 [OF conjunct2 [OF e]]])
    moreover have "route_rule_set_v4 c \<longrightarrow> ipv4_set c" using e h by (simp add: no_routes_def)
    moreover have "id (absv s) = (absv s)[i := abs_client c]" unfolding st(3) a [symmetric] by simp
    ultimately show "eff R (cl_kernel s) (cl_kernel (put_client i c (s\<lparr>cl_kernel := k\<rparr>))) (mset (client_entries E txs (cl_tab s ! i)))
        (mset (client_entries E txs c)) (mset (client_hdrs (eth_hb E R txs) (cl_tab s ! i))) (mset (client_hdrs (eth_hb E R txs) c))
        \<and> (route_rule_set_v4 c \<longrightarrow> ipv4_set c) \<and> id (absv s) = (absv s)[i := abs_client c]"
      by simp
  qed
  then show ?thesis using eth_wf_put [of txs "s\<lparr>cl_kernel := k\<rparr>" c i] wf st by simp
qed

lemma delete_all_step:
  "\<lbrakk>eth_env E txs; reads_driver E R; eth_wf txs s; \<forall>i \<in> set is. i < cl_num s\<rbrakk> \<Longrightarrow>
   \<exists>r s'. delete_all_rtrules E ip is s = Some (r, s') \<and> eth_wf txs s' \<and> does E R txs id s s' \<and> cl_num s' = cl_num s
     \<and> (rd_ok R (cl_kernel s') \<longrightarrow> r = IPACM_SUCCESS)
     \<and> (r = IPACM_SUCCESS \<longrightarrow> (\<forall>j < cl_num s. cl_tab s' ! j = (if j \<in> set is then no_routes ip (cl_tab s ! j) else cl_tab s ! j)))"
proof (induction "is" arbitrary: s)
  case Nil
  then show ?case by (simp add: does_same)
next
  case (Cons i "is")
  have i: "i < cl_num s" "i < length (cl_tab s)" using Cons.prems(4) eth_wf_length [OF Cons.prems(3)] by auto
  have "wf_client (length txs) (cl_tab s ! i)" using eth_wf_nth [OF Cons.prems(3) i(2)] by (simp add: st_client_def)
  from delete_rtrules_defined [OF this tx_view_env [OF Cons.prems(1)]] obtain b k where
    d: "delete_rtrules E ip (cl_tab s ! i) (cl_kernel s) =
      Some (if b then IPACM_SUCCESS else IPACM_FAILURE, if b then no_routes ip (cl_tab s ! i) else cl_tab s ! i, k)" by blast
  define c where "c = (if b then no_routes ip (cl_tab s ! i) else cl_tab s ! i)"
  define s1 where "s1 = put_client i c (s\<lparr>cl_kernel := k\<rparr>)"
  have n1: "cl_num s1 = cl_num s" "cl_kernel s1 = k" by (simp_all add: s1_def)
  have t1: "cl_tab s1 ! j = (if j = i then c else cl_tab s ! j)" for j using i by (simp add: s1_def put_client_def)
  have h1: "eth_wf txs s1 \<and> does E R txs id s s1"
    unfolding s1_def by (rule delete_one_step [OF Cons.prems(1-3) i(1) d [folded c_def]]) (simp add: c_def)
  have ok: "rd_ok R k \<Longrightarrow> b"
    using delete_rtrules_effect [OF Cons.prems(2) tx_view_env [OF Cons.prems(1)] d]
    by (cases b) (simp_all add: IPACM_SUCCESS_def IPACM_FAILURE_def)
  show ?case
  proof (cases b)
    case False
    then have "delete_all_rtrules E ip (i # is) s = Some (IPACM_FAILURE, s1)"
      using d by (simp add: s1_def c_def IPACM_SUCCESS_def IPACM_FAILURE_def)
    moreover have "IPACM_FAILURE \<noteq> IPACM_SUCCESS" by (simp add: IPACM_SUCCESS_def IPACM_FAILURE_def)
    ultimately show ?thesis using h1 n1 ok False by blast
  next
    case True
    then have eq: "delete_all_rtrules E ip (i # is) s = delete_all_rtrules E ip is s1"
      using d by (simp add: s1_def c_def)
    have idx: "\<forall>i \<in> set is. i < cl_num s1" using Cons.prems(4) n1(1) by simp
    obtain r s' where r: "delete_all_rtrules E ip is s1 = Some (r, s')" "eth_wf txs s'" "does E R txs id s1 s'" "cl_num s' = cl_num s1"
        "rd_ok R (cl_kernel s') \<longrightarrow> r = IPACM_SUCCESS"
      and t: "r = IPACM_SUCCESS \<longrightarrow> (\<forall>j < cl_num s1. cl_tab s' ! j = (if j \<in> set is then no_routes ip (cl_tab s1 ! j) else cl_tab s1 ! j))"
      using Cons.IH [OF Cons.prems(1,2) conjunct1 [OF h1] idx] by blast
    have "does E R txs id s s'" by (rule does_trans [OF conjunct2 [OF h1] r(3), unfolded id_comp])
    moreover have "r = IPACM_SUCCESS \<longrightarrow> (\<forall>j < cl_num s. cl_tab s' ! j =
        (if j \<in> set (i # is) then no_routes ip (cl_tab s ! j) else cl_tab s ! j))"
      using t True unfolding n1(1) t1 by (auto simp: c_def)
    moreover have "cl_num s' = cl_num s" using r(4) n1(1) by simp
    ultimately show ?thesis unfolding eq using r(1,2,5) by blast
  qed
qed

lemma clear_addr_simps [simp]:
  "cl_mac (clear_addr ip c) = cl_mac c" "client_entries E txs (clear_addr ip c) = client_entries E txs c"
  "client_hdrs (eth_hb E R txs) (clear_addr ip c) = client_hdrs (eth_hb E R txs) c"
  "ip \<noteq> IPA_IP_MAX \<Longrightarrow> abs_client (clear_addr ip c) = spec_clear ip (abs_client c)"
  by (cases ip; simp add: clear_addr_def client_entries_def client_hdrs_def eth_hb_def abs_client_def spec_clear_def)+

lemma clear_live:
  "cl_num s \<le> length (cl_tab s) \<Longrightarrow>
   live (s\<lparr>cl_tab := map (clear_addr ip) (live s) @ drop (cl_num s) (cl_tab s)\<rparr>) = map (clear_addr ip) (live s)"
  by (simp add: live_def)

lemma st_clear: "\<lbrakk>st_client txs c; no_routes ip c = c; ip \<noteq> IPA_IP_MAX\<rbrakk> \<Longrightarrow> st_client txs (clear_addr ip c)"
  by (cases c; cases ip) (auto simp: st_client_def wf_client_def clear_addr_def no_routes_def)

lemma clear_step:
  assumes wf: "eth_wf txs s" and ip: "ip \<noteq> IPA_IP_MAX" and nr: "\<forall>c \<in> set (live s). no_routes ip c = c"
  defines "s' \<equiv> s\<lparr>cl_tab := map (clear_addr ip) (live s) @ drop (cl_num s) (cl_tab s)\<rparr>"
  shows "eth_wf txs s' \<and> does E R txs (map (spec_clear ip)) s s'"
proof
  have l: "live s' = map (clear_addr ip) (live s)" unfolding s'_def by (rule clear_live [OF eth_wf_length [OF wf]])
  have st: "\<forall>c \<in> set (cl_tab s'). st_client txs c"
    using wf nr ip eth_wf_live_st [OF wf] by (auto simp: s'_def eth_wf_def dest: in_set_dropD intro: st_clear)
  moreover have "length (cl_tab s') = length (cl_tab s)" "cl_num s' = cl_num s" "map cl_mac (live s') = map cl_mac (live s)"
    using eth_wf_length [OF wf] by (simp_all add: l comp_def) (simp_all add: s'_def live_length)
  ultimately show "eth_wf txs s'" using wf by (simp add: eth_wf_def)
  have k: "cl_kernel s' = cl_kernel s" by (simp add: s'_def)
  have "route_rule_set_v4 (clear_addr ip c) \<longrightarrow> ipv4_set (clear_addr ip c)"
    if "c \<in> set (live s)" "\<forall>c \<in> set (live s). route_rule_set_v4 c \<longrightarrow> ipv4_set c" for c
    using nr that by (cases c) (auto simp: clear_addr_def no_routes_def)
  then have "eth_inv E R txs R0 H0 s'" if "eth_inv E R txs R0 H0 s" for R0 H0
    using that by (auto simp: eth_inv_def account_def l k comp_def)
  moreover have "absv s' = map (spec_clear ip) (absv s)" using ip by (simp add: absv_def l)
  ultimately show "does E R txs (map (spec_clear ip)) s s'" by (simp add: does_def k)
qed

lemma clear_synced:
  "\<lbrakk>synced ip' c; ip \<in> {IPA_IP_v4, IPA_IP_v6}; ip' \<in> {IPA_IP_v4, IPA_IP_v6}\<rbrakk> \<Longrightarrow> synced ip' (clear_addr ip (no_routes ip c))"
  by (auto simp: synced_def clear_addr_def no_routes_def)

lemma deleted_live:
  assumes "eth_wf txs s" "eth_wf txs s1" "cl_num s1 = cl_num s"
    and "\<forall>j < cl_num s. cl_tab s1 ! j = (if j \<in> set [0..<cl_num s] then no_routes ip (cl_tab s ! j) else cl_tab s ! j)"
  shows "live s1 = map (no_routes ip) (live s)"
  using assms eth_wf_length [OF assms(1)] eth_wf_length [OF assms(2)]
  by (intro nth_equalityI) (simp_all add: live_length live_nth)

lemma reset_step:
  assumes env: "eth_env E txs" and R: "reads_driver E R" and wf: "eth_wf txs s" and ip: "ip \<noteq> IPA_IP_MAX"
  shows "\<exists>r s'. handle_lan_client_reset_rt E ip s = Some (r, s') \<and> handled E R txs (map (spec_clear ip)) s s'"
proof -
  obtain r s1 where d: "delete_all_rtrules E ip [0..<cl_num s] s = Some (r, s1)"
    and w1: "eth_wf txs s1" and d1: "does E R txs id s s1" and n1: "cl_num s1 = cl_num s"
    and ok1: "rd_ok R (cl_kernel s1) \<longrightarrow> r = IPACM_SUCCESS"
    and t: "r = IPACM_SUCCESS \<longrightarrow> (\<forall>j < cl_num s. cl_tab s1 ! j =
        (if j \<in> set [0..<cl_num s] then no_routes ip (cl_tab s ! j) else cl_tab s ! j))"
    using delete_all_step [OF env R wf, of "[0..<cl_num s]" ip] by auto
  have fail: "handled E R txs (map (spec_clear ip)) s s'" if "eth_wf txs s'" "\<not> rd_ok R (cl_kernel s')" for s'
    using that does_fails by (auto simp: handled_def)
  show ?thesis
  proof (cases "r = IPACM_SUCCESS")
    case False
    then show ?thesis using d fail [OF w1] ok1 by (simp add: handle_lan_client_reset_rt_def)
  next
    case True
    obtain b s2 where p: "post_msgs E (concat (map (disconnect_msgs ip) (live s1))) s1 = (b, s2)" by force
    note pe = post_msgs_effect [OF R p]
    then have w2: "eth_wf txs s2" and l2: "live s2 = live s1" using w1 eth_wf_live [of s2 s1 txs] by simp_all
    have l1: "live s1 = map (no_routes ip) (live s)" using deleted_live [OF wf w1 n1] t True by blast
    have d2: "does E R txs id s1 s2" using pe by (intro does_kernel) simp_all
    define s3 where "s3 = s2\<lparr>cl_tab := map (clear_addr ip) (live s2) @ drop (cl_num s2) (cl_tab s2)\<rparr>"
    have h: "handle_lan_client_reset_rt E ip s = Some (if b then IPACM_SUCCESS else IPACM_FAILURE, if b then s3 else s2)"
      using d True p by (simp add: handle_lan_client_reset_rt_def post_lan2lan_client_disconnect_msg_def s3_def
        IPACM_SUCCESS_def IPACM_FAILURE_def)
    show ?thesis
    proof (cases b)
      case False
      then show ?thesis using h fail [OF w2] pe by simp
    next
      case True
      have c3: "eth_wf txs s3 \<and> does E R txs (map (spec_clear ip)) s2 s3"
        unfolding s3_def by (rule clear_step [OF w2 ip]) (simp add: l2 l1)
      have "does E R txs (map (spec_clear ip)) s s3"
        using does_trans [OF does_trans [OF d1 d2] conjunct2 [OF c3]] by simp
      have "live s3 = map (clear_addr ip) (live s2)" unfolding s3_def by (rule clear_live [OF eth_wf_length [OF w2]])
      then have l3: "set (live s3) = (\<lambda>c. clear_addr ip (no_routes ip c)) ` set (live s)" by (auto simp: l2 l1)
      have ip2: "ip \<in> {IPA_IP_v4, IPA_IP_v6}" using ip by (cases ip) simp_all
      have "all_synced s3" if "all_synced s"
        using that clear_synced [OF _ ip2] unfolding all_synced_def l3 ball_simps by blast
      with \<open>does E R txs (map (spec_clear ip)) s s3\<close> have "handled E R txs (map (spec_clear ip)) s s3" using c3 by (simp add: handled_def)
      then show ?thesis using h True by simp
    qed
  qed
qed

section \<open>Runs\<close>

lemma eth_step_handled:
  assumes "eth_env E txs" "eth_names E R txs" "eth_wf txs s" "legal op"
  shows "\<exists>s'. eth_step E op s = Some s' \<and> handled E R txs (spec_step op) s s'"
proof (cases op)
  case (Neigh_add d)
  then have "\<exists>s'. eth_client_add E d s = Some s' \<and> handled E R txs (\<lambda>cs. map (spec_addr d) (spec_attach (mac_addr d) cs)) s s'"
    using client_add_step [OF assms(1-3), of d] assms(4) by simp
  moreover have "spec_step (Neigh_add d) = (\<lambda>cs. map (spec_addr d) (spec_attach (mac_addr d) cs))" by (rule ext) simp
  ultimately show ?thesis using assms(1) Neigh_add by (simp add: eth_neigh_add_def eth_env_def)
next
  case (Neigh_del d)
  moreover have "spec_step (Neigh_del d) = filter (\<lambda>c. fst c \<noteq> mac_addr d)" by (rule ext) simp
  ultimately show ?thesis using neigh_del_step [OF assms(1) _ assms(3), of R d] assms(2) by (simp add: eth_names_def)
next
  case (Reset_rt ip)
  moreover have "spec_step (Reset_rt ip) = map (spec_clear ip)" by (rule ext) simp
  ultimately show ?thesis using reset_step [OF assms(1) _ assms(3), of R ip] assms(2,4) by (auto simp: eth_names_def)
qed

lemma eth_run_handled:
  "\<lbrakk>eth_env E txs; eth_names E R txs; eth_wf txs s; \<forall>op \<in> set ops. legal op\<rbrakk> \<Longrightarrow>
   \<exists>s'. run_steps (eth_step E) ops s = Some s' \<and> handled E R txs (fold spec_step ops) s s'"
proof (induction ops arbitrary: s)
  case Nil
  then show ?case by (simp add: handled_refl)
next
  case (Cons op ops)
  obtain s1 where s1: "eth_step E op s = Some s1" "handled E R txs (spec_step op) s s1"
    using eth_step_handled [OF Cons.prems(1-3), of op] Cons.prems(4) by auto
  obtain s' where s': "run_steps (eth_step E) ops s1 = Some s'" "handled E R txs (fold spec_step ops) s1 s'"
    using Cons.IH [OF Cons.prems(1,2) handledD(1) [OF s1(2)]] Cons.prems(4) by auto
  show ?case using s1(1) s'(1) handled_trans [OF s1(2) s'(2)] by (simp add: comp_def)
qed

lemma eth_init:
  "eth_wf txs (eth_clients_init (length txs) k0)" "live (eth_clients_init n k0) = []"
  "cl_kernel (eth_clients_init n k0) = k0"
  by (simp_all add: eth_wf_def eth_clients_init_def live_def st_client_def wf_client_def wf_hdl_def empty_entry_def)

lemma eth_run_init:
  assumes "eth_env E txs" "eth_names E R txs" "\<forall>op \<in> set ops. legal op"
  shows "\<exists>s. run_steps (eth_step E) ops (eth_clients_init (length txs) k0) = Some s
    \<and> (rd_ok R (cl_kernel s) \<longrightarrow> absv s = fold spec_step ops [] \<and> all_synced s
        \<and> account E txs R (eth_hb E R txs) (rd_rts R k0) (rd_hdrs R k0) s)"
proof -
  let ?s0 = "eth_clients_init (length txs) k0"
  obtain s where s: "run_steps (eth_step E) ops ?s0 = Some s" "handled E R txs (fold spec_step ops) ?s0 s"
    using eth_run_handled [OF assms(1,2) eth_init(1) assms(3)] by blast
  have i0: "eth_inv E R txs (rd_rts R k0) (rd_hdrs R k0) ?s0" "all_synced ?s0" "absv ?s0 = []"
    by (simp_all add: eth_inv_def account_def all_synced_def absv_def eth_init)
  have "absv s = fold spec_step ops [] \<and> all_synced s \<and> account E txs R (eth_hb E R txs) (rd_rts R k0) (rd_hdrs R k0) s"
    if ok: "rd_ok R (cl_kernel s)"
    using does_after [OF handledD(2) [OF s(2)] ok i0(1)] handledD(3) [OF s(2) ok i0(1,2)] i0(3) by (simp add: eth_inv_def)
  with s(1) show ?thesis by blast
qed

end
