(* ===== verification/Ipacm_WlanRun.thy ===== *)
theory Ipacm_WlanRun
  imports Ipacm_WlanClient Ipacm_EthRefine
begin

text \<open>
  The client table of an access point over a run of events: the rules and headers of the driver
  are those of the clients, and in runs in which no client leaves, a client in power save has no rules
  and any other has the rules of all its addresses.
\<close>

section \<open>Interface and invariant\<close>

definition wlan_env :: "'k client_env \<Rightarrow> tx_intf_prop list \<Rightarrow> bool" where
  "wlan_env E txs \<longleftrightarrow> tx_prop (ce_iface E) = Some txs \<and> map_option fst (iface_query (ce_iface E)) = Some (length txs)
     \<and> (\<forall>k. fst (malloc (ce_K E) k))"

fun attrib_fits :: "nat \<Rightarrow> header_attrib \<Rightarrow> bool" where
  "attrib_fits n (Attrib_mac off m) \<longleftrightarrow> off + length m \<le> n"
| "attrib_fits n (Attrib_sta off m) \<longleftrightarrow> off + length m \<le> n"
| "attrib_fits n Attrib_other \<longleftrightarrow> True"

fun wlan_legal :: "'k client_env \<Rightarrow> wlan_op \<Rightarrow> bool" where
  "wlan_legal E (Client_add as) \<longleftrightarrow> (\<forall>a \<in> set as. attrib_fits (IPA_HDR_MAX_SIZE (ce_K E)) a)"
| "wlan_legal E (Addr_add d) \<longleftrightarrow> iptype d \<noteq> IPA_IP_MAX"
| "wlan_legal E (Wlan_reset ip) \<longleftrightarrow> ip \<noteq> IPA_IP_MAX"
| "wlan_legal E _ \<longleftrightarrow> True"

definition wlan_wf :: "tx_intf_prop list \<Rightarrow> 'k wlan_clients \<Rightarrow> bool" where
  "wlan_wf txs s \<longleftrightarrow> length (cl_tab s) = WIFI_CLIENTS \<and> cl_num s \<le> WIFI_CLIENTS
     \<and> (\<forall>c \<in> set (cl_tab s). st_client txs c) \<and> (\<forall>c \<in> set (live s). p_hdr_info c \<noteq> None)"

definition wlan_hb :: "'k client_env \<Rightarrow> 'k reading \<Rightarrow> tx_intf_prop list \<Rightarrow> ipa_ip_type \<Rightarrow> ipa_wlan_client \<Rightarrow> u8 list" where
  "wlan_hb E R txs ip c = full_bytes E R (\<lambda>h. wlan_fill (the (p_hdr_info c))) txs ip"

definition wlan_inv :: "'k client_env \<Rightarrow> 'k reading \<Rightarrow> tx_intf_prop list \<Rightarrow> rt_entry multiset
    \<Rightarrow> (u32 \<times> u8 list) multiset \<Rightarrow> 'k wlan_clients \<Rightarrow> bool" where
  "wlan_inv E R txs R0 H0 s \<longleftrightarrow> account E txs R (wlan_hb E R txs) R0 H0 s
     \<and> (\<forall>c \<in> set (live s). route_rule_set_v4 c \<longrightarrow> ipv4_set c)"

text \<open>
  The rules a client should have: none in power save, else those of its addresses, for some families;
  \<open>z\<close> says whether clients may be in power save at all.
\<close>

definition right_for :: "bool \<Rightarrow> ipa_ip_type set \<Rightarrow> ipa_wlan_client \<Rightarrow> bool" where
  "right_for z F c \<longleftrightarrow> (if power_save_set c then z \<and> \<not> route_rule_set_v4 c \<and> route_rule_set_v6 c = 0 else \<forall>ip \<in> F. synced ip c)"

abbreviation families :: "ipa_ip_type set" where
  "families \<equiv> {IPA_IP_v4, IPA_IP_v6}"

definition almost_right :: "bool \<Rightarrow> ipa_ip_type set \<Rightarrow> nat \<Rightarrow> 'k wlan_clients \<Rightarrow> bool" where
  "almost_right z F i s \<longleftrightarrow> (\<forall>j < cl_num s. right_for z (if j = i then F else families) (cl_tab s ! j))"

definition all_right :: "bool \<Rightarrow> 'k wlan_clients \<Rightarrow> bool" where
  "all_right z s \<longleftrightarrow> (\<forall>j < cl_num s. right_for z families (cl_tab s ! j))"

lemma almost_all: "almost_right z families i s \<longleftrightarrow> all_right z s"
  by (simp add: almost_right_def all_right_def)

lemma right_for_mono: "\<lbrakk>right_for z F c; G \<subseteq> F\<rbrakk> \<Longrightarrow> right_for z G c"
  by (auto simp: right_for_def)

lemma all_almost: "\<lbrakk>all_right z s; F \<subseteq> families\<rbrakk> \<Longrightarrow> almost_right z F i s"
  using right_for_mono [of z families _ F] by (auto simp: almost_right_def all_right_def)

text \<open>What a part of a handler does, with what it relies on and what it leaves of the rules.\<close>

definition wdone :: "'k client_env \<Rightarrow> 'k reading \<Rightarrow> tx_intf_prop list \<Rightarrow> ('k wlan_clients \<Rightarrow> bool)
    \<Rightarrow> ('k wlan_clients \<Rightarrow> bool) \<Rightarrow> 'k wlan_clients \<Rightarrow> 'k wlan_clients \<Rightarrow> bool" where
  "wdone E R txs P Q s s' \<longleftrightarrow> wlan_wf txs s' \<and> (rd_ok R (cl_kernel s') \<longrightarrow> rd_ok R (cl_kernel s)
     \<and> (\<forall>R0 H0. wlan_inv E R txs R0 H0 s \<longrightarrow> wlan_inv E R txs R0 H0 s' \<and> (P s \<longrightarrow> Q s')))"

lemma wdone_wf: "wdone E R txs P Q s s' \<Longrightarrow> wlan_wf txs s'"
  by (simp add: wdone_def)

lemma wdoneD:
  "\<lbrakk>wdone E R txs P Q s s'; rd_ok R (cl_kernel s')\<rbrakk> \<Longrightarrow> rd_ok R (cl_kernel s)"
  "\<lbrakk>wdone E R txs P Q s s'; rd_ok R (cl_kernel s'); wlan_inv E R txs R0 H0 s\<rbrakk> \<Longrightarrow> wlan_inv E R txs R0 H0 s'"
  "\<lbrakk>wdone E R txs P Q s s'; rd_ok R (cl_kernel s'); wlan_inv E R txs R0 H0 s; P s\<rbrakk> \<Longrightarrow> Q s'"
  unfolding wdone_def by blast+

lemma wdone_trans:
  assumes "wdone E R txs P Q s s1" "wdone E R txs Q T s1 s2" shows "wdone E R txs P T s s2"
  using assms unfolding wdone_def by blast

lemma wdone_weaken: "\<lbrakk>wdone E R txs P Q s s'; \<And>s. P' s \<Longrightarrow> P s; \<And>s. Q s \<Longrightarrow> Q' s\<rbrakk> \<Longrightarrow> wdone E R txs P' Q' s s'"
  unfolding wdone_def by blast

lemma wdone_fails: "\<lbrakk>wlan_wf txs s'; \<not> rd_ok R (cl_kernel s')\<rbrakk> \<Longrightarrow> wdone E R txs P Q s s'"
  by (simp add: wdone_def)

lemma wdone_same: "\<lbrakk>wlan_wf txs s; P s \<Longrightarrow> Q s\<rbrakk> \<Longrightarrow> wdone E R txs P Q s s"
  by (simp add: wdone_def)

lemma wlan_wf_length: "wlan_wf txs s \<Longrightarrow> cl_num s \<le> length (cl_tab s)"
  by (simp add: wlan_wf_def)

lemma wlan_wf_nth: "\<lbrakk>wlan_wf txs s; i < length (cl_tab s)\<rbrakk> \<Longrightarrow> st_client txs (cl_tab s ! i)"
  by (simp add: wlan_wf_def)

lemma wlan_hb_flag_free [simp]: "flag_free (wlan_hb E R txs)"
  by (simp add: flag_free_def wlan_hb_def)

lemma wlan_index:
  assumes "client_index mac s = Some i" "wlan_wf txs s"
  shows "i < cl_num s" "i < length (cl_tab s)" "cl_mac (cl_tab s ! i) = mac" "st_client txs (cl_tab s ! i)"
    "cl_tab s ! i \<in> set (live s)"
proof -
  have i: "i < length (live s)" "cl_mac (live s ! i) = mac"
    using assms(1) find_idx_nth [of "\<lambda>c. cl_mac c = mac" "live s"]
    by (auto simp: client_index_def Let_def split: if_splits)
  then show "i < cl_num s" using wlan_wf_length [OF assms(2)] by (simp add: live_length)
  then show "i < length (cl_tab s)" "cl_mac (cl_tab s ! i) = mac" "cl_tab s ! i \<in> set (live s)"
    using i wlan_wf_length [OF assms(2)] nth_mem [OF i(1)] by (simp_all add: live_nth)
  then show "st_client txs (cl_tab s ! i)" using wlan_wf_nth assms(2) by blast
qed

text \<open>A state with the same table.\<close>

definition same_table :: "('c, 'k, 'm) clients_scheme \<Rightarrow> ('c, 'k, 'm) clients_scheme \<Rightarrow> bool" where
  "same_table s s' \<longleftrightarrow> cl_tab s' = cl_tab s \<and> cl_num s' = cl_num s"

lemma same_table_live: "same_table s s' \<Longrightarrow> live s' = live s"
  by (simp add: same_table_def live_def)

lemma same_table_wf: "\<lbrakk>same_table s s'; wlan_wf txs s\<rbrakk> \<Longrightarrow> wlan_wf txs s'"
  using same_table_live [of s s'] by (simp add: same_table_def wlan_wf_def)

lemma same_table_index: "same_table s s' \<Longrightarrow> client_index mac s' = client_index mac s"
  using same_table_live [of s s'] by (simp add: client_index_def)

lemma wdone_kernel:
  assumes "wlan_wf txs s" "same_table s s'" "rd_ok R (cl_kernel s') \<Longrightarrow> eff R (cl_kernel s) (cl_kernel s') {#} {#} {#} {#}"
    and "P s \<Longrightarrow> Q s'"
  shows "wdone E R txs P Q s s'"
proof -
  have "wlan_inv E R txs R0 H0 s'" if "rd_ok R (cl_kernel s')" "wlan_inv E R txs R0 H0 s" for R0 H0
    using that account_kernel [of E txs R "wlan_hb E R txs" R0 H0 s "cl_kernel s'" s'] assms(2,3) same_table_live [OF assms(2)]
    by (simp add: wlan_inv_def)
  then show ?thesis using assms same_table_wf eff_ok by (auto simp: wdone_def)
qed

lemma same_table_almost: "same_table s s' \<Longrightarrow> almost_right z F i s' = almost_right z F i s"
  "same_table s s' \<Longrightarrow> all_right z s' = all_right z s"
  by (simp_all add: same_table_def almost_right_def all_right_def)

text \<open>An entry of the table replaced.\<close>

lemma wdone_put:
  assumes wf: "wlan_wf txs s" and i: "i < cl_num s" and s1: "same_table s s1" and c': "st_client txs c'" "p_hdr_info c' \<noteq> None"
    and bk: "rd_ok R (cl_kernel s1) \<Longrightarrow> rd_ok R (cl_kernel s)"
    and e: "\<And>R0 H0. \<lbrakk>rd_ok R (cl_kernel s1); wlan_inv E R txs R0 H0 s; route_rule_set_v4 (cl_tab s ! i) \<longrightarrow> ipv4_set (cl_tab s ! i)\<rbrakk> \<Longrightarrow>
      eff R (cl_kernel s) (cl_kernel s1) (mset (client_entries E txs (cl_tab s ! i))) (mset (client_entries E txs c'))
        (mset (client_hdrs (wlan_hb E R txs) (cl_tab s ! i))) (mset (client_hdrs (wlan_hb E R txs) c'))
      \<and> (route_rule_set_v4 c' \<longrightarrow> ipv4_set c') \<and> (P s \<longrightarrow> Q (put_client i c' s1))"
  shows "wdone E R txs P Q s (put_client i c' s1)"
proof -
  let ?s' = "put_client i c' s1"
  have il: "i < length (live s)" using i wlan_wf_length [OF wf] by (simp add: live_length)
  have l: "live ?s' = (live s)[i := c']" using i s1 same_table_live [OF s1] by (simp add: live_put same_table_def)
  have ci: "cl_tab s ! i \<in> set (live s)" using il live_nth [OF i] nth_mem by metis
  have "wlan_wf txs ?s'"
    unfolding wlan_wf_def l using wf c' s1 set_update_subset_insert [of "cl_tab s" i c'] set_update_subset_insert [of "live s" i c']
    by (auto simp: wlan_wf_def same_table_def put_client_def)
  moreover have "wlan_inv E R txs R0 H0 ?s' \<and> (P s \<longrightarrow> Q ?s')"
    if ok: "rd_ok R (cl_kernel s1)" and inv: "wlan_inv E R txs R0 H0 s" for R0 H0
  proof -
    have "route_rule_set_v4 (cl_tab s ! i) \<longrightarrow> ipv4_set (cl_tab s ! i)" using inv ci by (simp add: wlan_inv_def)
    note e = e [OF ok inv this]
    have "account E txs R (wlan_hb E R txs) R0 H0 ?s'"
      by (rule account_put [OF _ i wlan_wf_length [OF wf] conjunct1 [OF e] l]) (use inv in \<open>simp_all add: wlan_inv_def\<close>)
    moreover have "\<forall>c \<in> set (live ?s'). route_rule_set_v4 c \<longrightarrow> ipv4_set c"
      using inv e set_update_subset_insert [of "live s" i c'] unfolding l wlan_inv_def by blast
    ultimately show ?thesis using e by (simp add: wlan_inv_def)
  qed
  ultimately show ?thesis using bk by (simp add: wdone_def)
qed

lemma put_right:
  assumes "same_table s s1" "i < length (cl_tab s)" "almost_right z F i s" "right_for z F (cl_tab s ! i) \<Longrightarrow> i < cl_num s \<Longrightarrow> right_for z G c'"
  shows "almost_right z G i (put_client i c' s1)"
  using assms by (auto simp: almost_right_def same_table_def put_client_def nth_list_update)

section \<open>Addresses and routing rules\<close>

lemma wlan_view: "wlan_env E txs \<Longrightarrow> tx_view (ce_iface E) = Some txs"
  by (auto simp: wlan_env_def tx_view_def split: option.splits)

lemma put_index:
  assumes "same_table s s1" "cl_mac c' = cl_mac (cl_tab s ! i)" "i < cl_num s" "cl_num s \<le> length (cl_tab s)"
  shows "client_index mac (put_client i c' s1) = client_index mac s"
proof (rule client_index_cong)
  have "live (put_client i c' s1) = (live s)[i := c']"
    using assms(1,3) same_table_live [OF assms(1)] by (simp add: live_put same_table_def)
  then show "map cl_mac (live (put_client i c' s1)) = map cl_mac (live s)"
    using assms(2-4) by (simp add: map_update live_nth live_length list_update_same_conv)
qed

lemma put_nth: "\<lbrakk>same_table s s1; i < length (cl_tab s)\<rbrakk> \<Longrightarrow> cl_tab (put_client i c' s1) ! i = c'"
  by (simp add: same_table_def put_client_def)

text \<open>An entry replaced by one with the same headers, with the effect on the rules.\<close>

lemma wdone_put_at:
  assumes wf: "wlan_wf txs s" and i: "i < cl_num s" and s1: "same_table s s1"
    and c': "st_client txs c'" "p_hdr_info c' = p_hdr_info (cl_tab s ! i)"
    and hh: "client_hdrs (wlan_hb E R txs) c' = client_hdrs (wlan_hb E R txs) (cl_tab s ! i)"
    and e: "\<lbrakk>rd_ok R (cl_kernel s1); route_rule_set_v4 (cl_tab s ! i) \<longrightarrow> ipv4_set (cl_tab s ! i)\<rbrakk> \<Longrightarrow>
      eff R (cl_kernel s) (cl_kernel s1) (mset (client_entries E txs (cl_tab s ! i))) (mset (client_entries E txs c')) {#} {#}
      \<and> (route_rule_set_v4 c' \<longrightarrow> ipv4_set c')"
    and bk: "rd_ok R (cl_kernel s1) \<Longrightarrow> rd_ok R (cl_kernel s)"
    and PQ: "\<lbrakk>rd_ok R (cl_kernel s1); route_rule_set_v4 (cl_tab s ! i) \<longrightarrow> ipv4_set (cl_tab s ! i); right_for z F (cl_tab s ! i)\<rbrakk>
      \<Longrightarrow> right_for z G c'"
  shows "wdone E R txs (almost_right z F i) (almost_right z G i) s (put_client i c' s1)"
proof -
  have il: "i < length (cl_tab s)" using i wlan_wf_length [OF wf] by simp
  have "cl_tab s ! i \<in> set (live s)"
    using nth_mem [of i "live s"] i wlan_wf_length [OF wf] by (simp add: live_length live_nth)
  then have p: "p_hdr_info c' \<noteq> None" using wf c'(2) by (simp add: wlan_wf_def)
  show ?thesis
  proof (rule wdone_put [OF wf i s1 c'(1) p bk])
    fix R0 H0
    assume ok: "rd_ok R (cl_kernel s1)" and fl: "route_rule_set_v4 (cl_tab s ! i) \<longrightarrow> ipv4_set (cl_tab s ! i)"
    have "almost_right z F i s \<Longrightarrow> almost_right z G i (put_client i c' s1)"
      by (rule put_right [OF s1 il]) (use PQ [OF ok fl] in auto)
    then show "eff R (cl_kernel s) (cl_kernel s1) (mset (client_entries E txs (cl_tab s ! i))) (mset (client_entries E txs c'))
        (mset (client_hdrs (wlan_hb E R txs) (cl_tab s ! i))) (mset (client_hdrs (wlan_hb E R txs) c'))
      \<and> (route_rule_set_v4 c' \<longrightarrow> ipv4_set c') \<and> (almost_right z F i s \<longrightarrow> almost_right z G i (put_client i c' s1))"
      unfolding hh using eff_keep_hdrs [OF conjunct1 [OF e [OF ok fl]]] e [OF ok fl] by simp
  qed
qed

lemma wlan_ipaddr_step:
  assumes env: "wlan_env E txs" and R: "reads_driver E R" and wf: "wlan_wf txs s" and ip: "iptype d \<noteq> IPA_IP_MAX"
  shows "\<exists>r s'. handle_client_ipaddr E d s = Some (r, s') \<and> client_index (mac_addr d) s' = client_index (mac_addr d) s
    \<and> (if r = IPACM_FAILURE then s' = s else \<exists>i. client_index (mac_addr d) s = Some i
        \<and> wdone E R txs (almost_right z families i) (almost_right z (families - {iptype d}) i) s s')"
proof (cases "client_index (mac_addr d) s")
  case None
  then show ?thesis by (simp add: handle_client_ipaddr_def)
next
  case (Some i)
  note ci = wlan_index [OF Some wf]
  let ?c = "cl_tab s ! i"
  have ne: "IPACM_SUCCESS \<noteq> IPACM_FAILURE" by (simp add: IPACM_SUCCESS_def IPACM_FAILURE_def)
  have wc: "wf_client (length txs) ?c" using ci(4) by (simp add: st_client_def)
  have same: "wdone E R txs (almost_right z families i) (almost_right z (families - {iptype d}) i) s s"
    using wf all_almost [of z s "families - {iptype d}" i] by (intro wdone_same) (auto simp: almost_all)
  show ?thesis
  proof (cases "iptype d = IPA_IP_v4")
    case v4: True
    have ha: "handle_client_ipaddr E d s = (if ipv4_addr d = 0 then Some (IPACM_FAILURE, s)
      else if \<not> ipv4_set ?c then Some (IPACM_SUCCESS, put_client i (?c\<lparr>cl_v4_addr := ipv4_addr d, ipv4_set := True\<rparr>) s)
      else if ipv4_addr d = cl_v4_addr ?c then Some (IPACM_FAILURE, s)
      else (case delete_rtrules E IPA_IP_v4 ?c (cl_kernel s) of None \<Rightarrow> None
        | Some (_, c1, k1) \<Rightarrow> Some (IPACM_SUCCESS, put_client i (c1\<lparr>route_rule_set_v4 := False, cl_v4_addr := ipv4_addr d\<rparr>)
            ((log_call (Ct_del (cl_v4_addr ?c)) s)\<lparr>cl_kernel := k1\<rparr>))))"
      by (simp add: handle_client_ipaddr_def Some v4 Let_def)
    consider (none) "ipv4_addr d = 0 \<or> ipv4_set ?c \<and> ipv4_addr d = cl_v4_addr ?c"
      | (first) "ipv4_addr d \<noteq> 0" "\<not> ipv4_set ?c"
      | (change) "ipv4_addr d \<noteq> 0" "ipv4_set ?c" "ipv4_addr d \<noteq> cl_v4_addr ?c" by blast
    then show ?thesis
    proof cases
      case none
      then show ?thesis by (auto simp: ha)
    next
      case first
      let ?n = "?c\<lparr>cl_v4_addr := ipv4_addr d, ipv4_set := True\<rparr>"
      have "wdone E R txs (almost_right z families i) (almost_right z (families - {iptype d}) i) s (put_client i ?n s)"
      proof (rule wdone_put_at [OF wf ci(1)])
        show "st_client txs ?n" using ci(4) by (simp add: st_client_def wf_client_def)
      qed (use first v4 in \<open>auto simp: same_table_def client_hdrs_def wlan_hb_def client_entries_def eff_same right_for_def synced_def split: if_splits\<close>)
      moreover have "client_index (mac_addr d) (put_client i ?n s) = Some i"
        using put_index [of s s ?n i "mac_addr d"] ci(1) wlan_wf_length [OF wf] Some by (simp add: same_table_def)
      ultimately show ?thesis using first ne by (simp add: ha Some)
    next
      case change
      obtain b k1 where d1: "delete_rtrules E IPA_IP_v4 ?c (cl_kernel s) =
          Some (if b then IPACM_SUCCESS else IPACM_FAILURE, if b then no_routes IPA_IP_v4 ?c else ?c, k1)"
        using delete_rtrules_defined [OF wc wlan_view [OF env], of IPA_IP_v4 "cl_kernel s"] by blast
      let ?n = "(no_routes IPA_IP_v4 ?c)\<lparr>cl_v4_addr := ipv4_addr d\<rparr>"
      let ?s = "(log_call (Ct_del (cl_v4_addr ?c)) s)\<lparr>cl_kernel := k1\<rparr>"
      note e0 = delete_rtrules_effect [OF R wlan_view [OF env] d1]
      then have "rd_ok R k1 \<Longrightarrow> b" by (cases b) (simp_all add: IPACM_SUCCESS_def IPACM_FAILURE_def)
      with e0 have e: "rd_ok R k1 \<Longrightarrow> eff R (cl_kernel s) k1 (mset (client_entries E txs ?c))
          (mset (client_entries E txs (no_routes IPA_IP_v4 ?c))) {#} {#}" by simp
      have en: "client_entries E txs ?n = client_entries E txs (no_routes IPA_IP_v4 ?c)"
        by (simp add: client_entries_def no_routes_def)
      have st: "same_table s ?s" by (simp add: same_table_def)
      have "wdone E R txs (almost_right z families i) (almost_right z (families - {iptype d}) i) s (put_client i ?n ?s)"
      proof (rule wdone_put_at [OF wf ci(1) st])
        show "st_client txs ?n" using ci(4) by (auto simp: st_client_def wf_client_def no_routes_def)
        show "rd_ok R (cl_kernel ?s) \<Longrightarrow> rd_ok R (cl_kernel s)" using e eff_ok by auto
        show "rd_ok R (cl_kernel ?s) \<Longrightarrow> route_rule_set_v4 ?c \<longrightarrow> ipv4_set ?c \<Longrightarrow>
          eff R (cl_kernel s) (cl_kernel ?s) (mset (client_entries E txs ?c)) (mset (client_entries E txs ?n)) {#} {#}
          \<and> (route_rule_set_v4 ?n \<longrightarrow> ipv4_set ?n)"
          unfolding en using e by (simp add: no_routes_def)
      qed (use v4 in \<open>auto simp: client_hdrs_def wlan_hb_def no_routes_def right_for_def synced_def split: if_splits\<close>)
      moreover have "client_index (mac_addr d) (put_client i ?n ?s) = Some i"
        using put_index [OF st, of ?n i "mac_addr d"] ci(1) wlan_wf_length [OF wf] Some by simp
      moreover have "handle_client_ipaddr E d s = Some (IPACM_SUCCESS, put_client i ?n ?s)"
        using change d1 by (simp add: ha no_routes_def)
      ultimately show ?thesis using ne Some by simp
    qed
  next
    case False
    then have v6: "iptype d = IPA_IP_v6" using ip by (cases "iptype d") simp_all
    let ?n = "?c\<lparr>cl_v6_addr := (cl_v6_addr ?c)[ipv6_set ?c := ipv6_addr d], ipv6_set := ipv6_set ?c + 1\<rparr>"
    have ha: "handle_client_ipaddr E d s = (if \<forall>w \<in> set (ipv6_addr d). w = 0 then Some (IPACM_SUCCESS, s)
        else if ipv6_set ?c < IPV6_NUM_ADDR \<and> ipv6_addr d \<notin> set (take (ipv6_set ?c) (cl_v6_addr ?c))
        then Some (IPACM_SUCCESS, put_client i ?n s) else Some (IPACM_FAILURE, s))"
      by (simp add: handle_client_ipaddr_def Some v6 Let_def)
    consider (zero) "\<forall>w \<in> set (ipv6_addr d). w = 0"
      | (new) "\<not> (\<forall>w \<in> set (ipv6_addr d). w = 0)" "ipv6_set ?c < IPV6_NUM_ADDR \<and> ipv6_addr d \<notin> set (take (ipv6_set ?c) (cl_v6_addr ?c))"
      | (old) "\<not> (\<forall>w \<in> set (ipv6_addr d). w = 0)" "\<not> (ipv6_set ?c < IPV6_NUM_ADDR \<and> ipv6_addr d \<notin> set (take (ipv6_set ?c) (cl_v6_addr ?c)))"
      by blast
    then show ?thesis
    proof cases
      case zero
      then show ?thesis unfolding ha if_P [OF zero] using same ne Some by simp
    next
      case old
      show ?thesis unfolding ha if_not_P [OF old(1)] if_not_P [OF old(2)] by simp
    next
      case new
      have "wdone E R txs (almost_right z families i) (almost_right z (families - {iptype d}) i) s (put_client i ?n s)"
      proof (rule wdone_put_at [OF wf ci(1)])
        show "st_client txs ?n" using ci(4) new by (simp add: st_client_def wf_client_def)
        have "client_entries E txs ?n = client_entries E txs ?c"
          using wc by (simp add: client_entries_def v6_entries_update wf_client_def)
        then show "rd_ok R (cl_kernel s) \<Longrightarrow> route_rule_set_v4 ?c \<longrightarrow> ipv4_set ?c \<Longrightarrow>
          eff R (cl_kernel s) (cl_kernel s) (mset (client_entries E txs ?c)) (mset (client_entries E txs ?n)) {#} {#}
          \<and> (route_rule_set_v4 ?n \<longrightarrow> ipv4_set ?n)" by (simp add: eff_same)
      qed (use v6 in \<open>auto simp: same_table_def client_hdrs_def wlan_hb_def right_for_def synced_def split: if_splits\<close>)
      moreover have "client_index (mac_addr d) (put_client i ?n s) = Some i"
        using put_index [of s s ?n i "mac_addr d"] ci(1) wlan_wf_length [OF wf] Some by (simp add: same_table_def)
      ultimately show ?thesis unfolding ha if_not_P [OF new(1)] if_P [OF new(2)] using ne Some by simp
    qed
  qed
qed

lemma wdone_inv_same:
  "\<lbrakk>wlan_wf txs s; \<And>R0 H0. \<lbrakk>wlan_inv E R txs R0 H0 s; P s\<rbrakk> \<Longrightarrow> Q s\<rbrakk> \<Longrightarrow> wdone E R txs P Q s s"
  unfolding wdone_def by blast

lemma no_need_right:
  assumes "\<not> needs_routes ip c \<or> power_save_set c" "route_rule_set_v4 c \<longrightarrow> ipv4_set c" "st_client txs c" "ip \<in> families" "right_for z F c"
  shows "right_for z (insert ip F) c"
  using assms by (auto simp: needs_routes_def right_for_def synced_def st_client_def wf_client_def)

lemma add_rtrules_wlan:
  assumes "tx_view (ce_iface E) = Some txs" "add_rtrules E ip hdr4 c k = Some (b, c', k')"
  shows "p_hdr_info c' = p_hdr_info c \<and> cl_mac c' = cl_mac c \<and> ipv4_header_set c' = ipv4_header_set c
    \<and> ipv6_header_set c' = ipv6_header_set c \<and> client_hdrs (wlan_hb E R txs) c' = client_hdrs (wlan_hb E R txs) c
    \<and> (needs_routes ip c \<and> route_rule_set_v4 c' \<longrightarrow> route_rule_set_v4 c \<or> ipv4_set c') \<and> ipv4_set c' = ipv4_set c
    \<and> (needs_routes ip c \<and> b \<and> ip \<in> families \<and> right_for z F c \<and> \<not> power_save_set c \<longrightarrow> right_for z (insert ip F) c')"
  using assms
  by (cases rule: add_rtrules_cases) (auto simp: client_hdrs_def wlan_hb_def right_for_def synced_def needs_routes_def)

lemma wlan_route_step:
  assumes env: "wlan_env E txs" and R: "reads_driver E R" and wf: "wlan_wf txs s" and i: "client_index mac s = Some i"
    and ip: "ip \<in> families"
  shows "\<exists>r s'. handle_wlan_client_route_rule E mac ip s = Some (r, s') \<and> client_index mac s' = Some i
    \<and> wdone E R txs (almost_right z F i) (almost_right z (insert ip F) i) s s'"
proof -
  note ci = wlan_index [OF i wf]
  let ?c = "cl_tab s ! i"
  have tx: "tx_prop (ce_iface E) = Some txs" using env by (simp add: wlan_env_def)
  show ?thesis
  proof (cases "power_save_set ?c \<or> \<not> needs_routes ip ?c")
    case True
    have "wdone E R txs (almost_right z F i) (almost_right z (insert ip F) i) s s"
    proof (rule wdone_inv_same [OF wf])
      fix R0 H0 assume inv: "wlan_inv E R txs R0 H0 s" and al: "almost_right z F i s"
      have "route_rule_set_v4 ?c \<longrightarrow> ipv4_set ?c" using inv ci(5) by (simp add: wlan_inv_def)
      from no_need_right [OF _ this ci(4) ip] al True show "almost_right z (insert ip F) i s" by (auto simp: almost_right_def)
    qed
    then show ?thesis using True i tx by (simp add: handle_wlan_client_route_rule_def Let_def)
  next
    case need: False
    obtain m k1 where m: "malloc (ce_K E) (cl_kernel s) = (m, k1)" by force
    have mT: "m" using env m unfolding wlan_env_def by (metis fst_conv)
    obtain b c' k2 where a: "add_rtrules E ip (hdr_hdl_v4 ?c) ?c k1 = Some (b, c', k2)"
      using add_rtrules_defined [OF _ wlan_view [OF env]] ci(4) unfolding st_client_def by blast
    note ab = add_rtrules_wlan [OF wlan_view [OF env] a, where R = R and F = F and z = z]
    let ?s1 = "s\<lparr>cl_kernel := k2\<rparr>"
    have st: "same_table s ?s1" by (simp add: same_table_def)
    have e: "b \<and> eff R (cl_kernel s) k2 (mset (client_entries E txs ?c)) (mset (client_entries E txs c')) {#} {#}" if "rd_ok R k2"
    proof -
      note e2 = add_rtrules_effect [OF R wlan_view [OF env] a that] need
      then have e2: "b" "eff R k1 k2 (mset (client_entries E txs ?c)) (mset (client_entries E txs c')) {#} {#}" by simp_all
      have "eff R (cl_kernel s) k1 {#} {#} {#} {#}" using driver_malloc [OF R m eff_ok [OF e2(2)]] by simp
      from eff_trans [OF this e2(2)] e2 show ?thesis by simp
    qed
    have "wdone E R txs (almost_right z F i) (almost_right z (insert ip F) i) s (put_client i c' ?s1)"
    proof (rule wdone_put_at [OF wf ci(1) st])
      show "st_client txs c'" using ci(4) ab add_rtrules_wf [OF _ wlan_view [OF env] a] by (simp add: st_client_def)
      show "p_hdr_info c' = p_hdr_info ?c" "client_hdrs (wlan_hb E R txs) c' = client_hdrs (wlan_hb E R txs) ?c" using ab by simp_all
      show "rd_ok R (cl_kernel ?s1) \<Longrightarrow> route_rule_set_v4 ?c \<longrightarrow> ipv4_set ?c \<Longrightarrow>
          eff R (cl_kernel s) (cl_kernel ?s1) (mset (client_entries E txs ?c)) (mset (client_entries E txs c')) {#} {#}
          \<and> (route_rule_set_v4 c' \<longrightarrow> ipv4_set c')" using e ab need by auto
      show "rd_ok R (cl_kernel ?s1) \<Longrightarrow> rd_ok R (cl_kernel s)" using e eff_ok by auto
      show "rd_ok R (cl_kernel ?s1) \<Longrightarrow> right_for z F ?c \<Longrightarrow> right_for z (insert ip F) c'"
        using e ab need ip by simp
    qed
    moreover have "client_index mac (put_client i c' ?s1) = Some i"
      using put_index [OF st, of c' i mac] ab ci(1) wlan_wf_length [OF wf] i by simp
    ultimately show ?thesis using need i tx m mT a by (simp add: handle_wlan_client_route_rule_def Let_def)
  qed
qed

section \<open>Messages\<close>

lemma post_same_table: "\<lbrakk>reads_driver E R; post_msgs E ms s = (b, s')\<rbrakk> \<Longrightarrow> same_table s s'
   \<and> (rd_ok R (cl_kernel s') \<longrightarrow> b \<and> eff R (cl_kernel s) (cl_kernel s') {#} {#} {#} {#})"
  using post_msgs_effect [of E R ms s b s'] by (simp add: same_table_def)

lemma wlan_msg_post:
  assumes R: "reads_driver E R" and m: "handle_lan2lan_msg_post E mac ev ip s = (r, s')"
  shows "same_table s s' \<and> (rd_ok R (cl_kernel s') \<longrightarrow> eff R (cl_kernel s) (cl_kernel s') {#} {#} {#} {#}
    \<and> (family_up ip (ce_iface E) \<longrightarrow> r = IPACM_SUCCESS))"
proof (cases "client_index mac s")
  case None
  then show ?thesis using m by (auto simp: handle_lan2lan_msg_post_def same_table_def eff_refl)
next
  case (Some i)
  let ?ms = "client_msgs ev ip (cl_tab s ! i)"
  show ?thesis
  proof (cases "?ms \<noteq> [] \<and> \<not> family_up ip (ce_iface E)")
    case True
    then show ?thesis using m Some by (auto simp: handle_lan2lan_msg_post_def same_table_def eff_refl)
  next
    case False
    obtain b s1 where p: "post_msgs E ?ms s = (b, s1)" by force
    have "s' = s1" "r = (if b then IPACM_SUCCESS else IPACM_FAILURE)"
      using m Some p False by (auto simp: handle_lan2lan_msg_post_def Let_def)
    then show ?thesis using post_same_table [OF R p] by simp
  qed
qed

lemma wlan_both_msgs:
  assumes R: "reads_driver E R" and wf: "wlan_wf txs s"
  shows "same_table s (both_msgs E mac ev s) \<and> wdone E R txs (all_right z) (all_right z) s (both_msgs E mac ev s)"
proof -
  obtain r1 s1 where m1: "handle_lan2lan_msg_post E mac ev IPA_IP_v4 s = (r1, s1)" by force
  obtain r2 s2 where m2: "handle_lan2lan_msg_post E mac ev IPA_IP_v6 s1 = (r2, s2)" by force
  have b: "both_msgs E mac ev s = s2" using m1 m2 by (simp add: both_msgs_def)
  note e1 = wlan_msg_post [OF R m1] and e2 = wlan_msg_post [OF R m2]
  have st: "same_table s s2" using e1 e2 by (simp add: same_table_def)
  have "rd_ok R (cl_kernel s2) \<Longrightarrow> eff R (cl_kernel s) (cl_kernel s2) {#} {#} {#} {#}"
    using eff_then [of R "cl_kernel s" "cl_kernel s1" "{#}" "{#}" "{#}" "{#}" "cl_kernel s2" "{#}" "{#}"] e1 e2
      eff_ok [of R "cl_kernel s1" "cl_kernel s2" "{#}" "{#}" "{#}" "{#}"] by simp
  from wdone_kernel [OF wf st this] show ?thesis using b st same_table_almost(2) [OF st] by simp
qed

lemma wlan_active:
  assumes R: "reads_driver E R" and wf: "wlan_wf txs s"
    and s': "s' = snd (handle_lan2lan_client_active E d ev s)"
  shows "same_table s s' \<and> wdone E R txs (almost_right z F i) (almost_right z F i) s s'"
proof (cases "iptype d \<noteq> IPA_IP_MAX \<and> \<not> family_up (iptype d) (ce_iface E)")
  case True
  then have "s' = s" by (simp add: s' handle_lan2lan_client_active_def)
  then show ?thesis using wdone_same [OF wf] by (simp add: same_table_def)
next
  case False
  obtain b s1 where p: "post_msgs E [L2l_post ev (iptype d) (ipv4_addr d) (ipv6_addr d) (mac_addr d)] s = (b, s1)" by force
  have "s' = s1" unfolding s' handle_lan2lan_client_active_def if_not_P [OF False] p by simp
  moreover note post_same_table [OF R p]
  ultimately show ?thesis using wdone_kernel [OF wf] same_table_almost(1) by metis
qed

section \<open>Power save and addresses\<close>

lemma no_routes_wlan [simp]:
  "p_hdr_info (no_routes ip c) = p_hdr_info c" "power_save_set (no_routes ip c) = power_save_set c"
  "ipv4_set (no_routes ip c) = ipv4_set c"
  "client_hdrs (wlan_hb E R txs) (no_routes ip c) = client_hdrs (wlan_hb E R txs) c"
  by (simp_all add: no_routes_def client_hdrs_def wlan_hb_def)

lemma delete_both:
  assumes env: "wlan_env E txs" and R: "reads_driver E R" and st: "st_client txs c"
  shows "\<exists>r1 c1 k1 r2 c2 k2. delete_rtrules E IPA_IP_v4 c k = Some (r1, c1, k1) \<and> delete_rtrules E IPA_IP_v6 c1 k1 = Some (r2, c2, k2)
    \<and> st_client txs c2 \<and> p_hdr_info c2 = p_hdr_info c \<and> cl_mac c2 = cl_mac c \<and> ipv4_set c2 = ipv4_set c
    \<and> client_hdrs (wlan_hb E R txs) c2 = client_hdrs (wlan_hb E R txs) c \<and> (route_rule_set_v4 c2 \<longrightarrow> route_rule_set_v4 c)
    \<and> (rd_ok R k2 \<longrightarrow> c2 = no_routes IPA_IP_v6 (no_routes IPA_IP_v4 c)
        \<and> eff R k k2 (mset (client_entries E txs c)) (mset (client_entries E txs c2)) {#} {#})"
proof -
  obtain b1 k1 where d1: "delete_rtrules E IPA_IP_v4 c k =
      Some (if b1 then IPACM_SUCCESS else IPACM_FAILURE, if b1 then no_routes IPA_IP_v4 c else c, k1)"
    using delete_rtrules_defined [OF _ wlan_view [OF env]] st unfolding st_client_def by blast
  define c1 where "c1 = (if b1 then no_routes IPA_IP_v4 c else c)"
  have st1: "st_client txs c1" using st by (simp add: c1_def)
  obtain b2 k2 where d2: "delete_rtrules E IPA_IP_v6 c1 k1 =
      Some (if b2 then IPACM_SUCCESS else IPACM_FAILURE, if b2 then no_routes IPA_IP_v6 c1 else c1, k2)"
    using delete_rtrules_defined [OF _ wlan_view [OF env]] st1 unfolding st_client_def by blast
  define c2 where "c2 = (if b2 then no_routes IPA_IP_v6 c1 else c1)"
  note e1 = delete_rtrules_effect [OF R wlan_view [OF env] d1 [folded c1_def]]
  note e2 = delete_rtrules_effect [OF R wlan_view [OF env] d2 [folded c2_def]]
  have "c2 = no_routes IPA_IP_v6 (no_routes IPA_IP_v4 c) \<and> eff R k k2 (mset (client_entries E txs c)) (mset (client_entries E txs c2)) {#} {#}"
    if ok: "rd_ok R k2"
  proof -
    note e2 = e2 [OF ok]
    note e1 = e1 [OF eff_ok [OF conjunct2 [OF conjunct2 [OF e2]]]]
    have "eff R k k2 (mset (client_entries E txs c)) (mset (client_entries E txs c2)) {#} {#}"
      by (rule eff_then [OF conjunct2 [OF conjunct2 [OF e1]] conjunct2 [OF conjunct2 [OF e2]]])
    moreover have "c2 = no_routes IPA_IP_v6 (no_routes IPA_IP_v4 c)" using e1 e2 by simp
    ultimately show ?thesis by simp
  qed
  moreover have "st_client txs c2" using st1 by (simp add: c2_def)
  moreover have "p_hdr_info c2 = p_hdr_info c" "cl_mac c2 = cl_mac c" "ipv4_set c2 = ipv4_set c"
    "client_hdrs (wlan_hb E R txs) c2 = client_hdrs (wlan_hb E R txs) c" "route_rule_set_v4 c2 \<longrightarrow> route_rule_set_v4 c"
    by (simp_all add: c2_def c1_def) (simp add: no_routes_def)
  ultimately show ?thesis using d1 [folded c1_def] d2 [folded c2_def] by blast
qed

lemma pwrsave_step:
  assumes env: "wlan_env E txs" and R: "reads_driver E R" and wf: "wlan_wf txs s"
  shows "\<exists>r s'. handle_wlan_client_pwrsave E mac s = Some (r, s') \<and> wdone E R txs (all_right True) (all_right True) s s'"
proof (cases "client_index mac s")
  case None
  then show ?thesis using wdone_same [OF wf] by (simp add: handle_wlan_client_pwrsave_def)
next
  case (Some i)
  note ci = wlan_index [OF Some wf]
  let ?c = "cl_tab s ! i"
  let ?s1 = "if ipv4_set ?c then log_call (Nat_pwr_save (cl_v4_addr ?c)) s else s"
  show ?thesis
  proof (cases "power_save_set ?c")
    case True
    then show ?thesis using Some wdone_same [OF wf] by (simp add: handle_wlan_client_pwrsave_def Let_def)
  next
    case False
    obtain r1 c1 k1 r2 c2 k2 where d: "delete_rtrules E IPA_IP_v4 ?c (cl_kernel s) = Some (r1, c1, k1)"
        "delete_rtrules E IPA_IP_v6 c1 k1 = Some (r2, c2, k2)"
      and c2: "st_client txs c2" "p_hdr_info c2 = p_hdr_info ?c" "ipv4_set c2 = ipv4_set ?c"
        "client_hdrs (wlan_hb E R txs) c2 = client_hdrs (wlan_hb E R txs) ?c" "route_rule_set_v4 c2 \<longrightarrow> route_rule_set_v4 ?c"
      and e: "rd_ok R k2 \<Longrightarrow> c2 = no_routes IPA_IP_v6 (no_routes IPA_IP_v4 ?c)
        \<and> eff R (cl_kernel s) k2 (mset (client_entries E txs ?c)) (mset (client_entries E txs c2)) {#} {#}"
      using delete_both [OF env R ci(4), of "cl_kernel s"] by blast
    define s1 where "s1 = ?s1\<lparr>cl_kernel := k2\<rparr>"
    let ?n = "c2\<lparr>power_save_set := True\<rparr>"
    have st: "same_table s s1" "cl_kernel s1 = k2" by (simp_all add: s1_def same_table_def)
    have en: "client_entries E txs ?n = client_entries E txs c2" by (simp add: client_entries_def)
    have "wdone E R txs (almost_right True families i) (almost_right True families i) s (put_client i ?n s1)"
    proof (rule wdone_put_at [OF wf ci(1) st(1)])
      show "st_client txs ?n" using c2(1) by (simp add: st_client_def wf_client_def)
      show "client_hdrs (wlan_hb E R txs) ?n = client_hdrs (wlan_hb E R txs) ?c"
        unfolding c2(4) [symmetric] by (simp add: client_hdrs_def wlan_hb_def)
      show "rd_ok R (cl_kernel s1) \<Longrightarrow> route_rule_set_v4 ?c \<longrightarrow> ipv4_set ?c \<Longrightarrow>
          eff R (cl_kernel s) (cl_kernel s1) (mset (client_entries E txs ?c)) (mset (client_entries E txs ?n)) {#} {#}
          \<and> (route_rule_set_v4 ?n \<longrightarrow> ipv4_set ?n)" unfolding en using e c2 st(2) by auto
      show "rd_ok R (cl_kernel s1) \<Longrightarrow> rd_ok R (cl_kernel s)" using e eff_ok st(2) by auto
      show "rd_ok R (cl_kernel s1) \<Longrightarrow> right_for True families ?n" using e st(2) by (auto simp: right_for_def no_routes_def)
    qed (use c2 in simp)
    then have "wdone E R txs (all_right True) (all_right True) s (put_client i ?n s1)"
      by (rule wdone_weaken) (simp_all add: almost_all)
    then show ?thesis using Some False d by (simp add: handle_wlan_client_pwrsave_def Let_def s1_def)
  qed
qed

lemma wdone_log: "wlan_wf txs s \<Longrightarrow> wdone E R txs (almost_right z F i) (almost_right z F i) s (log_call x s)"
  by (rule wdone_kernel) (simp_all add: same_table_def eff_refl almost_right_def)

lemma log_index: "client_index mac (log_call x s) = client_index mac s"
  by (rule same_table_index) (simp add: same_table_def)

lemma recover_step:
  assumes env: "wlan_env E txs" and R: "reads_driver E R" and wf: "wlan_wf txs s"
  shows "\<exists>s'. wlan_recover E mac s = Some s' \<and> wdone E R txs (all_right z) (all_right z) s s'"
proof (cases "client_index mac s")
  case None
  then show ?thesis using wdone_same [OF wf] by (simp add: wlan_recover_def)
next
  case (Some i)
  note ci = wlan_index [OF Some wf]
  let ?c = "cl_tab s ! i"
  show ?thesis
  proof (cases "power_save_set ?c")
    case False
    then show ?thesis using Some wdone_same [OF wf] by (simp add: wlan_recover_def)
  next
    case True
    let ?n = "?c\<lparr>power_save_set := False\<rparr>"
    define s1 where "s1 = put_client i ?n s"
    have st: "same_table s s" by (simp add: same_table_def)
    have t1: "cl_tab s1 ! i = ?n" unfolding s1_def by (rule put_nth [OF st ci(2)])
    have i1: "client_index mac s1 = Some i"
      unfolding s1_def using put_index [OF st, of ?n i mac] ci(1) wlan_wf_length [OF wf] Some by simp
    have w1: "wdone E R txs (almost_right z families i) (almost_right z {} i) s s1" unfolding s1_def
    proof (rule wdone_put_at [OF wf ci(1) st])
      show "st_client txs ?n" using ci(4) by (simp add: st_client_def wf_client_def)
    qed (simp_all add: client_hdrs_def wlan_hb_def client_entries_def eff_same right_for_def)
    text \<open>A family without an address needs no rules.\<close>
    have skip: "wdone E R txs (almost_right z F i) (almost_right z (insert ip F) i) s' s'"
      if wf': "wlan_wf txs s'" and i': "client_index mac s' = Some i" and ip: "ip \<in> families"
        and no: "\<not> needs_routes ip (cl_tab s' ! i)" for s' F ip
    proof (rule wdone_inv_same [OF wf'])
      note ci' = wlan_index [OF i' wf']
      fix R0 H0 assume inv: "wlan_inv E R txs R0 H0 s'" and al: "almost_right z F i s'"
      have "route_rule_set_v4 (cl_tab s' ! i) \<longrightarrow> ipv4_set (cl_tab s' ! i)" using inv ci'(5) by (simp add: wlan_inv_def)
      from no_need_right [OF _ this ci'(4) ip] al no show "almost_right z (insert ip F) i s'" by (auto simp: almost_right_def)
    qed
    obtain r2 s2 where r2: "handle_wlan_client_route_rule E mac IPA_IP_v4 s1 = Some (r2, s2)" "client_index mac s2 = Some i"
        "wdone E R txs (almost_right z {} i) (almost_right z {IPA_IP_v4} i) s1 s2"
      using wlan_route_step [OF env R wdone_wf [OF w1] i1, where ip = IPA_IP_v4 and F = "{}" and z = z] by auto
    define s3 where "s3 = (if ipv4_set (cl_tab s1 ! i) then log_call (Nat_pwr_reset (cl_v4_addr (cl_tab s2 ! i))) s2 else s1)"
    have i3: "client_index mac s3 = Some i" by (simp add: s3_def log_index r2(2) i1)
    have w3: "wdone E R txs (almost_right z {} i) (almost_right z {IPA_IP_v4} i) s1 s3"
      using wdone_trans [OF r2(3) wdone_log [OF wdone_wf [OF r2(3)]]] skip [OF wdone_wf [OF w1] i1, of IPA_IP_v4 "{}"]
      by (simp add: s3_def needs_routes_def)
    obtain r4 s4 where r4: "handle_wlan_client_route_rule E mac IPA_IP_v6 s3 = Some (r4, s4)"
        "wdone E R txs (almost_right z {IPA_IP_v4} i) (almost_right z {IPA_IP_v6, IPA_IP_v4} i) s3 s4"
      using wlan_route_step [OF env R wdone_wf [OF w3] i3, where ip = IPA_IP_v6 and F = "{IPA_IP_v4}" and z = z] by auto
    let ?s4 = "if ipv6_set (cl_tab s3 ! i) \<noteq> 0 then s4 else s3"
    have w4: "wdone E R txs (almost_right z {IPA_IP_v4} i) (almost_right z {IPA_IP_v6, IPA_IP_v4} i) s3 ?s4"
      using r4(2) skip [OF wdone_wf [OF w3] i3, of IPA_IP_v6 "{IPA_IP_v4}"] by (simp add: needs_routes_def)
    have "wdone E R txs (all_right z) (all_right z) s ?s4"
      using wdone_trans [OF wdone_trans [OF w1 w3] w4] by (rule wdone_weaken) (simp_all add: almost_all insert_commute)
    moreover have x3: "(if ipv4_set (cl_tab s1 ! i)
        then map_option (\<lambda>(_, s2). log_call (Nat_pwr_reset (cl_v4_addr (cl_tab s2 ! i))) s2) (handle_wlan_client_route_rule E mac IPA_IP_v4 s1)
        else Some s1) = Some s3" using r2(1) by (simp add: s3_def)
    have nns: "\<not> \<not> power_save_set ?c" using True by simp
    have "wlan_recover E mac s = (case (if ipv4_set (cl_tab s1 ! i)
        then map_option (\<lambda>(_, s2). log_call (Nat_pwr_reset (cl_v4_addr (cl_tab s2 ! i))) s2) (handle_wlan_client_route_rule E mac IPA_IP_v4 s1)
        else Some s1) of None \<Rightarrow> None
      | Some s2 \<Rightarrow> if ipv6_set (cl_tab s2 ! i) \<noteq> 0 then map_option snd (handle_wlan_client_route_rule E mac IPA_IP_v6 s2) else Some s2)"
      unfolding wlan_recover_def Some option.case if_not_P [OF nns] Let_def s1_def by (rule refl)
    then have "wlan_recover E mac s = Some ?s4" unfolding x3 option.case using r4(1) by simp
    ultimately show ?thesis by blast
  qed
qed

lemma addr_add_step:
  assumes env: "wlan_env E txs" and R: "reads_driver E R" and wf: "wlan_wf txs s" and ip: "iptype d \<noteq> IPA_IP_MAX"
  shows "\<exists>s'. wlan_addr_add E d s = Some s' \<and> wdone E R txs (all_right z) (all_right z) s s'"
proof -
  obtain r s1 where a: "handle_client_ipaddr E d s = Some (r, s1)" "client_index (mac_addr d) s1 = client_index (mac_addr d) s"
    and w: "if r = IPACM_FAILURE then s1 = s else \<exists>i. client_index (mac_addr d) s = Some i
        \<and> wdone E R txs (almost_right z families i) (almost_right z (families - {iptype d}) i) s s1"
    using wlan_ipaddr_step [OF env R wf ip] by blast
  show ?thesis
  proof (cases "r = IPACM_FAILURE")
    case True
    then show ?thesis using a w wdone_same [OF wf] by (simp add: wlan_addr_add_def)
  next
    case False
    then obtain i where i: "client_index (mac_addr d) s = Some i"
      and w1: "wdone E R txs (almost_right z families i) (almost_right z (families - {iptype d}) i) s s1" using w by auto
    define s2 where "s2 = snd (handle_lan2lan_client_active E d IPA_LAN_CLIENT_ACTIVE s1)"
    note w2 = wlan_active [OF R wdone_wf [OF w1] s2_def, where F = "families - {iptype d}" and i = i and z = z]
    have i2: "client_index (mac_addr d) s2 = Some i" using same_table_index w2 a(2) i by metis
    have ipf: "iptype d \<in> families" using ip by (cases "iptype d") simp_all
    obtain r3 s3 where r3: "handle_wlan_client_route_rule E (mac_addr d) (iptype d) s2 = Some (r3, s3)"
        "wdone E R txs (almost_right z (families - {iptype d}) i) (almost_right z (insert (iptype d) (families - {iptype d})) i) s2 s3"
      using wlan_route_step [OF env R wdone_wf [OF conjunct2 [OF w2]] i2 ipf] by blast
    have fam: "insert (iptype d) (families - {iptype d}) = families" using ipf by blast
    note w3 = wdone_trans [OF wdone_trans [OF w1 conjunct2 [OF w2]] r3(2) [unfolded fam]]
    let ?s4 = "if iptype d = IPA_IP_v4 then log_call (Ct_add d) s3 else s3"
    have "wdone E R txs (almost_right z families i) (almost_right z families i) s ?s4"
      using w3 wdone_trans [OF w3 wdone_log [OF wdone_wf [OF w3]]] by simp
    then have "wdone E R txs (all_right z) (all_right z) s ?s4" by (rule wdone_weaken) (simp_all add: almost_all)
    moreover have "wlan_addr_add E d s = Some ?s4"
      using a(1) False r3(1) by (simp add: wlan_addr_add_def s2_def [symmetric])
    ultimately show ?thesis by blast
  qed
qed

end
