(* ===== verification/Ipacm_WlanRefine.thy ===== *)
theory Ipacm_WlanRefine
  imports Ipacm_WlanRun
begin

text \<open>
  Clients that come and go and the reset of a family, and runs of all events of an access point.
\<close>

section \<open>A new client\<close>

lemma attrib_mac_cases: "attrib_mac as = id \<or> (\<exists>m. attrib_mac as = (\<lambda>_. m))"
proof (induction as)
  case (Cons a as)
  then show ?case by (cases a) (auto simp: fun_eq_iff)
qed (simp add: fun_eq_iff)

lemma attrib_mac_idem: "attrib_mac as (attrib_mac as m) = attrib_mac as m"
  using attrib_mac_cases [of as] by auto

lemma set_mac_touch: "set_mac as = touch_mac (attrib_mac as)"
  by (rule ext) (simp add: set_mac_def touch_mac_def)

lemma wlan_fill_defined:
  "\<lbrakk>\<forall>a \<in> set as. attrib_fits n a; length buf = n\<rbrakk> \<Longrightarrow> wlan_fill as buf \<noteq> None"
proof (induction as arbitrary: buf)
  case (Cons a as)
  then show ?case by (cases a) (auto simp: put_bytes_def)
qed simp

lemma copy_partial_length: "copy_partial E t k = (Some (h, buf), k') \<Longrightarrow> length buf = IPA_HDR_MAX_SIZE (ce_K E)"
  by (auto simp: copy_partial_def split: if_splits option.splits prod.splits)

lemma new_header_total:
  assumes "\<forall>h buf. length buf = IPA_HDR_MAX_SIZE (ce_K E) \<longrightarrow> fill h buf \<noteq> None"
  shows "\<exists>b c' k'. new_header E ip name fill touch txs c k = Some (b, c', k')"
proof (cases "find (\<lambda>t. tx_ip t = ip) txs")
  case (Some t)
  obtain res k1 where c: "copy_partial E t k = (res, k1)" by force
  show ?thesis
  proof (cases res)
    case hb: (Some x)
    obtain h buf where x: "x = (h, buf)" by force
    obtain bytes where "fill h buf = Some bytes"
      using assms copy_partial_length [OF c [unfolded hb x]] by blast
    then show ?thesis using Some c hb x by (auto simp: new_header_def split: prod.splits option.splits)
  qed (use Some c in \<open>auto simp: new_header_def\<close>)
qed (auto simp: new_header_def)

lemma new_headers_total:
  assumes "\<forall>h buf. length buf = IPA_HDR_MAX_SIZE (ce_K E) \<longrightarrow> fill h buf \<noteq> None"
  shows "\<exists>b c' k'. new_headers E n4 n6 fill touch txs c k = Some (b, c', k')"
proof -
  obtain b1 c1 k1 where "new_header E IPA_IP_v4 n4 fill touch txs c k = Some (b1, c1, k1)"
    using new_header_total [OF assms] by blast
  moreover obtain b2 c2 k2 where "new_header E IPA_IP_v6 n6 fill touch txs c1 k1 = Some (b2, c2, k2)"
    using new_header_total [OF assms] by blast
  ultimately show ?thesis by (cases b1) (auto simp: new_headers_def)
qed

lemma new_header_keeps:
  assumes "new_header E ip name fill touch txs c k = Some (b, c', k')" "P c" "\<And>c. P c \<Longrightarrow> P (touch c)"
    and "\<And>h c. \<lbrakk>has_family ip txs; P c\<rbrakk> \<Longrightarrow> P (set_header ip h c)"
  shows "P c'"
  using assms by (auto simp: new_header_def has_family_def split: option.splits prod.splits)

lemma new_headers_keep:
  assumes n: "new_headers E n4 n6 fill touch txs c k = Some (b, c', k')" and P: "P c" "\<And>c. P c \<Longrightarrow> P (touch c)"
    and h: "\<And>ip h c. \<lbrakk>ip \<in> families; has_family ip txs; P c\<rbrakk> \<Longrightarrow> P (set_header ip h c)"
  shows "P c'"
proof -
  obtain b1 c1 k1 where n1: "new_header E IPA_IP_v4 n4 fill touch txs c k = Some (b1, c1, k1)"
    using n by (auto simp: new_headers_def split: option.splits)
  have c1: "P c1" by (rule new_header_keeps [OF n1 P]) (use h in auto)
  show ?thesis
  proof (cases b1)
    case True
    then have n2: "new_header E IPA_IP_v6 n6 fill touch txs c1 k1 = Some (b, c', k')" using n n1 by (simp add: new_headers_def)
    show ?thesis by (rule new_header_keeps [OF n2 c1 P(2)]) (use h in auto)
  qed (use n n1 c1 in \<open>simp add: new_headers_def\<close>)
qed

lemma with_header_wlan:
  assumes "st_client txs c" "p_hdr_info c = Some as" "c' = with_header txs IPA_IP_v6 h6 (with_header txs IPA_IP_v4 h4 c)"
  shows "client_hdrs (wlan_hb E R txs) ((fresh_client c')\<lparr>power_save_set := x\<rparr>) =
    (if has_family IPA_IP_v4 txs then [(h4, full_bytes E R (\<lambda>h. wlan_fill as) txs IPA_IP_v4)] else [])
    @ (if has_family IPA_IP_v6 txs then [(h6, full_bytes E R (\<lambda>h. wlan_fill as) txs IPA_IP_v6)] else [])"
  using assms by (auto simp: client_hdrs_def with_header_def set_header_def fresh_client_def wlan_hb_def st_client_def)

lemma st_touch: "st_client txs (touch_mac tm c) = st_client txs c" "p_hdr_info (touch_mac tm c) = p_hdr_info c"
  "st_client txs (c\<lparr>p_hdr_info := p\<rparr>) = st_client txs c"
  by (simp_all add: st_client_def wf_client_def touch_mac_def)

lemma wlan_attach_step:
  assumes N: "eth_names E R txs" and st: "st_client txs c" "p_hdr_info c = Some as"
    and n: "new_headers E (header_name f ''IEEE802_3_v4'' j) (header_name f ''IEEE802_3_v6'' j) (\<lambda>h. wlan_fill as) (set_mac as) txs c k1
      = Some (b, c1, k2)"
    and k1: "rd_ok R k1 \<Longrightarrow> eff R k k1 {#} {#} {#} {#}" and ok: "rd_ok R k2"
  shows "b \<and> eff R k k2 {#} {#} {#} (mset (client_hdrs (wlan_hb E R txs) ((fresh_client c1)\<lparr>power_save_set := x\<rparr>)))"
proof -
  have R: "reads_driver E R" and fit: "hdrs_fit E R txs" using N by (simp_all add: eth_names_def)
  have n4: "length (header_name f ''IEEE802_3_v4'' j) \<le> IPA_RESOURCE_NAME_MAX (ce_K E)"
    "length (header_name f ''IEEE802_3_v6'' j) \<le> IPA_RESOURCE_NAME_MAX (ce_K E)"
    using N by (simp_all add: header_name_length eth_names_def)
  let ?d = "if has_family IPA_IP_v4 txs \<or> has_family IPA_IP_v6 txs then touch_mac (attrib_mac as) c else c"
  from new_headers_effect [OF R n [unfolded set_mac_touch] ok fit n4 attrib_mac_idem] obtain h4 h6 where
    b: b and c1: "c1 = with_header txs IPA_IP_v6 h6 (with_header txs IPA_IP_v4 h4 ?d)"
    and e: "eff R k1 k2 {#} {#} {#}
        (mset ((if has_family IPA_IP_v4 txs then [(h4, full_bytes E R (\<lambda>h. wlan_fill as) txs IPA_IP_v4)] else [])
             @ (if has_family IPA_IP_v6 txs then [(h6, full_bytes E R (\<lambda>h. wlan_fill as) txs IPA_IP_v6)] else [])))"
    by auto
  have d: "st_client txs ?d" "p_hdr_info ?d = Some as" using st by (simp_all add: st_touch)
  from with_header_wlan [OF d c1, of E R x] eff_trans [OF k1 [OF eff_ok [OF e]] e] b show ?thesis by simp
qed

lemma wlan_out:
  assumes "wlan_wf txs s" "st_client txs c" shows "wlan_wf txs (put_client (cl_num s) c (s\<lparr>cl_kernel := k\<rparr>))"
  using assms set_update_subset_insert [of "cl_tab s" "cl_num s" c]
  by (auto simp: wlan_wf_def live_put) (auto simp: put_client_def)

lemma wdone_append:
  assumes wf: "wlan_wf txs s" and room: "cl_num s < WIFI_CLIENTS" and c: "st_client txs c" "p_hdr_info c \<noteq> None"
      "\<not> route_rule_set_v4 c" "route_rule_set_v6 c = 0" "\<not> ipv4_set c" "ipv6_set c = 0" "\<not> power_save_set c"
    and s': "cl_tab s' = (cl_tab s)[cl_num s := c]" "cl_num s' = cl_num s + 1"
    and e: "rd_ok R (cl_kernel s') \<Longrightarrow> eff R (cl_kernel s) (cl_kernel s') {#} {#} {#} (mset (client_hdrs (wlan_hb E R txs) c))"
  shows "wdone E R txs (all_right z) (all_right z) s s'"
proof -
  have n: "cl_num s < length (cl_tab s)" using wf room by (simp add: wlan_wf_def)
  have l: "live s' = live s @ [c]" using n s' by (simp add: live_def take_Suc_conv_app_nth)
  have "wlan_wf txs s'"
    using wf room c s' l set_update_subset_insert [of "cl_tab s" "cl_num s" c] by (auto simp: wlan_wf_def)
  moreover have "wlan_inv E R txs R0 H0 s'" if "rd_ok R (cl_kernel s')" "wlan_inv E R txs R0 H0 s" for R0 H0
  proof -
    have "client_entries E txs c = []" using c by (simp add: client_entries_def)
    from account_append [OF _ l this e [OF that(1)]] that(2) l c(3) show ?thesis by (auto simp: wlan_inv_def)
  qed
  moreover have "all_right z s \<Longrightarrow> all_right z s'"
    using n c s' by (auto simp: all_right_def nth_list_update less_Suc_eq right_for_def synced_def)
  ultimately show ?thesis using eff_ok [OF e] by (simp add: wdone_def)
qed

lemma malloc_ok:
  assumes "wlan_env E txs" "reads_driver E R"
  shows "\<exists>k'. malloc (ce_K E) k = (True, k') \<and> (rd_ok R k' \<longrightarrow> eff R k k' {#} {#} {#} {#})"
proof -
  obtain m k' where m: "malloc (ce_K E) k = (m, k')" by force
  then have m using assms(1) unfolding wlan_env_def by (metis fst_conv)
  then show ?thesis using m driver_malloc [OF assms(2) m] by simp
qed

lemma init_ex_step:
  assumes env: "wlan_env E txs" and N: "eth_names E R txs" and wf: "wlan_wf txs s"
    and fit: "\<forall>a \<in> set as. attrib_fits (IPA_HDR_MAX_SIZE (ce_K E)) a"
  shows "\<exists>r s'. handle_wlan_client_init_ex E as s = Some (r, s') \<and> wdone E R txs (all_right z) (all_right z) s s'"
proof (cases "cl_num s \<ge> WIFI_CLIENTS \<or> total_num_wifi_clients s \<ge> int WIFI_CLIENTS")
  case True
  then show ?thesis using wdone_same [OF wf] by (simp add: handle_wlan_client_init_ex_def)
next
  case False
  have R: "reads_driver E R" using N by (simp add: eth_names_def)
  have room: "cl_num s < WIFI_CLIENTS" using False by simp
  let ?n = "cl_num s" and ?f = "ce_iface E"
  let ?c = "(cl_tab s ! ?n)\<lparr>p_hdr_info := Some as\<rparr>"
  have st: "st_client txs ?c" using wlan_wf_nth [OF wf, of ?n] room wf by (simp add: wlan_wf_def st_touch)
  obtain k1 where m1: "malloc (ce_K E) (cl_kernel s) = (True, k1)" "rd_ok R k1 \<Longrightarrow> eff R (cl_kernel s) k1 {#} {#} {#} {#}"
    using malloc_ok [OF env R] by blast
  obtain k2 where m2: "malloc (ce_K E) k1 = (True, k2)" "rd_ok R k2 \<Longrightarrow> eff R k1 k2 {#} {#} {#} {#}"
    using malloc_ok [OF env R] by blast
  have e2: "rd_ok R k2 \<Longrightarrow> eff R (cl_kernel s) k2 {#} {#} {#} {#}"
    using eff_then [OF m1(2) m2(2)] eff_ok [OF m2(2)] by simp
  obtain b c1 k3 where n: "new_headers E (header_name ?f ''IEEE802_3_v4'' (header_name_count s))
      (header_name ?f ''IEEE802_3_v6'' (header_name_count s)) (\<lambda>h. wlan_fill as) (set_mac as) txs ?c k2 = Some (b, c1, k3)"
    using new_headers_total [of E "\<lambda>h. wlan_fill as"] wlan_fill_defined [OF fit] by blast
  have c1: "st_client txs c1 \<and> p_hdr_info c1 = Some as"
  proof (rule new_headers_keep [OF n, of "\<lambda>c. st_client txs c \<and> p_hdr_info c = Some as"])
    show "\<And>ip h c. \<lbrakk>ip \<in> families; has_family ip txs; st_client txs c \<and> p_hdr_info c = Some as\<rbrakk>
        \<Longrightarrow> st_client txs (set_header ip h c) \<and> p_hdr_info (set_header ip h c) = Some as"
      by (intro conjI st_set_header) (auto simp: set_header_def)
  qed (use st in \<open>simp_all add: set_mac_touch st_touch\<close>)
  note e = wlan_attach_step [OF N st _ n e2, of False]
  let ?d = "(fresh_client c1)\<lparr>power_save_set := False\<rparr>"
  let ?s' = "put_client ?n ?d (s\<lparr>cl_kernel := k3, cl_num := ?n + 1, header_name_count := header_name_count s + 1,
      total_num_wifi_clients := total_num_wifi_clients s + 1\<rparr>)"
  have res: "handle_wlan_client_init_ex E as s =
      (if b then Some (IPACM_SUCCESS, ?s') else Some (IPACM_FAILURE, put_client ?n c1 (s\<lparr>cl_kernel := k3\<rparr>)))"
    using env False m1(1) m2(1) n by (simp add: handle_wlan_client_init_ex_def wlan_env_def Let_def)
  show ?thesis
  proof (cases b)
    case False
    have "wdone E R txs (all_right z) (all_right z) s (put_client ?n c1 (s\<lparr>cl_kernel := k3\<rparr>))"
      by (rule wdone_fails [OF wlan_out [OF wf conjunct1 [OF c1]]]) (use e False in auto)
    then show ?thesis using res False by simp
  next
    case True
    have "wdone E R txs (all_right z) (all_right z) s ?s'"
    proof (rule wdone_append [OF wf room, of ?d])
      show "st_client txs ?d" using c1 by (simp add: st_client_def wf_client_def fresh_client_def)
      show "rd_ok R (cl_kernel ?s') \<Longrightarrow> eff R (cl_kernel s) (cl_kernel ?s') {#} {#} {#} (mset (client_hdrs (wlan_hb E R txs) ?d))"
        using e by simp
    qed (use c1 in \<open>simp_all add: fresh_client_def put_client_def\<close>)
    then show ?thesis using res True by simp
  qed
qed

section \<open>A client goes\<close>

lemma wlan_shift_env:
  "wlan_env E txs \<Longrightarrow> wlan_shift E c d = (shift_client (length txs) c d)\<lparr>p_hdr_info := p_hdr_info c\<rparr>"
  by (auto simp: wlan_env_def wlan_shift_def split: option.splits prod.splits)

lemma wlan_shift_keeps:
  assumes env: "wlan_env E txs" and st: "st_client txs c" "st_client txs d"
  shows "st_client txs (wlan_shift E c d)" "p_hdr_info (wlan_shift E c d) = p_hdr_info c"
    "client_entries E txs (wlan_shift E c d) = client_entries E txs c"
    "client_hdrs (wlan_hb E R txs) (wlan_shift E c d) = client_hdrs (wlan_hb E R txs) c"
    "(route_rule_set_v4 (wlan_shift E c d) \<longrightarrow> ipv4_set (wlan_shift E c d)) = (route_rule_set_v4 c \<longrightarrow> ipv4_set c)"
    "\<lbrakk>\<not> power_save_set d; right_for False families c\<rbrakk> \<Longrightarrow> right_for False families (wlan_shift E c d)"
proof -
  note s = wlan_shift_env [OF env, of c d]
  show "st_client txs (wlan_shift E c d)" unfolding s st_touch by (rule st_shift [OF st])
  show "p_hdr_info (wlan_shift E c d) = p_hdr_info c" by (simp add: s)
  show "client_entries E txs (wlan_shift E c d) = client_entries E txs c"
  proof -
    have "client_entries E txs (x\<lparr>p_hdr_info := y\<rparr>) = client_entries E txs x" for x :: ipa_wlan_client and y
      by (simp add: client_entries_def)
    then show ?thesis using shift_client_entries [of "length txs" c d E txs] st by (simp add: s st_client_def)
  qed
  show "client_hdrs (wlan_hb E R txs) (wlan_shift E c d) = client_hdrs (wlan_hb E R txs) c"
    by (simp add: s client_hdrs_def wlan_hb_def shift_client_def)
  show "(route_rule_set_v4 (wlan_shift E c d) \<longrightarrow> ipv4_set (wlan_shift E c d)) = (route_rule_set_v4 c \<longrightarrow> ipv4_set c)"
    by (simp add: s shift_client_def)
  show "right_for False families (wlan_shift E c d)" if "\<not> power_save_set d" "right_for False families c"
    using that by (auto simp: s shift_client_def right_for_def synced_def split: if_splits)
qed

lemma all_right_live: "cl_num s \<le> length (cl_tab s) \<Longrightarrow> all_right z s \<longleftrightarrow> (\<forall>c \<in> set (live s). right_for z families c)"
  by (simp add: all_right_def all_set_conv_all_nth live_length live_nth)

lemma wlan_live_st: "\<lbrakk>wlan_wf txs s; c \<in> set (live s)\<rbrakk> \<Longrightarrow> st_client txs c"
  by (auto simp: wlan_wf_def live_def dest: in_set_takeD)

text \<open>A property that a move keeps holds of all clients after a removal when it held of all before.\<close>

lemma remove_keeps:
  assumes i: "i < cl_num s" "cl_num s \<le> length (cl_tab s)" and P: "\<forall>c \<in> set (live s). P c"
    and mv: "\<And>c d. \<lbrakk>c \<in> set (live s); d \<in> set (live s)\<rbrakk> \<Longrightarrow> P (mv c d)"
  shows "\<forall>c \<in> set (live (remove_entry mv i s)). P c"
proof -
  have "\<forall>c \<in> set (live s). \<forall>d \<in> set (live s). P (mv c d) = P c" using P mv by blast
  note m = remove_entry_map [OF i, of P mv, OF this]
  have "False \<notin> set (map P (live (remove_entry mv i s)))"
    unfolding m using P by (auto dest: in_set_takeD in_set_dropD)
  then show ?thesis by auto
qed

lemma wdone_remove:
  assumes env: "wlan_env E txs" and wf: "wlan_wf txs s" and i: "i < cl_num s"
    and z: "client_entries E txs (cl_tab s ! i) = []" "client_hdrs (wlan_hb E R txs) (cl_tab s ! i) = []"
  shows "wdone E R txs (\<lambda>s. p \<longrightarrow> all_right False s) (\<lambda>s. p \<longrightarrow> all_right False s) s (remove_entry (wlan_shift E) i s)"
proof -
  let ?s = "remove_entry (wlan_shift E) i s"
  note len = wlan_wf_length [OF wf]
  note k = wlan_shift_keeps [OF env wlan_live_st [OF wf] wlan_live_st [OF wf]]
  have l: "cl_num ?s \<le> length (cl_tab ?s)" "length (cl_tab ?s) = WIFI_CLIENTS" "cl_num ?s \<le> WIFI_CLIENTS" "cl_kernel ?s = cl_kernel s"
    using i len wf by (auto simp: remove_entry_def live_length wlan_wf_def)
  have "\<forall>c \<in> set (cl_tab ?s). st_client txs c"
    using wf wlan_shift_keeps(1) [OF env] by (auto simp: wlan_wf_def dest!: remove_entry_set)
  moreover have "\<forall>c \<in> set (live ?s). p_hdr_info c \<noteq> None"
    by (rule remove_keeps [OF i len]) (use wf k(2) in \<open>auto simp: wlan_wf_def\<close>)
  ultimately have "wlan_wf txs ?s" using l by (simp add: wlan_wf_def)
  moreover have "wlan_inv E R txs R0 H0 ?s" if inv: "wlan_inv E R txs R0 H0 s" for R0 H0
  proof -
    have "account E txs R (wlan_hb E R txs) R0 H0 ?s"
      using inv k(3,4) by (intro account_remove [OF _ i len z]) (simp_all add: wlan_inv_def)
    moreover have "\<forall>c \<in> set (live ?s). route_rule_set_v4 c \<longrightarrow> ipv4_set c"
      by (rule remove_keeps [OF i len]) (use inv k(5) in \<open>simp_all add: wlan_inv_def\<close>)
    ultimately show ?thesis by (simp add: wlan_inv_def)
  qed
  moreover have "all_right False ?s" if "all_right False s"
  proof -
    have a: "\<forall>c \<in> set (live s). right_for False families c" using that all_right_live [OF len] by blast
    have "\<forall>c \<in> set (live ?s). right_for False families c"
      by (rule remove_keeps [OF i len a], rule k(6)) (use a in \<open>auto simp: right_for_def split: if_splits\<close>)
    then show ?thesis using all_right_live [OF l(1)] by blast
  qed
  ultimately show ?thesis using l(4) by (simp add: wdone_def)
qed

lemma release_keeps:
  fixes c :: ipa_wlan_client
  assumes st: "st_client txs c" and tx: "tx_view (ce_iface E) = Some txs" and r: "release_client E c k = Some (b, c', k')"
  shows "p_hdr_info c' = p_hdr_info c \<and> power_save_set c' = power_save_set c"
proof -
  obtain b1 k1 where d1: "delete_rtrules E IPA_IP_v4 c k =
      Some (if b1 then IPACM_SUCCESS else IPACM_FAILURE, if b1 then no_routes IPA_IP_v4 c else c, k1)"
    using delete_rtrules_defined [OF _ tx] st unfolding st_client_def by blast
  define c1 where "c1 = (if b1 then no_routes IPA_IP_v4 c else c)"
  have c1: "st_client txs c1" "p_hdr_info c1 = p_hdr_info c" "power_save_set c1 = power_save_set c" using st by (simp_all add: c1_def)
  obtain b2 k2 where d2: "delete_rtrules E IPA_IP_v6 c1 k1 =
      Some (if b2 then IPACM_SUCCESS else IPACM_FAILURE, if b2 then no_routes IPA_IP_v6 c1 else c1, k2)"
    using delete_rtrules_defined [OF _ tx] c1(1) unfolding st_client_def by blast
  define c2 where "c2 = (if b2 then no_routes IPA_IP_v6 c1 else c1)"
  have c2: "p_hdr_info c2 = p_hdr_info c" "power_save_set c2 = power_save_set c" using c1 by (simp_all add: c2_def)
  obtain b3 c3 k3 where d3: "delete_header E IPA_IP_v4 c2 k2 = (b3, c3, k3)" by (metis prod.exhaust)
  obtain b4 c4 k4 where d4: "delete_header E IPA_IP_v6 c3 k3 = (b4, c4, k4)" by (metis prod.exhaust)
  have c4: "p_hdr_info c3 = p_hdr_info c" "p_hdr_info c4 = p_hdr_info c" "power_save_set c3 = power_save_set c" "power_save_set c4 = power_save_set c"
    using delete_header_cases [OF d3] delete_header_cases [OF d4] c2 by (auto simp: no_header_def)
  have "c' = c1 \<or> c' = c2 \<or> c' = c3 \<or> c' = c4 \<or> c' = (fresh_client c4)\<lparr>ipv4_header_set := False, ipv6_header_set := False\<rparr>"
    using r d1 [folded c1_def] d2 [folded c2_def] d3 d4 by (auto simp: release_client_def split: if_splits bool.splits)
  then show ?thesis using c1 c2 c4 by (auto simp: fresh_client_def)
qed

text \<open>The entry of a client that goes, empty but not yet removed.\<close>

lemma wdone_release:
  assumes env: "wlan_env E txs" and R: "reads_driver E R" and wf: "wlan_wf txs s" and i: "i < cl_num s"
    and s1: "same_table s s1" and r: "release_client E (cl_tab s ! i) (cl_kernel s) = Some (b, c', cl_kernel s1)" and c': "st_client txs c'"
  shows "wdone E R txs (\<lambda>s. p \<longrightarrow> all_right z s) (\<lambda>s. b \<and> (p \<longrightarrow> all_right z s)) s (put_client i c' s1)"
proof -
  let ?c = "cl_tab s ! i"
  have il: "i < length (cl_tab s)" and ci: "?c \<in> set (live s)"
    using i wlan_wf_length [OF wf] nth_mem [of i "live s"] by (auto simp: live_length live_nth)
  have info: "p_hdr_info c' = p_hdr_info ?c"
    by (rule conjunct1 [OF release_keeps [OF wlan_wf_nth [OF wf il] wlan_view [OF env] r]])
  show ?thesis
  proof (rule wdone_put [OF wf i s1 c'])
    show "p_hdr_info c' \<noteq> None" using wf ci info by (simp add: wlan_wf_def)
    show "rd_ok R (cl_kernel s1) \<Longrightarrow> rd_ok R (cl_kernel s)" by (rule release_client_back [OF R wlan_view [OF env] r])
    fix R0 H0 assume ok: "rd_ok R (cl_kernel s1)" and inv: "wlan_inv E R txs R0 H0 s"
    obtain G where "rd_hdrs R (cl_kernel s) = G + mset (client_hdrs (wlan_hb E R txs) ?c)"
      using account_hdrs_frame [OF _ i wlan_wf_length [OF wf]] inv unfolding wlan_inv_def by blast
    note e = release_client_effect [OF R wlan_view [OF env] wlan_hb_flag_free r ok this]
    have "right_for z families (released ?c)" if "right_for z families ?c"
      using that by (auto simp: right_for_def released_def fresh_client_def synced_def)
    then have "all_right z s \<Longrightarrow> all_right z (put_client i c' s1)"
      using put_right [OF s1 il, of z families families c'] e by (simp add: almost_all)
    then show "eff R (cl_kernel s) (cl_kernel s1) (mset (client_entries E txs ?c)) (mset (client_entries E txs c'))
        (mset (client_hdrs (wlan_hb E R txs) ?c)) (mset (client_hdrs (wlan_hb E R txs) c'))
      \<and> (route_rule_set_v4 c' \<longrightarrow> ipv4_set c') \<and> ((p \<longrightarrow> all_right z s) \<longrightarrow> b \<and> (p \<longrightarrow> all_right z (put_client i c' s1)))"
      using e by (simp add: released_empty) (simp add: released_def fresh_client_def)
  qed
qed

lemma wlan_down_step:
  assumes env: "wlan_env E txs" and R: "reads_driver E R" and wf: "wlan_wf txs s"
  shows "\<exists>r s'. handle_wlan_client_down_evt E mac s = Some (r, s')
    \<and> wdone E R txs (\<lambda>s. p \<longrightarrow> all_right False s) (\<lambda>s. p \<longrightarrow> all_right False s) s s'"
proof (cases "client_index mac s")
  case None
  then show ?thesis using wdone_same [OF wf] by (simp add: handle_wlan_client_down_evt_def)
next
  case (Some i)
  note ci = wlan_index [OF Some wf]
  let ?c = "cl_tab s ! i"
  let ?s1 = "if ipv4_set ?c then log_call (Ct_del (cl_v4_addr ?c)) s else s"
  obtain b c' k' where r: "release_client E ?c (cl_kernel s) = Some (b, c', k')" and c': "st_client txs c'"
    and z: "b \<Longrightarrow> client_entries E txs c' = [] \<and> client_hdrs (wlan_hb E R txs) c' = []"
    using release_client_st [OF ci(4) wlan_view [OF env], of "cl_kernel s"]
    by (fastforce simp: client_entries_def client_hdrs_def)
  define s2 where "s2 = ?s1\<lparr>cl_kernel := k'\<rparr>"
  define s3 where "s3 = put_client i c' s2"
  have st: "same_table s s2" "cl_kernel s2 = k'" by (simp_all add: s2_def same_table_def)
  note w3 = wdone_release [OF env R wf ci(1) st(1) _ c', of b p False, folded s3_def, unfolded st(2), OF r]
  have d: "client_down E (wlan_shift E) i s = Some (b, if b then remove_entry (wlan_shift E) i s3 else s3)"
    using r by (simp add: client_down_def Let_def s3_def s2_def)
  show ?thesis
  proof (cases b)
    case False
    have "wdone E R txs (\<lambda>s. p \<longrightarrow> all_right False s) (\<lambda>s. p \<longrightarrow> all_right False s) s s3"
      by (rule wdone_weaken [OF w3]) simp_all
    then show ?thesis using Some d False by (simp add: handle_wlan_client_down_evt_def)
  next
    case True
    have n3: "i < cl_num s3" "cl_tab s3 ! i = c'"
      using ci(1,2) st(1) by (simp_all add: s3_def put_client_def same_table_def)
    let ?s4 = "remove_entry (wlan_shift E) i s3"
    have "wdone E R txs (\<lambda>s. b \<and> (p \<longrightarrow> all_right False s)) (\<lambda>s. p \<longrightarrow> all_right False s) s3 ?s4"
      by (rule wdone_weaken [OF wdone_remove [OF env wdone_wf [OF w3] n3(1)]]) (use z [OF True] n3(2) in simp_all)
    note w4 = wdone_trans [OF w3 this]
    let ?s5 = "?s4\<lparr>total_num_wifi_clients := total_num_wifi_clients ?s4 - 1\<rparr>"
    have "wdone E R txs (\<lambda>s. p \<longrightarrow> all_right False s) (\<lambda>s. p \<longrightarrow> all_right False s) ?s4 ?s5"
      by (rule wdone_kernel [OF wdone_wf [OF w4]]) (simp_all add: same_table_def eff_refl all_right_def)
    from wdone_trans [OF w4 this] show ?thesis using Some d True by (simp add: handle_wlan_client_down_evt_def)
  qed
qed

section \<open>A family is reset\<close>

lemma wlan_clear_hdrs: "client_hdrs (wlan_hb E R txs) (clear_addr ip c) = client_hdrs (wlan_hb E R txs) c"
  "p_hdr_info (clear_addr ip c) = p_hdr_info c" "client_entries E txs (clear_addr ip c) = client_entries E txs (c :: ipa_wlan_client)"
  by (cases ip; simp add: clear_addr_def client_hdrs_def wlan_hb_def client_entries_def)+

lemma clear_right:
  fixes c :: ipa_wlan_client
  shows "\<lbrakk>ip \<in> families; no_routes ip c = c; right_for z (families - {ip}) c\<rbrakk> \<Longrightarrow> right_for z families (clear_addr ip c)"
  by (cases c) (auto simp: right_for_def synced_def clear_addr_def no_routes_def split: if_splits)

lemma no_routes_right:
  fixes c :: ipa_wlan_client
  shows "right_for z families c \<Longrightarrow> right_for z (families - {ip}) (no_routes ip c)"
  by (cases ip) (auto simp: right_for_def synced_def no_routes_def split: if_splits)

text \<open>An entry whose rules of the family are gone loses the addresses.\<close>

lemma wdone_clear:
  assumes wf: "wlan_wf txs s" and i: "i < cl_num s" and ip: "ip \<in> families" and nr: "no_routes ip (cl_tab s ! i) = cl_tab s ! i"
  shows "wdone E R txs (almost_right z (families - {ip}) i) (almost_right z families i) s (put_client i (clear_addr ip (cl_tab s ! i)) s)"
proof -
  let ?c = "cl_tab s ! i"
  have il: "i < length (cl_tab s)" using i wlan_wf_length [OF wf] by simp
  have ne: "ip \<noteq> IPA_IP_MAX" using ip by auto
  have st: "same_table s s" by (simp add: same_table_def)
  have v4: "route_rule_set_v4 (clear_addr ip ?c) \<longrightarrow> ipv4_set (clear_addr ip ?c)" if "route_rule_set_v4 ?c \<longrightarrow> ipv4_set ?c"
    using that nr ip by (cases ?c) (auto simp: clear_addr_def no_routes_def)
  show ?thesis
  proof (rule wdone_put_at [OF wf i st st_clear [OF wlan_wf_nth [OF wf il] nr ne] wlan_clear_hdrs(2) wlan_clear_hdrs(1)])
    show "rd_ok R (cl_kernel s) \<Longrightarrow> route_rule_set_v4 ?c \<longrightarrow> ipv4_set ?c \<Longrightarrow>
        eff R (cl_kernel s) (cl_kernel s) (mset (client_entries E txs ?c)) (mset (client_entries E txs (clear_addr ip ?c))) {#} {#}
        \<and> (route_rule_set_v4 (clear_addr ip ?c) \<longrightarrow> ipv4_set (clear_addr ip ?c))"
      using v4 by (simp add: wlan_clear_hdrs eff_same)
  qed (use clear_right [OF ip nr] in simp_all)
qed

lemma wdone_delete:
  assumes env: "wlan_env E txs" and R: "reads_driver E R" and wf: "wlan_wf txs s" and i: "i < cl_num s"
  shows "\<exists>b k. let c = (if b then no_routes ip (cl_tab s ! i) else cl_tab s ! i) in
    delete_rtrules E ip (cl_tab s ! i) (cl_kernel s) = Some (if b then IPACM_SUCCESS else IPACM_FAILURE, c, k)
    \<and> wdone E R txs (almost_right z families i) (\<lambda>s. b \<and> almost_right z (families - {ip}) i s) s (put_client i c (s\<lparr>cl_kernel := k\<rparr>))"
proof -
  let ?c = "cl_tab s ! i"
  have il: "i < length (cl_tab s)" using i wlan_wf_length [OF wf] by simp
  note sc = wlan_wf_nth [OF wf il]
  obtain b k where d: "delete_rtrules E ip ?c (cl_kernel s) =
      Some (if b then IPACM_SUCCESS else IPACM_FAILURE, if b then no_routes ip ?c else ?c, k)"
    using delete_rtrules_defined [OF _ wlan_view [OF env]] sc unfolding st_client_def by blast
  define c where "c = (if b then no_routes ip ?c else ?c)"
  note e0 = delete_rtrules_effect [OF R wlan_view [OF env] d]
  then have b: "rd_ok R k \<Longrightarrow> b" by (cases b) (simp_all add: IPACM_SUCCESS_def IPACM_FAILURE_def)
  have st: "same_table s (s\<lparr>cl_kernel := k\<rparr>)" by (simp add: same_table_def)
  have "wdone E R txs (almost_right z families i) (almost_right z (families - {ip}) i) s (put_client i c (s\<lparr>cl_kernel := k\<rparr>))"
  proof (rule wdone_put_at [OF wf i st])
    show "st_client txs c" "p_hdr_info c = p_hdr_info ?c" "client_hdrs (wlan_hb E R txs) c = client_hdrs (wlan_hb E R txs) ?c"
      using sc by (simp_all add: c_def)
    show "rd_ok R (cl_kernel (s\<lparr>cl_kernel := k\<rparr>)) \<Longrightarrow> rd_ok R (cl_kernel s)" using e0 eff_ok by auto
    show "rd_ok R (cl_kernel (s\<lparr>cl_kernel := k\<rparr>)) \<Longrightarrow> route_rule_set_v4 ?c \<longrightarrow> ipv4_set ?c \<Longrightarrow>
        eff R (cl_kernel s) (cl_kernel (s\<lparr>cl_kernel := k\<rparr>)) (mset (client_entries E txs ?c)) (mset (client_entries E txs c)) {#} {#}
        \<and> (route_rule_set_v4 c \<longrightarrow> ipv4_set c)" using e0 b by (simp add: c_def no_routes_def)
    show "rd_ok R (cl_kernel (s\<lparr>cl_kernel := k\<rparr>)) \<Longrightarrow> right_for z families ?c \<Longrightarrow> right_for z (families - {ip}) c"
      using b no_routes_right by (simp add: c_def)
  qed
  then have "wdone E R txs (almost_right z families i) (\<lambda>s. b \<and> almost_right z (families - {ip}) i s) s (put_client i c (s\<lparr>cl_kernel := k\<rparr>))"
    using b by (auto simp: wdone_def)
  then show ?thesis using d unfolding Let_def c_def by blast
qed

lemma reset_loop_step:
  assumes env: "wlan_env E txs" and R: "reads_driver E R" and ip: "ip \<in> families"
  shows "\<lbrakk>wlan_wf txs s; \<forall>i \<in> set is. i < cl_num s\<rbrakk> \<Longrightarrow>
   \<exists>r s'. wlan_reset_loop E ip is s = Some (r, s')
     \<and> wdone E R txs (\<lambda>s. p \<and> family_up ip (ce_iface E) \<longrightarrow> all_right z s) (\<lambda>s. p \<and> family_up ip (ce_iface E) \<longrightarrow> all_right z s) s s'"
proof (induction "is" arbitrary: s)
  case Nil
  then show ?case by (simp add: wdone_same)
next
  case (Cons i "is")
  let ?P = "\<lambda>s. p \<and> family_up ip (ce_iface E) \<longrightarrow> all_right z s"
  have i: "i < cl_num s" "i < length (cl_tab s)" using Cons.prems wlan_wf_length [OF Cons.prems(1)] by auto
  obtain b k where d: "delete_rtrules E ip (cl_tab s ! i) (cl_kernel s) =
      Some (if b then IPACM_SUCCESS else IPACM_FAILURE, if b then no_routes ip (cl_tab s ! i) else cl_tab s ! i, k)"
    and w: "wdone E R txs (almost_right z families i) (\<lambda>s. b \<and> almost_right z (families - {ip}) i s) s
      (put_client i (if b then no_routes ip (cl_tab s ! i) else cl_tab s ! i) (s\<lparr>cl_kernel := k\<rparr>))"
    using wdone_delete [OF env R Cons.prems(1) i(1), of ip z] unfolding Let_def by blast
  define c where "c = (if b then no_routes ip (cl_tab s ! i) else cl_tab s ! i)"
  define s1 where "s1 = put_client i c (s\<lparr>cl_kernel := k\<rparr>)"
  note w1 = w [folded c_def, folded s1_def]
  show ?case
  proof (cases b)
    case False
    then have "wlan_reset_loop E ip (i # is) s = Some (IPACM_FAILURE, s1)"
      using d [folded c_def] by (simp add: s1_def IPACM_SUCCESS_def IPACM_FAILURE_def)
    moreover have "wdone E R txs ?P ?P s s1" using w1 False by (auto simp: wdone_def almost_all)
    ultimately show ?thesis by blast
  next
    case True
    obtain r' s2 where m: "handle_lan2lan_msg_post E (cl_mac c) IPA_LAN_CLIENT_DISCONNECT ip s1 = (r', s2)" by force
    note me = wlan_msg_post [OF R m]
    have t: "cl_num s2 = cl_num s" "cl_tab s2 ! i = c" "cl_num s1 = cl_num s"
      using me i by (simp_all add: same_table_def s1_def put_client_def)
    have w2: "wdone E R txs (\<lambda>s. b \<and> almost_right z (families - {ip}) i s) (almost_right z (families - {ip}) i) s1 s2"
      by (rule wdone_kernel [OF wdone_wf [OF w1]]) (use me same_table_almost(1) [OF conjunct1 [OF me]] in auto)
    note w12 = wdone_trans [OF w1 w2]
    have eq: "wlan_reset_loop E ip (i # is) s = (if r' \<noteq> IPACM_SUCCESS then Some (r', s2)
        else wlan_reset_loop E ip is (put_client i (clear_addr ip (cl_tab s2 ! i)) s2))"
      using d [folded c_def] m True by (simp add: s1_def)
    show ?thesis
    proof (cases "r' = IPACM_SUCCESS")
      case False
      have "wdone E R txs ?P ?P s s2" using w12 me False by (auto simp: wdone_def almost_all)
      then show ?thesis using eq False by simp
    next
      case ok: True
      let ?s3 = "put_client i (clear_addr ip (cl_tab s2 ! i)) s2"
      have i2: "i < cl_num s2" using i t by simp
      have "no_routes ip (cl_tab s2 ! i) = cl_tab s2 ! i" using t(2) True by (simp add: c_def no_routes_def)
      note w3 = wdone_clear [OF wdone_wf [OF w2] i2 ip this, of E R z]
      have w: "wdone E R txs (all_right z) (all_right z) s ?s3"
        using wdone_trans [OF w12 w3] by (rule wdone_weaken) (simp_all add: almost_all)
      then have w': "wdone E R txs ?P ?P s ?s3" by (auto simp: wdone_def)
      have "\<forall>i \<in> set is. i < cl_num ?s3" using Cons.prems(2) t by simp
      then obtain r s' where "wlan_reset_loop E ip is ?s3 = Some (r, s')" "wdone E R txs ?P ?P ?s3 s'"
        using Cons.IH [OF wdone_wf [OF w]] by blast
      then show ?thesis using eq ok wdone_trans [OF w'] by auto
    qed
  qed
qed

section \<open>Runs\<close>

text \<open>What keeps the rules of every client right: no removal while clients may be in power save, no power save else.\<close>

fun keeps_right :: "'k client_env \<Rightarrow> bool \<Rightarrow> wlan_op \<Rightarrow> bool" where
  "keeps_right E z (Client_del m) \<longleftrightarrow> \<not> z"
| "keeps_right E z (Power_save m) \<longleftrightarrow> z"
| "keeps_right E z (Wlan_reset ip) \<longleftrightarrow> family_up ip (ce_iface E)"
| "keeps_right E z _ \<longleftrightarrow> True"

lemma wdone_if: "wdone E R txs Q Q s s' \<Longrightarrow> wdone E R txs (\<lambda>s. p \<longrightarrow> Q s) (\<lambda>s. p \<longrightarrow> Q s) s s'"
  by (auto simp: wdone_def)

lemma families_iff: "ip \<in> families \<longleftrightarrow> ip \<noteq> IPA_IP_MAX"
  by (cases ip) simp_all

lemma wlan_step_done:
  assumes env: "wlan_env E txs" and N: "eth_names E R txs" and wf: "wlan_wf txs s" and lg: "wlan_legal E op" and p: "p \<Longrightarrow> keeps_right E z op"
  shows "\<exists>s'. wlan_step E op s = Some s' \<and> wdone E R txs (\<lambda>s. p \<longrightarrow> all_right z s) (\<lambda>s. p \<longrightarrow> all_right z s) s s'"
proof -
  have R: "reads_driver E R" using N by (simp add: eth_names_def)
  have msgs: "wdone E R txs (all_right z) (all_right z) s (both_msgs E mac ev s)" for mac ev
    using wlan_both_msgs [OF R wf] by blast
  note msgs' = wdone_wf [OF msgs]
  show ?thesis
  proof (cases op)
    case (Client_add as)
    then have "\<forall>a \<in> set as. attrib_fits (IPA_HDR_MAX_SIZE (ce_K E)) a" using lg by simp
    from init_ex_step [OF env N wf this] obtain r s' where
      "handle_wlan_client_init_ex E as s = Some (r, s')" "wdone E R txs (all_right z) (all_right z) s s'" by blast
    then show ?thesis using Client_add wdone_if by auto
  next
    case (Client_del mac)
    obtain r s' where s': "handle_wlan_client_down_evt E mac (both_msgs E mac IPA_LAN_CLIENT_DISCONNECT s) = Some (r, s')"
      "wdone E R txs (\<lambda>s. p \<longrightarrow> all_right False s) (\<lambda>s. p \<longrightarrow> all_right False s) (both_msgs E mac IPA_LAN_CLIENT_DISCONNECT s) s'"
      using wlan_down_step [OF env R msgs'] by blast
    have z: "(\<lambda>s. p \<longrightarrow> all_right False s) = (\<lambda>s. p \<longrightarrow> all_right z s)" using p Client_del by auto
    show ?thesis using Client_del s'(1) wdone_trans [OF wdone_if [OF msgs] s'(2) [unfolded z]] by simp
  next
    case (Power_save mac)
    obtain r s' where s': "handle_wlan_client_pwrsave E mac (both_msgs E mac IPA_LAN_CLIENT_POWER_SAVE s) = Some (r, s')"
      "wdone E R txs (all_right True) (all_right True) (both_msgs E mac IPA_LAN_CLIENT_POWER_SAVE s) s'"
      using pwrsave_step [OF env R msgs'] by blast
    have z: "(\<lambda>s. p \<longrightarrow> all_right True s) = (\<lambda>s. p \<longrightarrow> all_right z s)" using p Power_save by auto
    show ?thesis using Power_save s'(1) wdone_trans [OF wdone_if [OF msgs] wdone_if [OF s'(2), of p, unfolded z]] by simp
  next
    case (Power_recover mac)
    obtain s' where s': "wlan_recover E mac (both_msgs E mac IPA_LAN_CLIENT_POWER_RECOVER s) = Some s'"
      "wdone E R txs (all_right z) (all_right z) (both_msgs E mac IPA_LAN_CLIENT_POWER_RECOVER s) s'"
      using recover_step [OF env R msgs'] by blast
    show ?thesis using Power_recover s'(1) wdone_if [OF wdone_trans [OF msgs s'(2)]] by simp
  next
    case (Addr_add d)
    then show ?thesis using addr_add_step [OF env R wf, of d z] lg wdone_if by auto
  next
    case (Wlan_reset ip)
    have ip: "ip \<in> families" using lg Wlan_reset unfolding families_iff by simp
    obtain r s' where s': "handle_wlan_client_reset_rt E ip s = Some (r, s')"
      "wdone E R txs (\<lambda>s. p \<and> family_up ip (ce_iface E) \<longrightarrow> all_right z s) (\<lambda>s. p \<and> family_up ip (ce_iface E) \<longrightarrow> all_right z s) s s'"
      using reset_loop_step [OF env R ip wf, of "[0..<cl_num s]" p z] unfolding handle_wlan_client_reset_rt_def by auto
    have z: "(\<lambda>s. p \<and> family_up ip (ce_iface E) \<longrightarrow> all_right z s) = (\<lambda>s. p \<longrightarrow> all_right z s)" using p Wlan_reset by auto
    show ?thesis using Wlan_reset s'(1) s'(2) [unfolded z] by simp
  qed
qed

lemma wlan_run_done:
  assumes env: "wlan_env E txs" and N: "eth_names E R txs"
  shows "\<lbrakk>wlan_wf txs s; \<forall>op \<in> set ops. wlan_legal E op; p \<Longrightarrow> \<forall>op \<in> set ops. keeps_right E z op\<rbrakk> \<Longrightarrow>
    \<exists>s'. run_steps (wlan_step E) ops s = Some s' \<and> wdone E R txs (\<lambda>s. p \<longrightarrow> all_right z s) (\<lambda>s. p \<longrightarrow> all_right z s) s s'"
proof (induction ops arbitrary: s)
  case Nil
  then show ?case by (simp add: wdone_same)
next
  case (Cons op ops)
  obtain s1 where s1: "wlan_step E op s = Some s1" "wdone E R txs (\<lambda>s. p \<longrightarrow> all_right z s) (\<lambda>s. p \<longrightarrow> all_right z s) s s1"
    using wlan_step_done [OF env N Cons.prems(1), of op p z] Cons.prems(2,3) by auto
  obtain s' where s': "run_steps (wlan_step E) ops s1 = Some s'"
      "wdone E R txs (\<lambda>s. p \<longrightarrow> all_right z s) (\<lambda>s. p \<longrightarrow> all_right z s) s1 s'"
    using Cons.IH [OF wdone_wf [OF s1(2)]] Cons.prems(2,3) by auto
  show ?case using s1(1) s'(1) wdone_trans [OF s1(2) s'(2)] by simp
qed

lemma wlan_init:
  "wlan_wf txs (wlan_clients_init (length txs) t k0)" "live (wlan_clients_init n t k0) = []"
  "cl_kernel (wlan_clients_init n t k0) = k0"
  by (simp_all add: wlan_wf_def wlan_clients_init_def live_def st_client_def wf_client_def wf_hdl_def wlan_entry_def)

lemma wlan_run_init:
  assumes "wlan_env E txs" "eth_names E R txs" "\<forall>op \<in> set ops. wlan_legal E op"
  shows "\<exists>s. run_steps (wlan_step E) ops (wlan_clients_init (length txs) t k0) = Some s
    \<and> (rd_ok R (cl_kernel s) \<longrightarrow> account E txs R (wlan_hb E R txs) (rd_rts R k0) (rd_hdrs R k0) s
        \<and> ((\<forall>op \<in> set ops. keeps_right E z op) \<longrightarrow> all_right z s))"
proof -
  let ?s0 = "wlan_clients_init (length txs) t k0"
  let ?p = "\<forall>op \<in> set ops. keeps_right E z op"
  obtain s where s: "run_steps (wlan_step E) ops ?s0 = Some s"
      "wdone E R txs (\<lambda>s. ?p \<longrightarrow> all_right z s) (\<lambda>s. ?p \<longrightarrow> all_right z s) ?s0 s"
    using wlan_run_done [OF assms(1,2) wlan_init(1) assms(3), of ?p z t k0] by blast
  have i0: "wlan_inv E R txs (rd_rts R k0) (rd_hdrs R k0) ?s0" "all_right z ?s0"
    by (simp_all add: wlan_inv_def account_def wlan_init) (simp add: all_right_def wlan_clients_init_def)
  show ?thesis using s(1) wdoneD(2,3) [OF s(2)] i0 by (auto simp: wlan_inv_def)
qed

end
