(* ===== verification/Ipacm_EthClaims.thy ===== *)
theory Ipacm_EthClaims
  imports Ipacm_EthRefine
begin

text \<open>
  What holds of the Ethernet clients of \<^verbatim>\<open>IPACM_Lan.cpp\<close> in every run, on the model of a driver
  that shows that the assumptions can be met, and the default routes of an ODU interface.
\<close>

section \<open>A driver that keeps its rules and headers\<close>

text \<open>
  The state: the rules, the headers, the next handle, and whether every request succeeded. A request on
  a state that is not sound fails, as does the deletion of what is not there.
\<close>

record kept =
  kept_rts :: "rt_entry list"
  kept_hdrs :: "(u32 \<times> u8 list) list"
  kept_next :: u32
  kept_ok :: bool

definition sound_kept :: "kept \<Rightarrow> bool" where
  "sound_kept k \<longleftrightarrow> kept_ok k \<and> distinct (map fst (kept_rts k)) \<and> distinct (map fst (kept_hdrs k))
     \<and> list_all (\<lambda>e. snd (fst e) \<noteq> 0) (kept_rts k) \<and> list_all (\<lambda>e. fst e \<noteq> 0) (kept_hdrs k)"

definition refused :: "kept \<Rightarrow> kept" where
  "refused k = k\<lparr>kept_ok := False\<rparr>"

definition without_key :: "'a \<Rightarrow> ('a \<times> 'b) list \<Rightarrow> ('a \<times> 'b) list" where
  "without_key x = filter (\<lambda>e. fst e \<noteq> x)"

definition part_header :: "string \<Rightarrow> ipa_ioc_copy_hdr" where
  "part_header nm = \<lparr>copied_hdr = replicate 14 0, is_eth2_ofst_valid = True, eth2_ofst = length nm\<rparr>"

definition kept_kernel :: "kept ipa_kernel" where
  "kept_kernel = \<lparr>malloc = \<lambda>k. (True, k), open_wwan = \<lambda>k. (3, k), QMI_IPA_MAX_FILTERS = 64, IPA_HDR_MAX_SIZE = 64,
     IPA_RESOURCE_NAME_MAX = 20, IOC_ADD_FLT_RULE = \<lambda>t k. ((-1, []), k), IOC_DEL_FLT_RULE = \<lambda>ip h k. ((-1, 0), k),
     IOC_MDFY_FLT_RULE = \<lambda>ip h r k. (-1, k), IOC_COMMIT_FLT = \<lambda>ip k. (0, k), IOC_RESET_FLT = \<lambda>ip k. (0, k),
     WAN_ADD_FLT_RULE = \<lambda>t k. (-1, k), WAN_ADD_FLT_RULE_INDEX = \<lambda>t k. (-1, k),
     IOC_ADD_HDR = \<lambda>h k. if sound_kept k
       then ((0, 0, kept_next k), k\<lparr>kept_hdrs := (kept_next k, hdr_bytes h) # kept_hdrs k, kept_next := kept_next k + 1\<rparr>)
       else ((-1, 0, 0), refused k),
     IOC_DEL_HDR = \<lambda>h k. if sound_kept k then ((0, 0), k\<lparr>kept_hdrs := without_key h (kept_hdrs k)\<rparr>) else ((-1, 0), refused k),
     IOC_COMMIT_HDR = \<lambda>k. (0, k), IOC_RESET_HDR = \<lambda>k. (0, k), IOC_GET_HDR = \<lambda>n k. ((-1, 0), k),
     IOC_COPY_HDR = \<lambda>n k. if length n < 50 then ((0, part_header n), if sound_kept k then k else refused k)
       else ((-1, part_header n), refused k),
     IOC_ADD_HDR_PROC_CTX = \<lambda>h k. ((-1, 0), k), IOC_DEL_HDR_PROC_CTX = \<lambda>h k. (-1, k), fcntl_GETFL = \<lambda>fd k. 0,
     IOC_ADD_RT_RULE = \<lambda>r k. if sound_kept k
       then ((0, kept_next k), k\<lparr>kept_rts := ((rt_add_ip r, kept_next k), r) # kept_rts k, kept_next := kept_next k + 1\<rparr>)
       else ((-1, 0), refused k),
     IOC_DEL_RT_RULE = \<lambda>ip h k. if sound_kept k then ((0, 0), k\<lparr>kept_rts := without_key (ip, h) (kept_rts k)\<rparr>)
       else ((-1, 0), refused k),
     IOC_COMMIT_RT = \<lambda>ip k. (0, k), IOC_RESET_RT = \<lambda>ip k. (0, k), IOC_GET_RT_TBL = \<lambda>n k. ((-1, 0), k),
     IOC_PUT_RT_TBL = \<lambda>h k. (0, k)\<rparr>"

definition kept_reading :: "kept reading" where
  "kept_reading = \<lparr>rd_rts = \<lambda>k. mset (kept_rts k), rd_hdrs = \<lambda>k. mset (kept_hdrs k), rd_ok = sound_kept, rd_part = part_header\<rparr>"

definition eth_iface :: ipacm_iface where
  "eth_iface = sample_iface\<lparr>ip_type := Some IPA_IP_MAX, iface_query := Some (2, 1), tx_prop := Some (map (\<lambda>ip. \<lparr>tx_ip = ip, dst_pipe = 2,
     tx_attrib = zero_attrib, tx_hdr_name = ''hdr''\<rparr>) [IPA_IP_v4, IPA_IP_v6])\<rparr>"

definition eth_sample :: "ipacm_iface_type \<Rightarrow> kept client_env" where
  "eth_sample cat = \<lparr>ce_K = kept_kernel, ce_hdr_fd = 5, ce_rt_fd = 5, ce_iface = eth_iface, ce_cat = cat,
     ce_odu_router_mode = False, ipa_client_rm_map_tbl = \<lambda>_. IPA_RM_RESOURCE_USB_CONS, IPA_CLIENT_APPS_LAN_CONS = 9\<rparr>"

definition eth_kernel :: kept where
  "eth_kernel = \<lparr>kept_rts = [], kept_hdrs = [(1, [])], kept_next = 2, kept_ok = True\<rparr>"

lemma without_key_mset:
  "\<lbrakk>distinct (map fst xs); (x, y) \<in> set xs\<rbrakk> \<Longrightarrow> mset (without_key x xs) = mset xs - {#(x, y)#}"
proof (induction xs)
  case (Cons e xs)
  show ?case
  proof (cases "e = (x, y)")
    case True
    then have "\<forall>e \<in> set xs. fst e \<noteq> x" using Cons.prems(1) by (auto simp: image_iff)
    then have "without_key x xs = xs" by (simp add: without_key_def)
    then show ?thesis using True by (simp add: without_key_def)
  next
    case False
    then have "fst e \<noteq> x" "(x, y) \<in> set xs" using Cons.prems by (force simp: image_iff)+
    then show ?thesis using Cons False by (simp add: without_key_def)
  qed
qed simp

lemma kept_laws: "reads_driver (eth_sample cat) kept_reading"
proof -
  have "handles_law (eth_sample cat) kept_reading"
    by (auto simp: handles_law_def kept_reading_def sound_kept_def list_all_iff)
  moreover have "malloc_law (eth_sample cat) kept_reading"
    by (auto simp: malloc_law_def kept_reading_def eth_sample_def kept_kernel_def)
  moreover have "add_rt_law (eth_sample cat) kept_reading"
    by (auto simp: add_rt_law_def kept_reading_def eth_sample_def kept_kernel_def refused_def sound_kept_def split: if_splits)
  moreover have "del_rt_law (eth_sample cat) kept_reading"
    by (auto simp: del_rt_law_def kept_reading_def eth_sample_def kept_kernel_def refused_def sound_kept_def
        without_key_mset split: if_splits)
  moreover have "add_hdr_law (eth_sample cat) kept_reading"
    by (auto simp: add_hdr_law_def kept_reading_def eth_sample_def kept_kernel_def refused_def sound_kept_def split: if_splits)
  moreover have "del_hdr_law (eth_sample cat) kept_reading"
    by (auto simp: del_hdr_law_def kept_reading_def eth_sample_def kept_kernel_def refused_def sound_kept_def
        without_key_mset split: if_splits)
  moreover have "copy_law (eth_sample cat) kept_reading"
    by (auto simp: copy_law_def kept_reading_def eth_sample_def kept_kernel_def refused_def sound_kept_def split: if_splits)
  ultimately show ?thesis
    by (simp add: reads_driver_def eth_sample_def hdr_DeviceNodeIsOpened_def rt_DeviceNodeIsOpened_def kept_kernel_def)
qed

definition eth_txs :: "tx_intf_prop list" where
  "eth_txs = the (tx_prop eth_iface)"

lemma eth_sample_env: "cat \<noteq> ODU_IF \<Longrightarrow> eth_env (eth_sample cat) eth_txs"
  by (auto simp: eth_env_def eth_txs_def eth_sample_def eth_iface_def hdr_place_def kept_kernel_def part_header_def split: if_splits)

lemma eth_sample_names: "eth_names (eth_sample cat) kept_reading eth_txs"
  unfolding eth_names_def using kept_laws
  by (simp add: hdrs_fit_def eth_txs_def eth_sample_def eth_iface_def kept_kernel_def kept_reading_def part_header_def)

section \<open>Runs\<close>

text \<open>C14. For every sequence of neighbors that get addresses, neighbors that go and resets of a
  family, no entry outside of the Ethernet client table is touched, and as long as no request of the driver
  failed, the table is the list of clients with the addresses that the specification gives, each
  client has rules for all its addresses, and the driver has, beside what it had at the beginning,
  exactly the rules and headers of these clients.\<close>
theorem eth_clients_refine:
  assumes "eth_env E txs" "eth_names E R txs" "\<forall>op \<in> set ops. legal op"
  shows "\<exists>s. run_steps (eth_step E) ops (eth_clients_init (length txs) k0) = Some s
    \<and> (rd_ok R (cl_kernel s) \<longrightarrow> absv s = fold spec_step ops [] \<and> all_synced s
        \<and> rd_rts R (cl_kernel s) = rd_rts R k0 + (\<Sum>c\<leftarrow>live s. mset (client_entries E txs c))
        \<and> rd_hdrs R (cl_kernel s) = rd_hdrs R k0 + (\<Sum>c\<leftarrow>live s. mset (client_hdrs (eth_hb E R txs) c)))"
  using eth_run_init [OF assms, of k0] unfolding account_def by blast

definition eth_event :: "ipa_ip_type \<Rightarrow> u32 \<Rightarrow> u8 \<Rightarrow> ipacm_event_data_all" where
  "eth_event ip a m = \<lparr>iptype = ip, if_index = 4, ipv4_addr = a, ipv6_addr = [a, 0, 0, 1], mac_addr = [0, 0, 0, 0, 0, m]\<rparr>"

definition eth_ops :: "eth_op list" where
  "eth_ops = [Neigh_add (eth_event IPA_IP_v4 10 1), Neigh_add (eth_event IPA_IP_v6 20 2), Neigh_add (eth_event IPA_IP_v4 11 1),
     Neigh_add (eth_event IPA_IP_v6 21 2), Neigh_del (eth_event IPA_IP_v4 11 1), Neigh_add (eth_event IPA_IP_v4 12 3), Reset_rt IPA_IP_v4]"

theorem eth_clients_refine_witness:
  "(\<exists>s. run_steps (eth_step (eth_sample LAN_IF)) eth_ops (eth_clients_init (length eth_txs) eth_kernel) = Some s
     \<and> sound_kept (cl_kernel s)
     \<and> absv s = [([0, 0, 0, 0, 0, 2], None, [[20, 0, 0, 1], [21, 0, 0, 1]]), ([0, 0, 0, 0, 0, 3], None, [])]
     \<and> mset (kept_rts (cl_kernel s)) = (\<Sum>c\<leftarrow>live s. mset (client_entries (eth_sample LAN_IF) eth_txs c)))
   \<and> fold spec_step (take 4 eth_ops) [] = [([0, 0, 0, 0, 0, 1], Some 11, []), ([0, 0, 0, 0, 0, 2], None, [[20, 0, 0, 1], [21, 0, 0, 1]])]"
proof -
  have run: "case run_steps (eth_step (eth_sample LAN_IF)) eth_ops (eth_clients_init (length eth_txs) eth_kernel) of
      None \<Rightarrow> False | Some s \<Rightarrow> sound_kept (cl_kernel s)" by code_simp
  have spec: "fold spec_step eth_ops [] = [([0, 0, 0, 0, 0, 2], None, [[20, 0, 0, 1], [21, 0, 0, 1]]), ([0, 0, 0, 0, 0, 3], None, [])]"
    "fold spec_step (take 4 eth_ops) [] = [([0, 0, 0, 0, 0, 1], Some 11, []), ([0, 0, 0, 0, 0, 2], None, [[20, 0, 0, 1], [21, 0, 0, 1]])]"
    by code_simp+
  have "\<forall>op \<in> set eth_ops. legal op" by (simp add: eth_ops_def eth_event_def)
  from eth_clients_refine [OF eth_sample_env eth_sample_names this, of LAN_IF eth_kernel] obtain s where
    "run_steps (eth_step (eth_sample LAN_IF)) eth_ops (eth_clients_init (length eth_txs) eth_kernel) = Some s"
    "sound_kept (cl_kernel s) \<Longrightarrow> absv s = fold spec_step eth_ops []
      \<and> mset (kept_rts (cl_kernel s)) = (\<Sum>c\<leftarrow>live s. mset (client_entries (eth_sample LAN_IF) eth_txs c))"
    by (auto simp: kept_reading_def eth_kernel_def)
  then show ?thesis using run spec by simp
qed

section \<open>The default routes of an ODU interface\<close>

text \<open>The rules that the handles of an interface stand for, from a property on.\<close>

fun odu_entries :: "'k eth_clients \<Rightarrow> nat \<Rightarrow> tx_intf_prop list \<Rightarrow> rt_entry list" where
  "odu_entries s j [] = []"
| "odu_entries s j (t # ts) =
     ((if tx_ip t = IPA_IP_v4 then (IPA_IP_v4, odu_route_rule_v4_hdl s ! j) else (IPA_IP_v6, odu_route_rule_v6_hdl s ! j)),
      odu_rule s t) # odu_entries s (j + 1) ts"

text \<open>Two states with the same handles before an index and the same headers.\<close>

definition odu_keeps :: "nat \<Rightarrow> 'k eth_clients \<Rightarrow> 'k eth_clients \<Rightarrow> bool" where
  "odu_keeps j s s' \<longleftrightarrow> length (odu_route_rule_v4_hdl s') = length (odu_route_rule_v4_hdl s)
     \<and> length (odu_route_rule_v6_hdl s') = length (odu_route_rule_v6_hdl s)
     \<and> (\<forall>i < j. odu_route_rule_v4_hdl s' ! i = odu_route_rule_v4_hdl s ! i \<and> odu_route_rule_v6_hdl s' ! i = odu_route_rule_v6_hdl s ! i)
     \<and> (\<forall>t. odu_rule s' t = odu_rule s t) \<and> live s' = live s"

lemma odu_keeps_refl: "odu_keeps j s s"
  by (simp add: odu_keeps_def)

lemma odu_keeps_step:
  "\<lbrakk>odu_keeps (j + 1) s1 s'; odu_keeps j s s1\<rbrakk> \<Longrightarrow> odu_keeps j s s'"
  by (simp add: odu_keeps_def)

lemma rt_add_odu: "rt_add_ip (odu_rule s t) = (if tx_ip t = IPA_IP_v4 then IPA_IP_v4 else IPA_IP_v6)"
  by (simp add: odu_rule_def)

lemma odu_add_effect:
  "\<lbrakk>reads_driver E R; j + length ts \<le> length (odu_route_rule_v4_hdl s); j + length ts \<le> length (odu_route_rule_v6_hdl s)\<rbrakk>
   \<Longrightarrow> \<exists>r s'. odu_add_loop E j ts s = Some (r, s') \<and> odu_keeps j s s'
     \<and> (rd_ok R (cl_kernel s') \<longrightarrow> r = IPACM_SUCCESS
        \<and> eff R (cl_kernel s) (cl_kernel s') {#} (mset (odu_entries s' j ts)) {#} {#})"
proof (induction ts arbitrary: j s)
  case Nil
  then show ?case by (auto simp: odu_keeps_refl eff_refl)
next
  case (Cons t ts)
  obtain res k1 where a: "AddRoutingRule (ce_K E) (ce_rt_fd E) (odu_rule s t) (cl_kernel s) = (res, k1)" by force
  note add = driver_add_rt [OF Cons.prems(1) a]
  show ?case
  proof (cases res)
    case None
    then have "odu_add_loop E j (t # ts) s = Some (IPACM_FAILURE, s\<lparr>cl_kernel := k1\<rparr>)" using a by simp
    moreover have "odu_keeps j s (s\<lparr>cl_kernel := k1\<rparr>)" by (simp add: odu_keeps_def odu_rule_def)
    moreover have "\<not> rd_ok R (cl_kernel (s\<lparr>cl_kernel := k1\<rparr>))" using add None by auto
    ultimately show ?thesis by blast
  next
    case (Some h)
    define s1 where "s1 = (if tx_ip t = IPA_IP_v4
      then s\<lparr>odu_route_rule_v4_hdl := (odu_route_rule_v4_hdl s)[j := h], cl_kernel := k1\<rparr>
      else s\<lparr>odu_route_rule_v6_hdl := (odu_route_rule_v6_hdl s)[j := h], cl_kernel := k1\<rparr>)"
    have st: "odu_add_loop E j (t # ts) s = odu_add_loop E (j + 1) ts s1" using a Some Cons.prems by (simp add: s1_def)
    have k: "odu_keeps j s s1" "cl_kernel s1 = k1" by (simp_all add: s1_def odu_keeps_def odu_rule_def live_def)
    then have len: "j + 1 + length ts \<le> length (odu_route_rule_v4_hdl s1)" "j + 1 + length ts \<le> length (odu_route_rule_v6_hdl s1)"
      using Cons.prems(2,3) by (simp_all add: odu_keeps_def)
    obtain r s' where s': "odu_add_loop E (j + 1) ts s1 = Some (r, s')" "odu_keeps (j + 1) s1 s'"
      and e: "rd_ok R (cl_kernel s') \<Longrightarrow> r = IPACM_SUCCESS \<and> eff R k1 (cl_kernel s') {#} (mset (odu_entries s' (j + 1) ts)) {#} {#}"
      using Cons.IH [OF Cons.prems(1) len] k(2) by auto
    have nth: "(if tx_ip t = IPA_IP_v4 then (IPA_IP_v4, odu_route_rule_v4_hdl s' ! j) else (IPA_IP_v6, odu_route_rule_v6_hdl s' ! j))
        = (rt_add_ip (odu_rule s t), h)" "odu_rule s' t = odu_rule s t"
      using s'(2) k(1) Cons.prems(2,3) by (simp_all add: odu_keeps_def rt_add_odu) (simp_all add: s1_def)
    have "r = IPACM_SUCCESS \<and> eff R (cl_kernel s) (cl_kernel s') {#} (mset (odu_entries s' j (t # ts))) {#} {#}"
      if ok: "rd_ok R (cl_kernel s')"
    proof -
      note e2 = conjunct2 [OF e [OF ok]]
      have "eff R (cl_kernel s) k1 {#} {#((rt_add_ip (odu_rule s t), h), odu_rule s t)#} {#} {#}"
        using add [OF eff_ok [OF e2]] Some by simp
      from eff_trans [OF this e2] show ?thesis using e [OF ok] by (simp add: nth)
    qed
    then show ?thesis using st s'(1) odu_keeps_step [OF s'(2) k(1)] by auto
  qed
qed

lemma odu_del_effect:
  "\<lbrakk>reads_driver E R; j + length ts \<le> length (odu_route_rule_v4_hdl s); j + length ts \<le> length (odu_route_rule_v6_hdl s)\<rbrakk>
   \<Longrightarrow> \<exists>r s'. odu_del_loop E j ts s = Some (r, s') \<and> live s' = live s
     \<and> (rd_ok R (cl_kernel s') \<longrightarrow> r = IPACM_SUCCESS
        \<and> eff R (cl_kernel s) (cl_kernel s') (mset (odu_entries s j ts)) {#} {#} {#})"
proof (induction ts arbitrary: j s)
  case Nil
  then show ?case by (auto simp: eff_refl)
next
  case (Cons t ts)
  define ip where "ip = (if tx_ip t = IPA_IP_v4 then IPA_IP_v4 else IPA_IP_v6)"
  define h where "h = (if tx_ip t = IPA_IP_v4 then odu_route_rule_v4_hdl s ! j else odu_route_rule_v6_hdl s ! j)"
  obtain b k1 where d: "del_rt_hdl E ip h (cl_kernel s) = (b, k1)" by force
  note del = driver_del_rt [OF Cons.prems(1) d]
  let ?s1 = "s\<lparr>cl_kernel := k1\<rparr>"
  have st: "odu_del_loop E j (t # ts) s = (if b then odu_del_loop E (j + 1) ts ?s1 else Some (IPACM_FAILURE, ?s1))"
    using d Cons.prems(2,3) by (auto simp: ip_def h_def split: if_splits bool.split)
  have en: "odu_entries s' i xs = odu_entries s i xs" if "s' = ?s1" for s' i xs
    using that by (induction xs arbitrary: i) (simp_all add: odu_rule_def)
  show ?case
  proof (cases b)
    case False
    then have "odu_del_loop E j (t # ts) s = Some (IPACM_FAILURE, ?s1)" using st by simp
    moreover have "\<not> rd_ok R (cl_kernel ?s1)" "live ?s1 = live s" using del False by auto
    ultimately show ?thesis by blast
  next
    case True
    obtain r s' where s': "odu_del_loop E (j + 1) ts ?s1 = Some (r, s')" "live s' = live s"
      and e: "rd_ok R (cl_kernel s') \<Longrightarrow> r = IPACM_SUCCESS \<and> eff R k1 (cl_kernel s') (mset (odu_entries s (j + 1) ts)) {#} {#} {#}"
      using Cons.IH [OF Cons.prems(1), of "j + 1" ?s1] Cons.prems(2,3) by (auto simp: en)
    have "r = IPACM_SUCCESS \<and> eff R (cl_kernel s) (cl_kernel s') (mset (odu_entries s j (t # ts))) {#} {#} {#}"
      if ok: "rd_ok R (cl_kernel s')"
    proof -
      note e2 = conjunct2 [OF e [OF ok]]
      have "eff R (cl_kernel s) k1 {#((ip, h), odu_rule s t)#} {#} {#} {#}" using del [OF eff_ok [OF e2]] by simp
      from eff_trans [OF this e2] show ?thesis using e [OF ok] by (simp add: ip_def h_def split: if_splits)
    qed
    then show ?thesis using st True s' by auto
  qed
qed

text \<open>C15. On an ODU interface the default routes are one rule for each transmit property,
  the one of its family, and deleting them takes out exactly these rules: as long as no
  request failed, the driver has the rules it had before.\<close>
theorem odu_routes_roundtrip:
  assumes "reads_driver E R" "tx_prop (ce_iface E) = Some ps" "tx_view (ce_iface E) = Some txs"
    and "length txs \<le> length (odu_route_rule_v4_hdl s)" "length txs \<le> length (odu_route_rule_v6_hdl s)"
  shows "\<exists>r1 s1 r2 s2. handle_odu_route_add E s = Some (r1, s1) \<and> handle_odu_route_del E s1 = Some (r2, s2)
    \<and> (rd_ok R (cl_kernel s2) \<longrightarrow> r1 = IPACM_SUCCESS \<and> r2 = IPACM_SUCCESS
        \<and> rd_rts R (cl_kernel s1) = rd_rts R (cl_kernel s) + mset (odu_entries s1 0 txs)
        \<and> rd_rts R (cl_kernel s2) = rd_rts R (cl_kernel s))"
proof -
  obtain m k1 where m: "malloc (ce_K E) (cl_kernel s) = (m, k1)" by force
  let ?s = "s\<lparr>cl_kernel := k1\<rparr>"
  obtain r s1 where a: "odu_add_loop E 0 txs ?s = Some (r, s1)" "odu_keeps 0 ?s s1"
    and e: "rd_ok R (cl_kernel s1) \<Longrightarrow> r = IPACM_SUCCESS \<and> eff R k1 (cl_kernel s1) {#} (mset (odu_entries s1 0 txs)) {#} {#}"
    using odu_add_effect [OF assms(1), of 0 txs ?s] assms(4,5) by auto
  define s1' where "s1' = (if m then s1 else ?s)"
  have add: "handle_odu_route_add E s = Some (if m then r else IPACM_FAILURE, s1')"
    using assms(2,3) m a(1) by (simp add: handle_odu_route_add_def s1'_def split: bool.split)
  have "length txs \<le> length (odu_route_rule_v4_hdl s1')" "length txs \<le> length (odu_route_rule_v6_hdl s1')"
    using a(2) assms(4,5) by (simp_all add: s1'_def odu_keeps_def)
  then obtain r2 s2 where d: "odu_del_loop E 0 txs s1' = Some (r2, s2)"
    and e2: "rd_ok R (cl_kernel s2) \<Longrightarrow> r2 = IPACM_SUCCESS \<and> eff R (cl_kernel s1') (cl_kernel s2) (mset (odu_entries s1' 0 txs)) {#} {#} {#}"
    using odu_del_effect [OF assms(1), of 0 txs s1'] by auto
  have del: "handle_odu_route_del E s1' = Some (r2, s2)" using assms(2,3) d by (simp add: handle_odu_route_del_def)
  have "m \<and> r = IPACM_SUCCESS \<and> rd_rts R (cl_kernel s1') = rd_rts R (cl_kernel s) + mset (odu_entries s1' 0 txs)
      \<and> rd_rts R (cl_kernel s2) = rd_rts R (cl_kernel s)" if ok: "rd_ok R (cl_kernel s2)"
  proof -
    note f2 = conjunct2 [OF e2 [OF ok]]
    note ok1 = eff_ok [OF f2]
    have "m" using driver_malloc [OF assms(1) m] ok1 by (cases m) (simp_all add: s1'_def)
    then have s: "s1' = s1" by (simp add: s1'_def)
    note f1 = conjunct2 [OF e [OF ok1 [unfolded s]]]
    have k: "rd_rts R k1 = rd_rts R (cl_kernel s)"
      using eff_rts [of R "cl_kernel s" k1 "{#}" "{#}" "{#}" "{#}"] driver_malloc [OF assms(1) m eff_ok [OF f1]] by simp
    have "rd_rts R (cl_kernel s1) = rd_rts R k1 + mset (odu_entries s1 0 txs)" using eff_rts [OF f1, of "rd_rts R k1"] by simp
    moreover from this have "rd_rts R (cl_kernel s2) = rd_rts R k1" using eff_rts [OF f2 [unfolded s], of "rd_rts R k1"] by simp
    ultimately show ?thesis using \<open>m\<close> e [OF ok1 [unfolded s]] k s by simp
  qed
  then show ?thesis using add del e2 by auto
qed

theorem odu_routes_roundtrip_witness:
  "case handle_odu_route_add (eth_sample ODU_IF) (eth_clients_init 2 eth_kernel) of None \<Rightarrow> False
   | Some (r1, s1) \<Rightarrow> r1 = IPACM_SUCCESS \<and> length (kept_rts (cl_kernel s1)) = 2
      \<and> (case handle_odu_route_del (eth_sample ODU_IF) s1 of None \<Rightarrow> False
         | Some (r2, s2) \<Rightarrow> r2 = IPACM_SUCCESS \<and> mset (kept_rts (cl_kernel s2)) = {#})"
proof -
  have run: "case handle_odu_route_add (eth_sample ODU_IF) (eth_clients_init 2 eth_kernel) of None \<Rightarrow> False
    | Some (r1, s1) \<Rightarrow> length (kept_rts (cl_kernel s1)) = 2 \<and>
       (case handle_odu_route_del (eth_sample ODU_IF) s1 of None \<Rightarrow> False | Some (r2, s2) \<Rightarrow> sound_kept (cl_kernel s2))"
    by code_simp
  have "tx_prop (ce_iface (eth_sample ODU_IF)) = Some eth_txs" "tx_view (ce_iface (eth_sample ODU_IF)) = Some eth_txs"
    "length eth_txs \<le> length (odu_route_rule_v4_hdl (eth_clients_init 2 eth_kernel))"
    "length eth_txs \<le> length (odu_route_rule_v6_hdl (eth_clients_init 2 eth_kernel))"
    by (simp_all add: eth_txs_def eth_sample_def eth_iface_def tx_view_def eth_clients_init_def)
  moreover have "kept_rts (cl_kernel (eth_clients_init 2 eth_kernel)) = []" by (simp add: eth_init eth_kernel_def)
  ultimately show ?thesis using odu_routes_roundtrip [OF kept_laws, of ODU_IF eth_txs eth_txs "eth_clients_init 2 eth_kernel"] run
    by (auto simp: kept_reading_def)
qed

end
