(* ===== verification/Ipacm_WlanClaims.thy ===== *)
theory Ipacm_WlanClaims
  imports Ipacm_WlanRefine Ipacm_EthClaims
begin

text \<open>
  What holds of the clients of an access point (\<^verbatim>\<open>IPACM_Wlan.cpp\<close>) in every run, and what the removal
  of a client does to the power save flags of the others.
\<close>

section \<open>An access point on the sample driver\<close>

definition ap_env :: "kept client_env" where
  "ap_env = eth_sample WLAN_IF"

definition ap_attribs :: "u8 \<Rightarrow> header_attrib list" where
  "ap_attribs m = [Attrib_mac 4 [0, 0, 0, 0, 0, m], Attrib_sta 10 [m, 0], Attrib_other]"

lemma ap_laws: "wlan_env ap_env eth_txs" "eth_names ap_env kept_reading eth_txs"
  using eth_sample_names by (simp_all add: wlan_env_def ap_env_def eth_sample_def eth_iface_def eth_txs_def kept_kernel_def)

definition ap_run :: "wlan_op list \<Rightarrow> kept wlan_clients option" where
  "ap_run ops = run_steps (wlan_step ap_env) ops (wlan_clients_init (length eth_txs) 0 eth_kernel)"

definition ap_ops :: "wlan_op list" where
  "ap_ops = [Client_add (ap_attribs 1), Client_add (ap_attribs 2), Addr_add (eth_event IPA_IP_v4 10 1), Addr_add (eth_event IPA_IP_v4 11 2),
     Power_save [0, 0, 0, 0, 0, 2]]"

section \<open>Runs\<close>



section \<open>Removal and power save\<close>

lemma shift_all_nth: "Suc j < length xs \<Longrightarrow> shift_all mv xs ! j = mv (xs ! Suc j) (xs ! j)"
proof (induction mv xs arbitrary: j rule: shift_all.induct)
  case (1 mv d c cs)
  then show ?case by (cases j) simp_all
qed simp_all

lemma remove_entry_nth:
  assumes "i < cl_num s" "cl_num s \<le> length (cl_tab s)" "j < cl_num s - 1"
  shows "cl_tab (remove_entry mv i s) ! j = (if j < i then cl_tab s ! j else mv (cl_tab s ! Suc j) (cl_tab s ! j))"
proof (cases "j < i")
  case True
  then show ?thesis using assms by (simp add: remove_entry_def nth_append)
next
  case False
  then have "Suc (j - i) < length (drop i (live s))" "j - i < cl_num s - i" using assms by (simp_all add: live_length)
  then show ?thesis using assms False shift_all_nth [of "j - i" "drop i (live s)" mv]
    by (simp add: remove_entry_def nth_append live_length live_nth)
qed

lemma wlan_reach_wf:
  assumes "wlan_env E txs" "eth_names E R txs" "\<forall>op \<in> set ops. wlan_legal E op"
    and "run_steps (wlan_step E) ops (wlan_clients_init (length txs) t k0) = Some s"
  shows "wlan_wf txs s"
  using wlan_run_done [OF assms(1,2) wlan_init(1) assms(3), of False undefined t k0] assms(4) wdone_wf by fastforce

text \<open>C17. When a client leaves, the entries of the clients after it move down by one place with their addresses, but the
  power save flags stay where they are: each client that moves gets the flag of the entry before its own. A
  client in power save can so lose its flag, and its rules are never added again when it recovers; and
  one that is awake can get the flag, and no rules for its new addresses.\<close>
theorem wlan_down_power_save_stays:
  assumes "wlan_env E txs" "eth_names E R txs" "\<forall>op \<in> set ops. wlan_legal E op"
    and "run_steps (wlan_step E) ops (wlan_clients_init (length txs) t k0) = Some s"
    and "client_index mac s = Some i" "handle_wlan_client_down_evt E mac s = Some (IPACM_SUCCESS, s')"
  shows "cl_num s' = cl_num s - 1 \<and> (\<forall>j < cl_num s - 1. power_save_set (cl_tab s' ! j) = power_save_set (cl_tab s ! j)
    \<and> cl_mac (cl_tab s' ! j) = cl_mac (cl_tab s ! (if j < i then j else Suc j)))"
proof -
  note wf = wlan_reach_wf [OF assms(1-4)]
  note ci = wlan_index [OF assms(5) wf]
  obtain b s1 where d: "client_down E (wlan_shift E) i s = Some (b, s1)" using assms(5,6)
    by (auto simp: handle_wlan_client_down_evt_def split: option.splits)
  have b: b and s': "s' = s1\<lparr>total_num_wifi_clients := total_num_wifi_clients s1 - 1\<rparr>"
    using assms(5,6) d by (auto simp: handle_wlan_client_down_evt_def IPACM_SUCCESS_def IPACM_FAILURE_def split: if_splits)
  let ?s1 = "if ipv4_set (cl_tab s ! i) then log_call (Ct_del (cl_v4_addr (cl_tab s ! i))) s else s"
  have k1: "cl_kernel ?s1 = cl_kernel s" by simp
  obtain b' c' k' where r: "release_client E (cl_tab s ! i) (cl_kernel s) = Some (b', c', k')"
    using d by (cases "release_client E (cl_tab s ! i) (cl_kernel s)") (auto simp: client_down_def Let_def k1)
  have s1: "s1 = remove_entry (wlan_shift E) i (put_client i c' (?s1\<lparr>cl_kernel := k'\<rparr>))"
    using d r b by (auto simp: client_down_def Let_def k1)
  define s2 where "s2 = put_client i c' (?s1\<lparr>cl_kernel := k'\<rparr>)"
  have n: "cl_num s2 = cl_num s" "length (cl_tab s2) = length (cl_tab s)"
    and t: "cl_tab s2 ! j = (if j = i then c' else cl_tab s ! j)" if "j < cl_num s" for j
    using ci(2) by (simp_all add: s2_def put_client_def)
  have "power_save_set (cl_tab s' ! j) = power_save_set (cl_tab s ! j)
      \<and> cl_mac (cl_tab s' ! j) = cl_mac (cl_tab s ! (if j < i then j else Suc j))" if j: "j < cl_num s - 1" for j
    using remove_entry_nth [of i s2 j "wlan_shift E"] j ci(1) n t wlan_wf_length [OF wf] conjunct2 [OF release_keeps [OF ci(4) wlan_view [OF assms(1)] r]]
    by (simp add: s' s1 s2_def [symmetric] wlan_shift_env [OF assms(1)]) (simp add: shift_client_def)
  moreover have "cl_num s' = cl_num s - 1" using n [OF ci(1)] by (simp add: s' s1 s2_def [symmetric] remove_entry_def)
  ultimately show ?thesis by blast
qed

theorem wlan_down_power_save_stays_witness:
  "(\<exists>s s'. ap_run ap_ops = Some s \<and> map power_save_set (live s) = [False, True] \<and> map cl_mac (live s) = [[0, 0, 0, 0, 0, 1], [0, 0, 0, 0, 0, 2]]
     \<and> handle_wlan_client_down_evt ap_env [0, 0, 0, 0, 0, 1] s = Some (IPACM_SUCCESS, s')
     \<and> cl_mac (cl_tab s' ! 0) = [0, 0, 0, 0, 0, 2] \<and> \<not> power_save_set (cl_tab s' ! 0))
   \<and> (case ap_run (ap_ops @ [Client_del [0, 0, 0, 0, 0, 1], Power_recover [0, 0, 0, 0, 0, 2]]) of None \<Rightarrow> False
      | Some s \<Rightarrow> map ipv4_set (live s) = [True] \<and> map route_rule_set_v4 (live s) = [False] \<and> kept_rts (cl_kernel s) = [])"
proof -
  have run: "case ap_run ap_ops of None \<Rightarrow> False
    | Some s \<Rightarrow> map power_save_set (live s) = [False, True] \<and> map cl_mac (live s) = [[0, 0, 0, 0, 0, 1], [0, 0, 0, 0, 0, 2]]
        \<and> cl_num s = 2 \<and> client_index [0, 0, 0, 0, 0, 1] s = Some 0
        \<and> (case handle_wlan_client_down_evt ap_env [0, 0, 0, 0, 0, 1] s of None \<Rightarrow> False | Some (r, s') \<Rightarrow> r = IPACM_SUCCESS)" by code_simp
  have legal: "\<forall>op \<in> set ap_ops. wlan_legal ap_env op" by code_simp
  have rec: "case ap_run (ap_ops @ [Client_del [0, 0, 0, 0, 0, 1], Power_recover [0, 0, 0, 0, 0, 2]]) of None \<Rightarrow> False
      | Some s \<Rightarrow> map ipv4_set (live s) = [True] \<and> map route_rule_set_v4 (live s) = [False] \<and> kept_rts (cl_kernel s) = []" by code_simp
  obtain s s' where s: "ap_run ap_ops = Some s" "map power_save_set (live s) = [False, True]" "map cl_mac (live s) = [[0, 0, 0, 0, 0, 1], [0, 0, 0, 0, 0, 2]]"
    "cl_num s = 2" "client_index [0, 0, 0, 0, 0, 1] s = Some 0" "handle_wlan_client_down_evt ap_env [0, 0, 0, 0, 0, 1] s = Some (IPACM_SUCCESS, s')"
    using run by (auto split: option.splits)
  from s(2,3) obtain c d where l: "live s = [c, d]" "\<not> power_save_set c" "cl_mac d = [0, 0, 0, 0, 0, 2]" by (auto simp: map_eq_Cons_conv)
  have t: "cl_tab s ! 0 = c" "cl_tab s ! 1 = d" using live_nth [of 0 s] live_nth [of 1 s] l s(4) by simp_all
  from wlan_down_power_save_stays [OF ap_laws legal s(1) [unfolded ap_run_def] s(5,6)] s(4)
  have "power_save_set (cl_tab s' ! 0) = power_save_set (cl_tab s ! 0)" "cl_mac (cl_tab s' ! 0) = cl_mac (cl_tab s ! 1)" by auto
  then have "\<exists>s s'. ap_run ap_ops = Some s \<and> map power_save_set (live s) = [False, True] \<and> map cl_mac (live s) = [[0, 0, 0, 0, 0, 1], [0, 0, 0, 0, 0, 2]]
     \<and> handle_wlan_client_down_evt ap_env [0, 0, 0, 0, 0, 1] s = Some (IPACM_SUCCESS, s')
     \<and> cl_mac (cl_tab s' ! 0) = [0, 0, 0, 0, 0, 2] \<and> \<not> power_save_set (cl_tab s' ! 0)"
    using s l t by auto
  then show ?thesis using rec by (rule conjI)
qed

end
