(* ===== verification/Shim_Utf.thy ===== *)
theory Shim_Utf
  imports Ipacm_Prelude
begin

text \<open>
  The string conversions of \<^verbatim>\<open>src/libshims/dpm\<close> (\<^verbatim>\<open>strdup16to8.cpp\<close> and \<^verbatim>\<open>strdup8to16.cpp\<close>): Java's
  modified UTF-8 against UTF-16, in which 0 is written as two bytes and the two halves of a
  surrogate pair are written one by one.

  Memory is explicit: a source string is the list of the bytes from its address on, a
  destination is a list of cells written by index, and a read or a write outside of either, or
  through a null pointer, is a \<open>fault\<close>.  \<open>size_t\<close> is a word of any length, so that the overflow
  tests are those of the code on a 32-bit and on a 64-bit build alike.  \<open>malloc\<close> is a parameter: it
  gives a list of cells or \<open>None\<close>.  The counter \<open>expected\<close> of \<open>strlen8to16\<close>, a signed int whose
  overflow is undefined in C, is an integer.
\<close>

unbundle bit_operations_syntax

type_synonym byte = "8 word"
type_synonym char16 = "16 word"

datatype fault = Read_past | Write_past | Null_write

definition SIZE_MAX :: "'w::len word" where
  "SIZE_MAX = - 1"

text \<open>A store through a moving pointer \<open>*dest++ = x\<close>: the buffer and the index.\<close>

fun store :: "'a \<Rightarrow> 'a list option \<times> nat \<Rightarrow> fault + 'a list option \<times> nat" where
  "store x (None, i) = Inl Null_write"
| "store x (Some b, i) = (if i < length b then Inr (Some (b[i := x]), Suc i) else Inl Write_past)"

definition and_then :: "fault + 'a \<Rightarrow> ('a \<Rightarrow> fault + 'b) \<Rightarrow> fault + 'b" where
  "and_then r f = (case r of Inl e \<Rightarrow> Inl e | Inr x \<Rightarrow> f x)"

lemma and_then_simps [simp]:
  "and_then (Inl e) f = Inl e" "and_then (Inr x) f = f x"
  by (simp_all add: and_then_def)

section \<open>UTF-16 to modified UTF-8\<close>

definition unit_length :: "char16 \<Rightarrow> 'w::len word" where
  "unit_length u = (let uic = ucast u :: 32 word in
     if uic > 0x07ff then 3 else if uic > 0x7f \<or> uic = 0 then 2 else 1)"

fun strnlen_fast :: "char16 list \<Rightarrow> 'w::len word \<Rightarrow> 'w word" where
  "strnlen_fast [] utf8Len = utf8Len"
| "strnlen_fast (u # us) utf8Len = strnlen_fast us (utf8Len + unit_length u)"

fun strnlen_paranoid :: "char16 list \<Rightarrow> 'w::len word \<Rightarrow> 'w word" where
  "strnlen_paranoid [] utf8Len = (if utf8Len = SIZE_MAX then SIZE_MAX - 1 else utf8Len)"
| "strnlen_paranoid (u # us) utf8Len =
     (let utf8Cur = utf8Len; utf8Len = utf8Len + unit_length u
      in if utf8Len < utf8Cur then SIZE_MAX - 1 else strnlen_paranoid us utf8Len)"

definition strnlen16to8 :: "char16 list \<Rightarrow> 'w::len word" where
  "strnlen16to8 s =
     (if of_nat (length s) < ((SIZE_MAX :: 'w word) - 1) div 3
      then strnlen_fast s 0 else strnlen_paranoid s 0)"

definition byte_of :: "32 word \<Rightarrow> byte" where
  "byte_of w = ucast w"

fun strncpy_loop :: "char16 list \<Rightarrow> byte list option \<times> nat \<Rightarrow> fault + byte list option \<times> nat" where
  "strncpy_loop [] d = Inr d"
| "strncpy_loop (u # us) d =
     (let uic = ucast u :: 32 word in
      if uic > 0x07ff then
        and_then (store (byte_of (drop_bit 12 uic OR 0xe0)) d) (\<lambda>d.
        and_then (store (byte_of ((drop_bit 6 uic AND 0x3f) OR 0x80)) d) (\<lambda>d.
        and_then (store (byte_of ((uic AND 0x3f) OR 0x80)) d) (strncpy_loop us)))
      else if uic > 0x7f \<or> uic = 0 then
        and_then (store (byte_of (drop_bit 6 uic OR 0xc0)) d) (\<lambda>d.
        and_then (store (byte_of ((uic AND 0x3f) OR 0x80)) d) (strncpy_loop us))
      else
        and_then (store (byte_of uic) d) (\<lambda>d. if uic = 0 then Inr d else strncpy_loop us d))"

definition strncpy16to8 :: "byte list option \<Rightarrow> char16 list \<Rightarrow> fault + byte list option" where
  "strncpy16to8 utf8Str utf16Str =
     and_then (strncpy_loop utf16Str (utf8Str, 0)) (\<lambda>d.
     and_then (store 0 d) (\<lambda>(buf, _). Inr buf))"

text \<open>The result of a conversion is a pointer, \<open>None\<close> for \<open>NULL\<close>.\<close>

definition strndup16to8 ::
  "'w::len itself \<Rightarrow> (nat \<Rightarrow> byte list option) \<Rightarrow> char16 list option \<Rightarrow> fault + byte list option" where
  "strndup16to8 W malloc s = (case s of None \<Rightarrow> Inr None | Some s \<Rightarrow>
     (let len = strnlen16to8 s :: 'w word in
      if len \<ge> SIZE_MAX - 1 then Inr None
      else case malloc (unat (len + 1)) of None \<Rightarrow> Inr None
           | Some ret \<Rightarrow> strncpy16to8 (Some ret) s))"

section \<open>Modified UTF-8 to UTF-16\<close>

definition UTF16_REPLACEMENT_CHAR :: "32 word" where
  "UTF16_REPLACEMENT_CHAR = 0xfffd"

definition UNICODE_UPPER_LIMIT :: "32 word" where
  "UNICODE_UPPER_LIMIT = 0x10fffd"

definition UTF8_SEQ_LENGTH :: "byte \<Rightarrow> nat" where
  "UTF8_SEQ_LENGTH ch =
     unat (drop_bit (unat (drop_bit 3 ch AND 0x1e)) (0xe5000000 :: 32 word) AND 3) + 1"

fun strlen_loop :: "byte list \<Rightarrow> 'w::len word \<Rightarrow> int \<Rightarrow> fault + 'w word" where
  "strlen_loop [] len expected = Inl Read_past"
| "strlen_loop (ic # p) len expected =
     (if ic = 0 then Inr len
      else if ic AND 0xc0 = 0x80 then
        (let expected = expected - 1
         in strlen_loop p (if expected < 0 then len + 1 else len) expected)
      else
        (let len = len + 1; expected = int (UTF8_SEQ_LENGTH ic) - 1
         in strlen_loop p (if expected = 3 then len + 1 else len) expected))"

definition strlen8to16 :: "byte list \<Rightarrow> fault + 'w::len word" where
  "strlen8to16 s = strlen_loop s 0 0"

fun utf32_rest :: "nat \<Rightarrow> 32 word \<Rightarrow> byte list \<Rightarrow> fault + 32 word \<times> byte list" where
  "utf32_rest 0 ret p = Inr (ret, p)"
| "utf32_rest (Suc k) ret [] = Inl Read_past"
| "utf32_rest (Suc k) ret (b # p) =
     (if b = 0 then Inr (UTF16_REPLACEMENT_CHAR, b # p)
      else if b AND 0xc0 \<noteq> 0x80 then Inr (UTF16_REPLACEMENT_CHAR, b # p)
      else utf32_rest k (push_bit 6 ret OR ucast (0x3f AND b)) p)"

definition leaderMask :: "32 word list" where
  "leaderMask = [0xff, 0x1f, 0x0f, 0x07]"

fun getUtf32FromUtf8 :: "byte list \<Rightarrow> fault + 32 word \<times> byte list" where
  "getUtf32FromUtf8 [] = Inl Read_past"
| "getUtf32FromUtf8 (b # p) =
     (if b AND 0xc0 = 0x80 then Inr (UTF16_REPLACEMENT_CHAR, p)
      else
        (let seq_len = UTF8_SEQ_LENGTH b; ret = ucast b AND leaderMask ! (seq_len - 1)
         in if b = 0 then Inr (ret, b # p) else utf32_rest (seq_len - 1) ret p))"

definition put_unit :: "32 word \<Rightarrow> char16 list option \<times> nat \<Rightarrow> fault + char16 list option \<times> nat" where
  "put_unit ret d =
     (if ret \<le> 0xffff then store (ucast ret) d
      else if ret \<le> UNICODE_UPPER_LIMIT then
        and_then (store (ucast (0xd800 OR drop_bit 10 (ret - 0x10000))) d)
                 (store (ucast (0xdc00 OR ((ret - 0x10000) AND 0x3ff))))
      else store (ucast UTF16_REPLACEMENT_CHAR) d)"

lemma utf32_rest_shorter:
  "utf32_rest k ret p = Inr (r, p') \<Longrightarrow> length p' \<le> length p"
  by (induction k ret p rule: utf32_rest.induct) (auto split: if_splits)

lemma getUtf32_shorter:
  "getUtf32FromUtf8 (b # p) = Inr (r, p') \<Longrightarrow> b \<noteq> 0 \<Longrightarrow> length p' \<le> length p"
  by (auto simp: Let_def dest: utf32_rest_shorter split: if_splits)

function strcpy_loop :: "byte list \<Rightarrow> char16 list option \<times> nat \<Rightarrow> fault + char16 list option \<times> nat" where
  "strcpy_loop [] d = Inl Read_past"
| "strcpy_loop (b # p) d =
     (if b = 0 then Inr d
      else case getUtf32FromUtf8 (b # p) of Inl e \<Rightarrow> Inl e
           | Inr (ret, p') \<Rightarrow> (case put_unit ret d of Inl e \<Rightarrow> Inl e | Inr d' \<Rightarrow> strcpy_loop p' d'))"
  by pat_completeness auto
termination
  by (relation "measure (\<lambda>(p, _). length p)")
     (auto simp: Let_def less_Suc_eq_le dest: utf32_rest_shorter split: if_splits)

text \<open>The pair is the returned pointer and the final \<open>*out_len\<close>.\<close>

definition strcpy8to16 :: "char16 list option \<Rightarrow> byte list \<Rightarrow> fault + char16 list option \<times> nat" where
  "strcpy8to16 utf16Str utf8Str = strcpy_loop utf8Str (utf16Str, 0)"

text \<open>
  \<open>None\<close> in the second place: \<open>*out_len\<close> is not written.  \<open>malloc\<close> is asked for bytes and gives
  cells of two bytes.
\<close>

definition strdup8to16 ::
  "'w::len itself \<Rightarrow> (nat \<Rightarrow> char16 list option) \<Rightarrow> byte list option
   \<Rightarrow> fault + char16 list option \<times> nat option" where
  "strdup8to16 W malloc s = (case s of None \<Rightarrow> Inr (None, None) | Some s \<Rightarrow>
     and_then (strlen8to16 s) (\<lambda>len :: 'w word.
       if len \<noteq> 0 \<and> SIZE_MAX div len < 2 then Inr (None, None)
       else and_then (strcpy8to16 (malloc (unat (2 * len))) s) (\<lambda>(ret, n). Inr (ret, Some n))))"


section \<open>Storing through a moving pointer\<close>

fun stores :: "'a list \<Rightarrow> 'a list option \<times> nat \<Rightarrow> fault + 'a list option \<times> nat" where
  "stores [] d = Inr d"
| "stores (x # xs) d = and_then (store x d) (stores xs)"

lemma and_then_assoc [simp]: "and_then (and_then r f) g = and_then r (\<lambda>x. and_then (f x) g)"
  by (simp add: and_then_def split: sum.splits)

lemma and_then_Inr [simp]: "and_then r Inr = r"
  by (simp add: and_then_def split: sum.splits)

lemma stores_fun: "stores [] = Inr" "stores (x # xs) = (\<lambda>d. and_then (store x d) (stores xs))"
  by (rule ext, simp)+

lemma stores_append: "stores (xs @ ys) = (\<lambda>d. and_then (stores xs d) (stores ys))"
  by (induction xs) (simp_all add: stores_fun)

lemma stores_null [simp]: "stores xs (None, i) = (if xs = [] then Inr (None, i) else Inl Null_write)"
  by (cases xs) simp_all

lemma stores_buffer:
  "i \<le> length b \<Longrightarrow> stores xs (Some b, i) =
    (if i + length xs \<le> length b
     then Inr (Some (take i b @ xs @ drop (i + length xs) b), i + length xs)
     else Inl Write_past)"
proof (induction xs arbitrary: b i)
  case Nil
  then show ?case by simp
next
  case (Cons x xs)
  show ?case
  proof (cases "i < length b")
    case True
    then have "take (Suc i) (b[i := x]) = take i b @ [x]" by (simp add: take_Suc_conv_app_nth)
    then show ?thesis using True Cons.IH [of "Suc i" "b[i := x]"] by simp
  qed (use Cons.prems in simp)
qed

section \<open>Facts about single bytes\<close>

lemma all_bytes: "(\<forall>b :: 8 word. P b) \<longleftrightarrow> list_all P (map of_nat [0..<256])"
proof
  assume r: "list_all P (map of_nat [0..<256])"
  show "\<forall>b. P b"
  proof
    fix b :: "8 word"
    have "unat b < 256" using unsigned_less [of b] by simp
    then have "of_nat (unat b) \<in> set (map of_nat [0..<256] :: 8 word list)" by (simp del: of_nat_unat)
    then show "P b" using r by (simp add: list_all_iff del: set_map)
  qed
qed (simp add: list_all_iff)

lemma byte_seq_length:
  "\<forall>b :: byte. b AND 0xc0 \<noteq> 0x80 \<longrightarrow> UTF8_SEQ_LENGTH b =
     (if b < 0x80 then 1 else if b < 0xe0 then 2 else if b < 0xf0 then 3 else 4)"
  unfolding all_bytes by code_simp

lemma byte_ascii:
  "\<forall>b :: byte. b < 0x80 \<longrightarrow> b AND 0xc0 \<noteq> 0x80 \<and> UTF8_SEQ_LENGTH b = 1"
  unfolding all_bytes by code_simp

lemma byte_ext:
  "\<forall>b :: byte. b < 64 \<longrightarrow> (b OR 0x80) AND 0xc0 = 0x80 \<and> b OR 0x80 \<noteq> 0 \<and> 0x3f AND (b OR 0x80) = b"
  unfolding all_bytes by code_simp

lemma byte_lead2:
  "\<forall>b :: byte. b < 32 \<longrightarrow> (b OR 0xc0) AND 0xc0 \<noteq> 0x80 \<and> b OR 0xc0 \<noteq> 0
     \<and> UTF8_SEQ_LENGTH (b OR 0xc0) = 2 \<and> ucast (b OR 0xc0) AND 0x1f = (ucast b :: 32 word)"
  unfolding all_bytes by code_simp

lemma byte_lead3:
  "\<forall>b :: byte. b < 16 \<longrightarrow> (b OR 0xe0) AND 0xc0 \<noteq> 0x80 \<and> b OR 0xe0 \<noteq> 0
     \<and> UTF8_SEQ_LENGTH (b OR 0xe0) = 3 \<and> ucast (b OR 0xe0) AND 0x0f = (ucast b :: 32 word)"
  unfolding all_bytes by code_simp

section \<open>The encoding\<close>

definition utf8_unit :: "char16 \<Rightarrow> byte list" where
  "utf8_unit u =
     (if u > 0x7ff then
        [ucast (drop_bit 12 u) OR 0xe0, ucast (drop_bit 6 u AND 0x3f) OR 0x80, ucast (u AND 0x3f) OR 0x80]
      else if u > 0x7f \<or> u = 0 then [ucast (drop_bit 6 u) OR 0xc0, ucast (u AND 0x3f) OR 0x80]
      else [ucast u])"

definition utf8_of :: "char16 list \<Rightarrow> byte list" where
  "utf8_of us = concat (map utf8_unit us)"

lemma utf8_of_simps [simp]: "utf8_of [] = []" "utf8_of (u # us) = utf8_unit u @ utf8_of us"
  by (simp_all add: utf8_of_def)

lemma char_compare:
  "(0x7ff :: 32 word) < ucast (u :: char16) \<longleftrightarrow> 0x7ff < u"
  "(0x7f :: 32 word) < ucast (u :: char16) \<longleftrightarrow> 0x7f < u"
  "(ucast (u :: char16) :: 32 word) = 0 \<longleftrightarrow> u = 0"
proof -
  have "take_bit 32 (unat u) = unat u"
    using unsigned_less [of u, where ?'a = nat] by (simp add: take_bit_nat_eq_self_iff)
  then show "(0x7ff :: 32 word) < ucast u \<longleftrightarrow> 0x7ff < u" "(0x7f :: 32 word) < ucast u \<longleftrightarrow> 0x7f < u"
    "(ucast u :: 32 word) = 0 \<longleftrightarrow> u = 0"
    by (simp_all add: word_less_nat_alt unsigned_ucast_eq word_unat_eq_iff)
qed

lemma byte_of_char:
  "byte_of (ucast (u :: char16)) = ucast u"
  "byte_of (drop_bit 12 (ucast u) OR 0xe0) = ucast (drop_bit 12 u) OR 0xe0"
  "byte_of (drop_bit 6 (ucast u) OR 0xc0) = ucast (drop_bit 6 u) OR 0xc0"
  "byte_of ((drop_bit 6 (ucast u) AND 0x3f) OR 0x80) = ucast (drop_bit 6 u AND 0x3f) OR 0x80"
  "byte_of ((ucast u AND 0x3f) OR 0x80) = ucast (u AND 0x3f) OR 0x80"
  by (rule bit_word_eqI; auto simp: byte_of_def bit_simps)+

lemma strncpy_loop_stores: "strncpy_loop us = stores (utf8_of us)"
proof (induction us)
  case (Cons u us)
  show ?case
  proof
    show "strncpy_loop (u # us) d = stores (utf8_of (u # us)) d" for d
      using Cons by (simp add: Let_def utf8_unit_def char_compare byte_of_char stores_fun stores_append)
  qed
qed auto

lemma strncpy_stores:
  "strncpy16to8 buf us = and_then (stores (utf8_of us @ [0]) (buf, 0)) (\<lambda>(b, _). Inr b)"
  by (simp add: strncpy16to8_def strncpy_loop_stores stores_append)

lemma unit_length_utf8: "(unit_length u :: 'w::len word) = of_nat (length (utf8_unit u))"
  by (simp add: unit_length_def utf8_unit_def char_compare Let_def)
section \<open>The length of the encoding\<close>

definition utf8_length :: "char16 list \<Rightarrow> nat" where
  "utf8_length us = length (utf8_of us)"

lemma utf8_unit_bounds: "0 < length (utf8_unit u)" "length (utf8_unit u) \<le> 3"
  by (simp_all add: utf8_unit_def)

lemma utf8_length_simps [simp]:
  "utf8_length [] = 0" "utf8_length (u # us) = length (utf8_unit u) + utf8_length us"
  by (simp_all add: utf8_length_def)

lemma utf8_length_le: "utf8_length us \<le> 3 * length us"
  using utf8_unit_bounds(2) by (induction us) (simp_all add: add_mono trans_le_add1 add_le_mono)

lemma strnlen_fast_eq: "strnlen_fast us n = n + of_nat (utf8_length us)"
  by (induction us arbitrary: n) (simp_all add: unit_length_utf8)

lemma unat_SIZE_MAX: "unat (SIZE_MAX :: 'w::len word) = 2 ^ LENGTH('w) - 1"
  by (simp add: SIZE_MAX_def unsigned_minus_1_eq_mask mask_eq_exp_minus_1)

lemma SIZE_MAX_pred:
  assumes "2 \<le> LENGTH('w::len)"
  shows "unat (SIZE_MAX - 1 :: 'w word) = 2 ^ LENGTH('w) - 2"
proof -
  have "(2 :: nat) ^ 2 \<le> 2 ^ LENGTH('w)" using assms by (rule power_increasing) simp
  then have "1 \<le> (SIZE_MAX :: 'w word)" by (simp add: word_le_nat_alt unat_SIZE_MAX)
  then show ?thesis by (simp add: unat_sub unat_SIZE_MAX)
qed

lemma strnlen_paranoid_eq:
  assumes "2 \<le> LENGTH('w::len)"
  shows "unat (strnlen_paranoid us (n :: 'w word)) = min (unat n + utf8_length us) (2 ^ LENGTH('w) - 2)"
proof (induction us arbitrary: n)
  case Nil
  have "unat n < 2 ^ LENGTH('w)" using unsigned_less [of n, where ?'a = nat] .
  then have "unat n \<le> 2 ^ LENGTH('w) - 2 \<or> unat n = 2 ^ LENGTH('w) - Suc 0" by linarith
  then show ?case
    using SIZE_MAX_pred [OF assms] by (auto simp: word_unat_eq_iff unat_SIZE_MAX min_def)
next
  case (Cons u us)
  define k where "k = length (utf8_unit u)"
  have k: "0 < k" "k \<le> 3" using utf8_unit_bounds [of u] by (simp_all add: k_def)
  have w: "(2 :: nat) ^ 2 \<le> 2 ^ LENGTH('w)" using assms by (rule power_increasing) simp
  then have uk: "unat (of_nat k :: 'w word) = k" using k by (simp add: unat_of_nat)
  have n: "unat n < 2 ^ LENGTH('w)" using unsigned_less [of n, where ?'a = nat] .
  show ?case
  proof (cases "unat n + k < 2 ^ LENGTH('w)")
    case True
    then have "unat (n + of_nat k) = unat n + k" using uk by (simp add: unat_word_ariths)
    then show ?thesis using Cons k
      by (simp add: unit_length_utf8 word_less_nat_alt Let_def add.assoc flip: k_def)
  next
    case False
    have "(a + k) mod m = a + k - m" if "a < m" "4 \<le> m" "\<not> a + k < m" for a m
    proof -
      have "a + k - m < m" using that k by linarith
      then show ?thesis using that by (simp add: le_mod_geq)
    qed
    then have "unat (n + of_nat k) = unat n + k - 2 ^ LENGTH('w)"
      using uk n w False by (simp add: unat_word_ariths)
    then have "n + of_nat k < n" using k w n False by (simp add: word_less_nat_alt)
    then show ?thesis using False SIZE_MAX_pred [OF assms]
      by (simp add: unit_length_utf8 Let_def flip: k_def)
  qed
qed

text \<open>Both loops compute the true length, cut off at \<open>SIZE_MAX - 1\<close>.\<close>

lemma strnlen16to8_eq:
  assumes w: "2 \<le> LENGTH('w::len)" and s: "length us < 2 ^ LENGTH('w)"
  shows "unat (strnlen16to8 us :: 'w word) = min (utf8_length us) (2 ^ LENGTH('w) - 2)"
proof (cases "of_nat (length us) < ((SIZE_MAX :: 'w word) - 1) div 3")
  case True
  have "(2 :: nat) ^ 2 \<le> 2 ^ LENGTH('w)" using w by (rule power_increasing) simp
  moreover have "unat (3 :: 'w word) = 3"
    using calculation by (simp add: unat_of_nat [of 3, simplified])
  ultimately have "3 * length us < 2 ^ LENGTH('w) - 2"
    using True s by (simp add: word_less_nat_alt unat_div SIZE_MAX_pred [OF w] unat_of_nat)
  then have "utf8_length us < 2 ^ LENGTH('w) - 2" using utf8_length_le [of us] by simp
  then show ?thesis
    using True by (simp add: strnlen16to8_def strnlen_fast_eq unat_of_nat)
next
  case False
  then show ?thesis
    using strnlen_paranoid_eq [OF w, of us 0] by (simp add: strnlen16to8_def)
qed


section \<open>Decoding a terminated string\<close>

definition put_units :: "32 word \<Rightarrow> char16 list" where
  "put_units ret =
     (if ret \<le> 0xffff then [ucast ret]
      else if ret \<le> UNICODE_UPPER_LIMIT then
        [ucast (0xd800 OR drop_bit 10 (ret - 0x10000)), ucast (0xdc00 OR ((ret - 0x10000) AND 0x3ff))]
      else [ucast UTF16_REPLACEMENT_CHAR])"

lemma put_unit_stores: "put_unit ret = stores (put_units ret)"
proof
  show "put_unit ret d = stores (put_units ret) d" for d
    by (simp add: put_unit_def put_units_def stores_fun)
qed

function decode :: "byte list \<Rightarrow> char16 list" where
  "decode [] = []"
| "decode (b # p) =
     (if b = 0 then []
      else case getUtf32FromUtf8 (b # p) of Inl e \<Rightarrow> []
           | Inr (ret, p') \<Rightarrow> put_units ret @ decode p')"
  by pat_completeness auto
termination
  by (relation "measure length")
     (auto simp: Let_def less_Suc_eq_le dest: utf32_rest_shorter split: if_splits)

text \<open>A terminated string is read up to the terminator at most, and stays terminated.\<close>

lemma utf32_rest_terminated:
  "0 \<in> set p \<Longrightarrow> \<exists>r p'. utf32_rest k ret p = Inr (r, p') \<and> 0 \<in> set p'"
  by (induction k ret p rule: utf32_rest.induct) auto

lemma getUtf32_terminated:
  assumes "0 \<in> set (b # p)" "b \<noteq> 0"
  obtains r p' where "getUtf32FromUtf8 (b # p) = Inr (r, p')" "0 \<in> set p'" "length p' \<le> length p"
proof -
  have "0 \<in> set p" using assms by auto
  then obtain r p' where r: "getUtf32FromUtf8 (b # p) = Inr (r, p')" "0 \<in> set p'"
    using utf32_rest_terminated [of p "UTF8_SEQ_LENGTH b - 1"] assms(2)
    by (cases "b AND 0xc0 = 0x80") (simp_all add: Let_def, blast)
  show thesis by (rule that [OF r getUtf32_shorter [OF r(1) assms(2)]])
qed

lemma strcpy_loop_stores: "0 \<in> set p \<Longrightarrow> strcpy_loop p d = stores (decode p) d"
proof (induction p arbitrary: d rule: decode.induct)
  case (2 b p)
  show ?case
  proof (cases "b = 0")
    case False
    with 2(2) obtain r p' where r: "getUtf32FromUtf8 (b # p) = Inr (r, p')" "0 \<in> set p'"
      by (rule getUtf32_terminated)
    have "strcpy_loop p' d = stores (decode p') d" for d
      by (rule 2(1) [OF False r(1) refl r(2)])
    then show ?thesis using r False
      by (simp add: put_unit_stores stores_append and_then_def del: getUtf32FromUtf8.simps split: sum.splits)
  qed simp
qed simp

section \<open>How many units are written\<close>

text \<open>The count of \<open>strlen8to16\<close> as a natural number.\<close>

fun count_units :: "byte list \<Rightarrow> int \<Rightarrow> nat" where
  "count_units [] e = 0"
| "count_units (b # p) e =
     (if b = 0 then 0
      else if b AND 0xc0 = 0x80 then (if e \<le> 0 then 1 else 0) + count_units p (e - 1)
      else (if UTF8_SEQ_LENGTH b = 4 then 2 else 1) + count_units p (int (UTF8_SEQ_LENGTH b) - 1))"

lemma strlen_loop_count:
  "0 \<in> set p \<Longrightarrow> strlen_loop p n e = Inr (n + of_nat (count_units p e))"
  by (induction p n e rule: strlen_loop.induct) (auto simp: Let_def)

lemma count_units_spent: "e \<le> 0 \<Longrightarrow> count_units p e = count_units p 0"
proof (induction p arbitrary: e)
  case (Cons b p)
  show ?case using Cons.prems by (simp add: Cons.IH [of "e - 1"] Cons.IH [of "- 1"])
qed simp

text \<open>After a leader, the continuation bytes that are consumed are those that are not counted.\<close>

lemma utf32_rest_count:
  "utf32_rest k ret p = Inr (r, p') \<Longrightarrow> 0 \<in> set p \<Longrightarrow> count_units p (int k) = count_units p' 0"
proof (induction k ret p rule: utf32_rest.induct)
  case (3 k ret b p)
  show ?case
  proof (cases "b = 0 \<or> b AND 0xc0 \<noteq> 0x80")
    case True
    then have "p' = b # p" using 3(2) by (auto split: if_splits)
    then show ?thesis using True by auto
  next
    case False
    then show ?thesis using 3 by auto
  qed
qed simp_all

lemma shifted_bits:
  fixes ret :: "32 word"
  assumes "take_bit m ret = ret"
  shows "take_bit (m + 6) (push_bit 6 ret OR ucast (0x3f AND (b :: byte))) = push_bit 6 ret OR ucast (0x3f AND b)"
proof -
  have "\<not> bit ret (n - 6)" if "m + 6 \<le> n" for n
  proof -
    have "\<not> n - 6 < m" using that by simp
    then show ?thesis using assms by (metis bit_take_bit_iff)
  qed
  moreover have "(0x3f :: 8 word) = mask 6" by (simp add: mask_eq_exp_minus_1)
  moreover have "\<not> bit (mask 6 AND b) n" if "m + 6 \<le> n" for n using that by (simp add: bit_simps)
  ultimately have "\<not> bit (push_bit 6 ret OR ucast (0x3f AND b)) n" if "m + 6 \<le> n" for n
    using that by (simp add: bit_or_iff bit_push_bit_iff bit_unsigned_iff)
  then show ?thesis
    by (intro bit_word_eqI) (metis bit_take_bit_iff not_less)
qed

lemma take_bit_16_le: "take_bit 16 r = r \<Longrightarrow> (r :: 32 word) \<le> 0xffff"
  using word_and_le1 [of r "0xffff"] by (simp add: take_bit_eq_mask mask_eq_exp_minus_1)

lemma utf32_rest_small:
  "utf32_rest k ret p = Inr (r, p') \<Longrightarrow> take_bit m ret = ret \<Longrightarrow> m + 6 * k \<le> 16 \<Longrightarrow> r \<le> 0xffff"
proof (induction k ret p arbitrary: m rule: utf32_rest.induct)
  case (1 ret p)
  then have "take_bit 16 ret = ret" by (metis min.absorb_iff2 mult_0_right add_0_right take_bit_take_bit)
  then show ?case using 1 by (auto intro: take_bit_16_le)
next
  case (3 k ret b p)
  then show ?case
    using shifted_bits [OF 3(3), of b] 3(1) [of "m + 6"]
    by (auto simp: UTF16_REPLACEMENT_CHAR_def split: if_splits)
qed simp

text \<open>Only a complete sequence of four bytes gives two units, and it was counted twice.\<close>

lemma put_units_length: "length (put_units r) = (if r \<le> 0xffff \<or> UNICODE_UPPER_LIMIT < r then 1 else 2)"
  by (auto simp: put_units_def UNICODE_UPPER_LIMIT_def)

lemma byte_leader:
  "\<forall>b :: byte. b AND 0xc0 \<noteq> 0x80 \<longrightarrow>
     UTF8_SEQ_LENGTH b \<in> {1, 2, 3, 4} \<and>
     (UTF8_SEQ_LENGTH b \<noteq> 4 \<longrightarrow>
       take_bit (16 - 6 * (UTF8_SEQ_LENGTH b - 1)) (ucast b AND leaderMask ! (UTF8_SEQ_LENGTH b - 1))
       = ucast b AND leaderMask ! (UTF8_SEQ_LENGTH b - 1))"
  unfolding all_bytes by code_simp

lemma getUtf32_small:
  assumes "getUtf32FromUtf8 (b # p) = Inr (r, p')" "b AND 0xc0 = 0x80 \<or> UTF8_SEQ_LENGTH b \<noteq> 4" "b \<noteq> 0"
  shows "r \<le> 0xffff"
proof (cases "b AND 0xc0 = 0x80")
  case True
  then show ?thesis using assms(1) by (auto simp: UTF16_REPLACEMENT_CHAR_def)
next
  case False
  let ?k = "UTF8_SEQ_LENGTH b - 1" and ?m = "ucast b AND leaderMask ! (UTF8_SEQ_LENGTH b - 1) :: 32 word"
  have "utf32_rest ?k ?m p = Inr (r, p')"
    using assms False by (simp add: Let_def)
  moreover have "take_bit (16 - 6 * ?k) ?m = ?m" "16 - 6 * ?k + 6 * ?k \<le> 16"
    using assms byte_leader [rule_format, OF False] False by auto
  ultimately show ?thesis by (rule utf32_rest_small)
qed

lemma count_units_char:
  assumes "0 \<in> set (b # p)" "b \<noteq> 0" "getUtf32FromUtf8 (b # p) = Inr (r, p')"
  shows "count_units (b # p) 0 =
    (if b AND 0xc0 \<noteq> 0x80 \<and> UTF8_SEQ_LENGTH b = 4 then 2 else 1) + count_units p' 0"
proof (cases "b AND 0xc0 = 0x80")
  case True
  then show ?thesis using assms(2,3) by (simp add: count_units_spent [of "- 1"])
next
  case False
  then have "utf32_rest (UTF8_SEQ_LENGTH b - 1) (ucast b AND leaderMask ! (UTF8_SEQ_LENGTH b - 1)) p = Inr (r, p')"
    using assms(2,3) by (simp add: Let_def)
  then have "count_units p (int (UTF8_SEQ_LENGTH b - 1)) = count_units p' 0"
    using assms(1,2) by (intro utf32_rest_count) auto
  moreover have "int (UTF8_SEQ_LENGTH b) - 1 = int (UTF8_SEQ_LENGTH b - 1)"
    by (simp add: UTF8_SEQ_LENGTH_def)
  ultimately have "count_units p (int (UTF8_SEQ_LENGTH b) - 1) = count_units p' 0" by (simp only:)
  then show ?thesis using False assms(2) by (simp only: count_units.simps if_False simp_thms if_True)
qed

lemma decode_count: "0 \<in> set p \<Longrightarrow> length (decode p) \<le> count_units p 0"
proof (induction p rule: decode.induct)
  case (2 b p)
  show ?case
  proof (cases "b = 0")
    case False
    with 2(2) obtain r p' where r: "getUtf32FromUtf8 (b # p) = Inr (r, p')" "0 \<in> set p'"
      by (rule getUtf32_terminated)
    have IH: "length (decode p') \<le> count_units p' 0" by (rule 2(1) [OF False r(1) refl r(2)])
    have "length (put_units r) \<le> (if b AND 0xc0 \<noteq> 0x80 \<and> UTF8_SEQ_LENGTH b = 4 then 2 else 1)"
      using getUtf32_small [OF r(1) _ False] by (auto simp: put_units_length)
    moreover have d: "decode (b # p) = put_units r @ decode p'"
      using r(1) False by (simp del: getUtf32FromUtf8.simps)
    ultimately show ?thesis
      unfolding d length_append count_units_char [OF 2(2) False r(1)] using IH by linarith
  qed simp
qed simp

lemma count_units_le: "count_units p e \<le> 2 * length p"
proof (induction p arbitrary: e)
  case (Cons b p)
  show ?case using Cons [of "e - 1"] Cons [of "int (UTF8_SEQ_LENGTH b) - 1"] Cons [of 3] by simp
qed simp

section \<open>Decoding what was encoded\<close>

lemma low6: "(u :: char16) AND 0x3f < 64"
  using word_and_le1 [of u "0x3f"] by (simp add: word_le_nat_alt word_less_nat_alt)

lemma small_pieces:
  fixes u :: char16
  shows "(ucast (u AND 0x3f) :: byte) < 64" "(ucast (drop_bit 6 u AND 0x3f) :: byte) < 64"
    "(ucast (drop_bit 12 u) :: byte) < 16" "\<not> 0x7ff < u \<Longrightarrow> (ucast (drop_bit 6 u) :: byte) < 32"
    "\<not> 0x7f < u \<Longrightarrow> (ucast u :: byte) < 0x80"
proof -
  have w: "unat u < 65536" using unsigned_less [of u, where ?'a = nat] by simp
  have m: "unat (v AND 0x3f) < 64" for v :: char16
    using word_and_le1 [of v "0x3f"] by (simp add: word_le_nat_alt)
  have c: "unat (ucast v :: byte) = unat v mod 256" for v :: char16
    by (simp add: unsigned_ucast_eq take_bit_eq_mod)
  have d: "unat (drop_bit k u) = unat u div 2 ^ k" for k
    by (simp only: unat_drop_bit_eq drop_bit_eq_div [of k "unat u"])
  show "(ucast (u AND 0x3f) :: byte) < 64" "(ucast (drop_bit 6 u AND 0x3f) :: byte) < 64"
    using m [of u] m [of "drop_bit 6 u"] by (simp_all add: word_less_nat_alt c)
  show "(ucast (drop_bit 12 u) :: byte) < 16"
    using w by (simp add: word_less_nat_alt c d)
  show "(ucast (drop_bit 6 u) :: byte) < 32" if "\<not> 0x7ff < u"
    using that by (simp add: word_less_nat_alt c d)
  show "(ucast u :: byte) < 0x80" if "\<not> 0x7f < u"
    using that by (simp add: word_less_nat_alt c)
qed

lemma bits_below:
  assumes "unat (u :: char16) < 2 ^ m" "bit u k"
  shows "k < m"
proof -
  have "take_bit m u = u" using assms(1)
    by (simp add: word_unat_eq_iff unsigned_take_bit_eq take_bit_nat_eq_self_iff)
  then show ?thesis using assms(2) by (metis bit_take_bit_iff)
qed

lemma low_mask: "v AND 0x3f = take_bit 6 (v :: char16)"
  by (simp add: take_bit_eq_mask mask_eq_exp_minus_1)

lemma low_mask8: "v AND 0xff = take_bit 8 (v :: 32 word)"
  by (simp add: take_bit_eq_mask mask_eq_exp_minus_1)

lemma reassemble3:
  fixes u :: char16
  shows "push_bit 6 (push_bit 6 (ucast (ucast (drop_bit 12 u) :: byte)) OR ucast (ucast (drop_bit 6 u AND 0x3f) :: byte))
      OR ucast (ucast (u AND 0x3f) :: byte) = (ucast u :: 32 word)"
  unfolding low_mask
proof (rule bit_word_eqI)
  fix n :: nat
  have "n < 16" if "bit u n" using bits_below [of u 16 n] that unsigned_less [of u, where ?'a = nat] by simp
  then show "bit (push_bit 6 (push_bit 6 (ucast (ucast (drop_bit 12 u) :: byte)) OR ucast (ucast (take_bit 6 (drop_bit 6 u)) :: byte))
      OR ucast (ucast (take_bit 6 u) :: byte) :: 32 word) n = bit (ucast u :: 32 word) n" if "n < LENGTH(32)"
    using that by (cases "12 \<le> n") (auto simp: bit_simps not_less)
qed

lemma reassemble2:
  fixes u :: char16
  assumes "\<not> 0x7ff < u"
  shows "push_bit 6 (ucast (ucast (drop_bit 6 u) :: byte)) OR ucast (ucast (u AND 0x3f) :: byte) = (ucast u :: 32 word)"
  unfolding low_mask
proof (rule bit_word_eqI)
  fix n :: nat
  have "n < 11" if "bit u n" using bits_below [of u 11 n] that assms by (simp add: word_less_nat_alt)
  then show "bit (push_bit 6 (ucast (ucast (drop_bit 6 u) :: byte)) OR ucast (ucast (take_bit 6 u) :: byte) :: 32 word) n
      = bit (ucast u :: 32 word) n" if "n < LENGTH(32)"
    using that by (auto simp: bit_simps not_less)
qed

lemma reassemble1:
  fixes u :: char16
  assumes "\<not> 0x7f < u"
  shows "ucast (ucast u :: byte) AND 0xff = (ucast u :: 32 word)"
  unfolding low_mask8
proof (rule bit_word_eqI)
  fix n :: nat
  have "n < 7" if "bit u n" using bits_below [of u 7 n] that assms by (simp add: word_less_nat_alt)
  then show "bit (take_bit 8 (ucast (ucast u :: byte)) :: 32 word) n = bit (ucast u :: 32 word) n" if "n < LENGTH(32)"
    using that by (auto simp: bit_simps)
qed

lemma getUtf32_encoded:
  "\<exists>b q. utf8_unit u = b # q \<and> b \<noteq> 0 \<and> UTF8_SEQ_LENGTH b \<noteq> 4 \<and> getUtf32FromUtf8 (b # q @ p) = Inr (ucast u, p)"
proof -
  note s = small_pieces [of u]
  consider "0x7ff < u" | "\<not> 0x7ff < u" "0x7f < u \<or> u = 0" | "\<not> 0x7f < u" "u \<noteq> 0" by blast
  then show ?thesis
  proof cases
    case 1
    then show ?thesis
      using byte_lead3 [rule_format, OF s(3)] byte_ext [rule_format, OF s(1)] byte_ext [rule_format, OF s(2)]
        reassemble3 [of u]
      by (simp add: utf8_unit_def Let_def leaderMask_def eval_nat_numeral)
  next
    case 2
    then show ?thesis
      using byte_lead2 [rule_format, OF s(4)] byte_ext [rule_format, OF s(1)] reassemble2 [of u]
      by (simp add: utf8_unit_def Let_def leaderMask_def eval_nat_numeral)
  next
    case 3
    then have "\<not> 0x7ff < u" by (simp add: word_less_nat_alt)
    moreover have "(ucast u :: byte) \<noteq> 0"
      using reassemble1 [of u] 3 char_compare(3) [of u] by auto
    ultimately show ?thesis
      using 3 byte_ascii [rule_format, OF s(5)] reassemble1 [of u]
      by (simp add: utf8_unit_def Let_def leaderMask_def)
  qed
qed

lemma encoded_cases:
  obtains b q where "utf8_unit u = b # q" "b \<noteq> 0" "UTF8_SEQ_LENGTH b \<noteq> 4"
    "getUtf32FromUtf8 (b # q @ p) = Inr (ucast u, p)"
  using getUtf32_encoded [of u p] by blast

lemma put_units_char: "put_units (ucast (u :: char16)) = [u]"
proof -
  have "unat u < 65536" using unsigned_less [of u, where ?'a = nat] by simp
  moreover from this have "take_bit 32 (unat u) = unat u" by (simp add: take_bit_nat_eq_self_iff)
  ultimately have "(ucast u :: 32 word) \<le> 0xffff"
    by (simp add: word_le_nat_alt unsigned_ucast_eq)
  moreover have "ucast (ucast u :: 32 word) = u" by (rule bit_word_eqI) (auto simp: bit_simps)
  ultimately show ?thesis by (simp add: put_units_def)
qed

lemma decode_utf8: "decode (utf8_of us @ 0 # rest) = us"
proof (induction us)
  case (Cons u us)
  obtain b q where "utf8_unit u = b # q" "b \<noteq> 0" "UTF8_SEQ_LENGTH b \<noteq> 4"
    "getUtf32FromUtf8 (b # q @ utf8_of us @ 0 # rest) = Inr (ucast u, utf8_of us @ 0 # rest)"
    by (rule encoded_cases)
  then show ?case using Cons by (simp add: put_units_char del: getUtf32FromUtf8.simps)
qed simp

lemma utf8_count: "count_units (utf8_of us @ 0 # rest) 0 = length us"
proof (induction us)
  case (Cons u us)
  obtain b q where q: "utf8_unit u = b # q" "b \<noteq> 0" "UTF8_SEQ_LENGTH b \<noteq> 4"
    "getUtf32FromUtf8 (b # q @ utf8_of us @ 0 # rest) = Inr (ucast u, utf8_of us @ 0 # rest)"
    by (rule encoded_cases)
  have "0 \<in> set (b # q @ utf8_of us @ 0 # rest)" by simp
  from count_units_char [OF this q(2,4)] q Cons show ?case
    by (simp del: count_units.simps getUtf32FromUtf8.simps)
qed simp

lemma strndup16to8_eq:
  assumes "2 \<le> LENGTH('w::len)" "length us < 2 ^ LENGTH('w)"
    and malloc: "\<And>n b. malloc n = Some b \<Longrightarrow> length b = n"
  shows "strndup16to8 TYPE('w) malloc (Some us) =
    (if utf8_length us + 1 < 2 ^ LENGTH('w) - 1 \<and> malloc (utf8_length us + 1) \<noteq> None
     then Inr (Some (utf8_of us @ [0])) else Inr None)"
proof -
  let ?n = "strnlen16to8 us :: 'w word"
  have n: "unat ?n = min (utf8_length us) (2 ^ LENGTH('w) - 2)" by (rule strnlen16to8_eq [OF assms(1,2)])
  show ?thesis
  proof (cases "utf8_length us + 1 < 2 ^ LENGTH('w) - 1")
    case True
    then have u: "unat ?n = utf8_length us" using n by simp
    then have "\<not> SIZE_MAX - 1 \<le> ?n" using True SIZE_MAX_pred [OF assms(1)] by (simp add: word_le_nat_alt)
    moreover have "unat (?n + 1) = utf8_length us + 1"
      using u True by (simp add: unat_word_ariths)
    ultimately show ?thesis
      using True malloc [of "utf8_length us + 1"]
      by (auto simp: strndup16to8_def Let_def strncpy_stores stores_buffer utf8_length_def split: option.split)
  next
    case False
    then have "SIZE_MAX - 1 \<le> ?n" using n SIZE_MAX_pred [OF assms(1)] by (simp add: word_le_nat_alt)
    then show ?thesis using False by (simp add: strndup16to8_def)
  qed
qed

lemma strdup8to16_eq:
  assumes w: "2 \<le> LENGTH('w::len)" and s: "0 \<in> set s" "2 * length s < 2 ^ LENGTH('w)"
    and malloc: "\<And>n b. malloc n = Some b \<Longrightarrow> length b = n div 2"
  shows "strlen8to16 s = Inr (of_nat (count_units s 0) :: 'w word)"
    and "length (decode s) \<le> count_units s 0" and "count_units s 0 < 2 ^ LENGTH('w)"
    and "strdup8to16 TYPE('w) malloc (Some s) =
       (if 2 ^ LENGTH('w) \<le> 2 * count_units s 0 then Inr (None, None)
        else case malloc (2 * count_units s 0) of
          None \<Rightarrow> if decode s = [] then Inr (None, Some 0) else Inl Null_write
        | Some b \<Rightarrow> Inr (Some (decode s @ drop (length (decode s)) b), Some (length (decode s))))"
proof -
  let ?n = "count_units s 0"
  show l: "strlen8to16 s = Inr (of_nat ?n :: 'w word)"
    using strlen_loop_count [OF s(1), of 0 0] by (simp add: strlen8to16_def)
  show d: "length (decode s) \<le> ?n" by (rule decode_count [OF s(1)])
  show n: "?n < 2 ^ LENGTH('w)" using count_units_le [of s 0] s(2) by simp
  have u: "unat (of_nat ?n :: 'w word) = ?n" using n by (simp add: unat_of_nat)
  show "strdup8to16 TYPE('w) malloc (Some s) =
       (if 2 ^ LENGTH('w) \<le> 2 * ?n then Inr (None, None)
        else case malloc (2 * ?n) of
          None \<Rightarrow> if decode s = [] then Inr (None, Some 0) else Inl Null_write
        | Some b \<Rightarrow> Inr (Some (decode s @ drop (length (decode s)) b), Some (length (decode s))))"
  proof -
    have "(2 :: nat) ^ 2 \<le> 2 ^ LENGTH('w)" using w by (rule power_increasing) simp
    then have two: "unat (2 :: 'w word) = 2" by (simp add: unat_of_nat [of 2, simplified])
    have ov: "(of_nat ?n :: 'w word) \<noteq> 0 \<and> SIZE_MAX div of_nat ?n < (2 :: 'w word) \<longleftrightarrow> 2 ^ LENGTH('w) \<le> 2 * ?n"
    proof (cases "?n = 0")
      case False
      then show ?thesis using n w
        by (auto simp: word_less_nat_alt two unat_div u unat_SIZE_MAX div_less_iff_less_mult word_unat_eq_iff )
    qed simp
    show ?thesis
    proof (cases "2 ^ LENGTH('w) \<le> 2 * ?n")
      case True
      then show ?thesis using l ov by (simp add: strdup8to16_def)
    next
      case False
      then have "unat (2 * of_nat ?n :: 'w word) = 2 * ?n" using u two by (simp add: unat_word_ariths)
      then show ?thesis
        using False l ov d malloc [of "2 * ?n"]
        by (auto simp: strdup8to16_def strcpy8to16_def strcpy_loop_stores [OF s(1)] stores_buffer split: option.split)
    qed
  qed
qed

section \<open>Properties\<close>

text \<open>C38. The length computation \<^verbatim>\<open>strnlen16to8\<close>: the fast loop without overflow tests and the paranoid
  loop agree on every input, and both give the length of the encoding, cut off at
  \<^verbatim>\<open>SIZE_MAX - 1\<close> when it does not fit a \<^verbatim>\<open>size_t\<close>.\<close>

theorem strnlen16to8_saturates:
  assumes "2 \<le> LENGTH('w::len)" "length us < 2 ^ LENGTH('w)"
  shows "strnlen16to8 us = (strnlen_paranoid us 0 :: 'w word)
    \<and> unat (strnlen16to8 us :: 'w word) = min (utf8_length us) (unat (SIZE_MAX - 1 :: 'w word))"
  using strnlen16to8_eq [OF assms] strnlen_paranoid_eq [OF assms(1), of us 0] SIZE_MAX_pred [OF assms(1)]
  by (simp add: word_unat_eq_iff)

theorem strnlen16to8_saturates_witness:
  "strnlen16to8 [0x41, 0, 0x20ac] = (strnlen_paranoid [0x41, 0, 0x20ac] 0 :: 32 word)
    \<and> unat (strnlen16to8 [0x41, 0, 0x20ac] :: 32 word) = 6"
proof -
  have p: "2 \<le> LENGTH(32)" "length [0x41, 0, 0x20ac :: char16] < 2 ^ LENGTH(32)" by simp_all
  have e: "min (utf8_length [0x41, 0, 0x20ac]) (unat (SIZE_MAX - 1 :: 32 word)) = 6"
    by (simp add: utf8_unit_def SIZE_MAX_def)
  show ?thesis by (rule strnlen16to8_saturates [OF p, unfolded e])
qed

text \<open>C37. \<^verbatim>\<open>strndup16to8\<close> on every input: it never writes outside of what it allocated; it returns NULL
  exactly when the encoding and its terminator do not fit a \<^verbatim>\<open>size_t\<close> or the allocation fails; otherwise
  the allocated block holds exactly the encoding and the terminator.\<close>

theorem strndup16to8_result:
  assumes "2 \<le> LENGTH('w::len)" "length us < 2 ^ LENGTH('w)"
    and malloc: "\<And>n b. malloc n = Some b \<Longrightarrow> length b = n"
  shows "strndup16to8 TYPE('w) malloc (Some us) =
    (if utf8_length us + 1 < 2 ^ LENGTH('w) - 1 \<and> malloc (utf8_length us + 1) \<noteq> None
     then Inr (Some (utf8_of us @ [0])) else Inr None)"
  by (rule strndup16to8_eq [OF assms])

theorem strndup16to8_result_witness:
  "strndup16to8 TYPE(32) (\<lambda>n. if n < 100 then Some (replicate n 0) else None) (Some [0x41, 0, 0x20ac])
     = Inr (Some [0x41, 0xc0, 0x80, 0xe2, 0x82, 0xac, 0])
   \<and> strndup16to8 TYPE(3) (\<lambda>n. Some (replicate n 0)) (Some [0x20ac, 0x20ac, 0x20ac]) = Inr None"
proof -
  let ?m = "\<lambda>n. if n < 100 then Some (replicate n 0) else None"
  have "strndup16to8 TYPE(32) ?m (Some [0x41, 0, 0x20ac]) = Inr (Some (utf8_of [0x41, 0, 0x20ac] @ [0]))"
    by (subst strndup16to8_result) (auto simp: utf8_unit_def split: if_splits)
  moreover have "utf8_of [0x41, 0, 0x20ac] @ [0] = [0x41, 0xc0, 0x80, 0xe2, 0x82, 0xac, 0]" by code_simp
  ultimately show ?thesis
    using strndup16to8_result [where 'w = 3, of "[0x20ac, 0x20ac, 0x20ac]" "\<lambda>n. Some (replicate n 0)"]
    by (simp add: utf8_unit_def)
qed



text \<open>C40. Round trip: what \<^verbatim>\<open>strndup16to8\<close> produces for a UTF-16 string, embedded zeros and unpaired
  surrogates included, \<^verbatim>\<open>strdup8to16\<close> turns back into that string, of that length, in a block of
  exactly that size.\<close>

theorem utf16_roundtrip:
  assumes w: "2 \<le> LENGTH('w::len)" and us: "6 * length us + 2 < 2 ^ LENGTH('w)"
    and malloc8: "\<And>n b. malloc8 n = Some b \<Longrightarrow> length b = n"
    and malloc16: "\<And>n b. malloc16 n = Some b \<Longrightarrow> length b = n div 2"
    and enc: "strndup16to8 TYPE('w) malloc8 (Some us) = Inr (Some s)"
    and mem: "malloc16 (2 * length us) \<noteq> None"
  shows "strdup8to16 TYPE('w) malloc16 (Some s) = Inr (Some us, Some (length us))"
proof -
  have len: "length us < 2 ^ LENGTH('w)" using us by simp
  have s: "s = utf8_of us @ [0]"
    using enc strndup16to8_eq [OF w len malloc8] by (simp split: if_splits)
  then have d: "decode s = us" "count_units s 0 = length us" "0 \<in> set s"
    using decode_utf8 [of us "[]"] utf8_count [of us "[]"] by simp_all
  have "2 * length s < 2 ^ LENGTH('w)"
    using s us utf8_length_le [of us] by (simp add: utf8_length_def)
  note r = strdup8to16_eq(4) [OF w d(3) this malloc16, unfolded d(1,2)]
  obtain b where b: "malloc16 (2 * length us) = Some b" using mem by blast
  then have "length b = length us" using malloc16 [OF b] by simp
  moreover have "\<not> 2 ^ LENGTH('w) \<le> 2 * length us" using us by linarith
  ultimately show ?thesis by (simp add: r b)
qed

theorem utf16_roundtrip_witness:
  "strdup8to16 TYPE(32) (\<lambda>n. Some (replicate (n div 2) 0)) (Some [0xed, 0xa0, 0xbd, 0xc0, 0x80, 0])
    = Inr (Some [0xd83d, 0], Some 2)"
proof -
  have e: "strndup16to8 TYPE(32) (\<lambda>n. Some (replicate n 0)) (Some [0xd83d, 0])
      = Inr (Some [0xed, 0xa0, 0xbd, 0xc0, 0x80, 0])"
    by (subst strndup16to8_eq) (simp_all add: utf8_unit_def)
  show ?thesis using utf16_roundtrip [OF _ _ _ _ e, of "\<lambda>n. Some (replicate (n div 2) 0)"] by simp
qed

end
