(* ===== verification/Loc_Heap.thy ===== *)
theory Loc_Heap
  imports Ipacm_Prelude
begin

text \<open>
  The heap of the GPS utilities (\<^verbatim>\<open>gps/utils/LocHeap.cpp\<close>). Every node is owned by
  exactly one parent, so that the pointer structure is a tree; the code never relinks a
  node but swaps the data of nodes. A rank function, the virtual method \<open>ranks\<close>, is a
  parameter of every operation. The interface \<open>rankable\<close> states what the client's class
  promises, \<open>priority_queue\<close> what the heap promises in return.
\<close>

section \<open>Nodes\<close>

datatype 'a heap_node = Nil | LocHeapNode int "'a heap_node" 'a "'a heap_node"

fun mSize :: "'a heap_node \<Rightarrow> int" where
  "mSize Nil = 0"
| "mSize (LocHeapNode s l x r) = s"

definition outRanks :: "('a \<Rightarrow> 'a \<Rightarrow> int) \<Rightarrow> 'a \<Rightarrow> 'a \<Rightarrow> bool" where
  "outRanks ranks a b \<longleftrightarrow> ranks a b > 0"

fun heap_data :: "'a heap_node \<Rightarrow> 'a option" where
  "heap_data Nil = None"
| "heap_data (LocHeapNode s l x r) = Some x"

fun set_data :: "'a \<Rightarrow> 'a heap_node \<Rightarrow> 'a heap_node" where
  "set_data d Nil = Nil"
| "set_data d (LocHeapNode s l x r) = LocHeapNode s l d r"

text \<open>The constructor of a node.\<close>

definition new_node :: "'a \<Rightarrow> 'a heap_node" where
  "new_node d = LocHeapNode 1 Nil d Nil"

text \<open>
  \<open>LocHeapNode::push\<close>; the case of no node is the assignment of the new node to an empty
  child, or to \<open>mTree\<close>.
\<close>

fun node_push :: "('a \<Rightarrow> 'a \<Rightarrow> int) \<Rightarrow> 'a \<Rightarrow> 'a heap_node \<Rightarrow> 'a heap_node" where
  "node_push ranks d Nil = new_node d"
| "node_push ranks d (LocHeapNode s l x r) =
     (let x' = (if outRanks ranks d x then d else x); d' = (if outRanks ranks d x then x else d) in
      if l = Nil then LocHeapNode (s + 1) (new_node d') x' r
      else if r = Nil then LocHeapNode (s + 1) l x' (new_node d')
      else if mSize l \<le> mSize r then LocHeapNode (s + 1) (node_push ranks d' l) x' r
      else LocHeapNode (s + 1) l x' (node_push ranks d' r))"

text \<open>
  \<open>LocHeapNode::pop\<close>: which child replaces the top, and the descent. The result is the
  data of the node popped out, and the tree.
\<close>

fun goes_left :: "('a \<Rightarrow> 'a \<Rightarrow> int) \<Rightarrow> 'a heap_node \<Rightarrow> 'a heap_node \<Rightarrow> bool" where
  "goes_left ranks Nil r = False"
| "goes_left ranks l Nil = True"
| "goes_left ranks (LocHeapNode _ _ a _) (LocHeapNode _ _ b _) = outRanks ranks a b"

lemma size_set_data [simp]: "size (set_data d t) = size t"
  by (cases t) simp_all

function node_pop :: "('a \<Rightarrow> 'a \<Rightarrow> int) \<Rightarrow> 'a heap_node \<Rightarrow> ('a \<times> 'a heap_node) option" where
  "node_pop ranks Nil = None"
| "node_pop ranks (LocHeapNode s l x r) =
     (if l = Nil \<and> r = Nil then Some (x, Nil)
      else if goes_left ranks l r then
        (case (heap_data l, node_pop ranks (set_data x l)) of
           (Some a, Some (p, l')) \<Rightarrow> Some (p, LocHeapNode (s - 1) l' a r)
         | _ \<Rightarrow> None)
      else
        (case (heap_data r, node_pop ranks (set_data x r)) of
           (Some b, Some (p, r')) \<Rightarrow> Some (p, LocHeapNode (s - 1) l b r')
         | _ \<Rightarrow> None))"
  by pat_completeness auto
termination by (relation "measure (\<lambda>(_, t). size t)") auto

text \<open>\<open>LocHeapNode::remove\<close>: the object is recognised by its address.\<close>

fun node_remove :: "('a \<Rightarrow> 'a \<Rightarrow> int) \<Rightarrow> 'a \<Rightarrow> 'a heap_node \<Rightarrow> 'a option \<times> 'a heap_node" where
  "node_remove ranks d Nil = (None, Nil)"
| "node_remove ranks d (LocHeapNode s l x r) =
     (if d = x then
        (case node_pop ranks (LocHeapNode s l x r) of
           Some (p, t) \<Rightarrow> (Some p, t) | None \<Rightarrow> (None, LocHeapNode s l x r))
      else if \<not> outRanks ranks d x then
        (case node_remove ranks d l of
           (Some p, l') \<Rightarrow> (Some p, LocHeapNode (s - 1) l' x r)
         | (None, l') \<Rightarrow>
             (case node_remove ranks d r of
                (Some p, r') \<Rightarrow> (Some p, LocHeapNode (s - 1) l' x r')
              | (None, r') \<Rightarrow> (None, LocHeapNode s l' x r')))
      else (None, LocHeapNode s l x r))"

fun checkNodes :: "('a \<Rightarrow> 'a \<Rightarrow> int) \<Rightarrow> 'a heap_node \<Rightarrow> bool" where
  "checkNodes ranks Nil = True"
| "checkNodes ranks (LocHeapNode s l x r) =
     ((case heap_data l of None \<Rightarrow> True | Some a \<Rightarrow> \<not> outRanks ranks a x \<and> checkNodes ranks l)
      \<and> (case heap_data r of None \<Rightarrow> True | Some b \<Rightarrow> \<not> outRanks ranks b x \<and> checkNodes ranks r)
      \<and> s - mSize l - mSize r = 1)"

section \<open>The heap\<close>

text \<open>The class \<open>LocHeap\<close>: its only member is \<open>mTree\<close>.\<close>

definition LocHeap_push :: "('a \<Rightarrow> 'a \<Rightarrow> int) \<Rightarrow> 'a \<Rightarrow> 'a heap_node \<Rightarrow> 'a heap_node" where
  "LocHeap_push ranks node mTree =
     (if mTree = Nil then new_node node else node_push ranks node mTree)"

definition LocHeap_peek :: "'a heap_node \<Rightarrow> 'a option" where
  "LocHeap_peek mTree = heap_data mTree"

definition LocHeap_pop :: "('a \<Rightarrow> 'a \<Rightarrow> int) \<Rightarrow> 'a heap_node \<Rightarrow> 'a option \<times> 'a heap_node" where
  "LocHeap_pop ranks mTree =
     (if mTree = Nil then (None, mTree)
      else case node_pop ranks mTree of Some (p, t) \<Rightarrow> (Some p, t) | None \<Rightarrow> (None, mTree))"

definition LocHeap_remove :: "('a \<Rightarrow> 'a \<Rightarrow> int) \<Rightarrow> 'a \<Rightarrow> 'a heap_node \<Rightarrow> 'a option \<times> 'a heap_node" where
  "LocHeap_remove ranks rankable mTree =
     (if mTree = Nil then (None, mTree) else node_remove ranks rankable mTree)"

section \<open>Contents, sizes and order\<close>

fun contents :: "'a heap_node \<Rightarrow> 'a multiset" where
  "contents Nil = {#}"
| "contents (LocHeapNode s l x r) = add_mset x (contents l + contents r)"

text \<open>
  The order of the tree, stated for all descendants: \<open>V\<close> is the set of the objects for
  which the rank is a ranking.
\<close>

fun heap_ok :: "'a set \<Rightarrow> ('a \<Rightarrow> 'a \<Rightarrow> int) \<Rightarrow> 'a heap_node \<Rightarrow> bool" where
  "heap_ok V ranks Nil = True"
| "heap_ok V ranks (LocHeapNode s l x r) =
     (x \<in> V \<and> (\<forall>y \<in># contents l + contents r. \<not> outRanks ranks y x)
      \<and> heap_ok V ranks l \<and> heap_ok V ranks r \<and> s = 1 + mSize l + mSize r)"

lemma contents_eq_empty [simp]: "contents t = {#} \<longleftrightarrow> t = Nil"
  by (cases t) simp_all

lemma contents_set_data:
  "heap_data t = Some a \<Longrightarrow> add_mset a (contents (set_data d t)) = add_mset d (contents t)"
  by (cases t) simp_all

lemma node_push_contents [simp]: "contents (node_push ranks d t) = add_mset d (contents t)"
  by (induction t arbitrary: d) (auto simp: new_node_def Let_def)

lemma node_push_size: "t \<noteq> Nil \<Longrightarrow> mSize (node_push ranks d t) = mSize t + 1"
  by (cases t) (simp_all add: Let_def)

lemma heap_data_in: "heap_data t = Some a \<Longrightarrow> a \<in># contents t"
  by (cases t) simp_all

lemma mSize_set_data [simp]: "mSize (set_data d t) = mSize t"
  by (cases t) simp_all

lemma set_data_Nil [simp]: "set_data d t = Nil \<longleftrightarrow> t = Nil"
  by (cases t) simp_all

lemma heap_data_set_data [simp]: "heap_data (set_data d t) = (if t = Nil then None else Some d)"
  by (cases t) simp_all

lemma heap_data_None [simp]: "heap_data t = None \<longleftrightarrow> t = Nil"
  by (cases t) simp_all

text \<open>Popping always succeeds on a tree, yields the top's data, and shrinks the contents by it.\<close>

lemma node_pop_contents:
  "t \<noteq> Nil \<Longrightarrow> \<exists>p t'. node_pop ranks t = Some (p, t') \<and> heap_data t = Some p
     \<and> contents t = add_mset p (contents t') \<and> mSize t' = (if t' = Nil then 0 else mSize t - 1)"
proof (induction ranks t rule: node_pop.induct)
  case (1 ranks)
  then show ?case by simp
next
  case (2 ranks s l x r)
  show ?case
  proof (cases "l = Nil \<and> r = Nil")
    case True
    then show ?thesis by simp
  next
    case nn: False
    show ?thesis
    proof (cases "goes_left ranks l r")
      case True
      then obtain a where a: "heap_data l = Some a" by (cases l) auto
      then have "set_data x l \<noteq> Nil" by auto
      from "2.IH"(1) [OF nn True this] obtain p l' where p: "node_pop ranks (set_data x l) = Some (p, l')"
        "heap_data (set_data x l) = Some p" "contents (set_data x l) = add_mset p (contents l')"
        by blast
      have "p = x" using p(2) by (simp split: if_splits)
      then show ?thesis
        using nn True a p contents_set_data [OF a, of x] by simp
    next
      case False
      then obtain b where b: "heap_data r = Some b" using nn by (cases l; cases r) auto
      then have "set_data x r \<noteq> Nil" by auto
      from "2.IH"(2) [OF nn False this] obtain p r' where p: "node_pop ranks (set_data x r) = Some (p, r')"
        "heap_data (set_data x r) = Some p" "contents (set_data x r) = add_mset p (contents r')"
        by blast
      have "p = x" using p(2) by (simp split: if_splits)
      then show ?thesis
        using nn False b p contents_set_data [OF b, of x] by simp
    qed
  qed
qed

section \<open>A class that can be ranked\<close>

text \<open>
  What \<open>LocRankable::ranks\<close> owes the heap, on the objects \<open>V\<close>: of two objects at most one
  outranks the other, and not being outranked is transitive.
\<close>

locale rankable =
  fixes ranks :: "'a \<Rightarrow> 'a \<Rightarrow> int" and V :: "'a set"
  assumes outRanks_asym: "\<lbrakk>a \<in> V; b \<in> V; outRanks ranks a b\<rbrakk> \<Longrightarrow> \<not> outRanks ranks b a"
    and not_outRanks_trans: "\<lbrakk>a \<in> V; b \<in> V; c \<in> V; \<not> outRanks ranks a b; \<not> outRanks ranks b c\<rbrakk>
          \<Longrightarrow> \<not> outRanks ranks a c"
begin

lemma not_outRanks_self: "a \<in> V \<Longrightarrow> \<not> outRanks ranks a a"
  using outRanks_asym by blast

lemma heap_ok_V: "heap_ok V ranks t \<Longrightarrow> set_mset (contents t) \<subseteq> V"
  by (induction t) auto

lemma heap_ok_size: "heap_ok V ranks t \<Longrightarrow> mSize t = int (size (contents t))"
  by (induction t) simp_all

lemma heap_ok_top:
  "\<lbrakk>heap_ok V ranks t; heap_data t = Some a; y \<in># contents t\<rbrakk> \<Longrightarrow> a \<in> V \<and> \<not> outRanks ranks y a"
  by (cases t) (auto dest: not_outRanks_self)

lemma heap_ok_set_data:
  assumes "heap_ok V ranks t" "x \<in> V" "\<forall>y \<in># contents t. \<not> outRanks ranks y x"
  shows "heap_ok V ranks (set_data x t)"
  using assms by (cases t) auto

lemma node_push_ok:
  "\<lbrakk>heap_ok V ranks t; d \<in> V\<rbrakk> \<Longrightarrow> heap_ok V ranks (node_push ranks d t)"
proof (induction t arbitrary: d)
  case Nil
  then show ?case by (simp add: new_node_def)
next
  case (LocHeapNode s l x r)
  define x' d' where "x' = (if outRanks ranks d x then d else x)"
    and "d' = (if outRanks ranks d x then x else d)"
  have sub: "y \<in> V" "\<not> outRanks ranks y x" if "y \<in># contents l + contents r" for y
    using that LocHeapNode.prems heap_ok_V [of l] heap_ok_V [of r] by auto
  have x: "x \<in> V" and v: "x' \<in> V" "d' \<in> V" using LocHeapNode.prems by (auto simp: x'_def d'_def)
  have top: "\<not> outRanks ranks d' x'"
    using outRanks_asym [of d x] x LocHeapNode.prems(2) by (auto simp: x'_def d'_def)
  have "\<not> outRanks ranks x x'" using top not_outRanks_self [OF x] by (auto simp: x'_def d'_def)
  then have low: "\<not> outRanks ranks y x'" if "y \<in># contents l + contents r" for y
    using not_outRanks_trans sub [OF that] x v(1) by blast
  have s: "s = 1 + mSize l + mSize r" using LocHeapNode.prems(1) by simp
  have p: "node_push ranks d (LocHeapNode s l x r) =
     (if l = Nil then LocHeapNode (s + 1) (new_node d') x' r
      else if r = Nil then LocHeapNode (s + 1) l x' (new_node d')
      else if mSize l \<le> mSize r then LocHeapNode (s + 1) (node_push ranks d' l) x' r
      else LocHeapNode (s + 1) l x' (node_push ranks d' r))"
    by (simp add: x'_def d'_def)
  have ih: "heap_ok V ranks (node_push ranks d' l)" "heap_ok V ranks (node_push ranks d' r)"
    using LocHeapNode.IH LocHeapNode.prems(1) v(2) by auto
  have n: "heap_ok V ranks (new_node d')" "contents (new_node d') = {#d'#}" "mSize (new_node d') = 1"
    using v(2) by (simp_all add: new_node_def)
  show ?case
    using LocHeapNode.prems(1) v low top ih n s node_push_size [of l ranks d'] node_push_size [of r ranks d']
    unfolding p by (auto split: if_splits)
qed

text \<open>Replacing the top by the higher ranked of the tops of its children.\<close>

lemma pop_step_ok:
  assumes ok: "heap_ok V ranks t1" "heap_ok V ranks t2" "heap_ok V ranks t1'"
    and a: "heap_data t1 = Some a" and c: "add_mset a (contents t1') = contents t1"
    and best: "\<And>b. heap_data t2 = Some b \<Longrightarrow> \<not> outRanks ranks b a"
  shows "a \<in> V" "\<forall>y \<in># contents t1' + contents t2. \<not> outRanks ranks y a" "mSize t1' = mSize t1 - 1"
proof -
  have av: "a \<in> V" using heap_ok_top [OF ok(1) a heap_data_in [OF a]] by simp
  show "a \<in> V" by (fact av)
  show "mSize t1' = mSize t1 - 1"
    using heap_ok_size [OF ok(1)] heap_ok_size [OF ok(3)] c [symmetric] by simp
  show "\<forall>y \<in># contents t1' + contents t2. \<not> outRanks ranks y a"
  proof
    fix y assume "y \<in># contents t1' + contents t2"
    then consider "y \<in># contents t1" | "y \<in># contents t2" using c [symmetric] by auto
    then show "\<not> outRanks ranks y a"
    proof cases
      case 1
      then show ?thesis using heap_ok_top [OF ok(1) a] by simp
    next
      case 2
      then obtain b where b: "heap_data t2 = Some b" by (cases t2) auto
      have "b \<in> V" "\<not> outRanks ranks y b" using heap_ok_top [OF ok(2) b 2] by simp_all
      moreover have "y \<in> V" using heap_ok_V [OF ok(2)] 2 by auto
      ultimately show ?thesis using not_outRanks_trans best [OF b] av by blast
    qed
  qed
qed

lemma node_pop_ok:
  "\<lbrakk>heap_ok V ranks t; node_pop ranks t = Some (p, t')\<rbrakk> \<Longrightarrow> heap_ok V ranks t'"
proof (induction ranks\<equiv>ranks t arbitrary: p t' rule: node_pop.induct)
  case 1
  then show ?case by simp
next
  case (2 s l x r)
  have ok: "heap_ok V ranks l" "heap_ok V ranks r" "x \<in> V" "s = 1 + mSize l + mSize r"
    and lo: "\<forall>y \<in># contents l. \<not> outRanks ranks y x" "\<forall>y \<in># contents r. \<not> outRanks ranks y x"
    using "2.prems"(1) by auto
  note sd = heap_ok_set_data [OF ok(1,3) lo(1)] heap_ok_set_data [OF ok(2,3) lo(2)]
  show ?case
  proof (cases "l = Nil \<and> r = Nil")
    case True
    then show ?thesis using "2.prems"(2) by simp
  next
    case nn: False
    show ?thesis
    proof (cases "goes_left ranks l r")
      case True
      then obtain a where a: "heap_data l = Some a" by (cases l) auto
      obtain q l' where q: "node_pop ranks (set_data x l) = Some (q, l')" "t' = LocHeapNode (s - 1) l' a r"
        using "2.prems"(2) nn True a by (auto split: option.splits)
      have l': "heap_ok V ranks l'" using "2.hyps"(1) [OF nn True sd(1) q(1)] .
      have ne: "set_data x l \<noteq> Nil" using a by auto
      have "q = x" "contents (set_data x l) = add_mset q (contents l')"
        using node_pop_contents [OF ne, of ranks] q(1) by (auto split: if_splits)
      then have c: "add_mset a (contents l') = contents l" using contents_set_data [OF a, of x] by simp
      have best: "\<not> outRanks ranks b a" if "heap_data r = Some b" for b
      proof -
        have "outRanks ranks a b" using True a that by (cases l; cases r) auto
        moreover have "b \<in> V" "a \<in> V"
          using heap_ok_top [OF ok(1) a heap_data_in [OF a]] heap_ok_top [OF ok(2) that heap_data_in [OF that]]
          by simp_all
        ultimately show ?thesis using outRanks_asym by blast
      qed
      show ?thesis using pop_step_ok [OF ok(1,2) l' a c best] ok l' q(2) by simp
    next
      case False
      then obtain b where b: "heap_data r = Some b" using nn by (cases l; cases r) auto
      obtain q r' where q: "node_pop ranks (set_data x r) = Some (q, r')" "t' = LocHeapNode (s - 1) l b r'"
        using "2.prems"(2) nn False b by (auto split: option.splits)
      have r': "heap_ok V ranks r'" using "2.hyps"(2) [OF nn False sd(2) q(1)] .
      have ne: "set_data x r \<noteq> Nil" using b by auto
      have "q = x" "contents (set_data x r) = add_mset q (contents r')"
        using node_pop_contents [OF ne, of ranks] q(1) by (auto split: if_splits)
      then have c: "add_mset b (contents r') = contents r" using contents_set_data [OF b, of x] by simp
      have best: "\<not> outRanks ranks a b" if "heap_data l = Some a" for a
        using False b that by (cases l; cases r) auto
      show ?thesis using pop_step_ok [OF ok(2,1) r' b c best] ok r' q(2) by (auto simp: ac_simps)
    qed
  qed
qed

lemma node_remove_spec:
  "\<lbrakk>heap_ok V ranks t; d \<in> V; node_remove ranks d t = (found, t')\<rbrakk>
    \<Longrightarrow> heap_ok V ranks t' \<and> (if d \<in># contents t
          then found = Some d \<and> contents t = add_mset d (contents t') else found = None \<and> t' = t)"
proof (induction t arbitrary: found t')
  case Nil
  then show ?case by simp
next
  case (LocHeapNode s l x r)
  let ?t = "LocHeapNode s l x r"
  have ok: "heap_ok V ranks l" "heap_ok V ranks r" "x \<in> V" "s = 1 + mSize l + mSize r"
    and lo: "\<forall>y \<in># contents l + contents r. \<not> outRanks ranks y x"
    using LocHeapNode.prems(1) by auto
  show ?case
  proof (cases "d = x")
    case True
    obtain p t1 where p: "node_pop ranks ?t = Some (p, t1)" "Some x = Some p"
      "contents ?t = add_mset p (contents t1)"
      using node_pop_contents [of ?t ranks] by auto
    show ?thesis
      using True p node_pop_ok [OF LocHeapNode.prems(1) p(1)] LocHeapNode.prems(3) by auto
  next
    case ne: False
    obtain fl l' where fl: "node_remove ranks d l = (fl, l')" by force
    obtain fr r' where fr: "node_remove ranks d r = (fr, r')" by force
    note il = LocHeapNode.IH(1) [OF ok(1) LocHeapNode.prems(2) fl]
    note ir = LocHeapNode.IH(2) [OF ok(2) LocHeapNode.prems(2) fr]
    show ?thesis
    proof (cases "d \<in># contents l")
      case True
      then have "\<not> outRanks ranks d x" using lo by auto
      then have eq: "found = Some d" "t' = LocHeapNode (s - 1) l' x r"
        using LocHeapNode.prems(3) ne fl il True by auto
      have c: "contents l = add_mset d (contents l')" using il True by simp
      have sz: "mSize l' = mSize l - 1"
        using heap_ok_size [OF ok(1)] heap_ok_size [OF il [THEN conjunct1]] unfolding c by simp
      show ?thesis
        using ok lo il [THEN conjunct1] sz unfolding eq by (simp add: c)
    next
      case nl: False
      show ?thesis
      proof (cases "d \<in># contents r")
        case True
        then have "\<not> outRanks ranks d x" using lo by auto
        then have eq: "found = Some d" "t' = LocHeapNode (s - 1) l x r'"
          using LocHeapNode.prems(3) ne fl fr il ir True nl by auto
        have c: "contents r = add_mset d (contents r')" using ir True by simp
        have sz: "mSize r' = mSize r - 1"
          using heap_ok_size [OF ok(2)] heap_ok_size [OF ir [THEN conjunct1]] unfolding c by simp
        show ?thesis
          using ok lo ir [THEN conjunct1] sz unfolding eq by (simp add: c)
      next
        case False
        then show ?thesis
          using LocHeapNode.prems ne fl fr il ir nl by (auto split: if_splits)
      qed
    qed
  qed
qed

text \<open>The program's own check accepts every tree that is in order.\<close>

lemma heap_ok_checkNodes: "heap_ok V ranks t \<Longrightarrow> checkNodes ranks t"
proof (induction t)
  case Nil
  then show ?case by simp
next
  case (LocHeapNode s l x r)
  then show ?case by (auto split: option.splits dest: heap_data_in)
qed

end

section \<open>The heap as a priority queue\<close>

text \<open>
  The contract of the class \<open>LocHeap\<close> towards its users: \<open>beats y x\<close> says that \<open>y\<close> must
  come out before \<open>x\<close>.
\<close>

locale priority_queue =
  fixes insert_obj :: "'a \<Rightarrow> 'h \<Rightarrow> 'h" and take_obj :: "'h \<Rightarrow> 'a option \<times> 'h"
    and drop_obj :: "'a \<Rightarrow> 'h \<Rightarrow> 'a option \<times> 'h"
    and elems :: "'h \<Rightarrow> 'a multiset" and ok :: "'h \<Rightarrow> bool"
    and beats :: "'a \<Rightarrow> 'a \<Rightarrow> bool" and U :: "'a set"
  assumes insert_ok: "\<lbrakk>ok h; x \<in> U\<rbrakk> \<Longrightarrow> ok (insert_obj x h)"
    and insert_elems: "\<lbrakk>ok h; x \<in> U\<rbrakk> \<Longrightarrow> elems (insert_obj x h) = add_mset x (elems h)"
    and take_none: "\<lbrakk>ok h; elems h = {#}\<rbrakk> \<Longrightarrow> take_obj h = (None, h)"
    and take_some: "\<lbrakk>ok h; elems h \<noteq> {#}\<rbrakk> \<Longrightarrow> \<exists>x h'. take_obj h = (Some x, h') \<and> ok h'
          \<and> elems h = add_mset x (elems h') \<and> (\<forall>y \<in># elems h'. \<not> beats y x)"
    and drop_spec: "\<lbrakk>ok h; x \<in> U; drop_obj x h = (found, h')\<rbrakk> \<Longrightarrow> ok h' \<and>
          (if x \<in># elems h then found = Some x \<and> elems h = add_mset x (elems h')
           else found = None \<and> h' = h)"

text \<open>Inserting a list of objects, and taking objects out a number of times.\<close>

fun insert_all :: "('a \<Rightarrow> 'h \<Rightarrow> 'h) \<Rightarrow> 'a list \<Rightarrow> 'h \<Rightarrow> 'h" where
  "insert_all ins [] h = h"
| "insert_all ins (x # xs) h = insert_all ins xs (ins x h)"

fun drain :: "('h \<Rightarrow> 'a option \<times> 'h) \<Rightarrow> nat \<Rightarrow> 'h \<Rightarrow> 'a option list" where
  "drain tk 0 h = []"
| "drain tk (Suc n) h = (case tk h of (x, h') \<Rightarrow> x # drain tk n h')"

context priority_queue
begin

lemma insert_all_ok:
  "\<lbrakk>ok h; set xs \<subseteq> U\<rbrakk> \<Longrightarrow> ok (insert_all insert_obj xs h)
     \<and> elems (insert_all insert_obj xs h) = elems h + mset xs"
  by (induction xs arbitrary: h) (simp_all add: insert_ok insert_elems)

lemma drain_sorted:
  "\<lbrakk>ok h; size (elems h) = n\<rbrakk> \<Longrightarrow> \<exists>xs. drain take_obj n h = map Some xs
     \<and> mset xs = elems h \<and> sorted_wrt (\<lambda>x y. \<not> beats y x) xs"
proof (induction n arbitrary: h)
  case 0
  then show ?case by simp
next
  case (Suc n)
  have "elems h \<noteq> {#}" using Suc.prems(2) by auto
  then obtain x h' where t: "take_obj h = (Some x, h')" "ok h'"
    "elems h = add_mset x (elems h')" "\<forall>y \<in># elems h'. \<not> beats y x"
    using take_some [OF Suc.prems(1)] by blast
  obtain xs where xs: "drain take_obj n h' = map Some xs" "mset xs = elems h'"
    "sorted_wrt (\<lambda>x y. \<not> beats y x) xs"
    using Suc.IH [OF t(2)] t(3) Suc.prems(2) by auto
  show ?case
    using t xs by (intro exI [of _ "x # xs"]) (auto simp: set_mset_mset [symmetric] simp del: set_mset_mset)
qed

end

sublocale rankable \<subseteq> heap: priority_queue "LocHeap_push ranks" "LocHeap_pop ranks"
  "LocHeap_remove ranks" contents "heap_ok V ranks" "outRanks ranks" V
proof
  fix h x assume h: "heap_ok V ranks h" and x: "x \<in> V"
  show "heap_ok V ranks (LocHeap_push ranks x h)"
    using node_push_ok [OF h x] by (auto simp: LocHeap_push_def)
  show "contents (LocHeap_push ranks x h) = add_mset x (contents h)"
    by (simp add: LocHeap_push_def new_node_def)
next
  fix h assume "heap_ok V ranks h" "contents h = {#}"
  then show "LocHeap_pop ranks h = (None, h)" by (simp add: LocHeap_pop_def)
next
  fix h assume h: "heap_ok V ranks h" and "contents h \<noteq> {#}"
  then have ne: "h \<noteq> Nil" by simp
  obtain p t' where p: "node_pop ranks h = Some (p, t')" "heap_data h = Some p"
    "contents h = add_mset p (contents t')"
    using node_pop_contents [OF ne] by blast
  have "\<forall>y \<in># contents t'. \<not> outRanks ranks y p"
    using heap_ok_top [OF h p(2)] p(3) by auto
  then show "\<exists>x h'. LocHeap_pop ranks h = (Some x, h') \<and> heap_ok V ranks h'
      \<and> contents h = add_mset x (contents h') \<and> (\<forall>y \<in># contents h'. \<not> outRanks ranks y x)"
    using ne p node_pop_ok [OF h p(1)] by (simp add: LocHeap_pop_def)
next
  fix h x found h' assume "heap_ok V ranks h" "x \<in> V" "LocHeap_remove ranks x h = (found, h')"
  then show "heap_ok V ranks h' \<and> (if x \<in># contents h
      then found = Some x \<and> contents h = add_mset x (contents h') else found = None \<and> h' = h)"
    using node_remove_spec [of h x found h'] by (cases "h = Nil") (simp_all add: LocHeap_remove_def)
qed

context rankable
begin

lemma LocHeap_priority_queue:
  "priority_queue (LocHeap_push ranks) (LocHeap_pop ranks)
     (LocHeap_remove ranks) contents (heap_ok V ranks) (outRanks ranks) V"
  by unfold_locales

end

lemmas rankable_priority_queue = rankable.LocHeap_priority_queue

section \<open>Properties\<close>

text \<open>The class \<open>LocHeapDebugData\<close> of the source's test: larger numbers rank lower.\<close>

definition debug_ranks :: "int \<Rightarrow> int \<Rightarrow> int" where
  "debug_ranks a b = b - a"

interpretation debug: rankable debug_ranks UNIV
  by unfold_locales (auto simp: outRanks_def debug_ranks_def)

text \<open>
  C27. Objects pushed into an empty heap in any order come out, each once, in the order of
  their ranks.
\<close>

theorem LocHeap_sorts:
  assumes "rankable ranks V" and "set xs \<subseteq> V"
  shows "\<exists>ys. drain (LocHeap_pop ranks) (length xs) (insert_all (LocHeap_push ranks) xs Nil) = map Some ys
     \<and> mset ys = mset xs \<and> sorted_wrt (\<lambda>x y. \<not> outRanks ranks y x) ys"
proof -
  have q: "priority_queue (LocHeap_push ranks) (LocHeap_pop ranks) (LocHeap_remove ranks) contents
      (heap_ok V ranks) (outRanks ranks) V"
    using assms(1) by (rule rankable_priority_queue)
  let ?h = "insert_all (LocHeap_push ranks) xs Nil"
  have "heap_ok V ranks ?h \<and> contents ?h = contents Nil + mset xs"
    by (rule priority_queue.insert_all_ok [OF q]) (simp_all add: assms(2))
  then show ?thesis
    using priority_queue.drain_sorted [OF q, of ?h "length xs"] by simp
qed

theorem LocHeap_sorts_witness:
  "\<exists>ys. drain (LocHeap_pop debug_ranks) 3 (insert_all (LocHeap_push debug_ranks) [5, 2, 9] Nil)
       = map Some ys
     \<and> mset ys = {#5, 2, 9#}"
  using LocHeap_sorts [OF debug.rankable_axioms, of "[5, 2, 9]"]
  by (auto simp: numeral_3_eq_3 simp del: drain.simps insert_all.simps)

text \<open>
  C28. \<open>remove\<close> takes exactly the given object out of the heap when it is there, and leaves
  the heap as it is when it is not; \<open>push\<close>, \<open>pop\<close> and \<open>remove\<close> keep the tree in the order
  and with the sizes that \<open>checkNodes\<close> asks for.
\<close>

theorem LocHeap_remove_exact:
  assumes "rankable ranks V" and "heap_ok V ranks t" "d \<in> V"
    and "LocHeap_remove ranks d t = (found, t')"
  shows "(if d \<in># contents t then found = Some d \<and> contents t = add_mset d (contents t')
          else found = None \<and> t' = t)
       \<and> heap_ok V ranks t' \<and> checkNodes ranks t' \<and> checkNodes ranks (LocHeap_push ranks d t)
       \<and> checkNodes ranks (snd (LocHeap_pop ranks t))"
proof -
  note q = rankable_priority_queue [OF assms(1)]
  have p: "heap_ok V ranks (snd (LocHeap_pop ranks t))"
    using priority_queue.take_none [OF q assms(2)] priority_queue.take_some [OF q assms(2)] assms(2)
    by (cases "contents t = {#}") force+
  show ?thesis
    using priority_queue.drop_spec [OF q assms(2,3,4)] p
      priority_queue.insert_ok [OF q assms(2,3)] rankable.heap_ok_checkNodes [OF assms(1)]
    by auto
qed

theorem LocHeap_remove_exact_witness:
  "\<exists>t'. LocHeap_remove debug_ranks 5 (LocHeap_push debug_ranks 5 Nil) = (Some 5, t')
     \<and> contents t' = {#}"
proof -
  obtain found t' where r: "LocHeap_remove debug_ranks 5 (LocHeap_push debug_ranks 5 Nil) = (found, t')"
    by force
  have "heap_ok UNIV debug_ranks (LocHeap_push debug_ranks 5 Nil)"
    by (simp add: LocHeap_push_def new_node_def)
  moreover have "contents (LocHeap_push debug_ranks 5 Nil) = {#5#}"
    by (simp add: LocHeap_push_def new_node_def)
  ultimately show ?thesis
    using LocHeap_remove_exact [OF debug.rankable_axioms _ UNIV_I r] r by auto
qed

end
