(* ===== verification/Loc_Timer.thy ===== *)
theory Loc_Timer
  imports Loc_Heap
begin

text \<open>
  The timer service of the GPS utilities (\<^verbatim>\<open>gps/utils/LocTimer.cpp\<close>): clients start and
  stop timers from their own threads, one message task owns the heap of running timers, and
  one polling thread waits on the timer file descriptor, which is armed for the timer that
  expires first. The threads are interleaved by a step relation; the body of a message is
  one step, with the client's callbacks, which start and stop timers in turn, inside it.
  One of the two containers (timers, alarms) is modelled.
\<close>

section \<open>Time\<close>

record timespec =
  tv_sec :: int
  tv_nsec :: int

definition nsecs :: "timespec \<Rightarrow> int" where
  "nsecs t = tv_sec t * 1000000000 + tv_nsec t"

definition time_ok :: "timespec \<Rightarrow> bool" where
  "time_ok t \<longleftrightarrow> 0 \<le> tv_sec t \<and> tv_sec t < 2 ^ 31 \<and> 0 \<le> tv_nsec t \<and> tv_nsec t < 1000000000
     \<and> 0 < nsecs t"

text \<open>The time \<open>LocTimer::start\<close> computes, from the clock and a delay in milliseconds.\<close>

definition future_time :: "timespec \<Rightarrow> u32 \<Rightarrow> timespec" where
  "future_time now_ts timeOutInMs =
     (let s = tv_sec now_ts + uint (timeOutInMs div 1000);
          n = tv_nsec now_ts + uint ((timeOutInMs mod 1000) * 1000000)
      in if n \<ge> 1000000000
         then \<lparr>tv_sec = s + n div 1000000000, tv_nsec = n mod 1000000000\<rparr>
         else \<lparr>tv_sec = s, tv_nsec = n\<rparr>)"

section \<open>Delegates and their rank\<close>

text \<open>
  A \<open>LocTimerDelegate\<close>: its address and the time it is due, which never changes. The
  pointers to its client and its container are in the state.
\<close>

record delegate =
  daddr :: nat
  mFutureTime :: timespec

definition to_int32 :: "int \<Rightarrow> int" where
  "to_int32 x = sint (word_of_int x :: u32)"

definition timer_ranks :: "delegate \<Rightarrow> delegate \<Rightarrow> int" where
  "timer_ranks this timer =
     (let rank = to_int32 (tv_sec (mFutureTime timer) - tv_sec (mFutureTime this)) in
      if rank = 0 then to_int32 (tv_nsec (mFutureTime timer) - tv_nsec (mFutureTime this)) else rank)"

definition timer_ok :: "delegate set" where
  "timer_ok = {d. time_ok (mFutureTime d)}"

lemma to_int32_id: "\<bar>x\<bar> < 2 ^ 31 \<Longrightarrow> to_int32 x = x"
  by (simp add: to_int32_def sint_sbintrunc' signed_take_bit_int_eq_self_iff abs_less_iff)

lemma timer_outRanks:
  assumes "a \<in> timer_ok" "b \<in> timer_ok"
  shows "outRanks timer_ranks a b \<longleftrightarrow> nsecs (mFutureTime a) < nsecs (mFutureTime b)"
proof -
  let ?s = "tv_sec (mFutureTime b) - tv_sec (mFutureTime a)"
  let ?n = "tv_nsec (mFutureTime b) - tv_nsec (mFutureTime a)"
  have "to_int32 ?s = ?s" "to_int32 ?n = ?n"
    using assms by (auto simp: timer_ok_def time_ok_def intro!: to_int32_id)
  then show ?thesis
    using assms by (auto simp: outRanks_def timer_ranks_def Let_def timer_ok_def time_ok_def nsecs_def)
qed

text \<open>Timers less than 68 years after boot are ranked as the heap asks for.\<close>

interpretation timers: rankable timer_ranks timer_ok
  by unfold_locales (auto simp: timer_outRanks)

section \<open>State\<close>

datatype timer_msg = MsgTimerPush delegate | MsgTimerRemove delegate | MsgTimerExpire

text \<open>Where the polling thread is: in \<open>epoll_wait\<close>, or in \<open>LocTimerContainer::expire\<close>.\<close>

datatype poll_point = Waiting | Woken | Disarmed | Unpolled

text \<open>
  \<open>mDevFd\<close> is the time the descriptor is armed for, \<open>polled\<close> whether the poll task watches
  it, \<open>mTimer\<close> the delegate of a client, \<open>mClient\<close> and \<open>mContainer\<close> the pointers of a
  delegate, \<open>live\<close> the delegates allocated, \<open>fired\<close> the callbacks made, with their times.
\<close>

record loc_timers =
  clock :: timespec
  mTree :: "delegate heap_node"
  mDevFd :: "timespec option"
  polled :: bool
  poll_at :: poll_point
  msgQ :: "timer_msg list"
  mTimer :: "nat \<Rightarrow> delegate option"
  mClient :: "delegate \<Rightarrow> nat option"
  mContainer :: "delegate \<Rightarrow> bool"
  live :: "delegate set"
  next_addr :: nat
  fired :: "(nat \<times> delegate \<times> timespec) list"

definition init_timers :: "timespec \<Rightarrow> loc_timers" where
  "init_timers t = \<lparr>clock = t, mTree = Nil, mDevFd = None, polled = False, poll_at = Waiting,
     msgQ = [], mTimer = (\<lambda>_. None), mClient = (\<lambda>_. None), mContainer = (\<lambda>_. False), live = {},
     next_addr = 0, fired = []\<rparr>"

section \<open>Poll task and container\<close>

definition sendMsg :: "timer_msg \<Rightarrow> loc_timers \<Rightarrow> loc_timers" where
  "sendMsg m st = st\<lparr>msgQ := msgQ st @ [m]\<rparr>"

definition addPoll :: "loc_timers \<Rightarrow> loc_timers" where
  "addPoll st = st\<lparr>polled := True\<rparr>"

definition removePoll :: "loc_timers \<Rightarrow> loc_timers" where
  "removePoll st = st\<lparr>polled := False\<rparr>"

text \<open>A time of zero disarms the descriptor.\<close>

definition timerfd_settime :: "timespec \<Rightarrow> loc_timers \<Rightarrow> loc_timers" where
  "timerfd_settime t st = st\<lparr>mDevFd := (if tv_sec t = 0 \<and> tv_nsec t = 0 then None else Some t)\<rparr>"

definition getSoonestTimer :: "loc_timers \<Rightarrow> delegate option" where
  "getSoonestTimer st = LocHeap_peek (mTree st)"

definition updateSoonestTime :: "delegate option \<Rightarrow> loc_timers \<Rightarrow> loc_timers" where
  "updateSoonestTime priorTop st =
     (if getSoonestTimer st \<noteq> priorTop then
        (case getSoonestTimer st of
           None \<Rightarrow> timerfd_settime \<lparr>tv_sec = 0, tv_nsec = 0\<rparr> (removePoll st)
         | Some curTop \<Rightarrow>
             if (case priorTop of None \<Rightarrow> True | Some p \<Rightarrow> outRanks timer_ranks curTop p)
             then timerfd_settime (mFutureTime curTop) (addPoll st) else st)
      else st)"

text \<open>\<open>MsgTimerPush::proc\<close>.\<close>

definition push_proc :: "delegate \<Rightarrow> loc_timers \<Rightarrow> loc_timers" where
  "push_proc timer st =
     updateSoonestTime (getSoonestTimer st) (st\<lparr>mTree := LocHeap_push timer_ranks timer (mTree st)\<rparr>)"

text \<open>\<open>MsgTimerRemove::proc\<close>, the only place where delegates are deleted.\<close>

definition remove_proc :: "delegate \<Rightarrow> loc_timers \<Rightarrow> loc_timers" where
  "remove_proc timer st =
     (let priorTop = getSoonestTimer st;
          (removed, tree) = LocHeap_remove timer_ranks timer (mTree st);
          st1 = st\<lparr>mTree := tree\<rparr>;
          st2 = (if priorTop = removed then updateSoonestTime None st1 else st1)
      in st2\<lparr>live := live st2 - {timer}\<rparr>)"

definition popIfOutRanks :: "delegate \<Rightarrow> loc_timers \<Rightarrow> delegate option \<times> loc_timers" where
  "popIfOutRanks timer st =
     (case LocHeap_peek (mTree st) of
        None \<Rightarrow> (None, st)
      | Some t0 \<Rightarrow>
          if \<not> outRanks timer_ranks timer t0
          then (case LocHeap_pop timer_ranks (mTree st) of (p, t) \<Rightarrow> (p, st\<lparr>mTree := t\<rparr>))
          else (None, st))"

section \<open>Delegates and clients\<close>

definition destroyLocked :: "delegate \<Rightarrow> loc_timers \<Rightarrow> loc_timers" where
  "destroyLocked d st =
     (let st1 = st\<lparr>mClient := (mClient st)(d := None)\<rparr> in
      if mContainer st1 d
      then sendMsg (MsgTimerRemove d) (st1\<lparr>mContainer := (mContainer st1)(d := False)\<rparr>)
      else st1)"

text \<open>\<open>LocTimer::start\<close> with the constructor of the delegate.\<close>

definition LocTimer_start :: "nat \<Rightarrow> u32 \<Rightarrow> loc_timers \<Rightarrow> bool \<times> loc_timers" where
  "LocTimer_start c timeOutInMs st =
     (case mTimer st c of
        None \<Rightarrow>
          (let d = \<lparr>daddr = next_addr st, mFutureTime = future_time (clock st) timeOutInMs\<rparr>;
               st1 = st\<lparr>live := insert d (live st), next_addr := next_addr st + 1,
                        mClient := (mClient st)(d \<mapsto> c), mContainer := (mContainer st)(d := True)\<rparr>;
               st2 = sendMsg (MsgTimerPush d) st1
           in (True, st2\<lparr>mTimer := (mTimer st2)(c \<mapsto> d)\<rparr>))
      | Some _ \<Rightarrow> (False, st))"

definition LocTimer_stop :: "nat \<Rightarrow> loc_timers \<Rightarrow> bool \<times> loc_timers" where
  "LocTimer_stop c st =
     (case mTimer st c of
        None \<Rightarrow> (False, st)
      | Some timer \<Rightarrow> (True, destroyLocked timer (st\<lparr>mTimer := (mTimer st)(c := None)\<rparr>)))"

text \<open>\<open>loc_timer_start\<close> passes its 64-bit delay to the 32-bit parameter of \<open>start\<close>.\<close>

definition loc_timer_start :: "nat \<Rightarrow> 64 word \<Rightarrow> loc_timers \<Rightarrow> bool \<times> loc_timers" where
  "loc_timer_start c msec st = LocTimer_start c (ucast msec) st"

text \<open>What a client's code does: start and stop timers, its own or another's.\<close>

datatype client_op = Start nat u32 | Stop nat

primrec client_do :: "client_op \<Rightarrow> loc_timers \<Rightarrow> loc_timers" where
  "client_do (Start c ms) st = snd (LocTimer_start c ms st)"
| "client_do (Stop c) st = snd (LocTimer_stop c st)"

type_synonym callbacks = "nat \<Rightarrow> loc_timers \<Rightarrow> client_op list"

text \<open>\<open>LocTimerDelegate::expire\<close>; \<open>cb\<close> is what the client's \<open>timeOutCallback\<close> does.\<close>

definition delegate_expire :: "callbacks \<Rightarrow> delegate \<Rightarrow> loc_timers \<Rightarrow> loc_timers" where
  "delegate_expire cb d st =
     (case mClient st d of
        None \<Rightarrow> st
      | Some client \<Rightarrow>
          (case LocTimer_stop client st of
             (ok, st1) \<Rightarrow>
               if ok then fold client_do (cb client st1)
                            (st1\<lparr>fired := fired st1 @ [(client, d, clock st1)]\<rparr>)
               else st1))"


section \<open>Expiry\<close>

lemma sendMsg_frame [simp]:
  "mTree (sendMsg m st) = mTree st" "mDevFd (sendMsg m st) = mDevFd st"
  "polled (sendMsg m st) = polled st" "poll_at (sendMsg m st) = poll_at st"
  "clock (sendMsg m st) = clock st" "live (sendMsg m st) = live st"
  "next_addr (sendMsg m st) = next_addr st" "mTimer (sendMsg m st) = mTimer st"
  "mClient (sendMsg m st) = mClient st" "mContainer (sendMsg m st) = mContainer st"
  "fired (sendMsg m st) = fired st" "msgQ (sendMsg m st) = msgQ st @ [m]"
  by (simp_all add: sendMsg_def)

text \<open>What starting and stopping timers leaves to the message task and the poll task.\<close>

definition task_view :: "loc_timers \<Rightarrow> delegate heap_node \<times> timespec option \<times> bool \<times> poll_point \<times> timespec"
  where "task_view st = (mTree st, mDevFd st, polled st, poll_at st, clock st)"

lemma destroyLocked_frame [simp]:
  "task_view (destroyLocked d st) = task_view st" "fired (destroyLocked d st) = fired st"
  by (simp_all add: destroyLocked_def task_view_def Let_def)

lemma client_do_frame [simp]:
  "task_view (client_do op st) = task_view st" "fired (client_do op st) = fired st"
  by (cases op; simp add: LocTimer_start_def LocTimer_stop_def Let_def task_view_def split: option.split;
      simp add: task_view_def [symmetric] destroyLocked_def Let_def; simp add: task_view_def)+

lemma clients_do_frame [simp]:
  "task_view (fold client_do ops st) = task_view st" "fired (fold client_do ops st) = fired st"
  by (induction ops arbitrary: st) simp_all

lemma task_viewD:
  assumes "task_view st' = task_view st"
  shows "mTree st' = mTree st" "mDevFd st' = mDevFd st" "polled st' = polled st"
    "poll_at st' = poll_at st" "clock st' = clock st"
  using assms by (simp_all add: task_view_def)

lemma LocTimer_stop_frame:
  "LocTimer_stop c st = (b, st') \<Longrightarrow> task_view st' = task_view st \<and> fired st' = fired st"
  using client_do_frame [of "Stop c" st] by simp

lemma delegate_expire_view [simp]: "task_view (delegate_expire cb d st) = task_view st"
proof (cases "mClient st d")
  case None
  then show ?thesis by (simp add: delegate_expire_def)
next
  case (Some c)
  obtain b st1 where s: "LocTimer_stop c st = (b, st1)" by force
  have "task_view (st1\<lparr>fired := xs\<rparr>) = task_view st1" for xs by (simp add: task_view_def)
  then show ?thesis using Some s LocTimer_stop_frame [OF s] by (simp add: delegate_expire_def)
qed

lemmas delegate_expire_frame [simp] = task_viewD [OF delegate_expire_view]

lemma LocHeap_pop_size:
  assumes "LocHeap_pop ranks t = (Some p, t')"
  shows "heap_data t = Some p" "contents t = add_mset p (contents t')"
  using assms node_pop_contents [of t ranks] by (auto simp: LocHeap_pop_def split: if_splits)

lemma popIfOutRanks_some:
  assumes "popIfOutRanks n st = (Some p, st')"
  shows "\<exists>t. st' = st\<lparr>mTree := t\<rparr> \<and> heap_data (mTree st) = Some p \<and> \<not> outRanks timer_ranks n p
    \<and> LocHeap_pop timer_ranks (mTree st) = (Some p, t) \<and> contents (mTree st) = add_mset p (contents t)"
proof -
  obtain q t where q: "LocHeap_pop timer_ranks (mTree st) = (q, t)" by force
  then show ?thesis using assms LocHeap_pop_size [of timer_ranks "mTree st" p t]
    by (auto simp: popIfOutRanks_def LocHeap_peek_def split: option.splits if_splits)
qed

text \<open>The loop of \<open>MsgTimerExpire::proc\<close> after its first turn: it ends as the heap shrinks.\<close>

function expire_rest :: "callbacks \<Rightarrow> delegate \<Rightarrow> loc_timers \<Rightarrow> loc_timers" where
  "expire_rest cb timerOfNow st =
     (case popIfOutRanks timerOfNow st of
        (None, st1) \<Rightarrow> st1
      | (Some timer, st1) \<Rightarrow> expire_rest cb timerOfNow (delegate_expire cb timer st1))"
  by pat_completeness auto
termination
proof (relation "measure (\<lambda>(_, _, st). size (contents (mTree st)))", goal_cases)
  case 1
  then show ?case by simp
next
  case (2 cb n st p st1 timer)
  then have "popIfOutRanks n st = (Some timer, st1)" by simp
  then show ?case using popIfOutRanks_some by fastforce
qed

declare expire_rest.simps [simp del]

text \<open>The first timer of the heap is popped without a look at the time.\<close>

definition expire_proc :: "callbacks \<Rightarrow> loc_timers \<Rightarrow> loc_timers" where
  "expire_proc cb st =
     (let timerOfNow = \<lparr>daddr = 0, mFutureTime = clock st\<rparr> in
      case LocHeap_pop timer_ranks (mTree st) of
        (None, _) \<Rightarrow> updateSoonestTime None st
      | (Some timer, tree) \<Rightarrow>
          updateSoonestTime None
            (expire_rest cb timerOfNow (delegate_expire cb timer (st\<lparr>mTree := tree\<rparr>))))"

section \<open>Threads\<close>

definition msg_proc :: "callbacks \<Rightarrow> timer_msg \<Rightarrow> loc_timers \<Rightarrow> loc_timers" where
  "msg_proc cb m st =
     (case m of
        MsgTimerPush d \<Rightarrow> push_proc d st
      | MsgTimerRemove d \<Rightarrow> remove_proc d st
      | MsgTimerExpire \<Rightarrow> expire_proc cb st)"

text \<open>
  One step of a thread, or of time. The polling thread leaves \<open>epoll_wait\<close> when the
  descriptor it watches has expired, and then runs the three calls of \<open>expire\<close> one by one.
  A timer is started only while its time stays representable.
\<close>

inductive timer_step :: "callbacks \<Rightarrow> loc_timers \<Rightarrow> loc_timers \<Rightarrow> bool" for cb where
  step_tick: "nsecs (clock st) \<le> nsecs t \<Longrightarrow> time_ok t \<Longrightarrow> tv_sec t < 2 ^ 30 \<Longrightarrow>
    timer_step cb st (st\<lparr>clock := t\<rparr>)"
| step_client: "timer_step cb st (client_do op st)"
| step_wake: "poll_at st = Waiting \<Longrightarrow> polled st \<Longrightarrow> mDevFd st = Some t \<Longrightarrow>
    nsecs t \<le> nsecs (clock st) \<Longrightarrow> timer_step cb st (st\<lparr>poll_at := Woken\<rparr>)"
| step_disarm: "poll_at st = Woken \<Longrightarrow>
    timer_step cb st ((timerfd_settime \<lparr>tv_sec = 0, tv_nsec = 0\<rparr> st)\<lparr>poll_at := Disarmed\<rparr>)"
| step_unpoll: "poll_at st = Disarmed \<Longrightarrow> timer_step cb st ((removePoll st)\<lparr>poll_at := Unpolled\<rparr>)"
| step_send: "poll_at st = Unpolled \<Longrightarrow>
    timer_step cb st ((sendMsg MsgTimerExpire st)\<lparr>poll_at := Waiting\<rparr>)"
| step_msg: "msgQ st = m # q \<Longrightarrow> timer_step cb st (msg_proc cb m (st\<lparr>msgQ := q\<rparr>))"

inductive timer_reach :: "callbacks \<Rightarrow> loc_timers \<Rightarrow> bool" for cb where
  reach_init: "time_ok t \<Longrightarrow> tv_sec t < 2 ^ 30 \<Longrightarrow> timer_reach cb (init_timers t)"
| reach_step: "timer_reach cb st \<Longrightarrow> timer_step cb st st' \<Longrightarrow> timer_reach cb st'"

text \<open>The same steps as a function of the event that takes place.\<close>

datatype timer_event = Tick timespec | Client client_op | Wake | Disarm | Unpoll | Send | Message

definition timer_exec :: "callbacks \<Rightarrow> timer_event \<Rightarrow> loc_timers \<Rightarrow> loc_timers option" where
  "timer_exec cb e st =
     (case e of
        Tick t \<Rightarrow> if nsecs (clock st) \<le> nsecs t \<and> time_ok t \<and> tv_sec t < 2 ^ 30
                  then Some (st\<lparr>clock := t\<rparr>) else None
      | Client op \<Rightarrow> Some (client_do op st)
      | Wake \<Rightarrow> (case mDevFd st of None \<Rightarrow> None | Some t \<Rightarrow>
                  if poll_at st = Waiting \<and> polled st \<and> nsecs t \<le> nsecs (clock st)
                  then Some (st\<lparr>poll_at := Woken\<rparr>) else None)
      | Disarm \<Rightarrow> if poll_at st = Woken
                  then Some ((timerfd_settime \<lparr>tv_sec = 0, tv_nsec = 0\<rparr> st)\<lparr>poll_at := Disarmed\<rparr>) else None
      | Unpoll \<Rightarrow> if poll_at st = Disarmed then Some ((removePoll st)\<lparr>poll_at := Unpolled\<rparr>) else None
      | Send \<Rightarrow> if poll_at st = Unpolled
                then Some ((sendMsg MsgTimerExpire st)\<lparr>poll_at := Waiting\<rparr>) else None
      | Message \<Rightarrow> (case msgQ st of [] \<Rightarrow> None | m # q \<Rightarrow> Some (msg_proc cb m (st\<lparr>msgQ := q\<rparr>))))"

lemma timer_exec_step: "timer_exec cb e st = Some st' \<Longrightarrow> timer_step cb st st'"
  unfolding timer_exec_def
  by (cases e) (auto split: if_splits option.splits list.splits intro: timer_step.intros)

lemma timer_step_exec: "timer_step cb st st' \<Longrightarrow> \<exists>e. timer_exec cb e st = Some st'"
proof (induction rule: timer_step.induct)
  case (step_tick st t)
  then show ?case by (intro exI [of _ "Tick t"]) (simp add: timer_exec_def)
next
  case (step_client st op)
  then show ?case by (intro exI [of _ "Client op"]) (simp add: timer_exec_def)
next
  case (step_wake st t)
  then show ?case by (intro exI [of _ Wake]) (simp add: timer_exec_def)
next
  case (step_disarm st)
  then show ?case by (intro exI [of _ Disarm]) (simp add: timer_exec_def)
next
  case (step_unpoll st)
  then show ?case by (intro exI [of _ Unpoll]) (simp add: timer_exec_def)
next
  case (step_send st)
  then show ?case by (intro exI [of _ Send]) (simp add: timer_exec_def)
next
  case (step_msg st m q)
  then show ?case by (intro exI [of _ Message]) (simp add: timer_exec_def)
qed

lemma run_steps_reach:
  "timer_reach cb st \<Longrightarrow> run_steps (timer_exec cb) es st = Some st' \<Longrightarrow> timer_reach cb st'"
  by (induction es arbitrary: st)
    (auto split: option.splits dest: timer_exec_step intro: timer_reach.intros)


section \<open>The invariant of the service\<close>

fun pushed :: "timer_msg list \<Rightarrow> delegate list" where
  "pushed [] = []"
| "pushed (MsgTimerPush d # q) = d # pushed q"
| "pushed (m # q) = pushed q"

fun removed :: "timer_msg list \<Rightarrow> delegate list" where
  "removed [] = []"
| "removed (MsgTimerRemove d # q) = d # removed q"
| "removed (m # q) = removed q"

text \<open>No push of a timer comes after its removal.\<close>

fun push_first :: "timer_msg list \<Rightarrow> bool" where
  "push_first [] = True"
| "push_first (MsgTimerRemove d # q) = (d \<notin> set (pushed q) \<and> push_first q)"
| "push_first (m # q) = push_first q"

lemma pushed_append [simp]: "pushed (p @ q) = pushed p @ pushed q"
  by (induction p rule: pushed.induct) simp_all

lemma removed_append [simp]: "removed (p @ q) = removed p @ removed q"
  by (induction p rule: removed.induct) simp_all

lemma push_first_append [simp]:
  "push_first (q @ [MsgTimerPush d]) \<longleftrightarrow> push_first q \<and> d \<notin> set (removed q)"
  "push_first (q @ [MsgTimerRemove d]) \<longleftrightarrow> push_first q"
  "push_first (q @ [MsgTimerExpire]) \<longleftrightarrow> push_first q"
  by (induction q rule: push_first.induct) auto

text \<open>
  The clients' side: a client and its delegate point to each other; a delegate that was
  stopped, and only such a one, has exactly one removal under way.
\<close>

definition clients_inv :: "loc_timers \<Rightarrow> bool" where
  "clients_inv st \<longleftrightarrow>
     (\<forall>c d. mTimer st c = Some d \<longleftrightarrow> d \<in> live st \<and> mClient st d = Some c)
     \<and> (\<forall>d \<in> live st. mContainer st d \<longleftrightarrow> mClient st d \<noteq> None)
     \<and> (\<forall>d \<in> live st. mContainer st d \<longleftrightarrow> d \<notin> set (removed (msgQ st)))
     \<and> set (removed (msgQ st)) \<subseteq> live st \<and> distinct (removed (msgQ st))"

text \<open>
  The message task's side: timers are in the heap, or on their way to it, once; none of the
  running timers is lost, but those of \<open>X\<close>.
\<close>

definition heap_inv :: "delegate set \<Rightarrow> loc_timers \<Rightarrow> bool" where
  "heap_inv X st \<longleftrightarrow>
     heap_ok timer_ok timer_ranks (mTree st)
     \<and> (\<forall>d. count (contents (mTree st)) d \<le> 1) \<and> distinct (pushed (msgQ st))
     \<and> set_mset (contents (mTree st)) \<inter> set (pushed (msgQ st)) = {}
     \<and> set_mset (contents (mTree st)) \<union> set (pushed (msgQ st)) \<subseteq> live st
     \<and> push_first (msgQ st)
     \<and> (\<forall>d \<in> live st. mContainer st d \<longrightarrow>
          d \<in> X \<or> d \<in># contents (mTree st) \<or> d \<in> set (pushed (msgQ st)))"

definition time_inv :: "loc_timers \<Rightarrow> bool" where
  "time_inv st \<longleftrightarrow> time_ok (clock st) \<and> tv_sec (clock st) < 2 ^ 30
     \<and> live st \<subseteq> timer_ok \<and> (\<forall>d \<in> live st. daddr d < next_addr st)"

definition timers_inv :: "delegate set \<Rightarrow> loc_timers \<Rightarrow> bool" where
  "timers_inv X st \<longleftrightarrow> clients_inv st \<and> heap_inv X st \<and> time_inv st"

lemma u32_div_1000: "uint (ms div 1000 :: u32) = uint ms div 1000"
  by (simp add: uint_div)

lemma u32_ms_to_ns: "uint ((ms mod 1000) * 1000000 :: u32) = uint ms mod 1000 * 1000000"
proof -
  have "uint (ms mod 1000) = uint ms mod 1000" by (simp add: uint_mod)
  moreover have "uint ms mod 1000 < 1000" by simp
  ultimately show ?thesis by (subst uint_mult_lem [THEN iffD1]) simp_all
qed

lemma future_time_eq:
  "future_time t ms =
     (let s = tv_sec t + uint ms div 1000; n = tv_nsec t + uint ms mod 1000 * 1000000 in
      if n \<ge> 1000000000 then \<lparr>tv_sec = s + n div 1000000000, tv_nsec = n mod 1000000000\<rparr>
      else \<lparr>tv_sec = s, tv_nsec = n\<rparr>)"
  unfolding future_time_def u32_div_1000 u32_ms_to_ns ..

lemma future_time_nsecs: "nsecs (future_time t ms) = nsecs t + uint ms * 1000000"
  unfolding future_time_eq nsecs_def Let_def by (simp, presburger)

lemma future_time_ok:
  assumes "time_ok t" "tv_sec t < 2 ^ 30"
  shows "time_ok (future_time t ms)"
proof -
  define q r n where "q = uint ms div 1000" and "r = uint ms mod 1000"
    and "n = tv_nsec t + r * 1000000"
  have ms: "0 \<le> uint ms" "uint ms < 4294967296" using uint_lt2p [of ms] by simp_all
  have qr: "0 \<le> q" "q < 4294968" "0 \<le> r" "r \<le> 999" using ms unfolding q_def r_def by linarith+
  have t: "0 \<le> tv_sec t" "tv_sec t < 1073741824" "0 \<le> tv_nsec t" "tv_nsec t < 1000000000"
    "0 < nsecs t" using assms by (simp_all add: time_ok_def)
  have n: "0 \<le> n" "n < 2000000000" using qr t unfolding n_def by linarith+
  have m: "0 \<le> n mod 1000000000" "n mod 1000000000 < 1000000000" "0 \<le> n div 1000000000"
    "n div 1000000000 \<le> 1" using n by simp_all
  have pos: "0 < nsecs (future_time t ms)" using t(5) ms(1) unfolding future_time_nsecs by linarith
  have e: "future_time t ms = (if n \<ge> 1000000000
      then \<lparr>tv_sec = tv_sec t + q + n div 1000000000, tv_nsec = n mod 1000000000\<rparr>
      else \<lparr>tv_sec = tv_sec t + q, tv_nsec = n\<rparr>)"
    unfolding future_time_eq q_def r_def n_def Let_def ..
  show ?thesis
  proof (cases "n \<ge> 1000000000")
    case True
    then show ?thesis using pos qr t m unfolding time_ok_def e by simp
  next
    case False
    then show ?thesis using pos qr t n unfolding time_ok_def e by simp
  qed
qed

lemma timers_inv_init: "time_ok t \<Longrightarrow> tv_sec t < 2 ^ 30 \<Longrightarrow> timers_inv X (init_timers t)"
  by (simp add: timers_inv_def clients_inv_def heap_inv_def time_inv_def init_timers_def)


lemma timers_inv_irrelevant [simp]:
  "timers_inv X (st\<lparr>fired := f\<rparr>) = timers_inv X st"
  "timers_inv X (st\<lparr>mDevFd := t\<rparr>) = timers_inv X st"
  "timers_inv X (st\<lparr>polled := b\<rparr>) = timers_inv X st"
  "timers_inv X (st\<lparr>poll_at := p\<rparr>) = timers_inv X st"
  by (simp_all add: timers_inv_def clients_inv_def heap_inv_def time_inv_def)

lemma timers_inv_clock:
  assumes "timers_inv X st" "time_ok t" "tv_sec t < 2 ^ 30"
  shows "timers_inv X (st\<lparr>clock := t\<rparr>)"
proof -
  have "clients_inv (st\<lparr>clock := t\<rparr>) = clients_inv st" by (simp add: clients_inv_def)
  moreover have "heap_inv X (st\<lparr>clock := t\<rparr>) = heap_inv X st" by (simp add: heap_inv_def)
  ultimately show ?thesis using assms by (simp add: timers_inv_def time_inv_def)
qed

lemma timers_inv_msgQ:
  assumes "pushed q = pushed (msgQ st)" "removed q = removed (msgQ st)"
    "push_first q = push_first (msgQ st)"
  shows "timers_inv X (st\<lparr>msgQ := q\<rparr>) = timers_inv X st"
proof -
  have "clients_inv (st\<lparr>msgQ := q\<rparr>) = clients_inv st" by (simp add: clients_inv_def assms)
  moreover have "heap_inv X (st\<lparr>msgQ := q\<rparr>) = heap_inv X st" by (simp add: heap_inv_def assms)
  ultimately show ?thesis by (simp add: timers_inv_def time_inv_def)
qed

lemma timers_inv_Expire:
  "timers_inv X st \<Longrightarrow> timers_inv X (sendMsg MsgTimerExpire st)"
  "timers_inv X st \<Longrightarrow> msgQ st = MsgTimerExpire # q \<Longrightarrow> timers_inv X (st\<lparr>msgQ := q\<rparr>)"
  by (simp_all add: sendMsg_def timers_inv_msgQ)

lemma updateSoonestTime_inv [simp]: "timers_inv X (updateSoonestTime p st) = timers_inv X st"
  by (simp add: updateSoonestTime_def timerfd_settime_def addPoll_def removePoll_def
      split: option.split)

text \<open>A new delegate is not one of the delegates the service knows.\<close>

lemma start_inv:
  assumes inv: "timers_inv X st"
  shows "timers_inv X (snd (LocTimer_start c ms st))"
proof (cases "mTimer st c")
  case (Some d)
  then show ?thesis using inv by (simp add: LocTimer_start_def)
next
  case None
  define d where "d = \<lparr>daddr = next_addr st, mFutureTime = future_time (clock st) ms\<rparr>"
  define st' where "st' = snd (LocTimer_start c ms st)"
  have ci: "clients_inv st" and hi: "heap_inv X st" and ti: "time_inv st"
    using inv by (simp_all add: timers_inv_def)
  have new: "d \<notin> live st" using ti by (auto simp: time_inv_def d_def)
  have f: "mTimer st' = (mTimer st)(c \<mapsto> d)" "mClient st' = (mClient st)(d \<mapsto> c)"
    "mContainer st' = (mContainer st)(d := True)" "live st' = insert d (live st)"
    "msgQ st' = msgQ st @ [MsgTimerPush d]" "mTree st' = mTree st" "clock st' = clock st"
    "next_addr st' = next_addr st + 1"
    using None by (simp_all add: st'_def LocTimer_start_def Let_def d_def)
  have q: "pushed (msgQ st') = pushed (msgQ st) @ [d]" "removed (msgQ st') = removed (msgQ st)"
    by (simp_all add: f)
  have notin: "d \<notin> set (removed (msgQ st))" "d \<notin> set (pushed (msgQ st))" "d \<notin># contents (mTree st)"
    using ci hi new by (auto simp: clients_inv_def heap_inv_def)
  have alone: "mClient st e \<noteq> Some c" if "e \<in> live st" for e
    using ci None that unfolding clients_inv_def by (metis option.distinct(1))
  have "clients_inv st'"
    unfolding clients_inv_def q unfolding f using ci new notin None alone by (auto simp: clients_inv_def)
  moreover have "heap_inv X st'"
    unfolding heap_inv_def q unfolding f using hi new notin by (auto simp: heap_inv_def)
  moreover have "time_inv st'"
    unfolding time_inv_def f using ti future_time_ok [of "clock st" ms]
    by (auto simp: time_inv_def timer_ok_def d_def)
  ultimately show ?thesis by (simp add: timers_inv_def st'_def)
qed

lemma stop_inv:
  assumes inv: "timers_inv X st" and stop: "LocTimer_stop c st = (b, st')"
  shows "timers_inv X st'" "mTimer st c = Some d \<Longrightarrow> b \<and> \<not> mContainer st' d"
proof -
  show "timers_inv X st'"
  proof (cases "mTimer st c")
    case None
    then show ?thesis using assms by (simp add: LocTimer_stop_def)
  next
    case (Some d)
    have ci: "clients_inv st" and hi: "heap_inv X st" and ti: "time_inv st"
      using inv by (simp_all add: timers_inv_def)
    have d: "d \<in> live st" "mClient st d = Some c" "mContainer st d" "d \<notin> set (removed (msgQ st))"
      using ci Some by (auto simp: clients_inv_def)
    have f: "mTimer st' = (mTimer st)(c := None)" "mClient st' = (mClient st)(d := None)"
      "mContainer st' = (mContainer st)(d := False)" "live st' = live st"
      "msgQ st' = msgQ st @ [MsgTimerRemove d]" "mTree st' = mTree st" "clock st' = clock st"
      "next_addr st' = next_addr st"
      using stop Some d by (auto simp: LocTimer_stop_def destroyLocked_def Let_def)
    have q: "pushed (msgQ st') = pushed (msgQ st)" "removed (msgQ st') = removed (msgQ st) @ [d]"
      by (simp_all add: f)
    have alone: "e = d" if "e \<in> live st" "mClient st e = Some c" for e
      using ci Some that unfolding clients_inv_def by (metis option.inject)
    have "clients_inv st'"
      unfolding clients_inv_def q unfolding f using ci d Some by (auto simp: clients_inv_def dest: alone)
    moreover have "heap_inv X st'"
      unfolding heap_inv_def q unfolding f using hi d by (auto simp: heap_inv_def)
    moreover have "time_inv st'"
      unfolding time_inv_def f using ti by (auto simp: time_inv_def)
    ultimately show ?thesis by (simp add: timers_inv_def)
  qed
  show "b \<and> \<not> mContainer st' d" if "mTimer st c = Some d"
  proof -
    have "mContainer st d" using inv that by (auto simp: timers_inv_def clients_inv_def)
    then show ?thesis using stop that by (auto simp: LocTimer_stop_def destroyLocked_def Let_def)
  qed
qed

lemma client_do_inv: "timers_inv X st \<Longrightarrow> timers_inv X (client_do op st)"
  by (cases op) (auto intro: start_inv stop_inv(1) [OF _ surjective_pairing])

lemma clients_do_inv: "timers_inv X st \<Longrightarrow> timers_inv X (fold client_do ops st)"
  by (induction ops arbitrary: st) (simp_all add: client_do_inv)

lemma clients_do_container:
  "timers_inv X st \<Longrightarrow> d \<in> live st \<Longrightarrow> \<not> mContainer st d
    \<Longrightarrow> d \<in> live (fold client_do ops st) \<and> \<not> mContainer (fold client_do ops st) d"
proof (induction ops arbitrary: st)
  case Nil
  then show ?case by simp
next
  case (Cons op ops)
  have "daddr d < next_addr st" using Cons.prems by (simp add: timers_inv_def time_inv_def)
  then have "d \<in> live (client_do op st) \<and> \<not> mContainer (client_do op st) d"
    using Cons.prems(2,3)
    by (cases op) (auto simp: LocTimer_start_def LocTimer_stop_def destroyLocked_def Let_def split: option.split)
  then show ?case using Cons.IH client_do_inv [OF Cons.prems(1)] by simp
qed

text \<open>Popping a timer makes it an exception; its \<open>expire\<close> stops it.\<close>

lemma pop_inv:
  assumes inv: "timers_inv X st" and pop: "LocHeap_pop timer_ranks (mTree st) = (Some p, t)"
  shows "timers_inv (insert p X) (st\<lparr>mTree := t\<rparr>)" "p \<in> live st"
proof -
  have c: "contents (mTree st) = add_mset p (contents t)" using LocHeap_pop_size(2) [OF pop] .
  have ok: "heap_ok timer_ok timer_ranks (mTree st)" and one: "\<forall>d. count (contents (mTree st)) d \<le> 1"
    using inv by (simp_all add: timers_inv_def heap_inv_def)
  have "heap_ok timer_ok timer_ranks t"
    using timers.heap.take_some [OF ok] pop c by auto
  moreover have "count (contents t) d \<le> 1" for d
    using one [rule_format, of d] unfolding c by (simp split: if_splits)
  ultimately show "timers_inv (insert p X) (st\<lparr>mTree := t\<rparr>)"
    using inv unfolding timers_inv_def heap_inv_def clients_inv_def time_inv_def by (auto simp: c)
  show "p \<in> live st" using inv by (auto simp: timers_inv_def heap_inv_def c)
qed

lemma timers_inv_drop:
  "timers_inv (insert p X) st \<Longrightarrow> \<not> mContainer st p \<Longrightarrow> timers_inv X st"
  by (auto simp: timers_inv_def heap_inv_def)

lemma delegate_expire_inv:
  assumes inv: "timers_inv (insert p X) st" and p: "p \<in> live st"
  shows "timers_inv X (delegate_expire cb p st)"
proof (cases "mClient st p")
  case None
  then have "\<not> mContainer st p" using inv p by (auto simp: timers_inv_def clients_inv_def)
  then show ?thesis using None timers_inv_drop [OF inv] by (simp add: delegate_expire_def)
next
  case (Some c)
  have t: "mTimer st c = Some p" using inv p Some by (auto simp: timers_inv_def clients_inv_def)
  obtain b st1 where s: "LocTimer_stop c st = (b, st1)" by force
  have b: b "\<not> mContainer st1 p" using stop_inv(2) [OF inv s t] by simp_all
  show ?thesis
    using timers_inv_drop [OF stop_inv(1) [OF inv s] b(2)] b(1) Some s
    by (simp add: delegate_expire_def clients_do_inv)
qed


lemma expire_rest_inv:
  "timers_inv X st \<Longrightarrow> timers_inv X (expire_rest cb n st)"
proof (induction cb n st rule: expire_rest.induct)
  case (1 cb n st)
  obtain p st1 where p: "popIfOutRanks n st = (p, st1)" by force
  show ?case
  proof (cases p)
    case None
    then have "st1 = st"
      using p by (auto simp: popIfOutRanks_def LocHeap_pop_def LocHeap_peek_def
          split: option.splits if_splits prod.splits dest: node_pop_contents)
    then show ?thesis using 1 p None by (subst expire_rest.simps) simp
  next
    case (Some d)
    obtain t where t: "st1 = st\<lparr>mTree := t\<rparr>" "LocHeap_pop timer_ranks (mTree st) = (Some d, t)"
      using popIfOutRanks_some p Some by blast
    have "timers_inv X (delegate_expire cb d st1)"
      using delegate_expire_inv pop_inv [OF "1.prems" t(2)] t(1) by simp
    then show ?thesis using 1 p Some by (subst expire_rest.simps) simp
  qed
qed

lemma expire_proc_inv:
  assumes "timers_inv X st"
  shows "timers_inv X (expire_proc cb st)"
proof -
  obtain p t where p: "LocHeap_pop timer_ranks (mTree st) = (p, t)" by force
  show ?thesis
  proof (cases p)
    case None
    then show ?thesis using assms p by (simp add: expire_proc_def)
  next
    case (Some d)
    have "timers_inv X (delegate_expire cb d (st\<lparr>mTree := t\<rparr>))"
      using delegate_expire_inv pop_inv [OF assms, of d t] p Some by simp
    then show ?thesis using p Some by (simp add: expire_proc_def Let_def expire_rest_inv)
  qed
qed

lemma push_proc_inv:
  assumes inv: "timers_inv X st" and q: "msgQ st = MsgTimerPush d # q"
  shows "timers_inv X (push_proc d (st\<lparr>msgQ := q\<rparr>))"
proof -
  have ok: "heap_ok timer_ok timer_ranks (mTree st)" and d: "d \<in> timer_ok"
    using inv q by (auto simp: timers_inv_def heap_inv_def time_inv_def)
  note h = timers.heap.insert_ok [OF ok d] timers.heap.insert_elems [OF ok d]
  have one: "\<forall>e. count (contents (mTree st)) e \<le> 1" and notin: "d \<notin># contents (mTree st)"
    using inv q by (auto simp: timers_inv_def heap_inv_def)
  then have "\<forall>e. count (add_mset d (contents (mTree st))) e \<le> 1"
    by (simp add: not_in_iff)
  then have "timers_inv X (st\<lparr>msgQ := q, mTree := LocHeap_push timer_ranks d (mTree st)\<rparr>)"
    using inv h q unfolding timers_inv_def heap_inv_def clients_inv_def time_inv_def by auto
  then show ?thesis by (simp add: push_proc_def)
qed

text \<open>The removal deletes a timer nothing refers to any more.\<close>

lemma remove_proc_inv:
  assumes inv: "timers_inv X st" and q: "msgQ st = MsgTimerRemove d # q"
  shows "timers_inv X (remove_proc d (st\<lparr>msgQ := q\<rparr>))"
proof -
  obtain r t where r: "LocHeap_remove timer_ranks d (mTree st) = (r, t)" by force
  have ok: "heap_ok timer_ok timer_ranks (mTree st)" and d: "d \<in> timer_ok" "d \<in> live st"
    using inv q by (auto simp: timers_inv_def heap_inv_def time_inv_def clients_inv_def)
  note h = timers.heap.drop_spec [OF ok d(1) r]
  have one: "count (contents (mTree st)) e \<le> 1" for e
    using inv by (simp add: timers_inv_def heap_inv_def)
  have t1: "count (contents t) e \<le> 1" for e using h one [of e] by (auto split: if_splits)
  have t2: "set_mset (contents t) = set_mset (contents (mTree st)) - {d}"
    using h one [of d] by (auto split: if_splits simp: not_in_iff)
  have off: "mClient st d = None" "d \<notin> set (removed q)" "d \<notin> set (pushed q)"
    using inv q d by (auto simp: timers_inv_def heap_inv_def clients_inv_def)
  define st' where "st' = st\<lparr>msgQ := q, mTree := t, live := live st - {d}\<rparr>"
  have ci: "clients_inv st" and hi: "heap_inv X st" and ti: "time_inv st"
    using inv by (simp_all add: timers_inv_def)
  have "clients_inv st'" using ci q off unfolding clients_inv_def st'_def by auto
  moreover have "heap_inv X st'"
    using hi q off h(1) t1 unfolding heap_inv_def st'_def by (auto simp: t2)
  moreover have "time_inv st'" using ti unfolding time_inv_def st'_def by auto
  ultimately have inv': "timers_inv X st'" by (simp add: timers_inv_def)
  have upd: "(updateSoonestTime p s)\<lparr>live := l\<rparr> = updateSoonestTime p (s\<lparr>live := l\<rparr>)" for p s l
    by (simp add: updateSoonestTime_def timerfd_settime_def addPoll_def removePoll_def
        getSoonestTimer_def split: option.split)
  have "live (updateSoonestTime p s) = live s" for p s
    by (simp add: updateSoonestTime_def timerfd_settime_def addPoll_def removePoll_def
        getSoonestTimer_def split: option.split)
  then have "remove_proc d (st\<lparr>msgQ := q\<rparr>) = st' \<or> (\<exists>p. remove_proc d (st\<lparr>msgQ := q\<rparr>) = updateSoonestTime p st')"
    using r by (auto simp: remove_proc_def Let_def st'_def upd)
  then show ?thesis using inv' by auto
qed

lemma timer_step_inv:
  assumes "timer_step cb st st'" "timers_inv {} st"
  shows "timers_inv {} st'"
  using assms(1)
proof cases
  case (step_tick t)
  then show ?thesis using timers_inv_clock assms(2) by simp
next
  case (step_client op)
  then show ?thesis using client_do_inv assms(2) by simp
next
  case step_send
  then show ?thesis using timers_inv_Expire(1) assms(2) by simp
next
  case (step_msg m q)
  show ?thesis
  proof (cases m)
    case MsgTimerExpire
    have "timers_inv {} (st\<lparr>msgQ := q\<rparr>)"
      using timers_inv_Expire(2) assms(2) step_msg MsgTimerExpire by simp
    then show ?thesis using step_msg MsgTimerExpire expire_proc_inv by (simp add: msg_proc_def)
  qed (use assms(2) step_msg push_proc_inv remove_proc_inv in \<open>auto simp: msg_proc_def\<close>)
qed (use assms(2) in \<open>simp_all add: timerfd_settime_def removePoll_def\<close>)

lemma timer_reach_inv: "timer_reach cb st \<Longrightarrow> timers_inv {} st"
  by (induction rule: timer_reach.induct) (auto intro: timers_inv_init timer_step_inv)


section \<open>The descriptor is armed for the soonest timer\<close>

definition expire_under_way :: "loc_timers \<Rightarrow> bool" where
  "expire_under_way st \<longleftrightarrow> poll_at st \<noteq> Waiting \<or> MsgTimerExpire \<in> set (msgQ st)"

definition armed :: "loc_timers \<Rightarrow> bool" where
  "armed st \<longleftrightarrow> heap_data (mTree st) = None
     \<or> polled st \<and> mDevFd st = map_option mFutureTime (heap_data (mTree st))"

definition armed_inv :: "loc_timers \<Rightarrow> bool" where
  "armed_inv st \<longleftrightarrow> expire_under_way st \<or> armed st"

lemma top_time_set:
  assumes "timers_inv X st" "heap_data (mTree st) = Some d"
  shows "\<not> (tv_sec (mFutureTime d) = 0 \<and> tv_nsec (mFutureTime d) = 0)"
proof -
  have "d \<in> timer_ok"
    using assms heap_data_in [OF assms(2)] by (auto simp: timers_inv_def heap_inv_def time_inv_def)
  then show ?thesis by (auto simp: timer_ok_def time_ok_def nsecs_def)
qed

lemma updateSoonestTime_None_armed: "timers_inv X st \<Longrightarrow> armed (updateSoonestTime None st)"
  using top_time_set [of X st]
  by (auto simp: armed_def updateSoonestTime_def getSoonestTimer_def LocHeap_peek_def
      timerfd_settime_def addPoll_def removePoll_def split: option.split)

lemma push_top:
  "heap_data (LocHeap_push ranks d t) =
     (case heap_data t of None \<Rightarrow> Some d | Some x \<Rightarrow> Some (if outRanks ranks d x then d else x))"
  by (cases t) (simp_all add: LocHeap_push_def new_node_def Let_def)

lemma push_proc_armed:
  assumes inv: "timers_inv X (st\<lparr>mTree := LocHeap_push timer_ranks d (mTree st)\<rparr>)" and a: "armed st"
  shows "armed (push_proc d st)"
proof (cases "heap_data (mTree st)")
  case None
  then show ?thesis
    using updateSoonestTime_None_armed [OF inv]
    by (simp add: push_proc_def getSoonestTimer_def LocHeap_peek_def)
next
  case (Some x)
  show ?thesis
    using a Some top_time_set [OF inv, of d]
    by (auto simp: push_proc_def armed_def updateSoonestTime_def getSoonestTimer_def LocHeap_peek_def
        push_top timerfd_settime_def addPoll_def removePoll_def)
qed

text \<open>Removing an object that is not the top leaves the top.\<close>

lemma remove_top:
  assumes "LocHeap_remove ranks d t = (r, t')" "heap_data t \<noteq> r"
  shows "heap_data t' = heap_data t"
proof (cases t)
  case Nil
  then show ?thesis using assms by (simp add: LocHeap_remove_def)
next
  case (LocHeapNode s l x r')
  have "d \<noteq> x"
    using assms LocHeapNode node_pop_contents [of t ranks]
    by (auto simp: LocHeap_remove_def split: option.splits)
  then show ?thesis
    using assms LocHeapNode by (auto simp: LocHeap_remove_def split: if_splits option.splits prod.splits)
qed

lemma remove_proc_armed:
  assumes inv: "timers_inv X (remove_proc d st)" and a: "armed st"
  shows "armed (remove_proc d st)"
proof -
  obtain r t where r: "LocHeap_remove timer_ranks d (mTree st) = (r, t)" by force
  show ?thesis
  proof (cases "heap_data (mTree st) = r")
    case True
    have upd: "(updateSoonestTime p s)\<lparr>live := l\<rparr> = updateSoonestTime p (s\<lparr>live := l\<rparr>)" for p s l
      by (simp add: updateSoonestTime_def timerfd_settime_def addPoll_def removePoll_def
          getSoonestTimer_def split: option.split)
    have "live (updateSoonestTime p s) = live s" for p s
      by (simp add: updateSoonestTime_def timerfd_settime_def addPoll_def removePoll_def
          getSoonestTimer_def split: option.split)
    then have "remove_proc d st = updateSoonestTime None (st\<lparr>mTree := t, live := live st - {d}\<rparr>)"
      using r True by (simp add: remove_proc_def Let_def upd getSoonestTimer_def LocHeap_peek_def)
    then show ?thesis using updateSoonestTime_None_armed inv by simp
  next
    case False
    then show ?thesis
      using a r remove_top [OF r False]
      by (simp add: remove_proc_def Let_def getSoonestTimer_def LocHeap_peek_def armed_def)
  qed
qed

text \<open>Messages already queued, and the place of the polling thread, outlive a message.\<close>

lemma client_do_msgQ: "set (msgQ st) \<subseteq> set (msgQ (client_do op st))"
  by (cases op) (auto simp: LocTimer_start_def LocTimer_stop_def destroyLocked_def Let_def split: option.split)

lemma msg_frame [simp]:
  "poll_at (updateSoonestTime p st) = poll_at st" "msgQ (updateSoonestTime p st) = msgQ st"
  "poll_at (push_proc d st) = poll_at st" "msgQ (push_proc d st) = msgQ st"
  "poll_at (remove_proc d st) = poll_at st" "msgQ (remove_proc d st) = msgQ st"
  by (simp_all add: push_proc_def remove_proc_def updateSoonestTime_def timerfd_settime_def addPoll_def
      removePoll_def getSoonestTimer_def Let_def split: option.split prod.split)

lemma expire_proc_armed: "timers_inv X (expire_proc cb st) \<Longrightarrow> armed (expire_proc cb st)"
  by (auto simp: expire_proc_def Let_def updateSoonestTime_None_armed split: option.splits prod.splits)

lemma timer_step_armed:
  assumes step: "timer_step cb st st'" and inv: "timers_inv {} st" and a: "armed_inv st"
  shows "armed_inv st'"
proof -
  have inv': "timers_inv {} st'" using timer_step_inv [OF step inv] .
  from step show ?thesis
  proof cases
    case (step_tick t)
    then show ?thesis using a by (simp add: armed_inv_def expire_under_way_def armed_def)
  next
    case (step_client op)
    have "armed st' = armed st" "poll_at st' = poll_at st"
      using task_viewD [OF client_do_frame(1) [of op st]] step_client by (simp_all add: armed_def)
    then show ?thesis
      using a client_do_msgQ [of st op] step_client by (auto simp: armed_inv_def expire_under_way_def)
  next
    case (step_msg m q)
    show ?thesis
    proof (cases m)
      case (MsgTimerPush d)
      have "timers_inv {} ((st\<lparr>msgQ := q\<rparr>)\<lparr>mTree := LocHeap_push timer_ranks d (mTree st)\<rparr>)"
        using inv' step_msg MsgTimerPush by (simp add: msg_proc_def push_proc_def)
      then show ?thesis
        using a step_msg MsgTimerPush push_proc_armed [of "{}" d "st\<lparr>msgQ := q\<rparr>"]
        by (auto simp: armed_inv_def expire_under_way_def msg_proc_def armed_def)
    next
      case (MsgTimerRemove d)
      then show ?thesis
        using a step_msg inv' remove_proc_armed [of "{}" d "st\<lparr>msgQ := q\<rparr>"]
        by (auto simp: armed_inv_def expire_under_way_def msg_proc_def armed_def)
    next
      case MsgTimerExpire
      then show ?thesis
        using inv' step_msg expire_proc_armed by (simp add: armed_inv_def msg_proc_def)
    qed
  qed (simp_all add: armed_inv_def expire_under_way_def)
qed

lemma timer_reach_armed: "timer_reach cb st \<Longrightarrow> armed_inv st"
proof (induction rule: timer_reach.induct)
  case (reach_init t)
  then show ?case by (simp add: armed_inv_def armed_def init_timers_def)
next
  case (reach_step st st')
  then show ?case using timer_step_armed timer_reach_inv by blast
qed


section \<open>What expires\<close>

text \<open>A client that no callback stops keeps its timer while other timers expire.\<close>

definition stops :: "callbacks \<Rightarrow> nat \<Rightarrow> bool" where
  "stops cb c \<longleftrightarrow> (\<exists>c' st. Stop c \<in> set (cb c' st))"

lemma client_do_keeps:
  assumes inv: "timers_inv X st" and d: "d \<in> live st" "mClient st d = Some c" and op: "op \<noteq> Stop c"
  shows "d \<in> live (client_do op st) \<and> mClient (client_do op st) d = Some c"
proof -
  have "daddr d < next_addr st" using inv d by (simp add: timers_inv_def time_inv_def)
  moreover have "mTimer st c' \<noteq> Some d" if "c' \<noteq> c" for c'
    using inv d that by (auto simp: timers_inv_def clients_inv_def)
  ultimately show ?thesis
    using d op by (cases op)
      (auto simp: LocTimer_start_def LocTimer_stop_def destroyLocked_def Let_def split: option.split)
qed

lemma clients_do_keeps:
  "\<lbrakk>timers_inv X st; d \<in> live st; mClient st d = Some c; Stop c \<notin> set ops\<rbrakk>
    \<Longrightarrow> d \<in> live (fold client_do ops st) \<and> mClient (fold client_do ops st) d = Some c"
proof (induction ops arbitrary: st)
  case Nil
  then show ?case by simp
next
  case (Cons op ops)
  have "op \<noteq> Stop c" using Cons.prems(4) by auto
  from client_do_keeps [OF Cons.prems(1-3) this] show ?case
    using Cons.IH client_do_inv [OF Cons.prems(1)] Cons.prems(4) by simp
qed

text \<open>Expiring one timer: what is called back, and that the other timers stay.\<close>

lemma delegate_expire_spec:
  assumes inv: "timers_inv X st" and p: "p \<in> live st"
  shows "\<exists>new. fired (delegate_expire cb p st) = fired st @ new
           \<and> new = (case mClient st p of None \<Rightarrow> [] | Some c \<Rightarrow> [(c, p, clock st)])"
    and "\<lbrakk>d \<in> live st; d \<noteq> p; mClient st d = Some c; \<not> stops cb c\<rbrakk>
      \<Longrightarrow> d \<in> live (delegate_expire cb p st) \<and> mClient (delegate_expire cb p st) d = Some c"
proof -
  show "\<exists>new. fired (delegate_expire cb p st) = fired st @ new
           \<and> new = (case mClient st p of None \<Rightarrow> [] | Some c \<Rightarrow> [(c, p, clock st)])"
  proof (cases "mClient st p")
    case None
    then show ?thesis by (simp add: delegate_expire_def)
  next
    case (Some c)
    then have t: "mTimer st c = Some p" using inv p by (auto simp: timers_inv_def clients_inv_def)
    obtain b st1 where s: "LocTimer_stop c st = (b, st1)" by force
    then have b using stop_inv(2) [OF inv s t] by simp
    then show ?thesis
      using Some s LocTimer_stop_frame [OF s] by (simp add: delegate_expire_def task_view_def)
  qed
  show "d \<in> live (delegate_expire cb p st) \<and> mClient (delegate_expire cb p st) d = Some c"
    if d: "d \<in> live st" "d \<noteq> p" "mClient st d = Some c" "\<not> stops cb c"
  proof (cases "mClient st p")
    case None
    then show ?thesis using d by (simp add: delegate_expire_def)
  next
    case (Some c')
    then have t: "mTimer st c' = Some p" "mTimer st c = Some d"
      using inv p d by (auto simp: timers_inv_def clients_inv_def)
    then have "c' \<noteq> c" using d(2) by auto
    obtain b st1 where s: "LocTimer_stop c' st = (b, st1)" by force
    have k: "d \<in> live st1 \<and> mClient st1 d = Some c"
      using client_do_keeps [OF inv d(1,3), of "Stop c'"] s \<open>c' \<noteq> c\<close> by simp
    have i: "timers_inv X (st1\<lparr>fired := f\<rparr>)" for f using stop_inv(1) [OF inv s] by simp
    have "Stop c \<notin> set (cb c' st1)" using d(4) by (auto simp: stops_def)
    then show ?thesis
      using clients_do_keeps [OF i, where d = d and c = c] k Some s by (simp add: delegate_expire_def)
  qed
qed

text \<open>The loop pops the timers that are due, and all of them.\<close>

definition due :: "timespec \<Rightarrow> delegate \<Rightarrow> bool" where
  "due t d \<longleftrightarrow> nsecs (mFutureTime d) \<le> nsecs t"

definition called_back :: "callbacks \<Rightarrow> loc_timers \<Rightarrow> loc_timers \<Rightarrow> delegate list \<Rightarrow> bool" where
  "called_back cb st st' ds \<longleftrightarrow>
     (\<exists>new. fired st' = fired st @ new \<and> (\<forall>x \<in> set new. fst (snd x) \<in> set ds \<and> snd (snd x) = clock st)
        \<and> (\<forall>d \<in> set ds. \<forall>c. mClient st d = Some c \<longrightarrow> stops cb c \<or> (c, d, clock st) \<in> set new))"

lemma called_back_Cons:
  assumes inv: "timers_inv X st" and p: "p \<in> live st" and ds: "set ds \<subseteq> live st" "p \<notin> set ds"
    and cbk: "called_back cb (delegate_expire cb p st) st' ds"
  shows "called_back cb st st' (p # ds)"
proof -
  let ?s = "delegate_expire cb p st"
  obtain new1 where n1: "fired ?s = fired st @ new1"
    "new1 = (case mClient st p of None \<Rightarrow> [] | Some c \<Rightarrow> [(c, p, clock st)])"
    using delegate_expire_spec(1) [OF inv p, of cb] by auto
  obtain new2 where n2: "fired st' = fired ?s @ new2"
    "\<forall>x \<in> set new2. fst (snd x) \<in> set ds \<and> snd (snd x) = clock st"
    "\<forall>d \<in> set ds. \<forall>c. mClient ?s d = Some c \<longrightarrow> stops cb c \<or> (c, d, clock st) \<in> set new2"
    using cbk by (auto simp: called_back_def)
  have "fired st' = fired st @ (new1 @ new2)" using n1 n2 by simp
  moreover have "fst (snd x) \<in> set (p # ds) \<and> snd (snd x) = clock st" if "x \<in> set (new1 @ new2)" for x
    using that n1(2) n2(2) by (auto split: option.splits)
  moreover have "stops cb c \<or> (c, d, clock st) \<in> set (new1 @ new2)"
    if "d \<in> set (p # ds)" "mClient st d = Some c" for d c
  proof (cases "d = p")
    case True
    then show ?thesis using that n1(2) by simp
  next
    case False
    then have "d \<in> set ds" "d \<in> live st" using that ds by auto
    then show ?thesis
      using delegate_expire_spec(2) [OF inv p, of d c cb] False that n2(3) by auto
  qed
  ultimately show ?thesis unfolding called_back_def by blast
qed


lemma pop_distinct:
  assumes inv: "timers_inv X st" and pop: "LocHeap_pop timer_ranks (mTree st) = (Some p, t)"
  shows "p \<notin># contents t" "set_mset (contents t) \<subseteq> live st"
proof -
  have "count (contents (mTree st)) p \<le> 1" "set_mset (contents (mTree st)) \<subseteq> live st"
    using inv by (auto simp: timers_inv_def heap_inv_def)
  then show "p \<notin># contents t" "set_mset (contents t) \<subseteq> live st"
    using LocHeap_pop_size(2) [OF pop] by (auto simp: not_in_iff)
qed

lemma popIfOutRanks_none:
  assumes inv: "timers_inv X st" and p: "popIfOutRanks \<lparr>daddr = 0, mFutureTime = clock st\<rparr> st = (None, st1)"
  shows "st1 = st \<and> (\<forall>d \<in># contents (mTree st). \<not> due (clock st) d)"
proof (cases "heap_data (mTree st)")
  case None
  then show ?thesis using p by (auto simp: popIfOutRanks_def LocHeap_peek_def)
next
  case (Some x)
  have ok: "heap_ok timer_ok timer_ranks (mTree st)" and x: "x \<in> timer_ok"
    and n: "\<lparr>daddr = 0, mFutureTime = clock st\<rparr> \<in> timer_ok"
    using inv heap_data_in [OF Some] by (auto simp: timers_inv_def heap_inv_def time_inv_def timer_ok_def)
  have "mTree st \<noteq> Nil" using Some by auto
  then have "fst (LocHeap_pop timer_ranks (mTree st)) \<noteq> None"
    using node_pop_contents [of "mTree st" timer_ranks] by (auto simp: LocHeap_pop_def)
  then have o: "outRanks timer_ranks \<lparr>daddr = 0, mFutureTime = clock st\<rparr> x" and s: "st1 = st"
    using p Some by (auto simp: popIfOutRanks_def LocHeap_peek_def split: if_splits prod.splits)
  have "\<not> due (clock st) d" if "d \<in># contents (mTree st)" for d
  proof -
    have "\<not> outRanks timer_ranks d x" "d \<in> timer_ok"
      using timers.heap_ok_top [OF ok Some that] timers.heap_ok_V [OF ok] that by auto
    then show ?thesis
      using o timer_outRanks [OF n x] timer_outRanks [of d x] x by (simp add: due_def)
  qed
  then show ?thesis using s by simp
qed

lemma expire_rest_spec:
  assumes "timers_inv X st" and "n = \<lparr>daddr = 0, mFutureTime = clock st\<rparr>"
  shows "\<exists>ds. contents (mTree st) = mset ds + contents (mTree (expire_rest cb n st))
     \<and> (\<forall>d \<in> set ds. due (clock st) d)
     \<and> (\<forall>d \<in># contents (mTree (expire_rest cb n st)). \<not> due (clock st) d)
     \<and> called_back cb st (expire_rest cb n st) ds"
  using assms
proof (induction cb n st rule: expire_rest.induct)
  case (1 cb n st)
  obtain p st1 where p: "popIfOutRanks n st = (p, st1)" by force
  show ?case
  proof (cases p)
    case None
    have "st1 = st" "\<forall>d \<in># contents (mTree st). \<not> due (clock st) d"
      using popIfOutRanks_none [OF "1.prems"(1)] p None "1.prems"(2) by auto
    then have "expire_rest cb n st = st" using p None by (subst expire_rest.simps) simp
    then show ?thesis
      using \<open>\<forall>d \<in># contents (mTree st). \<not> due (clock st) d\<close>
      by (intro exI [of _ "[]"]) (simp add: called_back_def)
  next
    case (Some d)
    obtain t where t: "st1 = st\<lparr>mTree := t\<rparr>" "LocHeap_pop timer_ranks (mTree st) = (Some d, t)"
      "\<not> outRanks timer_ranks n d" "contents (mTree st) = add_mset d (contents t)"
      "heap_data (mTree st) = Some d"
      using popIfOutRanks_some p Some by blast
    let ?s = "delegate_expire cb d st1"
    have i1: "timers_inv (insert d X) st1" "d \<in> live st1"
      using pop_inv [OF "1.prems"(1) t(2)] t(1) by simp_all
    have i2: "timers_inv X ?s" using delegate_expire_inv i1 by simp
    have e: "expire_rest cb n st = expire_rest cb n ?s" using p Some by (subst expire_rest.simps) simp
    obtain ds where ds: "contents t = mset ds + contents (mTree (expire_rest cb n ?s))"
      "\<forall>e \<in> set ds. due (clock st) e"
      "\<forall>e \<in># contents (mTree (expire_rest cb n ?s)). \<not> due (clock st) e"
      "called_back cb ?s (expire_rest cb n ?s) ds"
      using "1.IH" [OF p [symmetric] Some i2] t(1) "1.prems"(2) by auto
    have sub: "set ds \<subseteq> live st1" "d \<notin> set ds"
      using pop_distinct [OF "1.prems"(1) t(2)] ds(1) t(1) by auto
    have "d \<in> timer_ok" "n \<in> timer_ok"
      using i1 t(1) "1.prems" by (auto simp: timers_inv_def time_inv_def timer_ok_def)
    then have "due (clock st) d" using t(3) timer_outRanks [of n d] "1.prems"(2) by (simp add: due_def)
    moreover have "called_back cb st1 (expire_rest cb n ?s) (d # ds)"
      using called_back_Cons [OF i1 sub ds(4)] .
    ultimately show ?thesis
      using ds(1,2,3) t(1,4) unfolding e by (intro exI [of _ "d # ds"]) (simp add: called_back_def)
  qed
qed

section \<open>Properties\<close>

text \<open>
  C29. A delegate the queue of messages, the heap or a client refers to is allocated, and
  every allocated delegate either belongs to a running client or has exactly one removal
  under way: no timer is used after its deletion, deleted twice, or leaked.
\<close>

theorem timer_delegates_safe:
  assumes "timer_reach cb st"
  shows "set (pushed (msgQ st)) \<union> set (removed (msgQ st)) \<union> set_mset (contents (mTree st)) \<subseteq> live st
    \<and> live st = ran (mTimer st) \<union> set (removed (msgQ st))
    \<and> ran (mTimer st) \<inter> set (removed (msgQ st)) = {} \<and> distinct (removed (msgQ st))"
proof -
  have inv: "timers_inv {} st" using assms by (rule timer_reach_inv)
  then have r: "ran (mTimer st) = {d \<in> live st. d \<notin> set (removed (msgQ st))}"
    unfolding timers_inv_def clients_inv_def ran_def by (auto 4 4)
  show ?thesis using inv unfolding r timers_inv_def clients_inv_def heap_inv_def by auto
qed

text \<open>
  C30. A running timer is not missed: it is on its way to the heap, or an expiry is being
  handled, or the polled descriptor is armed for a time no later than the timer's.
\<close>

theorem running_timer_watched:
  assumes reach: "timer_reach cb st" and run: "mTimer st c = Some d"
  shows "d \<in> set (pushed (msgQ st)) \<or> expire_under_way st
    \<or> polled st \<and> (\<exists>t. mDevFd st = Some t \<and> nsecs t \<le> nsecs (mFutureTime d))"
proof -
  have inv: "timers_inv {} st" using reach by (rule timer_reach_inv)
  have d: "d \<in># contents (mTree st) \<or> d \<in> set (pushed (msgQ st))"
    using inv run unfolding timers_inv_def clients_inv_def heap_inv_def by auto
  show ?thesis
  proof (cases "d \<in> set (pushed (msgQ st)) \<or> expire_under_way st")
    case False
    then have dt: "d \<in># contents (mTree st)" and a: "armed st"
      using d timer_reach_armed [OF reach] by (auto simp: armed_inv_def)
    then obtain x where x: "heap_data (mTree st) = Some x" by (cases "heap_data (mTree st)") auto
    have ok: "heap_ok timer_ok timer_ranks (mTree st)"
      using inv by (simp add: timers_inv_def heap_inv_def)
    have "nsecs (mFutureTime x) \<le> nsecs (mFutureTime d)"
      using timers.heap_ok_top [OF ok x dt] timers.heap_ok_V [OF ok] dt timer_outRanks [of d x] by force
    then show ?thesis using a x by (auto simp: armed_def)
  qed blast
qed

text \<open>
  The handling of an expiry takes out of the heap its first timer and then exactly the
  timers that are due, leaves only timers in the future, and calls back every client whose
  timer was taken out, unless it had stopped the timer or a callback stops it.
\<close>

theorem expire_takes_due_timers:
  assumes reach: "timer_reach cb st" and q: "msgQ st = MsgTimerExpire # q"
    and st': "st' = msg_proc cb MsgTimerExpire (st\<lparr>msgQ := q\<rparr>)"
  shows "\<exists>ds. contents (mTree st) = mset ds + contents (mTree st')
     \<and> heap_data (mTree st) = (case ds of [] \<Rightarrow> None | d # _ \<Rightarrow> Some d)
     \<and> (\<forall>d \<in> set (tl ds). due (clock st) d) \<and> (\<forall>d \<in># contents (mTree st'). \<not> due (clock st) d)
     \<and> called_back cb st st' ds"
proof -
  let ?s = "st\<lparr>msgQ := q\<rparr>"
  have inv: "timers_inv {} ?s" using timers_inv_Expire(2) [OF timer_reach_inv [OF reach] q] .
  have frame: "mTree (updateSoonestTime None s) = mTree s" "fired (updateSoonestTime None s) = fired s" for s
    by (simp_all add: updateSoonestTime_def timerfd_settime_def addPoll_def removePoll_def split: option.split)
  obtain p t where p: "LocHeap_pop timer_ranks (mTree st) = (p, t)" by force
  show ?thesis
  proof (cases p)
    case None
    then have "mTree st = Nil"
      using p node_pop_contents [of "mTree st" timer_ranks] by (auto simp: LocHeap_pop_def split: if_splits)
    then show ?thesis
      using st' p None by (intro exI [of _ "[]"]) (simp add: msg_proc_def expire_proc_def Let_def frame called_back_def)
  next
    case (Some d)
    let ?s1 = "?s\<lparr>mTree := t\<rparr>" and ?n = "\<lparr>daddr = 0, mFutureTime = clock st\<rparr>"
    have i1: "timers_inv {d} ?s1" "d \<in> live ?s1" using pop_inv [OF inv, of d t] p Some by simp_all
    have i2: "timers_inv {} (delegate_expire cb d ?s1)" using delegate_expire_inv i1 by simp
    obtain ds where ds: "contents t = mset ds + contents (mTree (expire_rest cb ?n (delegate_expire cb d ?s1)))"
      "\<forall>e \<in> set ds. due (clock st) e"
      "\<forall>e \<in># contents (mTree (expire_rest cb ?n (delegate_expire cb d ?s1))). \<not> due (clock st) e"
      "called_back cb (delegate_expire cb d ?s1) (expire_rest cb ?n (delegate_expire cb d ?s1)) ds"
      using expire_rest_spec [OF i2, of ?n cb] by auto
    have sub: "set ds \<subseteq> live ?s1" "d \<notin> set ds"
      using pop_distinct [OF inv, of d t] p Some ds(1) by auto
    have e: "st' = updateSoonestTime None (expire_rest cb ?n (delegate_expire cb d ?s1))"
      using st' p Some by (simp add: msg_proc_def expire_proc_def Let_def)
    have "called_back cb ?s1 (expire_rest cb ?n (delegate_expire cb d ?s1)) (d # ds)"
      using called_back_Cons [OF i1 sub ds(4)] .
    moreover have "heap_data (mTree st) = Some d" "contents (mTree st) = add_mset d (contents t)"
      using LocHeap_pop_size p Some by auto
    ultimately show ?thesis
      using ds(1-3) unfolding e by (intro exI [of _ "d # ds"]) (simp add: called_back_def frame)
  qed
qed


text \<open>
  A timer can be called back long before its time. A timer of 10 ms expires; before the
  message task handles the expiry, the client stops it; the expiry then takes the next timer
  of the heap, due 1000 s later, and calls its client back at once.
\<close>

lemma timer_called_back_early:
  "\<exists>st d. timer_reach (\<lambda>_ _. []) st \<and> (2, d, clock st) \<in> set (fired st)
     \<and> nsecs (clock st) + 999000000000 < nsecs (mFutureTime d)"
proof -
  let ?t = "\<lambda>ns. \<lparr>tv_sec = 1, tv_nsec = ns\<rparr>"
  let ?es = "[Client (Start 1 10), Client (Start 2 1000000), Message, Message, Tick (?t 10000000),
    Wake, Client (Stop 1), Disarm, Unpoll, Send, Message, Message]"
  obtain st where st: "run_steps (timer_exec (\<lambda>_ _. [])) ?es (init_timers (?t 0)) = Some st"
     and f: "fired st = [(2, \<lparr>daddr = 1, mFutureTime = \<lparr>tv_sec = 1001, tv_nsec = 0\<rparr>\<rparr>, ?t 10000000)]"
       "clock st = ?t 10000000"
    by (simp add: timer_exec_def init_timers_def LocTimer_start_def LocTimer_stop_def Let_def future_time_eq
        sendMsg_def msg_proc_def push_proc_def getSoonestTimer_def LocHeap_peek_def LocHeap_push_def
        new_node_def updateSoonestTime_def timerfd_settime_def addPoll_def removePoll_def
        outRanks_def timer_ranks_def to_int32_def nsecs_def time_ok_def destroyLocked_def remove_proc_def
        LocHeap_remove_def expire_proc_def LocHeap_pop_def delegate_expire_def popIfOutRanks_def
        expire_rest.simps)
  have "timer_reach (\<lambda>_ _. []) (init_timers (?t 0))"
    by (rule reach_init) (simp_all add: time_ok_def nsecs_def)
  then have "timer_reach (\<lambda>_ _. []) st" using st by (rule run_steps_reach)
  then show ?thesis using f by (auto simp: nsecs_def)
qed


text \<open>
  C31. A timer is due exactly its delay after the clock when it is started, but for
  \<open>loc_timer_start\<close> the delay counts modulo \<open>2\<^sup>3\<^sup>2\<close> milliseconds.
\<close>

theorem loc_timer_start_deadline:
  assumes "time_ok (clock st)" "tv_sec (clock st) < 2 ^ 30" "mTimer st c = None"
  shows "\<exists>d. mTimer (snd (loc_timer_start c msec st)) c = Some d \<and> time_ok (mFutureTime d)
    \<and> nsecs (mFutureTime d) = nsecs (clock st) + (uint msec mod 2 ^ 32) * 1000000"
proof -
  have "uint (ucast msec :: u32) = uint msec mod 2 ^ 32"
    by (simp add: unsigned_ucast_eq take_bit_eq_mod)
  then show ?thesis
    using assms(3) future_time_ok [OF assms(1,2), of "ucast msec"]
    by (simp add: loc_timer_start_def LocTimer_start_def Let_def sendMsg_def future_time_nsecs)
qed

section \<open>Witnesses\<close>

text \<open>Client 1 has a timer of 10 ms; it is on its way to the heap, in the heap, and expired.\<close>

definition state_after :: "timer_event list \<Rightarrow> loc_timers" where
  "state_after es = the (run_steps (timer_exec (\<lambda>_ _. [])) es (init_timers \<lparr>tv_sec = 1, tv_nsec = 0\<rparr>))"

lemma state_after_reach:
  assumes "run_steps (timer_exec (\<lambda>_ _. [])) es (init_timers \<lparr>tv_sec = 1, tv_nsec = 0\<rparr>) \<noteq> None"
  shows "timer_reach (\<lambda>_ _. []) (state_after es)"
proof -
  have "timer_reach (\<lambda>_ _. []) (init_timers \<lparr>tv_sec = 1, tv_nsec = 0\<rparr>)"
    by (rule reach_init) (simp_all add: time_ok_def nsecs_def)
  then show ?thesis using assms by (auto simp: state_after_def intro: run_steps_reach)
qed

lemmas timer_eval = timer_exec_def init_timers_def LocTimer_start_def LocTimer_stop_def Let_def
  future_time_eq sendMsg_def msg_proc_def push_proc_def getSoonestTimer_def LocHeap_peek_def
  LocHeap_push_def new_node_def updateSoonestTime_def timerfd_settime_def addPoll_def removePoll_def
  outRanks_def timer_ranks_def to_int32_def nsecs_def time_ok_def

abbreviation timer_10ms :: delegate where
  "timer_10ms \<equiv> \<lparr>daddr = 0, mFutureTime = \<lparr>tv_sec = 1, tv_nsec = 10000000\<rparr>\<rparr>"

abbreviation to_expiry :: "timer_event list" where
  "to_expiry \<equiv> [Client (Start 1 10), Message, Tick \<lparr>tv_sec = 1, tv_nsec = 10000000\<rparr>, Wake, Disarm, Unpoll, Send]"

theorem timer_delegates_safe_witness:
  "live (state_after [Client (Start 1 10)]) = {timer_10ms}
    \<and> set (pushed (msgQ (state_after [Client (Start 1 10)]))) \<subseteq> {timer_10ms}"
proof -
  let ?es = "[Client (Start 1 10)]"
  have r: "timer_reach (\<lambda>_ _. []) (state_after ?es)"
    by (rule state_after_reach) (simp add: timer_eval)
  have l: "live (state_after ?es) = {timer_10ms}" by (simp add: state_after_def timer_eval)
  show ?thesis using timer_delegates_safe [OF r] l by auto
qed

theorem running_timer_watched_witness:
  "polled (state_after [Client (Start 1 10), Message])
    \<and> mDevFd (state_after [Client (Start 1 10), Message]) = Some \<lparr>tv_sec = 1, tv_nsec = 10000000\<rparr>"
proof -
  let ?es = "[Client (Start 1 10), Message]"
  have r: "timer_reach (\<lambda>_ _. []) (state_after ?es)"
    by (rule state_after_reach) (simp add: timer_eval)
  have m: "mTimer (state_after ?es) 1 = Some timer_10ms" "pushed (msgQ (state_after ?es)) = []"
    "\<not> expire_under_way (state_after ?es)"
    "mDevFd (state_after ?es) = Some \<lparr>tv_sec = 1, tv_nsec = 10000000\<rparr>"
    by (simp_all add: state_after_def timer_eval expire_under_way_def)
  show ?thesis using running_timer_watched [OF r m(1)] m(2-4) by simp
qed

theorem expire_takes_due_timers_witness:
  "\<exists>st'. st' = msg_proc (\<lambda>_ _. []) MsgTimerExpire ((state_after to_expiry)\<lparr>msgQ := []\<rparr>)
     \<and> contents (mTree (state_after to_expiry)) = {#timer_10ms#} \<and> contents (mTree st') = {#}"
proof -
  let ?s = "state_after to_expiry"
  have r: "timer_reach (\<lambda>_ _. []) ?s" by (rule state_after_reach) (simp add: timer_eval)
  have m: "msgQ ?s = MsgTimerExpire # []" "contents (mTree ?s) = {#timer_10ms#}"
    "clock ?s = \<lparr>tv_sec = 1, tv_nsec = 10000000\<rparr>"
    by (simp_all add: state_after_def timer_eval)
  let ?st = "msg_proc (\<lambda>_ _. []) MsgTimerExpire (?s\<lparr>msgQ := []\<rparr>)"
  obtain ds where ds: "contents (mTree ?s) = mset ds + contents (mTree ?st)"
    "\<forall>d \<in># contents (mTree ?st). \<not> due (clock ?s) d"
    using expire_takes_due_timers [OF r m(1) refl] by blast
  have "mset ds + contents (mTree ?st) = {#timer_10ms#}" using ds(1) m(2) by simp
  moreover have "timer_10ms \<notin># contents (mTree ?st)" using ds(2) m(3) by (auto simp: due_def nsecs_def)
  ultimately have "contents (mTree ?st) = {#}" unfolding union_is_single by auto
  then show ?thesis using m(2) by simp
qed

theorem loc_timer_start_deadline_witness:
  "\<exists>d. mTimer (snd (loc_timer_start 1 4294967306 (init_timers \<lparr>tv_sec = 1, tv_nsec = 0\<rparr>))) 1 = Some d
    \<and> nsecs (mFutureTime d) = 1010000000"
  using loc_timer_start_deadline [of "init_timers \<lparr>tv_sec = 1, tv_nsec = 0\<rparr>" 1 4294967306]
  by (auto simp: init_timers_def time_ok_def nsecs_def)

end
