(* ===== verification/Loc_List.thy ===== *)
theory Loc_List
  imports Ipacm_Queue
begin

text \<open>
  The linked list of the GPS utilities (\<^verbatim>\<open>gps/utils/linked_list.c\<close>), doubly linked elements in
  an explicit store, and the message queue on top of it (\<^verbatim>\<open>gps/utils/msg_q.c\<close>,
  \<^verbatim>\<open>MsgTask.cpp\<close>). \<open>None\<close> is an access to an element that is not allocated, or a walk that
  does not end. A \<open>NULL\<close> handle is \<open>None\<close>; the result of \<open>malloc\<close> is an argument.
\<close>

section \<open>The list\<close>

datatype linked_list_err_type =
    eLINKED_LIST_SUCCESS | eLINKED_LIST_FAILURE_GENERAL | eLINKED_LIST_INVALID_PARAMETER
  | eLINKED_LIST_INVALID_HANDLE | eLINKED_LIST_UNAVAILABLE_RESOURCE | eLINKED_LIST_INSUFFICIENT_BUFFER

record 'd list_element =
  le_next :: "nat option"
  le_prev :: "nat option"
  data_ptr :: 'd
  dealloc_func :: bool

text \<open>The store of the elements belongs to the list; \<open>deallocated\<close> logs the calls of \<open>dealloc_func\<close>.\<close>

record 'd list_state =
  p_head :: "nat option"
  p_tail :: "nat option"
  le_mem :: "nat \<Rightarrow> 'd list_element option"
  deallocated :: "'d list"

definition empty_list :: "'d list_state" where
  "empty_list = \<lparr>p_head = None, p_tail = None, le_mem = Map.empty, deallocated = []\<rparr>"

definition linked_list_init :: "bool \<Rightarrow> bool \<Rightarrow> linked_list_err_type \<times> 'd list_state option" where
  "linked_list_init list_data calloc_ok =
     (if \<not> list_data then (eLINKED_LIST_INVALID_PARAMETER, None)
      else if \<not> calloc_ok then (eLINKED_LIST_FAILURE_GENERAL, None)
      else (eLINKED_LIST_SUCCESS, Some empty_list))"

definition upd_elem :: "nat \<Rightarrow> ('d list_element \<Rightarrow> 'd list_element) \<Rightarrow> 'd list_state \<Rightarrow> 'd list_state option" where
  "upd_elem a f l = map_option (\<lambda>n. l\<lparr>le_mem := (le_mem l)(a \<mapsto> f n)\<rparr>) (le_mem l a)"

definition linked_list_add :: "'d option \<Rightarrow> bool \<Rightarrow> nat option \<Rightarrow> 'd list_state option
    \<Rightarrow> (linked_list_err_type \<times> 'd list_state option) option" where
  "linked_list_add data_obj dealloc elem list_data =
     (case list_data of
        None \<Rightarrow> Some (eLINKED_LIST_INVALID_HANDLE, None)
      | Some l \<Rightarrow>
        (case data_obj of
           None \<Rightarrow> Some (eLINKED_LIST_INVALID_PARAMETER, Some l)
         | Some d \<Rightarrow>
           (case elem of
              None \<Rightarrow> Some (eLINKED_LIST_FAILURE_GENERAL, Some l)
            | Some a \<Rightarrow>
                let tmp = p_head l;
                    l1 = l\<lparr>p_head := Some a,
                           le_mem := (le_mem l)(a \<mapsto> \<lparr>le_next = tmp, le_prev = None, data_ptr = d,
                                                     dealloc_func = dealloc\<rparr>)\<rparr>
                in map_option (\<lambda>l2. (eLINKED_LIST_SUCCESS, Some l2))
                     (case tmp of
                        Some h \<Rightarrow> upd_elem h (\<lambda>n. n\<lparr>le_prev := Some a\<rparr>) l1
                      | None \<Rightarrow> Some (l1\<lparr>p_tail := p_head l1\<rparr>)))))"

text \<open>The element at the tail; its data goes to the caller.\<close>

definition linked_list_remove :: "bool \<Rightarrow> 'd list_state option
    \<Rightarrow> (linked_list_err_type \<times> 'd option \<times> 'd list_state option) option" where
  "linked_list_remove data_obj list_data =
     (case list_data of
        None \<Rightarrow> Some (eLINKED_LIST_INVALID_HANDLE, None, None)
      | Some l \<Rightarrow>
          if \<not> data_obj then Some (eLINKED_LIST_INVALID_PARAMETER, None, Some l)
          else
            (case p_tail l of
               None \<Rightarrow> Some (eLINKED_LIST_UNAVAILABLE_RESOURCE, None, Some l)
             | Some tmp \<Rightarrow>
                 Option.bind (le_mem l tmp) (\<lambda>n.
                   map_option
                     (\<lambda>l1. (eLINKED_LIST_SUCCESS, Some (data_ptr n), Some (l1\<lparr>le_mem := (le_mem l1)(tmp := None)\<rparr>)))
                     (case le_prev n of
                        Some q \<Rightarrow> upd_elem q (\<lambda>m. m\<lparr>le_next := None\<rparr>) (l\<lparr>p_tail := Some q\<rparr>)
                      | None \<Rightarrow> Some (l\<lparr>p_tail := None, p_head := None\<rparr>)))))"

definition linked_list_empty :: "'d list_state option \<Rightarrow> int" where
  "linked_list_empty list_data =
     (case list_data of None \<Rightarrow> - 3 | Some l \<Rightarrow> if p_head l = None then 1 else 0)"

partial_function (option) flush_loop :: "'d list_state \<Rightarrow> 'd list_state option" where
  "flush_loop l =
     (case p_head l of
        None \<Rightarrow> Some (l\<lparr>p_tail := None\<rparr>)
      | Some h \<Rightarrow>
          (case le_mem l h of
             None \<Rightarrow> None
           | Some n \<Rightarrow>
               flush_loop (l\<lparr>deallocated := (if dealloc_func n then deallocated l @ [data_ptr n] else deallocated l),
                             le_mem := (le_mem l)(h := None), p_head := le_next n\<rparr>)))"

definition linked_list_flush :: "'d list_state option \<Rightarrow> (linked_list_err_type \<times> 'd list_state option) option" where
  "linked_list_flush list_data =
     (case list_data of
        None \<Rightarrow> Some (eLINKED_LIST_INVALID_HANDLE, None)
      | Some l \<Rightarrow> map_option (\<lambda>l1. (eLINKED_LIST_SUCCESS, Some l1)) (flush_loop l))"

text \<open>The list is flushed and its head freed; the caller's pointer becomes \<open>NULL\<close>.\<close>

definition linked_list_destroy :: "'d list_state option option
    \<Rightarrow> (linked_list_err_type \<times> 'd list \<times> 'd list_state option option) option" where
  "linked_list_destroy list_data =
     (case list_data of
        None \<Rightarrow> Some (eLINKED_LIST_INVALID_HANDLE, [], None)
      | Some p_list \<Rightarrow>
          map_option (\<lambda>(_, l). (eLINKED_LIST_SUCCESS, case l of Some l1 \<Rightarrow> deallocated l1 | None \<Rightarrow> [], Some None))
            (linked_list_flush p_list))"

text \<open>
  The search calls \<open>equal\<close> on the elements from the head on, up to the first for which it
  returns true. \<open>equal\<close> may have effects, on the state \<open>'s\<close>, but not on the list.
\<close>

partial_function (option) search_walk :: "('d \<Rightarrow> 's \<Rightarrow> bool \<times> 's) \<Rightarrow> (nat \<Rightarrow> 'd list_element option)
    \<Rightarrow> nat option \<Rightarrow> 's \<Rightarrow> (nat option \<times> 's) option" where
  "search_walk equal m tmp s =
     (case tmp of
        None \<Rightarrow> Some (None, s)
      | Some a \<Rightarrow>
          (case m a of
             None \<Rightarrow> None
           | Some n \<Rightarrow>
               (case equal (data_ptr n) s of
                  (found, s1) \<Rightarrow> if found then Some (Some a, s1) else search_walk equal m (le_next n) s1)))"

definition unlink_elem :: "bool \<Rightarrow> nat \<Rightarrow> 'd list_state \<Rightarrow> 'd list_state option" where
  "unlink_elem copied a l =
     Option.bind (le_mem l a) (\<lambda>n.
     Option.bind
       (case le_prev n of
          None \<Rightarrow> Some (l\<lparr>p_head := le_next n\<rparr>)
        | Some p \<Rightarrow> upd_elem p (\<lambda>x. x\<lparr>le_next := le_next n\<rparr>) l)
       (\<lambda>l1. map_option
         (\<lambda>l2. l2\<lparr>deallocated := (if \<not> copied \<and> dealloc_func n then deallocated l2 @ [data_ptr n] else deallocated l2),
                  le_mem := (le_mem l2)(a := None)\<rparr>)
         (case le_next n of
            None \<Rightarrow> Some (l1\<lparr>p_tail := le_prev n\<rparr>)
          | Some q \<Rightarrow> upd_elem q (\<lambda>x. x\<lparr>le_prev := le_prev n\<rparr>) l1)))"

text \<open>
  The output is the content of \<open>*data_p\<close>, which the callers set to \<open>NULL\<close> before;
  \<open>data_p\<close> says whether the pointer was given.
\<close>

definition linked_list_search :: "bool \<Rightarrow> ('d \<Rightarrow> 's \<Rightarrow> bool \<times> 's) \<Rightarrow> bool \<Rightarrow> 'd list_state option \<Rightarrow> 's
    \<Rightarrow> (linked_list_err_type \<times> 'd option \<times> 'd list_state option \<times> 's) option" where
  "linked_list_search data_p equal rm_if_found list_data s =
     (case list_data of
        None \<Rightarrow> Some (eLINKED_LIST_INVALID_HANDLE, None, None, s)
      | Some l \<Rightarrow>
          if p_tail l = None then Some (eLINKED_LIST_UNAVAILABLE_RESOURCE, None, Some l, s)
          else
            Option.bind (search_walk equal (le_mem l) (p_head l) s) (\<lambda>(r, s1).
              case r of
                None \<Rightarrow> Some (eLINKED_LIST_SUCCESS, None, Some l, s1)
              | Some a \<Rightarrow>
                  Option.bind (le_mem l a) (\<lambda>n.
                    map_option
                      (\<lambda>l1. (eLINKED_LIST_SUCCESS, if data_p then Some (data_ptr n) else None, Some l1, s1))
                      (if rm_if_found then unlink_elem data_p a l else Some l))))"

section \<open>Well-formed lists\<close>

text \<open>
  The elements from head to tail, each with its address, data and whether it has a
  \<open>dealloc_func\<close>; the newest is the first.
\<close>

type_synonym 'd elem = "nat \<times> 'd \<times> bool"

definition ll_first :: "'d elem list \<Rightarrow> nat option \<Rightarrow> nat option" where
  "ll_first xs q = (case xs of [] \<Rightarrow> q | x # _ \<Rightarrow> Some (fst x))"

definition ll_last :: "nat option \<Rightarrow> 'd elem list \<Rightarrow> nat option" where
  "ll_last p xs = (if xs = [] then p else Some (fst (last xs)))"

lemma ll_first_simps [simp]:
  "ll_first [] q = q" "ll_first (x # xs) q = Some (fst x)" "ll_first (xs @ ys) q = ll_first xs (ll_first ys q)"
  by (simp_all add: ll_first_def split: list.splits)

lemma ll_last_simps [simp]:
  "ll_last p [] = p" "ll_last p (xs @ [x]) = Some (fst x)" "ll_last p (x # xs) = ll_last (Some (fst x)) xs"
  "ll_last p (xs @ ys) = ll_last (ll_last p xs) ys"
  by (simp_all add: ll_last_def)

fun dseg :: "(nat \<Rightarrow> 'd list_element option) \<Rightarrow> nat option \<Rightarrow> 'd elem list \<Rightarrow> nat option \<Rightarrow> bool" where
  "dseg m p [] q = True"
| "dseg m p ((a, d, f) # xs) q =
     (m a = Some \<lparr>le_next = ll_first xs q, le_prev = p, data_ptr = d, dealloc_func = f\<rparr> \<and> dseg m (Some a) xs q)"

lemma dseg_append: "dseg m p (xs @ ys) q \<longleftrightarrow> dseg m p xs (ll_first ys q) \<and> dseg m (ll_last p xs) ys q"
  by (induction m p xs q rule: dseg.induct) auto

lemma dseg_upd [simp]: "a \<notin> fst ` set xs \<Longrightarrow> dseg (m(a := v)) p xs q = dseg m p xs q"
  by (induction m p xs q rule: dseg.induct) auto

lemma dseg_next:
  assumes "dseg m p (xs @ [x]) q" "fst x \<notin> fst ` set xs"
  shows "\<exists>n. m (fst x) = Some n \<and> dseg (m(fst x \<mapsto> n\<lparr>le_next := r\<rparr>)) p (xs @ [x]) r"
  using assms by (cases x) (auto simp: dseg_append)

lemma dseg_prev:
  assumes "dseg m p (x # xs) q" "fst x \<notin> fst ` set xs"
  shows "\<exists>n. m (fst x) = Some n \<and> dseg (m(fst x \<mapsto> n\<lparr>le_prev := r\<rparr>)) r (x # xs) q"
  using assms by (cases x) auto

definition list_holds :: "'d list_state \<Rightarrow> 'd elem list \<Rightarrow> bool" where
  "list_holds l xs \<longleftrightarrow> dseg (le_mem l) None xs None \<and> distinct (map fst xs) \<and> dom (le_mem l) = fst ` set xs
     \<and> p_head l = ll_first xs None \<and> p_tail l = ll_last None xs"

lemma empty_list_holds: "list_holds empty_list []"
  by (simp add: list_holds_def empty_list_def)

lemma holdsD:
  assumes "list_holds l xs"
  shows "dseg (le_mem l) None xs None" "distinct (map fst xs)" "dom (le_mem l) = fst ` set xs"
    "p_head l = ll_first xs None" "p_tail l = ll_last None xs"
  using assms by (simp_all add: list_holds_def)

lemma holds_tail: "list_holds l xs \<Longrightarrow> p_tail l = None \<longleftrightarrow> xs = []"
  by (simp add: list_holds_def ll_last_def)

lemma holds_elem:
  assumes "list_holds l (ys @ (a, d, f) # zs)"
  shows "le_mem l a = Some \<lparr>le_next = ll_first zs None, le_prev = ll_last None ys, data_ptr = d, dealloc_func = f\<rparr>"
  using holdsD(1) [OF assms] by (simp add: dseg_append)

lemma add_holds:
  assumes "list_holds l xs" "le_mem l a = None"
  shows "\<exists>l'. linked_list_add (Some d) f (Some a) (Some l) = Some (eLINKED_LIST_SUCCESS, Some l')
    \<and> list_holds l' ((a, d, f) # xs) \<and> deallocated l' = deallocated l"
proof -
  note h = holdsD [OF assms(1)]
  have a: "a \<notin> fst ` set xs" using assms(2) h(3) by auto
  define m where "m = (le_mem l)(a \<mapsto> \<lparr>le_next = p_head l, le_prev = None, data_ptr = d, dealloc_func = f\<rparr>)"
  show ?thesis
  proof (cases xs)
    case Nil
    then show ?thesis
      using h by (simp add: linked_list_add_def Let_def list_holds_def)
  next
    case (Cons x ys)
    have s: "dseg m None (x # ys) None" using h(1) a Cons by (simp add: m_def)
    have "fst x \<notin> fst ` set ys" using h(2) Cons by (simp add: image_iff)
    from dseg_prev [OF s this, of "Some a"] obtain n where
      n: "m (fst x) = Some n" "dseg (m(fst x \<mapsto> n\<lparr>le_prev := Some a\<rparr>)) (Some a) (x # ys) None" by blast
    have nx: "a \<noteq> fst x" using a Cons by auto
    have p: "p_head l = Some (fst x)" using h(4) Cons by simp
    have r: "linked_list_add (Some d) f (Some a) (Some l) = Some (eLINKED_LIST_SUCCESS,
        Some (l\<lparr>p_head := Some a, le_mem := m(fst x \<mapsto> n\<lparr>le_prev := Some a\<rparr>)\<rparr>))"
      using n(1) by (simp add: linked_list_add_def Let_def p upd_elem_def m_def)
    have "(m(fst x \<mapsto> n\<lparr>le_prev := Some a\<rparr>)) a =
        Some \<lparr>le_next = p_head l, le_prev = None, data_ptr = d, dealloc_func = f\<rparr>"
      using nx by (simp add: m_def)
    moreover have "dom (m(fst x \<mapsto> n\<lparr>le_prev := Some a\<rparr>)) = insert a (fst ` set xs)"
      using h(3) Cons by (auto simp: m_def)
    ultimately have "list_holds (l\<lparr>p_head := Some a, le_mem := m(fst x \<mapsto> n\<lparr>le_prev := Some a\<rparr>)\<rparr>) ((a, d, f) # xs)"
      using n(2) h(2,5) a Cons p by (simp add: list_holds_def image_iff)
    then show ?thesis using r by simp
  qed
qed

lemma remove_holds:
  assumes "list_holds l (xs @ [(a, d, f)])"
  shows "\<exists>l'. linked_list_remove True (Some l) = Some (eLINKED_LIST_SUCCESS, Some d, Some l')
    \<and> list_holds l' xs \<and> deallocated l' = deallocated l"
proof -
  note h = holdsD [OF assms]
  have t: "p_tail l = Some a" using h(5) by simp
  have e: "le_mem l a = Some \<lparr>le_next = None, le_prev = ll_last None xs, data_ptr = d, dealloc_func = f\<rparr>"
    using holds_elem [of l xs a d f "[]"] assms by simp
  have s: "dseg (le_mem l) None xs (Some a)" using h(1) by (simp add: dseg_append)
  have a: "a \<notin> fst ` set xs" using h(2) by (simp add: image_iff)
  show ?thesis
  proof (cases xs rule: rev_cases)
    case Nil
    have "(le_mem l)(a := None) = Map.empty"
    proof
      fix b show "((le_mem l)(a := None)) b = None" using h(3) Nil by (cases "b = a") auto
    qed
    then show ?thesis
      using t e Nil by (simp add: linked_list_remove_def list_holds_def)
  next
    case (snoc ys y)
    have "fst y \<notin> fst ` set ys" using h(2) snoc by (simp add: image_iff)
    from dseg_next [OF s [unfolded snoc] this, of None] obtain n where
      n: "le_mem l (fst y) = Some n" "dseg ((le_mem l)(fst y \<mapsto> n\<lparr>le_next := None\<rparr>)) None xs None"
      unfolding snoc by blast
    have y: "fst y \<in> fst ` set xs" "fst y \<noteq> a" using snoc a by auto
    let ?m = "((le_mem l)(fst y \<mapsto> n\<lparr>le_next := None\<rparr>))(a := None)"
    have r: "linked_list_remove True (Some l) =
        Some (eLINKED_LIST_SUCCESS, Some d, Some (l\<lparr>p_tail := Some (fst y), le_mem := ?m\<rparr>))"
      using t e n(1) snoc by (simp add: linked_list_remove_def upd_elem_def)
    have "dom ?m = fst ` set xs" using h(3) y a by auto
    then have "list_holds (l\<lparr>p_tail := Some (fst y), le_mem := ?m\<rparr>) xs"
      using n(2) a h(2,4) snoc by (simp add: list_holds_def)
    then show ?thesis using r by simp
  qed
qed

lemma remove_empty: "list_holds l [] \<Longrightarrow>
    linked_list_remove True (Some l) = Some (eLINKED_LIST_UNAVAILABLE_RESOURCE, None, Some l)"
  by (simp add: linked_list_remove_def list_holds_def)

lemma empty_holds: "list_holds l xs \<Longrightarrow> linked_list_empty (Some l) = (if xs = [] then 1 else 0)"
  by (cases xs) (simp_all add: linked_list_empty_def list_holds_def)

lemma flush_loop_holds:
  "\<lbrakk>dseg (le_mem l) p xs None; distinct (map fst xs); dom (le_mem l) = fst ` set xs; p_head l = ll_first xs None\<rbrakk>
    \<Longrightarrow> flush_loop l = Some \<lparr>p_head = None, p_tail = None, le_mem = Map.empty,
          deallocated = deallocated l @ map (fst \<circ> snd) (filter (snd \<circ> snd) xs)\<rparr>"
proof (induction xs arbitrary: l p)
  case Nil
  then show ?case by (subst flush_loop.simps) simp
next
  case (Cons x xs)
  obtain a d f where x: "x = (a, d, f)" by (cases x)
  have e: "le_mem l a = Some \<lparr>le_next = ll_first xs None, le_prev = p, data_ptr = d, dealloc_func = f\<rparr>"
    "dseg (le_mem l) (Some a) xs None" using Cons.prems(1) by (simp_all add: x)
  have a: "a \<notin> fst ` set xs" using Cons.prems(2) by (simp add: x image_iff)
  define l1 where "l1 = l\<lparr>deallocated := (if f then deallocated l @ [d] else deallocated l),
      le_mem := (le_mem l)(a := None), p_head := ll_first xs None\<rparr>"
  have "flush_loop l = flush_loop l1"
    using Cons.prems(4) e(1) by (subst flush_loop.simps) (simp add: x l1_def)
  also have "\<dots> = Some \<lparr>p_head = None, p_tail = None, le_mem = Map.empty,
      deallocated = deallocated l1 @ map (fst \<circ> snd) (filter (snd \<circ> snd) xs)\<rparr>"
  proof (rule Cons.IH)
    show "dseg (le_mem l1) (Some a) xs None" using e(2) a by (simp add: l1_def)
    show "distinct (map fst xs)" using Cons.prems(2) by simp
    show "dom (le_mem l1) = fst ` set xs" using Cons.prems(3) a by (auto simp: l1_def x)
    show "p_head l1 = ll_first xs None" by (simp add: l1_def)
  qed
  finally show ?case by (simp add: l1_def x comp_def)
qed

lemma flush_holds:
  assumes "list_holds l xs"
  shows "\<exists>l'. linked_list_flush (Some l) = Some (eLINKED_LIST_SUCCESS, Some l') \<and> list_holds l' []
    \<and> deallocated l' = deallocated l @ map (fst \<circ> snd) (filter (snd \<circ> snd) xs)"
  using flush_loop_holds [OF holdsD(1-4) [OF assms]] by (simp add: linked_list_flush_def list_holds_def)

text \<open>The search on a list of elements.\<close>

fun search_list :: "('d \<Rightarrow> 's \<Rightarrow> bool \<times> 's) \<Rightarrow> 'd elem list \<Rightarrow> 's \<Rightarrow> 'd elem option \<times> 's" where
  "search_list equal [] s = (None, s)"
| "search_list equal (x # xs) s =
     (case equal (fst (snd x)) s of (found, s1) \<Rightarrow> if found then (Some x, s1) else search_list equal xs s1)"

lemma search_list_split:
  "search_list equal xs s = (Some x, s1) \<Longrightarrow> \<exists>ys zs. xs = ys @ x # zs"
proof (induction xs arbitrary: s)
  case (Cons y xs)
  obtain found s2 where e: "equal (fst (snd y)) s = (found, s2)" by (cases "equal (fst (snd y)) s")
  show ?case
  proof (cases found)
    case True
    then show ?thesis using Cons.prems e by (intro exI [of _ "[]"] exI [of _ xs]) simp
  next
    case False
    then obtain ys zs where "xs = ys @ x # zs" using Cons.IH [of s2] Cons.prems e by auto
    then show ?thesis by (intro exI [of _ "y # ys"] exI [of _ zs]) simp
  qed
qed simp

lemma search_walk_dseg:
  "dseg m p xs None \<Longrightarrow>
    search_walk equal m (ll_first xs None) s = Some (apfst (map_option fst) (search_list equal xs s))"
proof (induction xs arbitrary: s p)
  case Nil
  then show ?case by (subst search_walk.simps) simp
next
  case (Cons x xs)
  obtain a d f where x: "x = (a, d, f)" by (cases x)
  obtain found s2 where e: "equal d s = (found, s2)" by (cases "equal d s")
  have "dseg m (Some a) xs None" using Cons.prems by (simp add: x)
  from Cons.IH [OF this, of s2] show ?case
    using Cons.prems e by (subst search_walk.simps) (simp add: x)
qed

lemma unlink_holds:
  assumes "list_holds l (ys @ (a, d, f) # zs)"
  shows "\<exists>l'. unlink_elem copied a l = Some l' \<and> list_holds l' (ys @ zs)
    \<and> deallocated l' = deallocated l @ (if \<not> copied \<and> f then [d] else [])"
proof -
  note h = holdsD [OF assms]
  note e = holds_elem [OF assms]
  have dist: "distinct (map fst ys)" "distinct (map fst zs)" "a \<notin> fst ` set ys" "a \<notin> fst ` set zs"
    "fst ` set ys \<inter> fst ` set zs = {}"
    using h(2) by (auto simp: image_iff)
  have s: "dseg (le_mem l) None ys (Some a)" "dseg (le_mem l) (Some a) zs None"
    using h(1) by (simp_all add: dseg_append)
  \<comment> \<open>the previous element\<close>
  have "\<exists>l1. (case ll_last None ys of None \<Rightarrow> Some (l\<lparr>p_head := ll_first zs None\<rparr>)
        | Some p \<Rightarrow> upd_elem p (\<lambda>x. x\<lparr>le_next := ll_first zs None\<rparr>) l) = Some l1
      \<and> dseg (le_mem l1) None ys (ll_first zs None) \<and> dseg (le_mem l1) (Some a) zs None
      \<and> dom (le_mem l1) = dom (le_mem l) \<and> p_head l1 = ll_first (ys @ zs) None \<and> p_tail l1 = p_tail l
      \<and> deallocated l1 = deallocated l"
  proof (cases ys rule: rev_cases)
    case Nil
    then show ?thesis using s(2) by simp
  next
    case (snoc ys' y)
    have "fst y \<notin> fst ` set ys'" using dist(1) snoc by (simp add: image_iff)
    from dseg_next [OF s(1) [unfolded snoc] this, of "ll_first zs None"] obtain n where
      n: "le_mem l (fst y) = Some n" "dseg ((le_mem l)(fst y \<mapsto> n\<lparr>le_next := ll_first zs None\<rparr>)) None ys (ll_first zs None)"
      unfolding snoc by blast
    have "fst y \<notin> fst ` set zs" using dist(5) snoc by auto
    then show ?thesis using n s(2) h(4) snoc by (auto simp: upd_elem_def)
  qed
  then obtain l1 where l1: "(case ll_last None ys of None \<Rightarrow> Some (l\<lparr>p_head := ll_first zs None\<rparr>)
        | Some p \<Rightarrow> upd_elem p (\<lambda>x. x\<lparr>le_next := ll_first zs None\<rparr>) l) = Some l1"
    "dseg (le_mem l1) None ys (ll_first zs None)" "dseg (le_mem l1) (Some a) zs None"
    "dom (le_mem l1) = dom (le_mem l)" "p_head l1 = ll_first (ys @ zs) None" "p_tail l1 = p_tail l"
    "deallocated l1 = deallocated l" by blast
  \<comment> \<open>the next element\<close>
  have "\<exists>l2. (case ll_first zs None of None \<Rightarrow> Some (l1\<lparr>p_tail := ll_last None ys\<rparr>)
        | Some q \<Rightarrow> upd_elem q (\<lambda>x. x\<lparr>le_prev := ll_last None ys\<rparr>) l1) = Some l2
      \<and> dseg (le_mem l2) None ys (ll_first zs None) \<and> dseg (le_mem l2) (ll_last None ys) zs None
      \<and> dom (le_mem l2) = dom (le_mem l) \<and> p_head l2 = ll_first (ys @ zs) None
      \<and> p_tail l2 = ll_last None (ys @ zs) \<and> deallocated l2 = deallocated l"
  proof (cases zs)
    case Nil
    then show ?thesis using l1 by simp
  next
    case (Cons z zs')
    have "fst z \<notin> fst ` set zs'" using dist(2) Cons by (simp add: image_iff)
    from dseg_prev [OF l1(3) [unfolded Cons] this, of "ll_last None ys"] obtain n where
      n: "le_mem l1 (fst z) = Some n" "dseg ((le_mem l1)(fst z \<mapsto> n\<lparr>le_prev := ll_last None ys\<rparr>)) (ll_last None ys) zs None"
      unfolding Cons by blast
    have "fst z \<notin> fst ` set ys" using dist(5) Cons by auto
    moreover have "fst z \<in> dom (le_mem l1)" using n(1) by blast
    ultimately show ?thesis using n l1 h(5) Cons by (auto simp: upd_elem_def)
  qed
  then obtain l2 where l2: "(case ll_first zs None of None \<Rightarrow> Some (l1\<lparr>p_tail := ll_last None ys\<rparr>)
        | Some q \<Rightarrow> upd_elem q (\<lambda>x. x\<lparr>le_prev := ll_last None ys\<rparr>) l1) = Some l2"
    "dseg (le_mem l2) None ys (ll_first zs None)" "dseg (le_mem l2) (ll_last None ys) zs None"
    "dom (le_mem l2) = dom (le_mem l)" "p_head l2 = ll_first (ys @ zs) None"
    "p_tail l2 = ll_last None (ys @ zs)" "deallocated l2 = deallocated l" by blast
  let ?l' = "l2\<lparr>deallocated := (if \<not> copied \<and> f then deallocated l2 @ [d] else deallocated l2),
      le_mem := (le_mem l2)(a := None)\<rparr>"
  have "unlink_elem copied a l = Some ?l'"
    unfolding unlink_elem_def e bind.bind_lunit list_element.simps l1(1) l2(1) by simp
  moreover have "dom (le_mem ?l') = fst ` set (ys @ zs)" using l2(4) h(3) dist(3,4) by auto
  then have "list_holds ?l' (ys @ zs)"
    unfolding list_holds_def using l2 dist by (simp add: dseg_append)
  ultimately show ?thesis using l2(7) by auto
qed

lemma search_holds:
  assumes "list_holds l xs" and r: "search_list equal xs s = (r, s1)"
  shows "\<exists>err l'. linked_list_search data_p equal rm (Some l) s =
      Some (err, if data_p then map_option (fst \<circ> snd) r else None, Some l', s1)
    \<and> list_holds l' (if rm then filter (\<lambda>x. r = None \<or> fst x \<noteq> fst (the r)) xs else xs)
    \<and> deallocated l' = deallocated l @ (if rm \<and> \<not> data_p \<and> r \<noteq> None \<and> snd (snd (the r)) then [fst (snd (the r))] else [])"
proof (cases "xs = []")
  case True
  then show ?thesis using assms holds_tail [OF assms(1)] by (simp add: linked_list_search_def)
next
  case False
  then obtain t0 where t: "p_tail l = Some t0" using holds_tail [OF assms(1)] by blast
  have w: "search_walk equal (le_mem l) (p_head l) s = Some (map_option fst r, s1)"
    unfolding holdsD(4) [OF assms(1)] using search_walk_dseg [OF holdsD(1) [OF assms(1)], of equal s] r by simp
  show ?thesis
  proof (cases r)
    case None
    have "linked_list_search data_p equal rm (Some l) s = Some (eLINKED_LIST_SUCCESS, None, Some l, s1)"
      by (simp add: linked_list_search_def t w None)
    then show ?thesis using assms(1) by (intro exI [of _ eLINKED_LIST_SUCCESS] exI [of _ l]) (simp add: None)
  next
    case (Some x)
    obtain a d f where x: "x = (a, d, f)" by (cases x)
    obtain ys zs where xs: "xs = ys @ (a, d, f) # zs" using search_list_split [of equal xs s x s1] r Some x by auto
    note h = assms(1) [unfolded xs]
    obtain l' where l': "unlink_elem data_p a l = Some l'" "list_holds l' (ys @ zs)"
      "deallocated l' = deallocated l @ (if \<not> data_p \<and> f then [d] else [])"
      using unlink_holds [OF h, of data_p] by blast
    have "a \<notin> fst ` set ys" "a \<notin> fst ` set zs" using holdsD(2) [OF h] by (auto simp: image_iff)
    then have "filter (\<lambda>y. fst y \<noteq> a) ys = ys" "filter (\<lambda>y. fst y \<noteq> a) zs = zs"
      by (auto simp: filter_id_conv image_iff)
    then have fl: "filter (\<lambda>y. fst y \<noteq> a) xs = ys @ zs" by (simp add: xs)
    have "linked_list_search data_p equal rm (Some l) s =
        Some (eLINKED_LIST_SUCCESS, if data_p then Some d else None, Some (if rm then l' else l), s1)"
      using l'(1) by (simp add: linked_list_search_def t w Some x holds_elem [OF h])
    then show ?thesis
      using l'(2,3) assms(1) fl
      by (intro exI [of _ eLINKED_LIST_SUCCESS] exI [of _ "if rm then l' else l"]) (simp add: Some x)
  qed
qed

section \<open>The list as a sequence\<close>

datatype 'd ll_op = LAdd nat 'd bool | LRemove | LSearch "'d \<Rightarrow> bool" bool bool | LFlush

text \<open>
  A call by a client that has a list; an address that \<open>malloc\<close> cannot return, since it is in
  use, is no call. The output is the data that the call hands out.
\<close>

fun ll_exec :: "'d ll_op \<Rightarrow> 'd list_state \<Rightarrow> ('d option \<times> 'd list_state) option" where
  "ll_exec (LAdd a d f) l =
     (if le_mem l a \<noteq> None then None
      else Option.bind (linked_list_add (Some d) f (Some a) (Some l)) (\<lambda>(_, l'). map_option (Pair None) l'))"
| "ll_exec LRemove l = Option.bind (linked_list_remove True (Some l)) (\<lambda>(_, d, l'). map_option (Pair d) l')"
| "ll_exec (LSearch P data_p rm) l =
     Option.bind (linked_list_search data_p (\<lambda>d s. (P d, s)) rm (Some l) ()) (\<lambda>(_, d, l', _). map_option (Pair d) l')"
| "ll_exec LFlush l = Option.bind (linked_list_flush (Some l)) (\<lambda>(_, l'). map_option (Pair None) l')"

fun ll_run :: "'d ll_op list \<Rightarrow> 'd list_state \<Rightarrow> ('d option list \<times> 'd list_state) option" where
  "ll_run [] l = Some ([], l)"
| "ll_run (x # xs) l =
     Option.bind (ll_exec x l) (\<lambda>(out, l1). map_option (\<lambda>(outs, l2). (out # outs, l2)) (ll_run xs l1))"

text \<open>The specification, on the elements and the data given to their \<open>dealloc_func\<close>.\<close>

fun ll_spec :: "'d ll_op \<Rightarrow> 'd elem list \<times> 'd list \<Rightarrow> ('d option \<times> 'd elem list \<times> 'd list) option" where
  "ll_spec (LAdd a d f) (xs, freed) = (if a \<in> fst ` set xs then None else Some (None, (a, d, f) # xs, freed))"
| "ll_spec LRemove (xs, freed) =
     (if xs = [] then Some (None, [], freed) else Some (Some (fst (snd (last xs))), butlast xs, freed))"
| "ll_spec (LSearch P data_p rm) (xs, freed) =
     (case find (\<lambda>x. P (fst (snd x))) xs of
        None \<Rightarrow> Some (None, xs, freed)
      | Some (a, d, f) \<Rightarrow>
          Some (if data_p then Some d else None, if rm then filter (\<lambda>x. fst x \<noteq> a) xs else xs,
                if rm \<and> \<not> data_p \<and> f then freed @ [d] else freed))"
| "ll_spec LFlush (xs, freed) = Some (None, [], freed @ map (fst \<circ> snd) (filter (snd \<circ> snd) xs))"

fun ll_spec_run :: "'d ll_op list \<Rightarrow> 'd elem list \<times> 'd list \<Rightarrow> ('d option list \<times> 'd elem list \<times> 'd list) option" where
  "ll_spec_run [] st = Some ([], st)"
| "ll_spec_run (x # xs) st =
     Option.bind (ll_spec x st) (\<lambda>(out, st1). map_option (\<lambda>(outs, st2). (out # outs, st2)) (ll_spec_run xs st1))"

lemma search_list_find: "search_list (\<lambda>d s. (P d, s)) xs s = (find (\<lambda>x. P (fst (snd x))) xs, s)"
  by (induction xs) auto

lemma ll_exec_refines:
  assumes h: "list_holds l xs"
  shows "case ll_spec x (xs, deallocated l) of
      None \<Rightarrow> ll_exec x l = None
    | Some (out, xs', freed) \<Rightarrow> \<exists>l'. ll_exec x l = Some (out, l') \<and> list_holds l' xs' \<and> deallocated l' = freed"
proof (cases x)
  case (LAdd a d f)
  have dom: "le_mem l a = None \<longleftrightarrow> a \<notin> fst ` set xs" using holdsD(3) [OF h] by auto
  then show ?thesis using add_holds [OF h, of a d f] by (auto simp: LAdd)
next
  case LRemove
  show ?thesis
  proof (cases xs rule: rev_cases)
    case Nil
    then show ?thesis using h by (simp add: LRemove remove_empty)
  next
    case (snoc ys y)
    obtain a d f where y: "y = (a, d, f)" by (cases y)
    obtain l' where "linked_list_remove True (Some l) = Some (eLINKED_LIST_SUCCESS, Some d, Some l')"
      "list_holds l' ys" "deallocated l' = deallocated l"
      using remove_holds [of l ys a d f] h snoc y by blast
    then show ?thesis by (simp add: LRemove snoc y)
  qed
next
  case (LSearch P data_p rm)
  define r where "r = find (\<lambda>x. P (fst (snd x))) xs"
  have s: "search_list (\<lambda>d s. (P d, s)) xs () = (r, ())" by (simp add: search_list_find r_def)
  obtain err l' where "linked_list_search data_p (\<lambda>d s. (P d, s)) rm (Some l) () =
      Some (err, if data_p then map_option (fst \<circ> snd) r else None, Some l', ())"
    "list_holds l' (if rm then filter (\<lambda>x. r = None \<or> fst x \<noteq> fst (the r)) xs else xs)"
    "deallocated l' = deallocated l @ (if rm \<and> \<not> data_p \<and> r \<noteq> None \<and> snd (snd (the r)) then [fst (snd (the r))] else [])"
    using search_holds [OF h s, of data_p rm] by blast
  then show ?thesis
    by (cases r) (auto simp: LSearch split_def simp flip: r_def split: if_splits)
next
  case LFlush
  then show ?thesis using flush_holds [OF h] by auto
qed

lemma ll_run_refines:
  "list_holds l xs \<Longrightarrow>
    (case ll_spec_run ops (xs, deallocated l) of
       None \<Rightarrow> ll_run ops l = None
     | Some (outs, xs', freed) \<Rightarrow> \<exists>l'. ll_run ops l = Some (outs, l') \<and> list_holds l' xs' \<and> deallocated l' = freed)"
proof (induction ops arbitrary: l xs)
  case Nil
  then show ?case by simp
next
  case (Cons x ops)
  show ?case
  proof (cases "ll_spec x (xs, deallocated l)")
    case None
    then show ?thesis using ll_exec_refines [OF Cons.prems, of x] by simp
  next
    case (Some r)
    obtain out xs1 fr where r: "r = (out, xs1, fr)" by (cases r)
    obtain l1 where l1: "ll_exec x l = Some (out, l1)" "list_holds l1 xs1" "deallocated l1 = fr"
      using ll_exec_refines [OF Cons.prems, of x] Some r by auto
    show ?thesis
    proof (cases "ll_spec_run ops (xs1, fr)")
      case None
      then show ?thesis using Cons.IH [OF l1(2)] l1 Some r by simp
    next
      case (Some r2)
      obtain outs xs2 fr2 where "r2 = (outs, xs2, fr2)" by (cases r2)
      then show ?thesis
        using Cons.IH [OF l1(2)] l1 Some r \<open>ll_spec x (xs, deallocated l) = Some r\<close> by auto
    qed
  qed
qed

section \<open>The message queue\<close>

datatype msq_q_err_type =
    eMSG_Q_SUCCESS | eMSG_Q_FAILURE_GENERAL | eMSG_Q_INVALID_PARAMETER | eMSG_Q_INVALID_HANDLE
  | eMSG_Q_UNAVAILABLE_RESOURCE | eMSG_Q_INSUFFICIENT_BUFFER

fun convert_linked_list_err_type :: "linked_list_err_type \<Rightarrow> msq_q_err_type" where
  "convert_linked_list_err_type eLINKED_LIST_SUCCESS = eMSG_Q_SUCCESS"
| "convert_linked_list_err_type eLINKED_LIST_INVALID_PARAMETER = eMSG_Q_INVALID_PARAMETER"
| "convert_linked_list_err_type eLINKED_LIST_INVALID_HANDLE = eMSG_Q_INVALID_HANDLE"
| "convert_linked_list_err_type eLINKED_LIST_UNAVAILABLE_RESOURCE = eMSG_Q_UNAVAILABLE_RESOURCE"
| "convert_linked_list_err_type eLINKED_LIST_INSUFFICIENT_BUFFER = eMSG_Q_INSUFFICIENT_BUFFER"
| "convert_linked_list_err_type eLINKED_LIST_FAILURE_GENERAL = eMSG_Q_FAILURE_GENERAL"

text \<open>
  Each operation runs between the lock and the unlock of the queue's mutex, so it is one
  step; only a receiver lets others in, while it waits for the condition.
\<close>

record 'd msg_q =
  msg_list :: "'d list_state option"
  unblocked :: bool

definition msg_q_init :: "bool \<Rightarrow> bool \<Rightarrow> bool \<Rightarrow> bool \<Rightarrow> bool \<Rightarrow> msq_q_err_type \<times> 'd msg_q option" where
  "msg_q_init msg_q_data calloc_ok list_ok mutex_ok cond_ok =
     (if \<not> msg_q_data then (eMSG_Q_INVALID_PARAMETER, None)
      else if \<not> calloc_ok then (eMSG_Q_FAILURE_GENERAL, None)
      else
        case linked_list_init True list_ok of (err, l) \<Rightarrow>
          if err \<noteq> eLINKED_LIST_SUCCESS then (eMSG_Q_FAILURE_GENERAL, None)
          else if \<not> mutex_ok then (eMSG_Q_FAILURE_GENERAL, None)
          else if \<not> cond_ok then (eMSG_Q_FAILURE_GENERAL, None)
          else (eMSG_Q_SUCCESS, Some \<lparr>msg_list = l, unblocked = False\<rparr>))"

definition msg_q_init2 :: "bool \<Rightarrow> bool \<Rightarrow> bool \<Rightarrow> bool \<Rightarrow> 'd msg_q option" where
  "msg_q_init2 calloc_ok list_ok mutex_ok cond_ok =
     (case msg_q_init True calloc_ok list_ok mutex_ok cond_ok of
        (err, q) \<Rightarrow> if eMSG_Q_SUCCESS \<noteq> err then None else q)"

definition msg_q_snd :: "'d option \<Rightarrow> bool \<Rightarrow> nat option \<Rightarrow> 'd msg_q option
    \<Rightarrow> (msq_q_err_type \<times> 'd msg_q option) option" where
  "msg_q_snd msg_obj dealloc elem msg_q_data =
     (case msg_q_data of
        None \<Rightarrow> Some (eMSG_Q_INVALID_HANDLE, None)
      | Some q \<Rightarrow>
          if msg_obj = None then Some (eMSG_Q_INVALID_PARAMETER, Some q)
          else if unblocked q then Some (eMSG_Q_UNAVAILABLE_RESOURCE, Some q)
          else map_option (\<lambda>(err, l). (convert_linked_list_err_type err, Some (q\<lparr>msg_list := l\<rparr>)))
                 (linked_list_add msg_obj dealloc elem (msg_list q)))"

datatype 'd rcv_result = Rcv_waits | Rcv_returns msq_q_err_type "'d option"

text \<open>The wait loop, on entry and each time the receiver wakes up with the mutex held.\<close>

definition msg_q_rcv_loop :: "'d msg_q \<Rightarrow> ('d rcv_result \<times> 'd msg_q) option" where
  "msg_q_rcv_loop q =
     (if linked_list_empty (msg_list q) \<noteq> 0 \<and> \<not> unblocked q then Some (Rcv_waits, q)
      else map_option (\<lambda>(err, d, l). (Rcv_returns (convert_linked_list_err_type err) d, q\<lparr>msg_list := l\<rparr>))
             (linked_list_remove True (msg_list q)))"

definition msg_q_rcv :: "bool \<Rightarrow> 'd msg_q option \<Rightarrow> ('d rcv_result \<times> 'd msg_q option) option" where
  "msg_q_rcv msg_obj msg_q_data =
     (case msg_q_data of
        None \<Rightarrow> Some (Rcv_returns eMSG_Q_INVALID_HANDLE None, None)
      | Some q \<Rightarrow>
          if \<not> msg_obj then Some (Rcv_returns eMSG_Q_INVALID_PARAMETER None, Some q)
          else if unblocked q then Some (Rcv_returns eMSG_Q_UNAVAILABLE_RESOURCE None, Some q)
          else map_option (\<lambda>(r, q'). (r, Some q')) (msg_q_rcv_loop q))"

definition msg_q_flush :: "'d msg_q option \<Rightarrow> (msq_q_err_type \<times> 'd msg_q option) option" where
  "msg_q_flush msg_q_data =
     (case msg_q_data of
        None \<Rightarrow> Some (eMSG_Q_INVALID_HANDLE, None)
      | Some q \<Rightarrow> map_option (\<lambda>(err, l). (convert_linked_list_err_type err, Some (q\<lparr>msg_list := l\<rparr>)))
                   (linked_list_flush (msg_list q)))"

text \<open>The second component is what the flush deallocates; the handle is freed in any case.\<close>

definition msg_q_destroy :: "'d msg_q option option \<Rightarrow> (msq_q_err_type \<times> 'd list \<times> 'd msg_q option option) option" where
  "msg_q_destroy msg_q_data =
     (case msg_q_data of
        None \<Rightarrow> Some (eMSG_Q_INVALID_HANDLE, [], None)
      | Some None \<Rightarrow> None
      | Some (Some q) \<Rightarrow>
          map_option (\<lambda>(_, freed, _). (eMSG_Q_SUCCESS, freed, Some None)) (linked_list_destroy (Some (msg_list q))))"

definition msg_q_unblock :: "'d msg_q option \<Rightarrow> msq_q_err_type \<times> 'd msg_q option" where
  "msg_q_unblock msg_q_data =
     (case msg_q_data of
        None \<Rightarrow> (eMSG_Q_INVALID_HANDLE, None)
      | Some q \<Rightarrow> if unblocked q then (eMSG_Q_UNAVAILABLE_RESOURCE, Some q)
                   else (eMSG_Q_SUCCESS, Some (q\<lparr>unblocked := True\<rparr>)))"

text \<open>The result of a turn of the task's thread: whether it goes on; \<open>None\<close> while it waits.\<close>

definition MsgTask_sendMsg :: "'d \<Rightarrow> nat option \<Rightarrow> 'd msg_q option \<Rightarrow> 'd msg_q option option" where
  "MsgTask_sendMsg msg elem mQ = map_option snd (msg_q_snd (Some msg) True elem mQ)"

definition MsgTask_run :: "('d \<Rightarrow> 'w \<Rightarrow> 'w) \<Rightarrow> 'd msg_q option \<Rightarrow> 'w \<Rightarrow> (bool option \<times> 'd msg_q option \<times> 'w) option" where
  "MsgTask_run proc mQ w =
     map_option
       (\<lambda>(r, mQ'). case r of
          Rcv_waits \<Rightarrow> (None, mQ', w)
        | Rcv_returns err msg \<Rightarrow>
            if err \<noteq> eMSG_Q_SUCCESS then (Some False, mQ', w)
            else (Some True, mQ', case msg of Some m \<Rightarrow> proc m w | None \<Rightarrow> w))
       (msg_q_rcv True mQ)"

text \<open>Destroying a task flushes its queue and then destroys it.\<close>

definition MsgTask_dtor :: "'d msg_q option \<Rightarrow> (msq_q_err_type \<times> 'd list \<times> 'd msg_q option option) option" where
  "MsgTask_dtor mQ = Option.bind (msg_q_flush mQ) (\<lambda>(_, mQ'). msg_q_destroy (Some mQ'))"

text \<open>The queue as the interface of FIFO queues: sending and a turn of the receiving task.\<close>

definition msg_q_holds :: "'d msg_q \<Rightarrow> (nat \<times> 'd) list \<Rightarrow> bool" where
  "msg_q_holds q ms \<longleftrightarrow> \<not> unblocked q \<and>
     (\<exists>l. msg_list q = Some l \<and> list_holds l (rev (map (\<lambda>(a, d). (a, d, True)) ms)))"

definition msg_q_vacant :: "nat \<Rightarrow> 'd msg_q \<Rightarrow> bool" where
  "msg_q_vacant a q \<longleftrightarrow> (case msg_list q of Some l \<Rightarrow> le_mem l a = None | None \<Rightarrow> False)"

definition task_put :: "nat \<Rightarrow> 'd \<Rightarrow> 'd msg_q \<Rightarrow> 'd msg_q option" where
  "task_put a d q = Option.bind (MsgTask_sendMsg d (Some a) (Some q)) (\<lambda>q'. q')"

definition task_take :: "'d msg_q \<Rightarrow> ('d option \<times> 'd msg_q) option" where
  "task_take q =
     Option.bind (MsgTask_run (\<lambda>m _. Some m) (Some q) None) (\<lambda>(_, q', w). map_option (Pair w) q')"

lemma addrs_rev: "fst ` set (rev (map (\<lambda>(a, d). (a, d, True)) ms)) = fst ` set ms"
  by force

interpretation task_queue: fifo task_put task_take msg_q_vacant msg_q_holds
proof
  fix q :: "'d msg_q" and ms n
  assume "msg_q_holds q ms"
  then obtain l where l: "msg_list q = Some l" "list_holds l (rev (map (\<lambda>(a, d). (a, d, True)) ms))"
    by (auto simp: msg_q_holds_def)
  have "le_mem l n = None \<longleftrightarrow> n \<notin> fst ` set ms" using holdsD(3) [OF l(2)] unfolding addrs_rev by auto
  then show "msg_q_vacant n q \<longleftrightarrow> n \<notin> fst ` set ms" by (simp add: msg_q_vacant_def l(1))
next
  fix q :: "'d msg_q" and ms n x
  assume "msg_q_holds q ms" "msg_q_vacant n q"
  then obtain l where l: "msg_list q = Some l" "\<not> unblocked q" "le_mem l n = None"
    "list_holds l (rev (map (\<lambda>(a, d). (a, d, True)) ms))"
    by (auto simp: msg_q_holds_def msg_q_vacant_def)
  obtain l' where "linked_list_add (Some x) True (Some n) (Some l) = Some (eLINKED_LIST_SUCCESS, Some l')"
    "list_holds l' ((n, x, True) # rev (map (\<lambda>(a, d). (a, d, True)) ms))"
    using add_holds [OF l(4,3), of x True] by blast
  then show "\<exists>q'. task_put n x q = Some q' \<and> msg_q_holds q' (ms @ [(n, x)])"
    using l(1,2) by (simp add: task_put_def MsgTask_sendMsg_def msg_q_snd_def msg_q_holds_def)
next
  fix q :: "'d msg_q"
  assume "msg_q_holds q []"
  then obtain l where l: "msg_list q = Some l" "\<not> unblocked q" "list_holds l []" by (auto simp: msg_q_holds_def)
  have "linked_list_empty (Some l) = 1" using empty_holds [OF l(3)] by simp
  then have "task_take q = Some (None, q)"
    using l by (simp add: task_take_def MsgTask_run_def msg_q_rcv_def msg_q_rcv_loop_def)
  then show "\<exists>q'. task_take q = Some (None, q') \<and> msg_q_holds q' []"
    using \<open>msg_q_holds q []\<close> by blast
next
  fix q :: "'d msg_q" and n m ms
  assume "msg_q_holds q ((n, m) # ms)"
  then obtain l where l: "msg_list q = Some l" "\<not> unblocked q"
    "list_holds l (rev (map (\<lambda>(a, d). (a, d, True)) ms) @ [(n, m, True)])"
    by (auto simp: msg_q_holds_def)
  obtain l' where l': "linked_list_remove True (Some l) = Some (eLINKED_LIST_SUCCESS, Some m, Some l')"
    "list_holds l' (rev (map (\<lambda>(a, d). (a, d, True)) ms))"
    using remove_holds [OF l(3)] by blast
  have "linked_list_empty (Some l) = 0" using empty_holds [OF l(3)] by simp
  then have "task_take q = Some (Some m, q\<lparr>msg_list := Some l'\<rparr>)"
    using l(1,2) l'(1) by (simp add: task_take_def MsgTask_run_def msg_q_rcv_def msg_q_rcv_loop_def)
  then show "\<exists>q'. task_take q = Some (Some m, q') \<and> msg_q_holds q' ms"
    using l' l(2) by (simp add: msg_q_holds_def)
qed

text \<open>After the queue is unblocked nothing is sent any more, and no receiver waits.\<close>

lemma unblocked_queue:
  assumes "msg_q_unblock (Some q) = (err, Some q')"
  shows "msg_q_snd (Some d) f a (Some q') = Some (eMSG_Q_UNAVAILABLE_RESOURCE, Some q')"
    "msg_q_rcv True (Some q') = Some (Rcv_returns eMSG_Q_UNAVAILABLE_RESOURCE None, Some q')"
    "msg_q_rcv_loop q' = Some (r, q'') \<Longrightarrow> r \<noteq> Rcv_waits"
  using assms
  by (auto simp: msg_q_unblock_def msg_q_snd_def msg_q_rcv_def msg_q_rcv_loop_def split: if_splits)

section \<open>Properties\<close>

text \<open>C32. The doubly linked list behaves as a sequence, for every run of additions at the head,
  removals at the tail, searches with or without removal, and flushes: the calls hand out
  the data of the specification, no freed element is accessed, and exactly the data of the
  specification are deallocated.\<close>

theorem linked_list_refines_sequence:
  "case ll_spec_run ops ([], []) of
     None \<Rightarrow> ll_run ops empty_list = None
   | Some (outs, xs, freed) \<Rightarrow>
       \<exists>l. ll_run ops empty_list = Some (outs, l) \<and> list_holds l xs \<and> deallocated l = freed"
  using ll_run_refines [OF empty_list_holds, of ops] by (simp add: empty_list_def)

text \<open>C33. A message task handles the messages in the order in which they were sent, each once,
  for every interleaving of senders and turns of the task.\<close>

theorem msg_task_is_fifo:
  "case l_run cs [] of
     None \<Rightarrow> q_run task_put task_take msg_q_vacant cs \<lparr>msg_list = Some empty_list, unblocked = False\<rparr> = None
   | Some (out, ms) \<Rightarrow>
       \<exists>q. q_run task_put task_take msg_q_vacant cs \<lparr>msg_list = Some empty_list, unblocked = False\<rparr> = Some (out, q)
         \<and> msg_q_holds q ms"
  by (rule task_queue.run_refines) (simp add: msg_q_holds_def empty_list_holds)

end
