(* ===== verification/Loc_Agps.thy ===== *)
theory Loc_Agps
  imports Loc_List
begin

text \<open>
  The AGPS state machines of \<^verbatim>\<open>gps/loc_api/libloc_api_50001/loc_eng_agps.cpp\<close>: a network
  interface is requested for its subscribers, granted, released. The list of subscribers
  is the sequence that \<open>Loc_List.linked_list_refines_sequence\<close> gives for the linked list; a
  subscriber in it is denoted by the address of its element. What goes out (to the
  modem, the connectivity service and the data service) is a log.
\<close>

section \<open>Subscribers\<close>

datatype AgpsRsrcStatus =
    RSRC_SUBSCRIBE | RSRC_UNSUBSCRIBE | RSRC_GRANTED | RSRC_RELEASED | RSRC_DENIED | RSRC_STATUS_MAX

datatype AGpsStatusValue = GPS_REQUEST_AGPS_DATA_CONN | GPS_RELEASE_AGPS_DATA_CONN

datatype servicerType = servicerTypeNoCbParam | servicerTypeAgps | servicerTypeExt

text \<open>
  The classes derived from \<open>Subscriber\<close>, with their members: the bytes of \<open>mIPv6Addr\<close>;
  \<open>mBackwardCompatibleMode\<close>; \<open>mSSID\<close>, \<open>mPassword\<close> and \<open>mIsInactive\<close>; \<open>mIsInactive\<close>.
\<close>

datatype sub_kind =
    BITSubscriber "u8 list"
  | ATLSubscriber bool
  | WIFISubscriber "string option" "string option" bool
  | DSSubscriber bool

record subscriber =
  ID :: u32
  kind :: sub_kind

fun waitForCloseComplete :: "subscriber \<Rightarrow> bool" where
  "waitForCloseComplete s = (case kind s of WIFISubscriber _ _ _ \<Rightarrow> True | DSSubscriber _ \<Rightarrow> True | _ \<Rightarrow> False)"

fun isInactive :: "subscriber \<Rightarrow> bool" where
  "isInactive s = (case kind s of WIFISubscriber _ _ b \<Rightarrow> b | DSSubscriber b \<Rightarrow> b | _ \<Rightarrow> False)"

declare waitForCloseComplete.simps [simp del] isInactive.simps [simp del]

definition with_inactive :: "bool \<Rightarrow> subscriber \<Rightarrow> subscriber" where
  "with_inactive b s =
     s\<lparr>kind := (case kind s of
                  WIFISubscriber ssid pw _ \<Rightarrow> WIFISubscriber ssid pw b
                | DSSubscriber _ \<Rightarrow> DSSubscriber b
                | k \<Rightarrow> k)\<rparr>"

text \<open>A clone is constructed anew, so it is active.\<close>

definition clone :: "subscriber \<Rightarrow> subscriber" where
  "clone s = with_inactive False s"

definition INADDR_NONE :: u32 where "INADDR_NONE = 0xFFFFFFFF"

text \<open>\<open>strncmp (a, b, 16) == 0\<close>: equal up to the first null byte, 16 bytes at most.\<close>

definition strncmp_eq :: "u8 list \<Rightarrow> u8 list \<Rightarrow> bool" where
  "strncmp_eq a b = (takeWhile (\<lambda>c. c \<noteq> 0) (take 16 a) = takeWhile (\<lambda>c. c \<noteq> 0) (take 16 b))"

text \<open>
  \<open>BITSubscriber::equals\<close> casts its argument; a subscriber of another class has no
  \<open>mIPv6Addr\<close> to compare, the model takes it as different.
\<close>

definition equals :: "subscriber \<Rightarrow> subscriber \<Rightarrow> bool" where
  "equals s r =
     (case kind s of
        BITSubscriber a \<Rightarrow>
          ID s = ID r \<and> (ID s \<noteq> INADDR_NONE \<or> (case kind r of BITSubscriber b \<Rightarrow> strncmp_eq a b | _ \<Rightarrow> False))
      | _ \<Rightarrow> ID s = ID r)"

text \<open>
  The receiver of a notification: an object of the caller, or one that is in the list, with
  the address of its element. \<open>Group\<close> is a broadcast.
\<close>

datatype group = BROADCAST_ALL | BROADCAST_ACTIVE | BROADCAST_INACTIVE

datatype rcver = Group group | Own subscriber | Listed nat subscriber

record notification =
  rcver :: rcver
  rsrcStatus :: AgpsRsrcStatus
  postNotifyDelete :: bool

definition forMe :: "notification \<Rightarrow> subscriber \<Rightarrow> bool" where
  "forMe n s =
     (case rcver n of
        Own r \<Rightarrow> equals s r
      | Listed _ r \<Rightarrow> equals s r
      | Group BROADCAST_ALL \<Rightarrow> True
      | Group BROADCAST_ACTIVE \<Rightarrow> \<not> isInactive s
      | Group BROADCAST_INACTIVE \<Rightarrow> isInactive s)"

section \<open>The machine\<close>

datatype conn_status =
  GPSONE_LOC_API_IF_REQUEST_SUCCESS | GPSONE_LOC_API_IF_RELEASE_SUCCESS | GPSONE_LOC_API_IF_FAILURE

datatype sender = GPSONE_DAEMON | Sender u32

text \<open>
  What leaves the machine: data connection replies to a daemon, ATL open and close status
  and ATL, emergency SUPL and close requests to the modem, and the requests to the
  connectivity service (type, action, SSID, password) or the data service.
\<close>

datatype agps_out =
    Data_conn sender conn_status
  | Atl_close u32 int
  | Atl_open u32 int "string option" int int
  | Request_ATL u32 int
  | Request_SUPL_ES u32
  | Close_data_call
  | Plain_callback
  | Nif_request int AGpsStatusValue string string
  | Ds_request AGpsStatusValue
  | Start_timer nat

datatype agps_state = Released | Pending | Acquired | Releasing

text \<open>
  \<open>ds\<close> says that the object is a \<open>DSStateMachine\<close>. \<open>stale_read\<close> records that a deleted
  subscriber was read; the model goes on with the members the object last had.
\<close>

record agps_machine =
  ds :: bool
  mServicer :: servicerType
  mSubscribers :: "subscriber elem list"
  mStatePtr :: agps_state
  mType :: int
  mAPN :: "string option"
  mBearer :: int
  mEnforceSingleSubscriber :: bool
  mRetries :: u8
  outbox :: "agps_out list"
  stale_read :: bool

definition send_out :: "agps_out \<Rightarrow> agps_machine \<Rightarrow> agps_machine" where
  "send_out x m = m\<lparr>outbox := outbox m @ [x]\<rparr>"

definition AGPS_TYPE_INVALID :: int where "AGPS_TYPE_INVALID = -1"
definition AGPS_TYPE_SUPL :: int where "AGPS_TYPE_SUPL = 1"
definition AGPS_APN_BEARER_INVALID :: int where "AGPS_APN_BEARER_INVALID = -1"

definition AgpsStateMachine_ctor :: "servicerType \<Rightarrow> int \<Rightarrow> bool \<Rightarrow> agps_machine" where
  "AgpsStateMachine_ctor servType type enforceSingleSubscriber =
     \<lparr>ds = False, mServicer = servType, mSubscribers = [], mStatePtr = Released, mType = type, mAPN = None,
      mBearer = AGPS_APN_BEARER_INVALID, mEnforceSingleSubscriber = enforceSingleSubscriber, mRetries = 0,
      outbox = [], stale_read = False\<rparr>"

definition DSStateMachine_ctor :: "servicerType \<Rightarrow> agps_machine" where
  "DSStateMachine_ctor type = (AgpsStateMachine_ctor type AGPS_TYPE_INVALID False)\<lparr>ds := True, mRetries := 0\<rparr>"

definition setAPN :: "string option \<Rightarrow> nat \<Rightarrow> agps_machine \<Rightarrow> agps_machine" where
  "setAPN apn len m = m\<lparr>mAPN := map_option (take len) apn\<rparr>"

definition setBearer :: "int \<Rightarrow> agps_machine \<Rightarrow> agps_machine" where
  "setBearer bearer m = m\<lparr>mBearer := bearer\<rparr>"

definition informStatus :: "AgpsRsrcStatus \<Rightarrow> u32 \<Rightarrow> agps_machine \<Rightarrow> agps_machine" where
  "informStatus status i m =
     (case status of
        RSRC_UNSUBSCRIBE \<Rightarrow> send_out (Atl_close i 1) m
      | RSRC_RELEASED \<Rightarrow> send_out Close_data_call m
      | RSRC_DENIED \<Rightarrow> send_out (Request_ATL i AGPS_TYPE_SUPL) (m\<lparr>mRetries := 0\<rparr>)
      | RSRC_GRANTED \<Rightarrow> send_out (Atl_open i 1 None AGPS_APN_BEARER_INVALID AGPS_TYPE_INVALID) m
      | _ \<Rightarrow> m)"

text \<open>The notification of each class of subscribers, for one that it is meant for.\<close>

definition BIT_status :: "AgpsRsrcStatus \<Rightarrow> agps_machine \<Rightarrow> bool \<times> agps_machine" where
  "BIT_status st m =
     (case st of
        RSRC_UNSUBSCRIBE \<Rightarrow> (True, send_out (Data_conn GPSONE_DAEMON GPSONE_LOC_API_IF_RELEASE_SUCCESS) m)
      | RSRC_RELEASED \<Rightarrow> (True, send_out (Data_conn GPSONE_DAEMON GPSONE_LOC_API_IF_RELEASE_SUCCESS) m)
      | RSRC_DENIED \<Rightarrow> (True, send_out (Data_conn GPSONE_DAEMON GPSONE_LOC_API_IF_FAILURE) m)
      | RSRC_GRANTED \<Rightarrow> (True, send_out (Data_conn GPSONE_DAEMON GPSONE_LOC_API_IF_REQUEST_SUCCESS) m)
      | _ \<Rightarrow> (False, m))"

definition ATL_status :: "bool \<Rightarrow> u32 \<Rightarrow> AgpsRsrcStatus \<Rightarrow> agps_machine \<Rightarrow> bool \<times> agps_machine" where
  "ATL_status compatible i st m =
     (let t = (if compatible then AGPS_TYPE_INVALID else mType m)
      in case st of
           RSRC_UNSUBSCRIBE \<Rightarrow> (True, send_out (Atl_close i 1) m)
         | RSRC_RELEASED \<Rightarrow> (True, send_out (Atl_close i 1) m)
         | RSRC_DENIED \<Rightarrow> (True, send_out (Atl_open i 0 (mAPN m) (mBearer m) t) m)
         | RSRC_GRANTED \<Rightarrow> (True, send_out (Atl_open i 1 (mAPN m) (mBearer m) t) m)
         | _ \<Rightarrow> (False, m))"

definition WIFI_status :: "u32 \<Rightarrow> AgpsRsrcStatus \<Rightarrow> agps_machine \<Rightarrow> bool \<times> agps_machine" where
  "WIFI_status i st m =
     (case st of
        RSRC_UNSUBSCRIBE \<Rightarrow> (True, m)
      | RSRC_RELEASED \<Rightarrow> (True, send_out (Data_conn (Sender i) GPSONE_LOC_API_IF_RELEASE_SUCCESS) m)
      | RSRC_DENIED \<Rightarrow> (True, send_out (Data_conn (Sender i) GPSONE_LOC_API_IF_FAILURE) m)
      | RSRC_GRANTED \<Rightarrow> (True, send_out (Data_conn (Sender i) GPSONE_LOC_API_IF_REQUEST_SUCCESS) m)
      | _ \<Rightarrow> (False, m))"

definition DS_status :: "u32 \<Rightarrow> AgpsRsrcStatus \<Rightarrow> agps_machine \<Rightarrow> bool \<times> agps_machine" where
  "DS_status i st m =
     (case st of
        RSRC_SUBSCRIBE \<Rightarrow> (False, m) | RSRC_STATUS_MAX \<Rightarrow> (False, m) | _ \<Rightarrow> (True, informStatus st i m))"

definition notifyRsrcStatus :: "notification \<Rightarrow> subscriber \<Rightarrow> agps_machine \<Rightarrow> bool \<times> agps_machine" where
  "notifyRsrcStatus n s m =
     (if \<not> forMe n s then (False, m)
      else case kind s of
        BITSubscriber _ \<Rightarrow> BIT_status (rsrcStatus n) m
      | ATLSubscriber compatible \<Rightarrow> ATL_status compatible (ID s) (rsrcStatus n) m
      | WIFISubscriber _ _ _ \<Rightarrow> WIFI_status (ID s) (rsrcStatus n) m
      | DSSubscriber _ \<Rightarrow> DS_status (ID s) (rsrcStatus n) m)"

lemma notifyRsrcStatus_keeps [simp]:
  "mSubscribers (snd (notifyRsrcStatus n s m)) = mSubscribers m"
  "mStatePtr (snd (notifyRsrcStatus n s m)) = mStatePtr m"
  "ds (snd (notifyRsrcStatus n s m)) = ds m"
  "stale_read (snd (notifyRsrcStatus n s m)) = stale_read m"
  by (auto simp: notifyRsrcStatus_def BIT_status_def ATL_status_def WIFI_status_def DS_status_def Let_def
      informStatus_def send_out_def split: sub_kind.splits AgpsRsrcStatus.splits)

section \<open>Operations on the subscribers\<close>

text \<open>The two comparison callbacks of \<open>linked_list_search\<close>.\<close>

definition hasSubscriber :: "notification \<Rightarrow> subscriber \<Rightarrow> agps_machine \<Rightarrow> bool \<times> agps_machine" where
  "hasSubscriber n s m = (forMe n s, m)"

definition notifySubscriber :: "notification \<Rightarrow> subscriber \<Rightarrow> agps_machine \<Rightarrow> bool \<times> agps_machine" where
  "notifySubscriber n s m = (case notifyRsrcStatus n s m of (b, m1) \<Rightarrow> (b \<and> postNotifyDelete n, m1))"

definition find_sub :: "notification \<Rightarrow> agps_machine \<Rightarrow> subscriber elem option" where
  "find_sub n m = fst (search_list (hasSubscriber n) (mSubscribers m) m)"

definition broadcast :: "group \<Rightarrow> AgpsRsrcStatus \<Rightarrow> bool \<Rightarrow> notification" where
  "broadcast g st del = \<lparr>rcver = Group g, rsrcStatus = st, postNotifyDelete = del\<rparr>"

definition to_one :: "rcver \<Rightarrow> AgpsRsrcStatus \<Rightarrow> bool \<Rightarrow> notification" where
  "to_one r st del = \<lparr>rcver = r, rsrcStatus = st, postNotifyDelete = del\<rparr>"

definition hasSubscribers :: "agps_machine \<Rightarrow> bool" where
  "hasSubscribers m \<longleftrightarrow> mSubscribers m \<noteq> []"

definition find_active :: "agps_machine \<Rightarrow> subscriber elem option" where
  "find_active m = find_sub (broadcast BROADCAST_ACTIVE RSRC_STATUS_MAX False) m"

definition hasActiveSubscribers :: "agps_machine \<Rightarrow> bool" where
  "hasActiveSubscribers m \<longleftrightarrow> find_active m \<noteq> None"

definition dropAllSubscribers :: "agps_machine \<Rightarrow> agps_machine" where
  "dropAllSubscribers m = m\<lparr>mSubscribers := []\<rparr>"

text \<open>
  The element found is unlinked and its subscriber deleted. When that subscriber was the
  receiver of the notification, the next pass compares the others with the deleted object.
\<close>

definition delete_found :: "notification \<Rightarrow> nat \<Rightarrow> agps_machine \<Rightarrow> agps_machine" where
  "delete_found n a m =
     (let rest = filter (\<lambda>x. fst x \<noteq> a) (mSubscribers m)
      in m\<lparr>mSubscribers := rest,
           stale_read := (stale_read m \<or> (rest \<noteq> [] \<and> (case rcver n of Listed b _ \<Rightarrow> a = b | _ \<Rightarrow> False)))\<rparr>)"

lemma search_notify_keeps:
  "search_list (notifySubscriber n) xs m = (r, m1) \<Longrightarrow>
    mSubscribers m1 = mSubscribers m \<and> mStatePtr m1 = mStatePtr m \<and> ds m1 = ds m \<and> stale_read m1 = stale_read m"
proof (induction xs arbitrary: m)
  case Nil
  then show ?case by simp
next
  case (Cons x xs)
  obtain b m2 where m2: "notifyRsrcStatus n (fst (snd x)) m = (b, m2)" by (cases "notifyRsrcStatus n (fst (snd x)) m")
  have "mSubscribers m2 = mSubscribers m \<and> mStatePtr m2 = mStatePtr m \<and> ds m2 = ds m \<and> stale_read m2 = stale_read m"
    using notifyRsrcStatus_keeps [of n "fst (snd x)" m] m2 by simp
  then show ?case using Cons by (auto simp: notifySubscriber_def m2 split: if_splits)
qed

function notify_loop :: "notification \<Rightarrow> agps_machine \<Rightarrow> agps_machine" where
  "notify_loop n m =
     (case search_list (notifySubscriber n) (mSubscribers m) m of
        (None, m1) \<Rightarrow> m1
      | (Some x, m1) \<Rightarrow> notify_loop n (delete_found n (fst x) m1))"
  by pat_completeness auto
termination
proof (relation "measure (\<lambda>(n, m). length (mSubscribers m))", goal_cases)
  case 1
  show ?case by simp
next
  case (2 n m r m1 x)
  have s: "search_list (notifySubscriber n) (mSubscribers m) m = (Some x, m1)" using 2 by simp
  then have "mSubscribers m1 = mSubscribers m" using search_notify_keeps by blast
  moreover have "x \<in> set (mSubscribers m)" using search_list_split [OF s] by auto
  ultimately show ?case by (auto simp: delete_found_def Let_def intro!: length_filter_less)
qed

declare notify_loop.simps [simp del]

definition notifySubscribers :: "notification \<Rightarrow> agps_machine \<Rightarrow> agps_machine" where
  "notifySubscribers n m =
     (if postNotifyDelete n then notify_loop n m
      else snd (search_list (notifySubscriber n) (mSubscribers m) m))"

text \<open>\<open>elem\<close> is the element \<open>linked_list_add\<close> allocates; without one the clone is lost.\<close>

definition addSubscriber :: "subscriber \<Rightarrow> nat option \<Rightarrow> agps_machine \<Rightarrow> agps_machine" where
  "addSubscriber s elem m =
     (if find_sub (to_one (Own s) RSRC_STATUS_MAX False) m = None then
        (case elem of
           Some a \<Rightarrow> m\<lparr>mSubscribers := (a, clone s, True) # mSubscribers m\<rparr>
         | None \<Rightarrow> m)
      else m)"

section \<open>Requests for the interface\<close>

text \<open>
  \<open>requestRsrc\<close> of the three servicers. \<open>cb\<close> is the callback of the data service, given what
  went out before and the request.
\<close>

type_synonym service = "agps_out list \<Rightarrow> agps_out \<Rightarrow> int"

definition requestRsrc :: "service \<Rightarrow> agps_out \<Rightarrow> agps_machine \<Rightarrow> int \<times> agps_machine" where
  "requestRsrc cb req m =
     (case mServicer m of
        servicerTypeNoCbParam \<Rightarrow> (0, send_out Plain_callback m)
      | servicerTypeAgps \<Rightarrow> (0, send_out req m)
      | servicerTypeExt \<Rightarrow> (cb (outbox m) req, send_out req m))"

definition wifi_info :: "subscriber option \<Rightarrow> string \<times> string" where
  "wifi_info s =
     (case map_option kind s of
        Some (WIFISubscriber ssid pw _) \<Rightarrow>
          (case ssid of Some x \<Rightarrow> x | None \<Rightarrow> [], case pw of Some x \<Rightarrow> x | None \<Rightarrow> [])
      | _ \<Rightarrow> ([], []))"

definition agps_sendRsrcRequest :: "service \<Rightarrow> AGpsStatusValue \<Rightarrow> agps_machine \<Rightarrow> int \<times> agps_machine" where
  "agps_sendRsrcRequest cb action m =
     (let s = find_active m
      in if (s = None) = (action = GPS_RELEASE_AGPS_DATA_CONN) then
           (let info = wifi_info (map_option (fst \<circ> snd) s)
            in (0, snd (requestRsrc cb (Nif_request (mType m) action (fst info) (snd info)) m)))
         else (0, m))"

definition ERR_UNSUPPORTED :: int where "ERR_UNSUPPORTED = 2"
definition ERR_ENGINE_BUSY :: int where "ERR_ENGINE_BUSY = 6"
definition MAX_START_DATA_CALL_RETRIES :: u8 where "MAX_START_DATA_CALL_RETRIES = 4"
definition DATA_CALL_RETRY_DELAY_MSEC :: nat where "DATA_CALL_RETRY_DELAY_MSEC = 500"

text \<open>
  \<open>loc_timer_start\<close> returns its timer, never \<open>NULL\<close>, so the branch that takes the start for
  a failure is always taken.
\<close>

definition ds_sendRsrcRequest :: "service \<Rightarrow> AGpsStatusValue \<Rightarrow> agps_machine \<Rightarrow> int \<times> agps_machine" where
  "ds_sendRsrcRequest cb action m =
     (let connHandle = (case find_active m of Some x \<Rightarrow> ID (fst (snd x)) | None \<Rightarrow> - 1)
      in case requestRsrc cb (Ds_request action) m of
           (ret, m1) \<Rightarrow>
             if ret = ERR_ENGINE_BUSY then
               (let m2 = m1\<lparr>mRetries := mRetries m1 + 1\<rparr>
                in if mRetries m2 > MAX_START_DATA_CALL_RETRIES then (ret, informStatus RSRC_DENIED connHandle m2)
                   else (- 1, send_out (Start_timer DATA_CALL_RETRY_DELAY_MSEC) m2))
             else if ret = ERR_UNSUPPORTED then (ret, informStatus RSRC_DENIED connHandle m1)
             else if ret = 0 then (ret, m1)
             else if ret = - 1 then (ret, informStatus RSRC_DENIED connHandle m1)
             else (ret, m1))"

definition sendRsrcRequest :: "service \<Rightarrow> AGpsStatusValue \<Rightarrow> agps_machine \<Rightarrow> int \<times> agps_machine" where
  "sendRsrcRequest cb action m =
     (if ds m then ds_sendRsrcRequest cb action m else agps_sendRsrcRequest cb action m)"

text \<open>The timer's callback: the retry of the data call.\<close>

definition retryCallback :: "agps_machine \<Rightarrow> agps_machine" where
  "retryCallback m =
     (case find_active m of
        Some x \<Rightarrow> send_out (Request_SUPL_ES (ID (fst (snd x)))) m
      | None \<Rightarrow> m)"

section \<open>The states\<close>

text \<open>
  The object an event is about: the caller's subscriber, or the one listed at an address.
  Each handler gives the next state and the machine.
\<close>

datatype agps_data = No_data | Given subscriber "nat option" | At nat

definition sub_at :: "nat \<Rightarrow> agps_machine \<Rightarrow> subscriber option" where
  "sub_at a m = map_option fst (map_of (mSubscribers m) a)"

definition set_sub :: "nat \<Rightarrow> subscriber \<Rightarrow> agps_machine \<Rightarrow> agps_machine" where
  "set_sub a s m = m\<lparr>mSubscribers := map (\<lambda>x. if fst x = a then (a, s, snd (snd x)) else x) (mSubscribers m)\<rparr>"

definition setInactive :: "nat \<Rightarrow> subscriber \<Rightarrow> agps_machine \<Rightarrow> agps_machine" where
  "setInactive a s m =
     (let m1 = set_sub a (with_inactive True s) m
      in case kind s of DSSubscriber _ \<Rightarrow> informStatus RSRC_UNSUBSCRIBE (ID s) m1 | _ \<Rightarrow> m1)"

definition close_subscriber :: "nat \<Rightarrow> agps_machine \<Rightarrow> agps_machine" where
  "close_subscriber a m =
     (case sub_at a m of
        None \<Rightarrow> m
      | Some s \<Rightarrow>
          if waitForCloseComplete s then setInactive a s m
          else notifySubscribers (to_one (Listed a s) RSRC_UNSUBSCRIBE True) m)"

definition released_onRsrcEvent :: "service \<Rightarrow> AgpsRsrcStatus \<Rightarrow> agps_data \<Rightarrow> agps_machine \<Rightarrow> agps_state \<times> agps_machine" where
  "released_onRsrcEvent cb event dat m =
     (case (event, dat) of
        (RSRC_SUBSCRIBE, Given s elem) \<Rightarrow>
          (case sendRsrcRequest cb GPS_REQUEST_AGPS_DATA_CONN (addSubscriber s elem m) of
             (ret, m1) \<Rightarrow> (if ret = 0 then Pending else Released, m1))
      | (RSRC_UNSUBSCRIBE, At a) \<Rightarrow>
          (case sub_at a m of
             Some s \<Rightarrow> (Released, snd (notifyRsrcStatus (to_one (Listed a s) event False) s m))
           | None \<Rightarrow> (Released, m))
      | _ \<Rightarrow> (Released, m))"

text \<open>What \<open>AgpsPendingState\<close> and \<open>AgpsAcquiredState\<close> do after the close.\<close>

definition after_close :: "service \<Rightarrow> agps_state \<Rightarrow> agps_machine \<Rightarrow> agps_state \<times> agps_machine" where
  "after_close cb st m =
     (if \<not> hasSubscribers m then (Released, snd (sendRsrcRequest cb GPS_RELEASE_AGPS_DATA_CONN m))
      else if \<not> hasActiveSubscribers m then (Releasing, snd (sendRsrcRequest cb GPS_RELEASE_AGPS_DATA_CONN m))
      else (st, m))"

definition pending_onRsrcEvent :: "service \<Rightarrow> AgpsRsrcStatus \<Rightarrow> agps_data \<Rightarrow> agps_machine \<Rightarrow> agps_state \<times> agps_machine" where
  "pending_onRsrcEvent cb event dat m =
     (case (event, dat) of
        (RSRC_SUBSCRIBE, Given s elem) \<Rightarrow> (Pending, addSubscriber s elem m)
      | (RSRC_UNSUBSCRIBE, At a) \<Rightarrow> after_close cb Pending (close_subscriber a m)
      | (RSRC_GRANTED, _) \<Rightarrow> (Acquired, notifySubscribers (broadcast BROADCAST_ACTIVE event False) m)
      | (RSRC_DENIED, _) \<Rightarrow> (Released, notifySubscribers (broadcast BROADCAST_ALL event True) m)
      | _ \<Rightarrow> (Pending, m))"

definition acquired_onRsrcEvent :: "service \<Rightarrow> AgpsRsrcStatus \<Rightarrow> agps_data \<Rightarrow> agps_machine \<Rightarrow> agps_state \<times> agps_machine" where
  "acquired_onRsrcEvent cb event dat m =
     (case (event, dat) of
        (RSRC_SUBSCRIBE, Given s elem) \<Rightarrow>
          (Acquired, addSubscriber s elem (snd (notifyRsrcStatus (to_one (Own s) RSRC_GRANTED False) s m)))
      | (RSRC_UNSUBSCRIBE, At a) \<Rightarrow> after_close cb Acquired (close_subscriber a m)
      | (RSRC_RELEASED, _) \<Rightarrow> (Released, notifySubscribers (broadcast BROADCAST_ALL event True) m)
      | _ \<Rightarrow> (Acquired, m))"

definition releasing_onRsrcEvent :: "service \<Rightarrow> AgpsRsrcStatus \<Rightarrow> agps_data \<Rightarrow> agps_machine \<Rightarrow> agps_state \<times> agps_machine" where
  "releasing_onRsrcEvent cb event dat m =
     (case (event, dat) of
        (RSRC_SUBSCRIBE, Given s elem) \<Rightarrow> (Releasing, addSubscriber s elem m)
      | (RSRC_UNSUBSCRIBE, At a) \<Rightarrow>
          (let m1 = close_subscriber a m in (if hasSubscribers m1 then Releasing else Released, m1))
      | (ev, _) \<Rightarrow>
          if ev = RSRC_DENIED \<or> ev = RSRC_RELEASED then
            (let m1 = notifySubscribers (broadcast BROADCAST_INACTIVE ev True) m
             in if hasActiveSubscribers m1 then (Pending, snd (sendRsrcRequest cb GPS_REQUEST_AGPS_DATA_CONN m1))
                else (Released, m1))
          else (Releasing, m))"

definition state_onRsrcEvent :: "service \<Rightarrow> AgpsRsrcStatus \<Rightarrow> agps_data \<Rightarrow> agps_machine \<Rightarrow> agps_machine" where
  "state_onRsrcEvent cb event dat m =
     (case (case mStatePtr m of
              Released \<Rightarrow> released_onRsrcEvent | Pending \<Rightarrow> pending_onRsrcEvent
            | Acquired \<Rightarrow> acquired_onRsrcEvent | Releasing \<Rightarrow> releasing_onRsrcEvent) cb event dat m of
        (st, m1) \<Rightarrow> m1\<lparr>mStatePtr := st\<rparr>)"

section \<open>The interface of the machine\<close>

definition agps_onRsrcEvent :: "service \<Rightarrow> AgpsRsrcStatus \<Rightarrow> agps_machine \<Rightarrow> agps_machine" where
  "agps_onRsrcEvent cb event m =
     (if event \<in> {RSRC_GRANTED, RSRC_RELEASED, RSRC_DENIED} then state_onRsrcEvent cb event No_data m else m)"

text \<open>A release that leaves the state as it is counts as a denial.\<close>

definition ds_onRsrcEvent :: "service \<Rightarrow> AgpsRsrcStatus \<Rightarrow> agps_machine \<Rightarrow> agps_machine" where
  "ds_onRsrcEvent cb event m =
     (case event of
        RSRC_GRANTED \<Rightarrow> state_onRsrcEvent cb event No_data m
      | RSRC_RELEASED \<Rightarrow>
          (let m1 = state_onRsrcEvent cb event No_data m
           in if mStatePtr m1 \<noteq> mStatePtr m then m1 else state_onRsrcEvent cb RSRC_DENIED No_data m1)
      | RSRC_DENIED \<Rightarrow> state_onRsrcEvent cb event No_data m
      | _ \<Rightarrow> m)"

definition onRsrcEvent :: "service \<Rightarrow> AgpsRsrcStatus \<Rightarrow> agps_machine \<Rightarrow> agps_machine" where
  "onRsrcEvent cb event m = (if ds m then ds_onRsrcEvent cb event m else agps_onRsrcEvent cb event m)"

definition subscribeRsrc :: "service \<Rightarrow> subscriber \<Rightarrow> nat option \<Rightarrow> agps_machine \<Rightarrow> agps_machine" where
  "subscribeRsrc cb s elem m =
     (if mEnforceSingleSubscriber m \<and> hasSubscribers m then
        snd (notifySubscriber (broadcast BROADCAST_ALL RSRC_DENIED True) s m)
      else state_onRsrcEvent cb RSRC_SUBSCRIBE (Given s elem) m)"

definition unsubscribeRsrc :: "service \<Rightarrow> subscriber \<Rightarrow> agps_machine \<Rightarrow> bool \<times> agps_machine" where
  "unsubscribeRsrc cb s m =
     (case find_sub (to_one (Own s) RSRC_STATUS_MAX False) m of
        Some x \<Rightarrow> (True, state_onRsrcEvent cb RSRC_UNSUBSCRIBE (At (fst x)) m)
      | None \<Rightarrow> (False, m))"

datatype agps_event =
    Subscribe subscriber "nat option" | Unsubscribe subscriber | Resource AgpsRsrcStatus
  | Retry | Set_apn "string option" nat int | Drop_all

text \<open>The connectivity service's bearer and APN are set together, before it grants.\<close>

fun agps_step :: "service \<Rightarrow> agps_event \<Rightarrow> agps_machine \<Rightarrow> agps_machine" where
  "agps_step cb (Subscribe s elem) m = subscribeRsrc cb s elem m"
| "agps_step cb (Unsubscribe s) m = snd (unsubscribeRsrc cb s m)"
| "agps_step cb (Resource ev) m = onRsrcEvent cb ev m"
| "agps_step cb Retry m = retryCallback m"
| "agps_step cb (Set_apn apn len bearer) m = setAPN apn len (setBearer bearer m)"
| "agps_step cb Drop_all m = dropAllSubscribers m"

section \<open>Notifications\<close>

definition telling :: "AgpsRsrcStatus \<Rightarrow> bool" where
  "telling st \<longleftrightarrow> st \<noteq> RSRC_SUBSCRIBE \<and> st \<noteq> RSRC_STATUS_MAX"

lemma equals_refl [simp]: "equals s s"
  by (simp add: equals_def strncmp_eq_def split: sub_kind.splits)

lemma notify_found: "telling (rsrcStatus n) \<Longrightarrow> fst (notifyRsrcStatus n s m) = forMe n s"
  by (cases "rsrcStatus n") (simp_all add: telling_def notifyRsrcStatus_def BIT_status_def ATL_status_def
      WIFI_status_def DS_status_def Let_def split: sub_kind.splits)

lemma notify_other: "\<not> forMe n s \<Longrightarrow> notifyRsrcStatus n s m = (False, m)"
  by (simp add: notifyRsrcStatus_def)

lemma notify_commutes:
  "notifyRsrcStatus n s (m\<lparr>mSubscribers := xs, stale_read := b\<rparr>) =
     apsnd (\<lambda>m. m\<lparr>mSubscribers := xs, stale_read := b\<rparr>) (notifyRsrcStatus n s m)"
  by (auto simp: notifyRsrcStatus_def BIT_status_def ATL_status_def WIFI_status_def DS_status_def Let_def
      informStatus_def send_out_def split: sub_kind.splits AgpsRsrcStatus.splits)

text \<open>All subscribers of a list told, from the head on.\<close>

fun deliver :: "notification \<Rightarrow> subscriber elem list \<Rightarrow> agps_machine \<Rightarrow> agps_machine" where
  "deliver n [] m = m"
| "deliver n (x # xs) m = deliver n xs (snd (notifyRsrcStatus n (fst (snd x)) m))"

lemma deliver_append: "deliver n (xs @ ys) m = deliver n ys (deliver n xs m)"
  by (induction xs arbitrary: m) auto

lemma deliver_keeps [simp]:
  "mSubscribers (deliver n xs m) = mSubscribers m" "mStatePtr (deliver n xs m) = mStatePtr m"
  "ds (deliver n xs m) = ds m" "stale_read (deliver n xs m) = stale_read m"
  by (induction xs arbitrary: m) auto

lemma deliver_others: "\<forall>x \<in> set xs. \<not> forMe n (fst (snd x)) \<Longrightarrow> deliver n xs m = m"
  by (induction xs) (auto simp: notify_other)

lemma deliver_commutes:
  "deliver n xs (m\<lparr>mSubscribers := ys, stale_read := b\<rparr>) = (deliver n xs m)\<lparr>mSubscribers := ys, stale_read := b\<rparr>"
  by (induction xs arbitrary: m) (simp_all add: notify_commutes)

lemma search_tells_all:
  "\<not> postNotifyDelete n \<Longrightarrow> search_list (notifySubscriber n) xs m = (None, deliver n xs m)"
  by (induction xs arbitrary: m) (simp_all add: notifySubscriber_def split_def)

lemma search_tells_first:
  assumes "postNotifyDelete n" "telling (rsrcStatus n)"
  shows "search_list (notifySubscriber n) xs m =
    (case find (\<lambda>x. forMe n (fst (snd x))) xs of
       None \<Rightarrow> (None, m)
     | Some x \<Rightarrow> (Some x, snd (notifyRsrcStatus n (fst (snd x)) m)))"
  using assms
  by (induction xs) (auto simp: notifySubscriber_def split_def notify_found notify_other)

text \<open>A notification with deletion: every receiver is told once, in order, and removed.\<close>

lemma find_split:
  "find P xs = Some x \<Longrightarrow> \<exists>ys zs. xs = ys @ x # zs \<and> P x \<and> (\<forall>y \<in> set ys. \<not> P y)"
  by (induction xs) (force split: if_splits intro: exI [of _ "_ # _"])+

lemma filter_fst_neq: "a \<notin> fst ` set xs \<Longrightarrow> filter (\<lambda>y. fst y \<noteq> a) xs = xs"
  by (induction xs) auto

lemma notify_loop_tells:
  assumes "postNotifyDelete n" "telling (rsrcStatus n)" "distinct (map fst (mSubscribers m))"
  shows "\<exists>b. notify_loop n m = (deliver n (mSubscribers m) m)
           \<lparr>mSubscribers := filter (\<lambda>x. \<not> forMe n (fst (snd x))) (mSubscribers m), stale_read := b\<rparr>
         \<and> (stale_read m \<longrightarrow> b)
         \<and> ((\<forall>a s. rcver n \<noteq> Listed a s) \<longrightarrow> b = stale_read m)"
  using assms
proof (induction n m rule: notify_loop.induct)
  case (1 n m)
  define P where "P = (\<lambda>x :: subscriber elem. forMe n (fst (snd x)))"
  note s = search_tells_first [OF 1(2,3), of "mSubscribers m" m, folded P_def]
  show ?case
  proof (cases "find P (mSubscribers m)")
    case None
    then have others: "\<forall>x \<in> set (mSubscribers m). \<not> forMe n (fst (snd x))" unfolding find_None_iff P_def by blast
    then have "filter (\<lambda>x. \<not> forMe n (fst (snd x))) (mSubscribers m) = mSubscribers m" by simp
    moreover have "notify_loop n m = m" using s None by (simp add: notify_loop.simps [of n m])
    ultimately show ?thesis using deliver_others [OF others] by (intro exI [of _ "stale_read m"]) simp
  next
    case (Some x)
    from find_split [OF this] obtain ys zs where
      l: "mSubscribers m = ys @ x # zs" "P x" "\<forall>y \<in> set ys. \<not> P y" by blast
    define m1 where "m1 = snd (notifyRsrcStatus n (fst (snd x)) m)"
    have s1: "search_list (notifySubscriber n) (mSubscribers m) m = (Some x, m1)"
      using s Some by (simp add: m1_def)
    have m1: "mSubscribers m1 = ys @ x # zs" "stale_read m1 = stale_read m" by (simp_all add: m1_def l(1))
    have dis: "fst x \<notin> fst ` set ys \<union> fst ` set zs" using 1(4) l(1) by auto
    have rest: "filter (\<lambda>y. fst y \<noteq> fst x) (mSubscribers m1) = ys @ zs"
      using dis by (simp add: m1 filter_fst_neq)
    obtain b1 where b1: "delete_found n (fst x) m1 = m1\<lparr>mSubscribers := ys @ zs, stale_read := b1\<rparr>"
      "stale_read m \<longrightarrow> b1" "(\<forall>a s. rcver n \<noteq> Listed a s) \<longrightarrow> b1 = stale_read m"
      unfolding delete_found_def Let_def rest m1(2) by (auto split: rcver.splits)
    have st: "notify_loop n m = notify_loop n (delete_found n (fst x) m1)"
      using s1 by (simp add: notify_loop.simps [of n m])
    have "distinct (map fst (mSubscribers (delete_found n (fst x) m1)))"
      using 1(4) by (auto simp: b1(1) l(1))
    from 1(1) [OF s1 [symmetric] refl 1(2,3) this] obtain b where
      b: "notify_loop n m = (deliver n (ys @ zs) (delete_found n (fst x) m1))
           \<lparr>mSubscribers := filter (\<lambda>x. \<not> forMe n (fst (snd x))) (ys @ zs), stale_read := b\<rparr>"
      "b1 \<longrightarrow> b" "(\<forall>a s. rcver n \<noteq> Listed a s) \<longrightarrow> b = b1"
      unfolding st b1(1) by auto
    have d: "deliver n (mSubscribers m) m = deliver n (ys @ zs) m1"
      using l(3) by (simp add: l(1) deliver_append m1_def deliver_others P_def)
    show ?thesis
    proof (intro exI conjI)
      show "notify_loop n m = (deliver n (mSubscribers m) m)
           \<lparr>mSubscribers := filter (\<lambda>x. \<not> forMe n (fst (snd x))) (mSubscribers m), stale_read := b\<rparr>"
        using l(2) unfolding b(1) b1(1) deliver_commutes d by (simp add: l(1) P_def)
    qed (use b b1 in auto)
  qed
qed

text \<open>A subscriber that is deleted while others stay is read again.\<close>

lemma notify_loop_stale:
  assumes "postNotifyDelete n" "telling (rsrcStatus n)" "rcver n = Listed a s"
    "(a, s, f) \<in> set (mSubscribers m)" "y \<in> set (mSubscribers m)" "\<not> equals (fst (snd y)) s"
    "distinct (map fst (mSubscribers m))"
  shows "stale_read (notify_loop n m)"
  using assms
proof (induction n m rule: notify_loop.induct)
  case (1 n m)
  define P where "P = (\<lambda>x :: subscriber elem. forMe n (fst (snd x)))"
  have P: "P x \<longleftrightarrow> equals (fst (snd x)) s" for x using 1(4) by (simp add: P_def forMe_def)
  note r = search_tells_first [OF 1(2,3), of "mSubscribers m" m, folded P_def]
  have "find P (mSubscribers m) \<noteq> None" using 1(5) unfolding find_None_iff P by force
  then obtain x where x: "find P (mSubscribers m) = Some x" by blast
  then have px: "P x" "x \<in> set (mSubscribers m)" using find_split [OF x] by auto
  define m1 where "m1 = snd (notifyRsrcStatus n (fst (snd x)) m)"
  have s1: "search_list (notifySubscriber n) (mSubscribers m) m = (Some x, m1)" using r x by (simp add: m1_def)
  have st: "notify_loop n m = notify_loop n (delete_found n (fst x) m1)"
    using s1 by (simp add: notify_loop.simps [of n m])
  have yx: "fst y \<noteq> fst x"
    using 1(6-8) px by (metis P distinct_map inj_on_contraD)
  let ?m = "delete_found n (fst x) m1"
  have dis: "distinct (map fst (mSubscribers ?m))"
    using 1(8) by (simp add: delete_found_def Let_def m1_def distinct_map inj_on_def)
  have y: "y \<in> set (mSubscribers ?m)" using 1(6) yx by (simp add: delete_found_def Let_def m1_def)
  show ?case
  proof (cases "fst x = a")
    case True
    have "mSubscribers ?m \<noteq> []" using y by force
    then have "stale_read ?m" using 1(4) True by (simp add: delete_found_def Let_def)
    then show ?thesis using notify_loop_tells [OF 1(2,3) dis] by (auto simp: st)
  next
    case False
    then have "(a, s, f) \<in> set (mSubscribers ?m)" using 1(5) by (simp add: delete_found_def Let_def m1_def)
    then show ?thesis using 1(1) [OF s1 [symmetric] refl 1(2-4) _ y 1(7) dis] by (simp add: st)
  qed
qed

section \<open>The invariant\<close>

definition active_subs :: "subscriber elem list \<Rightarrow> subscriber elem list" where
  "active_subs xs = filter (\<lambda>x. \<not> isInactive (fst (snd x))) xs"

lemma search_has: "search_list (hasSubscriber n) xs m = (find (\<lambda>x. forMe n (fst (snd x))) xs, m)"
  by (induction xs) (simp_all add: hasSubscriber_def)

lemma find_None_bex: "find P xs = None \<longleftrightarrow> \<not> (\<exists>x \<in> set xs. P x)"
  by (induction xs) auto

lemma find_sub_eq: "find_sub n m = find (\<lambda>x. forMe n (fst (snd x))) (mSubscribers m)"
  by (simp add: find_sub_def search_has)

lemma hasActive_iff: "hasActiveSubscribers m \<longleftrightarrow> active_subs (mSubscribers m) \<noteq> []"
  by (simp add: hasActiveSubscribers_def find_active_def find_sub_eq broadcast_def forMe_def find_None_bex
      active_subs_def filter_empty_conv)

text \<open>
  A machine with a pending or acquired interface has an active subscriber, one that is
  releasing has a subscriber, and one that has released the interface has none, except that
  the machine of the data service keeps those whose request failed, all of them active.
\<close>

definition subs_good :: "bool \<Rightarrow> agps_state \<Rightarrow> subscriber elem list \<Rightarrow> bool" where
  "subs_good d st xs \<longleftrightarrow> distinct (map fst xs) \<and>
     (case st of
        Released \<Rightarrow> if d then active_subs xs = xs else xs = []
      | Pending \<Rightarrow> active_subs xs \<noteq> []
      | Acquired \<Rightarrow> active_subs xs \<noteq> []
      | Releasing \<Rightarrow> xs \<noteq> [])"

definition agps_inv :: "agps_machine \<Rightarrow> bool" where
  "agps_inv m \<longleftrightarrow> subs_good (ds m) (mStatePtr m) (mSubscribers m)"

lemma send_out_keeps [simp]:
  "mSubscribers (send_out x m) = mSubscribers m" "mStatePtr (send_out x m) = mStatePtr m"
  "ds (send_out x m) = ds m" "stale_read (send_out x m) = stale_read m"
  by (simp_all add: send_out_def)

lemma informStatus_keeps [simp]:
  "mSubscribers (informStatus st i m) = mSubscribers m" "mStatePtr (informStatus st i m) = mStatePtr m"
  "ds (informStatus st i m) = ds m" "stale_read (informStatus st i m) = stale_read m"
  by (auto simp: informStatus_def split: AgpsRsrcStatus.splits)

lemma requestRsrc_keeps [simp]:
  "mSubscribers (snd (requestRsrc cb x m)) = mSubscribers m" "mStatePtr (snd (requestRsrc cb x m)) = mStatePtr m"
  "ds (snd (requestRsrc cb x m)) = ds m" "stale_read (snd (requestRsrc cb x m)) = stale_read m"
  by (auto simp: requestRsrc_def split: servicerType.splits)

lemma sendRsrcRequest_keeps [simp]:
  "mSubscribers (snd (sendRsrcRequest cb x m)) = mSubscribers m"
  "mStatePtr (snd (sendRsrcRequest cb x m)) = mStatePtr m"
  "ds (snd (sendRsrcRequest cb x m)) = ds m" "stale_read (snd (sendRsrcRequest cb x m)) = stale_read m"
  by (auto simp: sendRsrcRequest_def agps_sendRsrcRequest_def ds_sendRsrcRequest_def Let_def split_def)

lemma agps_request_succeeds: "\<not> ds m \<Longrightarrow> fst (sendRsrcRequest cb x m) = 0"
  by (simp add: sendRsrcRequest_def agps_sendRsrcRequest_def Let_def)

lemma notifySubscribers_subs:
  assumes "telling (rsrcStatus n)" "distinct (map fst (mSubscribers m))"
  shows "mSubscribers (notifySubscribers n m) =
      (if postNotifyDelete n then filter (\<lambda>x. \<not> forMe n (fst (snd x))) (mSubscribers m) else mSubscribers m)"
    "ds (notifySubscribers n m) = ds m" "mStatePtr (notifySubscribers n m) = mStatePtr m"
  using notify_loop_tells [OF _ assms] by (auto simp: notifySubscribers_def search_tells_all)

lemma addSubscriber_subs:
  "mSubscribers (addSubscriber s (Some a) m) =
     (if \<exists>x \<in> set (mSubscribers m). equals (fst (snd x)) s then mSubscribers m
      else (a, clone s, True) # mSubscribers m)"
  "ds (addSubscriber s el m) = ds m" "mStatePtr (addSubscriber s el m) = mStatePtr m"
  by (simp_all add: addSubscriber_def find_sub_eq to_one_def forMe_def find_None_bex split: option.splits)

lemma clone_active [simp]: "\<not> isInactive (clone s)"
  by (simp add: isInactive.simps clone_def with_inactive_def split: sub_kind.splits)

lemma set_sub_subs:
  "map fst (mSubscribers (set_sub a s m)) = map fst (mSubscribers m)"
  by (simp add: set_sub_def comp_def)

lemma active_subs_simps [simp]:
  "active_subs [] = []"
  "active_subs (x # xs) = (if isInactive (fst (snd x)) then active_subs xs else x # active_subs xs)"
  "active_subs (active_subs xs) = active_subs xs"
  by (simp_all add: active_subs_def)

lemma setInactive_keeps:
  "map fst (mSubscribers (setInactive a s m)) = map fst (mSubscribers m)"
  "ds (setInactive a s m) = ds m"
  by (simp_all add: setInactive_def Let_def set_sub_def comp_def split: sub_kind.splits)

lemma distinct_fst_filter: "distinct (map fst xs) \<Longrightarrow> distinct (map fst (filter P xs))"
  by (simp add: distinct_map inj_on_def)

lemma close_subscriber_keeps:
  assumes "distinct (map fst (mSubscribers m))"
  shows "distinct (map fst (mSubscribers (close_subscriber a m)))" "ds (close_subscriber a m) = ds m"
  using assms
  by (auto simp: close_subscriber_def setInactive_keeps notifySubscribers_subs to_one_def telling_def
      distinct_fst_filter split: option.splits)

lemma after_close_good:
  assumes "distinct (map fst (mSubscribers m))" "st = Pending \<or> st = Acquired"
    "after_close cb st m = (st', m')"
  shows "subs_good (ds m) st' (mSubscribers m') \<and> ds m' = ds m"
  using assms by (auto simp: after_close_def hasSubscribers_def hasActive_iff subs_good_def split: if_splits)

definition data_ok :: "AgpsRsrcStatus \<Rightarrow> agps_data \<Rightarrow> agps_machine \<Rightarrow> bool" where
  "data_ok event dat m \<longleftrightarrow>
     (case dat of Given s elem \<Rightarrow> (\<exists>a. elem = Some a \<and> a \<notin> fst ` set (mSubscribers m)) | _ \<Rightarrow> True)"

lemma added_good:
  assumes "distinct (map fst (mSubscribers m))" "a \<notin> fst ` set (mSubscribers m)"
  shows "distinct (map fst (mSubscribers (addSubscriber s (Some a) m)))"
    "active_subs (mSubscribers m) \<noteq> [] \<Longrightarrow> active_subs (mSubscribers (addSubscriber s (Some a) m)) \<noteq> []"
    "active_subs (mSubscribers m) = mSubscribers m \<Longrightarrow>
       active_subs (mSubscribers (addSubscriber s (Some a) m)) = mSubscribers (addSubscriber s (Some a) m)"
    "mSubscribers (addSubscriber s (Some a) m) \<noteq> []"
  using assms by (auto simp: addSubscriber_subs)

lemma released_good:
  assumes "subs_good (ds m) Released (mSubscribers m)" "data_ok ev dat m"
    "released_onRsrcEvent cb ev dat m = (st', m')"
  shows "subs_good (ds m) st' (mSubscribers m') \<and> ds m' = ds m"
proof (cases "\<exists>s el. dat = Given s el \<and> ev = RSRC_SUBSCRIBE")
  case True
  then obtain s a where d: "ev = RSRC_SUBSCRIBE" "dat = Given s (Some a)" "a \<notin> fst ` set (mSubscribers m)"
    using assms(2) by (auto simp: data_ok_def)
  obtain ret m1 where r: "sendRsrcRequest cb GPS_REQUEST_AGPS_DATA_CONN (addSubscriber s (Some a) m) = (ret, m1)"
    by (cases "sendRsrcRequest cb GPS_REQUEST_AGPS_DATA_CONN (addSubscriber s (Some a) m)")
  have m1: "mSubscribers m1 = mSubscribers (addSubscriber s (Some a) m)" "ds m1 = ds m"
    using sendRsrcRequest_keeps [of cb GPS_REQUEST_AGPS_DATA_CONN "addSubscriber s (Some a) m"] r
    by (simp_all add: addSubscriber_subs)
  have ret: "ret = 0" if "\<not> ds m"
    using agps_request_succeeds [of "addSubscriber s (Some a) m" cb GPS_REQUEST_AGPS_DATA_CONN] r that
    by (simp add: addSubscriber_subs)
  have dis: "distinct (map fst (mSubscribers m))" "active_subs (mSubscribers m) = mSubscribers m"
    using assms(1) by (auto simp: subs_good_def split: if_splits)
  have res: "st' = (if ret = 0 then Pending else Released)" "m' = m1"
    using assms(3) by (auto simp: released_onRsrcEvent_def d r)
  show ?thesis
    using added_good [OF dis(1) d(3), of s] dis ret unfolding res m1 by (auto simp: subs_good_def m1)
next
  case False
  then have "st' = Released \<and> mSubscribers m' = mSubscribers m \<and> ds m' = ds m"
    using assms(3) by (auto simp: released_onRsrcEvent_def split: agps_data.splits AgpsRsrcStatus.splits option.splits)
  then show ?thesis using assms(1) by simp
qed

lemma pending_good:
  assumes "subs_good (ds m) Pending (mSubscribers m)" "data_ok ev dat m"
    "pending_onRsrcEvent cb ev dat m = (st', m')"
  shows "subs_good (ds m) st' (mSubscribers m') \<and> ds m' = ds m"
proof -
  have dis: "distinct (map fst (mSubscribers m))" "active_subs (mSubscribers m) \<noteq> []"
    using assms(1) by (simp_all add: subs_good_def)
  note tell = notifySubscribers_subs [OF _ dis(1)]
  have sub: ?thesis if "ev = RSRC_SUBSCRIBE" "dat = Given s el" for s el
    using that assms(2,3) added_good [OF dis(1)] dis(2)
    by (auto simp: pending_onRsrcEvent_def data_ok_def subs_good_def addSubscriber_subs(2))
  have unsub: ?thesis if "ev = RSRC_UNSUBSCRIBE" "dat = At a" for a
    using that assms(3) after_close_good [OF close_subscriber_keeps(1) [OF dis(1), of a], of Pending cb st' m']
    by (simp add: pending_onRsrcEvent_def close_subscriber_keeps [OF dis(1)])
  show ?thesis
  proof (cases ev)
    case RSRC_SUBSCRIBE
    then show ?thesis using sub assms(1,3) by (cases dat) (simp_all add: pending_onRsrcEvent_def)
  next
    case RSRC_UNSUBSCRIBE
    then show ?thesis using unsub assms(1,3) by (cases dat) (simp_all add: pending_onRsrcEvent_def)
  next
    case RSRC_GRANTED
    then show ?thesis using assms(3) dis tell
      by (auto simp: pending_onRsrcEvent_def broadcast_def telling_def subs_good_def)
  next
    case RSRC_DENIED
    then show ?thesis using assms(3)
      by (auto simp: pending_onRsrcEvent_def broadcast_def telling_def subs_good_def forMe_def tell)
  qed (use assms(1,3) in \<open>simp_all add: pending_onRsrcEvent_def\<close>)
qed

lemma acquired_good:
  assumes "subs_good (ds m) Acquired (mSubscribers m)" "data_ok ev dat m"
    "acquired_onRsrcEvent cb ev dat m = (st', m')"
  shows "subs_good (ds m) st' (mSubscribers m') \<and> ds m' = ds m"
proof -
  have dis: "distinct (map fst (mSubscribers m))" "active_subs (mSubscribers m) \<noteq> []"
    using assms(1) by (simp_all add: subs_good_def)
  note tell = notifySubscribers_subs [OF _ dis(1)]
  have sub: ?thesis if e: "ev = RSRC_SUBSCRIBE" and d: "dat = Given s el" for s el
  proof -
    obtain a where a: "el = Some a" "a \<notin> fst ` set (mSubscribers m)" using assms(2) d by (auto simp: data_ok_def)
    define m1 where "m1 = snd (notifyRsrcStatus (to_one (Own s) RSRC_GRANTED False) s m)"
    have m1: "mSubscribers m1 = mSubscribers m" "ds m1 = ds m" by (simp_all add: m1_def)
    have "st' = Acquired" "m' = addSubscriber s (Some a) m1"
      using assms(3) by (auto simp: acquired_onRsrcEvent_def e d a m1_def)
    then show ?thesis
      using added_good [of m1 a s] dis a m1 by (simp add: subs_good_def addSubscriber_subs(2))
  qed
  have unsub: ?thesis if "ev = RSRC_UNSUBSCRIBE" "dat = At a" for a
    using that assms(3) after_close_good [OF close_subscriber_keeps(1) [OF dis(1), of a], of Acquired cb st' m']
    by (simp add: acquired_onRsrcEvent_def close_subscriber_keeps [OF dis(1)])
  show ?thesis
  proof (cases ev)
    case RSRC_SUBSCRIBE
    then show ?thesis using sub assms(1,3) by (cases dat) (simp_all add: acquired_onRsrcEvent_def)
  next
    case RSRC_UNSUBSCRIBE
    then show ?thesis using unsub assms(1,3) by (cases dat) (simp_all add: acquired_onRsrcEvent_def)
  next
    case RSRC_RELEASED
    then show ?thesis using assms(3)
      by (auto simp: acquired_onRsrcEvent_def broadcast_def telling_def subs_good_def forMe_def tell)
  qed (use assms(1,3) in \<open>simp_all add: acquired_onRsrcEvent_def\<close>)
qed

lemma releasing_good:
  assumes "subs_good (ds m) Releasing (mSubscribers m)" "data_ok ev dat m"
    "releasing_onRsrcEvent cb ev dat m = (st', m')"
  shows "subs_good (ds m) st' (mSubscribers m') \<and> ds m' = ds m"
proof -
  have dis: "distinct (map fst (mSubscribers m))" "mSubscribers m \<noteq> []"
    using assms(1) by (simp_all add: subs_good_def)
  have sub: ?thesis if "ev = RSRC_SUBSCRIBE" "dat = Given s el" for s el
    using that assms(2,3) added_good [OF dis(1)]
    by (auto simp: releasing_onRsrcEvent_def data_ok_def subs_good_def addSubscriber_subs(2))
  have unsub: ?thesis if "ev = RSRC_UNSUBSCRIBE" "dat = At a" for a
    using that assms(3) close_subscriber_keeps [OF dis(1), of a]
    by (auto simp: releasing_onRsrcEvent_def Let_def hasSubscribers_def subs_good_def split: if_splits)
  have leave: ?thesis if e: "ev = RSRC_DENIED \<or> ev = RSRC_RELEASED"
  proof -
    define m1 where "m1 = notifySubscribers (broadcast BROADCAST_INACTIVE ev True) m"
    have m1: "mSubscribers m1 = active_subs (mSubscribers m)" "ds m1 = ds m"
      using e dis(1) unfolding m1_def
      by (auto simp: notifySubscribers_subs broadcast_def telling_def forMe_def active_subs_def)
    have "(st', m') = (if hasActiveSubscribers m1 then (Pending, snd (sendRsrcRequest cb GPS_REQUEST_AGPS_DATA_CONN m1))
        else (Released, m1))"
      using e assms(3) by (auto simp: releasing_onRsrcEvent_def m1_def Let_def)
    then show ?thesis
      using dis(1) m1 by (auto simp: hasActive_iff subs_good_def active_subs_def distinct_fst_filter split: if_splits)
  qed
  show ?thesis
  proof (cases ev)
    case RSRC_SUBSCRIBE
    then show ?thesis using sub assms(1,3) by (cases dat) (simp_all add: releasing_onRsrcEvent_def)
  next
    case RSRC_UNSUBSCRIBE
    then show ?thesis using unsub assms(1,3) by (cases dat) (simp_all add: releasing_onRsrcEvent_def)
  qed (use leave assms(1,3) in \<open>simp_all add: releasing_onRsrcEvent_def\<close>)
qed

lemmas state_good = released_good pending_good acquired_good releasing_good

lemma state_onRsrcEvent_inv:
  assumes "agps_inv m" "data_ok ev dat m"
  shows "agps_inv (state_onRsrcEvent cb ev dat m)" "ds (state_onRsrcEvent cb ev dat m) = ds m"
proof -
  obtain st m1 where r: "(case mStatePtr m of
              Released \<Rightarrow> released_onRsrcEvent | Pending \<Rightarrow> pending_onRsrcEvent
            | Acquired \<Rightarrow> acquired_onRsrcEvent | Releasing \<Rightarrow> releasing_onRsrcEvent) cb ev dat m = (st, m1)"
    by (metis surj_pair)
  have "subs_good (ds m) st (mSubscribers m1) \<and> ds m1 = ds m"
  proof (cases "mStatePtr m")
    case Released
    then show ?thesis using released_good [of m ev dat cb st m1] assms r by (simp add: agps_inv_def)
  next
    case Pending
    then show ?thesis using pending_good [of m ev dat cb st m1] assms r by (simp add: agps_inv_def)
  next
    case Acquired
    then show ?thesis using acquired_good [of m ev dat cb st m1] assms r by (simp add: agps_inv_def)
  next
    case Releasing
    then show ?thesis using releasing_good [of m ev dat cb st m1] assms r by (simp add: agps_inv_def)
  qed
  then show "agps_inv (state_onRsrcEvent cb ev dat m)" "ds (state_onRsrcEvent cb ev dat m) = ds m"
    by (simp_all add: state_onRsrcEvent_def r agps_inv_def)
qed

lemma data_ok_simps [simp]: "data_ok ev No_data m" "data_ok ev (At a) m"
  by (simp_all add: data_ok_def)

lemma onRsrcEvent_inv: "agps_inv m \<Longrightarrow> agps_inv (onRsrcEvent cb ev m)"
  by (cases ev) (simp_all add: onRsrcEvent_def ds_onRsrcEvent_def agps_onRsrcEvent_def Let_def state_onRsrcEvent_inv)

text \<open>
  The runs considered: the element for a new subscriber is allocated, at an address not
  in use, and the list is not dropped from outside (at a restart of the engine).
\<close>

definition agps_cmd :: "service \<Rightarrow> agps_event \<Rightarrow> agps_machine \<Rightarrow> agps_machine option" where
  "agps_cmd cb e m =
     (case e of
        Subscribe s elem \<Rightarrow>
          (case elem of
             Some a \<Rightarrow> if a \<in> fst ` set (mSubscribers m) then None else Some (agps_step cb e m)
           | None \<Rightarrow> None)
      | Drop_all \<Rightarrow> None
      | _ \<Rightarrow> Some (agps_step cb e m))"

lemma agps_cmd_inv:
  assumes "agps_inv m" "agps_cmd cb e m = Some m'"
  shows "agps_inv m'"
proof (cases e)
  case (Subscribe s el)
  then obtain a where a: "el = Some a" "a \<notin> fst ` set (mSubscribers m)" "m' = subscribeRsrc cb s (Some a) m"
    using assms(2) by (auto simp: agps_cmd_def split: option.splits if_splits)
  have "agps_inv (state_onRsrcEvent cb RSRC_SUBSCRIBE (Given s (Some a)) m)"
    using assms(1) a(2) by (intro state_onRsrcEvent_inv) (simp_all add: data_ok_def)
  then show ?thesis using assms(1) by (simp add: a(3) subscribeRsrc_def notifySubscriber_def split_def agps_inv_def)
next
  case (Unsubscribe s)
  then show ?thesis using assms
    by (auto simp: agps_cmd_def unsubscribeRsrc_def state_onRsrcEvent_inv split: option.splits)
next
  case (Resource ev)
  then show ?thesis using assms by (auto simp: agps_cmd_def onRsrcEvent_inv)
next
  case Retry
  then show ?thesis using assms by (auto simp: agps_cmd_def retryCallback_def agps_inv_def split: option.splits)
next
  case (Set_apn apn len b)
  then show ?thesis using assms by (auto simp: agps_cmd_def setAPN_def setBearer_def agps_inv_def)
qed (use assms in \<open>simp add: agps_cmd_def\<close>)

interpretation agps_run: guarded_steps "agps_cmd cb" agps_inv for cb
  by unfold_locales (rule agps_cmd_inv)

lemma ctor_inv: "agps_inv (AgpsStateMachine_ctor t ty b)" "agps_inv (DSStateMachine_ctor t)"
  by (simp_all add: agps_inv_def subs_good_def AgpsStateMachine_ctor_def DSStateMachine_ctor_def)

text \<open>The status each subscriber hears when the interface is granted or denied.\<close>

fun verdict :: "agps_machine \<Rightarrow> AgpsRsrcStatus \<Rightarrow> subscriber \<Rightarrow> agps_out" where
  "verdict m st s =
     (case kind s of
        BITSubscriber _ \<Rightarrow>
          Data_conn GPSONE_DAEMON (if st = RSRC_GRANTED then GPSONE_LOC_API_IF_REQUEST_SUCCESS else GPSONE_LOC_API_IF_FAILURE)
      | ATLSubscriber compatible \<Rightarrow>
          Atl_open (ID s) (if st = RSRC_GRANTED then 1 else 0) (mAPN m) (mBearer m)
            (if compatible then AGPS_TYPE_INVALID else mType m)
      | WIFISubscriber _ _ _ \<Rightarrow>
          Data_conn (Sender (ID s)) (if st = RSRC_GRANTED then GPSONE_LOC_API_IF_REQUEST_SUCCESS else GPSONE_LOC_API_IF_FAILURE)
      | DSSubscriber _ \<Rightarrow>
          (if st = RSRC_GRANTED then Atl_open (ID s) 1 None AGPS_APN_BEARER_INVALID AGPS_TYPE_INVALID
           else Request_ATL (ID s) AGPS_TYPE_SUPL))"

declare verdict.simps [simp del]

lemma notify_verdict:
  assumes "forMe n s" "rsrcStatus n = RSRC_GRANTED \<or> rsrcStatus n = RSRC_DENIED"
  shows "outbox (snd (notifyRsrcStatus n s m)) = outbox m @ [verdict m (rsrcStatus n) s]"
    "verdict (snd (notifyRsrcStatus n s m)) st s' = verdict m st s'"
  using assms
  by (auto simp: notifyRsrcStatus_def BIT_status_def ATL_status_def WIFI_status_def DS_status_def Let_def
      informStatus_def send_out_def verdict.simps split: sub_kind.splits)

lemma deliver_verdicts:
  assumes "rsrcStatus n = RSRC_GRANTED \<or> rsrcStatus n = RSRC_DENIED"
  shows "outbox (deliver n xs m) =
    outbox m @ map (\<lambda>x. verdict m (rsrcStatus n) (fst (snd x))) (filter (\<lambda>x. forMe n (fst (snd x))) xs)"
proof (induction xs arbitrary: m)
  case Nil
  then show ?case by simp
next
  case (Cons x xs)
  show ?case
    using Cons.IH [of "snd (notifyRsrcStatus n (fst (snd x)) m)"] assms
    by (cases "forMe n (fst (snd x))") (simp_all add: notify_verdict notify_other)
qed

section \<open>Properties\<close>

text \<open>C34. Whatever is subscribed, unsubscribed, granted, denied and released, and whatever the
  data service answers: an interface that is pending or acquired has an active subscriber,
  one that is being released has a subscriber, and one that is released has none; only the
  machine of the data service keeps subscribers there, whose data call is retried.\<close>

theorem agps_states_and_subscribers:
  assumes "m0 = AgpsStateMachine_ctor t ty b \<or> m0 = DSStateMachine_ctor t"
    and "run_steps (agps_cmd cb) es m0 = Some m"
  shows "(mStatePtr m = Pending \<or> mStatePtr m = Acquired \<longrightarrow> hasActiveSubscribers m)
       \<and> (mStatePtr m = Releasing \<longrightarrow> hasSubscribers m)
       \<and> (mStatePtr m = Released \<and> \<not> ds m \<longrightarrow> \<not> hasSubscribers m)"
proof -
  have "agps_inv m0" using assms(1) ctor_inv by blast
  from agps_run.run_good [OF this assms(2)] show ?thesis
    by (auto simp: agps_inv_def subs_good_def hasActive_iff hasSubscribers_def)
qed

definition atl :: "u32 \<Rightarrow> subscriber" where "atl i = \<lparr>ID = i, kind = ATLSubscriber False\<rparr>"
definition wifi :: "u32 \<Rightarrow> subscriber" where "wifi i = \<lparr>ID = i, kind = WIFISubscriber (Some ''net'') None False\<rparr>"

definition agps_sample :: "agps_event list" where
  "agps_sample = [Subscribe (wifi 7) (Some 10), Resource RSRC_GRANTED, Subscribe (atl 8) (Some 11), Unsubscribe (wifi 7)]"

lemma agps_sample_run:
  "map_option (\<lambda>m. (mStatePtr m, mSubscribers m, outbox m))
     (run_steps (agps_cmd (\<lambda>_ _. 0)) agps_sample (AgpsStateMachine_ctor servicerTypeAgps 1 False)) =
   Some (Acquired, [(11, atl 8, True), (10, with_inactive True (wifi 7), True)],
         [Nif_request 1 GPS_REQUEST_AGPS_DATA_CONN ''net'' [],
          Data_conn (Sender 7) GPSONE_LOC_API_IF_REQUEST_SUCCESS,
          Atl_open 8 1 None (-1) 1])"
  by code_simp

theorem agps_states_and_subscribers_witness:
  "\<exists>m. run_steps (agps_cmd (\<lambda>_ _. 0)) agps_sample (AgpsStateMachine_ctor servicerTypeAgps 1 False) = Some m
     \<and> mStatePtr m = Acquired \<and> hasActiveSubscribers m"
proof -
  obtain m where m: "run_steps (agps_cmd (\<lambda>_ _. 0)) agps_sample (AgpsStateMachine_ctor servicerTypeAgps 1 False) = Some m"
    "mStatePtr m = Acquired"
    using agps_sample_run by auto
  have "hasActiveSubscribers m"
    using agps_states_and_subscribers [OF disjI1 [OF refl] m(1)] m(2) by simp
  with m show ?thesis by blast
qed

text \<open>A pending interface that is granted is acquired and keeps its subscribers, of which
  every active one, and no other, is told so once; when it is denied every subscriber is
  told so once, in the order of the list, and the machine is left released and empty.\<close>

theorem pending_interface_verdicts:
  assumes "agps_inv m" "mStatePtr m = Pending"
  shows "mStatePtr (onRsrcEvent cb RSRC_GRANTED m) = Acquired
       \<and> mSubscribers (onRsrcEvent cb RSRC_GRANTED m) = mSubscribers m
       \<and> outbox (onRsrcEvent cb RSRC_GRANTED m) =
           outbox m @ map (\<lambda>x. verdict m RSRC_GRANTED (fst (snd x))) (active_subs (mSubscribers m))
       \<and> mStatePtr (onRsrcEvent cb RSRC_DENIED m) = Released
       \<and> mSubscribers (onRsrcEvent cb RSRC_DENIED m) = []
       \<and> outbox (onRsrcEvent cb RSRC_DENIED m) =
           outbox m @ map (\<lambda>x. verdict m RSRC_DENIED (fst (snd x))) (mSubscribers m)"
proof -
  have dis: "distinct (map fst (mSubscribers m))" using assms(1) by (simp add: agps_inv_def subs_good_def)
  define g where "g = broadcast BROADCAST_ACTIVE RSRC_GRANTED False"
  define d where "d = broadcast BROADCAST_ALL RSRC_DENIED True"
  have g: "onRsrcEvent cb RSRC_GRANTED m = (notifySubscribers g m)\<lparr>mStatePtr := Acquired\<rparr>"
    by (simp add: onRsrcEvent_def ds_onRsrcEvent_def agps_onRsrcEvent_def state_onRsrcEvent_def assms(2)
        pending_onRsrcEvent_def g_def)
  have d: "onRsrcEvent cb RSRC_DENIED m = (notifySubscribers d m)\<lparr>mStatePtr := Released\<rparr>"
    by (simp add: onRsrcEvent_def ds_onRsrcEvent_def agps_onRsrcEvent_def state_onRsrcEvent_def assms(2)
        pending_onRsrcEvent_def d_def)
  have gn: "notifySubscribers g m = deliver g (mSubscribers m) m"
    by (simp add: notifySubscribers_def search_tells_all g_def broadcast_def)
  obtain b where dn: "notifySubscribers d m = (deliver d (mSubscribers m) m)\<lparr>mSubscribers := [], stale_read := b\<rparr>"
    using notify_loop_tells [of d m] dis
    by (auto simp: notifySubscribers_def d_def broadcast_def telling_def forMe_def)
  show ?thesis
    unfolding g d gn dn
    using deliver_verdicts [of g "mSubscribers m" m] deliver_verdicts [of d "mSubscribers m" m]
    by (simp add: g_def d_def broadcast_def forMe_def active_subs_def)
qed

definition pending_sample :: agps_machine where
  "pending_sample = (AgpsStateMachine_ctor servicerTypeAgps 1 False)
     \<lparr>mStatePtr := Pending, mSubscribers := [(11, atl 8, True), (10, with_inactive True (wifi 7), True)]\<rparr>"

theorem pending_interface_verdicts_witness:
  "outbox (onRsrcEvent (\<lambda>_ _. 0) RSRC_GRANTED pending_sample) = [Atl_open 8 1 None (-1) 1]
   \<and> outbox (onRsrcEvent (\<lambda>_ _. 0) RSRC_DENIED pending_sample) =
       [Atl_open 8 0 None (-1) 1, Data_conn (Sender 7) GPSONE_LOC_API_IF_FAILURE]"
proof -
  have i: "agps_inv pending_sample" "mStatePtr pending_sample = Pending"
    by (simp_all add: pending_sample_def agps_inv_def subs_good_def atl_def isInactive.simps)
  have v: "outbox pending_sample = []"
    "map (\<lambda>x. verdict pending_sample RSRC_GRANTED (fst (snd x))) (active_subs (mSubscribers pending_sample)) =
       [Atl_open 8 1 None (-1) 1]"
    "map (\<lambda>x. verdict pending_sample RSRC_DENIED (fst (snd x))) (mSubscribers pending_sample) =
       [Atl_open 8 0 None (-1) 1, Data_conn (Sender 7) GPSONE_LOC_API_IF_FAILURE]"
    by code_simp+
  show ?thesis using pending_interface_verdicts [OF i, of "\<lambda>_ _. 0"] unfolding v by simp
qed

text \<open>
  Unsubscribing a client that is deleted at once, while another one stays, reads the deleted
  subscriber: the notification still refers to it when the rest of the list is searched.
\<close>

lemma unsubscribe_reads_deleted_subscriber:
  assumes "mStatePtr m = Pending \<or> mStatePtr m = Acquired" "distinct (map fst (mSubscribers m))"
    "find_sub (to_one (Own s) RSRC_STATUS_MAX False) m = Some (a, s', f)" "\<not> waitForCloseComplete s'"
    "y \<in> set (mSubscribers m)" "\<not> equals (fst (snd y)) s'"
  shows "stale_read (snd (unsubscribeRsrc cb s m))"
proof -
  have mem: "(a, s', f) \<in> set (mSubscribers m)"
    using find_split [of _ "mSubscribers m" "(a, s', f)"] assms(3) unfolding find_sub_eq by force
  have at: "sub_at a m = Some s'" using mem assms(2) by (simp add: sub_at_def)
  have "stale_read (close_subscriber a m)"
    unfolding close_subscriber_def at
    using notify_loop_stale [of "to_one (Listed a s') RSRC_UNSUBSCRIBE True" a s' f m y] mem assms
    by (simp add: to_one_def telling_def notifySubscribers_def)
  then have "stale_read (snd (after_close cb st (close_subscriber a m)))" for st
    by (simp add: after_close_def)
  then show ?thesis
    using assms(1,3)
    by (auto simp: unsubscribeRsrc_def state_onRsrcEvent_def split_def pending_onRsrcEvent_def acquired_onRsrcEvent_def)
qed

text \<open>A client that subscribes again while its release is awaited is told of nothing later on.\<close>

lemma subscription_during_release_lost:
  "map_option (\<lambda>m. (mStatePtr m, mSubscribers m))
     (run_steps (agps_cmd (\<lambda>_ _. 0))
       [Subscribe (wifi 7) (Some 10), Resource RSRC_GRANTED, Unsubscribe (wifi 7), Subscribe (wifi 7) (Some 11),
        Resource RSRC_RELEASED]
       (AgpsStateMachine_ctor servicerTypeAgps 4 False)) = Some (Released, [])"
  by code_simp

text \<open>A data service client whose call failed stays subscribed, whatever it does.\<close>

lemma ds_failed_client_stays:
  "map_option (\<lambda>m. (mStatePtr m, map (ID \<circ> fst \<circ> snd) (mSubscribers m)))
     (run_steps (agps_cmd (\<lambda>_ _. 2))
       [Subscribe \<lparr>ID = 5, kind = DSSubscriber False\<rparr> (Some 10), Unsubscribe \<lparr>ID = 5, kind = DSSubscriber False\<rparr>,
        Resource RSRC_RELEASED]
       (DSStateMachine_ctor servicerTypeExt)) = Some (Released, [5])"
  by code_simp

end
