(* ===== verification/Spec2Isabelle.thy ===== *)
theory Spec2Isabelle
  imports Ipacm_Queue Ipacm_Config Ipacm_NatApp Ipacm_CtListener Nat_Refine Ipacm_L2L_Claims Ipacm_Neighbor
    Ipacm_IfaceManager Ipacm_WlanClaims Shim_Utf Loc_Timer Loc_Agps
begin

text \<open>
  A verification library for the native daemons and libraries of this device tree. Its centre is
  the IPA connection manager (\<^verbatim>\<open>src/data-ipa-cfg-mgr\<close>), which moves the traffic of tethered clients
  into a hardware block (IPA); the second part is the utility and assisted-GPS layer of the GPS
  library (\<^verbatim>\<open>src/gps\<close>); the third are the string conversions of \<^verbatim>\<open>src/libshims\<close>.

  \<^bold>\<open>The program.\<close> Netlink, conntrack and configuration threads of the connection manager post
  events to one queue; its thread delivers each to the listeners that registered for it. The
  interface manager makes one object per interface on link events; the objects add headers, routing
  and filtering rules to the driver. The neighbor cache joins MAC and IP addresses and posts
  events of clients; the conntrack listener turns the kernel's connections into NAT entries, which
  the NAT application caches and the NAT driver library writes into tables shared with the hardware;
  the LAN to LAN module offloads the traffic between two local clients. In the GPS library, timers are
  kept in a heap and watched by a polling thread, tasks receive messages from a queue over a
  doubly linked list, and the AGPS state machines own the data connections of their subscribers.

  \<^bold>\<open>Theories, in the order of the code's layers.\<close>

  \<^item> \<open>Ipacm_Prelude\<close>: lists, searches (\<open>find_idx\<close>), words and byte order, the collections
    \<open>slot_simps\<close> and \<open>keeps\<close>, runs of steps (\<open>run_steps\<close>, the locales \<open>guarded_steps\<close> and
    \<open>total_steps\<close>: an invariant kept by every step holds after every run, and no step of such a run is
    undefined) and fixed tables with free slots (\<open>slot_table\<close>, interpreted on the NAT cache).
  \<^item> \<open>Ipacm_Chain\<close>: singly linked lists in an explicit store. Reading or writing a freed address is
    \<open>None\<close>; the loops are partial functions whose termination is shown for well-formed lists.
  \<^item> \<open>Ipacm_Events\<close>: event ids and payloads of \<^verbatim>\<open>IPACM_Defs.h\<close>.
  \<^item> \<open>Ipacm_Queue\<close>: \<^verbatim>\<open>IPACM_CmdQueue.cpp\<close> and \<^verbatim>\<open>IPACM_EvtDispatcher.cpp\<close>. The queue refines a list
    (locale \<open>fifo\<close>); events are delivered in the order of registration; a listener that deregisters
    itself in its callback can make the walk read freed memory.
  \<^item> \<open>Ipacm_Config\<close>: \<^verbatim>\<open>IPACM_Config.cpp\<close>, private subnets, NAT interfaces, resource dependencies.
  \<^item> \<open>Ipacm_Ioctl\<close>: the device wrappers \<^verbatim>\<open>IPACM_Filtering.cpp\<close>, \<^verbatim>\<open>IPACM_Header.cpp\<close>,
    \<^verbatim>\<open>IPACM_Routing.cpp\<close>, over the record \<open>ipa_kernel\<close> of system calls.
  \<^item> \<open>Ipacm_Iface\<close>: \<^verbatim>\<open>IPACM_Iface.cpp\<close>, the interface table, properties, default rules and software
    routing. \<open>Ipacm_IfaceManager\<close>: \<^verbatim>\<open>IPACM_IfaceManager.cpp\<close>; its runs of link events and of ends of
    objects keep one object per interface, and, composed with the dispatcher, the order of a category's
    registrations decides whether closing an object reads freed memory.
    \<open>Ipacm_Neighbor\<close>: \<^verbatim>\<open>IPACM_Neighbor.cpp\<close>.
  \<^item> \<open>Ipacm_NatApp\<close>: \<^verbatim>\<open>IPACM_Conntrack_NATApp.cpp\<close>; the cache as a finite map, which \<open>AddEntry\<close> and
    \<open>DeleteEntry\<close> refine. \<open>Ipacm_CtListener\<close>: \<^verbatim>\<open>IPACM_ConntrackListener.cpp\<close> over it.
  \<^item> \<open>Ipacm_Pairs\<close>, \<open>Ipacm_LanToLan\<close>: the pair resources of \<^verbatim>\<open>IPACM_Lan.cpp\<close> and \<^verbatim>\<open>IPACM_Wlan.cpp\<close>, and
    \<^verbatim>\<open>IPACM_LanToLan.cpp\<close>. \<open>Ipacm_L2L_Safe\<close>, \<open>Ipacm_L2L_Inv\<close>, \<open>Ipacm_L2L_Run\<close> hold what is assumed of the
    kernel, the invariant and its preservation; \<open>Ipacm_L2L_Claims\<close> the properties.
  \<^item> \<open>Ipacm_Clients\<close>, \<open>Ipacm_EthClient\<close>: the client table of \<^verbatim>\<open>IPACM_Lan.cpp\<close>, its headers, routing rules and
    handlers, and the routes of an ODU interface. \<open>Ipacm_ClientLaws\<close> states what is assumed of the driver and
    what each request sequence does to its rules and headers (\<open>eff\<close>), \<open>Ipacm_ClientTable\<close> lifts this to a
    table (\<open>account\<close>), \<open>Ipacm_EthRun\<close> and \<open>Ipacm_EthRefine\<close> to handlers and events against a specification,
    and \<open>Ipacm_EthClaims\<close> holds the properties. \<open>Ipacm_WlanClient\<close> is the client table of an access
    point of \<^verbatim>\<open>IPACM_Wlan.cpp\<close> over the same operations, with power save; \<open>Ipacm_WlanRun\<close>,
    \<open>Ipacm_WlanRefine\<close> and \<open>Ipacm_WlanClaims\<close> show what it leaves in the driver over a run, and that a removal does not move
    the power save flags.
  \<^item> \<open>Nat_Fields\<close>, \<open>Nat_Driver\<close>: \<^verbatim>\<open>ipa_nat_drv.c\<close>, \<^verbatim>\<open>ipa_nat_drvi.c\<close>: packed fields, hashes, checksum
    corrections, the base and expansion tables and their index tables. \<open>Nat_Chains\<close> states the chains
    as an interface (locale \<open>chained_table\<close>), \<open>Nat_Table\<close> interprets it, \<open>Nat_Add\<close> and \<open>Nat_Del\<close> show
    that insertion and deletion keep it, and \<open>Nat_Refine\<close> that the driver is a map from handles to rules
    (locale \<open>handle_map\<close>).
  \<^item> \<open>Loc_Heap\<close>, \<open>Loc_Timer\<close>, \<open>Loc_List\<close>, \<open>Loc_Agps\<close>: \<^verbatim>\<open>LocHeap.cpp\<close> (locales \<open>rankable\<close> and
    \<open>priority_queue\<close>), \<^verbatim>\<open>LocTimer.cpp\<close> as a step relation of clients, task and poller,
    \<^verbatim>\<open>linked_list.c\<close>, \<^verbatim>\<open>msg_q.c\<close> and \<^verbatim>\<open>MsgTask.cpp\<close> (again a \<open>fifo\<close>), and \<^verbatim>\<open>loc_eng_agps.cpp\<close>.
  \<^item> \<open>Shim_Utf\<close>: \<^verbatim>\<open>strdup16to8.cpp\<close> and \<^verbatim>\<open>strdup8to16.cpp\<close>, for any width of \<open>size_t\<close>.

  \<^bold>\<open>Conventions.\<close> A class or struct is a record, an array a list, a heap structure a store of
  addresses. Machine integers are words. The result \<open>None\<close>, or \<open>Inl\<close> of a fault, stands for undefined
  behaviour of the C code: a freed or null address, an index outside of an array, an uninitialised
  value. Return codes are the code's. Calls of the kernel, of the driver, of \<open>malloc\<close> and of libraries outside
  of the repository are arguments; what is assumed of them is a named hypothesis that a witness
  satisfies. Logging is left out. Code under \<^verbatim>\<open>FEATURE_IPA_ANDROID\<close> is modelled as built for Android.

  \<^bold>\<open>Bounds and fuel.\<close> No model uses fuel. Loops over lists are structural; the others are
  functions with a measure, or partial functions with a theorem that they return. Sizes are those of the
  code: 17 neighbors, 3 or 4 slots for pair headers, tables of at most \<open>2 ^ 15\<close> NAT entries.

  \<^bold>\<open>Not modelled.\<close> The WAN interface class, and of the LAN and WLAN classes the uplink and
  private subnet filters, tethering statistics and the Ethernet bridge: long sequences of requests over kernel
  structures that are not in the repository. The netlink
  decoder, whose message layouts are kernel headers; the conntrack client, the XML reader and process
  start, which call libraries only. In \<^verbatim>\<open>src/gps\<close>, the engine's glue to the Android interface, the daemon
  pipes, formatting of NMEA sentences in floating point, and logging. The radio interface
  library converts field by field between generated types. The HAL services (lights, infrared, touch,
  thermal, audio amplifier) and the boot scripts read and write files.
\<close>

end
